(* ===== verification/Prelude.thy ===== *)
theory Prelude
  imports Main "HOL-Library.Word"
begin

text \<open>
  Shared vocabulary of the development: the outcome type of C code whose behaviour may be
  undefined, the collections of rewrite rules the component theories add to, and the generic
  lemmas on lists, outcomes and machine integers that several components use.
\<close>

section \<open>Outcomes of C code\<close>

text \<open>
  A C operation either has a defined result (\<open>Inr\<close>) or has no defined behaviour, and then
  the model says why: a write past the end of an array, a read past the last byte whose value
  the program determines, a null pointer dereference, a pointer whose target is gone, a
  failed \<open>assert\<close>/\<open>abort\<close>, a signed integer operation whose result does not fit its type,
  or a call through a function pointer of another type. A loop that uses up the rounds that the
  model gives it ends in \<open>OutOfFuel\<close>, and a wait for something that no other thread will do in \<open>Blocked\<close>.
\<close>

datatype ub = Overflow | PastEnd | NullDeref | Dangling | Aborted | SignedOverflow | WrongType | OutOfFuel | Blocked

type_synonym 'a c = "ub + 'a"

definition bindc :: "'a c \<Rightarrow> ('a \<Rightarrow> 'b c) \<Rightarrow> 'b c" where
  "bindc m f = (case m of Inl e \<Rightarrow> Inl e | Inr x \<Rightarrow> f x)"

definition defined :: "'a c \<Rightarrow> bool" where
  "defined m = (case m of Inl _ \<Rightarrow> False | Inr _ \<Rightarrow> True)"

named_theorems c_simps \<open>evaluation of outcomes\<close>
named_theorems wf_intros \<open>operations preserve their component's invariant\<close>

lemma bindc_Inl [simp, c_simps]: "bindc (Inl e) f = Inl e"
  by (simp add: bindc_def)

lemma bindc_Inr [simp, c_simps]: "bindc (Inr x) f = f x"
  by (simp add: bindc_def)

lemma bindc_eq_Inr: "bindc m f = Inr y \<longleftrightarrow> (\<exists>x. m = Inr x \<and> f x = Inr y)"
  by (cases m) auto

lemma bindc_eq_Inl: "bindc m f = Inl e \<longleftrightarrow> m = Inl e \<or> (\<exists>x. m = Inr x \<and> f x = Inl e)"
  by (cases m) auto

lemma bindc_assoc: "bindc (bindc m f) g = bindc m (\<lambda>x. bindc (f x) g)"
  by (cases m) auto

lemma bindc_cong [fundef_cong]:
  "m = m' \<Longrightarrow> (\<And>x. m' = Inr x \<Longrightarrow> f x = f' x) \<Longrightarrow> bindc m f = bindc m' f'"
  by (cases m') auto

lemma defined_Inl [simp, c_simps]: "\<not> defined (Inl e)"
  by (simp add: defined_def)

lemma defined_Inr [simp, c_simps]: "defined (Inr x)"
  by (simp add: defined_def)

lemma defined_iff: "defined m \<longleftrightarrow> (\<exists>x. m = Inr x)"
  by (cases m) auto

lemma defined_bindc: "defined (bindc m f) \<longleftrightarrow> (\<exists>x. m = Inr x \<and> defined (f x))"
  by (cases m) auto

text \<open>\<open>okc P m\<close>: if \<open>m\<close> has a defined result, the result satisfies \<open>P\<close>.\<close>

definition okc :: "('a \<Rightarrow> bool) \<Rightarrow> 'a c \<Rightarrow> bool" where
  "okc P m = (case m of Inl _ \<Rightarrow> True | Inr x \<Rightarrow> P x)"

lemma okc_Inl [simp]: "okc P (Inl e)"
  by (simp add: okc_def)

lemma okc_Inr [simp]: "okc P (Inr x) \<longleftrightarrow> P x"
  by (simp add: okc_def)

lemma okc_iff: "okc P m \<longleftrightarrow> (\<forall>x. m = Inr x \<longrightarrow> P x)"
  by (cases m) auto

lemma okc_bindc: "okc P (bindc m f) \<longleftrightarrow> okc (\<lambda>x. okc P (f x)) m"
  by (cases m) auto

lemma okc_true: "okc (\<lambda>_. True) m"
  by (cases m) auto

lemma okc_if: "(b \<Longrightarrow> okc P m) \<Longrightarrow> (\<not> b \<Longrightarrow> okc P n) \<Longrightarrow> okc P (if b then m else n)"
  by simp

lemma okc_case_option:
  "(x = None \<Longrightarrow> okc P m) \<Longrightarrow> (\<And>y. x = Some y \<Longrightarrow> okc P (f y)) \<Longrightarrow>
     okc P (case x of None \<Rightarrow> m | Some y \<Rightarrow> f y)"
  by (cases x) auto

lemma okc_case_prod: "(\<And>a b. x = (a, b) \<Longrightarrow> okc P (f a b)) \<Longrightarrow> okc P (case x of (a, b) \<Rightarrow> f a b)"
  by (cases x) auto

lemma okc_mono: "okc P m \<Longrightarrow> (\<And>x. P x \<Longrightarrow> Q x) \<Longrightarrow> okc Q m"
  by (cases m) auto

lemma okc_bindI: "okc Q m \<Longrightarrow> (\<And>x. Q x \<Longrightarrow> okc P (f x)) \<Longrightarrow> okc P (bindc m f)"
  by (cases m) auto

section \<open>The 32-bit \<open>int\<close> of the target\<close>

definition int_min :: int where "int_min = - (2 ^ 31)"
definition int_max :: int where "int_max = 2 ^ 31 - 1"

definition c_int :: "int \<Rightarrow> int" where
  "c_int x = (x + 2 ^ 31) mod 2 ^ 32 - 2 ^ 31"

definition in_int :: "int \<Rightarrow> bool" where
  "in_int x \<longleftrightarrow> int_min \<le> x \<and> x \<le> int_max"

lemma c_int_id [simp]: "in_int x \<Longrightarrow> c_int x = x"
  by (simp add: in_int_def int_min_def int_max_def c_int_def)

lemma c_int_range [simp, intro]: "in_int (c_int x)"
proof -
  have "0 \<le> (x + 2 ^ 31) mod 2 ^ 32" and "(x + 2 ^ 31) mod 2 ^ 32 < 2 ^ 32" by simp_all
  then show ?thesis by (simp add: in_int_def int_min_def int_max_def c_int_def)
qed

lemma in_int_numeral [simp]:
  "in_int 0" "in_int 1" "in_int 7" "in_int 99999"
  by (simp_all add: in_int_def int_min_def int_max_def)

section \<open>Lists\<close>

lemma takeWhile_neq_append [simp]:
  "c \<notin> set xs \<Longrightarrow> takeWhile (\<lambda>x. x \<noteq> c) (xs @ c # ys) = xs"
  by (induction xs) auto

lemma dropWhile_neq_append [simp]:
  "c \<notin> set xs \<Longrightarrow> dropWhile (\<lambda>x. x \<noteq> c) (xs @ c # ys) = c # ys"
  by (induction xs) auto

lemma takeWhile_neq_id [simp]: "c \<notin> set xs \<Longrightarrow> takeWhile (\<lambda>x. x \<noteq> c) xs = xs"
  by (induction xs) auto

lemma dropWhile_neq_Nil [simp]: "c \<notin> set xs \<Longrightarrow> dropWhile (\<lambda>x. x \<noteq> c) xs = []"
  by (induction xs) auto

lemma length_takeWhile_less_take:
  "c \<in> set (take n xs) \<Longrightarrow> length (takeWhile (\<lambda>x. x \<noteq> c) xs) < n"
proof (induction xs arbitrary: n)
  case (Cons x xs)
  then show ?case by (cases n) auto
qed simp

lemma list_all_update:
  "list_all P xs \<Longrightarrow> P x \<Longrightarrow> list_all P (xs[i := x])"
  by (auto simp: list_all_iff dest: set_update_subset_insert [THEN subsetD])

end
