(* ===== verification/Libc.thy ===== *)
theory Libc
  imports Prelude
begin

text \<open>
  The part of the C library that the programs call: \<open>struct stat\<close> and, on \<open>string\<close>s without their
  terminating NUL: bounded copies into arrays, \<open>strtok\<close>, \<open>atoi\<close>, \<open>sprintf\<close> of \<open>%d\<close>,
  \<open>fgets\<close>, and the error numbers of the target.
\<close>

section \<open>Characters and error numbers\<close>

abbreviation NUL :: char where "NUL \<equiv> CHR 0x00"
abbreviation NL :: char where "NL \<equiv> CHR 0x0A"

abbreviation (input) ENOENT :: int where "ENOENT \<equiv> 2"
abbreviation (input) EINTR :: int where "EINTR \<equiv> 4"
abbreviation (input) EIO :: int where "EIO \<equiv> 5"
abbreviation (input) E2BIG :: int where "E2BIG \<equiv> 7"
abbreviation (input) EAGAIN :: int where "EAGAIN \<equiv> 11"
abbreviation (input) ENOMEM :: int where "ENOMEM \<equiv> 12"
abbreviation (input) EACCES :: int where "EACCES \<equiv> 13"
abbreviation (input) EBUSY :: int where "EBUSY \<equiv> 16"
abbreviation (input) EEXIST :: int where "EEXIST \<equiv> 17"
abbreviation (input) ENODEV :: int where "ENODEV \<equiv> 19"
abbreviation (input) EINVAL :: int where "EINVAL \<equiv> 22"
abbreviation (input) ERANGE :: int where "ERANGE \<equiv> 34"
abbreviation (input) ENOLCK :: int where "ENOLCK \<equiv> 37"
abbreviation (input) ENOSYS :: int where "ENOSYS \<equiv> 38"
abbreviation (input) EPROTO :: int where "EPROTO \<equiv> 71"
abbreviation (input) EILSEQ :: int where "EILSEQ \<equiv> 84"

definition c_string :: "string \<Rightarrow> bool" where
  "c_string s \<longleftrightarrow> NUL \<notin> set s"

section \<open>File attributes\<close>

record timespec =
  tv_sec :: int
  tv_nsec :: int

record stat =
  st_ino :: nat
  st_mode :: nat
  st_nlink :: nat
  st_uid :: nat
  st_gid :: nat
  st_rdev :: nat
  st_size :: int
  st_blksize :: nat
  st_blocks :: nat
  st_atim :: timespec
  st_mtim :: timespec
  st_ctim :: timespec

text \<open>\<open>memset (st, 0, sizeof (struct stat))\<close>\<close>

definition stat0 :: stat where
  "stat0 = (let z = \<lparr>tv_sec = 0, tv_nsec = 0\<rparr> in
     \<lparr>st_ino = 0, st_mode = 0, st_nlink = 0, st_uid = 0, st_gid = 0, st_rdev = 0, st_size = 0,
      st_blksize = 0, st_blocks = 0, st_atim = z, st_mtim = z, st_ctim = z\<rparr>)"

section \<open>Copies into arrays\<close>

text \<open>
  \<open>strcpy\<close> and \<open>sprintf\<close> into an array of \<open>n\<close> bytes write the string and its terminator:
  the copy is defined exactly when both fit.
\<close>

definition strcpy :: "nat \<Rightarrow> string \<Rightarrow> string c" where
  "strcpy n s = (if length s < n then Inr s else Inl Overflow)"

lemma strcpy_eq_Inr [simp]: "strcpy n s = Inr t \<longleftrightarrow> length s < n \<and> t = s"
  by (auto simp: strcpy_def)

lemma defined_strcpy [simp]: "defined (strcpy n s) \<longleftrightarrow> length s < n"
  by (simp add: strcpy_def)

lemma okc_strcpy [simp]: "okc P (strcpy n s) \<longleftrightarrow> (length s < n \<longrightarrow> P s)"
  by (simp add: strcpy_def)

text \<open>
  \<open>memcpy (dst, s + off, len)\<close> from an array of \<open>n\<close> bytes that holds the string \<open>t\<close>
  and its terminator, with the bytes after it never written.
\<close>

definition read_array :: "nat \<Rightarrow> string \<Rightarrow> nat \<Rightarrow> nat \<Rightarrow> string c" where
  "read_array n t off len =
     (if off + len \<le> length t + 1 \<and> off + len \<le> n
      then Inr (take len (drop off (t @ [NUL])))
      else Inl PastEnd)"

text \<open>Pointer arithmetic on a string argument: \<open>p + n\<close> may reach the terminator, not pass it.\<close>

definition str_from :: "string \<Rightarrow> nat \<Rightarrow> string c" where
  "str_from s n = (if n \<le> length s then Inr (drop n s) else Inl PastEnd)"

text \<open>The string that starts at a byte buffer of known contents, if a NUL ends it there.\<close>

definition buf_string :: "char list \<Rightarrow> string c" where
  "buf_string b = (if NUL \<in> set b then Inr (takeWhile (\<lambda>x. x \<noteq> NUL) b) else Inl PastEnd)"

section \<open>Decimal numbers\<close>

definition isspace :: "char \<Rightarrow> bool" where
  "isspace ch \<longleftrightarrow> ch \<in> {CHR '' '', CHR 0x09, NL, CHR 0x0B, CHR 0x0C, CHR 0x0D}"

definition isdigit :: "char \<Rightarrow> bool" where
  "isdigit ch \<longleftrightarrow> 48 \<le> (of_char ch :: nat) \<and> (of_char ch :: nat) \<le> 57"

definition digit_val :: "char \<Rightarrow> int" where
  "digit_val ch = int (of_char ch) - 48"

definition digit_char :: "nat \<Rightarrow> char" where
  "digit_char d = ''0123456789'' ! d"

fun show_nat :: "nat \<Rightarrow> string" where
  "show_nat n = (if n < 10 then [digit_char n] else show_nat (n div 10) @ [digit_char (n mod 10)])"

declare show_nat.simps [simp del]

text \<open>\<open>printf ("%d")\<close>.\<close>

definition show_int :: "int \<Rightarrow> string" where
  "show_int x = (if x < 0 then CHR ''-'' # show_nat (nat (- x)) else show_nat (nat x))"

text \<open>\<open>strtol (s, NULL, 10)\<close> and \<open>atoi\<close>, which is \<open>(int) strtol (s, NULL, 10)\<close>.\<close>

definition sign_of :: "string \<Rightarrow> bool \<times> string" where
  "sign_of s = (case s of [] \<Rightarrow> (False, [])
     | ch # r \<Rightarrow> if ch = CHR ''-'' then (True, r)
                 else if ch = CHR ''+'' then (False, r) else (False, s))"

definition digits_val :: "string \<Rightarrow> int" where
  "digits_val ds = foldl (\<lambda>a ch. 10 * a + digit_val ch) 0 ds"

definition strtol :: "string \<Rightarrow> int" where
  "strtol s = (let (neg, r) = sign_of (dropWhile isspace s);
                   v = digits_val (takeWhile isdigit r)
               in max (- (2 ^ 63)) (min (2 ^ 63 - 1) (if neg then - v else v)))"

definition atoi :: "string \<Rightarrow> int" where
  "atoi s = c_int (strtol s)"

text \<open>
  \<open>atoi\<close> on a byte buffer that need not hold a NUL: it stops at the first byte that is not
  part of the number, and is undefined when the buffer ends before that.
\<close>

definition atoi_buf :: "char list \<Rightarrow> int c" where
  "atoi_buf b = (if dropWhile isdigit (snd (sign_of (dropWhile isspace b))) = []
                 then Inl PastEnd else Inr (atoi b))"

section \<open>\<open>strtok\<close> and \<open>fgets\<close>\<close>

text \<open>
  One call of \<open>strtok (_, ":")\<close> on the remaining text: skip delimiters, take the token up to
  the next delimiter, and keep what follows it. Empty fields are therefore never returned.
\<close>

definition strtok :: "char \<Rightarrow> string \<Rightarrow> string option \<times> string" where
  "strtok d s = (let r = dropWhile (\<lambda>x. x = d) s
                 in if r = [] then (None, [])
                    else (Some (takeWhile (\<lambda>x. x \<noteq> d) r), tl (dropWhile (\<lambda>x. x \<noteq> d) r)))"

text \<open>\<open>fgets (line, n + 1, f)\<close>: up to \<open>n\<close> bytes, stopping after a newline.\<close>

fun fgets :: "nat \<Rightarrow> string \<Rightarrow> string \<times> string" where
  "fgets 0 s = ([], s)"
| "fgets (Suc n) [] = ([], [])"
| "fgets (Suc n) (ch # s) =
     (if ch = NL then ([ch], s) else let (l, r) = fgets n s in (ch # l, r))"

lemma fgets_rest: "length (snd (fgets n s)) \<le> length s"
  by (induction n s rule: fgets.induct) (auto simp: Let_def split: prod.splits)

lemma fgets_rest_less: "0 < n \<Longrightarrow> s \<noteq> [] \<Longrightarrow> length (snd (fgets n s)) < length s"
  using fgets_rest by (cases n; cases s) (auto simp: Let_def less_Suc_eq_le split: prod.splits, metis snd_conv)

text \<open>The successive lines a loop over \<open>fgets\<close> sees, each without what follows a NUL in it.\<close>

function fgets_lines :: "nat \<Rightarrow> string \<Rightarrow> string list" where
  "fgets_lines n s =
     (if n = 0 \<or> s = [] then []
      else takeWhile (\<lambda>x. x \<noteq> NUL) (fst (fgets n s)) # fgets_lines n (snd (fgets n s)))"
  by pat_completeness auto
termination
  by (relation "measure (\<lambda>(n, s). length s)") (auto simp: fgets_rest_less)

declare fgets_lines.simps [simp del]

section \<open>Reading back what was printed\<close>

lemma of_char_digit_char: "d < 10 \<Longrightarrow> (of_char (digit_char d) :: nat) = 48 + d"
  by (auto simp: digit_char_def numeral_eq_Suc less_Suc_eq)

lemma isdigit_digit_char [simp]: "d < 10 \<Longrightarrow> isdigit (digit_char d)"
  by (simp add: isdigit_def of_char_digit_char)

lemma digit_val_digit_char [simp]: "d < 10 \<Longrightarrow> digit_val (digit_char d) = int d"
proof -
  assume "d < 10"
  then have "(of_char (digit_char d) :: nat) = 48 + d" by (rule of_char_digit_char)
  then show ?thesis by (simp add: digit_val_def)
qed

lemma show_nat_nonempty [simp]: "show_nat n \<noteq> []"
  by (subst show_nat.simps) simp

lemma show_nat_digits: "list_all isdigit (show_nat n)"
proof (induction n rule: show_nat.induct)
  case (1 n)
  then show ?case by (subst show_nat.simps) (simp add: list_all_append)
qed

lemma digits_val_snoc: "digits_val (ds @ [ch]) = 10 * digits_val ds + digit_val ch"
  by (simp add: digits_val_def)

lemma digits_val_show_nat [simp]: "digits_val (show_nat n) = int n"
proof (induction n rule: show_nat.induct)
  case (1 n)
  show ?case
  proof (cases "n < 10")
    case True
    then show ?thesis by (subst show_nat.simps) (simp add: digits_val_def)
  next
    case False
    then have "digits_val (show_nat n) = 10 * int (n div 10) + int (n mod 10)"
      using "1.IH" by (subst show_nat.simps) (simp add: digits_val_snoc)
    also have "\<dots> = int n" by presburger
    finally show ?thesis .
  qed
qed

lemma not_isspace_digit: "isdigit ch \<Longrightarrow> \<not> isspace ch"
  by (auto simp: isdigit_def isspace_def)

lemma digit_not_sign: "isdigit ch \<Longrightarrow> ch \<noteq> CHR ''-'' \<and> ch \<noteq> CHR ''+''"
  by (auto simp: isdigit_def)

lemma show_nat_hd: "isdigit (hd (show_nat n))"
  using show_nat_digits [of n] by (cases "show_nat n") auto

lemma takeWhile_digits_append:
  "list_all isdigit ds \<Longrightarrow> (rest = [] \<or> \<not> isdigit (hd rest)) \<Longrightarrow> takeWhile isdigit (ds @ rest) = ds"
  by (induction ds) (auto simp: neq_Nil_conv takeWhile_eq_Nil_iff)

lemma strtol_show_int:
  assumes "in_int x" and "rest = [] \<or> \<not> isdigit (hd rest)"
  shows "strtol (show_int x @ rest) = x"
proof -
  have rng: "- (2 ^ 63) \<le> x" "x \<le> 2 ^ 63 - 1"
    using assms(1) by (simp_all add: in_int_def int_min_def int_max_def)
  have tw: "takeWhile isdigit (show_nat n @ rest) = show_nat n" for n
    using assms(2) by (simp add: takeWhile_digits_append show_nat_digits)
  show ?thesis
  proof (cases "x < 0")
    case True
    then have sgn: "sign_of (dropWhile isspace (show_int x @ rest)) = (True, show_nat (nat (- x)) @ rest)"
      by (simp add: show_int_def sign_of_def isspace_def)
    show ?thesis using True rng by (simp add: strtol_def sgn tw)
  next
    case False
    obtain d ds where d: "show_nat (nat x) = d # ds" by (cases "show_nat (nat x)") auto
    then have "isdigit d" using show_nat_hd [of "nat x"] by simp
    then have sgn: "sign_of (dropWhile isspace (show_int x @ rest)) = (False, show_nat (nat x) @ rest)"
      using False d by (simp add: show_int_def sign_of_def not_isspace_digit digit_not_sign)
    show ?thesis using False rng by (simp add: strtol_def sgn tw)
  qed
qed

lemma atoi_show_int:
  "in_int x \<Longrightarrow> rest = [] \<or> \<not> isdigit (hd rest) \<Longrightarrow> atoi (show_int x @ rest) = x"
  by (simp add: atoi_def strtol_show_int)

lemma in_int_atoi [simp, intro]: "in_int (atoi s)"
  by (simp add: atoi_def)

lemma show_int_nonempty [simp]: "show_int x \<noteq> []"
  by (simp add: show_int_def)

lemma show_nat_chars: "ch \<in> set (show_nat n) \<Longrightarrow> isdigit ch"
  using show_nat_digits by (auto simp: list_all_iff)

lemma show_int_chars: "ch \<in> set (show_int x) \<Longrightarrow> isdigit ch \<or> ch = CHR ''-''"
  by (auto simp: show_int_def dest: show_nat_chars split: if_splits)

lemma show_int_no_sep [simp]:
  "CHR '':'' \<notin> set (show_int x)" "NL \<notin> set (show_int x)" "NUL \<notin> set (show_int x)"
  using show_int_chars by (fastforce simp: isdigit_def)+

end
