(* ===== verification/Md5.thy ===== *)
theory Md5
  imports Libc
begin

text \<open>
  \<open>src/src/md5.h\<close>: the MD5 digest and \<open>hashword\<close>, which turns a password into the 32
  hexadecimal digits the shadow tree stores. \<open>uint32_t\<close> and \<open>uint8_t\<close> are words, so
  additions wrap and shifts drop bits as in C; lengths and offsets are natural numbers.
\<close>

unbundle bit_operations_syntax

type_synonym u32 = "32 word"
type_synonym u8 = "8 word"

section \<open>The algorithm\<close>

definition md5_k :: "u32 list" where
  "md5_k = [
   0xd76aa478, 0xe8c7b756, 0x242070db, 0xc1bdceee,
   0xf57c0faf, 0x4787c62a, 0xa8304613, 0xfd469501,
   0x698098d8, 0x8b44f7af, 0xffff5bb1, 0x895cd7be,
   0x6b901122, 0xfd987193, 0xa679438e, 0x49b40821,
   0xf61e2562, 0xc040b340, 0x265e5a51, 0xe9b6c7aa,
   0xd62f105d, 0x02441453, 0xd8a1e681, 0xe7d3fbc8,
   0x21e1cde6, 0xc33707d6, 0xf4d50d87, 0x455a14ed,
   0xa9e3e905, 0xfcefa3f8, 0x676f02d9, 0x8d2a4c8a,
   0xfffa3942, 0x8771f681, 0x6d9d6122, 0xfde5380c,
   0xa4beea44, 0x4bdecfa9, 0xf6bb4b60, 0xbebfbc70,
   0x289b7ec6, 0xeaa127fa, 0xd4ef3085, 0x04881d05,
   0xd9d4d039, 0xe6db99e5, 0x1fa27cf8, 0xc4ac5665,
   0xf4292244, 0x432aff97, 0xab9423a7, 0xfc93a039,
   0x655b59c3, 0x8f0ccc92, 0xffeff47d, 0x85845dd1,
   0x6fa87e4f, 0xfe2ce6e0, 0xa3014314, 0x4e0811a1,
   0xf7537e82, 0xbd3af235, 0x2ad7d2bb, 0xeb86d391]"

definition md5_r :: "nat list" where
  "md5_r = [7, 12, 17, 22, 7, 12, 17, 22, 7, 12, 17, 22, 7, 12, 17, 22,
        5,  9, 14, 20, 5,  9, 14, 20, 5,  9, 14, 20, 5,  9, 14, 20,
        4, 11, 16, 23, 4, 11, 16, 23, 4, 11, 16, 23, 4, 11, 16, 23,
        6, 10, 15, 21, 6, 10, 15, 21, 6, 10, 15, 21, 6, 10, 15, 21]"

definition LEFTROTATE :: "u32 \<Rightarrow> nat \<Rightarrow> u32" where
  "LEFTROTATE x c = (push_bit c x) OR (drop_bit (32 - c) x)"

definition to_bytes :: "u32 \<Rightarrow> u8 list" where
  "to_bytes val = [ucast val, ucast (drop_bit 8 val), ucast (drop_bit 16 val), ucast (drop_bit 24 val)]"

text \<open>\<open>to_int32\<close> reads the four bytes at a position of the message.\<close>

definition to_int32 :: "u8 list \<Rightarrow> nat \<Rightarrow> u32" where
  "to_int32 bytes p =
     ucast (bytes ! p) OR push_bit 8 (ucast (bytes ! (p + 1)))
     OR push_bit 16 (ucast (bytes ! (p + 2))) OR push_bit 24 (ucast (bytes ! (p + 3)))"

text \<open>\<open>for (new_len = initial_len + 1; new_len % (512/8) != 448/8; new_len++)\<close>\<close>

function pad_loop :: "nat \<Rightarrow> nat" where
  "pad_loop new_len = (if new_len mod 64 \<noteq> 56 then pad_loop (new_len + 1) else new_len)"
  by pat_completeness auto
termination
  by (relation "measure (\<lambda>n. if n mod 64 \<le> 56 then 56 - n mod 64 else 120 - n mod 64)")
    (auto simp: mod_Suc)

declare pad_loop.simps [simp del]

text \<open>
  The padded message. \<open>malloc\<close> is taken to give the block (its result is not checked), and lengths
  are natural numbers: only the two stored words of the bit length wrap.
\<close>

definition prepare :: "u8 list \<Rightarrow> u8 list" where
  "prepare initial_msg =
     (let initial_len = length initial_msg;
          new_len = pad_loop (initial_len + 1)
      in initial_msg @ [0x80] @ map (\<lambda>_. 0) [initial_len + 1..<new_len]
         @ to_bytes (word_of_nat (initial_len * 8)) @ to_bytes (word_of_nat (initial_len div 2 ^ 29)))"

text \<open>One turn of the main loop on the registers \<open>(a, b, c, d)\<close>.\<close>

definition md5_f :: "nat \<Rightarrow> u32 \<Rightarrow> u32 \<Rightarrow> u32 \<Rightarrow> u32" where
  "md5_f i b c d =
     (if i < 16 then (b AND c) OR (NOT b AND d)
      else if i < 32 then (d AND b) OR (NOT d AND c)
      else if i < 48 then b XOR c XOR d
      else c XOR (b OR NOT d))"

definition md5_g :: "nat \<Rightarrow> nat" where
  "md5_g i =
     (if i < 16 then i
      else if i < 32 then (5 * i + 1) mod 16
      else if i < 48 then (3 * i + 5) mod 16
      else (7 * i) mod 16)"

fun md5_step :: "u32 list \<Rightarrow> u32 \<times> u32 \<times> u32 \<times> u32 \<Rightarrow> nat \<Rightarrow> u32 \<times> u32 \<times> u32 \<times> u32" where
  "md5_step w (a, b, c, d) i =
     (d, b + LEFTROTATE (a + md5_f i b c d + md5_k ! i + w ! md5_g i) (md5_r ! i), b, c)"

fun md5_chunk :: "u8 list \<Rightarrow> nat \<Rightarrow> u32 \<times> u32 \<times> u32 \<times> u32 \<Rightarrow> u32 \<times> u32 \<times> u32 \<times> u32" where
  "md5_chunk msg offset (h0, h1, h2, h3) =
     (let w = map (\<lambda>i. to_int32 msg (offset + i * 4)) [0..<16];
          (a, b, c, d) = foldl (md5_step w) (h0, h1, h2, h3) [0..<64]
      in (h0 + a, h1 + b, h2 + c, h3 + d))"

text \<open>\<open>for (offset = 0; offset < new_len; offset += 512/8)\<close>\<close>

function md5_loop :: "u8 list \<Rightarrow> nat \<Rightarrow> nat \<Rightarrow> u32 \<times> u32 \<times> u32 \<times> u32 \<Rightarrow> u32 \<times> u32 \<times> u32 \<times> u32" where
  "md5_loop msg new_len offset h =
     (if offset < new_len then md5_loop msg new_len (offset + 64) (md5_chunk msg offset h) else h)"
  by pat_completeness auto
termination
  by (relation "measure (\<lambda>(msg, new_len, offset, h). new_len - offset)") auto

declare md5_loop.simps [simp del]

definition md5 :: "u8 list \<Rightarrow> u8 list" where
  "md5 initial_msg =
     (let new_len = pad_loop (length initial_msg + 1);
          (h0, h1, h2, h3) = md5_loop (prepare initial_msg) new_len 0
             (0x67452301, 0xefcdab89, 0x98badcfe, 0x10325476)
      in to_bytes h0 @ to_bytes h1 @ to_bytes h2 @ to_bytes h3)"

section \<open>\<open>hashword\<close>\<close>

definition hex_char :: "nat \<Rightarrow> char" where
  "hex_char n = ''0123456789abcdef'' ! n"

text \<open>\<open>sprintf (filler, "%2.2x", byte)\<close>\<close>

definition hex_byte :: "u8 \<Rightarrow> string" where
  "hex_byte x = [hex_char (unat x div 16), hex_char (unat x mod 16)]"

text \<open>The digest is recomputed a million times from the same text, each time into \<open>result\<close>.\<close>

definition HASH_ROUNDS :: nat where "HASH_ROUNDS = 1000000"

primrec repeat_md5 :: "nat \<Rightarrow> u8 list \<Rightarrow> u8 list \<Rightarrow> u8 list" where
  "repeat_md5 0 plaintext result = result"
| "repeat_md5 (Suc n) plaintext result = repeat_md5 n plaintext (md5 plaintext)"

definition bytes_of :: "string \<Rightarrow> u8 list" where
  "bytes_of s = map of_char s"

text \<open>\<open>result\<close> is not initialised before the loop: its first contents are \<open>junk\<close>.\<close>

definition hashword :: "u8 list \<Rightarrow> string \<Rightarrow> string" where
  "hashword junk plaintext =
     concat (map hex_byte (repeat_md5 HASH_ROUNDS (bytes_of plaintext) junk))"

section \<open>Padding, byte order, rotation\<close>

lemma pad_loop_bounds: "n \<le> pad_loop n \<and> pad_loop n < n + 64 \<and> pad_loop n mod 64 = 56"
proof -
  have "n \<le> pad_loop n \<and> pad_loop n \<le> n + (if n mod 64 \<le> 56 then 56 - n mod 64 else 120 - n mod 64)
        \<and> pad_loop n mod 64 = 56"
  proof (induction n rule: pad_loop.induct)
    case (1 n)
    have "n mod 64 < 64" by simp
    with "1.IH" show ?case
      by (cases "n mod 64 = 56") (auto simp: pad_loop.simps [of n] mod_Suc split: if_splits)
  qed
  moreover have "(if n mod 64 \<le> 56 then 56 - n mod 64 else 120 - n mod 64) < 64"
    by auto
  ultimately show ?thesis by linarith
qed

lemma pad_loop_closed: "pad_loop (n + 1) = 64 * ((n + 8) div 64) + 56"
proof -
  let ?p = "pad_loop (n + 1)"
  have p: "?p = 64 * (?p div 64) + 56"
    using pad_loop_bounds [of "n + 1"] mult_div_mod_eq [of 64 ?p] by simp
  moreover have "(n + 8) div 64 = ?p div 64"
    using pad_loop_bounds [of "n + 1"] p by (intro div_nat_eqI) auto
  ultimately show ?thesis by simp
qed

lemma length_to_bytes [simp]: "length (to_bytes w) = 4"
  by (simp add: to_bytes_def)

lemma byte_position: "n < 32 \<Longrightarrow> (\<exists>m<8. n = m \<or> n = 8 + m \<or> n = 16 + m \<or> n = 24 + (m :: nat))"
  by presburger

lemma to_int32_to_bytes: "to_int32 (to_bytes w) 0 = w"
proof (rule bit_word_eqI)
  fix n assume "n < LENGTH(32)"
  then obtain m where m: "m < 8" and "n = m \<or> n = 8 + m \<or> n = 16 + m \<or> n = 24 + m"
    using byte_position [of n] by auto
  then consider "n = m" | "n = 8 + m" | "n = 16 + m" | "n = 24 + m" by blast
  then show "bit (to_int32 (to_bytes w) 0) n = bit w n"
    by cases (use m in \<open>simp_all add: to_int32_def to_bytes_def bit_simps\<close>)
qed

lemma bit_u8_ge: "8 \<le> n \<Longrightarrow> \<not> bit (b :: u8) n"
  using bit_imp_le_length [of b n] by auto

lemma to_bytes_to_int32: "to_bytes (to_int32 [b0, b1, b2, b3] 0) = [b0, b1, b2, b3]"
proof -
  have byte: "ucast (drop_bit (8 * i) (to_int32 [b0, b1, b2, b3] 0)) = [b0, b1, b2, b3] ! i"
    if "i < 4" for i
  proof (rule bit_word_eqI)
    fix n assume "n < LENGTH(8)"
    then have "n < 8" by simp
    from that have "i = 0 \<or> i = 1 \<or> i = 2 \<or> i = 3" by linarith
    then consider "i = 0" | "i = 1" | "i = 2" | "i = 3" by blast
    then show "bit (ucast (drop_bit (8 * i) (to_int32 [b0, b1, b2, b3] 0)) :: u8) n
          = bit ([b0, b1, b2, b3] ! i) n"
      by cases (use \<open>n < 8\<close> in \<open>simp_all add: to_int32_def bit_simps bit_u8_ge\<close>)
  qed
  show ?thesis using byte [of 0] byte [of 1] byte [of 2] byte [of 3] by (simp add: to_bytes_def)
qed

lemma LEFTROTATE_rotl:
  assumes "0 < c" "c < 32"
  shows "LEFTROTATE x c = word_rotl c x"
proof (rule bit_word_eqI)
  fix n assume "n < LENGTH(32)"
  then have n: "n < 32" by simp
  have out: "32 \<le> m \<Longrightarrow> \<not> bit x m" for m
    using bit_imp_le_length [of x m] by auto
  have L: "bit (LEFTROTATE x c) n \<longleftrightarrow> (c \<le> n \<and> bit x (n - c)) \<or> bit x (n + (32 - c))"
    using assms n by (simp add: LEFTROTATE_def bit_or_iff bit_push_bit_iff bit_drop_bit_eq add.commute)
  have R: "bit (word_rotl c x) n \<longleftrightarrow> bit x ((n + (32 - c)) mod 32)"
    using assms n by (simp add: bit_word_rotl_iff)
  show "bit (LEFTROTATE x c) n = bit (word_rotl c x) n"
  proof (cases "c \<le> n")
    case True
    then have eq: "n + (32 - c) = (n - c) + 32" using assms by simp
    have "(n + (32 - c)) mod 32 = n - c" unfolding eq mod_add_self2 using n by simp
    moreover have "\<not> bit x (n + (32 - c))" using True assms by (intro out) simp
    ultimately show ?thesis using True by (simp add: L R)
  next
    case False
    then have "(n + (32 - c)) mod 32 = n + (32 - c)" using assms by simp
    with False show ?thesis by (simp add: L R)
  qed
qed

lemma repeat_md5_const: "0 < n \<Longrightarrow> repeat_md5 n p res = md5 p"
proof (induction n arbitrary: res)
  case (Suc n)
  then show ?case by (cases n) auto
qed simp

lemma hashword_md5: "hashword junk s = concat (map hex_byte (md5 (bytes_of s)))"
  by (simp add: hashword_def repeat_md5_const HASH_ROUNDS_def)

lemma length_md5 [simp]: "length (md5 m) = 16"
  by (simp add: md5_def split: prod.splits)

lemma length_hex: "length (concat (map hex_byte bs)) = 2 * length bs"
  by (induction bs) (auto simp: hex_byte_def)

definition hex_digit :: "char \<Rightarrow> bool" where
  "hex_digit ch \<longleftrightarrow> ch \<in> set ''0123456789abcdef''"

lemma hex_char_digit: "n < 16 \<Longrightarrow> hex_digit (hex_char n)"
  unfolding hex_digit_def hex_char_def by (rule nth_mem) simp

lemma hex_byte_digits: "list_all hex_digit (hex_byte x)"
proof -
  have "unat x < 256" using unsigned_less [of x] by simp
  then show ?thesis by (auto simp: hex_byte_def intro!: hex_char_digit)
qed

lemma hex_digits: "list_all hex_digit (concat (map hex_byte bs))"
  using hex_byte_digits by (induction bs) (auto simp: list_all_append)

section \<open>A test vector\<close>

text \<open>The password that \<open>src/src/parse.c\<close> hashes, followed through the four rounds.\<close>

definition password2_w :: "u32 list" where
  "password2_w = [0x73736170, 0x64726f77, 0x8032, 0, 0, 0, 0, 0, 0, 0, 0, 0, 0, 0, 0x48, 0]"

lemma bytes_of_password2:
  "bytes_of ''password2'' = [0x70, 0x61, 0x73, 0x73, 0x77, 0x6f, 0x72, 0x64, 0x32]"
  by (simp add: bytes_of_def)

lemma upt_16: "[0..<16] = [0, 1, 2, 3, 4, 5, 6, 7, 8, 9, 10, 11, 12, 13, 14, 15]"
  by code_simp

lemma upt_64: "[0..<64] =
    [0, 1, 2, 3, 4, 5, 6, 7, 8, 9, 10, 11, 12, 13, 14, 15]
    @ [16, 17, 18, 19, 20, 21, 22, 23, 24, 25, 26, 27, 28, 29, 30, 31]
    @ [32, 33, 34, 35, 36, 37, 38, 39, 40, 41, 42, 43, 44, 45, 46, 47]
    @ [48, 49, 50, 51, 52, 53, 54, 55, 56, 57, 58, 59, 60, 61, 62, 63]"
  by code_simp

lemma prepare_password2: "prepare (bytes_of ''password2'') =
   [0x70, 0x61, 0x73, 0x73, 0x77, 0x6f, 0x72, 0x64, 0x32, 0x80]
   @ replicate 46 0 @ [0x48, 0, 0, 0, 0, 0, 0, 0]"
proof -
  have len: "length [0x70 :: u8, 0x61, 0x73, 0x73, 0x77, 0x6f, 0x72, 0x64, 0x32] = 9" by simp
  have pad: "pad_loop (9 + 1) = 56" by (simp only: pad_loop_closed) simp
  show ?thesis
    unfolding bytes_of_password2 prepare_def Let_def len pad map_replicate_const length_upt
    by (simp add: to_bytes_def)
qed

lemma words_password2:
  "map (\<lambda>i. to_int32 (prepare (bytes_of ''password2'')) (0 + i * 4)) [0..<16] = password2_w"
  unfolding prepare_password2 upt_16 password2_w_def by (simp add: to_int32_def nth_append)

lemma password2_round_one: "foldl (md5_step password2_w)
    (0x67452301, 0xefcdab89, 0x98badcfe, 0x10325476)
    [0, 1, 2, 3, 4, 5, 6, 7, 8, 9, 10, 11, 12, 13, 14, 15] =
    (0x34da5cb5, 0xbe779ff5, 0xa4635ac9, 0x0bdef8ca)"
  by (simp add: password2_w_def md5_f_def md5_g_def LEFTROTATE_def md5_k_def md5_r_def)

lemma password2_round_two: "foldl (md5_step password2_w)
    (0x34da5cb5, 0xbe779ff5, 0xa4635ac9, 0x0bdef8ca)
    [16, 17, 18, 19, 20, 21, 22, 23, 24, 25, 26, 27, 28, 29, 30, 31] =
    (0x6a9313ed, 0xe515032c, 0x3368653f, 0xdd666579)"
  by (simp add: password2_w_def md5_f_def md5_g_def LEFTROTATE_def md5_k_def md5_r_def)

lemma password2_round_three: "foldl (md5_step password2_w)
    (0x6a9313ed, 0xe515032c, 0x3368653f, 0xdd666579)
    [32, 33, 34, 35, 36, 37, 38, 39, 40, 41, 42, 43, 44, 45, 46, 47] =
    (0x95519402, 0xd0b7928d, 0x79b2b278, 0x0e8fae18)"
  by (simp add: password2_w_def md5_f_def md5_g_def LEFTROTATE_def md5_k_def md5_r_def)

lemma password2_round_four: "foldl (md5_step password2_w)
    (0x95519402, 0xd0b7928d, 0x79b2b278, 0x0e8fae18)
    [48, 49, 50, 51, 52, 53, 54, 55, 56, 57, 58, 59, 60, 61, 62, 63] =
    (0xfe1a946b, 0x8984efa1, 0x8a14d990, 0x6349b08b)"
  by (simp add: password2_w_def md5_f_def md5_g_def LEFTROTATE_def md5_k_def md5_r_def)

lemma md5_password2: "md5 (bytes_of ''password2'') =
   [0x6c, 0xb7, 0x5f, 0x65, 0x2a, 0x9b, 0x52, 0x79, 0x8e, 0xb6, 0xcf, 0x22, 0x01, 0x05, 0x7c, 0x73]"
proof -
  have pad: "pad_loop (length (bytes_of ''password2'') + 1) = 56"
    by (simp only: pad_loop_closed) (simp add: bytes_of_def)
  have "md5_chunk (prepare (bytes_of ''password2'')) 0 (0x67452301, 0xefcdab89, 0x98badcfe, 0x10325476)
        = (0x655fb76c, 0x79529b2a, 0x22cfb68e, 0x737c0501)"
    unfolding md5_chunk.simps words_password2 upt_64 Let_def foldl_append password2_round_one
      password2_round_two password2_round_three password2_round_four by simp
  then show ?thesis
    unfolding md5_def Let_def pad by (simp add: md5_loop.simps to_bytes_def)
qed

section \<open>Properties\<close>

lemma to_int32_at: "to_int32 (xs @ to_bytes w @ ys) (length xs) = w"
proof -
  have "to_int32 (xs @ to_bytes w @ ys) (length xs) = to_int32 (to_bytes w) 0"
    by (simp add: to_int32_def to_bytes_def nth_append)
  then show ?thesis by (simp add: to_int32_to_bytes)
qed

lemma prepare_split:
  "prepare m = (m @ 0x80 # replicate (pad_loop (length m + 1) - (length m + 1)) 0)
     @ to_bytes (word_of_nat (length m * 8)) @ to_bytes (word_of_nat (length m div 2 ^ 29))"
  by (simp add: prepare_def Let_def map_replicate_const)

lemma length_prepare: "length (prepare m) = pad_loop (length m + 1) + 8"
  using pad_loop_bounds [of "length m + 1"] by (simp add: prepare_def Let_def)

lemma length_bits_split:
  fixes n :: nat
  assumes "n < 2 ^ 61"
  shows "unat (word_of_nat (n * 8) :: u32) + 2 ^ 32 * unat (word_of_nat (n div 2 ^ 29) :: u32) = 8 * n"
proof -
  have "n div 2 ^ 29 < 2 ^ 32" using assms by (simp add: less_mult_imp_div_less)
  then have hi: "unat (word_of_nat (n div 2 ^ 29) :: u32) = n div 2 ^ 29"
    by (simp add: unat_of_nat)
  have lo: "unat (word_of_nat (n * 8) :: u32) = (8 * n) mod 2 ^ 32"
    by (simp only: unat_of_nat) (simp add: mult.commute)
  have "n div 2 ^ 29 = (8 * n) div 2 ^ 32"
    using div_mult_mult1 [of 8 n "2 ^ 29"] by simp
  then show ?thesis unfolding hi lo using mod_mult_div_eq [of "8 * n" "2 ^ 32"] by simp
qed

lemma prepare_length_words:
  "to_int32 (prepare m) (pad_loop (length m + 1)) = word_of_nat (length m * 8)"
  "to_int32 (prepare m) (pad_loop (length m + 1) + 4) = word_of_nat (length m div 2 ^ 29)"
proof -
  let ?x = "m @ 0x80 # replicate (pad_loop (length m + 1) - (length m + 1)) 0"
  let ?lo = "word_of_nat (length m * 8) :: u32" and ?hi = "word_of_nat (length m div 2 ^ 29) :: u32"
  have n: "length ?x = pad_loop (length m + 1)"
    using pad_loop_bounds [of "length m + 1"] by simp
  show "to_int32 (prepare m) (pad_loop (length m + 1)) = ?lo"
    using to_int32_at [of ?x ?lo "to_bytes ?hi"] by (simp only: n prepare_split [of m])
  have "length (?x @ to_bytes ?lo) = pad_loop (length m + 1) + 4"
    using n by (simp only: length_append [of ?x] length_to_bytes)
  then show "to_int32 (prepare m) (pad_loop (length m + 1) + 4) = ?hi"
    using to_int32_at [of "?x @ to_bytes ?lo" ?hi "[]"] by (simp only: prepare_split [of m] append_assoc append_Nil2)
qed

lemma chunk_reads_inside:
  assumes "offset mod 64 = 0" "offset < pad_loop (length m + 1)" "i < 16"
  shows "offset + i * 4 + 3 < length (prepare m)"
proof -
  obtain q where q: "offset = 64 * q" using assms(1) by (auto simp: mod_eq_0_iff_dvd)
  have "64 * q < 64 * ((length m + 8) div 64) + 56" using assms(2) q by (simp only: pad_loop_closed)
  then have "q \<le> (length m + 8) div 64" by linarith
  then have "64 * q + 64 \<le> length (prepare m)" by (simp only: length_prepare pad_loop_closed)
  then show ?thesis using assms(3) q by simp
qed

text \<open>
  (C6) The message that \<open>md5\<close> digests is the RFC 1321 padding of its input: the input, a byte
  0x80, zero bytes up to the first length that is 56 modulo 64, and the bit length of the
  input (below 2^64) as two little-endian words; the whole is the least multiple of 64 bytes that
  holds them, and every word that the chunk loop reads lies inside it.
\<close>

theorem md5_padding:
  "length (prepare m) = 64 * ((length m + 8) div 64 + 1)
   \<and> prepare m = m @ 0x80 # replicate (pad_loop (length m + 1) - (length m + 1)) 0
        @ to_bytes (to_int32 (prepare m) (pad_loop (length m + 1)))
        @ to_bytes (to_int32 (prepare m) (pad_loop (length m + 1) + 4))
   \<and> (length m < 2 ^ 61 \<longrightarrow>
        unat (to_int32 (prepare m) (pad_loop (length m + 1)))
        + 2 ^ 32 * unat (to_int32 (prepare m) (pad_loop (length m + 1) + 4)) = 8 * length m)
   \<and> (\<forall>offset i. offset mod 64 = 0 \<longrightarrow> offset < pad_loop (length m + 1) \<longrightarrow> i < 16 \<longrightarrow>
        offset + i * 4 + 3 < length (prepare m))"
proof (intro conjI impI allI)
  show "length (prepare m) = 64 * ((length m + 8) div 64 + 1)"
    by (simp only: length_prepare pad_loop_closed) simp
  show "prepare m = m @ 0x80 # replicate (pad_loop (length m + 1) - (length m + 1)) 0
        @ to_bytes (to_int32 (prepare m) (pad_loop (length m + 1)))
        @ to_bytes (to_int32 (prepare m) (pad_loop (length m + 1) + 4))"
    unfolding prepare_length_words using prepare_split [of m] by simp
  show "unat (to_int32 (prepare m) (pad_loop (length m + 1)))
        + 2 ^ 32 * unat (to_int32 (prepare m) (pad_loop (length m + 1) + 4)) = 8 * length m"
    if "length m < 2 ^ 61"
    unfolding prepare_length_words using that by (rule length_bits_split)
qed (rule chunk_reads_inside)

theorem md5_padding_witness:
  "length (prepare (bytes_of ''password2'')) = 64
   \<and> unat (to_int32 (prepare (bytes_of ''password2'')) 56)
     + 2 ^ 32 * unat (to_int32 (prepare (bytes_of ''password2'')) (56 + 4)) = 72"
proof -
  have len: "length (bytes_of ''password2'') = 9" by (simp add: bytes_of_def)
  have pad: "pad_loop (9 + 1) = 56" by (simp only: pad_loop_closed) simp
  show ?thesis using md5_padding [of "bytes_of ''password2''"] unfolding len pad by simp
qed

text \<open>
  \<open>hashword\<close> always returns 32 lower-case hexadecimal digits, the million passes give
  what one pass gives, and the result does not depend on the uninitialised array.
\<close>

lemma hashword_format:
  "length (hashword junk s) = 32 \<and> list_all hex_digit (hashword junk s)
   \<and> hashword junk s = concat (map hex_byte (md5 (bytes_of s)))"
  by (simp add: hashword_md5 length_hex hex_digits)

text \<open>
  The password that \<open>parse.c\<close> hashes has the digest that every other MD5
  implementation gives it.
\<close>

lemma hashword_password2: "hashword junk ''password2'' = ''6cb75f652a9b52798eb6cf2201057c73''"
  by (simp add: hashword_md5 md5_password2 hex_byte_def hex_char_def)

text \<open>
  The shifts of \<open>LEFTROTATE\<close> are a rotation for every shift amount of the table \<open>r\<close>,
  and the two byte conversions are inverse to each other.
\<close>

lemma md5_words:
  "(\<forall>i < length md5_r. LEFTROTATE x (md5_r ! i) = word_rotl (md5_r ! i) x)
   \<and> to_int32 (to_bytes x) 0 = x \<and> to_bytes (to_int32 [b0, b1, b2, b3] 0) = [b0, b1, b2, b3]"
proof -
  have "list_all (\<lambda>c. 0 < c \<and> c < 32) md5_r" by (simp add: md5_r_def)
  then show ?thesis
    by (simp add: to_int32_to_bytes to_bytes_to_int32 list_all_length LEFTROTATE_rotl)
qed

end
