(* ===== verification/Shadow_Tree.thy ===== *)
theory Shadow_Tree
  imports Libc
begin

text \<open>
  \<open>src/src/shadowTree.h\<close> and \<open>src/src/shadow_time.h\<close>: the in-memory list of shadow
  entries. The linked list from \<open>sf->head\<close> is a HOL list, a \<open>struct user *\<close> is a position
  in it, and \<open>strcpy\<close> into the character arrays of \<open>struct user\<close> is undefined when the
  string and its terminator do not fit. \<open>malloc\<close> success and \<open>time (NULL)\<close> are arguments.
\<close>

section \<open>Data\<close>

text \<open>
  \<open>reserved\<close> is a pointer: null, a block of its own with a string in it, or a pointer into
  the buffer of a request that has been answered since.
\<close>

datatype reserved_ptr = RNull | RHeap string | RBuf

record user =
  username :: string
  hash :: string
  dsc :: int
  dcc :: int
  dmc :: int
  dw :: int
  de :: int
  dd :: int
  reserved :: reserved_ptr

record sf_root =
  sf_path :: string
  head :: "user list"

abbreviation USERNAME_SIZE :: nat where "USERNAME_SIZE \<equiv> 16"
abbreviation HASH_SIZE :: nat where "HASH_SIZE \<equiv> 32"
abbreviation SF_PATH_SIZE :: nat where "SF_PATH_SIZE \<equiv> 30"

section \<open>Operations\<close>

text \<open>\<open>(int) time (NULL) / 86400\<close>: the cast comes first, the division truncates.\<close>

definition shadow_time :: "int \<Rightarrow> int" where
  "shadow_time t = sgn (c_int t) * (\<bar>c_int t\<bar> div 86400)"

text \<open>\<open>malloc\<close> does not clear the block: \<open>head\<close> starts with whatever was there.\<close>

definition sf_tree_init :: "bool \<Rightarrow> user list \<Rightarrow> string \<Rightarrow> sf_root option c" where
  "sf_tree_init mem junk path =
     (if \<not> mem then Inr None
      else bindc (strcpy SF_PATH_SIZE path) (\<lambda>p. Inr (Some \<lparr>sf_path = p, head = junk\<rparr>)))"

text \<open>The nodes handed to \<open>free\<close>, in order; the result is always 0.\<close>

fun destroy_loop :: "user list \<Rightarrow> user list" where
  "destroy_loop [] = []"
| "destroy_loop (del # temp) = del # destroy_loop temp"

definition sf_tree_destroy :: "sf_root \<Rightarrow> int \<times> user list" where
  "sf_tree_destroy sf = (0, destroy_loop (head sf))"

fun find_loop :: "user list \<Rightarrow> string \<Rightarrow> nat option" where
  "find_loop [] name = None"
| "find_loop (current # us) name =
     (if username current = name then Some 0 else map_option Suc (find_loop us name))"

definition find_user :: "sf_root \<Rightarrow> string \<Rightarrow> nat option" where
  "find_user sf name = find_loop (head sf) name"

definition user_at :: "sf_root \<Rightarrow> nat \<Rightarrow> user" where
  "user_at sf i = head sf ! i"

definition set_user :: "sf_root \<Rightarrow> nat \<Rightarrow> user \<Rightarrow> sf_root" where
  "set_user sf i u = sf\<lparr>head := (head sf)[i := u]\<rparr>"

definition new_user :: "int \<Rightarrow> string \<Rightarrow> user" where
  "new_user t name = \<lparr>username = name, hash = ''*'', dsc = shadow_time t, dcc = 0, dmc = 99999,
     dw = 7, de = 0, dd = 0, reserved = RNull\<rparr>"

definition sf_tree_add_user :: "bool \<Rightarrow> int \<Rightarrow> sf_root \<Rightarrow> string \<Rightarrow> (int \<times> sf_root) c" where
  "sf_tree_add_user mem t sf name =
     (if find_user sf name \<noteq> None then Inr (-3, sf)
      else if \<not> mem then Inr (-1, sf)
      else if length name > 16 then Inr (-2, sf)
      else bindc (strcpy USERNAME_SIZE name) (\<lambda>n.
           bindc (strcpy HASH_SIZE ''*'') (\<lambda>h.
             Inr (0, sf\<lparr>head := head sf @ [new_user t n\<lparr>hash := h\<rparr>]\<rparr>))))"

text \<open>The search for the entry before the one to remove.\<close>

fun delete_loop :: "user list \<Rightarrow> string \<Rightarrow> user list option" where
  "delete_loop (del # temp # us) name =
     (if username temp = name then Some (del # us)
      else map_option ((#) del) (delete_loop (temp # us) name))"
| "delete_loop _ name = None"

definition sf_tree_delete_user :: "sf_root \<Rightarrow> string \<Rightarrow> (int \<times> sf_root) c" where
  "sf_tree_delete_user sf name =
     (case head sf of
        [] \<Rightarrow> Inl NullDeref
      | del # us \<Rightarrow>
          if username del = name then Inr (0, sf\<lparr>head := us\<rparr>)
          else (case delete_loop (head sf) name of
                  Some us' \<Rightarrow> Inr (0, sf\<lparr>head := us'\<rparr>)
                | None \<Rightarrow> Inr (-1, sf)))"

definition update_username :: "sf_root \<Rightarrow> string \<Rightarrow> string \<Rightarrow> (int \<times> sf_root) c" where
  "update_username sf name newname =
     (case find_user sf name of
        None \<Rightarrow> Inr (-1, sf)
      | Some i \<Rightarrow> if length newname > 8 then Inr (-1, sf)
                  else bindc (strcpy USERNAME_SIZE newname)
                         (\<lambda>n. Inr (0, set_user sf i (user_at sf i\<lparr>username := n\<rparr>))))"

definition update_hash :: "sf_root \<Rightarrow> string \<Rightarrow> string \<Rightarrow> (int \<times> sf_root) c" where
  "update_hash sf name newhash =
     (case find_user sf name of
        None \<Rightarrow> Inr (-1, sf)
      | Some i \<Rightarrow> if length newhash > 32 then Inr (-1, sf)
                  else bindc (strcpy HASH_SIZE newhash)
                         (\<lambda>h. Inr (0, set_user sf i (user_at sf i\<lparr>hash := h\<rparr>))))"

definition update_daysSinceChanged :: "sf_root \<Rightarrow> string \<Rightarrow> int \<Rightarrow> (int \<times> sf_root) c" where
  "update_daysSinceChanged sf name v =
     (case find_user sf name of
        None \<Rightarrow> Inr (-1, sf)
      | Some i \<Rightarrow> Inr (0, set_user sf i (user_at sf i\<lparr>dsc := v\<rparr>)))"

definition update_daysUntilCanChange :: "sf_root \<Rightarrow> string \<Rightarrow> int \<Rightarrow> (int \<times> sf_root) c" where
  "update_daysUntilCanChange sf name v =
     (case find_user sf name of
        None \<Rightarrow> Inr (-1, sf)
      | Some i \<Rightarrow> Inr (0, set_user sf i (user_at sf i\<lparr>dcc := v\<rparr>)))"

definition update_daysUntilMustChange :: "sf_root \<Rightarrow> string \<Rightarrow> int \<Rightarrow> (int \<times> sf_root) c" where
  "update_daysUntilMustChange sf name v =
     (case find_user sf name of
        None \<Rightarrow> Inr (-1, sf)
      | Some i \<Rightarrow> Inr (0, set_user sf i (user_at sf i\<lparr>dmc := v\<rparr>)))"

definition update_daysBeforeWarning :: "sf_root \<Rightarrow> string \<Rightarrow> int \<Rightarrow> (int \<times> sf_root) c" where
  "update_daysBeforeWarning sf name v =
     (case find_user sf name of
        None \<Rightarrow> Inr (-1, sf)
      | Some i \<Rightarrow> Inr (0, set_user sf i (user_at sf i\<lparr>dw := v\<rparr>)))"

definition update_daysUntilExpiration :: "sf_root \<Rightarrow> string \<Rightarrow> int \<Rightarrow> (int \<times> sf_root) c" where
  "update_daysUntilExpiration sf name v =
     (case find_user sf name of
        None \<Rightarrow> Inr (-1, sf)
      | Some i \<Rightarrow> Inr (0, set_user sf i (user_at sf i\<lparr>de := v\<rparr>)))"

definition update_daysSinceDeactivation :: "sf_root \<Rightarrow> string \<Rightarrow> int \<Rightarrow> (int \<times> sf_root) c" where
  "update_daysSinceDeactivation sf name v =
     (case find_user sf name of
        None \<Rightarrow> Inr (-1, sf)
      | Some i \<Rightarrow> Inr (0, set_user sf i (user_at sf i\<lparr>dd := v\<rparr>)))"

definition update_reserved :: "sf_root \<Rightarrow> string \<Rightarrow> reserved_ptr \<Rightarrow> (int \<times> sf_root) c" where
  "update_reserved sf name res =
     (case find_user sf name of
        None \<Rightarrow> Inr (-1, sf)
      | Some i \<Rightarrow> Inr (0, set_user sf i (user_at sf i\<lparr>reserved := res\<rparr>)))"

lemmas update_defs =
  update_daysSinceChanged_def update_daysUntilCanChange_def update_daysUntilMustChange_def
  update_daysBeforeWarning_def update_daysUntilExpiration_def update_daysSinceDeactivation_def
  update_reserved_def

section \<open>The list and its search\<close>

lemma find_loop_Some:
  "find_loop us name = Some i \<longleftrightarrow>
     i < length us \<and> username (us ! i) = name \<and> (\<forall>j < i. username (us ! j) \<noteq> name)"
proof (induction us arbitrary: i)
  case (Cons u us)
  then show ?case by (cases i) (auto simp: less_Suc_eq_0_disj)
qed simp

lemma find_loop_None: "find_loop us name = None \<longleftrightarrow> name \<notin> username ` set us"
  by (induction us) auto

lemma find_user_Some:
  "find_user sf name = Some i \<Longrightarrow> i < length (head sf) \<and> username (user_at sf i) = name"
  by (simp add: find_user_def find_loop_Some user_at_def)

lemma find_user_None: "find_user sf name = None \<longleftrightarrow> name \<notin> username ` set (head sf)"
  by (simp add: find_user_def find_loop_None)

lemma find_loop_snoc:
  "username u \<notin> username ` set us \<Longrightarrow>
   map_option ((!) (us @ [u])) (find_loop (us @ [u]) n) =
     (if n = username u then Some u else map_option ((!) us) (find_loop us n))"
  by (induction us) (auto simp: option.map_comp comp_def)

lemma find_loop_update:
  "username u = username (us ! i) \<Longrightarrow> find_loop (us[i := u]) name = find_loop us name"
proof (induction us arbitrary: i)
  case (Cons v us)
  then show ?case by (cases i) auto
qed simp

text \<open>The entry that a name denotes: the first one that carries it.\<close>

definition lookup :: "sf_root \<Rightarrow> string \<Rightarrow> user option" where
  "lookup sf name = map_option (user_at sf) (find_user sf name)"

lemma lookup_None: "lookup sf name = None \<longleftrightarrow> find_user sf name = None"
  by (simp add: lookup_def)

lemma lookup_Some:
  "lookup sf name = Some u \<longleftrightarrow> (\<exists>i. find_user sf name = Some i \<and> u = user_at sf i)"
  by (auto simp: lookup_def)

lemma lookup_name: "lookup sf name = Some u \<Longrightarrow> username u = name"
  by (auto simp: lookup_Some dest: find_user_Some)

lemma find_loop_at_other:
  "find_loop us name = Some i \<Longrightarrow> username (us ! j) \<noteq> name \<Longrightarrow> us[j := v] ! i = us ! i"
  by (metis find_loop_Some nth_list_update_neq)

lemma lookup_set_user:
  assumes "find_user sf name = Some i" and "username u = name"
  shows "lookup (set_user sf i u) = (lookup sf)(name \<mapsto> u)"
proof
  fix n
  have i: "i < length (head sf)" "username (head sf ! i) = name"
    using find_user_Some [OF assms(1)] by (simp_all add: user_at_def)
  have same: "find_user (set_user sf i u) n = find_user sf n" for n
    using i assms(2) by (simp add: find_user_def set_user_def find_loop_update)
  show "lookup (set_user sf i u) n = ((lookup sf)(name \<mapsto> u)) n"
  proof (cases "n = name")
    case True
    then show ?thesis using assms i by (simp add: lookup_def same) (simp add: user_at_def set_user_def)
  next
    case False
    then have "user_at (set_user sf i u) j = user_at sf j" if "find_user sf n = Some j" for j
      using that i find_loop_at_other [of "head sf" n j i u]
      by (simp add: user_at_def set_user_def find_user_def)
    then show ?thesis using False by (cases "find_user sf n") (simp_all add: lookup_def same)
  qed
qed

lemma find_loop_inj: "distinct (map username us) \<Longrightarrow> u \<in> set us \<Longrightarrow>
    map_option ((!) us) (find_loop us (username u)) = Some u"
  by (induction us) (auto simp: rev_image_eqI option.map_comp comp_def)

section \<open>Deletion\<close>

fun remove_first :: "string \<Rightarrow> user list \<Rightarrow> user list" where
  "remove_first name [] = []"
| "remove_first name (u # us) = (if username u = name then us else u # remove_first name us)"

lemma delete_loop_eq:
  "delete_loop (d # us) name =
     (if name \<in> username ` set us then Some (d # remove_first name us) else None)"
  by (induction us arbitrary: d) (auto simp: image_iff)

lemma remove_first_notin: "name \<notin> username ` set us \<Longrightarrow> remove_first name us = us"
  by (induction us) auto

lemma sf_tree_delete_user_eq:
  "head sf \<noteq> [] \<Longrightarrow> sf_tree_delete_user sf name =
     (if find_user sf name = None then Inr (-1, sf)
      else Inr (0, sf\<lparr>head := remove_first name (head sf)\<rparr>))"
  by (auto simp: sf_tree_delete_user_def find_user_None delete_loop_eq image_iff split: list.splits)

lemma remove_first_subset: "set (remove_first name us) \<subseteq> set us"
  by (induction us) auto

lemma remove_first_distinct:
  "distinct (map username us) \<Longrightarrow> distinct (map username (remove_first name us))"
  using remove_first_subset by (induction us) (auto simp: subset_iff image_iff)

lemma remove_first_gone:
  "distinct (map username us) \<Longrightarrow> name \<notin> username ` set (remove_first name us)"
  by (induction us) auto

lemma find_loop_remove_first_other:
  "n \<noteq> name \<Longrightarrow> map_option ((!) (remove_first name us)) (find_loop (remove_first name us) n)
     = map_option ((!) us) (find_loop us n)"
  by (induction us) (auto simp: option.map_comp comp_def)

lemma lookup_remove_first:
  assumes "distinct (map username (head sf))"
  shows "lookup (sf\<lparr>head := remove_first name (head sf)\<rparr>) = (lookup sf)(name := None)"
proof
  fix n
  show "lookup (sf\<lparr>head := remove_first name (head sf)\<rparr>) n = ((lookup sf)(name := None)) n"
    using remove_first_gone [OF assms] find_loop_remove_first_other [of n name "head sf"]
    by (cases "n = name") (auto simp: lookup_def find_user_def find_loop_None user_at_def [abs_def])
qed

lemma lookup_append_new:
  "find_user sf name = None \<Longrightarrow> username u = name \<Longrightarrow>
     lookup (sf\<lparr>head := head sf @ [u]\<rparr>) = (lookup sf)(name \<mapsto> u)"
  by (rule ext)
    (auto simp: lookup_def find_user_def user_at_def [abs_def] find_loop_None find_loop_snoc)

section \<open>Invariants\<close>

definition wf_user :: "user \<Rightarrow> bool" where
  "wf_user u \<longleftrightarrow> length (username u) < USERNAME_SIZE \<and> length (hash u) < HASH_SIZE
     \<and> in_int (dsc u) \<and> in_int (dcc u) \<and> in_int (dmc u) \<and> in_int (dw u) \<and> in_int (de u) \<and> in_int (dd u)"

definition wf_tree :: "sf_root \<Rightarrow> bool" where
  "wf_tree sf \<longleftrightarrow> length (sf_path sf) < SF_PATH_SIZE \<and> list_all wf_user (head sf)"

definition distinct_names :: "sf_root \<Rightarrow> bool" where
  "distinct_names sf \<longleftrightarrow> distinct (map username (head sf))"

lemma wf_user_at: "wf_tree sf \<Longrightarrow> find_user sf name = Some i \<Longrightarrow> wf_user (user_at sf i)"
  using find_user_Some by (auto simp: wf_tree_def user_at_def list_all_length)

lemma wf_set_user [wf_intros]: "wf_tree sf \<Longrightarrow> wf_user u \<Longrightarrow> wf_tree (set_user sf i u)"
  by (simp add: wf_tree_def set_user_def list_all_update)

lemma distinct_set_user [wf_intros]:
  "distinct_names sf \<Longrightarrow> find_user sf name = Some i \<Longrightarrow> username u = username (user_at sf i)
     \<Longrightarrow> distinct_names (set_user sf i u)"
  by (simp add: distinct_names_def set_user_def user_at_def map_update)
    (metis find_user_Some length_map list_update_id nth_map)

lemma shadow_time_range [simp]: "in_int (shadow_time t)"
proof -
  have "\<bar>shadow_time t\<bar> \<le> \<bar>c_int t\<bar> div 86400"
    by (simp add: shadow_time_def abs_mult abs_sgn_eq)
  also have "\<dots> \<le> 2 ^ 31 div 86400"
    using c_int_range [of t] by (intro zdiv_mono1) (auto simp: in_int_def int_min_def int_max_def)
  finally show ?thesis by (simp add: in_int_def int_min_def int_max_def abs_le_iff)
qed

lemma wf_new_user: "length name < USERNAME_SIZE \<Longrightarrow> wf_user (new_user t name)"
  by (simp add: wf_user_def new_user_def)

section \<open>Invariants of the operations\<close>

lemma wf_add: "wf_tree sf \<Longrightarrow> okc (\<lambda>r. wf_tree (snd r)) (sf_tree_add_user mem t sf name)"
  using wf_new_user by (auto simp: sf_tree_add_user_def okc_bindc wf_tree_def new_user_def)

lemma wf_delete: "wf_tree sf \<Longrightarrow> okc (\<lambda>r. wf_tree (snd r)) (sf_tree_delete_user sf name)"
  using remove_first_subset [of name "head sf"]
  by (cases "head sf = []")
    (auto simp: sf_tree_delete_user_eq wf_tree_def list_all_iff, simp add: sf_tree_delete_user_def)

lemma wf_update_hash: "wf_tree sf \<Longrightarrow> okc (\<lambda>r. wf_tree (snd r)) (update_hash sf name h)"
  using wf_user_at [of sf name]
  by (auto simp: update_hash_def okc_bindc wf_user_def intro!: wf_set_user split: option.splits)

lemma wf_update:
  "wf_tree sf \<Longrightarrow> find_user sf name = Some i \<Longrightarrow> wf_user (user_at sf i) \<longrightarrow> wf_user u \<Longrightarrow> wf_tree (set_user sf i u)"
  by (simp add: wf_set_user wf_user_at)

lemma set_user_names:
  "map username (head (set_user sf i u)) = (map username (head sf))[i := username u]"
  by (simp add: set_user_def map_update)

lemma distinct_update:
  assumes "distinct xs" "i < length xs"
  shows "distinct (xs[i := x]) \<longleftrightarrow> x = xs ! i \<or> x \<notin> set xs"
proof (cases "x \<in> set xs \<and> x \<noteq> xs ! i")
  case True
  then obtain j where "j < length xs" "x = xs ! j" "j \<noteq> i" by (auto simp: in_set_conv_nth)
  then show ?thesis using True assms nth_eq_iff_index_eq [of "xs[i := x]" i j] by auto
qed (use assms distinct_list_update [of xs x i] in auto)

text \<open>With different names, an entry is found under its own name and nothing else is.\<close>

lemma lookup_distinct:
  "distinct_names sf \<Longrightarrow> lookup sf n = Some u \<longleftrightarrow> u \<in> set (head sf) \<and> username u = n"
  using find_loop_inj [of "head sf" u]
  by (auto simp: lookup_def distinct_names_def find_user_def user_at_def [abs_def] find_loop_Some)

lemma lookup_eqI:
  assumes "distinct_names sf" "\<And>n u. m n = Some u \<longleftrightarrow> u \<in> set (head sf) \<and> username u = n"
  shows "lookup sf = m"
proof
  show "lookup sf n = m n" for n
    using lookup_distinct [OF assms(1), of n] assms(2) [of n] by (metis not_None_eq)
qed

lemma lookup_renamed:
  assumes "distinct_names sf" "distinct_names (set_user sf i (user_at sf i\<lparr>username := new\<rparr>))"
    and "i < length (head sf)" "lookup sf new = None"
  shows "lookup (set_user sf i (user_at sf i\<lparr>username := new\<rparr>))
    = (lookup sf)(username (user_at sf i) := None, new \<mapsto> user_at sf i\<lparr>username := new\<rparr>)"
proof (rule lookup_eqI [OF assms(2)])
  fix n u
  let ?v = "user_at sf i\<lparr>username := new\<rparr>"
  have d: "distinct (head sf)" using assms(1) by (simp add: distinct_names_def distinct_map)
  have "set (head (set_user sf i ?v)) = insert ?v (set (head sf) - {user_at sf i})"
    using set_update_distinct [OF d assms(3)] by (simp add: set_user_def user_at_def)
  moreover have "u = user_at sf i" if "u \<in> set (head sf)" "username u = username (user_at sf i)"
    using that assms(1,3) by (metis distinct_names_def inj_on_def distinct_map nth_mem user_at_def)
  ultimately show "((lookup sf)(username (user_at sf i) := None, new \<mapsto> ?v)) n = Some u
      \<longleftrightarrow> u \<in> set (head (set_user sf i ?v)) \<and> username u = n"
    using assms(1,4) lookup_distinct [OF assms(1)] by (auto simp: lookup_None find_user_None)
qed

lemma distinct_renamed:
  "distinct_names sf \<Longrightarrow> i < length (head sf) \<Longrightarrow>
     distinct_names (set_user sf i (user_at sf i\<lparr>username := new\<rparr>))
       \<longleftrightarrow> new = username (user_at sf i) \<or> lookup sf new = None"
  using distinct_update [of "map username (head sf)" i new]
  by (auto simp: distinct_names_def set_user_names lookup_None find_user_None user_at_def)

section \<open>What the tree promises its callers\<close>

text \<open>
  The contract of one \<open>update_*\<close> function: it answers \<open>-1\<close> and changes nothing when the name is
  unknown, and otherwise replaces one field of the entry the name denotes.
\<close>

locale field_store =
  fixes look :: "'s \<Rightarrow> string \<Rightarrow> 'u option"
    and upd :: "'s \<Rightarrow> string \<Rightarrow> 'v \<Rightarrow> (int \<times> 's) c"
    and put :: "'v \<Rightarrow> 'u \<Rightarrow> 'u"
    and fits :: "'v \<Rightarrow> bool"
  assumes upd_absent: "look s n = None \<Longrightarrow> upd s n v = Inr (-1, s)"
    and upd_present: "look s n = Some u \<Longrightarrow> fits v \<Longrightarrow>
          \<exists>s'. upd s n v = Inr (0, s') \<and> look s' = (look s)(n \<mapsto> put v u)"
    and put_put: "put v (put w u) = put v u"
begin

lemma upd_result: "fits v \<Longrightarrow> upd s n v = Inr (k, s') \<Longrightarrow>
    k = (if look s n = None then -1 else 0) \<and> look s' = (look s)(n := map_option (put v) (look s n))"
  by (cases "look s n") (auto simp: upd_absent dest: upd_present)

lemma upd_defined: "fits v \<Longrightarrow> defined (upd s n v)"
  by (cases "look s n") (auto simp: upd_absent dest: upd_present)

lemma upd_upd:
  assumes "fits v" "fits w" "upd s n w = Inr (k, s1)" "upd s1 n v = Inr (l, s2)"
  shows "look s2 = (look s)(n := map_option (put v) (look s n))"
  using upd_result [OF assms(2,3)] upd_result [OF assms(1,4)]
  by (simp add: option.map_comp comp_def put_put)

lemma upd_commute:
  assumes "n \<noteq> m" "fits v" "fits w"
    and "upd s n v = Inr (k, s1)" "upd s1 m w = Inr (l, s2)"
    and "upd s m w = Inr (l', t1)" "upd t1 n v = Inr (k', t2)"
  shows "look s2 = look t2 \<and> k = k' \<and> l = l'"
  using upd_result [OF assms(2,4)] upd_result [OF assms(3,5)]
    upd_result [OF assms(3,6)] upd_result [OF assms(2,7)] assms(1)
  by (auto simp: fun_upd_twist)

end

lemma update_as_set_user:
  assumes "\<And>sf n v. up sf n v = (case find_user sf n of None \<Rightarrow> Inr (-1, sf)
             | Some i \<Rightarrow> Inr (0, set_user sf i (put v (user_at sf i))))"
    and "\<And>v u. username (put v u) = username u" and "\<And>v w u. put v (put w u) = put v u"
  shows "field_store lookup up put (\<lambda>_. True)"
proof
  fix s n v u
  assume "lookup s n = Some u"
  then obtain i where "find_user s n = Some i" "u = user_at s i" by (auto simp: lookup_Some)
  then show "\<exists>s'. up s n v = Inr (0, s') \<and> lookup s' = (lookup s)(n \<mapsto> put v u)"
    using assms(2) find_user_Some by (simp add: assms(1) lookup_set_user)
qed (auto simp: assms lookup_None)

interpretation dsc_store: field_store lookup update_daysSinceChanged "\<lambda>v. dsc_update (\<lambda>_. v)" "\<lambda>_. True"
  by (rule update_as_set_user) (simp_all add: update_defs)

interpretation dcc_store: field_store lookup update_daysUntilCanChange "\<lambda>v. dcc_update (\<lambda>_. v)" "\<lambda>_. True"
  by (rule update_as_set_user) (simp_all add: update_defs)

interpretation dmc_store: field_store lookup update_daysUntilMustChange "\<lambda>v. dmc_update (\<lambda>_. v)" "\<lambda>_. True"
  by (rule update_as_set_user) (simp_all add: update_defs)

interpretation dw_store: field_store lookup update_daysBeforeWarning "\<lambda>v. dw_update (\<lambda>_. v)" "\<lambda>_. True"
  by (rule update_as_set_user) (simp_all add: update_defs)

interpretation de_store: field_store lookup update_daysUntilExpiration "\<lambda>v. de_update (\<lambda>_. v)" "\<lambda>_. True"
  by (rule update_as_set_user) (simp_all add: update_defs)

interpretation dd_store: field_store lookup update_daysSinceDeactivation "\<lambda>v. dd_update (\<lambda>_. v)" "\<lambda>_. True"
  by (rule update_as_set_user) (simp_all add: update_defs)

interpretation reserved_store: field_store lookup update_reserved "\<lambda>v. reserved_update (\<lambda>_. v)" "\<lambda>_. True"
  by (rule update_as_set_user) (simp_all add: update_defs)

interpretation hash_store: field_store lookup update_hash "\<lambda>v. hash_update (\<lambda>_. v)" "\<lambda>v. length v < HASH_SIZE"
proof
  fix s n u and v :: string
  assume "lookup s n = Some u" and v: "length v < HASH_SIZE"
  then obtain i where "find_user s n = Some i" "u = user_at s i" by (auto simp: lookup_Some)
  then show "\<exists>s'. update_hash s n v = Inr (0, s') \<and> lookup s' = (lookup s)(n \<mapsto> u\<lparr>hash := v\<rparr>)"
    using v find_user_Some [of s n i] by (simp add: update_hash_def lookup_set_user strcpy_def)
qed (auto simp: update_hash_def lookup_None)

text \<open>
  The contract of the tree as a store of entries under distinct names, for a caller that adds
  and removes them.
\<close>

locale user_store =
  fixes look :: "'s \<Rightarrow> string \<Rightarrow> 'u option"
    and add :: "'s \<Rightarrow> string \<Rightarrow> (int \<times> 's) c"
    and del :: "'s \<Rightarrow> string \<Rightarrow> (int \<times> 's) c"
    and fresh :: "string \<Rightarrow> 'u"
    and fits :: "string \<Rightarrow> bool"
    and invar :: "'s \<Rightarrow> bool"
  assumes add_known: "look s n \<noteq> None \<Longrightarrow> add s n = Inr (-3, s)"
    and add_new: "invar s \<Longrightarrow> look s n = None \<Longrightarrow> fits n \<Longrightarrow>
          \<exists>s'. add s n = Inr (0, s') \<and> look s' = (look s)(n \<mapsto> fresh n) \<and> invar s'"
    and del_known: "invar s \<Longrightarrow> look s n \<noteq> None \<Longrightarrow>
          \<exists>s'. del s n = Inr (0, s') \<and> look s' = (look s)(n := None) \<and> invar s'"
begin

lemma add_then_del:
  assumes "invar s" "look s n = None" "fits n"
  obtains s1 s2 where "add s n = Inr (0, s1)" "del s1 n = Inr (0, s2)" "look s2 = look s" "invar s2"
proof -
  from add_new [OF assms] obtain s1 where
    s1: "add s n = Inr (0, s1)" "look s1 = (look s)(n \<mapsto> fresh n)" "invar s1" by blast
  then obtain s2 where s2: "del s1 n = Inr (0, s2)" "look s2 = (look s1)(n := None)" "invar s2"
    using del_known [of s1 n] by auto
  have "look s2 = look s" using s1(2) s2(2) assms(2) by (auto simp: fun_eq_iff)
  with s1 s2 that show ?thesis by blast
qed

lemma del_then_add:
  assumes "invar s" "look s n \<noteq> None" "fits n"
  obtains s1 s2 where "del s n = Inr (0, s1)" "add s1 n = Inr (0, s2)"
    "look s2 = (look s)(n \<mapsto> fresh n)" "invar s2"
proof -
  from del_known [OF assms(1,2)] obtain s1 where
    s1: "del s n = Inr (0, s1)" "look s1 = (look s)(n := None)" "invar s1" by blast
  moreover then obtain s2 where "add s1 n = Inr (0, s2)" "look s2 = (look s1)(n \<mapsto> fresh n)" "invar s2"
    using add_new [of s1 n] assms(3) by auto
  ultimately show ?thesis using that by simp
qed

lemma add_twice: "invar s \<Longrightarrow> fits n \<Longrightarrow> add s n = Inr (k, s1) \<Longrightarrow> add s1 n = Inr (-3, s1)"
  using add_known [of s n] add_known [of s1 n] add_new [of s n] by (cases "look s n") auto

end

definition tree_ok :: "sf_root \<Rightarrow> bool" where
  "tree_ok sf \<longleftrightarrow> wf_tree sf \<and> distinct_names sf"

lemma tree_ok_add:
  assumes "tree_ok sf" "sf_tree_add_user mem t sf name = Inr (k, sf')"
  shows "tree_ok sf'"
proof (cases "k = 0")
  case True
  then have h: "find_user sf name = None" "length name < 16" "sf' = sf\<lparr>head := head sf @ [new_user t name]\<rparr>"
    using assms(2) by (auto simp: sf_tree_add_user_def bindc_eq_Inr new_user_def split: if_splits)
  then show ?thesis
    using assms(1) wf_new_user [of name t]
    by (auto simp: tree_ok_def wf_tree_def distinct_names_def find_user_None new_user_def)
qed (use assms in \<open>auto simp: sf_tree_add_user_def bindc_eq_Inr split: if_splits\<close>)

lemma tree_ok_delete:
  assumes "tree_ok sf" "sf_tree_delete_user sf name = Inr (k, sf')"
  shows "tree_ok sf'"
proof -
  have "head sf \<noteq> []" using assms(2) by (auto simp: sf_tree_delete_user_def)
  then have "sf' = sf \<or> sf' = sf\<lparr>head := remove_first name (head sf)\<rparr>"
    using assms(2) by (auto simp: sf_tree_delete_user_eq split: if_splits)
  then show ?thesis
    using assms(1) remove_first_subset [of name "head sf"] remove_first_distinct [of "head sf" name]
    by (auto simp: tree_ok_def wf_tree_def distinct_names_def list_all_iff subset_iff)
qed

interpretation tree_store: user_store lookup "sf_tree_add_user True t" sf_tree_delete_user
  "new_user t" "\<lambda>n. length n < USERNAME_SIZE" tree_ok for t
proof
  fix s n
  show "sf_tree_add_user True t s n = Inr (-3, s)" if "lookup s n \<noteq> None"
    using that by (simp add: sf_tree_add_user_def lookup_None)
  show "\<exists>s'. sf_tree_add_user True t s n = Inr (0, s') \<and> lookup s' = (lookup s)(n \<mapsto> new_user t n) \<and> tree_ok s'"
    if "tree_ok s" "lookup s n = None" "length n < USERNAME_SIZE"
  proof -
    have "sf_tree_add_user True t s n = Inr (0, s\<lparr>head := head s @ [new_user t n]\<rparr>)"
      using that by (simp add: sf_tree_add_user_def lookup_None strcpy_def new_user_def)
    moreover from tree_ok_add [OF that(1) this]
    have "tree_ok (s\<lparr>head := head s @ [new_user t n]\<rparr>)" .
    moreover have "lookup (s\<lparr>head := head s @ [new_user t n]\<rparr>) = (lookup s)(n \<mapsto> new_user t n)"
      using that by (intro lookup_append_new) (simp_all add: lookup_None new_user_def)
    ultimately show ?thesis by blast
  qed
  show "\<exists>s'. sf_tree_delete_user s n = Inr (0, s') \<and> lookup s' = (lookup s)(n := None) \<and> tree_ok s'"
    if "tree_ok s" "lookup s n \<noteq> None"
  proof -
    have "head s \<noteq> []" using that by (auto simp: lookup_None find_user_None)
    then have "sf_tree_delete_user s n = Inr (0, s\<lparr>head := remove_first n (head s)\<rparr>)"
      using that by (simp add: sf_tree_delete_user_eq lookup_None)
    moreover from tree_ok_delete [OF that(1) this]
    have "tree_ok (s\<lparr>head := remove_first n (head s)\<rparr>)" .
    moreover have "lookup (s\<lparr>head := remove_first n (head s)\<rparr>) = (lookup s)(n := None)"
      using that(1) by (intro lookup_remove_first) (simp add: tree_ok_def distinct_names_def)
    ultimately show ?thesis by blast
  qed
qed

section \<open>Runs of tree operations\<close>

text \<open>
  One call of an operation of the tree that leaves the name of every entry alone, whatever it answers;
  the values stored are C integers. \<open>update_username\<close>, which may give an entry a name that another
  one has, is added in the runs below.
\<close>

inductive tree_step :: "sf_root \<Rightarrow> sf_root \<Rightarrow> bool" where
  add: "sf_tree_add_user mem t sf name = Inr (k, sf') \<Longrightarrow> tree_step sf sf'"
| del: "sf_tree_delete_user sf name = Inr (k, sf') \<Longrightarrow> tree_step sf sf'"
| hash: "update_hash sf name h = Inr (k, sf') \<Longrightarrow> tree_step sf sf'"
| dsc: "in_int v \<Longrightarrow> update_daysSinceChanged sf name v = Inr (k, sf') \<Longrightarrow> tree_step sf sf'"
| dcc: "in_int v \<Longrightarrow> update_daysUntilCanChange sf name v = Inr (k, sf') \<Longrightarrow> tree_step sf sf'"
| dmc: "in_int v \<Longrightarrow> update_daysUntilMustChange sf name v = Inr (k, sf') \<Longrightarrow> tree_step sf sf'"
| dw: "in_int v \<Longrightarrow> update_daysBeforeWarning sf name v = Inr (k, sf') \<Longrightarrow> tree_step sf sf'"
| de: "in_int v \<Longrightarrow> update_daysUntilExpiration sf name v = Inr (k, sf') \<Longrightarrow> tree_step sf sf'"
| dd: "in_int v \<Longrightarrow> update_daysSinceDeactivation sf name v = Inr (k, sf') \<Longrightarrow> tree_step sf sf'"
| reserved: "update_reserved sf name r = Inr (k, sf') \<Longrightarrow> tree_step sf sf'"

lemma set_user_ok [wf_intros]:
  "tree_ok sf \<Longrightarrow> find_user sf name = Some i \<Longrightarrow> wf_user u \<Longrightarrow> username u = username (user_at sf i)
     \<Longrightarrow> tree_ok (set_user sf i u)"
  by (simp add: tree_ok_def wf_set_user distinct_set_user)

lemma update_ok:
  assumes "tree_ok sf"
    and "(case find_user sf n of None \<Rightarrow> Inr (-1, sf)
            | Some i \<Rightarrow> Inr (0, set_user sf i (put (user_at sf i)))) = (Inr (k, sf') :: (int \<times> sf_root) c)"
    and "\<And>u. wf_user u \<Longrightarrow> wf_user (put u) \<and> username (put u) = username u"
  shows "tree_ok sf'"
proof (cases "find_user sf n")
  case (Some i)
  have "wf_user (user_at sf i)" using assms(1) Some by (simp add: tree_ok_def wf_user_at)
  then show ?thesis using assms Some by (auto intro!: set_user_ok)
qed (use assms in simp)

lemma update_hash_ok:
  assumes "tree_ok sf" "update_hash sf n h = Inr (k, sf')"
  shows "tree_ok sf'"
proof (cases "find_user sf n")
  case (Some i)
  have "wf_user (user_at sf i)" using assms(1) Some by (simp add: tree_ok_def wf_user_at)
  then show ?thesis
    using assms Some by (auto simp: update_hash_def bindc_eq_Inr wf_user_def split: if_splits intro!: set_user_ok)
qed (use assms in \<open>simp add: update_hash_def\<close>)

lemma tree_step_ok: "tree_step sf sf' \<Longrightarrow> tree_ok sf \<Longrightarrow> tree_ok sf'"
proof (induction rule: tree_step.induct)
  case (dsc v sf name k sf')
  show ?case by (rule update_ok [OF dsc.prems, where put = "dsc_update (\<lambda>_. v)"])
      (use dsc in \<open>auto simp: update_defs wf_user_def\<close>)
next
  case (dcc v sf name k sf')
  show ?case by (rule update_ok [OF dcc.prems, where put = "dcc_update (\<lambda>_. v)"])
      (use dcc in \<open>auto simp: update_defs wf_user_def\<close>)
next
  case (dmc v sf name k sf')
  show ?case by (rule update_ok [OF dmc.prems, where put = "dmc_update (\<lambda>_. v)"])
      (use dmc in \<open>auto simp: update_defs wf_user_def\<close>)
next
  case (dw v sf name k sf')
  show ?case by (rule update_ok [OF dw.prems, where put = "dw_update (\<lambda>_. v)"])
      (use dw in \<open>auto simp: update_defs wf_user_def\<close>)
next
  case (de v sf name k sf')
  show ?case by (rule update_ok [OF de.prems, where put = "de_update (\<lambda>_. v)"])
      (use de in \<open>auto simp: update_defs wf_user_def\<close>)
next
  case (dd v sf name k sf')
  show ?case by (rule update_ok [OF dd.prems, where put = "dd_update (\<lambda>_. v)"])
      (use dd in \<open>auto simp: update_defs wf_user_def\<close>)
next
  case (reserved sf name r k sf')
  show ?case by (rule update_ok [OF reserved.prems, where put = "reserved_update (\<lambda>_. r)"])
      (use reserved in \<open>auto simp: update_defs wf_user_def\<close>)
qed (auto intro: tree_ok_add tree_ok_delete update_hash_ok)

lemma tree_step_wf: "tree_step sf sf' \<Longrightarrow> wf_tree sf \<Longrightarrow> wf_tree sf'"
proof (induction rule: tree_step.induct)
  case (add mem t sf name k sf')
  then show ?case using wf_add [of sf mem t name] by simp
next
  case (del sf name k sf')
  then show ?case using wf_delete [of sf name] by simp
next
  case (hash sf name h k sf')
  then show ?case using wf_update_hash [of sf name h] by simp
qed (auto simp: update_defs wf_user_def intro!: wf_update split: option.splits)

text \<open>
  The names that \<open>update_username\<close> may ask for without making two entries share one: for an
  entry that is there and a name short enough, the name it has or a free one.
\<close>

definition rename_ok :: "(string \<Rightarrow> user option) \<Rightarrow> string \<Rightarrow> string \<Rightarrow> bool" where
  "rename_ok look name new \<longleftrightarrow> look name = None \<or> 8 < length new \<or> new = name \<or> look new = None"

text \<open>
  The trees that calls of all the operations lead to; the flag says that every call of
  \<open>update_username\<close> so far was of that kind.
\<close>

inductive tree_reachable :: "bool \<Rightarrow> sf_root \<Rightarrow> bool" where
  init: "sf_tree_init True [] path = Inr (Some sf) \<Longrightarrow> tree_reachable True sf"
| step: "tree_reachable free sf \<Longrightarrow> tree_step sf sf' \<Longrightarrow> tree_reachable free sf'"
| rename: "tree_reachable free sf \<Longrightarrow> update_username sf name new = Inr (k, sf')
    \<Longrightarrow> tree_reachable (free \<and> rename_ok (lookup sf) name new) sf'"

lemma update_username_wf:
  assumes "wf_tree sf" "update_username sf n new = Inr (k, sf')"
  shows "wf_tree sf'"
proof (cases "find_user sf n")
  case (Some i)
  then show ?thesis
    using assms by (auto simp: update_username_def bindc_eq_Inr wf_user_def split: if_splits intro!: wf_update)
qed (use assms in \<open>simp add: update_username_def\<close>)

lemma update_username_distinct:
  assumes "distinct_names sf" "update_username sf n new = Inr (k, sf')" "rename_ok (lookup sf) n new"
  shows "distinct_names sf'"
proof (cases "find_user sf n")
  case (Some i)
  then show ?thesis
    using assms find_user_Some [OF Some] distinct_renamed [OF assms(1), of i new]
    by (auto simp: update_username_def bindc_eq_Inr rename_ok_def lookup_None split: if_splits)
qed (use assms in \<open>simp add: update_username_def\<close>)

lemma reachable_tree: "tree_reachable free sf \<Longrightarrow> wf_tree sf \<and> (free \<longrightarrow> distinct_names sf)"
proof (induction rule: tree_reachable.induct)
  case (init path sf)
  then show ?case by (auto simp: sf_tree_init_def bindc_eq_Inr wf_tree_def distinct_names_def)
next
  case (step free sf sf')
  then show ?case using tree_step_wf tree_step_ok by (auto simp: tree_ok_def)
next
  case (rename free sf name new k sf')
  then show ?case using update_username_wf update_username_distinct by blast
qed

section \<open>The tree as a book of entries\<close>

text \<open>
  All operations that change a tree, as data, and what they do to the abstract book: a map from names
  to entries, with the codes that the functions return and the calls whose behaviour is undefined.
\<close>

datatype tree_call =
    AddUser bool int string
  | DeleteUser string
  | UpdateUsername string string
  | UpdateHash string string
  | UpdateDaysSinceChanged string int
  | UpdateDaysUntilCanChange string int
  | UpdateDaysUntilMustChange string int
  | UpdateDaysBeforeWarning string int
  | UpdateDaysUntilExpiration string int
  | UpdateDaysSinceDeactivation string int
  | UpdateReserved string reserved_ptr

primrec tree_op :: "tree_call \<Rightarrow> sf_root \<Rightarrow> (int \<times> sf_root) c" where
  "tree_op (AddUser mem t n) sf = sf_tree_add_user mem t sf n"
| "tree_op (DeleteUser n) sf = sf_tree_delete_user sf n"
| "tree_op (UpdateUsername n new) sf = update_username sf n new"
| "tree_op (UpdateHash n h) sf = update_hash sf n h"
| "tree_op (UpdateDaysSinceChanged n v) sf = update_daysSinceChanged sf n v"
| "tree_op (UpdateDaysUntilCanChange n v) sf = update_daysUntilCanChange sf n v"
| "tree_op (UpdateDaysUntilMustChange n v) sf = update_daysUntilMustChange sf n v"
| "tree_op (UpdateDaysBeforeWarning n v) sf = update_daysBeforeWarning sf n v"
| "tree_op (UpdateDaysUntilExpiration n v) sf = update_daysUntilExpiration sf n v"
| "tree_op (UpdateDaysSinceDeactivation n v) sf = update_daysSinceDeactivation sf n v"
| "tree_op (UpdateReserved n r) sf = update_reserved sf n r"

type_synonym book = "string \<Rightarrow> user option"

definition book_put :: "book \<Rightarrow> string \<Rightarrow> (user \<Rightarrow> user) \<Rightarrow> (int \<times> book) c" where
  "book_put m n f = (case m n of None \<Rightarrow> Inr (-1, m) | Some u \<Rightarrow> Inr (0, m(n \<mapsto> f u)))"

primrec book_op :: "tree_call \<Rightarrow> book \<Rightarrow> (int \<times> book) c" where
  "book_op (AddUser mem t n) m =
     (if m n \<noteq> None then Inr (-3, m) else if \<not> mem then Inr (-1, m)
      else if 16 < length n then Inr (-2, m) else if length n = 16 then Inl Overflow
      else Inr (0, m(n \<mapsto> new_user t n)))"
| "book_op (DeleteUser n) m =
     (if m = Map.empty then Inl NullDeref else if m n = None then Inr (-1, m) else Inr (0, m(n := None)))"
| "book_op (UpdateUsername n new) m =
     (case m n of None \<Rightarrow> Inr (-1, m)
      | Some u \<Rightarrow> if 8 < length new then Inr (-1, m) else Inr (0, m(n := None, new \<mapsto> u\<lparr>username := new\<rparr>)))"
| "book_op (UpdateHash n h) m =
     (if m n = None \<or> 32 < length h then Inr (-1, m) else if length h = 32 then Inl Overflow
      else book_put m n (hash_update (\<lambda>_. h)))"
| "book_op (UpdateDaysSinceChanged n v) m = book_put m n (dsc_update (\<lambda>_. v))"
| "book_op (UpdateDaysUntilCanChange n v) m = book_put m n (dcc_update (\<lambda>_. v))"
| "book_op (UpdateDaysUntilMustChange n v) m = book_put m n (dmc_update (\<lambda>_. v))"
| "book_op (UpdateDaysBeforeWarning n v) m = book_put m n (dw_update (\<lambda>_. v))"
| "book_op (UpdateDaysUntilExpiration n v) m = book_put m n (de_update (\<lambda>_. v))"
| "book_op (UpdateDaysSinceDeactivation n v) m = book_put m n (dd_update (\<lambda>_. v))"
| "book_op (UpdateReserved n r) m = book_put m n (reserved_update (\<lambda>_. r))"

text \<open>A run: the codes in order and the last state, or the undefined behaviour that it met.\<close>

fun run_calls :: "('o \<Rightarrow> 's \<Rightarrow> (int \<times> 's) c) \<Rightarrow> 'o list \<Rightarrow> 's \<Rightarrow> (int list \<times> 's) c" where
  "run_calls op [] s = Inr ([], s)"
| "run_calls op (x # xs) s =
     bindc (op x s) (\<lambda>(k, s1). bindc (run_calls op xs s1) (\<lambda>(ks, s2). Inr (k # ks, s2)))"

text \<open>The condition \<open>pre\<close> at every call of a run of the specification.\<close>

fun run_pre :: "('o \<Rightarrow> 'a \<Rightarrow> bool) \<Rightarrow> ('o \<Rightarrow> 'a \<Rightarrow> (int \<times> 'a) c) \<Rightarrow> 'o list \<Rightarrow> 'a \<Rightarrow> bool" where
  "run_pre pre spec [] a = True"
| "run_pre pre spec (x # xs) a =
     (pre x a \<and> (case spec x a of Inl _ \<Rightarrow> True | Inr (k, a') \<Rightarrow> run_pre pre spec xs a'))"

text \<open>
  One object simulates another, step by step, while a condition on the calls holds: then it does so
  in runs.
\<close>

locale simulation =
  fixes op :: "'o \<Rightarrow> 's \<Rightarrow> (int \<times> 's) c"
    and spec :: "'o \<Rightarrow> 'a \<Rightarrow> (int \<times> 'a) c"
    and abs :: "'s \<Rightarrow> 'a"
    and invar :: "'s \<Rightarrow> bool"
    and pre :: "'o \<Rightarrow> 'a \<Rightarrow> bool"
  assumes step: "invar s \<Longrightarrow> pre x (abs s) \<Longrightarrow> map_sum id (map_prod id abs) (op x s) = spec x (abs s)"
    and keeps: "invar s \<Longrightarrow> pre x (abs s) \<Longrightarrow> op x s = Inr (k, s') \<Longrightarrow> invar s'"
begin

lemma runs: "invar s \<Longrightarrow> run_pre pre spec xs (abs s) \<Longrightarrow>
    map_sum id (map_prod id abs) (run_calls op xs s) = run_calls spec xs (abs s)"
proof (induction xs arbitrary: s)
  case (Cons x xs)
  note one = step [of s x] keeps [of s x]
  show ?case
  proof (cases "op x s")
    case (Inl e)
    then have "spec x (abs s) = Inl e" using one Cons.prems by simp
    then show ?thesis using Inl by (simp add: bindc_def)
  next
    case (Inr r)
    then obtain k s' where r: "op x s = Inr (k, s')" by (cases r) auto
    then have "spec x (abs s) = Inr (k, abs s')" "invar s'" "run_pre pre spec xs (abs s')"
      using one Cons.prems by (auto split: sum.splits)
    then show ?thesis
      using r Cons.IH [of s', symmetric]
      by (cases "run_calls op xs s'") (auto simp: bindc_def split: prod.splits)
  qed
qed simp

end

text \<open>The tree simulates the book as long as \<open>update_username\<close> asks for names that are free.\<close>

definition call_ok :: "tree_call \<Rightarrow> book \<Rightarrow> bool" where
  "call_ok x m = (case x of UpdateUsername n new \<Rightarrow> rename_ok m n new | _ \<Rightarrow> True)"

lemma update_username_book:
  assumes "distinct_names sf" "rename_ok (lookup sf) n new"
  shows "map_sum id (map_prod id lookup) (update_username sf n new) = book_op (UpdateUsername n new) (lookup sf)"
proof (cases "find_user sf n")
  case (Some i)
  let ?v = "user_at sf i\<lparr>username := new\<rparr>"
  have i: "i < length (head sf)" "username (user_at sf i) = n" "lookup sf n = Some (user_at sf i)"
    using find_user_Some [OF Some] Some by (simp_all add: lookup_def)
  have "lookup (set_user sf i ?v) = (lookup sf)(n := None, new \<mapsto> ?v)" if "length new \<le> 8"
  proof (cases "new = n")
    case True
    then show ?thesis using lookup_set_user [OF Some, of ?v] by simp
  next
    case False
    then have "lookup sf new = None" using assms(2) i(3) that by (simp add: rename_ok_def)
    then show ?thesis
      using lookup_renamed [OF assms(1) _ i(1)] distinct_renamed [OF assms(1) i(1)] i(2) by simp
  qed
  then show ?thesis using Some i(3) by (auto simp: update_username_def strcpy_def)
qed (simp add: update_username_def lookup_def)

lemma add_user_spec:
  "sf_tree_add_user mem t sf name =
     (if lookup sf name \<noteq> None then Inr (-3, sf)
      else if \<not> mem then Inr (-1, sf)
      else if 16 < length name then Inr (-2, sf)
      else if length name = 16 then Inl Overflow
      else Inr (0, sf\<lparr>head := head sf @ [new_user t name]\<rparr>))"
  by (auto simp: sf_tree_add_user_def lookup_None strcpy_def new_user_def)

lemma lookup_empty: "lookup sf = Map.empty \<longleftrightarrow> head sf = []"
proof
  assume "lookup sf = Map.empty"
  then have "username ` set (head sf) = {}" by (auto simp: fun_eq_iff lookup_None find_user_None)
  then show "head sf = []" by simp
qed (simp add: lookup_def find_user_def fun_eq_iff)

lemma delete_user_book:
  assumes "distinct_names sf"
  shows "map_sum id (map_prod id lookup) (sf_tree_delete_user sf n) = book_op (DeleteUser n) (lookup sf)"
proof (cases "head sf = []")
  case True
  then show ?thesis by (simp add: lookup_empty) (simp add: sf_tree_delete_user_def)
next
  case False
  then show ?thesis
    using lookup_remove_first [of sf n] assms
    by (simp add: sf_tree_delete_user_eq lookup_empty lookup_None distinct_names_def)
qed

lemma update_hash_book:
  "map_sum id (map_prod id lookup) (update_hash sf n h) = book_op (UpdateHash n h) (lookup sf)"
proof (cases "lookup sf n")
  case (Some u)
  then obtain i where i: "find_user sf n = Some i" by (auto simp: lookup_Some)
  show ?thesis
  proof (cases "length h < HASH_SIZE")
    case True
    then show ?thesis using hash_store.upd_present [OF Some True] Some by (auto simp: book_put_def)
  qed (use Some i in \<open>auto simp: update_hash_def strcpy_def\<close>)
qed (simp add: hash_store.upd_absent)

context field_store
begin

lemma upd_book: "fits v \<Longrightarrow> map_sum id (map_prod id look) (upd s n v)
    = (case look s n of None \<Rightarrow> Inr (-1, look s) | Some u \<Rightarrow> Inr (0, (look s)(n \<mapsto> put v u)))"
  using upd_present [of s n _ v] by (cases "look s n") (auto simp: upd_absent)

end

lemma tree_op_book:
  assumes "distinct_names sf" "call_ok x (lookup sf)"
  shows "map_sum id (map_prod id lookup) (tree_op x sf) = book_op x (lookup sf)"
proof (cases x)
  case (AddUser mem t n)
  then show ?thesis
    using lookup_append_new [of sf n "new_user t n"] by (simp add: add_user_spec lookup_None new_user_def)
next
  case (UpdateUsername n new)
  then show ?thesis using update_username_book [OF assms(1)] assms(2) by (simp add: call_ok_def)
qed (simp_all add: delete_user_book [OF assms(1), simplified] update_hash_book [simplified] book_put_def
    dsc_store.upd_book dcc_store.upd_book dmc_store.upd_book dw_store.upd_book de_store.upd_book
    dd_store.upd_book reserved_store.upd_book)

lemma tree_op_distinct:
  assumes "distinct_names sf" "call_ok x (lookup sf)" "tree_op x sf = Inr (k, sf')"
  shows "distinct_names sf'"
proof (cases x)
  case (AddUser mem t n)
  then show ?thesis
    using assms by (auto simp: add_user_spec lookup_None find_user_None distinct_names_def new_user_def split: if_splits)
next
  case (DeleteUser n)
  then show ?thesis
    using assms remove_first_distinct [of "head sf" n]
    by (cases "head sf = []")
      (auto simp: sf_tree_delete_user_eq distinct_names_def split: if_splits, simp add: sf_tree_delete_user_def)
next
  case (UpdateUsername n new)
  then show ?thesis using assms update_username_distinct by (simp add: call_ok_def)
qed (use assms in \<open>auto simp: update_hash_def update_defs bindc_eq_Inr split: if_splits option.splits intro!: distinct_set_user\<close>)

interpretation tree_book: simulation tree_op book_op lookup distinct_names call_ok
  by unfold_locales (auto simp: tree_op_book tree_op_distinct)

section \<open>Properties\<close>

text \<open>
  (C5) Whatever the tree operations are called with, \<open>update_username\<close> among them, as long as each call
  has defined behaviour: every name and hash with its terminator fits its array and every day count is
  a C \<open>int\<close>; and if every call of \<open>update_username\<close> that can succeed asked for a free name (or the old
  one), no two entries have the same name. (The block that \<open>sf_tree_init\<close> obtains is taken to be zero
  where \<open>head\<close> lies.)
\<close>

theorem tree_reachable_ok: "tree_reachable free sf \<Longrightarrow> wf_tree sf \<and> (free \<longrightarrow> distinct_names sf)"
  by (rule reachable_tree)

theorem tree_reachable_ok_witness:
  "wf_tree \<lparr>sf_path = ''/'', head = [new_user 0 ''rob'']\<rparr>
   \<and> distinct_names \<lparr>sf_path = ''/'', head = [new_user 0 ''rob'']\<rparr>"
proof -
  let ?s = "\<lambda>us. \<lparr>sf_path = ''/'', head = us\<rparr>"
  have "tree_reachable True (?s [])"
    by (rule tree_reachable.init [of "''/''"]) (simp add: sf_tree_init_def strcpy_def)
  moreover have "tree_step (?s []) (?s [new_user 0 ''bob''])"
    by (rule tree_step.add [of True 0 _ "''bob''" 0])
      (simp add: sf_tree_add_user_def find_user_def strcpy_def new_user_def)
  ultimately have "tree_reachable True (?s [new_user 0 ''bob''])" by (rule tree_reachable.step)
  moreover have "update_username (?s [new_user 0 ''bob'']) ''bob'' ''rob'' = Inr (0, ?s [new_user 0 ''rob''])"
    by (simp add: update_username_def find_user_def set_user_def user_at_def strcpy_def new_user_def)
  ultimately have "tree_reachable (True \<and> rename_ok (lookup (?s [new_user 0 ''bob''])) ''bob'' ''rob'')
      (?s [new_user 0 ''rob''])"
    by (rule tree_reachable.rename)
  then show ?thesis
    using tree_reachable_ok by (simp add: rename_ok_def lookup_def find_user_def new_user_def)
qed

text \<open>
  (C7) The list of entries implements a book of entries by name: in every sequence of calls of the
  eleven operations that change a tree (adding, removing and renaming an entry, setting any of its
  fields) each call answers the code, or has the undefined behaviour, that the book prescribes
  (\<open>book_op\<close>), and at the end every name finds what the book has under it. The tree starts with
  different names, and \<open>update_username\<close> asks for names that are free.
\<close>

theorem tree_implements_book:
  assumes "distinct_names sf" "run_pre call_ok book_op calls (lookup sf)"
  shows "map_sum id (map_prod id lookup) (run_calls tree_op calls sf) = run_calls book_op calls (lookup sf)"
  using assms by (rule tree_book.runs)

theorem tree_implements_book_witness:
  "map_sum id (map_prod id lookup)
     (run_calls tree_op [AddUser True 0 ''bob'', AddUser True 0 ''bob'', UpdateHash ''bob'' ''!'',
        UpdateUsername ''bob'' ''rob'', DeleteUser ''bob'', UpdateDaysBeforeWarning ''rob'' 14]
        \<lparr>sf_path = ''/'', head = []\<rparr>)
   = Inr ([0, -3, 0, 0, -1, 0], [''rob'' \<mapsto> (new_user 0 ''rob'')\<lparr>hash := ''!'', dw := 14\<rparr>])"
proof -
  let ?sf = "\<lparr>sf_path = ''/'', head = []\<rparr>"
  let ?calls = "[AddUser True 0 ''bob'', AddUser True 0 ''bob'', UpdateHash ''bob'' ''!'',
        UpdateUsername ''bob'' ''rob'', DeleteUser ''bob'', UpdateDaysBeforeWarning ''rob'' 14]"
  have e: "lookup ?sf = Map.empty" by (simp add: lookup_empty)
  have "run_pre call_ok book_op ?calls (lookup ?sf)"
    unfolding e by (simp add: call_ok_def rename_ok_def book_put_def)
  then have "map_sum id (map_prod id lookup) (run_calls tree_op ?calls ?sf) = run_calls book_op ?calls (lookup ?sf)"
    by (intro tree_implements_book) (simp_all add: distinct_names_def)
  then show ?thesis unfolding e by (simp add: book_put_def new_user_def)
qed

text \<open>
  Adding a new name and deleting it again gives back the very same list, and deleting a known
  name makes it unknown without touching what any other name denotes.
\<close>

lemma add_delete_user:
  assumes "tree_ok sf" "length name < USERNAME_SIZE"
  shows "(lookup sf name = None \<longrightarrow>
            bindc (sf_tree_add_user True t sf name) (\<lambda>(k, sf'). sf_tree_delete_user sf' name) = Inr (0, sf))
    \<and> (lookup sf name \<noteq> None \<longrightarrow>
         (\<exists>sf'. sf_tree_delete_user sf name = Inr (0, sf') \<and> lookup sf' = (lookup sf)(name := None)))"
proof (intro conjI impI)
  assume "lookup sf name = None"
  moreover have "remove_first name (us @ [new_user t name]) = us" if "name \<notin> username ` set us" for us
    using that by (induction us) (auto simp: new_user_def)
  ultimately show "bindc (sf_tree_add_user True t sf name) (\<lambda>(k, sf'). sf_tree_delete_user sf' name) = Inr (0, sf)"
    using assms(2)
    by (simp add: sf_tree_add_user_def lookup_None strcpy_def find_user_None new_user_def sf_tree_delete_user_eq)
qed (use tree_store.del_known [OF assms(1)] in blast)

text \<open>
  \<open>update_hash\<close> on every branch; in particular the hash of 32 characters that \<open>hashword\<close>
  produces passes the length check and overflows the array.
\<close>

lemma update_hash_spec:
  "(lookup sf name = None \<or> 32 < length h \<longrightarrow> update_hash sf name h = Inr (-1, sf))
   \<and> (lookup sf name \<noteq> None \<and> length h = 32 \<longrightarrow> update_hash sf name h = Inl Overflow)
   \<and> (\<forall>u. lookup sf name = Some u \<and> length h < 32 \<longrightarrow>
        (\<exists>sf'. update_hash sf name h = Inr (0, sf') \<and> lookup sf' = (lookup sf)(name \<mapsto> u\<lparr>hash := h\<rparr>)))"
  using hash_store.upd_present [of sf name _ h]
  by (auto simp: update_hash_def lookup_None strcpy_def split: option.splits)

text \<open>
  The day counter is the number of whole days since 1970 up to the end of the 31-bit era; from
  second 2^31 on (January 2038) the cast makes it non-positive.
\<close>

lemma shadow_time_era:
  "(0 \<le> t \<and> t < 2 ^ 31 \<longrightarrow> shadow_time t = t div 86400)
   \<and> (2 ^ 31 \<le> t \<and> t < 2 ^ 32 \<longrightarrow> shadow_time t = - ((2 ^ 32 - t) div 86400))"
proof -
  have "c_int t = t - 2 ^ 32" if "2 ^ 31 \<le> t" "t < 2 ^ 32"
  proof -
    have "(t + 2 ^ 31) mod 2 ^ 32 = (t - 2 ^ 31 + 2 ^ 32) mod 2 ^ 32" by (simp add: add.commute)
    also have "\<dots> = t - 2 ^ 31" unfolding mod_add_self2 using that by simp
    finally show ?thesis by (simp add: c_int_def)
  qed
  moreover have "c_int t = t" if "0 \<le> t" "t < 2 ^ 31"
    using that by (simp add: in_int_def int_min_def int_max_def)
  ultimately show ?thesis by (auto simp: shadow_time_def sgn_if)
qed

end
