(* ===== verification/Shadow_Parse.thy ===== *)
theory Shadow_Parse
  imports Shadow_Tree Md5
begin

text \<open>
  \<open>src/src/parse.h\<close>: reading the shadow file into the tree and writing the tree back.
  The file is the text \<open>fopen\<close> gives access to (\<open>None\<close> when it fails); \<open>printf\<close> messages and the
  unreachable \<open>fclose\<close> are left out, the latter being a leaked handle only.
\<close>

section \<open>Reading\<close>

text \<open>\<open>token = strtok (NULL, ":"); (token == NULL) ? 0 : atoi (token)\<close>, and the text left.\<close>

definition day_token :: "string \<Rightarrow> int \<times> string" where
  "day_token s = (case strtok (CHR '':'') s of
     (None, s') \<Rightarrow> (0, s') | (Some token, s') \<Rightarrow> (atoi token, s'))"

datatype line_end = Continue sf_root | Return sf_root

text \<open>The body of the \<open>while (fgets (...))\<close> loop: the next turn, or an early return.\<close>

definition parse_line :: "bool \<Rightarrow> int \<Rightarrow> sf_root \<Rightarrow> string \<Rightarrow> line_end c" where
  "parse_line mem t sf line =
     (let (tok, s1) = strtok (CHR '':'') line in
      case tok of None \<Rightarrow> Inl NullDeref | Some tok \<Rightarrow>
      bindc (strcpy 16 tok) (\<lambda>user.
      if user = '''' then Inr (Return sf) else
      bindc (sf_tree_add_user mem t sf user) (\<lambda>(_, sf).
      let (tok, s2) = strtok (CHR '':'') s1 in
      case tok of None \<Rightarrow> Inl NullDeref | Some tok \<Rightarrow>
      bindc (strcpy 33 tok) (\<lambda>hash.
      if hash = '''' then Inr (Return sf) else
      bindc (update_hash sf user hash) (\<lambda>(_, sf).
      let (dsc, s3) = day_token s2 in
      bindc (update_daysSinceChanged sf user dsc) (\<lambda>(_, sf).
      let (dcc, s4) = day_token s3 in
      bindc (update_daysUntilCanChange sf user dcc) (\<lambda>(_, sf).
      let (dmc, s5) = day_token s4 in
      bindc (update_daysUntilMustChange sf user dmc) (\<lambda>(_, sf).
      let (warn, s6) = day_token s5 in
      bindc (update_daysBeforeWarning sf user warn) (\<lambda>(_, sf).
      let (expire, s7) = day_token s6 in
      bindc (update_daysUntilExpiration sf user expire) (\<lambda>(_, sf).
      let (dse, s8) = day_token s7 in
      bindc (update_daysSinceDeactivation sf user dse) (\<lambda>(_, sf).
      Inr (Continue sf))))))))))))"

fun parse_loop :: "bool \<Rightarrow> int \<Rightarrow> sf_root \<Rightarrow> string list \<Rightarrow> sf_root c" where
  "parse_loop mem t sf [] = Inr sf"
| "parse_loop mem t sf (line # lines) =
     bindc (parse_line mem t sf line)
       (\<lambda>r. case r of Return sf' \<Rightarrow> Inr sf' | Continue sf' \<Rightarrow> parse_loop mem t sf' lines)"

text \<open>
  \<open>char line[256]\<close>: \<open>fgets\<close> takes at most 255 bytes. A null \<open>FILE *\<close> and a null tree are
  dereferenced by the loop.
\<close>

definition init_parse :: "bool \<Rightarrow> int \<Rightarrow> user list \<Rightarrow> string option \<Rightarrow> string \<Rightarrow> sf_root c" where
  "init_parse mem t junk file path =
     bindc (sf_tree_init mem junk path) (\<lambda>sf.
       case file of None \<Rightarrow> Inl NullDeref | Some content \<Rightarrow>
       (case sf of None \<Rightarrow> Inl NullDeref
        | Some sf \<Rightarrow> parse_loop mem t sf (fgets_lines 255 content)))"

section \<open>Writing\<close>

definition day_field :: "int \<Rightarrow> string" where
  "day_field v = (if v = 0 then '':'' else show_int v @ '':'')"

definition deparse_user :: "user \<Rightarrow> string c" where
  "deparse_user u =
     (let line = username u @ '':'' @ hash u @ '':'' @ show_int (dsc u) @ '':''
                 @ (if dcc u = 0 then ''0:'' else show_int (dcc u) @ '':'')
                 @ day_field (dmc u) @ day_field (dw u) @ day_field (de u) @ day_field (dd u)
      in case reserved u of
           RNull \<Rightarrow> Inr (line @ [NL])
         | RHeap res \<Rightarrow> Inr (line @ res @ [NL])
         | RBuf \<Rightarrow> Inl Dangling)"

fun deparse_loop :: "user list \<Rightarrow> string c" where
  "deparse_loop [] = Inr []"
| "deparse_loop (current # us) =
     bindc (deparse_user current) (\<lambda>l. bindc (deparse_loop us) (\<lambda>ls. Inr (l @ ls)))"

text \<open>
  The new contents of the file and, when \<open>frees\<close> is set, the nodes that were freed. \<open>ok\<close> says
  whether \<open>fopen (filename, "w")\<close> succeeds; if not, \<open>fprintf\<close> or \<open>fclose\<close> gets a null stream.
  The function ends without returning the \<open>int\<close> it is declared with; there is no such value here.
\<close>

definition sf_deparse :: "bool \<Rightarrow> sf_root \<Rightarrow> bool \<Rightarrow> (string \<times> user list) c" where
  "sf_deparse ok sf frees =
     (if \<not> ok then Inl NullDeref
      else bindc (deparse_loop (head sf)) (\<lambda>out.
        Inr (out, if frees then snd (sf_tree_destroy sf) else [])))"

section \<open>The driver in \<open>parse.c\<close>\<close>

text \<open>
  It prints the first two users, sets the password of \<open>root\<close> and writes the file back; the result
  is the text written.
\<close>

definition parse_main :: "bool \<Rightarrow> int \<Rightarrow> user list \<Rightarrow> u8 list \<Rightarrow> bool \<Rightarrow> string option \<Rightarrow> string c" where
  "parse_main mem t junk result ok shadow_out =
     bindc (init_parse mem t junk shadow_out ''/shadow/'') (\<lambda>sf.
     case head sf of
       first # second # _ \<Rightarrow>
         bindc (update_hash sf ''root'' (hashword result ''password2'')) (\<lambda>(_, sf).
         bindc (sf_deparse ok sf True) (\<lambda>(out, _). Inr out))
     | _ \<Rightarrow> Inl NullDeref)"

lemma parse_main_undefined:
  "init_parse mem t junk shadow_out ''/shadow/'' = Inr sf \<Longrightarrow> find_user sf ''root'' \<noteq> None \<Longrightarrow>
     \<not> defined (parse_main mem t junk result ok shadow_out)"
  by (auto simp: parse_main_def update_hash_def hashword_md5 length_hex strcpy_def split: list.splits)

section \<open>Tokens of a written line\<close>

lemma strtok_token:
  "tok \<noteq> [] \<Longrightarrow> d \<notin> set tok \<Longrightarrow> strtok d (tok @ d # rest) = (Some tok, rest)"
  by (cases tok) (auto simp: strtok_def Let_def)

lemma strtok_skip: "strtok d (d # rest) = strtok d rest"
  by (simp add: strtok_def)

lemma strtok_last: "tok \<noteq> [] \<Longrightarrow> d \<notin> set tok \<Longrightarrow> strtok d tok = (Some tok, [])"
  by (cases tok) (auto simp: strtok_def Let_def)

lemma day_token_field:
  "in_int v \<Longrightarrow> v \<noteq> 0 \<Longrightarrow> day_token (day_field v @ rest) = (v, rest)"
  using strtok_token [of "show_int v" "CHR '':''" rest] atoi_show_int [of v "[]"]
  by (simp add: day_token_def day_field_def)

lemma day_token_show:
  "in_int v \<Longrightarrow> day_token (show_int v @ CHR '':'' # rest) = (v, rest)"
  using strtok_token [of "show_int v" "CHR '':''" rest] atoi_show_int [of v "[]"]
  by (simp add: day_token_def)

lemma day_token_Nil: "day_token [] = (0, [])"
  by (simp add: day_token_def strtok_def)

lemma atoi_newline: "atoi [NL] = 0"
  by (simp add: atoi_def strtol_def isspace_def sign_of_def digits_val_def)

lemma day_token_zeros:
  "day_token (replicate n (CHR '':'') @ [NL]) = (0, [])"
proof (induction n)
  case 0
  then show ?case using strtok_last [of "[NL]" "CHR '':''"] by (simp add: day_token_def atoi_newline)
next
  case (Suc n)
  then show ?case by (simp add: day_token_def strtok_skip)
qed

section \<open>Lines\<close>

lemma fgets_line:
  "NL \<notin> set body \<Longrightarrow> length body < n \<Longrightarrow> fgets n (body @ NL # rest) = (body @ [NL], rest)"
proof (induction body arbitrary: n)
  case Nil
  then show ?case by (cases n) auto
next
  case (Cons ch body)
  then show ?case by (cases n) auto
qed

lemma fgets_lines_Cons:
  assumes "NL \<notin> set body" "NUL \<notin> set body" "length body < n"
  shows "fgets_lines n (body @ NL # rest) = (body @ [NL]) # fgets_lines n rest"
  using assms by (simp add: fgets_lines.simps [of n "body @ NL # rest"] fgets_line)

lemma length_show_nat: "n < 10 ^ Suc k \<Longrightarrow> length (show_nat n) \<le> Suc k"
proof (induction k arbitrary: n)
  case 0
  then show ?case by (simp add: show_nat.simps)
next
  case (Suc k)
  then have "n div 10 < 10 ^ Suc k" by (simp add: less_mult_imp_div_less)
  then have "length (show_nat (n div 10)) \<le> Suc k" by (rule Suc.IH)
  then show ?case by (subst show_nat.simps) simp
qed

lemma length_show_int: "in_int x \<Longrightarrow> length (show_int x) \<le> 11"
proof -
  assume "in_int x"
  then have "nat x < 10 ^ Suc 9" "nat (- x) < 10 ^ Suc 9"
    by (auto simp: in_int_def int_min_def int_max_def nat_less_iff)
  then have "length (show_nat (nat x)) \<le> Suc 9" "length (show_nat (nat (- x))) \<le> Suc 9"
    by (blast intro: length_show_nat)+
  then show ?thesis by (simp add: show_int_def)
qed

text \<open>
  An entry that a line of the file can stand for: the text fields are separable, no empty day
  field comes before a day field that is not empty, and there is no reserved text.
\<close>

definition plain_text :: "string \<Rightarrow> bool" where
  "plain_text s \<longleftrightarrow> s \<noteq> [] \<and> CHR '':'' \<notin> set s \<and> NL \<notin> set s \<and> NUL \<notin> set s"

definition zeros_last :: "user \<Rightarrow> bool" where
  "zeros_last u \<longleftrightarrow> (dmc u = 0 \<longrightarrow> dw u = 0) \<and> (dw u = 0 \<longrightarrow> de u = 0) \<and> (de u = 0 \<longrightarrow> dd u = 0)"

definition writable :: "user \<Rightarrow> bool" where
  "writable u \<longleftrightarrow> wf_user u \<and> plain_text (username u) \<and> plain_text (hash u) \<and> reserved u = RNull"

definition day_part :: "user \<Rightarrow> string" where
  "day_part u = day_field (dmc u) @ day_field (dw u) @ day_field (de u) @ day_field (dd u)"

definition user_line :: "user \<Rightarrow> string" where
  "user_line u = username u @ '':'' @ hash u @ '':'' @ show_int (dsc u) @ '':''
     @ show_int (dcc u) @ '':'' @ day_part u"

lemma show_zero: "show_int 0 = ''0''"
  by (simp add: show_int_def show_nat.simps digit_char_def)

lemma deparse_user_line: "reserved u = RNull \<Longrightarrow> deparse_user u = Inr (user_line u @ [NL])"
  by (simp add: deparse_user_def user_line_def day_part_def show_zero)

lemma day_field_chars: "NL \<notin> set (day_field v)" "NUL \<notin> set (day_field v)"
  by (simp_all add: day_field_def)

lemma length_day_field: "in_int v \<Longrightarrow> length (day_field v) \<le> 12"
  using length_show_int [of v] by (simp add: day_field_def)

lemma user_line_plain:
  assumes "writable u"
  shows "NL \<notin> set (user_line u)" "NUL \<notin> set (user_line u)" "length (user_line u) < 255"
proof -
  show "NL \<notin> set (user_line u)" "NUL \<notin> set (user_line u)"
    using assms by (auto simp: user_line_def day_part_def writable_def plain_text_def day_field_chars)
  have "length (day_part u) \<le> 48"
    using assms length_day_field [of "dmc u"] length_day_field [of "dw u"]
      length_day_field [of "de u"] length_day_field [of "dd u"]
    by (simp add: day_part_def writable_def wf_user_def)
  then show "length (user_line u) < 255"
    using assms length_show_int [of "dsc u"] length_show_int [of "dcc u"]
    by (simp add: user_line_def writable_def wf_user_def)
qed

lemma deparse_loop_lines:
  "list_all writable us \<Longrightarrow> deparse_loop us = Inr (concat (map (\<lambda>u. user_line u @ [NL]) us))"
  by (induction us) (auto simp: deparse_user_line writable_def)

lemma fgets_lines_file:
  "list_all writable us \<Longrightarrow>
     fgets_lines 255 (concat (map (\<lambda>u. user_line u @ [NL]) us)) = map (\<lambda>u. user_line u @ [NL]) us"
proof (induction us)
  case Nil
  then show ?case by (simp add: fgets_lines.simps)
next
  case (Cons u us)
  then show ?case using user_line_plain [of u] by (simp add: fgets_lines_Cons)
qed

section \<open>Parsing one line into a new entry\<close>

lemma find_user_last:
  "username u \<notin> username ` set us \<Longrightarrow> find_user \<lparr>sf_path = p, head = us @ [u]\<rparr> (username u) = Some (length us)"
  unfolding find_user_def by (induction us) auto

lemma set_user_last [simp]:
  "set_user \<lparr>sf_path = p, head = us @ [u]\<rparr> (length us) v = \<lparr>sf_path = p, head = us @ [v]\<rparr>"
  by (simp add: set_user_def)

lemma user_at_last [simp]: "user_at \<lparr>sf_path = p, head = us @ [u]\<rparr> (length us) = u"
  by (simp add: user_at_def)

text \<open>The day counts that the last four tokens of a line give, in their order.\<close>

definition day_tokens :: "string \<Rightarrow> int \<times> int \<times> int \<times> int" where
  "day_tokens s = (let (a, s1) = day_token s; (b, s2) = day_token s1;
                       (d, s3) = day_token s2; (e, s4) = day_token s3 in (a, b, d, e))"

lemma parse_line_new:
  assumes "plain_text name" "length name < 16" "plain_text h" "length h < 32"
    and "in_int a" "in_int b" "name \<notin> username ` set us"
    and "day_tokens rest = (m, w, e, d)"
  shows "parse_line True t \<lparr>sf_path = p, head = us\<rparr>
      (name @ '':'' @ h @ '':'' @ show_int a @ '':'' @ show_int b @ '':'' @ rest)
    = Inr (Continue \<lparr>sf_path = p, head = us @ [\<lparr>username = name, hash = h, dsc = a, dcc = b, dmc = m,
        dw = w, de = e, dd = d, reserved = RNull\<rparr>]\<rparr>)"
proof -
  let ?r1 = "h @ CHR '':'' # show_int a @ CHR '':'' # show_int b @ CHR '':'' # rest"
  let ?r2 = "show_int a @ CHR '':'' # show_int b @ CHR '':'' # rest"
  have t1: "strtok (CHR '':'') (name @ CHR '':'' # ?r1) = (Some name, ?r1)"
    using assms(1) by (intro strtok_token) (auto simp: plain_text_def)
  have t2: "strtok (CHR '':'') ?r1 = (Some h, ?r2)"
    using assms(3) by (intro strtok_token) (auto simp: plain_text_def)
  have t3: "day_token ?r2 = (a, show_int b @ CHR '':'' # rest)"
    "day_token (show_int b @ CHR '':'' # rest) = (b, rest)"
    using assms(5,6) by (simp_all add: day_token_show)
  have ne: "name \<noteq> []" "h \<noteq> []" using assms(1,3) by (simp_all add: plain_text_def)
  have new: "find_user \<lparr>sf_path = p, head = us\<rparr> name = None"
    using assms(7) by (simp add: find_user_None)
  have last: "find_user \<lparr>sf_path = p, head = us @ [u]\<rparr> name = Some (length us)" if "username u = name" for u
    using find_user_last [of u us p] that assms(7) by simp
  obtain s5 s6 s7 s8 where
    d: "day_token rest = (m, s5)" "day_token s5 = (w, s6)" "day_token s6 = (e, s7)" "day_token s7 = (d, s8)"
    using assms(8) by (auto simp: day_tokens_def Let_def split: prod.splits)
  show ?thesis
    using assms(2,4) ne
    by (simp add: parse_line_def t1 t2 t3 strcpy_def sf_tree_add_user_def update_hash_def update_defs
        new last d new_user_def Let_def)
qed

lemma day_tokens_day_part:
  assumes "wf_user u" "zeros_last u"
  shows "day_tokens (day_part u @ [NL]) = (dmc u, dw u, de u, dd u)"
proof -
  have rng: "in_int (dmc u)" "in_int (dw u)" "in_int (de u)" "in_int (dd u)"
    using assms(1) by (simp_all add: wf_user_def)
  note facts = rng day_token_field day_token_zeros [of 0, simplified] day_token_zeros [of 1, simplified]
    day_token_zeros [of 2, simplified numeral_2_eq_2, simplified]
    day_token_zeros [of 3, simplified numeral_3_eq_3, simplified]
    day_token_zeros [of "Suc 3", simplified numeral_3_eq_3, simplified] day_token_Nil
  have z: "day_field 0 = '':''" by (simp add: day_field_def)
  consider "dmc u = 0" "dw u = 0" "de u = 0" "dd u = 0"
    | "dmc u \<noteq> 0" "dw u = 0" "de u = 0" "dd u = 0"
    | "dmc u \<noteq> 0" "dw u \<noteq> 0" "de u = 0" "dd u = 0"
    | "dmc u \<noteq> 0" "dw u \<noteq> 0" "de u \<noteq> 0" "dd u = 0"
    | "dmc u \<noteq> 0" "dw u \<noteq> 0" "de u \<noteq> 0" "dd u \<noteq> 0"
    using assms(2) by (auto simp: zeros_last_def)
  then show ?thesis
    by cases (simp_all add: day_tokens_def day_part_def z facts)
qed

lemma parse_line_user_line:
  assumes "writable u" "zeros_last u" "username u \<notin> username ` set us"
  shows "parse_line True t \<lparr>sf_path = p, head = us\<rparr> (user_line u @ [NL])
    = Inr (Continue \<lparr>sf_path = p, head = us @ [u]\<rparr>)"
proof -
  have wf: "wf_user u" using assms(1) by (simp add: writable_def)
  have u: "\<lparr>username = username u, hash = hash u, dsc = dsc u, dcc = dcc u, dmc = dmc u,
        dw = dw u, de = de u, dd = dd u, reserved = RNull\<rparr> = u"
    using assms(1) by (simp add: writable_def)
  show ?thesis
    using parse_line_new [OF _ _ _ _ _ _ assms(3) day_tokens_day_part [OF wf assms(2)],
        of "hash u" "dsc u" "dcc u" t p] assms(1) u
    by (simp add: user_line_def writable_def wf_user_def)
qed

lemma parse_loop_lines:
  "list_all (\<lambda>u. writable u \<and> zeros_last u) vs \<Longrightarrow> distinct (map username (us @ vs)) \<Longrightarrow>
     parse_loop True t \<lparr>sf_path = p, head = us\<rparr> (map (\<lambda>u. user_line u @ [NL]) vs)
       = Inr \<lparr>sf_path = p, head = us @ vs\<rparr>"
proof (induction vs arbitrary: us)
  case (Cons v vs)
  then have "parse_loop True t \<lparr>sf_path = p, head = us @ [v]\<rparr> (map (\<lambda>u. user_line u @ [NL]) vs)
      = Inr \<lparr>sf_path = p, head = (us @ [v]) @ vs\<rparr>"
    by (intro Cons.IH) auto
  moreover have "parse_line True t \<lparr>sf_path = p, head = us\<rparr> (user_line v @ [NL])
      = Inr (Continue \<lparr>sf_path = p, head = us @ [v]\<rparr>)"
    using Cons.prems by (intro parse_line_user_line) auto
  ultimately show ?case by simp
qed simp

section \<open>The parser only builds trees with tree operations\<close>

lemma in_int_day_token: "in_int (fst (day_token s))"
  by (auto simp: day_token_def split: prod.splits option.splits)

text \<open>
  A property of trees that the calls of the parser keep holds after a whole file has been read.
\<close>

locale tree_inv =
  fixes I :: "sf_root \<Rightarrow> bool"
  assumes add: "I sf \<Longrightarrow> okc (\<lambda>r. I (snd r)) (sf_tree_add_user mem t sf name)"
    and hash: "I sf \<Longrightarrow> okc (\<lambda>r. I (snd r)) (update_hash sf name h)"
    and dsc: "I sf \<Longrightarrow> in_int v \<Longrightarrow> okc (\<lambda>r. I (snd r)) (update_daysSinceChanged sf name v)"
    and dcc: "I sf \<Longrightarrow> in_int v \<Longrightarrow> okc (\<lambda>r. I (snd r)) (update_daysUntilCanChange sf name v)"
    and dmc: "I sf \<Longrightarrow> in_int v \<Longrightarrow> okc (\<lambda>r. I (snd r)) (update_daysUntilMustChange sf name v)"
    and dw: "I sf \<Longrightarrow> in_int v \<Longrightarrow> okc (\<lambda>r. I (snd r)) (update_daysBeforeWarning sf name v)"
    and de: "I sf \<Longrightarrow> in_int v \<Longrightarrow> okc (\<lambda>r. I (snd r)) (update_daysUntilExpiration sf name v)"
    and dd: "I sf \<Longrightarrow> in_int v \<Longrightarrow> okc (\<lambda>r. I (snd r)) (update_daysSinceDeactivation sf name v)"
begin

lemma parse_line_inv:
  "I sf \<Longrightarrow> okc (\<lambda>r. case r of Continue sf' \<Rightarrow> I sf' | Return sf' \<Rightarrow> I sf') (parse_line mem t sf line)"
  using in_int_day_token
  by (auto simp: parse_line_def Let_def split_beta okc_bindc split: option.splits
      intro!: okc_mono [OF add] okc_mono [OF hash] okc_mono [OF dsc] okc_mono [OF dcc]
        okc_mono [OF dmc] okc_mono [OF dw] okc_mono [OF de] okc_mono [OF dd])

lemma parse_loop_inv: "I sf \<Longrightarrow> okc I (parse_loop mem t sf lines)"
proof (induction lines arbitrary: sf)
  case (Cons line lines)
  show ?case
    by (simp, rule okc_bindI [OF parse_line_inv [OF Cons.prems]])
      (auto split: line_end.splits intro: Cons.IH)
qed simp

lemma init_parse_inv:
  "(length path < SF_PATH_SIZE \<Longrightarrow> I \<lparr>sf_path = path, head = []\<rparr>) \<Longrightarrow> okc I (init_parse mem t [] file path)"
  by (auto simp: init_parse_def sf_tree_init_def okc_bindc strcpy_def parse_loop_inv split: option.splits)

end

lemma okc_tree_step: "(\<And>k sf'. m = Inr (k, sf') \<Longrightarrow> tree_step sf sf') \<Longrightarrow> tree_reachable free sf
    \<Longrightarrow> okc (\<lambda>r. tree_reachable free (snd r)) m"
  by (auto simp: okc_iff intro: tree_reachable.step)

interpretation reachable: tree_inv "tree_reachable True"
  by unfold_locales (auto intro!: okc_tree_step intro: tree_step.intros)

definition no_reserved :: "sf_root \<Rightarrow> bool" where
  "no_reserved sf \<longleftrightarrow> list_all (\<lambda>u. reserved u = RNull) (head sf)"

lemma no_reserved_set_user:
  "no_reserved sf \<Longrightarrow> find_user sf name = Some i \<Longrightarrow> reserved u = reserved (user_at sf i) \<Longrightarrow> no_reserved (set_user sf i u)"
  using find_user_Some [of sf name i]
  by (auto simp: no_reserved_def set_user_def user_at_def intro!: list_all_update)
    (simp add: list_all_length)

interpretation no_reserved: tree_inv no_reserved
  by unfold_locales
    (auto simp: sf_tree_add_user_def update_hash_def update_defs okc_bindc new_user_def
      intro: no_reserved_set_user split: option.splits, auto simp: no_reserved_def)

lemma written_back:
  assumes "list_all (\<lambda>u. writable u \<and> zeros_last u) us" "distinct (map username us)"
    and "length path < SF_PATH_SIZE"
  shows "\<exists>out. deparse_loop us = Inr out
    \<and> init_parse True t [] (Some out) path = Inr \<lparr>sf_path = path, head = us\<rparr>"
proof -
  have w: "list_all writable us" using assms(1) by (auto simp: list_all_iff)
  show ?thesis
    using assms parse_loop_lines [of us "[]" t path]
    by (simp add: deparse_loop_lines [OF w] init_parse_def sf_tree_init_def strcpy_def fgets_lines_file [OF w])
qed

section \<open>Properties\<close>

text \<open>
  (C3) Writing and reading back: a file written from entries with separable, nonempty names and
  hashes, different names, no reserved text, and no unset day count before one that is set, is read
  back as exactly the same entries in the same order.
\<close>

theorem deparse_parse_roundtrip:
  assumes "list_all (\<lambda>u. writable u \<and> zeros_last u) us" "distinct (map username us)"
    and "length path < SF_PATH_SIZE"
  shows "\<exists>out. sf_deparse True \<lparr>sf_path = path, head = us\<rparr> False = Inr (out, [])
    \<and> init_parse True t [] (Some out) path = Inr \<lparr>sf_path = path, head = us\<rparr>"
  using written_back [OF assms, of t] by (auto simp: sf_deparse_def)

text \<open>
  (C8) Reading back without the last condition: when the maximum age is unset (0) but the three day
  counts after it are not, \<open>strtok\<close> skips the empty field and every later count moves one place
  forward: the warning period becomes the maximum age, and so on.
\<close>

theorem deparse_parse_shift:
  assumes "writable u" "dmc u = 0" "dw u \<noteq> 0" "de u \<noteq> 0" "dd u \<noteq> 0" "length path < SF_PATH_SIZE"
  shows "\<exists>out. sf_deparse True \<lparr>sf_path = path, head = [u]\<rparr> False = Inr (out, [])
    \<and> init_parse True t [] (Some out) path
        = Inr \<lparr>sf_path = path, head = [u\<lparr>dmc := dw u, dw := de u, de := dd u, dd := 0\<rparr>]\<rparr>"
proof -
  have w: "list_all writable [u]" using assms(1) by simp
  have rng: "in_int (dw u)" "in_int (de u)" "in_int (dd u)"
    using assms(1) by (simp_all add: writable_def wf_user_def)
  have "day_token (CHR '':'' # day_field v @ rest) = day_token (day_field v @ rest)" for v rest
    by (simp add: day_token_def strtok_skip)
  then have toks: "day_tokens (day_part u @ [NL]) = (dw u, de u, dd u, 0)"
    using assms rng day_token_zeros [of 0]
    by (simp add: day_tokens_def day_part_def day_field_def [of 0] day_token_field)
  have u: "\<lparr>username = username u, hash = hash u, dsc = dsc u, dcc = dcc u, dmc = dw u, dw = de u,
      de = dd u, dd = 0, reserved = RNull\<rparr> = u\<lparr>dmc := dw u, dw := de u, de := dd u, dd := 0\<rparr>"
    using assms(1) by (simp add: writable_def)
  have "parse_line True t \<lparr>sf_path = path, head = []\<rparr> (user_line u @ [NL])
      = Inr (Continue \<lparr>sf_path = path, head = [u\<lparr>dmc := dw u, dw := de u, de := dd u, dd := 0\<rparr>]\<rparr>)"
    using parse_line_new [OF _ _ _ _ _ _ _ toks, of "username u" "hash u" "dsc u" "dcc u" "[]" t path] assms(1) u
    by (simp add: user_line_def writable_def wf_user_def)
  then show ?thesis
    using assms(6) deparse_loop_lines [OF w] fgets_lines_file [OF w]
    by (simp add: sf_deparse_def init_parse_def sf_tree_init_def strcpy_def)
qed

text \<open>
  (C9) Whatever the bytes of the shadow file are: if reading it has defined behaviour, the tree it
  yields satisfies the invariant of the tree (every field fits, every name is unique), and no entry
  has reserved text, so a file written with reserved text does not give it back.
\<close>

theorem init_parse_ok:
  assumes "init_parse mem t [] file path = Inr sf"
  shows "tree_reachable True sf \<and> wf_tree sf \<and> distinct_names sf \<and> no_reserved sf"
proof -
  have "tree_reachable True \<lparr>sf_path = path, head = []\<rparr>" if "length path < SF_PATH_SIZE"
    using that by (intro tree_reachable.init [of path]) (simp add: sf_tree_init_def strcpy_def)
  then have "tree_reachable True sf"
    using reachable.init_parse_inv [where path = path and mem = mem and t = t] assms by (simp add: okc_iff)
  moreover have "no_reserved sf"
    using no_reserved.init_parse_inv [where path = path and mem = mem and t = t] assms by (simp add: okc_iff no_reserved_def)
  ultimately show ?thesis using reachable_tree [of True sf] by simp
qed

section \<open>Witnesses\<close>

definition sample_user :: user where
  "sample_user = \<lparr>username = ''bob'', hash = ''!'', dsc = 16040, dcc = 0, dmc = 99999, dw = 7, de = 0, dd = 0,
     reserved = RNull\<rparr>"

lemma in_int_small: "\<bar>x\<bar> \<le> 1000000 \<Longrightarrow> in_int x"
  by (simp add: in_int_def int_min_def int_max_def abs_le_iff)

lemma sample_user_writable: "writable sample_user \<and> zeros_last sample_user"
  by (simp add: sample_user_def writable_def zeros_last_def plain_text_def wf_user_def in_int_small)

theorem deparse_parse_roundtrip_witness:
  "\<exists>out. sf_deparse True \<lparr>sf_path = ''/etc/shadow'', head = [sample_user]\<rparr> False = Inr (out, [])
    \<and> init_parse True 0 [] (Some out) ''/etc/shadow'' = Inr \<lparr>sf_path = ''/etc/shadow'', head = [sample_user]\<rparr>"
  using deparse_parse_roundtrip [of "[sample_user]" "''/etc/shadow''" 0] sample_user_writable by simp

theorem deparse_parse_shift_witness:
  "\<exists>out. sf_deparse True \<lparr>sf_path = ''/etc/shadow'', head = [sample_user\<lparr>dmc := 0, de := 30, dd := 5\<rparr>]\<rparr> False
       = Inr (out, [])
    \<and> init_parse True 0 [] (Some out) ''/etc/shadow''
        = Inr \<lparr>sf_path = ''/etc/shadow'', head = [sample_user\<lparr>dmc := 7, dw := 30, de := 5, dd := 0\<rparr>]\<rparr>"
  using deparse_parse_shift [of "sample_user\<lparr>dmc := 0, de := 30, dd := 5\<rparr>" "''/etc/shadow''" 0] sample_user_writable
  by (simp add: writable_def wf_user_def in_int_small sample_user_def)

theorem init_parse_ok_witness: "wf_tree \<lparr>sf_path = ''/etc/shadow'', head = []\<rparr>"
  using init_parse_ok [of True 0 "Some []" "''/etc/shadow''" "\<lparr>sf_path = ''/etc/shadow'', head = []\<rparr>"]
  by (simp add: init_parse_def sf_tree_init_def strcpy_def fgets_lines.simps)

end
