(* ===== verification/Shfs.thy ===== *)
theory Shfs
  imports Shadow_Parse
begin

text \<open>
  \<open>src/src/shfs.c\<close>: the FUSE handlers of the shadow file system and its \<open>main\<close>. The globals
  \<open>root\<close>, \<open>filename\<close> and \<open>backing_path\<close> are the state; the operating system's files, their
  canonical names and \<open>lstat\<close> are a record of parameters, as are \<open>time (NULL)\<close>, \<open>malloc\<close>'s
  success and \<open>fuse_main\<close>. The request buffer that \<open>read\<close> fills has \<open>size\<close> bytes; the one that
  \<open>write\<close> gets holds exactly the request's bytes. \<open>printf\<close> traces are left out.
\<close>

section \<open>State\<close>

text \<open>
  The files by canonical name, \<open>realpath\<close>, whether a name may be opened for writing and for
  reading, and \<open>lstat\<close> (its result and what it stores).
\<close>

record os =
  files :: "string \<Rightarrow> string option"
  resolve :: "string \<Rightarrow> string"
  may_write :: "string \<Rightarrow> bool"
  may_read :: "string \<Rightarrow> bool"
  lstat :: "string \<Rightarrow> int \<times> stat"

record shfs =
  root :: sf_root
  filename :: string
  backing_path :: string
  sys :: os

definition S_IFDIR :: nat where "S_IFDIR = 0x4000"
definition S_IFREG :: nat where "S_IFREG = 0x8000"

section \<open>Paths\<close>

text \<open>
  The loop of \<open>user_from_path\<close> from index \<open>i\<close>, with what \<open>uname\<close> holds so far: it does not
  stop at the terminator, and \<open>uname\<close> has nine bytes.
\<close>

function user_from_path_loop :: "string \<Rightarrow> nat \<Rightarrow> string \<Rightarrow> (nat \<times> string) c" where
  "user_from_path_loop path i uname =
     (if i < 10 then
        if length path < i then Inl PastEnd
        else if (path @ [NUL]) ! i = CHR ''/'' then Inr (i, uname)
        else if 9 \<le> i - 1 then Inl Overflow
        else user_from_path_loop path (Suc i) (uname @ [(path @ [NUL]) ! i])
      else Inr (i, uname))"
  by pat_completeness auto
termination by (relation "measure (\<lambda>(path, i, uname). 10 - i)") auto

declare user_from_path_loop.simps [simp del]

definition user_from_path :: "string \<Rightarrow> (nat \<times> string) c" where
  "user_from_path path =
     bindc (user_from_path_loop path 1 []) (\<lambda>(i, uname).
       if 9 \<le> i - 1 then Inl Overflow else Inr (i - 1, uname))"

text \<open>\<open>char s[10]; sprintf (s, "%d\n", v)\<close>\<close>

definition sprintf_day :: "int \<Rightarrow> string c" where
  "sprintf_day v = strcpy 10 (show_int v @ [NL])"

definition day_size :: "int \<Rightarrow> int c" where
  "day_size v = bindc (sprintf_day v) (\<lambda>s. Inr (int (length s)))"

definition is_attr :: "string \<Rightarrow> user \<Rightarrow> int c" where
  "is_attr str u =
     (if str = ''password-hash'' then Inr (int (length (hash u)) + 1)
      else if str = ''days_since_changed'' then day_size (dsc u)
      else if str = ''days_until_can_change'' then day_size (dcc u)
      else if str = ''days_until_must_change'' then day_size (dmc u)
      else if str = ''days_before_warning'' then day_size (dw u)
      else if str = ''days_until_expiration'' then day_size (de u)
      else if str = ''days_since_account_deactivated'' then day_size (dd u)
      else if str = ''reserved'' then
        (case reserved u of RNull \<Rightarrow> Inr 0
         | RHeap r \<Rightarrow> Inr (int (length r) + 1)
         | RBuf \<Rightarrow> Inl Dangling)
      else Inr (-1))"

section \<open>Handlers that only look\<close>

definition sh_getattr :: "shfs \<Rightarrow> string \<Rightarrow> (int \<times> stat) c" where
  "sh_getattr s path =
     bindc (str_from path 1) (\<lambda>path1.
     let user = find_user (root s) path1 in
     bindc (user_from_path path) (\<lambda>(i, uname).
     let user2 = find_user (root s) uname in
       if path = ''/'' then Inr (0, stat0\<lparr>st_mode := S_IFDIR + 0x1ED, st_nlink := 2\<rparr>)
       else if user \<noteq> None then Inr (0, stat0\<lparr>st_mode := S_IFDIR + 0x1ED, st_nlink := 1\<rparr>)
       else (case user2 of
         Some j \<Rightarrow>
           bindc (str_from path (i + 2)) (\<lambda>attr.
           bindc (is_attr attr (user_at (root s) j)) (\<lambda>size.
             if size > -1 then Inr (0, stat0\<lparr>st_mode := S_IFREG + 0x1B6, st_nlink := 1, st_size := size\<rparr>)
             else Inr (- ENOENT, stat0)))
       | None \<Rightarrow>
           if path1 = ''sh_file'' then Inr (lstat (sys s) (backing_path s))
           else Inr (- ENOENT, stat0))))"

text \<open>The names handed to \<open>filler\<close>, whose results the code ignores.\<close>

definition sh_readdir :: "shfs \<Rightarrow> string \<Rightarrow> (int \<times> string list) c" where
  "sh_readdir s path =
     (if path = ''/'' then
        Inr (0, [''.'', ''..'', ''sh_file''] @ map username (head (root s)))
      else bindc (str_from path 1) (\<lambda>path1.
        case find_user (root s) path1 of
          None \<Rightarrow> Inr (- ENOENT, [])
        | Some i \<Rightarrow> Inr (0, [''.'', ''..'', ''password-hash'', ''days_since_changed'',
              ''days_until_can_change'', ''days_until_must_change'', ''days_before_warning'',
              ''days_until_expiration'', ''days_since_account_deactivated'']
            @ (if reserved (user_at (root s) i) \<noteq> RNull then [''reserved''] else []))))"

definition sh_open :: "string \<Rightarrow> int" where
  "sh_open path = 0"

definition sh_truncate :: "string \<Rightarrow> int" where
  "sh_truncate path = 0"

section \<open>Reading\<close>

text \<open>\<open>memcpy (buf, s + offset, len)\<close> into a buffer of \<open>size\<close> bytes, from an array of \<open>n\<close>.\<close>

definition copy_out :: "nat \<Rightarrow> string \<Rightarrow> nat \<Rightarrow> nat \<Rightarrow> nat \<Rightarrow> string c" where
  "copy_out n t offset len sz =
     bindc (read_array n t offset len) (\<lambda>bytes. if sz < len then Inl Overflow else Inr bytes)"

text \<open>A day file: \<open>size\<close> becomes the length of the text, whatever was asked for.\<close>

definition read_day :: "int \<Rightarrow> nat \<Rightarrow> nat \<Rightarrow> (int \<times> string) c" where
  "read_day v sz offset =
     bindc (sprintf_day v) (\<lambda>s.
     bindc (copy_out 10 s offset (length s) sz) (\<lambda>bytes. Inr (int (length s), bytes)))"

text \<open>A text file: exactly \<open>size\<close> bytes are copied, whatever the length of the text.\<close>

definition read_text :: "string \<Rightarrow> nat \<Rightarrow> nat \<Rightarrow> (int \<times> string) c" where
  "read_text t sz offset =
     bindc (strcpy 40 (t @ [NL])) (\<lambda>s.
     bindc (copy_out 40 s offset sz sz) (\<lambda>bytes. Inr (int sz, bytes)))"

text \<open>\<open>open (backing_path, O_RDONLY)\<close> and \<open>pread\<close>, \<open>-1\<close> when the file cannot be opened.\<close>

definition os_pread :: "os \<Rightarrow> string \<Rightarrow> nat \<Rightarrow> nat \<Rightarrow> int \<times> string" where
  "os_pread os path sz offset =
     (case files os (resolve os path) of
        Some content \<Rightarrow> if may_read os path
                        then let bytes = take sz (drop offset content) in (int (length bytes), bytes)
                        else (-1, [])
      | None \<Rightarrow> (-1, []))"

text \<open>
  \<open>sf_deparse (root, filename, frees)\<close> with its effect on the files. The function is declared to
  return an \<open>int\<close> but ends without a \<open>return\<close>, and both callers store the result in a variable
  that nothing reads. The model gives that variable no place: the store is taken to have no effect,
  although the standard leaves the use of such a value undefined.
\<close>

definition deparse_to :: "shfs \<Rightarrow> bool \<Rightarrow> shfs c" where
  "deparse_to s frees =
     bindc (sf_deparse (may_write (sys s) (filename s)) (root s) frees) (\<lambda>(out, _).
       Inr (s\<lparr>sys := sys s\<lparr>files := (files (sys s))(resolve (sys s) (filename s) := Some out)\<rparr>\<rparr>))"

text \<open>
  The chain of attribute names in \<open>sh_read\<close>: the result and the bytes stored in \<open>buf\<close>. Sizes and
  offsets are those of a request, not negative.
\<close>

definition read_attr :: "user \<Rightarrow> string \<Rightarrow> nat \<Rightarrow> nat \<Rightarrow> (int \<times> string) c" where
  "read_attr u attr sz offset =
     (if attr = ''password-hash'' then read_text (hash u) sz offset
      else if attr = ''days_since_changed'' then read_day (dsc u) sz offset
      else if attr = ''days_until_can_change'' then read_day (dcc u) sz offset
      else if attr = ''days_until_must_change'' then read_day (dmc u) sz offset
      else if attr = ''days_before_warning'' then read_day (dw u) sz offset
      else if attr = ''days_until_expiration'' then read_day (de u) sz offset
      else if attr = ''days_since_account_deactivated'' then read_day (dd u) sz offset
      else if attr = ''reserved'' then
        (case reserved u of RNull \<Rightarrow> Inr (int sz, [])
         | RHeap r \<Rightarrow> read_text r sz offset
         | RBuf \<Rightarrow> Inl Dangling)
      else Inr (int sz, []))"

definition sh_read :: "shfs \<Rightarrow> string \<Rightarrow> nat \<Rightarrow> nat \<Rightarrow> ((int \<times> string) \<times> shfs) c" where
  "sh_read s path sz offset =
     bindc (str_from path 1) (\<lambda>path1.
     if path1 = ''sh_file'' then
       bindc (deparse_to s False) (\<lambda>s'. Inr (os_pread (sys s') (backing_path s') sz offset, s'))
     else if find_user (root s) path1 \<noteq> None \<or> path = ''/'' then Inr ((- ENOENT, []), s)
     else
       bindc (user_from_path path) (\<lambda>(i, uname).
       case find_user (root s) uname of None \<Rightarrow> Inr ((- ENOENT, []), s)
       | Some j \<Rightarrow>
         bindc (str_from path (i + 2)) (\<lambda>attr.
         bindc (read_attr (user_at (root s) j) attr sz offset) (\<lambda>res. Inr (res, s)))))"

section \<open>Writing\<close>

text \<open>The results of the \<open>update_*\<close> calls are dropped.\<close>

definition with_root :: "shfs \<Rightarrow> (int \<times> sf_root) c \<Rightarrow> shfs c" where
  "with_root s m = bindc m (\<lambda>(_, r). Inr (s\<lparr>root := r\<rparr>))"

definition write_attr :: "int \<Rightarrow> u8 list \<Rightarrow> sf_root \<Rightarrow> string \<Rightarrow> string \<Rightarrow> char list \<Rightarrow> (int \<times> sf_root) c" where
  "write_attr t junk r uname attr buf =
     (if attr = ''password-hash'' then
        bindc (buf_string buf) (\<lambda>plaintext.
        bindc (update_hash r uname (hashword junk plaintext)) (\<lambda>(_, r).
          update_daysSinceChanged r uname (shadow_time t)))
      else if attr = ''days_since_changed'' then
        bindc (atoi_buf buf) (update_daysSinceChanged r uname)
      else if attr = ''days_until_can_change'' then
        bindc (atoi_buf buf) (update_daysUntilCanChange r uname)
      else if attr = ''days_until_must_change'' then
        bindc (atoi_buf buf) (update_daysUntilMustChange r uname)
      else if attr = ''days_before_warning'' then
        bindc (atoi_buf buf) (update_daysBeforeWarning r uname)
      else if attr = ''days_until_expiration'' then
        bindc (atoi_buf buf) (update_daysUntilExpiration r uname)
      else if attr = ''days_since_account_deactivated'' then
        bindc (atoi_buf buf) (update_daysSinceDeactivation r uname)
      else if attr = ''reserved'' then update_reserved r uname RBuf
      else Inr (0, r))"

definition sh_write :: "int \<Rightarrow> u8 list \<Rightarrow> shfs \<Rightarrow> string \<Rightarrow> char list \<Rightarrow> nat \<Rightarrow> (int \<times> shfs) c" where
  "sh_write t junk s path buf offset =
     bindc (str_from path 1) (\<lambda>path1.
     if find_user (root s) path1 \<noteq> None \<or> path = ''/'' then Inr (- ENOENT, s)
     else
       bindc (user_from_path path) (\<lambda>(i, uname).
       if find_user (root s) uname = None then Inr (- ENOENT, s)
       else
         bindc (str_from path (i + 2)) (\<lambda>attr.
         bindc (with_root s (write_attr t junk (root s) uname attr buf)) (\<lambda>s'.
           Inr (int (length buf), s')))))"

section \<open>Creating, removing, renaming\<close>

definition sh_mkdir :: "bool \<Rightarrow> int \<Rightarrow> shfs \<Rightarrow> string \<Rightarrow> (int \<times> shfs) c" where
  "sh_mkdir mem t s path =
     bindc (str_from path 1) (\<lambda>path1.
     bindc (sf_tree_add_user mem t (root s) path1) (\<lambda>(x, r).
       Inr (if x < 0 then - EEXIST else 0, s\<lparr>root := r\<rparr>)))"

definition sh_rmdir :: "shfs \<Rightarrow> string \<Rightarrow> (int \<times> shfs) c" where
  "sh_rmdir s path =
     bindc (str_from path 1) (\<lambda>path1.
     if find_user (root s) path1 = None then Inr (- ENOENT, s)
     else bindc (sf_tree_delete_user (root s) path1) (\<lambda>(x, r). Inr (x, s\<lparr>root := r\<rparr>)))"

definition sh_rename :: "shfs \<Rightarrow> string \<Rightarrow> string \<Rightarrow> (int \<times> shfs) c" where
  "sh_rename s from to =
     bindc (str_from from 1) (\<lambda>from1.
     case find_user (root s) from1 of
       None \<Rightarrow> Inr (- EACCES, s)
     | Some i \<Rightarrow>
         bindc (str_from to 1) (\<lambda>to1.
         bindc (strcpy USERNAME_SIZE to1) (\<lambda>n.
           Inr (0, s\<lparr>root := set_user (root s) i (user_at (root s) i\<lparr>username := n\<rparr>)\<rparr>))))"

definition reset_attr :: "int \<Rightarrow> sf_root \<Rightarrow> string \<Rightarrow> string \<Rightarrow> (int \<times> sf_root) c" where
  "reset_attr t r uname attr =
     (if attr = ''password-hash'' then update_hash r uname ''!''
      else if attr = ''days_since_changed'' then update_daysSinceChanged r uname (shadow_time t)
      else if attr = ''days_until_can_change'' then update_daysUntilCanChange r uname 0
      else if attr = ''days_until_must_change'' then update_daysUntilMustChange r uname 99999
      else if attr = ''days_before_warning'' then update_daysBeforeWarning r uname 7
      else if attr = ''days_until_expiration'' then update_daysUntilExpiration r uname 0
      else if attr = ''days_since_account_deactivated'' then update_daysSinceDeactivation r uname 0
      else if attr = ''reserved'' then update_reserved r uname RNull
      else Inr (0, r))"

definition sh_unlink :: "int \<Rightarrow> shfs \<Rightarrow> string \<Rightarrow> (int \<times> shfs) c" where
  "sh_unlink t s path =
     bindc (str_from path 1) (\<lambda>path1.
     if find_user (root s) path1 \<noteq> None \<or> path = ''/'' then Inr (- ENOENT, s)
     else
       bindc (user_from_path path) (\<lambda>(i, uname).
       if find_user (root s) uname = None then Inr (- ENOENT, s)
       else
         bindc (str_from path (i + 2)) (\<lambda>attr.
         bindc (with_root s (reset_attr t (root s) uname attr)) (\<lambda>s'. Inr (0, s')))))"

text \<open>\<open>user->reserved = malloc (50); strcpy (user->reserved, path + i)\<close>\<close>

definition sh_mknod :: "bool \<Rightarrow> shfs \<Rightarrow> string \<Rightarrow> (int \<times> shfs) c" where
  "sh_mknod mem s path =
     bindc (str_from path 1) (\<lambda>path1.
     if find_user (root s) path1 \<noteq> None \<or> path = ''/'' then Inr (- ENOENT, s)
     else
       bindc (user_from_path path) (\<lambda>(i, uname).
       case find_user (root s) uname of
         None \<Rightarrow> Inr (- EACCES, s)
       | Some j \<Rightarrow>
           bindc (str_from path (i + 2)) (\<lambda>attr.
           if \<not> mem then Inl NullDeref
           else bindc (strcpy 50 attr) (\<lambda>r.
             Inr (0, s\<lparr>root := set_user (root s) j (user_at (root s) j\<lparr>reserved := RHeap r\<rparr>)\<rparr>)))))"

section \<open>The table of handlers and \<open>main\<close>\<close>

datatype request =
    Getattr string | Readdir string | Open string | Read string nat nat
  | Write string "char list" nat | Truncate string | Mkdir string | Rmdir string
  | Rename string string | Mknod string | Unlink string

text \<open>
  One callback of \<open>sh_oper\<close>: the result and the state after it. \<open>mem\<close>, \<open>t\<close> and \<open>junk\<close> are what
  \<open>malloc\<close>, \<open>time (NULL)\<close> and the stack give at that moment.
\<close>

definition sh_oper :: "bool \<Rightarrow> int \<Rightarrow> u8 list \<Rightarrow> request \<Rightarrow> shfs \<Rightarrow> (int \<times> shfs) c" where
  "sh_oper mem t junk rq s =
     (case rq of
        Getattr path \<Rightarrow> bindc (sh_getattr s path) (\<lambda>(res, _). Inr (res, s))
      | Readdir path \<Rightarrow> bindc (sh_readdir s path) (\<lambda>(res, _). Inr (res, s))
      | Open path \<Rightarrow> Inr (sh_open path, s)
      | Read path sz offset \<Rightarrow> bindc (sh_read s path sz offset) (\<lambda>((res, _), s'). Inr (res, s'))
      | Write path buf offset \<Rightarrow> sh_write t junk s path buf offset
      | Truncate path \<Rightarrow> Inr (sh_truncate path, s)
      | Mkdir path \<Rightarrow> sh_mkdir mem t s path
      | Rmdir path \<Rightarrow> sh_rmdir s path
      | Rename from to \<Rightarrow> sh_rename s from to
      | Mknod path \<Rightarrow> sh_mknod mem s path
      | Unlink path \<Rightarrow> sh_unlink t s path)"

text \<open>
  Loading the backing file, the two calls after the copy of the file's name (the copy itself is in
  \<open>main\<close>): \<open>backing_path\<close> is still empty when it is passed to \<open>init_parse\<close>, and \<open>realpath\<close> fills it
  in afterwards, with what the name resolves to whether or not there is such a file.
\<close>

definition load_tree :: "bool \<Rightarrow> int \<Rightarrow> user list \<Rightarrow> os \<Rightarrow> string \<Rightarrow> shfs c" where
  "load_tree mem t junk os name =
     bindc (init_parse mem t junk (if may_read os name then files os (resolve os name) else None) [])
       (\<lambda>r. Inr \<lparr>root = r, filename = name, backing_path = resolve os name, sys = os\<rparr>)"

text \<open>The arguments left for \<open>fuse_main\<close>: the backing file is cut out of them.\<close>

definition main_args :: "string list \<Rightarrow> string list" where
  "main_args argv =
     (let argv' = (if length argv = 4 then argv[2 := argv ! 3] else argv)
      in take (length argv - 1) argv')"

definition main :: "bool \<Rightarrow> int \<Rightarrow> user list \<Rightarrow> (string list \<Rightarrow> shfs \<Rightarrow> (int \<times> shfs) c) \<Rightarrow> os
    \<Rightarrow> string list \<Rightarrow> (int \<times> os) c" where
  "main mem t junk fuse_main os argv =
     (if length argv \<noteq> 3 \<and> length argv \<noteq> 4 then Inr (0, os)
      else let arg = argv ! (length argv - 1 - (if length argv = 4 then 1 else 0)) in
        if \<not> mem then Inl NullDeref
        else bindc (strcpy (length arg) arg) (\<lambda>name.
          bindc (load_tree mem t junk os name) (\<lambda>s.
          bindc (fuse_main (main_args argv) s) (\<lambda>(f, s).
          bindc (deparse_to s True) (\<lambda>s. Inr (f, sys s))))))"

section \<open>Splitting a path\<close>

lemma user_from_path_loop_eq:
  "1 \<le> i \<Longrightarrow> i \<le> 10 \<Longrightarrow> i \<le> length path + 1 \<Longrightarrow> user_from_path_loop path i un =
     (if CHR ''/'' \<in> set (take (10 - i) (drop i path))
      then Inr (i + length (takeWhile (\<lambda>x. x \<noteq> CHR ''/'') (drop i path)),
                un @ takeWhile (\<lambda>x. x \<noteq> CHR ''/'') (drop i path))
      else if length path < 9 then Inl PastEnd
      else Inr (10, un @ take (10 - i) (drop i path @ [NUL])))"
proof (induction path i un rule: user_from_path_loop.induct)
  case (1 path i un)
  consider "i = 10" | "i < 10" "length path < i" | "i < 10" "i = length path" | "i < 10" "i < length path"
    using "1.prems" by linarith
  then show ?case
  proof cases
    case 3
    then show ?thesis
      using "1.IH" "1.prems" by (subst user_from_path_loop.simps) (auto simp: Suc_diff_le nth_append)
  next
    case 4
    then have d: "drop i path = path ! i # drop (Suc i) path" by (simp add: Cons_nth_drop_Suc)
    have t: "10 - i = Suc (10 - Suc i)" using 4 by simp
    show ?thesis
      using 4 "1.IH" "1.prems" by (subst user_from_path_loop.simps) (auto simp: nth_append d t)
  qed (use "1.prems" in \<open>subst user_from_path_loop.simps, simp\<close>)+
qed

lemma user_from_path_eq:
  "user_from_path (ch # p) =
     (if CHR ''/'' \<in> set (take 9 p)
      then Inr (length (takeWhile (\<lambda>x. x \<noteq> CHR ''/'') p), takeWhile (\<lambda>x. x \<noteq> CHR ''/'') p)
      else if length p < 8 then Inl PastEnd else Inl Overflow)"
  using user_from_path_loop_eq [of 1 "ch # p" "[]"] length_takeWhile_less_take [of "CHR ''/''" 9 p]
  by (auto simp: user_from_path_def)

text \<open>A name that the handlers can find as the first part of a path.\<close>

definition short_name :: "string \<Rightarrow> bool" where
  "short_name name \<longleftrightarrow> length name \<le> 8 \<and> CHR ''/'' \<notin> set name"

abbreviation attr_path :: "string \<Rightarrow> string \<Rightarrow> string" where
  "attr_path name attr \<equiv> CHR ''/'' # name @ CHR ''/'' # attr"

lemma user_from_attr_path [simp]:
  "short_name name \<Longrightarrow> user_from_path (attr_path name attr) = Inr (length name, name)"
  by (simp add: user_from_path_eq short_name_def take_Cons')

lemma str_from_attr_path [simp]:
  "str_from (attr_path name attr) (Suc 0) = Inr (name @ CHR ''/'' # attr)"
  "str_from (attr_path name attr) (Suc (Suc (length name))) = Inr attr"
  by (simp_all add: str_from_def)

section \<open>The attributes of an entry\<close>

text \<open>The six day files: what each shows, and what a write to it changes.\<close>

definition day_of :: "string \<Rightarrow> user \<Rightarrow> int option" where
  "day_of attr u =
     map_of [(''days_since_changed'', dsc u), (''days_until_can_change'', dcc u),
       (''days_until_must_change'', dmc u), (''days_before_warning'', dw u),
       (''days_until_expiration'', de u), (''days_since_account_deactivated'', dd u)] attr"

definition set_day :: "string \<Rightarrow> int \<Rightarrow> user \<Rightarrow> user" where
  "set_day attr v u =
     (if attr = ''days_since_changed'' then u\<lparr>dsc := v\<rparr>
      else if attr = ''days_until_can_change'' then u\<lparr>dcc := v\<rparr>
      else if attr = ''days_until_must_change'' then u\<lparr>dmc := v\<rparr>
      else if attr = ''days_before_warning'' then u\<lparr>dw := v\<rparr>
      else if attr = ''days_until_expiration'' then u\<lparr>de := v\<rparr>
      else if attr = ''days_since_account_deactivated'' then u\<lparr>dd := v\<rparr> else u)"

lemma day_of_cases:
  assumes "day_of attr u = Some w"
  obtains "attr = ''days_since_changed''" | "attr = ''days_until_can_change''"
    | "attr = ''days_until_must_change''" | "attr = ''days_before_warning''"
    | "attr = ''days_until_expiration''" | "attr = ''days_since_account_deactivated''"
  using assms by (auto simp: day_of_def split: if_splits)

lemma day_of_set_day: "day_of attr u = Some w \<Longrightarrow> day_of attr (set_day attr v u) = Some v"
  by (erule day_of_cases) (simp_all add: day_of_def set_day_def)

lemma is_attr_day: "day_of attr u = Some v \<Longrightarrow> is_attr attr u = day_size v"
  by (auto simp: day_of_def is_attr_def split: if_splits)

text \<open>What the handlers do on \<open>/name/attr\<close> when \<open>name\<close> has an entry and the path is no entry's name.\<close>

definition attr_target :: "shfs \<Rightarrow> string \<Rightarrow> string \<Rightarrow> user \<Rightarrow> bool" where
  "attr_target s name attr u \<longleftrightarrow> short_name name \<and> lookup (root s) name = Some u
     \<and> lookup (root s) (name @ CHR ''/'' # attr) = None"

lemma not_sh_file [simp]: "name @ CHR ''/'' # attr \<noteq> ''sh_file''"
proof
  assume "name @ CHR ''/'' # attr = ''sh_file''"
  then have "CHR ''/'' \<in> set ''sh_file''" by (metis in_set_conv_decomp)
  then show False by simp
qed

lemma getattr_attr:
  "attr_target s name attr u \<Longrightarrow> sh_getattr s (attr_path name attr) =
     bindc (is_attr attr u) (\<lambda>n. if n > -1
       then Inr (0, stat0\<lparr>st_mode := S_IFREG + 0x1B6, st_nlink := 1, st_size := n\<rparr>)
       else Inr (- ENOENT, stat0))"
  by (auto simp: sh_getattr_def attr_target_def lookup_None lookup_Some)

lemma write_attr_path:
  "attr_target s name attr u \<Longrightarrow> sh_write t junk s (attr_path name attr) buf off =
     bindc (with_root s (write_attr t junk (root s) name attr buf)) (\<lambda>s'. Inr (int (length buf), s'))"
  by (auto simp: sh_write_def attr_target_def lookup_None lookup_Some)

lemma read_day_attr:
  assumes "attr_target s name attr u" "day_of attr u = Some v"
  shows "sh_read s (attr_path name attr) sz off = bindc (read_day v sz off) (\<lambda>r. Inr (r, s))"
proof -
  obtain j where "find_user (root s) name = Some j" "u = user_at (root s) j"
    using assms(1) by (auto simp: attr_target_def lookup_Some)
  then show ?thesis
    using assms by (auto simp: sh_read_def read_attr_def attr_target_def lookup_None day_of_def split: if_splits)
qed

lemma atoi_buf_show:
  assumes "in_int v"
  shows "atoi_buf (show_int v @ NL # rest) = Inr v"
proof -
  have nd: "\<not> isdigit NL" by (simp add: isdigit_def)
  have "dropWhile isdigit (ds @ NL # rest) \<noteq> []" for ds using nd by (induction ds) auto
  moreover have "snd (sign_of (dropWhile isspace (show_int v @ NL # rest)))
      = show_nat (nat \<bar>v\<bar>) @ NL # rest"
    using show_nat_hd [of "nat v"]
    by (cases "show_nat (nat v)")
      (auto simp: show_int_def sign_of_def isspace_def [of "CHR ''-''"] not_isspace_digit digit_not_sign)
  ultimately show ?thesis using atoi_show_int [OF assms, of "NL # rest"] nd by (simp add: atoi_buf_def)
qed

lemma update_day_lookup:
  assumes "day_of attr u = Some w" "lookup r name = Some u" "atoi_buf buf = Inr v"
  shows "\<exists>r'. write_attr t junk r name attr buf = Inr (0, r') \<and> lookup r' = (lookup r)(name \<mapsto> set_day attr v u)"
  using assms(1) by (cases rule: day_of_cases)
    (use assms(2,3) in \<open>simp_all add: write_attr_def set_day_def dsc_store.upd_present dcc_store.upd_present
      dmc_store.upd_present dw_store.upd_present de_store.upd_present dd_store.upd_present\<close>)

lemma attr_cases [case_names hash dsc dcc dmc dw de dd reserved other]:
  obtains "attr = ''password-hash''" | "attr = ''days_since_changed''" | "attr = ''days_until_can_change''"
    | "attr = ''days_until_must_change''" | "attr = ''days_before_warning''"
    | "attr = ''days_until_expiration''" | "attr = ''days_since_account_deactivated''"
    | "attr = ''reserved''"
    | "attr \<noteq> ''password-hash''" "attr \<noteq> ''days_since_changed''" "attr \<noteq> ''days_until_can_change''"
      "attr \<noteq> ''days_until_must_change''" "attr \<noteq> ''days_before_warning''"
      "attr \<noteq> ''days_until_expiration''" "attr \<noteq> ''days_since_account_deactivated''" "attr \<noteq> ''reserved''"
  by blast

text \<open>What \<open>unlink\<close> leaves in place of an attribute.\<close>

definition default_day :: "int \<Rightarrow> string \<Rightarrow> int" where
  "default_day t attr = (if attr = ''days_since_changed'' then shadow_time t
     else if attr = ''days_until_must_change'' then 99999
     else if attr = ''days_before_warning'' then 7 else 0)"

definition default_attr :: "int \<Rightarrow> string \<Rightarrow> user \<Rightarrow> user" where
  "default_attr t attr u =
     (if attr = ''password-hash'' then u\<lparr>hash := ''!''\<rparr>
      else if attr = ''reserved'' then u\<lparr>reserved := RNull\<rparr>
      else set_day attr (default_day t attr) u)"

lemma reset_attr_lookup:
  assumes "lookup r name = Some u"
  shows "\<exists>r'. reset_attr t r name attr = Inr (0, r') \<and> lookup r' = (lookup r)(name \<mapsto> default_attr t attr u)"
proof (cases rule: attr_cases [of attr])
  case other
  then show ?thesis
    using assms fun_upd_triv [of "lookup r" name] by (simp add: reset_attr_def default_attr_def set_day_def)
qed (use assms in \<open>simp_all add: reset_attr_def default_attr_def set_day_def default_day_def
      hash_store.upd_present reserved_store.upd_present dsc_store.upd_present dcc_store.upd_present
      dmc_store.upd_present dw_store.upd_present de_store.upd_present dd_store.upd_present\<close>)

section \<open>Invariants of the tree through the handlers\<close>

locale tree_inv_all = tree_inv +
  assumes res: "I sf \<Longrightarrow> okc (\<lambda>r. I (snd r)) (update_reserved sf name p)"
    and del: "I sf \<Longrightarrow> okc (\<lambda>r. I (snd r)) (sf_tree_delete_user sf name)"
begin

lemma okc_atoi: "(\<And>v. in_int v \<Longrightarrow> okc P (f v)) \<Longrightarrow> okc P (bindc (atoi_buf buf) f)"
  by (auto simp: atoi_buf_def)

lemma write_attr_inv: "I r \<Longrightarrow> okc (\<lambda>r. I (snd r)) (write_attr t junk r name attr buf)"
proof (rule attr_cases [of attr])
  assume "attr = ''password-hash''" and "I r"
  then show ?thesis
    by (simp add: write_attr_def split_beta buf_string_def)
      (intro impI okc_bindI [OF hash], auto intro: dsc)
qed (simp_all add: write_attr_def okc_atoi dsc dcc dmc dw de dd res)

lemma reset_attr_inv: "I r \<Longrightarrow> okc (\<lambda>r. I (snd r)) (reset_attr t r name attr)"
  by (cases rule: attr_cases [of attr]) (simp_all add: reset_attr_def dsc dcc dmc dw de dd res hash)

lemma with_root_inv:
  "okc (\<lambda>r. I (snd r)) m \<Longrightarrow> okc (\<lambda>s'. I (root s')) (with_root s m)"
  by (cases m) (auto simp: with_root_def split_beta)

lemma set_reserved_inv:
  "I r \<Longrightarrow> find_user r name = Some i \<Longrightarrow> I (set_user r i (user_at r i\<lparr>reserved := p\<rparr>))"
  using res [of r name p] by (simp add: update_reserved_def)

lemma deparse_to_root: "okc (\<lambda>s'. root s' = root s) (deparse_to s frees)"
  by (simp add: deparse_to_def okc_bindc split_beta okc_true)

lemma sh_read_root: "okc (\<lambda>r. root (snd r) = root s) (sh_read s path sz off)"
  unfolding sh_read_def
  by (intro okc_bindI [OF deparse_to_root] okc_bindI [OF okc_true] okc_if okc_case_prod okc_case_option)
    simp_all

lemma sh_write_inv: "I (root s) \<Longrightarrow> okc (\<lambda>r. I (root (snd r))) (sh_write t junk s path buf off)"
  by (auto simp: sh_write_def okc_iff bindc_eq_Inr split_beta split: if_splits
      dest: with_root_inv [OF write_attr_inv, unfolded okc_iff, rule_format])

lemma sh_unlink_inv: "I (root s) \<Longrightarrow> okc (\<lambda>r. I (root (snd r))) (sh_unlink t s path)"
  by (auto simp: sh_unlink_def okc_iff bindc_eq_Inr split_beta split: if_splits
      dest: with_root_inv [OF reset_attr_inv, unfolded okc_iff, rule_format])

lemma sh_mknod_inv: "I (root s) \<Longrightarrow> okc (\<lambda>r. I (root (snd r))) (sh_mknod mem s path)"
  by (auto simp: sh_mknod_def okc_iff bindc_eq_Inr split_beta set_reserved_inv
      split: if_splits option.splits)

lemma sh_mkdir_inv: "I (root s) \<Longrightarrow> okc (\<lambda>r. I (root (snd r))) (sh_mkdir mem t s path)"
  by (auto simp: sh_mkdir_def okc_iff bindc_eq_Inr split_beta
      dest: add [unfolded okc_iff, rule_format])

lemma sh_rmdir_inv: "I (root s) \<Longrightarrow> okc (\<lambda>r. I (root (snd r))) (sh_rmdir s path)"
  by (auto simp: sh_rmdir_def okc_iff bindc_eq_Inr split_beta split: if_splits
      dest: del [unfolded okc_iff, rule_format])

lemma sh_oper_inv:
  assumes "I (root s)" "\<And>from to. rq \<noteq> Rename from to"
  shows "okc (\<lambda>r. I (root (snd r))) (sh_oper mem t junk rq s)"
proof -
  have look: "okc (\<lambda>r. I (root (snd r))) (bindc m (\<lambda>(res, _). Inr (res, s)))" for m :: "(int \<times> 'b) c"
    using assms(1) by (auto intro: okc_bindI [OF okc_true])
  show ?thesis
  proof (cases rq)
    case (Getattr path)
    then show ?thesis using look by (simp add: sh_oper_def)
  next
    case (Readdir path)
    then show ?thesis using look by (simp add: sh_oper_def)
  next
    case (Read path sz off)
    then show ?thesis using assms(1) sh_read_root [of s path sz off]
      by (auto simp: sh_oper_def intro: okc_bindI)
  qed (use assms in \<open>simp_all add: sh_oper_def sh_write_inv sh_unlink_inv sh_mknod_inv sh_mkdir_inv sh_rmdir_inv\<close>)
qed

end

interpretation wf_trees: tree_inv_all wf_tree
  by unfold_locales
    (auto simp: wf_add wf_delete wf_update_hash Shadow_Tree.update_defs wf_user_def intro!: wf_update split: option.split)

interpretation ok_trees: tree_inv_all tree_ok
  by unfold_locales
    (auto simp: okc_iff intro: tree_ok_add tree_ok_delete tree_step_ok tree_step.intros)

section \<open>Runs of the file system\<close>

text \<open>
  A mounted file system after any sequence of requests; the flag says whether there was a
  \<open>rename\<close> among them. (The block that \<open>sf_tree_init\<close> obtains is taken to be zero where
  \<open>head\<close> lies.)
\<close>

definition is_rename :: "request \<Rightarrow> bool" where
  "is_rename rq = (case rq of Rename _ _ \<Rightarrow> True | _ \<Rightarrow> False)"

inductive shfs_reach :: "shfs \<Rightarrow> bool \<Rightarrow> bool" where
  mount: "load_tree mem t [] os name = Inr s \<Longrightarrow> shfs_reach s False"
| request: "shfs_reach s renamed \<Longrightarrow> sh_oper mem t junk rq s = Inr (res, s')
    \<Longrightarrow> shfs_reach s' (renamed \<or> is_rename rq)"

lemma sh_rename_wf: "wf_tree (root s) \<Longrightarrow> okc (\<lambda>r. wf_tree (root (snd r))) (sh_rename s from to)"
  by (auto simp: sh_rename_def okc_bindc str_from_def wf_user_def split: option.split intro!: wf_update)

lemma sh_oper_wf: "wf_tree (root s) \<Longrightarrow> okc (\<lambda>r. wf_tree (root (snd r))) (sh_oper mem t junk rq s)"
  using sh_rename_wf [of s] wf_trees.sh_oper_inv [of s rq mem t junk]
  by (cases rq) (simp_all add: sh_oper_def [of _ _ _ "Rename _ _"])

lemma load_tree_ok: "load_tree mem t [] os name = Inr s \<Longrightarrow> tree_ok (root s)"
  using ok_trees.init_parse_inv [of "[]" mem t "if may_read os name then files os (resolve os name) else None"]
  by (auto simp: load_tree_def bindc_eq_Inr okc_iff tree_ok_def wf_tree_def distinct_names_def)

lemma not_rename: "\<not> is_rename rq \<Longrightarrow> rq \<noteq> Rename from to"
  by (auto simp: is_rename_def)

section \<open>Properties\<close>

text \<open>
  (C1) Whatever file was mounted and whatever requests came since, as long as each had defined
  behaviour: every name and hash fits its array with its terminator and every day count is a C
  \<open>int\<close>; and if no request was a \<open>rename\<close>, no two entries have the same name.
\<close>

theorem shfs_reach_wf:
  "shfs_reach s renamed \<Longrightarrow> wf_tree (root s) \<and> (\<not> renamed \<longrightarrow> distinct_names (root s))"
proof (induction rule: shfs_reach.induct)
  case (mount mem t os name s)
  then show ?case using load_tree_ok by (simp add: tree_ok_def)
next
  case (request s renamed mem t junk rq res s')
  then have "wf_tree (root s')" using sh_oper_wf [of s mem t junk rq] by (simp add: okc_iff)
  moreover have "distinct_names (root s')" if "\<not> renamed" "\<not> is_rename rq"
    using that request ok_trees.sh_oper_inv [of s rq mem t junk]
    by (auto simp: okc_iff tree_ok_def not_rename)
  ultimately show ?case by blast
qed

text \<open>
  \<open>user_from_path\<close> on every path: the name before the second slash if that slash is among the
  next nine characters, and otherwise undefined behaviour, a read past the end of a short path or a
  write past the end of \<open>uname\<close> for a long one.
\<close>

lemma user_from_path_spec:
  "user_from_path (ch # p) =
     (if CHR ''/'' \<in> set (take 9 p)
      then Inr (length (takeWhile (\<lambda>x. x \<noteq> CHR ''/'') p), takeWhile (\<lambda>x. x \<noteq> CHR ''/'') p)
      else if length p < 8 then Inl PastEnd else Inl Overflow)"
  by (rule user_from_path_eq)

text \<open>
  (C10) \<open>getattr\<close> splits the path before it looks at what it is: on the root, on the backing file's
  name and on every user directory its behaviour is undefined.
\<close>

theorem getattr_top_level_undefined:
  "CHR ''/'' \<notin> set name \<Longrightarrow> \<not> defined (sh_getattr s (CHR ''/'' # name))"
  by (auto simp: sh_getattr_def str_from_def user_from_path_eq dest: in_set_takeD)

text \<open>
  (C2) For a user whose name has at most eight characters (longer ones overflow \<open>uname\<close>) and a day
  count of at most eight characters (longer ones overflow the buffer \<open>s\<close> of \<open>read\<close>): writing the
  count and a newline to one of the six day files of the user succeeds, changes that count of that user
  and nothing else, and afterwards \<open>read\<close> with a buffer that has room for it gives back exactly what was
  written and \<open>getattr\<close> reports its length.
\<close>

theorem day_file_roundtrip:
  assumes "attr_target s name attr u" "day_of attr u = Some w"
    and "in_int v" "length (show_int v) \<le> 8" "length (show_int v) < sz"
  shows "\<exists>s'. sh_write t junk s (attr_path name attr) (show_int v @ [NL]) off = Inr (int (length (show_int v)) + 1, s')
    \<and> sh_read s' (attr_path name attr) sz 0 = Inr ((int (length (show_int v)) + 1, show_int v @ [NL]), s')
    \<and> (\<exists>st. sh_getattr s' (attr_path name attr) = Inr (0, st) \<and> st_size st = int (length (show_int v)) + 1)
    \<and> lookup (root s') = (lookup (root s))(name \<mapsto> set_day attr v u)"
proof -
  have "lookup (root s) name = Some u" using assms(1) by (simp add: attr_target_def)
  from update_day_lookup [OF assms(2) this, of "show_int v @ [NL]" v t junk]
  obtain r where r: "write_attr t junk (root s) name attr (show_int v @ [NL]) = Inr (0, r)"
    "lookup r = (lookup (root s))(name \<mapsto> set_day attr v u)"
    using atoi_buf_show [OF assms(3), of "[]"] by blast
  let ?s = "s\<lparr>root := r\<rparr>"
  have tgt: "attr_target ?s name attr (set_day attr v u)"
    using assms(1) r(2) by (simp add: attr_target_def)
  note day = day_of_set_day [OF assms(2), of v]
  have shown: "sprintf_day v = Inr (show_int v @ [NL])"
    using assms(4) by (simp add: sprintf_day_def strcpy_def)
  have "sh_write t junk s (attr_path name attr) (show_int v @ [NL]) off = Inr (int (length (show_int v)) + 1, ?s)"
    using write_attr_path [OF assms(1)] r(1) by (simp add: with_root_def)
  moreover have "sh_read ?s (attr_path name attr) sz 0
      = Inr ((int (length (show_int v)) + 1, show_int v @ [NL]), ?s)"
    using assms(4,5) read_day_attr [OF tgt day]
    by (simp add: read_day_def shown copy_out_def read_array_def)
  moreover have "\<exists>st. sh_getattr ?s (attr_path name attr) = Inr (0, st) \<and> st_size st = int (length (show_int v)) + 1"
    using getattr_attr [OF tgt] is_attr_day [OF day] by (simp add: day_size_def shown)
  ultimately show ?thesis using r(2) by (intro exI [of _ ?s]) simp
qed

text \<open>
  (C11) Setting a password never works: for every user and every buffer, \<open>write\<close> to
  \<open>password-hash\<close> has undefined behaviour, either because the text in the request has no
  terminator or because the 32 digits of the digest and their terminator do not fit \<open>hash\<close>.
\<close>

theorem password_write_undefined:
  assumes "attr_target s name ''password-hash'' u"
  shows "sh_write t junk s (attr_path name ''password-hash'') buf off
    = Inl (if NUL \<in> set buf then Overflow else PastEnd)"
proof -
  obtain i where "find_user (root s) name = Some i"
    using assms by (auto simp: attr_target_def lookup_Some)
  then show ?thesis
    using write_attr_path [OF assms]
    by (simp add: with_root_def write_attr_def buf_string_def update_hash_def hashword_md5 length_hex strcpy_def)
qed

text \<open>
  \<open>unlink\<close> of anything below a user's directory answers 0; it puts the default of that attribute
  in place (the locked password, today, 0, 99999, 7, no reserved text), leaves the entry alone when the
  name is no attribute, and never changes another user.
\<close>

lemma unlink_resets:
  assumes "attr_target s name attr u"
  shows "\<exists>s'. sh_unlink t s (attr_path name attr) = Inr (0, s')
    \<and> lookup (root s') = (lookup (root s))(name \<mapsto> default_attr t attr u)"
proof -
  have u: "lookup (root s) name = Some u" using assms by (simp add: attr_target_def)
  then have nn: "find_user (root s) name \<noteq> None" by (auto simp: lookup_Some)
  show ?thesis
    using reset_attr_lookup [OF u, of t attr] assms nn
    by (auto simp: sh_unlink_def attr_target_def lookup_None with_root_def)
qed

text \<open>
  (C12) \<open>rename\<close> of a known user to a name that fits: it never refuses, and names stay unique exactly
  when the new name was free (or is the old one); then the entry moves to the new name unchanged.
\<close>

theorem rename_user:
  assumes "distinct_names (root s)" "lookup (root s) old = Some u" "length new < USERNAME_SIZE"
  shows "\<exists>s'. sh_rename s (CHR ''/'' # old) (CHR ''/'' # new) = Inr (0, s')
    \<and> (distinct_names (root s') \<longleftrightarrow> new = old \<or> lookup (root s) new = None)
    \<and> (lookup (root s) new = None \<longrightarrow>
         lookup (root s') = (lookup (root s))(old := None, new \<mapsto> u\<lparr>username := new\<rparr>))"
proof -
  obtain i where i: "find_user (root s) old = Some i" "u = user_at (root s) i"
    using assms(2) by (auto simp: lookup_Some)
  let ?r = "set_user (root s) i (u\<lparr>username := new\<rparr>)"
  have at: "i < length (head (root s))" "username (head (root s) ! i) = old"
    using find_user_Some [OF i(1)] by (simp_all add: user_at_def)
  have d: "distinct_names ?r \<longleftrightarrow> new = old \<or> lookup (root s) new = None"
    using assms(1) at distinct_update [of "map username (head (root s))" i new]
    by (auto simp: distinct_names_def set_user_names lookup_None find_user_None)
  have "lookup ?r = (lookup (root s))(old := None, new \<mapsto> u\<lparr>username := new\<rparr>)"
    if "lookup (root s) new = None"
    using that d at assms(1) i lookup_renamed [of "root s" i new] by (simp add: user_at_def)
  then show ?thesis
    using d i assms(3) by (intro exI [of _ "s\<lparr>root := ?r\<rparr>"]) (auto simp: sh_rename_def str_from_def strcpy_def)
qed

text \<open>
  Making a directory for a new user whose name fits shows it at the end of the root directory,
  with the default attributes; removing it again restores the state exactly; a directory that exists
  cannot be made and one that does not exist cannot be removed.
\<close>

lemma mkdir_rmdir:
  assumes "length name < USERNAME_SIZE" "lookup (root s) name = None"
  shows "\<exists>s'. sh_mkdir True t s (CHR ''/'' # name) = Inr (0, s')
    \<and> bindc (sh_readdir s' ''/'') (Inr \<circ> snd) = bindc (sh_readdir s ''/'') (\<lambda>r. Inr (snd r @ [name]))
    \<and> lookup (root s') = (lookup (root s))(name \<mapsto> new_user t name)
    \<and> sh_mkdir True t s' (CHR ''/'' # name) = Inr (- EEXIST, s')
    \<and> sh_rmdir s' (CHR ''/'' # name) = Inr (0, s)
    \<and> sh_rmdir s (CHR ''/'' # name) = Inr (- ENOENT, s)"
proof -
  let ?r = "(root s)\<lparr>head := head (root s) @ [new_user t name]\<rparr>"
  have new: "find_user (root s) name = None" using assms(2) by (simp add: lookup_None)
  have add: "sf_tree_add_user True t (root s) name = Inr (0, ?r)"
    using assms(1) new by (simp add: sf_tree_add_user_def strcpy_def new_user_def)
  have look: "lookup ?r = (lookup (root s))(name \<mapsto> new_user t name)"
    using new by (intro lookup_append_new) (simp_all add: new_user_def)
  then have found: "find_user ?r name \<noteq> None" by (metis fun_upd_same lookup_None option.distinct(1))
  have "remove_first name (us @ [new_user t name]) = us" if "name \<notin> username ` set us" for us
    using that by (induction us) (auto simp: new_user_def)
  then have del: "sf_tree_delete_user ?r name = Inr (0, root s)"
    using found new by (simp add: sf_tree_delete_user_eq find_user_None)
  have again: "sf_tree_add_user True t ?r name = Inr (-3, ?r)"
    using found by (simp add: sf_tree_add_user_def)
  have last: "username (new_user t name) = name" by (simp add: new_user_def)
  show ?thesis
    by (intro exI [of _ "s\<lparr>root := ?r\<rparr>"])
      (use add look found new del again last in \<open>simp add: sh_mkdir_def sh_rmdir_def sh_readdir_def str_from_def\<close>)
qed

text \<open>
  (C4) When every entry can stand in a file as in the round trip of the parser (separable name and
  hash, no reserved text, no unset day count before a set one), no two have the same name, the file
  may be read and written, and \<open>backing_path\<close> is what the file's name resolves to: reading \<open>/sh_file\<close>
  writes the tree to the backing file, gives the asked slice of it and keeps the tree, and a new mount
  of that file has exactly the entries of the old one. (The value that \<open>sf_deparse\<close> fails to return
  is stored and never read, see \<open>deparse_to\<close>.)
\<close>

theorem sh_file_persists:
  assumes "list_all (\<lambda>u. writable u \<and> zeros_last u) (head (root s))" "distinct_names (root s)"
    and "may_write (sys s) (filename s)" "may_read (sys s) (filename s)" "may_read (sys s) (backing_path s)"
    and "resolve (sys s) (backing_path s) = resolve (sys s) (filename s)"
  shows "\<exists>out s'. sf_deparse True (root s) False = Inr (out, [])
    \<and> sh_read s ''/sh_file'' sz off
        = Inr ((int (length (take sz (drop off out))), take sz (drop off out)), s')
    \<and> root s' = root s
    \<and> (\<exists>m. load_tree True t [] (sys s') (filename s') = Inr m \<and> head (root m) = head (root s))"
proof -
  from written_back [OF assms(1), of "[]" t] assms(2) obtain out where
    out: "deparse_loop (head (root s)) = Inr out"
    "init_parse True t [] (Some out) [] = Inr \<lparr>sf_path = [], head = head (root s)\<rparr>"
    by (auto simp: distinct_names_def)
  let ?s = "s\<lparr>sys := sys s\<lparr>files := (files (sys s))(resolve (sys s) (filename s) := Some out)\<rparr>\<rparr>"
  have "sf_deparse True (root s) False = Inr (out, [])" using out(1) by (simp add: sf_deparse_def)
  then show ?thesis
    using assms(3-6) out(2)
    by (intro exI [of _ out] exI [of _ ?s])
      (simp add: sh_read_def str_from_def deparse_to_def os_pread_def Let_def load_tree_def)
qed

text \<open>
  \<open>main\<close> allocates the file name without room for its terminator: with the three or four
  arguments it accepts, its behaviour is undefined whatever the arguments and the files are; with any
  other number it does nothing and returns 0.
\<close>

lemma main_undefined:
  "main mem t junk fuse_main os argv =
     (if length argv = 3 \<or> length argv = 4 then Inl (if mem then Overflow else NullDeref) else Inr (0, os))"
  by (simp add: main_def Let_def strcpy_def)

section \<open>Witnesses\<close>

definition sample_os :: os where
  "sample_os = \<lparr>files = (\<lambda>n. if n = ''/srv/shadow'' then Some [] else None), resolve = (\<lambda>n. ''/srv/shadow''),
     may_write = (\<lambda>_. True), may_read = (\<lambda>_. True), lstat = (\<lambda>_. (0, stat0))\<rparr>"

definition sample_fs :: "user list \<Rightarrow> shfs" where
  "sample_fs us = \<lparr>root = \<lparr>sf_path = [], head = us\<rparr>, filename = ''shadow'', backing_path = ''/srv/shadow'',
     sys = sample_os\<rparr>"

lemma sample_target:
  "attr_target (sample_fs [sample_user]) ''bob'' attr sample_user"
  by (simp add: attr_target_def short_name_def sample_fs_def sample_user_def lookup_def find_user_def user_at_def)

theorem shfs_reach_wf_witness: "wf_tree (root (sample_fs [new_user 0 ''bob'']))"
proof -
  have "load_tree True 0 [] sample_os ''shadow'' = Inr (sample_fs [])"
    by (simp add: load_tree_def sample_os_def sample_fs_def init_parse_def sf_tree_init_def strcpy_def fgets_lines.simps)
  then have "shfs_reach (sample_fs []) False" by (rule shfs_reach.mount)
  moreover have "sh_oper True 0 [] (Mkdir ''/bob'') (sample_fs []) = Inr (0, sample_fs [new_user 0 ''bob''])"
    by (simp add: sh_oper_def sh_mkdir_def str_from_def sf_tree_add_user_def find_user_def strcpy_def
        sample_fs_def new_user_def)
  ultimately have "shfs_reach (sample_fs [new_user 0 ''bob'']) (False \<or> is_rename (Mkdir ''/bob''))"
    by (rule shfs_reach.request)
  then show ?thesis using shfs_reach_wf by blast
qed

theorem getattr_top_level_undefined_witness:
  "\<not> defined (sh_getattr (sample_fs []) ''/'') \<and> \<not> defined (sh_getattr (sample_fs []) ''/sh_file'')"
  using getattr_top_level_undefined [of "[]" "sample_fs []"]
    getattr_top_level_undefined [of "''sh_file''" "sample_fs []"] by simp

theorem day_file_roundtrip_witness:
  "\<exists>s'. sh_write 0 [] (sample_fs [sample_user]) ''/bob/days_before_warning'' (show_int 14 @ [NL]) 0
        = Inr (int (length (show_int 14)) + 1, s')"
  using day_file_roundtrip [OF sample_target, of "''days_before_warning''" 7 14 4096 0 "[]" 0]
  by (auto simp: day_of_def sample_user_def in_int_small show_int_def show_nat.simps)

theorem password_write_undefined_witness:
  "sh_write 0 [] (sample_fs [sample_user]) ''/bob/password-hash'' ''secret'' 0 = Inl PastEnd"
  using password_write_undefined [OF sample_target, of 0 "[]" "''secret''" 0] by simp

theorem rename_user_witness:
  "\<exists>s'. sh_rename (sample_fs [sample_user, new_user 0 ''eve'']) ''/bob'' ''/eve'' = Inr (0, s')
    \<and> \<not> distinct_names (root s')"
  using rename_user [of "sample_fs [sample_user, new_user 0 ''eve'']" "''bob''" sample_user "''eve''"]
  by (auto simp: distinct_names_def sample_fs_def sample_user_def new_user_def lookup_def find_user_def user_at_def)

theorem sh_file_persists_witness:
  "\<exists>out s'. sh_read (sample_fs [sample_user]) ''/sh_file'' 4096 0 = Inr (out, s')
    \<and> (\<exists>m. load_tree True 0 [] (sys s') (filename s') = Inr m \<and> head (root m) = [sample_user])"
  using sh_file_persists [of "sample_fs [sample_user]" 4096 0 0] sample_user_writable
  by (auto simp: distinct_names_def sample_fs_def sample_os_def)

end
