(* ===== verification/Fuse_Locks.thy ===== *)
theory Fuse_Locks
  imports Libc
begin

text \<open>
  The record locks of a node in \<open>src/lib/fuse.c\<close>: \<open>struct lock\<close>, \<open>locks_conflict\<close>,
  \<open>locks_insert\<close> and the conversions from and to \<open>struct flock\<close>. The linked list from
  \<open>node->locks\<close> is a HOL list. Offsets are \<open>off_t\<close>, 64-bit signed, as integers with their
  bounds written out; the only signed overflow that can occur is in \<open>flock_to_lock\<close>.
\<close>

section \<open>Data\<close>

datatype lock_type = F_RDLCK | F_WRLCK | F_UNLCK

record lock =
  lk_type :: lock_type
  lk_start :: int
  lk_end :: int
  lk_pid :: int
  lk_owner :: nat

record flock =
  l_type :: lock_type
  l_start :: int
  l_len :: int
  l_pid :: int

definition OFFSET_MAX :: int where "OFFSET_MAX = 0x7fffffffffffffff"

section \<open>Operations\<close>

fun locks_conflict :: "lock list \<Rightarrow> lock \<Rightarrow> lock option" where
  "locks_conflict [] lock = None"
| "locks_conflict (l # ls) lock =
     (if lk_owner l \<noteq> lk_owner lock \<and>
         lk_start lock \<le> lk_end l \<and> lk_start l \<le> lk_end lock \<and>
         (lk_type l = F_WRLCK \<or> lk_type lock = F_WRLCK)
      then Some l else locks_conflict ls lock)"

text \<open>After the loop: a lock goes in at \<open>*lp\<close>, in the block \<open>newl1\<close> if there is one.\<close>

definition insert_at :: "lock \<Rightarrow> bool \<Rightarrow> lock list \<Rightarrow> lock list c" where
  "insert_at lock newl1 rest =
     (if lk_type lock \<noteq> F_UNLCK then (if newl1 then Inr (lock # rest) else Inl NullDeref)
      else Inr rest)"

text \<open>
  The loop of \<open>locks_insert\<close> on the list from \<open>*lp\<close>: the list that is there in the end.
  \<open>newl1\<close> and \<open>newl2\<close> say whether the blocks are still available.
\<close>

function insert_loop :: "lock \<Rightarrow> bool \<Rightarrow> bool \<Rightarrow> lock list \<Rightarrow> lock list c" where
  "insert_loop lock newl1 newl2 [] = insert_at lock newl1 []"
| "insert_loop lock newl1 newl2 (l # ls) =
     (let skip = (\<lambda>l. bindc (insert_loop lock newl1 newl2 ls) (\<lambda>r. Inr (l # r)))
      in if lk_owner l \<noteq> lk_owner lock then skip l
      else if lk_type lock = lk_type l then
        if lk_end l < lk_start lock - 1 then skip l
        else if lk_end lock < lk_start l - 1 then insert_at lock newl1 (l # ls)
        else if lk_start l \<le> lk_start lock \<and> lk_end lock \<le> lk_end l then Inr (l # ls)
        else insert_loop
          (lock\<lparr>lk_start := if lk_start l < lk_start lock then lk_start l else lk_start lock,
                lk_end := if lk_end lock < lk_end l then lk_end l else lk_end lock\<rparr>) newl1 newl2 ls
      else
        if lk_end l < lk_start lock then skip l
        else if lk_end lock < lk_start l then insert_at lock newl1 (l # ls)
        else if lk_start lock \<le> lk_start l \<and> lk_end l \<le> lk_end lock then insert_loop lock newl1 newl2 ls
        else if lk_end l \<le> lk_end lock then skip (l\<lparr>lk_end := lk_start lock - 1\<rparr>)
        else if lk_start lock \<le> lk_start l then insert_at lock newl1 (l\<lparr>lk_start := lk_end lock + 1\<rparr> # ls)
        else if \<not> newl2 then Inl NullDeref
        else bindc (insert_loop lock newl1 False (l\<lparr>lk_start := lk_end lock + 1\<rparr> # ls))
               (\<lambda>r. Inr (l\<lparr>lk_end := lk_start lock - 1\<rparr> # r)))"
  by pat_completeness auto
termination
  by (relation "measure (\<lambda>(lock, newl1, newl2, ls). 2 * length ls + (if newl2 then 1 else 0))") auto

declare insert_loop.simps(2) [simp del]

text \<open>\<open>mem\<close> says whether both blocks can be allocated; unlocking everything needs none.\<close>

definition locks_insert :: "bool \<Rightarrow> lock list \<Rightarrow> lock \<Rightarrow> (int \<times> lock list) c" where
  "locks_insert mem ls lock =
     (let need = (lk_type lock \<noteq> F_UNLCK \<or> lk_start lock \<noteq> 0 \<or> lk_end lock \<noteq> OFFSET_MAX)
      in if need \<and> \<not> mem then Inr (- ENOLCK, ls)
         else bindc (insert_loop lock need need ls) (\<lambda>ls'. Inr (0, ls')))"

definition flock_to_lock :: "flock \<Rightarrow> lock c" where
  "flock_to_lock flock =
     (if l_len flock \<noteq> 0 \<and> OFFSET_MAX < l_start flock + l_len flock then Inl SignedOverflow
      else Inr \<lparr>lk_type = l_type flock, lk_start = l_start flock,
        lk_end = (if l_len flock \<noteq> 0 then l_start flock + l_len flock - 1 else OFFSET_MAX),
        lk_pid = l_pid flock, lk_owner = 0\<rparr>)"

definition lock_to_flock :: "lock \<Rightarrow> flock" where
  "lock_to_flock lock =
     \<lparr>l_type = lk_type lock, l_start = lk_start lock,
      l_len = (if lk_end lock = OFFSET_MAX then 0 else lk_end lock - lk_start lock + 1),
      l_pid = lk_pid lock\<rparr>"

section \<open>What the list means\<close>

text \<open>The kind of lock that an owner holds on the byte at an offset.\<close>

fun held :: "lock list \<Rightarrow> nat \<Rightarrow> int \<Rightarrow> lock_type option" where
  "held [] ow x = None"
| "held (l # ls) ow x =
     (if lk_owner l = ow \<and> lk_start l \<le> x \<and> x \<le> lk_end l then Some (lk_type l) else held ls ow x)"

definition wf_lock :: "lock \<Rightarrow> bool" where
  "wf_lock l \<longleftrightarrow> 0 \<le> lk_start l \<and> lk_start l \<le> lk_end l \<and> lk_end l \<le> OFFSET_MAX"

definition lock_before :: "lock \<Rightarrow> lock \<Rightarrow> bool" where
  "lock_before a b \<longleftrightarrow> (lk_owner a = lk_owner b \<longrightarrow> lk_end a < lk_start b)"

text \<open>Real locks only, and those of one owner in ascending order without overlap.\<close>

definition wf_locks :: "lock list \<Rightarrow> bool" where
  "wf_locks ls \<longleftrightarrow> list_all (\<lambda>l. wf_lock l \<and> lk_type l \<noteq> F_UNLCK) ls \<and> sorted_wrt lock_before ls"

abbreviation owned :: "nat \<Rightarrow> lock list \<Rightarrow> lock list" where
  "owned ow \<equiv> filter (\<lambda>l. lk_owner l = ow)"

lemma held_owned: "held (owned ow ls) ow x = held ls ow x"
  by (induction ls) auto

lemma held_other_owned: "owned ow ls = owned ow ls' \<Longrightarrow> held ls ow x = held ls' ow x"
  by (metis held_owned)

lemma sorted_wrt_owned:
  "sorted_wrt lock_before ls \<longleftrightarrow> (\<forall>ow. sorted_wrt (\<lambda>a b. lk_end a < lk_start b) (owned ow ls))"
  by (induction ls) (auto simp: lock_before_def)

section \<open>One turn of the loop\<close>

abbreviation merged :: "lock \<Rightarrow> lock \<Rightarrow> lock" where
  "merged lock l \<equiv> lock\<lparr>lk_start := min (lk_start l) (lk_start lock), lk_end := max (lk_end lock) (lk_end l)\<rparr>"

lemma insert_loop_cases [case_names other before after inside merge cover left right split]:
  obtains
    "lk_owner l \<noteq> lk_owner lock"
    "insert_loop lock n1 n2 (l # ls) = bindc (insert_loop lock n1 n2 ls) (\<lambda>r. Inr (l # r))"
  | "lk_owner l = lk_owner lock" "lk_end l < lk_start lock"
    "insert_loop lock n1 n2 (l # ls) = bindc (insert_loop lock n1 n2 ls) (\<lambda>r. Inr (l # r))"
  | "lk_owner l = lk_owner lock" "lk_end lock < lk_start l"
    "insert_loop lock n1 n2 (l # ls) = insert_at lock n1 (l # ls)"
  | "lk_owner l = lk_owner lock" "lk_type l = lk_type lock" "lk_start l \<le> lk_start lock" "lk_end lock \<le> lk_end l"
    "insert_loop lock n1 n2 (l # ls) = Inr (l # ls)"
  | "lk_owner l = lk_owner lock" "lk_type l = lk_type lock" "lk_start lock \<le> lk_end l + 1" "lk_start l \<le> lk_end lock + 1"
    "insert_loop lock n1 n2 (l # ls) = insert_loop (merged lock l) n1 n2 ls"
  | "lk_owner l = lk_owner lock" "lk_type l \<noteq> lk_type lock" "lk_start lock \<le> lk_start l" "lk_end l \<le> lk_end lock"
    "insert_loop lock n1 n2 (l # ls) = insert_loop lock n1 n2 ls"
  | "lk_owner l = lk_owner lock" "lk_type l \<noteq> lk_type lock" "lk_start l < lk_start lock" "lk_start lock \<le> lk_end l"
    "lk_end l \<le> lk_end lock"
    "insert_loop lock n1 n2 (l # ls)
       = bindc (insert_loop lock n1 n2 ls) (\<lambda>r. Inr (l\<lparr>lk_end := lk_start lock - 1\<rparr> # r))"
  | "lk_owner l = lk_owner lock" "lk_type l \<noteq> lk_type lock" "lk_start lock \<le> lk_start l" "lk_start l \<le> lk_end lock"
    "lk_end lock < lk_end l"
    "insert_loop lock n1 n2 (l # ls) = insert_at lock n1 (l\<lparr>lk_start := lk_end lock + 1\<rparr> # ls)"
  | "lk_owner l = lk_owner lock" "lk_type l \<noteq> lk_type lock" "lk_start l < lk_start lock" "lk_end lock < lk_end l"
    "insert_loop lock n1 n2 (l # ls) = (if n2
       then bindc (insert_at lock n1 (l\<lparr>lk_start := lk_end lock + 1\<rparr> # ls))
              (\<lambda>r. Inr (l\<lparr>lk_end := lk_start lock - 1\<rparr> # r))
       else Inl NullDeref)"
proof -
  have mm: "(if lk_start l < lk_start lock then lk_start l else lk_start lock) = min (lk_start l) (lk_start lock)"
    "(if lk_end lock < lk_end l then lk_end l else lk_end lock) = max (lk_end lock) (lk_end l)"
    by (auto simp: min_def max_def)
  have sp: "insert_loop lock n1 False (l\<lparr>lk_start := lk_end lock + 1\<rparr> # ls)
      = insert_at lock n1 (l\<lparr>lk_start := lk_end lock + 1\<rparr> # ls)"
    if "lk_owner l = lk_owner lock" "lk_type l \<noteq> lk_type lock" "lk_start lock \<le> lk_end l"
    using that by (subst insert_loop.simps(2)) simp
  note u = insert_loop.simps(2) [of lock n1 n2 l ls, unfolded Let_def mm]
  consider (o) "lk_owner l \<noteq> lk_owner lock"
    | (t) "lk_owner l = lk_owner lock" "lk_type l = lk_type lock"
    | (n) "lk_owner l = lk_owner lock" "lk_type l \<noteq> lk_type lock" by blast
  then show thesis
  proof cases
    case o
    then show ?thesis using u by (intro that(1)) simp_all
  next
    case t
    then consider "lk_end l < lk_start lock - 1" | "lk_start lock \<le> lk_end l + 1" "lk_end lock < lk_start l - 1"
      | "lk_start lock \<le> lk_end l + 1" "lk_start l \<le> lk_end lock + 1" "lk_start l \<le> lk_start lock" "lk_end lock \<le> lk_end l"
      | "lk_start lock \<le> lk_end l + 1" "lk_start l \<le> lk_end lock + 1" "\<not> (lk_start l \<le> lk_start lock \<and> lk_end lock \<le> lk_end l)"
      by linarith
    then show ?thesis
    proof cases
      case 1
      then show ?thesis using t u by (intro that(2)) simp_all
    next
      case 2
      then show ?thesis using t u by (intro that(3)) simp_all
    next
      case 3
      then show ?thesis using t u by (intro that(4)) simp_all
    next
      case 4
      then show ?thesis using t u by (intro that(5)) auto
    qed
  next
    case n
    then consider "lk_end l < lk_start lock" | "lk_start lock \<le> lk_end l" "lk_end lock < lk_start l"
      | "lk_start lock \<le> lk_end l" "lk_start l \<le> lk_end lock" "lk_start lock \<le> lk_start l" "lk_end l \<le> lk_end lock"
      | "lk_start lock \<le> lk_end l" "lk_start l \<le> lk_end lock" "lk_start l < lk_start lock" "lk_end l \<le> lk_end lock"
      | "lk_start lock \<le> lk_end l" "lk_start l \<le> lk_end lock" "lk_start lock \<le> lk_start l" "lk_end lock < lk_end l"
      | "lk_start lock \<le> lk_end l" "lk_start l \<le> lk_end lock" "lk_start l < lk_start lock" "lk_end lock < lk_end l"
      by linarith
    then show ?thesis
    proof cases
      case 1
      then show ?thesis using n u by (intro that(2)) simp_all
    next
      case 2
      then show ?thesis using n u by (intro that(3)) simp_all
    next
      case 3
      then show ?thesis using n u by (intro that(6)) simp_all
    next
      case 4
      then show ?thesis using n u by (intro that(7)) simp_all
    next
      case 5
      then show ?thesis using n u by (intro that(8)) simp_all
    next
      case 6
      then show ?thesis using n u sp by (intro that(9)) simp_all
    qed
  qed
qed

section \<open>The whole loop\<close>

definition lock_value :: "lock \<Rightarrow> lock_type option" where
  "lock_value lock = (if lk_type lock = F_UNLCK then None else Some (lk_type lock))"

text \<open>What inserting a lock should do to what every owner holds.\<close>

definition held_after :: "lock \<Rightarrow> lock list \<Rightarrow> nat \<Rightarrow> int \<Rightarrow> lock_type option" where
  "held_after lock ls ow x =
     (if ow = lk_owner lock \<and> lk_start lock \<le> x \<and> x \<le> lk_end lock then lock_value lock else held ls ow x)"

definition inserted :: "lock \<Rightarrow> lock list \<Rightarrow> lock list \<Rightarrow> bool" where
  "inserted lock ls r \<longleftrightarrow> wf_locks r \<and> (\<forall>ow x. held r ow x = held_after lock ls ow x)
     \<and> (\<forall>a. lock_before a lock \<and> (\<forall>l\<in>set ls. lock_before a l) \<longrightarrow> (\<forall>l\<in>set r. lock_before a l))"

lemma inserted_wf: "inserted lock ls r \<Longrightarrow> wf_locks r"
  and inserted_held: "inserted lock ls r \<Longrightarrow> held r ow x = held_after lock ls ow x"
  and inserted_before: "inserted lock ls r \<Longrightarrow> lock_before a lock \<Longrightarrow> \<forall>l\<in>set ls. lock_before a l
    \<Longrightarrow> \<forall>l\<in>set r. lock_before a l"
  unfolding inserted_def by blast+

lemma insertedI:
  "wf_locks r \<Longrightarrow> (\<And>ow x. held r ow x = held_after lock ls ow x)
     \<Longrightarrow> (\<And>a. lock_before a lock \<Longrightarrow> \<forall>l\<in>set ls. lock_before a l \<Longrightarrow> \<forall>l\<in>set r. lock_before a l)
     \<Longrightarrow> inserted lock ls r"
  unfolding inserted_def by blast

lemma held_None: "(\<And>l. l \<in> set ls \<Longrightarrow> lk_owner l = ow \<Longrightarrow> x < lk_start l) \<Longrightarrow> held ls ow x = None"
proof (induction ls)
  case (Cons l ls)
  then have "held ls ow x = None" by simp
  moreover have "\<not> (lk_owner l = ow \<and> lk_start l \<le> x)" using Cons.prems [of l] by auto
  ultimately show ?case by auto
qed simp

lemma lock_before_mono:
  "lk_owner l' = lk_owner l \<Longrightarrow> lk_end l' \<le> lk_end l \<Longrightarrow> lock_before l m \<Longrightarrow> lock_before l' m"
  by (auto simp: lock_before_def)

lemma wf_locks_Cons:
  "wf_locks (l # ls) \<longleftrightarrow> wf_lock l \<and> lk_type l \<noteq> F_UNLCK \<and> (\<forall>m\<in>set ls. lock_before l m) \<and> wf_locks ls"
  by (auto simp: wf_locks_def)

lemma insert_at_spec:
  assumes "wf_locks rest" "wf_lock lock" "n1 \<or> lk_type lock = F_UNLCK" "\<forall>l\<in>set rest. lock_before lock l"
  shows "\<exists>r. insert_at lock n1 rest = Inr r \<and> inserted lock rest r"
proof (cases "lk_type lock = F_UNLCK")
  case True
  have "held rest (lk_owner lock) x = None" if "x \<le> lk_end lock" for x
    using assms(4) that by (intro held_None) (auto simp: lock_before_def)
  then show ?thesis using True assms(1)
    by (auto simp: insert_at_def inserted_def held_after_def lock_value_def)
next
  case False
  then show ?thesis using assms
    by (auto simp: insert_at_def inserted_def held_after_def lock_value_def wf_locks_Cons)
qed

lemma inserted_Cons:
  assumes "inserted lock ls r" "wf_lock l'" "lk_type l' = lk_type l" "lk_type l \<noteq> F_UNLCK"
    and "lk_owner l' = lk_owner l" "lk_start l' = lk_start l" "lk_end l' \<le> lk_end l"
    and "\<forall>m\<in>set ls. lock_before l m" "lock_before l' lock"
    and "\<And>x. lk_start l \<le> x \<Longrightarrow> x \<le> lk_end l \<Longrightarrow> lk_end l' < x \<Longrightarrow>
           lk_owner l = lk_owner lock \<and> lk_start lock \<le> x \<and> x \<le> lk_end lock"
  shows "inserted lock (l # ls) (l' # r)"
proof -
  have b: "\<forall>m\<in>set ls. lock_before l' m" using assms(8) lock_before_mono [OF assms(5,7)] by blast
  then have "\<forall>m\<in>set r. lock_before l' m" by (rule inserted_before [OF assms(1,9)])
  then have "wf_locks (l' # r)" using inserted_wf [OF assms(1)] assms(2-4) by (simp add: wf_locks_Cons)
  moreover have "held (l' # r) ow x = held_after lock (l # ls) ow x" for ow x
  proof -
    have h: "held r ow x = held_after lock ls ow x" by (rule inserted_held [OF assms(1)])
    consider "lk_owner l = ow" "lk_start l \<le> x" "x \<le> lk_end l'"
      | "lk_owner l = ow" "lk_start l \<le> x" "x \<le> lk_end l" "lk_end l' < x"
      | "\<not> (lk_owner l = ow \<and> lk_start l \<le> x \<and> x \<le> lk_end l)" "\<not> (lk_owner l = ow \<and> lk_start l \<le> x \<and> x \<le> lk_end l')"
      using assms(7) by linarith
    then show ?thesis
    proof cases
      case 1
      then have "\<not> (ow = lk_owner lock \<and> lk_start lock \<le> x)"
        using assms(5,9) by (auto simp: lock_before_def)
      then show ?thesis using 1 assms(3,5,6,7) by (auto simp: held_after_def)
    next
      case 2
      then show ?thesis using assms(10) [of x] h assms(5) by (auto simp: held_after_def)
    next
      case 3
      then show ?thesis using h assms(5,6) by (auto simp: held_after_def)
    qed
  qed
  moreover have "lock_before a l'" if "lock_before a l" for a
    using that assms(5,6) by (simp add: lock_before_def)
  ultimately show ?thesis using inserted_before [OF assms(1)] by (intro insertedI) auto
qed

lemma inserted_via:
  assumes "inserted lock' ls' r" "\<And>ow x. held_after lock' ls' ow x = held_after lock ls ow x"
    and "\<And>a. lock_before a lock \<Longrightarrow> \<forall>m\<in>set ls. lock_before a m \<Longrightarrow> lock_before a lock' \<and> (\<forall>m\<in>set ls'. lock_before a m)"
  shows "inserted lock ls r"
proof (rule insertedI [OF inserted_wf [OF assms(1)]])
  show "held r ow x = held_after lock ls ow x" for ow x
    using inserted_held [OF assms(1)] assms(2) by simp
  show "\<forall>m\<in>set r. lock_before a m" if "lock_before a lock" "\<forall>m\<in>set ls. lock_before a m" for a
    using assms(3) [OF that] by (intro inserted_before [OF assms(1)]) blast+
qed

lemma insert_loop_spec:
  assumes "wf_locks ls" "wf_lock lock" "n1 \<or> lk_type lock = F_UNLCK"
    and "n2 \<or> (\<forall>l\<in>set ls. lk_start lock \<le> lk_start l \<and> lk_end l \<le> lk_end lock)"
  shows "\<exists>r. insert_loop lock n1 n2 ls = Inr r \<and> inserted lock ls r"
  using assms
proof (induction ls arbitrary: lock)
  case Nil
  then show ?case using insert_at_spec [of "[]" lock n1] by simp
next
  case (Cons l ls)
  note wf = Cons.prems(1) [unfolded wf_locks_Cons]
  show ?case
  proof (cases rule: insert_loop_cases [of l lock n1 n2 ls])
    case other
    from Cons.IH [of lock] Cons.prems wf obtain r where
      r: "insert_loop lock n1 n2 ls = Inr r" "inserted lock ls r" by auto
    have "inserted lock (l # ls) (l # r)"
      by (rule inserted_Cons [OF r(2)]) (use other wf in \<open>auto simp: lock_before_def\<close>)
    then show ?thesis using other r(1) by simp
  next
    case before
    from Cons.IH [of lock] Cons.prems wf obtain r where
      r: "insert_loop lock n1 n2 ls = Inr r" "inserted lock ls r" by auto
    have "inserted lock (l # ls) (l # r)"
      by (rule inserted_Cons [OF r(2)]) (use before wf in \<open>auto simp: lock_before_def\<close>)
    then show ?thesis using before r(1) by simp
  next
    case after
    have "lock_before lock m" if "m \<in> set (l # ls)" for m
      using that wf after by (auto simp: lock_before_def wf_lock_def)
    then show ?thesis using insert_at_spec [OF Cons.prems(1-3)] after by simp
  next
    case inside
    then show ?thesis using wf Cons.prems(1)
      by (auto simp: inserted_def held_after_def lock_value_def)
  next
    case merge
    have wl: "wf_lock (merged lock l)" using wf Cons.prems(2) by (auto simp: wf_lock_def)
    from Cons.IH [of "merged lock l"] Cons.prems wf wl obtain r where
      r: "insert_loop (merged lock l) n1 n2 ls = Inr r" "inserted (merged lock l) ls r" by fastforce
    have "inserted lock (l # ls) r"
    proof (rule inserted_via [OF r(2)])
      show "lock_before a (merged lock l) \<and> (\<forall>m\<in>set ls. lock_before a m)"
        if "lock_before a lock" "\<forall>m\<in>set (l # ls). lock_before a m" for a
        using that merge(1) by (simp add: lock_before_def)
      show "held_after (merged lock l) ls ow x = held_after lock (l # ls) ow x" for ow x
      proof -
        have "lk_start (merged lock l) \<le> x \<and> x \<le> lk_end (merged lock l) \<longleftrightarrow>
            (lk_start lock \<le> x \<and> x \<le> lk_end lock) \<or> (lk_start l \<le> x \<and> x \<le> lk_end l)"
          using merge wl wf Cons.prems(2) by (auto simp: wf_lock_def min_def max_def)
        then show ?thesis using merge(1,2) wf
          by (cases "lk_start lock \<le> x \<and> x \<le> lk_end lock"; cases "lk_start l \<le> x \<and> x \<le> lk_end l")
            (auto simp: held_after_def lock_value_def)
      qed
    qed
    then show ?thesis using r(1) merge(5) by simp
  next
    case cover
    from Cons.IH [of lock] Cons.prems wf obtain r where
      r: "insert_loop lock n1 n2 ls = Inr r" "inserted lock ls r" by auto
    have "inserted lock (l # ls) r"
      by (rule inserted_via [OF r(2)]) (use cover in \<open>auto simp: held_after_def\<close>)
    then show ?thesis using cover r(1) by simp
  next
    case left
    from Cons.IH [of lock] Cons.prems wf obtain r where
      r: "insert_loop lock n1 n2 ls = Inr r" "inserted lock ls r" by auto
    have "inserted lock (l # ls) (l\<lparr>lk_end := lk_start lock - 1\<rparr> # r)"
      by (rule inserted_Cons [OF r(2)]) (use left wf in \<open>auto simp: lock_before_def wf_lock_def\<close>)
    then show ?thesis using left r(1) by simp
  next
    case right
    let ?l = "l\<lparr>lk_start := lk_end lock + 1\<rparr>"
    have wr: "wf_locks (?l # ls)" using wf right Cons.prems(2) by (auto simp: wf_locks_Cons wf_lock_def lock_before_def)
    have "\<forall>m\<in>set (?l # ls). lock_before lock m"
      using wf right by (auto simp: lock_before_def)
    then obtain r where r: "insert_at lock n1 (?l # ls) = Inr r" "inserted lock (?l # ls) r"
      using insert_at_spec [OF wr Cons.prems(2,3)] by blast
    have "inserted lock (l # ls) r"
      by (rule inserted_via [OF r(2)]) (use right in \<open>auto simp: held_after_def lock_before_def\<close>)
    then show ?thesis using r right by simp
  next
    case split
    let ?l = "l\<lparr>lk_start := lk_end lock + 1\<rparr>" and ?m = "l\<lparr>lk_end := lk_start lock - 1\<rparr>"
    have n2: n2 using Cons.prems(4) split by auto
    have wr: "wf_locks (?l # ls)" using wf split Cons.prems(2) by (auto simp: wf_locks_Cons wf_lock_def lock_before_def)
    have "\<forall>m\<in>set (?l # ls). lock_before lock m"
      using wf split by (auto simp: lock_before_def)
    then obtain r where r: "insert_at lock n1 (?l # ls) = Inr r" "inserted lock (?l # ls) r"
      using insert_at_spec [OF wr Cons.prems(2,3)] by blast
    have "\<forall>m\<in>set (?l # ls). lock_before ?m m"
      using wf split Cons.prems(2) by (auto simp: lock_before_def wf_lock_def)
    then have mr: "\<forall>m\<in>set r. lock_before ?m m"
      by (rule inserted_before [OF r(2), rotated]) (simp add: lock_before_def)
    then have "wf_locks (?m # r)"
      using wf split inserted_wf [OF r(2)] Cons.prems(2) by (simp add: wf_locks_Cons wf_lock_def)
    then have "inserted lock (l # ls) (?m # r)"
    proof (rule insertedI)
      show "held (?m # r) ow x = held_after lock (l # ls) ow x" for ow x
        using inserted_held [OF r(2), of ow x] split(1,3,4) Cons.prems(2) by (auto simp: held_after_def wf_lock_def)
      show "\<forall>m\<in>set (?m # r). lock_before a m"
        if a: "lock_before a lock" "\<forall>m\<in>set (l # ls). lock_before a m" for a
      proof -
        have al: "lock_before a l" "\<forall>m\<in>set ls. lock_before a m" using a(2) by simp_all
        then have "lock_before a ?l"
          using split(3) Cons.prems(2) by (auto simp: lock_before_def wf_lock_def)
        then have "\<forall>m\<in>set (?l # ls). lock_before a m" using al(2) by simp
        from inserted_before [OF r(2) a(1) this] have "\<forall>m\<in>set r. lock_before a m" .
        moreover have "lock_before a ?m" using al(1) by (simp add: lock_before_def)
        ultimately show ?thesis by simp
      qed
    qed
    then show ?thesis using split n2 r(1) by simp
  qed
qed

section \<open>Properties\<close>

lemma locks_insert_whole:
  assumes "wf_locks ls" "wf_lock lock"
  shows "\<exists>r. locks_insert mem ls lock = Inr r
    \<and> (if fst r = 0 then inserted lock ls (snd r)
       else fst r = - ENOLCK \<and> snd r = ls \<and> \<not> mem
            \<and> (lk_type lock \<noteq> F_UNLCK \<or> lk_start lock \<noteq> 0 \<or> lk_end lock \<noteq> OFFSET_MAX))"
proof -
  let ?need = "lk_type lock \<noteq> F_UNLCK \<or> lk_start lock \<noteq> 0 \<or> lk_end lock \<noteq> OFFSET_MAX"
  have "?need \<or> (\<forall>l\<in>set ls. lk_start lock \<le> lk_start l \<and> lk_end l \<le> lk_end lock)"
    using assms(1) by (auto simp: wf_locks_def list_all_iff wf_lock_def)
  then obtain r where "insert_loop lock ?need ?need ls = Inr r" "inserted lock ls r"
    using insert_loop_spec [OF assms, of ?need ?need] by blast
  then show ?thesis by (auto simp: locks_insert_def Let_def)
qed

text \<open>
  (C13) \<open>locks_insert\<close> implements POSIX record locks: on a well-formed list it never runs into a null
  pointer; when it succeeds the owner holds exactly the new kind (or nothing, for an unlock) on the
  bytes of the range, everything else is held as before, and the list is well-formed again; it fails
  only when memory is short, and then changes nothing.
\<close>

theorem locks_insert_spec:
  assumes "wf_locks ls" "wf_lock lock"
  shows "\<exists>k ls'. locks_insert mem ls lock = Inr (k, ls') \<and> wf_locks ls'
    \<and> (k = 0 \<longrightarrow> (\<forall>ow x. held ls' ow x =
         (if ow = lk_owner lock \<and> lk_start lock \<le> x \<and> x \<le> lk_end lock
          then (if lk_type lock = F_UNLCK then None else Some (lk_type lock))
          else held ls ow x)))
    \<and> (k \<noteq> 0 \<longrightarrow> k = - ENOLCK \<and> ls' = ls \<and> \<not> mem)"
proof -
  obtain k r where r: "locks_insert mem ls lock = Inr (k, r)" "k = 0 \<longrightarrow> inserted lock ls r"
    "k \<noteq> 0 \<longrightarrow> k = - ENOLCK \<and> r = ls \<and> \<not> mem"
    using locks_insert_whole [OF assms, of mem] by (auto split: if_splits)
  then have "wf_locks r" using assms(1) inserted_wf by (cases "k = 0") auto
  moreover have "held r ow x = held_after lock ls ow x" if "k = 0" for ow x
    using r(2) that inserted_held by blast
  ultimately show ?thesis using r by (auto simp: held_after_def lock_value_def)
qed

text \<open>
  \<open>locks_conflict\<close> finds a lock exactly when some other owner holds a byte of the range and one of
  the two locks is a write lock, and the lock it returns is such a lock.
\<close>

lemma locks_conflict_spec:
  assumes "wf_locks ls" "wf_lock lock"
  shows "(locks_conflict ls lock \<noteq> None \<longleftrightarrow>
           (\<exists>ow x t. ow \<noteq> lk_owner lock \<and> lk_start lock \<le> x \<and> x \<le> lk_end lock \<and> held ls ow x = Some t
              \<and> (t = F_WRLCK \<or> lk_type lock = F_WRLCK)))
    \<and> (\<forall>l. locks_conflict ls lock = Some l \<longrightarrow> l \<in> set ls \<and> lk_owner l \<noteq> lk_owner lock
         \<and> (lk_type l = F_WRLCK \<or> lk_type lock = F_WRLCK))"
  using assms(1)
proof (induction ls)
  case (Cons l ls)
  let ?hit = "lk_owner l \<noteq> lk_owner lock \<and> lk_start lock \<le> lk_end l \<and> lk_start l \<le> lk_end lock
    \<and> (lk_type l = F_WRLCK \<or> lk_type lock = F_WRLCK)"
  have wf: "wf_lock l" "wf_locks ls" "\<forall>m\<in>set ls. lock_before l m" using Cons.prems by (auto simp: wf_locks_Cons)
  note IH = Cons.IH [OF wf(2)]
  show ?case
  proof (cases ?hit)
    case True
    then have "\<exists>x. lk_start lock \<le> x \<and> x \<le> lk_end lock \<and> lk_start l \<le> x \<and> x \<le> lk_end l"
      using wf(1) assms(2) by (intro exI [of _ "max (lk_start l) (lk_start lock)"]) (auto simp: wf_lock_def)
    then show ?thesis using True by auto
  next
    case False
    have sep: "held ls (lk_owner l) x = None" if "lk_start l \<le> x" "x \<le> lk_end l" for x
      using wf(3) that by (intro held_None) (auto simp: lock_before_def)
    have eq: "held (l # ls) ow x = Some t \<longleftrightarrow> held ls ow x = Some t"
      if "ow \<noteq> lk_owner lock" "lk_start lock \<le> x" "x \<le> lk_end lock" "t = F_WRLCK \<or> lk_type lock = F_WRLCK" for ow x t
    proof (cases "lk_owner l = ow \<and> lk_start l \<le> x \<and> x \<le> lk_end l")
      case True
      then have "lk_type l \<noteq> t" using False that by auto
      then show ?thesis using True sep by auto
    qed auto
    have "(\<exists>ow x t. ow \<noteq> lk_owner lock \<and> lk_start lock \<le> x \<and> x \<le> lk_end lock \<and> held (l # ls) ow x = Some t
              \<and> (t = F_WRLCK \<or> lk_type lock = F_WRLCK))
        \<longleftrightarrow> (\<exists>ow x t. ow \<noteq> lk_owner lock \<and> lk_start lock \<le> x \<and> x \<le> lk_end lock \<and> held ls ow x = Some t
              \<and> (t = F_WRLCK \<or> lk_type lock = F_WRLCK))"
      using eq by blast
    moreover have "locks_conflict (l # ls) lock = locks_conflict ls lock" using False by auto
    ultimately show ?thesis using IH by simp
  qed
qed simp

text \<open>
  Converting between \<open>struct lock\<close> and \<open>struct flock\<close>: a lock with its bounds in order survives the
  trip there and back (but for its owner, which \<open>flock\<close> does not carry), and there is no signed
  overflow on that way.
\<close>

lemma flock_roundtrip:
  "wf_lock l \<Longrightarrow> flock_to_lock (lock_to_flock l) = Inr (l\<lparr>lk_owner := 0\<rparr>)"
  by (auto simp: flock_to_lock_def lock_to_flock_def wf_lock_def)

section \<open>Witnesses\<close>

definition sample_lock :: "lock_type \<Rightarrow> int \<Rightarrow> int \<Rightarrow> nat \<Rightarrow> lock" where
  "sample_lock t a b ow = \<lparr>lk_type = t, lk_start = a, lk_end = b, lk_pid = 1, lk_owner = ow\<rparr>"

lemma sample_locks_wf: "wf_locks [sample_lock F_WRLCK 0 99 1]" "wf_lock (sample_lock F_RDLCK 10 19 1)"
  "wf_lock (sample_lock F_RDLCK 10 19 2)"
  by (simp_all add: wf_locks_def wf_lock_def sample_lock_def OFFSET_MAX_def)

theorem locks_insert_spec_witness:
  "\<exists>ls'. locks_insert True [sample_lock F_WRLCK 0 99 1] (sample_lock F_RDLCK 10 19 1) = Inr (0, ls')
    \<and> held ls' 1 15 = Some F_RDLCK \<and> held ls' 1 20 = Some F_WRLCK"
  using locks_insert_spec [OF sample_locks_wf(1,2), of True] by (auto simp: sample_lock_def)

end
