(* ===== verification/Fuse_Buf.thy ===== *)
theory Fuse_Buf
  imports Libc
begin

text \<open>
  \<open>src/lib/buffer.c\<close>: copying between vectors of buffers, each a block of memory or a file
  descriptor. Memory is a map from addresses to bytes, so buffers may overlap. The system calls
  are parameters (\<open>kernel\<close>); a negative result of writing
  or splicing stands for \<open>-1\<close> with that \<open>errno\<close>, and \<open>Inl\<close> of reading likewise. The
  variant with \<open>HAVE_SPLICE\<close> is modelled.
\<close>

type_synonym byte = "8 word"

section \<open>Data\<close>

record fuse_buf =
  buf_size :: nat
  is_fd :: bool
  fd_seek :: bool
  fd_retry :: bool
  mem :: nat
  fd :: nat
  pos :: nat

record fuse_bufvec =
  bufs :: "fuse_buf list"
  idx :: nat
  off :: nat

record fuse_buf_copy_flags =
  no_splice :: bool
  force_splice :: bool
  splice_move :: bool
  splice_nonblock :: bool

text \<open>
  \<open>write\<close>/\<open>pwrite\<close>, \<open>read\<close>/\<open>pread\<close> and \<open>splice\<close> on the state \<open>'w\<close> of the operating system;
  a position is given when the call seeks.
\<close>

record 'w kernel =
  k_write :: "nat \<Rightarrow> nat option \<Rightarrow> byte list \<Rightarrow> 'w \<Rightarrow> int \<times> 'w"
  k_read :: "nat \<Rightarrow> nat option \<Rightarrow> nat \<Rightarrow> 'w \<Rightarrow> (nat + byte list) \<times> 'w"
  k_splice :: "nat \<Rightarrow> nat option \<Rightarrow> nat \<Rightarrow> nat option \<Rightarrow> nat \<Rightarrow> bool \<Rightarrow> bool \<Rightarrow> 'w \<Rightarrow> int \<times> 'w"

record 'w world =
  memory :: "nat \<Rightarrow> byte"
  os_state :: 'w

definition SIZE_MAX :: nat where "SIZE_MAX = 2 ^ 64 - 1"

definition load :: "(nat \<Rightarrow> byte) \<Rightarrow> nat \<Rightarrow> nat \<Rightarrow> byte list" where
  "load m a n = map m [a..<a + n]"

definition store :: "nat \<Rightarrow> byte list \<Rightarrow> (nat \<Rightarrow> byte) \<Rightarrow> (nat \<Rightarrow> byte)" where
  "store a bs m = (\<lambda>x. if a \<le> x \<and> x < a + length bs then bs ! (x - a) else m x)"

section \<open>Operations\<close>

fun buf_size_loop :: "fuse_buf list \<Rightarrow> nat \<Rightarrow> nat" where
  "buf_size_loop [] sz = sz"
| "buf_size_loop (b # bs) sz =
     buf_size_loop bs (if buf_size b = SIZE_MAX then SIZE_MAX else (sz + buf_size b) mod 2 ^ 64)"

definition fuse_buf_size :: "fuse_bufvec \<Rightarrow> nat" where
  "fuse_buf_size bufv = buf_size_loop (bufs bufv) 0"

definition min_size :: "nat \<Rightarrow> nat \<Rightarrow> nat" where
  "min_size s1 s2 = (if s1 < s2 then s1 else s2)"

text \<open>The offset of a system call, when the buffer asks for one.\<close>

definition seek_to :: "fuse_buf \<Rightarrow> nat \<Rightarrow> nat option" where
  "seek_to b o' = (if fd_seek b then Some (pos b + o') else None)"

text \<open>
  A count above what was asked for is no behaviour of \<open>write\<close> or \<open>read\<close>; the loops have no
  meaning after one (\<open>len\<close> would wrap around).
\<close>

function buf_write_loop :: "'w kernel \<Rightarrow> fuse_buf \<Rightarrow> nat \<Rightarrow> fuse_buf \<Rightarrow> nat \<Rightarrow> nat \<Rightarrow> nat \<Rightarrow> 'w world
    \<Rightarrow> (int \<times> 'w world) c" where
  "buf_write_loop K dst dst_off src src_off len copied w =
     (if len = 0 then Inr (int copied, w)
      else
        let (res, s) = k_write K (fd dst) (seek_to dst dst_off) (load (memory w) (mem src + src_off) len) (os_state w);
            w' = w\<lparr>os_state := s\<rparr>
        in if res < 0 then Inr (if copied = 0 then res else int copied, w')
           else if res = 0 then Inr (int copied, w')
           else if len < nat res then Inl Aborted
           else if \<not> fd_retry dst then Inr (int (copied + nat res), w')
           else buf_write_loop K dst (dst_off + nat res) src (src_off + nat res) (len - nat res) (copied + nat res) w')"
  by pat_completeness auto
termination by (relation "measure (\<lambda>(K, dst, dst_off, src, src_off, len, copied, w). len)") auto

definition fuse_buf_write :: "'w kernel \<Rightarrow> fuse_buf \<Rightarrow> nat \<Rightarrow> fuse_buf \<Rightarrow> nat \<Rightarrow> nat \<Rightarrow> 'w world
    \<Rightarrow> (int \<times> 'w world) c" where
  "fuse_buf_write K dst dst_off src src_off len w = buf_write_loop K dst dst_off src src_off len 0 w"

function buf_read_loop :: "'w kernel \<Rightarrow> fuse_buf \<Rightarrow> nat \<Rightarrow> fuse_buf \<Rightarrow> nat \<Rightarrow> nat \<Rightarrow> nat \<Rightarrow> 'w world
    \<Rightarrow> (int \<times> 'w world) c" where
  "buf_read_loop K dst dst_off src src_off len copied w =
     (if len = 0 then Inr (int copied, w)
      else case k_read K (fd src) (seek_to src src_off) len (os_state w) of
        (Inl err, s) \<Rightarrow> Inr (if copied = 0 then - int err else int copied, w\<lparr>os_state := s\<rparr>)
      | (Inr bs, s) \<Rightarrow>
          if bs = [] then Inr (int copied, w\<lparr>os_state := s\<rparr>)
          else if len < length bs then Inl Aborted
          else let w' = w\<lparr>memory := store (mem dst + dst_off) bs (memory w), os_state := s\<rparr>
            in if \<not> fd_retry src then Inr (int (copied + length bs), w')
               else buf_read_loop K dst (dst_off + length bs) src (src_off + length bs) (len - length bs)
                      (copied + length bs) w')"
  by pat_completeness auto
termination
  by (relation "measure (\<lambda>(K, dst, dst_off, src, src_off, len, copied, w). len)") (auto simp: Suc_le_eq)

definition fuse_buf_read :: "'w kernel \<Rightarrow> fuse_buf \<Rightarrow> nat \<Rightarrow> fuse_buf \<Rightarrow> nat \<Rightarrow> nat \<Rightarrow> 'w world
    \<Rightarrow> (int \<times> 'w world) c" where
  "fuse_buf_read K dst dst_off src src_off len w = buf_read_loop K dst dst_off src src_off len 0 w"

declare buf_write_loop.simps [simp del] buf_read_loop.simps [simp del]

text \<open>\<open>char buf[4096]\<close>, at the address \<open>tmp\<close> of the stack.\<close>

definition tmp_buf :: "nat \<Rightarrow> fuse_buf" where
  "tmp_buf tmp = \<lparr>buf_size = 4096, is_fd = False, fd_seek = False, fd_retry = False, mem = tmp, fd = 0, pos = 0\<rparr>"

function fd_to_fd_loop :: "'w kernel \<Rightarrow> nat \<Rightarrow> fuse_buf \<Rightarrow> nat \<Rightarrow> fuse_buf \<Rightarrow> nat \<Rightarrow> nat \<Rightarrow> nat \<Rightarrow> 'w world
    \<Rightarrow> (int \<times> 'w world) c" where
  "fd_to_fd_loop K tmp dst dst_off src src_off len copied w =
     (if len = 0 then Inr (int copied, w)
      else let this_len = min_size 4096 len in
        bindc (fuse_buf_read K (tmp_buf tmp) 0 src src_off this_len w) (\<lambda>(res, w).
        if res < 0 then Inr (if copied = 0 then res else int copied, w)
        else if res = 0 then Inr (int copied, w)
        else
        bindc (fuse_buf_write K dst dst_off (tmp_buf tmp) 0 (nat res) w) (\<lambda>(res, w).
        if res < 0 then Inr (if copied = 0 then res else int copied, w)
        else if res = 0 then Inr (int copied, w)
        else if nat res < this_len then Inr (int (copied + nat res), w)
        else fd_to_fd_loop K tmp dst (dst_off + nat res) src (src_off + nat res) (len - nat res) (copied + nat res) w)))"
  by pat_completeness auto
termination
  by (relation "measure (\<lambda>(K, tmp, dst, dst_off, src, src_off, len, copied, w). len)") auto

declare fd_to_fd_loop.simps [simp del]

definition fuse_buf_fd_to_fd :: "'w kernel \<Rightarrow> nat \<Rightarrow> fuse_buf \<Rightarrow> nat \<Rightarrow> fuse_buf \<Rightarrow> nat \<Rightarrow> nat \<Rightarrow> 'w world
    \<Rightarrow> (int \<times> 'w world) c" where
  "fuse_buf_fd_to_fd K tmp dst dst_off src src_off len w = fd_to_fd_loop K tmp dst dst_off src src_off len 0 w"

text \<open>\<open>splice\<close> moves \<open>*srcpos\<close> and \<open>*dstpos\<close> by what it copied.\<close>

function splice_loop :: "'w kernel \<Rightarrow> nat \<Rightarrow> fuse_buf \<Rightarrow> nat \<Rightarrow> fuse_buf \<Rightarrow> nat \<Rightarrow> nat \<Rightarrow> fuse_buf_copy_flags \<Rightarrow> nat
    \<Rightarrow> 'w world \<Rightarrow> (int \<times> 'w world) c" where
  "splice_loop K tmp dst dst_off src src_off len flags copied w =
     (if len = 0 then Inr (int copied, w)
      else
        let (res, s) = k_splice K (fd src) (seek_to src (src_off + copied)) (fd dst) (seek_to dst (dst_off + copied))
              len (splice_move flags) (splice_nonblock flags) (os_state w);
            w' = w\<lparr>os_state := s\<rparr>
        in if res < 0 then
             if copied \<noteq> 0 then Inr (int copied, w')
             else if res \<noteq> - EINVAL \<or> force_splice flags then Inr (res, w')
             else fuse_buf_fd_to_fd K tmp dst dst_off src src_off len w'
           else if res = 0 then Inr (int copied, w')
           else if len < nat res then Inl Aborted
           else if \<not> fd_retry src \<and> \<not> fd_retry dst then Inr (int (copied + nat res), w')
           else splice_loop K tmp dst dst_off src src_off (len - nat res) flags (copied + nat res) w')"
  by pat_completeness auto
termination
  by (relation "measure (\<lambda>(K, tmp, dst, dst_off, src, src_off, len, flags, copied, w). len)") auto

declare splice_loop.simps [simp del]

definition fuse_buf_splice :: "'w kernel \<Rightarrow> nat \<Rightarrow> fuse_buf \<Rightarrow> nat \<Rightarrow> fuse_buf \<Rightarrow> nat \<Rightarrow> nat \<Rightarrow> fuse_buf_copy_flags
    \<Rightarrow> 'w world \<Rightarrow> (int \<times> 'w world) c" where
  "fuse_buf_splice K tmp dst dst_off src src_off len flags w =
     splice_loop K tmp dst dst_off src src_off len flags 0 w"

text \<open>\<open>memcpy\<close> when the blocks are apart and \<open>memmove\<close> when they are not have the same effect.\<close>

definition fuse_buf_copy_one :: "'w kernel \<Rightarrow> nat \<Rightarrow> fuse_buf \<Rightarrow> nat \<Rightarrow> fuse_buf \<Rightarrow> nat \<Rightarrow> nat \<Rightarrow> fuse_buf_copy_flags
    \<Rightarrow> 'w world \<Rightarrow> (int \<times> 'w world) c" where
  "fuse_buf_copy_one K tmp dst dst_off src src_off len flags w =
     (if \<not> is_fd src \<and> \<not> is_fd dst then
        let dstmem = mem dst + dst_off; srcmem = mem src + src_off in
        if dstmem \<noteq> srcmem
        then Inr (int len, w\<lparr>memory := store dstmem (load (memory w) srcmem len) (memory w)\<rparr>)
        else Inr (int len, w)
      else if \<not> is_fd src then fuse_buf_write K dst dst_off src src_off len w
      else if \<not> is_fd dst then fuse_buf_read K dst dst_off src src_off len w
      else if no_splice flags then fuse_buf_fd_to_fd K tmp dst dst_off src src_off len w
      else fuse_buf_splice K tmp dst dst_off src src_off len flags w)"

definition fuse_bufvec_current :: "fuse_bufvec \<Rightarrow> fuse_buf option" where
  "fuse_bufvec_current bufv = (if idx bufv < length (bufs bufv) then Some (bufs bufv ! idx bufv) else None)"

text \<open>Whether there is more, and the vector moved on; a failed \<open>assert\<close> aborts.\<close>

definition fuse_bufvec_advance :: "fuse_bufvec \<Rightarrow> nat \<Rightarrow> (bool \<times> fuse_bufvec) c" where
  "fuse_bufvec_advance bufv len =
     (case fuse_bufvec_current bufv of
        None \<Rightarrow> Inl NullDeref
      | Some buf \<Rightarrow>
          let v = bufv\<lparr>off := off bufv + len\<rparr> in
          if buf_size buf < off v then Inl Aborted
          else if off v = buf_size buf then
            let v = v\<lparr>idx := idx v + 1\<rparr> in
            if idx v = length (bufs v) then Inr (False, v) else Inr (True, v\<lparr>off := 0\<rparr>)
          else Inr (True, v))"

text \<open>
  The loop of \<open>fuse_buf_copy\<close>. An offset beyond the size of the current buffer makes the
  remaining length wrap around, so that bytes outside the buffer are copied.
\<close>

lemma advance_more:
  "fuse_bufvec_advance v n = Inr (True, v') \<Longrightarrow> bufs v' = bufs v \<and> idx v < length (bufs v)
     \<and> off v + n \<le> buf_size (bufs v ! idx v)
     \<and> (if off v + n = buf_size (bufs v ! idx v) then idx v' = Suc (idx v) \<and> off v' = 0
        else idx v' = idx v \<and> off v' = off v + n)"
  by (auto simp: fuse_bufvec_advance_def fuse_bufvec_current_def Let_def split: if_splits)

text \<open>
  The loop of \<open>fuse_buf_copy\<close>: the result and the new contents. Where \<open>idx\<close> and \<open>off\<close> of the two
  vectors end up is not part of the result; only the code that splices a reply
  through a pipe or takes a request out of one goes on with the same vectors, and it is not modelled.
\<close>

function copy_loop :: "'w kernel \<Rightarrow> nat \<Rightarrow> fuse_bufvec \<Rightarrow> fuse_bufvec \<Rightarrow> fuse_buf_copy_flags \<Rightarrow> nat \<Rightarrow> 'w world
    \<Rightarrow> (int \<times> 'w world) c" where
  "copy_loop K tmp dstv srcv flags copied w =
     (case (fuse_bufvec_current srcv, fuse_bufvec_current dstv) of
        (Some src, Some dst) \<Rightarrow>
          if buf_size src < off srcv \<or> buf_size dst < off dstv then Inl PastEnd
          else
            let len = min_size (buf_size src - off srcv) (buf_size dst - off dstv) in
            bindc (fuse_buf_copy_one K tmp dst (off dstv) src (off srcv) len flags w) (\<lambda>(res, w).
            if res < 0 then Inr (if copied = 0 then res else int copied, w)
            else
              bindc (fuse_bufvec_advance srcv (nat res)) (\<lambda>(more_src, srcv).
              if \<not> more_src then Inr (int (copied + nat res), w)
              else
                bindc (fuse_bufvec_advance dstv (nat res)) (\<lambda>(more_dst, dstv).
                if \<not> more_dst \<or> nat res < len then Inr (int (copied + nat res), w)
                else copy_loop K tmp dstv srcv flags (copied + nat res) w)))
      | _ \<Rightarrow> Inr (int copied, w))"
  by pat_completeness auto
termination
proof (relation "measure (\<lambda>(K, tmp, dstv, srcv, flags, copied, w).
    (length (bufs dstv) - idx dstv) + (length (bufs srcv) - idx srcv))", goal_cases)
qed (auto dest!: advance_more simp: fuse_bufvec_current_def min_size_def split: if_splits)

declare copy_loop.simps [simp del]

text \<open>\<open>same\<close> says whether both arguments are the same vector.\<close>

definition fuse_buf_copy :: "'w kernel \<Rightarrow> nat \<Rightarrow> bool \<Rightarrow> fuse_bufvec \<Rightarrow> fuse_bufvec \<Rightarrow> fuse_buf_copy_flags \<Rightarrow> 'w world
    \<Rightarrow> (int \<times> 'w world) c" where
  "fuse_buf_copy K tmp same dstv srcv flags w =
     (if same then Inr (int (fuse_buf_size dstv), w) else copy_loop K tmp dstv srcv flags 0 w)"

section \<open>Copying between memory buffers\<close>

text \<open>The addresses still to be visited, and the effect of moving bytes from some to others.\<close>

definition addrs :: "fuse_buf \<Rightarrow> nat list" where
  "addrs b = [mem b..<mem b + buf_size b]"

definition remaining :: "fuse_bufvec \<Rightarrow> nat list" where
  "remaining v = drop (off v) (concat (map addrs (drop (idx v) (bufs v))))"

definition moved :: "nat list \<Rightarrow> nat list \<Rightarrow> (nat \<Rightarrow> byte) \<Rightarrow> (nat \<Rightarrow> byte)" where
  "moved ds ss m = (\<lambda>a. case map_of (zip ds ss) a of Some b \<Rightarrow> m b | None \<Rightarrow> m a)"

definition in_bounds :: "fuse_bufvec \<Rightarrow> bool" where
  "in_bounds v \<longleftrightarrow> idx v \<le> length (bufs v) \<and> (idx v < length (bufs v) \<longrightarrow> off v \<le> buf_size (bufs v ! idx v))"

definition in_memory :: "fuse_bufvec \<Rightarrow> bool" where
  "in_memory v \<longleftrightarrow> list_all (\<lambda>b. \<not> is_fd b) (bufs v) \<and> in_bounds v"

lemma length_addrs [simp]: "length (addrs b) = buf_size b"
  by (simp add: addrs_def)

lemma moved_Nil [simp]: "moved [] ss m = m" "moved ds [] m = m"
  by (simp_all add: moved_def)

lemma moved_append:
  assumes "length d1 = length s1" "distinct (d1 @ d2)" "set (d1 @ d2) \<inter> set (s1 @ s2) = {}"
  shows "moved (d1 @ d2) (s1 @ s2) m = moved d2 s2 (moved d1 s1 m)"
proof
  fix a
  have z: "zip (d1 @ d2) (s1 @ s2) = zip d1 s1 @ zip d2 s2" using assms(1) by simp
  show "moved (d1 @ d2) (s1 @ s2) m a = moved d2 s2 (moved d1 s1 m) a"
  proof (cases "map_of (zip d2 s2) a")
    case None
    then show ?thesis by (simp add: moved_def z map_add_def split: option.split)
  next
    case (Some b)
    then have ab: "a \<in> set d2" "b \<in> set s2"
      by (auto dest!: map_of_SomeD dest: set_zip_leftD set_zip_rightD)
    then have "map_of (zip d1 s1) b = None" using assms(3) by (auto simp: map_of_eq_None_iff dest: set_zip_leftD)
    moreover have "map_of (zip d1 s1) a = None"
      using ab assms(2) by (auto simp: map_of_eq_None_iff dest: set_zip_leftD)
    ultimately show ?thesis using Some by (simp add: moved_def z map_add_def)
  qed
qed

lemma store_load: "store d (load m s n) m = moved [d..<d + n] [s..<s + n] m"
proof
  fix a
  show "store d (load m s n) m a = moved [d..<d + n] [s..<s + n] m a"
  proof (cases "d \<le> a \<and> a < d + n")
    case True
    then have "[d..<d + n] ! (a - d) = a" by simp
    then have "(a, s + (a - d)) \<in> set (zip [d..<d + n] [s..<s + n])"
      using True by (auto simp: in_set_zip intro!: exI [of _ "a - d"])
    then have "map_of (zip [d..<d + n] [s..<s + n]) a = Some (s + (a - d))" by (intro map_of_is_SomeI) simp_all
    moreover have "load m s n ! (a - d) = m (s + (a - d))" using True by (simp add: load_def nth_map_upt less_diff_conv2)
    ultimately show ?thesis using True by (simp add: moved_def store_def load_def)
  next
    case False
    then have "map_of (zip [d..<d + n] [s..<s + n]) a = None"
      by (auto simp: map_of_eq_None_iff dest: set_zip_leftD)
    then have "moved [d..<d + n] [s..<s + n] m a = m a" by (simp only: moved_def option.case)
    then show ?thesis using False by (auto simp: store_def load_def)
  qed
qed

lemma remaining_current:
  assumes "idx v < length (bufs v)" "off v \<le> buf_size (bufs v ! idx v)"
  shows "remaining v = [mem (bufs v ! idx v) + off v..<mem (bufs v ! idx v) + buf_size (bufs v ! idx v)]
    @ concat (map addrs (drop (Suc (idx v)) (bufs v)))"
  using assms by (simp add: remaining_def addrs_def flip: Cons_nth_drop_Suc)

lemma advance_spec:
  assumes "in_bounds v" "idx v < length (bufs v)" "n \<le> buf_size (bufs v ! idx v) - off v"
  shows "\<exists>more v'. fuse_bufvec_advance v n = Inr (more, v') \<and>
    bufs v' = bufs v \<and>
    (if more then in_bounds v' \<and> remaining v' = drop n (remaining v) else length (remaining v) = n)"
proof -
  have o: "off v \<le> buf_size (bufs v ! idx v)" using assms by (simp add: in_bounds_def)
  note cur = remaining_current [OF assms(2) o]
  have c: "fuse_bufvec_current v = Some (bufs v ! idx v)" using assms(2) by (simp add: fuse_bufvec_current_def)
  show ?thesis
  proof (cases "off v + n = buf_size (bufs v ! idx v)")
    case False
    then have "fuse_bufvec_advance v n = Inr (True, v\<lparr>off := off v + n\<rparr>)"
      using assms(3) o by (simp add: fuse_bufvec_advance_def c Let_def le_diff_conv2 add.commute)
    moreover have "remaining (v\<lparr>off := off v + n\<rparr>) = drop n (remaining v)"
      by (simp add: remaining_def add.commute)
    moreover have "in_bounds (v\<lparr>off := off v + n\<rparr>)" using assms o by (simp add: in_bounds_def)
    ultimately show ?thesis by auto
  next
    case True
    show ?thesis
    proof (cases "Suc (idx v) = length (bufs v)")
      case last: True
      then have "fuse_bufvec_advance v n = Inr (False, v\<lparr>off := off v + n, idx := idx v + 1\<rparr>)"
        using True by (simp add: fuse_bufvec_advance_def c Let_def)
      moreover have "length (remaining v) = n" using cur last True by simp
      ultimately show ?thesis by auto
    next
      case False
      then have "fuse_bufvec_advance v n = Inr (True, v\<lparr>off := 0, idx := idx v + 1\<rparr>)"
        using True by (simp add: fuse_bufvec_advance_def c Let_def)
      moreover have "remaining (v\<lparr>off := 0, idx := idx v + 1\<rparr>) = drop n (remaining v)"
        using cur True by (simp add: remaining_def [of "v\<lparr>off := 0, idx := Suc (idx v)\<rparr>"])
      moreover have "in_bounds (v\<lparr>off := 0, idx := idx v + 1\<rparr>)" using assms by (simp add: in_bounds_def)
      ultimately show ?thesis by auto
    qed
  qed
qed

text \<open>One turn of the loop between memory buffers that do not overlap.\<close>

lemma copy_one_memory:
  assumes "\<not> is_fd src" "\<not> is_fd dst"
    and "set [mem dst + d..<mem dst + d + n] \<inter> set [mem src + s..<mem src + s + n] = {}"
  shows "fuse_buf_copy_one K tmp dst d src s n flags w =
    Inr (int n, w\<lparr>memory := moved [mem dst + d..<mem dst + d + n] [mem src + s..<mem src + s + n] (memory w)\<rparr>)"
proof (cases "mem dst + d = mem src + s")
  case True
  then have "n = 0" using assms(3) by (cases n) auto
  then show ?thesis using True assms(1,2) by (simp add: fuse_buf_copy_one_def Let_def)
next
  case False
  then show ?thesis using assms(1,2) by (simp add: fuse_buf_copy_one_def Let_def store_load)
qed

lemma remaining_Nil: "fuse_bufvec_current v = None \<Longrightarrow> remaining v = []"
  by (simp add: fuse_bufvec_current_def remaining_def split: if_splits)

lemma take_remaining:
  assumes "idx v < length (bufs v)" "off v \<le> buf_size (bufs v ! idx v)" "n \<le> buf_size (bufs v ! idx v) - off v"
  shows "take n (remaining v) = [mem (bufs v ! idx v) + off v..<mem (bufs v ! idx v) + off v + n]"
  using assms(2,3) by (simp add: remaining_current [OF assms(1,2)] take_upt)

lemma copy_loop_memory:
  assumes "in_memory dstv" "in_memory srcv"
    and "distinct (remaining dstv)" "set (remaining dstv) \<inter> set (remaining srcv) = {}"
  shows "copy_loop K tmp dstv srcv flags copied w =
    Inr (int (copied + min (length (remaining srcv)) (length (remaining dstv))),
         w\<lparr>memory := moved (remaining dstv) (remaining srcv) (memory w)\<rparr>)"
  using assms
proof (induction "(length (bufs dstv) - idx dstv) + (length (bufs srcv) - idx srcv)"
    arbitrary: dstv srcv copied w rule: less_induct)
  case less
  note prems = less.prems
  show ?case
  proof (cases "fuse_bufvec_current srcv = None \<or> fuse_bufvec_current dstv = None")
    case True
    then show ?thesis
      using remaining_Nil [of srcv] remaining_Nil [of dstv]
      by (subst copy_loop.simps) (auto split: option.splits)
  next
    case False
    then obtain src dst where cur: "fuse_bufvec_current srcv = Some src" "fuse_bufvec_current dstv = Some dst"
      by auto
    then have at: "idx srcv < length (bufs srcv)" "src = bufs srcv ! idx srcv"
      "idx dstv < length (bufs dstv)" "dst = bufs dstv ! idx dstv"
      by (auto simp: fuse_bufvec_current_def split: if_splits)
    have o: "off srcv \<le> buf_size src" "off dstv \<le> buf_size dst" "\<not> is_fd src" "\<not> is_fd dst"
      using prems(1,2) at by (auto simp: in_memory_def in_bounds_def list_all_length)
    define len where "len = min_size (buf_size src - off srcv) (buf_size dst - off dstv)"
    have len: "len \<le> buf_size src - off srcv" "len \<le> buf_size dst - off dstv" by (auto simp: len_def min_size_def)
    let ?ds = "take len (remaining dstv)" and ?ss = "take len (remaining srcv)"
    have tk: "?ds = [mem dst + off dstv..<mem dst + off dstv + len]" "?ss = [mem src + off srcv..<mem src + off srcv + len]"
      using at o len by (simp_all add: take_remaining)
    have disj: "set ?ds \<inter> set ?ss = {}" using prems(4) by (auto dest: in_set_takeD)
    note one = copy_one_memory [OF o(3,4) disj [unfolded tk], folded tk, of K tmp flags w]
    have ln: "length ?ds = len" "length ?ss = len" by (simp_all add: tk)
    then have le: "len \<le> length (remaining dstv)" "len \<le> length (remaining srcv)" by simp_all
    have mv: "moved (remaining dstv) (remaining srcv) (memory w)
        = moved (drop len (remaining dstv)) (drop len (remaining srcv)) (moved ?ds ?ss (memory w))"
      using moved_append [of ?ds ?ss "drop len (remaining dstv)" "drop len (remaining srcv)" "memory w"] prems(3,4) ln
      by (simp only: append_take_drop_id)
    obtain ms srcv' where s': "fuse_bufvec_advance srcv len = Inr (ms, srcv')"
      "bufs srcv' = bufs srcv" "if ms then in_bounds srcv' \<and> remaining srcv' = drop len (remaining srcv) else length (remaining srcv) = len"
      using advance_spec [OF prems(2) [unfolded in_memory_def, THEN conjunct2] at(1)] len(1) at(2) by blast
    obtain md dstv' where d': "fuse_bufvec_advance dstv len = Inr (md, dstv')"
      "bufs dstv' = bufs dstv" "if md then in_bounds dstv' \<and> remaining dstv' = drop len (remaining dstv) else length (remaining dstv) = len"
      using advance_spec [OF prems(1) [unfolded in_memory_def, THEN conjunct2] at(3)] len(2) at(4) by blast
    let ?w = "w\<lparr>memory := moved ?ds ?ss (memory w)\<rparr>"
    have step: "copy_loop K tmp dstv srcv flags copied w =
        (if \<not> ms \<or> \<not> md then Inr (int (copied + len), ?w)
         else copy_loop K tmp dstv' srcv' flags (copied + len) ?w)"
      using o s'(1) d'(1) one by (subst copy_loop.simps) (simp add: cur len_def [symmetric])
    show ?thesis
    proof (cases "ms \<and> md")
      case False
      then show ?thesis using step s'(3) d'(3) le mv by (auto split: if_splits)
    next
      case True
      have "copy_loop K tmp dstv' srcv' flags (copied + len) ?w =
          Inr (int (copied + len + min (length (remaining srcv')) (length (remaining dstv'))),
               ?w\<lparr>memory := moved (remaining dstv') (remaining srcv') (memory ?w)\<rparr>)"
      proof (rule less.hyps)
        show "length (bufs dstv') - idx dstv' + (length (bufs srcv') - idx srcv')
            < length (bufs dstv) - idx dstv + (length (bufs srcv) - idx srcv)"
          using True s'(1) d'(1) o at len_def
          by (auto dest!: advance_more simp: min_size_def split: if_splits)
        show "distinct (remaining dstv')" using True d'(3) prems(3) by simp
        show "set (remaining dstv') \<inter> set (remaining srcv') = {}"
          using True d'(3) s'(3) prems(4) by (auto dest: in_set_dropD)
      qed (use True s'(2,3) d'(2,3) prems(1,2) in \<open>simp_all add: in_memory_def\<close>)
      then show ?thesis using step True s'(3) d'(3) le mv by auto
    qed
  qed
qed

lemma map_of_zip_at:
  assumes "distinct ds" "i < length ds" "i < length ss"
  shows "map_of (zip ds ss) (ds ! i) = Some (ss ! i)"
proof (rule map_of_is_SomeI)
  show "distinct (map fst (zip ds ss))" using assms(1) by (simp add: map_fst_zip_take)
  show "(ds ! i, ss ! i) \<in> set (zip ds ss)" using assms(2,3) by (auto simp: in_set_zip)
qed

lemma moved_outside:
  assumes "a \<notin> set (take (length ss) ds)"
  shows "moved ds ss m a = m a"
proof -
  have "a \<notin> fst ` set (zip ds ss)"
    using assms arg_cong [OF map_fst_zip_take [of ds ss], of set] by (auto simp: min_def split: if_splits)
  then show ?thesis by (simp add: moved_def map_of_eq_None_iff [THEN iffD2])
qed

section \<open>Properties\<close>

text \<open>
  (C14) \<open>fuse_buf_copy\<close> between vectors of memory buffers, from wherever each stands: it copies as many
  bytes as both have left, byte for byte in order across the boundaries of the buffers, changes no
  other byte, and no assertion fails. (The bytes written are distinct and not among those read.)
\<close>

theorem fuse_buf_copy_memory:
  assumes "in_memory dstv" "in_memory srcv"
    and "distinct (remaining dstv)" "set (remaining dstv) \<inter> set (remaining srcv) = {}"
  shows "\<exists>n m. fuse_buf_copy K tmp False dstv srcv flags w = Inr (int n, w\<lparr>memory := m\<rparr>)
    \<and> n = min (length (remaining srcv)) (length (remaining dstv))
    \<and> map m (take n (remaining dstv)) = map (memory w) (take n (remaining srcv))
    \<and> (\<forall>a. a \<notin> set (take n (remaining dstv)) \<longrightarrow> m a = memory w a)"
proof -
  let ?n = "min (length (remaining srcv)) (length (remaining dstv))"
  have "moved (remaining dstv) (remaining srcv) (memory w) (remaining dstv ! i) = memory w (remaining srcv ! i)"
    if "i < ?n" for i
    using that assms(3) by (simp add: moved_def map_of_zip_at)
  then have "map (moved (remaining dstv) (remaining srcv) (memory w)) (take ?n (remaining dstv))
      = map (memory w) (take ?n (remaining srcv))"
    by (intro nth_equalityI) simp_all
  moreover have "moved (remaining dstv) (remaining srcv) (memory w) a = memory w a"
    if "a \<notin> set (take ?n (remaining dstv))" for a
    using that by (intro moved_outside) (auto simp: min_def split: if_splits)
  ultimately show ?thesis
    using copy_loop_memory [OF assms, of K tmp flags 0 w] by (auto simp: fuse_buf_copy_def)
qed

text \<open>
  The contract of the system calls: they do not transfer more than they were asked for.
\<close>

definition kernel_ok :: "'w kernel \<Rightarrow> bool" where
  "kernel_ok K \<longleftrightarrow> (\<forall>f p bs s. fst (k_write K f p bs s) \<le> int (length bs))
     \<and> (\<forall>f p n s bs. fst (k_read K f p n s) = Inr bs \<longrightarrow> length bs \<le> n)
     \<and> (\<forall>f p g q n mv nb s. fst (k_splice K f p g q n mv nb s) \<le> int n)"

definition transfers :: "nat \<Rightarrow> (int \<times> 'w world) c \<Rightarrow> bool" where
  "transfers n m \<longleftrightarrow> (\<exists>res w. m = Inr (res, w) \<and> res \<le> int n)"

lemma length_load [simp]: "length (load m a n) = n"
  by (simp add: load_def)

lemma transfers_Inr [simp]: "transfers n (Inr (res, w)) \<longleftrightarrow> res \<le> int n"
  by (simp add: transfers_def)

lemma transfers_bindc:
  "transfers n m \<Longrightarrow> (\<And>res w. res \<le> int n \<Longrightarrow> transfers k (f (res, w))) \<Longrightarrow> transfers k (bindc m f)"
  by (auto simp: transfers_def)

lemma buf_write_loop_transfers:
  assumes "kernel_ok K"
  shows "transfers (copied + len) (buf_write_loop K dst dst_off src src_off len copied w)"
proof (induction len arbitrary: dst_off src_off copied w rule: less_induct)
  case (less len)
  obtain res s where
    r: "k_write K (fd dst) (seek_to dst dst_off) (load (memory w) (mem src + src_off) len) (os_state w) = (res, s)"
    by fastforce
  have le: "res \<le> int len"
    using assms r unfolding kernel_ok_def by (metis fst_conv length_load)
  have IH: "transfers tt (buf_write_loop K dst (dst_off + n) src (src_off + n) (len - n) k w')"
    if "0 < n" "n \<le> len" "tt = copied + len" "k = copied + n" for n w' tt k
    using less.IH [of "len - n" k] that by simp
  show ?case using le by (subst buf_write_loop.simps) (auto simp: r Let_def intro!: IH)
qed

lemma buf_read_loop_transfers:
  assumes "kernel_ok K"
  shows "transfers (copied + len) (buf_read_loop K dst dst_off src src_off len copied w)"
proof (induction len arbitrary: dst_off src_off copied w rule: less_induct)
  case (less len)
  obtain res s where r: "k_read K (fd src) (seek_to src src_off) len (os_state w) = (res, s)"
    by fastforce
  have le: "length bs \<le> len" if "res = Inr bs" for bs
    using assms r that unfolding kernel_ok_def by (metis fst_conv)
  have IH: "transfers tt (buf_read_loop K dst (dst_off + n) src (src_off + n) (len - n) k w')"
    if "0 < n" "n \<le> len" "tt = copied + len" "k = copied + n" for n w' tt k
    using less.IH [of "len - n" k] that by simp
  show ?case using le by (subst buf_read_loop.simps) (auto simp: r Let_def split: sum.split intro!: IH)
qed

lemma fd_to_fd_loop_transfers:
  assumes "kernel_ok K"
  shows "transfers (copied + len) (fd_to_fd_loop K tmp dst dst_off src src_off len copied w)"
proof (induction len arbitrary: dst_off src_off copied w rule: less_induct)
  case (less len)
  have this_len: "min_size 4096 len \<le> len" by (simp add: min_size_def)
  have rd: "transfers (min_size 4096 len) (fuse_buf_read K (tmp_buf tmp) 0 src src_off (min_size 4096 len) w)"
    using buf_read_loop_transfers [OF assms, of 0] by (simp add: fuse_buf_read_def)
  have wr: "transfers n (fuse_buf_write K dst dst_off (tmp_buf tmp) 0 n w')" for n w'
    using buf_write_loop_transfers [OF assms, of 0] by (simp add: fuse_buf_write_def)
  have IH: "transfers tt (fd_to_fd_loop K tmp dst (dst_off + n) src (src_off + n) (len - n) k w')"
    if "0 < n" "n \<le> len" "tt = copied + len" "k = copied + n" for n w' tt k
    using less.IH [of "len - n" k] that by simp
  show ?case
    using this_len
    by (subst fd_to_fd_loop.simps)
      (auto simp: Let_def nat_le_iff intro!: transfers_bindc [OF rd] transfers_bindc [OF wr] IH)
qed

lemma splice_loop_transfers:
  assumes "kernel_ok K"
  shows "transfers (copied + len) (splice_loop K tmp dst dst_off src src_off len flags copied w)"
proof (induction len arbitrary: copied w rule: less_induct)
  case (less len)
  obtain res s where r: "k_splice K (fd src) (seek_to src (src_off + copied)) (fd dst) (seek_to dst (dst_off + copied))
      len (splice_move flags) (splice_nonblock flags) (os_state w) = (res, s)"
    by fastforce
  have le: "res \<le> int len" using assms r unfolding kernel_ok_def by (metis fst_conv)
  have IH: "transfers tt (splice_loop K tmp dst dst_off src src_off (len - n) flags k w')"
    if "0 < n" "n \<le> len" "tt = copied + len" "k = copied + n" for n w' tt k
    using less.IH [of "len - n" k] that by simp
  have fd: "transfers len (fuse_buf_fd_to_fd K tmp dst dst_off src src_off len w')" for w'
    using fd_to_fd_loop_transfers [OF assms, of 0 len] by (simp add: fuse_buf_fd_to_fd_def)
  show ?case using le fd by (subst splice_loop.simps) (auto simp: r Let_def intro!: IH)
qed

lemma copy_one_transfers:
  assumes "kernel_ok K"
  shows "transfers len (fuse_buf_copy_one K tmp dst dst_off src src_off len flags w)"
  using buf_write_loop_transfers [OF assms, of 0 len dst dst_off src src_off w]
    buf_read_loop_transfers [OF assms, of 0 len dst dst_off src src_off w]
    fd_to_fd_loop_transfers [OF assms, of 0 len tmp dst dst_off src src_off w]
    splice_loop_transfers [OF assms, of 0 len tmp dst dst_off src src_off flags w]
  by (simp add: fuse_buf_copy_one_def Let_def fuse_buf_write_def fuse_buf_read_def fuse_buf_fd_to_fd_def fuse_buf_splice_def)

lemma copy_loop_transfers:
  assumes "kernel_ok K" "in_bounds dstv" "in_bounds srcv"
  shows "transfers (copied + min (length (remaining srcv)) (length (remaining dstv)))
    (copy_loop K tmp dstv srcv flags copied w)"
  using assms(2,3)
proof (induction "(length (bufs dstv) - idx dstv) + (length (bufs srcv) - idx srcv)"
    arbitrary: dstv srcv copied w rule: less_induct)
  case less
  note prems = less.prems
  show ?case
  proof (cases "fuse_bufvec_current srcv = None \<or> fuse_bufvec_current dstv = None")
    case True
    then show ?thesis
      using remaining_Nil [of srcv] remaining_Nil [of dstv]
      by (subst copy_loop.simps) (auto split: option.splits)
  next
    case False
    then obtain src dst where cur: "fuse_bufvec_current srcv = Some src" "fuse_bufvec_current dstv = Some dst"
      by auto
    then have at: "idx srcv < length (bufs srcv)" "src = bufs srcv ! idx srcv"
      "idx dstv < length (bufs dstv)" "dst = bufs dstv ! idx dstv"
      by (auto simp: fuse_bufvec_current_def split: if_splits)
    have o: "off srcv \<le> buf_size src" "off dstv \<le> buf_size dst"
      using prems at by (auto simp: in_bounds_def)
    define len where "len = min_size (buf_size src - off srcv) (buf_size dst - off dstv)"
    have len: "len \<le> buf_size src - off srcv" "len \<le> buf_size dst - off dstv" by (auto simp: len_def min_size_def)
    have le: "len \<le> length (remaining srcv)" "len \<le> length (remaining dstv)"
      using len at o remaining_current [of srcv] remaining_current [of dstv] by simp_all
    let ?total = "copied + min (length (remaining srcv)) (length (remaining dstv))"
    have rest: "transfers ?total
       (bindc (fuse_bufvec_advance srcv n) (\<lambda>(more_src, srcv).
          if \<not> more_src then Inr (int (copied + n), w')
          else bindc (fuse_bufvec_advance dstv n) (\<lambda>(more_dst, dstv).
            if \<not> more_dst \<or> n < len then Inr (int (copied + n), w')
            else copy_loop K tmp dstv srcv flags (copied + n) w')))" if n: "n \<le> len" for n w'
    proof -
      obtain ms srcv' where s': "fuse_bufvec_advance srcv n = Inr (ms, srcv')" "bufs srcv' = bufs srcv"
        "if ms then in_bounds srcv' \<and> remaining srcv' = drop n (remaining srcv) else length (remaining srcv) = n"
        using advance_spec [OF prems(2) at(1)] len(1) at(2) n by (meson order_trans)
      obtain md dstv' where d': "fuse_bufvec_advance dstv n = Inr (md, dstv')" "bufs dstv' = bufs dstv"
        "if md then in_bounds dstv' \<and> remaining dstv' = drop n (remaining dstv) else length (remaining dstv) = n"
        using advance_spec [OF prems(1) at(3)] len(2) at(4) n by (meson order_trans)
      have "transfers (copied + n + min (length (remaining srcv')) (length (remaining dstv')))
          (copy_loop K tmp dstv' srcv' flags (copied + n) w')" if go: "ms" "md" "len \<le> n"
      proof (rule less.hyps)
        show "length (bufs dstv') - idx dstv' + (length (bufs srcv') - idx srcv')
            < length (bufs dstv) - idx dstv + (length (bufs srcv) - idx srcv)"
          using go s'(1) d'(1) o at len_def n
          by (auto dest!: advance_more simp: min_size_def split: if_splits)
      qed (use go s'(3) d'(3) in simp_all)
      then show ?thesis using s' d' n le by (auto simp: min_def split: if_splits)
    qed
    have "transfers len (fuse_buf_copy_one K tmp dst (off dstv) src (off srcv) len flags w)"
      by (rule copy_one_transfers [OF assms(1)])
    then obtain res w' where one: "fuse_buf_copy_one K tmp dst (off dstv) src (off srcv) len flags w = Inr (res, w')"
      "res \<le> int len" by (auto simp: transfers_def)
    show ?thesis
    proof (cases "res < 0")
      case True
      then show ?thesis using o one(1) by (subst copy_loop.simps) (simp add: cur Let_def len_def [symmetric])
    next
      case False
      then have "nat res \<le> len" using one(2) by simp
      then show ?thesis using False o one(1) rest [of "nat res" w']
        by (subst copy_loop.simps) (simp add: cur Let_def len_def [symmetric])
    qed
  qed
qed

text \<open>
  (C15) \<open>fuse_buf_copy\<close> between any buffers, memory or file descriptors, with every way of partial
  transfers, end of file and errors that the system calls may have: no assertion fails, the loops end,
  and the count it reports does not exceed what either side has left.
\<close>

theorem fuse_buf_copy_safe:
  assumes "kernel_ok K" "in_bounds dstv" "in_bounds srcv"
  shows "\<exists>res w'. fuse_buf_copy K tmp False dstv srcv flags w = Inr (res, w')
    \<and> res \<le> int (length (remaining srcv)) \<and> res \<le> int (length (remaining dstv))"
  using copy_loop_transfers [OF assms, of 0 tmp flags w] by (auto simp: fuse_buf_copy_def transfers_def)

section \<open>Witnesses\<close>

definition sample_buf :: "nat \<Rightarrow> nat \<Rightarrow> fuse_buf" where
  "sample_buf a n = \<lparr>buf_size = n, is_fd = False, fd_seek = False, fd_retry = False, mem = a, fd = 0, pos = 0\<rparr>"

definition sample_kernel :: "unit kernel" where
  "sample_kernel = \<lparr>k_write = (\<lambda>_ _ bs s. (int (length bs), s)), k_read = (\<lambda>_ _ n s. (Inr (replicate n 0), s)),
     k_splice = (\<lambda>_ _ _ _ n _ _ s. (int n, s))\<rparr>"

definition sample_flags :: fuse_buf_copy_flags where
  "sample_flags = \<lparr>no_splice = False, force_splice = False, splice_move = False, splice_nonblock = False\<rparr>"

definition sample_world :: "unit world" where
  "sample_world = \<lparr>memory = word_of_nat, os_state = ()\<rparr>"

theorem fuse_buf_copy_memory_witness:
  "\<exists>m. fuse_buf_copy sample_kernel 0 False \<lparr>bufs = [sample_buf 100 2, sample_buf 200 3], idx = 0, off = 0\<rparr>
         \<lparr>bufs = [sample_buf 10 4], idx = 0, off = 1\<rparr> sample_flags sample_world
       = Inr (3, sample_world\<lparr>memory := m\<rparr>) \<and> m 200 = 13"
  using fuse_buf_copy_memory [of "\<lparr>bufs = [sample_buf 100 2, sample_buf 200 3], idx = 0, off = 0\<rparr>"
      "\<lparr>bufs = [sample_buf 10 4], idx = 0, off = 1\<rparr>" sample_kernel 0 sample_flags sample_world]
  by (auto simp: in_memory_def in_bounds_def remaining_def addrs_def sample_buf_def sample_world_def upt_rec numeral_eq_Suc)

theorem fuse_buf_copy_safe_witness:
  "\<exists>res w'. fuse_buf_copy sample_kernel 0 False \<lparr>bufs = [(sample_buf 100 2)\<lparr>is_fd := True\<rparr>], idx = 0, off = 0\<rparr>
         \<lparr>bufs = [sample_buf 10 4], idx = 0, off = 1\<rparr> sample_flags sample_world = Inr (res, w') \<and> res \<le> 2"
  using fuse_buf_copy_safe [of sample_kernel "\<lparr>bufs = [(sample_buf 100 2)\<lparr>is_fd := True\<rparr>], idx = 0, off = 0\<rparr>"
      "\<lparr>bufs = [sample_buf 10 4], idx = 0, off = 1\<rparr>" 0 sample_flags sample_world]
  by (auto simp: kernel_ok_def sample_kernel_def in_bounds_def remaining_def addrs_def sample_buf_def)

end
