(* ===== verification/Fuse_Opt.thy ===== *)
theory Fuse_Opt
  imports Libc
begin

text \<open>
  \<open>src/lib/fuse_opt.c\<close>: the option parser. \<open>struct fuse_args\<close> keeps its arguments as a list;
  the arguments that \<open>ctx->argctr\<close> has not reached yet are the list \<open>rest\<close>. The structure that
  options are stored into maps offsets to values; \<open>sscanf\<close> with the format of a template and the
  processing function of the caller are parameters. The outcomes of the allocations to come are
  the list \<open>allocs\<close> (beyond its end they succeed). Messages on \<open>stderr\<close> are left out.
\<close>

section \<open>Data\<close>

record fuse_args =
  argv :: "string list option"
  allocated :: bool

datatype optval = OptInt int | OptStr string

type_synonym optdata = "nat \<Rightarrow> optval option"

text \<open>\<open>offset = None\<close> is \<open>-1U\<close>: the option is passed to the processing function.\<close>

record fuse_opt =
  templ :: string
  offset :: "nat option"
  opt_value :: int

type_synonym opt_proc = "optdata \<Rightarrow> string \<Rightarrow> int \<Rightarrow> fuse_args \<Rightarrow> int \<times> optdata \<times> fuse_args"
type_synonym scanf = "string \<Rightarrow> string \<Rightarrow> optval option"

record fuse_opt_context =
  data :: optdata
  opt :: "fuse_opt list"
  proc :: "opt_proc option"
  rest :: "string list"
  outargs :: fuse_args
  opts :: "string option"
  nonopt :: nat
  allocs :: "bool list"

type_synonym res = "(int \<times> fuse_opt_context) c"

abbreviation (input) FUSE_OPT_KEY_OPT :: int where "FUSE_OPT_KEY_OPT \<equiv> -1"
abbreviation (input) FUSE_OPT_KEY_NONOPT :: int where "FUSE_OPT_KEY_NONOPT \<equiv> -2"
abbreviation (input) FUSE_OPT_KEY_KEEP :: int where "FUSE_OPT_KEY_KEEP \<equiv> -3"
abbreviation (input) FUSE_OPT_KEY_DISCARD :: int where "FUSE_OPT_KEY_DISCARD \<equiv> -4"

definition arg_list :: "fuse_args \<Rightarrow> string list" where
  "arg_list args = (case argv args of None \<Rightarrow> [] | Some as \<Rightarrow> as)"

section \<open>Argument vectors\<close>

definition alloc :: "bool list \<Rightarrow> bool \<times> bool list" where
  "alloc bs = (case bs of [] \<Rightarrow> (True, []) | b # bs' \<Rightarrow> (b, bs'))"

definition fuse_opt_free_args :: "fuse_args \<Rightarrow> fuse_args" where
  "fuse_opt_free_args args = \<lparr>argv = None, allocated = False\<rparr>"

text \<open>The result, the vector and the allocations left.\<close>

definition fuse_opt_add_arg :: "fuse_args \<Rightarrow> string \<Rightarrow> bool list \<Rightarrow> (int \<times> fuse_args \<times> bool list) c" where
  "fuse_opt_add_arg args arg bs =
     (if argv args \<noteq> None \<and> \<not> allocated args then Inl Aborted
      else let (dup, bs) = alloc bs in
        if \<not> dup then Inr (-1, args, bs)
        else let (re, bs) = alloc bs in
          if \<not> re then Inr (-1, args, bs)
          else Inr (0, \<lparr>argv = Some (arg_list args @ [arg]), allocated = True\<rparr>, bs))"

definition fuse_opt_insert_arg :: "fuse_args \<Rightarrow> nat \<Rightarrow> string \<Rightarrow> bool list \<Rightarrow> (int \<times> fuse_args \<times> bool list) c" where
  "fuse_opt_insert_arg args pos arg bs =
     (if length (arg_list args) < pos then Inl Aborted
      else bindc (fuse_opt_add_arg args arg bs) (\<lambda>(res, args, bs).
        if res = -1 then Inr (-1, args, bs)
        else
          let argc = length (arg_list args) in
          if pos \<noteq> argc - 1 then
            let newarg = arg_list args ! (argc - 1);
                as = arg_list args;
                as = take (pos + 1) as @ take (argc - pos - 1) (drop pos as)
            in Inr (0, args\<lparr>argv := Some (as[pos := newarg])\<rparr>, bs)
          else Inr (0, args, bs)))"

definition next_arg :: "fuse_opt_context \<Rightarrow> int \<times> string \<times> fuse_opt_context" where
  "next_arg ctx = (case rest ctx of [] \<Rightarrow> (-1, [], ctx) | a # as \<Rightarrow> (0, a, ctx\<lparr>rest := as\<rparr>))"

definition add_arg :: "fuse_opt_context \<Rightarrow> string \<Rightarrow> res" where
  "add_arg ctx arg =
     bindc (fuse_opt_add_arg (outargs ctx) arg (allocs ctx)) (\<lambda>(res, args, bs).
       Inr (res, ctx\<lparr>outargs := args, allocs := bs\<rparr>))"

text \<open>The loop that appends \<open>opt\<close>, with a backslash before commas and backslashes.\<close>

fun escape :: "bool \<Rightarrow> string \<Rightarrow> string" where
  "escape esc [] = []"
| "escape esc (ch # s) =
     (if esc \<and> (ch = CHR '','' \<or> ch = CHR 0x5C) then CHR 0x5C # ch # escape esc s else ch # escape esc s)"

definition add_opt_common :: "string option \<Rightarrow> string \<Rightarrow> bool \<Rightarrow> bool list \<Rightarrow> int \<times> string option \<times> bool list" where
  "add_opt_common os arg esc bs =
     (let old = (case os of None \<Rightarrow> [] | Some s \<Rightarrow> s); (ok, bs) = alloc bs
      in if \<not> ok then (-1, os, bs)
         else (0, Some ((if old \<noteq> [] then old @ '','' else []) @ escape esc arg), bs))"

definition fuse_opt_add_opt :: "string option \<Rightarrow> string \<Rightarrow> bool list \<Rightarrow> int \<times> string option \<times> bool list" where
  "fuse_opt_add_opt os arg bs = add_opt_common os arg False bs"

definition fuse_opt_add_opt_escaped :: "string option \<Rightarrow> string \<Rightarrow> bool list \<Rightarrow> int \<times> string option \<times> bool list" where
  "fuse_opt_add_opt_escaped os arg bs = add_opt_common os arg True bs"

definition add_opt :: "fuse_opt_context \<Rightarrow> string \<Rightarrow> res" where
  "add_opt ctx arg =
     (let (res, os, bs) = add_opt_common (opts ctx) arg True (allocs ctx)
      in Inr (res, ctx\<lparr>opts := os, allocs := bs\<rparr>))"

definition call_proc :: "fuse_opt_context \<Rightarrow> string \<Rightarrow> int \<Rightarrow> bool \<Rightarrow> res" where
  "call_proc ctx arg key is_o =
     (if key = FUSE_OPT_KEY_DISCARD then Inr (0, ctx)
      else
        let keep = (\<lambda>ctx. if is_o then add_opt ctx arg else add_arg ctx arg) in
        case proc ctx of
          Some p \<Rightarrow>
            if key \<noteq> FUSE_OPT_KEY_KEEP then
              let (res, d, out) = p (data ctx) arg key (outargs ctx);
                  ctx = ctx\<lparr>data := d, outargs := out\<rparr>
              in if res = -1 \<or> res = 0 then Inr (res, ctx) else keep ctx
            else keep ctx
        | None \<Rightarrow> keep ctx)"

section \<open>Templates\<close>

fun strchr :: "string \<Rightarrow> char \<Rightarrow> nat option" where
  "strchr [] ch = None"
| "strchr (x # s) ch = (if x = ch then Some 0 else map_option Suc (strchr s ch))"

text \<open>\<open>*sepp\<close> when the template matches.\<close>

definition match_template :: "string \<Rightarrow> string \<Rightarrow> nat option" where
  "match_template t arg =
     (let sep = (case strchr t (CHR ''='') of Some i \<Rightarrow> Some i | None \<Rightarrow> strchr t (CHR '' ''));
          plain = (if t = arg then Some 0 else None)
      in case sep of None \<Rightarrow> plain
         | Some i \<Rightarrow>
             if Suc i = length t \<or> t ! Suc i = CHR ''%'' then
               let tlen = (if t ! i = CHR ''='' then i + 1 else i) in
               if tlen \<le> length arg \<and> take tlen arg = take tlen t then Some i else plain
             else plain)"

text \<open>The option, \<open>*sepp\<close>, and the table after it.\<close>

fun find_opt :: "fuse_opt list \<Rightarrow> string \<Rightarrow> (fuse_opt \<times> nat \<times> fuse_opt list) option" where
  "find_opt [] arg = None"
| "find_opt (op # ops) arg =
     (case match_template (templ op) arg of Some sep \<Rightarrow> Some (op, sep, ops) | None \<Rightarrow> find_opt ops arg)"

definition fuse_opt_match :: "fuse_opt list \<Rightarrow> string \<Rightarrow> bool" where
  "fuse_opt_match ops arg = (find_opt ops arg \<noteq> None)"

definition process_opt_param :: "scanf \<Rightarrow> fuse_opt_context \<Rightarrow> nat \<Rightarrow> string \<Rightarrow> string \<Rightarrow> res" where
  "process_opt_param sscanf ctx var format param =
     (if format = [] \<or> hd format \<noteq> CHR ''%'' then Inl Aborted
      else if tl format \<noteq> [] \<and> hd (tl format) = CHR ''s'' then
        let (ok, bs) = alloc (allocs ctx); ctx = ctx\<lparr>allocs := bs\<rparr> in
        if \<not> ok then Inr (-1, ctx)
        else Inr (0, ctx\<lparr>data := (data ctx)(var \<mapsto> OptStr param)\<rparr>)
      else case sscanf format param of
        None \<Rightarrow> Inr (-1, ctx)
      | Some v \<Rightarrow> Inr (0, ctx\<lparr>data := (data ctx)(var \<mapsto> v)\<rparr>))"

definition process_opt :: "scanf \<Rightarrow> fuse_opt_context \<Rightarrow> fuse_opt \<Rightarrow> nat \<Rightarrow> string \<Rightarrow> bool \<Rightarrow> res" where
  "process_opt sscanf ctx op sep arg is_o =
     (case offset op of
        None \<Rightarrow> bindc (call_proc ctx arg (opt_value op) is_o) (\<lambda>(res, ctx). Inr (if res = -1 then -1 else 0, ctx))
      | Some var \<Rightarrow>
          if sep \<noteq> 0 \<and> sep + 1 < length (templ op) then
            bindc (str_from arg (if templ op ! sep = CHR ''='' then sep + 1 else sep)) (\<lambda>param.
              process_opt_param sscanf ctx var (drop (sep + 1) (templ op)) param)
          else Inr (0, ctx\<lparr>data := (data ctx)(var \<mapsto> OptInt (opt_value op))\<rparr>))"

definition process_opt_sep_arg :: "scanf \<Rightarrow> fuse_opt_context \<Rightarrow> fuse_opt \<Rightarrow> nat \<Rightarrow> string \<Rightarrow> bool \<Rightarrow> res" where
  "process_opt_sep_arg sscanf ctx op sep arg is_o =
     (let (res, param, ctx) = next_arg ctx in
      if res = -1 then Inr (-1, ctx)
      else let (ok, bs) = alloc (allocs ctx); ctx = ctx\<lparr>allocs := bs\<rparr> in
        if \<not> ok then Inr (-1, ctx)
        else process_opt sscanf ctx op sep (take sep arg @ param) is_o)"

lemma find_opt_shorter: "find_opt ops arg = Some (op, sep, ops') \<Longrightarrow> length ops' < length ops"
  by (induction ops) (auto split: option.splits)

text \<open>The loop of \<open>process_gopt\<close> over the table.\<close>

function gopt_loop :: "scanf \<Rightarrow> fuse_opt list \<Rightarrow> string \<Rightarrow> bool \<Rightarrow> fuse_opt_context \<Rightarrow> res" where
  "gopt_loop sscanf ops arg is_o ctx =
     (case find_opt ops arg of
        None \<Rightarrow> Inr (0, ctx)
      | Some (op, sep, ops') \<Rightarrow>
          bindc (if sep \<noteq> 0 \<and> templ op ! sep = CHR '' '' \<and> length arg = sep
                 then process_opt_sep_arg sscanf ctx op sep arg is_o
                 else process_opt sscanf ctx op sep arg is_o)
            (\<lambda>(res, ctx). if res = -1 then Inr (-1, ctx) else gopt_loop sscanf ops' arg is_o ctx))"
  by pat_completeness auto
termination
  by (relation "measure (\<lambda>(sscanf, ops, arg, is_o, ctx). length ops)") (auto simp: find_opt_shorter)

declare gopt_loop.simps [simp del]

definition process_gopt :: "scanf \<Rightarrow> fuse_opt_context \<Rightarrow> string \<Rightarrow> bool \<Rightarrow> res" where
  "process_gopt sscanf ctx arg is_o =
     (if find_opt (opt ctx) arg \<noteq> None then gopt_loop sscanf (opt ctx) arg is_o ctx
      else call_proc ctx arg FUSE_OPT_KEY_OPT is_o)"

section \<open>Option groups\<close>

definition is_octal :: "char \<Rightarrow> char \<Rightarrow> bool" where
  "is_octal hi ch \<longleftrightarrow> 48 \<le> (of_char ch :: nat) \<and> (of_char ch :: nat) \<le> of_char hi"

definition octal_char :: "char \<Rightarrow> char \<Rightarrow> char \<Rightarrow> char" where
  "octal_char a b d = char_of ((of_char a - 48) * 64 + (of_char b - 48) * 8 + (of_char d - 48) :: nat)"

text \<open>
  The loop of \<open>process_real_option_group\<close> from \<open>s\<close>, with the bytes of the current option
  decoded so far: each option is processed, up to its first NUL, when its comma or the end is reached.
\<close>

function group_loop :: "(fuse_opt_context \<Rightarrow> string \<Rightarrow> res) \<Rightarrow> fuse_opt_context \<Rightarrow> string \<Rightarrow> string \<Rightarrow> res" where
  "group_loop gopt ctx d [] =
     bindc (gopt ctx (takeWhile (\<lambda>x. x \<noteq> NUL) d)) (\<lambda>(res, ctx). Inr (if res = -1 then -1 else 0, ctx))"
| "group_loop gopt ctx d (ch # s) =
     (if ch = CHR '','' then
        bindc (gopt ctx (takeWhile (\<lambda>x. x \<noteq> NUL) d)) (\<lambda>(res, ctx). if res = -1 then Inr (-1, ctx) else group_loop gopt ctx [] s)
      else if ch = CHR 0x5C \<and> s \<noteq> [] then
        (case s of
           a # b # e # s' \<Rightarrow>
             if is_octal (CHR ''3'') a \<and> is_octal (CHR ''7'') b \<and> is_octal (CHR ''7'') e
             then group_loop gopt ctx (d @ [octal_char a b e]) s'
             else group_loop gopt ctx (d @ [a]) (b # e # s')
         | a # s' \<Rightarrow> group_loop gopt ctx (d @ [a]) s'
         | [] \<Rightarrow> Inr (0, ctx))
      else group_loop gopt ctx (d @ [ch]) s)"
  by pat_completeness auto
termination by (relation "measure (\<lambda>(gopt, ctx, d, s). length s)") auto

declare group_loop.simps(2) [simp del]

definition process_option_group :: "scanf \<Rightarrow> fuse_opt_context \<Rightarrow> string \<Rightarrow> res" where
  "process_option_group sscanf ctx os =
     (let (ok, bs) = alloc (allocs ctx); ctx = ctx\<lparr>allocs := bs\<rparr> in
      if \<not> ok then Inr (-1, ctx)
      else group_loop (\<lambda>ctx arg. process_gopt sscanf ctx arg True) ctx [] os)"

section \<open>The parser\<close>

definition process_one :: "scanf \<Rightarrow> fuse_opt_context \<Rightarrow> string \<Rightarrow> res" where
  "process_one sscanf ctx arg =
     (if nonopt ctx \<noteq> 0 \<or> arg = [] \<or> hd arg \<noteq> CHR ''-'' then call_proc ctx arg FUSE_OPT_KEY_NONOPT False
      else if 2 \<le> length arg \<and> arg ! 1 = CHR ''o'' then
        if 2 < length arg then process_option_group sscanf ctx (drop 2 arg)
        else
          let (res, a, ctx) = next_arg ctx in
          if res = -1 then Inr (-1, ctx) else process_option_group sscanf ctx a
      else if arg = ''--'' then
        bindc (add_arg ctx arg) (\<lambda>(res, ctx).
          if res = -1 then Inr (-1, ctx)
          else Inr (0, ctx\<lparr>nonopt := length (arg_list (outargs ctx))\<rparr>))
      else process_gopt sscanf ctx arg False)"

text \<open>No step puts an argument back.\<close>

definition consumes :: "fuse_opt_context \<Rightarrow> res \<Rightarrow> bool" where
  "consumes ctx m \<longleftrightarrow> okc (\<lambda>(_, ctx'). length (rest ctx') \<le> length (rest ctx)) m"

lemma consumes_Inr [simp]: "consumes ctx (Inr (r, ctx')) \<longleftrightarrow> length (rest ctx') \<le> length (rest ctx)"
  by (simp add: consumes_def)

lemma consumes_Inl [simp]: "consumes ctx (Inl e)"
  by (simp add: consumes_def)

lemma consumes_bindc:
  assumes "consumes ctx m" "\<And>r ctx'. length (rest ctx') \<le> length (rest ctx) \<Longrightarrow> consumes ctx (f (r, ctx'))"
  shows "consumes ctx (bindc m f)"
  using assms by (cases m) (auto simp: consumes_def okc_iff)

lemma consumes_trans: "consumes ctx' m \<Longrightarrow> length (rest ctx') \<le> length (rest ctx) \<Longrightarrow> consumes ctx m"
  by (fastforce simp: consumes_def okc_iff)

lemma consumes_add_arg: "consumes ctx (add_arg ctx arg)"
  by (auto simp: consumes_def add_arg_def okc_iff bindc_eq_Inr)

lemma consumes_add_opt: "consumes ctx (add_opt ctx arg)"
  by (simp add: consumes_def add_opt_def Let_def split_beta)

lemma consumes_call_proc: "consumes ctx (call_proc ctx arg key is_o)"
proof -
  have "consumes ctx (if is_o then add_opt c' arg else add_arg c' arg)" if "rest c' = rest ctx" for c'
    using that by (auto intro: consumes_trans [OF consumes_add_opt] consumes_trans [OF consumes_add_arg])
  then show ?thesis by (auto simp: call_proc_def Let_def split: option.splits prod.splits)
qed

lemma consumes_process_opt: "consumes ctx (process_opt sscanf ctx op sep arg is_o)"
  by (auto simp: process_opt_def process_opt_param_def Let_def str_from_def split: option.split prod.split
      intro!: consumes_bindc [OF consumes_call_proc])

lemma consumes_process_opt_sep_arg: "consumes ctx (process_opt_sep_arg sscanf ctx op sep arg is_o)"
  by (auto simp: process_opt_sep_arg_def next_arg_def Let_def split: list.split prod.split
      intro!: consumes_trans [OF consumes_process_opt])

lemma consumes_gopt_loop: "consumes ctx (gopt_loop sscanf ops arg is_o ctx)"
proof (induction ops arbitrary: ctx rule: length_induct)
  case (1 ops)
  have IH: "consumes ctx (gopt_loop sscanf ops' arg is_o c')"
    if "length ops' < length ops" "length (rest c') \<le> length (rest ctx)" for ops' c'
    using 1 that by (blast intro: consumes_trans)
  show ?case
    by (subst gopt_loop.simps)
      (auto split: option.split dest!: find_opt_shorter intro!: IH consumes_bindc consumes_process_opt
        consumes_process_opt_sep_arg)
qed

lemma consumes_process_gopt: "consumes ctx (process_gopt sscanf ctx arg is_o)"
  by (simp add: process_gopt_def consumes_gopt_loop consumes_call_proc)

lemma consumes_group_loop:
  assumes "\<And>ctx arg. consumes ctx (gopt ctx arg)"
  shows "consumes ctx (group_loop gopt ctx d s)"
proof (induction s arbitrary: ctx d rule: length_induct)
  case (1 s)
  have IH: "consumes ctx (group_loop gopt c' d' s')"
    if "length s' < length s" "length (rest c') \<le> length (rest ctx)" for s' c' d'
    using 1 that by (blast intro: consumes_trans)
  show ?case
  proof (cases s)
    case Nil
    then show ?thesis by (auto intro!: consumes_bindc assms)
  next
    case (Cons ch t)
    have "consumes ctx (bindc (gopt ctx x) (\<lambda>(res, ctx). if res = -1 then Inr (-1, ctx) else group_loop gopt ctx [] t))" for x
      using Cons by (auto intro!: consumes_bindc assms IH)
    moreover have "consumes ctx (bindc (gopt ctx x) (\<lambda>(res, ctx). Inr (if res = -1 then -1 else 0, ctx)))" for x
      by (auto intro!: consumes_bindc assms)
    ultimately show ?thesis
      using Cons IH by (simp add: group_loop.simps(2) [of gopt ctx d ch t] split: list.split)
  qed
qed

lemma consumes_process_option_group: "consumes ctx (process_option_group sscanf ctx os)"
  by (auto simp: process_option_group_def Let_def split: prod.split
      intro: consumes_trans [OF consumes_group_loop [OF consumes_process_gopt]])

lemma consumes_process_one: "consumes ctx (process_one sscanf ctx arg)"
  by (auto simp: process_one_def next_arg_def consumes_call_proc consumes_process_gopt consumes_process_option_group
      intro!: consumes_bindc consumes_add_arg split: list.split
      intro: consumes_trans [OF consumes_process_option_group])

text \<open>The loop over \<open>ctx->argctr\<close>.\<close>

function parse_args :: "scanf \<Rightarrow> fuse_opt_context \<Rightarrow> res" where
  "parse_args sscanf ctx =
     (case rest ctx of
        [] \<Rightarrow> Inr (0, ctx)
      | arg # as \<Rightarrow>
          bindc (process_one sscanf (ctx\<lparr>rest := as\<rparr>) arg) (\<lambda>(res, ctx).
            if res = -1 then Inr (-1, ctx) else parse_args sscanf ctx))"
  by pat_completeness auto
termination
proof (relation "measure (\<lambda>(sscanf, ctx). length (rest ctx))", goal_cases)
  case (2 sscanf ctx arg as x res ctx')
  then show ?case using consumes_process_one [of "ctx\<lparr>rest := as\<rparr>" sscanf arg] by auto
qed simp

declare parse_args.simps [simp del]

definition insert_out :: "fuse_opt_context \<Rightarrow> nat \<Rightarrow> string \<Rightarrow> res" where
  "insert_out ctx pos arg =
     bindc (fuse_opt_insert_arg (outargs ctx) pos arg (allocs ctx)) (\<lambda>(res, args, bs).
       Inr (res, ctx\<lparr>outargs := args, allocs := bs\<rparr>))"

text \<open>\<open>argv0\<close> is \<open>ctx->argv[0]\<close>; \<open>rest\<close> holds the arguments after it.\<close>

definition opt_parse :: "scanf \<Rightarrow> string \<Rightarrow> fuse_opt_context \<Rightarrow> res" where
  "opt_parse sscanf argv0 ctx =
     bindc (add_arg ctx argv0) (\<lambda>(res, ctx).
     if res = -1 then Inr (-1, ctx)
     else
       bindc (parse_args sscanf ctx) (\<lambda>(res, ctx).
       if res = -1 then Inr (-1, ctx)
       else
         bindc (case opts ctx of
                  None \<Rightarrow> Inr (0, ctx)
                | Some os \<Rightarrow>
                    bindc (insert_out ctx 1 ''-o'') (\<lambda>(res, ctx).
                      if res = -1 then Inr (-1, ctx) else insert_out ctx 2 os))
           (\<lambda>(res, ctx).
         if res = -1 then Inr (-1, ctx)
         else
           let as = arg_list (outargs ctx) in
           if nonopt ctx \<noteq> 0 \<and> nonopt ctx = length as \<and> last as = ''--''
           then Inr (0, ctx\<lparr>outargs := (outargs ctx)\<lparr>argv := Some (butlast as)\<rparr>\<rparr>)
           else Inr (0, ctx))))"

text \<open>The result, the new \<open>*args\<close> and the caller's data.\<close>

definition fuse_opt_parse :: "scanf \<Rightarrow> fuse_args \<Rightarrow> optdata \<Rightarrow> fuse_opt list \<Rightarrow> opt_proc option \<Rightarrow> bool list
    \<Rightarrow> (int \<times> fuse_args \<times> optdata) c" where
  "fuse_opt_parse sscanf args dat ops pr bs =
     (case arg_list args of
        [] \<Rightarrow> Inr (0, args, dat)
      | argv0 # as \<Rightarrow>
          bindc (opt_parse sscanf argv0
                   \<lparr>data = dat, opt = ops, proc = pr, rest = as, outargs = \<lparr>argv = None, allocated = False\<rparr>,
                    opts = None, nonopt = 0, allocs = bs\<rparr>)
            (\<lambda>(res, ctx). Inr (res, if res \<noteq> -1 then outargs ctx else args, data ctx)))"

section \<open>No assertion fails\<close>

text \<open>What the parser relies on: vectors it appends to are its own, and the callback keeps it so.\<close>

definition args_ok :: "fuse_args \<Rightarrow> bool" where
  "args_ok args \<longleftrightarrow> (argv args \<noteq> None \<longrightarrow> allocated args)"

definition proc_ok :: "opt_proc option \<Rightarrow> bool" where
  "proc_ok pr \<longleftrightarrow> (\<forall>p d arg key out res d' out'. pr = Some p \<and> p d arg key out = (res, d', out') \<and> args_ok out
     \<longrightarrow> args_ok out' \<and> length (arg_list out) \<le> length (arg_list out'))"

definition ctx_ok :: "nat \<Rightarrow> fuse_opt_context \<Rightarrow> bool" where
  "ctx_ok n ctx \<longleftrightarrow> args_ok (outargs ctx) \<and> proc_ok (proc ctx) \<and> n \<le> length (arg_list (outargs ctx))"

definition good :: "nat \<Rightarrow> res \<Rightarrow> bool" where
  "good n m \<longleftrightarrow> (\<exists>r ctx. m = Inr (r, ctx) \<and> ctx_ok n ctx)"

lemma good_Inr [simp]: "good n (Inr (r, ctx)) \<longleftrightarrow> ctx_ok n ctx"
  by (simp add: good_def)

lemma good_bindc: "good n m \<Longrightarrow> (\<And>r ctx. ctx_ok n ctx \<Longrightarrow> good k (f (r, ctx))) \<Longrightarrow> good k (bindc m f)"
  by (auto simp: good_def)

lemma ctx_ok_simps [simp]:
  "ctx_ok n (ctx\<lparr>rest := as\<rparr>) = ctx_ok n ctx" "ctx_ok n (ctx\<lparr>allocs := bs\<rparr>) = ctx_ok n ctx"
  "ctx_ok n (ctx\<lparr>data := d\<rparr>) = ctx_ok n ctx" "ctx_ok n (ctx\<lparr>opts := os\<rparr>) = ctx_ok n ctx"
  "ctx_ok n (ctx\<lparr>nonopt := j\<rparr>) = ctx_ok n ctx"
  by (simp_all add: ctx_ok_def)

lemma add_arg_ok:
  "args_ok args \<Longrightarrow> \<exists>res args' bs'. fuse_opt_add_arg args arg bs = Inr (res, args', bs') \<and> args_ok args'
     \<and> (res = -1 \<and> args' = args \<or> res = 0 \<and> arg_list args' = arg_list args @ [arg])"
  by (auto simp: fuse_opt_add_arg_def args_ok_def arg_list_def alloc_def split: list.splits option.splits)

lemma good_add_arg: "ctx_ok n ctx \<Longrightarrow> good n (add_arg ctx arg)"
  using add_arg_ok [of "outargs ctx" arg "allocs ctx"]
  by (auto simp: add_arg_def ctx_ok_def split: if_splits)

lemma good_add_opt: "ctx_ok n ctx \<Longrightarrow> good n (add_opt ctx arg)"
  by (auto simp: add_opt_def Let_def split: prod.split)

lemma good_call_proc:
  assumes "ctx_ok n ctx"
  shows "good n (call_proc ctx arg key is_o)"
proof -
  have keep: "good n (if is_o then add_opt c' arg else add_arg c' arg)" if "ctx_ok n c'" for c'
    using that by (simp add: good_add_opt good_add_arg)
  have "ctx_ok n (ctx\<lparr>data := d', outargs := out'\<rparr>)"
    if "proc ctx = Some p" "p (data ctx) arg key (outargs ctx) = (res, d', out')" for p res d' out'
    using assms that unfolding ctx_ok_def proc_ok_def by fastforce
  then show ?thesis using assms keep by (auto simp: call_proc_def Let_def split: option.split prod.split)
qed

lemma good_process_opt_param:
  "ctx_ok n ctx \<Longrightarrow> format \<noteq> [] \<Longrightarrow> hd format = CHR ''%'' \<Longrightarrow> good n (process_opt_param sscanf ctx var format param)"
  by (auto simp: process_opt_param_def Let_def split: option.split prod.split)

text \<open>A template that matched has a parameter only behind a separator and a percent sign.\<close>

lemma strchr_Some: "strchr s ch = Some i \<Longrightarrow> i < length s \<and> s ! i = ch"
  by (induction s arbitrary: i) (auto split: if_splits)

lemma match_template_sep:
  assumes "match_template t arg = Some sep" "sep \<noteq> 0"
  shows "sep < length t" "Suc sep = length t \<or> t ! Suc sep = CHR ''%''"
    "(if t ! sep = CHR ''='' then sep + 1 else sep) \<le> length arg" "t ! sep = CHR ''='' \<or> t ! sep = CHR '' ''"
  using assms strchr_Some [of t "CHR ''=''"] strchr_Some [of t "CHR '' ''"]
  by (auto simp: match_template_def Let_def split: option.splits if_splits)

lemma good_process_opt:
  assumes "ctx_ok n ctx" "match_template (templ op) arg0 = Some sep"
    and "(if templ op ! sep = CHR ''='' then sep + 1 else sep) \<le> length arg"
  shows "good n (process_opt sscanf ctx op sep arg is_o)"
proof (cases "offset op")
  case None
  then show ?thesis using assms(1) by (auto simp: process_opt_def intro!: good_bindc [OF good_call_proc])
next
  case (Some var)
  show ?thesis
  proof (cases "sep \<noteq> 0 \<and> sep + 1 < length (templ op)")
    case True
    then have "templ op ! Suc sep = CHR ''%''" using match_template_sep [OF assms(2)] by auto
    then have "drop (sep + 1) (templ op) \<noteq> []" "hd (drop (sep + 1) (templ op)) = CHR ''%''"
      using True by (auto simp: hd_drop_conv_nth)
    then show ?thesis
      using Some True assms(1,3) good_process_opt_param [OF assms(1)] by (auto simp: process_opt_def str_from_def)
  next
    case False
    then show ?thesis using Some assms(1) by (auto simp: process_opt_def)
  qed
qed

lemma find_opt_match:
  "find_opt ops arg = Some (op, sep, ops') \<Longrightarrow> match_template (templ op) arg = Some sep"
  by (induction ops) (auto split: option.splits)

lemma good_gopt_loop: "ctx_ok n ctx \<Longrightarrow> good n (gopt_loop sscanf ops arg is_o ctx)"
proof (induction ops arbitrary: ctx rule: length_induct)
  case (1 ops)
  show ?case
  proof (cases "find_opt ops arg")
    case None
    then show ?thesis using "1.prems" by (subst gopt_loop.simps) simp
  next
    case (Some x)
    obtain op sep ops' where x: "x = (op, sep, ops')" by (cases x)
    note m = find_opt_match [OF Some [unfolded x]]
    have le: "(if templ op ! sep = CHR ''='' then sep + 1 else sep) \<le> length arg" if "sep \<noteq> 0"
      using match_template_sep [OF m that] by simp
    have "good n (if sep \<noteq> 0 \<and> templ op ! sep = CHR '' '' \<and> length arg = sep
        then process_opt_sep_arg sscanf ctx op sep arg is_o else process_opt sscanf ctx op sep arg is_o)"
    proof (cases "sep = 0")
      case True
      then show ?thesis using "1.prems" by (auto simp: process_opt_def intro!: good_bindc [OF good_call_proc] split: option.split)
    next
      case False
      have "good n (process_opt_sep_arg sscanf ctx op sep arg is_o)" if "templ op ! sep = CHR '' ''" "length arg = sep"
        using that "1.prems" good_process_opt [OF _ m, of n]
        by (auto simp: process_opt_sep_arg_def next_arg_def Let_def split: list.split prod.split)
      then show ?thesis using good_process_opt [OF "1.prems" m le [OF False]] by simp
    qed
    moreover have "good n (gopt_loop sscanf ops' arg is_o c')" if "ctx_ok n c'" for c'
      using 1 that find_opt_shorter [OF Some [unfolded x]] by blast
    ultimately show ?thesis using Some x by (subst gopt_loop.simps) (auto intro!: good_bindc)
  qed
qed

lemma good_process_gopt: "ctx_ok n ctx \<Longrightarrow> good n (process_gopt sscanf ctx arg is_o)"
  by (simp add: process_gopt_def good_gopt_loop good_call_proc)

lemma good_group_loop:
  assumes "\<And>ctx arg. ctx_ok n ctx \<Longrightarrow> good n (gopt ctx arg)"
  shows "ctx_ok n ctx \<Longrightarrow> good n (group_loop gopt ctx d s)"
proof (induction s arbitrary: ctx d rule: length_induct)
  case (1 s)
  have IH: "good n (group_loop gopt c' d' s')" if "length s' < length s" "ctx_ok n c'" for s' c' d'
    using 1 that by blast
  have fin: "good n (bindc (gopt ctx x) (\<lambda>(res, ctx). Inr (if res = -1 then -1 else 0, ctx)))" for x
    using "1.prems" by (auto intro!: good_bindc [OF assms])
  show ?case
  proof (cases s)
    case (Cons ch t)
    have "good n (bindc (gopt ctx x) (\<lambda>(res, ctx). if res = -1 then Inr (-1, ctx) else group_loop gopt ctx [] t))" for x
      using Cons "1.prems" by (auto intro!: good_bindc [OF assms] IH)
    then show ?thesis
      using Cons IH fin "1.prems" by (simp add: group_loop.simps(2) [of gopt ctx d ch t] split: list.split)
  qed (simp add: fin)
qed

lemma good_process_option_group: "ctx_ok n ctx \<Longrightarrow> good n (process_option_group sscanf ctx os)"
  by (auto simp: process_option_group_def Let_def split: prod.split intro!: good_group_loop good_process_gopt)

lemma good_process_one: "ctx_ok n ctx \<Longrightarrow> good n (process_one sscanf ctx arg)"
  by (auto simp: process_one_def next_arg_def good_call_proc good_process_gopt good_process_option_group
      intro!: good_bindc [OF good_add_arg] split: list.split)

lemma good_parse_args: "ctx_ok n ctx \<Longrightarrow> good n (parse_args sscanf ctx)"
proof (induction "length (rest ctx)" arbitrary: ctx rule: less_induct)
  case less
  show ?case
  proof (cases "rest ctx")
    case Nil
    then show ?thesis using less.prems by (subst parse_args.simps) simp
  next
    case (Cons arg as)
    obtain r c' where m: "process_one sscanf (ctx\<lparr>rest := as\<rparr>) arg = Inr (r, c')" "ctx_ok n c'"
      using good_process_one [of n "ctx\<lparr>rest := as\<rparr>" sscanf arg] less.prems by (auto simp: good_def)
    then have "length (rest c') < length (rest ctx)"
      using consumes_process_one [of "ctx\<lparr>rest := as\<rparr>" sscanf arg] Cons by simp
    then show ?thesis using less.hyps [of c'] m Cons by (subst parse_args.simps) simp
  qed
qed

lemma insert_arg_list:
  assumes "pos \<le> length as"
  shows "(take (pos + 1) (as @ [arg]) @ take (Suc (length as) - pos - 1) (drop pos (as @ [arg])))[pos := arg]
    = take pos as @ arg # drop pos as"
proof -
  have t: "take (Suc (length as) - pos - 1) (drop pos (as @ [arg])) = drop pos as" using assms by simp
  show ?thesis
  proof (cases "pos = length as")
    case True
    then show ?thesis by simp
  next
    case False
    then have "take (pos + 1) (as @ [arg]) = take pos as @ [as ! pos]"
      using assms by (simp add: take_Suc_conv_app_nth)
    then show ?thesis using assms t by (simp add: list_update_append)
  qed
qed

lemma insert_arg_ok:
  assumes "args_ok args" "pos \<le> length (arg_list args)"
  shows "\<exists>res args' bs'. fuse_opt_insert_arg args pos arg bs = Inr (res, args', bs') \<and> args_ok args'
     \<and> (res = -1 \<and> args' = args
        \<or> res = 0 \<and> arg_list args' = take pos (arg_list args) @ arg # drop pos (arg_list args))"
proof -
  obtain res a bs' where a: "fuse_opt_add_arg args arg bs = Inr (res, a, bs')" "args_ok a"
    "res = -1 \<and> a = args \<or> res = 0 \<and> arg_list a = arg_list args @ [arg]"
    using add_arg_ok [OF assms(1), of arg bs] by blast
  from a(3) show ?thesis
  proof
    assume r: "res = 0 \<and> arg_list a = arg_list args @ [arg]"
    then have "allocated a" using a(2) by (auto simp: args_ok_def arg_list_def split: option.splits)
    then show ?thesis
      using a(1) r assms(2) a(2) insert_arg_list [OF assms(2), of arg]
      by (auto simp: fuse_opt_insert_arg_def Let_def args_ok_def arg_list_def)
  qed (use a assms in \<open>simp add: fuse_opt_insert_arg_def\<close>)
qed

lemma insert_out_ok:
  assumes "ctx_ok n ctx" "pos \<le> n"
  shows "\<exists>r c. insert_out ctx pos arg = Inr (r, c) \<and> (r = -1 \<or> r = 0 \<and> ctx_ok (Suc n) c)"
proof -
  have "args_ok (outargs ctx)" "pos \<le> length (arg_list (outargs ctx))" using assms by (simp_all add: ctx_ok_def)
  from insert_arg_ok [OF this, of arg "allocs ctx"] assms show ?thesis
    by (auto simp: insert_out_def ctx_ok_def)
qed

section \<open>Options that are kept\<close>

text \<open>The group that results from appending options one after the other.\<close>

definition add_all :: "string option \<Rightarrow> string list \<Rightarrow> string option" where
  "add_all acc os = foldl (\<lambda>acc arg. fst (snd (fuse_opt_add_opt_escaped acc arg []))) acc os"

fun each :: "(fuse_opt_context \<Rightarrow> string \<Rightarrow> res) \<Rightarrow> fuse_opt_context \<Rightarrow> string list \<Rightarrow> res" where
  "each gopt ctx [] = Inr (0, ctx)"
| "each gopt ctx (arg # args) =
     bindc (gopt ctx arg) (\<lambda>(res, ctx). if res = -1 then Inr (-1, ctx) else each gopt ctx args)"

lemma group_escaped:
  "\<not> is_octal (CHR ''3'') a \<Longrightarrow> group_loop gopt ctx d (CHR 0x5C # a # t) = group_loop gopt ctx (d @ [a]) t"
  by (simp add: group_loop.simps(2) [of gopt ctx d "CHR 0x5C"] split: list.split)

lemma group_loop_escape:
  "group_loop gopt ctx d (escape True s @ t) = group_loop gopt ctx (d @ s) t" if "t = [] \<or> hd t = CHR '',''"
proof (induction s arbitrary: d)
  case (Cons ch s)
  have o: "\<not> is_octal (CHR ''3'') (CHR '','')" "\<not> is_octal (CHR ''3'') (CHR 0x5C)" by (simp_all add: is_octal_def)
  show ?case
  proof (cases "ch = CHR '','' \<or> ch = CHR 0x5C")
    case True
    then show ?thesis using Cons.IH [of "d @ [ch]"] o by (auto simp: group_escaped)
  next
    case False
    then show ?thesis
      using Cons.IH [of "d @ [ch]"] by (simp add: group_loop.simps(2) [of gopt ctx d ch])
  qed
qed simp

definition group_text :: "string list \<Rightarrow> string" where
  "group_text os = (case os of [] \<Rightarrow> [] | arg # args \<Rightarrow> escape True arg @ concat (map (\<lambda>a. '','' @ escape True a) args))"

lemma escape_Nil_iff [simp]: "escape e s = [] \<longleftrightarrow> s = []"
  by (cases s) auto

lemma add_all_text:
  "os \<noteq> [] \<Longrightarrow> hd os \<noteq> [] \<Longrightarrow> add_all None os = Some (group_text os)"
proof -
  have acc: "foldl (\<lambda>acc arg. fst (snd (fuse_opt_add_opt_escaped acc arg []))) (Some t) args
      = Some (t @ concat (map (\<lambda>a. '','' @ escape True a) args))" if "t \<noteq> []" for t args
    using that by (induction args arbitrary: t) (auto simp: fuse_opt_add_opt_escaped_def add_opt_common_def alloc_def)
  assume "os \<noteq> []" "hd os \<noteq> []"
  then show ?thesis using acc
    by (cases os) (auto simp: add_all_def group_text_def fuse_opt_add_opt_escaped_def add_opt_common_def alloc_def)
qed

lemma takeWhile_c_string: "c_string s \<Longrightarrow> takeWhile (\<lambda>x. x \<noteq> NUL) s = s"
  by (simp add: c_string_def)

lemma group_loop_text:
  "os \<noteq> [] \<Longrightarrow> list_all c_string os \<Longrightarrow> group_loop gopt ctx [] (group_text os) = each gopt ctx os"
proof -
  have tail: "group_loop gopt ctx d (concat (map (\<lambda>a. '','' @ escape True a) args))
      = each gopt ctx (d # args)" if "c_string d" "list_all c_string args" for ctx d args
    using that
  proof (induction args arbitrary: ctx d)
    case Nil
    then show ?case by (auto simp: takeWhile_c_string intro!: arg_cong [where f = "bindc _"])
  next
    case (Cons a args)
    let ?t = "concat (map (\<lambda>a. '','' @ escape True a) args)"
    have "group_loop gopt c [] (escape True a @ ?t) = each gopt c (a # args)" for c
      using Cons group_loop_escape [of ?t gopt c "[]" a] by (cases args) auto
    then show ?case
      using Cons.prems by (simp add: group_loop.simps(2) takeWhile_c_string cong: if_cong)
  qed
  assume "os \<noteq> []" "list_all c_string os"
  then obtain a args where os: "os = a # args" "c_string a" "list_all c_string args" by (cases os) auto
  have "concat (map (\<lambda>a. '','' @ escape True a) args) = [] \<or> hd (concat (map (\<lambda>a. '','' @ escape True a) args)) = CHR '',''"
    by (cases args) auto
  then show ?thesis using os tail [of a args ctx] group_loop_escape [of _ gopt ctx "[]" a] by (simp add: group_text_def)
qed

text \<open>Without a table and a callback every option is kept.\<close>

definition keep_ctx :: "string option \<Rightarrow> string list \<Rightarrow> optdata \<Rightarrow> string list \<Rightarrow> fuse_opt_context" where
  "keep_ctx os out d as = \<lparr>data = d, opt = [], proc = None, rest = as,
     outargs = \<lparr>argv = Some out, allocated = True\<rparr>, opts = os, nonopt = 0, allocs = []\<rparr>"

lemma keep_sel [simp]:
  "nonopt (keep_ctx os out d as) = 0" "opts (keep_ctx os out d as) = os" "data (keep_ctx os out d as) = d"
  "outargs (keep_ctx os out d as) = \<lparr>argv = Some out, allocated = True\<rparr>" "proc (keep_ctx os out d as) = None"
  by (simp_all add: keep_ctx_def)

lemma keep_add_arg: "add_arg (keep_ctx os out d as) arg = Inr (0, keep_ctx os (out @ [arg]) d as)"
  by (simp add: add_arg_def fuse_opt_add_arg_def keep_ctx_def alloc_def arg_list_def)

lemma keep_gopt:
  "process_gopt sscanf (keep_ctx os out d as) arg True = Inr (0, keep_ctx (add_all os [arg]) out d as)"
  "process_gopt sscanf (keep_ctx os out d as) arg False = Inr (0, keep_ctx os (out @ [arg]) d as)"
  using keep_add_arg [of os out d as arg]
  by (simp_all add: process_gopt_def call_proc_def keep_ctx_def add_opt_def add_all_def
      fuse_opt_add_opt_escaped_def add_opt_common_def alloc_def Let_def)

lemma keep_each:
  "each (\<lambda>ctx arg. process_gopt sscanf ctx arg True) (keep_ctx os out d as) args
     = Inr (0, keep_ctx (add_all os args) out d as)"
  by (induction args arbitrary: os) (auto simp: keep_gopt add_all_def)

text \<open>A command line: plain arguments, and option groups as \<open>-o\<close> with their text attached.\<close>

datatype item = Plain string | Group "string list"

fun item_arg :: "item \<Rightarrow> string" where
  "item_arg (Plain a) = a"
| "item_arg (Group os) = ''-o'' @ group_text os"

fun item_ok :: "item \<Rightarrow> bool" where
  "item_ok (Plain a) = (a \<noteq> ''--'' \<and> take 2 a \<noteq> ''-o'')"
| "item_ok (Group os) = (os \<noteq> [] \<and> list_all c_string os \<and> hd os \<noteq> [])"

definition plains :: "item list \<Rightarrow> string list" where
  "plains its = concat (map (\<lambda>it. case it of Plain a \<Rightarrow> [a] | Group _ \<Rightarrow> []) its)"

definition groups :: "item list \<Rightarrow> string list" where
  "groups its = concat (map (\<lambda>it. case it of Plain _ \<Rightarrow> [] | Group os \<Rightarrow> os) its)"

lemma keep_one:
  "item_ok (Plain a) \<Longrightarrow> process_one sscanf (keep_ctx os out d as) a = Inr (0, keep_ctx os (out @ [a]) d as)"
proof -
  assume ok: "item_ok (Plain a)"
  have no: "\<not> (a \<noteq> [] \<and> hd a = CHR ''-'' \<and> 2 \<le> length a \<and> a ! 1 = CHR ''o'')"
    using ok by (cases a; cases "tl a") auto
  have "call_proc (keep_ctx os out d as) a k False = Inr (0, keep_ctx os (out @ [a]) d as)" if "k \<noteq> -4" for k
    using that keep_add_arg [of os out d as a] by (simp add: call_proc_def)
  then show ?thesis using ok no keep_gopt(2) [of sscanf os out d as a] by (auto simp: process_one_def)
qed

lemma keep_group:
  assumes "item_ok (Group gs)"
  shows "process_one sscanf (keep_ctx os out d as) (item_arg (Group gs)) = Inr (0, keep_ctx (add_all os gs) out d as)"
proof -
  have ne: "group_text gs \<noteq> []" using assms by (cases gs) (auto simp: group_text_def)
  have "nonopt (keep_ctx os out d as) = 0" "alloc (allocs (keep_ctx os out d as)) = (True, [])"
    "(keep_ctx os out d as)\<lparr>allocs := []\<rparr> = keep_ctx os out d as"
    by (simp_all add: keep_ctx_def alloc_def)
  then show ?thesis
    using assms ne keep_each [of sscanf os out d as gs] group_loop_text [of gs]
    by (simp add: process_one_def process_option_group_def)
qed

lemma keep_all:
  "list_all item_ok its \<Longrightarrow>
     parse_args sscanf (keep_ctx os out d (map item_arg its)) = Inr (0, keep_ctx (add_all os (groups its)) (out @ plains its) d [])"
proof (induction its arbitrary: os out)
  case Nil
  then show ?case by (subst parse_args.simps) (simp add: keep_ctx_def add_all_def groups_def plains_def)
next
  case (Cons it its)
  have step: "parse_args sscanf (keep_ctx os out d (map item_arg (it # its))) =
      bindc (process_one sscanf (keep_ctx os out d (map item_arg its)) (item_arg it))
        (\<lambda>(res, ctx). if res = -1 then Inr (-1, ctx) else parse_args sscanf ctx)"
    by (subst parse_args.simps) (simp add: keep_ctx_def)
  show ?case
  proof (cases it)
    case (Plain a)
    then show ?thesis using Cons step keep_one [of a] by (simp add: plains_def groups_def)
  next
    case (Group gs)
    have "add_all (add_all os gs) (groups its) = add_all os (gs @ groups its)" by (simp add: add_all_def)
    then show ?thesis using Group Cons step keep_group [of gs] by (simp add: plains_def groups_def)
  qed
qed

section \<open>Properties\<close>

text \<open>
  (C16) The parser on any argument vector, any table of options, any outcome of its allocations and any
  callback that keeps the output vector valid: it ends, no assertion fails and no string is read past
  its end.
\<close>

theorem fuse_opt_parse_defined:
  assumes "proc_ok pr"
  shows "defined (fuse_opt_parse sscanf args dat ops pr bs)"
proof (cases "arg_list args")
  case (Cons argv0 as)
  let ?ctx = "\<lparr>data = dat, opt = ops, proc = pr, rest = as, outargs = \<lparr>argv = None, allocated = False\<rparr>,
                    opts = None, nonopt = 0, allocs = bs\<rparr>"
  obtain r0 a0 b0 where a0: "fuse_opt_add_arg (outargs ?ctx) argv0 bs = Inr (r0, a0, b0)" "args_ok a0"
    "r0 = -1 \<or> r0 = 0 \<and> arg_list a0 = [argv0]"
    using add_arg_ok [of "outargs ?ctx" argv0 bs] by (auto simp: args_ok_def arg_list_def)
  let ?c0 = "?ctx\<lparr>outargs := a0, allocs := b0\<rparr>"
  have add: "add_arg ?ctx argv0 = Inr (r0, ?c0)" using a0(1) by (simp add: add_arg_def)
  have "defined (opt_parse sscanf argv0 ?ctx)"
  proof (cases "r0 = -1")
    case True
    then show ?thesis using add by (simp add: opt_parse_def)
  next
    case False
    then have "ctx_ok 1 ?c0" using a0 assms by (simp add: ctx_ok_def)
    then obtain r1 c1 where p: "parse_args sscanf ?c0 = Inr (r1, c1)" "ctx_ok 1 c1"
      using good_parse_args [of 1 ?c0 sscanf] by (auto simp: good_def)
    obtain r2 c2 where i1: "insert_out c1 1 ''-o'' = Inr (r2, c2)" "r2 = -1 \<or> r2 = 0 \<and> ctx_ok 2 c2"
      using insert_out_ok [OF p(2), of 1 "''-o''"] by (auto simp: numeral_2_eq_2)
    have "\<exists>r3 c3. insert_out c2 2 os = Inr (r3, c3)" if "r2 \<noteq> -1" for os
      using that i1(2) insert_out_ok [of 2 c2 2 os] by auto
    then have "\<exists>r3 c3. (case opts c1 of None \<Rightarrow> Inr (0, c1) | Some os \<Rightarrow> bindc (insert_out c1 1 ''-o'') (\<lambda>(res, ctx).
        if res = -1 then Inr (-1, ctx) else insert_out ctx 2 os)) = Inr (r3, c3)"
      using i1(1) by (cases "r2 = -1") (auto split: option.split)
    then show ?thesis using add False p(1) by (auto simp: opt_parse_def Let_def)
  qed
  then show ?thesis using Cons by (auto simp: fuse_opt_parse_def defined_iff)
qed (simp add: fuse_opt_parse_def)

text \<open>
  Escaping and splitting are inverse: the group that \<open>fuse_opt_add_opt_escaped\<close> builds from a list of
  options (of which the first is not empty) is taken apart into exactly these options, in order, whatever
  commas and backslashes they contain.
\<close>

lemma escaped_group_roundtrip:
  assumes "os \<noteq> []" "hd os \<noteq> []" "list_all c_string os"
  shows "\<exists>text. add_all None os = Some text \<and> group_loop gopt ctx [] text = each gopt ctx os"
  using add_all_text [OF assms(1,2)] group_loop_text [OF assms(1,3)] by simp

text \<open>
  With no table, no callback and enough memory the parser normalises a command line: the program
  name, then one \<open>-o\<close> with all options of all groups in order, then the other arguments in order; the
  data is not touched.
\<close>

lemma fuse_opt_parse_normalises:
  assumes "list_all item_ok its"
  shows "fuse_opt_parse sscanf \<lparr>argv = Some (argv0 # map item_arg its), allocated = al0\<rparr> dat [] None [] =
    Inr (0, \<lparr>argv = Some (argv0 # (if groups its = [] then [] else [''-o'', group_text (groups its)]) @ plains its),
             allocated = True\<rparr>, dat)"
proof -
  let ?ctx = "\<lparr>data = dat, opt = [], proc = None, rest = map item_arg its, outargs = \<lparr>argv = None, allocated = False\<rparr>,
                    opts = None, nonopt = 0, allocs = []\<rparr>"
  have add: "add_arg ?ctx argv0 = Inr (0, keep_ctx None [argv0] dat (map item_arg its))"
    by (simp add: add_arg_def fuse_opt_add_arg_def keep_ctx_def alloc_def arg_list_def)
  note all = keep_all [OF assms, of sscanf None "[argv0]" dat]
  show ?thesis
  proof (cases "groups its = []")
    case True
    then show ?thesis using add all
      by (simp add: fuse_opt_parse_def opt_parse_def arg_list_def Let_def add_all_def)
  next
    case False
    have h: "hd (groups its) \<noteq> []"
      using assms False unfolding groups_def by (induction its) (auto split: item.splits)
    have "insert_out (keep_ctx (Some t) (argv0 # ps) dat []) 1 ''-o'' = Inr (0, keep_ctx (Some t) (argv0 # ''-o'' # ps) dat [])"
      for t ps by (cases ps) (simp_all add: insert_out_def keep_ctx_def fuse_opt_insert_arg_def fuse_opt_add_arg_def
            arg_list_def alloc_def Let_def)
    moreover have "insert_out (keep_ctx (Some t) (argv0 # ''-o'' # ps) dat []) 2 t
        = Inr (0, keep_ctx (Some t) (argv0 # ''-o'' # t # ps) dat [])" for t ps
      using insert_arg_list [of 2 "argv0 # ''-o'' # ps" t]
      by (simp add: insert_out_def keep_ctx_def fuse_opt_insert_arg_def fuse_opt_add_arg_def
            arg_list_def alloc_def Let_def)
    ultimately show ?thesis using add all add_all_text [OF False h] False
      by (simp add: fuse_opt_parse_def opt_parse_def arg_list_def Let_def)
  qed
qed

section \<open>Witnesses\<close>

theorem fuse_opt_parse_defined_witness:
  "defined (fuse_opt_parse (\<lambda>_ _. None) \<lparr>argv = Some [''fs'', ''-o'', ''ro,name=%''], allocated = False\<rparr> Map.empty
     [\<lparr>templ = ''name=%s'', offset = Some 0, opt_value = 0\<rparr>] None [])"
  using fuse_opt_parse_defined [of None] by (simp add: proc_ok_def)

end
