(* ===== verification/Fuse_Module.thy ===== *)
theory Fuse_Module
  imports Libc
begin

text \<open>
  The registry of stackable modules in \<open>src/lib/fuse.c\<close>: \<open>fuse_register_module\<close>, loading a
  shared object, and the reference counts of modules and shared objects. Modules and objects
  are known by their addresses. What \<open>dlopen\<close> finds, and the allocations, are parameters.
\<close>

section \<open>State\<close>

record fuse_module =
  mod_addr :: nat
  mod_name :: string
  mod_so :: nat
  mod_ctr :: int

record mod_state =
  fuse_modules :: "fuse_module list"
  fuse_current_so :: nat
  so_ctr :: "nat \<Rightarrow> int"
  sos :: "nat list"

text \<open>
  The outcome of \<open>calloc\<close> for the object's record, of \<open>malloc\<close> for its name, and of \<open>dlopen\<close>: the
  modules (address and name) whose constructors run, or failure.
\<close>

record dl_env =
  so_alloc :: nat
  name_alloc :: bool
  dlopen :: "string \<Rightarrow> (nat \<times> string) list option"

section \<open>Operations\<close>

definition fuse_register_module :: "nat \<Rightarrow> string \<Rightarrow> mod_state \<Rightarrow> mod_state" where
  "fuse_register_module a name s =
     (let so = fuse_current_so s;
          s = (if so \<noteq> 0 then s\<lparr>so_ctr := (so_ctr s)(so := so_ctr s so + 1)\<rparr> else s)
      in s\<lparr>fuse_modules := \<lparr>mod_addr = a, mod_name = name, mod_so = so, mod_ctr = 0\<rparr> # fuse_modules s\<rparr>)"

text \<open>\<open>calloc\<close> zeroes the counter; on the error path the object is closed and freed.\<close>

definition fuse_load_so_name :: "dl_env \<Rightarrow> string \<Rightarrow> mod_state \<Rightarrow> int \<times> mod_state" where
  "fuse_load_so_name E soname s =
     (let so = so_alloc E in
      if so = 0 then (-1, s)
      else
        let s1 = s\<lparr>sos := so # sos s, so_ctr := (so_ctr s)(so := 0), fuse_current_so := so\<rparr> in
        case dlopen E soname of
          None \<Rightarrow> (-1, s1\<lparr>fuse_current_so := 0, sos := remove1 so (sos s1)\<rparr>)
        | Some ms \<Rightarrow>
            let s2 = fold (\<lambda>(a, name). fuse_register_module a name) ms s1;
                s3 = s2\<lparr>fuse_current_so := 0\<rparr>
            in if so_ctr s3 so = 0 then (-1, s3\<lparr>sos := remove1 so (sos s3)\<rparr>) else (0, s3))"

definition fuse_load_so_module :: "dl_env \<Rightarrow> string \<Rightarrow> mod_state \<Rightarrow> int \<times> mod_state" where
  "fuse_load_so_module E module s =
     (if \<not> name_alloc E then (-1, s)
      else fuse_load_so_name E (''libfusemod_'' @ module @ ''.so'') s)"

fun find_ctr :: "string \<Rightarrow> fuse_module list \<Rightarrow> nat option \<times> fuse_module list" where
  "find_ctr module [] = (None, [])"
| "find_ctr module (m # ms) =
     (if module = mod_name m then (Some (mod_addr m), m\<lparr>mod_ctr := mod_ctr m + 1\<rparr> # ms)
      else let (r, ms) = find_ctr module ms in (r, m # ms))"

definition fuse_find_module :: "string \<Rightarrow> mod_state \<Rightarrow> nat option \<times> mod_state" where
  "fuse_find_module module s =
     (let (m, ms) = find_ctr module (fuse_modules s) in (m, s\<lparr>fuse_modules := ms\<rparr>))"

definition fuse_get_module :: "dl_env \<Rightarrow> string \<Rightarrow> mod_state \<Rightarrow> nat option \<times> mod_state" where
  "fuse_get_module E module s =
     (let (m, s) = fuse_find_module module s in
      case m of
        Some a \<Rightarrow> (Some a, s)
      | None \<Rightarrow>
          let (err, s) = fuse_load_so_module E module s in
          if err = 0 then fuse_find_module module s else (None, s))"

definition dec_ctr :: "nat \<Rightarrow> fuse_module list \<Rightarrow> fuse_module list" where
  "dec_ctr a = map (\<lambda>m. if mod_addr m = a then m\<lparr>mod_ctr := mod_ctr m - 1\<rparr> else m)"

definition fuse_put_module :: "nat \<Rightarrow> mod_state \<Rightarrow> mod_state c" where
  "fuse_put_module a s =
     (case find (\<lambda>m. mod_addr m = a) (fuse_modules s) of
        None \<Rightarrow> Inl Dangling
      | Some m \<Rightarrow>
          if mod_ctr m \<le> 0 then Inl Aborted
          else
            let s = s\<lparr>fuse_modules := dec_ctr a (fuse_modules s)\<rparr>; so = mod_so m in
            if mod_ctr m - 1 = 0 \<and> so \<noteq> 0 then
              if so_ctr s so \<le> 0 then Inl Aborted
              else
                let s = s\<lparr>so_ctr := (so_ctr s)(so := so_ctr s so - 1)\<rparr> in
                if so_ctr s so = 0 then
                  Inr (s\<lparr>fuse_modules := filter (\<lambda>m. mod_so m \<noteq> so) (fuse_modules s), sos := remove1 so (sos s)\<rparr>)
                else Inr s
            else Inr s)"

section \<open>The invariant of the registry\<close>

text \<open>
  Modules have distinct addresses and non-negative counts, and the object a module comes from is
  loaded. It does not say that an object's count is positive while its modules are in use:
  the code does not keep that.
\<close>

definition wf_mods :: "mod_state \<Rightarrow> bool" where
  "wf_mods s \<longleftrightarrow> distinct (map mod_addr (fuse_modules s))
     \<and> list_all (\<lambda>m. 0 \<le> mod_ctr m \<and> (mod_so m = 0 \<or> mod_so m \<in> set (sos s))) (fuse_modules s)
     \<and> distinct (sos s) \<and> 0 \<notin> set (sos s) \<and> fuse_current_so s = 0"

lemma find_ctr_addrs [simp]: "map mod_addr (snd (find_ctr n ms)) = map mod_addr ms"
  by (induction ms) (auto simp: case_prod_beta Let_def)

lemma find_ctr_all:
  "list_all (\<lambda>m. 0 \<le> mod_ctr m \<and> P (mod_so m)) ms \<Longrightarrow> list_all (\<lambda>m. 0 \<le> mod_ctr m \<and> P (mod_so m)) (snd (find_ctr n ms))"
  by (induction ms) (auto simp: case_prod_beta Let_def)

lemma find_ctr_some:
  "fst (find_ctr n ms) = Some a \<Longrightarrow> a \<in> set (map mod_addr ms)"
  by (induction ms) (auto simp: case_prod_beta Let_def split: if_splits)

lemma dec_ctr_addrs [simp]: "map mod_addr (dec_ctr a ms) = map mod_addr ms"
  by (simp add: dec_ctr_def comp_def if_distrib cong: if_cong)

lemma wf_find_module [wf_intros]: "wf_mods s \<Longrightarrow> wf_mods (snd (fuse_find_module n s))"
  using find_ctr_all [of "\<lambda>so. so = 0 \<or> so \<in> set (sos s)" "fuse_modules s" n]
  by (simp add: wf_mods_def fuse_find_module_def case_prod_beta Let_def)

text \<open>Putting back what was just taken.\<close>

lemma find_take:
  assumes "distinct (map mod_addr ms)" "find_ctr n ms = (Some a, ms')"
  shows "\<exists>m. m \<in> set ms \<and> mod_addr m = a \<and> mod_name m = n
    \<and> find (\<lambda>m. mod_addr m = a) ms' = Some (m\<lparr>mod_ctr := mod_ctr m + 1\<rparr>) \<and> dec_ctr a ms' = ms"
  using assms
proof (induction ms arbitrary: ms')
  case (Cons x ms)
  show ?case
  proof (cases "n = mod_name x")
    case True
    have "dec_ctr (mod_addr x) ms = ms"
      using Cons.prems(1) by (force simp: dec_ctr_def image_iff intro!: map_idI)
    then show ?thesis using True Cons.prems(2) by (intro exI [of _ x]) (auto simp: dec_ctr_def)
  next
    case False
    then obtain ms1 where 1: "find_ctr n ms = (Some a, ms1)" "ms' = x # ms1"
      using Cons.prems(2) by (auto simp: case_prod_beta Let_def) (metis prod.collapse)
    obtain m where m: "m \<in> set ms" "mod_addr m = a" "mod_name m = n"
        "find (\<lambda>m. mod_addr m = a) ms1 = Some (m\<lparr>mod_ctr := mod_ctr m + 1\<rparr>)" "dec_ctr a ms1 = ms"
      using Cons.IH [OF _ 1(1)] Cons.prems(1) by auto
    have "mod_addr x \<noteq> a" using m(1,2) Cons.prems(1) by auto
    then show ?thesis using m 1(2) by (intro exI [of _ m]) (auto simp: dec_ctr_def)
  qed
qed simp


section \<open>Taking and putting back\<close>

lemma find_ctr_none: "n \<notin> set (map mod_name ms) \<Longrightarrow> find_ctr n ms = (None, ms)"
  by (induction ms) auto

lemma dec_ctr_other: "a \<notin> set (map mod_addr ms) \<Longrightarrow> dec_ctr a ms = ms"
  by (force simp: dec_ctr_def image_iff intro!: map_idI)

lemma filter_so_id: "wf_mods s \<Longrightarrow> so \<noteq> 0 \<Longrightarrow> so \<notin> set (sos s) \<Longrightarrow>
    filter (\<lambda>m. mod_so m \<noteq> so) (fuse_modules s) = fuse_modules s"
  by (auto simp: wf_mods_def list_all_iff intro!: filter_True)

text \<open>
  Taking a module that is linked in, or that is in use already, and putting it back leaves the
  registry exactly as it was.
\<close>

lemma module_get_put:
  assumes "wf_mods s" "fst (fuse_find_module n s) = Some a"
    "\<forall>m \<in> set (fuse_modules s). mod_addr m = a \<longrightarrow> mod_so m = 0 \<or> 0 < mod_ctr m"
  shows "fuse_put_module a (snd (fuse_get_module E n s)) = Inr s"
proof -
  have d: "distinct (map mod_addr (fuse_modules s))" using assms(1) by (simp add: wf_mods_def)
  obtain ms where ms: "find_ctr n (fuse_modules s) = (Some a, ms)"
    using assms(2) by (cases "find_ctr n (fuse_modules s)") (simp add: fuse_find_module_def)
  obtain m where m: "m \<in> set (fuse_modules s)" "mod_addr m = a"
      "find (\<lambda>m. mod_addr m = a) ms = Some (m\<lparr>mod_ctr := mod_ctr m + 1\<rparr>)" "dec_ctr a ms = fuse_modules s"
    using find_take [OF d ms] by auto
  have "0 \<le> mod_ctr m" using m(1) assms(1) by (auto simp: wf_mods_def list_all_iff)
  moreover have "mod_so m = 0 \<or> 0 < mod_ctr m" using assms(3) m(1,2) by blast
  ultimately show ?thesis
    using ms m by (auto simp: fuse_get_module_def fuse_find_module_def fuse_put_module_def Let_def)
qed

text \<open>
  Taking a module whose library has to be loaded, when the library registers just that module,
  finds it, and putting it back unloads the library: the registry and the loaded objects are
  again what they were.
\<close>

lemma module_load_unload:
  assumes "wf_mods s" "n \<notin> set (map mod_name (fuse_modules s))" "a \<notin> set (map mod_addr (fuse_modules s))"
    and "name_alloc E" "so_alloc E \<noteq> 0" "so_alloc E \<notin> set (sos s)"
    and "dlopen E (''libfusemod_'' @ n @ ''.so'') = Some [(a, n)]"
  shows "fst (fuse_get_module E n s) = Some a
    \<and> (\<exists>s'. fuse_put_module a (snd (fuse_get_module E n s)) = Inr s'
         \<and> fuse_modules s' = fuse_modules s \<and> sos s' = sos s \<and> fuse_current_so s' = 0)"
  using assms filter_so_id [OF assms(1,5,6)] find_ctr_none [OF assms(2)] dec_ctr_other [OF assms(3)]
  by (simp add: fuse_get_module_def fuse_find_module_def fuse_load_so_module_def fuse_load_so_name_def
      fuse_register_module_def fuse_put_module_def Let_def dec_ctr_def)

section \<open>Taking and putting back several times\<close>

text \<open>The module \<open>n\<close>, whose structure is at \<open>a\<close>, is taken and put back \<open>k\<close> times.\<close>

fun take_put :: "dl_env \<Rightarrow> string \<Rightarrow> nat \<Rightarrow> nat \<Rightarrow> mod_state \<Rightarrow> mod_state c" where
  "take_put E n a 0 s = Inr s"
| "take_put E n a (Suc k) s = bindc (fuse_put_module a (snd (fuse_get_module E n s))) (take_put E n a k)"

text \<open>Each time the count of the library goes down by one, and at zero the library is unloaded.\<close>

lemma take_put_once:
  assumes "wf_mods s" "fst (fuse_find_module n s) = Some (mod_addr m)" "m \<in> set (fuse_modules s)" "mod_ctr m = 0" "mod_so m \<noteq> 0"
    and "so_ctr s (mod_so m) = int (Suc k)"
  shows "fuse_put_module (mod_addr m) (snd (fuse_get_module E n s)) =
    (let s = s\<lparr>so_ctr := (so_ctr s)(mod_so m := int k)\<rparr> in
     if k = 0 then Inr (s\<lparr>fuse_modules := filter (\<lambda>x. mod_so x \<noteq> mod_so m) (fuse_modules s), sos := remove1 (mod_so m) (sos s)\<rparr>) else Inr s)"
proof -
  have d: "distinct (map mod_addr (fuse_modules s))" using assms(1) by (simp add: wf_mods_def)
  obtain ms where ms: "find_ctr n (fuse_modules s) = (Some (mod_addr m), ms)"
    using assms(2) by (cases "find_ctr n (fuse_modules s)") (simp add: fuse_find_module_def)
  obtain x where x: "x \<in> set (fuse_modules s)" "mod_addr x = mod_addr m"
      "find (\<lambda>y. mod_addr y = mod_addr m) ms = Some (x\<lparr>mod_ctr := mod_ctr x + 1\<rparr>)" "dec_ctr (mod_addr m) ms = fuse_modules s"
    using find_take [OF d ms] by auto
  have "x = m" using x(1,2) assms(3) d by (meson distinct_map inj_onD)
  then show ?thesis using ms x assms(4-6)
    by (auto simp: fuse_get_module_def fuse_find_module_def fuse_put_module_def Let_def)
qed

lemma take_put_unloads:
  assumes "wf_mods s" "fst (fuse_find_module n s) = Some (mod_addr m)" "m \<in> set (fuse_modules s)" "mod_ctr m = 0" "mod_so m \<noteq> 0"
    and "so_ctr s (mod_so m) = int (Suc k)"
  shows "\<exists>s'. take_put E n (mod_addr m) (Suc k) s = Inr s' \<and> sos s' = remove1 (mod_so m) (sos s)
    \<and> fuse_modules s' = filter (\<lambda>x. mod_so x \<noteq> mod_so m) (fuse_modules s)"
  using assms
proof (induction k arbitrary: s)
  case 0
  then show ?case using take_put_once [OF 0] by (simp add: Let_def)
next
  case (Suc k)
  let ?s = "s\<lparr>so_ctr := (so_ctr s)(mod_so m := int (Suc k))\<rparr>"
  have "\<exists>s'. take_put E n (mod_addr m) (Suc k) ?s = Inr s' \<and> sos s' = remove1 (mod_so m) (sos ?s)
    \<and> fuse_modules s' = filter (\<lambda>x. mod_so x \<noteq> mod_so m) (fuse_modules ?s)"
    by (rule Suc.IH) (use Suc.prems in \<open>simp_all add: wf_mods_def fuse_find_module_def case_prod_beta Let_def\<close>)
  then show ?case using take_put_once [OF Suc.prems] by (simp add: Let_def)
qed

text \<open>
  (C20) The count of a library goes wrong: in any registry, take a module \<open>a\<close> that nobody uses from a library whose count is \<open>k\<close>.
  Taking \<open>a\<close> and putting it back \<open>k\<close> times unloads the library, whatever use is made of its other modules: for any module \<open>b\<close>
  of the library, in use or not, the library's object and the entry of \<open>b\<close> are gone, and putting \<open>b\<close> back uses freed memory.
\<close>

theorem put_module_unloads_used:
  assumes "wf_mods s" "fst (fuse_find_module n s) = Some (mod_addr a)" "a \<in> set (fuse_modules s)" "mod_ctr a = 0" "mod_so a \<noteq> 0"
    and "so_ctr s (mod_so a) = int k" "0 < k" "b \<in> set (fuse_modules s)" "mod_so b = mod_so a"
  shows "\<exists>s'. take_put E n (mod_addr a) k s = Inr s' \<and> mod_so b \<notin> set (sos s') \<and> fuse_put_module (mod_addr b) s' = Inl Dangling"
proof -
  obtain j where j: "k = Suc j" using assms(7) by (cases k) auto
  obtain s' where s': "take_put E n (mod_addr a) k s = Inr s'" "sos s' = remove1 (mod_so a) (sos s)"
      "fuse_modules s' = filter (\<lambda>x. mod_so x \<noteq> mod_so a) (fuse_modules s)"
    using take_put_unloads [OF assms(1-5), of j E] assms(6) j by auto
  have w: "distinct (map mod_addr (fuse_modules s))" "distinct (sos s)" using assms(1) by (simp_all add: wf_mods_def)
  have "x = b" if "x \<in> set (fuse_modules s)" "mod_addr x = mod_addr b" for x
    using that assms(8) w(1) by (meson distinct_map inj_onD)
  then have "find (\<lambda>m. mod_addr m = mod_addr b) (fuse_modules s') = None"
    using assms(9) s'(3) by (auto simp: find_None_iff)
  then show ?thesis using s'(1,2) w(2) assms(9) by (auto simp: fuse_put_module_def)
qed

text \<open>A library with two modules; \<open>a\<close> and \<open>b\<close> are taken, which loads it, and \<open>a\<close> is put back.\<close>

definition pair_dl :: dl_env where
  "pair_dl = \<lparr>so_alloc = 9, name_alloc = True, dlopen = (\<lambda>f. if f = ''libfusemod_a.so'' then Some [(1, ''a''), (2, ''b'')] else None)\<rparr>"

definition no_modules :: mod_state where
  "no_modules = \<lparr>fuse_modules = [], fuse_current_so = 0, so_ctr = (\<lambda>_. 0), sos = []\<rparr>"

theorem put_module_unloads_used_witness:
  "bindc (fuse_put_module 1 (snd (fuse_get_module pair_dl ''b'' (snd (fuse_get_module pair_dl ''a'' no_modules)))))
     (\<lambda>s. bindc (take_put pair_dl ''a'' 1 1 s) (fuse_put_module 2)) = Inl Dangling"
proof -
  let ?s = "snd (fuse_get_module pair_dl ''b'' (snd (fuse_get_module pair_dl ''a'' no_modules)))"
  let ?a = "\<lparr>mod_addr = 1, mod_name = ''a'', mod_so = 9, mod_ctr = 0\<rparr>" and ?b = "\<lparr>mod_addr = 2, mod_name = ''b'', mod_so = 9, mod_ctr = 1\<rparr>"
  let ?t = "\<lparr>fuse_modules = [?b, ?a], fuse_current_so = 0, so_ctr = (\<lambda>_. 0)(9 := 1), sos = [9]\<rparr>"
  have t: "fuse_put_module 1 ?s = Inr ?t"
    by (simp add: pair_dl_def no_modules_def fuse_get_module_def fuse_find_module_def fuse_load_so_module_def fuse_load_so_name_def
        fuse_register_module_def fuse_put_module_def dec_ctr_def Let_def)
  have "\<exists>s'. take_put pair_dl ''a'' (mod_addr ?a) 1 ?t = Inr s' \<and> mod_so ?b \<notin> set (sos s') \<and> fuse_put_module (mod_addr ?b) s' = Inl Dangling"
    by (rule put_module_unloads_used) (simp_all add: wf_mods_def fuse_find_module_def)
  then show ?thesis unfolding t by auto
qed

end
