(* ===== verification/Fuse_Fs.thy ===== *)
theory Fuse_Fs
  imports Fuse_Buf Fuse_Locks Fuse_Module
begin

text \<open>
  The filesystem layer of \<open>src/lib/fuse.c\<close>: \<open>struct fuse_fs\<close> and the functions \<open>fuse_fs_*\<close>
  through which the library and the stacked modules call an operation of a filesystem, with the
  fall-backs for the operations that a filesystem leaves out and the conversions for filesystems
  written for older interfaces. A filesystem's operations are functions on the state of the
  calling thread; what they do is not known here. Debug output is left out.
\<close>

unbundle bit_operations_syntax

section \<open>The state of a call\<close>

text \<open>
  \<open>private_data\<close> of the thread's \<open>struct fuse_context\<close>, the \<open>user_data\<close> of each filesystem object
  by its address, the addresses that the next calls of \<open>malloc\<close> give (\<open>0\<close> and the empty list:
  it fails), the blocks that are allocated, the registry of modules, and memory with the rest of the system.
\<close>

record 's ctx =
  private_data :: nat
  user_data :: "nat \<Rightarrow> nat"
  mallocs :: "nat list"
  blocks :: "nat list"
  registry :: mod_state
  wrld :: "'s world"

type_synonym ('s, 'a) call = "'s ctx \<Rightarrow> ('a \<times> 's ctx) c"

definition bindm :: "('s, 'a) call \<Rightarrow> ('a \<Rightarrow> ('s, 'b) call) \<Rightarrow> ('s, 'b) call" where
  "bindm m f = (\<lambda>c. bindc (m c) (\<lambda>(x, c). f x c))"

definition retm :: "'a \<Rightarrow> ('s, 'a) call" where
  "retm x = (\<lambda>c. Inr (x, c))"

definition failm :: "ub \<Rightarrow> ('s, 'a) call" where
  "failm e = (\<lambda>c. Inl e)"

definition lift_world :: "('s world \<Rightarrow> ('a \<times> 's world) c) \<Rightarrow> ('s, 'a) call" where
  "lift_world f = (\<lambda>c. bindc (f (wrld c)) (\<lambda>(x, w). Inr (x, c\<lparr>wrld := w\<rparr>)))"

definition malloc :: "('s, nat) call" where
  "malloc = (\<lambda>c. case mallocs c of
       [] \<Rightarrow> Inr (0, c)
     | a # as \<Rightarrow> Inr (a, c\<lparr>mallocs := as, blocks := (if a = 0 then blocks c else a # blocks c)\<rparr>))"

definition free_block :: "nat \<Rightarrow> ('s, unit) call" where
  "free_block a = (\<lambda>c.
     if a = 0 then Inr ((), c)
     else if a \<in> set (blocks c) then Inr ((), c\<lparr>blocks := remove1 a (blocks c)\<rparr>)
     else Inl Dangling)"

lemma bindm_apply [simp, c_simps]:
  "bindm m f c = bindc (m c) (\<lambda>(x, c). f x c)"
  by (simp add: bindm_def)

lemma retm_apply [simp, c_simps]: "retm x c = Inr (x, c)"
  by (simp add: retm_def)

lemma failm_apply [simp, c_simps]: "failm e c = Inl e"
  by (simp add: failm_def)

section \<open>Data\<close>

type_synonym path = "string option"

record fuse_file_info =
  fi_flags :: int
  fh_old :: "64 word"
  writepage :: int
  direct_io :: bool
  keep_cache :: bool
  fi_flush :: bool
  nonseekable :: bool
  flock_release :: bool
  fh :: "64 word"
  lock_owner :: "64 word"

record fuse_file_info_compat =
  cfi_flags :: int
  cfi_fh :: "64 word"
  cfi_writepage :: int
  cfi_direct_io :: bool
  cfi_keep_cache :: bool

record statvfs =
  f_bsize :: nat
  f_blocks :: nat
  f_bfree :: nat
  f_bavail :: nat
  f_files :: nat
  f_ffree :: nat
  f_namemax :: nat
  f_frsize :: nat

record statfs =
  old_bsize :: nat
  old_blocks :: nat
  old_bfree :: nat
  old_bavail :: nat
  old_files :: nat
  old_ffree :: nat
  old_namelen :: nat

record fuse_statfs_compat1 =
  block_size :: nat
  blocks1 :: nat
  blocks_free :: nat
  files1 :: nat
  files_free :: nat
  namelen :: nat

record fuse_conn_info =
  proto_major :: nat
  proto_minor :: nat
  async_read :: nat
  max_write :: nat
  max_readahead :: nat
  capable :: "32 word"
  want :: "32 word"
  max_background :: nat
  congestion_threshold :: nat

text \<open>
  A directory filler gets a name, its attributes if the caller has them, and the offset of the
  next entry; the \<open>buf\<close> argument that the filesystem passes through is part of the function.
\<close>

type_synonym 's fuse_fill_dir_t = "string \<Rightarrow> stat option \<Rightarrow> int \<Rightarrow> ('s, int) call"
type_synonym 's fuse_dirfil_t = "string \<Rightarrow> nat \<Rightarrow> nat \<Rightarrow> ('s, int) call"

text \<open>
  The slots whose function has another type in the tables of older interfaces. A call through
  the wrong type has no defined behaviour.
\<close>

datatype 's open_slot =
    Open25 "path \<Rightarrow> fuse_file_info \<Rightarrow> ('s, int \<times> fuse_file_info) call"
  | Open22 "path \<Rightarrow> fuse_file_info_compat \<Rightarrow> ('s, int \<times> fuse_file_info_compat) call"
  | Open2 "path \<Rightarrow> int \<Rightarrow> ('s, int) call"

datatype 's statfs_slot =
    Statfs25 "path \<Rightarrow> statvfs \<Rightarrow> ('s, int \<times> statvfs) call"
  | Statfs22 "path \<Rightarrow> statfs \<Rightarrow> ('s, int \<times> statfs) call"
  | Statfs1 "fuse_statfs_compat1 \<Rightarrow> ('s, int \<times> fuse_statfs_compat1) call"

text \<open>\<open>*bufp\<close> of \<open>read_buf\<close>: the address of the vector and the vector.\<close>

type_synonym bufp = "(nat \<times> fuse_bufvec) option"

record 's fuse_operations =
  op_getattr :: "(path \<Rightarrow> stat \<Rightarrow> ('s, int \<times> stat) call) option"
  op_readlink :: "(path \<Rightarrow> nat \<Rightarrow> nat \<Rightarrow> ('s, int) call) option"
  op_getdir :: "(path \<Rightarrow> 's fuse_dirfil_t \<Rightarrow> ('s, int) call) option"
  op_mknod :: "(path \<Rightarrow> nat \<Rightarrow> nat \<Rightarrow> ('s, int) call) option"
  op_mkdir :: "(path \<Rightarrow> nat \<Rightarrow> ('s, int) call) option"
  op_unlink :: "(path \<Rightarrow> ('s, int) call) option"
  op_rmdir :: "(path \<Rightarrow> ('s, int) call) option"
  op_symlink :: "(string \<Rightarrow> path \<Rightarrow> ('s, int) call) option"
  op_rename :: "(path \<Rightarrow> path \<Rightarrow> ('s, int) call) option"
  op_link :: "(path \<Rightarrow> path \<Rightarrow> ('s, int) call) option"
  op_chmod :: "(path \<Rightarrow> nat \<Rightarrow> ('s, int) call) option"
  op_chown :: "(path \<Rightarrow> nat \<Rightarrow> nat \<Rightarrow> ('s, int) call) option"
  op_truncate :: "(path \<Rightarrow> int \<Rightarrow> ('s, int) call) option"
  op_utime :: "(path \<Rightarrow> int \<Rightarrow> int \<Rightarrow> ('s, int) call) option"
  op_open :: "'s open_slot option"
  op_read :: "(path \<Rightarrow> nat \<Rightarrow> nat \<Rightarrow> int \<Rightarrow> fuse_file_info \<Rightarrow> ('s, int \<times> fuse_file_info) call) option"
  op_write :: "(path \<Rightarrow> nat \<Rightarrow> nat \<Rightarrow> int \<Rightarrow> fuse_file_info \<Rightarrow> ('s, int \<times> fuse_file_info) call) option"
  op_statfs :: "'s statfs_slot option"
  op_flush :: "(path \<Rightarrow> fuse_file_info \<Rightarrow> ('s, int \<times> fuse_file_info) call) option"
  op_release :: "'s open_slot option"
  op_fsync :: "(path \<Rightarrow> int \<Rightarrow> fuse_file_info \<Rightarrow> ('s, int \<times> fuse_file_info) call) option"
  op_setxattr :: "(path \<Rightarrow> string \<Rightarrow> nat \<Rightarrow> nat \<Rightarrow> int \<Rightarrow> ('s, int) call) option"
  op_getxattr :: "(path \<Rightarrow> string \<Rightarrow> nat \<Rightarrow> nat \<Rightarrow> ('s, int) call) option"
  op_listxattr :: "(path \<Rightarrow> nat \<Rightarrow> nat \<Rightarrow> ('s, int) call) option"
  op_removexattr :: "(path \<Rightarrow> string \<Rightarrow> ('s, int) call) option"
  op_opendir :: "'s open_slot option"
  op_readdir :: "(path \<Rightarrow> 's fuse_fill_dir_t \<Rightarrow> int \<Rightarrow> fuse_file_info \<Rightarrow> ('s, int \<times> fuse_file_info) call) option"
  op_releasedir :: "(path \<Rightarrow> fuse_file_info \<Rightarrow> ('s, int \<times> fuse_file_info) call) option"
  op_fsyncdir :: "(path \<Rightarrow> int \<Rightarrow> fuse_file_info \<Rightarrow> ('s, int \<times> fuse_file_info) call) option"
  op_init :: "(fuse_conn_info \<Rightarrow> ('s, nat \<times> fuse_conn_info) call) option"
  op_destroy :: "(nat \<Rightarrow> ('s, unit) call) option"
  op_access :: "(path \<Rightarrow> int \<Rightarrow> ('s, int) call) option"
  op_create :: "(path \<Rightarrow> nat \<Rightarrow> fuse_file_info \<Rightarrow> ('s, int \<times> fuse_file_info) call) option"
  op_ftruncate :: "(path \<Rightarrow> int \<Rightarrow> fuse_file_info \<Rightarrow> ('s, int \<times> fuse_file_info) call) option"
  op_fgetattr :: "(path \<Rightarrow> stat \<Rightarrow> fuse_file_info \<Rightarrow> ('s, int \<times> stat \<times> fuse_file_info) call) option"
  op_lock :: "(path \<Rightarrow> fuse_file_info \<Rightarrow> int \<Rightarrow> flock \<Rightarrow> ('s, int \<times> fuse_file_info \<times> flock) call) option"
  op_utimens :: "(path \<Rightarrow> timespec \<Rightarrow> timespec \<Rightarrow> ('s, int) call) option"
  op_bmap :: "(path \<Rightarrow> nat \<Rightarrow> 64 word \<Rightarrow> ('s, int \<times> 64 word) call) option"
  flag_nullpath_ok :: bool
  flag_nopath :: bool
  flag_utime_omit_ok :: bool
  op_ioctl :: "(path \<Rightarrow> int \<Rightarrow> nat \<Rightarrow> fuse_file_info \<Rightarrow> nat \<Rightarrow> nat \<Rightarrow> ('s, int \<times> fuse_file_info) call) option"
  op_poll :: "(path \<Rightarrow> fuse_file_info \<Rightarrow> nat \<Rightarrow> nat \<Rightarrow> ('s, int \<times> fuse_file_info \<times> nat) call) option"
  op_write_buf :: "(path \<Rightarrow> fuse_bufvec \<Rightarrow> int \<Rightarrow> fuse_file_info \<Rightarrow> ('s, int \<times> fuse_file_info) call) option"
  op_read_buf :: "(path \<Rightarrow> bufp \<Rightarrow> nat \<Rightarrow> int \<Rightarrow> fuse_file_info \<Rightarrow> ('s, int \<times> bufp \<times> fuse_file_info) call) option"
  op_flock :: "(path \<Rightarrow> fuse_file_info \<Rightarrow> int \<Rightarrow> ('s, int \<times> fuse_file_info) call) option"

text \<open>A filesystem object at an address, with the module it comes from (or \<open>0\<close>) and without \<open>user_data\<close>, which \<open>fuse_fs_init\<close> changes.\<close>

record 's fuse_fs =
  fs_addr :: nat
  fs_mod :: nat
  op :: "'s fuse_operations"
  compat :: nat


definition FUSE_BUFVEC_INIT :: "nat \<Rightarrow> fuse_bufvec" where
  "FUSE_BUFVEC_INIT sz = \<lparr>bufs = [\<lparr>buf_size = sz, is_fd = False, fd_seek = False, fd_retry = False,
     mem = 0, fd = 0, pos = 0\<rparr>], idx = 0, off = 0\<rparr>"

definition mem_bufvec :: "nat \<Rightarrow> nat \<Rightarrow> fuse_bufvec" where
  "mem_bufvec m sz = (let v = FUSE_BUFVEC_INIT sz in v\<lparr>bufs := (bufs v)[0 := (bufs v ! 0)\<lparr>mem := m\<rparr>]\<rparr>)"

definition no_flags :: fuse_buf_copy_flags where
  "no_flags = \<lparr>no_splice = False, force_splice = False, splice_move = False, splice_nonblock = False\<rparr>"

section \<open>Filesystems written for older interfaces\<close>

text \<open>\<open>memcpy (&tmp, fi, sizeof (tmp))\<close>, and back with \<open>fi->fh = tmp.fh\<close>.\<close>

definition fi_to_compat :: "fuse_file_info \<Rightarrow> fuse_file_info_compat" where
  "fi_to_compat fi = \<lparr>cfi_flags = fi_flags fi, cfi_fh = fh_old fi, cfi_writepage = writepage fi,
     cfi_direct_io = direct_io fi, cfi_keep_cache = keep_cache fi\<rparr>"

definition fi_of_compat :: "fuse_file_info_compat \<Rightarrow> fuse_file_info \<Rightarrow> fuse_file_info" where
  "fi_of_compat tmp fi = fi\<lparr>fi_flags := cfi_flags tmp, fh_old := cfi_fh tmp, writepage := cfi_writepage tmp,
     direct_io := cfi_direct_io tmp, keep_cache := cfi_keep_cache tmp, fh := cfi_fh tmp\<rparr>"

definition fuse_compat_open :: "'s fuse_fs \<Rightarrow> 's open_slot \<Rightarrow> path \<Rightarrow> fuse_file_info \<Rightarrow> ('s, int \<times> fuse_file_info) call" where
  "fuse_compat_open fs slot path fi =
     (if compat fs = 0 \<or> 25 \<le> compat fs then
        (case slot of Open25 f \<Rightarrow> f path fi | _ \<Rightarrow> failm WrongType)
      else if compat fs = 22 then
        (case slot of
           Open22 f \<Rightarrow> bindm (f path (fi_to_compat fi)) (\<lambda>(err, tmp). retm (err, fi_of_compat tmp fi))
         | _ \<Rightarrow> failm WrongType)
      else
        (case slot of
           Open2 f \<Rightarrow> bindm (f path (fi_flags fi)) (\<lambda>err. retm (err, fi))
         | _ \<Rightarrow> failm WrongType))"

definition fuse_compat_release :: "'s fuse_fs \<Rightarrow> 's open_slot \<Rightarrow> path \<Rightarrow> fuse_file_info \<Rightarrow> ('s, int \<times> fuse_file_info) call" where
  "fuse_compat_release fs slot path fi =
     (if compat fs = 0 \<or> 22 \<le> compat fs then
        (case slot of Open25 f \<Rightarrow> f path fi | _ \<Rightarrow> failm WrongType)
      else
        (case slot of
           Open2 f \<Rightarrow> bindm (f path (fi_flags fi)) (\<lambda>err. retm (err, fi))
         | _ \<Rightarrow> failm WrongType))"

definition fuse_compat_opendir :: "'s fuse_fs \<Rightarrow> 's open_slot \<Rightarrow> path \<Rightarrow> fuse_file_info \<Rightarrow> ('s, int \<times> fuse_file_info) call" where
  "fuse_compat_opendir fs slot path fi =
     (if compat fs = 0 \<or> 25 \<le> compat fs then
        (case slot of Open25 f \<Rightarrow> f path fi | _ \<Rightarrow> failm WrongType)
      else
        (case slot of
           Open22 f \<Rightarrow> bindm (f path (fi_to_compat fi)) (\<lambda>(err, tmp). retm (err, fi_of_compat tmp fi))
         | _ \<Rightarrow> failm WrongType))"

definition convert_statfs_compat :: "fuse_statfs_compat1 \<Rightarrow> statvfs \<Rightarrow> statvfs" where
  "convert_statfs_compat compatbuf stbuf = stbuf\<lparr>f_bsize := block_size compatbuf,
     f_blocks := blocks1 compatbuf, f_bfree := blocks_free compatbuf, f_bavail := blocks_free compatbuf,
     f_files := files1 compatbuf, f_ffree := files_free compatbuf, f_namemax := namelen compatbuf\<rparr>"

definition convert_statfs_old :: "statfs \<Rightarrow> statvfs \<Rightarrow> statvfs" where
  "convert_statfs_old oldbuf stbuf = stbuf\<lparr>f_bsize := old_bsize oldbuf,
     f_blocks := old_blocks oldbuf, f_bfree := old_bfree oldbuf, f_bavail := old_bavail oldbuf,
     f_files := old_files oldbuf, f_ffree := old_ffree oldbuf, f_namemax := old_namelen oldbuf\<rparr>"

text \<open>\<open>junk\<close> is what the uninitialised \<open>struct statfs\<close> on the stack holds.\<close>

definition fuse_compat_statfs :: "statfs \<Rightarrow> 's fuse_fs \<Rightarrow> 's statfs_slot \<Rightarrow> path \<Rightarrow> statvfs \<Rightarrow> ('s, int \<times> statvfs) call" where
  "fuse_compat_statfs junk fs slot path buf =
     (if compat fs = 0 \<or> 25 \<le> compat fs then
        (case slot of
           Statfs25 f \<Rightarrow> f (if compat fs = 25 then Some ''/'' else path) buf
         | _ \<Rightarrow> failm WrongType)
      else if 11 < compat fs then
        (case slot of
           Statfs22 f \<Rightarrow> bindm (f (Some ''/'') junk) (\<lambda>(err, oldbuf).
             retm (err, if err = 0 then convert_statfs_old oldbuf buf else buf))
         | _ \<Rightarrow> failm WrongType)
      else
        (case slot of
           Statfs1 f \<Rightarrow>
             bindm (f \<lparr>block_size = 0, blocks1 = 0, blocks_free = 0, files1 = 0, files_free = 0, namelen = 0\<rparr>)
               (\<lambda>(err, compatbuf). retm (err, if err = 0 then convert_statfs_compat compatbuf buf else buf))
         | _ \<Rightarrow> failm WrongType))"

section \<open>Calling an operation\<close>

text \<open>
  \<open>fuse_get_context()->private_data = fs->user_data\<close>, and the frame that every function below
  has: the call if the slot is filled, otherwise a value.
\<close>

definition set_context :: "'s fuse_fs \<Rightarrow> 's ctx \<Rightarrow> 's ctx" where
  "set_context fs c = c\<lparr>private_data := user_data c (fs_addr fs)\<rparr>"

definition dispatch :: "'s fuse_fs \<Rightarrow> 'f option \<Rightarrow> 'r \<Rightarrow> ('f \<Rightarrow> ('s, 'r) call) \<Rightarrow> ('s, 'r) call" where
  "dispatch fs slot dflt k = (\<lambda>c.
     let c = set_context fs c in
     case slot of Some f \<Rightarrow> k f c | None \<Rightarrow> Inr (dflt, c))"

definition fuse_fs_getattr :: "'s fuse_fs \<Rightarrow> path \<Rightarrow> stat \<Rightarrow> ('s, int \<times> stat) call" where
  "fuse_fs_getattr fs path buf =
     dispatch fs (op_getattr (op fs)) (- ENOSYS, buf) (\<lambda>getattr. getattr path buf)"

definition fuse_fs_fgetattr :: "'s fuse_fs \<Rightarrow> path \<Rightarrow> stat \<Rightarrow> fuse_file_info \<Rightarrow> ('s, int \<times> stat \<times> fuse_file_info) call" where
  "fuse_fs_fgetattr fs path buf fi = (\<lambda>c.
     let c = set_context fs c in
     case op_fgetattr (op fs) of
       Some fgetattr \<Rightarrow> fgetattr path buf fi c
     | None \<Rightarrow>
         if path \<noteq> None \<and> op_getattr (op fs) \<noteq> None then
           bindm (the (op_getattr (op fs)) path buf) (\<lambda>(res, buf). retm (res, buf, fi)) c
         else Inr ((- ENOSYS, buf, fi), c))"

definition fuse_fs_rename :: "'s fuse_fs \<Rightarrow> path \<Rightarrow> path \<Rightarrow> ('s, int) call" where
  "fuse_fs_rename fs oldpath newpath =
     dispatch fs (op_rename (op fs)) (- ENOSYS) (\<lambda>rename. rename oldpath newpath)"

definition fuse_fs_unlink :: "'s fuse_fs \<Rightarrow> path \<Rightarrow> ('s, int) call" where
  "fuse_fs_unlink fs path = dispatch fs (op_unlink (op fs)) (- ENOSYS) (\<lambda>unlink. unlink path)"

definition fuse_fs_rmdir :: "'s fuse_fs \<Rightarrow> path \<Rightarrow> ('s, int) call" where
  "fuse_fs_rmdir fs path = dispatch fs (op_rmdir (op fs)) (- ENOSYS) (\<lambda>rmdir. rmdir path)"

definition fuse_fs_symlink :: "'s fuse_fs \<Rightarrow> string \<Rightarrow> path \<Rightarrow> ('s, int) call" where
  "fuse_fs_symlink fs linkname path =
     dispatch fs (op_symlink (op fs)) (- ENOSYS) (\<lambda>symlink. symlink linkname path)"

definition fuse_fs_link :: "'s fuse_fs \<Rightarrow> path \<Rightarrow> path \<Rightarrow> ('s, int) call" where
  "fuse_fs_link fs oldpath newpath =
     dispatch fs (op_link (op fs)) (- ENOSYS) (\<lambda>link. link oldpath newpath)"

definition fuse_fs_release :: "'s fuse_fs \<Rightarrow> path \<Rightarrow> fuse_file_info \<Rightarrow> ('s, int \<times> fuse_file_info) call" where
  "fuse_fs_release fs path fi =
     dispatch fs (op_release (op fs)) (0, fi) (\<lambda>slot. fuse_compat_release fs slot path fi)"

definition fuse_fs_opendir :: "'s fuse_fs \<Rightarrow> path \<Rightarrow> fuse_file_info \<Rightarrow> ('s, int \<times> fuse_file_info) call" where
  "fuse_fs_opendir fs path fi =
     dispatch fs (op_opendir (op fs)) (0, fi) (\<lambda>slot. fuse_compat_opendir fs slot path fi)"

definition fuse_fs_open :: "'s fuse_fs \<Rightarrow> path \<Rightarrow> fuse_file_info \<Rightarrow> ('s, int \<times> fuse_file_info) call" where
  "fuse_fs_open fs path fi =
     dispatch fs (op_open (op fs)) (0, fi) (\<lambda>slot. fuse_compat_open fs slot path fi)"

section \<open>Reading and writing\<close>

primrec free_bufs :: "fuse_buf list \<Rightarrow> ('s, unit) call" where
  "free_bufs [] = retm ()"
| "free_bufs (b # bs) = bindm (free_block (mem b)) (\<lambda>_. free_bufs bs)"

definition fuse_free_buf :: "bufp \<Rightarrow> ('s, unit) call" where
  "fuse_free_buf buf =
     (case buf of
        None \<Rightarrow> retm ()
      | Some (a, v) \<Rightarrow> bindm (free_bufs (bufs v)) (\<lambda>_. free_block a))"

text \<open>The part of \<open>fuse_fs_read_buf\<close> for a filesystem with \<open>read\<close> only.\<close>

definition read_into_buf :: "(path \<Rightarrow> nat \<Rightarrow> nat \<Rightarrow> int \<Rightarrow> fuse_file_info \<Rightarrow> ('s, int \<times> fuse_file_info) call)
    \<Rightarrow> path \<Rightarrow> bufp \<Rightarrow> nat \<Rightarrow> int \<Rightarrow> fuse_file_info \<Rightarrow> ('s, int \<times> bufp \<times> fuse_file_info) call" where
  "read_into_buf read path bufp sz ofs fi =
     bindm malloc (\<lambda>buf.
     if buf = 0 then retm (- ENOMEM, bufp, fi)
     else bindm malloc (\<lambda>m.
       if m = 0 then bindm (free_block buf) (\<lambda>_. retm (- ENOMEM, bufp, fi))
       else bindm (read path m sz ofs fi) (\<lambda>(res, fi).
         retm (res, Some (buf, mem_bufvec m (if 0 \<le> res then nat res else sz)), fi))))"

definition fuse_fs_read_buf :: "'s fuse_fs \<Rightarrow> path \<Rightarrow> bufp \<Rightarrow> nat \<Rightarrow> int \<Rightarrow> fuse_file_info
    \<Rightarrow> ('s, int \<times> bufp \<times> fuse_file_info) call" where
  "fuse_fs_read_buf fs path bufp sz ofs fi = (\<lambda>c.
     let c = set_context fs c in
     if op_read (op fs) = None \<and> op_read_buf (op fs) = None then Inr ((- ENOSYS, bufp, fi), c)
     else
       bindm (case op_read_buf (op fs) of
                Some read_buf \<Rightarrow> read_buf path bufp sz ofs fi
              | None \<Rightarrow> read_into_buf (the (op_read (op fs))) path bufp sz ofs fi)
         (\<lambda>(res, bufp, fi). retm (if res < 0 then res else 0, bufp, fi)) c)"

text \<open>\<open>fuse_buf_copy\<close> of a null \<open>buf\<close> would dereference it; the result is stored in an \<open>int\<close>.\<close>

definition fuse_fs_read :: "'s kernel \<Rightarrow> nat \<Rightarrow> 's fuse_fs \<Rightarrow> path \<Rightarrow> nat \<Rightarrow> nat \<Rightarrow> int \<Rightarrow> fuse_file_info
    \<Rightarrow> ('s, int \<times> fuse_file_info) call" where
  "fuse_fs_read K tmp fs path m sz ofs fi =
     bindm (fuse_fs_read_buf fs path None sz ofs fi) (\<lambda>(res, buf, fi).
     bindm (if res = 0 then
              (case buf of
                 None \<Rightarrow> failm NullDeref
               | Some (_, v) \<Rightarrow> bindm (lift_world (fuse_buf_copy K tmp False (mem_bufvec m sz) v no_flags))
                   (\<lambda>n. retm (c_int n)))
            else retm res) (\<lambda>res.
     bindm (fuse_free_buf buf) (\<lambda>_. retm (res, fi))))"

text \<open>The part of \<open>fuse_fs_write_buf\<close> for a filesystem with \<open>write\<close> only.\<close>

definition write_flat :: "'s kernel \<Rightarrow> nat \<Rightarrow> (path \<Rightarrow> nat \<Rightarrow> nat \<Rightarrow> int \<Rightarrow> fuse_file_info \<Rightarrow> ('s, int \<times> fuse_file_info) call)
    \<Rightarrow> path \<Rightarrow> fuse_bufvec \<Rightarrow> int \<Rightarrow> fuse_file_info \<Rightarrow> ('s, int \<times> fuse_file_info) call" where
  "write_flat K tmp write path buf ofs fi =
     (let sz = fuse_buf_size buf in
      if length (bufs buf) = 1 \<and> \<not> is_fd (bufs buf ! 0) then
        write path (mem (bufs buf ! 0)) (buf_size (bufs buf ! 0)) ofs fi
      else bindm malloc (\<lambda>m.
        if m = 0 then retm (- ENOMEM, fi)
        else bindm (lift_world (fuse_buf_copy K tmp False (mem_bufvec m sz) buf no_flags)) (\<lambda>n.
          bindm (if c_int n \<le> 0 then retm (c_int n, fi) else write path m (nat (c_int n)) ofs fi)
            (\<lambda>res. bindm (free_block m) (\<lambda>_. retm res)))))"

definition fuse_fs_write_buf :: "'s kernel \<Rightarrow> nat \<Rightarrow> 's fuse_fs \<Rightarrow> path \<Rightarrow> fuse_bufvec \<Rightarrow> int \<Rightarrow> fuse_file_info
    \<Rightarrow> ('s, int \<times> fuse_file_info) call" where
  "fuse_fs_write_buf K tmp fs path buf ofs fi = (\<lambda>c.
     let c = set_context fs c in
     if op_write_buf (op fs) = None \<and> op_write (op fs) = None then Inr ((- ENOSYS, fi), c)
     else if idx buf \<noteq> 0 \<or> off buf \<noteq> 0 then Inl Aborted
     else (case op_write_buf (op fs) of
        Some write_buf \<Rightarrow> write_buf path buf ofs fi c
      | None \<Rightarrow> write_flat K tmp (the (op_write (op fs))) path buf ofs fi c))"

definition fuse_fs_write :: "'s kernel \<Rightarrow> nat \<Rightarrow> 's fuse_fs \<Rightarrow> path \<Rightarrow> nat \<Rightarrow> nat \<Rightarrow> int \<Rightarrow> fuse_file_info
    \<Rightarrow> ('s, int \<times> fuse_file_info) call" where
  "fuse_fs_write K tmp fs path m sz ofs fi = fuse_fs_write_buf K tmp fs path (mem_bufvec m sz) ofs fi"


section \<open>The other operations\<close>

definition fuse_fs_fsync :: "'s fuse_fs \<Rightarrow> path \<Rightarrow> int \<Rightarrow> fuse_file_info \<Rightarrow> ('s, int \<times> fuse_file_info) call" where
  "fuse_fs_fsync fs path datasync fi =
     dispatch fs (op_fsync (op fs)) (- ENOSYS, fi) (\<lambda>fsync. fsync path datasync fi)"

definition fuse_fs_fsyncdir :: "'s fuse_fs \<Rightarrow> path \<Rightarrow> int \<Rightarrow> fuse_file_info \<Rightarrow> ('s, int \<times> fuse_file_info) call" where
  "fuse_fs_fsyncdir fs path datasync fi =
     dispatch fs (op_fsyncdir (op fs)) (- ENOSYS, fi) (\<lambda>fsyncdir. fsyncdir path datasync fi)"

definition fuse_fs_flush :: "'s fuse_fs \<Rightarrow> path \<Rightarrow> fuse_file_info \<Rightarrow> ('s, int \<times> fuse_file_info) call" where
  "fuse_fs_flush fs path fi =
     dispatch fs (op_flush (op fs)) (- ENOSYS, fi) (\<lambda>flush. flush path fi)"

definition fuse_fs_statfs :: "statfs \<Rightarrow> 's fuse_fs \<Rightarrow> path \<Rightarrow> statvfs \<Rightarrow> ('s, int \<times> statvfs) call" where
  "fuse_fs_statfs junk fs path buf =
     dispatch fs (op_statfs (op fs)) (0, buf\<lparr>f_namemax := 255, f_bsize := 512\<rparr>)
       (\<lambda>slot. fuse_compat_statfs junk fs slot path buf)"

definition fuse_fs_releasedir :: "'s fuse_fs \<Rightarrow> path \<Rightarrow> fuse_file_info \<Rightarrow> ('s, int \<times> fuse_file_info) call" where
  "fuse_fs_releasedir fs path fi =
     dispatch fs (op_releasedir (op fs)) (0, fi) (\<lambda>releasedir. releasedir path fi)"

definition fill_dir_old :: "'s fuse_fill_dir_t \<Rightarrow> 's fuse_dirfil_t" where
  "fill_dir_old filler name type ino =
     bindm (filler name (Some (stat0\<lparr>st_mode := (type * 2 ^ 12) mod 2 ^ 32, st_ino := ino\<rparr>)) 0) (\<lambda>res.
       retm (if res \<noteq> 0 then - ENOMEM else 0))"

definition fuse_fs_readdir :: "'s fuse_fs \<Rightarrow> path \<Rightarrow> 's fuse_fill_dir_t \<Rightarrow> int \<Rightarrow> fuse_file_info
    \<Rightarrow> ('s, int \<times> fuse_file_info) call" where
  "fuse_fs_readdir fs path filler ofs fi = (\<lambda>c.
     let c = set_context fs c in
     case op_readdir (op fs) of
       Some readdir \<Rightarrow> readdir path filler ofs fi c
     | None \<Rightarrow>
         (case op_getdir (op fs) of
            Some getdir \<Rightarrow> bindm (getdir path (fill_dir_old filler)) (\<lambda>res. retm (res, fi)) c
          | None \<Rightarrow> Inr ((- ENOSYS, fi), c)))"

definition fuse_fs_create :: "'s fuse_fs \<Rightarrow> path \<Rightarrow> nat \<Rightarrow> fuse_file_info \<Rightarrow> ('s, int \<times> fuse_file_info) call" where
  "fuse_fs_create fs path mode fi =
     dispatch fs (op_create (op fs)) (- ENOSYS, fi) (\<lambda>create. create path mode fi)"

definition fuse_fs_lock :: "'s fuse_fs \<Rightarrow> path \<Rightarrow> fuse_file_info \<Rightarrow> int \<Rightarrow> flock \<Rightarrow> ('s, int \<times> fuse_file_info \<times> flock) call" where
  "fuse_fs_lock fs path fi cmd lck =
     dispatch fs (op_lock (op fs)) (- ENOSYS, fi, lck) (\<lambda>lock. lock path fi cmd lck)"

definition fuse_fs_flock :: "'s fuse_fs \<Rightarrow> path \<Rightarrow> fuse_file_info \<Rightarrow> int \<Rightarrow> ('s, int \<times> fuse_file_info) call" where
  "fuse_fs_flock fs path fi lop =
     dispatch fs (op_flock (op fs)) (- ENOSYS, fi) (\<lambda>flock. flock path fi lop)"

definition fuse_fs_chown :: "'s fuse_fs \<Rightarrow> path \<Rightarrow> nat \<Rightarrow> nat \<Rightarrow> ('s, int) call" where
  "fuse_fs_chown fs path uid gid =
     dispatch fs (op_chown (op fs)) (- ENOSYS) (\<lambda>chown. chown path uid gid)"

definition fuse_fs_chmod :: "'s fuse_fs \<Rightarrow> path \<Rightarrow> nat \<Rightarrow> ('s, int) call" where
  "fuse_fs_chmod fs path mode =
     dispatch fs (op_chmod (op fs)) (- ENOSYS) (\<lambda>chmod. chmod path mode)"

definition fuse_fs_truncate :: "'s fuse_fs \<Rightarrow> path \<Rightarrow> int \<Rightarrow> ('s, int) call" where
  "fuse_fs_truncate fs path sz =
     dispatch fs (op_truncate (op fs)) (- ENOSYS) (\<lambda>truncate. truncate path sz)"

definition fuse_fs_ftruncate :: "'s fuse_fs \<Rightarrow> path \<Rightarrow> int \<Rightarrow> fuse_file_info \<Rightarrow> ('s, int \<times> fuse_file_info) call" where
  "fuse_fs_ftruncate fs path sz fi = (\<lambda>c.
     let c = set_context fs c in
     case op_ftruncate (op fs) of
       Some ftruncate \<Rightarrow> ftruncate path sz fi c
     | None \<Rightarrow>
         if path \<noteq> None \<and> op_truncate (op fs) \<noteq> None then
           bindm (the (op_truncate (op fs)) path sz) (\<lambda>res. retm (res, fi)) c
         else Inr ((- ENOSYS, fi), c))"

definition fuse_fs_utimens :: "'s fuse_fs \<Rightarrow> path \<Rightarrow> timespec \<Rightarrow> timespec \<Rightarrow> ('s, int) call" where
  "fuse_fs_utimens fs path tv0 tv1 = (\<lambda>c.
     let c = set_context fs c in
     case op_utimens (op fs) of
       Some utimens \<Rightarrow> utimens path tv0 tv1 c
     | None \<Rightarrow>
         (case op_utime (op fs) of
            Some utime \<Rightarrow> utime path (tv_sec tv0) (tv_sec tv1) c
          | None \<Rightarrow> Inr (- ENOSYS, c)))"

definition fuse_fs_access :: "'s fuse_fs \<Rightarrow> path \<Rightarrow> int \<Rightarrow> ('s, int) call" where
  "fuse_fs_access fs path amask =
     dispatch fs (op_access (op fs)) (- ENOSYS) (\<lambda>access. access path amask)"

definition fuse_fs_readlink :: "'s fuse_fs \<Rightarrow> path \<Rightarrow> nat \<Rightarrow> nat \<Rightarrow> ('s, int) call" where
  "fuse_fs_readlink fs path buf len =
     dispatch fs (op_readlink (op fs)) (- ENOSYS) (\<lambda>readlink. readlink path buf len)"

definition fuse_fs_mknod :: "'s fuse_fs \<Rightarrow> path \<Rightarrow> nat \<Rightarrow> nat \<Rightarrow> ('s, int) call" where
  "fuse_fs_mknod fs path mode rdev =
     dispatch fs (op_mknod (op fs)) (- ENOSYS) (\<lambda>mknod. mknod path mode rdev)"

definition fuse_fs_mkdir :: "'s fuse_fs \<Rightarrow> path \<Rightarrow> nat \<Rightarrow> ('s, int) call" where
  "fuse_fs_mkdir fs path mode =
     dispatch fs (op_mkdir (op fs)) (- ENOSYS) (\<lambda>mkdir. mkdir path mode)"

definition fuse_fs_setxattr :: "'s fuse_fs \<Rightarrow> path \<Rightarrow> string \<Rightarrow> nat \<Rightarrow> nat \<Rightarrow> int \<Rightarrow> ('s, int) call" where
  "fuse_fs_setxattr fs path name val sz flags =
     dispatch fs (op_setxattr (op fs)) (- ENOSYS) (\<lambda>setxattr. setxattr path name val sz flags)"

definition fuse_fs_getxattr :: "'s fuse_fs \<Rightarrow> path \<Rightarrow> string \<Rightarrow> nat \<Rightarrow> nat \<Rightarrow> ('s, int) call" where
  "fuse_fs_getxattr fs path name val sz =
     dispatch fs (op_getxattr (op fs)) (- ENOSYS) (\<lambda>getxattr. getxattr path name val sz)"

definition fuse_fs_listxattr :: "'s fuse_fs \<Rightarrow> path \<Rightarrow> nat \<Rightarrow> nat \<Rightarrow> ('s, int) call" where
  "fuse_fs_listxattr fs path lst sz =
     dispatch fs (op_listxattr (op fs)) (- ENOSYS) (\<lambda>listxattr. listxattr path lst sz)"

definition fuse_fs_bmap :: "'s fuse_fs \<Rightarrow> path \<Rightarrow> nat \<Rightarrow> 64 word \<Rightarrow> ('s, int \<times> 64 word) call" where
  "fuse_fs_bmap fs path blocksize ix =
     dispatch fs (op_bmap (op fs)) (- ENOSYS, ix) (\<lambda>bmap. bmap path blocksize ix)"

definition fuse_fs_removexattr :: "'s fuse_fs \<Rightarrow> path \<Rightarrow> string \<Rightarrow> ('s, int) call" where
  "fuse_fs_removexattr fs path name =
     dispatch fs (op_removexattr (op fs)) (- ENOSYS) (\<lambda>removexattr. removexattr path name)"

definition fuse_fs_ioctl :: "'s fuse_fs \<Rightarrow> path \<Rightarrow> int \<Rightarrow> nat \<Rightarrow> fuse_file_info \<Rightarrow> nat \<Rightarrow> nat \<Rightarrow> ('s, int \<times> fuse_file_info) call" where
  "fuse_fs_ioctl fs path cmd arg fi flags dat =
     dispatch fs (op_ioctl (op fs)) (- ENOSYS, fi) (\<lambda>ioctl. ioctl path cmd arg fi flags dat)"

definition fuse_fs_poll :: "'s fuse_fs \<Rightarrow> path \<Rightarrow> fuse_file_info \<Rightarrow> nat \<Rightarrow> nat \<Rightarrow> ('s, int \<times> fuse_file_info \<times> nat) call" where
  "fuse_fs_poll fs path fi ph revents =
     dispatch fs (op_poll (op fs)) (- ENOSYS, fi, revents) (\<lambda>poll. poll path fi ph revents)"

section \<open>Life cycle\<close>

definition FUSE_CAP_POSIX_LOCKS :: "32 word" where "FUSE_CAP_POSIX_LOCKS = 0x2"
definition FUSE_CAP_SPLICE_READ :: "32 word" where "FUSE_CAP_SPLICE_READ = 0x200"
definition FUSE_CAP_FLOCK_LOCKS :: "32 word" where "FUSE_CAP_FLOCK_LOCKS = 0x400"

definition drop_cap :: "bool \<Rightarrow> 32 word \<Rightarrow> fuse_conn_info \<Rightarrow> fuse_conn_info" where
  "drop_cap missing cap conn = (if missing then conn\<lparr>want := want conn AND NOT cap\<rparr> else conn)"

text \<open>The new \<open>user_data\<close> is stored in the object.\<close>

definition fuse_fs_init :: "'s fuse_fs \<Rightarrow> fuse_conn_info \<Rightarrow> ('s, fuse_conn_info) call" where
  "fuse_fs_init fs conn = (\<lambda>c.
     let c = set_context fs c;
         conn = drop_cap (op_write_buf (op fs) = None) FUSE_CAP_SPLICE_READ conn;
         conn = drop_cap (op_lock (op fs) = None) FUSE_CAP_POSIX_LOCKS conn;
         conn = drop_cap (op_flock (op fs) = None) FUSE_CAP_FLOCK_LOCKS conn
     in case op_init (op fs) of
          Some init \<Rightarrow> bindm (init conn) (\<lambda>(d, conn) c.
            Inr (conn, c\<lparr>user_data := (user_data c)(fs_addr fs := d)\<rparr>)) c
        | None \<Rightarrow> Inr (conn, c))"

definition put_module :: "nat \<Rightarrow> ('s, unit) call" where
  "put_module m = (\<lambda>c. bindc (fuse_put_module m (registry c)) (\<lambda>r. Inr ((), c\<lparr>registry := r\<rparr>)))"

definition fuse_fs_destroy :: "'s fuse_fs \<Rightarrow> ('s, unit) call" where
  "fuse_fs_destroy fs = (\<lambda>c.
     let c = set_context fs c in
     bindm (case op_destroy (op fs) of
              Some destroy \<Rightarrow> destroy (user_data c (fs_addr fs))
            | None \<Rightarrow> retm ()) (\<lambda>_.
     bindm (if fs_mod fs \<noteq> 0 then put_module (fs_mod fs) else retm ()) (\<lambda>_.
       free_block (fs_addr fs))) c)"

text \<open>A zeroed table.\<close>

definition no_ops :: "'s fuse_operations" where
  "no_ops = \<lparr>op_getattr = None, op_readlink = None, op_getdir = None, op_mknod = None, op_mkdir = None,
     op_unlink = None, op_rmdir = None, op_symlink = None, op_rename = None, op_link = None, op_chmod = None,
     op_chown = None, op_truncate = None, op_utime = None, op_open = None, op_read = None, op_write = None,
     op_statfs = None, op_flush = None, op_release = None, op_fsync = None, op_setxattr = None, op_getxattr = None,
     op_listxattr = None, op_removexattr = None, op_opendir = None, op_readdir = None, op_releasedir = None,
     op_fsyncdir = None, op_init = None, op_destroy = None, op_access = None, op_create = None, op_ftruncate = None,
     op_fgetattr = None, op_lock = None, op_utimens = None, op_bmap = None, flag_nullpath_ok = False,
     flag_nopath = False, flag_utime_omit_ok = False, op_ioctl = None, op_poll = None, op_write_buf = None,
     op_read_buf = None, op_flock = None\<rparr>"

text \<open>
  \<open>op_size\<close> bytes of the caller's table are copied over a zeroed one. \<open>oper\<close> is the table with the
  slots beyond \<open>op_size\<close> empty, which is what the copy gives.
\<close>

definition fuse_fs_new :: "'s fuse_operations \<Rightarrow> nat \<Rightarrow> ('s, 's fuse_fs option) call" where
  "fuse_fs_new oper data =
     bindm malloc (\<lambda>a c.
       if a = 0 then Inr (None, c)
       else Inr (Some \<lparr>fs_addr = a, fs_mod = 0, op = oper, compat = 0\<rparr>,
              c\<lparr>user_data := (user_data c)(a := data)\<rparr>))"

end
