(* ===== verification/Fuse_Io.thy ===== *)
theory Fuse_Io
  imports Fuse_Fs
begin

text \<open>
  Reading and writing through the filesystem layer of \<open>src/lib/fuse.c\<close>: what \<open>fuse_fs_read\<close> and
  \<open>fuse_fs_write_buf\<close> do for a filesystem that has the plain \<open>read\<close> and \<open>write\<close> operations only,
  down to the bytes that are moved and the blocks that are allocated and freed.
\<close>

section \<open>Copying between two blocks\<close>

lemma mem_bufvec_simps [simp]:
  "bufs (mem_bufvec m n) = [\<lparr>buf_size = n, is_fd = False, fd_seek = False, fd_retry = False, mem = m, fd = 0, pos = 0\<rparr>]"
  "idx (mem_bufvec m n) = 0" "off (mem_bufvec m n) = 0"
  by (simp_all add: mem_bufvec_def FUSE_BUFVEC_INIT_def)

lemma store_same [simp]: "store a (load m a n) m = m"
  by (rule ext) (auto simp: store_def load_def nth_map_upt less_diff_conv2)

lemma mem_bufvec_remaining [simp]: "remaining (mem_bufvec m n) = [m..<m + n]"
  by (simp add: remaining_def addrs_def)

lemma in_memory_mem_bufvec [simp]: "in_memory (mem_bufvec m n)"
  by (simp add: in_memory_def in_bounds_def)

lemma copy_blocks:
  "fuse_buf_copy K tmp False (mem_bufvec m sz) (mem_bufvec b n) fl w =
     Inr (int (min n sz), w\<lparr>memory := store m (load (memory w) b (min n sz)) (memory w)\<rparr>)"
proof -
  have "fuse_buf_copy_one K tmp \<lparr>buf_size = sz, is_fd = False, fd_seek = False, fd_retry = False, mem = m, fd = 0, pos = 0\<rparr> 0
      \<lparr>buf_size = n, is_fd = False, fd_seek = False, fd_retry = False, mem = b, fd = 0, pos = 0\<rparr> 0 (min n sz) fl w
      = Inr (int (min n sz), w\<lparr>memory := store m (load (memory w) b (min n sz)) (memory w)\<rparr>)"
    by (auto simp: fuse_buf_copy_one_def)
  then show ?thesis
    by (subst fuse_buf_copy_def, subst if_not_P, simp, subst copy_loop.simps)
      (auto simp: fuse_bufvec_current_def fuse_bufvec_advance_def min_size_def min_def)
qed

lemma copy_blocks_lifted [simp]:
  "lift_world (fuse_buf_copy K tmp False (mem_bufvec m sz) (mem_bufvec b n) fl) c =
     Inr (int (min n sz), c\<lparr>wrld := (wrld c)\<lparr>memory := store m (load (memory (wrld c)) b (min n sz)) (memory (wrld c))\<rparr>\<rparr>)"
  by (simp add: lift_world_def copy_blocks)

lemma c_int_small [simp]: "n \<le> nat int_max \<Longrightarrow> c_int (int n) = int n"
  by (intro c_int_id) (simp add: in_int_def int_min_def int_max_def)

lemma free_head [simp]: "a \<noteq> 0 \<Longrightarrow> blocks c = a # bs \<Longrightarrow> free_block a c = Inr ((), c\<lparr>blocks := bs\<rparr>)"
  by (simp add: free_block_def)

lemma set_context_simps [simp]:
  "mallocs (set_context fs c) = mallocs c" "blocks (set_context fs c) = blocks c" "wrld (set_context fs c) = wrld c"
  "private_data (set_context fs c) = user_data c (fs_addr fs)" "user_data (set_context fs c) = user_data c"
  "registry (set_context fs c) = registry c"
  by (simp_all add: set_context_def)

section \<open>Reading\<close>

lemma read_into_buf_plain:
  assumes "mallocs c = a # b # ms" "a \<noteq> 0" "b \<noteq> 0"
    and "rd path b sz ofs fi (c\<lparr>mallocs := ms, blocks := b # a # blocks c\<rparr>) = Inr ((res, fi'), c2)"
  shows "read_into_buf rd path bufp sz ofs fi c =
    Inr ((res, Some (a, mem_bufvec b (if 0 \<le> res then nat res else sz)), fi'), c2)"
  using assms by (simp add: read_into_buf_def malloc_def)

text \<open>
  \<open>fuse_fs_read\<close> on a filesystem that has \<open>read\<close> only: the operation runs with the filesystem's own
  data in the context and with a block of its own; the caller's buffer gets the bytes that the
  operation put there, but never more than \<open>size\<close> even if it claims more; an error is passed on
  and leaves the caller's buffer alone; and both blocks are freed in every case.
\<close>

lemma fuse_fs_read_plain:
  assumes "op_read (op fs) = Some rd" "op_read_buf (op fs) = None" "sz \<le> nat int_max"
    and "mallocs c = a # b # ms" "a \<noteq> 0" "b \<noteq> 0"
    and "rd path b sz ofs fi (c\<lparr>private_data := user_data c (fs_addr fs), mallocs := ms, blocks := b # a # blocks c\<rparr>)
      = Inr ((res, fi'), c2)"
    and "blocks c2 = b # a # blocks c"
  shows "fuse_fs_read K tmp fs path m sz ofs fi c =
    (if res < 0 then Inr ((res, fi'), c2\<lparr>blocks := blocks c\<rparr>)
     else let n = min (nat res) sz; w = wrld c2 in
       Inr ((int n, fi'), c2\<lparr>blocks := blocks c, wrld := w\<lparr>memory := store m (load (memory w) b n) (memory w)\<rparr>\<rparr>))"
proof -
  have rb: "read_into_buf rd path None sz ofs fi (set_context fs c) =
      Inr ((res, Some (a, mem_bufvec b (if 0 \<le> res then nat res else sz)), fi'), c2)"
    using assms(4-7) by (intro read_into_buf_plain) (simp_all add: set_context_def)
  have "min (nat res) sz \<le> nat int_max" using assms(3) by simp
  then show ?thesis
    using assms(1,2,5,6,8) rb
    by (auto simp: fuse_fs_read_def fuse_fs_read_buf_def fuse_free_buf_def Let_def)
qed


text \<open>
  When memory runs out in \<open>fuse_fs_read\<close> the operation is not called, the result is
  \<open>-ENOMEM\<close>, and nothing but the context's data and the allocator has changed: no block is lost.
\<close>

lemma fuse_fs_read_nomem:
  assumes "op_read (op fs) \<noteq> None" "op_read_buf (op fs) = None"
    and "mallocs c = [] \<or> mallocs c = 0 # ms \<or> mallocs c = [a] \<or> mallocs c = a # 0 # ms"
  shows "\<exists>as. fuse_fs_read K tmp fs path m sz ofs fi c =
    Inr ((- ENOMEM, fi), c\<lparr>private_data := user_data c (fs_addr fs), mallocs := as\<rparr>)"
proof -
  let ?c = "set_context fs c"
  have "\<exists>as. read_into_buf (the (op_read (op fs))) path None sz ofs fi ?c = Inr ((- ENOMEM, None, fi), ?c\<lparr>mallocs := as\<rparr>)"
    using assms(3) by (cases c) (auto simp: read_into_buf_def malloc_def set_context_def free_block_def)
  then show ?thesis
    using assms(1,2)
    by (auto simp: fuse_fs_read_def fuse_fs_read_buf_def fuse_free_buf_def set_context_def)
qed

section \<open>Writing\<close>

text \<open>The bytes that a vector of memory buffers stands for.\<close>

definition contents :: "(nat \<Rightarrow> byte) \<Rightarrow> fuse_bufvec \<Rightarrow> byte list" where
  "contents m v = concat (map (\<lambda>b. load m (mem b) (buf_size b)) (bufs v))"

lemma contents_remaining:
  "idx v = 0 \<Longrightarrow> off v = 0 \<Longrightarrow> contents m v = map m (remaining v)"
  by (simp add: contents_def remaining_def addrs_def load_def map_concat comp_def)

lemma buf_size_loop_sum:
  "sz + sum_list (map buf_size bs) < SIZE_MAX \<Longrightarrow> buf_size_loop bs sz = sz + sum_list (map buf_size bs)"
proof (induction bs arbitrary: sz)
  case (Cons b bs)
  then have "(sz + buf_size b) mod 2 ^ 64 = sz + buf_size b" "buf_size b \<noteq> SIZE_MAX" by (simp_all add: SIZE_MAX_def)
  then show ?case using Cons by simp
qed simp

lemma length_remaining: "idx v = 0 \<Longrightarrow> off v = 0 \<Longrightarrow> length (remaining v) = sum_list (map buf_size (bufs v))"
  by (simp add: remaining_def length_concat comp_def)

text \<open>
  \<open>fuse_fs_write_buf\<close> on a filesystem that has \<open>write\<close> only, for a vector of any other number of
  memory buffers than one: the operation gets one block that holds all the bytes of the vector
  in order, its result is passed on, and the block is freed afterwards.
\<close>

lemma fuse_fs_write_buf_flat:
  assumes "op_write (op fs) = Some wr" "op_write_buf (op fs) = None"
    and "in_memory v" "idx v = 0" "off v = 0" "length (bufs v) \<noteq> 1"
    and "n = sum_list (map buf_size (bufs v))" "0 < n" "n \<le> nat int_max"
    and "mallocs c = b # ms" "b \<noteq> 0" "{b..<b + n} \<inter> set (remaining v) = {}"
  shows "\<exists>m. load m b n = contents (memory (wrld c)) v \<and> (\<forall>a. a \<notin> {b..<b + n} \<longrightarrow> m a = memory (wrld c) a)
    \<and> fuse_fs_write_buf K tmp fs path v ofs fi c =
        bindm (wr path b n ofs fi) (\<lambda>res. bindm (free_block b) (\<lambda>_. retm res))
          (c\<lparr>private_data := user_data c (fs_addr fs), mallocs := ms, blocks := b # blocks c,
             wrld := (wrld c)\<lparr>memory := m\<rparr>\<rparr>)"
proof (intro exI conjI)
  let ?m = "moved [b..<b + n] (remaining v) (memory (wrld c))"
  have len: "length (remaining v) = n" using assms(4,5,7) by (simp add: length_remaining)
  have sz: "fuse_buf_size v = n"
    using assms(7,9) by (simp add: fuse_buf_size_def buf_size_loop_sum SIZE_MAX_def int_max_def)
  have "map ?m [b..<b + n] = map (memory (wrld c)) (remaining v)"
    by (rule nth_equalityI) (simp_all add: len moved_def map_of_zip_at del: nth_upt)
  then show "load ?m b n = contents (memory (wrld c)) v"
    using assms(4,5) by (simp add: contents_remaining load_def)
  show "\<forall>a. a \<notin> {b..<b + n} \<longrightarrow> ?m a = memory (wrld c) a"
    by (intro allI impI moved_outside) (simp add: len)
  have "copy_loop K tmp (mem_bufvec b n) v no_flags 0 w = Inr (int n, w\<lparr>memory := moved [b..<b + n] (remaining v) (memory w)\<rparr>)" for w :: "'a world"
    using copy_loop_memory [of "mem_bufvec b n" v K tmp no_flags 0 w] assms(3,12) len by simp
  then show "fuse_fs_write_buf K tmp fs path v ofs fi c =
        bindm (wr path b n ofs fi) (\<lambda>res. bindm (free_block b) (\<lambda>_. retm res))
          (c\<lparr>private_data := user_data c (fs_addr fs), mallocs := ms, blocks := b # blocks c,
             wrld := (wrld c)\<lparr>memory := ?m\<rparr>\<rparr>)"
    using assms(1-6,8-) sz
    by (simp add: fuse_fs_write_buf_def write_flat_def malloc_def set_context_def lift_world_def fuse_buf_copy_def)
qed

text \<open>
  \<open>fuse_fs_write\<close> on such a filesystem hands the caller's own buffer to \<open>write\<close>, without
  allocating or copying.
\<close>

lemma fuse_fs_write_plain:
  assumes "op_write (op fs) = Some wr" "op_write_buf (op fs) = None"
  shows "fuse_fs_write K tmp fs path m sz ofs fi c =
    wr path m sz ofs fi (c\<lparr>private_data := user_data c (fs_addr fs)\<rparr>)"
  using assms by (simp add: fuse_fs_write_def fuse_fs_write_buf_def write_flat_def set_context_def)


section \<open>An example\<close>

text \<open>A filesystem whose files all read \<open>1, 2, 3\<close> and which counts the bytes written to it.\<close>

definition sample_read :: "path \<Rightarrow> nat \<Rightarrow> nat \<Rightarrow> int \<Rightarrow> fuse_file_info \<Rightarrow> (nat, int \<times> fuse_file_info) call" where
  "sample_read path m sz ofs fi c =
     Inr ((3, fi), c\<lparr>wrld := (wrld c)\<lparr>memory := store m (take sz [1, 2, 3]) (memory (wrld c))\<rparr>\<rparr>)"

definition sample_write :: "path \<Rightarrow> nat \<Rightarrow> nat \<Rightarrow> int \<Rightarrow> fuse_file_info \<Rightarrow> (nat, int \<times> fuse_file_info) call" where
  "sample_write path m sz ofs fi c = Inr ((int sz, fi), c\<lparr>wrld := (wrld c)\<lparr>os_state := os_state (wrld c) + sz\<rparr>\<rparr>)"

definition sample_ops :: "nat fuse_operations" where
  "sample_ops = no_ops\<lparr>op_read := Some sample_read, op_write := Some sample_write\<rparr>"

definition sample_fs :: "nat fuse_fs" where
  "sample_fs = \<lparr>fs_addr = 5, fs_mod = 0, op = sample_ops, compat = 0\<rparr>"

definition sample_fi :: fuse_file_info where
  "sample_fi = \<lparr>fi_flags = 0, fh_old = 0, writepage = 0, direct_io = False, keep_cache = False, fi_flush = False,
     nonseekable = False, flock_release = False, fh = 0, lock_owner = 0\<rparr>"

definition sample_mods :: mod_state where
  "sample_mods = \<lparr>fuse_modules = [], fuse_current_so = 0, so_ctr = (\<lambda>_. 0), sos = []\<rparr>"

definition sample_ctx :: "nat list \<Rightarrow> nat ctx" where
  "sample_ctx as = \<lparr>private_data = 0, user_data = (\<lambda>_. 77), mallocs = as, blocks = [], registry = sample_mods,
     wrld = \<lparr>memory = word_of_nat, os_state = 0\<rparr>\<rparr>"

definition sample_k :: "nat kernel" where
  "sample_k = \<lparr>k_write = (\<lambda>_ _ bs s. (int (length bs), s)), k_read = (\<lambda>_ _ n s. (Inr (replicate n 0), s)),
     k_splice = (\<lambda>_ _ _ _ n _ _ s. (int n, s))\<rparr>"

lemmas sample_defs = sample_fs_def sample_ops_def no_ops_def sample_ctx_def sample_mods_def

end
