(* ===== verification/Fuse_Inv.thy ===== *)
theory Fuse_Inv
  imports Fuse_Fs
begin

text \<open>
  The contract between the layers of a stack of filesystems: a locale for a table of operations
  that keep an invariant of the system's state on a set of paths, and, in it, that every call
  through \<open>fuse_fs_*\<close> on such paths keeps the invariant as well: all fall-backs, conversions and
  buffer copies included.
\<close>

section \<open>Calls that keep an invariant\<close>

definition pres :: "('s \<Rightarrow> bool) \<Rightarrow> ('s, 'a) call \<Rightarrow> bool" where
  "pres I m \<longleftrightarrow> (\<forall>c. I (os_state (wrld c)) \<longrightarrow> okc (\<lambda>(_, c'). I (os_state (wrld c'))) (m c))"

definition pres_world :: "('s \<Rightarrow> bool) \<Rightarrow> ('a \<times> 's world) c \<Rightarrow> bool" where
  "pres_world I m \<longleftrightarrow> okc (\<lambda>(_, w). I (os_state w)) m"

lemma presI: "(\<And>c. I (os_state (wrld c)) \<Longrightarrow> okc (\<lambda>(_, c'). I (os_state (wrld c'))) (m c)) \<Longrightarrow> pres I m"
  by (simp add: pres_def)

lemma presD: "pres I m \<Longrightarrow> I (os_state (wrld c)) \<Longrightarrow> okc (\<lambda>(_, c'). I (os_state (wrld c'))) (m c)"
  by (simp add: pres_def)

lemma pres_retm [intro!, simp]: "pres I (retm x)"
  by (simp add: pres_def)

lemma pres_failm [intro!, simp]: "pres I (failm e)"
  by (simp add: pres_def)

lemma pres_bindm [intro!]: "pres I m \<Longrightarrow> (\<And>x. pres I (f x)) \<Longrightarrow> pres I (bindm m f)"
  by (rule presI, simp only: bindm_apply, rule okc_bindI, erule (1) presD) (auto dest: presD)

lemma pres_if [intro!]: "(b \<Longrightarrow> pres I m) \<Longrightarrow> (\<not> b \<Longrightarrow> pres I n) \<Longrightarrow> pres I (if b then m else n)"
  by simp

lemma pres_case_prod [intro!]: "(\<And>a b. x = (a, b) \<Longrightarrow> pres I (f a b)) \<Longrightarrow> pres I (case x of (a, b) \<Rightarrow> f a b)"
  by (cases x) simp

lemma pres_case_option [intro!]:
  "(x = None \<Longrightarrow> pres I m) \<Longrightarrow> (\<And>y. x = Some y \<Longrightarrow> pres I (f y)) \<Longrightarrow> pres I (case x of None \<Rightarrow> m | Some y \<Rightarrow> f y)"
  by (cases x) auto

lemma pres_malloc [intro!, simp]: "pres I malloc"
  by (auto simp: pres_def malloc_def split: list.split)

lemma pres_free [intro!, simp]: "pres I (free_block a)"
  by (auto simp: pres_def free_block_def)

lemma pres_put_module [intro!, simp]: "pres I (put_module m)"
  by (auto simp: pres_def put_module_def okc_bindc okc_iff bindc_eq_Inr)

lemma pres_lift_world: "(\<And>w. I (os_state w) \<Longrightarrow> pres_world I (f w)) \<Longrightarrow> pres I (lift_world f)"
  by (fastforce simp: pres_def pres_world_def lift_world_def okc_iff bindc_eq_Inr)

lemma os_set_context [simp]: "os_state (wrld (set_context fs c)) = os_state (wrld c)"
  by (simp add: set_context_def)

lemma pres_context: "pres I m \<Longrightarrow> pres I (\<lambda>c. m (set_context fs c))"
  by (simp add: pres_def)

lemma pres_dispatch [intro!]:
  "(\<And>f. slot = Some f \<Longrightarrow> pres I (k f)) \<Longrightarrow> pres I (dispatch fs slot dflt k)"
  by (auto simp: pres_def dispatch_def Let_def split: option.split)

lemma pres_free_bufs [intro!, simp]: "pres I (free_bufs bs)"
  by (induction bs) (simp_all only: free_bufs.simps pres_retm pres_bindm pres_free)

lemma pres_fuse_free_buf [intro!, simp]: "pres I (fuse_free_buf b)"
  by (auto simp: fuse_free_buf_def)

section \<open>Copying buffers\<close>

lemma pw_ret: "I (os_state w) \<Longrightarrow> pres_world I (Inr (r, w))"
  by (simp add: pres_world_def)

lemma pw_Inl: "pres_world I (Inl e)"
  by (simp add: pres_world_def)

lemma pw_bind:
  "pres_world I m \<Longrightarrow> (\<And>r w. m = Inr (r, w) \<Longrightarrow> I (os_state w) \<Longrightarrow> pres_world I (f r w)) \<Longrightarrow> pres_world I (bindc m (\<lambda>(r, w). f r w))"
  by (cases m) (auto simp: pres_world_def)

lemma pw_bind_pure:
  "(\<And>x y. m = Inr (x, y) \<Longrightarrow> pres_world I (f x y)) \<Longrightarrow> pres_world I (bindc m (\<lambda>(x, y). f x y))"
  by (cases m) (auto simp: pres_world_def)

lemma pw_if: "(b \<Longrightarrow> pres_world I m) \<Longrightarrow> (\<not> b \<Longrightarrow> pres_world I n) \<Longrightarrow> pres_world I (if b then m else n)"
  by simp

lemmas pw_rules = pw_ret pw_Inl pw_bind pw_if

text \<open>The system calls on descriptors keep the invariant.\<close>

definition kernel_pres :: "'s kernel \<Rightarrow> ('s \<Rightarrow> bool) \<Rightarrow> bool" where
  "kernel_pres K I \<longleftrightarrow> (\<forall>f p bs s. I s \<longrightarrow> I (snd (k_write K f p bs s)))
     \<and> (\<forall>f p n s. I s \<longrightarrow> I (snd (k_read K f p n s)))
     \<and> (\<forall>f p g q n mv nb s. I s \<longrightarrow> I (snd (k_splice K f p g q n mv nb s)))"

lemma kernel_presD:
  assumes "kernel_pres K I" "I s"
  shows "k_write K f p bs s = (r, s') \<Longrightarrow> I s'" "k_read K f p n s = (q, s') \<Longrightarrow> I s'"
    "k_splice K f p g p' n mv nb s = (r, s') \<Longrightarrow> I s'"
  using assms by (metis kernel_pres_def snd_conv)+

lemma pres_write_loop:
  "kernel_pres K I \<Longrightarrow> I (os_state w) \<Longrightarrow> pres_world I (buf_write_loop K dst dst_off src src_off len copied w)"
proof (induction K dst dst_off src src_off len copied w rule: buf_write_loop.induct)
  case (1 K dst dst_off src src_off len copied w)
  obtain res s where k: "k_write K (fd dst) (seek_to dst dst_off) (load (memory w) (mem src + src_off) len) (os_state w) = (res, s)"
    by fastforce
  have "I s" using kernel_presD(1) "1.prems" k by metis
  then show ?case
    using "1.IH" [OF _ k [symmetric] refl] "1.prems"
    by (subst buf_write_loop.simps) (auto simp: k pres_world_def Let_def)
qed

lemma pres_read_loop:
  "kernel_pres K I \<Longrightarrow> I (os_state w) \<Longrightarrow> pres_world I (buf_read_loop K dst dst_off src src_off len copied w)"
proof (induction K dst dst_off src src_off len copied w rule: buf_read_loop.induct)
  case (1 K dst dst_off src src_off len copied w)
  obtain res s where k: "k_read K (fd src) (seek_to src src_off) len (os_state w) = (res, s)"
    by fastforce
  have "I s" using kernel_presD(2) "1.prems" k by metis
  then show ?case
    using "1.IH" [OF _ k [symmetric]] "1.prems"
    by (subst buf_read_loop.simps) (auto simp: k pres_world_def Let_def split: sum.split)
qed

lemma pres_fd_to_fd_loop:
  "kernel_pres K I \<Longrightarrow> I (os_state w) \<Longrightarrow> pres_world I (fd_to_fd_loop K tmp dst dst_off src src_off len copied w)"
proof (induction K tmp dst dst_off src src_off len copied w rule: fd_to_fd_loop.induct)
  case (1 K tmp dst dst_off src src_off len copied w)
  have "pres_world I (fuse_buf_read K (tmp_buf tmp) 0 src src_off n w)" for n
    using "1.prems" by (simp add: fuse_buf_read_def pres_read_loop)
  moreover have "pres_world I (fuse_buf_write K dst dst_off (tmp_buf tmp) 0 n w')" if "I (os_state w')" for n w'
    using "1.prems" that by (simp add: fuse_buf_write_def pres_write_loop)
  ultimately show ?case
    using "1.prems"
    by (subst fd_to_fd_loop.simps) (auto simp: Let_def intro!: pw_rules "1.IH")
qed

lemma pres_splice_loop:
  "kernel_pres K I \<Longrightarrow> I (os_state w) \<Longrightarrow> pres_world I (splice_loop K tmp dst dst_off src src_off len flags copied w)"
proof (induction K tmp dst dst_off src src_off len flags copied w rule: splice_loop.induct)
  case (1 K tmp dst dst_off src src_off len flags copied w)
  obtain res s where k: "k_splice K (fd src) (seek_to src (src_off + copied)) (fd dst) (seek_to dst (dst_off + copied))
      len (splice_move flags) (splice_nonblock flags) (os_state w) = (res, s)"
    by fastforce
  have "I s" using kernel_presD(3) "1.prems" k by metis
  then show ?case
    using "1.IH" [OF _ k [symmetric] refl] "1.prems"
    by (subst splice_loop.simps)
      (auto simp: k Let_def fuse_buf_fd_to_fd_def intro!: pw_rules pres_fd_to_fd_loop)
qed

lemma pres_copy_one:
  "kernel_pres K I \<Longrightarrow> I (os_state w) \<Longrightarrow> pres_world I (fuse_buf_copy_one K tmp dst dst_off src src_off len flags w)"
  unfolding fuse_buf_copy_one_def Let_def fuse_buf_write_def fuse_buf_read_def fuse_buf_fd_to_fd_def fuse_buf_splice_def
  by (intro pw_if pw_ret pres_write_loop pres_read_loop pres_fd_to_fd_loop pres_splice_loop) simp_all

lemma pres_copy_loop:
  "kernel_pres K I \<Longrightarrow> I (os_state w) \<Longrightarrow> pres_world I (copy_loop K tmp dstv srcv flags copied w)"
proof (induction K tmp dstv srcv flags copied w rule: copy_loop.induct)
  case (1 K tmp dstv srcv flags copied w)
  show ?case
  proof (cases "fuse_bufvec_current srcv = None \<or> fuse_bufvec_current dstv = None")
    case True
    then show ?thesis using "1.prems" by (subst copy_loop.simps) (auto simp: pw_ret split: option.split)
  next
    case False
    then obtain src dst where c: "fuse_bufvec_current srcv = Some src" "fuse_bufvec_current dstv = Some dst" by auto
    note IH = "1.IH" [OF refl c _ refl _ refl _ _ refl _ _ refl]
    show ?thesis
      using "1.prems" by (subst copy_loop.simps, simp only: c prod.case option.case Let_def)
        (intro pw_if pw_ret pw_Inl pw_bind [OF pres_copy_one] pw_bind_pure IH; simp)
  qed
qed

lemma pres_buf_copy [intro]:
  "kernel_pres K I \<Longrightarrow> pres I (lift_world (fuse_buf_copy K tmp same dstv srcv flags))"
  by (rule pres_lift_world) (auto simp: fuse_buf_copy_def intro!: pw_rules pres_copy_loop)

section \<open>The contract\<close>

text \<open>
  Each operation of the table keeps \<open>I\<close> when its paths are among \<open>Q\<close>; one that gets a function to
  call back does so if that function keeps \<open>I\<close>.
\<close>

locale fs_ops =
  fixes Q :: "path \<Rightarrow> bool" and I :: "'s \<Rightarrow> bool" and T :: "'s fuse_operations"
  assumes getattr_ok: "\<And>f p st. op_getattr T = Some f \<Longrightarrow> Q p \<Longrightarrow> pres I (f p st)"
    and readlink_ok: "\<And>f p b n. op_readlink T = Some f \<Longrightarrow> Q p \<Longrightarrow> pres I (f p b n)"
    and mknod_ok: "\<And>f p md dv. op_mknod T = Some f \<Longrightarrow> Q p \<Longrightarrow> pres I (f p md dv)"
    and mkdir_ok: "\<And>f p md. op_mkdir T = Some f \<Longrightarrow> Q p \<Longrightarrow> pres I (f p md)"
    and unlink_ok: "\<And>f p. op_unlink T = Some f \<Longrightarrow> Q p \<Longrightarrow> pres I (f p)"
    and rmdir_ok: "\<And>f p. op_rmdir T = Some f \<Longrightarrow> Q p \<Longrightarrow> pres I (f p)"
    and chmod_ok: "\<And>f p md. op_chmod T = Some f \<Longrightarrow> Q p \<Longrightarrow> pres I (f p md)"
    and chown_ok: "\<And>f p u g. op_chown T = Some f \<Longrightarrow> Q p \<Longrightarrow> pres I (f p u g)"
    and truncate_ok: "\<And>f p n. op_truncate T = Some f \<Longrightarrow> Q p \<Longrightarrow> pres I (f p n)"
    and flush_ok: "\<And>f p fi. op_flush T = Some f \<Longrightarrow> Q p \<Longrightarrow> pres I (f p fi)"
    and fsync_ok: "\<And>f p ds fi. op_fsync T = Some f \<Longrightarrow> Q p \<Longrightarrow> pres I (f p ds fi)"
    and setxattr_ok: "\<And>f p x v n fl. op_setxattr T = Some f \<Longrightarrow> Q p \<Longrightarrow> pres I (f p x v n fl)"
    and getxattr_ok: "\<And>f p x v n. op_getxattr T = Some f \<Longrightarrow> Q p \<Longrightarrow> pres I (f p x v n)"
    and listxattr_ok: "\<And>f p v n. op_listxattr T = Some f \<Longrightarrow> Q p \<Longrightarrow> pres I (f p v n)"
    and removexattr_ok: "\<And>f p x. op_removexattr T = Some f \<Longrightarrow> Q p \<Longrightarrow> pres I (f p x)"
    and releasedir_ok: "\<And>f p fi. op_releasedir T = Some f \<Longrightarrow> Q p \<Longrightarrow> pres I (f p fi)"
    and fsyncdir_ok: "\<And>f p ds fi. op_fsyncdir T = Some f \<Longrightarrow> Q p \<Longrightarrow> pres I (f p ds fi)"
    and access_ok: "\<And>f p mk. op_access T = Some f \<Longrightarrow> Q p \<Longrightarrow> pres I (f p mk)"
    and create_ok: "\<And>f p md fi. op_create T = Some f \<Longrightarrow> Q p \<Longrightarrow> pres I (f p md fi)"
    and ftruncate_ok: "\<And>f p n fi. op_ftruncate T = Some f \<Longrightarrow> Q p \<Longrightarrow> pres I (f p n fi)"
    and fgetattr_ok: "\<And>f p st fi. op_fgetattr T = Some f \<Longrightarrow> Q p \<Longrightarrow> pres I (f p st fi)"
    and lock_ok: "\<And>f p fi cmd lk. op_lock T = Some f \<Longrightarrow> Q p \<Longrightarrow> pres I (f p fi cmd lk)"
    and utimens_ok: "\<And>f p t0 t1. op_utimens T = Some f \<Longrightarrow> Q p \<Longrightarrow> pres I (f p t0 t1)"
    and bmap_ok: "\<And>f p bs ix. op_bmap T = Some f \<Longrightarrow> Q p \<Longrightarrow> pres I (f p bs ix)"
    and ioctl_ok: "\<And>f p cmd arg fi fl dat. op_ioctl T = Some f \<Longrightarrow> Q p \<Longrightarrow> pres I (f p cmd arg fi fl dat)"
    and poll_ok: "\<And>f p fi ph rv. op_poll T = Some f \<Longrightarrow> Q p \<Longrightarrow> pres I (f p fi ph rv)"
    and flock_ok: "\<And>f p fi lop. op_flock T = Some f \<Longrightarrow> Q p \<Longrightarrow> pres I (f p fi lop)"
    and utime_ok: "\<And>f p t0 t1. op_utime T = Some f \<Longrightarrow> Q p \<Longrightarrow> pres I (f p t0 t1)"
    and read_ok: "\<And>f p m n ofs fi. op_read T = Some f \<Longrightarrow> Q p \<Longrightarrow> pres I (f p m n ofs fi)"
    and write_ok: "\<And>f p m n ofs fi. op_write T = Some f \<Longrightarrow> Q p \<Longrightarrow> pres I (f p m n ofs fi)"
    and write_buf_ok: "\<And>f p v ofs fi. op_write_buf T = Some f \<Longrightarrow> Q p \<Longrightarrow> pres I (f p v ofs fi)"
    and read_buf_ok: "\<And>f p bp n ofs fi. op_read_buf T = Some f \<Longrightarrow> Q p \<Longrightarrow> pres I (f p bp n ofs fi)"
    and getdir_ok: "\<And>f p g. op_getdir T = Some f \<Longrightarrow> Q p \<Longrightarrow> (\<And>x y z. pres I (g x y z)) \<Longrightarrow> pres I (f p g)"
    and readdir_ok: "\<And>f' p h ofs fi. op_readdir T = Some f' \<Longrightarrow> Q p \<Longrightarrow> (\<And>x y z. pres I (h x y z)) \<Longrightarrow> pres I (f' p h ofs fi)"
    and symlink_ok: "\<And>f p x. op_symlink T = Some f \<Longrightarrow> Q p \<Longrightarrow> pres I (f x p)"
    and rename_ok: "\<And>f p q. op_rename T = Some f \<Longrightarrow> Q p \<Longrightarrow> Q q \<Longrightarrow> pres I (f p q)"
    and link_ok: "\<And>f p q. op_link T = Some f \<Longrightarrow> Q p \<Longrightarrow> Q q \<Longrightarrow> pres I (f p q)"
    and open25_ok: "\<And>f p fi. op_open T = Some (Open25 f) \<Longrightarrow> Q p \<Longrightarrow> pres I (f p fi)"
    and open22_ok: "\<And>f p cfi. op_open T = Some (Open22 f) \<Longrightarrow> Q p \<Longrightarrow> pres I (f p cfi)"
    and open2_ok: "\<And>f p fl. op_open T = Some (Open2 f) \<Longrightarrow> Q p \<Longrightarrow> pres I (f p fl)"
    and release25_ok: "\<And>f p fi. op_release T = Some (Open25 f) \<Longrightarrow> Q p \<Longrightarrow> pres I (f p fi)"
    and release2_ok: "\<And>f p fl. op_release T = Some (Open2 f) \<Longrightarrow> Q p \<Longrightarrow> pres I (f p fl)"
    and opendir25_ok: "\<And>f p fi. op_opendir T = Some (Open25 f) \<Longrightarrow> Q p \<Longrightarrow> pres I (f p fi)"
    and opendir22_ok: "\<And>f p cfi. op_opendir T = Some (Open22 f) \<Longrightarrow> Q p \<Longrightarrow> pres I (f p cfi)"
    and statfs25_ok: "\<And>f p sv. op_statfs T = Some (Statfs25 f) \<Longrightarrow> Q p \<Longrightarrow> pres I (f p sv)"
    and statfs22_ok: "\<And>f sb. op_statfs T = Some (Statfs22 f) \<Longrightarrow> pres I (f (Some ''/'') sb)"
    and statfs1_ok: "\<And>f sc. op_statfs T = Some (Statfs1 f) \<Longrightarrow> pres I (f sc)"
    and statfs_root_ok: "\<And>f sv. op_statfs T = Some (Statfs25 f) \<Longrightarrow> pres I (f (Some ''/'') sv)"
    and init_ok: "\<And>f conn. op_init T = Some f \<Longrightarrow> pres I (f conn)"
    and destroy_ok: "\<And>f dt. op_destroy T = Some f \<Longrightarrow> pres I (f dt)"

text \<open>The calls through a filesystem object whose table has the contract.\<close>

locale fs_layer = fs_ops Q I "op fs" for Q :: "path \<Rightarrow> bool" and I :: "'s \<Rightarrow> bool" and fs :: "'s fuse_fs"
begin

lemma pres_Inr: "pres I (\<lambda>c. Inr (x, set_context fs c))"
  by (simp add: pres_def)

lemma fs_getattr: "Q p \<Longrightarrow> pres I (fuse_fs_getattr fs p st)"
  unfolding fuse_fs_getattr_def by (rule pres_dispatch) (rule getattr_ok)

lemma fs_readlink: "Q p \<Longrightarrow> pres I (fuse_fs_readlink fs p b n)"
  unfolding fuse_fs_readlink_def by (rule pres_dispatch) (rule readlink_ok)

lemma fs_mknod: "Q p \<Longrightarrow> pres I (fuse_fs_mknod fs p md dv)"
  unfolding fuse_fs_mknod_def by (rule pres_dispatch) (rule mknod_ok)

lemma fs_mkdir: "Q p \<Longrightarrow> pres I (fuse_fs_mkdir fs p md)"
  unfolding fuse_fs_mkdir_def by (rule pres_dispatch) (rule mkdir_ok)

lemma fs_unlink: "Q p \<Longrightarrow> pres I (fuse_fs_unlink fs p)"
  unfolding fuse_fs_unlink_def by (rule pres_dispatch) (rule unlink_ok)

lemma fs_rmdir: "Q p \<Longrightarrow> pres I (fuse_fs_rmdir fs p)"
  unfolding fuse_fs_rmdir_def by (rule pres_dispatch) (rule rmdir_ok)

lemma fs_chmod: "Q p \<Longrightarrow> pres I (fuse_fs_chmod fs p md)"
  unfolding fuse_fs_chmod_def by (rule pres_dispatch) (rule chmod_ok)

lemma fs_chown: "Q p \<Longrightarrow> pres I (fuse_fs_chown fs p u g)"
  unfolding fuse_fs_chown_def by (rule pres_dispatch) (rule chown_ok)

lemma fs_truncate: "Q p \<Longrightarrow> pres I (fuse_fs_truncate fs p n)"
  unfolding fuse_fs_truncate_def by (rule pres_dispatch) (rule truncate_ok)

lemma fs_flush: "Q p \<Longrightarrow> pres I (fuse_fs_flush fs p fi)"
  unfolding fuse_fs_flush_def by (rule pres_dispatch) (rule flush_ok)

lemma fs_fsync: "Q p \<Longrightarrow> pres I (fuse_fs_fsync fs p ds fi)"
  unfolding fuse_fs_fsync_def by (rule pres_dispatch) (rule fsync_ok)

lemma fs_setxattr: "Q p \<Longrightarrow> pres I (fuse_fs_setxattr fs p x v n fl)"
  unfolding fuse_fs_setxattr_def by (rule pres_dispatch) (rule setxattr_ok)

lemma fs_getxattr: "Q p \<Longrightarrow> pres I (fuse_fs_getxattr fs p x v n)"
  unfolding fuse_fs_getxattr_def by (rule pres_dispatch) (rule getxattr_ok)

lemma fs_listxattr: "Q p \<Longrightarrow> pres I (fuse_fs_listxattr fs p v n)"
  unfolding fuse_fs_listxattr_def by (rule pres_dispatch) (rule listxattr_ok)

lemma fs_removexattr: "Q p \<Longrightarrow> pres I (fuse_fs_removexattr fs p x)"
  unfolding fuse_fs_removexattr_def by (rule pres_dispatch) (rule removexattr_ok)

lemma fs_releasedir: "Q p \<Longrightarrow> pres I (fuse_fs_releasedir fs p fi)"
  unfolding fuse_fs_releasedir_def by (rule pres_dispatch) (rule releasedir_ok)

lemma fs_fsyncdir: "Q p \<Longrightarrow> pres I (fuse_fs_fsyncdir fs p ds fi)"
  unfolding fuse_fs_fsyncdir_def by (rule pres_dispatch) (rule fsyncdir_ok)

lemma fs_access: "Q p \<Longrightarrow> pres I (fuse_fs_access fs p mk)"
  unfolding fuse_fs_access_def by (rule pres_dispatch) (rule access_ok)

lemma fs_create: "Q p \<Longrightarrow> pres I (fuse_fs_create fs p md fi)"
  unfolding fuse_fs_create_def by (rule pres_dispatch) (rule create_ok)

lemma fs_lock: "Q p \<Longrightarrow> pres I (fuse_fs_lock fs p fi cmd lk)"
  unfolding fuse_fs_lock_def by (rule pres_dispatch) (rule lock_ok)

lemma fs_bmap: "Q p \<Longrightarrow> pres I (fuse_fs_bmap fs p bs ix)"
  unfolding fuse_fs_bmap_def by (rule pres_dispatch) (rule bmap_ok)

lemma fs_ioctl: "Q p \<Longrightarrow> pres I (fuse_fs_ioctl fs p cmd arg fi fl dat)"
  unfolding fuse_fs_ioctl_def by (rule pres_dispatch) (rule ioctl_ok)

lemma fs_poll: "Q p \<Longrightarrow> pres I (fuse_fs_poll fs p fi ph rv)"
  unfolding fuse_fs_poll_def by (rule pres_dispatch) (rule poll_ok)

lemma fs_flock: "Q p \<Longrightarrow> pres I (fuse_fs_flock fs p fi lop)"
  unfolding fuse_fs_flock_def by (rule pres_dispatch) (rule flock_ok)

lemma fs_symlink: "Q p \<Longrightarrow> pres I (fuse_fs_symlink fs x p)"
  unfolding fuse_fs_symlink_def by (rule pres_dispatch) (rule symlink_ok)

lemma fs_rename: "Q p \<Longrightarrow> Q q \<Longrightarrow> pres I (fuse_fs_rename fs p q)"
  unfolding fuse_fs_rename_def by (rule pres_dispatch) (rule rename_ok)

lemma fs_link: "Q p \<Longrightarrow> Q q \<Longrightarrow> pres I (fuse_fs_link fs p q)"
  unfolding fuse_fs_link_def by (rule pres_dispatch) (rule link_ok)

lemma fs_open: "Q p \<Longrightarrow> pres I (fuse_fs_open fs p fi)"
  unfolding fuse_fs_open_def fuse_compat_open_def
  by (rule pres_dispatch) (auto simp: open25_ok open22_ok open2_ok split: open_slot.split)

lemma fs_release: "Q p \<Longrightarrow> pres I (fuse_fs_release fs p fi)"
  unfolding fuse_fs_release_def fuse_compat_release_def
  by (rule pres_dispatch) (auto simp: release25_ok release2_ok split: open_slot.split)

lemma fs_opendir: "Q p \<Longrightarrow> pres I (fuse_fs_opendir fs p fi)"
  unfolding fuse_fs_opendir_def fuse_compat_opendir_def
  by (rule pres_dispatch) (auto simp: opendir25_ok opendir22_ok split: open_slot.split)

lemma fs_statfs: "Q p \<Longrightarrow> pres I (fuse_fs_statfs junk fs p sv)"
  unfolding fuse_fs_statfs_def fuse_compat_statfs_def
  by (rule pres_dispatch) (auto simp: statfs25_ok statfs22_ok statfs1_ok statfs_root_ok split: statfs_slot.split)

lemma fs_fgetattr:
  assumes "Q p"
  shows "pres I (fuse_fs_fgetattr fs p st fi)"
proof -
  have old: "pres I (bindm (f p st) (\<lambda>(res, buf). retm (res, buf, fi)))" if "op_getattr (op fs) = Some f" for f
    using getattr_ok [OF that assms] by (intro pres_bindm pres_case_prod pres_retm)
  show ?thesis
    using pres_context [OF fgetattr_ok [OF _ assms]] pres_context [OF old]
    by (cases "op_fgetattr (op fs)"; cases "op_getattr (op fs)"; cases p)
      (simp_all add: fuse_fs_fgetattr_def Let_def pres_Inr pres_context)
qed

lemma fs_ftruncate:
  assumes "Q p"
  shows "pres I (fuse_fs_ftruncate fs p n fi)"
proof -
  have old: "pres I (bindm (f p n) (\<lambda>res. retm (res, fi)))" if "op_truncate (op fs) = Some f" for f
    using truncate_ok [OF that assms] by (intro pres_bindm pres_retm)
  show ?thesis
    using pres_context [OF ftruncate_ok [OF _ assms]] pres_context [OF old]
    by (cases "op_ftruncate (op fs)"; cases "op_truncate (op fs)"; cases p)
      (simp_all add: fuse_fs_ftruncate_def Let_def pres_Inr pres_context)
qed

lemma fs_utimens: "Q p \<Longrightarrow> pres I (fuse_fs_utimens fs p t0 t1)"
  using pres_context [OF utimens_ok] pres_context [OF utime_ok]
  by (cases "op_utimens (op fs)"; cases "op_utime (op fs)") (simp_all add: fuse_fs_utimens_def Let_def pres_def)

lemma fs_readdir:
  assumes "Q p" "\<And>x y z. pres I (h x y z)"
  shows "pres I (fuse_fs_readdir fs p h ofs fi)"
proof -
  have fill: "pres I (fill_dir_old h x y z)" for x y z
    unfolding fill_dir_old_def using assms(2) by auto
  have getdir: "pres I (bindm (f p (fill_dir_old h)) (\<lambda>res. retm (res, fi)))" if "op_getdir (op fs) = Some f" for f
    using getdir_ok [OF that assms(1) fill] by (rule pres_bindm) (rule pres_retm)
  show ?thesis
  proof (cases "op_readdir (op fs)")
    case None
    then show ?thesis
      using pres_context [OF getdir] by (cases "op_getdir (op fs)") (simp_all add: fuse_fs_readdir_def Let_def pres_def)
  next
    case (Some f)
    then show ?thesis
      using pres_context [OF readdir_ok [OF Some assms]] by (simp add: fuse_fs_readdir_def Let_def)
  qed
qed

lemma fs_read_buf:
  assumes "Q p"
  shows "pres I (fuse_fs_read_buf fs p bp n ofs fi)"
proof -
  have into: "pres I (read_into_buf f p bp n ofs fi)" if "op_read (op fs) = Some f" for f
    unfolding read_into_buf_def using read_ok [OF that assms]
    by (intro pres_bindm pres_malloc pres_if pres_retm pres_free pres_case_prod)
  have end': "pres I (bindm m (\<lambda>(res, bufp, fi). retm (if res < 0 then res else 0, bufp, fi)))"
    if "pres I m" for m :: "('s, int \<times> bufp \<times> fuse_file_info) call"
    using that by (intro pres_bindm pres_case_prod pres_retm)
  show ?thesis
    using pres_context [OF end' [OF into]] pres_context [OF end' [OF read_buf_ok [OF _ assms]]]
    by (cases "op_read_buf (op fs)"; cases "op_read (op fs)")
      (simp_all add: fuse_fs_read_buf_def Let_def pres_Inr pres_context del: bindm_apply)
qed

lemma fs_read: "Q p \<Longrightarrow> kernel_pres K I \<Longrightarrow> pres I (fuse_fs_read K tmp fs p m n ofs fi)"
  unfolding fuse_fs_read_def
  by (intro fs_read_buf pres_bindm pres_case_option pres_if pres_retm pres_failm pres_case_prod pres_fuse_free_buf pres_buf_copy)

lemma fs_write_buf:
  assumes "Q p" "kernel_pres K I"
  shows "pres I (fuse_fs_write_buf K tmp fs p v ofs fi)"
proof -
  have flat: "pres I (write_flat K tmp wr p v ofs fi)" if "op_write (op fs) = Some wr" for wr
    unfolding write_flat_def Let_def
    by (intro pres_if write_ok [OF that assms(1)] pres_bindm pres_malloc pres_retm pres_buf_copy [OF assms(2)] pres_free)
  show ?thesis
    using pres_context [OF flat] pres_context [OF write_buf_ok [OF _ assms(1)]]
    by (cases "op_write_buf (op fs)"; cases "op_write (op fs)"; cases "idx v = 0 \<and> off v = 0")
      (auto simp: fuse_fs_write_buf_def Let_def pres_def)
qed

lemma fs_write: "Q p \<Longrightarrow> kernel_pres K I \<Longrightarrow> pres I (fuse_fs_write K tmp fs p m n ofs fi)"
  unfolding fuse_fs_write_def by (rule fs_write_buf)

lemma fs_init: "pres I (fuse_fs_init fs conn)"
  unfolding fuse_fs_init_def Let_def
  by (auto simp: pres_def okc_bindc split: option.split intro!: okc_mono [OF presD [OF init_ok]])

lemma fs_destroy: "pres I (fuse_fs_destroy fs)"
proof -
  let ?rest = "\<lambda>_. bindm (if fs_mod fs \<noteq> 0 then put_module (fs_mod fs) else retm ()) (\<lambda>_. free_block (fs_addr fs))"
  have "pres I (bindm (case op_destroy (op fs) of Some f \<Rightarrow> f x | None \<Rightarrow> retm ()) ?rest)" for x
    using destroy_ok by (intro pres_bindm pres_case_option pres_if pres_put_module pres_retm pres_free)
  then show ?thesis by (simp add: fuse_fs_destroy_def Let_def pres_def del: bindm_apply)
qed

end

end
