(* ===== verification/Subdir_Links.thy ===== *)
theory Subdir_Links
  imports Libc
begin

text \<open>
  The symbolic links of \<open>src/lib/modules/subdir.c\<close>: with the option \<open>rellinks\<close>, an absolute link
  that points into the base directory is rewritten as a relative one. The scans over characters
  are modelled on strings without their terminator. The \<open>int\<close> counter of path components does not
  wrap around for paths below 700 MB.
\<close>

section \<open>Scanning paths\<close>

definition skip_slashes :: "string \<Rightarrow> string" where
  "skip_slashes = dropWhile (\<lambda>x. x = CHR ''/'')"

definition skip_name :: "string \<Rightarrow> string" where
  "skip_name = dropWhile (\<lambda>x. x \<noteq> CHR ''/'')"

lemma length_skip_slashes: "length (skip_slashes s) \<le> length s"
  by (simp add: skip_slashes_def length_dropWhile_le)

lemma length_skip_name: "length (skip_name s) \<le> length s"
  by (simp add: skip_name_def length_dropWhile_le)

lemma skip_slashes_Cons: "skip_slashes (ch # s) = (if ch = CHR ''/'' then skip_slashes s else ch # s)"
  by (simp add: skip_slashes_def)

lemma skip_name_Cons: "skip_name (ch # s) = (if ch = CHR ''/'' then ch # s else skip_name s)"
  by (simp add: skip_name_def)

lemma skip_slashes_hd: "skip_slashes s = [] \<or> hd (skip_slashes s) \<noteq> CHR ''/''"
  using hd_dropWhile [of "\<lambda>x. x = CHR ''/''" s] by (auto simp: skip_slashes_def)

lemma skip_name_shorter: "p \<noteq> [] \<Longrightarrow> length (skip_slashes (skip_name p)) < length p"
  by (cases p) (auto simp: skip_name_Cons skip_slashes_Cons less_Suc_eq_le
    intro: length_skip_slashes le_trans [OF length_skip_slashes length_skip_name])

function count_loop :: "string \<Rightarrow> nat \<Rightarrow> nat" where
  "count_loop p ctr = (if p = [] then ctr else count_loop (skip_slashes (skip_name p)) (Suc ctr))"
  by pat_completeness auto
termination by (relation "measure (\<lambda>(p, ctr). length p)") (simp_all add: skip_name_shorter)

declare count_loop.simps [simp del]

definition count_components :: "string \<Rightarrow> nat" where
  "count_components p = count_loop (skip_slashes p) 0"

text \<open>The inner loop of \<open>strip_common\<close>: past the characters both have, up to a slash.\<close>

fun skip_common :: "string \<Rightarrow> string \<Rightarrow> string \<times> string" where
  "skip_common (a # s) (b # t) = (if a = b \<and> a \<noteq> CHR ''/'' then skip_common s t else (a # s, b # t))"
| "skip_common s t = (s, t)"

definition strip_again :: "string \<Rightarrow> string \<Rightarrow> bool" where
  "strip_again s t \<longleftrightarrow> s \<noteq> [] \<and> t \<noteq> [] \<and> hd s = hd t \<or> s = [] \<and> t \<noteq> [] \<and> hd t = CHR ''/''
     \<or> s \<noteq> [] \<and> hd s = CHR ''/'' \<and> t = []"

text \<open>What the inner loop skips is a common prefix without slashes.\<close>

lemma skip_common_split:
  "\<exists>x. s = x @ fst (skip_common s t) \<and> t = x @ snd (skip_common s t) \<and> CHR ''/'' \<notin> set x"
proof (induction s t rule: skip_common.induct)
  case (1 a s b t)
  show ?case
  proof (cases "a = b \<and> a \<noteq> CHR ''/''")
    case True
    then obtain x where "s = x @ fst (skip_common s t)" "t = x @ snd (skip_common s t)" "CHR ''/'' \<notin> set x"
      using 1 by auto
    then show ?thesis using True by (intro exI [of _ "b # x"]) auto
  qed auto
qed auto

lemma strip_again_slash:
  "strip_again (fst (skip_common u v)) (snd (skip_common u v)) \<Longrightarrow>
     fst (skip_common u v) \<noteq> [] \<and> hd (fst (skip_common u v)) = CHR ''/''
     \<or> snd (skip_common u v) \<noteq> [] \<and> hd (snd (skip_common u v)) = CHR ''/''"
  by (induction u v rule: skip_common.induct) (auto simp: strip_again_def split: if_splits)

lemma strip_shorter:
  assumes "strip_again (fst (skip_common (skip_slashes s) (skip_slashes t))) (snd (skip_common (skip_slashes s) (skip_slashes t)))"
  shows "length (fst (skip_common (skip_slashes s) (skip_slashes t)))
    + length (snd (skip_common (skip_slashes s) (skip_slashes t))) < length s + length t"
proof -
  obtain x where x: "skip_slashes s = x @ fst (skip_common (skip_slashes s) (skip_slashes t))"
      "skip_slashes t = x @ snd (skip_common (skip_slashes s) (skip_slashes t))"
    using skip_common_split by blast
  have "x \<noteq> []"
    using strip_again_slash [OF assms] x skip_slashes_hd [of s] skip_slashes_hd [of t] by auto
  then have "0 < length x" by simp
  then show ?thesis
    using arg_cong [OF x(1), of length] arg_cong [OF x(2), of length] length_skip_slashes [of s] length_skip_slashes [of t]
    by (simp del: length_greater_0_conv)
qed

function strip_common :: "string \<Rightarrow> string \<Rightarrow> string \<times> string" where
  "strip_common s t =
     (let s = skip_slashes s; t = skip_slashes t; s' = fst (skip_common s t); t' = snd (skip_common s t)
      in if strip_again s' t' then strip_common s' t' else (s, t))"
  by pat_completeness auto
termination
  by (relation "measure (\<lambda>(s, t). length s + length t)") (auto simp: strip_shorter case_prod_beta)

declare strip_common.simps [simp del]

text \<open>The link in the buffer after the call; \<open>sz\<close> is the size of the buffer.\<close>

definition transform_symlink :: "string \<Rightarrow> nat \<Rightarrow> string \<Rightarrow> string \<Rightarrow> nat \<Rightarrow> string" where
  "transform_symlink bas baslen path buf sz =
     (if buf = [] \<or> hd buf \<noteq> CHR ''/'' \<or> bas = [] \<or> hd bas \<noteq> CHR ''/'' then buf
      else let (l, path) = strip_common buf path in
        if length buf - length l < baslen then buf
        else if count_components path = 0 then buf
        else let dotdots = count_components path - 1; llen = length l in
          if sz < dotdots * 3 + llen + 2 then buf
          else concat (replicate dotdots ''../'')
            @ (if llen \<noteq> 0 then l else if dotdots = 0 then ''.'' else []))"

section \<open>Components\<close>

text \<open>The names between the slashes.\<close>

function comps :: "string \<Rightarrow> string list" where
  "comps p = (let p = skip_slashes p in
     if p = [] then [] else takeWhile (\<lambda>x. x \<noteq> CHR ''/'') p # comps (skip_name p))"
  by pat_completeness auto
termination
proof (relation "measure length", simp)
  fix p x :: string
  assume "x = skip_slashes p" "x \<noteq> []"
  then obtain ch s where "skip_slashes p = ch # s" "ch \<noteq> CHR ''/''" using skip_slashes_hd [of p] by (cases "skip_slashes p") auto
  then have "length (skip_name x) \<le> length s" "Suc (length s) \<le> length p"
    using \<open>x = skip_slashes p\<close> length_skip_slashes [of p] length_skip_name [of s] by (simp_all add: skip_name_Cons)
  then show "(skip_name x, p) \<in> measure length" by simp
qed

declare comps.simps [simp del]

lemma comps_Nil [simp]: "comps [] = []"
  by (subst comps.simps) (simp add: skip_slashes_def)

lemma comps_slash [simp]: "comps (CHR ''/'' # s) = comps s"
  by (subst comps.simps, subst (2) comps.simps) (simp add: skip_slashes_Cons)

lemma comps_skip_slashes [simp]: "comps (skip_slashes s) = comps s"
  by (induction s) (auto simp: skip_slashes_Cons skip_slashes_def)

lemma comps_name:
  assumes "x \<noteq> []" "CHR ''/'' \<notin> set x" "s = [] \<or> hd s = CHR ''/''"
  shows "comps (x @ s) = x # comps s"
proof -
  have 1: "skip_slashes (x @ s) = x @ s" using assms(1,2) by (cases x) (auto simp: skip_slashes_Cons)
  have "takeWhile (\<lambda>c. c \<noteq> CHR ''/'') (x @ s) = x \<and> skip_name (x @ s) = s"
    using assms(2,3) by (cases s) (auto simp: skip_name_def)
  then show ?thesis using 1 assms(1) by (subst comps.simps) auto
qed

lemma count_loop_comps: "p = [] \<or> hd p \<noteq> CHR ''/'' \<Longrightarrow> count_loop p n = n + length (comps p)"
proof (induction p n rule: count_loop.induct)
  case (1 p n)
  show ?case
  proof (cases "p = []")
    case False
    then have "skip_slashes p = p" using 1(2) by (cases p) (auto simp: skip_slashes_Cons)
    then have "comps p = takeWhile (\<lambda>x. x \<noteq> CHR ''/'') p # comps (skip_name p)"
      using False by (subst comps.simps) simp
    then show ?thesis using False 1(1) skip_slashes_hd [of "skip_name p"] by (subst count_loop.simps) simp
  qed (simp add: count_loop.simps)
qed

lemma count_components_eq: "count_components p = length (comps p)"
  using skip_slashes_hd [of p] by (simp add: count_components_def count_loop_comps)


section \<open>What a rewritten link points to\<close>

lemma skip_common_comps:
  assumes "strip_again (fst (skip_common s t)) (snd (skip_common s t))"
    and "s = [] \<or> hd s \<noteq> CHR ''/''" "t = [] \<or> hd t \<noteq> CHR ''/''"
  shows "\<exists>x. comps s = x # comps (fst (skip_common s t)) \<and> comps t = x # comps (snd (skip_common s t))"
proof -
  obtain x where x: "s = x @ fst (skip_common s t)" "t = x @ snd (skip_common s t)" "CHR ''/'' \<notin> set x"
    using skip_common_split by blast
  have e: "fst (skip_common s t) = [] \<or> hd (fst (skip_common s t)) = CHR ''/''"
      "snd (skip_common s t) = [] \<or> hd (snd (skip_common s t)) = CHR ''/''"
    using strip_again_slash [OF assms(1)] assms(1) by (auto simp: strip_again_def)
  have "x \<noteq> []" using strip_again_slash [OF assms(1)] x(1,2) assms(2,3) by auto
  then have "comps (x @ fst (skip_common s t)) = x # comps (fst (skip_common s t))"
      "comps (x @ snd (skip_common s t)) = x # comps (snd (skip_common s t))"
    using comps_name x(3) e by blast+
  then show ?thesis using x(1,2) by metis
qed

lemma strip_common_spec:
  "\<exists>P. comps s = P @ comps (fst (strip_common s t)) \<and> comps t = P @ comps (snd (strip_common s t))
     \<and> (fst (strip_common s t) = [] \<or> hd (fst (strip_common s t)) \<noteq> CHR ''/'')
     \<and> length (fst (strip_common s t)) \<le> length s"
proof (induction s t rule: strip_common.induct)
  case (1 s t)
  let ?s = "skip_slashes s" and ?t = "skip_slashes t"
  let ?s' = "fst (skip_common ?s ?t)" and ?t' = "snd (skip_common ?s ?t)"
  show ?case
  proof (cases "strip_again ?s' ?t'")
    case True
    then have eq: "strip_common s t = strip_common ?s' ?t'" by (subst strip_common.simps) (simp add: Let_def)
    obtain x where x: "comps s = x # comps ?s'" "comps t = x # comps ?t'"
      using skip_common_comps [OF True skip_slashes_hd skip_slashes_hd] by auto
    obtain y where "?s = y @ ?s'" using skip_common_split by blast
    then have "length ?s' \<le> length s" by (metis length_append le_add2 le_trans length_skip_slashes)
    moreover obtain P where "comps ?s' = P @ comps (fst (strip_common ?s' ?t'))" "comps ?t' = P @ comps (snd (strip_common ?s' ?t'))"
        "fst (strip_common ?s' ?t') = [] \<or> hd (fst (strip_common ?s' ?t')) \<noteq> CHR ''/''"
        "length (fst (strip_common ?s' ?t')) \<le> length ?s'"
      using "1.IH" [OF refl refl refl refl True] by auto
    ultimately show ?thesis using x by (intro exI [of _ "x # P"]) (auto simp: eq)
  next
    case False
    then have "strip_common s t = (?s, ?t)" by (subst strip_common.simps) (simp add: Let_def)
    then show ?thesis using skip_slashes_hd [of s] length_skip_slashes [of s] by (intro exI [of _ "[]"]) simp
  qed
qed

text \<open>
  Following a link: a component \<open>.\<close> stays, \<open>..\<close> goes up, any other goes down; an absolute link
  starts at the root, a relative one in the directory of the link.
\<close>

fun walk :: "string list \<Rightarrow> string list \<Rightarrow> string list" where
  "walk dir [] = dir"
| "walk dir (n # ns) = walk (if n = ''.'' then dir else if n = ''..'' then butlast dir else dir @ [n]) ns"

definition follow :: "string list \<Rightarrow> string \<Rightarrow> string list" where
  "follow dir l = walk (if l \<noteq> [] \<and> hd l = CHR ''/'' then [] else dir) (comps l)"

definition plain :: "string list \<Rightarrow> bool" where
  "plain ns \<longleftrightarrow> ''.'' \<notin> set ns \<and> ''..'' \<notin> set ns"

lemma walk_append: "walk dir (ms @ ns) = walk (walk dir ms) ns"
  by (induction dir ms rule: walk.induct) simp_all

lemma walk_plain: "plain ns \<Longrightarrow> walk dir ns = dir @ ns"
  by (induction dir ns rule: walk.induct) (auto simp: plain_def)

lemma walk_up: "walk dir (replicate n ''..'') = take (length dir - n) dir"
proof (induction n arbitrary: dir)
  case (Suc n)
  then show ?case by (simp add: butlast_conv_take take_take min_def)
qed simp

lemma comps_dotdots: "comps (concat (replicate n ''../'') @ s) = replicate n ''..'' @ comps s"
proof (induction n)
  case (Suc n)
  have "comps (''..'' @ CHR ''/'' # concat (replicate n ''../'') @ s) = ''..'' # comps (CHR ''/'' # concat (replicate n ''../'') @ s)"
    by (rule comps_name) auto
  then show ?case using Suc by simp
qed simp

text \<open>
  (C18) \<open>transform_symlink\<close>: whatever it does to the link in the buffer, following the link from the
  directory of \<open>path\<close> leads to the same place as before (for a path without \<open>.\<close> and \<open>..\<close>), and
  the new link still fits into the buffer with its terminator.
\<close>

theorem transform_symlink_same_target:
  assumes "plain (comps path)" "length buf < sz"
  shows "follow (butlast (comps path)) (transform_symlink bas baslen path buf sz) = follow (butlast (comps path)) buf
    \<and> length (transform_symlink bas baslen path buf sz) < sz"
proof (cases "transform_symlink bas baslen path buf sz = buf")
  case False
  obtain l q where lq: "strip_common buf path = (l, q)" by (cases "strip_common buf path")
  let ?n = "length (comps q) - 1"
  define tail where "tail = (if length l \<noteq> 0 then l else if ?n = 0 then ''.'' else [])"
  define new where "new = concat (replicate ?n ''../'') @ tail"
  have abs: "buf \<noteq> []" "hd buf = CHR ''/''" and q: "comps q \<noteq> []" and sz: "?n * 3 + length l + 2 \<le> sz"
    and tr: "transform_symlink bas baslen path buf sz = new"
    using False lq
    by (auto simp: transform_symlink_def Let_def count_components_eq new_def tail_def split: if_splits)
  obtain P where P: "comps buf = P @ comps l" "comps path = P @ comps q" "l = [] \<or> hd l \<noteq> CHR ''/''"
    using strip_common_spec [of buf path] lq by auto
  have dir: "butlast (comps path) = P @ butlast (comps q)" using P(2) q by (simp add: butlast_append)
  have "\<not> (new \<noteq> [] \<and> hd new = CHR ''/'')" using P(3) by (cases ?n) (auto simp: new_def tail_def)
  moreover have "comps new = replicate ?n ''..'' @ comps tail" unfolding new_def by (rule comps_dotdots)
  ultimately have "follow (butlast (comps path)) new = walk P (comps tail)"
    by (auto simp: follow_def walk_append walk_up dir)
  also have "\<dots> = walk P (comps l)"
    using comps_name [of "''.''" "[]"] by (cases l) (auto simp: tail_def)
  also have "\<dots> = follow (butlast (comps path)) buf"
    using abs P(1,2) assms(1) walk_plain [of P "[]"] by (simp add: follow_def walk_append plain_def)
  finally show ?thesis using tr sz by (auto simp: new_def tail_def length_concat sum_list_replicate)
qed (use assms in simp)

lemmas scan_defs = skip_slashes_def skip_name_def strip_again_def

theorem transform_symlink_same_target_witness:
  "follow [''srv'', ''a''] (transform_symlink ''/srv/'' 5 ''/srv/a/link'' ''/srv/b/file'' 64) = [''srv'', ''b'', ''file'']
     \<and> transform_symlink ''/srv/'' 5 ''/srv/a/link'' ''/srv/b/file'' 64 = ''../b/file''"
proof -
  have c: "comps ''/srv/a/link'' = [''srv'', ''a'', ''link'']" "comps ''/srv/b/file'' = [''srv'', ''b'', ''file'']"
    by (simp_all add: comps.simps scan_defs)
  then have "follow [''srv'', ''a''] (transform_symlink ''/srv/'' 5 ''/srv/a/link'' ''/srv/b/file'' 64)
      = follow [''srv'', ''a''] ''/srv/b/file''"
    using transform_symlink_same_target [of "''/srv/a/link''" "''/srv/b/file''" 64 "''/srv/''" 5] by (simp add: plain_def)
  moreover have "transform_symlink ''/srv/'' 5 ''/srv/a/link'' ''/srv/b/file'' 64 = ''../b/file''"
    by (simp add: transform_symlink_def strip_common.simps count_components_eq comps.simps scan_defs)
  ultimately show ?thesis using c by (simp add: follow_def)
qed

end
