(* ===== verification/Subdir.thy ===== *)
theory Subdir
  imports Fuse_Fs Fuse_Opt Subdir_Links
begin

text \<open>
  \<open>src/lib/modules/subdir.c\<close>: the stackable module that puts a base directory in front of every
  path before it calls the filesystem below. Its objects are found by the address that the
  context's \<open>private_data\<close> holds. The strings that the option parser stores are values, so
  that the block of \<open>base\<close> is not among the blocks the model counts; those of the new paths are.
\<close>

section \<open>The object and its paths\<close>

record 's subdir =
  base :: string
  baselen :: nat
  rellinks :: bool
  next_fs :: "'s fuse_fs"

definition subdir_get :: "(nat \<Rightarrow> 's subdir) \<Rightarrow> 's ctx \<Rightarrow> 's subdir" where
  "subdir_get D c = D (private_data c)"

text \<open>
  The result, the block and the new path in it; \<open>newlen\<close> and the size of the block are \<open>unsigned\<close>.
  The second \<open>strcpy\<close> overwrites the first from \<open>baselen\<close> on.
\<close>

definition subdir_addpath :: "'s subdir \<Rightarrow> path \<Rightarrow> ('s, int \<times> nat \<times> path) call" where
  "subdir_addpath d path =
     (case path of
        None \<Rightarrow> retm (0, 0, None)
      | Some p \<Rightarrow>
          let newlen = (baselen d + length p) mod 2 ^ 32; cap = (newlen + 2) mod 2 ^ 32 in
          bindm malloc (\<lambda>newpath.
          if newpath = 0 then retm (- ENOMEM, 0, None)
          else
            let p = (if p \<noteq> [] \<and> hd p = CHR ''/'' then tl p else p) in
            if length (base d) < cap \<and> baselen d + length p < cap then
              let new = take (baselen d) (base d) @ p in
              retm (0, newpath, Some (if new = [] then ''.'' else new))
            else failm Overflow))"

section \<open>Symbolic links\<close>

text \<open>A C string in a buffer of bytes, and storing one.\<close>

definition get_string :: "(nat \<Rightarrow> byte) \<Rightarrow> nat \<Rightarrow> nat \<Rightarrow> string c" where
  "get_string m a n =
     (let bs = load m a n in
      if 0 \<in> set bs then Inr (map (\<lambda>b. char_of (unat b)) (takeWhile (\<lambda>b. b \<noteq> 0) bs)) else Inl PastEnd)"

definition put_string :: "nat \<Rightarrow> string \<Rightarrow> (nat \<Rightarrow> byte) \<Rightarrow> (nat \<Rightarrow> byte)" where
  "put_string a s = store a (map (\<lambda>x. word_of_nat (of_char x)) s @ [0])"

text \<open>Without a slash in front of the link and the base nothing is scanned.\<close>

definition transform_in_memory :: "'s subdir \<Rightarrow> path \<Rightarrow> nat \<Rightarrow> nat \<Rightarrow> ('s, unit) call" where
  "transform_in_memory d path buf sz =
     lift_world (\<lambda>w.
       if sz = 0 then Inl PastEnd
       else if memory w buf \<noteq> 0x2F \<or> base d = [] \<or> hd (base d) \<noteq> CHR ''/'' then Inr ((), w)
       else bindc (get_string (memory w) buf sz) (\<lambda>l.
         case path of
           None \<Rightarrow> Inl NullDeref
         | Some p \<Rightarrow> Inr ((), w\<lparr>memory := put_string buf (transform_symlink (base d) (baselen d) p l sz) (memory w)\<rparr>)))"

section \<open>The operations\<close>

text \<open>
  The frame of the operations on one path: the new path, the call of the filesystem below, and
  the path freed. \<open>e\<close> turns the error of \<open>subdir_addpath\<close> into the operation's result.
\<close>

definition subdir_call :: "(nat \<Rightarrow> 's subdir) \<Rightarrow> path \<Rightarrow> (int \<Rightarrow> 'r) \<Rightarrow> ('s subdir \<Rightarrow> path \<Rightarrow> ('s, 'r) call) \<Rightarrow> ('s, 'r) call" where
  "subdir_call D path e k = (\<lambda>c.
     let d = subdir_get D c in
     bindm (subdir_addpath d path) (\<lambda>(err, a, newpath).
     if err \<noteq> 0 then retm (e err)
     else bindm (k d newpath) (\<lambda>r. bindm (free_block a) (\<lambda>_. retm r))) c)"

definition subdir_getattr :: "(nat \<Rightarrow> 's subdir) \<Rightarrow> path \<Rightarrow> stat \<Rightarrow> ('s, int \<times> stat) call" where
  "subdir_getattr D path st =
     subdir_call D path (\<lambda>err. (err, st)) (\<lambda>d newpath. fuse_fs_getattr (next_fs d) newpath st)"

definition subdir_fgetattr :: "(nat \<Rightarrow> 's subdir) \<Rightarrow> path \<Rightarrow> stat \<Rightarrow> fuse_file_info \<Rightarrow> ('s, int \<times> stat \<times> fuse_file_info) call" where
  "subdir_fgetattr D path st fi =
     subdir_call D path (\<lambda>err. (err, st, fi)) (\<lambda>d newpath. fuse_fs_fgetattr (next_fs d) newpath st fi)"

definition subdir_access :: "(nat \<Rightarrow> 's subdir) \<Rightarrow> path \<Rightarrow> int \<Rightarrow> ('s, int) call" where
  "subdir_access D path amask =
     subdir_call D path (\<lambda>err. err) (\<lambda>d newpath. fuse_fs_access (next_fs d) newpath amask)"

definition subdir_readlink :: "(nat \<Rightarrow> 's subdir) \<Rightarrow> path \<Rightarrow> nat \<Rightarrow> nat \<Rightarrow> ('s, int) call" where
  "subdir_readlink D path buf sz =
     subdir_call D path (\<lambda>err. err) (\<lambda>d newpath.
       bindm (fuse_fs_readlink (next_fs d) newpath buf sz) (\<lambda>err.
       if err = 0 \<and> rellinks d then bindm (transform_in_memory d newpath buf sz) (\<lambda>_. retm err)
       else retm err))"

definition subdir_opendir :: "(nat \<Rightarrow> 's subdir) \<Rightarrow> path \<Rightarrow> fuse_file_info \<Rightarrow> ('s, int \<times> fuse_file_info) call" where
  "subdir_opendir D path fi =
     subdir_call D path (\<lambda>err. (err, fi)) (\<lambda>d newpath. fuse_fs_opendir (next_fs d) newpath fi)"

definition subdir_readdir :: "(nat \<Rightarrow> 's subdir) \<Rightarrow> path \<Rightarrow> 's fuse_fill_dir_t \<Rightarrow> int \<Rightarrow> fuse_file_info \<Rightarrow> ('s, int \<times> fuse_file_info) call" where
  "subdir_readdir D path filler ofs fi =
     subdir_call D path (\<lambda>err. (err, fi)) (\<lambda>d newpath. fuse_fs_readdir (next_fs d) newpath filler ofs fi)"

definition subdir_releasedir :: "(nat \<Rightarrow> 's subdir) \<Rightarrow> path \<Rightarrow> fuse_file_info \<Rightarrow> ('s, int \<times> fuse_file_info) call" where
  "subdir_releasedir D path fi =
     subdir_call D path (\<lambda>err. (err, fi)) (\<lambda>d newpath. fuse_fs_releasedir (next_fs d) newpath fi)"

definition subdir_mknod :: "(nat \<Rightarrow> 's subdir) \<Rightarrow> path \<Rightarrow> nat \<Rightarrow> nat \<Rightarrow> ('s, int) call" where
  "subdir_mknod D path mode rdev =
     subdir_call D path (\<lambda>err. err) (\<lambda>d newpath. fuse_fs_mknod (next_fs d) newpath mode rdev)"

definition subdir_mkdir :: "(nat \<Rightarrow> 's subdir) \<Rightarrow> path \<Rightarrow> nat \<Rightarrow> ('s, int) call" where
  "subdir_mkdir D path mode =
     subdir_call D path (\<lambda>err. err) (\<lambda>d newpath. fuse_fs_mkdir (next_fs d) newpath mode)"

definition subdir_unlink :: "(nat \<Rightarrow> 's subdir) \<Rightarrow> path \<Rightarrow> ('s, int) call" where
  "subdir_unlink D path =
     subdir_call D path (\<lambda>err. err) (\<lambda>d newpath. fuse_fs_unlink (next_fs d) newpath)"

definition subdir_rmdir :: "(nat \<Rightarrow> 's subdir) \<Rightarrow> path \<Rightarrow> ('s, int) call" where
  "subdir_rmdir D path =
     subdir_call D path (\<lambda>err. err) (\<lambda>d newpath. fuse_fs_rmdir (next_fs d) newpath)"

definition subdir_symlink :: "(nat \<Rightarrow> 's subdir) \<Rightarrow> string \<Rightarrow> path \<Rightarrow> ('s, int) call" where
  "subdir_symlink D from path =
     subdir_call D path (\<lambda>err. err) (\<lambda>d newpath. fuse_fs_symlink (next_fs d) from newpath)"

text \<open>The frame of the operations on two paths.\<close>

definition subdir_call2 :: "(nat \<Rightarrow> 's subdir) \<Rightarrow> path \<Rightarrow> path \<Rightarrow> ('s subdir \<Rightarrow> path \<Rightarrow> path \<Rightarrow> ('s, int) call) \<Rightarrow> ('s, int) call" where
  "subdir_call2 D from to k = (\<lambda>c.
     let d = subdir_get D c in
     bindm (subdir_addpath d from) (\<lambda>(err, a, newfrom).
     if err \<noteq> 0 then retm err
     else
       bindm (bindm (subdir_addpath d to) (\<lambda>(err, b, newto).
              if err \<noteq> 0 then retm err
              else bindm (k d newfrom newto) (\<lambda>r. bindm (free_block b) (\<lambda>_. retm r))))
         (\<lambda>r. bindm (free_block a) (\<lambda>_. retm r))) c)"

definition subdir_rename :: "(nat \<Rightarrow> 's subdir) \<Rightarrow> path \<Rightarrow> path \<Rightarrow> ('s, int) call" where
  "subdir_rename D from to = subdir_call2 D from to (\<lambda>d newfrom newto. fuse_fs_rename (next_fs d) newfrom newto)"

definition subdir_link :: "(nat \<Rightarrow> 's subdir) \<Rightarrow> path \<Rightarrow> path \<Rightarrow> ('s, int) call" where
  "subdir_link D from to = subdir_call2 D from to (\<lambda>d newfrom newto. fuse_fs_link (next_fs d) newfrom newto)"

definition subdir_chmod :: "(nat \<Rightarrow> 's subdir) \<Rightarrow> path \<Rightarrow> nat \<Rightarrow> ('s, int) call" where
  "subdir_chmod D path mode =
     subdir_call D path (\<lambda>err. err) (\<lambda>d newpath. fuse_fs_chmod (next_fs d) newpath mode)"

definition subdir_chown :: "(nat \<Rightarrow> 's subdir) \<Rightarrow> path \<Rightarrow> nat \<Rightarrow> nat \<Rightarrow> ('s, int) call" where
  "subdir_chown D path uid gid =
     subdir_call D path (\<lambda>err. err) (\<lambda>d newpath. fuse_fs_chown (next_fs d) newpath uid gid)"

definition subdir_truncate :: "(nat \<Rightarrow> 's subdir) \<Rightarrow> path \<Rightarrow> int \<Rightarrow> ('s, int) call" where
  "subdir_truncate D path sz =
     subdir_call D path (\<lambda>err. err) (\<lambda>d newpath. fuse_fs_truncate (next_fs d) newpath sz)"

definition subdir_ftruncate :: "(nat \<Rightarrow> 's subdir) \<Rightarrow> path \<Rightarrow> int \<Rightarrow> fuse_file_info \<Rightarrow> ('s, int \<times> fuse_file_info) call" where
  "subdir_ftruncate D path sz fi =
     subdir_call D path (\<lambda>err. (err, fi)) (\<lambda>d newpath. fuse_fs_ftruncate (next_fs d) newpath sz fi)"

definition subdir_utimens :: "(nat \<Rightarrow> 's subdir) \<Rightarrow> path \<Rightarrow> timespec \<Rightarrow> timespec \<Rightarrow> ('s, int) call" where
  "subdir_utimens D path ts0 ts1 =
     subdir_call D path (\<lambda>err. err) (\<lambda>d newpath. fuse_fs_utimens (next_fs d) newpath ts0 ts1)"

definition subdir_create :: "(nat \<Rightarrow> 's subdir) \<Rightarrow> path \<Rightarrow> nat \<Rightarrow> fuse_file_info \<Rightarrow> ('s, int \<times> fuse_file_info) call" where
  "subdir_create D path mode fi =
     subdir_call D path (\<lambda>err. (err, fi)) (\<lambda>d newpath. fuse_fs_create (next_fs d) newpath mode fi)"

definition subdir_open :: "(nat \<Rightarrow> 's subdir) \<Rightarrow> path \<Rightarrow> fuse_file_info \<Rightarrow> ('s, int \<times> fuse_file_info) call" where
  "subdir_open D path fi =
     subdir_call D path (\<lambda>err. (err, fi)) (\<lambda>d newpath. fuse_fs_open (next_fs d) newpath fi)"

definition subdir_read_buf :: "(nat \<Rightarrow> 's subdir) \<Rightarrow> path \<Rightarrow> bufp \<Rightarrow> nat \<Rightarrow> int \<Rightarrow> fuse_file_info \<Rightarrow> ('s, int \<times> bufp \<times> fuse_file_info) call" where
  "subdir_read_buf D path bufp sz ofs fi =
     subdir_call D path (\<lambda>err. (err, bufp, fi)) (\<lambda>d newpath. fuse_fs_read_buf (next_fs d) newpath bufp sz ofs fi)"

definition subdir_write_buf :: "'s kernel \<Rightarrow> nat \<Rightarrow> (nat \<Rightarrow> 's subdir) \<Rightarrow> path \<Rightarrow> fuse_bufvec \<Rightarrow> int \<Rightarrow> fuse_file_info \<Rightarrow> ('s, int \<times> fuse_file_info) call" where
  "subdir_write_buf K tmp D path buf ofs fi =
     subdir_call D path (\<lambda>err. (err, fi)) (\<lambda>d newpath. fuse_fs_write_buf K tmp (next_fs d) newpath buf ofs fi)"

definition subdir_statfs :: "statfs \<Rightarrow> (nat \<Rightarrow> 's subdir) \<Rightarrow> path \<Rightarrow> statvfs \<Rightarrow> ('s, int \<times> statvfs) call" where
  "subdir_statfs junk D path buf =
     subdir_call D path (\<lambda>err. (err, buf)) (\<lambda>d newpath. fuse_fs_statfs junk (next_fs d) newpath buf)"

definition subdir_flush :: "(nat \<Rightarrow> 's subdir) \<Rightarrow> path \<Rightarrow> fuse_file_info \<Rightarrow> ('s, int \<times> fuse_file_info) call" where
  "subdir_flush D path fi =
     subdir_call D path (\<lambda>err. (err, fi)) (\<lambda>d newpath. fuse_fs_flush (next_fs d) newpath fi)"

definition subdir_release :: "(nat \<Rightarrow> 's subdir) \<Rightarrow> path \<Rightarrow> fuse_file_info \<Rightarrow> ('s, int \<times> fuse_file_info) call" where
  "subdir_release D path fi =
     subdir_call D path (\<lambda>err. (err, fi)) (\<lambda>d newpath. fuse_fs_release (next_fs d) newpath fi)"

definition subdir_fsync :: "(nat \<Rightarrow> 's subdir) \<Rightarrow> path \<Rightarrow> int \<Rightarrow> fuse_file_info \<Rightarrow> ('s, int \<times> fuse_file_info) call" where
  "subdir_fsync D path isdatasync fi =
     subdir_call D path (\<lambda>err. (err, fi)) (\<lambda>d newpath. fuse_fs_fsync (next_fs d) newpath isdatasync fi)"

definition subdir_fsyncdir :: "(nat \<Rightarrow> 's subdir) \<Rightarrow> path \<Rightarrow> int \<Rightarrow> fuse_file_info \<Rightarrow> ('s, int \<times> fuse_file_info) call" where
  "subdir_fsyncdir D path isdatasync fi =
     subdir_call D path (\<lambda>err. (err, fi)) (\<lambda>d newpath. fuse_fs_fsyncdir (next_fs d) newpath isdatasync fi)"

definition subdir_setxattr :: "(nat \<Rightarrow> 's subdir) \<Rightarrow> path \<Rightarrow> string \<Rightarrow> nat \<Rightarrow> nat \<Rightarrow> int \<Rightarrow> ('s, int) call" where
  "subdir_setxattr D path name val sz flags =
     subdir_call D path (\<lambda>err. err) (\<lambda>d newpath. fuse_fs_setxattr (next_fs d) newpath name val sz flags)"

definition subdir_getxattr :: "(nat \<Rightarrow> 's subdir) \<Rightarrow> path \<Rightarrow> string \<Rightarrow> nat \<Rightarrow> nat \<Rightarrow> ('s, int) call" where
  "subdir_getxattr D path name val sz =
     subdir_call D path (\<lambda>err. err) (\<lambda>d newpath. fuse_fs_getxattr (next_fs d) newpath name val sz)"

definition subdir_listxattr :: "(nat \<Rightarrow> 's subdir) \<Rightarrow> path \<Rightarrow> nat \<Rightarrow> nat \<Rightarrow> ('s, int) call" where
  "subdir_listxattr D path lst sz =
     subdir_call D path (\<lambda>err. err) (\<lambda>d newpath. fuse_fs_listxattr (next_fs d) newpath lst sz)"

definition subdir_removexattr :: "(nat \<Rightarrow> 's subdir) \<Rightarrow> path \<Rightarrow> string \<Rightarrow> ('s, int) call" where
  "subdir_removexattr D path name =
     subdir_call D path (\<lambda>err. err) (\<lambda>d newpath. fuse_fs_removexattr (next_fs d) newpath name)"

definition subdir_lock :: "(nat \<Rightarrow> 's subdir) \<Rightarrow> path \<Rightarrow> fuse_file_info \<Rightarrow> int \<Rightarrow> flock \<Rightarrow> ('s, int \<times> fuse_file_info \<times> flock) call" where
  "subdir_lock D path fi cmd lck =
     subdir_call D path (\<lambda>err. (err, fi, lck)) (\<lambda>d newpath. fuse_fs_lock (next_fs d) newpath fi cmd lck)"

definition subdir_flock :: "(nat \<Rightarrow> 's subdir) \<Rightarrow> path \<Rightarrow> fuse_file_info \<Rightarrow> int \<Rightarrow> ('s, int \<times> fuse_file_info) call" where
  "subdir_flock D path fi lop =
     subdir_call D path (\<lambda>err. (err, fi)) (\<lambda>d newpath. fuse_fs_flock (next_fs d) newpath fi lop)"

definition subdir_bmap :: "(nat \<Rightarrow> 's subdir) \<Rightarrow> path \<Rightarrow> nat \<Rightarrow> 64 word \<Rightarrow> ('s, int \<times> 64 word) call" where
  "subdir_bmap D path blocksize ix =
     subdir_call D path (\<lambda>err. (err, ix)) (\<lambda>d newpath. fuse_fs_bmap (next_fs d) newpath blocksize ix)"

definition subdir_init :: "(nat \<Rightarrow> 's subdir) \<Rightarrow> fuse_conn_info \<Rightarrow> ('s, nat \<times> fuse_conn_info) call" where
  "subdir_init D conn = (\<lambda>c.
     let d = private_data c in
     bindm (fuse_fs_init (next_fs (D d)) conn) (\<lambda>conn. retm (d, conn)) c)"

definition subdir_destroy :: "(nat \<Rightarrow> 's subdir) \<Rightarrow> nat \<Rightarrow> ('s, unit) call" where
  "subdir_destroy D dat = bindm (fuse_fs_destroy (next_fs (D dat))) (\<lambda>_. free_block dat)"

definition subdir_oper :: "'s kernel \<Rightarrow> nat \<Rightarrow> statfs \<Rightarrow> (nat \<Rightarrow> 's subdir) \<Rightarrow> 's fuse_operations" where
  "subdir_oper K tmp junk D = \<lparr>
     op_getattr = Some (subdir_getattr D), op_readlink = Some (subdir_readlink D), op_getdir = None,
     op_mknod = Some (subdir_mknod D), op_mkdir = Some (subdir_mkdir D), op_unlink = Some (subdir_unlink D),
     op_rmdir = Some (subdir_rmdir D), op_symlink = Some (subdir_symlink D), op_rename = Some (subdir_rename D),
     op_link = Some (subdir_link D), op_chmod = Some (subdir_chmod D), op_chown = Some (subdir_chown D),
     op_truncate = Some (subdir_truncate D), op_utime = None, op_open = Some (Open25 (subdir_open D)),
     op_read = None, op_write = None, op_statfs = Some (Statfs25 (subdir_statfs junk D)),
     op_flush = Some (subdir_flush D), op_release = Some (Open25 (subdir_release D)),
     op_fsync = Some (subdir_fsync D), op_setxattr = Some (subdir_setxattr D), op_getxattr = Some (subdir_getxattr D),
     op_listxattr = Some (subdir_listxattr D), op_removexattr = Some (subdir_removexattr D),
     op_opendir = Some (Open25 (subdir_opendir D)), op_readdir = Some (subdir_readdir D),
     op_releasedir = Some (subdir_releasedir D), op_fsyncdir = Some (subdir_fsyncdir D),
     op_init = Some (subdir_init D), op_destroy = Some (subdir_destroy D), op_access = Some (subdir_access D),
     op_create = Some (subdir_create D), op_ftruncate = Some (subdir_ftruncate D),
     op_fgetattr = Some (subdir_fgetattr D), op_lock = Some (subdir_lock D), op_utimens = Some (subdir_utimens D),
     op_bmap = Some (subdir_bmap D), flag_nullpath_ok = True, flag_nopath = True, flag_utime_omit_ok = False,
     op_ioctl = None, op_poll = None, op_write_buf = Some (subdir_write_buf K tmp D),
     op_read_buf = Some (subdir_read_buf D), op_flock = Some (subdir_flock D)\<rparr>"

section \<open>Creating a module\<close>

definition subdir_opts :: "fuse_opt list" where
  "subdir_opts =
     [\<lparr>templ = ''-h'', offset = None, opt_value = 0\<rparr>, \<lparr>templ = ''--help'', offset = None, opt_value = 0\<rparr>,
      \<lparr>templ = ''subdir=%s'', offset = Some 0, opt_value = 0\<rparr>,
      \<lparr>templ = ''rellinks'', offset = Some 16, opt_value = 1\<rparr>,
      \<lparr>templ = ''norellinks'', offset = Some 16, opt_value = 0\<rparr>]"

definition subdir_opt_proc :: opt_proc where
  "subdir_opt_proc dat arg key out = (if key = 0 then -1 else 1, dat, out)"

text \<open>
  The new filesystem, its module's address and object, if all goes well; \<open>args\<close> afterwards. The
  allocations of the parser and of \<open>realloc\<close> are \<open>bs\<close> and \<open>re\<close>. The filesystems below are
  given as a list.
\<close>

definition subdir_new :: "(nat \<Rightarrow> 's subdir) \<Rightarrow> 's kernel \<Rightarrow> nat \<Rightarrow> statfs \<Rightarrow> scanf \<Rightarrow> bool list \<Rightarrow> bool \<Rightarrow> fuse_args \<Rightarrow> 's fuse_fs list
    \<Rightarrow> ('s, ('s fuse_fs \<times> 's subdir) option \<times> fuse_args) call" where
  "subdir_new D K tmp junk sscanf bs re args nxt =
     bindm malloc (\<lambda>d.
     if d = 0 then retm (None, args)
     else (\<lambda>c. bindc (fuse_opt_parse sscanf args (\<lambda>_. None) subdir_opts (Some subdir_opt_proc) bs) (\<lambda>(res, args, dat).
       let out_free = bindm (free_block d) (\<lambda>_. retm (None, args)) in
       if res = -1 \<or> length nxt \<noteq> 1 then out_free c
       else case dat 0 of
         Some (OptStr b) \<Rightarrow>
           if b \<noteq> [] \<and> last b \<noteq> CHR ''/'' \<and> \<not> re then out_free c
           else
             let b = (if b \<noteq> [] \<and> last b \<noteq> CHR ''/'' then b @ ''/'' else b);
                 obj = \<lparr>base = b, baselen = length b, rellinks = dat 16 = Some (OptInt 1), next_fs = nxt ! 0\<rparr>
             in bindm (fuse_fs_new (subdir_oper K tmp junk (D(d := obj))) d) (\<lambda>fs.
                  case fs of None \<Rightarrow> out_free | Some fs \<Rightarrow> retm (Some (fs, obj), args)) c
       | _ \<Rightarrow> out_free c)))"

end
