(* ===== verification/Subdir_Inv.thy ===== *)
theory Subdir_Inv
  imports Subdir Fuse_Inv Fuse_Io
begin

text \<open>
  What the module \<open>subdir\<close> promises: its operations reach the filesystem below on paths under the
  base directory only, and on such a path they do what the filesystem below does.
\<close>

section \<open>Paths under the base\<close>

definition under :: "string \<Rightarrow> path \<Rightarrow> bool" where
  "under b p \<longleftrightarrow> (case p of None \<Rightarrow> True | Some q \<Rightarrow> b = [] \<or> take (length b) q = b)"

definition wf_subdir :: "'s subdir \<Rightarrow> bool" where
  "wf_subdir d \<longleftrightarrow> baselen d = length (base d)"

lemma addpath_under:
  "wf_subdir d \<Longrightarrow> subdir_addpath d path c = Inr ((err, a, newpath), c') \<Longrightarrow> under (base d) newpath"
  by (auto simp: subdir_addpath_def under_def wf_subdir_def malloc_def Let_def split: option.splits if_splits list.splits)

lemma pres_addpath: "pres I (subdir_addpath d path)"
  unfolding subdir_addpath_def Let_def
  by (intro pres_case_option pres_bindm pres_malloc pres_if pres_retm pres_failm)

lemma pres_bindm_ok:
  fixes m :: "('s, 'a) call"
  assumes "pres I m" "\<And>c x c'. m c = Inr (x, c') \<Longrightarrow> pres I (f x)"
  shows "pres I (bindm m f)"
proof (rule presI)
  fix c :: "'s ctx" assume c: "I (os_state (wrld c))"
  show "okc (\<lambda>(_, c'). I (os_state (wrld c'))) (bindm m f c)"
  proof (cases "m c")
    case (Inr r)
    then show ?thesis
      using presD [of I, OF assms(1) c] presD [of I, OF assms(2)] by (cases r) simp
  qed simp
qed

lemma pres_bind_addpath:
  assumes "wf_subdir d" "\<And>err a p. under (base d) p \<Longrightarrow> pres I (f err a p)"
  shows "pres I (bindm (subdir_addpath d path) (\<lambda>(err, a, p). f err a p))"
  using addpath_under [OF assms(1)] assms(2) by (intro pres_bindm_ok pres_addpath) auto

lemma pres_get: "(\<And>x. pres I (m (D x))) \<Longrightarrow> pres I (\<lambda>c. let d = subdir_get D c in m d c)"
  by (simp add: pres_def subdir_get_def Let_def)

lemma pres_subdir_call:
  assumes "\<And>x. wf_subdir (D x)" "\<And>x p. under (base (D x)) p \<Longrightarrow> pres I (k (D x) p)"
  shows "pres I (subdir_call D path e k)"
  unfolding subdir_call_def using assms
  by (intro pres_get pres_bind_addpath pres_if pres_bindm pres_free pres_retm)

lemma pres_subdir_call2:
  assumes "\<And>x. wf_subdir (D x)" "\<And>x p q. under (base (D x)) p \<Longrightarrow> under (base (D x)) q \<Longrightarrow> pres I (k (D x) p q)"
  shows "pres I (subdir_call2 D from to k)"
  unfolding subdir_call2_def using assms
  by (intro pres_get pres_bind_addpath pres_if pres_bindm [of I "bindm _ _"] pres_bindm [of I "free_block _"]
      pres_bindm [of I "k _ _ _"] pres_free pres_retm)

lemma pres_transform: "pres I (transform_in_memory d p b n)"
  unfolding transform_in_memory_def
  by (rule pres_lift_world) (auto simp: pres_world_def okc_iff bindc_eq_Inr split: option.splits)

section \<open>Confinement\<close>

lemma subdir_ops_pres:
  assumes "\<And>x. wf_subdir (D x)" "\<And>x. fs_ops (under (base (D x))) I (op (next_fs (D x)))" "kernel_pres K I"
  shows "pres I (subdir_getattr D p st)"
    and "pres I (subdir_fgetattr D p st fi)"
    and "pres I (subdir_access D p mk)"
    and "pres I (subdir_opendir D p fi)"
    and "pres I (subdir_releasedir D p fi)"
    and "pres I (subdir_mknod D p md dv)"
    and "pres I (subdir_mkdir D p md)"
    and "pres I (subdir_unlink D p)"
    and "pres I (subdir_rmdir D p)"
    and "pres I (subdir_chmod D p md)"
    and "pres I (subdir_chown D p u g)"
    and "pres I (subdir_truncate D p n)"
    and "pres I (subdir_ftruncate D p n fi)"
    and "pres I (subdir_utimens D p t0 t1)"
    and "pres I (subdir_create D p md fi)"
    and "pres I (subdir_open D p fi)"
    and "pres I (subdir_read_buf D p bp m ofs fi)"
    and "pres I (subdir_flush D p fi)"
    and "pres I (subdir_release D p fi)"
    and "pres I (subdir_fsync D p ds fi)"
    and "pres I (subdir_fsyncdir D p ds fi)"
    and "pres I (subdir_setxattr D p x v m fl)"
    and "pres I (subdir_getxattr D p x v m)"
    and "pres I (subdir_listxattr D p v m)"
    and "pres I (subdir_removexattr D p x)"
    and "pres I (subdir_lock D p fi cmd lk)"
    and "pres I (subdir_flock D p fi lop)"
    and "pres I (subdir_bmap D p m ix)"
    and "pres I (subdir_readlink D p v m)"
    and "(\<And>x y z. pres I (h x y z)) \<Longrightarrow> pres I (subdir_readdir D p h ofs fi)"
    and "pres I (subdir_symlink D x p)" and "pres I (subdir_rename D p q)" and "pres I (subdir_link D p q)"
    and "pres I (subdir_write_buf K tmp D p bv ofs fi)" and "pres I (subdir_statfs junk D p sv)"
    and "pres I (subdir_init D conn)" and "pres I (subdir_destroy D dt)"
proof -
  have L: "fs_layer (under (base (D x))) I (next_fs (D x))" for x using assms(2) by (simp add: fs_layer_def)
  show "pres I (subdir_getattr D p st)"
    unfolding subdir_getattr_def by (rule pres_subdir_call [OF assms(1)]) (rule fs_layer.fs_getattr [OF L])
  show "pres I (subdir_fgetattr D p st fi)"
    unfolding subdir_fgetattr_def by (rule pres_subdir_call [OF assms(1)]) (rule fs_layer.fs_fgetattr [OF L])
  show "pres I (subdir_access D p mk)"
    unfolding subdir_access_def by (rule pres_subdir_call [OF assms(1)]) (rule fs_layer.fs_access [OF L])
  show "pres I (subdir_opendir D p fi)"
    unfolding subdir_opendir_def by (rule pres_subdir_call [OF assms(1)]) (rule fs_layer.fs_opendir [OF L])
  show "pres I (subdir_releasedir D p fi)"
    unfolding subdir_releasedir_def by (rule pres_subdir_call [OF assms(1)]) (rule fs_layer.fs_releasedir [OF L])
  show "pres I (subdir_mknod D p md dv)"
    unfolding subdir_mknod_def by (rule pres_subdir_call [OF assms(1)]) (rule fs_layer.fs_mknod [OF L])
  show "pres I (subdir_mkdir D p md)"
    unfolding subdir_mkdir_def by (rule pres_subdir_call [OF assms(1)]) (rule fs_layer.fs_mkdir [OF L])
  show "pres I (subdir_unlink D p)"
    unfolding subdir_unlink_def by (rule pres_subdir_call [OF assms(1)]) (rule fs_layer.fs_unlink [OF L])
  show "pres I (subdir_rmdir D p)"
    unfolding subdir_rmdir_def by (rule pres_subdir_call [OF assms(1)]) (rule fs_layer.fs_rmdir [OF L])
  show "pres I (subdir_chmod D p md)"
    unfolding subdir_chmod_def by (rule pres_subdir_call [OF assms(1)]) (rule fs_layer.fs_chmod [OF L])
  show "pres I (subdir_chown D p u g)"
    unfolding subdir_chown_def by (rule pres_subdir_call [OF assms(1)]) (rule fs_layer.fs_chown [OF L])
  show "pres I (subdir_truncate D p n)"
    unfolding subdir_truncate_def by (rule pres_subdir_call [OF assms(1)]) (rule fs_layer.fs_truncate [OF L])
  show "pres I (subdir_ftruncate D p n fi)"
    unfolding subdir_ftruncate_def by (rule pres_subdir_call [OF assms(1)]) (rule fs_layer.fs_ftruncate [OF L])
  show "pres I (subdir_utimens D p t0 t1)"
    unfolding subdir_utimens_def by (rule pres_subdir_call [OF assms(1)]) (rule fs_layer.fs_utimens [OF L])
  show "pres I (subdir_create D p md fi)"
    unfolding subdir_create_def by (rule pres_subdir_call [OF assms(1)]) (rule fs_layer.fs_create [OF L])
  show "pres I (subdir_open D p fi)"
    unfolding subdir_open_def by (rule pres_subdir_call [OF assms(1)]) (rule fs_layer.fs_open [OF L])
  show "pres I (subdir_read_buf D p bp m ofs fi)"
    unfolding subdir_read_buf_def by (rule pres_subdir_call [OF assms(1)]) (rule fs_layer.fs_read_buf [OF L])
  show "pres I (subdir_flush D p fi)"
    unfolding subdir_flush_def by (rule pres_subdir_call [OF assms(1)]) (rule fs_layer.fs_flush [OF L])
  show "pres I (subdir_release D p fi)"
    unfolding subdir_release_def by (rule pres_subdir_call [OF assms(1)]) (rule fs_layer.fs_release [OF L])
  show "pres I (subdir_fsync D p ds fi)"
    unfolding subdir_fsync_def by (rule pres_subdir_call [OF assms(1)]) (rule fs_layer.fs_fsync [OF L])
  show "pres I (subdir_fsyncdir D p ds fi)"
    unfolding subdir_fsyncdir_def by (rule pres_subdir_call [OF assms(1)]) (rule fs_layer.fs_fsyncdir [OF L])
  show "pres I (subdir_setxattr D p x v m fl)"
    unfolding subdir_setxattr_def by (rule pres_subdir_call [OF assms(1)]) (rule fs_layer.fs_setxattr [OF L])
  show "pres I (subdir_getxattr D p x v m)"
    unfolding subdir_getxattr_def by (rule pres_subdir_call [OF assms(1)]) (rule fs_layer.fs_getxattr [OF L])
  show "pres I (subdir_listxattr D p v m)"
    unfolding subdir_listxattr_def by (rule pres_subdir_call [OF assms(1)]) (rule fs_layer.fs_listxattr [OF L])
  show "pres I (subdir_removexattr D p x)"
    unfolding subdir_removexattr_def by (rule pres_subdir_call [OF assms(1)]) (rule fs_layer.fs_removexattr [OF L])
  show "pres I (subdir_lock D p fi cmd lk)"
    unfolding subdir_lock_def by (rule pres_subdir_call [OF assms(1)]) (rule fs_layer.fs_lock [OF L])
  show "pres I (subdir_flock D p fi lop)"
    unfolding subdir_flock_def by (rule pres_subdir_call [OF assms(1)]) (rule fs_layer.fs_flock [OF L])
  show "pres I (subdir_bmap D p m ix)"
    unfolding subdir_bmap_def by (rule pres_subdir_call [OF assms(1)]) (rule fs_layer.fs_bmap [OF L])
  show "pres I (subdir_readlink D p v m)"
    unfolding subdir_readlink_def
    by (rule pres_subdir_call [OF assms(1)]) (intro pres_bindm fs_layer.fs_readlink [OF L] pres_if pres_transform pres_retm)
  show "pres I (subdir_readdir D p h ofs fi)" if "\<And>x y z. pres I (h x y z)"
    unfolding subdir_readdir_def by (rule pres_subdir_call [OF assms(1)]) (rule fs_layer.fs_readdir [OF L _ that])
  show "pres I (subdir_symlink D x p)"
    unfolding subdir_symlink_def by (rule pres_subdir_call [OF assms(1)]) (rule fs_layer.fs_symlink [OF L])
  show "pres I (subdir_rename D p q)"
    unfolding subdir_rename_def by (rule pres_subdir_call2 [OF assms(1)]) (rule fs_layer.fs_rename [OF L])
  show "pres I (subdir_link D p q)"
    unfolding subdir_link_def by (rule pres_subdir_call2 [OF assms(1)]) (rule fs_layer.fs_link [OF L])
  show "pres I (subdir_write_buf K tmp D p bv ofs fi)"
    unfolding subdir_write_buf_def
    by (rule pres_subdir_call [OF assms(1)]) (rule fs_layer.fs_write_buf [OF L _ assms(3)])
  show "pres I (subdir_statfs junk D p sv)"
    unfolding subdir_statfs_def by (rule pres_subdir_call [OF assms(1)]) (rule fs_layer.fs_statfs [OF L])
  have "pres I (bindm (fuse_fs_init (next_fs (D d)) conn) (\<lambda>conn. retm (d, conn)))" for d
    using fs_layer.fs_init [OF L] by (intro pres_bindm pres_retm)
  then show "pres I (subdir_init D conn)"
    by (simp add: subdir_init_def Let_def pres_def del: bindm_apply)
  show "pres I (subdir_destroy D dt)"
    unfolding subdir_destroy_def using fs_layer.fs_destroy [OF L] by (intro pres_bindm pres_free)
qed

lemma subdir_table_ok:
  assumes "\<And>x. wf_subdir (D x)" "\<And>x. fs_ops (under (base (D x))) I (op (next_fs (D x)))" "kernel_pres K I"
  shows "fs_ops (\<lambda>_. True) I (subdir_oper K tmp junk D)"
  by unfold_locales (auto simp: subdir_oper_def intro: subdir_ops_pres [OF assms])

text \<open>
  (C17) Confinement. Whatever invariant of the system the filesystem below keeps when it is called on
  paths under the base directory, the module keeps it on every path it is called with: all its
  operations, with the errors, the fall-backs and the copies on the way, reach the filesystem
  below under the base only.
\<close>

theorem subdir_confined:
  assumes "\<And>x. wf_subdir (D x)" "\<And>x. fs_ops (under (base (D x))) I (op (next_fs (D x)))" "kernel_pres K I"
  shows "fs_ops (\<lambda>_. True) I (subdir_oper K tmp junk D)"
  using assms by (rule subdir_table_ok)

section \<open>What an operation does\<close>

definition rebase :: "'s subdir \<Rightarrow> string \<Rightarrow> string" where
  "rebase d p = (if base d @ p = [] then ''.'' else base d @ p)"


lemma subdir_call2_eq:
  assumes "wf_subdir (subdir_get D c)" "length (base (subdir_get D c)) + length p + 3 < 2 ^ 32" "length (base (subdir_get D c)) + length q + 3 < 2 ^ 32"
    and "mallocs c = a # b # ms" "a \<noteq> 0" "b \<noteq> 0" "a \<noteq> b"
    and "k (subdir_get D c) (Some (rebase (subdir_get D c) p)) (Some (rebase (subdir_get D c) q)) (c\<lparr>mallocs := ms, blocks := b # a # blocks c\<rparr>) = Inr (r, c2)"
    and "blocks c2 = b # a # blocks c"
  shows "subdir_call2 D (Some (CHR ''/'' # p)) (Some (CHR ''/'' # q)) k c = Inr (r, c2\<lparr>blocks := blocks c\<rparr>)"
proof -
  have "subdir_addpath (subdir_get D c) (Some (CHR ''/'' # p)) c
      = Inr ((0, a, Some (rebase (subdir_get D c) p)), c\<lparr>mallocs := b # ms, blocks := a # blocks c\<rparr>)"
    using assms(1,2,4,5) by (simp add: subdir_addpath_def wf_subdir_def malloc_def Let_def rebase_def)
  moreover have "subdir_addpath (subdir_get D c) (Some (CHR ''/'' # q)) (c\<lparr>mallocs := b # ms, blocks := a # blocks c\<rparr>)
      = Inr ((0, b, Some (rebase (subdir_get D c) q)), c\<lparr>mallocs := ms, blocks := b # a # blocks c\<rparr>)"
    using assms(1,3,6) by (simp add: subdir_addpath_def wf_subdir_def malloc_def Let_def rebase_def)
  ultimately show ?thesis using assms(5-9) by (simp add: subdir_call2_def free_block_def)
qed


definition forwards2 :: "'s fuse_fs \<Rightarrow> 's subdir \<Rightarrow> string \<Rightarrow> string \<Rightarrow> nat \<Rightarrow> nat \<Rightarrow> 's ctx \<Rightarrow> 's ctx
    \<Rightarrow> ('s fuse_fs \<Rightarrow> path \<Rightarrow> path \<Rightarrow> ('s, 'r) call) \<Rightarrow> bool" where
  "forwards2 fs d p q a b c c' call \<longleftrightarrow>
     (\<forall>r c2. call (next_fs d) (Some (rebase d p)) (Some (rebase d q)) c' = Inr (r, c2) \<and> blocks c2 = b # a # blocks c
        \<longrightarrow> call fs (Some (CHR ''/'' # p)) (Some (CHR ''/'' # q)) c = Inr (r, c2\<lparr>blocks := blocks c\<rparr>))"

text \<open>The object is one of the module, there is memory for the new path, and its length is an \<open>unsigned\<close>.\<close>

definition module_call :: "'s kernel \<Rightarrow> nat \<Rightarrow> statfs \<Rightarrow> (nat \<Rightarrow> 's subdir) \<Rightarrow> 's fuse_fs \<Rightarrow> 's subdir \<Rightarrow> string \<Rightarrow> nat \<Rightarrow> nat list \<Rightarrow> 's ctx \<Rightarrow> bool" where
  "module_call K tmp junk D fs d p a ms c \<longleftrightarrow> op fs = subdir_oper K tmp junk D \<and> compat fs = 0 \<and> d = D (user_data c (fs_addr fs)) \<and> wf_subdir d
     \<and> length (base d) + length p + 3 < 2 ^ 32 \<and> mallocs c = a # ms \<and> a \<noteq> 0"

lemma module_callD:
  assumes "module_call K tmp junk D fs d p a ms c"
  shows "wf_subdir d" "length (base d) + length p + 3 < 2 ^ 32" "mallocs (set_context fs c) = a # ms" "a \<noteq> 0"
    "op fs = subdir_oper K tmp junk D" "compat fs = 0" "subdir_get D (set_context fs c) = d"
  using assms by (auto simp: module_call_def subdir_get_def set_context_def)


lemma forwards2I:
  assumes "module_call K tmp junk D fs d p a (b # ms) c" "length (base d) + length q + 3 < 2 ^ 32" "b \<noteq> 0" "a \<noteq> b"
    and "c' = c\<lparr>private_data := user_data c (fs_addr fs), mallocs := ms, blocks := b # a # blocks c\<rparr>"
    and "call fs (Some (CHR ''/'' # p)) (Some (CHR ''/'' # q)) c
      = subdir_call2 D (Some (CHR ''/'' # p)) (Some (CHR ''/'' # q)) (\<lambda>d. call (next_fs d)) (set_context fs c)"
  shows "forwards2 fs d p q a b c c' call"
  unfolding forwards2_def
proof (intro allI impI, elim conjE)
  fix r c2
  assume r: "call (next_fs d) (Some (rebase d p)) (Some (rebase d q)) c' = Inr (r, c2)" "blocks c2 = b # a # blocks c"
  note M = module_callD [OF assms(1)]
  note assms(6)
  also have "subdir_call2 D (Some (CHR ''/'' # p)) (Some (CHR ''/'' # q)) (\<lambda>d. call (next_fs d)) (set_context fs c)
      = Inr (r, c2\<lparr>blocks := blocks (set_context fs c)\<rparr>)"
    by (rule subdir_call2_eq [where a = a and b = b and ms = ms]) (use M assms(2-5) r in \<open>simp_all, simp_all add: set_context_def\<close>)
  finally show "call fs (Some (CHR ''/'' # p)) (Some (CHR ''/'' # q)) c = Inr (r, c2\<lparr>blocks := blocks c\<rparr>)" by (simp add: set_context_def)
qed






text \<open>The same for the two operations that take two paths.\<close>

lemma subdir_forwards2:
  assumes "module_call K tmp junk D fs d p a (b # ms) c" "length (base d) + length q + 3 < 2 ^ 32" "b \<noteq> 0" "a \<noteq> b"
    and "c' = c\<lparr>private_data := user_data c (fs_addr fs), mallocs := ms, blocks := b # a # blocks c\<rparr>"
  shows "forwards2 fs d p q a b c c' fuse_fs_rename \<and> forwards2 fs d p q a b c c' fuse_fs_link"
  using module_callD(5,6) [OF assms(1)]
  by (intro conjI forwards2I [OF assms])
    (simp_all add: fuse_fs_rename_def [of fs] fuse_fs_link_def [of fs] dispatch_def subdir_oper_def subdir_rename_def subdir_link_def)


section \<open>An example\<close>

text \<open>A filesystem that notes the directories made in it, below the module with the base \<open>/srv/\<close>.\<close>

definition log_mkdir :: "path \<Rightarrow> nat \<Rightarrow> (string list, int) call" where
  "log_mkdir p md c = (case p of None \<Rightarrow> Inr (- EINVAL, c)
     | Some q \<Rightarrow> Inr (0, c\<lparr>wrld := (wrld c)\<lparr>os_state := q # os_state (wrld c)\<rparr>\<rparr>))"

definition log_fs :: "string list fuse_fs" where
  "log_fs = \<lparr>fs_addr = 2, fs_mod = 0, op = no_ops\<lparr>op_mkdir := Some log_mkdir\<rparr>, compat = 0\<rparr>"

definition log_subdir :: "string list subdir" where
  "log_subdir = \<lparr>base = ''/srv/'', baselen = 5, rellinks = False, next_fs = log_fs\<rparr>"

definition log_kernel :: "string list kernel" where
  "log_kernel = \<lparr>k_write = (\<lambda>_ _ bs s. (int (length bs), s)), k_read = (\<lambda>_ _ n s. (Inr (replicate n 0), s)),
     k_splice = (\<lambda>_ _ _ _ n _ _ s. (int n, s))\<rparr>"

definition log_statfs :: statfs where
  "log_statfs = \<lparr>old_bsize = 0, old_blocks = 0, old_bfree = 0, old_bavail = 0, old_files = 0, old_ffree = 0, old_namelen = 0\<rparr>"

definition in_srv :: "string list \<Rightarrow> bool" where
  "in_srv ps \<longleftrightarrow> list_all (\<lambda>p. take (length ''/srv/'') p = ''/srv/'') ps"

theorem subdir_confined_witness:
  "fs_ops (\<lambda>_. True) in_srv (subdir_oper log_kernel 0 log_statfs (\<lambda>_. log_subdir))"
proof (rule subdir_confined)
  show "fs_ops (under (base log_subdir)) in_srv (op (next_fs log_subdir))" for x :: nat
    by unfold_locales
      (auto simp: log_subdir_def log_fs_def no_ops_def pres_def log_mkdir_def in_srv_def under_def split: option.splits)
qed (simp_all add: wf_subdir_def log_subdir_def kernel_pres_def log_kernel_def)



end
