(* ===== verification/Shfs_Fuse.thy ===== *)
theory Shfs_Fuse
  imports Shfs Subdir_Inv
begin

text \<open>
  The table \<open>sh_oper\<close> of \<open>src/src/shfs.c\<close> as a filesystem of the FUSE library: the handlers run on
  the state of the shadow file system, \<open>read\<close> and \<open>write\<close> on buffers in memory and \<open>readdir\<close>
  through the library's filler. The invariant of the tree of entries holds through every call
  of the filesystem layer, and through any number of \<open>subdir\<close> modules stacked on top; a module
  with a user's directory as its base keeps its callers away from the entries of all other users.
\<close>

section \<open>The handlers as operations\<close>

text \<open>What \<open>malloc\<close>, \<open>time\<close> and the stack give at a call, as a function of the state there.\<close>

record sh_env =
  env_mem :: bool
  env_time :: int
  env_junk :: "u8 list"

type_synonym sh_envs = "shfs ctx \<Rightarrow> sh_env"

definition run_sh :: "(shfs \<Rightarrow> ('a \<times> shfs) c) \<Rightarrow> (shfs, 'a) call" where
  "run_sh f = lift_world (\<lambda>w. bindc (f (os_state w)) (\<lambda>(x, s). Inr (x, w\<lparr>os_state := s\<rparr>)))"

definition on_path :: "path \<Rightarrow> (string \<Rightarrow> (shfs, 'a) call) \<Rightarrow> (shfs, 'a) call" where
  "on_path path k = (case path of None \<Rightarrow> failm NullDeref | Some p \<Rightarrow> k p)"

definition with_env :: "sh_envs \<Rightarrow> (sh_env \<Rightarrow> (shfs, 'a) call) \<Rightarrow> (shfs, 'a) call" where
  "with_env E k = (\<lambda>c. k (E c) c)"

definition op_sh_getattr :: "path \<Rightarrow> stat \<Rightarrow> (shfs, int \<times> stat) call" where
  "op_sh_getattr path st = on_path path (\<lambda>p. run_sh (\<lambda>s. bindc (sh_getattr s p) (\<lambda>r. Inr (r, s))))"

primrec fill_names :: "shfs fuse_fill_dir_t \<Rightarrow> string list \<Rightarrow> (shfs, unit) call" where
  "fill_names filler [] = retm ()"
| "fill_names filler (n # ns) = bindm (filler n None 0) (\<lambda>_. fill_names filler ns)"

definition op_sh_readdir :: "path \<Rightarrow> shfs fuse_fill_dir_t \<Rightarrow> int \<Rightarrow> fuse_file_info \<Rightarrow> (shfs, int \<times> fuse_file_info) call" where
  "op_sh_readdir path filler ofs fi =
     on_path path (\<lambda>p. bindm (run_sh (\<lambda>s. bindc (sh_readdir s p) (\<lambda>r. Inr (r, s)))) (\<lambda>(res, names).
       bindm (fill_names filler names) (\<lambda>_. retm (res, fi))))"

definition op_sh_open :: "path \<Rightarrow> fuse_file_info \<Rightarrow> (shfs, int \<times> fuse_file_info) call" where
  "op_sh_open path fi = on_path path (\<lambda>p. retm (sh_open p, fi))"

definition to_bytes8 :: "string \<Rightarrow> byte list" where
  "to_bytes8 = map (\<lambda>x. word_of_nat (of_char x))"

definition of_bytes8 :: "byte list \<Rightarrow> string" where
  "of_bytes8 = map (\<lambda>b. char_of (unat b))"

definition op_sh_read :: "path \<Rightarrow> nat \<Rightarrow> nat \<Rightarrow> int \<Rightarrow> fuse_file_info \<Rightarrow> (shfs, int \<times> fuse_file_info) call" where
  "op_sh_read path m sz ofs fi =
     on_path path (\<lambda>p. bindm (run_sh (\<lambda>s. sh_read s p sz (nat ofs))) (\<lambda>(res, bytes).
       bindm (lift_world (\<lambda>w. Inr ((), w\<lparr>memory := store m (to_bytes8 bytes) (memory w)\<rparr>))) (\<lambda>_. retm (res, fi))))"

definition op_sh_write :: "sh_envs \<Rightarrow> path \<Rightarrow> nat \<Rightarrow> nat \<Rightarrow> int \<Rightarrow> fuse_file_info \<Rightarrow> (shfs, int \<times> fuse_file_info) call" where
  "op_sh_write E path m sz ofs fi =
     on_path path (\<lambda>p. with_env E (\<lambda>e. bindm (lift_world (\<lambda>w. Inr (of_bytes8 (load (memory w) m sz), w))) (\<lambda>buf.
       bindm (run_sh (\<lambda>s. sh_write (env_time e) (env_junk e) s p buf (nat ofs))) (\<lambda>res. retm (res, fi)))))"

definition op_sh_truncate :: "path \<Rightarrow> int \<Rightarrow> (shfs, int) call" where
  "op_sh_truncate path sz = on_path path (\<lambda>p. retm (sh_truncate p))"

definition op_sh_mkdir :: "sh_envs \<Rightarrow> path \<Rightarrow> nat \<Rightarrow> (shfs, int) call" where
  "op_sh_mkdir E path mode = on_path path (\<lambda>p. with_env E (\<lambda>e. run_sh (\<lambda>s. sh_mkdir (env_mem e) (env_time e) s p)))"

definition op_sh_rmdir :: "path \<Rightarrow> (shfs, int) call" where
  "op_sh_rmdir path = on_path path (\<lambda>p. run_sh (\<lambda>s. sh_rmdir s p))"

definition op_sh_rename :: "path \<Rightarrow> path \<Rightarrow> (shfs, int) call" where
  "op_sh_rename from to = on_path from (\<lambda>p. on_path to (\<lambda>q. run_sh (\<lambda>s. sh_rename s p q)))"

definition op_sh_mknod :: "sh_envs \<Rightarrow> path \<Rightarrow> nat \<Rightarrow> nat \<Rightarrow> (shfs, int) call" where
  "op_sh_mknod E path mode rdev = on_path path (\<lambda>p. with_env E (\<lambda>e. run_sh (\<lambda>s. sh_mknod (env_mem e) s p)))"

definition op_sh_unlink :: "sh_envs \<Rightarrow> path \<Rightarrow> (shfs, int) call" where
  "op_sh_unlink E path = on_path path (\<lambda>p. with_env E (\<lambda>e. run_sh (\<lambda>s. sh_unlink (env_time e) s p)))"

definition sh_table :: "sh_envs \<Rightarrow> shfs fuse_operations" where
  "sh_table E = no_ops\<lparr>
     op_getattr := Some op_sh_getattr, op_readdir := Some op_sh_readdir, op_open := Some (Open25 op_sh_open),
     op_read := Some op_sh_read, op_write := Some (op_sh_write E), op_truncate := Some op_sh_truncate,
     op_mkdir := Some (op_sh_mkdir E), op_rmdir := Some op_sh_rmdir, op_rename := Some op_sh_rename,
     op_mknod := Some (op_sh_mknod E), op_unlink := Some (op_sh_unlink E)\<rparr>"

definition sh_fs :: "nat \<Rightarrow> sh_envs \<Rightarrow> shfs fuse_fs" where
  "sh_fs a E = \<lparr>fs_addr = a, fs_mod = 0, op = sh_table E, compat = 0\<rparr>"

section \<open>The invariant of the tree\<close>

abbreviation tree_wf :: "shfs \<Rightarrow> bool" where
  "tree_wf s \<equiv> wf_tree (root s)"

lemma pres_run_sh: "(\<And>s. I s \<Longrightarrow> okc (\<lambda>r. I (snd r)) (f s)) \<Longrightarrow> pres I (run_sh f)"
  unfolding run_sh_def
  by (rule pres_lift_world) (fastforce simp: pres_world_def okc_iff bindc_eq_Inr)

lemma pres_on_path: "(\<And>p. pres I (k p)) \<Longrightarrow> pres I (on_path path k)"
  by (auto simp: on_path_def)

lemma pres_with_env: "(\<And>e. pres I (k e)) \<Longrightarrow> pres I (with_env E k)"
  by (simp add: with_env_def pres_def)

lemma pres_poke: "pres I (lift_world (\<lambda>w. Inr (x, w\<lparr>memory := f w\<rparr>)))"
  by (rule pres_lift_world) (simp add: pres_world_def)

lemma pres_peek: "pres I (lift_world (\<lambda>w. Inr (f w, w)))"
  by (rule pres_lift_world) (simp add: pres_world_def)

lemma pres_fill_names: "(\<And>x y z. pres I (h x y z)) \<Longrightarrow> pres I (fill_names h ns)"
  by (induction ns) (simp_all only: fill_names.simps pres_retm pres_bindm)

lemma handlers_wf:
  assumes "tree_wf s"
  shows "okc (\<lambda>r. tree_wf (snd r)) (sh_read s p sz ofs)" "okc (\<lambda>r. tree_wf (snd r)) (sh_write t junk s p buf ofs)"
    "okc (\<lambda>r. tree_wf (snd r)) (sh_mkdir av t s p)" "okc (\<lambda>r. tree_wf (snd r)) (sh_rmdir s p)"
    "okc (\<lambda>r. tree_wf (snd r)) (sh_rename s p q)" "okc (\<lambda>r. tree_wf (snd r)) (sh_mknod av s p)"
    "okc (\<lambda>r. tree_wf (snd r)) (sh_unlink t s p)"
  using assms wf_trees.sh_read_root [of s p sz ofs]
  by (auto intro: okc_mono simp: wf_trees.sh_write_inv wf_trees.sh_mkdir_inv wf_trees.sh_rmdir_inv sh_rename_wf
      wf_trees.sh_mknod_inv wf_trees.sh_unlink_inv)


lemma sh_table_ok: "fs_ops (\<lambda>_. True) tree_wf (sh_table E)"
proof -
  note run = pres_run_sh handlers_wf pres_on_path pres_with_env pres_bindm pres_case_prod pres_retm
  have look: "pres tree_wf (run_sh (\<lambda>s. bindc (f s) (\<lambda>r. Inr (r, s))))" for f :: "shfs \<Rightarrow> 'b c"
    by (rule pres_run_sh) (auto intro: okc_bindI [OF okc_true])
  have "pres tree_wf (op_sh_getattr p st)" for p st
    unfolding op_sh_getattr_def by (intro look run)
  moreover have "pres tree_wf (op_sh_readdir p h ofs fi)" if "\<And>x y z. pres tree_wf (h x y z)" for p h ofs fi
    unfolding op_sh_readdir_def using that by (intro look run pres_fill_names)
  moreover have "pres tree_wf (op_sh_open p fi)" for p fi
    unfolding op_sh_open_def by (intro run)
  moreover have "pres tree_wf (op_sh_read p m n ofs fi)" for p m n ofs fi
    unfolding op_sh_read_def by (intro run pres_poke)
  moreover have "pres tree_wf (op_sh_write E p m n ofs fi)" for p m n ofs fi
    unfolding op_sh_write_def by (intro run pres_peek)
  moreover have "pres tree_wf (op_sh_truncate p n)" for p n
    unfolding op_sh_truncate_def by (intro run)
  moreover have "pres tree_wf (op_sh_mkdir E p md)" for p md
    unfolding op_sh_mkdir_def by (intro run)
  moreover have "pres tree_wf (op_sh_rmdir p)" for p
    unfolding op_sh_rmdir_def by (intro run)
  moreover have "pres tree_wf (op_sh_rename p q)" for p q
    unfolding op_sh_rename_def by (intro run)
  moreover have "pres tree_wf (op_sh_mknod E p md dv)" for p md dv
    unfolding op_sh_mknod_def by (intro run)
  moreover have "pres tree_wf (op_sh_unlink E p)" for p
    unfolding op_sh_unlink_def by (intro run)
  ultimately show ?thesis
    by unfold_locales (auto simp: sh_table_def no_ops_def)
qed

interpretation shfs: fs_layer "\<lambda>_. True" tree_wf "sh_fs a E"
  using sh_table_ok by (simp add: fs_layer_def sh_fs_def)

section \<open>Stacks of modules\<close>

text \<open>The shadow file system with any number of \<open>subdir\<close> modules above it.\<close>

inductive shfs_stack :: "shfs fuse_fs \<Rightarrow> bool" where
  bottom: "op fs = sh_table E \<Longrightarrow> shfs_stack fs"
| push: "(\<And>x. wf_subdir (D x)) \<Longrightarrow> (\<And>x. shfs_stack (next_fs (D x))) \<Longrightarrow> kernel_pres K tree_wf \<Longrightarrow>
    op fs = subdir_oper K tmp junk D \<Longrightarrow> shfs_stack fs"

lemma fs_ops_mono: "fs_ops (\<lambda>_. True) I T \<Longrightarrow> fs_ops Q I T"
  by (simp add: fs_ops_def)

lemma shfs_stack_ok: "shfs_stack fs \<Longrightarrow> fs_layer (\<lambda>_. True) tree_wf fs"
proof (induction rule: shfs_stack.induct)
  case (bottom fs E)
  then show ?case using sh_table_ok by (simp add: fs_layer_def)
next
  case (push D K fs tmp junk)
  have "fs_ops (under (base (D x))) tree_wf (op (next_fs (D x)))" for x
    using push.IH [of x] unfolding fs_layer_def by (rule fs_ops_mono)
  then show ?case
    unfolding fs_layer_def push.hyps(4) by (rule subdir_table_ok [OF push.hyps(1) _ push.hyps(3)])
qed

section \<open>One user's directory\<close>

text \<open>
  The names that belong to the directory of \<open>u\<close>: its own, and those that begin with it and a slash (the file system
  does not keep a caller from making such users). All other names find what the book \<open>m\<close> has for them.
\<close>

definition inside :: "string \<Rightarrow> string \<Rightarrow> bool" where
  "inside u n \<longleftrightarrow> n = u \<or> take (length u + 1) n = u @ ''/''"

definition others_kept :: "string \<Rightarrow> (string \<Rightarrow> user option) \<Rightarrow> shfs \<Rightarrow> bool" where
  "others_kept u m s \<longleftrightarrow> (\<forall>n. \<not> inside u n \<longrightarrow> lookup (root s) n = m n)"

definition same_others :: "string \<Rightarrow> sf_root \<Rightarrow> sf_root \<Rightarrow> bool" where
  "same_others u r r' \<longleftrightarrow> (\<forall>n. \<not> inside u n \<longrightarrow> lookup r' n = lookup r n)"

lemma others_step: "others_kept u m s \<Longrightarrow> same_others u (root s) (root s') \<Longrightarrow> others_kept u m s'"
  by (simp add: others_kept_def same_others_def)

lemma same_others_refl [simp]: "same_others u r r"
  by (simp add: same_others_def)

lemma same_others_trans: "same_others u r r1 \<Longrightarrow> same_others u r1 r2 \<Longrightarrow> same_others u r r2"
  by (simp add: same_others_def)

lemma inside_self [simp]: "inside u u"
  by (simp add: inside_def)

lemma inside_below [simp]: "inside u (u @ CHR ''/'' # x)"
  by (simp add: inside_def)

lemma under_dir: "under (CHR ''/'' # u @ ''/'') (Some p) \<Longrightarrow> \<exists>x. p = attr_path u x"
  by (auto simp: under_def intro: exI [of _ "drop (length u + 2) p"]) (metis append_Cons append_assoc append_take_drop_id self_append_conv2)

lemma find_loop_set_other:
  "username (us ! i) \<noteq> n \<Longrightarrow> username v \<noteq> n \<Longrightarrow> find_loop (us[i := v]) n = find_loop us n"
proof (induction us arbitrary: i)
  case (Cons w us)
  then show ?case by (cases i) auto
qed simp

lemma set_user_others:
  assumes "find_user r a = Some i" "inside u a" "inside u (username v)"
  shows "same_others u r (set_user r i v)"
  unfolding same_others_def
proof (intro allI impI)
  fix n assume n: "\<not> inside u n"
  have i: "username (head r ! i) = a" using find_user_Some [OF assms(1)] by (simp add: user_at_def)
  have f: "find_user (set_user r i v) n = find_user r n"
    using i n assms(2,3) find_loop_set_other [of "head r" i n v] by (auto simp: find_user_def set_user_def)
  have "user_at (set_user r i v) j = user_at r j" if "find_user r n = Some j" for j
    using that i n assms(2) find_loop_at_other [of "head r" n j i v] by (auto simp: user_at_def set_user_def find_user_def)
  then show "lookup (set_user r i v) n = lookup r n" by (cases "find_user r n") (simp_all add: lookup_def f)
qed

lemma update_others:
  "okc (\<lambda>x. same_others u r (snd x)) (update_hash r u h)"
  "okc (\<lambda>x. same_others u r (snd x)) (update_daysSinceChanged r u v)"
  "okc (\<lambda>x. same_others u r (snd x)) (update_daysUntilCanChange r u v)"
  "okc (\<lambda>x. same_others u r (snd x)) (update_daysUntilMustChange r u v)"
  "okc (\<lambda>x. same_others u r (snd x)) (update_daysBeforeWarning r u v)"
  "okc (\<lambda>x. same_others u r (snd x)) (update_daysUntilExpiration r u v)"
  "okc (\<lambda>x. same_others u r (snd x)) (update_daysSinceDeactivation r u v)"
  "okc (\<lambda>x. same_others u r (snd x)) (update_reserved r u p)"
  using find_user_Some [of r u]
  by (auto simp: update_hash_def Shadow_Tree.update_defs okc_bindc intro!: set_user_others split: option.split)

lemma add_others: "inside u n \<Longrightarrow> okc (\<lambda>x. same_others u r (snd x)) (sf_tree_add_user av t r n)"
  using lookup_append_new [of r n "new_user t n"]
  by (auto simp: add_user_spec same_others_def lookup_None new_user_def)

lemma delete_others: "inside u n \<Longrightarrow> okc (\<lambda>x. same_others u r (snd x)) (sf_tree_delete_user r n)"
proof (cases "head r = []")
  case False
  assume n: "inside u n"
  have "lookup (r\<lparr>head := remove_first n (head r)\<rparr>) k = lookup r k" if "\<not> inside u k" for k
    using find_loop_remove_first_other [of k n "head r"] that n by (auto simp: lookup_def find_user_def user_at_def [abs_def])
  then show ?thesis using False by (simp add: sf_tree_delete_user_eq same_others_def)
qed (simp add: sf_tree_delete_user_def)

lemma write_attr_others: "okc (\<lambda>x. same_others u r (snd x)) (write_attr t junk r u attr buf)"
proof -
  have "okc (\<lambda>x. same_others u r (snd x)) (bindc (update_hash r u h) (\<lambda>(_, r). update_daysSinceChanged r u v))" for h v
  proof (rule okc_bindI [OF update_others(1)])
    fix x :: "int \<times> sf_root" assume x: "same_others u r (snd x)"
    have "okc (\<lambda>y. same_others u r (snd y)) (update_daysSinceChanged (snd x) u v)"
      by (rule okc_mono [OF update_others(2)]) (rule same_others_trans [OF x])
    then show "okc (\<lambda>y. same_others u r (snd y)) (case x of (_, r) \<Rightarrow> update_daysSinceChanged r u v)" by (simp add: case_prod_beta)
  qed
  then have pw: "okc (\<lambda>x. same_others u r (snd x)) (bindc (buf_string buf) (\<lambda>pt.
      bindc (update_hash r u (hashword junk pt)) (\<lambda>(_, r). update_daysSinceChanged r u (shadow_time t))))"
    by - (rule okc_bindI [OF okc_true])
  have day: "okc (\<lambda>x. same_others u r (snd x)) (bindc (atoi_buf buf) k)" if "\<And>v. okc (\<lambda>x. same_others u r (snd x)) (k v)" for k
    using that by (intro okc_bindI [OF okc_true])
  show ?thesis
    unfolding write_attr_def by (intro okc_if pw day update_others) simp
qed

lemma reset_attr_others: "okc (\<lambda>x. same_others u r (snd x)) (reset_attr t r u attr)"
  by (simp add: reset_attr_def update_others)

text \<open>The handlers on a path in the directory of \<open>u\<close>.\<close>

lemma handlers_others:
  assumes "short_name u" "others_kept u m s"
  shows "okc (\<lambda>r. others_kept u m (snd r)) (sh_read s p sz ofs)"
    "okc (\<lambda>r. others_kept u m (snd r)) (sh_write t junk s (attr_path u x) buf ofs)"
    "okc (\<lambda>r. others_kept u m (snd r)) (sh_mkdir av t s (attr_path u x))"
    "okc (\<lambda>r. others_kept u m (snd r)) (sh_rmdir s (attr_path u x))"
    "okc (\<lambda>r. others_kept u m (snd r)) (sh_rename s (attr_path u x) (attr_path u y))"
    "okc (\<lambda>r. others_kept u m (snd r)) (sh_mknod av s (attr_path u x))"
    "okc (\<lambda>r. others_kept u m (snd r)) (sh_unlink t s (attr_path u x))"
proof -
  note O = others_step [OF assms(2)]
  show "okc (\<lambda>r. others_kept u m (snd r)) (sh_read s p sz ofs)"
    by (rule okc_mono [OF wf_trees.sh_read_root]) (auto intro: O)
  have w: "okc (\<lambda>r. same_others u (root s) (root r)) (with_root s k)" if "okc (\<lambda>x. same_others u (root s) (snd x)) k" for k
    unfolding with_root_def by (rule okc_bindI [OF that]) auto
  show "okc (\<lambda>r. others_kept u m (snd r)) (sh_write t junk s (attr_path u x) buf ofs)"
    using assms(1,2) by (auto simp: sh_write_def intro!: okc_bindI [OF w [OF write_attr_others]] O)
  show "okc (\<lambda>r. others_kept u m (snd r)) (sh_unlink t s (attr_path u x))"
    using assms(1,2) by (auto simp: sh_unlink_def intro!: okc_bindI [OF w [OF reset_attr_others]] O)
  show "okc (\<lambda>r. others_kept u m (snd r)) (sh_mkdir av t s (attr_path u x))"
    by (auto simp: sh_mkdir_def intro!: okc_bindI [OF add_others] O)
  show "okc (\<lambda>r. others_kept u m (snd r)) (sh_rmdir s (attr_path u x))"
    using assms(2) by (auto simp: sh_rmdir_def intro!: okc_bindI [OF delete_others] O)
  show "okc (\<lambda>r. others_kept u m (snd r)) (sh_rename s (attr_path u x) (attr_path u y))"
    using assms(2) by (auto simp: sh_rename_def okc_bindc intro!: O set_user_others split: option.split)
  show "okc (\<lambda>r. others_kept u m (snd r)) (sh_mknod av s (attr_path u x))"
    using assms find_user_Some [of "root s" u] by (auto simp: sh_mknod_def okc_bindc intro!: O set_user_others split: option.split)
qed

lemma pres_on_path_under:
  assumes "under (CHR ''/'' # u @ ''/'') path" "\<And>x. pres I (k (attr_path u x))"
  shows "pres I (on_path path k)"
  using under_dir [of u] assms by (cases path) (auto simp: on_path_def)

lemma sh_table_others:
  assumes "short_name u"
  shows "fs_ops (under (CHR ''/'' # u @ ''/'')) (others_kept u m) (sh_table E)"
proof -
  let ?I = "others_kept u m" and ?Q = "under (CHR ''/'' # u @ ''/'')"
  note run = pres_run_sh handlers_others [OF assms] pres_with_env pres_bindm pres_case_prod pres_retm
  have look: "pres ?I (run_sh (\<lambda>s. bindc (f s) (\<lambda>r. Inr (r, s))))" for f :: "shfs \<Rightarrow> 'b c"
    by (rule pres_run_sh) (auto intro: okc_bindI [OF okc_true])
  have "pres ?I (op_sh_getattr p st)" for p st
    unfolding op_sh_getattr_def by (intro look run pres_on_path)
  moreover have "pres ?I (op_sh_readdir p h ofs fi)" if "\<And>x y z. pres ?I (h x y z)" for p h ofs fi
    unfolding op_sh_readdir_def using that by (intro look run pres_fill_names pres_on_path)
  moreover have "pres ?I (op_sh_open p fi)" for p fi
    unfolding op_sh_open_def by (intro run pres_on_path)
  moreover have "pres ?I (op_sh_read p b n ofs fi)" for p b n ofs fi
    unfolding op_sh_read_def by (intro run pres_poke pres_on_path)
  moreover have "pres ?I (op_sh_write E p b n ofs fi)" if "?Q p" for p b n ofs fi
    unfolding op_sh_write_def by (rule pres_on_path_under [OF that]) (intro run pres_peek)
  moreover have "pres ?I (op_sh_truncate p n)" for p n
    unfolding op_sh_truncate_def by (intro run pres_on_path)
  moreover have "pres ?I (op_sh_mkdir E p md)" if "?Q p" for p md
    unfolding op_sh_mkdir_def by (rule pres_on_path_under [OF that]) (intro run)
  moreover have "pres ?I (op_sh_rmdir p)" if "?Q p" for p
    unfolding op_sh_rmdir_def by (rule pres_on_path_under [OF that]) (intro run)
  moreover have "pres ?I (op_sh_rename p q)" if "?Q p" "?Q q" for p q
    unfolding op_sh_rename_def by (rule pres_on_path_under [OF that(1)], rule pres_on_path_under [OF that(2)]) (intro run)
  moreover have "pres ?I (op_sh_mknod E p md dv)" if "?Q p" for p md dv
    unfolding op_sh_mknod_def by (rule pres_on_path_under [OF that]) (intro run)
  moreover have "pres ?I (op_sh_unlink E p)" if "?Q p" for p
    unfolding op_sh_unlink_def by (rule pres_on_path_under [OF that]) (intro run)
  ultimately show ?thesis
    by unfold_locales (auto simp: sh_table_def no_ops_def)
qed

text \<open>
  (C21) Isolation of users. The shadow file system behind a module \<open>subdir\<close> whose base is the directory of a user \<open>u\<close> (a name of
  at most eight characters without a slash): whatever operation of the module is called with whatever arguments, if the
  call has defined behaviour then every name other than \<open>u\<close> (and those that begin with \<open>u/\<close>) finds the very entry it found
  before, or none as before. Callers of the module cannot add, change, rename or remove the entries of other users.
\<close>

theorem shfs_subdir_isolates:
  assumes "short_name u" "\<And>x. base (D x) = CHR ''/'' # u @ ''/''" "\<And>x. wf_subdir (D x)" "\<And>x. op (next_fs (D x)) = sh_table E"
    and "kernel_pres K (others_kept u m)"
  shows "fs_ops (\<lambda>_. True) (others_kept u m) (subdir_oper K tmp junk D)"
  by (rule subdir_table_ok [OF assms(3) _ assms(5)]) (use sh_table_others [OF assms(1)] assms(2,4) in simp)

section \<open>An example\<close>

definition sh_sample_kernel :: "shfs kernel" where
  "sh_sample_kernel = \<lparr>k_write = (\<lambda>_ _ bs s. (int (length bs), s)), k_read = (\<lambda>_ _ n s. (Inr (replicate n 0), s)),
     k_splice = (\<lambda>_ _ _ _ n _ _ s. (int n, s))\<rparr>"

theorem shfs_subdir_isolates_witness:
  "\<forall>m. fs_ops (\<lambda>_. True) (others_kept ''alice'' m)
     (subdir_oper sh_sample_kernel 0 log_statfs (\<lambda>_. \<lparr>base = ''/alice/'', baselen = 7, rellinks = False,
        next_fs = sh_fs 2 (\<lambda>_. \<lparr>env_mem = True, env_time = 0, env_junk = []\<rparr>)\<rparr>))"
proof
  fix m
  show "fs_ops (\<lambda>_. True) (others_kept ''alice'' m)
     (subdir_oper sh_sample_kernel 0 log_statfs (\<lambda>_. \<lparr>base = ''/alice/'', baselen = 7, rellinks = False,
        next_fs = sh_fs 2 (\<lambda>_. \<lparr>env_mem = True, env_time = 0, env_junk = []\<rparr>)\<rparr>))"
    by (rule shfs_subdir_isolates [where E = "\<lambda>_. \<lparr>env_mem = True, env_time = 0, env_junk = []\<rparr>"])
      (simp_all add: short_name_def wf_subdir_def sh_fs_def kernel_pres_def sh_sample_kernel_def)
qed

end
