(* ===== verification/Fuse_Table.thy ===== *)
theory Fuse_Table
  imports Libc "HOL-Library.Multiset"
begin

text \<open>
  The hash tables of \<open>src/lib/fuse.c\<close> that find a node by its number and by its parent and name:
  \<open>struct node_table\<close> with its incremental growing and shrinking, where each insertion
  splits at most one bucket and each removal merges at most one pair. A bucket's chain of nodes
  is a list of addresses; the two tables differ in the chain field they use and in the hash of a
  node, which is a parameter \<open>h\<close> here, and are instances below. Whether \<open>realloc\<close> and \<open>calloc\<close>
  succeed is a parameter.
\<close>

section \<open>The table\<close>

record node_table =
  array :: "nat list list"
  use :: nat
  tsize :: nat
  split :: nat

definition NODE_TABLE_MIN_SIZE :: nat where "NODE_TABLE_MIN_SIZE = 8192"

definition node_table_init :: "bool \<Rightarrow> node_table option" where
  "node_table_init ok =
     (if ok then Some \<lparr>array = replicate NODE_TABLE_MIN_SIZE [], use = 0, tsize = NODE_TABLE_MIN_SIZE, split = 0\<rparr>
      else None)"

text \<open>The slot of a hash value: the last lines of \<open>id_hash\<close> and \<open>name_hash\<close>.\<close>

definition table_slot :: "node_table \<Rightarrow> nat \<Rightarrow> nat" where
  "table_slot t x =
     (let hash = x mod tsize t; oldhash = hash mod (tsize t div 2)
      in if split t \<le> oldhash then oldhash else hash)"

definition bucket :: "node_table \<Rightarrow> nat \<Rightarrow> nat list c" where
  "bucket t i = (if i < length (array t) then Inr (array t ! i) else Inl PastEnd)"

definition node_table_reduce :: "bool \<Rightarrow> node_table \<Rightarrow> node_table" where
  "node_table_reduce re t =
     (let newsize = tsize t div 2 in
      if newsize < NODE_TABLE_MIN_SIZE then t
      else t\<lparr>array := (if re then take newsize (array t) else array t), tsize := newsize, split := newsize div 2\<rparr>)"

definition node_table_resize :: "bool \<Rightarrow> node_table \<Rightarrow> node_table" where
  "node_table_resize re t =
     (if re then t\<lparr>array := take (tsize t) (array t) @ replicate (tsize t) [], tsize := tsize t * 2, split := 0\<rparr>
      else t)"

text \<open>The loop of \<open>remerge_id\<close> and \<open>remerge_name\<close>, with \<open>iter\<close> rounds left.\<close>

fun remerge_loop :: "nat \<Rightarrow> node_table \<Rightarrow> node_table c" where
  "remerge_loop iter t =
     (if split t = 0 \<or> iter = 0 then Inr t
      else
        let t = t\<lparr>split := split t - 1\<rparr>; lo = split t; up = split t + tsize t div 2 in
        bindc (bucket t up) (\<lambda>upper.
        bindc (bucket t lo) (\<lambda>lower.
        if upper \<noteq> [] then Inr (t\<lparr>array := (array t)[lo := lower @ upper, up := []]\<rparr>)
        else remerge_loop (iter - 1) t)))"

declare remerge_loop.simps [simp del]

definition remerge :: "bool \<Rightarrow> node_table \<Rightarrow> node_table c" where
  "remerge re t = remerge_loop 8 (if split t = 0 then node_table_reduce re t else t)"

text \<open>\<open>unhash_id\<close>, and the search in \<open>unhash_name\<close>: \<open>None\<close> if the node is not in its bucket.\<close>

definition table_remove :: "(nat \<Rightarrow> nat) \<Rightarrow> bool \<Rightarrow> nat \<Rightarrow> node_table \<Rightarrow> node_table option c" where
  "table_remove h re a t =
     (let i = table_slot t (h a) in
      bindc (bucket t i) (\<lambda>chain.
      if a \<in> set chain then
        let t = t\<lparr>array := (array t)[i := remove1 a chain], use := use t - 1\<rparr> in
        bindc (if use t < tsize t div 4 then remerge re t else Inr t) (\<lambda>t. Inr (Some t))
      else Inr None))"

text \<open>
  The loop of \<open>rehash_id\<close> and \<open>rehash_name\<close> over the chain of bucket \<open>hash\<close>: \<open>kept\<close> are the
  nodes passed over, the rest is still to be looked at.
\<close>

fun rehash_loop :: "(nat \<Rightarrow> nat) \<Rightarrow> nat \<Rightarrow> nat list \<Rightarrow> nat list \<Rightarrow> node_table \<Rightarrow> node_table c" where
  "rehash_loop h hash kept [] t = Inr t"
| "rehash_loop h hash kept (a # rest) t =
     (let newhash = table_slot t (h a) in
      if newhash \<noteq> hash then
        bindc (bucket t newhash) (\<lambda>chain.
          rehash_loop h hash kept rest (t\<lparr>array := (array t)[hash := kept @ rest, newhash := a # chain]\<rparr>))
      else rehash_loop h hash (kept @ [a]) rest t)"

definition rehash :: "(nat \<Rightarrow> nat) \<Rightarrow> bool \<Rightarrow> node_table \<Rightarrow> node_table c" where
  "rehash h re t =
     (if split t = tsize t div 2 then Inr t
      else
        let hash = split t; t = t\<lparr>split := split t + 1\<rparr> in
        bindc (bucket t hash) (\<lambda>chain.
        bindc (rehash_loop h hash [] chain t) (\<lambda>t.
          Inr (if split t = tsize t div 2 then node_table_resize re t else t))))"

definition table_insert :: "(nat \<Rightarrow> nat) \<Rightarrow> bool \<Rightarrow> nat \<Rightarrow> node_table \<Rightarrow> node_table c" where
  "table_insert h re a t =
     (let i = table_slot t (h a) in
      bindc (bucket t i) (\<lambda>chain.
      let t = t\<lparr>array := (array t)[i := a # chain], use := use t + 1\<rparr> in
      if tsize t div 2 \<le> use t then rehash h re t else Inr t))"

section \<open>The two hashes\<close>

text \<open>\<open>(uint32_t) ino * 2654435761U\<close> is a product of 32-bit integers.\<close>

definition id_key :: "nat \<Rightarrow> nat" where
  "id_key ino = (ino mod 2 ^ 32) * 2654435761 mod 2 ^ 32"

definition id_hash :: "node_table \<Rightarrow> nat \<Rightarrow> nat" where
  "id_hash t ino = table_slot t (id_key ino)"

definition name_key :: "nat \<Rightarrow> string \<Rightarrow> nat" where
  "name_key parent name = foldl (\<lambda>hash ch. (hash * 31 + of_char ch) mod 2 ^ 64) parent name"

definition name_hash :: "node_table \<Rightarrow> nat \<Rightarrow> string \<Rightarrow> nat" where
  "name_hash t parent name = table_slot t (name_key parent name)"

text \<open>
  The searches, given what the nodes hold: \<open>get_node_nocheck\<close> by number, \<open>lookup_node\<close> by the
  parent's number and the name.
\<close>

definition get_node_nocheck :: "(nat \<Rightarrow> nat) \<Rightarrow> node_table \<Rightarrow> nat \<Rightarrow> nat option c" where
  "get_node_nocheck idof t nodeid =
     bindc (bucket t (id_hash t nodeid)) (\<lambda>chain. Inr (find (\<lambda>a. idof a = nodeid) chain))"

definition get_node :: "(nat \<Rightarrow> nat) \<Rightarrow> node_table \<Rightarrow> nat \<Rightarrow> nat c" where
  "get_node idof t nodeid =
     bindc (get_node_nocheck idof t nodeid) (\<lambda>r. case r of None \<Rightarrow> Inl Aborted | Some a \<Rightarrow> Inr a)"

definition lookup_node :: "(nat \<Rightarrow> nat \<times> string) \<Rightarrow> node_table \<Rightarrow> nat \<Rightarrow> string \<Rightarrow> nat option c" where
  "lookup_node nameof t parent name =
     bindc (bucket t (name_hash t parent name)) (\<lambda>chain. Inr (find (\<lambda>a. nameof a = (parent, name)) chain))"

definition hash_id :: "(nat \<Rightarrow> nat) \<Rightarrow> bool \<Rightarrow> nat \<Rightarrow> node_table \<Rightarrow> node_table c" where
  "hash_id idof = table_insert (\<lambda>a. id_key (idof a))"

definition rehash_id :: "(nat \<Rightarrow> nat) \<Rightarrow> bool \<Rightarrow> node_table \<Rightarrow> node_table c" where
  "rehash_id idof = rehash (\<lambda>a. id_key (idof a))"

definition unhash_id :: "(nat \<Rightarrow> nat) \<Rightarrow> bool \<Rightarrow> nat \<Rightarrow> node_table \<Rightarrow> node_table c" where
  "unhash_id idof re a t =
     bindc (table_remove (\<lambda>a. id_key (idof a)) re a t) (\<lambda>r. case r of None \<Rightarrow> Inr t | Some t' \<Rightarrow> Inr t')"

definition rehash_name :: "(nat \<Rightarrow> nat \<times> string) \<Rightarrow> bool \<Rightarrow> node_table \<Rightarrow> node_table c" where
  "rehash_name nameof = rehash (\<lambda>a. case_prod name_key (nameof a))"

text \<open>
  \<open>next_id\<close>: the counter and the generation after it; it skips \<open>0\<close>, \<open>FUSE_UNKNOWN_INO\<close> and the
  numbers in use. With at most \<open>n\<close> nodes, \<open>n + 3\<close> rounds are enough (shown below).
\<close>

definition FUSE_UNKNOWN_INO :: nat where "FUSE_UNKNOWN_INO = 0xFFFFFFFF"

fun next_id_loop :: "nat \<Rightarrow> (nat \<Rightarrow> nat) \<Rightarrow> node_table \<Rightarrow> nat \<Rightarrow> nat \<Rightarrow> (nat \<times> nat) option c" where
  "next_id_loop 0 idof t ctr generation = Inr None"
| "next_id_loop (Suc fuel) idof t ctr generation =
     (let ctr = (ctr + 1) mod 2 ^ 32;
          generation = (if ctr = 0 then (generation + 1) mod 2 ^ 32 else generation)
      in if ctr = 0 \<or> ctr = FUSE_UNKNOWN_INO then next_id_loop fuel idof t ctr generation
         else bindc (get_node_nocheck idof t ctr) (\<lambda>r.
           if r \<noteq> None then next_id_loop fuel idof t ctr generation else Inr (Some (ctr, generation))))"

section \<open>Slots\<close>

definition wf_table :: "(nat \<Rightarrow> nat) \<Rightarrow> node_table \<Rightarrow> bool" where
  "wf_table h t \<longleftrightarrow> (\<exists>k. tsize t = NODE_TABLE_MIN_SIZE * 2 ^ k) \<and> split t \<le> tsize t div 2 \<and> tsize t \<le> length (array t)
     \<and> (\<forall>i < length (array t). \<forall>a \<in> set (array t ! i). table_slot t (h a) = i)
     \<and> distinct (concat (array t)) \<and> use t = length (concat (array t))"

definition elems :: "node_table \<Rightarrow> nat set" where
  "elems t = set (concat (array t))"

lemma even_size: "tsize t = NODE_TABLE_MIN_SIZE * 2 ^ k \<Longrightarrow> tsize t div 2 * 2 = tsize t \<and> 4096 \<le> tsize t div 2"
  by (simp add: NODE_TABLE_MIN_SIZE_def)

lemma slot_eq:
  assumes "tsize t div 2 * 2 = tsize t"
  shows "table_slot t x = (if x mod (tsize t div 2) < split t then x mod tsize t else x mod (tsize t div 2))"
proof -
  have "x mod tsize t mod (tsize t div 2) = x mod (tsize t div 2)"
    using assms by (metis dvd_triv_left mod_mod_cancel)
  then show ?thesis by (simp add: table_slot_def Let_def)
qed

lemma slot_fields [simp]:
  "table_slot (t\<lparr>array := ar\<rparr>) x = table_slot t x" "table_slot (t\<lparr>use := n\<rparr>) x = table_slot t x"
  by (simp_all add: table_slot_def)

lemma mod_double: "x mod (m * 2) = x mod m \<or> x mod (m * 2) = x mod m + (m :: nat)"
  by (metis add.commute mod_mult2_eq mult.commute mult_is_0 nat_mult_1_right not_mod_2_eq_0_eq_1 plus_nat.add_0)

lemma slot_less:
  assumes "tsize t div 2 * 2 = tsize t" "0 < tsize t"
  shows "table_slot t x < tsize t"
proof -
  have "0 < tsize t div 2" using assms by linarith
  then have "x mod (tsize t div 2) < tsize t" by (rule less_le_trans [OF mod_less_divisor]) simp
  then show ?thesis using assms by (simp add: slot_eq)
qed

text \<open>The slot depends on the size and on which side of the split the old slot lies.\<close>

lemma slot_cong:
  "tsize t' = tsize t \<Longrightarrow> tsize t div 2 * 2 = tsize t \<Longrightarrow>
     (x mod (tsize t div 2) < split t' \<longleftrightarrow> x mod (tsize t div 2) < split t) \<Longrightarrow> table_slot t' x = table_slot t x"
  by (simp add: slot_eq)

lemma slot_old: "tsize t div 2 * 2 = tsize t \<Longrightarrow> table_slot t x mod (tsize t div 2) = x mod (tsize t div 2)"
  using mod_double [of x "tsize t div 2"] by (auto simp: slot_eq)

section \<open>Chains\<close>

lemma concat_update:
  "i < length xs \<Longrightarrow> mset (concat (xs[i := ys])) + mset (xs ! i) = mset (concat xs) + mset ys"
proof (induction xs arbitrary: i)
  case (Cons x xs)
  then show ?case by (cases i) (auto simp: ac_simps)
qed simp

definition placed :: "(nat \<Rightarrow> nat) \<Rightarrow> node_table \<Rightarrow> nat \<Rightarrow> bool" where
  "placed h t i \<longleftrightarrow> (\<forall>a \<in> set (array t ! i). table_slot t (h a) = i)"

definition shape :: "node_table \<Rightarrow> bool" where
  "shape t \<longleftrightarrow> (\<exists>k. tsize t = NODE_TABLE_MIN_SIZE * 2 ^ k) \<and> split t \<le> tsize t div 2 \<and> tsize t \<le> length (array t)"

lemma shape_even: "shape t \<Longrightarrow> tsize t div 2 * 2 = tsize t \<and> 0 < tsize t"
  using even_size by (force simp: shape_def NODE_TABLE_MIN_SIZE_def)

lemma wf_table_iff:
  "wf_table h t \<longleftrightarrow> shape t \<and> (\<forall>i < length (array t). placed h t i) \<and> distinct (concat (array t)) \<and> use t = length (concat (array t))"
  by (auto simp: wf_table_def shape_def placed_def)

lemma distinct_mset: "mset xs = mset ys \<Longrightarrow> distinct ys \<Longrightarrow> distinct xs \<and> length xs = length ys"
  by (metis mset_eq_imp_distinct_iff mset_eq_length)

section \<open>Splitting a bucket\<close>

lemma rehash_loop_ok:
  assumes "tsize t div 2 * 2 = tsize t" "tsize t \<le> length (array t)" "hash < tsize t div 2"
    and "array t ! hash = kept @ rest"
    and "\<forall>a \<in> set kept. table_slot t (h a) = hash"
    and "\<forall>a \<in> set rest. table_slot t (h a) \<in> {hash, hash + tsize t div 2}"
    and "\<forall>i < length (array t). i \<noteq> hash \<longrightarrow> placed h t i"
  shows "\<exists>ar. rehash_loop h hash kept rest t = Inr (t\<lparr>array := ar\<rparr>) \<and> length ar = length (array t)
    \<and> mset (concat ar) = mset (concat (array t)) \<and> (\<forall>i < length ar. placed h (t\<lparr>array := ar\<rparr>) i)"
  using assms
proof (induction rest arbitrary: t kept)
  case Nil
  have "\<forall>i < length (array t). placed h t i" using Nil.prems(4,5,7) by (auto simp: placed_def)
  then show ?case by (auto intro!: exI [of _ "array t"])
next
  case (Cons a rest)
  show ?case
  proof (cases "table_slot t (h a) = hash")
    case True
    then show ?thesis using Cons.IH [of t "kept @ [a]"] Cons.prems by simp
  next
    case False
    define new where "new = hash + tsize t div 2"
    then have new: "table_slot t (h a) = new" "new \<noteq> hash" using False Cons.prems(6) by auto
    have le: "new < length (array t)" "hash < length (array t)" using Cons.prems(1-3) new_def by linarith+
    let ?ar = "(array t)[hash := kept @ rest, new := a # array t ! new]"
    let ?t = "t\<lparr>array := ?ar\<rparr>"
    have m: "mset (concat ?ar) = mset (concat (array t))"
      using concat_update [of hash "array t" "kept @ rest"]
        concat_update [of new "(array t)[hash := kept @ rest]" "a # array t ! new"] le new(2) Cons.prems(4)
      by (simp add: nth_list_update)
    have "\<exists>ar. rehash_loop h hash kept rest ?t = Inr (?t\<lparr>array := ar\<rparr>) \<and> length ar = length (array ?t)
      \<and> mset (concat ar) = mset (concat (array ?t)) \<and> (\<forall>i < length ar. placed h (?t\<lparr>array := ar\<rparr>) i)"
    proof (rule Cons.IH)
      show "\<forall>i < length (array ?t). i \<noteq> hash \<longrightarrow> placed h ?t i"
        using Cons.prems(7) new le by (auto simp: placed_def nth_list_update)
    qed (use Cons.prems new le in simp_all)
    then show ?thesis using m le new False by (auto simp: bucket_def)
  qed
qed


lemma placed_split:
  assumes "tsize t div 2 * 2 = tsize t" "placed h t i"
    and "i mod (tsize t div 2) < s' \<longleftrightarrow> i mod (tsize t div 2) < split t"
  shows "placed h (t\<lparr>split := s'\<rparr>) i"
proof -
  have "table_slot (t\<lparr>split := s'\<rparr>) (h a) = i" if "a \<in> set (array t ! i)" for a
  proof -
    have i: "table_slot t (h a) = i" using assms(2) that by (simp add: placed_def)
    then have "h a mod (tsize t div 2) = i mod (tsize t div 2)" using slot_old [OF assms(1)] by metis
    then show ?thesis using slot_cong [of "t\<lparr>split := s'\<rparr>" t "h a"] assms(1,3) i by simp
  qed
  then show ?thesis by (simp add: placed_def)
qed

section \<open>Growing and shrinking the array\<close>

lemma full_slot: "tsize t div 2 * 2 = tsize t \<Longrightarrow> 0 < tsize t \<Longrightarrow> split t = tsize t div 2 \<Longrightarrow> table_slot t x = x mod tsize t"
  by (simp add: slot_eq)

lemma zero_slot: "tsize t div 2 * 2 = tsize t \<Longrightarrow> split t = 0 \<Longrightarrow> table_slot t x = x mod (tsize t div 2)"
  by (simp add: slot_eq)

lemma beyond_empty:
  assumes "wf_table h t" "\<And>x. table_slot t x < m" "m \<le> i" "i < length (array t)"
  shows "array t ! i = []"
proof (rule ccontr)
  assume "array t ! i \<noteq> []"
  then obtain a where "a \<in> set (array t ! i)" by (cases "array t ! i") auto
  then have "table_slot t (h a) = i" using assms(1,4) by (simp add: wf_table_def)
  then show False using assms(2) [of "h a"] assms(3) by simp
qed

lemma table_copy:
  assumes "wf_table h t" "\<And>x. table_slot t x < m" "m \<le> length (array t)"
    and "shape t'" "\<And>x. table_slot t' x = table_slot t x" "array t' = take m (array t) @ replicate j []" "use t' = use t"
  shows "wf_table h t' \<and> elems t' = elems t"
proof -
  have "array t = take m (array t) @ replicate (length (array t) - m) []"
    by (rule nth_equalityI) (use assms(3) beyond_empty [OF assms(1,2)] in \<open>auto simp: nth_append\<close>)
  then have "concat (array t) = concat (take m (array t))"
    by (metis append_Nil2 concat_append concat_replicate_trivial)
  then have c: "concat (array t') = concat (array t)" using assms(6) by simp
  have "placed h t' i" if "i < length (array t')" for i
    using that assms(1,3,5,6) by (auto simp: placed_def wf_table_iff nth_append)
  then show ?thesis using assms(1,4,7) c by (simp add: wf_table_iff elems_def)
qed

lemma resize_ok:
  assumes "wf_table h t" "split t = tsize t div 2"
  shows "wf_table h (node_table_resize re t) \<and> elems (node_table_resize re t) = elems t"
proof (cases re)
  case True
  have sh: "shape t" and ev: "tsize t div 2 * 2 = tsize t" "0 < tsize t"
    using assms(1) shape_even by (auto simp: wf_table_iff)
  let ?t = "node_table_resize re t"
  obtain k where "tsize t = NODE_TABLE_MIN_SIZE * 2 ^ k" using sh by (auto simp: shape_def)
  then have "tsize ?t = NODE_TABLE_MIN_SIZE * 2 ^ Suc k" using True by (simp add: node_table_resize_def)
  then have sh': "shape ?t" using True sh unfolding shape_def by (intro conjI exI [of _ "Suc k"]) (auto simp: node_table_resize_def)
  have "table_slot ?t x = table_slot t x" for x
    using full_slot [OF ev assms(2)] zero_slot [of ?t x] True by (simp add: node_table_resize_def)
  then show ?thesis
    using assms(1) sh sh' slot_less [OF ev] True
    by (intro table_copy [where m = "tsize t" and j = "tsize t"]) (auto simp: node_table_resize_def shape_def)
qed (use assms in \<open>simp add: node_table_resize_def\<close>)

lemma reduce_ok:
  assumes "wf_table h t" "split t = 0"
  shows "wf_table h (node_table_reduce re t) \<and> elems (node_table_reduce re t) = elems t"
proof (cases "tsize t div 2 < NODE_TABLE_MIN_SIZE")
  case False
  have sh: "shape t" and ev: "tsize t div 2 * 2 = tsize t" "0 < tsize t"
    using assms(1) shape_even by (auto simp: wf_table_iff)
  let ?t = "node_table_reduce re t" and ?m = "tsize t div 2"
  obtain k where k: "tsize t = NODE_TABLE_MIN_SIZE * 2 ^ k" using sh by (auto simp: shape_def)
  then obtain j where "k = Suc j" using False by (cases k) (auto simp: NODE_TABLE_MIN_SIZE_def)
  then have j: "?m = NODE_TABLE_MIN_SIZE * 2 ^ j" using k by simp
  have sh': "shape ?t"
    using False sh ev unfolding shape_def by (intro conjI exI [of _ j]) (auto simp: node_table_reduce_def Let_def j [symmetric] min_def)
  have ev': "tsize ?t div 2 * 2 = tsize ?t" "0 < tsize ?t" using shape_even [OF sh'] by auto
  have slot: "table_slot ?t x = table_slot t x" for x
    using zero_slot [OF ev(1) assms(2)] full_slot [OF ev'] False by (simp add: node_table_reduce_def Let_def)
  have less: "table_slot t x < ?m" for x using zero_slot [OF ev(1) assms(2), of x] j by (simp add: NODE_TABLE_MIN_SIZE_def)
  show ?thesis
  proof (cases re)
    case True
    then show ?thesis
      using assms(1) sh' slot less sh False
      by (intro table_copy [where m = ?m and j = 0]) (auto simp: node_table_reduce_def Let_def shape_def)
  next
    case F: False
    have "table_slot t x < length (array t)" for x using less [of x] sh unfolding shape_def by linarith
    then show ?thesis
      using assms(1) sh' slot F False
      by (intro table_copy [where m = "length (array t)" and j = 0]) (auto simp: node_table_reduce_def Let_def)
  qed
qed (use assms in \<open>simp add: node_table_reduce_def Let_def\<close>)


section \<open>The operations keep the table well-formed\<close>

lemma wf_table_D:
  assumes "wf_table h t"
  shows "shape t" "tsize t div 2 * 2 = tsize t" "0 < tsize t" "split t \<le> tsize t div 2" "tsize t \<le> length (array t)"
    "\<And>i. i < length (array t) \<Longrightarrow> placed h t i"
  using assms shape_even by (auto simp: wf_table_iff shape_def)

lemma wf_tableI:
  assumes "wf_table h t" "shape t'" "\<And>i. i < length (array t') \<Longrightarrow> placed h t' i"
    and "mset (concat (array t')) = mset (concat (array t))" "use t' = use t"
  shows "wf_table h t' \<and> elems t' = elems t"
proof -
  have "distinct (concat (array t')) \<and> length (concat (array t')) = length (concat (array t))"
    using distinct_mset [OF assms(4)] assms(1) by (simp add: wf_table_iff)
  moreover have "elems t' = elems t" unfolding elems_def using mset_eq_setD [OF assms(4)] .
  ultimately show ?thesis using assms(1,2,3,5) by (simp add: wf_table_iff)
qed

lemma rehash_ok:
  assumes wf: "wf_table h t"
  shows "\<exists>t'. rehash h re t = Inr t' \<and> wf_table h t' \<and> elems t' = elems t"
proof (cases "split t = tsize t div 2")
  case False
  note D = wf_table_D [OF wf]
  define m where "m = tsize t div 2"
  define lo where "lo = split t"
  let ?t = "t\<lparr>split := lo + 1\<rparr>"
  have lo: "lo < m" "lo < length (array t)" using D(2-5) False by (auto simp: lo_def m_def)
  have old: "h a mod m = i mod m" "lo \<le> i mod m \<longrightarrow> i = i mod m"
    if "a \<in> set (array t ! i)" "i < length (array t)" for a i
  proof -
    have i: "table_slot t (h a) = i" using D(6) that by (simp add: placed_def)
    then show o: "h a mod m = i mod m" using slot_old [OF D(2)] m_def by metis
    show "lo \<le> i mod m \<longrightarrow> i = i mod m" using i o by (auto simp: slot_eq [OF D(2)] lo_def m_def)
  qed
  have others: "placed h ?t i" if "i < length (array t)" "i \<noteq> lo" for i
  proof (cases "i mod m = lo")
    case True
    then have "array t ! i = []" using old(2) [OF _ that(1)] that(2) by (cases "array t ! i") auto
    then show ?thesis by (simp add: placed_def)
  next
    case F: False
    then show ?thesis by (intro placed_split [OF D(2) D(6) [OF that(1)]]) (auto simp: m_def lo_def)
  qed
  have chain: "table_slot ?t (h a) \<in> {lo, lo + m}" if "a \<in> set (array t ! lo)" for a
    using old(1) [OF that lo(2)] mod_double [of "h a" m] lo D(2) by (auto simp: slot_eq m_def)
  obtain ar where ar: "rehash_loop h lo [] (array t ! lo) ?t = Inr (?t\<lparr>array := ar\<rparr>)" "length ar = length (array t)"
      "mset (concat ar) = mset (concat (array t))" "\<forall>i < length ar. placed h (?t\<lparr>array := ar\<rparr>) i"
    using rehash_loop_ok [of ?t lo "[]" "array t ! lo" h] D(2,5) lo others chain by (auto simp: m_def)
  let ?u = "?t\<lparr>array := ar\<rparr>"
  have u: "wf_table h ?u \<and> elems ?u = elems t"
    using D(1) lo ar by (intro wf_tableI [OF wf]) (auto simp: shape_def m_def)
  have "rehash h re t = Inr (if split ?u = tsize ?u div 2 then node_table_resize re ?u else ?u)"
    using ar(1) lo False by (simp add: rehash_def bucket_def lo_def)
  then show ?thesis using u resize_ok [of h ?u re] by auto
qed (use wf in \<open>simp add: rehash_def\<close>)

lemma remerge_loop_ok: "wf_table h t \<Longrightarrow> \<exists>t'. remerge_loop n t = Inr t' \<and> wf_table h t' \<and> elems t' = elems t"
proof (induction n t rule: remerge_loop.induct)
  case (1 n t)
  note wf = "1.prems"
  note D = wf_table_D [OF wf]
  define m where "m = tsize t div 2"
  define lo where "lo = split t - 1"
  let ?t = "t\<lparr>split := lo\<rparr>"
  show ?case
  proof (cases "split t = 0 \<or> n = 0")
    case True
    then show ?thesis using wf by (subst remerge_loop.simps) simp
  next
    case False
    have lo: "lo < m" "split t = lo + 1" "lo + m < length (array t)" "lo < length (array t)" "0 < m"
      using False D(2-5) by (auto simp: lo_def m_def)
    have old: "h a mod m = i mod m" "i < tsize t" if "a \<in> set (array t ! i)" "i < length (array t)" for a i
      using D(6) [OF that(2)] that(1) slot_old [OF D(2)] slot_less [OF D(2,3)] by (auto simp: placed_def m_def)
    have new: "table_slot ?t x = lo" if "x mod m = lo" for x
      using that lo D(2) by (simp add: slot_eq m_def)
    have others: "placed h ?t i" if "i < length (array t)" "i \<noteq> lo + m" for i
    proof (cases "i mod m = lo \<and> array t ! i \<noteq> []")
      case True
      then have "i < m * 2" using old(2) [OF _ that(1)] D(2) by (cases "array t ! i") (auto simp: m_def)
      then have "i = lo" using True that(2) lo(1) by (metis add.commute le_mod_geq less_diff_conv2 linorder_not_less mod_less mult_2_right
            ordered_cancel_comm_monoid_diff_class.add_diff_inverse)
      then show ?thesis using new old(1) that(1) lo(1) by (simp add: placed_def)
    next
      case F: False
      show ?thesis
      proof (cases "array t ! i = []")
        case False
        then have "i mod m \<noteq> lo" using F by simp
        then show ?thesis using lo(2) by (intro placed_split [OF D(2) D(6) [OF that(1)]]) (auto simp: m_def)
      qed (simp add: placed_def)
    qed
    show ?thesis
    proof (cases "array t ! (lo + m) = []")
      case True
      then have "placed h ?t i" if "i < length (array t)" for i using others [OF that] by (cases "i = lo + m") (auto simp: placed_def)
      then have "wf_table h ?t \<and> elems ?t = elems t"
        using D(1) lo by (intro wf_tableI [OF wf]) (auto simp: shape_def m_def)
      moreover have "remerge_loop n t = remerge_loop (n - 1) ?t"
        using False True lo(3,4) by (subst remerge_loop.simps) (simp add: bucket_def lo_def m_def)
      ultimately show ?thesis
        using "1.IH" [OF False _ refl refl, of ?t "[]" "array t ! lo"] True lo(3,4) by (simp add: bucket_def lo_def m_def)
    next
      case ne: False
      let ?ar = "(array t)[lo := array t ! lo @ array t ! (lo + m), lo + m := []]"
      have "mset (concat ?ar) = mset (concat (array t))"
        using concat_update [of lo "array t" "array t ! lo @ array t ! (lo + m)"]
          concat_update [of "lo + m" "(array t)[lo := array t ! lo @ array t ! (lo + m)]" "[]"] lo
        by (simp add: nth_list_update)
      moreover have "placed h (?t\<lparr>array := ?ar\<rparr>) i" if "i < length ?ar" for i
        using that others [of i] others [of lo] new old(1) [of _ "lo + m"] lo
        by (cases "i = lo"; cases "i = lo + m") (auto simp: placed_def)
      ultimately have "wf_table h (?t\<lparr>array := ?ar\<rparr>) \<and> elems (?t\<lparr>array := ?ar\<rparr>) = elems t"
        using D(1) lo by (intro wf_tableI [OF wf]) (auto simp: shape_def m_def)
      moreover have "remerge_loop n t = Inr (?t\<lparr>array := ?ar\<rparr>)"
        using False ne lo(3,4) by (subst remerge_loop.simps) (simp add: bucket_def lo_def m_def Let_def)
      ultimately show ?thesis by blast
    qed
  qed
qed


lemma remerge_ok: "wf_table h t \<Longrightarrow> \<exists>t'. remerge re t = Inr t' \<and> wf_table h t' \<and> elems t' = elems t"
  using reduce_ok [of h t re] remerge_loop_ok [of h "node_table_reduce re t" 8] remerge_loop_ok [of h t 8]
  by (auto simp: remerge_def)

lemma update_chain:
  assumes "wf_table h t" "i < length (array t)" "\<forall>a \<in> set chain. table_slot t (h a) = i"
    and "mset (concat ((array t)[i := chain])) = mset ys" "distinct ys" "n = length ys"
  shows "wf_table h (t\<lparr>array := (array t)[i := chain], use := n\<rparr>)
    \<and> elems (t\<lparr>array := (array t)[i := chain], use := n\<rparr>) = set ys"
proof -
  have "distinct (concat ((array t)[i := chain])) \<and> length (concat ((array t)[i := chain])) = n"
    using distinct_mset [OF assms(4,5)] assms(6) by simp
  moreover have "placed h (t\<lparr>array := (array t)[i := chain], use := n\<rparr>) j" if "j < length (array t)" for j
    using that assms(1-3) by (cases "i = j") (auto simp: placed_def wf_table_iff table_slot_def)
  moreover have "set (concat ((array t)[i := chain])) = set ys" using mset_eq_setD [OF assms(4)] .
  ultimately show ?thesis using assms(1) by (simp add: wf_table_iff shape_def elems_def)
qed

lemma bucket_slot: "wf_table h t \<Longrightarrow> bucket t (table_slot t x) = Inr (array t ! table_slot t x) \<and> table_slot t x < length (array t)"
  using wf_table_D(2,3,5) [of h t] slot_less [of t x] by (simp add: bucket_def)

lemma in_elems: "a \<in> elems t \<longleftrightarrow> (\<exists>i < length (array t). a \<in> set (array t ! i))"
  by (simp add: elems_def) (metis in_set_conv_nth)

lemma in_chain: "wf_table h t \<Longrightarrow> a \<in> set (array t ! table_slot t (h a)) \<longleftrightarrow> a \<in> elems t"
proof -
  assume wf: "wf_table h t"
  have "table_slot t (h a) = i" if "i < length (array t)" "a \<in> set (array t ! i)" for i
    using wf_table_D(6) [OF wf that(1)] that(2) by (simp add: placed_def)
  then show ?thesis using bucket_slot [OF wf, of "h a"] in_elems by metis
qed

lemma chain_slot: "wf_table h t \<Longrightarrow> a \<in> set (array t ! table_slot t x) \<Longrightarrow> table_slot t (h a) = table_slot t x"
  using bucket_slot [of h t x] wf_table_D(6) [of h t "table_slot t x"] by (simp add: placed_def)

lemma insert_ok:
  assumes "wf_table h t" "a \<notin> elems t"
  shows "\<exists>t'. table_insert h re a t = Inr t' \<and> wf_table h t' \<and> elems t' = insert a (elems t)"
proof -
  let ?i = "table_slot t (h a)"
  let ?t = "t\<lparr>array := (array t)[?i := a # array t ! ?i], use := use t + 1\<rparr>"
  have i: "bucket t ?i = Inr (array t ! ?i)" "?i < length (array t)" using bucket_slot [OF assms(1)] by auto
  have "mset (concat ((array t)[?i := a # array t ! ?i])) = mset (a # concat (array t))"
    using concat_update [OF i(2), of "a # array t ! ?i"] by simp
  moreover have "distinct (a # concat (array t))" "use t + 1 = length (a # concat (array t))"
    using assms by (simp_all add: wf_table_iff elems_def)
  moreover have "\<forall>b \<in> set (a # array t ! ?i). table_slot t (h b) = ?i" using chain_slot [OF assms(1)] by simp
  ultimately have t: "wf_table h ?t \<and> elems ?t = set (a # concat (array t))"
    by (intro update_chain [OF assms(1) i(2)])
  then show ?thesis using i(1) rehash_ok [of h ?t re] by (auto simp: table_insert_def Let_def elems_def)
qed

definition detach :: "(nat \<Rightarrow> nat) \<Rightarrow> nat \<Rightarrow> node_table \<Rightarrow> node_table" where
  "detach h a t = t\<lparr>array := (array t)[table_slot t (h a) := remove1 a (array t ! table_slot t (h a))]\<rparr>"

lemma detach_ok:
  assumes "wf_table h t" "a \<in> elems t"
  shows "wf_table h ((detach h a t)\<lparr>use := use t - 1\<rparr>) \<and> elems (detach h a t) = elems t - {a}"
proof -
  let ?i = "table_slot t (h a)"
  let ?t = "t\<lparr>array := (array t)[?i := remove1 a (array t ! ?i)], use := use t - 1\<rparr>"
  have i: "?i < length (array t)" using bucket_slot [OF assms(1)] by auto
  have a: "a \<in># mset (array t ! ?i)" using in_chain [OF assms(1)] assms(2) by simp
  have "mset (concat ((array t)[?i := remove1 a (array t ! ?i)])) + mset (array t ! ?i)
      = mset (remove1 a (concat (array t))) + mset (array t ! ?i)"
    using concat_update [OF i, of "remove1 a (array t ! ?i)"] multi_member_split [OF a] assms(2)
    by (auto simp: elems_def)
  then have m: "mset (concat ((array t)[?i := remove1 a (array t ! ?i)])) = mset (remove1 a (concat (array t)))" by simp
  have d: "distinct (concat (array t))" "use t = length (concat (array t))" using assms(1) by (simp_all add: wf_table_iff)
  have t: "wf_table h ?t \<and> elems ?t = set (remove1 a (concat (array t)))"
  proof (rule update_chain [OF assms(1) i _ m])
    show "\<forall>b \<in> set (remove1 a (array t ! ?i)). table_slot t (h b) = ?i"
      using chain_slot [OF assms(1)] set_remove1_subset [of a "array t ! ?i"] by blast
    show "use t - 1 = length (remove1 a (concat (array t)))" using d assms(2) by (simp add: length_remove1 elems_def)
  qed (use d in simp)
  then show ?thesis using d(1) by (simp add: elems_def detach_def)
qed

lemma remove_ok:
  assumes "wf_table h t" "a \<in> elems t"
  shows "\<exists>t'. table_remove h re a t = Inr (Some t') \<and> wf_table h t' \<and> elems t' = elems t - {a}"
proof -
  let ?t = "(detach h a t)\<lparr>use := use t - 1\<rparr>"
  have i: "bucket t (table_slot t (h a)) = Inr (array t ! table_slot t (h a))" using bucket_slot [OF assms(1)] by auto
  have a: "a \<in> set (array t ! table_slot t (h a))" using in_chain [OF assms(1)] assms(2) by simp
  have t: "wf_table h ?t" "elems ?t = elems t - {a}" using detach_ok [OF assms] by (simp_all add: elems_def)
  have r: "table_remove h re a t = bindc (if use ?t < tsize ?t div 4 then remerge re ?t else Inr ?t) (\<lambda>t. Inr (Some t))"
    using i a by (simp add: table_remove_def Let_def detach_def)
  show ?thesis
  proof (cases "use ?t < tsize ?t div 4")
    case True
    obtain t' where "remerge re ?t = Inr t'" "wf_table h t'" "elems t' = elems ?t" using remerge_ok t by blast
    then show ?thesis using r t(2) True by simp
  next
    case False
    then show ?thesis using r t by simp
  qed
qed

section \<open>Tables whose count lags behind\<close>

text \<open>
  \<open>unhash_name\<close> takes a node out of its chain, drops its reference to the parent, which may remove
  more nodes, and lowers the count after that. Apart from the count the table is in order all the time.
\<close>

definition settle :: "node_table \<Rightarrow> node_table" where
  "settle t = t\<lparr>use := length (concat (array t))\<rparr>"

lemma slot_use [simp]: "table_slot (settle t) = table_slot t" "elems (settle t) = elems t" "elems (t\<lparr>use := n\<rparr>) = elems t"
  "array (settle t) = array t" "tsize (settle t) = tsize t"
  by (auto simp: settle_def elems_def fun_eq_iff)

lemma settle_wf: "wf_table h t \<Longrightarrow> settle t = t"
  by (cases t) (simp add: settle_def wf_table_iff)

lemma settle_use [simp]: "settle (t\<lparr>use := n\<rparr>) = settle t"
  by (simp add: settle_def)

lemma settle_detach:
  assumes "wf_table h (settle t)" "a \<in> elems t"
  shows "wf_table h (settle (detach h a t)) \<and> elems (detach h a t) = elems t - {a}
    \<and> length (concat (array t)) = Suc (length (concat (array (detach h a t))))"
proof -
  have e: "a \<in> elems (settle t)" using assms(2) by simp
  have ar: "array (detach h a (settle t)) = array (detach h a t)" by (simp add: detach_def)
  have d: "wf_table h ((detach h a (settle t))\<lparr>use := use (settle t) - 1\<rparr>)" "elems (detach h a (settle t)) = elems t - {a}"
    using detach_ok [OF assms(1) e] by simp_all
  have "use (settle t) - 1 = length (concat (array (detach h a t)))" using d(1) ar by (simp add: wf_table_iff)
  moreover have "0 < length (concat (array t))" using assms(2) by (cases "concat (array t)") (auto simp: elems_def)
  moreover have "use (settle t) = length (concat (array t))" by (simp add: settle_def)
  ultimately have len: "length (concat (array t)) = Suc (length (concat (array (detach h a t))))" by linarith
  have "settle (detach h a t) = (detach h a (settle t))\<lparr>use := use (settle t) - 1\<rparr>"
    using len by (simp add: settle_def detach_def table_slot_def)
  moreover have "elems (detach h a (settle t)) = elems (detach h a t)" using ar by (simp add: elems_def)
  ultimately show ?thesis using d len by simp
qed

lemma remerge_loop_use: "remerge_loop n (t\<lparr>use := u\<rparr>) = bindc (remerge_loop n t) (\<lambda>t. Inr (t\<lparr>use := u\<rparr>))"
proof (induction n arbitrary: t)
  case (Suc n)
  show ?case
  proof (cases "split t")
    case 0
    then show ?thesis by (simp add: remerge_loop.simps)
  next
    case (Suc m)
    let ?t = "t\<lparr>split := m\<rparr>"
    have eq: "t\<lparr>use := u, split := m\<rparr> = ?t\<lparr>use := u\<rparr>" by simp
    show ?thesis
      unfolding remerge_loop.simps [of "Suc n" t] remerge_loop.simps [of "Suc n" "t\<lparr>use := u\<rparr>"]
      by (simp add: Let_def bucket_def Suc eq Suc.IH [of ?t])
  qed
qed (simp add: remerge_loop.simps)

lemma remerge_use: "remerge re (t\<lparr>use := u\<rparr>) = bindc (remerge re t) (\<lambda>t. Inr (t\<lparr>use := u\<rparr>))"
proof -
  have "node_table_reduce re (t\<lparr>use := u\<rparr>) = (node_table_reduce re t)\<lparr>use := u\<rparr>" by (simp add: node_table_reduce_def Let_def)
  then show ?thesis by (simp add: remerge_def remerge_loop_use)
qed

lemma settle_remerge:
  assumes "wf_table h (settle t)"
  shows "\<exists>t'. remerge re t = Inr t' \<and> wf_table h (settle t') \<and> elems t' = elems t \<and> use t' = use t
    \<and> length (concat (array t')) = length (concat (array t))"
proof -
  obtain s where s: "remerge re (settle t) = Inr s" "wf_table h s" "elems s = elems t"
    using remerge_ok [OF assms] by auto
  then obtain t' where t': "remerge re t = Inr t'" "s = t'\<lparr>use := length (concat (array t))\<rparr>"
    using remerge_use [of re "length (concat (array t))" t] by (auto simp: settle_def bindc_eq_Inr)
  have "settle t' = s" using settle_wf [OF s(2)] t'(2) by simp
  moreover have "use t' = use t" using remerge_use [of re "use t" t] t'(1) by (cases t') auto
  moreover have "length (concat (array t')) = length (concat (array t))" using s(2) t'(2) by (simp add: wf_table_iff)
  ultimately show ?thesis using t' s by simp
qed

lemma wf_table_cong: "\<forall>a \<in> elems t. h a = h' a \<Longrightarrow> wf_table h t \<longleftrightarrow> wf_table h' t"
  unfolding wf_table_def by (metis in_elems)

section \<open>Tables in use\<close>

text \<open>The tables that a history of insertions and removals gives, with the set of nodes it leaves.\<close>

inductive table_reach :: "(nat \<Rightarrow> nat) \<Rightarrow> nat set \<Rightarrow> node_table \<Rightarrow> bool" for h where
  init: "node_table_init True = Some t \<Longrightarrow> table_reach h {} t"
| insert: "table_reach h S t \<Longrightarrow> a \<notin> S \<Longrightarrow> table_insert h re a t = Inr t' \<Longrightarrow> table_reach h (insert a S) t'"
| remove: "table_reach h S t \<Longrightarrow> a \<in> S \<Longrightarrow> table_remove h re a t = Inr (Some t') \<Longrightarrow> table_reach h (S - {a}) t'"

lemma init_ok: "node_table_init True = Some t \<Longrightarrow> wf_table h t \<and> elems t = {}"
  by (auto simp: node_table_init_def wf_table_def elems_def intro: exI [of _ 0])

lemma table_reach_ok: "table_reach h S t \<Longrightarrow> wf_table h t \<and> elems t = S"
proof (induction rule: table_reach.induct)
  case (insert S t a re t')
  then show ?case using insert_ok [of h t a re] by auto
next
  case (remove S t a re t')
  then show ?case using remove_ok [of h t a re] by auto
qed (rule init_ok)

lemma find_unique:
  assumes "\<And>a b. a \<in> set xs \<Longrightarrow> b \<in> set xs \<Longrightarrow> P a \<Longrightarrow> P b \<Longrightarrow> a = b"
  shows "find P xs = Some a \<longleftrightarrow> a \<in> set xs \<and> P a"
  using assms by (auto simp: find_Some_iff in_set_conv_nth) (metis find_None_iff find_Some_iff nth_mem option.exhaust)

lemma get_node_nocheck_ok:
  assumes "wf_table (\<lambda>a. id_key (idof a)) t" "inj_on idof (elems t)"
  shows "\<exists>r. get_node_nocheck idof t n = Inr r \<and> (\<forall>a. r = Some a \<longleftrightarrow> a \<in> elems t \<and> idof a = n)"
proof -
  let ?c = "array t ! id_hash t n"
  have b: "bucket t (id_hash t n) = Inr ?c" "id_hash t n < length (array t)"
    using bucket_slot [OF assms(1), of "id_key n"] by (simp_all add: id_hash_def)
  have sub: "set ?c \<subseteq> elems t" using b(2) by (auto simp: in_elems)
  have "find (\<lambda>a. idof a = n) ?c = Some a \<longleftrightarrow> a \<in> set ?c \<and> idof a = n" for a
    by (rule find_unique) (metis assms(2) inj_on_def sub subsetD)
  moreover have "a \<in> set ?c \<longleftrightarrow> a \<in> elems t" if "idof a = n" for a
    using in_chain [OF assms(1), of a] that by (simp add: id_hash_def)
  ultimately show ?thesis using b(1) by (auto simp: get_node_nocheck_def)
qed

lemma lookup_node_ok:
  assumes "wf_table (\<lambda>a. case_prod name_key (nameof a)) t" "inj_on nameof (elems t)"
  shows "\<exists>r. lookup_node nameof t parent name = Inr r \<and> (\<forall>a. r = Some a \<longleftrightarrow> a \<in> elems t \<and> nameof a = (parent, name))"
proof -
  let ?c = "array t ! name_hash t parent name"
  have b: "bucket t (name_hash t parent name) = Inr ?c" "name_hash t parent name < length (array t)"
    using bucket_slot [OF assms(1), of "name_key parent name"] by (simp_all add: name_hash_def)
  have sub: "set ?c \<subseteq> elems t" using b(2) by (auto simp: in_elems)
  have "find (\<lambda>a. nameof a = (parent, name)) ?c = Some a \<longleftrightarrow> a \<in> set ?c \<and> nameof a = (parent, name)" for a
    by (rule find_unique) (metis assms(2) inj_on_def sub subsetD)
  moreover have "a \<in> set ?c \<longleftrightarrow> a \<in> elems t" if "nameof a = (parent, name)" for a
    using in_chain [OF assms(1), of a] that by (simp add: name_hash_def)
  ultimately show ?thesis using b(1) by (auto simp: lookup_node_def)
qed

text \<open>
  (C22) The node tables refine finite maps. Whatever was inserted and removed before, with the array
  growing and shrinking under it one bucket at a time and with \<open>realloc\<close> failing or not: no
  access is out of bounds; a search by number, or by parent and name, finds exactly the node
  with that key among those inserted and not removed; a new node can be inserted and a present
  one removed.
\<close>

theorem node_tables_refine:
  assumes "table_reach (\<lambda>a. id_key (idof a)) S t" "inj_on idof S"
    and "table_reach (\<lambda>a. case_prod name_key (nameof a)) S' u" "inj_on nameof S'"
  shows "(\<exists>r. get_node_nocheck idof t n = Inr r \<and> (\<forall>a. r = Some a \<longleftrightarrow> a \<in> S \<and> idof a = n))
    \<and> (\<exists>r. lookup_node nameof u parent name = Inr r \<and> (\<forall>a. r = Some a \<longleftrightarrow> a \<in> S' \<and> nameof a = (parent, name)))
    \<and> (a \<notin> S \<longrightarrow> (\<exists>t'. hash_id idof re a t = Inr t' \<and> table_reach (\<lambda>a. id_key (idof a)) (insert a S) t'))
    \<and> (a \<in> S \<longrightarrow> (\<exists>t'. unhash_id idof re a t = Inr t' \<and> table_reach (\<lambda>a. id_key (idof a)) (S - {a}) t'))"
proof (intro conjI impI)
  note t = table_reach_ok [OF assms(1)] and u = table_reach_ok [OF assms(3)]
  show "\<exists>r. get_node_nocheck idof t n = Inr r \<and> (\<forall>a. r = Some a \<longleftrightarrow> a \<in> S \<and> idof a = n)"
    using get_node_nocheck_ok [of idof t n] t assms(2) by simp
  show "\<exists>r. lookup_node nameof u parent name = Inr r \<and> (\<forall>a. r = Some a \<longleftrightarrow> a \<in> S' \<and> nameof a = (parent, name))"
    using lookup_node_ok [of nameof u parent name] u assms(4) by simp
  show "\<exists>t'. hash_id idof re a t = Inr t' \<and> table_reach (\<lambda>a. id_key (idof a)) (insert a S) t'" if "a \<notin> S"
    using insert_ok [of "\<lambda>a. id_key (idof a)" t a re] t that table_reach.insert [OF assms(1) that] by (auto simp: hash_id_def)
  show "\<exists>t'. unhash_id idof re a t = Inr t' \<and> table_reach (\<lambda>a. id_key (idof a)) (S - {a}) t'" if "a \<in> S"
    using remove_ok [of "\<lambda>a. id_key (idof a)" t a re] t that table_reach.remove [OF assms(1) that] by (auto simp: unhash_id_def)
qed

lemma shift_inj:
  assumes "i \<le> j" "j < i + m" "(c + i) mod m = (c + j) mod (m :: nat)"
  shows "i = j"
proof -
  have "m dvd j - i" using assms(1,3) mod_eq_dvd_iff_nat [of "c + i" "c + j" m] by simp
  then show ?thesis using assms(1,2) nat_dvd_not_less [of "j - i" m] by linarith
qed

text \<open>A run of \<open>next_id\<close> that does not end has seen only numbers that are taken.\<close>

lemma next_id_loop_None:
  assumes "\<And>n. \<exists>r. get_node_nocheck idof t n = Inr r \<and> (r \<noteq> None \<longrightarrow> n \<in> U)"
  shows "\<exists>r. next_id_loop fuel idof t ctr gen = Inr r
    \<and> (r = None \<longrightarrow> (\<forall>i \<in> {1..fuel}. (ctr + i) mod 2 ^ 32 \<in> {0, FUSE_UNKNOWN_INO} \<union> U))
    \<and> (\<forall>c g. r = Some (c, g) \<longrightarrow> c \<notin> {0, FUSE_UNKNOWN_INO} \<and> c < 2 ^ 32 \<and> get_node_nocheck idof t c = Inr None)"
proof (induction fuel arbitrary: ctr gen)
  case (Suc fuel)
  let ?c = "(ctr + 1) mod 2 ^ 32"
  let ?g = "if ?c = 0 then (gen + 1) mod 2 ^ 32 else gen"
  obtain q where q: "get_node_nocheck idof t ?c = Inr q" "q \<noteq> None \<longrightarrow> ?c \<in> U" using assms by blast
  obtain r where r: "next_id_loop fuel idof t ?c ?g = Inr r"
      "r = None \<longrightarrow> (\<forall>i \<in> {1..fuel}. (?c + i) mod 2 ^ 32 \<in> {0, FUSE_UNKNOWN_INO} \<union> U)"
      "\<forall>c g. r = Some (c, g) \<longrightarrow> c \<notin> {0, FUSE_UNKNOWN_INO} \<and> c < 2 ^ 32 \<and> get_node_nocheck idof t c = Inr None"
    using Suc by blast
  have step: "\<forall>i \<in> {1..Suc fuel}. (ctr + i) mod 2 ^ 32 \<in> B"
    if "?c \<in> B" "\<forall>i \<in> {1..fuel}. (?c + i) mod 2 ^ 32 \<in> B" for B
  proof
    fix i assume i: "i \<in> {1..Suc fuel}"
    show "(ctr + i) mod 2 ^ 32 \<in> B"
    proof (cases "i = 1")
      case False
      have "(?c + (i - 1)) mod 2 ^ 32 = (ctr + 1 + (i - 1)) mod 2 ^ 32" by (rule mod_add_left_eq)
      moreover have "ctr + 1 + (i - 1) = ctr + i" using i by simp
      ultimately have "(ctr + i) mod 2 ^ 32 = (?c + (i - 1)) mod 2 ^ 32" by metis
      moreover have "i - 1 \<in> {1..fuel}" using i False by auto
      ultimately show ?thesis using that(2) by metis
    qed (use that(1) in simp)
  qed
  show ?case
  proof (cases "?c \<in> {0, FUSE_UNKNOWN_INO} \<or> q \<noteq> None")
    case True
    then have "next_id_loop (Suc fuel) idof t ctr gen = Inr r"
      using q r(1) unfolding next_id_loop.simps Let_def by auto
    moreover have "?c \<in> {0, FUSE_UNKNOWN_INO} \<union> U" using True q(2) by blast
    then have "r = None \<longrightarrow> (\<forall>i \<in> {1..Suc fuel}. (ctr + i) mod 2 ^ 32 \<in> {0, FUSE_UNKNOWN_INO} \<union> U)"
      using step r(2) by metis
    ultimately show ?thesis using r(3) by (intro exI [of _ r] conjI)
  next
    case False
    then have "next_id_loop (Suc fuel) idof t ctr gen = Inr (Some (?c, ?g))"
      using q unfolding next_id_loop.simps Let_def by auto
    then show ?thesis using False q(1) by auto
  qed
qed simp

lemma next_id_ok:
  assumes "wf_table (\<lambda>a. id_key (idof a)) t" "elems t = S" "inj_on idof S" "finite S" "card S + 3 \<le> 2 ^ 32"
  shows "\<exists>c g. next_id_loop (card S + 3) idof t ctr gen = Inr (Some (c, g))
    \<and> c \<notin> {0, FUSE_UNKNOWN_INO} \<union> idof ` S \<and> c < 2 ^ 32"
proof -
  have look: "\<exists>r. get_node_nocheck idof t n = Inr r \<and> (\<forall>a. r = Some a \<longleftrightarrow> a \<in> S \<and> idof a = n)" for n
    using get_node_nocheck_ok [of idof t n] assms(1-3) by simp
  then have "\<exists>r. get_node_nocheck idof t n = Inr r \<and> (r \<noteq> None \<longrightarrow> n \<in> idof ` S)" for n by fastforce
  from next_id_loop_None [OF this, of "card S + 3" ctr gen] obtain r where r: "next_id_loop (card S + 3) idof t ctr gen = Inr r"
      "r = None \<longrightarrow> (\<forall>i \<in> {1..card S + 3}. (ctr + i) mod 2 ^ 32 \<in> {0, FUSE_UNKNOWN_INO} \<union> idof ` S)"
      "\<forall>c g. r = Some (c, g) \<longrightarrow> c \<notin> {0, FUSE_UNKNOWN_INO} \<and> c < 2 ^ 32 \<and> get_node_nocheck idof t c = Inr None"
    by blast
  have "r \<noteq> None"
  proof
    assume "r = None"
    let ?f = "\<lambda>i. (ctr + i) mod 2 ^ 32" and ?B = "{0, FUSE_UNKNOWN_INO} \<union> idof ` S"
    have "inj_on ?f {1..card S + 3}"
    proof (rule inj_onI)
      fix i j assume ij: "i \<in> {1..card S + 3}" "j \<in> {1..card S + 3}" "?f i = ?f j"
      then have "i < j + 2 ^ 32" "j < i + 2 ^ 32" using assms(5) by auto
      then show "i = j" using shift_inj [of i j "2 ^ 32" ctr] shift_inj [of j i "2 ^ 32" ctr] ij(3) by (metis nat_le_linear)
    qed
    moreover have "?f ` {1..card S + 3} \<subseteq> ?B" using r(2) \<open>r = None\<close> by (intro image_subsetI) blast
    ultimately have "card {1..card S + 3} \<le> card ?B" using assms(4) by (intro card_inj_on_le) auto
    then have "card S + 3 \<le> card ?B" by simp
    moreover have "card ?B \<le> 2 + card S"
      using card_Un_le [of "{0, FUSE_UNKNOWN_INO}" "idof ` S"] card_image_le [OF assms(4), of idof]
        card_insert_le_m1 [of 2 "{FUSE_UNKNOWN_INO}" 0] by simp
    ultimately show False by simp
  qed
  then obtain c g where cg: "r = Some (c, g)" by auto
  then have "c \<notin> idof ` S" using r(3) look [of c] by auto
  then show ?thesis using r(1,3) cg by auto
qed

text \<open>
  (C23) \<open>next_id\<close> comes to an end as long as there are fewer nodes than numbers: after at most three
  rounds more than there are nodes it gives a number that is neither \<open>0\<close> nor \<open>FUSE_UNKNOWN_INO\<close>
  nor in use.
\<close>

theorem next_id_terminates:
  assumes "table_reach (\<lambda>a. id_key (idof a)) S t" "inj_on idof S" "finite S" "card S + 3 \<le> 2 ^ 32"
  shows "\<exists>c g. next_id_loop (card S + 3) idof t ctr gen = Inr (Some (c, g))
    \<and> c \<notin> {0, FUSE_UNKNOWN_INO} \<union> idof ` S \<and> c < 2 ^ 32"
  using table_reach_ok [OF assms(1)] assms(2-4) by (intro next_id_ok) simp_all

section \<open>An example\<close>

lemma sample_reach: "\<exists>t. table_reach h {7} t"
proof -
  obtain t where t: "node_table_init True = Some t" by (simp add: node_table_init_def)
  then have r: "table_reach h {} t" by (rule table_reach.init)
  obtain t' where "table_insert h True 7 t = Inr t'" using insert_ok [of h t 7 True] init_ok [OF t, of h] by auto
  then show ?thesis using table_reach.insert [OF r, of 7] by auto
qed

theorem node_tables_refine_witness:
  "\<exists>t u. get_node_nocheck (\<lambda>a. a + 1) t 8 = Inr (Some 7) \<and> lookup_node (\<lambda>_. (1, ''etc'')) u 1 ''etc'' = Inr (Some 7)"
proof -
  obtain t u where tu: "table_reach (\<lambda>a. id_key (a + 1)) {7} t" "table_reach (\<lambda>a. case_prod name_key (1, ''etc'')) {7} u"
    using sample_reach by metis
  have inj: "inj_on (\<lambda>a. a + 1 :: nat) {7}" "inj_on (\<lambda>_. (1 :: nat, ''etc'')) {7 :: nat}" by simp_all
  have "7 + 1 = (8 :: nat)" by simp
  then show ?thesis
    using node_tables_refine [OF tu(1) inj(1) tu(2) inj(2), of 8 1 "''etc''" 7 True] by (metis insertI1)
qed

theorem next_id_terminates_witness:
  "\<exists>t c g. next_id_loop (card {7 :: nat} + 3) (\<lambda>a. a + 1) t 7 0 = Inr (Some (c, g))
     \<and> c \<notin> {0, FUSE_UNKNOWN_INO} \<union> (\<lambda>a. a + 1) ` {7} \<and> c < 2 ^ 32"
proof -
  obtain t where t: "table_reach (\<lambda>a. id_key (a + 1)) {7} t" using sample_reach by metis
  have "inj_on (\<lambda>a. a + 1 :: nat) {7}" "finite {7 :: nat}" "card {7 :: nat} + 3 \<le> 2 ^ 32" by simp_all
  then show ?thesis using next_id_terminates [OF t, of 7 0] by blast
qed

end
