(* ===== verification/Fuse_List.thy ===== *)
theory Fuse_List
  imports Prelude
begin

text \<open>
  The circular doubly linked lists of \<open>src/lib/fuse.c\<close>, whose \<open>struct list_head\<close> is embedded in the
  objects of the list. Memory is a partial map from locations to list heads: a location that is
  not in it cannot be read or written. Each list operation is shown to be the operation on the
  sequence of entries that it stands for, and to leave every other location alone.
\<close>

section \<open>The operations\<close>

record 'l list_head =
  lnext :: 'l
  lprev :: 'l

type_synonym 'l heads = "'l \<rightharpoonup> 'l list_head"

definition load_head :: "'l heads \<Rightarrow> 'l \<Rightarrow> 'l list_head c" where
  "load_head h l = (case h l of None \<Rightarrow> Inl Dangling | Some x \<Rightarrow> Inr x)"

definition set_next :: "'l \<Rightarrow> 'l \<Rightarrow> 'l heads \<Rightarrow> 'l heads c" where
  "set_next l v h = bindc (load_head h l) (\<lambda>x. Inr (h(l \<mapsto> x\<lparr>lnext := v\<rparr>)))"

definition set_prev :: "'l \<Rightarrow> 'l \<Rightarrow> 'l heads \<Rightarrow> 'l heads c" where
  "set_prev l v h = bindc (load_head h l) (\<lambda>x. Inr (h(l \<mapsto> x\<lparr>lprev := v\<rparr>)))"

definition init_list_head :: "'l \<Rightarrow> 'l heads \<Rightarrow> 'l heads c" where
  "init_list_head l h = bindc (set_next l l h) (set_prev l l)"

definition list_empty :: "'l \<Rightarrow> 'l heads \<Rightarrow> bool c" where
  "list_empty head h = bindc (load_head h head) (\<lambda>x. Inr (lnext x = head))"

definition list_add :: "'l \<Rightarrow> 'l \<Rightarrow> 'l \<Rightarrow> 'l heads \<Rightarrow> 'l heads c" where
  "list_add new prev nxt h =
     bindc (set_prev nxt new h) (\<lambda>h.
     bindc (set_next new nxt h) (\<lambda>h.
     bindc (set_prev new prev h) (set_next prev new)))"

definition list_add_head :: "'l \<Rightarrow> 'l \<Rightarrow> 'l heads \<Rightarrow> 'l heads c" where
  "list_add_head new head h = bindc (load_head h head) (\<lambda>x. list_add new head (lnext x) h)"

definition list_add_tail :: "'l \<Rightarrow> 'l \<Rightarrow> 'l heads \<Rightarrow> 'l heads c" where
  "list_add_tail new head h = bindc (load_head h head) (\<lambda>x. list_add new (lprev x) head h)"

definition list_del :: "'l \<Rightarrow> 'l heads \<Rightarrow> 'l heads c" where
  "list_del entry h =
     bindc (load_head h entry) (\<lambda>x. bindc (set_prev (lnext x) (lprev x) h) (set_next (lprev x) (lnext x)))"

section \<open>The fields of a heap\<close>

definition nx :: "'l heads \<Rightarrow> 'l \<Rightarrow> 'l option" where
  "nx h l = map_option lnext (h l)"

definition pv :: "'l heads \<Rightarrow> 'l \<Rightarrow> 'l option" where
  "pv h l = map_option lprev (h l)"

lemma heads_eqI: "nx h l = nx h' l \<Longrightarrow> pv h l = pv h' l \<Longrightarrow> h l = h' l"
  by (cases "h l"; cases "h' l") (auto simp: nx_def pv_def)

lemma load_head_ok: "load_head h l = Inr x \<longleftrightarrow> h l = Some x"
  by (cases "h l") (auto simp: load_head_def)

lemma nx_SomeD: "nx h l = Some v \<Longrightarrow> \<exists>x. h l = Some x \<and> lnext x = v"
  by (auto simp: nx_def)

lemma pv_SomeD: "pv h l = Some v \<Longrightarrow> \<exists>x. h l = Some x \<and> lprev x = v"
  by (auto simp: pv_def)

lemma set_next_ok:
  "l \<in> dom h \<Longrightarrow> \<exists>h'. set_next l v h = Inr h' \<and> nx h' = (nx h)(l \<mapsto> v) \<and> pv h' = pv h \<and> dom h' = dom h"
  by (rule exI [of _ "h(l \<mapsto> (the (h l))\<lparr>lnext := v\<rparr>)"]) (auto simp: set_next_def load_head_def nx_def pv_def fun_eq_iff)

lemma set_prev_ok:
  "l \<in> dom h \<Longrightarrow> \<exists>h'. set_prev l v h = Inr h' \<and> nx h' = nx h \<and> pv h' = (pv h)(l \<mapsto> v) \<and> dom h' = dom h"
  by (rule exI [of _ "h(l \<mapsto> (the (h l))\<lparr>lprev := v\<rparr>)"]) (auto simp: set_prev_def load_head_def nx_def pv_def fun_eq_iff)

lemma init_list_head_ok:
  assumes "l \<in> dom h"
  shows "\<exists>h'. init_list_head l h = Inr h' \<and> nx h' = (nx h)(l \<mapsto> l) \<and> pv h' = (pv h)(l \<mapsto> l) \<and> dom h' = dom h"
proof -
  obtain h1 where "set_next l l h = Inr h1" "nx h1 = (nx h)(l \<mapsto> l)" "pv h1 = pv h" "dom h1 = dom h"
    using set_next_ok [OF assms] by blast
  then show ?thesis using set_prev_ok [of l h1 l] assms by (auto simp: init_list_head_def)
qed

lemma list_add_ok:
  assumes "new \<in> dom h" "prev \<in> dom h" "nxt \<in> dom h" "new \<noteq> prev" "new \<noteq> nxt"
  shows "\<exists>h'. list_add new prev nxt h = Inr h' \<and> nx h' = (nx h)(new \<mapsto> nxt, prev \<mapsto> new)
    \<and> pv h' = (pv h)(nxt \<mapsto> new, new \<mapsto> prev) \<and> dom h' = dom h"
proof -
  obtain h1 where h1: "set_prev nxt new h = Inr h1" "nx h1 = nx h" "pv h1 = (pv h)(nxt \<mapsto> new)" "dom h1 = dom h"
    using set_prev_ok [OF assms(3)] by blast
  obtain h2 where h2: "set_next new nxt h1 = Inr h2" "nx h2 = (nx h1)(new \<mapsto> nxt)" "pv h2 = pv h1" "dom h2 = dom h"
    using set_next_ok [of new h1 nxt] assms(1) h1(4) by auto
  obtain h3 where h3: "set_prev new prev h2 = Inr h3" "nx h3 = nx h2" "pv h3 = (pv h2)(new \<mapsto> prev)" "dom h3 = dom h"
    using set_prev_ok [of new h2 prev] assms(1) h2(4) by auto
  obtain h4 where h4: "set_next prev new h3 = Inr h4" "nx h4 = (nx h3)(prev \<mapsto> new)" "pv h4 = pv h3" "dom h4 = dom h"
    using set_next_ok [of prev h3 new] assms(2) h3(4) by auto
  show ?thesis using h1 h2 h3 h4 by (auto simp: list_add_def)
qed

lemma list_del_ok:
  assumes "nx h e = Some q" "pv h e = Some p" "p \<in> dom h" "q \<in> dom h"
  shows "\<exists>h'. list_del e h = Inr h' \<and> nx h' = (nx h)(p \<mapsto> q) \<and> pv h' = (pv h)(q \<mapsto> p) \<and> dom h' = dom h"
proof -
  obtain x where x: "load_head h e = Inr x" "lnext x = q" "lprev x = p"
    using assms(1,2) by (auto simp: load_head_def nx_def pv_def)
  obtain h1 where h1: "set_prev q p h = Inr h1" "nx h1 = nx h" "pv h1 = (pv h)(q \<mapsto> p)" "dom h1 = dom h"
    using set_prev_ok [OF assms(4)] by blast
  show ?thesis using set_next_ok [of p h1 q] assms(3) h1 x by (auto simp: list_del_def)
qed

section \<open>Chains and lists\<close>

text \<open>\<open>chain n p a xs b\<close>: following \<open>n\<close> from \<open>a\<close> leads through \<open>xs\<close> to \<open>b\<close>, and \<open>p\<close> leads back.\<close>

fun chain :: "('l \<rightharpoonup> 'l) \<Rightarrow> ('l \<rightharpoonup> 'l) \<Rightarrow> 'l \<Rightarrow> 'l list \<Rightarrow> 'l \<Rightarrow> bool" where
  "chain n p a [] b \<longleftrightarrow> n a = Some b \<and> p b = Some a"
| "chain n p a (x # xs) b \<longleftrightarrow> n a = Some x \<and> p x = Some a \<and> chain n p x xs b"

definition dll :: "'l heads \<Rightarrow> 'l \<Rightarrow> 'l list \<Rightarrow> bool" where
  "dll h ring xs \<longleftrightarrow> chain (nx h) (pv h) ring xs ring \<and> distinct (ring # xs)"

lemma chain_append: "chain n p a (xs @ x # ys) b \<longleftrightarrow> chain n p a xs x \<and> chain n p x ys b"
  by (induction xs arbitrary: a) auto

lemma chain_cong:
  "\<forall>l \<in> set (a # xs). n' l = n l \<Longrightarrow> \<forall>l \<in> set (xs @ [b]). p' l = p l \<Longrightarrow> chain n' p' a xs b \<longleftrightarrow> chain n p a xs b"
  by (induction xs arbitrary: a) auto

lemma chain_ends: "chain n p a xs b \<Longrightarrow> n a = Some (hd (xs @ [b])) \<and> p b = Some (last (a # xs))"
  by (induction xs arbitrary: a) auto

lemma chain_next: "chain n p a xs b \<Longrightarrow> l \<in> set (a # xs) \<Longrightarrow> n l \<noteq> None"
  by (induction xs arbitrary: a) auto

text \<open>Pointing the end of a chain elsewhere.\<close>

lemma chain_relink:
  "chain n p a xs b \<Longrightarrow> distinct (a # xs) \<Longrightarrow> q \<notin> set xs \<Longrightarrow>
     chain (n(last (a # xs) \<mapsto> q)) (p(q \<mapsto> last (a # xs))) a xs q"
proof (induction xs arbitrary: a)
  case (Cons x xs)
  define e where "e = last (x # xs)"
  have e: "e = last (a # x # xs)" by (simp add: e_def)
  have "e \<noteq> a" unfolding e_def using Cons.prems(2) by (metis distinct.simps(2) last_in_set list.distinct(1))
  moreover have "chain (n(e \<mapsto> q)) (p(q \<mapsto> e)) x xs q"
    unfolding e_def by (rule Cons.IH) (use Cons.prems in auto)
  moreover have "n a = Some x" "p x = Some a" "x \<noteq> q" using Cons.prems by auto
  ultimately show ?case unfolding e [symmetric] chain.simps by (metis fun_upd_other)
qed simp

lemma dll_cong: "\<forall>l \<in> set (ring # xs). h' l = h l \<Longrightarrow> dll h' ring xs \<longleftrightarrow> dll h ring xs"
  using chain_cong [of ring xs "nx h'" "nx h" ring "pv h'" "pv h"] by (auto simp: dll_def nx_def pv_def)

lemma dll_dom: "dll h ring xs \<Longrightarrow> set (ring # xs) \<subseteq> dom h"
  using chain_next [of "nx h" "pv h" ring xs ring] by (fastforce simp: dll_def nx_def)

lemma dll_distinct: "dll h ring xs \<Longrightarrow> distinct (ring # xs)"
  by (simp add: dll_def)

lemma dll_ends: "dll h ring xs \<Longrightarrow> nx h ring = Some (hd (xs @ [ring])) \<and> pv h ring = Some (last (ring # xs))"
  using chain_ends by (fastforce simp: dll_def)

text \<open>What an operation keeps: the locations that are there, and the contents of those outside \<open>S\<close>.\<close>

definition keeps :: "'l set \<Rightarrow> 'l heads \<Rightarrow> 'l heads \<Rightarrow> bool" where
  "keeps S h h' \<longleftrightarrow> dom h' = dom h \<and> (\<forall>l. l \<notin> S \<longrightarrow> h' l = h l)"

lemma keepsI:
  "dom h' = dom h \<Longrightarrow> (\<And>l. l \<notin> S \<Longrightarrow> nx h' l = nx h l \<and> pv h' l = pv h l) \<Longrightarrow> keeps S h h'"
  unfolding keeps_def by (blast intro: heads_eqI)

lemma keeps_trans: "keeps S h h' \<Longrightarrow> keeps T h' h'' \<Longrightarrow> keeps (S \<union> T) h h''"
  by (simp add: keeps_def)

lemma keeps_dll: "keeps S h h' \<Longrightarrow> S \<inter> set (ring # xs) = {} \<Longrightarrow> dll h' ring xs \<longleftrightarrow> dll h ring xs"
  by (rule dll_cong) (auto simp: keeps_def)

lemma keeps_mono: "keeps S h h' \<Longrightarrow> S \<subseteq> T \<Longrightarrow> keeps T h h'"
  by (auto simp: keeps_def)

lemma keeps_at: "keeps S h h' \<Longrightarrow> l \<notin> S \<Longrightarrow> h' l = h l"
  by (simp add: keeps_def)

lemma keeps_ring: "keeps S h h' \<Longrightarrow> dll h ring xs \<Longrightarrow> S \<inter> set (ring # xs) = {} \<Longrightarrow> dll h' ring xs"
  by (simp add: keeps_dll)

lemma list_init_spec:
  assumes "l \<in> dom h"
  shows "\<exists>h'. init_list_head l h = Inr h' \<and> dll h' l [] \<and> keeps {l} h h'"
proof -
  obtain h' where "init_list_head l h = Inr h'" "nx h' = (nx h)(l \<mapsto> l)" "pv h' = (pv h)(l \<mapsto> l)" "dom h' = dom h"
    using init_list_head_ok [OF assms] by blast
  then show ?thesis by (auto simp: dll_def intro!: keepsI)
qed

lemma list_empty_spec: "dll h ring xs \<Longrightarrow> list_empty ring h = Inr (xs = [])"
  using dll_ends [of h ring xs] dll_distinct [of h ring xs]
  by (cases xs) (auto simp: list_empty_def load_head_def nx_def)

lemma list_add_tail_spec:
  assumes "dll h ring xs" "new \<in> dom h" "new \<notin> set (ring # xs)"
  shows "\<exists>h'. list_add_tail new ring h = Inr h' \<and> dll h' ring (xs @ [new]) \<and> keeps (set (new # ring # xs)) h h'"
proof -
  define p where "p = last (ring # xs)"
  have p: "p \<in> set (ring # xs)" unfolding p_def by (rule last_in_set) simp
  then have dom: "p \<in> dom h" "ring \<in> dom h" using dll_dom [OF assms(1)] by auto
  obtain h' where h': "list_add new p ring h = Inr h'" "nx h' = (nx h)(new \<mapsto> ring, p \<mapsto> new)"
      "pv h' = (pv h)(ring \<mapsto> new, new \<mapsto> p)" "dom h' = dom h"
    using list_add_ok [OF assms(2) dom] assms(3) p by auto
  have "list_add_tail new ring h = Inr h'"
    using h'(1) dll_ends [OF assms(1)] by (auto simp: list_add_tail_def load_head_def pv_def p_def)
  moreover have "chain (nx h') (pv h') ring xs new"
  proof -
    have "chain ((nx h)(p \<mapsto> new)) ((pv h)(new \<mapsto> p)) ring xs new"
      unfolding p_def using assms(1,3) by (intro chain_relink) (auto simp: dll_def)
    then show ?thesis
      by (rule iffD1 [OF chain_cong, rotated 2]) (use assms(3) dll_distinct [OF assms(1)] h' in auto)
  qed
  then have "dll h' ring (xs @ [new])"
    using h' p assms(3) dll_distinct [OF assms(1)] by (auto simp: dll_def chain_append)
  moreover have "keeps (set (new # ring # xs)) h h'" using h' p by (intro keepsI) auto
  ultimately show ?thesis by blast
qed

lemma list_add_head_spec:
  assumes "dll h ring xs" "new \<in> dom h" "new \<notin> set (ring # xs)"
  shows "\<exists>h'. list_add_head new ring h = Inr h' \<and> dll h' ring (new # xs) \<and> keeps (set (new # ring # xs)) h h'"
proof -
  define q where "q = hd (xs @ [ring])"
  have q: "q \<in> set (ring # xs)" by (cases xs) (auto simp: q_def)
  then have dom: "q \<in> dom h" "ring \<in> dom h" using dll_dom [OF assms(1)] by auto
  obtain h' where h': "list_add new ring q h = Inr h'" "nx h' = (nx h)(new \<mapsto> q, ring \<mapsto> new)"
      "pv h' = (pv h)(q \<mapsto> new, new \<mapsto> ring)" "dom h' = dom h"
    using list_add_ok [OF assms(2) dom(2) dom(1)] assms(3) q by auto
  have "list_add_head new ring h = Inr h'"
    using h'(1) dll_ends [OF assms(1)] by (auto simp: list_add_head_def load_head_def nx_def q_def)
  moreover have "chain (nx h') (pv h') new xs ring"
  proof (cases xs)
    case (Cons x xs')
    then have "chain (nx h) (pv h) x xs' ring" using assms(1) by (simp add: dll_def)
    then have "chain (nx h') (pv h') x xs' ring"
      by (rule iffD1 [OF chain_cong, rotated 2]) (use assms(3) dll_distinct [OF assms(1)] h' Cons q_def in auto)
    then show ?thesis using Cons h' assms(3) q_def dll_distinct [OF assms(1)] by auto
  qed (use h' assms(3) q_def in auto)
  then have "dll h' ring (new # xs)"
    using h' q assms(3) dll_distinct [OF assms(1)] by (auto simp: dll_def)
  moreover have "keeps (set (new # ring # xs)) h h'" using h' q by (intro keepsI) auto
  ultimately show ?thesis by blast
qed

lemma list_del_spec:
  assumes "dll h ring (xs @ e # ys)"
  shows "\<exists>h'. list_del e h = Inr h' \<and> dll h' ring (xs @ ys) \<and> h' e = h e \<and> keeps (set (ring # xs @ ys)) h h'"
proof -
  define p q where "p = last (ring # xs)" and "q = hd (ys @ [ring])"
  have c: "chain (nx h) (pv h) ring xs e" "chain (nx h) (pv h) e ys ring" and d: "distinct (ring # xs @ e # ys)"
    using assms by (auto simp: dll_def chain_append)
  have "last (ring # xs) \<in> set (ring # xs)" by (rule last_in_set) simp
  then have pq: "p \<in> set (ring # xs)" "q \<in> set (ring # ys)" by (simp add: p_def) (cases ys; simp add: q_def)
  have "pv h e = Some p" "nx h e = Some q" using chain_ends [OF c(1)] chain_ends [OF c(2)] by (auto simp: p_def q_def)
  moreover have "p \<in> dom h" "q \<in> dom h" using pq dll_dom [OF assms] by auto
  ultimately obtain h' where h': "list_del e h = Inr h'" "nx h' = (nx h)(p \<mapsto> q)" "pv h' = (pv h)(q \<mapsto> p)" "dom h' = dom h"
    using list_del_ok by metis
  have r: "chain (nx h') (pv h') ring xs q"
    unfolding h' p_def using c(1) d pq(2) by (intro chain_relink) (auto simp: q_def)
  have "chain (nx h') (pv h') ring (xs @ ys) ring"
  proof (cases ys)
    case Nil
    then show ?thesis using r by (simp add: q_def)
  next
    case (Cons y ys')
    then have "chain (nx h) (pv h) y ys' ring" using c(2) by simp
    then have "chain (nx h') (pv h') y ys' ring"
      by (rule iffD1 [OF chain_cong, rotated 2]) (use d h' Cons pq q_def in auto)
    then show ?thesis using r Cons by (simp add: q_def chain_append)
  qed
  then have "dll h' ring (xs @ ys)" using d by (auto simp: dll_def)
  moreover have "h' e = h e" using d pq h' by (intro heads_eqI) auto
  moreover have "keeps (set (ring # xs @ ys)) h h'" using h' pq by (intro keepsI) auto
  ultimately show ?thesis using h'(1) by blast
qed

end
