(* ===== verification/Fuse_Slab.thy ===== *)
theory Fuse_Slab
  imports Fuse_List
begin

text \<open>
  The allocator for nodes of \<open>src/lib/fuse.c\<close> (the variant with \<open>FUSE_NODE_SLAB\<close>): pages from
  \<open>mmap\<close>, each with a header, a list of its free nodes and a count of the used ones, on a list of
  pages with free nodes or a list of full pages. A free node's memory holds its link, and the
  page of a node is found by masking its address. The locations of list heads are told apart by
  what they are part of; the sizes are those of the 64-bit target.
\<close>

unbundle bit_operations_syntax

section \<open>Memory\<close>

datatype loc = NULL | PartialSlabs | FullSlabs | LruTable | SlabList nat | FreeList nat | NodeMem nat | NodeLru nat

record slab_state =
  heads :: "loc heads"
  used :: "nat \<rightharpoonup> int"

definition sizeof_node :: nat where "sizeof_node = 160"
definition sizeof_node_lru :: nat where "sizeof_node_lru = 192"
definition sizeof_node_slab :: nat where "sizeof_node_slab = 40"

definition lru_enabled :: "int \<Rightarrow> bool" where
  "lru_enabled remember \<longleftrightarrow> remember > 0"

definition get_node_size :: "int \<Rightarrow> nat" where
  "get_node_size remember = (if lru_enabled remember then sizeof_node_lru else sizeof_node)"

text \<open>The list heads in a page: \<open>mmap\<close> gives the page filled with zeros.\<close>

definition in_page :: "nat \<Rightarrow> nat \<Rightarrow> loc \<Rightarrow> bool" where
  "in_page pagesize slab l = (case l of
       SlabList s \<Rightarrow> s = slab | FreeList s \<Rightarrow> s = slab
     | NodeMem a \<Rightarrow> slab \<le> a \<and> a < slab + pagesize
     | NodeLru a \<Rightarrow> slab \<le> a \<and> a < slab + pagesize
     | _ \<Rightarrow> False)"

definition map_page :: "nat \<Rightarrow> nat \<Rightarrow> slab_state \<Rightarrow> slab_state" where
  "map_page pagesize slab st =
     st\<lparr>heads := (\<lambda>l. if in_page pagesize slab l then Some \<lparr>lnext = NULL, lprev = NULL\<rparr> else heads st l),
        used := (used st)(slab \<mapsto> 0)\<rparr>"

definition unmap_page :: "nat \<Rightarrow> nat \<Rightarrow> slab_state \<Rightarrow> slab_state" where
  "unmap_page pagesize slab st =
     st\<lparr>heads := (\<lambda>l. if in_page pagesize slab l then None else heads st l), used := (used st)(slab := None)\<rparr>"

definition on_heads :: "(loc heads \<Rightarrow> loc heads c) \<Rightarrow> slab_state \<Rightarrow> slab_state c" where
  "on_heads f st = bindc (f (heads st)) (\<lambda>h. Inr (st\<lparr>heads := h\<rparr>))"

section \<open>The allocator\<close>

definition list_to_slab :: "loc \<Rightarrow> nat c" where
  "list_to_slab l = (case l of SlabList s \<Rightarrow> Inr s | _ \<Rightarrow> Inl WrongType)"

definition node_to_slab :: "nat \<Rightarrow> nat \<Rightarrow> nat" where
  "node_to_slab pagesize node = unat ((of_nat node :: 64 word) AND NOT (of_nat pagesize - 1))"

fun add_nodes :: "nat \<Rightarrow> nat \<Rightarrow> nat \<Rightarrow> nat list \<Rightarrow> loc heads \<Rightarrow> loc heads c" where
  "add_nodes slab start node_size [] h = Inr h"
| "add_nodes slab start node_size (i # is) h =
     bindc (list_add_tail (NodeMem (start + i * node_size)) (FreeList slab) h) (add_nodes slab start node_size is)"

text \<open>\<open>mem\<close> is the result of \<open>mmap\<close>, \<open>None\<close> for \<open>MAP_FAILED\<close>.\<close>

definition alloc_slab :: "nat \<Rightarrow> int \<Rightarrow> nat option \<Rightarrow> slab_state \<Rightarrow> (int \<times> slab_state) c" where
  "alloc_slab pagesize remember mem st =
     (let node_size = get_node_size remember in
      case mem of None \<Rightarrow> Inr (-1, st)
      | Some slab \<Rightarrow>
          bindc (on_heads (init_list_head (FreeList slab)) (map_page pagesize slab st)) (\<lambda>st.
          let num = (pagesize - sizeof_node_slab) div node_size; start = slab + pagesize - num * node_size in
          bindc (on_heads (add_nodes slab start node_size [0..<num]) (st\<lparr>used := (used st)(slab \<mapsto> 0)\<rparr>)) (\<lambda>st.
          bindc (on_heads (list_add_tail (SlabList slab) PartialSlabs) st) (\<lambda>st. Inr (0, st)))))"

definition take_node :: "slab_state \<Rightarrow> (nat option \<times> slab_state) c" where
  "take_node st =
     bindc (load_head (heads st) PartialSlabs) (\<lambda>p.
     bindc (list_to_slab (lnext p)) (\<lambda>slab.
     case used st slab of None \<Rightarrow> Inl Dangling
     | Some n \<Rightarrow>
         let st = st\<lparr>used := (used st)(slab \<mapsto> n + 1)\<rparr> in
         bindc (load_head (heads st) (FreeList slab)) (\<lambda>fl.
         case lnext fl of
           NodeMem a \<Rightarrow>
             bindc (on_heads (list_del (NodeMem a)) st) (\<lambda>st.
             bindc (list_empty (FreeList slab) (heads st)) (\<lambda>e.
             if e then
               bindc (on_heads (list_del (SlabList slab)) st) (\<lambda>st.
               bindc (on_heads (list_add_tail (SlabList slab) FullSlabs) st) (\<lambda>st. Inr (Some a, st)))
             else Inr (Some a, st)))
         | _ \<Rightarrow> Inl WrongType)))"

definition alloc_node :: "nat \<Rightarrow> int \<Rightarrow> nat option \<Rightarrow> slab_state \<Rightarrow> (nat option \<times> slab_state) c" where
  "alloc_node pagesize remember mem st =
     bindc (list_empty PartialSlabs (heads st)) (\<lambda>e.
     if e then bindc (alloc_slab pagesize remember mem st) (\<lambda>(res, st). if res \<noteq> 0 then Inr (None, st) else take_node st)
     else take_node st)"

text \<open>A failed \<open>munmap\<close> leaves the page mapped, with a warning on \<open>stderr\<close>.\<close>

definition free_slab :: "nat \<Rightarrow> bool \<Rightarrow> nat \<Rightarrow> slab_state \<Rightarrow> slab_state c" where
  "free_slab pagesize unmapped slab st =
     bindc (on_heads (list_del (SlabList slab)) st) (\<lambda>st. Inr (if unmapped then unmap_page pagesize slab st else st))"

definition free_node_mem :: "nat \<Rightarrow> bool \<Rightarrow> nat \<Rightarrow> slab_state \<Rightarrow> slab_state c" where
  "free_node_mem pagesize unmapped node st =
     (let slab = node_to_slab pagesize node in
      case used st slab of None \<Rightarrow> Inl Dangling
      | Some n \<Rightarrow>
          let st = st\<lparr>used := (used st)(slab \<mapsto> n - 1)\<rparr> in
          if n - 1 \<noteq> 0 then
            bindc (list_empty (FreeList slab) (heads st)) (\<lambda>e.
            bindc (if e then bindc (on_heads (list_del (SlabList slab)) st) (on_heads (list_add_tail (SlabList slab) PartialSlabs))
                   else Inr st)
              (on_heads (list_add_head (NodeMem node) (FreeList slab))))
          else free_slab pagesize unmapped slab st)"

text \<open>The lists of a new \<open>struct fuse\<close>, set up by \<open>fuse_new_common\<close> in memory filled with zeros.\<close>

definition init_lists :: "slab_state c" where
  "init_lists =
     (let h = (\<lambda>l. if l \<in> {PartialSlabs, FullSlabs, LruTable} then Some \<lparr>lnext = NULL, lprev = NULL\<rparr> else None) in
      bindc (init_list_head PartialSlabs h) (\<lambda>h.
      bindc (init_list_head FullSlabs h) (\<lambda>h.
      bindc (init_list_head LruTable h) (\<lambda>h. Inr \<lparr>heads = h, used = Map.empty\<rparr>))))"

section \<open>The nodes of a page\<close>

text \<open>The page size is a power of two that leaves room for a node.\<close>

definition page_ok :: "nat \<Rightarrow> bool" where
  "page_ok pagesize \<longleftrightarrow> (\<exists>k. pagesize = 2 ^ k \<and> k < 64) \<and> sizeof_node_slab + sizeof_node_lru \<le> pagesize"

definition slab_at :: "nat \<Rightarrow> nat \<Rightarrow> bool" where
  "slab_at pagesize s \<longleftrightarrow> s mod pagesize = 0 \<and> s + pagesize \<le> 2 ^ 64"

definition nodes_of :: "nat \<Rightarrow> int \<Rightarrow> nat \<Rightarrow> nat list" where
  "nodes_of pagesize remember s =
     (let ns = get_node_size remember; num = (pagesize - sizeof_node_slab) div ns
      in map (\<lambda>i. s + pagesize - num * ns + i * ns) [0..<num])"

lemma node_size_pos: "0 < get_node_size r"
  by (simp add: get_node_size_def sizeof_node_def sizeof_node_lru_def)

lemma nodes_of_range:
  assumes "a \<in> set (nodes_of pg r s)"
  shows "s + sizeof_node_slab \<le> a \<and> a + get_node_size r \<le> s + pg"
proof -
  define ns num where "ns = get_node_size r" and "num = (pg - sizeof_node_slab) div ns"
  obtain i where i: "i < num" "a = s + pg - num * ns + i * ns"
    using assms by (auto simp: nodes_of_def Let_def ns_def num_def)
  have "num * ns \<le> pg - sizeof_node_slab" by (simp add: num_def)
  moreover have "i * ns + ns \<le> num * ns" using i(1) mult_le_mono1 [of "Suc i" num ns] by simp
  moreover have "0 < ns" using node_size_pos ns_def by simp
  then have "0 < num * ns" using i(1) by simp
  ultimately show ?thesis using i(2) unfolding ns_def [symmetric] by linarith
qed

lemma nodes_of_distinct: "distinct (nodes_of pg r s)"
  using node_size_pos [of r] by (auto simp: nodes_of_def Let_def distinct_map inj_on_def)

lemma nodes_of_nonempty: "page_ok pg \<Longrightarrow> nodes_of pg r s \<noteq> []"
  by (auto simp: nodes_of_def Let_def page_ok_def get_node_size_def sizeof_node_def sizeof_node_lru_def
      sizeof_node_slab_def div_eq_0_iff)

text \<open>Two nodes of a page do not overlap.\<close>

lemma nodes_of_apart:
  assumes "a \<in> set (nodes_of pg r s)" "b \<in> set (nodes_of pg r s)" "a < b"
  shows "a + get_node_size r \<le> b"
proof -
  define ns num where "ns = get_node_size r" and "num = (pg - sizeof_node_slab) div ns"
  obtain i j where ij: "a = s + pg - num * ns + i * ns" "b = s + pg - num * ns + j * ns"
    using assms(1,2) by (auto simp: nodes_of_def Let_def ns_def num_def)
  then have "i * ns < j * ns" using assms(3) by simp
  then have "Suc i * ns \<le> j * ns" by (intro mult_le_mono1) simp
  then show ?thesis using ij ns_def by simp
qed

lemma and_not_mask: "(x :: 64 word) AND NOT (mask k) = x - (x AND mask k)"
proof -
  have "(x AND mask k) + (x AND NOT (mask k)) = (x AND mask k) OR (x AND NOT (mask k))"
    by (rule disjunctive_add) (simp add: bit_simps)
  also have "\<dots> = x" by (rule bit_eqI) (auto simp: bit_simps)
  finally show ?thesis by (simp add: eq_diff_eq add.commute)
qed

lemma node_to_slab_page:
  assumes "page_ok pg" "slab_at pg s" "s \<le> a" "a < s + pg"
  shows "node_to_slab pg a = s"
proof -
  obtain k where k: "pg = 2 ^ k" "k < 64" using assms(1) by (auto simp: page_ok_def)
  have a: "a < 2 ^ 64" using assms(2,4) by (simp add: slab_at_def)
  have "(of_nat pg - 1 :: 64 word) = mask k" by (simp add: k(1) mask_eq_exp_minus_1)
  moreover have u: "unat (of_nat a :: 64 word) = a" using a by (simp add: unat_of_nat)
  then have "take_bit k (unat (of_nat a :: 64 word)) = a mod pg" by (simp add: k(1) take_bit_eq_mod)
  then have "unat ((of_nat a :: 64 word) AND mask k) = a mod pg"
    by (simp only: take_bit_eq_mask [symmetric] unsigned_take_bit_eq)
  moreover have "(of_nat a :: 64 word) AND mask k \<le> of_nat a" by (rule word_and_le2)
  ultimately have "node_to_slab pg a = a - a mod pg"
    by (simp add: node_to_slab_def and_not_mask unat_sub u)
  moreover have "a mod pg = a - s"
  proof -
    have "a = s + (a - s)" using assms(3) by simp
    then have "a mod pg = (a - s) mod pg" using assms(2) by (metis mod_add_left_eq add_0 slab_at_def)
    then show ?thesis using assms(3,4) by simp
  qed
  ultimately show ?thesis using assms(3) by simp
qed

lemma node_to_slab_node:
  "page_ok pg \<Longrightarrow> slab_at pg s \<Longrightarrow> a \<in> set (nodes_of pg r s) \<Longrightarrow> node_to_slab pg a = s"
  using nodes_of_range [of a pg r s] node_to_slab_page [of pg s a] node_size_pos [of r] by simp

lemma slab_at_unique:
  "page_ok pg \<Longrightarrow> slab_at pg s \<Longrightarrow> slab_at pg s' \<Longrightarrow> a \<in> set (nodes_of pg r s) \<Longrightarrow> a \<in> set (nodes_of pg r s') \<Longrightarrow> s = s'"
  using node_to_slab_node by metis

section \<open>The invariant\<close>

text \<open>
  The pages with free nodes and the full ones, in the order of their lists, the free nodes of
  each page, and the set \<open>A\<close> of the nodes that are in use.
\<close>

definition slab_ok :: "nat \<Rightarrow> int \<Rightarrow> slab_state \<Rightarrow> nat set \<Rightarrow> nat list \<Rightarrow> nat \<Rightarrow> bool" where
  "slab_ok pg r st A fr s \<longleftrightarrow> slab_at pg s \<and> dll (heads st) (FreeList s) (map NodeMem fr)
     \<and> set fr = set (nodes_of pg r s) - A \<and> used st s = Some (int (card (set (nodes_of pg r s) \<inter> A)))
     \<and> (\<forall>l. in_page pg s l \<longrightarrow> l \<in> dom (heads st))"

definition slabs_ok :: "nat \<Rightarrow> int \<Rightarrow> slab_state \<Rightarrow> nat set \<Rightarrow> nat list \<Rightarrow> nat list \<Rightarrow> (nat \<Rightarrow> nat list) \<Rightarrow> bool" where
  "slabs_ok pg r st A partial full fr \<longleftrightarrow>
     dll (heads st) PartialSlabs (map SlabList partial) \<and> dll (heads st) FullSlabs (map SlabList full)
     \<and> distinct (partial @ full) \<and> (\<forall>s \<in> set partial. fr s \<noteq> []) \<and> (\<forall>s \<in> set full. fr s = [])
     \<and> (\<forall>s \<in> set (partial @ full). slab_ok pg r st A (fr s) s)
     \<and> A \<subseteq> (\<Union>s \<in> set (partial @ full). set (nodes_of pg r s))"

definition slab_inv :: "nat \<Rightarrow> int \<Rightarrow> slab_state \<Rightarrow> nat set \<Rightarrow> bool" where
  "slab_inv pg r st A \<longleftrightarrow> page_ok pg \<and> (\<exists>partial full fr. slabs_ok pg r st A partial full fr
     \<and> (\<forall>s \<in> set (partial @ full). set (nodes_of pg r s) \<inter> A \<noteq> {}))"

text \<open>What \<open>mmap\<close> promises: a page of its own.\<close>

definition mmap_ok :: "nat \<Rightarrow> slab_state \<Rightarrow> nat option \<Rightarrow> bool" where
  "mmap_ok pg st mem \<longleftrightarrow> (\<forall>s. mem = Some s \<longrightarrow> slab_at pg s \<and> used st s = None)"

text \<open>The locations of the free list of a page.\<close>

definition slab_locs :: "nat \<Rightarrow> int \<Rightarrow> nat \<Rightarrow> loc set" where
  "slab_locs pg r s = insert (FreeList s) (NodeMem ` set (nodes_of pg r s))"

abbreviation ring_locs :: "loc set" where
  "ring_locs \<equiv> {PartialSlabs, FullSlabs} \<union> range SlabList"

lemma slab_locs_disjoint:
  "page_ok pg \<Longrightarrow> slab_at pg s \<Longrightarrow> slab_at pg s' \<Longrightarrow> s \<noteq> s' \<Longrightarrow> slab_locs pg r s \<inter> slab_locs pg r s' = {}"
  using slab_at_unique by (fastforce simp: slab_locs_def)

lemma slab_ok_fr: "slab_ok pg r st A fr s \<Longrightarrow> set (FreeList s # map NodeMem fr) \<subseteq> slab_locs pg r s"
  by (auto simp: slab_ok_def slab_locs_def)

text \<open>A page that an operation does not touch stays as it is.\<close>

lemma slab_ok_frame:
  assumes "slab_ok pg r st A fr s" "\<forall>l \<in> slab_locs pg r s. heads st' l = heads st l"
    and "\<forall>l. in_page pg s l \<longrightarrow> l \<in> dom (heads st) \<longrightarrow> l \<in> dom (heads st')"
    and "used st' s = used st s" "set (nodes_of pg r s) \<inter> A' = set (nodes_of pg r s) \<inter> A"
  shows "slab_ok pg r st' A' fr s"
proof -
  have "\<forall>l \<in> set (FreeList s # map NodeMem fr). heads st' l = heads st l"
    using slab_ok_fr [OF assms(1)] assms(2) by blast
  then have "dll (heads st') (FreeList s) (map NodeMem fr)"
    using dll_cong [of "FreeList s" "map NodeMem fr" "heads st'" "heads st"] assms(1) by (simp add: slab_ok_def)
  moreover have "set fr = set (nodes_of pg r s) - A'" using assms(1,5) by (auto simp: slab_ok_def)
  ultimately show ?thesis using assms(1,3,4,5) by (simp add: slab_ok_def)
qed

lemma slabs_okD:
  assumes "slabs_ok pg r st A partial full fr"
  shows "dll (heads st) PartialSlabs (map SlabList partial)" "dll (heads st) FullSlabs (map SlabList full)"
    and "distinct (partial @ full)" "s \<in> set partial \<Longrightarrow> fr s \<noteq> []" "s \<in> set full \<Longrightarrow> fr s = []"
    and "s \<in> set (partial @ full) \<Longrightarrow> slab_ok pg r st A (fr s) s"
    and "s \<in> set (partial @ full) \<Longrightarrow> slab_at pg s"
    and "a \<in> A \<Longrightarrow> \<exists>s \<in> set (partial @ full). a \<in> set (nodes_of pg r s)"
  using assms by (auto simp: slabs_ok_def slab_ok_def)

text \<open>
  An operation on one page: it may change the lists of pages and the free list of the page, and
  adds or takes nodes of that page.
\<close>

lemma slabs_ok_step:
  assumes "page_ok pg" "slabs_ok pg r st A partial full fr" "s \<in> set (partial @ full)"
    and "keeps S (heads st) (heads st')" "S \<subseteq> ring_locs \<union> slab_locs pg r s"
    and "dll (heads st') PartialSlabs (map SlabList partial')" "dll (heads st') FullSlabs (map SlabList full')"
    and "distinct (partial' @ full')" "set (partial' @ full') = set (partial @ full)"
    and "set partial' - {s} = set partial - {s}" "s \<in> set partial' \<longleftrightarrow> fs \<noteq> []"
    and "dll (heads st') (FreeList s) (map NodeMem fs)" "set fs = set (nodes_of pg r s) - A'"
    and "used st' = (used st)(s \<mapsto> int (card (set (nodes_of pg r s) \<inter> A')))"
    and "A' - set (nodes_of pg r s) = A - set (nodes_of pg r s)"
  shows "slabs_ok pg r st' A' partial' full' (fr(s := fs))"
proof -
  note ok = slabs_okD [OF assms(2)]
  have dom: "dom (heads st') = dom (heads st)" using assms(4) by (simp add: keeps_def)
  have "slab_ok pg r st' A' ((fr(s := fs)) t) t" if t': "t \<in> set (partial' @ full')" for t
  proof (cases "t = s")
    case True
    then show ?thesis using ok(6) [OF assms(3)] assms(12-14) dom by (simp add: slab_ok_def)
  next
    case False
    have t: "t \<in> set (partial @ full)" using t' assms(9) by blast
    have apart: "slab_locs pg r s \<inter> slab_locs pg r t = {}"
      using slab_locs_disjoint [OF assms(1)] ok(7) assms(3) t False by metis
    have "set (nodes_of pg r s) \<inter> set (nodes_of pg r t) = {}" using apart by (auto simp: slab_locs_def)
    then have n: "set (nodes_of pg r t) \<inter> A' = set (nodes_of pg r t) \<inter> A" using assms(15) by blast
    have "ring_locs \<inter> slab_locs pg r t = {}" by (auto simp: slab_locs_def)
    then have "\<forall>l \<in> slab_locs pg r t. l \<notin> S" using assms(5) apart by blast
    then have "slab_ok pg r st' A' (fr t) t"
      using slab_ok_frame [OF ok(6) [OF t]] n assms(4,14) dom False by (auto simp: keeps_def)
    then show ?thesis using False by simp
  qed
  moreover have "fr t \<noteq> []" if "t \<in> set partial'" "t \<noteq> s" for t using that assms(10) ok(4) by blast
  moreover have "fr t = []" if "t \<in> set full'" "t \<noteq> s" for t
  proof -
    have "t \<notin> set partial'" using that(1) assms(8) by auto
    then have "t \<in> set full" using that assms(9,10) by auto
    then show ?thesis by (rule ok(5))
  qed
  moreover have "fs \<noteq> []" if "s \<in> set partial'" using that assms(11) by simp
  moreover have "fs = []" if "s \<in> set full'" using that assms(8,11) by auto
  moreover have "A' \<subseteq> (\<Union>t \<in> set (partial' @ full'). set (nodes_of pg r t))"
  proof
    fix a assume "a \<in> A'"
    then have "a \<in> set (nodes_of pg r s) \<or> a \<in> A" using assms(15) by blast
    then show "a \<in> (\<Union>t \<in> set (partial' @ full'). set (nodes_of pg r t))" using ok(8) assms(3,9) by blast
  qed
  ultimately show ?thesis using assms(6-8) unfolding slabs_ok_def by simp
qed

section \<open>Taking a node\<close>

text \<open>The list heads that the list of forgotten nodes uses are left alone.\<close>

definition lru_kept :: "nat set \<Rightarrow> slab_state \<Rightarrow> slab_state \<Rightarrow> bool" where
  "lru_kept A st st' \<longleftrightarrow> heads st' LruTable = heads st LruTable \<and> (\<forall>b \<in> A. heads st' (NodeLru b) = heads st (NodeLru b))"

lemma keeps_lru: "keeps S (heads st) (heads st') \<Longrightarrow> S \<subseteq> ring_locs \<union> slab_locs pg r s \<Longrightarrow> lru_kept A st st'"
  by (auto simp: keeps_def lru_kept_def slab_locs_def)

lemma card_insert_nodes:
  "a \<in> set (nodes_of pg r s) \<Longrightarrow> a \<notin> A \<Longrightarrow>
     card (set (nodes_of pg r s) \<inter> insert a A) = Suc (card (set (nodes_of pg r s) \<inter> A))"
  by (simp add: Int_insert_right)

lemma card_remove_nodes:
  "a \<in> set (nodes_of pg r s) \<Longrightarrow> a \<in> A \<Longrightarrow>
     Suc (card (set (nodes_of pg r s) \<inter> (A - {a}))) = card (set (nodes_of pg r s) \<inter> A)"
  using card_Suc_Diff1 [of "set (nodes_of pg r s) \<inter> A" a] by (simp add: Int_Diff)

lemma ring_first: "dll h l (x # xs) \<Longrightarrow> \<exists>y. load_head h l = Inr y \<and> lnext y = x"
  by (cases "h l") (auto simp: dll_def load_head_def nx_def)

lemma on_heads_ok: "f (heads st) = Inr h \<Longrightarrow> on_heads f st = Inr (st\<lparr>heads := h\<rparr>)"
  by (simp add: on_heads_def)

lemma take_node_ok:
  assumes "page_ok pg" "slabs_ok pg r st A (s # partial) full fr"
  shows "\<exists>a st' partial' full' fr'. take_node st = Inr (Some a, st') \<and> a \<in> set (nodes_of pg r s) - A
    \<and> slabs_ok pg r st' (insert a A) partial' full' fr' \<and> set (partial' @ full') = set (s # partial @ full) \<and> lru_kept B st st'"
proof -
  note ok = slabs_okD [OF assms(2)]
  let ?h = "heads st" and ?n = "int (card (set (nodes_of pg r s) \<inter> A))"
  have s: "s \<in> set ((s # partial) @ full)" by simp
  have so: "slab_ok pg r st A (fr s) s" using ok(6) s by blast
  obtain a fs where fr: "fr s = a # fs" using ok(4) [of s] by (cases "fr s") auto
  have a: "a \<in> set (nodes_of pg r s) - A" using so fr by (auto simp: slab_ok_def)
  have u: "used st s = Some ?n" using so by (simp add: slab_ok_def)
  have d: "dll ?h (FreeList s) (NodeMem a # map NodeMem fs)" using so fr by (simp add: slab_ok_def)
  have fs: "a \<notin> set fs" "set fs = set (nodes_of pg r s) - insert a A"
    using dll_distinct [OF d] so fr by (auto simp: slab_ok_def)
  obtain p where p: "load_head ?h PartialSlabs = Inr p" "lnext p = SlabList s" using ring_first ok(1) by fastforce
  obtain fl where fl: "load_head ?h (FreeList s) = Inr fl" "lnext fl = NodeMem a" using ring_first [OF d] by blast
  obtain h1 where h1: "list_del (NodeMem a) ?h = Inr h1" "dll h1 (FreeList s) (map NodeMem fs)"
      "keeps (set (FreeList s # map NodeMem fs)) ?h h1"
    using list_del_spec [of ?h "FreeList s" "[]" "NodeMem a" "map NodeMem fs"] d by auto
  let ?S1 = "set (FreeList s # map NodeMem fs)"
  have S1: "?S1 \<subseteq> ring_locs \<union> slab_locs pg r s" using fs(2) by (auto simp: slab_locs_def)
  let ?u = "(used st)(s \<mapsto> ?n + 1)"
  have u': "?u = (used st)(s \<mapsto> int (card (set (nodes_of pg r s) \<inter> insert a A)))"
    using card_insert_nodes [of a pg r s A] a by (simp add: add.commute)
  have A: "insert a A - set (nodes_of pg r s) = A - set (nodes_of pg r s)" using a by auto
  have ring1: "dll h1 PartialSlabs (map SlabList (s # partial))" "dll h1 FullSlabs (map SlabList full)"
    by (rule keeps_ring [OF h1(3)], use ok in auto)+
  show ?thesis
  proof (cases "fs = []")
    case False
    let ?st = "st\<lparr>heads := h1, used := ?u\<rparr>"
    have "slabs_ok pg r ?st (insert a A) (s # partial) full (fr(s := fs))"
      by (rule slabs_ok_step [OF assms s, where S = ?S1]) (use h1 S1 ring1 ok(3) False fs u' A in simp_all)
    moreover have "take_node st = Inr (Some a, ?st)"
      using p fl h1(1) list_empty_spec [OF h1(2)] False u
      by (simp add: take_node_def list_to_slab_def on_heads_def Let_def)
    moreover have "lru_kept B st ?st" by (rule keeps_lru [OF _ S1]) (use h1 in simp)
    ultimately show ?thesis using a by fastforce
  next
    case True
    obtain h2 where h2: "list_del (SlabList s) h1 = Inr h2" "dll h2 PartialSlabs (map SlabList partial)"
        "keeps (set (PartialSlabs # map SlabList partial)) h1 h2"
      using list_del_spec [of h1 PartialSlabs "[]" "SlabList s" "map SlabList partial"] ring1 by auto
    have full2: "dll h2 FullSlabs (map SlabList full)" by (rule keeps_ring [OF h2(3) ring1(2)]) (use ok(3) in auto)
    have "SlabList s \<in> dom h2"
      using dll_dom [OF ring1(1)] h2(3) by (auto simp: keeps_def)
    then obtain h3 where h3: "list_add_tail (SlabList s) FullSlabs h2 = Inr h3" "dll h3 FullSlabs (map SlabList full @ [SlabList s])"
        "keeps (set (SlabList s # FullSlabs # map SlabList full)) h2 h3"
      using list_add_tail_spec [OF full2, of "SlabList s"] ok(3) by auto
    let ?S = "?S1 \<union> set (PartialSlabs # map SlabList partial) \<union> set (SlabList s # FullSlabs # map SlabList full)"
    have k: "keeps ?S ?h h3" using keeps_trans [OF keeps_trans [OF h1(3) h2(3)] h3(3)] .
    have S: "?S \<subseteq> ring_locs \<union> slab_locs pg r s" using S1 by auto
    have p3: "dll h3 PartialSlabs (map SlabList partial)" by (rule keeps_ring [OF h3(3) h2(2)]) (use ok(3) in auto)
    have f3: "dll h3 (FreeList s) (map NodeMem fs)"
      by (rule keeps_ring [OF keeps_trans [OF h2(3) h3(3)] h1(2)]) auto
    let ?st = "st\<lparr>heads := h3, used := ?u\<rparr>"
    have "slabs_ok pg r ?st (insert a A) partial (full @ [s]) (fr(s := fs))"
      by (rule slabs_ok_step [OF assms s, where S = ?S]) (use k S p3 h3 ok(3) True fs u' A f3 in auto)
    moreover have "take_node st = Inr (Some a, ?st)"
      using p fl h1(1) list_empty_spec [OF h1(2)] True u h2(1) h3(1)
      by (simp add: take_node_def list_to_slab_def on_heads_def Let_def)
    moreover have "lru_kept B st ?st" by (rule keeps_lru [OF _ S]) (use k in simp)
    ultimately show ?thesis using a by fastforce
  qed
qed

section \<open>A new page\<close>

lemma add_nodes_ok:
  assumes "dll h (FreeList s) (map NodeMem xs)" "distinct (xs @ map f is)" "\<forall>i \<in> set is. NodeMem (f i) \<in> dom h"
    and "\<And>i. f i = start + i * ns"
  shows "\<exists>h'. add_nodes s start ns is h = Inr h' \<and> dll h' (FreeList s) (map NodeMem (xs @ map f is))
    \<and> keeps (set (FreeList s # map NodeMem (xs @ map f is))) h h'"
  using assms(1-3)
proof (induction "is" arbitrary: xs h)
  case Nil
  then show ?case by (simp add: keeps_def)
next
  case (Cons i "is")
  obtain h1 where h1: "list_add_tail (NodeMem (f i)) (FreeList s) h = Inr h1" "dll h1 (FreeList s) (map NodeMem (xs @ [f i]))"
      "keeps (set (NodeMem (f i) # FreeList s # map NodeMem xs)) h h1"
    using list_add_tail_spec [OF Cons.prems(1), of "NodeMem (f i)"] Cons.prems by auto
  have "\<exists>h'. add_nodes s start ns is h1 = Inr h' \<and> dll h' (FreeList s) (map NodeMem ((xs @ [f i]) @ map f is))
      \<and> keeps (set (FreeList s # map NodeMem ((xs @ [f i]) @ map f is))) h1 h'"
    by (rule Cons.IH) (use h1 Cons.prems in \<open>auto simp: keeps_def\<close>)
  then obtain h' where h': "add_nodes s start ns is h1 = Inr h'" "dll h' (FreeList s) (map NodeMem ((xs @ [f i]) @ map f is))"
      "keeps (set (FreeList s # map NodeMem ((xs @ [f i]) @ map f is))) h1 h'" by blast
  have "keeps (set (FreeList s # map NodeMem (xs @ map f (i # is)))) h h'"
    using keeps_trans [OF h1(3) h'(3)] by (auto simp: keeps_def)
  moreover have "add_nodes s start ns (i # is) h = Inr h'" using h1(1) h'(1) by (simp add: assms(4))
  ultimately show ?case using h'(2) by auto
qed

lemma in_page_unique:
  assumes "page_ok pg" "slab_at pg s" "slab_at pg s'" "in_page pg s l" "in_page pg s' l"
  shows "s = s'"
proof -
  have "node_to_slab pg a = s" if "s \<le> a" "a < s + pg" for a using node_to_slab_page [OF assms(1,2) that] .
  moreover have "node_to_slab pg a = s'" if "s' \<le> a" "a < s' + pg" for a using node_to_slab_page [OF assms(1,3) that] .
  ultimately show ?thesis using assms(4,5) by (auto simp: in_page_def split: loc.splits)
qed

lemma slab_locs_page: "slab_locs pg r s \<subseteq> Collect (in_page pg s)"
proof
  fix l assume "l \<in> slab_locs pg r s"
  then show "l \<in> Collect (in_page pg s)"
    using nodes_of_range [of _ pg r s] node_size_pos [of r] by (force simp: slab_locs_def in_page_def)
qed

lemma node_lru_page: "a \<in> set (nodes_of pg r s) \<Longrightarrow> in_page pg s (NodeLru a)"
  using nodes_of_range [of a pg r s] node_size_pos [of r] by (simp add: in_page_def)

lemma alloc_slab_ok:
  assumes "page_ok pg" "slabs_ok pg r st A [] full fr" "slab_at pg s" "used st s = None"
  shows "\<exists>st'. alloc_slab pg r (Some s) st = Inr (0, st') \<and> slabs_ok pg r st' A [s] full (fr(s := nodes_of pg r s))
    \<and> set (nodes_of pg r s) \<inter> A = {} \<and> s \<notin> set full \<and> lru_kept A st st'"
proof -
  note ok = slabs_okD [OF assms(2)]
  define st0 where "st0 = map_page pg s st"
  define ns num where "ns = get_node_size r" and "num = (pg - sizeof_node_slab) div ns"
  define f where "f i = s + pg - num * ns + i * ns" for i
  have nodes: "nodes_of pg r s = map f [0..<num]" by (simp add: nodes_of_def Let_def f_def num_def ns_def)
  have s: "s \<notin> set full" using ok(6) assms(4) by (fastforce simp: slab_ok_def)
  have outside: "\<not> in_page pg s l" if "t \<in> set full" "in_page pg t l" for t l
    using in_page_unique [OF assms(1,3) ok(7)] that s by auto
  have new: "set (nodes_of pg r s) \<inter> A = {}"
    using ok(7,8) s slab_at_unique [OF assms(1,3)] by fastforce
  have page: "in_page pg s l \<Longrightarrow> l \<in> dom (heads st0)" for l by (simp add: st0_def map_page_def dom_def)
  obtain h1 where h1: "init_list_head (FreeList s) (heads st0) = Inr h1" "dll h1 (FreeList s) []" "keeps {FreeList s} (heads st0) h1"
    using list_init_spec [OF page [of "FreeList s"]] by (auto simp: in_page_def)
  have "NodeMem a \<in> dom h1" if "a \<in> set (nodes_of pg r s)" for a
    using page [of "NodeMem a"] slab_locs_page [of pg r s] h1(3) that by (auto simp: slab_locs_def keeps_def)
  then have "\<forall>i \<in> set [0..<num]. NodeMem (f i) \<in> dom h1" unfolding nodes by simp
  moreover have "distinct (map f [0..<num])" using nodes_of_distinct [of pg r s] nodes by simp
  ultimately obtain h2 where h2: "add_nodes s (f 0) ns [0..<num] h1 = Inr h2" "dll h2 (FreeList s) (map NodeMem (nodes_of pg r s))"
      "keeps (set (FreeList s # map NodeMem (nodes_of pg r s))) h1 h2"
    using add_nodes_ok [of h1 s "[]" f "[0..<num]" "f 0" ns] h1(2) unfolding nodes by (auto simp: f_def)
  have k: "keeps (slab_locs pg r s) (heads st0) h2"
    using keeps_trans [OF h1(3) h2(3)] by (simp add: slab_locs_def insert_absorb)
  have p2: "dll h2 PartialSlabs (map SlabList [])"
  proof -
    have "h2 PartialSlabs = heads st PartialSlabs" 
      using keeps_at [OF k, of PartialSlabs] by (auto simp: slab_locs_def st0_def map_page_def in_page_def)
    then show ?thesis using ok(1) dll_cong [of PartialSlabs "[]" h2 "heads st"] by simp
  qed
  have "SlabList s \<in> dom h2" using k page [of "SlabList s"] by (auto simp: keeps_def in_page_def)
  then obtain h3 where h3: "list_add_tail (SlabList s) PartialSlabs h2 = Inr h3" "dll h3 PartialSlabs [SlabList s]"
      "keeps {SlabList s, PartialSlabs} h2 h3"
    using list_add_tail_spec [OF p2, of "SlabList s"] by auto
  define st' where "st' = st0\<lparr>heads := h3, used := (used st)(s \<mapsto> 0)\<rparr>"
  have k3: "keeps (slab_locs pg r s \<union> {SlabList s, PartialSlabs}) (heads st0) h3" using keeps_trans [OF k h3(3)] .
  have same: "heads st' l = heads st l" if "\<not> in_page pg s l" "l \<noteq> PartialSlabs" for l
  proof -
    have "in_page pg s (SlabList s)" by (simp add: in_page_def)
    then have "l \<notin> slab_locs pg r s \<union> {SlabList s, PartialSlabs}" using that slab_locs_page by blast
    then show ?thesis using k3 that by (simp add: keeps_def st'_def st0_def map_page_def)
  qed
  have "alloc_slab pg r (Some s) st = Inr (0, st')"
    using h1(1) h2(1) h3(1)
    by (simp add: alloc_slab_def on_heads_def Let_def st'_def st0_def f_def num_def ns_def map_page_def)
  moreover have "slab_ok pg r st' A (nodes_of pg r s) s"
  proof -
    have "dll h3 (FreeList s) (map NodeMem (nodes_of pg r s))"
      by (rule keeps_ring [OF h3(3) h2(2)]) auto
    moreover have "dom h3 = dom (heads st0)" using k3 by (simp add: keeps_def)
    ultimately show ?thesis using assms(3) new page by (auto simp: slab_ok_def st'_def)
  qed
  moreover have "slab_ok pg r st' A (fr t) t" if "t \<in> set full" for t
  proof (rule slab_ok_frame)
    show "slab_ok pg r st A (fr t) t" using ok(6) that by simp
    show "\<forall>l \<in> slab_locs pg r t. heads st' l = heads st l"
    proof
      fix l assume l: "l \<in> slab_locs pg r t"
      then have "in_page pg t l" "l \<noteq> PartialSlabs" using slab_locs_page by (blast, auto simp: slab_locs_def)
      then show "heads st' l = heads st l" using same outside [OF that] by blast
    qed
    show "\<forall>l. in_page pg t l \<longrightarrow> l \<in> dom (heads st) \<longrightarrow> l \<in> dom (heads st')"
    proof (intro allI impI)
      fix l assume l: "in_page pg t l" "l \<in> dom (heads st)"
      then have "l \<noteq> PartialSlabs" by (auto simp: in_page_def)
      then show "l \<in> dom (heads st')" using same [of l] outside [OF that l(1)] l(2) by (simp add: dom_def)
    qed
    show "used st' t = used st t" using that s by (auto simp: st'_def)
  qed simp
  moreover have "dll (heads st') FullSlabs (map SlabList full)"
  proof -
    have "heads st' FullSlabs = heads st FullSlabs" using same [of FullSlabs] by (simp add: in_page_def)
    moreover have "\<forall>t \<in> set full. heads st' (SlabList t) = heads st (SlabList t)"
    proof
      fix t assume "t \<in> set full"
      then show "heads st' (SlabList t) = heads st (SlabList t)" using s same [of "SlabList t"] by (auto simp: in_page_def)
    qed
    ultimately show ?thesis using dll_cong [of FullSlabs "map SlabList full" "heads st'" "heads st"] ok(2) by simp
  qed
  moreover have "nodes_of pg r s \<noteq> []" using nodes_of_nonempty [OF assms(1)] .
  ultimately have "slabs_ok pg r st' A [s] full (fr(s := nodes_of pg r s))"
    using ok s h3(2) unfolding slabs_ok_def by (auto simp: st'_def)
  moreover have "lru_kept A st st'"
  proof -
    have "\<not> in_page pg s (NodeLru b)" if b: "b \<in> A" for b
    proof -
      obtain t where "t \<in> set full" "b \<in> set (nodes_of pg r t)" using ok(8) [OF b] by auto
      then show ?thesis using outside node_lru_page by blast
    qed
    then show ?thesis using same by (simp add: lru_kept_def in_page_def)
  qed
  ultimately show ?thesis using \<open>alloc_slab pg r (Some s) st = Inr (0, st')\<close> new s by blast
qed

section \<open>The allocator as a set of nodes\<close>

lemma pages_apart:
  assumes "slab_at pg s" "slab_at pg t" "s < t"
  shows "s + pg \<le> t"
proof -
  obtain i j where ij: "s = pg * i" "t = pg * j" using assms(1,2) by (auto simp: slab_at_def mod_eq_0_iff_dvd elim!: dvdE)
  then have "Suc i \<le> j" using assms(3) by (metis Suc_leI mult_less_cancel1)
  then have "pg * Suc i \<le> pg * j" by (rule mult_le_mono2)
  then show ?thesis using ij by (simp add: add.commute)
qed

definition apart :: "nat \<Rightarrow> nat \<Rightarrow> nat \<Rightarrow> bool" where
  "apart n a b \<longleftrightarrow> a + n \<le> b \<or> b + n \<le> a"

lemma slabs_apart:
  assumes "slabs_ok pg r st A partial full fr" "a \<in> A" "b \<in> A" "a \<noteq> b"
  shows "apart (get_node_size r) a b"
proof -
  note ok = slabs_okD [OF assms(1)]
  obtain s t where s: "slab_at pg s" "a \<in> set (nodes_of pg r s)" and t: "slab_at pg t" "b \<in> set (nodes_of pg r t)"
    using ok(7,8) assms(2,3) by meson
  have le: "s \<le> a" "a + get_node_size r \<le> s + pg" "t \<le> b" "b + get_node_size r \<le> t + pg"
    using nodes_of_range [OF s(2)] nodes_of_range [OF t(2)] by auto
  consider "s < t" | "t < s" | "s = t" "a < b" | "s = t" "b < a" using assms(4) by linarith
  then show ?thesis
  proof cases
    case 1
    then show ?thesis using pages_apart [OF s(1) t(1)] le by (simp add: apart_def)
  next
    case 2
    then show ?thesis using pages_apart [OF t(1) s(1)] le by (simp add: apart_def)
  next
    case 3
    then show ?thesis using nodes_of_apart [OF s(2)] t(2) by (simp add: apart_def)
  next
    case 4
    then show ?thesis using nodes_of_apart [OF t(2)] s(2) by (simp add: apart_def)
  qed
qed

lemma slab_inv_take:
  assumes "page_ok pg" "slabs_ok pg r st A (s # partial) full fr"
    and "\<forall>t \<in> set (partial @ full). set (nodes_of pg r t) \<inter> A \<noteq> {}"
  shows "\<exists>a st'. take_node st = Inr (Some a, st') \<and> a \<notin> A \<and> slab_inv pg r st' (insert a A) \<and> lru_kept A st st'"
proof -
  obtain a st' partial' full' fr' where t: "take_node st = Inr (Some a, st')" "a \<in> set (nodes_of pg r s) - A"
      "slabs_ok pg r st' (insert a A) partial' full' fr'" "set (partial' @ full') = set (s # partial @ full)" "lru_kept A st st'"
    using take_node_ok [OF assms(1,2), of A] by blast
  have "\<forall>t \<in> set (partial' @ full'). set (nodes_of pg r t) \<inter> insert a A \<noteq> {}" using t(2,4) assms(3) by auto
  then show ?thesis using t assms(1) unfolding slab_inv_def by blast
qed

lemma alloc_node_ok:
  assumes "slab_inv pg r st A" "mmap_ok pg st mem"
  shows "\<exists>res st'. alloc_node pg r mem st = Inr (res, st') \<and> lru_kept A st st'
    \<and> (case res of None \<Rightarrow> mem = None \<and> st' = st | Some a \<Rightarrow> a \<notin> A \<and> slab_inv pg r st' (insert a A))"
proof -
  obtain partial full fr where inv: "page_ok pg" "slabs_ok pg r st A partial full fr"
      "\<forall>s \<in> set (partial @ full). set (nodes_of pg r s) \<inter> A \<noteq> {}"
    using assms(1) by (auto simp: slab_inv_def)
  have e: "list_empty PartialSlabs (heads st) = Inr (partial = [])"
    using list_empty_spec [OF slabs_okD(1) [OF inv(2)]] by simp
  show ?thesis
  proof (cases partial)
    case (Cons s partial')
    then have "slabs_ok pg r st A (s # partial') full fr" "\<forall>t \<in> set (partial' @ full). set (nodes_of pg r t) \<inter> A \<noteq> {}"
      using inv by auto
    then show ?thesis using slab_inv_take [OF inv(1)] e Cons by (fastforce simp: alloc_node_def)
  next
    case Nil
    show ?thesis
    proof (cases mem)
      case None
      then show ?thesis using e Nil by (auto simp: alloc_node_def alloc_slab_def lru_kept_def)
    next
      case (Some s)
      then have s: "slab_at pg s" "used st s = None" using assms(2) by (auto simp: mmap_ok_def)
      obtain st1 where st1: "alloc_slab pg r (Some s) st = Inr (0, st1)" "slabs_ok pg r st1 A [s] full (fr(s := nodes_of pg r s))"
          "lru_kept A st st1"
        using alloc_slab_ok [OF inv(1) _ s] inv(2) Nil by metis
      have "\<forall>t \<in> set ([] @ full). set (nodes_of pg r t) \<inter> A \<noteq> {}" using inv(3) by simp
      then obtain a st2 where "take_node st1 = Inr (Some a, st2)" "a \<notin> A" "slab_inv pg r st2 (insert a A)" "lru_kept A st1 st2"
        using slab_inv_take [OF inv(1) st1(2)] by blast
      then show ?thesis using st1 e Nil Some by (auto simp: alloc_node_def lru_kept_def)
    qed
  qed
qed

section \<open>Giving a node back\<close>

text \<open>The ring that a page is on, and what taking it off leaves.\<close>

lemma page_off:
  assumes "slabs_ok pg r st A partial full fr" "s \<in> set (partial @ full)"
  shows "\<exists>h. list_del (SlabList s) (heads st) = Inr h \<and> dll h PartialSlabs (map SlabList (remove1 s partial))
    \<and> dll h FullSlabs (map SlabList (remove1 s full)) \<and> keeps (ring_locs - {SlabList s}) (heads st) h"
proof -
  note ok = slabs_okD [OF assms(1)]
  have del: "\<exists>h. list_del (SlabList s) (heads st) = Inr h \<and> dll h ring (map SlabList (remove1 s xs))
      \<and> dll h ring' (map SlabList ys) \<and> keeps (ring_locs - {SlabList s}) (heads st) h"
    if x: "dll (heads st) ring (map SlabList xs)" "dll (heads st) ring' (map SlabList ys)" "s \<in> set xs"
      "distinct (xs @ ys)" "ring \<in> {PartialSlabs, FullSlabs}" "ring' \<in> {PartialSlabs, FullSlabs}" "ring \<noteq> ring'" for ring ring' xs ys
  proof -
    obtain us vs where uv: "xs = us @ s # vs" using x(3) by (metis split_list)
    then have r: "remove1 s xs = us @ vs" using x(4) by (simp add: remove1_append)
    obtain h where h: "list_del (SlabList s) (heads st) = Inr h" "dll h ring (map SlabList (us @ vs))"
        "keeps (set (ring # map SlabList (us @ vs))) (heads st) h"
      using list_del_spec [of "heads st" ring "map SlabList us" "SlabList s" "map SlabList vs"] x(1) uv by auto
    have "dll h ring' (map SlabList ys)" by (rule keeps_ring [OF h(3) x(2)]) (use x uv in auto)
    moreover have "keeps (ring_locs - {SlabList s}) (heads st) h"
      using h(3) x(4,5) uv by (auto simp: keeps_def)
    ultimately show ?thesis using h r by auto
  qed
  consider "s \<in> set partial" "s \<notin> set full" | "s \<in> set full" "s \<notin> set partial" using assms(2) ok(3) by auto
  then show ?thesis
  proof cases
    case 1
    then show ?thesis using del [OF ok(1,2)] ok(3) by (simp add: remove1_idem)
  next
    case 2
    then show ?thesis using del [OF ok(2,1)] ok(3) by (auto simp: remove1_idem)
  qed
qed

text \<open>The page gets its first free node back: it moves to the list of pages with free nodes.\<close>

lemma page_reopen:
  assumes "slabs_ok pg r st A partial full fr" "s \<in> set (partial @ full)"
  shows "\<exists>h partial' full'.
    (if fr s = [] then bindc (on_heads (list_del (SlabList s)) st) (on_heads (list_add_tail (SlabList s) PartialSlabs)) else Inr st)
      = Inr (st\<lparr>heads := h\<rparr>)
    \<and> dll h PartialSlabs (map SlabList partial') \<and> dll h FullSlabs (map SlabList full') \<and> distinct (partial' @ full')
    \<and> set (partial' @ full') = set (partial @ full) \<and> s \<in> set partial' \<and> set partial' - {s} = set partial - {s}
    \<and> keeps ring_locs (heads st) h"
proof (cases "fr s = []")
  case False
  then have "s \<in> set partial" using assms slabs_okD(5) [OF assms(1), of s] by auto
  then show ?thesis using False slabs_okD(1-3) [OF assms(1)]
    by (intro exI [of _ "heads st"] exI [of _ partial] exI [of _ full]) (simp add: keeps_def)
next
  case True
  note ok = slabs_okD [OF assms(1)]
  have s: "s \<in> set full" "s \<notin> set partial" using True assms(2) ok(4) by auto
  obtain h1 where h1: "list_del (SlabList s) (heads st) = Inr h1" "dll h1 PartialSlabs (map SlabList partial)"
      "dll h1 FullSlabs (map SlabList (remove1 s full))" "keeps (ring_locs - {SlabList s}) (heads st) h1"
    using page_off [OF assms] s(2) by (auto simp: remove1_idem)
  have "SlabList s \<in> dom h1" using dll_dom [OF ok(2)] s(1) h1(4) by (auto simp: keeps_def)
  then obtain h2 where h2: "list_add_tail (SlabList s) PartialSlabs h1 = Inr h2" "dll h2 PartialSlabs (map SlabList (partial @ [s]))"
      "keeps (set (SlabList s # PartialSlabs # map SlabList partial)) h1 h2"
    using list_add_tail_spec [OF h1(2), of "SlabList s"] s(2) by auto
  have "dll h2 FullSlabs (map SlabList (remove1 s full))"
    by (rule keeps_ring [OF h2(3) h1(3)]) (use ok(3) in \<open>auto dest: notin_set_remove1\<close>)
  moreover have "keeps ring_locs (heads st) h2" by (rule keeps_mono [OF keeps_trans [OF h1(4) h2(3)]]) auto
  moreover have "distinct ((partial @ [s]) @ remove1 s full)" "set ((partial @ [s]) @ remove1 s full) = set (partial @ full)"
    using ok(3) s by (auto simp: set_remove1_eq)
  ultimately show ?thesis using True h1(1) h2 s
    by (intro exI [of _ h2] exI [of _ "partial @ [s]"] exI [of _ "remove1 s full"]) (auto simp: on_heads_def)
qed

lemma slabs_ok_used: "slabs_ok pg r st A partial full fr \<Longrightarrow> s \<in> set (partial @ full) \<Longrightarrow>
    used st s = Some (int (card (set (nodes_of pg r s) \<inter> A)))"
  by (auto simp: slabs_ok_def slab_ok_def)

lemma free_node_more:
  assumes "page_ok pg" "slabs_ok pg r st A partial full fr" "s \<in> set (partial @ full)" "a \<in> set (nodes_of pg r s)" "a \<in> A"
    and "card (set (nodes_of pg r s) \<inter> A) \<noteq> 1"
  shows "\<exists>st' partial' full' fr'. free_node_mem pg unmapped a st = Inr st' \<and> slabs_ok pg r st' (A - {a}) partial' full' fr'
    \<and> set (partial' @ full') = set (partial @ full) \<and> lru_kept B st st'"
proof -
  note ok = slabs_okD [OF assms(2)]
  let ?n = "int (card (set (nodes_of pg r s) \<inter> A))"
  define u where "u = (used st)(s \<mapsto> ?n - 1)"
  define st0 where "st0 = st\<lparr>used := u\<rparr>"
  have so: "slab_ok pg r st A (fr s) s" using ok(6) assms(3) by blast
  obtain h1 partial' full' where
    m: "(if fr s = [] then bindc (on_heads (list_del (SlabList s)) st) (on_heads (list_add_tail (SlabList s) PartialSlabs)) else Inr st)
      = Inr (st\<lparr>heads := h1\<rparr>)" and
    r: "dll h1 PartialSlabs (map SlabList partial')" "dll h1 FullSlabs (map SlabList full')" "distinct (partial' @ full')"
      "set (partial' @ full') = set (partial @ full)" "s \<in> set partial'" "set partial' - {s} = set partial - {s}"
      "keeps ring_locs (heads st) h1"
    using page_reopen [OF assms(2,3)] by blast
  have f1: "dll h1 (FreeList s) (map NodeMem (fr s))"
    by (rule keeps_ring [OF r(7)]) (use so in \<open>auto simp: slab_ok_def\<close>)
  have "NodeMem a \<in> dom h1"
    using so r(7) slab_locs_page [of pg r s] assms(4) by (auto simp: slab_ok_def keeps_def slab_locs_def)
  moreover have a: "a \<notin> set (fr s)" using so assms(5) by (simp add: slab_ok_def)
  ultimately obtain h2 where h2: "list_add_head (NodeMem a) (FreeList s) h1 = Inr h2" "dll h2 (FreeList s) (map NodeMem (a # fr s))"
      "keeps (set (NodeMem a # FreeList s # map NodeMem (fr s))) h1 h2"
    using list_add_head_spec [OF f1, of "NodeMem a"] by auto
  let ?S = "ring_locs \<union> set (NodeMem a # FreeList s # map NodeMem (fr s))"
  have k: "keeps ?S (heads st) h2" using keeps_trans [OF r(7) h2(3)] .
  have S: "?S \<subseteq> ring_locs \<union> slab_locs pg r s" using so assms(4) by (auto simp: slab_locs_def slab_ok_def)
  have rings: "dll h2 PartialSlabs (map SlabList partial')" "dll h2 FullSlabs (map SlabList full')"
    by (rule keeps_ring [OF h2(3)], use r in auto)+
  let ?st = "st\<lparr>heads := h2, used := u\<rparr>"
  have "slabs_ok pg r ?st (A - {a}) partial' full' (fr(s := a # fr s))"
    by (rule slabs_ok_step [OF assms(1-3), where S = ?S])
      (use k S rings r(3-6) h2(2) so assms(4,5) card_remove_nodes [OF assms(4,5)] in \<open>auto simp: u_def slab_ok_def\<close>)
  moreover have "free_node_mem pg unmapped a st = Inr ?st"
  proof -
    have e: "list_empty (FreeList s) (heads st) = Inr (fr s = [])"
      using list_empty_spec [of "heads st" "FreeList s" "map NodeMem (fr s)"] so by (simp add: slab_ok_def)
    have m0: "(if fr s = [] then bindc (on_heads (list_del (SlabList s)) st0) (on_heads (list_add_tail (SlabList s) PartialSlabs)) else Inr st0)
      = Inr (st0\<lparr>heads := h1\<rparr>)"
      using m by (cases st) (auto simp: st0_def on_heads_def bindc_eq_Inr split: if_splits)
    have "free_node_mem pg unmapped a st = bindc (list_empty (FreeList s) (heads st0)) (\<lambda>e.
        bindc (if e then bindc (on_heads (list_del (SlabList s)) st0) (on_heads (list_add_tail (SlabList s) PartialSlabs)) else Inr st0)
          (on_heads (list_add_head (NodeMem a) (FreeList s))))"
      using assms(6) slabs_ok_used [OF assms(2,3)] node_to_slab_node [OF assms(1) ok(7) [OF assms(3)] assms(4)]
      unfolding st0_def u_def by (simp add: free_node_mem_def Let_def)
    also have "\<dots> = on_heads (list_add_head (NodeMem a) (FreeList s)) (st0\<lparr>heads := h1\<rparr>)"
      using e m0 by (simp add: st0_def)
    also have "\<dots> = Inr ?st" using h2(1) by (simp add: on_heads_def st0_def)
    finally show ?thesis .
  qed
  moreover have "lru_kept B st ?st" by (rule keeps_lru [OF _ S]) (use k in simp)
  ultimately show ?thesis using r(4) by blast
qed

text \<open>The last node of a page: the page goes back to the system.\<close>

lemma free_node_last:
  assumes "page_ok pg" "slabs_ok pg r st A partial full fr" "s \<in> set (partial @ full)"
    and "set (nodes_of pg r s) \<inter> A = {a}"
  shows "\<exists>st'. free_node_mem pg unmapped a st = Inr st' \<and> slabs_ok pg r st' (A - {a}) (remove1 s partial) (remove1 s full) fr
    \<and> lru_kept (A - {a}) st st'"
proof -
  note ok = slabs_okD [OF assms(2)]
  have a: "a \<in> set (nodes_of pg r s)" "a \<in> A" using assms(4) by auto
  obtain h where h: "list_del (SlabList s) (heads st) = Inr h" "dll h PartialSlabs (map SlabList (remove1 s partial))"
      "dll h FullSlabs (map SlabList (remove1 s full))" "keeps (ring_locs - {SlabList s}) (heads st) h"
    using page_off [OF assms(2,3)] by blast
  define st1 where "st1 = st\<lparr>used := (used st)(s \<mapsto> 0), heads := h\<rparr>"
  define st' where "st' = (if unmapped then unmap_page pg s st1 else st1)"
  have "free_node_mem pg unmapped a st = Inr st'"
    using slabs_ok_used [OF assms(2,3)] node_to_slab_node [OF assms(1) ok(7) [OF assms(3)] a(1)] h(1) assms(4)
    by (simp add: free_node_mem_def free_slab_def Let_def on_heads_def st'_def st1_def)
  moreover have out: "heads st' l = h l" if "\<not> in_page pg s l" for l
    using that by (simp add: st'_def st1_def unmap_page_def)
  have u: "used st' t = used st t" if "t \<noteq> s" for t using that by (simp add: st'_def st1_def unmap_page_def)
  have outside: "\<not> in_page pg s l" if "t \<in> set (partial @ full)" "t \<noteq> s" "in_page pg t l" for t l
    using in_page_unique [OF assms(1) ok(7) [OF assms(3)] ok(7) [OF that(1)]] that by auto
  have rest: "t \<in> set (partial @ full) \<and> t \<noteq> s" if "t \<in> set (remove1 s partial @ remove1 s full)" for t
    using that ok(3) by (auto simp: set_remove1_eq)
  have rings: "dll (heads st') ring (map SlabList xs)"
    if "dll h ring (map SlabList xs)" "ring \<in> {PartialSlabs, FullSlabs}" "s \<notin> set xs" for ring xs
  proof -
    have "\<forall>l \<in> set (ring # map SlabList xs). heads st' l = h l" using that(2,3) by (auto simp: in_page_def intro!: out)
    then show ?thesis using dll_cong that(1) by metis
  qed
  have "slab_ok pg r st' (A - {a}) (fr t) t" if t: "t \<in> set (remove1 s partial @ remove1 s full)" for t
  proof (rule slab_ok_frame)
    note t' = rest [OF t]
    show "slab_ok pg r st A (fr t) t" using ok(6) t' by blast
    show "\<forall>l \<in> slab_locs pg r t. heads st' l = heads st l"
    proof
      fix l assume l: "l \<in> slab_locs pg r t"
      then have "in_page pg t l" using slab_locs_page by blast
      then have "heads st' l = h l" using outside t' out by blast
      moreover have "h l = heads st l" by (rule keeps_at [OF h(4)]) (use l in \<open>auto simp: slab_locs_def\<close>)
      ultimately show "heads st' l = heads st l" by simp
    qed
    show "\<forall>l. in_page pg t l \<longrightarrow> l \<in> dom (heads st) \<longrightarrow> l \<in> dom (heads st')"
    proof (intro allI impI)
      fix l assume l: "in_page pg t l" "l \<in> dom (heads st)"
      then have "heads st' l = h l" using outside t' out by blast
      moreover have "l \<in> dom h" using l(2) h(4) by (simp add: keeps_def)
      ultimately show "l \<in> dom (heads st')" by (simp add: dom_def)
    qed
    show "used st' t = used st t" using u t' by blast
    have "a \<notin> set (nodes_of pg r t)" using slab_at_unique [OF assms(1) ok(7) [OF assms(3)] ok(7) a(1)] t' by blast
    then show "set (nodes_of pg r t) \<inter> (A - {a}) = set (nodes_of pg r t) \<inter> A" by auto
  qed
  moreover have "A - {a} \<subseteq> (\<Union>t \<in> set (remove1 s partial @ remove1 s full). set (nodes_of pg r t))"
  proof
    fix b assume b: "b \<in> A - {a}"
    then obtain t where t: "t \<in> set (partial @ full)" "b \<in> set (nodes_of pg r t)" using ok(8) by blast
    then have "t \<noteq> s" using assms(4) b by auto
    then have "t \<in> set (remove1 s partial @ remove1 s full)" using t(1) by (auto simp: set_remove1_eq)
    then show "b \<in> (\<Union>t \<in> set (remove1 s partial @ remove1 s full). set (nodes_of pg r t))" using t(2) by blast
  qed
  moreover have "distinct (remove1 s partial @ remove1 s full)" using ok(3) by (auto dest: notin_set_remove1)
  moreover have "dll (heads st') PartialSlabs (map SlabList (remove1 s partial))" "dll (heads st') FullSlabs (map SlabList (remove1 s full))"
    by (rule rings, use h ok(3) in auto)+
  ultimately have "slabs_ok pg r st' (A - {a}) (remove1 s partial) (remove1 s full) fr"
    using ok(4,5) unfolding slabs_ok_def by (meson notin_set_remove1)
  moreover have "lru_kept (A - {a}) st st'"
  proof -
    have "heads st' (NodeLru b) = heads st (NodeLru b)" if b: "b \<in> A - {a}" for b
    proof -
      obtain t where t: "t \<in> set (partial @ full)" "b \<in> set (nodes_of pg r t)" using ok(8) b by blast
      moreover have "t \<noteq> s" using t assms(4) b by auto
      ultimately have "heads st' (NodeLru b) = h (NodeLru b)" using outside node_lru_page out by blast
      then show ?thesis using keeps_at [OF h(4), of "NodeLru b"] by auto
    qed
    moreover have "heads st' LruTable = heads st LruTable"
      using out [of LruTable] keeps_at [OF h(4), of LruTable] by (auto simp: in_page_def)
    ultimately show ?thesis by (simp add: lru_kept_def)
  qed
  ultimately show ?thesis using \<open>free_node_mem pg unmapped a st = Inr st'\<close> by blast
qed

lemma free_node_mem_ok:
  assumes "slab_inv pg r st A" "a \<in> A"
  shows "\<exists>st'. free_node_mem pg unmapped a st = Inr st' \<and> slab_inv pg r st' (A - {a}) \<and> lru_kept (A - {a}) st st'"
proof -
  obtain partial full fr where inv: "page_ok pg" "slabs_ok pg r st A partial full fr"
      "\<forall>s \<in> set (partial @ full). set (nodes_of pg r s) \<inter> A \<noteq> {}"
    using assms(1) by (auto simp: slab_inv_def)
  note ok = slabs_okD [OF inv(2)]
  obtain s where s: "s \<in> set (partial @ full)" "a \<in> set (nodes_of pg r s)" using ok(8) assms(2) by blast
  have other: "set (nodes_of pg r t) \<inter> (A - {a}) \<noteq> {}" if "t \<in> set (partial @ full)" "t \<noteq> s" for t
  proof -
    have "a \<notin> set (nodes_of pg r t)" using slab_at_unique [OF inv(1) ok(7) [OF s(1)] ok(7) s(2)] that by blast
    then show ?thesis using inv(3) that(1) by blast
  qed
  show ?thesis
  proof (cases "card (set (nodes_of pg r s) \<inter> A) = 1")
    case True
    then have "set (nodes_of pg r s) \<inter> A = {a}" using s(2) assms(2) by (metis IntI card_1_singletonE singletonD)
    then obtain st' where st': "free_node_mem pg unmapped a st = Inr st'"
        "slabs_ok pg r st' (A - {a}) (remove1 s partial) (remove1 s full) fr" "lru_kept (A - {a}) st st'"
      using free_node_last [OF inv(1,2) s(1)] by blast
    have "\<forall>t \<in> set (remove1 s partial @ remove1 s full). set (nodes_of pg r t) \<inter> (A - {a}) \<noteq> {}"
      using other ok(3) by (auto simp: set_remove1_eq)
    then show ?thesis using st' inv(1) unfolding slab_inv_def by blast
  next
    case False
    obtain st' partial' full' fr' where st': "free_node_mem pg unmapped a st = Inr st'"
        "slabs_ok pg r st' (A - {a}) partial' full' fr'" "set (partial' @ full') = set (partial @ full)" "lru_kept (A - {a}) st st'"
      using free_node_more [OF inv(1,2) s assms(2) False, of unmapped "A - {a}"] by blast
    have "set (nodes_of pg r s) \<inter> (A - {a}) \<noteq> {}"
      using card_remove_nodes [OF s(2) assms(2)] False by (metis card.empty One_nat_def)
    then have "\<forall>t \<in> set (partial' @ full'). set (nodes_of pg r t) \<inter> (A - {a}) \<noteq> {}" using other st'(3) by metis
    then show ?thesis using st' inv(1) unfolding slab_inv_def by blast
  qed
qed

section \<open>Runs of the allocator\<close>

inductive slab_reach :: "nat \<Rightarrow> int \<Rightarrow> nat set \<Rightarrow> slab_state \<Rightarrow> bool" for pg r where
  init: "init_lists = Inr st \<Longrightarrow> slab_reach pg r {} st"
| alloc: "slab_reach pg r A st \<Longrightarrow> mmap_ok pg st mem \<Longrightarrow> alloc_node pg r mem st = Inr (Some a, st') \<Longrightarrow> slab_reach pg r (insert a A) st'"
| free: "slab_reach pg r A st \<Longrightarrow> a \<in> A \<Longrightarrow> free_node_mem pg unmapped a st = Inr st' \<Longrightarrow> slab_reach pg r (A - {a}) st'"

lemma init_lists_ok:
  "\<exists>st. init_lists = Inr st \<and> (page_ok pg \<longrightarrow> slab_inv pg r st {}) \<and> dll (heads st) LruTable []"
proof -
  have "slab_inv pg r st {}"
    if "page_ok pg" "dll (heads st) PartialSlabs []" "dll (heads st) FullSlabs []" for st
    using that unfolding slab_inv_def slabs_ok_def by (intro conjI exI [of _ "[]"]) auto
  then show ?thesis
    by (auto simp: init_lists_def init_list_head_def set_next_def set_prev_def load_head_def dll_def nx_def pv_def Let_def)
qed

lemma slab_reach_inv: "slab_reach pg r A st \<Longrightarrow> page_ok pg \<Longrightarrow> slab_inv pg r st A"
proof (induction rule: slab_reach.induct)
  case (init st)
  then show ?case using init_lists_ok [of pg r] by (metis sum.inject(2))
next
  case (alloc A st mem a st')
  then show ?case using alloc_node_ok [of pg r st A mem] by auto
next
  case (free A st a unmapped st')
  then show ?case using free_node_mem_ok [of pg r st A a unmapped] by auto
qed

text \<open>
  (C24) The allocator of nodes implements a set of disjoint nodes. In every state that the
  allocator reaches, whatever pages \<open>mmap\<close> finds: the nodes in use do not overlap; \<open>alloc_node\<close>
  is defined, and either finds no page and changes nothing, or gives a node that was not in use;
  giving a node back is defined, whether the page stays or goes back to the system; and when no
  node is in use both lists of pages are empty, which \<open>fuse_destroy\<close> asserts.
\<close>

theorem slab_allocator_refines:
  assumes "slab_reach pg r A st" "page_ok pg"
  shows "(\<forall>a \<in> A. \<forall>b \<in> A. a \<noteq> b \<longrightarrow> apart (get_node_size r) a b)
    \<and> (mmap_ok pg st mem \<longrightarrow>
        (\<exists>res st'. alloc_node pg r mem st = Inr (res, st')
          \<and> (case res of None \<Rightarrow> mem = None \<and> st' = st | Some a \<Rightarrow> a \<notin> A \<and> slab_reach pg r (insert a A) st')))
    \<and> (\<forall>a \<in> A. \<exists>st'. free_node_mem pg unmapped a st = Inr st' \<and> slab_reach pg r (A - {a}) st')
    \<and> (A = {} \<longrightarrow> list_empty PartialSlabs (heads st) = Inr True \<and> list_empty FullSlabs (heads st) = Inr True)"
proof (intro conjI impI)
  have inv: "slab_inv pg r st A" using slab_reach_inv [OF assms] .
  then obtain partial full fr where s: "slabs_ok pg r st A partial full fr"
      "\<forall>s \<in> set (partial @ full). set (nodes_of pg r s) \<inter> A \<noteq> {}" by (auto simp: slab_inv_def)
  show "\<forall>a \<in> A. \<forall>b \<in> A. a \<noteq> b \<longrightarrow> apart (get_node_size r) a b" using slabs_apart [OF s(1)] by blast
  show "\<exists>res st'. alloc_node pg r mem st = Inr (res, st')
      \<and> (case res of None \<Rightarrow> mem = None \<and> st' = st | Some a \<Rightarrow> a \<notin> A \<and> slab_reach pg r (insert a A) st')"
    if m: "mmap_ok pg st mem"
    using alloc_node_ok [OF inv m] slab_reach.alloc [OF assms(1) m] by (fastforce split: option.splits)
  show "\<forall>a \<in> A. \<exists>st'. free_node_mem pg unmapped a st = Inr st' \<and> slab_reach pg r (A - {a}) st'"
    using free_node_mem_ok [OF inv] slab_reach.free [OF assms(1)] by metis
  assume "A = {}"
  then have "set (partial @ full) = {}" using s(2) by (metis Int_empty_right equals0I)
  then have "partial = []" "full = []" by simp_all
  then show "list_empty PartialSlabs (heads st) = Inr True" "list_empty FullSlabs (heads st) = Inr True"
    using slabs_okD(1,2) [OF s(1)] list_empty_spec by fastforce+
qed

lemma page_ok_4096: "page_ok 4096"
proof -
  have "(4096 :: nat) = 2 ^ 12" by simp
  then show ?thesis unfolding page_ok_def sizeof_node_slab_def sizeof_node_lru_def by (intro conjI exI [of _ 12]) auto
qed

theorem slab_allocator_refines_witness:
  "\<exists>st a st' st''. init_lists = Inr st \<and> alloc_node 4096 0 (Some 8192) st = Inr (Some a, st') \<and> free_node_mem 4096 True a st' = Inr st''"
proof -
  obtain st where st: "init_lists = Inr st" using init_lists_ok by blast
  then have r: "slab_reach 4096 0 {} st" by (rule slab_reach.init)
  have u: "used st = Map.empty"
    using st by (auto simp: init_lists_def init_list_head_def set_next_def set_prev_def load_head_def Let_def)
  then have m: "mmap_ok 4096 st (Some 8192)" by (simp add: mmap_ok_def slab_at_def)
  then obtain res st' where a: "alloc_node 4096 0 (Some 8192) st = Inr (res, st')"
      "case res of None \<Rightarrow> Some (8192 :: nat) = None \<and> st' = st | Some a \<Rightarrow> a \<notin> {} \<and> slab_reach 4096 0 (insert a {}) st'"
    using slab_allocator_refines [OF r page_ok_4096, of "Some 8192"] by blast
  then obtain b where b: "res = Some b" "slab_reach 4096 0 {b} st'" by (cases res) auto
  then show ?thesis using slab_allocator_refines [OF b(2) page_ok_4096, of None True] st a(1) by blast
qed

end
