(* ===== verification/Fuse_Lru.thy ===== *)
theory Fuse_Lru
  imports Fuse_Slab
begin

text \<open>
  The list of nodes that the kernel has forgotten and the library still remembers, in the same
  memory as the allocator's lists. A node is on the list or its link points to itself; the root
  node alone has a link that was never set up.
\<close>

section \<open>Taking a node off and putting it last\<close>

definition lru_unlink :: "nat \<Rightarrow> slab_state \<Rightarrow> slab_state c" where
  "lru_unlink a st = bindc (on_heads (list_del (NodeLru a)) st) (on_heads (init_list_head (NodeLru a)))"

definition lru_touch :: "nat \<Rightarrow> slab_state \<Rightarrow> slab_state c" where
  "lru_touch a st = bindc (on_heads (list_del (NodeLru a)) st) (on_heads (list_add_tail (NodeLru a) LruTable))"

definition lru_init :: "nat \<Rightarrow> slab_state \<Rightarrow> slab_state c" where
  "lru_init a = on_heads (init_list_head (NodeLru a))"

section \<open>The invariant\<close>

text \<open>\<open>A\<close> are the nodes in use, \<open>R\<close> those whose link is not set up, \<open>xs\<close> the nodes on the list.\<close>

definition lru_ok :: "slab_state \<Rightarrow> nat set \<Rightarrow> nat set \<Rightarrow> nat list \<Rightarrow> bool" where
  "lru_ok st A R xs \<longleftrightarrow> dll (heads st) LruTable (map NodeLru xs) \<and> set xs \<subseteq> A - R
     \<and> (\<forall>a \<in> A - R - set xs. dll (heads st) (NodeLru a) [])"

definition mem_ok :: "nat \<Rightarrow> int \<Rightarrow> slab_state \<Rightarrow> nat set \<Rightarrow> nat set \<Rightarrow> nat list \<Rightarrow> bool" where
  "mem_ok pg r st A R xs \<longleftrightarrow> slab_inv pg r st A \<and> (lru_enabled r \<longrightarrow> lru_ok st A R xs)"

abbreviation lru_locs :: "loc set" where
  "lru_locs \<equiv> insert LruTable (range NodeLru)"

lemma slab_inv_frame:
  assumes "slab_inv pg r st A" "keeps lru_locs (heads st) h"
  shows "slab_inv pg r (st\<lparr>heads := h\<rparr>) A"
proof -
  obtain partial full fr where inv: "page_ok pg" "slabs_ok pg r st A partial full fr"
      "\<forall>s \<in> set (partial @ full). set (nodes_of pg r s) \<inter> A \<noteq> {}"
    using assms(1) by (auto simp: slab_inv_def)
  note ok = slabs_okD [OF inv(2)]
  let ?st = "st\<lparr>heads := h\<rparr>"
  have "slab_ok pg r ?st A (fr s) s" if "s \<in> set (partial @ full)" for s
  proof (rule slab_ok_frame [OF ok(6) [OF that]])
    show "\<forall>l \<in> slab_locs pg r s. heads ?st l = heads st l"
      using keeps_at [OF assms(2)] by (auto simp: slab_locs_def)
    show "\<forall>l. in_page pg s l \<longrightarrow> l \<in> dom (heads st) \<longrightarrow> l \<in> dom (heads ?st)" using assms(2) by (simp add: keeps_def)
  qed simp_all
  moreover have "dll h PartialSlabs (map SlabList partial)" "dll h FullSlabs (map SlabList full)"
    by (rule keeps_ring [OF assms(2)], use ok in auto)+
  ultimately have "slabs_ok pg r ?st A partial full fr" using inv(2) by (auto simp: slabs_ok_def)
  then show ?thesis using inv(1,3) by (auto simp: slab_inv_def)
qed

lemma lru_ok_kept:
  assumes "lru_ok st A R xs" "lru_kept B st st'" "A - R \<subseteq> B"
  shows "lru_ok st' A R xs"
proof -
  have same: "heads st' LruTable = heads st LruTable" "\<And>a. a \<in> A - R \<Longrightarrow> heads st' (NodeLru a) = heads st (NodeLru a)"
    using assms(2,3) by (auto simp: lru_kept_def)
  have "dll (heads st') LruTable (map NodeLru xs)"
    using dll_cong [of LruTable "map NodeLru xs" "heads st'" "heads st"] same assms(1) by (auto simp: lru_ok_def)
  moreover have "dll (heads st') (NodeLru a) []" if "a \<in> A - R - set xs" for a
    using dll_cong [of "NodeLru a" "[]" "heads st'" "heads st"] same that assms(1) by (auto simp: lru_ok_def)
  ultimately show ?thesis using assms(1) by (simp add: lru_ok_def)
qed

section \<open>The operations keep the invariant\<close>

lemma lru_link_in_page:
  assumes "slab_inv pg r st A" "a \<in> A"
  shows "NodeLru a \<in> dom (heads st)"
proof -
  obtain partial full fr where "slabs_ok pg r st A partial full fr" using assms(1) by (auto simp: slab_inv_def)
  note ok = slabs_okD [OF this]
  obtain s where "s \<in> set (partial @ full)" "a \<in> set (nodes_of pg r s)" using ok(8) [OF assms(2)] by blast
  then show ?thesis using ok(6) node_lru_page by (auto simp: slab_ok_def)
qed

text \<open>Wherever its link is, \<open>list_del\<close> takes a node off the list.\<close>

lemma lru_off:
  assumes "lru_ok st A R xs" "a \<in> A - R"
  shows "\<exists>h. list_del (NodeLru a) (heads st) = Inr h \<and> dll h LruTable (map NodeLru (remove1 a xs))
    \<and> (\<forall>b \<in> A - R - set xs. b \<noteq> a \<longrightarrow> dll h (NodeLru b) []) \<and> keeps lru_locs (heads st) h"
proof (cases "a \<in> set xs")
  case True
  have d: "dll (heads st) LruTable (map NodeLru xs)" using assms(1) by (simp add: lru_ok_def)
  obtain us vs where uv: "xs = us @ a # vs" using True by (metis split_list)
  have dist: "distinct xs" using dll_distinct [OF d] by (simp add: distinct_map)
  then have r: "remove1 a xs = us @ vs" using uv by (simp add: remove1_append)
  obtain h where h: "list_del (NodeLru a) (heads st) = Inr h" "dll h LruTable (map NodeLru (us @ vs))"
      "keeps (set (LruTable # map NodeLru (us @ vs))) (heads st) h"
    using list_del_spec [of "heads st" LruTable "map NodeLru us" "NodeLru a" "map NodeLru vs"] d uv by auto
  have "dll h (NodeLru b) []" if "b \<in> A - R - set xs" for b
    by (rule keeps_ring [OF h(3)]) (use that assms(1) uv in \<open>auto simp: lru_ok_def\<close>)
  moreover have "keeps lru_locs (heads st) h" by (rule keeps_mono [OF h(3)]) auto
  ultimately show ?thesis using h r by auto
next
  case False
  then have d: "dll (heads st) (NodeLru a) []" using assms by (simp add: lru_ok_def)
  then have "heads st (NodeLru a) = Some \<lparr>lnext = NodeLru a, lprev = NodeLru a\<rparr>"
    by (cases "heads st (NodeLru a)") (auto simp: dll_def nx_def pv_def)
  then have del: "list_del (NodeLru a) (heads st) = Inr ((heads st)(NodeLru a \<mapsto> \<lparr>lnext = NodeLru a, lprev = NodeLru a\<rparr>))"
    and same: "(heads st)(NodeLru a \<mapsto> \<lparr>lnext = NodeLru a, lprev = NodeLru a\<rparr>) = heads st"
    by (auto simp: list_del_def set_next_def set_prev_def load_head_def)
  have "keeps lru_locs (heads st) (heads st)" by (simp add: keeps_def)
  moreover have "list_del (NodeLru a) (heads st) = Inr (heads st)" using del unfolding same .
  moreover have "dll (heads st) LruTable (map NodeLru (remove1 a xs))" "\<forall>b \<in> A - R - set xs. dll (heads st) (NodeLru b) []"
    using assms(1) False by (simp_all add: lru_ok_def remove1_idem)
  ultimately show ?thesis by (intro exI [of _ "heads st"]) simp
qed

lemma lru_unlink_ok:
  assumes "mem_ok pg r st A R xs" "a \<in> A - R" "lru_enabled r"
  shows "\<exists>st'. lru_unlink a st = Inr st' \<and> mem_ok pg r st' A R (remove1 a xs)"
proof -
  have ok: "lru_ok st A R xs" "slab_inv pg r st A" using assms by (simp_all add: mem_ok_def)
  obtain h where h: "list_del (NodeLru a) (heads st) = Inr h" "dll h LruTable (map NodeLru (remove1 a xs))"
      "\<forall>b \<in> A - R - set xs. b \<noteq> a \<longrightarrow> dll h (NodeLru b) []" "keeps lru_locs (heads st) h"
    using lru_off [OF ok(1) assms(2)] by blast
  have "NodeLru a \<in> dom h" using lru_link_in_page [OF ok(2), of a] assms(2) h(4) by (simp add: keeps_def)
  then obtain h' where h': "init_list_head (NodeLru a) h = Inr h'" "dll h' (NodeLru a) []" "keeps {NodeLru a} h h'"
    using list_init_spec [of "NodeLru a" h] by auto
  have k: "keeps lru_locs (heads st) h'" by (rule keeps_mono [OF keeps_trans [OF h(4) h'(3)]]) auto
  have dist: "distinct xs" using ok(1) dll_distinct [of "heads st" LruTable "map NodeLru xs"] by (simp add: lru_ok_def distinct_map)
  have "dll h' LruTable (map NodeLru (remove1 a xs))" by (rule keeps_ring [OF h'(3) h(2)]) (use dist in auto)
  moreover have "dll h' (NodeLru b) []" if b: "b \<in> A - R - set (remove1 a xs)" for b
  proof (cases "b = a")
    case False
    have "dll h (NodeLru b) []" using h(3) b False by (simp add: in_set_remove1)
    then show ?thesis by (rule keeps_ring [OF h'(3)]) (use False in auto)
  qed (use h'(2) in simp)
  ultimately have "lru_ok (st\<lparr>heads := h'\<rparr>) A R (remove1 a xs)"
    using ok(1) set_remove1_subset [of a xs] by (auto simp: lru_ok_def)
  moreover have "lru_unlink a st = Inr (st\<lparr>heads := h'\<rparr>)" using h(1) h'(1) by (simp add: lru_unlink_def on_heads_def)
  ultimately show ?thesis using slab_inv_frame [OF ok(2) k] by (auto simp: mem_ok_def)
qed

lemma lru_touch_ok:
  assumes "mem_ok pg r st A R xs" "a \<in> A - R" "lru_enabled r"
  shows "\<exists>st'. lru_touch a st = Inr st' \<and> mem_ok pg r st' A R (remove1 a xs @ [a])"
proof -
  have ok: "lru_ok st A R xs" "slab_inv pg r st A" using assms by (simp_all add: mem_ok_def)
  obtain h where h: "list_del (NodeLru a) (heads st) = Inr h" "dll h LruTable (map NodeLru (remove1 a xs))"
      "\<forall>b \<in> A - R - set xs. b \<noteq> a \<longrightarrow> dll h (NodeLru b) []" "keeps lru_locs (heads st) h"
    using lru_off [OF ok(1) assms(2)] by blast
  have dist: "distinct xs" using ok(1) dll_distinct [of "heads st" LruTable "map NodeLru xs"] by (simp add: lru_ok_def distinct_map)
  have "NodeLru a \<in> dom h" using lru_link_in_page [OF ok(2), of a] assms(2) h(4) by (simp add: keeps_def)
  then obtain h' where h': "list_add_tail (NodeLru a) LruTable h = Inr h'" "dll h' LruTable (map NodeLru (remove1 a xs @ [a]))"
      "keeps (set (NodeLru a # LruTable # map NodeLru (remove1 a xs))) h h'"
    using list_add_tail_spec [OF h(2), of "NodeLru a"] dist by auto
  have k: "keeps lru_locs (heads st) h'" by (rule keeps_mono [OF keeps_trans [OF h(4) h'(3)]]) auto
  have "dll h' (NodeLru b) []" if b: "b \<in> A - R - set (remove1 a xs @ [a])" for b
  proof -
    have "b \<noteq> a" "b \<notin> set xs" using b by (auto simp: in_set_remove1)
    then have "dll h (NodeLru b) []" using h(3) b by simp
    then show ?thesis by (rule keeps_ring [OF h'(3)]) (use b in auto)
  qed
  then have "lru_ok (st\<lparr>heads := h'\<rparr>) A R (remove1 a xs @ [a])"
    using ok(1) h'(2) set_remove1_subset [of a xs] assms(2) by (auto simp: lru_ok_def)
  moreover have "lru_touch a st = Inr (st\<lparr>heads := h'\<rparr>)" using h(1) h'(1) by (simp add: lru_touch_def on_heads_def)
  ultimately show ?thesis using slab_inv_frame [OF ok(2) k] by (auto simp: mem_ok_def)
qed

text \<open>A new node's link is not set up until \<open>lru_init\<close>.\<close>

lemma mem_alloc:
  assumes "mem_ok pg r st A R xs" "mmap_ok pg st m"
  shows "\<exists>res st'. alloc_node pg r m st = Inr (res, st')
    \<and> (case res of None \<Rightarrow> m = None \<and> st' = st | Some a \<Rightarrow> a \<notin> A \<and> mem_ok pg r st' (insert a A) (insert a R) xs)"
proof -
  obtain res st' where a: "alloc_node pg r m st = Inr (res, st')" "lru_kept A st st'"
      "case res of None \<Rightarrow> m = None \<and> st' = st | Some a \<Rightarrow> a \<notin> A \<and> slab_inv pg r st' (insert a A)"
    using alloc_node_ok [of pg r st A m] assms by (auto simp: mem_ok_def)
  have "lru_ok st' (insert b A) (insert b R) xs" if "lru_enabled r" "b \<notin> A" for b
  proof -
    have "lru_ok st' A R xs" using lru_ok_kept [OF _ a(2)] assms(1) that(1) by (auto simp: mem_ok_def)
    then show ?thesis using that(2) by (auto simp: lru_ok_def)
  qed
  then show ?thesis using a by (auto simp: mem_ok_def split: option.splits)
qed

lemma lru_init_ok:
  assumes "mem_ok pg r st A (insert a R) xs" "a \<in> A" "a \<notin> set xs"
  shows "\<exists>st'. lru_init a st = Inr st' \<and> (lru_enabled r \<longrightarrow> mem_ok pg r st' A R xs)"
proof -
  have inv: "slab_inv pg r st A" using assms(1) by (simp add: mem_ok_def)
  obtain h where h: "init_list_head (NodeLru a) (heads st) = Inr h" "dll h (NodeLru a) []" "keeps {NodeLru a} (heads st) h"
    using list_init_spec [OF lru_link_in_page [OF inv assms(2)]] by blast
  have "lru_ok (st\<lparr>heads := h\<rparr>) A R xs" if "lru_enabled r"
  proof -
    have ok: "lru_ok st A (insert a R) xs" using assms(1) that by (simp add: mem_ok_def)
    have "dll h LruTable (map NodeLru xs)" by (rule keeps_ring [OF h(3)]) (use ok assms(3) in \<open>auto simp: lru_ok_def\<close>)
    moreover have "dll h (NodeLru b) []" if b: "b \<in> A - R - set xs" for b
    proof (cases "b = a")
      case False
      then show ?thesis by (intro keeps_ring [OF h(3)]) (use ok b in \<open>auto simp: lru_ok_def\<close>)
    qed (use h(2) in simp)
    ultimately show ?thesis using ok by (auto simp: lru_ok_def)
  qed
  moreover have "slab_inv pg r (st\<lparr>heads := h\<rparr>) A" by (rule slab_inv_frame [OF inv keeps_mono [OF h(3)]]) auto
  ultimately show ?thesis using h(1) by (simp add: lru_init_def on_heads_def mem_ok_def)
qed

lemma mem_free:
  assumes "mem_ok pg r st A R xs" "a \<in> A" "a \<notin> set xs"
  shows "\<exists>st'. free_node_mem pg unmapped a st = Inr st' \<and> mem_ok pg r st' (A - {a}) (R - {a}) xs"
proof -
  obtain st' where st': "free_node_mem pg unmapped a st = Inr st'" "slab_inv pg r st' (A - {a})" "lru_kept (A - {a}) st st'"
    using free_node_mem_ok [of pg r st A a unmapped] assms by (auto simp: mem_ok_def)
  have "lru_ok st' (A - {a}) (R - {a}) xs" if "lru_enabled r"
  proof -
    have "lru_ok st (A - {a}) (R - {a}) xs" using assms that by (auto simp: mem_ok_def lru_ok_def)
    then show ?thesis by (rule lru_ok_kept [OF _ st'(3)]) auto
  qed
  then show ?thesis using st' by (simp add: mem_ok_def)
qed

text \<open>Whether the list is in use or not, some list describes the memory, and taking a node off leaves one without it.\<close>

lemma lru_off_any:
  assumes "mem_ok pg r st A R xs" "a \<in> A - R"
  shows "\<exists>st' xs'. (if lru_enabled r then lru_unlink a st else Inr st) = Inr st' \<and> mem_ok pg r st' A R xs' \<and> a \<notin> set xs'"
proof (cases "lru_enabled r")
  case True
  then have "distinct xs" using assms(1) dll_distinct [of "heads st" LruTable "map NodeLru xs"]
    by (simp add: mem_ok_def lru_ok_def distinct_map)
  then have "a \<notin> set (remove1 a xs)" by simp
  then show ?thesis using lru_unlink_ok [OF assms True] True by auto
next
  case False
  then have "mem_ok pg r st A R []" using assms(1) by (simp add: mem_ok_def)
  then show ?thesis using False by (metis empty_iff list.set(1))
qed

end
