(* ===== verification/Fuse_Nodes.thy ===== *)
theory Fuse_Nodes
  imports Fuse_Table Fuse_Lru Fuse_Locks
begin

text \<open>
  The nodes of \<open>src/lib/fuse.c\<close>: one for each object that the kernel knows, found by its number
  and by its parent and name, and kept alive by the kernel's lookups and by the nodes below it.
  The state is the part of \<open>struct fuse\<close> that these functions use, with the memory of the nodes: \<open>nodes\<close>
  holds those in use, \<open>stale\<close> what the last user left in a node's memory, which the allocator does not clear.
  The functions run with \<open>f->lock\<close> held. Whether \<open>strdup\<close>, \<open>realloc\<close> and \<open>munmap\<close> succeed is told by
  \<open>coins\<close>; the page that \<open>mmap\<close> finds and the time are arguments.
  A long name is a block of its own, which is not counted here.
\<close>

section \<open>State\<close>

record node =
  nodeid :: nat
  ngeneration :: nat
  refctr :: int
  parent :: "nat option"
  name :: "string option"
  nlookup :: nat
  open_count :: int
  stat_updated :: timespec
  mtime :: timespec
  nsize :: int
  locks :: "lock list"
  is_hidden :: bool
  cache_valid :: bool
  treelock :: int
  ticket :: int
  forget_time :: timespec

record fuse =
  slabs :: slab_state
  nodes :: "nat \<rightharpoonup> node"
  stale :: "nat \<Rightarrow> node"
  name_table :: node_table
  id_table :: node_table
  ctr :: nat
  generation :: nat
  hidectr :: nat
  remember :: int
  curr_ticket :: int
  lockq :: "nat list"
  pagesize :: nat
  coins :: "bool list"

definition FUSE_ROOT_ID :: nat where "FUSE_ROOT_ID = 1"

text \<open>A page from \<open>mmap\<close> is filled with zeros.\<close>

definition node0 :: node where
  "node0 = \<lparr>nodeid = 0, ngeneration = 0, refctr = 0, parent = None, name = None, nlookup = 0, open_count = 0,
     stat_updated = \<lparr>tv_sec = 0, tv_nsec = 0\<rparr>, mtime = \<lparr>tv_sec = 0, tv_nsec = 0\<rparr>, nsize = 0, locks = [],
     is_hidden = False, cache_valid = False, treelock = 0, ticket = 0, forget_time = \<lparr>tv_sec = 0, tv_nsec = 0\<rparr>\<rparr>"

definition coin :: "fuse \<Rightarrow> bool \<times> fuse" where
  "coin f = (case coins f of [] \<Rightarrow> (True, f) | b # bs \<Rightarrow> (b, f\<lparr>coins := bs\<rparr>))"

definition getn :: "fuse \<Rightarrow> nat \<Rightarrow> node c" where
  "getn f a = (case nodes f a of None \<Rightarrow> Inl Dangling | Some nd \<Rightarrow> Inr nd)"

definition modn :: "nat \<Rightarrow> (node \<Rightarrow> node) \<Rightarrow> fuse \<Rightarrow> fuse c" where
  "modn a g f = bindc (getn f a) (\<lambda>nd. Inr (f\<lparr>nodes := (nodes f)(a \<mapsto> g nd)\<rparr>))"

definition on_slabs :: "(slab_state \<Rightarrow> slab_state c) \<Rightarrow> fuse \<Rightarrow> fuse c" where
  "on_slabs g f = bindc (g (slabs f)) (\<lambda>s. Inr (f\<lparr>slabs := s\<rparr>))"

section \<open>Searches\<close>

definition idof :: "fuse \<Rightarrow> nat \<Rightarrow> nat" where
  "idof f a = (case nodes f a of None \<Rightarrow> 0 | Some nd \<Rightarrow> nodeid nd)"

definition nameof :: "fuse \<Rightarrow> nat \<Rightarrow> nat \<times> string" where
  "nameof f a = (case nodes f a of
     Some nd \<Rightarrow> (case (parent nd, name nd) of (Some p, Some s) \<Rightarrow> (idof f p, s) | _ \<Rightarrow> (0, []))
   | None \<Rightarrow> (0, []))"

text \<open>The nodes of a chain that a search follows are there, for a search by name with parent and name.\<close>

definition chain_live :: "fuse \<Rightarrow> nat list \<Rightarrow> bool" where
  "chain_live f ch \<longleftrightarrow> list_all (\<lambda>a. nodes f a \<noteq> None) ch"

definition has_name :: "fuse \<Rightarrow> nat \<Rightarrow> bool" where
  "has_name f a = (case nodes f a of None \<Rightarrow> False
     | Some nd \<Rightarrow> name nd \<noteq> None \<and> (case parent nd of None \<Rightarrow> False | Some p \<Rightarrow> nodes f p \<noteq> None))"

definition node_by_id :: "fuse \<Rightarrow> nat \<Rightarrow> nat option c" where
  "node_by_id f n =
     bindc (bucket (id_table f) (id_hash (id_table f) n)) (\<lambda>ch.
     if chain_live f ch then get_node_nocheck (idof f) (id_table f) n else Inl Dangling)"

definition the_node :: "fuse \<Rightarrow> nat \<Rightarrow> nat c" where
  "the_node f n = bindc (node_by_id f n) (\<lambda>r. case r of None \<Rightarrow> Inl Aborted | Some a \<Rightarrow> Inr a)"

definition node_by_name :: "fuse \<Rightarrow> nat \<Rightarrow> string \<Rightarrow> nat option c" where
  "node_by_name f p s =
     bindc (bucket (name_table f) (name_hash (name_table f) p s)) (\<lambda>ch.
     if list_all (has_name f) ch then lookup_node (nameof f) (name_table f) p s else Inl Dangling)"

section \<open>Memory of nodes\<close>

definition new_node :: "nat option \<Rightarrow> fuse \<Rightarrow> (nat option \<times> fuse) c" where
  "new_node mem f =
     bindc (list_empty PartialSlabs (heads (slabs f))) (\<lambda>e.
     bindc (alloc_node (pagesize f) (remember f) mem (slabs f)) (\<lambda>(res, s).
     let old = (case mem of
           Some pg \<Rightarrow> if e then (\<lambda>a. if pg \<le> a \<and> a < pg + pagesize f then node0 else stale f a) else stale f
         | None \<Rightarrow> stale f)
     in case res of
       None \<Rightarrow> Inr (None, f\<lparr>slabs := s\<rparr>)
     | Some a \<Rightarrow> Inr (Some a, f\<lparr>slabs := s, stale := old, nodes := (nodes f)(a \<mapsto> old a)\<rparr>)))"

definition free_node :: "nat \<Rightarrow> fuse \<Rightarrow> fuse c" where
  "free_node a f =
     bindc (getn f a) (\<lambda>nd.
     let (unmapped, f) = coin f in
     bindc (free_node_mem (pagesize f) unmapped a (slabs f)) (\<lambda>s.
     Inr (f\<lparr>slabs := s, nodes := (nodes f)(a := None), stale := (stale f)(a := nd)\<rparr>)))"

definition remove_node_lru :: "nat \<Rightarrow> fuse \<Rightarrow> fuse c" where
  "remove_node_lru a = on_slabs (lru_unlink a)"

definition set_forget_time :: "timespec \<Rightarrow> nat \<Rightarrow> fuse \<Rightarrow> fuse c" where
  "set_forget_time now a f = bindc (on_slabs (lru_touch a) f) (modn a (\<lambda>nd. nd\<lparr>forget_time := now\<rparr>))"

section \<open>Names and references\<close>

definition node_unhash_id :: "nat \<Rightarrow> fuse \<Rightarrow> fuse c" where
  "node_unhash_id a f =
     (let (re, f) = coin f in
      bindc (unhash_id (idof f) re a (id_table f)) (\<lambda>t. Inr (f\<lparr>id_table := t\<rparr>)))"

definition node_hash_id :: "nat \<Rightarrow> fuse \<Rightarrow> fuse c" where
  "node_hash_id a f =
     (let (re, f) = coin f in
      bindc (hash_id (idof f) re a (id_table f)) (\<lambda>t. Inr (f\<lparr>id_table := t\<rparr>)))"

text \<open>The tail of \<open>unhash_name\<close>, after the reference to the parent is dropped.\<close>

definition drop_name :: "nat \<Rightarrow> fuse \<Rightarrow> fuse c" where
  "drop_name a f =
     bindc (modn a (\<lambda>nd. nd\<lparr>name := None, parent := None\<rparr>) f) (\<lambda>f.
     let t = name_table f; t = t\<lparr>use := use t - 1\<rparr>; (re, f) = coin f in
     bindc (if use t < tsize t div 4 then remerge re t else Inr t) (\<lambda>t. Inr (f\<lparr>name_table := t\<rparr>)))"

text \<open>
  \<open>unhash_name\<close>, \<open>delete_node\<close> and \<open>unref_node\<close> call each other: \<open>unref\<close> is the call for the parent. A
  node loses its last reference once, so there are at most as many nested calls as nodes.
\<close>

definition unhash_name_with :: "(nat \<Rightarrow> fuse \<Rightarrow> fuse c) \<Rightarrow> nat \<Rightarrow> fuse \<Rightarrow> fuse c" where
  "unhash_name_with unref a f =
     bindc (getn f a) (\<lambda>nd.
     case name nd of
       None \<Rightarrow> Inr f
     | Some s \<Rightarrow>
         (case parent nd of
            None \<Rightarrow> Inl NullDeref
          | Some p \<Rightarrow>
              bindc (getn f p) (\<lambda>pn.
              let i = name_hash (name_table f) (nodeid pn) s in
              bindc (bucket (name_table f) i) (\<lambda>ch.
              if a \<in> set ch then
                bindc (unref p (f\<lparr>name_table := (name_table f)\<lparr>array := (array (name_table f))[i := remove1 a ch]\<rparr>\<rparr>)) (drop_name a)
              else Inl Aborted))))"

definition delete_node_with :: "(nat \<Rightarrow> fuse \<Rightarrow> fuse c) \<Rightarrow> nat \<Rightarrow> fuse \<Rightarrow> fuse c" where
  "delete_node_with unref a f =
     bindc (getn f a) (\<lambda>nd.
     if treelock nd \<noteq> 0 then Inl Aborted
     else bindc (unhash_name_with unref a f) (\<lambda>f.
          bindc (if lru_enabled (remember f) then remove_node_lru a f else Inr f) (\<lambda>f.
          bindc (node_unhash_id a f) (free_node a))))"

fun unref_loop :: "nat \<Rightarrow> nat \<Rightarrow> fuse \<Rightarrow> fuse c" where
  "unref_loop 0 a f = Inl OutOfFuel"
| "unref_loop (Suc fuel) a f =
     bindc (getn f a) (\<lambda>nd.
     if refctr nd \<le> 0 then Inl Aborted
     else bindc (modn a (\<lambda>nd. nd\<lparr>refctr := refctr nd - 1\<rparr>) f) (\<lambda>f.
          if refctr nd - 1 = 0 then delete_node_with (unref_loop fuel) a f else Inr f))"

definition unref_node :: "nat \<Rightarrow> fuse \<Rightarrow> fuse c" where
  "unref_node a f = unref_loop (Suc (use (id_table f))) a f"

definition unhash_name :: "nat \<Rightarrow> fuse \<Rightarrow> fuse c" where
  "unhash_name = unhash_name_with unref_node"

definition delete_node :: "nat \<Rightarrow> fuse \<Rightarrow> fuse c" where
  "delete_node = delete_node_with unref_node"

text \<open>The name is kept in the node itself if it has fewer than 32 characters.\<close>

definition hash_name :: "nat \<Rightarrow> nat \<Rightarrow> string \<Rightarrow> fuse \<Rightarrow> (int \<times> fuse) c" where
  "hash_name a parentid s f =
     bindc (the_node f parentid) (\<lambda>p.
     let (ok, f) = (if length s < 32 then (True, f) else coin f) in
     if \<not> ok then bindc (modn a (\<lambda>nd. nd\<lparr>name := None\<rparr>) f) (\<lambda>f. Inr (-1, f))
     else
       bindc (modn a (\<lambda>nd. nd\<lparr>name := Some s\<rparr>) f) (\<lambda>f.
       bindc (getn f p) (\<lambda>pn.
       if refctr pn = int_max then Inl SignedOverflow
       else
         bindc (modn p (\<lambda>nd. nd\<lparr>refctr := refctr nd + 1\<rparr>) f) (\<lambda>f.
         bindc (modn a (\<lambda>nd. nd\<lparr>parent := Some p\<rparr>) f) (\<lambda>f.
         let (re, f) = coin f in
         bindc (table_insert (\<lambda>b. case_prod name_key (nameof f b)) re a (name_table f)) (\<lambda>t.
         Inr (0, f\<lparr>name_table := t\<rparr>)))))))"

definition next_id :: "fuse \<Rightarrow> (nat \<times> fuse) c" where
  "next_id f =
     bindc (next_id_loop (use (id_table f) + 3) (idof f) (id_table f) (ctr f) (generation f)) (\<lambda>r.
     case r of None \<Rightarrow> Inl OutOfFuel | Some (n, g) \<Rightarrow> Inr (n, f\<lparr>ctr := n, generation := g\<rparr>))"

section \<open>Operations\<close>

definition inc64 :: "nat \<Rightarrow> nat" where
  "inc64 n = (n + 1) mod 2 ^ 64"

definition init_node :: "int \<Rightarrow> nat \<Rightarrow> nat \<Rightarrow> node \<Rightarrow> node" where
  "init_node rem n g nd =
     nd\<lparr>nlookup := (if rem \<noteq> 0 then 1 else nlookup nd), refctr := 1, nodeid := n, ngeneration := g,
        open_count := 0, is_hidden := False, treelock := 0, ticket := 0\<rparr>"

definition create_node :: "nat option \<Rightarrow> nat \<Rightarrow> string \<Rightarrow> fuse \<Rightarrow> (nat option \<times> fuse) c" where
  "create_node mem parentid s f =
     bindc (new_node mem f) (\<lambda>(r, f).
     case r of
       None \<Rightarrow> Inr (None, f)
     | Some a \<Rightarrow>
         bindc (next_id f) (\<lambda>(n, f).
         bindc (modn a (init_node (remember f) n (generation f)) f) (\<lambda>f.
         bindc (hash_name a parentid s f) (\<lambda>(res, f).
         if res = -1 then bindc (free_node a f) (\<lambda>f. Inr (None, f))
         else
           bindc (node_hash_id a f) (\<lambda>f.
           bindc (if lru_enabled (remember f) then on_slabs (lru_init a) f else Inr f) (\<lambda>f. Inr (Some a, f)))))))"

definition find_node :: "nat option \<Rightarrow> nat \<Rightarrow> string option \<Rightarrow> fuse \<Rightarrow> (nat option \<times> fuse) c" where
  "find_node mem parentid s f =
     bindc (case s of None \<Rightarrow> bindc (the_node f parentid) (\<lambda>a. Inr (Some a)) | Some s \<Rightarrow> node_by_name f parentid s) (\<lambda>r.
     bindc (case r of
         None \<Rightarrow> (case s of None \<Rightarrow> Inl NullDeref | Some s \<Rightarrow> create_node mem parentid s f)
       | Some a \<Rightarrow>
           bindc (getn f a) (\<lambda>nd.
           bindc (if lru_enabled (remember f) \<and> nlookup nd = 1 then remove_node_lru a f else Inr f) (\<lambda>f. Inr (Some a, f)))) (\<lambda>(r, f).
     case r of
       None \<Rightarrow> Inr (None, f)
     | Some a \<Rightarrow> bindc (modn a (\<lambda>nd. nd\<lparr>nlookup := inc64 (nlookup nd)\<rparr>) f) (\<lambda>f. Inr (Some a, f))))"

text \<open>\<open>forget_node\<close> waits while the node is locked and would go away: \<open>None\<close>.\<close>

definition forget_node :: "timespec \<Rightarrow> nat \<Rightarrow> nat \<Rightarrow> fuse \<Rightarrow> fuse option c" where
  "forget_node now n k f =
     (if n = FUSE_ROOT_ID then Inr (Some f)
      else
        bindc (the_node f n) (\<lambda>a.
        bindc (getn f a) (\<lambda>nd.
        if nlookup nd = k \<and> treelock nd \<noteq> 0 then Inr None
        else if nlookup nd < k then Inl Aborted
        else
          bindc (modn a (\<lambda>nd. nd\<lparr>nlookup := nlookup nd - k\<rparr>) f) (\<lambda>f.
          bindc (if nlookup nd = k then unref_node a f
                 else if lru_enabled (remember f) \<and> nlookup nd - k = 1 then set_forget_time now a f else Inr f) (\<lambda>f.
          Inr (Some f))))))"

definition unlink_node :: "nat \<Rightarrow> fuse \<Rightarrow> fuse c" where
  "unlink_node a f =
     bindc (if remember f \<noteq> 0 then
              bindc (getn f a) (\<lambda>nd. if nlookup nd \<le> 1 then Inl Aborted else modn a (\<lambda>nd. nd\<lparr>nlookup := nlookup nd - 1\<rparr>) f)
            else Inr f) (unhash_name a)"

definition remove_node :: "nat \<Rightarrow> string \<Rightarrow> fuse \<Rightarrow> fuse c" where
  "remove_node dir s f = bindc (node_by_name f dir s) (\<lambda>r. case r of None \<Rightarrow> Inr f | Some a \<Rightarrow> unlink_node a f)"

definition rename_node :: "nat \<Rightarrow> string \<Rightarrow> nat \<Rightarrow> string \<Rightarrow> bool \<Rightarrow> fuse \<Rightarrow> (int \<times> fuse) c" where
  "rename_node olddir oldname newdir newname hide f =
     bindc (node_by_name f olddir oldname) (\<lambda>r.
     bindc (node_by_name f newdir newname) (\<lambda>newnode.
     case r of
       None \<Rightarrow> Inr (0, f)
     | Some a \<Rightarrow>
         if newnode \<noteq> None \<and> hide then Inr (- EBUSY, f)
         else
           bindc (case newnode of None \<Rightarrow> Inr f | Some b \<Rightarrow> unlink_node b f) (\<lambda>f.
           bindc (unhash_name a f) (\<lambda>f.
           bindc (hash_name a newdir newname f) (\<lambda>(res, f).
           if res = -1 then Inr (- ENOMEM, f)
           else bindc (if hide then modn a (\<lambda>nd. nd\<lparr>is_hidden := True\<rparr>) f else Inr f) (\<lambda>f. Inr (0, f)))))))"

text \<open>The node part of \<open>fuse_new_common\<close>: the tables and the root, whose link for the list of forgotten nodes stays as it is.\<close>

definition new_root :: "nat option \<Rightarrow> fuse \<Rightarrow> fuse option c" where
  "new_root mem f =
     bindc (new_node mem f) (\<lambda>(r, f).
     case r of
       None \<Rightarrow> Inr None
     | Some a \<Rightarrow>
         bindc (modn a (\<lambda>nd. nd\<lparr>name := Some ''/'', parent := None, nodeid := FUSE_ROOT_ID, ngeneration := 0,
                                refctr := 1, nlookup := 1\<rparr>) f) (\<lambda>f.
         bindc (node_hash_id a f) (\<lambda>f. Inr (Some f))))"

definition new_nodes :: "nat \<Rightarrow> int \<Rightarrow> bool list \<Rightarrow> nat option \<Rightarrow> fuse option c" where
  "new_nodes pg rem cs mem =
     bindc init_lists (\<lambda>s.
     case node_table_init True of
       None \<Rightarrow> Inr None
     | Some t \<Rightarrow> new_root mem \<lparr>slabs = s, nodes = Map.empty, stale = (\<lambda>_. node0), name_table = t, id_table = t, ctr = 0,
         generation = 0, hidectr = 0, remember = rem, curr_ticket = 0, lockq = [], pagesize = pg, coins = cs\<rparr>)"

end
