(* ===== verification/Fuse_Refs.thy ===== *)
theory Fuse_Refs
  imports Fuse_Nodes
begin

text \<open>
  The invariant of the nodes and its way through \<open>unref_node\<close>: the tables hold exactly the nodes
  they should, and every reference counter is the number of nodes below plus one for the kernel.
\<close>

section \<open>What the tables see of a node\<close>

definition nshape :: "node \<Rightarrow> nat \<times> string option \<times> nat option" where
  "nshape nd = (nodeid nd, name nd, parent nd)"

definition shapes :: "fuse \<Rightarrow> nat \<Rightarrow> (nat \<times> string option \<times> nat option) option" where
  "shapes f a = map_option nshape (nodes f a)"

text \<open>The nodes with a place in the table of names, and those of them below a node; \<open>D\<close> is set aside.\<close>

definition named :: "fuse \<Rightarrow> nat set" where
  "named f = {a. \<exists>i s q. shapes f a = Some (i, Some s, q) \<and> i \<noteq> FUSE_ROOT_ID}"

definition kids :: "fuse \<Rightarrow> nat set \<Rightarrow> nat \<Rightarrow> nat set" where
  "kids f D p = {b \<in> named f - D. \<exists>i s. shapes f b = Some (i, s, Some p)}"

lemma shapes_None: "shapes f a = None \<longleftrightarrow> nodes f a = None"
  by (simp add: shapes_def)

lemma dom_shapes: "dom (shapes f) = dom (nodes f)"
  by (auto simp: shapes_def dom_def)

lemma idof_shapes: "idof f a = (case shapes f a of None \<Rightarrow> 0 | Some (i, _) \<Rightarrow> i)"
  by (simp add: idof_def shapes_def nshape_def split: option.splits)

lemma nameof_shapes:
  "nameof f a = (case shapes f a of Some (i, Some s, Some p) \<Rightarrow> (idof f p, s) | _ \<Rightarrow> (0, []))"
  by (auto simp: nameof_def shapes_def nshape_def split: option.splits)

lemma same_shapes:
  assumes "shapes f' = shapes f"
  shows "dom (nodes f') = dom (nodes f)" "idof f' = idof f" "nameof f' = nameof f" "named f' = named f" "kids f' = kids f"
proof -
  show "dom (nodes f') = dom (nodes f)" using assms dom_shapes by metis
  show i: "idof f' = idof f" by (rule ext) (simp only: idof_shapes assms)
  show "nameof f' = nameof f" by (rule ext) (simp only: nameof_shapes assms i)
  show n: "named f' = named f" by (simp add: named_def assms)
  show "kids f' = kids f" by (simp add: fun_eq_iff kids_def assms n)
qed

section \<open>The invariant\<close>

definition lookup_ref :: "node \<Rightarrow> nat" where
  "lookup_ref nd = (if 0 < nlookup nd then 1 else 0)"

definition ids_ok :: "fuse \<Rightarrow> bool" where
  "ids_ok f \<longleftrightarrow> wf_table (\<lambda>a. id_key (idof f a)) (id_table f) \<and> elems (id_table f) = dom (nodes f) \<and> inj_on (idof f) (dom (nodes f))"

abbreviation name_slot :: "fuse \<Rightarrow> nat \<Rightarrow> nat" where
  "name_slot f \<equiv> (\<lambda>a. case_prod name_key (nameof f a))"

definition names_ok :: "fuse \<Rightarrow> nat set \<Rightarrow> bool" where
  "names_ok f D \<longleftrightarrow> wf_table (name_slot f) (settle (name_table f)) \<and> elems (name_table f) = named f - D
     \<and> inj_on (nameof f) (named f - D) \<and> finite D
     \<and> use (name_table f) = length (concat (array (name_table f))) + card D
     \<and> (\<forall>a \<in> named f - D. \<exists>i s p. shapes f a = Some (i, s, Some p) \<and> p \<in> dom (nodes f))"

definition node_refs :: "fuse \<Rightarrow> nat set \<Rightarrow> nat set \<Rightarrow> (nat \<Rightarrow> nat) \<Rightarrow> nat \<Rightarrow> node \<Rightarrow> bool" where
  "node_refs f D Z ext a nd \<longleftrightarrow> refctr nd = int (lookup_ref nd + card (kids f D a) + ext a)
     \<and> (a \<notin> Z \<longrightarrow> 0 < refctr nd) \<and> (treelock nd \<noteq> 0 \<longrightarrow> 0 < nlookup nd)"

definition refs_ok :: "fuse \<Rightarrow> nat set \<Rightarrow> nat set \<Rightarrow> (nat \<Rightarrow> nat) \<Rightarrow> bool" where
  "refs_ok f D Z ext \<longleftrightarrow> (\<forall>a nd. nodes f a = Some nd \<longrightarrow> node_refs f D Z ext a nd)"

definition no_kids :: "fuse \<Rightarrow> nat set \<Rightarrow> bool" where
  "no_kids f D \<longleftrightarrow> (\<forall>d \<in> D. kids f D d = {})"

definition roots :: "fuse \<Rightarrow> nat set" where
  "roots f = {a. \<exists>s q. shapes f a = Some (FUSE_ROOT_ID, s, q)}"

definition root_ok :: "fuse \<Rightarrow> bool" where
  "root_ok f \<longleftrightarrow> (\<exists>a nd. nodes f a = Some nd \<and> nodeid nd = FUSE_ROOT_ID \<and> parent nd = None)
     \<and> (\<forall>a nd. nodes f a = Some nd \<longrightarrow> nodeid nd = FUSE_ROOT_ID \<longrightarrow> 0 < nlookup nd)"

definition memory_ok :: "fuse \<Rightarrow> bool" where
  "memory_ok f \<longleftrightarrow> (\<exists>xs. mem_ok (pagesize f) (remember f) (slabs f) (dom (nodes f)) (roots f) xs)
     \<and> (\<forall>a. nodes f a = None \<longrightarrow> name (stale f a) = None \<and> (remember f = 0 \<longrightarrow> nlookup (stale f a) = 0))"

text \<open>
  In the course of an operation: the nodes of \<open>D\<close> have left the table of names while its count lags
  behind, those of \<open>Z\<close> may have no reference left, and \<open>ext\<close> references are about to be dropped.
\<close>

definition sane :: "fuse \<Rightarrow> nat set \<Rightarrow> nat set \<Rightarrow> (nat \<Rightarrow> nat) \<Rightarrow> bool" where
  "sane f D Z ext \<longleftrightarrow> ids_ok f \<and> names_ok f D \<and> refs_ok f D Z ext \<and> root_ok f \<and> memory_ok f"

abbreviation sane0 :: "fuse \<Rightarrow> bool" where
  "sane0 f \<equiv> sane f {} {} (\<lambda>_. 0)"

lemma saneD:
  assumes "sane f D Z ext"
  shows "ids_ok f" "names_ok f D" "refs_ok f D Z ext" "root_ok f" "memory_ok f"
  using assms by (simp_all add: sane_def)

lemma named_parent: "names_ok f D \<Longrightarrow> b \<in> named f - D \<Longrightarrow> \<exists>i s q. shapes f b = Some (i, s, Some q) \<and> q \<in> dom (nodes f)"
  unfolding names_ok_def by blast

lemma finite_nodes: "ids_ok f \<Longrightarrow> finite (dom (nodes f))"
  by (metis List.finite_set elems_def ids_ok_def)

lemma finite_kids: "ids_ok f \<Longrightarrow> finite (kids f D a)"
  by (rule finite_subset [OF _ finite_nodes]) (auto simp: kids_def named_def shapes_def)

lemma kids_dom: "kids f D a \<subseteq> dom (nodes f)"
  by (auto simp: kids_def named_def shapes_def)

text \<open>Changes that the tables do not see.\<close>

lemma ids_ok_frame: "ids_ok f \<Longrightarrow> shapes f' = shapes f \<Longrightarrow> id_table f' = id_table f \<Longrightarrow> ids_ok f'"
  by (simp add: ids_ok_def same_shapes [of f' f])

lemma names_ok_frame: "names_ok f D \<Longrightarrow> shapes f' = shapes f \<Longrightarrow> name_table f' = name_table f \<Longrightarrow> names_ok f' D"
  by (simp add: names_ok_def same_shapes [of f' f])

lemma roots_frame: "shapes f' = shapes f \<Longrightarrow> roots f' = roots f"
  by (simp add: roots_def)

lemma memory_ok_frame:
  "memory_ok f \<Longrightarrow> shapes f' = shapes f \<Longrightarrow> slabs f' = slabs f \<Longrightarrow> stale f' = stale f \<Longrightarrow> remember f' = remember f \<Longrightarrow>
     pagesize f' = pagesize f \<Longrightarrow> memory_ok f'"
  by (simp add: memory_ok_def same_shapes [of f' f] roots_frame [of f' f] shapes_None [symmetric])

lemma refs_okD:
  assumes "refs_ok f D Z ext" "nodes f a = Some nd"
  shows "refctr nd = int (lookup_ref nd + card (kids f D a) + ext a)" "a \<notin> Z \<Longrightarrow> 0 < refctr nd"
    "treelock nd \<noteq> 0 \<Longrightarrow> 0 < nlookup nd"
  using assms unfolding refs_ok_def node_refs_def by blast+

section \<open>Dropping a reference\<close>

lemma shapes_upd: "nodes f a = Some nd \<Longrightarrow> nshape nd' = nshape nd \<Longrightarrow> shapes (f\<lparr>nodes := (nodes f)(a \<mapsto> nd')\<rparr>) = shapes f"
  by (auto simp: shapes_def fun_eq_iff)

lemma root_ok_upd:
  assumes "root_ok f" "nodes f p = Some nd" "nodeid nd' = nodeid nd" "parent nd = None \<longrightarrow> parent nd' = None"
    and "nodeid nd = FUSE_ROOT_ID \<longrightarrow> 0 < nlookup nd'" "nodes f' = (nodes f)(p \<mapsto> nd')"
  shows "root_ok f'"
proof -
  obtain a md where md: "nodes f a = Some md" "nodeid md = FUSE_ROOT_ID" "parent md = None" using assms(1) by (auto simp: root_ok_def)
  have "\<exists>md. nodes f' a = Some md \<and> nodeid md = FUSE_ROOT_ID \<and> parent md = None"
    using md assms(2-4,6) by (cases "a = p") auto
  moreover have "0 < nlookup md" if "nodes f' b = Some md" "nodeid md = FUSE_ROOT_ID" for b md
    using that assms by (cases "b = p") (auto simp: root_ok_def)
  ultimately show ?thesis unfolding root_ok_def by blast
qed

text \<open>Only the node's own counters change.\<close>

lemma sane_counters:
  assumes "sane f D Z ext" "nodes f p = Some nd" "nshape nd' = nshape nd"
    and "node_refs f D Z' ext' p nd'" "\<forall>a. a \<noteq> p \<longrightarrow> ext' a = ext a" "Z \<subseteq> insert p Z'" "nodeid nd = FUSE_ROOT_ID \<longrightarrow> 0 < nlookup nd'"
  shows "sane (f\<lparr>nodes := (nodes f)(p \<mapsto> nd')\<rparr>) D Z' ext'"
proof -
  let ?f = "f\<lparr>nodes := (nodes f)(p \<mapsto> nd')\<rparr>"
  have sh: "shapes ?f = shapes f" using shapes_upd [OF assms(2,3)] .
  note S = saneD [OF assms(1)]
  have "node_refs ?f D Z' ext' a md" if md: "nodes ?f a = Some md" for a md
  proof (cases "a = p")
    case True
    then show ?thesis using md assms(4) unfolding node_refs_def same_shapes [OF sh] by auto
  next
    case False
    then have "node_refs f D Z ext a md" using md S(3) by (simp add: refs_ok_def)
    then show ?thesis using False assms(5,6) unfolding node_refs_def same_shapes [OF sh] by auto
  qed
  then have "refs_ok ?f D Z' ext'" unfolding refs_ok_def by blast
  moreover have "root_ok ?f" by (rule root_ok_upd [OF S(4) assms(2)]) (use assms(3,7) in \<open>auto simp: nshape_def\<close>)
  ultimately show ?thesis
    using S ids_ok_frame [OF _ sh] names_ok_frame [OF _ sh] memory_ok_frame [OF _ sh] by (simp add: sane_def)
qed

lemma unref_dec:
  assumes "sane f D Z (ext(p := Suc (ext p)))" "nodes f p = Some nd" "p \<notin> Z"
  shows "0 < refctr nd" "sane (f\<lparr>nodes := (nodes f)(p \<mapsto> nd\<lparr>refctr := refctr nd - 1\<rparr>)\<rparr>) D (insert p Z) ext"
    "refctr nd \<noteq> 1 \<Longrightarrow> sane (f\<lparr>nodes := (nodes f)(p \<mapsto> nd\<lparr>refctr := refctr nd - 1\<rparr>)\<rparr>) D Z ext"
proof -
  note R = refs_okD [OF saneD(3) [OF assms(1)] assms(2)]
  show pos: "0 < refctr nd" using R(2) assms(3) .
  have ref: "refctr nd - 1 = int (lookup_ref nd + card (kids f D p) + ext p)" using R(1) by simp
  have root: "nodeid nd = FUSE_ROOT_ID \<longrightarrow> 0 < nlookup nd" using saneD(4) [OF assms(1)] assms(2) by (auto simp: root_ok_def)
  have "nshape (nd\<lparr>refctr := refctr nd - 1\<rparr>) = nshape nd" by (simp add: nshape_def)
  note step = sane_counters [OF assms(1,2) this]
  show "sane (f\<lparr>nodes := (nodes f)(p \<mapsto> nd\<lparr>refctr := refctr nd - 1\<rparr>)\<rparr>) D (insert p Z) ext"
    by (rule step) (use ref R(3) root in \<open>auto simp: node_refs_def lookup_ref_def\<close>)
  show "sane (f\<lparr>nodes := (nodes f)(p \<mapsto> nd\<lparr>refctr := refctr nd - 1\<rparr>)\<rparr>) D Z ext" if "refctr nd \<noteq> 1"
    by (rule step) (use ref R(3) pos that root in \<open>auto simp: node_refs_def lookup_ref_def\<close>)
qed

section \<open>Leaving the table of names\<close>

lemma same_nodes: "nodes f' = nodes f \<Longrightarrow> shapes f' = shapes f"
  by (simp add: fun_eq_iff shapes_def)

lemma coin_eq: "\<exists>b cs. coin f = (b, f\<lparr>coins := cs\<rparr>)"
proof (cases "coins f")
  case Nil
  then have "coin f = (True, f\<lparr>coins := coins f\<rparr>)" by (simp add: coin_def)
  then show ?thesis by blast
next
  case (Cons b bs)
  then have "coin f = (b, f\<lparr>coins := bs\<rparr>)" by (simp add: coin_def)
  then show ?thesis by blast
qed

lemma kids_insert: "kids f (insert p D) a = kids f D a - {p}"
  by (auto simp: kids_def)

lemma in_kids: "shapes f p = Some (i, s, Some q) \<Longrightarrow> p \<in> named f - D \<Longrightarrow> p \<in> kids f D a \<longleftrightarrow> a = q"
  by (auto simp: kids_def)

lemma names_detach:
  assumes "names_ok f D" "p \<in> named f - D"
  shows "names_ok (f\<lparr>name_table := detach (name_slot f) p (name_table f)\<rparr>) (insert p D)"
proof -
  let ?t = "name_table f" and ?f = "f\<lparr>name_table := detach (name_slot f) p (name_table f)\<rparr>"
  note N = assms(1) [unfolded names_ok_def]
  have sh: "shapes ?f = shapes f" by (rule same_nodes) simp
  have d: "wf_table (name_slot f) (settle (detach (name_slot f) p ?t))" "elems (detach (name_slot f) p ?t) = elems ?t - {p}"
      "length (concat (array ?t)) = Suc (length (concat (array (detach (name_slot f) p ?t))))"
    using settle_detach [of "name_slot f" ?t p] N assms(2) by auto
  have "elems (detach (name_slot f) p ?t) = named f - insert p D" using d(2) N by auto
  moreover have "use (detach (name_slot f) p ?t) = length (concat (array (detach (name_slot f) p ?t))) + card (insert p D)"
    using N d(3) assms(2) by (simp add: detach_def)
  moreover have "inj_on (nameof f) (named f - insert p D)" by (rule inj_on_subset [of _ "named f - D"]) (use N in auto)
  ultimately show ?thesis using N d(1) unfolding names_ok_def same_shapes [OF sh] sh by simp
qed

lemma sane_detach:
  assumes "sane f D Z ext" "shapes f p = Some (i, Some s, Some q)" "p \<in> named f - D"
  shows "sane (f\<lparr>name_table := detach (name_slot f) p (name_table f)\<rparr>) (insert p D) Z (ext(q := Suc (ext q)))"
proof -
  note S = saneD [OF assms(1)]
  let ?f = "f\<lparr>name_table := detach (name_slot f) p (name_table f)\<rparr>"
  have sh: "shapes ?f = shapes f" by (rule same_nodes) simp
  have "node_refs ?f (insert p D) Z (ext(q := Suc (ext q))) a nd" if nd: "nodes ?f a = Some nd" for a nd
  proof -
    have r: "node_refs f D Z ext a nd" using nd S(3) by (simp add: refs_ok_def)
    have "lookup_ref nd + card (kids f D a) + ext a = lookup_ref nd + card (kids f (insert p D) a) + (ext(q := Suc (ext q))) a"
    proof (cases "a = q")
      case True
      then have "p \<in> kids f D a" using in_kids assms(2,3) by metis
      then have "card (kids f D a) = Suc (card (kids f D a - {p}))" using finite_kids [OF S(1)] by (metis card.remove)
      then show ?thesis using True by (simp add: kids_insert)
    next
      case False
      then have "p \<notin> kids f D a" using in_kids assms(2,3) by metis
      then show ?thesis using False by (simp add: kids_insert)
    qed
    then show ?thesis using r unfolding node_refs_def same_shapes [OF sh] by metis
  qed
  then have "refs_ok ?f (insert p D) Z (ext(q := Suc (ext q)))" unfolding refs_ok_def same_shapes [OF sh] by blast
  moreover have "names_ok ?f (insert p D)" using names_detach [OF S(2) assms(3)] .
  ultimately show ?thesis
    using S(1,4,5) ids_ok_frame [OF _ sh] memory_ok_frame [OF _ sh] by (simp add: sane_def root_ok_def)
qed

text \<open>The node forgets its name and the count of the table catches up.\<close>

lemma shapes_forget:
  assumes "nodes f p = Some nd" "f' = f\<lparr>nodes := (nodes f)(p \<mapsto> nd\<lparr>name := None, parent := None\<rparr>)\<rparr>"
  shows "idof f' = idof f" "named f' = named f - {p}" "kids f' D = kids f (insert p D)" "roots f' = roots f"
    "dom (nodes f') = dom (nodes f)" "a \<noteq> p \<Longrightarrow> nameof f' a = nameof f a" "a \<noteq> p \<Longrightarrow> shapes f' a = shapes f a"
proof -
  have sh: "shapes f' = (shapes f)(p \<mapsto> (nodeid nd, None, None))" using assms by (auto simp: shapes_def nshape_def fun_eq_iff)
  have p: "shapes f p = Some (nodeid nd, name nd, parent nd)" using assms(1) by (simp add: shapes_def nshape_def)
  show i: "idof f' = idof f" by (rule ext) (simp add: idof_shapes sh p)
  show n: "named f' = named f - {p}" by (auto simp: named_def sh)
  show "kids f' D = kids f (insert p D)" by (rule ext) (auto simp: kids_def n sh)
  show "roots f' = roots f" by (auto simp: roots_def sh p)
  show "dom (nodes f') = dom (nodes f)" using assms by auto
  show same: "shapes f' a = shapes f a" if "a \<noteq> p" using that by (simp add: sh)
  show "nameof f' a = nameof f a" if "a \<noteq> p" using same [OF that] by (simp only: nameof_shapes i)
qed

lemma drop_name_runs:
  assumes "names_ok f (insert p D)" "p \<notin> D" "nodes f p = Some nd"
  shows "\<exists>t cs. drop_name p f = Inr (f\<lparr>nodes := (nodes f)(p \<mapsto> nd\<lparr>name := None, parent := None\<rparr>), name_table := t, coins := cs\<rparr>)
    \<and> wf_table (name_slot f) (settle t) \<and> elems t = elems (name_table f) \<and> use t = length (concat (array t)) + card D"
proof -
  note N = assms(1) [unfolded names_ok_def]
  define f1 where "f1 = f\<lparr>nodes := (nodes f)(p \<mapsto> nd\<lparr>name := None, parent := None\<rparr>)\<rparr>"
  define t0 where "t0 = (name_table f)\<lparr>use := use (name_table f) - 1\<rparr>"
  obtain re cs where co: "coin f1 = (re, f1\<lparr>coins := cs\<rparr>)" using coin_eq by blast
  have wf0: "wf_table (name_slot f) (settle t0)" using N by (simp add: t0_def)
  have "\<exists>t. (if use t0 < tsize t0 div 4 then remerge re t0 else Inr t0) = Inr t \<and> wf_table (name_slot f) (settle t)
      \<and> elems t = elems t0 \<and> use t = use t0 \<and> length (concat (array t)) = length (concat (array t0))"
    using settle_remerge [OF wf0, of re] wf0 by auto
  then obtain t where t: "(if use t0 < tsize t0 div 4 then remerge re t0 else Inr t0) = Inr t" "wf_table (name_slot f) (settle t)"
      "elems t = elems t0" "use t = use t0" "length (concat (array t)) = length (concat (array t0))" by blast
  have m: "modn p (\<lambda>nd. nd\<lparr>name := None, parent := None\<rparr>) f = Inr f1" using assms(3) by (simp add: modn_def getn_def f1_def)
  have nt: "name_table f1 = name_table f" by (simp add: f1_def)
  have "drop_name p f = bindc (if use t0 < tsize t0 div 4 then remerge re t0 else Inr t0) (\<lambda>t. Inr (f1\<lparr>coins := cs, name_table := t\<rparr>))"
    unfolding t0_def by (simp add: drop_name_def m Let_def co nt)
  then have "drop_name p f = Inr (f1\<lparr>name_table := t, coins := cs\<rparr>)" using t(1) by simp
  moreover have "use t = length (concat (array t)) + card D" using t(4,5) N assms(2) by (simp add: t0_def)
  ultimately show ?thesis using t(2,3) by (auto simp: t0_def f1_def)
qed

lemma drop_name_ok:
  assumes "sane f (insert p D) Z ext" "p \<notin> D" "nodes f p = Some nd"
  shows "\<exists>t cs. drop_name p f = Inr (f\<lparr>nodes := (nodes f)(p \<mapsto> nd\<lparr>name := None, parent := None\<rparr>), name_table := t, coins := cs\<rparr>)
    \<and> sane (f\<lparr>nodes := (nodes f)(p \<mapsto> nd\<lparr>name := None, parent := None\<rparr>), name_table := t, coins := cs\<rparr>) D Z ext"
proof -
  note S = saneD [OF assms(1)]
  note N = S(2) [unfolded names_ok_def]
  define f1 where "f1 = f\<lparr>nodes := (nodes f)(p \<mapsto> nd\<lparr>name := None, parent := None\<rparr>)\<rparr>"
  note sh = shapes_forget [OF assms(3) f1_def]
  obtain t cs where t: "drop_name p f = Inr (f1\<lparr>name_table := t, coins := cs\<rparr>)" "wf_table (name_slot f) (settle t)"
      "elems t = elems (name_table f)" "use t = length (concat (array t)) + card D"
    using drop_name_runs [OF S(2) assms(2,3)] by (auto simp: f1_def)
  define f2 where "f2 = f1\<lparr>name_table := t, coins := cs\<rparr>"
  have sh2: "shapes f2 = shapes f1" by (rule same_nodes) (simp add: f2_def)
  note e2 = same_shapes [OF sh2]
  have nm: "named f1 - D = named f - insert p D" using sh(2) by auto
  have el: "elems t = named f1 - D" using t(3) N nm by simp
  have same: "nameof f1 a = nameof f a" if "a \<in> named f1 - D" for a by (rule sh(6)) (use that sh(2) in auto)
  have "\<forall>a \<in> elems (settle t). name_slot f a = name_slot f1 a" using same el by simp
  then have wf: "wf_table (name_slot f1) (settle t)" using t(2) by (rule iffD1 [OF wf_table_cong])
  have "inj_on (nameof f1) (named f1 - D)"
    using N inj_on_cong [of "named f1 - D", OF same] unfolding nm by simp
  moreover have "use t = length (concat (array t)) + card D" by (rule t(4))
  moreover have "\<forall>a \<in> named f1 - D. \<exists>i s q. shapes f1 a = Some (i, s, Some q) \<and> q \<in> dom (nodes f1)"
  proof
    fix a assume a: "a \<in> named f1 - D"
    then have "a \<noteq> p" "a \<in> named f - insert p D" using sh(2) by auto
    then show "\<exists>i s q. shapes f1 a = Some (i, s, Some q) \<and> q \<in> dom (nodes f1)" unfolding sh(5) using N sh(7) by metis
  qed
  ultimately have "names_ok f2 D"
    using el wf N unfolding names_ok_def e2 sh2 by (simp add: f2_def)
  moreover have "refs_ok f2 D Z ext"
  proof -
    have "node_refs f2 D Z ext a md" if md: "nodes f2 a = Some md" for a md
    proof (cases "a = p")
      case True
      have "node_refs f (insert p D) Z ext p nd" using S(3) assms(3) by (simp add: refs_ok_def)
      moreover have "md = nd\<lparr>name := None, parent := None\<rparr>" using md True by (simp add: f2_def f1_def)
      ultimately show ?thesis using True by (auto simp: node_refs_def e2 sh(3) lookup_ref_def)
    next
      case False
      then have "node_refs f (insert p D) Z ext a md" using S(3) md by (simp add: refs_ok_def f2_def f1_def)
      then show ?thesis by (auto simp: node_refs_def e2 sh(3))
    qed
    then show ?thesis by (simp add: refs_ok_def)
  qed
  moreover have "ids_ok f2" using S(1) unfolding ids_ok_def e2 sh(1,5) by (simp add: f2_def f1_def)
  moreover have "root_ok f2"
    by (rule root_ok_upd [OF S(4) assms(3)]) (use S(4) assms(3) in \<open>auto simp: f2_def f1_def root_ok_def\<close>)
  moreover have "memory_ok f2"
  proof -
    have "roots f2 = roots f" using roots_frame [OF sh2] sh(4) by simp
    moreover have "nodes f2 a = None \<longleftrightarrow> nodes f a = None" for a using assms(3) by (simp add: f2_def f1_def)
    ultimately show ?thesis using S(5) unfolding memory_ok_def e2 sh(5) by (simp add: f2_def f1_def)
  qed
  ultimately have "sane f2 D Z ext" by (simp add: sane_def)
  moreover have "drop_name p f = Inr f2" using t(1) by (simp add: f2_def)
  moreover have "f2 = f\<lparr>nodes := (nodes f)(p \<mapsto> nd\<lparr>name := None, parent := None\<rparr>), name_table := t, coins := cs\<rparr>"
    by (simp add: f2_def f1_def)
  ultimately show ?thesis by metis
qed

section \<open>Freeing a node\<close>

definition rest :: "fuse \<Rightarrow> int \<times> nat \<times> nat \<times> nat \<times> nat \<times> int \<times> nat list" where
  "rest f = (remember f, pagesize f, ctr f, generation f, hidectr f, curr_ticket f, lockq f)"

lemma shapes_gone:
  assumes "nodes f p = Some nd" "name nd = None" "nodes f' = (nodes f)(p := None)"
  shows "named f' = named f" "kids f' D = kids f D" "roots f' = roots f - {p}" "dom (nodes f') = dom (nodes f) - {p}"
    "a \<noteq> p \<Longrightarrow> idof f' a = idof f a" "a \<noteq> p \<Longrightarrow> shapes f' a = shapes f a"
    "shapes f a = Some (i, s, Some q) \<Longrightarrow> q \<noteq> p \<Longrightarrow> a \<noteq> p \<Longrightarrow> nameof f' a = nameof f a"
proof -
  have sh: "shapes f' = (shapes f)(p := None)" using assms by (auto simp: shapes_def fun_eq_iff)
  have p: "shapes f p = Some (nodeid nd, None, parent nd)" using assms by (simp add: shapes_def nshape_def)
  show n: "named f' = named f" using p by (auto simp: named_def sh)
  have "p \<notin> named f" using p by (simp add: named_def)
  then show "kids f' D = kids f D" unfolding kids_def fun_eq_iff n sh by (auto simp: named_def)
  show "roots f' = roots f - {p}" by (auto simp: roots_def sh)
  show "dom (nodes f') = dom (nodes f) - {p}" using assms by simp
  show i: "idof f' a = idof f a" if "a \<noteq> p" for a using that by (simp add: idof_shapes sh)
  show "a \<noteq> p \<Longrightarrow> shapes f' a = shapes f a" by (simp add: sh)
  show "nameof f' a = nameof f a" if "shapes f a = Some (i, s, Some q)" "q \<noteq> p" "a \<noteq> p"
    using that i [OF that(2)] by (auto simp: nameof_shapes sh split: option.splits)
qed

lemma node_gone_runs:
  assumes "ids_ok f" "memory_ok f" "nodes f p = Some nd" "p \<notin> roots f"
  shows "\<exists>f' t xs. bindc (if lru_enabled (remember f) then remove_node_lru p f else Inr f) (\<lambda>f. bindc (node_unhash_id p f) (free_node p)) = Inr f'
    \<and> nodes f' = (nodes f)(p := None) \<and> rest f' = rest f \<and> name_table f' = name_table f \<and> id_table f' = t \<and> stale f' = (stale f)(p := nd)
    \<and> wf_table (\<lambda>a. id_key (idof f a)) t \<and> elems t = dom (nodes f) - {p}
    \<and> mem_ok (pagesize f) (remember f) (slabs f') (dom (nodes f) - {p}) (roots f - {p}) xs"
proof -
  have p: "p \<in> dom (nodes f) - roots f" using assms(3,4) by auto
  obtain xs where xs: "mem_ok (pagesize f) (remember f) (slabs f) (dom (nodes f)) (roots f) xs" using assms(2) by (auto simp: memory_ok_def)
  obtain s1 xs1 where s1: "(if lru_enabled (remember f) then lru_unlink p (slabs f) else Inr (slabs f)) = Inr s1"
      "mem_ok (pagesize f) (remember f) s1 (dom (nodes f)) (roots f) xs1" "p \<notin> set xs1"
    using lru_off_any [OF xs p] by blast
  define f1 where "f1 = f\<lparr>slabs := s1\<rparr>"
  have e1: "(if lru_enabled (remember f) then remove_node_lru p f else Inr f) = Inr f1"
    using s1(1) by (cases f) (auto simp: remove_node_lru_def on_slabs_def f1_def)
  obtain re cs where c1: "coin f1 = (re, f1\<lparr>coins := cs\<rparr>)" using coin_eq by blast
  have id: "idof f1 = idof f" "idof (f1\<lparr>coins := cs\<rparr>) = idof f" by (auto simp: idof_def f1_def fun_eq_iff)
  obtain t where t: "table_remove (\<lambda>a. id_key (idof f a)) re p (id_table f) = Inr (Some t)" "wf_table (\<lambda>a. id_key (idof f a)) t"
      "elems t = elems (id_table f) - {p}"
    using remove_ok [of "\<lambda>a. id_key (idof f a)" "id_table f" p re] assms(1) p by (auto simp: ids_ok_def)
  define f2 where "f2 = f1\<lparr>coins := cs, id_table := t\<rparr>"
  have e2: "node_unhash_id p f1 = Inr f2"
  proof -
    have "id_table f1 = id_table f" by (simp add: f1_def)
    then show ?thesis using t(1) by (simp add: node_unhash_id_def c1 unhash_id_def id f2_def)
  qed
  obtain um cs2 where c2: "coin f2 = (um, f2\<lparr>coins := cs2\<rparr>)" using coin_eq by blast
  obtain s3 where s3: "free_node_mem (pagesize f) um p s1 = Inr s3"
      "mem_ok (pagesize f) (remember f) s3 (dom (nodes f) - {p}) (roots f - {p}) xs1"
    using mem_free [OF s1(2) _ s1(3)] p by blast
  define f3 where "f3 = f2\<lparr>coins := cs2, slabs := s3, nodes := (nodes f)(p := None), stale := (stale f)(p := nd)\<rparr>"
  have e3: "free_node p f2 = Inr f3"
  proof -
    have "nodes f2 = nodes f" "pagesize f2 = pagesize f" "slabs f2 = s1" "stale f2 = stale f" by (simp_all add: f2_def f1_def)
    then show ?thesis using s3(1) assms(3) by (simp add: free_node_def getn_def c2 f3_def)
  qed
  have "elems t = dom (nodes f) - {p}" using t(3) assms(1) by (simp add: ids_ok_def)
  then show ?thesis using e1 e2 e3 t(2) s3(2) by (auto simp: f3_def f2_def f1_def rest_def)
qed

lemma node_gone:
  assumes "sane f D (insert p Z) ext" "nodes f p = Some nd" "refctr nd = 0" "name nd = None" "p \<notin> D"
  shows "\<exists>f'. bindc (if lru_enabled (remember f) then remove_node_lru p f else Inr f) (\<lambda>f. bindc (node_unhash_id p f) (free_node p)) = Inr f'
    \<and> sane f' D Z ext \<and> nodes f' = (nodes f)(p := None) \<and> rest f' = rest f"
proof -
  note S = saneD [OF assms(1)]
  note R = refs_okD [OF S(3) assms(2)]
  have "int (lookup_ref nd + card (kids f D p) + ext p) = 0" using R(1) assms(3) by simp
  then have none: "nlookup nd = 0" "card (kids f D p) = 0" by (auto simp: lookup_ref_def split: if_splits)
  then have nokid: "kids f D p = {}" using finite_kids [OF S(1)] by simp
  have "nodeid nd \<noteq> FUSE_ROOT_ID" using S(4) assms(2) none(1) unfolding root_ok_def by (metis less_numeral_extra(3))
  then have p: "p \<in> dom (nodes f) - roots f" using assms(2) by (auto simp: roots_def shapes_def nshape_def)
  obtain f3 t xs1 where f3: "bindc (if lru_enabled (remember f) then remove_node_lru p f else Inr f) (\<lambda>f. bindc (node_unhash_id p f) (free_node p)) = Inr f3"
      and n3: "nodes f3 = (nodes f)(p := None)" and r3: "rest f3 = rest f" and nt: "name_table f3 = name_table f" and it: "id_table f3 = t"
      and st: "stale f3 = (stale f)(p := nd)" and t: "wf_table (\<lambda>a. id_key (idof f a)) t" "elems t = dom (nodes f) - {p}"
      and mem: "mem_ok (pagesize f) (remember f) (slabs f3) (dom (nodes f) - {p}) (roots f - {p}) xs1"
    using node_gone_runs [OF S(1,5) assms(2)] p by blast
  note sh = shapes_gone [OF assms(2,4) n3]
  have "ids_ok f3"
  proof -
    have el: "elems t = dom (nodes f3)" using t(2) sh(4) by simp
    have same: "idof f3 a = idof f a" if "a \<in> dom (nodes f3)" for a by (rule sh(5)) (use that sh(4) in auto)
    have "wf_table (\<lambda>a. id_key (idof f3 a)) t"
      by (rule iffD1 [OF wf_table_cong [of _ "\<lambda>a. id_key (idof f a)"]]) (use t(1) el same in auto)
    moreover have "inj_on (idof f3) (dom (nodes f3))"
      using inj_on_cong [of "dom (nodes f3)", OF same] S(1) sh(4) by (auto simp: ids_ok_def inj_on_diff)
    ultimately show ?thesis using el it by (simp add: ids_ok_def)
  qed
  moreover have "names_ok f3 D"
  proof -
    note N = S(2) [unfolded names_ok_def]
    have par: "\<exists>i s q. shapes f a = Some (i, s, Some q) \<and> q \<in> dom (nodes f) \<and> q \<noteq> p \<and> a \<noteq> p" if a: "a \<in> named f - D" for a
    proof -
      obtain i s q where q: "shapes f a = Some (i, s, Some q)" "q \<in> dom (nodes f)" using N a by blast
      moreover have "q \<noteq> p" using nokid in_kids [OF q(1) a, of p] by auto
      moreover have "a \<noteq> p" using a assms(2,4) by (auto simp: named_def shapes_def nshape_def)
      ultimately show ?thesis by blast
    qed
    then have same: "nameof f3 a = nameof f a" if "a \<in> named f - D" for a using that sh(7) by metis
    have "wf_table (name_slot f3) (settle (name_table f))"
      by (rule iffD1 [OF wf_table_cong [of _ "name_slot f"]]) (use N same in auto)
    moreover have "inj_on (nameof f3) (named f - D)" using N inj_on_cong [of "named f - D", OF same] by simp
    moreover have "\<forall>a \<in> named f - D. \<exists>i s q. shapes f3 a = Some (i, s, Some q) \<and> q \<in> dom (nodes f3)"
      using par sh(4,6) by fastforce
    ultimately show ?thesis using N unfolding names_ok_def sh(1) by (simp add: nt)
  qed
  moreover have "refs_ok f3 D Z ext"
  proof -
    have "node_refs f3 D Z ext a md" if md: "nodes f3 a = Some md" for a md
    proof -
      have "a \<noteq> p" "nodes f a = Some md" using md n3 by (auto split: if_splits)
      then have "node_refs f D (insert p Z) ext a md" using S(3) by (simp add: refs_ok_def)
      then show ?thesis using \<open>a \<noteq> p\<close> by (auto simp: node_refs_def sh(2))
    qed
    then show ?thesis by (simp add: refs_ok_def)
  qed
  moreover have "root_ok f3"
  proof -
    obtain a md where md: "nodes f a = Some md" "nodeid md = FUSE_ROOT_ID" "parent md = None" using S(4) by (auto simp: root_ok_def)
    have "a \<noteq> p" using p md by (auto simp: roots_def shapes_def nshape_def)
    then show ?thesis using S(4) md by (auto simp: root_ok_def n3)
  qed
  moreover have "memory_ok f3"
    using mem S(5) none(1) r3 assms(4) unfolding memory_ok_def sh(3,4) by (auto simp: n3 st rest_def)
  ultimately have "sane f3 D Z ext" by (simp add: sane_def)
  then show ?thesis using f3 n3 r3 by blast
qed

section \<open>Dropping references\<close>

text \<open>What is left after references were dropped: some nodes are gone, the others kept everything but their counter.\<close>

definition survives :: "nat set \<Rightarrow> fuse \<Rightarrow> fuse \<Rightarrow> bool" where
  "survives D f f' \<longleftrightarrow> rest f' = rest f
     \<and> (\<forall>a nd'. nodes f' a = Some nd' \<longrightarrow> (\<exists>nd r. nodes f a = Some nd \<and> nd' = nd\<lparr>refctr := r\<rparr>))
     \<and> (\<forall>a nd. nodes f a = Some nd \<longrightarrow> 0 < nlookup nd \<or> a \<in> D \<longrightarrow> nodes f' a \<noteq> None)"

definition referred :: "fuse \<Rightarrow> nat set" where
  "referred f = {a. \<exists>nd. nodes f a = Some nd \<and> 0 < refctr nd}"

lemma finite_referred: "ids_ok f \<Longrightarrow> finite (referred f)"
  by (rule finite_subset [OF _ finite_nodes]) (auto simp: referred_def)

lemma survives_node: "survives D f f' \<Longrightarrow> nodes f a = Some nd \<Longrightarrow> 0 < nlookup nd \<or> a \<in> D \<Longrightarrow> \<exists>r. nodes f' a = Some (nd\<lparr>refctr := r\<rparr>)"
  unfolding survives_def by (metis not_None_eq option.inject)

lemma survives_refl: "survives D f f"
proof -
  have "nd = nd\<lparr>refctr := refctr nd\<rparr>" for nd :: node by simp
  then show ?thesis unfolding survives_def by blast
qed

lemma survives_trans:
  assumes "survives D f g" "survives D g h"
  shows "survives D f h"
proof -
  have "\<exists>nd r. nodes f a = Some nd \<and> nd' = nd\<lparr>refctr := r\<rparr>" if h: "nodes h a = Some nd'" for a nd'
  proof -
    obtain md r where m: "nodes g a = Some md" "nd' = md\<lparr>refctr := r\<rparr>" using assms(2) h unfolding survives_def by blast
    obtain nd r' where "nodes f a = Some nd" "md = nd\<lparr>refctr := r'\<rparr>" using assms(1) m(1) unfolding survives_def by blast
    then show ?thesis using m(2) by auto
  qed
  moreover have "nodes h a \<noteq> None" if a: "nodes f a = Some nd" "0 < nlookup nd \<or> a \<in> D" for a nd
  proof -
    obtain r where "nodes g a = Some (nd\<lparr>refctr := r\<rparr>)" using survives_node [OF assms(1) a] by blast
    then show ?thesis using survives_node [OF assms(2)] a(2) by fastforce
  qed
  ultimately show ?thesis using assms unfolding survives_def by simp
qed

lemma survives_shapes:
  assumes "survives D f f'" "shapes f' a = Some x"
  shows "shapes f a = Some x"
proof -
  obtain nd' where nd': "nodes f' a = Some nd'" "x = nshape nd'" using assms(2) by (auto simp: shapes_def)
  then obtain nd r where "nodes f a = Some nd" "nd' = nd\<lparr>refctr := r\<rparr>" using assms(1) unfolding survives_def by blast
  then show ?thesis using nd'(2) by (simp add: shapes_def nshape_def)
qed

lemma survives_kids: "survives D f f' \<Longrightarrow> kids f' E a \<subseteq> kids f E a"
  using survives_shapes [of D f f'] unfolding kids_def named_def by fast

text \<open>The first half of \<open>unhash_name\<close>: the node leaves its chain, and the parent is about to lose a reference.\<close>

lemma unhash_name_run:
  assumes "names_ok f D" "nodes f p = Some nd" "p \<notin> D" "name nd = Some s" "nodeid nd \<noteq> FUSE_ROOT_ID"
    and "f2 = f\<lparr>name_table := detach (name_slot f) p (name_table f)\<rparr>"
  shows "\<exists>q qn. parent nd = Some q \<and> nodes f q = Some qn \<and> p \<in> kids f D q
    \<and> unhash_name_with unref p f = bindc (unref q f2) (drop_name p)"
proof -
  note N = assms(1) [unfolded names_ok_def]
  have sp: "shapes f p = Some (nodeid nd, Some s, parent nd)" using assms(2,4) by (simp add: shapes_def nshape_def)
  then have p: "p \<in> named f - D" using assms(3,5) by (auto simp: named_def)
  then obtain q where q: "parent nd = Some q" "q \<in> dom (nodes f)" using N sp by (metis option.inject prod.inject)
  then obtain qn where qn: "nodes f q = Some qn" by auto
  have kid: "p \<in> kids f D q" using sp q(1) p in_kids by metis
  have nm: "nameof f p = (nodeid qn, s)" using sp q(1) qn by (simp add: nameof_shapes) (simp add: idof_def)
  let ?t = "name_table f" and ?i = "name_hash (name_table f) (nodeid qn) s"
  have slot: "?i = table_slot ?t (name_slot f p)" by (simp add: name_hash_def nm)
  have b: "bucket (settle ?t) ?i = Inr (array ?t ! ?i)" "p \<in> set (array ?t ! ?i)"
    using bucket_slot [of "name_slot f" "settle ?t" "name_slot f p"] in_chain [of "name_slot f" "settle ?t" p] N p slot by auto
  have b': "bucket ?t ?i = Inr (array ?t ! ?i)" using b(1) by (simp add: bucket_def split: if_splits)
  have f2: "f\<lparr>name_table := ?t\<lparr>array := (array ?t)[?i := remove1 p (array ?t ! ?i)]\<rparr>\<rparr> = f2"
    unfolding assms(6) detach_def slot by simp
  have "unhash_name_with unref p f = bindc (unref q f2) (drop_name p)"
    using assms(2,4) q(1) qn b' b(2) f2 by (simp add: unhash_name_with_def getn_def Let_def)
  then show ?thesis using q(1) qn kid by blast
qed

lemma unhash_name_step:
  assumes "sane f D Z ext" "nodes f p = Some nd" "p \<notin> D" "name nd = Some s" "nodeid nd \<noteq> FUSE_ROOT_ID"
    and "f2 = f\<lparr>name_table := detach (name_slot f) p (name_table f)\<rparr>"
  shows "\<exists>q qn. parent nd = Some q \<and> nodes f q = Some qn \<and> p \<in> kids f D q
    \<and> unhash_name_with unref p f = bindc (unref q f2) (drop_name p) \<and> sane f2 (insert p D) Z (ext(q := Suc (ext q)))"
proof -
  obtain q qn where q: "parent nd = Some q" "nodes f q = Some qn" "p \<in> kids f D q"
      "unhash_name_with unref p f = bindc (unref q f2) (drop_name p)"
    using unhash_name_run [OF saneD(2) [OF assms(1)] assms(2-6)] by blast
  have sp: "shapes f p = Some (nodeid nd, Some s, Some q)" using assms(2,4) q(1) by (simp add: shapes_def nshape_def)
  then have "p \<in> named f - D" using assms(3,5) by (auto simp: named_def)
  then have "sane f2 (insert p D) Z (ext(q := Suc (ext q)))"
    unfolding assms(6) using sane_detach [OF assms(1) sp] by simp
  then show ?thesis using q by blast
qed

text \<open>The name of a node that is about to go, with what the recursive call does for the parent.\<close>

lemma unhash_name_ok:
  assumes "sane f D Z ext" "nodes f p = Some nd" "p \<notin> D" "kids f D p = {}" "nodeid nd \<noteq> FUSE_ROOT_ID" "no_kids f D"
    and call: "\<And>q f2. q \<notin> insert p D \<Longrightarrow> q \<in> dom (nodes f2) \<Longrightarrow> nodes f2 = nodes f \<Longrightarrow> rest f2 = rest f \<Longrightarrow> id_table f2 = id_table f \<Longrightarrow>
      no_kids f2 (insert p D) \<Longrightarrow> sane f2 (insert p D) Z (ext(q := Suc (ext q))) \<Longrightarrow> \<exists>f3. unref q f2 = Inr f3 \<and> sane f3 (insert p D) Z ext \<and> survives (insert p D) f2 f3"
  shows "\<exists>f'. unhash_name_with unref p f = Inr f' \<and> sane f' D Z ext \<and> nodes f' p = Some (nd\<lparr>name := None, parent := (if name nd = None then parent nd else None)\<rparr>)
    \<and> survives D f (f'\<lparr>nodes := (nodes f')(p \<mapsto> nd)\<rparr>)"
proof (cases "name nd")
  case None
  then have "nd\<lparr>name := None, parent := parent nd\<rparr> = nd" by simp
  moreover have "f\<lparr>nodes := (nodes f)(p \<mapsto> nd)\<rparr> = f" using assms(2) by (simp add: fun_upd_idem)
  moreover have "unhash_name_with unref p f = Inr f" using None assms(2) by (simp add: unhash_name_with_def getn_def)
  ultimately show ?thesis using None assms(1,2) survives_refl [of D f] by simp
next
  case (Some s)
  note S = saneD [OF assms(1)]
  define f2 where "f2 = f\<lparr>name_table := detach (name_slot f) p (name_table f)\<rparr>"
  obtain q qn where q: "parent nd = Some q" "nodes f q = Some qn" "p \<in> kids f D q"
      "unhash_name_with unref p f = bindc (unref q f2) (drop_name p)" and s2: "sane f2 (insert p D) Z (ext(q := Suc (ext q)))"
    using unhash_name_step [OF assms(1-3) Some assms(5) f2_def] by blast
  have qD: "q \<notin> insert p D" using assms(4,6) q(3) by (auto simp: no_kids_def)
  have sh2: "shapes f2 = shapes f" by (rule same_nodes) (simp add: f2_def)
  have k2: "no_kids f2 (insert p D)" using assms(4,6) by (auto simp: no_kids_def same_shapes(5) [OF sh2] kids_insert)
  obtain f3 where f3: "unref q f2 = Inr f3" "sane f3 (insert p D) Z ext" "survives (insert p D) f2 f3"
    using call [OF qD _ _ _ _ k2 s2] q(2) by (force simp: f2_def rest_def)
  obtain r where r: "nodes f3 p = Some (nd\<lparr>refctr := r\<rparr>)"
    using survives_node [OF f3(3), of p nd] assms(2) by (auto simp: f2_def)
  have "refctr (nd\<lparr>refctr := r\<rparr>) = int (lookup_ref (nd\<lparr>refctr := r\<rparr>) + card (kids f3 (insert p D) p) + ext p)"
    using refs_okD(1) [OF saneD(3) [OF f3(2)] r] .
  moreover have "kids f3 (insert p D) p = {}" using survives_kids [OF f3(3)] k2 by (auto simp: no_kids_def)
  moreover have "refctr nd = int (lookup_ref nd + card (kids f D p) + ext p)" using refs_okD(1) [OF S(3) assms(2)] .
  ultimately have "r = refctr nd" using assms(4) by (simp add: lookup_ref_def)
  then have r: "nodes f3 p = Some nd" using r by simp
  obtain t cs where d: "drop_name p f3 = Inr (f3\<lparr>nodes := (nodes f3)(p \<mapsto> nd\<lparr>name := None, parent := None\<rparr>), name_table := t, coins := cs\<rparr>)"
      "sane (f3\<lparr>nodes := (nodes f3)(p \<mapsto> nd\<lparr>name := None, parent := None\<rparr>), name_table := t, coins := cs\<rparr>) D Z ext"
    using drop_name_ok [OF f3(2) assms(3) r] by blast
  let ?f' = "f3\<lparr>nodes := (nodes f3)(p \<mapsto> nd\<lparr>name := None, parent := None\<rparr>), name_table := t, coins := cs\<rparr>"
  have "unhash_name_with unref p f = Inr ?f'"
    using q(4) f3(1) d(1) by simp
  moreover have "survives D f (?f'\<lparr>nodes := (nodes ?f')(p \<mapsto> nd)\<rparr>)"
  proof -
    have "(nodes ?f')(p \<mapsto> nd) = nodes f3" using r by (simp add: fun_upd_idem)
    then show ?thesis using f3(3) by (simp add: survives_def f2_def rest_def)
  qed
  ultimately show ?thesis using d(2) Some by auto
qed

lemma survives_dec: "nodes f p = Some nd \<Longrightarrow> survives D f (f\<lparr>nodes := (nodes f)(p \<mapsto> nd\<lparr>refctr := r\<rparr>)\<rparr>)"
  using survives_refl [of D f] by (auto simp: survives_def rest_def)

lemma unref_last:
  assumes s: "sane f D Z (ext(p := Suc (ext p)))" and nd: "nodes f p = Some nd" "refctr nd = 1" "p \<notin> Z"
    and f1: "f1 = f\<lparr>nodes := (nodes f)(p \<mapsto> nd\<lparr>refctr := 0\<rparr>)\<rparr>"
  shows "sane f1 D (insert p Z) ext" "nlookup nd = 0" "kids f1 D p = {}" "treelock nd = 0" "nodeid nd \<noteq> FUSE_ROOT_ID" "referred f1 = referred f - {p}"
proof -
  show s1: "sane f1 D (insert p Z) ext" using unref_dec(2) [OF s nd(1,3)] nd(2) by (simp add: f1)
  have p1: "nodes f1 p = Some (nd\<lparr>refctr := 0\<rparr>)" by (simp add: f1)
  note R = refs_okD [OF saneD(3) [OF s1] p1]
  have "int (lookup_ref (nd\<lparr>refctr := 0\<rparr>) + card (kids f1 D p) + ext p) = 0" using R(1) by simp
  then have none: "nlookup nd = 0" "card (kids f1 D p) = 0" by (auto simp: lookup_ref_def split: if_splits)
  then show "nlookup nd = 0" "kids f1 D p = {}" using finite_kids [OF saneD(1) [OF s1]] by simp_all
  show "treelock nd = 0" using R(3) none(1) by auto
  show "nodeid nd \<noteq> FUSE_ROOT_ID" using saneD(4) [OF s] nd(1) none(1) unfolding root_ok_def by (metis less_numeral_extra(3))
  show "referred f1 = referred f - {p}" by (auto simp: referred_def f1)
qed

lemma unref_loop_ok:
  assumes "sane f D Z (ext(p := Suc (ext p)))" "p \<in> dom (nodes f)" "p \<notin> D" "Z \<subseteq> D" "card (referred f) \<le> fuel" "no_kids f D"
  shows "\<exists>f'. unref_loop fuel p f = Inr f' \<and> sane f' D Z ext \<and> survives D f f'"
  using assms
proof (induction fuel arbitrary: f D Z ext p)
  case 0
  then obtain nd where nd: "nodes f p = Some nd" by auto
  moreover have "p \<notin> Z" using "0.prems"(3,4) by blast
  ultimately have "p \<in> referred f" using unref_dec(1) [OF "0.prems"(1)] by (auto simp: referred_def)
  then show ?case using "0.prems"(5) finite_referred [OF saneD(1) [OF "0.prems"(1)]] by auto
next
  case (Suc n)
  obtain nd where nd: "nodes f p = Some nd" using Suc.prems(2) by auto
  have pZ: "p \<notin> Z" using Suc.prems(3,4) by blast
  note dec = unref_dec [OF Suc.prems(1) nd pZ]
  define f1 where "f1 = f\<lparr>nodes := (nodes f)(p \<mapsto> nd\<lparr>refctr := refctr nd - 1\<rparr>)\<rparr>"
  have un: "unref_loop (Suc n) p f = (if refctr nd = 1 then delete_node_with (unref_loop n) p f1 else Inr f1)"
    using nd dec(1) by (simp add: getn_def modn_def f1_def)
  show ?case
  proof (cases "refctr nd = 1")
    case False
    then show ?thesis using un dec(3) survives_dec [OF nd] f1_def by auto
  next
    case True
    then have f1: "f1 = f\<lparr>nodes := (nodes f)(p \<mapsto> nd\<lparr>refctr := 0\<rparr>)\<rparr>" by (simp add: f1_def)
    note L = unref_last [OF Suc.prems(1) nd True pZ f1]
    define nd1 where "nd1 = nd\<lparr>refctr := 0\<rparr>"
    have p1: "nodes f1 p = Some nd1" by (simp add: f1 nd1_def)
    have "p \<in> referred f" using nd True by (auto simp: referred_def)
    then have card: "card (referred f1) \<le> n" using Suc.prems(5) L(6) finite_referred [OF saneD(1) [OF Suc.prems(1)]] by simp
    have "\<exists>f'. unhash_name_with (unref_loop n) p f1 = Inr f' \<and> sane f' D (insert p Z) ext
        \<and> nodes f' p = Some (nd1\<lparr>name := None, parent := (if name nd1 = None then parent nd1 else None)\<rparr>)
        \<and> survives D f1 (f'\<lparr>nodes := (nodes f')(p \<mapsto> nd1)\<rparr>)"
    proof (rule unhash_name_ok [OF L(1) p1 Suc.prems(3) L(3)])
      show "nodeid nd1 \<noteq> FUSE_ROOT_ID" using L(5) by (simp add: nd1_def)
      have "shapes f1 = shapes f" unfolding f1 using shapes_upd [OF nd] by (simp add: nshape_def)
      then show "no_kids f1 D" using Suc.prems(6) same_shapes(5) [of f1 f] by (simp add: no_kids_def)
      fix q f2
      assume q: "q \<notin> insert p D" "q \<in> dom (nodes f2)" "nodes f2 = nodes f1"
        "sane f2 (insert p D) (insert p Z) (ext(q := Suc (ext q)))" "no_kids f2 (insert p D)"
      have "referred f2 = referred f1" using q(3) by (simp add: referred_def)
      then show "\<exists>f3. unref_loop n q f2 = Inr f3 \<and> sane f3 (insert p D) (insert p Z) ext \<and> survives (insert p D) f2 f3"
        using Suc.IH [OF q(4,2,1)] Suc.prems(4) card q(5) by auto
    qed
    then obtain f2 where f2: "unhash_name_with (unref_loop n) p f1 = Inr f2" "sane f2 D (insert p Z) ext"
        "nodes f2 p = Some (nd1\<lparr>name := None, parent := (if name nd1 = None then parent nd1 else None)\<rparr>)"
        "survives D f1 (f2\<lparr>nodes := (nodes f2)(p \<mapsto> nd1)\<rparr>)" by blast
    obtain f' where f': "bindc (if lru_enabled (remember f2) then remove_node_lru p f2 else Inr f2) (\<lambda>f. bindc (node_unhash_id p f) (free_node p)) = Inr f'"
        "sane f' D Z ext" "nodes f' = (nodes f2)(p := None)" "rest f' = rest f2"
      using node_gone [OF f2(2,3)] Suc.prems(3) by (auto simp: nd1_def)
    have "unref_loop (Suc n) p f = Inr f'"
      using un True p1 f2(1) f'(1) L(4) by (simp add: delete_node_with_def getn_def nd1_def)
    moreover have "survives D f f'"
    proof -
      have "rest f' = rest f" using f'(4) f2(4) by (simp add: survives_def rest_def f1)
      moreover have "\<exists>md r. nodes f a = Some md \<and> nd' = md\<lparr>refctr := r\<rparr>" if a: "nodes f' a = Some nd'" for a nd'
      proof -
        have "a \<noteq> p" "nodes f2 a = Some nd'" using a f'(3) by (auto split: if_splits)
        then have "\<exists>md r. nodes f1 a = Some md \<and> nd' = md\<lparr>refctr := r\<rparr>" using f2(4) unfolding survives_def by simp
        then show ?thesis using \<open>a \<noteq> p\<close> by (simp add: f1)
      qed
      moreover have "nodes f' a \<noteq> None" if a: "nodes f a = Some md" "0 < nlookup md \<or> a \<in> D" for a md
      proof -
        have "a \<noteq> p" using a nd L(2) Suc.prems(3) by auto
        moreover have "nodes f1 a = Some md" using a(1) calculation by (simp add: f1)
        ultimately have "nodes f2 a \<noteq> None" using survives_node [OF f2(4) _ a(2)] by auto
        then show ?thesis using \<open>a \<noteq> p\<close> f'(3) by simp
      qed
      ultimately show ?thesis unfolding survives_def by blast
    qed
    ultimately show ?thesis using f'(2) by blast
  qed
qed

end
