(* ===== verification/Fuse_Node_Ops.thy ===== *)
theory Fuse_Node_Ops
  imports Fuse_Refs
begin

text \<open>
  The operations on nodes keep the invariant of \<open>Fuse_Refs\<close> and do what they say: lookup finds or
  creates, forget drops, unlink and rename move names. The places where they do not are shown as well.
\<close>

section \<open>Searches\<close>

lemma use_card: "wf_table h t \<Longrightarrow> use t = card (elems t)"
  unfolding wf_table_iff elems_def by (metis distinct_card)

lemma node_by_id_ok:
  assumes "wf_table (\<lambda>a. id_key (idof f a)) (id_table f)" "elems (id_table f) \<subseteq> dom (nodes f)" "inj_on (idof f) (elems (id_table f))"
  shows "\<exists>r. node_by_id f n = Inr r \<and> (\<forall>a. r = Some a \<longleftrightarrow> a \<in> elems (id_table f) \<and> idof f a = n)"
proof -
  let ?t = "id_table f"
  have b: "bucket ?t (id_hash ?t n) = Inr (array ?t ! id_hash ?t n)" "id_hash ?t n < length (array ?t)"
    using bucket_slot [OF assms(1), of "id_key n"] by (simp_all add: id_hash_def)
  have "set (array ?t ! id_hash ?t n) \<subseteq> elems ?t" using b(2) by (auto simp: in_elems)
  then have "chain_live f (array ?t ! id_hash ?t n)" using assms(2) by (auto simp: chain_live_def list_all_iff)
  then show ?thesis using get_node_nocheck_ok [OF assms(1,3), of n] b(1) by (simp add: node_by_id_def)
qed

lemma the_node_ok:
  assumes "wf_table (\<lambda>a. id_key (idof f a)) (id_table f)" "elems (id_table f) \<subseteq> dom (nodes f)" "inj_on (idof f) (elems (id_table f))"
    and "a \<in> elems (id_table f)" "idof f a = n"
  shows "the_node f n = Inr a"
proof -
  obtain r where "node_by_id f n = Inr r" "\<forall>a. r = Some a \<longleftrightarrow> a \<in> elems (id_table f) \<and> idof f a = n"
    using node_by_id_ok [OF assms(1-3)] by blast
  then have "node_by_id f n = Inr (Some a)" using assms(4,5) by metis
  then show ?thesis by (simp add: the_node_def)
qed

lemma ids_the_node: "ids_ok f \<Longrightarrow> nodes f a = Some nd \<Longrightarrow> the_node f (nodeid nd) = Inr a"
  by (rule the_node_ok) (auto simp: ids_ok_def idof_def)

lemma same_id: "ids_ok f \<Longrightarrow> nodes f a = Some nd \<Longrightarrow> nodes f b = Some md \<Longrightarrow> nodeid nd = nodeid md \<Longrightarrow> a = b"
  using ids_the_node [of f a nd] ids_the_node [of f b md] by simp

lemma settle_names: "names_ok f {} \<Longrightarrow> settle (name_table f) = name_table f"
  by (cases "name_table f") (simp add: names_ok_def settle_def)

lemma node_by_name_ok:
  assumes "names_ok f {}"
  shows "\<exists>r. node_by_name f p s = Inr r \<and> (\<forall>a. r = Some a \<longleftrightarrow> a \<in> named f \<and> nameof f a = (p, s))"
proof -
  let ?t = "name_table f"
  note N = assms [unfolded names_ok_def settle_names [OF assms]]
  have wf: "wf_table (name_slot f) ?t" and par: "\<forall>a \<in> named f. \<exists>i t q. shapes f a = Some (i, t, Some q) \<and> q \<in> dom (nodes f)"
    using N by simp_all
  have b: "bucket ?t (name_hash ?t p s) = Inr (array ?t ! name_hash ?t p s)" "name_hash ?t p s < length (array ?t)"
    using bucket_slot [OF wf, of "name_key p s"] by (simp_all add: name_hash_def)
  have "set (array ?t ! name_hash ?t p s) \<subseteq> named f" using b(2) N by (auto simp: in_elems)
  moreover have "has_name f a" if n: "a \<in> named f" for a
  proof -
    obtain i t q where "shapes f a = Some (i, t, Some q)" "q \<in> dom (nodes f)" using par n by blast
    then show ?thesis using n by (auto simp: has_name_def named_def shapes_def nshape_def)
  qed
  ultimately have "list_all (has_name f) (array ?t ! name_hash ?t p s)" by (auto simp: list_all_iff)
  then show ?thesis using lookup_node_ok [OF wf, of p s] N b(1) by (simp add: node_by_name_def)
qed

lemma named_node: "nodes f a = Some nd \<Longrightarrow> a \<in> named f \<longleftrightarrow> name nd \<noteq> None \<and> nodeid nd \<noteq> FUSE_ROOT_ID"
  by (auto simp: named_def shapes_def nshape_def)

lemma nameof_node: "nodes f a = Some nd \<Longrightarrow> parent nd = Some p \<Longrightarrow> name nd = Some s \<Longrightarrow> nameof f a = (idof f p, s)"
  by (simp add: nameof_def)

section \<open>Dropping a reference and a name\<close>

lemma unref_node_ok:
  assumes "sane f D Z (ext(p := Suc (ext p)))" "p \<in> dom (nodes f)" "p \<notin> D" "Z \<subseteq> D" "no_kids f D"
  shows "\<exists>f'. unref_node p f = Inr f' \<and> sane f' D Z ext \<and> survives D f f'"
proof -
  note I = saneD(1) [OF assms(1)]
  have "card (referred f) \<le> card (dom (nodes f))" by (rule card_mono [OF finite_nodes [OF I]]) (auto simp: referred_def)
  then have "card (referred f) \<le> Suc (use (id_table f))" using I use_card by (auto simp: ids_ok_def)
  then show ?thesis unfolding unref_node_def using unref_loop_ok [OF assms(1-4)] assms(5) by blast
qed

text \<open>A node whose parent the kernel still knows loses its name; nothing is freed.\<close>

lemma unhash_keep:
  assumes "sane f {} Z ext" "nodes f a = Some nd" "name nd = Some s" "nodeid nd \<noteq> FUSE_ROOT_ID"
    and "parent nd = Some q" "nodes f q = Some qn" "0 < nlookup qn" "q \<notin> Z" "q \<noteq> a"
  shows "\<exists>t cs. unhash_name a f = Inr (f\<lparr>nodes := (nodes f)(q \<mapsto> qn\<lparr>refctr := refctr qn - 1\<rparr>, a \<mapsto> nd\<lparr>name := None, parent := None\<rparr>),
      name_table := t, coins := cs\<rparr>)
    \<and> sane (f\<lparr>nodes := (nodes f)(q \<mapsto> qn\<lparr>refctr := refctr qn - 1\<rparr>, a \<mapsto> nd\<lparr>name := None, parent := None\<rparr>), name_table := t, coins := cs\<rparr>) {} Z ext"
proof -
  define f2 where "f2 = f\<lparr>name_table := detach (name_slot f) a (name_table f)\<rparr>"
  have st: "unhash_name a f = bindc (unref_node q f2) (drop_name a)" "sane f2 (insert a {}) Z (ext(q := Suc (ext q)))"
    using unhash_name_step [OF assms(1,2) _ assms(3,4) f2_def, of unref_node] assms(5) by (auto simp: unhash_name_def)
  have q2: "nodes f2 q = Some qn" using assms(6) by (simp add: f2_def)
  note dec = unref_dec [OF st(2) q2 assms(8)]
  have "refctr qn = int (lookup_ref qn + card (kids f2 (insert a {}) q) + Suc (ext q))"
    using refs_okD(1) [OF saneD(3) [OF st(2)] q2] by simp
  then have two: "refctr qn \<noteq> 1" using assms(7) by (simp add: lookup_ref_def)
  define f3 where "f3 = f2\<lparr>nodes := (nodes f2)(q \<mapsto> qn\<lparr>refctr := refctr qn - 1\<rparr>)\<rparr>"
  have u: "unref_node q f2 = Inr f3"
    using q2 dec(1) two by (simp add: unref_node_def getn_def modn_def f3_def)
  have s3: "sane f3 (insert a {}) Z ext" using dec(3) [OF two] by (simp add: f3_def)
  have a3: "nodes f3 a = Some nd" using assms(2,9) by (simp add: f3_def f2_def)
  obtain t cs where d: "drop_name a f3 = Inr (f3\<lparr>nodes := (nodes f3)(a \<mapsto> nd\<lparr>name := None, parent := None\<rparr>), name_table := t, coins := cs\<rparr>)"
      "sane (f3\<lparr>nodes := (nodes f3)(a \<mapsto> nd\<lparr>name := None, parent := None\<rparr>), name_table := t, coins := cs\<rparr>) {} Z ext"
    using drop_name_ok [OF s3 _ a3] by blast
  have "f3\<lparr>nodes := (nodes f3)(a \<mapsto> nd\<lparr>name := None, parent := None\<rparr>), name_table := t, coins := cs\<rparr>
      = f\<lparr>nodes := (nodes f)(q \<mapsto> qn\<lparr>refctr := refctr qn - 1\<rparr>, a \<mapsto> nd\<lparr>name := None, parent := None\<rparr>), name_table := t, coins := cs\<rparr>"
    by (simp add: f3_def f2_def)
  then show ?thesis using st(1) u d by auto
qed

section \<open>Forgetting\<close>

lemma refs_ok_nodes: "nodes f' = nodes f \<Longrightarrow> refs_ok f' D Z ext \<longleftrightarrow> refs_ok f D Z ext"
  using same_shapes(5) [OF same_nodes, of f' f] by (simp add: refs_ok_def node_refs_def)

lemma sane_slabs:
  assumes "sane f D Z ext" "mem_ok (pagesize f) (remember f) s (dom (nodes f)) (roots f) xs"
  shows "sane (f\<lparr>slabs := s\<rparr>) D Z ext"
proof -
  let ?f = "f\<lparr>slabs := s\<rparr>"
  note S = saneD [OF assms(1)]
  have sh: "shapes ?f = shapes f" by (rule same_nodes) simp
  have "memory_ok ?f" using assms(2) S(5) unfolding memory_ok_def same_shapes [OF sh] roots_frame [OF sh] by auto
  moreover have "refs_ok ?f D Z ext" using S(3) refs_ok_nodes [of ?f f] by simp
  ultimately show ?thesis
    using S ids_ok_frame [OF _ sh] names_ok_frame [OF _ sh] by (simp add: sane_def root_ok_def)
qed

lemma not_root: "sane f D Z ext \<Longrightarrow> nodes f a = Some nd \<Longrightarrow> nodeid nd \<noteq> FUSE_ROOT_ID \<Longrightarrow> a \<in> dom (nodes f) - roots f"
  by (auto simp: roots_def shapes_def nshape_def)

lemma set_forget_time_ok:
  assumes "sane f D Z ext" "nodes f a = Some nd" "nodeid nd \<noteq> FUSE_ROOT_ID" "lru_enabled (remember f)"
  shows "\<exists>s. set_forget_time now a f = Inr (f\<lparr>slabs := s, nodes := (nodes f)(a \<mapsto> nd\<lparr>forget_time := now\<rparr>)\<rparr>)
    \<and> sane (f\<lparr>slabs := s, nodes := (nodes f)(a \<mapsto> nd\<lparr>forget_time := now\<rparr>)\<rparr>) D Z ext"
proof -
  obtain xs where xs: "mem_ok (pagesize f) (remember f) (slabs f) (dom (nodes f)) (roots f) xs" using saneD(5) [OF assms(1)] by (auto simp: memory_ok_def)
  obtain s where s: "lru_touch a (slabs f) = Inr s" "mem_ok (pagesize f) (remember f) s (dom (nodes f)) (roots f) (remove1 a xs @ [a])"
    using lru_touch_ok [OF xs not_root [OF assms(1-3)] assms(4)] by blast
  have s1: "sane (f\<lparr>slabs := s\<rparr>) D Z ext" using sane_slabs [OF assms(1) s(2)] .
  have n1: "nodes (f\<lparr>slabs := s\<rparr>) a = Some nd" using assms(2) by simp
  have "node_refs (f\<lparr>slabs := s\<rparr>) D Z ext a nd" using saneD(3) [OF s1] n1 by (simp add: refs_ok_def)
  then have "sane (f\<lparr>slabs := s\<rparr>\<lparr>nodes := (nodes (f\<lparr>slabs := s\<rparr>))(a \<mapsto> nd\<lparr>forget_time := now\<rparr>)\<rparr>) D Z ext"
    by (intro sane_counters [OF s1 n1]) (use assms(3) in \<open>auto simp: nshape_def node_refs_def lookup_ref_def\<close>)
  then show ?thesis using s(1) assms(2) by (intro exI [of _ s]) (simp add: set_forget_time_def on_slabs_def modn_def getn_def)
qed

text \<open>The kernel gives back \<open>k\<close> of its lookups of a node that is not waiting to be unlocked.\<close>

lemma forget_node_ok:
  assumes "sane0 f" "nodes f a = Some nd" "nodeid nd \<noteq> FUSE_ROOT_ID" "0 < k" "k \<le> nlookup nd"
    and "nlookup nd = k \<longrightarrow> treelock nd = 0"
  shows "\<exists>f'. forget_node now (nodeid nd) k f = Inr (Some f') \<and> sane0 f'
    \<and> (if nlookup nd = k then survives {} (f\<lparr>nodes := (nodes f)(a \<mapsto> nd\<lparr>nlookup := 0\<rparr>)\<rparr>) f'
       else \<exists>t. nodes f' = (nodes f)(a \<mapsto> nd\<lparr>nlookup := nlookup nd - k, forget_time := t\<rparr>))"
proof -
  note S = saneD [OF assms(1)]
  note R = refs_okD [OF S(3) assms(2)]
  define f1 where "f1 = f\<lparr>nodes := (nodes f)(a \<mapsto> nd\<lparr>nlookup := nlookup nd - k\<rparr>)\<rparr>"
  have the: "the_node f (nodeid nd) = Inr a" using ids_the_node [OF S(1) assms(2)] .
  have n1: "nodes f1 a = Some (nd\<lparr>nlookup := nlookup nd - k\<rparr>)" by (simp add: f1_def)
  show ?thesis
  proof (cases "nlookup nd = k")
    case True
    have "sane f1 {} {} ((\<lambda>_. 0)(a := Suc 0))" unfolding f1_def
      by (rule sane_counters [OF assms(1,2)]) (use R True assms(3-6) in \<open>auto simp: nshape_def node_refs_def lookup_ref_def\<close>)
    then obtain f' where f': "unref_node a f1 = Inr f'" "sane f' {} {} (\<lambda>_. 0)" "survives {} f1 f'"
      using unref_node_ok [of f1 "{}" "{}" "\<lambda>_. 0" a] n1 by (auto simp: no_kids_def)
    then show ?thesis
      using True assms(2-6) the by (auto simp: forget_node_def getn_def modn_def f1_def)
  next
    case False
    have s1: "sane0 f1" unfolding f1_def
      by (rule sane_counters [OF assms(1,2)]) (use R False assms(3-6) in \<open>auto simp: nshape_def node_refs_def lookup_ref_def\<close>)
    have run: "forget_node now (nodeid nd) k f =
        bindc (if lru_enabled (remember f1) \<and> nlookup nd - k = 1 then set_forget_time now a f1 else Inr f1) (\<lambda>f. Inr (Some f))"
      using False assms(2-6) the by (simp add: forget_node_def getn_def modn_def f1_def)
    show ?thesis
    proof (cases "lru_enabled (remember f1) \<and> nlookup nd - k = 1")
      case True
      then show ?thesis using set_forget_time_ok [OF s1 n1, of now] assms(3) False run by (auto simp: f1_def)
    next
      case F: False
      have "nodes f1 = (nodes f)(a \<mapsto> nd\<lparr>nlookup := nlookup nd - k, forget_time := forget_time nd\<rparr>)" by (simp add: f1_def)
      then have "\<exists>t. nodes f1 = (nodes f)(a \<mapsto> nd\<lparr>nlookup := nlookup nd - k, forget_time := t\<rparr>)" by blast
      moreover have "forget_node now (nodeid nd) k f = Inr (Some f1)" using F run by auto
      ultimately show ?thesis using s1 False by simp
    qed
  qed
qed

section \<open>Giving a node a name\<close>

lemma shapes_link:
  assumes "nodes f a = Some nd" "nodes f p = Some pn" "a \<noteq> p" "name nd = None" "nodeid nd \<noteq> FUSE_ROOT_ID"
    and "nodes f' = (nodes f)(p \<mapsto> pn\<lparr>refctr := r\<rparr>, a \<mapsto> nd\<lparr>name := Some s, parent := Some p\<rparr>)"
  shows "idof f' = idof f" "named f' = insert a (named f)" "kids f' {} x = (if x = p then insert a (kids f {} x) else kids f {} x)"
    "roots f' = roots f" "dom (nodes f') = dom (nodes f)" "b \<noteq> a \<Longrightarrow> nameof f' b = nameof f b" "nameof f' a = (nodeid pn, s)"
    "b \<noteq> a \<Longrightarrow> shapes f' b = shapes f b" "a \<notin> named f" "shapes f' a = Some (nodeid nd, Some s, Some p)"
proof -
  have sh: "shapes f' = (shapes f)(a \<mapsto> (nodeid nd, Some s, Some p))" using assms by (auto simp: shapes_def nshape_def fun_eq_iff)
  have sa: "shapes f a = Some (nodeid nd, None, parent nd)" using assms by (simp add: shapes_def nshape_def)
  show i: "idof f' = idof f" by (rule ext) (simp add: idof_shapes sh sa)
  show na: "a \<notin> named f" using sa by (simp add: named_def)
  show n: "named f' = insert a (named f)" using assms(5) by (auto simp: named_def sh)
  show "kids f' {} x = (if x = p then insert a (kids f {} x) else kids f {} x)" using na by (auto simp: kids_def n sh)
  show "roots f' = roots f" by (auto simp: roots_def sh sa)
  show "dom (nodes f') = dom (nodes f)" using assms by auto
  show "nameof f' b = nameof f b" if "b \<noteq> a" using that by (simp only: nameof_shapes i) (simp add: sh)
  show "nameof f' a = (nodeid pn, s)" using assms(2) by (simp only: nameof_shapes i) (simp add: sh idof_def)
  show "b \<noteq> a \<Longrightarrow> shapes f' b = shapes f b" "shapes f' a = Some (nodeid nd, Some s, Some p)" by (simp_all add: sh)
qed

lemma hash_name_run:
  assumes "the_node f pid = Inr p" "nodes f p = Some pn" "nodeid pn = pid" "nodes f a = Some nd" "name nd = None" "a \<noteq> p" "refctr pn \<noteq> int_max"
  shows "(\<exists>cs. 32 \<le> length s \<and> hash_name a pid s f = Inr (-1, f\<lparr>coins := cs\<rparr>))
    \<or> (\<exists>re cs. hash_name a pid s f =
        (let f' = f\<lparr>coins := cs, nodes := (nodes f)(p \<mapsto> pn\<lparr>refctr := refctr pn + 1\<rparr>, a \<mapsto> nd\<lparr>name := Some s, parent := Some p\<rparr>)\<rparr>
         in bindc (table_insert (name_slot f') re a (name_table f)) (\<lambda>t. Inr (0, f'\<lparr>name_table := t\<rparr>))))"
proof -
  obtain ok cs where c: "(if length s < 32 then (True, f) else coin f) = (ok, f\<lparr>coins := cs\<rparr>)" "32 \<le> length s \<or> ok"
  proof (cases "length s < 32")
    case True
    then have "(if length s < 32 then (True, f) else coin f) = (True, f\<lparr>coins := coins f\<rparr>)" by simp
    then show thesis using that by blast
  next
    case False
    then show thesis using that coin_eq [of f] by auto
  qed
  have m: "modn a (\<lambda>nd. nd\<lparr>name := None\<rparr>) (f\<lparr>coins := cs\<rparr>) = Inr (f\<lparr>coins := cs\<rparr>)"
  proof -
    have "nd\<lparr>name := None\<rparr> = nd" using assms(5) by simp
    then show ?thesis using assms(4) by (simp add: modn_def getn_def fun_upd_idem)
  qed
  define g where "g = f\<lparr>coins := cs, nodes := (nodes f)(a \<mapsto> nd\<lparr>name := Some s\<rparr>, p \<mapsto> pn\<lparr>refctr := refctr pn + 1\<rparr>, a \<mapsto> nd\<lparr>name := Some s, parent := Some p\<rparr>)\<rparr>"
  obtain re cs' where c2: "coin g = (re, g\<lparr>coins := cs'\<rparr>)" using coin_eq by blast
  show ?thesis
  proof (cases ok)
    case False
    then show ?thesis using c m assms(1) by (auto simp: hash_name_def)
  next
    case True
    have "hash_name a pid s f = bindc (table_insert (name_slot (g\<lparr>coins := cs'\<rparr>)) re a (name_table (g\<lparr>coins := cs'\<rparr>))) (\<lambda>t. Inr (0, g\<lparr>coins := cs', name_table := t\<rparr>))"
      using c(1) True assms c2 by (simp add: hash_name_def modn_def getn_def g_def [symmetric]) (simp add: g_def)
    moreover have "g\<lparr>coins := cs'\<rparr> = f\<lparr>coins := cs', nodes := (nodes f)(p \<mapsto> pn\<lparr>refctr := refctr pn + 1\<rparr>, a \<mapsto> nd\<lparr>name := Some s, parent := Some p\<rparr>)\<rparr>"
      using assms(6) by (simp add: g_def fun_upd_twist)
    ultimately show ?thesis by (auto simp: Let_def)
  qed
qed

lemma hash_name_ok:
  assumes "the_node f pid = Inr p" "nodes f p = Some pn" "nodeid pn = pid" "nodes f a = Some nd" "name nd = None" "a \<noteq> p"
    and "refctr pn < int_max" "nodeid nd \<noteq> FUSE_ROOT_ID" "finite (dom (nodes f))"
    and "names_ok f {}" "refs_ok f {} Z ext" "(pid, s) \<notin> nameof f ` named f"
  shows "(\<exists>cs. 32 \<le> length s \<and> hash_name a pid s f = Inr (-1, f\<lparr>coins := cs\<rparr>))
    \<or> (\<exists>t cs f'. hash_name a pid s f = Inr (0, f')
        \<and> f' = f\<lparr>coins := cs, nodes := (nodes f)(p \<mapsto> pn\<lparr>refctr := refctr pn + 1\<rparr>, a \<mapsto> nd\<lparr>name := Some s, parent := Some p\<rparr>), name_table := t\<rparr>
        \<and> names_ok f' {} \<and> refs_ok f' {} Z ext)"
proof (cases "\<exists>cs. 32 \<le> length s \<and> hash_name a pid s f = Inr (-1, f\<lparr>coins := cs\<rparr>)")
  case False
  note N = assms(10) [unfolded names_ok_def settle_names [OF assms(10)]]
  have "refctr pn \<noteq> int_max" using assms(7) by simp
  then obtain re cs f1 where run: "hash_name a pid s f = bindc (table_insert (name_slot f1) re a (name_table f)) (\<lambda>t. Inr (0, f1\<lparr>name_table := t\<rparr>))"
      and f1: "f1 = f\<lparr>coins := cs, nodes := (nodes f)(p \<mapsto> pn\<lparr>refctr := refctr pn + 1\<rparr>, a \<mapsto> nd\<lparr>name := Some s, parent := Some p\<rparr>)\<rparr>"
    using hash_name_run [OF assms(1-6), of s] False by (auto simp: Let_def)
  have n1: "nodes f1 = (nodes f)(p \<mapsto> pn\<lparr>refctr := refctr pn + 1\<rparr>, a \<mapsto> nd\<lparr>name := Some s, parent := Some p\<rparr>)" by (simp add: f1)
  note sh = shapes_link [OF assms(4,2,6,5,8) n1]
  have same: "nameof f1 b = nameof f b" if "b \<in> named f" for b by (rule sh(6)) (use that sh(9) in auto)
  have wf1: "wf_table (name_slot f1) (name_table f)"
    by (rule iffD1 [OF wf_table_cong [of _ "name_slot f"]]) (use N same in auto)
  have "a \<notin> elems (name_table f)" using N sh(9) by simp
  then obtain t where t: "table_insert (name_slot f1) re a (name_table f) = Inr t" "wf_table (name_slot f1) t" "elems t = insert a (elems (name_table f))"
    using insert_ok [OF wf1] by blast
  define f' where "f' = f1\<lparr>name_table := t\<rparr>"
  have shf: "shapes f' = shapes f1" by (rule same_nodes) (simp add: f'_def)
  have "names_ok f' {}"
  proof -
    have "inj_on (nameof f1) (named f)" using N inj_on_cong [of "named f", OF same] by simp
    moreover have "nameof f1 a \<notin> nameof f1 ` named f" using assms(3,12) same unfolding sh(7) by auto
    ultimately have "inj_on (nameof f1) (insert a (named f))" using sh(9) by (simp add: inj_on_insert)
    moreover have "\<exists>i s q. shapes f1 b = Some (i, s, Some q) \<and> q \<in> dom (nodes f1)" if b: "b \<in> insert a (named f)" for b
    proof (cases "b = a")
      case True
      have "p \<in> dom (nodes f1)" using assms(2) sh(5) by auto
      then show ?thesis using True sh(10) by blast
    next
      case False
      have "\<forall>b \<in> named f. \<exists>i s q. shapes f b = Some (i, s, Some q) \<and> q \<in> dom (nodes f)" using N by simp
      then show ?thesis using False b sh(5,8) by auto
    qed
    moreover have "use t = length (concat (array t))" using t(2) by (simp add: wf_table_iff)
    moreover have "elems t = insert a (named f)" using t(3) N by simp
    ultimately show ?thesis
      using t(2) settle_wf [OF t(2)] unfolding names_ok_def same_shapes [OF shf] shf sh(2) by (simp add: f'_def)
  qed
  moreover have "refs_ok f' {} Z ext"
  proof -
    have fin: "finite (kids f {} p)" by (rule finite_subset [OF kids_dom assms(9)])
    have ka: "a \<notin> kids f {} p" using sh(9) by (simp add: kids_def)
    have "node_refs f' {} Z ext b md" if b: "nodes f' b = Some md" for b md
    proof -
      consider "b = a" "md = nd\<lparr>name := Some s, parent := Some p\<rparr>" | "b = p" "b \<noteq> a" "md = pn\<lparr>refctr := refctr pn + 1\<rparr>" | "b \<noteq> a" "b \<noteq> p" "nodes f b = Some md"
        using b assms(6) by (auto simp: f'_def n1 split: if_splits)
      then show ?thesis
      proof cases
        case 1
        have "node_refs f {} Z ext a nd" using assms(4,11) by (simp add: refs_ok_def)
        then show ?thesis using 1 assms(6) by (auto simp: node_refs_def same_shapes [OF shf] sh(3) lookup_ref_def)
      next
        case 2
        have "node_refs f {} Z ext p pn" using assms(2,11) by (simp add: refs_ok_def)
        then show ?thesis using 2 fin ka by (auto simp: node_refs_def same_shapes [OF shf] sh(3) lookup_ref_def)
      next
        case 3
        have "node_refs f {} Z ext b md" using 3 assms(11) by (simp add: refs_ok_def)
        then show ?thesis using 3 by (auto simp: node_refs_def same_shapes [OF shf] sh(3))
      qed
    qed
    then show ?thesis by (simp add: refs_ok_def)
  qed
  moreover have "hash_name a pid s f = Inr (0, f')" using run t(1) by (simp add: f'_def)
  moreover have "f' = f\<lparr>coins := cs, nodes := (nodes f)(p \<mapsto> pn\<lparr>refctr := refctr pn + 1\<rparr>, a \<mapsto> nd\<lparr>name := Some s, parent := Some p\<rparr>), name_table := t\<rparr>"
    by (simp add: f'_def f1)
  ultimately show ?thesis by blast
qed blast

end
