(* ===== verification/Fuse_Lookup.thy ===== *)
theory Fuse_Lookup
  imports Fuse_Node_Ops
begin

text \<open>
  \<open>find_node\<close>: a lookup of the kernel finds the node of a name or makes one. It keeps the invariant of
  the nodes, with the two exceptions that are shown at the end.
\<close>

section \<open>A new node\<close>

lemma new_node_ok:
  assumes "sane0 f" "mmap_ok (pagesize f) (slabs f) mem"
  shows "new_node mem f = Inr (None, f) \<and> mem = None
    \<or> (\<exists>a s st nd xs. new_node mem f = Inr (Some a, f\<lparr>slabs := s, stale := st, nodes := (nodes f)(a \<mapsto> nd)\<rparr>)
       \<and> a \<notin> dom (nodes f) \<and> mem_ok (pagesize f) (remember f) s (insert a (dom (nodes f))) (insert a (roots f)) xs \<and> a \<notin> set xs
       \<and> name nd = None \<and> (remember f = 0 \<longrightarrow> nlookup nd = 0)
       \<and> (\<forall>b. nodes f b = None \<longrightarrow> name (st b) = None \<and> (remember f = 0 \<longrightarrow> nlookup (st b) = 0)))"
proof -
  note M = saneD(5) [OF assms(1), unfolded memory_ok_def]
  obtain xs where xs: "mem_ok (pagesize f) (remember f) (slabs f) (dom (nodes f)) (roots f) xs" using M by blast
  obtain partial full fr where "slabs_ok (pagesize f) (remember f) (slabs f) (dom (nodes f)) partial full fr"
    using xs by (auto simp: mem_ok_def slab_inv_def)
  then obtain e where e: "list_empty PartialSlabs (heads (slabs f)) = Inr e" using list_empty_spec [OF slabs_okD(1)] by blast
  obtain res s where al: "alloc_node (pagesize f) (remember f) mem (slabs f) = Inr (res, s)"
      "case res of None \<Rightarrow> mem = None \<and> s = slabs f
       | Some a \<Rightarrow> a \<notin> dom (nodes f) \<and> mem_ok (pagesize f) (remember f) s (insert a (dom (nodes f))) (insert a (roots f)) xs"
    using mem_alloc [OF xs assms(2)] by blast
  define st where "st = (case mem of
      Some pg \<Rightarrow> if e then (\<lambda>a. if pg \<le> a \<and> a < pg + pagesize f then node0 else stale f a) else stale f | None \<Rightarrow> stale f)"
  have st: "name (st b) = None \<and> (remember f = 0 \<longrightarrow> nlookup (st b) = 0)" if "nodes f b = None" for b
    using M that by (auto simp: st_def node0_def split: option.splits)
  show ?thesis
  proof (cases res)
    case None
    then show ?thesis using e al by (simp add: new_node_def)
  next
    case (Some a)
    have a: "a \<notin> dom (nodes f)" "mem_ok (pagesize f) (remember f) s (insert a (dom (nodes f))) (insert a (roots f)) xs" using al(2) Some by auto
    have "\<exists>ys. mem_ok (pagesize f) (remember f) s (insert a (dom (nodes f))) (insert a (roots f)) ys \<and> a \<notin> set ys"
    proof (cases "lru_enabled (remember f)")
      case True
      then show ?thesis using a(2) by (intro exI [of _ xs]) (auto simp: mem_ok_def lru_ok_def)
    next
      case False
      then show ?thesis using a(2) by (intro exI [of _ "[]"]) (simp add: mem_ok_def)
    qed
    then obtain ys where ys: "mem_ok (pagesize f) (remember f) s (insert a (dom (nodes f))) (insert a (roots f)) ys" "a \<notin> set ys" by blast
    have "new_node mem f = Inr (Some a, f\<lparr>slabs := s, stale := st, nodes := (nodes f)(a \<mapsto> st a)\<rparr>)"
      using e al(1) Some by (simp add: new_node_def st_def Let_def)
    moreover have "name (st a) = None" "remember f = 0 \<longrightarrow> nlookup (st a) = 0" using st [of a] a(1) by (simp_all add: domIff)
    ultimately show ?thesis using a(1) ys st by blast
  qed
qed

lemma shapes_fresh:
  assumes "names_ok f {}" "a \<notin> dom (nodes f)" "nodes f' = (nodes f)(a \<mapsto> nd)" "name nd = None" "nodeid nd \<noteq> FUSE_ROOT_ID"
  shows "b \<noteq> a \<Longrightarrow> idof f' b = idof f b" "named f' = named f" "kids f' {} = kids f {}" "kids f {} a = {}" "roots f' = roots f"
    "dom (nodes f') = insert a (dom (nodes f))" "b \<in> named f \<Longrightarrow> nameof f' b = nameof f b" "b \<noteq> a \<Longrightarrow> shapes f' b = shapes f b" "a \<notin> named f"
proof -
  have par: "\<exists>i s q. shapes f b = Some (i, s, Some q) \<and> q \<in> dom (nodes f)" if "b \<in> named f" for b
    using named_parent [OF assms(1)] that by simp
  have sh: "shapes f' = (shapes f)(a \<mapsto> (nodeid nd, None, parent nd))" using assms by (auto simp: shapes_def nshape_def fun_eq_iff)
  have sa: "shapes f a = None" using assms(2) by (auto simp: shapes_def)
  show i: "idof f' b = idof f b" if "b \<noteq> a" for b using that by (simp add: idof_shapes sh)
  show na: "a \<notin> named f" using sa by (simp add: named_def)
  show n: "named f' = named f" using sa by (auto simp: named_def sh)
  show "kids f' {} = kids f {}" using na by (auto simp: kids_def n sh fun_eq_iff)
  show "kids f {} a = {}" using par assms(2) by (fastforce simp: kids_def)
  show "roots f' = roots f" using sa assms(5) by (auto simp: roots_def sh)
  show "dom (nodes f') = insert a (dom (nodes f))" using assms(3) by simp
  show s: "shapes f' b = shapes f b" if "b \<noteq> a" for b using that by (simp add: sh)
  show "nameof f' b = nameof f b" if b: "b \<in> named f"
  proof -
    obtain i s q where q: "shapes f b = Some (i, s, Some q)" "q \<in> dom (nodes f)" using par [OF b] by blast
    have "b \<noteq> a" "q \<noteq> a" using b na q(2) assms(2) by auto
    then show ?thesis using q(1) s [of b] i [of q] by (simp add: nameof_shapes split: option.splits)
  qed
qed

lemma fresh_ok:
  assumes "sane0 f" "a \<notin> dom (nodes f)" "nodes f' = (nodes f)(a \<mapsto> nd)" "name_table f' = name_table f"
    and "name nd = None" "nodeid nd \<noteq> FUSE_ROOT_ID" "refctr nd = 1" "treelock nd = 0"
  shows "names_ok f' {}" "refs_ok f' {} {} ((\<lambda>_. 0)(a := 1 - lookup_ref nd))"
proof -
  note S = saneD [OF assms(1)]
  note sh = shapes_fresh [OF S(2) assms(2,3,5,6)]
  note N = S(2) [unfolded names_ok_def]
  have "wf_table (name_slot f') (settle (name_table f))"
    by (rule iffD1 [OF wf_table_cong [of _ "name_slot f"]]) (use N sh(7) in auto)
  moreover have "inj_on (nameof f') (named f)" using N inj_on_cong [of "named f", OF sh(7)] by simp
  moreover have "\<exists>i s q. shapes f' b = Some (i, s, Some q) \<and> q \<in> dom (nodes f')" if b: "b \<in> named f" for b
  proof -
    have "b \<noteq> a" using b sh(9) by auto
    then show ?thesis using named_parent [OF S(2), of b] b sh(6,8) by auto
  qed
  ultimately show "names_ok f' {}" using N assms(4) unfolding names_ok_def sh(2) by simp
  have "node_refs f' {} {} ((\<lambda>_. 0)(a := 1 - lookup_ref nd)) b md" if b: "nodes f' b = Some md" for b md
  proof (cases "b = a")
    case True
    then have "md = nd" using b assms(3) by simp
    then show ?thesis using True assms(7,8) sh(3,4) by (simp add: node_refs_def lookup_ref_def)
  next
    case False
    then have "node_refs f {} {} (\<lambda>_. 0) b md" using b assms(3) S(3) by (simp add: refs_ok_def)
    then show ?thesis using False by (auto simp: node_refs_def sh(3))
  qed
  then show "refs_ok f' {} {} ((\<lambda>_. 0)(a := 1 - lookup_ref nd))" by (simp add: refs_ok_def)
qed

text \<open>The table of numbers does not know the node yet: searches see the others.\<close>

lemma fresh_ids:
  assumes "ids_ok f" "a \<notin> dom (nodes f)" "nodes f' = (nodes f)(a \<mapsto> nd)" "id_table f' = id_table f"
  shows "wf_table (\<lambda>b. id_key (idof f' b)) (id_table f')" "elems (id_table f') = dom (nodes f)" "inj_on (idof f') (dom (nodes f))"
    "idof f' ` dom (nodes f) = idof f ` dom (nodes f)"
proof -
  have same: "idof f' b = idof f b" if "b \<in> dom (nodes f)" for b using that assms(2,3) by (auto simp: idof_def)
  show el: "elems (id_table f') = dom (nodes f)" using assms(1,4) by (simp add: ids_ok_def)
  show "wf_table (\<lambda>b. id_key (idof f' b)) (id_table f')"
    by (rule iffD1 [OF wf_table_cong [of "id_table f'" "\<lambda>b. id_key (idof f b)"]]) (use assms(1,4) el same in \<open>auto simp: ids_ok_def\<close>)
  show "inj_on (idof f') (dom (nodes f))" using assms(1) inj_on_cong [of "dom (nodes f)", OF same] by (simp add: ids_ok_def)
  show "idof f' ` dom (nodes f) = idof f ` dom (nodes f)" by (rule image_cong) (simp_all add: same)
qed

lemma next_id_runs:
  assumes "ids_ok f" "a \<notin> dom (nodes f)" "nodes f' = (nodes f)(a \<mapsto> nd)" "id_table f' = id_table f" "card (dom (nodes f)) + 3 \<le> 2 ^ 32"
  shows "\<exists>n g. next_id f' = Inr (n, f'\<lparr>ctr := n, generation := g\<rparr>) \<and> n \<notin> {0, FUSE_UNKNOWN_INO} \<union> idof f ` dom (nodes f) \<and> n < 2 ^ 32"
proof -
  note I = fresh_ids [OF assms(1-4)]
  have "use (id_table f') = card (dom (nodes f))" using use_card [OF I(1)] I(2) by simp
  then show ?thesis
    using next_id_ok [OF I(1,2,3) finite_nodes [OF assms(1)] assms(5), of "ctr f'" "generation f'"]
    unfolding I(4) by (auto simp: next_id_def)
qed

lemma roots_dom: "roots f \<subseteq> dom (nodes f)"
  by (auto simp: roots_def shapes_def)

text \<open>Without memory for its name the new node is given back.\<close>

lemma unfresh:
  assumes "sane0 f" "a \<notin> dom (nodes f)" "nodes g = (nodes f)(a \<mapsto> nd)" "name_table g = name_table f" "id_table g = id_table f"
    and "mem_ok (pagesize f) (remember f) (slabs g) (insert a (dom (nodes f))) (insert a (roots f)) xs" "a \<notin> set xs"
    and "pagesize g = pagesize f" "remember g = remember f" "name nd = None" "remember f = 0 \<longrightarrow> nlookup nd = 0"
    and "\<forall>b. nodes f b = None \<longrightarrow> name (stale g b) = None \<and> (remember f = 0 \<longrightarrow> nlookup (stale g b) = 0)"
  shows "\<exists>g'. free_node a g = Inr g' \<and> sane0 g' \<and> nodes g' = nodes f"
proof -
  note S = saneD [OF assms(1)]
  obtain um cs where c: "coin g = (um, g\<lparr>coins := cs\<rparr>)" using coin_eq by blast
  obtain s where s: "free_node_mem (pagesize f) um a (slabs g) = Inr s"
      "mem_ok (pagesize f) (remember f) s (insert a (dom (nodes f)) - {a}) (insert a (roots f) - {a}) xs"
    using mem_free [OF assms(6) _ assms(7)] by blast
  define g' where "g' = g\<lparr>coins := cs, slabs := s, nodes := (nodes f), stale := (stale g)(a := nd)\<rparr>"
  have "nodes f a = None" using assms(2) by (simp add: domIff)
  then have "(nodes g)(a := None) = nodes f" using assms(3) by (auto simp: fun_eq_iff)
  then have "free_node a g = Inr g'" using s(1) c assms(3,8) by (simp add: free_node_def getn_def g'_def)
  moreover have n: "nodes g' = nodes f" by (simp add: g'_def)
  have sh: "shapes g' = shapes f" using same_nodes [OF n] .
  have "memory_ok g'"
  proof -
    have "insert a (dom (nodes f)) - {a} = dom (nodes f)" "insert a (roots f) - {a} = roots f" using assms(2) roots_dom by auto
    then have "mem_ok (pagesize g') (remember g') (slabs g') (dom (nodes g')) (roots g') xs"
      using s(2) assms(8,9) roots_frame [OF sh] by (simp add: g'_def)
    then show ?thesis using assms(9-12) unfolding memory_ok_def by (auto simp: g'_def)
  qed
  then have "sane0 g'"
    using S ids_ok_frame [OF S(1) sh] names_ok_frame [OF S(2) sh] refs_ok_nodes [OF n] assms(4,5)
    by (simp add: sane_def g'_def root_ok_def)
  ultimately show ?thesis using n by blast
qed

lemma root_ok_add:
  assumes "root_ok f" "a \<notin> dom (nodes f)" "nodeid nd \<noteq> FUSE_ROOT_ID" "nodes f' = (nodes f)(a \<mapsto> nd)"
  shows "root_ok f'"
proof -
  obtain b md where "nodes f b = Some md" "nodeid md = FUSE_ROOT_ID" "parent md = None" using assms(1) by (auto simp: root_ok_def)
  moreover from this have "b \<noteq> a" using assms(2) by auto
  ultimately have "\<exists>b md. nodes f' b = Some md \<and> nodeid md = FUSE_ROOT_ID \<and> parent md = None" using assms(4) by auto
  then show ?thesis using assms unfolding root_ok_def by auto
qed

text \<open>With its name the new node enters the table of numbers, and its link is set up.\<close>

lemma adopt:
  assumes "ids_ok f" "root_ok f" "a \<notin> dom (nodes f)" "nodes f p = Some pn" "p \<noteq> a"
    and n3: "nodes f3 = (nodes f)(p \<mapsto> pn\<lparr>refctr := r\<rparr>, a \<mapsto> nd)" and it: "id_table f3 = id_table f"
    and new: "nodeid nd \<notin> idof f ` dom (nodes f)" "nodeid nd \<noteq> FUSE_ROOT_ID"
    and mem: "mem_ok (pagesize f3) (remember f3) (slabs f3) (insert a (dom (nodes f))) (insert a (roots f)) xs" "a \<notin> set xs"
    and st: "\<forall>b. nodes f b = None \<longrightarrow> name (stale f3 b) = None \<and> (remember f3 = 0 \<longrightarrow> nlookup (stale f3 b) = 0)"
    and ok: "names_ok f3 {}" "refs_ok f3 {} {} ext"
  shows "\<exists>f'. bindc (node_hash_id a f3) (\<lambda>f. bindc (if lru_enabled (remember f) then on_slabs (lru_init a) f else Inr f) (\<lambda>f. Inr (Some a, f))) = Inr (Some a, f')
    \<and> nodes f' = nodes f3 \<and> sane f' {} {} ext"
proof -
  have same: "idof f3 b = idof f b" if "b \<in> dom (nodes f)" for b using that assms(3,4) n3 by (auto simp: idof_def)
  have na: "idof f3 a = nodeid nd" by (simp add: idof_def n3)
  have dom3: "dom (nodes f3) = insert a (dom (nodes f))" using n3 assms(4) by auto
  have el: "elems (id_table f) = dom (nodes f)" using assms(1) by (simp add: ids_ok_def)
  obtain re cs where c: "coin f3 = (re, f3\<lparr>coins := cs\<rparr>)" using coin_eq by blast
  have wf: "wf_table (\<lambda>b. id_key (idof f3 b)) (id_table f)"
    by (rule iffD1 [OF wf_table_cong [of "id_table f" "\<lambda>b. id_key (idof f b)"]]) (use assms(1) el same in \<open>auto simp: ids_ok_def\<close>)
  obtain t where t: "table_insert (\<lambda>b. id_key (idof f3 b)) re a (id_table f) = Inr t" "wf_table (\<lambda>b. id_key (idof f3 b)) t" "elems t = insert a (dom (nodes f))"
    using insert_ok [OF wf, of a re] el assms(3) by auto
  define f4 where "f4 = f3\<lparr>coins := cs, id_table := t\<rparr>"
  have "idof (f3\<lparr>coins := cs\<rparr>) = idof f3" by (simp add: idof_def fun_eq_iff)
  then have h: "node_hash_id a f3 = Inr f4" using c t(1) it by (simp add: node_hash_id_def hash_id_def f4_def)
  obtain s where s: "(if lru_enabled (remember f3) then lru_init a (slabs f3) else Inr (slabs f3)) = Inr s"
      "mem_ok (pagesize f3) (remember f3) s (insert a (dom (nodes f))) (roots f) xs"
  proof (cases "lru_enabled (remember f3)")
    case True
    then show thesis using that lru_init_ok [OF mem(1) _ mem(2)] by auto
  next
    case False
    then show thesis using that mem(1) by (simp add: mem_ok_def)
  qed
  define f5 where "f5 = f4\<lparr>slabs := s\<rparr>"
  have r4: "remember f4 = remember f3" "slabs f4 = slabs f3" by (simp_all add: f4_def)
  have l5: "(if lru_enabled (remember f4) then on_slabs (lru_init a) f4 else Inr f4) = Inr f5"
  proof (cases "lru_enabled (remember f3)")
    case True
    then show ?thesis using s(1) r4 by (simp add: on_slabs_def f5_def)
  next
    case False
    then have "s = slabs f4" using s(1) r4 by simp
    then have "f5 = f4" by (simp add: f5_def)
    then show ?thesis using False r4 by simp
  qed
  have n5: "nodes f5 = nodes f3" by (simp add: f5_def f4_def)
  have sh: "shapes f5 = shapes f3" using same_nodes [OF n5] .
  note e = same_shapes [OF sh]
  have "ids_ok f5"
  proof -
    have "inj_on (idof f3) (dom (nodes f))" using assms(1) inj_on_cong [of "dom (nodes f)", OF same] by (simp add: ids_ok_def)
    moreover have "idof f3 a \<notin> idof f3 ` dom (nodes f)" using new(1) na same by auto
    ultimately have "inj_on (idof f3) (insert a (dom (nodes f)))" using assms(3) by (simp add: inj_on_insert)
    then show ?thesis using t(2,3) dom3 unfolding ids_ok_def e by (simp add: f5_def f4_def)
  qed
  moreover have "memory_ok f5"
  proof -
    have "roots f3 = roots f"
      using new(2) assms(3,4) by (auto simp: roots_def shapes_def nshape_def n3 split: if_splits)
    then have "mem_ok (pagesize f5) (remember f5) (slabs f5) (dom (nodes f5)) (roots f5) xs"
      using s(2) unfolding e dom3 roots_frame [OF sh] by (simp add: f5_def f4_def)
    moreover have "\<forall>b. nodes f5 b = None \<longrightarrow> name (stale f5 b) = None \<and> (remember f5 = 0 \<longrightarrow> nlookup (stale f5 b) = 0)"
      using st unfolding n5 n3 by (auto simp: f5_def f4_def split: if_splits)
    ultimately show ?thesis unfolding memory_ok_def by blast
  qed
  moreover have "root_ok f5"
  proof -
    have l: "nodeid pn = FUSE_ROOT_ID \<longrightarrow> 0 < nlookup pn" using assms(2,4) by (simp add: root_ok_def)
    have r: "root_ok (f\<lparr>nodes := (nodes f)(p \<mapsto> pn\<lparr>refctr := r\<rparr>)\<rparr>)"
      by (rule root_ok_upd [OF assms(2,4), of "pn\<lparr>refctr := r\<rparr>"]) (use l in simp_all)
    show ?thesis by (rule root_ok_add [OF r, of a nd]) (use assms(3,5) new(2) n5 n3 in auto)
  qed
  moreover have "names_ok f5 {}" using names_ok_frame [OF ok(1) sh] by (simp add: f5_def f4_def)
  moreover have "refs_ok f5 {} {} ext" using refs_ok_nodes [OF n5] ok(2) by simp
  ultimately have "sane f5 {} {} ext" by (simp add: sane_def)
  then show ?thesis using h l5 n5 by simp
qed

lemma create_node_ok:
  assumes "sane0 f" "mmap_ok (pagesize f) (slabs f) mem" "nodes f p = Some pn" "nodeid pn = pid" "(pid, s) \<notin> nameof f ` named f"
    and "card (dom (nodes f)) + 3 \<le> 2 ^ 32" "refctr pn < int_max"
  shows "\<exists>r f'. create_node mem pid s f = Inr (r, f') \<and> (case r of
      None \<Rightarrow> sane0 f' \<and> nodes f' = nodes f \<and> (mem = None \<or> 32 \<le> length s)
    | Some a \<Rightarrow> \<exists>nd. a \<notin> dom (nodes f) \<and> nodes f' = (nodes f)(p \<mapsto> pn\<lparr>refctr := refctr pn + 1\<rparr>, a \<mapsto> nd)
        \<and> nodeid nd \<notin> {0, FUSE_UNKNOWN_INO} \<union> idof f ` dom (nodes f) \<and> name nd = Some s \<and> parent nd = Some p
        \<and> nlookup nd = (if remember f = 0 then 0 else 1) \<and> treelock nd = 0 \<and> sane f' {} {} ((\<lambda>_. 0)(a := 1 - lookup_ref nd)))"
proof -
  note S = saneD [OF assms(1)]
  consider (none) "new_node mem f = Inr (None, f)" "mem = None"
    | (some) a s1 st nd0 xs where "new_node mem f = Inr (Some a, f\<lparr>slabs := s1, stale := st, nodes := (nodes f)(a \<mapsto> nd0)\<rparr>)"
       "a \<notin> dom (nodes f)" "mem_ok (pagesize f) (remember f) s1 (insert a (dom (nodes f))) (insert a (roots f)) xs" "a \<notin> set xs"
       "name nd0 = None" "remember f = 0 \<longrightarrow> nlookup nd0 = 0"
       "\<forall>b. nodes f b = None \<longrightarrow> name (st b) = None \<and> (remember f = 0 \<longrightarrow> nlookup (st b) = 0)"
    using new_node_ok [OF assms(1,2)] by blast
  then show ?thesis
  proof cases
    case none
    then show ?thesis using assms(1) by (simp add: create_node_def)
  next
    case (some a s1 st nd0 xs)
    define f1 where "f1 = f\<lparr>slabs := s1, stale := st, nodes := (nodes f)(a \<mapsto> nd0)\<rparr>"
    have f1: "nodes f1 = (nodes f)(a \<mapsto> nd0)" "id_table f1 = id_table f" by (simp_all add: f1_def)
    obtain n g where n: "next_id f1 = Inr (n, f1\<lparr>ctr := n, generation := g\<rparr>)" "n \<notin> {0, FUSE_UNKNOWN_INO} \<union> idof f ` dom (nodes f)"
      using next_id_runs [OF S(1) some(2) f1 assms(6)] by blast
    obtain r rn where r: "nodes f r = Some rn" "nodeid rn = FUSE_ROOT_ID" using S(4) by (auto simp: root_ok_def)
    have "FUSE_ROOT_ID \<in> idof f ` dom (nodes f)" using r by (force simp: idof_def intro: rev_image_eqI [of r])
    then have nr: "n \<noteq> FUSE_ROOT_ID" using n(2) by auto
    define nd where "nd = init_node (remember f) n g nd0"
    have nd: "name nd = None" "nodeid nd = n" "refctr nd = 1" "treelock nd = 0" "nlookup nd = (if remember f = 0 then 0 else 1)"
      using some(5,6) by (auto simp: nd_def init_node_def)
    define f2 where "f2 = f\<lparr>slabs := s1, stale := st, ctr := n, generation := g, nodes := (nodes f)(a \<mapsto> nd)\<rparr>"
    have f2: "nodes f2 = (nodes f)(a \<mapsto> nd)" "id_table f2 = id_table f" "name_table f2 = name_table f" "slabs f2 = s1" "stale f2 = st"
      "pagesize f2 = pagesize f" "remember f2 = remember f" by (simp_all add: f2_def)
    have run: "create_node mem pid s f = bindc (hash_name a pid s f2) (\<lambda>(res, f).
         if res = -1 then bindc (free_node a f) (\<lambda>f. Inr (None, f))
         else bindc (node_hash_id a f) (\<lambda>f. bindc (if lru_enabled (remember f) then on_slabs (lru_init a) f else Inr f) (\<lambda>f. Inr (Some a, f))))"
      using some(1) n(1) by (simp add: create_node_def f1_def [symmetric]) (simp add: f1_def modn_def getn_def nd_def f2_def)
    note I = fresh_ids [OF S(1) some(2) f2(1,2)]
    note sh = shapes_fresh [OF S(2) some(2) f2(1) nd(1)]
    have nrd: "nodeid nd \<noteq> FUSE_ROOT_ID" using nr nd(2) by simp
    note sh = sh [OF nrd]
    have p: "nodes f2 p = Some pn" "a \<noteq> p" using assms(3) some(2) f2(1) by auto
    have tp: "the_node f2 pid = Inr p"
      by (rule the_node_ok [OF I(1)]) (use I(2,3) f2(1) p assms(3,4) in \<open>auto simp: idof_def\<close>)
    have fr: "names_ok f2 {}" "refs_ok f2 {} {} ((\<lambda>_. 0)(a := 1 - lookup_ref nd))"
      using fresh_ok [OF assms(1) some(2) f2(1,3) nd(1) nrd nd(3,4)] by auto
    have free: "(pid, s) \<notin> nameof f2 ` named f2" using assms(5) sh(2,7) by auto
    have na: "nodes f2 a = Some nd" by (simp add: f2(1))
    have fin: "finite (dom (nodes f2))" using finite_nodes [OF S(1)] sh(6) by simp
    from hash_name_ok [OF tp p(1) assms(4) na nd(1) p(2) assms(7) nrd fin fr free] show ?thesis
    proof
      assume "\<exists>cs. 32 \<le> length s \<and> hash_name a pid s f2 = Inr (-1, f2\<lparr>coins := cs\<rparr>)"
      then obtain cs where cs: "32 \<le> length s" "hash_name a pid s f2 = Inr (-1, f2\<lparr>coins := cs\<rparr>)" by blast
      obtain g' where "free_node a (f2\<lparr>coins := cs\<rparr>) = Inr g'" "sane0 g'" "nodes g' = nodes f"
        using unfresh [OF assms(1) some(2), of "f2\<lparr>coins := cs\<rparr>" nd xs] f2 some(3,4,7) nd by auto
      then show ?thesis using run cs by simp
    next
      assume "\<exists>t cs f'. hash_name a pid s f2 = Inr (0, f')
        \<and> f' = f2\<lparr>coins := cs, nodes := (nodes f2)(p \<mapsto> pn\<lparr>refctr := refctr pn + 1\<rparr>, a \<mapsto> nd\<lparr>name := Some s, parent := Some p\<rparr>), name_table := t\<rparr>
        \<and> names_ok f' {} \<and> refs_ok f' {} {} ((\<lambda>_. 0)(a := 1 - lookup_ref nd))"
      then obtain t cs f3 where h: "hash_name a pid s f2 = Inr (0, f3)" "names_ok f3 {}" "refs_ok f3 {} {} ((\<lambda>_. 0)(a := 1 - lookup_ref nd))"
        and f3: "f3 = f2\<lparr>coins := cs, nodes := (nodes f2)(p \<mapsto> pn\<lparr>refctr := refctr pn + 1\<rparr>, a \<mapsto> nd\<lparr>name := Some s, parent := Some p\<rparr>), name_table := t\<rparr>" by blast
      define nd' where "nd' = nd\<lparr>name := Some s, parent := Some p\<rparr>"
      have n3: "nodes f3 = (nodes f)(p \<mapsto> pn\<lparr>refctr := refctr pn + 1\<rparr>, a \<mapsto> nd')"
        using p(2) by (simp add: f3 f2(1) nd'_def fun_upd_twist)
      have fld: "id_table f3 = id_table f" "pagesize f3 = pagesize f" "remember f3 = remember f" "slabs f3 = s1" "stale f3 = st"
        using f2 by (simp_all add: f3)
      have nd': "nodeid nd' = n" "name nd' = Some s" "parent nd' = Some p" "nlookup nd' = (if remember f = 0 then 0 else 1)" "lookup_ref nd' = lookup_ref nd" "treelock nd' = 0"
        using nd by (simp_all add: nd'_def lookup_ref_def)
      obtain f' where f': "bindc (node_hash_id a f3) (\<lambda>f. bindc (if lru_enabled (remember f) then on_slabs (lru_init a) f else Inr f) (\<lambda>f. Inr (Some a, f))) = Inr (Some a, f')"
          "nodes f' = nodes f3" "sane f' {} {} ((\<lambda>_. 0)(a := 1 - lookup_ref nd))"
        using adopt [OF S(1,4) some(2) assms(3) p(2) [symmetric] n3 fld(1), where xs = xs and ext = "(\<lambda>_. 0)(a := 1 - lookup_ref nd)"]
          nd'(1) n(2) nr some(3,4,7) fld h(2,3) by auto
      have "create_node mem pid s f = Inr (Some a, f')" using run h(1) f'(1) by simp
      moreover have "nodes f' = (nodes f)(p \<mapsto> pn\<lparr>refctr := refctr pn + 1\<rparr>, a \<mapsto> nd')" using f'(2) n3 by simp
      moreover have "sane f' {} {} ((\<lambda>_. 0)(a := 1 - lookup_ref nd'))" using f'(3) nd'(5) by simp
      ultimately show ?thesis using some(2) n(2) nd' by auto
    qed
  qed
qed

section \<open>Lookups\<close>

text \<open>The first lookup is the reference of a new node; later ones count on it.\<close>

lemma count_lookup:
  assumes "sane f {} {} ((\<lambda>_. 0)(a := 1 - lookup_ref nd))" "nodes f a = Some nd" "nlookup nd + 1 < 2 ^ 64"
  shows "\<exists>f'. modn a (\<lambda>nd. nd\<lparr>nlookup := inc64 (nlookup nd)\<rparr>) f = Inr f' \<and> sane0 f'
    \<and> f' = f\<lparr>nodes := (nodes f)(a \<mapsto> nd\<lparr>nlookup := nlookup nd + 1\<rparr>)\<rparr>"
proof -
  note R = refs_okD [OF saneD(3) [OF assms(1)] assms(2)]
  have "sane0 (f\<lparr>nodes := (nodes f)(a \<mapsto> nd\<lparr>nlookup := nlookup nd + 1\<rparr>)\<rparr>)"
    by (rule sane_counters [OF assms(1,2)]) (use R in \<open>auto simp: nshape_def node_refs_def lookup_ref_def split: if_splits\<close>)
  then show ?thesis using assms(2,3) by (simp add: modn_def getn_def inc64_def)
qed

definition place :: "fuse \<Rightarrow> nat \<Rightarrow> string option \<Rightarrow> nat \<Rightarrow> bool" where
  "place f pid s a \<longleftrightarrow> (case s of None \<Rightarrow> a \<in> dom (nodes f) \<and> idof f a = pid | Some t \<Rightarrow> a \<in> named f \<and> nameof f a = (pid, t))"

lemma place_found:
  assumes "sane0 f" "place f pid s a"
  shows "bindc (case s of None \<Rightarrow> bindc (the_node f pid) (\<lambda>a. Inr (Some a)) | Some s \<Rightarrow> node_by_name f pid s) k = k (Some a)"
proof (cases s)
  case None
  then obtain nd where "nodes f a = Some nd" "nodeid nd = pid" using assms(2) by (auto simp: place_def idof_def)
  then have "the_node f pid = Inr a" using ids_the_node [OF saneD(1) [OF assms(1)]] by blast
  then show ?thesis using None by simp
next
  case (Some t)
  obtain r where r: "node_by_name f pid t = Inr r" "\<forall>a. r = Some a \<longleftrightarrow> a \<in> named f \<and> nameof f a = (pid, t)"
    using node_by_name_ok [OF saneD(2) [OF assms(1)]] by blast
  then have "r = Some a" using assms(2) Some by (simp add: place_def)
  then show ?thesis using r(1) Some by simp
qed

text \<open>A node that the kernel already knows is found and counts one more lookup.\<close>

lemma find_known_ok:
  assumes "sane0 f" "place f pid s a" "nodes f a = Some nd" "0 < nlookup nd" "nlookup nd + 1 < 2 ^ 64"
    and "nodeid nd = FUSE_ROOT_ID \<longrightarrow> lru_enabled (remember f) \<longrightarrow> nlookup nd \<noteq> 1"
  shows "\<exists>f'. find_node mem pid s f = Inr (Some a, f') \<and> sane0 f' \<and> nodes f' = (nodes f)(a \<mapsto> nd\<lparr>nlookup := nlookup nd + 1\<rparr>) \<and> rest f' = rest f"
proof -
  obtain f1 where f1: "(if lru_enabled (remember f) \<and> nlookup nd = 1 then remove_node_lru a f else Inr f) = Inr f1" "sane0 f1"
      "nodes f1 = nodes f" "rest f1 = rest f"
  proof (cases "lru_enabled (remember f) \<and> nlookup nd = 1")
    case True
    obtain xs where xs: "mem_ok (pagesize f) (remember f) (slabs f) (dom (nodes f)) (roots f) xs"
      using saneD(5) [OF assms(1)] by (auto simp: memory_ok_def)
    have nr: "nodeid nd \<noteq> FUSE_ROOT_ID" using True assms(6) by blast
    obtain st where st: "lru_unlink a (slabs f) = Inr st" "mem_ok (pagesize f) (remember f) st (dom (nodes f)) (roots f) (remove1 a xs)"
      using lru_unlink_ok [OF xs not_root [OF assms(1,3) nr]] True by blast
    show thesis by (rule that [of "f\<lparr>slabs := st\<rparr>"]) (use True st sane_slabs [OF assms(1)] in \<open>auto simp: remove_node_lru_def on_slabs_def rest_def\<close>)
  next
    case False
    show thesis by (rule that [of f]) (use False assms(1) in auto)
  qed
  have ext: "(\<lambda>_. 0)(a := 1 - lookup_ref nd) = (\<lambda>_. 0 :: nat)" using assms(4) by (auto simp: lookup_ref_def)
  have s1: "sane f1 {} {} ((\<lambda>_. 0)(a := 1 - lookup_ref nd))" using f1(2) ext by simp
  have n1: "nodes f1 a = Some nd" using f1(3) assms(3) by simp
  obtain f' where f': "modn a (\<lambda>nd. nd\<lparr>nlookup := inc64 (nlookup nd)\<rparr>) f1 = Inr f'" "sane0 f'"
      "f' = f1\<lparr>nodes := (nodes f1)(a \<mapsto> nd\<lparr>nlookup := nlookup nd + 1\<rparr>)\<rparr>"
    using count_lookup [OF s1 n1 assms(5)] by blast
  have "find_node mem pid s f = Inr (Some a, f')"
    unfolding find_node_def place_found [OF assms(1,2)] using f1(1) f'(1) assms(3) by (simp add: getn_def)
  moreover have "rest f' = rest f" using f'(3) f1(4) by (simp add: rest_def)
  ultimately show ?thesis using f'(2,3) f1(3) by simp
qed

text \<open>An unknown name gets a node with a new number, unless there is no memory.\<close>

lemma find_new_ok:
  assumes "sane0 f" "mmap_ok (pagesize f) (slabs f) mem" "nodes f p = Some pn" "nodeid pn = pid" "\<forall>a. \<not> place f pid (Some t) a"
    and "card (dom (nodes f)) + 3 \<le> 2 ^ 32" "refctr pn < int_max"
  shows "\<exists>r f'. find_node mem pid (Some t) f = Inr (r, f') \<and> sane0 f' \<and> (case r of
      None \<Rightarrow> nodes f' = nodes f \<and> (mem = None \<or> 32 \<le> length t)
    | Some a \<Rightarrow> \<exists>nd. a \<notin> dom (nodes f) \<and> nodes f' = (nodes f)(p \<mapsto> pn\<lparr>refctr := refctr pn + 1\<rparr>, a \<mapsto> nd)
        \<and> nodeid nd \<notin> {0, FUSE_UNKNOWN_INO} \<union> idof f ` dom (nodes f) \<and> name nd = Some t \<and> parent nd = Some p
        \<and> nlookup nd = (if remember f = 0 then 1 else 2) \<and> treelock nd = 0)"
proof -
  obtain r where r: "node_by_name f pid t = Inr r" "\<forall>a. r = Some a \<longleftrightarrow> a \<in> named f \<and> nameof f a = (pid, t)"
    using node_by_name_ok [OF saneD(2) [OF assms(1)]] by blast
  then have none: "r = None" using assms(5) by (cases r) (auto simp: place_def)
  have free: "(pid, t) \<notin> nameof f ` named f" using assms(5) by (force simp: place_def)
  obtain r f1 where c: "create_node mem pid t f = Inr (r, f1)" "case r of
      None \<Rightarrow> sane0 f1 \<and> nodes f1 = nodes f \<and> (mem = None \<or> 32 \<le> length t)
    | Some a \<Rightarrow> \<exists>nd. a \<notin> dom (nodes f) \<and> nodes f1 = (nodes f)(p \<mapsto> pn\<lparr>refctr := refctr pn + 1\<rparr>, a \<mapsto> nd)
        \<and> nodeid nd \<notin> {0, FUSE_UNKNOWN_INO} \<union> idof f ` dom (nodes f) \<and> name nd = Some t \<and> parent nd = Some p
        \<and> nlookup nd = (if remember f = 0 then 0 else 1) \<and> treelock nd = 0 \<and> sane f1 {} {} ((\<lambda>_. 0)(a := 1 - lookup_ref nd))"
    using create_node_ok [OF assms(1-4) free assms(6,7)] by blast
  show ?thesis
  proof (cases r)
    case None
    then show ?thesis using c \<open>node_by_name f pid t = Inr _\<close> none by (simp add: find_node_def)
  next
    case (Some a)
    then obtain nd where nd: "a \<notin> dom (nodes f)" "nodes f1 = (nodes f)(p \<mapsto> pn\<lparr>refctr := refctr pn + 1\<rparr>, a \<mapsto> nd)"
        "nodeid nd \<notin> {0, FUSE_UNKNOWN_INO} \<union> idof f ` dom (nodes f)" "name nd = Some t" "parent nd = Some p"
        "nlookup nd = (if remember f = 0 then 0 else 1)" "sane f1 {} {} ((\<lambda>_. 0)(a := 1 - lookup_ref nd))" "treelock nd = 0"
      using c(2) by auto
    have n1: "nodes f1 a = Some nd" "nlookup nd + 1 < 2 ^ 64" using nd(2,6) by auto
    obtain f' where f': "modn a (\<lambda>nd. nd\<lparr>nlookup := inc64 (nlookup nd)\<rparr>) f1 = Inr f'" "sane0 f'"
        "f' = f1\<lparr>nodes := (nodes f1)(a \<mapsto> nd\<lparr>nlookup := nlookup nd + 1\<rparr>)\<rparr>"
      using count_lookup [OF nd(7) n1] by blast
    have run: "find_node mem pid (Some t) f = Inr (Some a, f')"
      using c(1) Some f'(1) \<open>node_by_name f pid t = Inr _\<close> none by (simp add: find_node_def)
    have n': "nodes f' = (nodes f)(p \<mapsto> pn\<lparr>refctr := refctr pn + 1\<rparr>, a \<mapsto> nd\<lparr>nlookup := nlookup nd + 1\<rparr>)" using f'(3) nd(2) by simp
    have "\<exists>md. a \<notin> dom (nodes f) \<and> nodes f' = (nodes f)(p \<mapsto> pn\<lparr>refctr := refctr pn + 1\<rparr>, a \<mapsto> md)
        \<and> nodeid md \<notin> {0, FUSE_UNKNOWN_INO} \<union> idof f ` dom (nodes f) \<and> name md = Some t \<and> parent md = Some p
        \<and> nlookup md = (if remember f = 0 then 1 else 2) \<and> treelock md = 0"
      by (rule exI [of _ "nd\<lparr>nlookup := nlookup nd + 1\<rparr>"]) (use nd(1,3-6,8) n' in simp)
    then show ?thesis using run f'(2) by auto
  qed
qed

end
