(* ===== verification/Fuse_Requests.thy ===== *)
theory Fuse_Requests
  imports Fuse_Lookup
begin

text \<open>
  What the kernel asks of the nodes, one request after the other: lookups, forgets, removals and renames.
  As long as the kernel holds what it names, no request runs into undefined behaviour or a failed assertion,
  and the nodes stay a tree in which each node counts the references to it.
\<close>

section \<open>The tree\<close>

definition up :: "fuse \<Rightarrow> (nat \<times> nat) set" where
  "up f = {(b, q). b \<in> named f \<and> (\<exists>i s. shapes f b = Some (i, s, Some q))}"

definition tidy :: "fuse \<Rightarrow> bool" where
  "tidy f \<longleftrightarrow> sane0 f \<and> acyclic (up f)"

lemma up_same: "shapes f' = shapes f \<Longrightarrow> up f' = up f"
  using same_shapes(4) [of f' f] by (simp add: up_def)

lemma up_node: "nodes f a = Some nd \<Longrightarrow> name nd = Some s \<Longrightarrow> nodeid nd \<noteq> FUSE_ROOT_ID \<Longrightarrow> parent nd = Some q \<Longrightarrow> (a, q) \<in> up f"
  by (auto simp: up_def shapes_def nshape_def named_def)

lemma survives_up: "survives D f f' \<Longrightarrow> up f' \<subseteq> up f"
  using survives_shapes [of D f f'] unfolding up_def named_def by fast

lemma up_nodes: "names_ok f {} \<Longrightarrow> (b, q) \<in> up f \<Longrightarrow> b \<in> dom (nodes f) \<and> q \<in> dom (nodes f)"
  using named_parent [of f "{}" b] by (auto simp: up_def shapes_def)

lemma up_irrefl: "acyclic (up f) \<Longrightarrow> (a, b) \<in> up f \<Longrightarrow> a \<noteq> b"
  unfolding acyclic_def by blast

lemma tidyD: "tidy f \<Longrightarrow> sane0 f" "tidy f \<Longrightarrow> acyclic (up f)"
  by (simp_all add: tidy_def)

text \<open>A new leaf.\<close>

lemma up_leaf:
  assumes "names_ok f {}" "acyclic (up f)" "a \<notin> dom (nodes f)" "nodes f p = Some pn"
    and "nodes f' = (nodes f)(p \<mapsto> pn\<lparr>refctr := r\<rparr>, a \<mapsto> nd)" "parent nd = Some p"
  shows "acyclic (up f')"
proof -
  have "p \<noteq> a" using assms(3,4) by auto
  then have sh: "shapes f' = (shapes f)(a \<mapsto> nshape nd)" using assms(4,5) by (auto simp: shapes_def nshape_def fun_eq_iff)
  have "up f' \<subseteq> insert (a, p) (up f)" using assms(6) by (auto simp: up_def named_def sh nshape_def split: if_splits)
  moreover have "(p, a) \<notin> (up f)\<^sup>*"
  proof
    assume "(p, a) \<in> (up f)\<^sup>*"
    then obtain c where "(c, a) \<in> up f" using \<open>p \<noteq> a\<close> by (metis rtrancl.cases)
    then show False using up_nodes [OF assms(1)] assms(3) by blast
  qed
  ultimately show ?thesis using assms(2) acyclic_insert acyclic_subset by metis
qed

text \<open>A node without its name, and with a new one.\<close>

lemma up_drop:
  assumes "nodes f a = Some nd" "nodes f q = Some qn" "q \<noteq> a"
    and "nodes f' = (nodes f)(q \<mapsto> qn\<lparr>refctr := r\<rparr>, a \<mapsto> nd\<lparr>name := None, parent := None\<rparr>)"
  shows "up f' = {(b, p) \<in> up f. b \<noteq> a}"
proof -
  have "shapes f' = (shapes f)(a \<mapsto> (nodeid nd, None, None))" using assms by (auto simp: shapes_def nshape_def fun_eq_iff)
  then show ?thesis by (auto simp: up_def named_def split: if_splits)
qed

lemma up_link:
  assumes "nodes f a = Some nd" "nodes f p = Some pn" "a \<noteq> p" "name nd = None" "nodeid nd \<noteq> FUSE_ROOT_ID"
    and "nodes f' = (nodes f)(p \<mapsto> pn\<lparr>refctr := r\<rparr>, a \<mapsto> nd\<lparr>name := Some s, parent := Some p\<rparr>)"
  shows "up f' = insert (a, p) (up f)"
proof -
  have "shapes f' = (shapes f)(a \<mapsto> (nodeid nd, Some s, Some p))" using assms by (auto simp: shapes_def nshape_def fun_eq_iff)
  moreover have "shapes f a = Some (nodeid nd, None, parent nd)" using assms by (simp add: shapes_def nshape_def)
  ultimately show ?thesis using assms(5) by (auto simp: up_def named_def split: if_splits)
qed

lemma place_node:
  assumes "names_ok f {}" "place f dir (Some s) a"
  shows "\<exists>nd q qn. nodes f a = Some nd \<and> name nd = Some s \<and> nodeid nd \<noteq> FUSE_ROOT_ID \<and> parent nd = Some q \<and> nodes f q = Some qn \<and> nodeid qn = dir"
proof -
  have a: "a \<in> named f" "nameof f a = (dir, s)" using assms(2) by (simp_all add: place_def)
  obtain nd where nd: "nodes f a = Some nd" using a(1) by (auto simp: named_def shapes_def)
  obtain q where q: "parent nd = Some q" "q \<in> dom (nodes f)" using named_parent [OF assms(1), of a] a(1) nd by (auto simp: shapes_def nshape_def)
  obtain t where t: "name nd = Some t" "nodeid nd \<noteq> FUSE_ROOT_ID" using a(1) named_node [OF nd] by auto
  then show ?thesis using nameof_node [OF nd q(1) t(1)] a(2) nd q by (auto simp: idof_def)
qed

section \<open>Removal\<close>

lemma unlink_node_ok:
  assumes "tidy f" "place f dir (Some s) a" "nodes f a = Some nd" "remember f \<noteq> 0 \<longrightarrow> 1 < nlookup nd"
    and "nodes f p = Some pn" "nodeid pn = dir" "0 < nlookup pn"
  shows "\<exists>f'. unlink_node a f = Inr f' \<and> tidy f' \<and> rest f' = rest f \<and> up f' = {(b, c) \<in> up f. b \<noteq> a}
    \<and> nodes f' = (nodes f)(p \<mapsto> pn\<lparr>refctr := refctr pn - 1\<rparr>,
        a \<mapsto> nd\<lparr>nlookup := (if remember f = 0 then nlookup nd else nlookup nd - 1), name := None, parent := None\<rparr>)"
proof -
  note T = tidyD [OF assms(1)]
  note S = saneD [OF T(1)]
  obtain q qn where nd: "name nd = Some s" "nodeid nd \<noteq> FUSE_ROOT_ID" "parent nd = Some q" "nodes f q = Some qn" "nodeid qn = dir"
    using place_node [OF S(2) assms(2)] assms(3) by auto
  have "q = p" using same_id [OF S(1) nd(4) assms(5)] nd(5) assms(6) by simp
  then have qp: "parent nd = Some p" "p \<noteq> a" using nd(3) up_irrefl [OF T(2) up_node [OF assms(3) nd(1-3)]] by auto
  define md where "md = nd\<lparr>nlookup := (if remember f = 0 then nlookup nd else nlookup nd - 1)\<rparr>"
  define f1 where "f1 = f\<lparr>nodes := (nodes f)(a \<mapsto> md)\<rparr>"
  have md: "nodes f1 a = Some md" "name md = Some s" "nodeid md \<noteq> FUSE_ROOT_ID" "parent md = Some p" using nd qp by (simp_all add: f1_def md_def)
  have p1: "nodes f1 p = Some pn" using assms(5) qp(2) by (simp add: f1_def)
  have s1: "sane0 f1" unfolding f1_def
    by (rule sane_counters [OF T(1) assms(3)])
      (use refs_okD [OF S(3) assms(3)] assms(4) nd(2) in \<open>auto simp: md_def nshape_def node_refs_def lookup_ref_def split: if_splits\<close>)
  have n1: "nodes f1 = (nodes f)(a \<mapsto> md)" by (simp add: f1_def)
  have "(if remember f \<noteq> 0 then bindc (getn f a) (\<lambda>nd. if nlookup nd \<le> 1 then Inl Aborted else modn a (\<lambda>nd. nd\<lparr>nlookup := nlookup nd - 1\<rparr>) f)
      else Inr f) = Inr f1"
    using assms(3,4) by (auto simp: getn_def modn_def f1_def md_def fun_upd_idem)
  moreover obtain t cs f' where f': "unhash_name a f1 = Inr f'" "sane0 f'"
      "f' = f1\<lparr>nodes := (nodes f1)(p \<mapsto> pn\<lparr>refctr := refctr pn - 1\<rparr>, a \<mapsto> md\<lparr>name := None, parent := None\<rparr>), name_table := t, coins := cs\<rparr>"
    using unhash_keep [OF s1 md p1 assms(7) _ qp(2)] by blast
  ultimately have "unlink_node a f = Inr f'" by (simp add: unlink_node_def)
  moreover have n': "nodes f' = (nodes f)(p \<mapsto> pn\<lparr>refctr := refctr pn - 1\<rparr>, a \<mapsto> md\<lparr>name := None, parent := None\<rparr>)"
    using f'(3) n1 qp(2) by (simp add: fun_upd_twist)
  have "up f' = {(b, c) \<in> up f1. b \<noteq> a}"
    by (rule up_drop [OF md(1) p1 qp(2), of f']) (simp add: f'(3))
  moreover have "up f1 = up f" unfolding f1_def by (rule up_same, rule shapes_upd [OF assms(3)]) (simp add: nshape_def md_def)
  ultimately have u: "up f' = {(b, c) \<in> up f. b \<noteq> a}" by simp
  have "acyclic (up f')" by (rule acyclic_subset [OF T(2)]) (use u in auto)
  moreover have "rest f' = rest f" by (simp add: f'(3) f1_def rest_def)
  ultimately show ?thesis using \<open>unlink_node a f = Inr f'\<close> f'(2) n' u by (simp add: tidy_def md_def)
qed

lemma place_iff: "nodes f a = Some nd \<Longrightarrow> parent nd = Some q \<Longrightarrow> place f dir (Some s) a \<longleftrightarrow> name nd = Some s \<and> nodeid nd \<noteq> FUSE_ROOT_ID \<and> idof f q = dir"
  by (auto simp: place_def named_node nameof_def split: option.splits)

lemma place_unique: "names_ok f {} \<Longrightarrow> place f dir (Some s) a \<Longrightarrow> place f dir (Some s) b \<Longrightarrow> a = b"
  by (auto simp: names_ok_def place_def inj_on_def)

lemma node_by_name_place:
  assumes "names_ok f {}"
  shows "place f dir (Some s) a \<Longrightarrow> node_by_name f dir s = Inr (Some a)" "(\<And>a. \<not> place f dir (Some s) a) \<Longrightarrow> node_by_name f dir s = Inr None"
proof -
  obtain r where r: "node_by_name f dir s = Inr r" "\<forall>a. r = Some a \<longleftrightarrow> place f dir (Some s) a"
    using node_by_name_ok [OF assms] by (force simp: place_def)
  show "place f dir (Some s) a \<Longrightarrow> node_by_name f dir s = Inr (Some a)" using r by simp
  show "(\<And>a. \<not> place f dir (Some s) a) \<Longrightarrow> node_by_name f dir s = Inr None" using r by (cases r) auto
qed

section \<open>Renaming\<close>

lemma hash_name_sane:
  assumes "sane0 f" "nodes f p = Some pn" "nodeid pn = pid" "nodes f a = Some nd" "name nd = None" "a \<noteq> p"
    and "refctr pn < int_max" "nodeid nd \<noteq> FUSE_ROOT_ID" "\<forall>b. \<not> place f pid (Some s) b"
  shows "(\<exists>cs. 32 \<le> length s \<and> hash_name a pid s f = Inr (-1, f\<lparr>coins := cs\<rparr>) \<and> sane0 (f\<lparr>coins := cs\<rparr>))
    \<or> (\<exists>f'. hash_name a pid s f = Inr (0, f') \<and> sane0 f' \<and> rest f' = rest f
        \<and> nodes f' = (nodes f)(p \<mapsto> pn\<lparr>refctr := refctr pn + 1\<rparr>, a \<mapsto> nd\<lparr>name := Some s, parent := Some p\<rparr>))"
proof -
  note S = saneD [OF assms(1)]
  have the: "the_node f pid = Inr p" using ids_the_node [OF S(1) assms(2)] assms(3) by simp
  have free: "(pid, s) \<notin> nameof f ` named f" using assms(9) by (force simp: place_def)
  from hash_name_ok [OF the assms(2-8) finite_nodes [OF S(1)] S(2,3) free] show ?thesis
  proof
    assume "\<exists>cs. 32 \<le> length s \<and> hash_name a pid s f = Inr (-1, f\<lparr>coins := cs\<rparr>)"
    moreover have "sane0 (f\<lparr>coins := cs\<rparr>)" for cs
      using assms(1) same_shapes [OF same_nodes, of "f\<lparr>coins := cs\<rparr>" f] refs_ok_nodes [of "f\<lparr>coins := cs\<rparr>" f]
        roots_frame [OF same_nodes, of "f\<lparr>coins := cs\<rparr>" f] ids_ok_frame [OF S(1) same_nodes, of "f\<lparr>coins := cs\<rparr>"]
        names_ok_frame [OF S(2) same_nodes, of "f\<lparr>coins := cs\<rparr>"] memory_ok_frame [OF S(5) same_nodes, of "f\<lparr>coins := cs\<rparr>"]
      by (simp add: sane_def root_ok_def)
    ultimately show ?thesis by blast
  next
    assume "\<exists>t cs f'. hash_name a pid s f = Inr (0, f')
        \<and> f' = f\<lparr>coins := cs, nodes := (nodes f)(p \<mapsto> pn\<lparr>refctr := refctr pn + 1\<rparr>, a \<mapsto> nd\<lparr>name := Some s, parent := Some p\<rparr>), name_table := t\<rparr>
        \<and> names_ok f' {} \<and> refs_ok f' {} {} (\<lambda>_. 0)"
    then obtain t cs f' where h: "hash_name a pid s f = Inr (0, f')" "names_ok f' {}" "refs_ok f' {} {} (\<lambda>_. 0)"
      and f': "f' = f\<lparr>coins := cs, nodes := (nodes f)(p \<mapsto> pn\<lparr>refctr := refctr pn + 1\<rparr>, a \<mapsto> nd\<lparr>name := Some s, parent := Some p\<rparr>), name_table := t\<rparr>" by blast
    have n': "nodes f' = (nodes f)(p \<mapsto> pn\<lparr>refctr := refctr pn + 1\<rparr>, a \<mapsto> nd\<lparr>name := Some s, parent := Some p\<rparr>)" by (simp add: f')
    note L = shapes_link [OF assms(4,2,6,5,8) n']
    have "ids_ok f'" using S(1) unfolding ids_ok_def L(1,5) by (simp add: f')
    moreover have "memory_ok f'"
    proof -
      have "nodes f' b = None \<longleftrightarrow> nodes f b = None" for b using L(5) by (metis domIff)
      then show ?thesis using S(5) unfolding memory_ok_def L(4,5) by (simp add: f')
    qed
    moreover have "root_ok f'"
    proof -
      have "root_ok (f\<lparr>nodes := (nodes f)(p \<mapsto> pn\<lparr>refctr := refctr pn + 1\<rparr>)\<rparr>)"
        by (rule root_ok_upd [OF S(4) assms(2), of "pn\<lparr>refctr := refctr pn + 1\<rparr>"]) (use S(4) assms(2) in \<open>auto simp: root_ok_def\<close>)
      then show ?thesis using assms(4,6,8) n' unfolding root_ok_def by (auto split: if_splits)
    qed
    ultimately have "sane0 f'" using h(2,3) by (simp add: sane_def)
    moreover have "rest f' = rest f" by (simp add: f' rest_def)
    ultimately show ?thesis using h(1) n' by blast
  qed
qed

lemma place_drop:
  assumes "nodes f a = Some nd" "nodes f q = Some qn" "q \<noteq> a"
    and "nodes f' = (nodes f)(q \<mapsto> qn\<lparr>refctr := r\<rparr>, a \<mapsto> nd\<lparr>nlookup := k, name := None, parent := None\<rparr>)"
  shows "place f' d (Some t) b \<longleftrightarrow> place f d (Some t) b \<and> b \<noteq> a"
proof -
  have sh: "shapes f' = (shapes f)(a \<mapsto> (nodeid nd, None, None))" using assms by (auto simp: shapes_def nshape_def fun_eq_iff)
  have sa: "shapes f a = Some (nodeid nd, name nd, parent nd)" using assms(1) by (simp add: shapes_def nshape_def)
  have i: "idof f' = idof f" by (rule ext) (simp add: idof_shapes sh sa)
  have nm: "nameof f' b = nameof f b" if "b \<noteq> a" for b unfolding nameof_shapes i using that by (simp add: sh)
  have "named f' = named f - {a}" by (auto simp: named_def sh)
  then show ?thesis using nm by (auto simp: place_def)
qed

lemma move_node_ok:
  assumes "tidy f" "place f olddir (Some s) a" "nodes f a = Some nd" "nodes f q = Some qn" "nodeid qn = olddir" "0 < nlookup qn"
    and "nodes f p = Some pn" "nodeid pn = newdir" "refctr pn < int_max" "(p, a) \<notin> (up f)\<^sup>*" "\<forall>b. \<not> place f newdir (Some t) b"
  shows "\<exists>res f'. bindc (unhash_name a f) (hash_name a newdir t) = Inr (res, f') \<and> tidy f' \<and> rest f' = rest f
    \<and> (res = 0 \<and> nodes f' a = Some (nd\<lparr>name := Some t, parent := Some p\<rparr>)
       \<or> res = -1 \<and> 32 \<le> length t \<and> nodes f' a = Some (nd\<lparr>name := None, parent := None\<rparr>))
    \<and> (\<forall>b. b \<noteq> a \<longrightarrow> map_option (refctr_update (\<lambda>_. 0)) (nodes f' b) = map_option (refctr_update (\<lambda>_. 0)) (nodes f b))"
proof -
  note T = tidyD [OF assms(1)]
  note S = saneD [OF T(1)]
  obtain q' qn' where nd: "name nd = Some s" "nodeid nd \<noteq> FUSE_ROOT_ID" "parent nd = Some q'" "nodes f q' = Some qn'" "nodeid qn' = olddir"
    using place_node [OF S(2) assms(2)] assms(3) by auto
  have "q' = q" using same_id [OF S(1) nd(4) assms(4)] nd(5) assms(5) by simp
  then have q: "parent nd = Some q" "q \<noteq> a" using nd(3) up_irrefl [OF T(2) up_node [OF assms(3) nd(1-3)]] by auto
  have pa: "a \<noteq> p" using assms(10) by auto
  define md where "md = nd\<lparr>name := None, parent := None\<rparr>"
  obtain tb cs f1 where f1: "unhash_name a f = Inr f1" "sane0 f1"
      "f1 = f\<lparr>nodes := (nodes f)(q \<mapsto> qn\<lparr>refctr := refctr qn - 1\<rparr>, a \<mapsto> md), name_table := tb, coins := cs\<rparr>"
    using unhash_keep [OF T(1) assms(3) nd(1,2) q(1) assms(4,6) _ q(2)] unfolding md_def by blast
  have n1: "nodes f1 = (nodes f)(q \<mapsto> qn\<lparr>refctr := refctr qn - 1\<rparr>, a \<mapsto> md)" by (simp add: f1(3))
  have a1: "nodes f1 a = Some md" "name md = None" "nodeid md \<noteq> FUSE_ROOT_ID" using nd(2) by (simp_all add: n1 md_def)
  obtain pm where pm: "nodes f1 p = Some pm" "nodeid pm = newdir" "refctr pm < int_max" "pm\<lparr>refctr := 0\<rparr> = pn\<lparr>refctr := 0\<rparr>"
    using assms(4,7-9) pa by (cases "p = q") (auto simp: n1)
  have u1: "up f1 = {(b, c) \<in> up f. b \<noteq> a}" using up_drop [OF assms(3,4) q(2)] n1 by (simp add: md_def)
  have "\<not> place f1 newdir (Some t) b" for b
    using place_drop [OF assms(3,4) q(2), of f1 "refctr qn - 1" "nlookup nd"] n1 assms(11) by (simp add: md_def)
  then have free: "\<forall>b. \<not> place f1 newdir (Some t) b" by blast
  have r1: "rest f1 = rest f" by (simp add: f1(3) rest_def)
  have others: "map_option (refctr_update (\<lambda>_. 0)) (nodes f1 b) = map_option (refctr_update (\<lambda>_. 0)) (nodes f b)" if "b \<noteq> a" for b
    using that assms(4) by (simp add: n1)
  from hash_name_sane [OF f1(2) pm(1,2) a1(1,2) pa pm(3) a1(3) free] show ?thesis
  proof
    assume "\<exists>cs. 32 \<le> length t \<and> hash_name a newdir t f1 = Inr (-1, f1\<lparr>coins := cs\<rparr>) \<and> sane0 (f1\<lparr>coins := cs\<rparr>)"
    then obtain cs where h: "32 \<le> length t" "hash_name a newdir t f1 = Inr (-1, f1\<lparr>coins := cs\<rparr>)" "sane0 (f1\<lparr>coins := cs\<rparr>)" by blast
    have "acyclic (up (f1\<lparr>coins := cs\<rparr>))"
      by (rule acyclic_subset [OF T(2)]) (use u1 up_same [OF same_nodes, of "f1\<lparr>coins := cs\<rparr>" f1] in auto)
    then have "tidy (f1\<lparr>coins := cs\<rparr>)" using h(3) by (simp add: tidy_def)
    moreover have "rest (f1\<lparr>coins := cs\<rparr>) = rest f" using r1 by (simp add: rest_def)
    ultimately show ?thesis using h(1,2) f1(1) a1(1) others by (intro exI [of _ "-1"] exI [of _ "f1\<lparr>coins := cs\<rparr>"]) (simp add: md_def)
  next
    assume "\<exists>f'. hash_name a newdir t f1 = Inr (0, f') \<and> sane0 f' \<and> rest f' = rest f1
        \<and> nodes f' = (nodes f1)(p \<mapsto> pm\<lparr>refctr := refctr pm + 1\<rparr>, a \<mapsto> md\<lparr>name := Some t, parent := Some p\<rparr>)"
    then obtain f' where h: "hash_name a newdir t f1 = Inr (0, f')" "sane0 f'" "rest f' = rest f1"
      and n': "nodes f' = (nodes f1)(p \<mapsto> pm\<lparr>refctr := refctr pm + 1\<rparr>, a \<mapsto> md\<lparr>name := Some t, parent := Some p\<rparr>)" by blast
    have "up f' = insert (a, p) (up f1)" by (rule up_link [OF a1(1) pm(1) pa a1(2,3) n'])
    moreover have "(p, a) \<notin> (up f1)\<^sup>*" using rtrancl_mono [of "up f1" "up f"] u1 assms(10) by auto
    moreover have "acyclic (up f1)" by (rule acyclic_subset [OF T(2)]) (use u1 in auto)
    ultimately have "tidy f'" using h(2) by (simp add: tidy_def acyclic_insert)
    moreover have "nodes f' a = Some (nd\<lparr>name := Some t, parent := Some p\<rparr>)" using n' by (simp add: md_def)
    moreover have "map_option (refctr_update (\<lambda>_. 0)) (nodes f' b) = map_option (refctr_update (\<lambda>_. 0)) (nodes f b)" if "b \<noteq> a" for b
      using that others [OF that] n' pm(1) by auto
    ultimately show ?thesis using h(1,3) f1(1) r1 by (intro exI [of _ 0] exI [of _ f']) simp
  qed
qed

lemma hide_ok:
  assumes "tidy f" "nodes f a = Some nd"
  shows "\<exists>f'. (if hide then modn a (\<lambda>nd. nd\<lparr>is_hidden := True\<rparr>) f else Inr f) = Inr f' \<and> tidy f' \<and> rest f' = rest f
    \<and> nodes f' a = Some (nd\<lparr>is_hidden := is_hidden nd \<or> hide\<rparr>) \<and> (\<forall>b. b \<noteq> a \<longrightarrow> nodes f' b = nodes f b)"
proof (cases hide)
  case True
  let ?f = "f\<lparr>nodes := (nodes f)(a \<mapsto> nd\<lparr>is_hidden := True\<rparr>)\<rparr>"
  note T = tidyD [OF assms(1)]
  have "nodeid nd = FUSE_ROOT_ID \<longrightarrow> 0 < nlookup nd" using saneD(4) [OF T(1)] assms(2) by (simp add: root_ok_def)
  then have "sane0 ?f"
    by (intro sane_counters [OF T(1) assms(2)]) (use refs_okD [OF saneD(3) [OF T(1)] assms(2)] in \<open>auto simp: nshape_def node_refs_def lookup_ref_def\<close>)
  moreover have "up ?f = up f" by (rule up_same, rule shapes_upd [OF assms(2)]) (simp add: nshape_def)
  ultimately have "tidy ?f" using T(2) by (simp add: tidy_def)
  then show ?thesis using True assms(2) by (simp add: modn_def getn_def rest_def)
next
  case False
  then show ?thesis using assms by simp
qed

definition looked_up :: "fuse \<Rightarrow> nat \<Rightarrow> bool" where
  "looked_up f n \<longleftrightarrow> (\<exists>a nd. nodes f a = Some nd \<and> nodeid nd = n \<and> 0 < nlookup nd)"

definition below :: "fuse \<Rightarrow> nat \<Rightarrow> nat \<Rightarrow> bool" where
  "below f n a \<longleftrightarrow> (\<exists>p. p \<in> dom (nodes f) \<and> idof f p = n \<and> (p, a) \<in> (up f)\<^sup>*)"

definition spare_lookup :: "fuse \<Rightarrow> nat \<Rightarrow> string \<Rightarrow> bool" where
  "spare_lookup f dir s \<longleftrightarrow> (\<forall>a nd. place f dir (Some s) a \<longrightarrow> nodes f a = Some nd \<longrightarrow> remember f \<noteq> 0 \<longrightarrow> 1 < nlookup nd)"

definition room_below :: "fuse \<Rightarrow> nat \<Rightarrow> bool" where
  "room_below f n \<longleftrightarrow> (\<forall>a nd. nodes f a = Some nd \<longrightarrow> nodeid nd = n \<longrightarrow> refctr nd < int_max)"

text \<open>The target of a rename, if there is one, gives up its name first.\<close>

lemma clear_target_ok:
  assumes "tidy f" "nodes f p = Some pn" "nodeid pn = newdir" "0 < nlookup pn" "spare_lookup f newdir t"
    and "node_by_name f newdir t = Inr r"
  shows "\<exists>f'. (case r of None \<Rightarrow> Inr f | Some b \<Rightarrow> unlink_node b f) = Inr f' \<and> tidy f' \<and> rest f' = rest f \<and> up f' \<subseteq> up f
    \<and> (\<forall>b. \<not> place f' newdir (Some t) b) \<and> (\<exists>pm. nodes f' p = Some pm \<and> nodeid pm = newdir \<and> refctr pm \<le> refctr pn)
    \<and> (\<forall>a nd. nodes f a = Some nd \<longrightarrow> 0 < nlookup nd \<longrightarrow> (\<exists>md. nodes f' a = Some md \<and> nodeid md = nodeid nd \<and> 0 < nlookup md))
    \<and> (\<forall>a d s. (d, s) \<noteq> (newdir, t) \<longrightarrow> place f' d (Some s) a \<longleftrightarrow> place f d (Some s) a)
    \<and> (\<forall>a. a \<noteq> p \<longrightarrow> \<not> place f newdir (Some t) a \<longrightarrow> nodes f' a = nodes f a)"
proof (cases r)
  case None
  have "\<not> place f newdir (Some t) b" for b
  proof
    assume "place f newdir (Some t) b"
    then have "node_by_name f newdir t = Inr (Some b)" using node_by_name_place(1) saneD(2) tidyD(1) [OF assms(1)] by blast
    then show False using assms(6) None by simp
  qed
  then show ?thesis using None assms by auto
next
  case (Some b)
  note T = tidyD [OF assms(1)]
  note N = saneD(2) [OF T(1)]
  have b: "place f newdir (Some t) b"
  proof (rule ccontr)
    assume no: "\<not> ?thesis"
    obtain r' where "node_by_name f newdir t = Inr r'" "\<forall>a. r' = Some a \<longleftrightarrow> place f newdir (Some t) a"
      using node_by_name_ok [OF N] by (force simp: place_def)
    then show False using no assms(6) Some by auto
  qed
  obtain nd where nd: "nodes f b = Some nd" "name nd = Some t" "parent nd = Some p" "nodeid nd \<noteq> FUSE_ROOT_ID"
  proof -
    obtain nd q qn where q: "nodes f b = Some nd" "name nd = Some t" "nodeid nd \<noteq> FUSE_ROOT_ID" "parent nd = Some q" "nodes f q = Some qn" "nodeid qn = newdir"
      using place_node [OF N b] by auto
    have "q = p" using same_id [OF saneD(1) [OF T(1)] q(5) assms(2)] q(6) assms(3) by simp
    then show thesis using that q by simp
  qed
  have bp: "p \<noteq> b" using up_irrefl [OF T(2) up_node [OF nd(1,2,4,3)]] by simp
  have sp: "remember f \<noteq> 0 \<longrightarrow> 1 < nlookup nd" using assms(5) b nd(1) by (simp add: spare_lookup_def)
  obtain f' where f': "unlink_node b f = Inr f'" "tidy f'" "rest f' = rest f" "up f' = {(c, d) \<in> up f. c \<noteq> b}"
    and n': "nodes f' = (nodes f)(p \<mapsto> pn\<lparr>refctr := refctr pn - 1\<rparr>,
        b \<mapsto> nd\<lparr>nlookup := (if remember f = 0 then nlookup nd else nlookup nd - 1), name := None, parent := None\<rparr>)"
    using unlink_node_ok [OF assms(1) b nd(1) sp assms(2-4)] by blast
  note pl = place_drop [OF nd(1) assms(2) bp n']
  have uniq: "place f d (Some s) b \<Longrightarrow> (d, s) = (newdir, t)" for d s using b by (auto simp: place_def)
  have "\<exists>md. nodes f' a = Some md \<and> nodeid md = nodeid xd \<and> 0 < nlookup md" if "nodes f a = Some xd" "0 < nlookup xd" for a xd
    using that nd(1) assms(2,4) sp bp by (cases "a = b"; cases "a = p") (auto simp: n')
  moreover have "\<forall>c. \<not> place f' newdir (Some t) c" using pl place_unique [OF N b] by blast
  moreover have "place f' d (Some s) a \<longleftrightarrow> place f d (Some s) a" if "(d, s) \<noteq> (newdir, t)" for a d s using pl uniq that by blast
  moreover have "nodes f' a = nodes f a" if "a \<noteq> p" "\<not> place f newdir (Some t) a" for a
    using that b by (auto simp: n')
  moreover have "\<exists>pm. nodes f' p = Some pm \<and> nodeid pm = newdir \<and> refctr pm \<le> refctr pn" using n' bp assms(3) by simp
  ultimately show ?thesis using f' Some by (intro exI [of _ f']) auto
qed

lemma moved_places:
  assumes "\<forall>b. b \<noteq> a \<longrightarrow> map_option (refctr_update (\<lambda>_. 0)) (nodes f' b) = map_option (refctr_update (\<lambda>_. 0)) (nodes f b)"
    and "nodes f a = Some nd" "\<exists>md. nodes f' a = Some md \<and> nodeid md = nodeid nd"
  shows "idof f' = idof f" "b \<noteq> a \<Longrightarrow> place f' d (Some s) b \<longleftrightarrow> place f d (Some s) b"
proof -
  have sh: "shapes f' b = shapes f b" if "b \<noteq> a" for b
  proof -
    have "map_option (refctr_update (\<lambda>_. 0)) (nodes f' b) = map_option (refctr_update (\<lambda>_. 0)) (nodes f b)" using assms(1) that by blast
    then have "map_option (nshape \<circ> refctr_update (\<lambda>_. 0)) (nodes f' b) = map_option (nshape \<circ> refctr_update (\<lambda>_. 0)) (nodes f b)"
      by (metis option.map_comp)
    moreover have "nshape \<circ> refctr_update (\<lambda>_. 0) = nshape" by (simp add: fun_eq_iff nshape_def)
    ultimately show ?thesis by (simp add: shapes_def)
  qed
  show ids: "idof f' = idof f"
  proof
    fix b
    show "idof f' b = idof f b"
    proof (cases "b = a")
      case True
      then show ?thesis using assms(2,3) by (auto simp: idof_def)
    next
      case False
      then show ?thesis using sh by (simp add: idof_shapes)
    qed
  qed
  show "b \<noteq> a \<Longrightarrow> place f' d (Some s) b \<longleftrightarrow> place f d (Some s) b"
    unfolding place_def named_def nameof_shapes ids using sh by simp
qed

definition rename_allowed :: "nat \<Rightarrow> string \<Rightarrow> nat \<Rightarrow> string \<Rightarrow> fuse \<Rightarrow> bool" where
  "rename_allowed olddir s newdir t f \<longleftrightarrow> (olddir, s) \<noteq> (newdir, t) \<and> looked_up f olddir \<and> looked_up f newdir \<and> spare_lookup f newdir t
     \<and> room_below f newdir \<and> (\<forall>a. place f olddir (Some s) a \<longrightarrow> \<not> below f newdir a)"

lemma looked_up_node: "looked_up f n \<Longrightarrow> \<exists>a nd. nodes f a = Some nd \<and> nodeid nd = n \<and> 0 < nlookup nd"
  by (simp add: looked_up_def)

lemma rename_node_ok:
  assumes "tidy f" "rename_allowed olddir s newdir t f"
  shows "\<exists>err f'. rename_node olddir s newdir t hide f = Inr (err, f') \<and> tidy f' \<and> rest f' = rest f \<and> (
      (\<forall>a. \<not> place f olddir (Some s) a) \<and> err = 0 \<and> f' = f
    \<or> hide \<and> (\<exists>b. place f newdir (Some t) b) \<and> err = - EBUSY \<and> f' = f
    \<or> (\<exists>a. place f olddir (Some s) a \<and> (\<forall>b. \<not> place f' olddir (Some s) b)
        \<and> (err = 0 \<and> place f' newdir (Some t) a \<or> err = - ENOMEM \<and> 32 \<le> length t \<and> a \<notin> named f')))"
proof -
  note T = tidyD [OF assms(1)]
  note N = saneD(2) [OF T(1)]
  note A = assms(2) [unfolded rename_allowed_def]
  obtain p pn where p: "nodes f p = Some pn" "nodeid pn = newdir" "0 < nlookup pn" using A looked_up_node by blast
  obtain q qn where q: "nodes f q = Some qn" "nodeid qn = olddir" "0 < nlookup qn" using A looked_up_node by blast
  obtain r2 where r2: "node_by_name f newdir t = Inr r2" "\<forall>b. r2 = Some b \<longleftrightarrow> place f newdir (Some t) b"
    using node_by_name_ok [OF N] by (force simp: place_def)
  consider (none) "\<forall>a. \<not> place f olddir (Some s) a" | (busy) a where "place f olddir (Some s) a" "hide" "r2 \<noteq> None"
    | (go) a where "place f olddir (Some s) a" "\<not> (hide \<and> r2 \<noteq> None)" by blast
  then show ?thesis
  proof cases
    case none
    then have "node_by_name f olddir s = Inr None" using node_by_name_place(2) [OF N] by blast
    then have "rename_node olddir s newdir t hide f = Inr (0, f)" using r2(1) by (simp add: rename_node_def)
    then show ?thesis using none assms(1) by blast
  next
    case busy
    then have "node_by_name f olddir s = Inr (Some a)" using node_by_name_place(1) [OF N] by blast
    then have "rename_node olddir s newdir t hide f = Inr (- EBUSY, f)" using r2(1) busy by (simp add: rename_node_def)
    then show ?thesis using r2(2) busy assms(1) by blast
  next
    case go
    have r1: "node_by_name f olddir s = Inr (Some a)" using node_by_name_place(1) [OF N] go(1) by blast
    obtain nd where nd: "nodes f a = Some nd" "nodeid nd \<noteq> FUSE_ROOT_ID" using place_node [OF N go(1)] by blast
    have sp: "spare_lookup f newdir t" using A by blast
    obtain f1 where f1: "(case r2 of None \<Rightarrow> Inr f | Some b \<Rightarrow> unlink_node b f) = Inr f1" "tidy f1" "rest f1 = rest f" "up f1 \<subseteq> up f"
        "\<forall>b. \<not> place f1 newdir (Some t) b" "\<exists>pm. nodes f1 p = Some pm \<and> nodeid pm = newdir \<and> refctr pm \<le> refctr pn"
        "\<forall>a nd. nodes f a = Some nd \<longrightarrow> 0 < nlookup nd \<longrightarrow> (\<exists>md. nodes f1 a = Some md \<and> nodeid md = nodeid nd \<and> 0 < nlookup md)"
        "\<forall>a d s. (d, s) \<noteq> (newdir, t) \<longrightarrow> place f1 d (Some s) a \<longleftrightarrow> place f d (Some s) a"
        "\<forall>a. a \<noteq> p \<longrightarrow> \<not> place f newdir (Some t) a \<longrightarrow> nodes f1 a = nodes f a"
      using clear_target_ok [OF assms(1) p sp r2(1)] by blast
    obtain pm where pm: "nodes f1 p = Some pm" "nodeid pm = newdir" "refctr pm \<le> refctr pn" using f1(6) by blast
    obtain qm where qm: "nodes f1 q = Some qm" "nodeid qm = olddir" "0 < nlookup qm" using f1(7) q by metis
    have room: "refctr pm < int_max" using A p(1,2) pm(3) unfolding room_below_def by fastforce
    have "p \<in> dom (nodes f) \<and> idof f p = newdir" using p(1,2) by (simp add: idof_def domIff)
    then have nb: "(p, a) \<notin> (up f)\<^sup>*" using A go(1) unfolding below_def by blast
    have nb1: "(p, a) \<notin> (up f1)\<^sup>*" using rtrancl_mono [OF f1(4)] nb by blast
    have a1: "place f1 olddir (Some s) a" using f1(8) A go(1) by blast
    have "\<not> place f newdir (Some t) a" using go(1) A by (auto simp: place_def)
    moreover have "a \<noteq> p" using nb by auto
    ultimately have na: "nodes f1 a = Some nd" using f1(9) nd(1) by simp
    obtain res f2 where f2: "bindc (unhash_name a f1) (hash_name a newdir t) = Inr (res, f2)" "tidy f2" "rest f2 = rest f1"
        "res = 0 \<and> nodes f2 a = Some (nd\<lparr>name := Some t, parent := Some p\<rparr>)
         \<or> res = -1 \<and> 32 \<le> length t \<and> nodes f2 a = Some (nd\<lparr>name := None, parent := None\<rparr>)"
        "\<forall>b. b \<noteq> a \<longrightarrow> map_option (refctr_update (\<lambda>_. 0)) (nodes f2 b) = map_option (refctr_update (\<lambda>_. 0)) (nodes f1 b)"
      using move_node_ok [OF f1(2) a1 na qm pm(1,2) room nb1 f1(5)] by blast
    obtain u where u: "unhash_name a f1 = Inr u" "hash_name a newdir t u = Inr (res, f2)" using f2(1) by (cases "unhash_name a f1") auto
    have run: "rename_node olddir s newdir t hide f =
        (if res = -1 then Inr (- ENOMEM, f2) else bindc (if hide then modn a (\<lambda>nd. nd\<lparr>is_hidden := True\<rparr>) f2 else Inr f2) (\<lambda>f. Inr (0, f)))"
      using r1 r2(1) go(2) f1(1) u by (auto simp: rename_node_def)
    have id2: "\<exists>md. nodes f2 a = Some md \<and> nodeid md = nodeid nd" using f2(4) by auto
    note ids = moved_places(1) [OF f2(5) na id2]
    have gone: "\<not> place f2 olddir (Some s) b" if "b \<noteq> a" for b
      using moved_places(2) [OF f2(5) na id2 that] place_unique [OF saneD(2) [OF tidyD(1) [OF f1(2)]] a1] that by blast
    show ?thesis
    proof (cases "res = -1")
      case True
      then have "nodes f2 a = Some (nd\<lparr>name := None, parent := None\<rparr>)" "32 \<le> length t" using f2(4) by auto
      moreover from this have "a \<notin> named f2" using named_node by fastforce
      moreover have "\<not> place f2 olddir (Some s) a" using \<open>a \<notin> named f2\<close> by (simp add: place_def)
      moreover have "\<forall>b. \<not> place f2 olddir (Some s) b" using gone \<open>\<not> place f2 olddir (Some s) a\<close> by metis
      moreover have "rename_node olddir s newdir t hide f = Inr (- ENOMEM, f2)" using run True by simp
      moreover have "rest f2 = rest f" using f2(3) f1(3) by simp
      ultimately show ?thesis using f2(2) go(1) by blast
    next
      case False
      then have na2: "nodes f2 a = Some (nd\<lparr>name := Some t, parent := Some p\<rparr>)" using f2(4) by auto
      obtain f' where f': "(if hide then modn a (\<lambda>nd. nd\<lparr>is_hidden := True\<rparr>) f2 else Inr f2) = Inr f'" "tidy f'" "rest f' = rest f2"
          "nodes f' a = Some (nd\<lparr>name := Some t, parent := Some p, is_hidden := is_hidden nd \<or> hide\<rparr>)" "\<forall>b. b \<noteq> a \<longrightarrow> nodes f' b = nodes f2 b"
        using hide_ok [OF f2(2) na2, of hide] by auto
      have "shapes f' b = shapes f2 b" for b using f'(4,5) na2 by (cases "b = a") (auto simp: shapes_def nshape_def)
      then have same: "shapes f' = shapes f2" by (rule ext)
      have pl: "place f' d (Some x) b \<longleftrightarrow> place f2 d (Some x) b" for d x b
        unfolding place_def same_shapes [OF same] by simp
      have "idof f2 p = newdir" using ids pm(1,2) by (simp add: idof_def)
      then have "place f2 newdir (Some t) a" using place_iff [OF na2] nd(2) by simp
      moreover have "\<not> place f2 olddir (Some s) a" using place_iff [OF na2] \<open>idof f2 p = newdir\<close> A by auto
      ultimately have "place f' newdir (Some t) a" "\<forall>b. \<not> place f' olddir (Some s) b" using pl gone by metis+
      moreover have "rename_node olddir s newdir t hide f = Inr (0, f')" using run False f'(1) by simp
      moreover have "rest f' = rest f" using f'(3) f2(3) f1(3) by simp
      ultimately show ?thesis using f'(2) go(1) by blast
    qed
  qed
qed

section \<open>The first nodes\<close>

lemma init_lists_eq: "\<exists>st. init_lists = Inr st \<and> used st = Map.empty"
  by (auto simp: init_lists_def init_list_head_def set_next_def set_prev_def load_head_def Let_def)

text \<open>A state with the root alone.\<close>

lemma only_root_ok:
  assumes "nodes f = [a \<mapsto> rn]" "nodeid rn = FUSE_ROOT_ID" "refctr rn = 1" "nlookup rn = 1" "treelock rn = 0" "parent rn = None"
    and "wf_table (\<lambda>b. id_key (idof f b)) (id_table f)" "elems (id_table f) = {a}" "\<And>h. wf_table h (name_table f)" "elems (name_table f) = {}"
    and "mem_ok (pagesize f) (remember f) (slabs f) {a} {a} xs" "\<forall>b. b \<noteq> a \<longrightarrow> stale f b = node0"
  shows "tidy f"
proof -
  have sh: "shapes f b = (if b = a then Some (FUSE_ROOT_ID, name rn, None) else None)" for b
    using assms(1,2,6) by (simp add: shapes_def nshape_def)
  have nm: "named f = {}" by (auto simp: named_def sh split: if_splits)
  have rt: "roots f = {a}" by (auto simp: roots_def sh)
  have k: "kids f {} b = {}" for b by (simp add: kids_def nm)
  have "use (name_table f) = length (concat (array (name_table f)))" using assms(9) [of "\<lambda>_. 0"] unfolding wf_table_iff by simp
  moreover from this have "settle (name_table f) = name_table f" by (simp add: settle_def)
  ultimately have "names_ok f {}" using assms(9,10) by (simp add: names_ok_def nm)
  moreover have "ids_ok f" using assms(1,7,8) by (simp add: ids_ok_def)
  moreover have "refs_ok f {} {} (\<lambda>_. 0)" using assms(1,3-5) k by (auto simp: refs_ok_def node_refs_def lookup_ref_def)
  moreover have "root_ok f" using assms(1,2,4,6) by (auto simp: root_ok_def)
  moreover have "memory_ok f" using assms(1,11,12) rt by (auto simp: memory_ok_def node0_def)
  ultimately have "sane0 f" by (simp add: sane_def)
  moreover have "up f = {}" by (simp add: up_def nm)
  ultimately show ?thesis by (simp add: tidy_def acyclic_def)
qed

lemma new_nodes_ok:
  assumes "page_ok pg" "slab_at pg m"
  shows "\<exists>f a rn. new_nodes pg rem cs (Some m) = Inr (Some f) \<and> tidy f \<and> nodes f = [a \<mapsto> rn] \<and> nodeid rn = FUSE_ROOT_ID
    \<and> nlookup rn = 1 \<and> refctr rn = 1 \<and> treelock rn = 0 \<and> remember f = rem \<and> pagesize f = pg"
proof -
  obtain st where st: "init_lists = Inr st" "used st = Map.empty" using init_lists_eq by blast
  have inv: "slab_inv pg rem st {}" "dll (heads st) LruTable []" using init_lists_ok [of pg rem] assms(1) st(1) by (metis sum.inject(2))+
  then have m0: "mem_ok pg rem st {} {} []" by (simp add: mem_ok_def lru_ok_def)
  obtain e where e: "list_empty PartialSlabs (heads st) = Inr e"
  proof -
    obtain partial full fr where "slabs_ok pg rem st {} partial full fr" using inv(1) by (auto simp: slab_inv_def)
    then show thesis using list_empty_spec [OF slabs_okD(1)] that by blast
  qed
  have mm: "mmap_ok pg st (Some m)" using st(2) assms(2) by (simp add: mmap_ok_def)
  obtain a s where al: "alloc_node pg rem (Some m) st = Inr (Some a, s)" "mem_ok pg rem s {a} {a} []"
    using mem_alloc [OF m0 mm] by (auto split: option.splits)
  obtain t where t: "node_table_init True = Some t" by (simp add: node_table_init_def)
  define f0 where "f0 = \<lparr>slabs = st, nodes = Map.empty, stale = (\<lambda>_. node0), name_table = t, id_table = t, ctr = 0,
         generation = 0, hidectr = 0, remember = rem, curr_ticket = 0, lockq = [], pagesize = pg, coins = cs\<rparr>"
  define rn where "rn = node0\<lparr>name := Some ''/'', parent := None, nodeid := FUSE_ROOT_ID, ngeneration := 0, refctr := 1, nlookup := 1\<rparr>"
  define f1 where "f1 = f0\<lparr>slabs := s, stale := (\<lambda>_. node0), nodes := [a \<mapsto> rn]\<rparr>"
  have st0: "(case Some m of Some pgm \<Rightarrow> if e then \<lambda>a. if pgm \<le> a \<and> a < pgm + pg then node0 else node0 else (\<lambda>_. node0) | None \<Rightarrow> (\<lambda>_. node0)) = (\<lambda>_. node0)"
    by (auto simp: fun_eq_iff)
  have "new_node (Some m) f0 = Inr (Some a, f0\<lparr>slabs := s, stale := (\<lambda>_. node0), nodes := [a \<mapsto> node0]\<rparr>)"
  proof -
    have f0: "slabs f0 = st" "pagesize f0 = pg" "remember f0 = rem" "stale f0 = (\<lambda>_. node0)" "nodes f0 = Map.empty" by (simp_all add: f0_def)
    show ?thesis unfolding new_node_def f0 using e al(1) st0 by (simp add: Let_def)
  qed
  moreover obtain re cs' where c: "coin f1 = (re, f1\<lparr>coins := cs'\<rparr>)" using coin_eq by blast
  have w: "wf_table h t" "elems t = {}" for h using init_ok [OF t] by auto
  obtain t' where t': "table_insert (\<lambda>b. id_key (idof f1 b)) re a t = Inr t'" "wf_table (\<lambda>b. id_key (idof f1 b)) t'" "elems t' = {a}"
    using insert_ok [OF w(1), of a "\<lambda>b. id_key (idof f1 b)" re] w(2) by auto
  define f2 where "f2 = f1\<lparr>coins := cs', id_table := t'\<rparr>"
  have id: "idof (f1\<lparr>coins := cs'\<rparr>) = idof f1" "idof f2 = idof f1" by (simp_all add: idof_def fun_eq_iff f2_def)
  have "id_table f1 = t" by (simp add: f1_def f0_def)
  then have "node_hash_id a f1 = Inr f2" using c t'(1) id by (simp add: node_hash_id_def hash_id_def f2_def)
  ultimately have "new_root (Some m) f0 = Inr (Some f2)"
    by (simp add: new_root_def modn_def getn_def) (simp add: f1_def rn_def)
  then have "new_nodes pg rem cs (Some m) = Inr (Some f2)" unfolding new_nodes_def st(1) t by (simp add: f0_def)
  moreover have n2: "nodes f2 = [a \<mapsto> rn]" by (simp add: f2_def f1_def)
  have "tidy f2"
    by (rule only_root_ok [OF n2, where xs = "[]"]) (use t'(2,3) w al(2) id in \<open>simp_all add: rn_def node0_def f2_def f1_def f0_def\<close>)
  moreover have "nodeid rn = FUSE_ROOT_ID" "nlookup rn = 1" "refctr rn = 1" "treelock rn = 0" "remember f2 = rem" "pagesize f2 = pg"
    by (simp_all add: rn_def node0_def f2_def f1_def f0_def)
  ultimately show ?thesis using n2 by blast
qed

section \<open>Requests\<close>

datatype node_request =
    Lookup "nat option" nat "string option"
  | Forget timespec nat nat
  | Remove nat string
  | Rename nat string nat string bool

text \<open>A forget of a locked node waits, so far without effect.\<close>

fun serve :: "node_request \<Rightarrow> fuse \<Rightarrow> fuse c" where
  "serve (Lookup mem pid s) f = bindc (find_node mem pid s f) (\<lambda>(_, f). Inr f)"
| "serve (Forget now n k) f = bindc (forget_node now n k f) (\<lambda>r. case r of None \<Rightarrow> Inr f | Some f \<Rightarrow> Inr f)"
| "serve (Remove dir s) f = remove_node dir s f"
| "serve (Rename olddir s newdir t hide) f = bindc (rename_node olddir s newdir t hide f) (\<lambda>(_, f). Inr f)"

text \<open>
  The kernel names directories and removes objects that it has looked up, forgets what it has looked up, and
  does not move a directory below itself. Counters stay within their range. Two restrictions are the library's: a
  lookup must not meet a node that only its children keep, nor be the second lookup of the root if forgotten
  nodes are remembered for a time.
\<close>

definition lookup_ok :: "fuse \<Rightarrow> node \<Rightarrow> bool" where
  "lookup_ok f nd \<longleftrightarrow> 0 < nlookup nd \<and> nlookup nd + 1 < 2 ^ 64 \<and> (nodeid nd = FUSE_ROOT_ID \<longrightarrow> lru_enabled (remember f) \<longrightarrow> nlookup nd \<noteq> 1)"

fun allowed :: "node_request \<Rightarrow> fuse \<Rightarrow> bool" where
  "allowed (Lookup mem pid s) f \<longleftrightarrow> mmap_ok (pagesize f) (slabs f) mem \<and> looked_up f pid \<and> room_below f pid
     \<and> card (dom (nodes f)) + 3 \<le> 2 ^ 32 \<and> (\<forall>a nd. place f pid s a \<longrightarrow> nodes f a = Some nd \<longrightarrow> lookup_ok f nd)"
| "allowed (Forget now n k) f \<longleftrightarrow> n = FUSE_ROOT_ID \<or> (\<exists>a nd. nodes f a = Some nd \<and> nodeid nd = n \<and> 0 < k \<and> k \<le> nlookup nd)"
| "allowed (Remove dir s) f \<longleftrightarrow> looked_up f dir \<and> spare_lookup f dir s"
| "allowed (Rename olddir s newdir t hide) f \<longleftrightarrow> rename_allowed olddir s newdir t f"

lemma find_tidy:
  assumes "tidy f" "allowed (Lookup mem pid s) f"
  shows "\<exists>r f'. find_node mem pid s f = Inr (r, f') \<and> tidy f'"
proof -
  note T = tidyD [OF assms(1)]
  obtain p pn where p: "nodes f p = Some pn" "nodeid pn = pid" "0 < nlookup pn" "refctr pn < int_max"
    using assms(2) by (auto simp: looked_up_def room_below_def)
  show ?thesis
  proof (cases "\<exists>a. place f pid s a")
    case True
    then obtain a where a: "place f pid s a" by blast
    then obtain nd where nd: "nodes f a = Some nd" by (cases s) (auto simp: place_def named_def shapes_def)
    then have l: "lookup_ok f nd" using a assms(2) by auto
    note l = l [unfolded lookup_ok_def, THEN conjunct1] l [unfolded lookup_ok_def, THEN conjunct2, THEN conjunct1] l [unfolded lookup_ok_def, THEN conjunct2, THEN conjunct2]
    obtain f' where f': "find_node mem pid s f = Inr (Some a, f')" "sane0 f'" "nodes f' = (nodes f)(a \<mapsto> nd\<lparr>nlookup := nlookup nd + 1\<rparr>)"
      using find_known_ok [OF T(1) a nd l, of mem] by blast
    have sh: "shapes f' = shapes f" using nd by (auto simp: f'(3) shapes_def nshape_def fun_eq_iff)
    have "tidy f'" using f'(2) T(2) up_same [OF sh] by (simp add: tidy_def)
    then show ?thesis using f'(1) by blast
  next
    case False
    have "place f pid None p" using p by (auto simp: place_def idof_def)
    then obtain t where t: "s = Some t" using False by (cases s) auto
    then have free: "\<forall>a. \<not> place f pid (Some t) a" using False by blast
    have m: "mmap_ok (pagesize f) (slabs f) mem" "card (dom (nodes f)) + 3 \<le> 2 ^ 32" using assms(2) by auto
    obtain r f' where f': "find_node mem pid (Some t) f = Inr (r, f')" "sane0 f'" "case r of
        None \<Rightarrow> nodes f' = nodes f \<and> (mem = None \<or> 32 \<le> length t)
      | Some a \<Rightarrow> \<exists>nd. a \<notin> dom (nodes f) \<and> nodes f' = (nodes f)(p \<mapsto> pn\<lparr>refctr := refctr pn + 1\<rparr>, a \<mapsto> nd)
          \<and> nodeid nd \<notin> {0, FUSE_UNKNOWN_INO} \<union> idof f ` dom (nodes f) \<and> name nd = Some t \<and> parent nd = Some p
          \<and> nlookup nd = (if remember f = 0 then 1 else 2) \<and> treelock nd = 0"
      using find_new_ok [OF T(1) m(1) p(1,2) free m(2) p(4)] by (elim exE conjE) (rule that)
    have "acyclic (up f')"
    proof (cases r)
      case None
      then show ?thesis using f'(3) T(2) up_same [OF same_nodes, of f' f] by simp
    next
      case (Some a)
      then show ?thesis using f'(3) up_leaf [OF saneD(2) [OF T(1)] T(2) _ p(1), of a f' "refctr pn + 1"] by auto
    qed
    then show ?thesis using f'(1,2) t by (auto simp: tidy_def)
  qed
qed

lemma forget_tidy:
  assumes "tidy f" "allowed (Forget now n k) f"
  shows "\<exists>f'. serve (Forget now n k) f = Inr f' \<and> tidy f'"
proof (cases "n = FUSE_ROOT_ID")
  case True
  then show ?thesis using assms(1) by (simp add: forget_node_def)
next
  case False
  note T = tidyD [OF assms(1)]
  obtain a nd where nd: "nodes f a = Some nd" "nodeid nd = n" "0 < k" "k \<le> nlookup nd" using False assms(2) by auto
  show ?thesis
  proof (cases "nlookup nd = k \<and> treelock nd \<noteq> 0")
    case True
    then have "forget_node now n k f = Inr None"
      using False ids_the_node [OF saneD(1) [OF T(1)] nd(1)] nd by (simp add: forget_node_def getn_def)
    then show ?thesis using assms(1) by simp
  next
    case F: False
    have wait: "nlookup nd = k \<longrightarrow> treelock nd = 0" and nr: "nodeid nd \<noteq> FUSE_ROOT_ID" using F False nd(2) by auto
    obtain f' where f': "forget_node now n k f = Inr (Some f')" "sane0 f'"
        "if nlookup nd = k then survives {} (f\<lparr>nodes := (nodes f)(a \<mapsto> nd\<lparr>nlookup := 0\<rparr>)\<rparr>) f'
         else \<exists>t. nodes f' = (nodes f)(a \<mapsto> nd\<lparr>nlookup := nlookup nd - k, forget_time := t\<rparr>)"
      using forget_node_ok [OF T(1) nd(1) nr nd(3,4) wait] nd(2) by blast
    have same: "up g = up f" if "nodes g = (nodes f)(a \<mapsto> md)" "nshape md = nshape nd" for g md
      using that nd(1) by (intro up_same) (auto simp: shapes_def fun_eq_iff)
    have "up f' \<subseteq> up f"
    proof (cases "nlookup nd = k")
      case True
      have "up (f\<lparr>nodes := (nodes f)(a \<mapsto> nd\<lparr>nlookup := 0\<rparr>)\<rparr>) = up f" by (rule same [of _ "nd\<lparr>nlookup := 0\<rparr>"]) (simp_all add: nshape_def)
      then show ?thesis using True f'(3) survives_up by (metis (mono_tags, lifting))
    next
      case False
      then obtain t where "nodes f' = (nodes f)(a \<mapsto> nd\<lparr>nlookup := nlookup nd - k, forget_time := t\<rparr>)" using f'(3) by auto
      then have "up f' = up f" by (rule same) (simp add: nshape_def)
      then show ?thesis by simp
    qed
    then have "acyclic (up f')" by (rule acyclic_subset [OF T(2)])
    then show ?thesis using f'(1,2) by (simp add: tidy_def)
  qed
qed

lemma remove_tidy:
  assumes "tidy f" "looked_up f dir" "spare_lookup f dir s"
  shows "\<exists>f'. remove_node dir s f = Inr f' \<and> tidy f' \<and> (\<forall>a. \<not> place f' dir (Some s) a)"
proof -
  obtain p pn where p: "nodes f p = Some pn" "nodeid pn = dir" "0 < nlookup pn" using assms(2) looked_up_node by blast
  obtain r where r: "node_by_name f dir s = Inr r" using node_by_name_ok [OF saneD(2) [OF tidyD(1) [OF assms(1)]]] by blast
  have "remove_node dir s f = (case r of None \<Rightarrow> Inr f | Some a \<Rightarrow> unlink_node a f)" using r by (simp add: remove_node_def)
  then show ?thesis using clear_target_ok [OF assms(1) p assms(3) r] by metis
qed

lemma serve_tidy: "tidy f \<Longrightarrow> allowed r f \<Longrightarrow> \<exists>f'. serve r f = Inr f' \<and> tidy f'"
proof (induction r f rule: serve.induct)
  case (1 mem pid s f)
  then show ?case using find_tidy [OF 1] by auto
next
  case (2 now n k f)
  then show ?case by (rule forget_tidy)
next
  case (3 dir s f)
  then show ?case using remove_tidy [OF 3(1), of dir s] by auto
next
  case (4 olddir s newdir t hide f)
  then show ?case using rename_node_ok [OF 4(1), of olddir s newdir t hide] by auto
qed

end
