(* ===== verification/Fuse_Lifetime.thy ===== *)
theory Fuse_Lifetime
  imports Fuse_Requests
begin

text \<open>
  The lifetime of nodes, over every sequence of requests: what the reference counters guarantee, and the two
  lookups that break them.
\<close>

inductive node_reach :: "nat \<Rightarrow> int \<Rightarrow> fuse \<Rightarrow> bool" for pg :: nat and rem :: int where
  start: "slab_at pg m \<Longrightarrow> new_nodes pg rem cs (Some m) = Inr (Some f) \<Longrightarrow> node_reach pg rem f"
| step: "node_reach pg rem f \<Longrightarrow> allowed r f \<Longrightarrow> serve r f = Inr f' \<Longrightarrow> node_reach pg rem f'"

lemma node_reach_tidy: "node_reach pg rem f \<Longrightarrow> page_ok pg \<Longrightarrow> tidy f"
proof (induction rule: node_reach.induct)
  case (start m cs f)
  then show ?case using new_nodes_ok [OF start(3,1), of rem cs] by auto
next
  case (step f r f')
  then show ?case using serve_tidy [of f r] by auto
qed

definition children :: "fuse \<Rightarrow> nat \<Rightarrow> nat set" where
  "children f a = {b. \<exists>nd. nodes f b = Some nd \<and> name nd \<noteq> None \<and> parent nd = Some a \<and> nodeid nd \<noteq> FUSE_ROOT_ID}"

lemma children_kids: "children f a = kids f {} a"
  by (auto simp: children_def kids_def named_def shapes_def nshape_def)

lemma tidy_refs:
  assumes "tidy f" "nodes f a = Some nd"
  shows "refctr nd = (if 0 < nlookup nd then 1 else 0) + int (card (children f a))" "0 < nlookup nd \<or> children f a \<noteq> {}"
    "name nd \<noteq> None \<Longrightarrow> nodeid nd \<noteq> FUSE_ROOT_ID \<Longrightarrow> \<exists>p pn. parent nd = Some p \<and> nodes f p = Some pn"
proof -
  note S = saneD [OF tidyD(1) [OF assms(1)]]
  note R = refs_okD [OF S(3) assms(2)]
  show r: "refctr nd = (if 0 < nlookup nd then 1 else 0) + int (card (children f a))" using R(1) by (simp add: children_kids lookup_ref_def)
  show "0 < nlookup nd \<or> children f a \<noteq> {}" using R(2) r by (auto split: if_splits)
  show "\<exists>p pn. parent nd = Some p \<and> nodes f p = Some pn" if "name nd \<noteq> None" "nodeid nd \<noteq> FUSE_ROOT_ID"
    using named_parent [OF S(2), of a] named_node [OF assms(2)] that assms(2) by (auto simp: shapes_def nshape_def)
qed

lemma tidy_searches:
  assumes "tidy f"
  shows "\<exists>r. node_by_id f n = Inr r \<and> (\<forall>a. r = Some a \<longleftrightarrow> (\<exists>nd. nodes f a = Some nd \<and> nodeid nd = n))"
proof -
  have I: "ids_ok f" using saneD(1) [OF tidyD(1) [OF assms]] .
  then obtain r where r: "node_by_id f n = Inr r" "\<forall>a. r = Some a \<longleftrightarrow> a \<in> dom (nodes f) \<and> idof f a = n"
    using node_by_id_ok [of f n] by (auto simp: ids_ok_def)
  have "a \<in> dom (nodes f) \<and> idof f a = n \<longleftrightarrow> (\<exists>nd. nodes f a = Some nd \<and> nodeid nd = n)" for a by (auto simp: idof_def)
  then show ?thesis using r by auto
qed

text \<open>
  (C25) Nodes live as long as they are referred to, as long as two kinds of lookup do not occur that the code accepts and
  mishandles: that of a node which only its children keep (see the next claim), and, when forgotten nodes are remembered for a time, the second
  lookup of the root. The other conditions of \<open>allowed\<close> are the kernel's: it names what it has looked up, forgets no
  more than that, does not move a directory below itself, and counters stay within their range. From the state that \<open>fuse_new_common\<close>
  sets up, through any sequence of such requests: every further one is defined, so no failed assertion, no access to a freed node
  and no recursion without end; the number of a node identifies it; a node is there exactly as long as the kernel has
  looked it up or it has children, which its reference counter counts; and the parent of a named node is there.
\<close>

theorem nodes_lifetime:
  assumes "node_reach pg rem f" "page_ok pg"
  shows "(\<forall>r. allowed r f \<longrightarrow> (\<exists>f'. serve r f = Inr f' \<and> node_reach pg rem f'))
    \<and> (\<forall>n. \<exists>r. node_by_id f n = Inr r \<and> (\<forall>a. r = Some a \<longleftrightarrow> (\<exists>nd. nodes f a = Some nd \<and> nodeid nd = n)))
    \<and> (\<forall>a nd. nodes f a = Some nd \<longrightarrow>
        refctr nd = (if 0 < nlookup nd then 1 else 0) + int (card (children f a))
        \<and> (0 < nlookup nd \<or> children f a \<noteq> {})
        \<and> (name nd \<noteq> None \<longrightarrow> nodeid nd \<noteq> FUSE_ROOT_ID \<longrightarrow> (\<exists>p pn. parent nd = Some p \<and> nodes f p = Some pn)))"
proof -
  have T: "tidy f" using node_reach_tidy [OF assms] .
  have "\<exists>f'. serve r f = Inr f' \<and> node_reach pg rem f'" if "allowed r f" for r
    using serve_tidy [OF T that] node_reach.step [OF assms(1) that] by blast
  then show ?thesis using tidy_searches [OF T] tidy_refs [OF T] by blast
qed

section \<open>Pages\<close>

text \<open>A page that nobody uses stays free unless \<open>mmap\<close> finds it.\<close>

lemma bindcE: "bindc m g = Inr y \<Longrightarrow> (\<And>x. m = Inr x \<Longrightarrow> g x = Inr y \<Longrightarrow> P) \<Longrightarrow> P"
  by (auto simp: bindc_eq_Inr)

lemma on_heads_used: "on_heads g st = Inr st' \<Longrightarrow> used st' = used st"
  by (auto simp: on_heads_def elim: bindcE)

definition pages :: "slab_state \<Rightarrow> nat set" where
  "pages st = dom (used st)"

lemma take_node_used: "take_node st = Inr (res, st') \<Longrightarrow> pages st' \<subseteq> pages st"
  by (auto simp: pages_def take_node_def Let_def elim!: bindcE dest!: on_heads_used split: option.split_asm loc.split_asm if_split_asm)

lemma alloc_slab_used: "alloc_slab pg r mem st = Inr (res, st') \<Longrightarrow> pages st' \<subseteq> pages st \<union> set_option mem"
  by (auto simp: pages_def alloc_slab_def map_page_def Let_def elim!: bindcE dest!: on_heads_used split: option.split_asm if_split_asm)

lemma alloc_node_used: "alloc_node pg r mem st = Inr (res, st') \<Longrightarrow> pages st' \<subseteq> pages st \<union> set_option mem"
  unfolding alloc_node_def by (fastforce elim!: bindcE dest: alloc_slab_used take_node_used split: if_split_asm prod.split_asm)

lemma free_node_mem_used: "free_node_mem pg u a st = Inr st' \<Longrightarrow> pages st' \<subseteq> pages st"
  by (auto simp: pages_def free_node_mem_def free_slab_def unmap_page_def Let_def elim!: bindcE dest!: on_heads_used split: option.split_asm if_split_asm)

lemma coin_slabs: "coin f = (b, f') \<Longrightarrow> slabs f' = slabs f"
  by (auto simp: coin_def split: list.splits)

lemma modn_slabs: "modn a g f = Inr f' \<Longrightarrow> slabs f' = slabs f"
  by (auto simp: modn_def elim: bindcE)

lemma hash_name_slabs: "hash_name a pid s f = Inr (res, f') \<Longrightarrow> slabs f' = slabs f"
  by (auto simp: hash_name_def Let_def elim!: bindcE dest!: modn_slabs coin_slabs split: prod.split_asm if_split_asm)

lemma node_hash_id_slabs: "node_hash_id a f = Inr f' \<Longrightarrow> slabs f' = slabs f"
  by (auto simp: node_hash_id_def Let_def elim!: bindcE dest!: coin_slabs split: prod.split_asm)

lemma new_node_used: "new_node mem f = Inr (r, f') \<Longrightarrow> pages (slabs f') \<subseteq> pages (slabs f) \<union> set_option mem"
  unfolding new_node_def Let_def by (elim bindcE, auto split: prod.split_asm option.split_asm dest!: alloc_node_used)

lemma free_node_used: "free_node a f = Inr f' \<Longrightarrow> pages (slabs f') \<subseteq> pages (slabs f)"
  by (auto simp: free_node_def Let_def elim!: bindcE dest!: coin_slabs free_node_mem_used split: prod.split_asm) blast

lemma create_node_used:
  assumes "create_node mem pid s f = Inr (r, f')"
  shows "pages (slabs f') \<subseteq> pages (slabs f) \<union> set_option mem"
proof -
  obtain r1 f1 where f1: "new_node mem f = Inr (r1, f1)" using assms by (auto simp: create_node_def elim!: bindcE)
  have same: "on_slabs (lru_init a) g = Inr h \<Longrightarrow> pages (slabs h) = pages (slabs g)" for a g h
    by (auto simp: pages_def on_slabs_def lru_init_def elim!: bindcE dest!: on_heads_used)
  have "pages (slabs f') \<subseteq> pages (slabs f1)"
    using assms f1 by (auto simp: create_node_def next_id_def elim!: bindcE
        dest!: modn_slabs hash_name_slabs node_hash_id_slabs same free_node_used split: option.split_asm prod.split_asm if_split_asm) blast
  then show ?thesis using new_node_used [OF f1] by blast
qed

lemma find_node_used:
  assumes "find_node mem pid s f = Inr (r, f')"
  shows "pages (slabs f') \<subseteq> pages (slabs f) \<union> set_option mem"
proof -
  have same: "on_slabs (lru_unlink a) f = Inr f1 \<Longrightarrow> pages (slabs f1) = pages (slabs f)" for a f1
    by (auto simp: pages_def on_slabs_def lru_unlink_def elim!: bindcE dest!: on_heads_used)
  show ?thesis
    using assms by (auto simp: find_node_def remove_node_lru_def elim!: bindcE
      dest!: modn_slabs create_node_used same split: option.split_asm prod.split_asm if_split_asm) (auto dest: subsetD)
qed

text \<open>The configuration does not change.\<close>

definition conf :: "fuse \<Rightarrow> int \<times> nat" where
  "conf f = (remember f, pagesize f)"

lemma coin_conf: "coin f = (b, f') \<Longrightarrow> conf f' = conf f"
  by (auto simp: conf_def coin_def split: list.splits)

lemma modn_conf: "modn a g f = Inr f' \<Longrightarrow> conf f' = conf f"
  by (auto simp: conf_def modn_def elim: bindcE)

lemma conf_upd: "conf (f\<lparr>id_table := t\<rparr>) = conf f" "conf (f\<lparr>name_table := t\<rparr>) = conf f" "conf (f\<lparr>slabs := s\<rparr>) = conf f"
    "conf (f\<lparr>slabs := s, stale := x, nodes := ns\<rparr>) = conf f" "conf (f\<lparr>slabs := s, nodes := ns, stale := x\<rparr>) = conf f"
    "conf (f\<lparr>ctr := n, generation := g\<rparr>) = conf f" "conf (f\<lparr>slabs := s, nodes := ns\<rparr>) = conf f"
  by (simp_all add: conf_def)

lemma hash_name_conf: "hash_name a pid s f = Inr (res, f') \<Longrightarrow> conf f' = conf f"
  by (auto simp: hash_name_def Let_def conf_upd elim!: bindcE dest!: modn_conf coin_conf split: prod.split_asm if_split_asm)

lemma node_hash_id_conf: "node_hash_id a f = Inr f' \<Longrightarrow> conf f' = conf f"
  by (auto simp: node_hash_id_def Let_def conf_upd elim!: bindcE dest!: coin_conf split: prod.split_asm)

lemma on_slabs_conf: "on_slabs g f = Inr f' \<Longrightarrow> conf f' = conf f"
  by (auto simp: on_slabs_def conf_upd elim: bindcE)

lemma new_node_conf: "new_node mem f = Inr (r, f') \<Longrightarrow> conf f' = conf f"
  unfolding new_node_def Let_def by (elim bindcE, auto simp: conf_upd split: prod.split_asm option.split_asm)

lemma free_node_conf: "free_node a f = Inr f' \<Longrightarrow> conf f' = conf f"
  by (auto simp: free_node_def Let_def conf_upd elim!: bindcE dest!: coin_conf split: prod.split_asm)

lemma next_id_conf: "next_id f = Inr (n, f') \<Longrightarrow> conf f' = conf f"
  by (auto simp: next_id_def conf_upd elim!: bindcE split: option.split_asm)

lemma create_node_conf: "create_node mem pid s f = Inr (r, f') \<Longrightarrow> conf f' = conf f"
  by (auto simp: create_node_def elim!: bindcE dest!: new_node_conf next_id_conf modn_conf hash_name_conf node_hash_id_conf
      on_slabs_conf free_node_conf split: option.split_asm prod.split_asm if_split_asm)

lemma find_node_conf: "find_node mem pid s f = Inr (r, f') \<Longrightarrow> conf f' = conf f"
  by (auto simp: find_node_def remove_node_lru_def elim!: bindcE dest!: modn_conf create_node_conf on_slabs_conf
      split: option.split_asm prod.split_asm if_split_asm)

lemma new_nodes_used:
  assumes "new_nodes pg rem cs (Some m) = Inr (Some f)"
  shows "pages (slabs f) \<subseteq> {m}" "conf f = (rem, pg)"
proof -
  obtain st where st: "init_lists = Inr st" "used st = Map.empty" using init_lists_eq by blast
  have "pages st = {}" using st(2) by (simp add: pages_def)
  then show "pages (slabs f) \<subseteq> {m}"
    using assms unfolding new_nodes_def st(1) by (auto simp: new_root_def elim!: bindcE
        dest!: modn_slabs node_hash_id_slabs new_node_used split: option.split_asm prod.split_asm) blast
  show "conf f = (rem, pg)"
    using assms by (auto simp: new_nodes_def new_root_def elim!: bindcE dest!: modn_conf node_hash_id_conf new_node_conf
        split: option.split_asm prod.split_asm) (simp_all add: conf_def)
qed

lemma enter:
  assumes "tidy f" "conf f = (0, 4096)" "nodes f p = Some pn" "0 < nlookup pn" "refctr pn < int_max" "length t < 32"
    and "\<forall>a. \<not> place f (nodeid pn) (Some t) a" "card (dom (nodes f)) + 3 \<le> 2 ^ 32" "m \<notin> pages (slabs f)" "m mod 4096 = 0" "m + 4096 \<le> 2 ^ 64"
  shows "\<exists>a nd f'. allowed (Lookup (Some m) (nodeid pn) (Some t)) f \<and> find_node (Some m) (nodeid pn) (Some t) f = Inr (Some a, f')
    \<and> a \<notin> dom (nodes f) \<and> nodes f' = (nodes f)(p \<mapsto> pn\<lparr>refctr := refctr pn + 1\<rparr>, a \<mapsto> nd) \<and> nodeid nd \<notin> idof f ` dom (nodes f)
    \<and> name nd = Some t \<and> parent nd = Some p \<and> nlookup nd = 1 \<and> treelock nd = 0 \<and> tidy f' \<and> conf f' = (0, 4096) \<and> pages (slabs f') \<subseteq> insert m (pages (slabs f))"
proof -
  note T = tidyD [OF assms(1)]
  have cf: "remember f = 0" "pagesize f = 4096" using assms(2) by (simp_all add: conf_def)
  have mm: "mmap_ok (pagesize f) (slabs f) (Some m)" using assms(9-11) cf(2) by (auto simp: mmap_ok_def slab_at_def pages_def domIff)
  obtain r f' where f': "find_node (Some m) (nodeid pn) (Some t) f = Inr (r, f')" "sane0 f'" "case r of
      None \<Rightarrow> nodes f' = nodes f \<and> (Some m = None \<or> 32 \<le> length t)
    | Some a \<Rightarrow> \<exists>nd. a \<notin> dom (nodes f) \<and> nodes f' = (nodes f)(p \<mapsto> pn\<lparr>refctr := refctr pn + 1\<rparr>, a \<mapsto> nd)
        \<and> nodeid nd \<notin> {0, FUSE_UNKNOWN_INO} \<union> idof f ` dom (nodes f) \<and> name nd = Some t \<and> parent nd = Some p
        \<and> nlookup nd = (if remember f = 0 then 1 else 2) \<and> treelock nd = 0"
    using find_new_ok [OF T(1) mm assms(3) refl assms(7,8,5)] by (elim exE conjE) (rule that)
  obtain a where a: "r = Some a" using f'(3) assms(6) by (cases r) auto
  then obtain nd where nd: "a \<notin> dom (nodes f)" "nodes f' = (nodes f)(p \<mapsto> pn\<lparr>refctr := refctr pn + 1\<rparr>, a \<mapsto> nd)"
      "nodeid nd \<notin> idof f ` dom (nodes f)" "name nd = Some t" "parent nd = Some p" "nlookup nd = 1" "treelock nd = 0"
    using f'(3) cf(1) by auto
  have "tidy f'" using f'(2) up_leaf [OF saneD(2) [OF T(1)] T(2) nd(1) assms(3) nd(2,5)] by (simp add: tidy_def)
  moreover have "looked_up f (nodeid pn)" using assms(3,4) by (auto simp: looked_up_def)
  moreover have "room_below f (nodeid pn)"
    using same_id [OF saneD(1) [OF T(1)] _ assms(3)] assms(3,5) by (auto simp: room_below_def)
  moreover have "pages (slabs f') \<subseteq> insert m (pages (slabs f))" using find_node_used [OF f'(1)] by simp
  moreover have "conf f' = (0, 4096)" using find_node_conf [OF f'(1)] assms(2) by simp
  ultimately show ?thesis using f'(1) a nd mm assms(7,8) by auto
qed

section \<open>Examples\<close>

lemma start_state:
  "\<exists>f r rn. node_reach 4096 0 f \<and> tidy f \<and> nodes f = [r \<mapsto> rn] \<and> nodeid rn = FUSE_ROOT_ID \<and> nlookup rn = 1 \<and> refctr rn = 1 \<and> treelock rn = 0
     \<and> conf f = (0, 4096) \<and> pages (slabs f) \<subseteq> {4096}"
proof -
  have sl: "slab_at 4096 4096" by (simp add: slab_at_def)
  obtain f r rn where f: "new_nodes 4096 0 [] (Some 4096) = Inr (Some f)" "tidy f" "nodes f = [r \<mapsto> rn]" "nodeid rn = FUSE_ROOT_ID"
      "nlookup rn = 1" "refctr rn = 1" "treelock rn = 0"
    using new_nodes_ok [OF page_ok_4096 sl, of 0 "[]"] by blast
  then show ?thesis using node_reach.start [OF sl f(1)] new_nodes_used [OF f(1)] by blast
qed

lemma not_placed:
  assumes "\<And>c nd. nodes f c = Some nd \<Longrightarrow> nodeid nd = FUSE_ROOT_ID \<or> name nd \<noteq> Some t \<and> parent nd \<noteq> None"
  shows "\<forall>a. \<not> place f n (Some t) a"
proof (intro allI notI)
  fix a
  assume p: "place f n (Some t) a"
  then obtain nd where nd: "nodes f a = Some nd" by (auto simp: place_def named_def shapes_def)
  then have "name nd \<noteq> None" "nodeid nd \<noteq> FUSE_ROOT_ID" using p named_node [OF nd] by (auto simp: place_def)
  then show False using assms [OF nd] p place_iff [OF nd] by auto
qed

text \<open>The first lookup, and one below it.\<close>

lemma two_lookups:
  "\<exists>f r rn a nd b bd. node_reach 4096 0 f \<and> tidy f \<and> nodes f = [r \<mapsto> rn, a \<mapsto> nd, b \<mapsto> bd] \<and> distinct [r, a, b]
     \<and> nodeid rn = FUSE_ROOT_ID \<and> nlookup rn = 1 \<and> nodeid nd \<noteq> FUSE_ROOT_ID \<and> nodeid bd \<noteq> FUSE_ROOT_ID \<and> nlookup nd = 1 \<and> nlookup bd = 1
     \<and> treelock rn = 0 \<and> treelock nd = 0 \<and> treelock bd = 0 \<and> name nd = Some ''a'' \<and> parent nd = Some r \<and> name bd = Some ''b'' \<and> parent bd = Some a"
proof -
  obtain f0 r rn where f0: "node_reach 4096 0 f0" "tidy f0" "nodes f0 = [r \<mapsto> rn]" "nodeid rn = FUSE_ROOT_ID" "nlookup rn = 1" "refctr rn = 1"
      "conf f0 = (0, 4096)" "pages (slabs f0) \<subseteq> {4096}" "treelock rn = 0"
    using start_state by blast
  have n0: "nodes f0 r = Some rn" "0 < nlookup rn" "refctr rn < int_max" "length ''a'' < 32" "card (dom (nodes f0)) + 3 \<le> 2 ^ 32"
      "8192 \<notin> pages (slabs f0)"
    using f0 by (auto simp: int_max_def)
  have p0: "\<forall>a. \<not> place f0 (nodeid rn) (Some ''a'') a" by (rule not_placed) (use f0 in \<open>auto split: if_splits\<close>)
  obtain a nd f1 where f1: "allowed (Lookup (Some 8192) (nodeid rn) (Some ''a'')) f0" "find_node (Some 8192) (nodeid rn) (Some ''a'') f0 = Inr (Some a, f1)"
      "a \<notin> dom (nodes f0)" "nodes f1 = (nodes f0)(r \<mapsto> rn\<lparr>refctr := refctr rn + 1\<rparr>, a \<mapsto> nd)" "nodeid nd \<notin> idof f0 ` dom (nodes f0)"
      "name nd = Some ''a''" "parent nd = Some r" "nlookup nd = 1" "treelock nd = 0" "tidy f1" "conf f1 = (0, 4096)" "pages (slabs f1) \<subseteq> insert 8192 (pages (slabs f0))"
    using enter [OF f0(2,7) n0(1-4) p0 n0(5,6)] by auto
  have r1: "node_reach 4096 0 f1" by (rule node_reach.step [OF f0(1) f1(1)]) (simp add: f1(2))
  have ra: "a \<noteq> r" "nodeid nd \<noteq> FUSE_ROOT_ID" using f1(3,5) f0(3,4) by (auto simp: idof_def)
  have n1: "nodes f1 = [r \<mapsto> rn\<lparr>refctr := refctr rn + 1\<rparr>, a \<mapsto> nd]" "nodes f1 a = Some nd" using f1(4) f0(3) by auto
  have sub: "pages (slabs f1) \<subseteq> {4096, 8192}" using f1(12) f0(8) by blast
  have "children f1 a = {}" using f0(4) f1(7) ra by (auto simp: children_def n1(1) split: if_splits)
  moreover have "12288 \<notin> pages (slabs f1)" using sub by force
  ultimately have m1: "0 < nlookup nd" "refctr nd < int_max" "length ''b'' < 32" "card (dom (nodes f1)) + 3 \<le> 2 ^ 32" "12288 \<notin> pages (slabs f1)"
    using tidy_refs(1) [OF f1(10) n1(2)] f1(8) ra by (auto simp: n1(1) card_insert_if int_max_def)
  have p1: "\<forall>c. \<not> place f1 (nodeid nd) (Some ''b'') c" by (rule not_placed) (use f0(4) f1(6,7) in \<open>auto simp: n1(1) split: if_splits\<close>)
  obtain b bd f2 where f2: "allowed (Lookup (Some 12288) (nodeid nd) (Some ''b'')) f1" "find_node (Some 12288) (nodeid nd) (Some ''b'') f1 = Inr (Some b, f2)"
      "b \<notin> dom (nodes f1)" "nodes f2 = (nodes f1)(a \<mapsto> nd\<lparr>refctr := refctr nd + 1\<rparr>, b \<mapsto> bd)" "nodeid bd \<notin> idof f1 ` dom (nodes f1)"
      "name bd = Some ''b''" "parent bd = Some a" "nlookup bd = 1" "tidy f2" "treelock bd = 0"
    using enter [OF f1(10,11) n1(2) m1(1-3) p1 m1(4,5)] by auto
  have r2: "node_reach 4096 0 f2" by (rule node_reach.step [OF r1 f2(1)]) (simp add: f2(2))
  have "idof f1 r = FUSE_ROOT_ID" "r \<in> dom (nodes f1)" using f0(4) ra by (auto simp: n1(1) idof_def)
  then have nr: "nodeid bd \<noteq> FUSE_ROOT_ID" using f2(5) by (metis imageI)
  have "nodes f2 = [r \<mapsto> rn\<lparr>refctr := refctr rn + 1\<rparr>, a \<mapsto> nd\<lparr>refctr := refctr nd + 1\<rparr>, b \<mapsto> bd]" using f2(4) n1(1) ra by (simp add: fun_upd_twist)
  moreover have "distinct [r, a, b]" using ra f2(3) n1(1) by auto
  ultimately show ?thesis using r2 f2(6-10) nr f0(4,5,9) f1(6-9) ra(2)
    by (intro exI [of _ f2] exI [of _ r] exI [of _ "rn\<lparr>refctr := refctr rn + 1\<rparr>"] exI [of _ a] exI [of _ "nd\<lparr>refctr := refctr nd + 1\<rparr>"] exI [of _ b] exI [of _ bd]) simp
qed

text \<open>The kernel forgets a directory while it still knows an object in it.\<close>

lemma orphan_state:
  "\<exists>f a nd b r rn. node_reach 4096 0 f \<and> tidy f \<and> place f FUSE_ROOT_ID (Some ''a'') a \<and> nodes f a = Some nd \<and> nlookup nd = 0
     \<and> children f a = {b} \<and> parent nd = Some r \<and> nodes f r = Some rn \<and> 0 < nlookup rn"
proof -
  obtain f r rn a nd b bd where f: "node_reach 4096 0 f" "tidy f" "nodes f = [r \<mapsto> rn, a \<mapsto> nd, b \<mapsto> bd]" "distinct [r, a, b]"
      "nodeid rn = FUSE_ROOT_ID" "nlookup rn = 1" "nodeid nd \<noteq> FUSE_ROOT_ID" "nodeid bd \<noteq> FUSE_ROOT_ID" "nlookup nd = 1" "nlookup bd = 1"
      "treelock nd = 0" "name nd = Some ''a''" "parent nd = Some r" "name bd = Some ''b''" "parent bd = Some a"
    using two_lookups by blast
  let ?now = "\<lparr>tv_sec = 0, tv_nsec = 0\<rparr>" and ?f = "f\<lparr>nodes := (nodes f)(a \<mapsto> nd\<lparr>nlookup := 0\<rparr>)\<rparr>"
  have na: "nodes f a = Some nd" using f(3,4) by simp
  have k: "0 < (1 :: nat)" "1 \<le> nlookup nd" "nlookup nd = 1 \<longrightarrow> treelock nd = 0" using f(9,11) by simp_all
  obtain g where g: "forget_node ?now (nodeid nd) 1 f = Inr (Some g)" "survives {} ?f g"
    using forget_node_ok [OF tidyD(1) [OF f(2)] na f(7) k, of ?now] f(9) by auto
  have al: "allowed (Forget ?now (nodeid nd) 1) f" using na k(1,2) unfolding allowed.simps by blast
  have rg: "node_reach 4096 0 g" by (rule node_reach.step [OF f(1) al], unfold serve.simps g(1)) simp
  then have tg: "tidy g" using node_reach_tidy page_ok_4096 by blast
  obtain x where gb: "nodes g b = Some (bd\<lparr>refctr := x\<rparr>)" using survives_node [OF g(2), of b bd] f(3,4,10) by auto
  obtain y where gr: "nodes g r = Some (rn\<lparr>refctr := y\<rparr>)" using survives_node [OF g(2), of r rn] f(3,4,6) by auto
  have "nodes g a \<noteq> None" using tidy_refs(3) [OF tg gb] f(8,14,15) by auto
  then obtain nd' where nd': "nodes g a = Some nd'" by blast
  then obtain z where ga: "nd' = nd\<lparr>nlookup := 0, refctr := z\<rparr>" using g(2) unfolding survives_def by force
  have "children g a \<subseteq> children ?f a" unfolding children_kids using survives_kids [OF g(2)] .
  moreover have "children ?f a = {b}" using f(3-5,7,8,13-15) by (auto simp: children_def split: if_splits)
  moreover have "b \<in> children g a" using gb f(8,14,15) by (simp add: children_def)
  ultimately have "children g a = {b}" by blast
  moreover have "idof g r = FUSE_ROOT_ID" using gr f(5) by (simp add: idof_def)
  then have "place g FUSE_ROOT_ID (Some ''a'') a" using place_iff [OF nd'] f(7,12,13) ga by simp
  moreover have "nlookup nd' = 0" "parent nd' = Some r" "0 < nlookup (rn\<lparr>refctr := y\<rparr>)" using ga f(6,13) by simp_all
  ultimately show ?thesis using rg tg nd' gr by blast
qed

theorem nodes_lifetime_witness:
  "\<exists>f f' n. node_reach 4096 0 f \<and> nodes f \<noteq> Map.empty \<and> serve (Forget \<lparr>tv_sec = 0, tv_nsec = 0\<rparr> n 1) f = Inr f' \<and> node_reach 4096 0 f'"
proof -
  obtain f r rn a nd b bd where f: "node_reach 4096 0 f" "nodes f = [r \<mapsto> rn, a \<mapsto> nd, b \<mapsto> bd]" "distinct [r, a, b]" "nlookup bd = 1"
    using two_lookups by blast
  have "nodes f b = Some bd" "(0 :: nat) < 1" "1 \<le> nlookup bd" using f(2-4) by simp_all
  then have "allowed (Forget \<lparr>tv_sec = 0, tv_nsec = 0\<rparr> (nodeid bd) 1) f" unfolding allowed.simps by blast
  then obtain f' where "serve (Forget \<lparr>tv_sec = 0, tv_nsec = 0\<rparr> (nodeid bd) 1) f = Inr f'" "node_reach 4096 0 f'"
    using nodes_lifetime [OF f(1) page_ok_4096] by blast
  moreover have "nodes f \<noteq> Map.empty" using f(2) by simp
  ultimately show ?thesis using f(1) by blast
qed

section \<open>A node freed below its children\<close>

text \<open>\<open>delete_node\<close> of a node that still has a child: nothing checks for children.\<close>

lemma delete_with_child:
  assumes "tidy f" "nodes f a = Some nd" "name nd = Some s" "nodeid nd \<noteq> FUSE_ROOT_ID" "treelock nd = 0"
    and "parent nd = Some p" "nodes f p = Some pn" "0 < nlookup pn"
    and f2: "f2 = f\<lparr>nodes := (nodes f)(a \<mapsto> nd\<lparr>refctr := 0\<rparr>)\<rparr>"
  shows "\<exists>g. delete_node_with (unref_loop (Suc k)) a f2 = Inr g \<and> nodes g = (nodes f)(p \<mapsto> pn\<lparr>refctr := refctr pn - 1\<rparr>, a := None)"
proof -
  note T = tidyD [OF assms(1)]
  note S = saneD [OF T(1)]
  have pa: "p \<noteq> a" using up_irrefl [OF T(2) up_node [OF assms(2-4,6)]] by simp
  have n2: "nodes f2 a = Some (nd\<lparr>refctr := 0\<rparr>)" by (simp add: f2)
  have sh2: "shapes f2 = shapes f" unfolding f2 by (rule shapes_upd [OF assms(2)]) (simp add: nshape_def)
  have N2: "names_ok f2 {}" by (rule names_ok_frame [OF S(2) sh2]) (simp add: f2)
  define f3 where "f3 = f2\<lparr>name_table := detach (name_slot f2) a (name_table f2)\<rparr>"
  define f4 where "f4 = f3\<lparr>nodes := (nodes f3)(p \<mapsto> pn\<lparr>refctr := refctr pn - 1\<rparr>)\<rparr>"
  have kid: "a \<in> kids f {} p" using up_node [OF assms(2-4,6)] by (auto simp: up_def kids_def)
  have "refctr pn = int (lookup_ref pn + card (kids f {} p))" using refs_okD(1) [OF S(3) assms(7)] by simp
  moreover have "0 < card (kids f {} p)" using kid finite_kids [OF S(1)] card_gt_0_iff by blast
  ultimately have two: "2 \<le> refctr pn" using assms(8) by (simp add: lookup_ref_def)
  have p3: "nodes f3 p = Some pn" using assms(7) pa by (simp add: f3_def f2)
  have "unref_loop (Suc k) p f3 = Inr f4" using p3 two by (simp add: getn_def modn_def f4_def)
  moreover have nd2: "name (nd\<lparr>refctr := 0\<rparr>) = Some s" "nodeid (nd\<lparr>refctr := 0\<rparr>) \<noteq> FUSE_ROOT_ID" using assms(3,4) by simp_all
  have "unhash_name_with (unref_loop (Suc k)) a f2 = bindc (unref_loop (Suc k) p f3) (drop_name a)"
    using unhash_name_run [OF N2 n2 _ nd2 f3_def, of "unref_loop (Suc k)"] assms(6) by auto
  moreover have "names_ok f3 (insert a {})" unfolding f3_def
    by (rule names_detach [OF N2]) (use named_node [OF n2] nd2 in simp)
  then have N4: "names_ok f4 (insert a {})"
    by (rule names_ok_frame) (unfold f4_def, rule shapes_upd [OF p3], simp_all add: nshape_def)
  have a4: "nodes f4 a = Some (nd\<lparr>refctr := 0\<rparr>)" using n2 pa by (simp add: f4_def f3_def)
  moreover obtain t cs where d: "drop_name a f4 = Inr (f4\<lparr>nodes := (nodes f4)(a \<mapsto> nd\<lparr>refctr := 0, name := None, parent := None\<rparr>), name_table := t, coins := cs\<rparr>)"
    using drop_name_runs [OF N4 _ a4] by auto
  define f5 where "f5 = f4\<lparr>nodes := (nodes f4)(a \<mapsto> nd\<lparr>refctr := 0, name := None, parent := None\<rparr>), name_table := t, coins := cs\<rparr>"
  ultimately have un: "unhash_name_with (unref_loop (Suc k)) a f2 = Inr f5" using d by (simp only: bindc_Inr f5_def)
  have n5: "nodes f5 = (nodes f)(p \<mapsto> pn\<lparr>refctr := refctr pn - 1\<rparr>, a \<mapsto> nd\<lparr>refctr := 0, name := None, parent := None\<rparr>)"
    using pa by (simp add: f5_def f4_def f3_def f2 fun_upd_twist)
  have i5: "idof f5 = idof f" "dom (nodes f5) = dom (nodes f)" "roots f5 = roots f"
    using assms(2,7) by (auto simp: idof_def n5 fun_eq_iff roots_def shapes_def nshape_def split: if_splits)
  have o5: "id_table f5 = id_table f" "slabs f5 = slabs f" "stale f5 = stale f" "pagesize f5 = pagesize f" "remember f5 = remember f"
    by (simp_all add: f5_def f4_def f3_def f2)
  have "ids_ok f5" using S(1) by (simp add: ids_ok_def i5 o5)
  moreover have "nodes f5 c = None \<longleftrightarrow> nodes f c = None" for c using i5(2) by (metis domIff)
  then have "memory_ok f5" using S(5) by (simp add: memory_ok_def i5 o5)
  moreover have "nodes f5 a = Some (nd\<lparr>refctr := 0, name := None, parent := None\<rparr>)" by (simp add: n5)
  moreover have "a \<notin> roots f5" using not_root [OF T(1) assms(2,4)] i5(3) by simp
  ultimately obtain g where g: "bindc (if lru_enabled (remember f5) then remove_node_lru a f5 else Inr f5) (\<lambda>f. bindc (node_unhash_id a f) (free_node a)) = Inr g"
      "nodes g = (nodes f5)(a := None)"
    using node_gone_runs by metis
  have "delete_node_with (unref_loop (Suc k)) a f2 = Inr g" using n2 assms(5) un g(1) by (simp add: delete_node_with_def getn_def)
  moreover have "nodes g = (nodes f)(p \<mapsto> pn\<lparr>refctr := refctr pn - 1\<rparr>, a := None)" using g(2) n5 by simp
  ultimately show ?thesis by blast
qed

text \<open>
  (C26) A lookup of a node that the kernel has forgotten, and that is only kept for a child, does not take a
  reference: \<open>find_node\<close> counts the lookup and nothing else. When the kernel then forgets that lookup, the reference of
  the child is dropped in its place: the node is freed, and the child's \<open>parent\<close> points to freed memory.
\<close>

theorem lookup_frees_parent:
  assumes "tidy f" "place f dir (Some s) a" "nodes f a = Some nd" "nlookup nd = 0" "children f a = {b}"
    and "parent nd = Some p" "nodes f p = Some pn" "0 < nlookup pn"
  shows "\<exists>f1 f2 bd. find_node mem dir (Some s) f = Inr (Some a, f1) \<and> forget_node now (nodeid nd) 1 f1 = Inr (Some f2)
    \<and> nodes f2 a = None \<and> nodes f2 b = Some bd \<and> parent bd = Some a \<and> name bd \<noteq> None"
proof -
  note T = tidyD [OF assms(1)]
  note S = saneD [OF T(1)]
  have nd: "name nd = Some s" "nodeid nd \<noteq> FUSE_ROOT_ID" using place_node [OF S(2) assms(2)] assms(3) by auto
  have lock: "treelock nd = 0" using refs_okD(3) [OF S(3) assms(3)] assms(4) by auto
  have one: "refctr nd = 1" using tidy_refs(1) [OF assms(1,3)] assms(4,5) by simp
  define f1 where "f1 = f\<lparr>nodes := (nodes f)(a \<mapsto> nd\<lparr>nlookup := 1\<rparr>)\<rparr>"
  have "find_node mem dir (Some s) f = Inr (Some a, f1)"
    unfolding find_node_def place_found [OF T(1) assms(2)] using assms(3,4) by (simp add: getn_def modn_def inc64_def f1_def)
  moreover have sh1: "shapes f1 = shapes f" unfolding f1_def by (rule shapes_upd [OF assms(3)]) (simp add: nshape_def)
  have n1: "nodes f1 a = Some (nd\<lparr>nlookup := 1\<rparr>)" by (simp add: f1_def)
  have "ids_ok f1" by (rule ids_ok_frame [OF S(1) sh1]) (simp add: f1_def)
  then have the: "the_node f1 (nodeid nd) = Inr a" using ids_the_node [OF _ n1] by simp
  have undone: "modn a (\<lambda>nd. nd\<lparr>nlookup := nlookup nd - 1\<rparr>) f1 = Inr f"
    using assms(3,4) by (simp add: modn_def getn_def f1_def fun_upd_idem)
  have fg: "forget_node now (nodeid nd) 1 f1 = bindc (unref_node a f) (\<lambda>f. Inr (Some f))"
    using nd(2) the n1 lock undone by (simp add: forget_node_def getn_def)
  obtain k where k: "use (id_table f) = Suc k"
  proof -
    have "a \<in> dom (nodes f)" using assms(3) by blast
    then have "0 < card (dom (nodes f))" using finite_nodes [OF S(1)] card_gt_0_iff by blast
    moreover have "use (id_table f) = card (dom (nodes f))"
      using use_card [of "\<lambda>a. id_key (idof f a)" "id_table f"] S(1) by (simp add: ids_ok_def)
    ultimately have "use (id_table f) \<noteq> 0" by simp
    then show thesis using that not0_implies_Suc by blast
  qed
  obtain g where g: "delete_node_with (unref_loop (Suc k)) a (f\<lparr>nodes := (nodes f)(a \<mapsto> nd\<lparr>refctr := 0\<rparr>)\<rparr>) = Inr g"
      "nodes g = (nodes f)(p \<mapsto> pn\<lparr>refctr := refctr pn - 1\<rparr>, a := None)"
    using delete_with_child [OF assms(1,3) nd lock assms(6-8) refl] by blast
  have "unref_node a f = Inr g" using assms(3) one g(1) by (simp add: unref_node_def k getn_def modn_def)
  moreover have "b \<in> children f a" using assms(5) by simp
  then obtain bd where b: "nodes f b = Some bd" "name bd \<noteq> None" "parent bd = Some a" "nodeid bd \<noteq> FUSE_ROOT_ID" by (auto simp: children_def)
  have "b \<noteq> a" using up_irrefl [OF T(2), of b a] b by (auto simp: up_node)
  then have "\<exists>bd'. nodes g b = Some bd' \<and> parent bd' = Some a \<and> name bd' \<noteq> None" using g(2) b assms(7) by (cases "b = p") auto
  ultimately show ?thesis using fg g(2) by auto
qed

theorem lookup_frees_parent_witness:
  "\<exists>f a f1 f2 b bd n. node_reach 4096 0 f \<and> find_node None FUSE_ROOT_ID (Some ''a'') f = Inr (Some a, f1)
     \<and> forget_node \<lparr>tv_sec = 0, tv_nsec = 0\<rparr> n 1 f1 = Inr (Some f2) \<and> nodes f2 a = None \<and> nodes f2 b = Some bd \<and> parent bd = Some a"
proof -
  obtain f a nd b r rn where o: "node_reach 4096 0 f" "tidy f" "place f FUSE_ROOT_ID (Some ''a'') a" "nodes f a = Some nd" "nlookup nd = 0"
      "children f a = {b}" "parent nd = Some r" "nodes f r = Some rn" "0 < nlookup rn"
    using orphan_state by blast
  then show ?thesis using lookup_frees_parent [OF o(2-9), of None "\<lparr>tv_sec = 0, tv_nsec = 0\<rparr>"] by blast
qed

end
