(* ===== verification/Fuse_Path.thy ===== *)
theory Fuse_Path
  imports Fuse_Nodes
begin

text \<open>
  Paths in \<open>src/lib/fuse.c\<close>: the text of a path is put together from the names of a node and its ancestors, and
  these nodes are locked on the way, for reading, and the object itself for writing if it is to be changed. A thread
  that finds a lock taken leaves its ticket on the nodes it had, so that they are kept for it, and waits in a queue.
  The functions run with \<open>f->lock\<close> held; \<open>pthread_cond_wait\<close> gives it up, so a wait ends one step of the model and
  the next try begins another.
\<close>

section \<open>The buffer of a path\<close>

text \<open>The text ends at the end of the buffer: \<open>s\<close> points \<open>bufsize - 1 - length ptext\<close> bytes into it.\<close>

record pathbuf =
  bufsize :: nat
  ptext :: string

fun grow_buf :: "nat \<Rightarrow> nat \<Rightarrow> nat \<Rightarrow> nat c" where
  "grow_buf 0 need n = Inl OutOfFuel"
| "grow_buf (Suc fuel) need n =
     (if n < need then grow_buf fuel need (if 0x80000000 \<le> n then 0xffffffff else 2 * n) else Inr n)"

definition put_text :: "string \<Rightarrow> pathbuf \<Rightarrow> pathbuf c" where
  "put_text t b = (if length t < bufsize b then Inr (b\<lparr>ptext := t\<rparr>) else Inl Overflow)"

definition add_name :: "string \<Rightarrow> pathbuf \<Rightarrow> fuse \<Rightarrow> (pathbuf option \<times> fuse) c" where
  "add_name s b f =
     (let len = length s; pathlen = length (ptext b) + 1 in
      if bufsize b - pathlen \<le> len then
        bindc (grow_buf 40 (pathlen + len + 1) (bufsize b)) (\<lambda>n.
        let (ok, f) = coin f in
        if \<not> ok then Inr (None, f)
        else bindc (put_text (CHR ''/'' # s @ ptext b) (b\<lparr>bufsize := n\<rparr>)) (\<lambda>b. Inr (Some b, f)))
      else bindc (put_text (CHR ''/'' # s @ ptext b) b) (\<lambda>b. Inr (Some b, f)))"

section \<open>Tickets and locks\<close>

definition get_ticket :: "fuse \<Rightarrow> (int \<times> fuse) c" where
  "get_ticket f =
     (if curr_ticket f = int_max then Inl SignedOverflow
      else let t = (if curr_ticket f = -1 then 1 else curr_ticket f + 1) in Inr (t, f\<lparr>curr_ticket := t\<rparr>))"

definition leave_ticket :: "int \<Rightarrow> node \<Rightarrow> node" where
  "leave_ticket t nd = (if ticket nd = 0 then nd\<lparr>ticket := t\<rparr> else nd)"

fun unlock_loop :: "nat \<Rightarrow> nat option \<Rightarrow> nat option \<Rightarrow> int \<Rightarrow> fuse \<Rightarrow> fuse c" where
  "unlock_loop 0 node stop t f = Inl OutOfFuel"
| "unlock_loop (Suc fuel) node stop t f =
     (if node = stop then Inr f
      else case node of
        None \<Rightarrow> Inl NullDeref
      | Some a \<Rightarrow>
          bindc (getn f a) (\<lambda>nd.
          if nodeid nd = FUSE_ROOT_ID then Inr f
          else if treelock nd \<le> 0 then Inl Aborted
          else bindc (modn a (\<lambda>nd. leave_ticket t (nd\<lparr>treelock := treelock nd - 1\<rparr>)) f) (unlock_loop fuel (parent nd) stop t)))"

definition unlock_path :: "nat \<Rightarrow> nat option \<Rightarrow> nat option \<Rightarrow> int \<Rightarrow> fuse \<Rightarrow> fuse c" where
  "unlock_path n wnode stop t f =
     bindc (case wnode of
         None \<Rightarrow> Inr f
       | Some w \<Rightarrow>
           bindc (getn f w) (\<lambda>nd.
           if treelock nd \<noteq> -1 then Inl Aborted
           else modn w (\<lambda>nd. leave_ticket t (nd\<lparr>treelock := 0\<rparr>)) f)) (\<lambda>f.
     bindc (the_node f n) (\<lambda>a. unlock_loop (use (id_table f) + 2) (Some a) stop t f))"

fun release_loop :: "nat \<Rightarrow> nat option \<Rightarrow> int \<Rightarrow> fuse \<Rightarrow> fuse c" where
  "release_loop 0 node t f = Inl OutOfFuel"
| "release_loop (Suc fuel) node t f =
     (case node of
        None \<Rightarrow> Inl NullDeref
      | Some a \<Rightarrow>
          bindc (getn f a) (\<lambda>nd.
          if nodeid nd = FUSE_ROOT_ID \<or> ticket nd \<noteq> t then Inr f
          else bindc (modn a (\<lambda>nd. nd\<lparr>ticket := 0\<rparr>) f) (release_loop fuel (parent nd) t)))"

definition release_tickets :: "nat \<Rightarrow> nat option \<Rightarrow> int \<Rightarrow> fuse \<Rightarrow> fuse c" where
  "release_tickets n wnode t f =
     bindc (case wnode of
         None \<Rightarrow> Inr (True, f)
       | Some w \<Rightarrow>
           bindc (getn f w) (\<lambda>nd.
           if ticket nd \<noteq> t then Inr (False, f) else bindc (modn w (\<lambda>nd. nd\<lparr>ticket := 0\<rparr>) f) (\<lambda>f. Inr (True, f)))) (\<lambda>(go, f).
     if \<not> go then Inr f
     else bindc (the_node f n) (\<lambda>a. release_loop (use (id_table f) + 2) (Some a) t f))"

section \<open>Taking a path\<close>

text \<open>The object to be changed is locked first, if it is known.\<close>

definition write_lock :: "nat \<Rightarrow> string option \<Rightarrow> int \<Rightarrow> fuse \<Rightarrow> (bool \<times> nat option \<times> fuse) c" where
  "write_lock n nm t f =
     (if t = 0 then Inl Aborted
      else case nm of
        None \<Rightarrow> Inl NullDeref
      | Some s \<Rightarrow>
          bindc (node_by_name f n s) (\<lambda>r.
          case r of
            None \<Rightarrow> Inr (False, None, f)
          | Some w \<Rightarrow>
              bindc (getn f w) (\<lambda>nd.
              if treelock nd \<noteq> 0 \<or> (ticket nd \<noteq> 0 \<and> ticket nd \<noteq> t)
              then bindc (modn w (leave_ticket t) f) (\<lambda>f. Inr (True, None, f))
              else bindc (modn w (\<lambda>nd. nd\<lparr>treelock := -1, ticket := 0\<rparr>) f) (\<lambda>f. Inr (False, Some w, f)))))"

text \<open>The way up: an error comes with the node at which it happened.\<close>

fun path_loop :: "nat \<Rightarrow> nat \<Rightarrow> pathbuf \<Rightarrow> int \<Rightarrow> fuse \<Rightarrow> (((int \<times> nat) + pathbuf) \<times> fuse) c" where
  "path_loop 0 a b t f = Inl OutOfFuel"
| "path_loop (Suc fuel) a b t f =
     bindc (getn f a) (\<lambda>nd.
     if nodeid nd = FUSE_ROOT_ID then Inr (Inr b, f)
     else case (name nd, parent nd) of
         (Some s, Some p) \<Rightarrow>
           bindc (add_name s b f) (\<lambda>(r, f).
           case r of
             None \<Rightarrow> Inr (Inl (- ENOMEM, a), f)
           | Some b \<Rightarrow>
               if t = 0 then path_loop fuel p b t f
               else if treelock nd = -1 \<or> (ticket nd \<noteq> 0 \<and> ticket nd \<noteq> t) then Inr (Inl (- EAGAIN, a), f)
               else if treelock nd = int_max then Inl SignedOverflow
               else bindc (modn a (\<lambda>nd. nd\<lparr>treelock := treelock nd + 1, ticket := 0\<rparr>) f) (path_loop fuel p b t))
       | _ \<Rightarrow> Inr (Inl (- ENOENT, a), f))"

definition path_failed :: "int \<Rightarrow> nat \<Rightarrow> nat option \<Rightarrow> int \<Rightarrow> fuse \<Rightarrow> ((int \<times> string option \<times> nat option) \<times> fuse) c" where
  "path_failed err n wnode t f =
     bindc (if t \<noteq> 0 \<and> err \<noteq> - EAGAIN then release_tickets n wnode t f else Inr f) (\<lambda>f. Inr ((err, None, None), f))"

definition try_get_path :: "nat \<Rightarrow> string option \<Rightarrow> bool \<Rightarrow> int \<Rightarrow> fuse \<Rightarrow> ((int \<times> string option \<times> nat option) \<times> fuse) c" where
  "try_get_path n nm wr t f =
     (let (ok, f) = coin f; b = \<lparr>bufsize = 256, ptext = []\<rparr> in
      if \<not> ok then path_failed (- ENOMEM) n None t f
      else
        bindc (case nm of None \<Rightarrow> Inr (Some b, f) | Some s \<Rightarrow> add_name s b f) (\<lambda>(r, f).
        case r of
          None \<Rightarrow> path_failed (- ENOMEM) n None t f
        | Some b \<Rightarrow>
            bindc (if wr then write_lock n nm t f else Inr (False, None, f)) (\<lambda>(busy, wnode, f).
            if busy then path_failed (- EAGAIN) n wnode t f
            else
              bindc (the_node f n) (\<lambda>a.
              bindc (path_loop (use (id_table f) + 2) a b t f) (\<lambda>(res, f).
              case res of
                Inl (err, stop) \<Rightarrow> bindc (if t \<noteq> 0 then unlock_path n wnode (Some stop) t f else Inr f) (path_failed err n wnode t)
              | Inr b \<Rightarrow> Inr ((0, Some (if ptext b \<noteq> [] then ptext b else ''/''), wnode), f))))))"

text \<open>\<open>free(path1)\<close> in the error case frees the caller's variable, not the path it holds; neither block is counted here.\<close>

definition try_get_path2 ::
  "nat \<Rightarrow> string option \<Rightarrow> bool \<Rightarrow> nat \<Rightarrow> string option \<Rightarrow> bool \<Rightarrow> int \<Rightarrow> fuse \<Rightarrow>
   ((int \<times> (string option \<times> nat option) \<times> string option \<times> nat option) \<times> fuse) c" where
  "try_get_path2 n1 nm1 wr1 n2 nm2 wr2 t f =
     bindc (try_get_path n1 nm1 wr1 t f) (\<lambda>((err, p1, w1), f).
     if err \<noteq> 0 then Inr ((err, (p1, w1), None, None), f)
     else
       bindc (try_get_path n2 nm2 wr2 t f) (\<lambda>((err, p2, w2), f).
       if err = 0 then Inr ((0, (p1, w1), p2, w2), f)
       else
         bindc (unlock_path n1 w1 None t f) (\<lambda>f.
         bindc (if t \<noteq> 0 \<and> err \<noteq> - EAGAIN then release_tickets n1 w1 t f else Inr f) (\<lambda>f.
         Inr ((err, (None, None), None, None), f)))))"

section \<open>Waiting\<close>

text \<open>\<open>lockq\<close> holds the waiting threads; waking one makes it try again.\<close>

definition wake_up_first :: "fuse \<Rightarrow> nat option" where
  "wake_up_first f = (case lockq f of [] \<Rightarrow> None | q # _ \<Rightarrow> Some q)"

definition wake_up_next :: "nat \<Rightarrow> fuse \<Rightarrow> nat option" where
  "wake_up_next q f = (case dropWhile (\<lambda>r. r \<noteq> q) (lockq f) of _ # r # _ \<Rightarrow> Some r | _ \<Rightarrow> None)"

definition queue_path :: "nat \<Rightarrow> fuse \<Rightarrow> fuse" where
  "queue_path q f = f\<lparr>lockq := lockq f @ [q]\<rparr>"

definition dequeue_path :: "nat \<Rightarrow> fuse \<Rightarrow> fuse c" where
  "dequeue_path q f = (if q \<in> set (lockq f) then Inr (f\<lparr>lockq := remove1 q (lockq f)\<rparr>) else Inl NullDeref)"

text \<open>
  A thread \<open>q\<close> asks for a path with \<open>ask\<close>, which is \<open>try_get_path\<close> or \<open>try_get_path2\<close> but for the ticket: the first
  try, and each later one when it is woken. The first component tells whether it goes on waiting, the last of
  \<open>get_path_again\<close> which thread it wakes.
\<close>

definition get_path_first :: "(int \<Rightarrow> fuse \<Rightarrow> ((int \<times> 'a) \<times> fuse) c) \<Rightarrow> nat \<Rightarrow> fuse \<Rightarrow> ((bool \<times> int \<times> int \<times> 'a) \<times> fuse) c" where
  "get_path_first ask q f =
     bindc (get_ticket f) (\<lambda>(t, f).
     bindc (ask t f) (\<lambda>((err, res), f).
     if err = - EAGAIN then Inr ((True, t, err, res), queue_path q f) else Inr ((False, t, err, res), f)))"

definition get_path_again :: "(int \<Rightarrow> fuse \<Rightarrow> ((int \<times> 'a) \<times> fuse) c) \<Rightarrow> nat \<Rightarrow> int \<Rightarrow> fuse \<Rightarrow> (((bool \<times> int \<times> int \<times> 'a) \<times> nat option) \<times> fuse) c" where
  "get_path_again ask q t f =
     bindc (ask t f) (\<lambda>((err, res), f).
     let woken = wake_up_next q f in
     if err = - EAGAIN then Inr (((True, t, err, res), woken), f)
     else bindc (dequeue_path q f) (\<lambda>f. Inr (((False, t, err, res), woken), f)))"

text \<open>Two paths at once, and the single paths that the request handlers ask for.\<close>

definition get_path2_first ::
  "nat \<Rightarrow> string option \<Rightarrow> bool \<Rightarrow> nat \<Rightarrow> string option \<Rightarrow> bool \<Rightarrow> nat \<Rightarrow> fuse \<Rightarrow>
   ((bool \<times> int \<times> int \<times> (string option \<times> nat option) \<times> string option \<times> nat option) \<times> fuse) c" where
  "get_path2_first n1 nm1 wr1 n2 nm2 wr2 = get_path_first (try_get_path2 n1 nm1 wr1 n2 nm2 wr2)"

definition get_path2_again ::
  "nat \<Rightarrow> string option \<Rightarrow> bool \<Rightarrow> nat \<Rightarrow> string option \<Rightarrow> bool \<Rightarrow> nat \<Rightarrow> int \<Rightarrow> fuse \<Rightarrow>
   (((bool \<times> int \<times> int \<times> (string option \<times> nat option) \<times> string option \<times> nat option) \<times> nat option) \<times> fuse) c" where
  "get_path2_again n1 nm1 wr1 n2 nm2 wr2 = get_path_again (try_get_path2 n1 nm1 wr1 n2 nm2 wr2)"

definition get_path :: "nat \<Rightarrow> int \<Rightarrow> fuse \<Rightarrow> ((int \<times> string option \<times> nat option) \<times> fuse) c" where
  "get_path n = try_get_path n None False"

definition get_path_name :: "nat \<Rightarrow> string \<Rightarrow> int \<Rightarrow> fuse \<Rightarrow> ((int \<times> string option \<times> nat option) \<times> fuse) c" where
  "get_path_name n s = try_get_path n (Some s) False"

definition get_path_wrlock :: "nat \<Rightarrow> string \<Rightarrow> int \<Rightarrow> fuse \<Rightarrow> ((int \<times> string option \<times> nat option) \<times> fuse) c" where
  "get_path_wrlock n s = try_get_path n (Some s) True"

text \<open>Without paths there is nothing to ask for; otherwise a removed object is no error for operations that do without its path.\<close>

definition get_path_nullok :: "bool \<Rightarrow> bool \<Rightarrow> nat \<Rightarrow> int \<Rightarrow> fuse \<Rightarrow> ((int \<times> string option \<times> nat option) \<times> fuse) c" where
  "get_path_nullok nopath nullpath_ok n t f =
     (if nopath then Inr ((0, None, None), f)
      else bindc (get_path n t f) (\<lambda>((err, res), f). Inr ((if err = - ENOENT \<and> nullpath_ok then 0 else err, res), f)))"

definition free_path_wrlock :: "nat \<Rightarrow> nat option \<Rightarrow> fuse \<Rightarrow> (nat option \<times> fuse) c" where
  "free_path_wrlock n wnode f = bindc (unlock_path n wnode None 0 f) (\<lambda>f. Inr (wake_up_first f, f))"

definition free_path :: "nat \<Rightarrow> string option \<Rightarrow> fuse \<Rightarrow> (nat option \<times> fuse) c" where
  "free_path n path f = (case path of None \<Rightarrow> Inr (None, f) | Some _ \<Rightarrow> free_path_wrlock n None f)"

definition free_path2 :: "nat \<Rightarrow> nat \<Rightarrow> nat option \<Rightarrow> nat option \<Rightarrow> fuse \<Rightarrow> (nat option \<times> fuse) c" where
  "free_path2 n1 n2 w1 w2 f =
     bindc (unlock_path n1 w1 None 0 f) (\<lambda>f. bindc (unlock_path n2 w2 None 0 f) (\<lambda>f. Inr (wake_up_first f, f)))"

end
