(* ===== verification/Fuse_Path_Locks.thy ===== *)
theory Fuse_Path_Locks
  imports Fuse_Path Fuse_Requests
begin

text \<open>
  Taking and giving back a path: the text is the one that the names give, a path that is not given to the caller leaves
  no lock behind, and giving a path back undoes the taking of it. Over any number of holders, an object that one of
  them holds for writing is on the path of no other.
\<close>

section \<open>The buffer\<close>

definition buf_ok :: "pathbuf \<Rightarrow> bool" where
  "buf_ok b \<longleftrightarrow> 256 \<le> bufsize b \<and> bufsize b < 2 ^ 32 \<and> length (ptext b) < bufsize b"

lemma grow_buf_ok:
  assumes "need < 2 ^ 32" "n < 2 ^ 32" "2 ^ 32 \<le> n * 2 ^ fuel"
  shows "\<exists>m. grow_buf (Suc fuel) need n = Inr m \<and> need \<le> m \<and> n \<le> m \<and> m < 2 ^ 32"
  using assms
proof (induction fuel arbitrary: n)
  case 0
  then show ?case by simp
next
  case (Suc fuel)
  show ?case
  proof (cases "n < need")
    case True
    let ?n = "if 0x80000000 \<le> n then 0xffffffff else 2 * n"
    have n: "?n < 2 ^ 32" "n \<le> ?n" using Suc.prems(2) by auto
    have "\<exists>m. grow_buf (Suc fuel) need ?n = Inr m \<and> need \<le> m \<and> ?n \<le> m \<and> m < 2 ^ 32"
    proof (cases "0x80000000 \<le> n")
      case True
      then show ?thesis using Suc.prems(1) by simp
    next
      case False
      then have "2 ^ 32 \<le> ?n * 2 ^ fuel" using Suc.prems(3) by (simp add: ac_simps)
      then show ?thesis using Suc.IH [OF Suc.prems(1) n(1)] by blast
    qed
    then obtain m where m: "grow_buf (Suc fuel) need ?n = Inr m" "need \<le> m" "?n \<le> m" "m < 2 ^ 32" by blast
    have "grow_buf (Suc (Suc fuel)) need n = grow_buf (Suc fuel) need ?n"
      by (subst grow_buf.simps(2)) (simp only: True if_True)
    then show ?thesis using m n(2) le_trans by metis
  next
    case False
    then show ?thesis using Suc.prems by simp
  qed
qed

lemma add_name_ok:
  assumes "buf_ok b" "length s + length (ptext b) + 2 < 2 ^ 32"
  shows "(\<exists>cs. add_name s b f = Inr (None, f\<lparr>coins := cs\<rparr>))
    \<or> (\<exists>b' cs. add_name s b f = Inr (Some b', f\<lparr>coins := cs\<rparr>) \<and> buf_ok b' \<and> ptext b' = CHR ''/'' # s @ ptext b)"
proof (cases "bufsize b - (length (ptext b) + 1) \<le> length s")
  case True
  have "2 ^ 32 \<le> bufsize b * 2 ^ 39" using assms(1) by (simp add: buf_ok_def)
  then obtain m where m: "grow_buf 40 (length (ptext b) + 1 + length s + 1) (bufsize b) = Inr m"
      "length (ptext b) + 1 + length s + 1 \<le> m" "bufsize b \<le> m" "m < 2 ^ 32"
    using grow_buf_ok [of "length (ptext b) + 1 + length s + 1" "bufsize b" 39] assms by (auto simp: buf_ok_def)
  obtain ok cs where c: "coin f = (ok, f\<lparr>coins := cs\<rparr>)" using coin_eq by blast
  have "buf_ok (b\<lparr>bufsize := m, ptext := CHR ''/'' # s @ ptext b\<rparr>)" using m(2-4) assms(1) by (simp add: buf_ok_def)
  then show ?thesis using True m(1,2) c by (cases ok) (auto simp: add_name_def Let_def put_text_def)
next
  case False
  then have "length (CHR ''/'' # s @ ptext b) < bufsize b" by simp
  moreover from this have "buf_ok (b\<lparr>ptext := CHR ''/'' # s @ ptext b\<rparr>)" using assms(1) by (simp add: buf_ok_def)
  moreover have "f = f\<lparr>coins := coins f\<rparr>" by simp
  ultimately have "\<exists>b' cs. add_name s b f = Inr (Some b', f\<lparr>coins := cs\<rparr>) \<and> buf_ok b' \<and> ptext b' = CHR ''/'' # s @ ptext b"
    using False by (intro exI [of _ "b\<lparr>ptext := CHR ''/'' # s @ ptext b\<rparr>"] exI [of _ "coins f"]) (simp add: add_name_def put_text_def)
  then show ?thesis by blast
qed

section \<open>The way to the root\<close>

text \<open>\<open>xs\<close> are the nodes from \<open>a\<close> up to but without \<open>c\<close>.\<close>

fun segment :: "fuse \<Rightarrow> nat \<Rightarrow> nat list \<Rightarrow> nat \<Rightarrow> bool" where
  "segment f a [] c \<longleftrightarrow> a = c \<and> nodes f a \<noteq> None"
| "segment f a (x # xs) c \<longleftrightarrow> x = a \<and> (\<exists>nd s p. nodes f a = Some nd \<and> nodeid nd \<noteq> FUSE_ROOT_ID \<and> name nd = Some s
     \<and> parent nd = Some p \<and> segment f p xs c)"

definition at_root :: "fuse \<Rightarrow> nat \<Rightarrow> bool" where
  "at_root f z \<longleftrightarrow> (\<exists>nd. nodes f z = Some nd \<and> nodeid nd = FUSE_ROOT_ID)"

definition at_end :: "fuse \<Rightarrow> nat \<Rightarrow> bool" where
  "at_end f z \<longleftrightarrow> (\<exists>nd. nodes f z = Some nd \<and> (nodeid nd = FUSE_ROOT_ID \<or> name nd = None \<or> parent nd = None))"

definition tree_ok :: "fuse \<Rightarrow> bool" where
  "tree_ok f \<longleftrightarrow> ids_ok f \<and> names_ok f {} \<and> acyclic (up f)"

lemma tree_okD: "tree_ok f \<Longrightarrow> ids_ok f" "tree_ok f \<Longrightarrow> names_ok f {}" "tree_ok f \<Longrightarrow> acyclic (up f)"
  by (simp_all add: tree_ok_def)

lemma segment_dom: "segment f a xs c \<Longrightarrow> a \<in> dom (nodes f) \<and> c \<in> dom (nodes f) \<and> set xs \<subseteq> dom (nodes f)"
  by (induction xs arbitrary: a) auto

lemma segment_up: "segment f a xs c \<Longrightarrow> x \<in> set xs \<Longrightarrow> (a, x) \<in> (up f)\<^sup>* \<and> (x, c) \<in> (up f)\<^sup>+"
proof (induction xs arbitrary: a x)
  case (Cons y xs)
  obtain nd s p where p: "nodes f a = Some nd" "name nd = Some s" "nodeid nd \<noteq> FUSE_ROOT_ID" "parent nd = Some p" "segment f p xs c" "y = a"
    using Cons.prems(1) by auto
  have u: "(a, p) \<in> up f" using up_node [OF p(1-4)] .
  have pc: "(p, c) \<in> (up f)\<^sup>*"
  proof (cases xs)
    case Nil
    then show ?thesis using p(5) by simp
  next
    case (Cons q qs)
    then have "q = p" using p(5) by simp
    then have "(p, c) \<in> (up f)\<^sup>+" using Cons.IH [OF p(5), of q] Cons by simp
    then show ?thesis by simp
  qed
  show ?case
  proof (cases "x = a")
    case True
    have "(a, c) \<in> (up f)\<^sup>+" using u pc by (rule rtrancl_into_trancl2)
    then show ?thesis using True by simp
  next
    case False
    then have "x \<in> set xs" using Cons.prems(2) p(6) by simp
    then show ?thesis using Cons.IH [OF p(5)] u by (metis converse_rtrancl_into_rtrancl)
  qed
qed simp

lemma segment_distinct: "acyclic (up f) \<Longrightarrow> segment f a xs c \<Longrightarrow> distinct xs \<and> c \<notin> set xs"
proof (induction xs arbitrary: a)
  case (Cons y xs)
  obtain nd s p where p: "nodes f a = Some nd" "name nd = Some s" "nodeid nd \<noteq> FUSE_ROOT_ID" "parent nd = Some p" "segment f p xs c" "y = a"
    using Cons.prems(2) by auto
  have u: "(a, p) \<in> up f" using up_node [OF p(1-4)] .
  have "a \<notin> set xs"
  proof
    assume "a \<in> set xs"
    then have "(p, a) \<in> (up f)\<^sup>*" using segment_up [OF p(5)] by blast
    then have "(a, a) \<in> (up f)\<^sup>+" using u by (meson rtrancl_into_trancl2)
    then show False using Cons.prems(1) by (simp add: acyclic_def)
  qed
  moreover have "(a, c) \<in> (up f)\<^sup>+" using segment_up [OF Cons.prems(2), of a] p(6) by simp
  then have "a \<noteq> c" using Cons.prems(1) by (auto simp: acyclic_def)
  ultimately show ?case using Cons.IH [OF Cons.prems(1) p(5)] p(6) by auto
qed simp

lemma segment_len: "tree_ok f \<Longrightarrow> segment f a xs c \<Longrightarrow> length xs \<le> use (id_table f)"
proof -
  assume t: "tree_ok f" and s: "segment f a xs c"
  have "length xs = card (set xs)" using segment_distinct [OF tree_okD(3) [OF t] s] distinct_card by metis
  also have "\<dots> \<le> card (dom (nodes f))" using segment_dom [OF s] finite_nodes [OF tree_okD(1) [OF t]] card_mono by blast
  also have "\<dots> = use (id_table f)"
    using use_card [of "\<lambda>a. id_key (idof f a)" "id_table f"] tree_okD(1) [OF t] by (simp add: ids_ok_def)
  finally show ?thesis .
qed

lemma segment_exists:
  assumes "tree_ok f" "a \<in> dom (nodes f)"
  shows "\<exists>xs z. segment f a xs z \<and> at_end f z"
proof -
  have "up f \<subseteq> dom (nodes f) \<times> dom (nodes f)" using up_nodes [OF tree_okD(2) [OF assms(1)]] by auto
  then have "finite (up f)" using finite_nodes [OF tree_okD(1) [OF assms(1)]] by (meson finite_SigmaI finite_subset)
  then have "wf ((up f)\<inverse>)" using finite_acyclic_wf_converse tree_okD(3) [OF assms(1)] by blast
  then show ?thesis using assms(2)
  proof (induction a rule: wf_induct_rule)
    case (less a)
    obtain nd where nd: "nodes f a = Some nd" using less.prems by blast
    show ?case
    proof (cases "at_end f a")
      case True
      then show ?thesis using nd by (intro exI [of _ "[]"] exI [of _ a]) simp
    next
      case False
      then obtain s p where s: "nodeid nd \<noteq> FUSE_ROOT_ID" "name nd = Some s" "parent nd = Some p" using nd by (auto simp: at_end_def)
      have u: "(a, p) \<in> up f" using up_node [OF nd s(2,1,3)] .
      then obtain xs z where "segment f p xs z" "at_end f z" using less.IH [of p] up_nodes [OF tree_okD(2) [OF assms(1)] u] by blast
      then show ?thesis using nd s by (intro exI [of _ "a # xs"] exI [of _ z]) auto
    qed
  qed
qed

lemma segment_append: "segment f a (xs @ ys) z \<longleftrightarrow> (\<exists>c. segment f a xs c \<and> segment f c ys z)"
proof (induction xs arbitrary: a)
  case Nil
  then show ?case using segment_dom [of f a ys z] by auto
next
  case (Cons x xs)
  then show ?case by auto
qed

section \<open>Locks\<close>

definition unlocked :: "node \<Rightarrow> node" where
  "unlocked nd = nd\<lparr>treelock := 0, ticket := 0\<rparr>"

definition same_tree :: "fuse \<Rightarrow> fuse \<Rightarrow> bool" where
  "same_tree f f' \<longleftrightarrow> (\<forall>a. map_option unlocked (nodes f' a) = map_option unlocked (nodes f a)) \<and> id_table f' = id_table f \<and> name_table f' = name_table f"

definition lock_of :: "fuse \<Rightarrow> nat \<Rightarrow> int" where
  "lock_of f a = (case nodes f a of None \<Rightarrow> 0 | Some nd \<Rightarrow> treelock nd)"

definition tick_of :: "fuse \<Rightarrow> nat \<Rightarrow> int" where
  "tick_of f a = (case nodes f a of None \<Rightarrow> 0 | Some nd \<Rightarrow> ticket nd)"

definition relock :: "nat \<Rightarrow> int \<Rightarrow> int \<Rightarrow> fuse \<Rightarrow> fuse" where
  "relock a l t f = f\<lparr>nodes := (nodes f)(a \<mapsto> (the (nodes f a))\<lparr>treelock := l, ticket := t\<rparr>)\<rparr>"

lemma same_tree_refl [simp]: "same_tree f f"
  by (simp add: same_tree_def)

lemma same_tree_trans: "same_tree f g \<Longrightarrow> same_tree g h \<Longrightarrow> same_tree f h"
  by (simp add: same_tree_def)

lemma coins_effect [simp]: "same_tree f (f\<lparr>coins := cs\<rparr>)" "lock_of (f\<lparr>coins := cs\<rparr>) = lock_of f" "tick_of (f\<lparr>coins := cs\<rparr>) = tick_of f"
  by (simp_all add: same_tree_def lock_of_def tick_of_def fun_eq_iff)

lemma relock_effect:
  assumes "nodes f a = Some nd"
  shows "same_tree f (relock a l t f)" "lock_of (relock a l t f) = (lock_of f)(a := l)" "tick_of (relock a l t f) = (tick_of f)(a := t)"
    "modn a (\<lambda>nd. nd\<lparr>treelock := treelock nd + i, ticket := t\<rparr>) f = Inr (relock a (lock_of f a + i) t f)"
    "modn a (\<lambda>nd. nd\<lparr>treelock := l, ticket := t\<rparr>) f = Inr (relock a l t f)"
    "modn a (\<lambda>nd. nd\<lparr>ticket := t\<rparr>) f = Inr (relock a (lock_of f a) t f)"
    "modn a (\<lambda>nd. leave_ticket t (nd\<lparr>treelock := treelock nd - 1\<rparr>)) f = Inr (relock a (lock_of f a - 1) (if tick_of f a = 0 then t else tick_of f a) f)"
    "modn a (\<lambda>nd. leave_ticket t (nd\<lparr>treelock := l\<rparr>)) f = Inr (relock a l (if tick_of f a = 0 then t else tick_of f a) f)"
    "modn a (leave_ticket t) f = Inr (relock a (lock_of f a) (if tick_of f a = 0 then t else tick_of f a) f)"
  using assms by (auto simp: same_tree_def unlocked_def relock_def lock_of_def tick_of_def modn_def getn_def leave_ticket_def fun_eq_iff)

lemma same_tree_node:
  assumes "same_tree f g" "nodes f a = Some nd"
  shows "nodes g a = Some (nd\<lparr>treelock := lock_of g a, ticket := tick_of g a\<rparr>)"
proof -
  have "map_option unlocked (nodes g a) = Some (unlocked nd)" using assms by (simp add: same_tree_def)
  then obtain md where md: "nodes g a = Some md" "unlocked md = unlocked nd" by blast
  then have "md = nd\<lparr>treelock := treelock md, ticket := ticket md\<rparr>" by (cases nd; cases md) (simp add: unlocked_def)
  then show ?thesis using md(1) by (simp add: lock_of_def tick_of_def)
qed

lemma same_tree_sym: "same_tree f g \<Longrightarrow> same_tree g f"
  by (simp add: same_tree_def)

lemma same_tree_shapes: "same_tree f g \<Longrightarrow> shapes g = shapes f"
proof
  fix a
  assume s: "same_tree f g"
  show "shapes g a = shapes f a"
  proof (cases "nodes f a")
    case None
    then have "nodes g a = None" using s unfolding same_tree_def by (metis option.map_disc_iff)
    then show ?thesis using None by (simp add: shapes_def)
  next
    case (Some nd)
    then show ?thesis using same_tree_node [OF s Some] by (simp add: shapes_def nshape_def)
  qed
qed

lemma same_tree_ok:
  assumes "same_tree f g"
  shows "tree_ok g = tree_ok f" "dom (nodes g) = dom (nodes f)" "id_table g = id_table f" "place g = place f" "at_root g = at_root f"
proof -
  note sh = same_tree_shapes [OF assms]
  have t: "id_table g = id_table f" "name_table g = name_table f" using assms by (simp_all add: same_tree_def)
  show "tree_ok g = tree_ok f" unfolding tree_ok_def ids_ok_def names_ok_def same_shapes [OF sh] up_same [OF sh] t sh ..
  show "dom (nodes g) = dom (nodes f)" using same_shapes(1) [OF sh] .
  show "place g = place f" unfolding place_def same_shapes [OF sh] ..
  have "at_root h z \<longleftrightarrow> (\<exists>s p. shapes h z = Some (FUSE_ROOT_ID, s, p))" for h z by (auto simp: at_root_def shapes_def nshape_def)
  then show "at_root g = at_root f" by (simp add: fun_eq_iff sh)
qed (use assms in \<open>simp add: same_tree_def\<close>)

lemma same_tree_segment: "same_tree f g \<Longrightarrow> segment g a xs c = segment f a xs c"
proof (induction xs arbitrary: a)
  case Nil
  then show ?case using same_tree_ok(2) [OF Nil] by (auto simp: domIff)
next
  case (Cons x xs)
  have "(\<exists>nd s p. nodes g a = Some nd \<and> nodeid nd \<noteq> FUSE_ROOT_ID \<and> name nd = Some s \<and> parent nd = Some p \<and> P p)
    \<longleftrightarrow> (\<exists>nd s p. nodes f a = Some nd \<and> nodeid nd \<noteq> FUSE_ROOT_ID \<and> name nd = Some s \<and> parent nd = Some p \<and> P p)" for P
    using same_tree_node [OF Cons.prems, of a] same_tree_node [OF same_tree_sym [OF Cons.prems], of a] by fastforce
  then show ?case using Cons.IH [OF Cons.prems] by simp
qed

section \<open>The loops\<close>

definition name_at :: "fuse \<Rightarrow> nat \<Rightarrow> string" where
  "name_at f a = (case nodes f a of None \<Rightarrow> [] | Some nd \<Rightarrow> (case name nd of None \<Rightarrow> [] | Some s \<Rightarrow> s))"

fun climb :: "fuse \<Rightarrow> nat list \<Rightarrow> string" where
  "climb f [] = []"
| "climb f (x # xs) = climb f xs @ CHR ''/'' # name_at f x"

lemma same_tree_climb: "same_tree f g \<Longrightarrow> climb g xs = climb f xs"
proof -
  assume s: "same_tree f g"
  have "name_at g x = name_at f x" for x
  proof (cases "nodes f x")
    case None
    then have "nodes g x = None" using same_tree_ok(2) [OF s] by (metis domIff)
    then show ?thesis using None by (simp add: name_at_def)
  next
    case (Some nd)
    then show ?thesis using same_tree_node [OF s Some] by (simp add: name_at_def)
  qed
  then show ?thesis by (induction xs) simp_all
qed

definition taken :: "fuse \<Rightarrow> fuse \<Rightarrow> nat list \<Rightarrow> bool" where
  "taken f f' ys \<longleftrightarrow> same_tree f f' \<and> lock_of f' = (\<lambda>x. if x \<in> set ys then lock_of f x + 1 else lock_of f x)
     \<and> tick_of f' = (\<lambda>x. if x \<in> set ys then 0 else tick_of f x)"

definition climbed :: "fuse \<Rightarrow> int \<Rightarrow> nat \<Rightarrow> nat list \<Rightarrow> nat \<Rightarrow> string \<Rightarrow> ((int \<times> nat) + pathbuf) \<Rightarrow> fuse \<Rightarrow> bool" where
  "climbed f t a xs z suffix r f' \<longleftrightarrow> (\<exists>ys zs c. xs = ys @ zs \<and> segment f a ys c \<and> segment f c zs z \<and> taken f f' ys \<and> (\<forall>x \<in> set ys. lock_of f x \<noteq> -1)
     \<and> (case r of
          Inr b \<Rightarrow> zs = [] \<and> at_root f z \<and> ptext b = climb f xs @ suffix
        | Inl (err, stop) \<Rightarrow> stop = c \<and> (err = - ENOENT \<and> zs = [] \<and> \<not> at_root f z \<or> err = - ENOMEM
            \<or> err = - EAGAIN \<and> zs \<noteq> [] \<and> (lock_of f c = -1 \<or> tick_of f c \<notin> {0, t}))))"

lemma climbed_step:
  assumes "nodes f a = Some nd" "nodeid nd \<noteq> FUSE_ROOT_ID" "name nd = Some s" "parent nd = Some p"
    and "g = relock a (lock_of f a + 1) 0 (f\<lparr>coins := cs\<rparr>)" "lock_of f a \<noteq> -1" "a \<notin> set xs"
    and "climbed g t p xs z (CHR ''/'' # s @ suffix) r f'"
  shows "climbed f t a (a # xs) z suffix r f'"
proof -
  have n1: "nodes (f\<lparr>coins := cs\<rparr>) a = Some nd" using assms(1) by simp
  note e = relock_effect(1-3) [OF n1, where l = "lock_of f a + 1" and t = 0, folded assms(5)]
  have st: "same_tree f g" using same_tree_trans [OF coins_effect(1) e(1)] .
  have lk: "lock_of g = (lock_of f)(a := lock_of f a + 1)" "tick_of g = (tick_of f)(a := 0)" using e(2,3) by simp_all
  obtain ys zs c where y: "xs = ys @ zs" "segment g p ys c" "segment g c zs z" "taken g f' ys" "\<forall>x \<in> set ys. lock_of g x \<noteq> -1"
      "case r of Inr b \<Rightarrow> zs = [] \<and> at_root g z \<and> ptext b = climb g xs @ CHR ''/'' # s @ suffix
        | Inl (err, stop) \<Rightarrow> stop = c \<and> (err = - ENOENT \<and> zs = [] \<and> \<not> at_root g z \<or> err = - ENOMEM
            \<or> err = - EAGAIN \<and> zs \<noteq> [] \<and> (lock_of g c = -1 \<or> tick_of g c \<notin> {0, t}))"
    using assms(8) unfolding climbed_def by blast
  have ay: "a \<notin> set ys" "a \<notin> set zs" using assms(7) y(1) by auto
  have "segment f a (a # ys) c" using assms(1-4) y(2) same_tree_segment [OF st] by simp
  moreover have "segment f c zs z" using y(3) same_tree_segment [OF st] by simp
  moreover have "taken f f' (a # ys)"
    using y(4) ay(1) same_tree_trans [OF st] lk unfolding taken_def by (auto simp: fun_eq_iff)
  moreover have "\<forall>x \<in> set (a # ys). lock_of f x \<noteq> -1" using y(5) assms(6) ay(1) lk(1) by (auto simp: fun_upd_def split: if_splits)
  moreover have "name_at f a = s" using assms(1,3) by (simp add: name_at_def)
  moreover have "zs \<noteq> [] \<Longrightarrow> c \<noteq> a" using y(3) ay(2) by (cases zs) auto
  ultimately show ?thesis
    using y(1,6) same_tree_ok(5) [OF st] same_tree_climb [OF st] lk unfolding climbed_def
    by (intro exI [of _ "a # ys"] exI [of _ zs] exI [of _ c]) (auto split: sum.splits)
qed

lemma climbed_stop:
  assumes "nodes f a = Some nd" "segment f a xs z" "err = - ENOMEM \<or> err = - EAGAIN \<and> xs \<noteq> [] \<and> (lock_of f a = -1 \<or> tick_of f a \<notin> {0, t})
      \<or> err = - ENOENT \<and> xs = [] \<and> \<not> at_root f z"
  shows "climbed f t a xs z suffix (Inl (err, a)) (f\<lparr>coins := cs\<rparr>)"
  using assms unfolding climbed_def by (intro exI [of _ "[]"] exI [of _ xs] exI [of _ a]) (auto simp: taken_def)

lemma path_loop_ok:
  assumes "segment f a xs z" "at_end f z" "distinct xs" "length xs < fuel" "t \<noteq> 0" "\<forall>x \<in> set xs. lock_of f x < int_max"
    and "buf_ok b" "length (climb f xs) + length (ptext b) + 2 < 2 ^ 32"
  shows "\<exists>r f'. path_loop fuel a b t f = Inr (r, f') \<and> climbed f t a xs z (ptext b) r f'"
  using assms
proof (induction xs arbitrary: f a b fuel)
  case Nil
  obtain k where k: "fuel = Suc k" using Nil.prems(4) by (cases fuel) auto
  have az: "a = z" using Nil.prems(1) by simp
  obtain nd where nd: "nodes f z = Some nd" "nodeid nd = FUSE_ROOT_ID \<or> name nd = None \<or> parent nd = None"
    using Nil.prems(2) by (auto simp: at_end_def)
  show ?case
  proof (cases "nodeid nd = FUSE_ROOT_ID")
    case True
    then have "at_root f z" using nd(1) by (auto simp: at_root_def)
    then have "climbed f t a [] z (ptext b) (Inr b) f" using az nd(1) by (simp add: climbed_def taken_def)
    moreover have "path_loop fuel a b t f = Inr (Inr b, f)" using k az nd(1) True by (simp add: getn_def)
    ultimately show ?thesis by blast
  next
    case False
    then have nr: "\<not> at_root f z" using nd(1) by (simp add: at_root_def)
    have "climbed f t a [] z (ptext b) (Inl (- ENOENT, a)) (f\<lparr>coins := coins f\<rparr>)"
      by (rule climbed_stop [of f a nd]) (use nr az nd(1) in auto)
    moreover have "path_loop fuel a b t f = Inr (Inl (- ENOENT, a), f)"
      using k az nd False by (auto simp: getn_def split: option.splits)
    ultimately show ?thesis by auto
  qed
next
  case (Cons x xs)
  obtain k where k: "fuel = Suc k" "length xs < k" using Cons.prems(4) by (cases fuel) auto
  obtain nd s p where nd: "nodes f a = Some nd" "nodeid nd \<noteq> FUSE_ROOT_ID" "name nd = Some s" "parent nd = Some p" "segment f p xs z" "x = a"
    using Cons.prems(1) by auto
  have len: "length s + length (ptext b) + 2 < 2 ^ 32" "name_at f a = s" using Cons.prems(8) nd by (auto simp: name_at_def)
  have lt: "lock_of f a = treelock nd" "tick_of f a = ticket nd" using nd(1) by (simp_all add: lock_of_def tick_of_def)
  from add_name_ok [OF Cons.prems(7) len(1), of f] show ?case
  proof
    assume "\<exists>cs. add_name s b f = Inr (None, f\<lparr>coins := cs\<rparr>)"
    then obtain cs where "add_name s b f = Inr (None, f\<lparr>coins := cs\<rparr>)" by blast
    then have "path_loop fuel a b t f = Inr (Inl (- ENOMEM, a), f\<lparr>coins := cs\<rparr>)" using k nd by (simp add: getn_def)
    then show ?thesis using climbed_stop [OF nd(1) Cons.prems(1)] by blast
  next
    assume "\<exists>b' cs. add_name s b f = Inr (Some b', f\<lparr>coins := cs\<rparr>) \<and> buf_ok b' \<and> ptext b' = CHR ''/'' # s @ ptext b"
    then obtain b' cs where b: "add_name s b f = Inr (Some b', f\<lparr>coins := cs\<rparr>)" "buf_ok b'" "ptext b' = CHR ''/'' # s @ ptext b" by blast
    show ?thesis
    proof (cases "treelock nd = -1 \<or> (ticket nd \<noteq> 0 \<and> ticket nd \<noteq> t)")
      case True
      then have "path_loop fuel a b t f = Inr (Inl (- EAGAIN, a), f\<lparr>coins := cs\<rparr>)" using k nd b(1) Cons.prems(5) by (simp add: getn_def)
      moreover have "climbed f t a (x # xs) z (ptext b) (Inl (- EAGAIN, a)) (f\<lparr>coins := cs\<rparr>)"
        by (rule climbed_stop [OF nd(1) Cons.prems(1)]) (use True lt in auto)
      ultimately show ?thesis by blast
    next
      case False
      define g where "g = relock a (lock_of f a + 1) 0 (f\<lparr>coins := cs\<rparr>)"
      have n1: "nodes (f\<lparr>coins := cs\<rparr>) a = Some nd" using nd(1) by simp
      note e = relock_effect(1-3) [OF n1, where l = "lock_of f a + 1" and t = 0, folded g_def]
      have st: "same_tree f g" using same_tree_trans [OF coins_effect(1) e(1)] .
      have xa: "a \<notin> set xs" using Cons.prems(3) nd(6) by simp
      have "modn a (\<lambda>nd. nd\<lparr>treelock := treelock nd + 1, ticket := 0\<rparr>) (f\<lparr>coins := cs\<rparr>) = Inr g"
        using relock_effect(4) [OF n1, where i = 1 and t = 0] by (simp add: g_def)
      moreover have "treelock nd \<noteq> int_max" using Cons.prems(6) nd(6) lt by auto
      ultimately have run: "path_loop fuel a b t f = path_loop k p b' t g"
        using k nd b(1) False Cons.prems(5) by (auto simp: getn_def)
      have lg: "\<forall>y \<in> set xs. lock_of g y < int_max" using Cons.prems(6) e(2) xa by (auto simp: fun_upd_def)
      have sg: "segment g p xs z" "at_end g z" "distinct xs"
      proof -
        show "segment g p xs z" using nd(5) same_tree_segment [OF st] by simp
        obtain zd where "nodes f z = Some zd" "nodeid zd = FUSE_ROOT_ID \<or> name zd = None \<or> parent zd = None"
          using Cons.prems(2) by (auto simp: at_end_def)
        then show "at_end g z" using same_tree_node [OF st] by (fastforce simp: at_end_def)
      qed (use Cons.prems(3) in simp)
      have "length (climb g xs) + length (ptext b') + 2 < 2 ^ 32" using Cons.prems(8) same_tree_climb [OF st] b(3) len(2) nd(6) by simp
      then obtain r f' where "path_loop k p b' t g = Inr (r, f')" "climbed g t p xs z (ptext b') r f'"
        using Cons.IH [OF sg k(2) Cons.prems(5) lg b(2)] by blast
      then show ?thesis using run climbed_step [OF nd(1-4) g_def _ xa, of t z "ptext b"] False lt(1) b(3) nd(6) by auto
    qed
  qed
qed

definition dropped :: "fuse \<Rightarrow> fuse \<Rightarrow> nat set \<Rightarrow> int \<Rightarrow> bool" where
  "dropped f f' Y t \<longleftrightarrow> same_tree f f' \<and> lock_of f' = (\<lambda>x. if x \<in> Y then lock_of f x - 1 else lock_of f x)
     \<and> tick_of f' = (\<lambda>x. if x \<in> Y \<and> tick_of f x = 0 then t else tick_of f x)"

lemma unlock_loop_ok:
  assumes "segment f a ys c" "distinct ys" "c \<notin> set ys" "\<forall>x \<in> set ys. 0 < lock_of f x" "length ys < fuel"
    and "stop = Some c \<or> stop = None \<and> at_root f c"
  shows "\<exists>f'. unlock_loop fuel (Some a) stop t f = Inr f' \<and> dropped f f' (set ys) t"
  using assms
proof (induction ys arbitrary: f a fuel)
  case Nil
  then have "unlock_loop fuel (Some a) stop t f = Inr f" by (cases fuel) (auto simp: at_root_def getn_def)
  then show ?case by (simp add: dropped_def)
next
  case (Cons x ys)
  obtain k where k: "fuel = Suc k" "length ys < k" using Cons.prems(5) by (cases fuel) auto
  obtain nd s p where nd: "nodes f a = Some nd" "nodeid nd \<noteq> FUSE_ROOT_ID" "name nd = Some s" "parent nd = Some p" "segment f p ys c" "x = a"
    using Cons.prems(1) by auto
  define g where "g = relock a (lock_of f a - 1) (if tick_of f a = 0 then t else tick_of f a) f"
  note e = relock_effect(1-3) [OF nd(1), where l = "lock_of f a - 1" and t = "if tick_of f a = 0 then t else tick_of f a", folded g_def]
  have a: "a \<notin> set ys" "distinct ys" "c \<notin> set ys" "c \<noteq> a" using Cons.prems(2,3) nd(6) by auto
  have "0 < treelock nd" using Cons.prems(4) nd(1,6) by (auto simp: lock_of_def)
  moreover have "Some a \<noteq> stop" using Cons.prems(6) a(4) by auto
  moreover have "modn a (\<lambda>nd. leave_ticket t (nd\<lparr>treelock := treelock nd - 1\<rparr>)) f = Inr g" using relock_effect(7) [OF nd(1)] by (simp add: g_def)
  ultimately have run: "unlock_loop fuel (Some a) stop t f = unlock_loop k (Some p) stop t g"
    using k(1) nd by (simp add: getn_def)
  have "segment g p ys c" using nd(5) same_tree_segment [OF e(1)] by simp
  moreover have "\<forall>y \<in> set ys. 0 < lock_of g y" using Cons.prems(4) e(2) a(1) by (auto simp: fun_upd_def)
  moreover have "stop = Some c \<or> stop = None \<and> at_root g c" using Cons.prems(6) same_tree_ok(5) [OF e(1)] by simp
  ultimately obtain f' where f': "unlock_loop k (Some p) stop t g = Inr f'" "dropped g f' (set ys) t"
    using Cons.IH [of g p k] a(2,3) k(2) by blast
  have "dropped f f' (set (x # ys)) t"
    using f'(2) same_tree_trans [OF e(1)] e(2,3) a(1) nd(6) unfolding dropped_def by (auto simp: fun_eq_iff)
  then show ?case using run f'(1) by simp
qed

lemma release_loop_ok:
  assumes "segment f a xs z" "distinct xs" "z \<notin> set xs" "length xs < fuel" "at_root f z \<or> tick_of f z \<noteq> t"
  shows "\<exists>f'. release_loop fuel (Some a) t f = Inr f' \<and> same_tree f f' \<and> lock_of f' = lock_of f"
  using assms
proof (induction xs arbitrary: f a fuel)
  case Nil
  then have "release_loop fuel (Some a) t f = Inr f" by (cases fuel) (auto simp: at_root_def tick_of_def getn_def)
  then show ?case by simp
next
  case (Cons x xs)
  obtain k where k: "fuel = Suc k" "length xs < k" using Cons.prems(4) by (cases fuel) auto
  obtain nd s p where nd: "nodes f a = Some nd" "nodeid nd \<noteq> FUSE_ROOT_ID" "name nd = Some s" "parent nd = Some p" "segment f p xs z" "x = a"
    using Cons.prems(1) by auto
  show ?case
  proof (cases "ticket nd = t")
    case True
    define g where "g = relock a (lock_of f a) 0 f"
    note e = relock_effect(1-3) [OF nd(1), where l = "lock_of f a" and t = 0, folded g_def]
    have "modn a (\<lambda>nd. nd\<lparr>ticket := 0\<rparr>) f = Inr g" using relock_effect(6) [OF nd(1)] by (simp add: g_def)
    then have run: "release_loop fuel (Some a) t f = release_loop k (Some p) t g" using k(1) nd True by (simp add: getn_def)
    have "segment g p xs z" using nd(5) same_tree_segment [OF e(1)] by simp
    moreover have "at_root g z \<or> tick_of g z \<noteq> t" using Cons.prems(3,5) nd(6) same_tree_ok(5) [OF e(1)] e(3) by auto
    ultimately obtain f' where "release_loop k (Some p) t g = Inr f'" "same_tree g f'" "lock_of f' = lock_of g"
      using Cons.IH [of g p k] Cons.prems(2,3) k(2) by auto
    then show ?thesis using run same_tree_trans [OF e(1)] e(2) by (auto simp: fun_eq_iff)
  next
    case False
    then have "release_loop fuel (Some a) t f = Inr f" using k(1) nd(1) by (simp add: getn_def)
    then show ?thesis by simp
  qed
qed

section \<open>Giving back\<close>

definition wnode_ok :: "fuse \<Rightarrow> nat option \<Rightarrow> bool" where
  "wnode_ok f w \<longleftrightarrow> (\<forall>v. w = Some v \<longrightarrow> v \<in> dom (nodes f))"

lemma node_found: "tree_ok f \<Longrightarrow> nodes f a = Some nd \<Longrightarrow> the_node f (nodeid nd) = Inr a"
  using ids_the_node tree_okD(1) by blast

lemma unlock_path_ok:
  assumes "tree_ok f" "nodes f a = Some nd" "segment f a ys c" "\<forall>x \<in> set ys. 0 < lock_of f x" "stop = Some c \<or> stop = None \<and> at_root f c"
    and "\<forall>v. w = Some v \<longrightarrow> v \<in> dom (nodes f) \<and> lock_of f v = -1"
  shows "\<exists>f'. unlock_path (nodeid nd) w stop t f = Inr f' \<and> same_tree f f'
    \<and> lock_of f' = (\<lambda>x. if w = Some x then 0 else if x \<in> set ys then lock_of f x - 1 else lock_of f x)
    \<and> tick_of f' = (\<lambda>x. if (w = Some x \<or> x \<in> set ys) \<and> tick_of f x = 0 then t else tick_of f x)"
proof -
  obtain g where g: "(case w of None \<Rightarrow> Inr f | Some v \<Rightarrow> bindc (getn f v) (\<lambda>nd. if treelock nd \<noteq> -1 then Inl Aborted
        else modn v (\<lambda>nd. leave_ticket t (nd\<lparr>treelock := 0\<rparr>)) f)) = Inr g" "same_tree f g"
      "lock_of g = (\<lambda>x. if w = Some x then 0 else lock_of f x)" "tick_of g = (\<lambda>x. if w = Some x \<and> tick_of f x = 0 then t else tick_of f x)"
  proof (cases w)
    case None
    show thesis by (rule that [of f]) (simp_all add: None)
  next
    case (Some v)
    then obtain vd where vd: "nodes f v = Some vd" "treelock vd = -1" using assms(6) by (auto simp: lock_of_def)
    note e = relock_effect(1-3) [OF vd(1), where l = 0 and t = "if tick_of f v = 0 then t else tick_of f v"]
    show thesis
      by (rule that [of "relock v 0 (if tick_of f v = 0 then t else tick_of f v) f"])
        (use Some vd relock_effect(8) [OF vd(1)] e in \<open>auto simp: getn_def fun_eq_iff\<close>)
  qed
  have tg: "tree_ok g" "segment g a ys c" using same_tree_ok(1) [OF g(2)] same_tree_segment [OF g(2)] assms(1,3) by simp_all
  have "nodes g a = Some (nd\<lparr>treelock := lock_of g a, ticket := tick_of g a\<rparr>)" using same_tree_node [OF g(2) assms(2)] .
  then have the: "the_node g (nodeid nd) = Inr a" using node_found [OF tg(1)] by fastforce
  have w: "w \<noteq> Some x" if "x \<in> set ys" for x using assms(4,6) that by fastforce
  have pos: "\<forall>x \<in> set ys. 0 < lock_of g x" using assms(4) g(3) w by auto
  have dc: "distinct ys" "c \<notin> set ys" using segment_distinct [OF tree_okD(3) [OF assms(1)] assms(3)] by auto
  have len: "length ys < use (id_table g) + 2" using segment_len [OF tg] by simp
  have st: "stop = Some c \<or> stop = None \<and> at_root g c" using assms(5) same_tree_ok(5) [OF g(2)] by simp
  obtain f' where f': "unlock_loop (use (id_table g) + 2) (Some a) stop t g = Inr f'" "dropped g f' (set ys) t"
    using unlock_loop_ok [OF tg(2) dc pos len st] by blast
  have "unlock_path (nodeid nd) w stop t f = Inr f'" using g(1) the f'(1) by (simp add: unlock_path_def)
  then show ?thesis using f'(2) same_tree_trans [OF g(2)] g(3,4) w unfolding dropped_def by (auto simp: fun_eq_iff)
qed

lemma release_tickets_ok:
  assumes "tree_ok f" "nodes f a = Some nd" "segment f a xs z" "at_root f z \<or> tick_of f z \<noteq> t" "wnode_ok f w" "t \<noteq> 0"
  shows "\<exists>f'. release_tickets (nodeid nd) w t f = Inr f' \<and> same_tree f f' \<and> lock_of f' = lock_of f"
proof -
  have rel: "\<exists>f'. bindc (the_node g (nodeid nd)) (\<lambda>a. release_loop (use (id_table g) + 2) (Some a) t g) = Inr f' \<and> same_tree f f' \<and> lock_of f' = lock_of f"
    if g: "same_tree f g" "lock_of g = lock_of f" "at_root g z \<or> tick_of g z \<noteq> t" for g
  proof -
    have tg: "tree_ok g" "segment g a xs z" using same_tree_ok(1) [OF g(1)] same_tree_segment [OF g(1)] assms(1,3) by simp_all
    have the: "the_node g (nodeid nd) = Inr a" using node_found [OF tg(1)] same_tree_node [OF g(1) assms(2)] by fastforce
    have dz: "distinct xs" "z \<notin> set xs" using segment_distinct [OF tree_okD(3) [OF assms(1)] assms(3)] by auto
    have len: "length xs < use (id_table g) + 2" using segment_len [OF tg] by simp
    show ?thesis using release_loop_ok [OF tg(2) dz len g(3)] the same_tree_trans [OF g(1)] g(2) by auto
  qed
  show ?thesis
  proof (cases w)
    case None
    then show ?thesis using rel [of f] assms(4) by (simp add: release_tickets_def)
  next
    case (Some v)
    then obtain vd where vd: "nodes f v = Some vd" using assms(5) by (auto simp: wnode_ok_def)
    show ?thesis
    proof (cases "ticket vd = t")
      case True
      define g where "g = relock v (lock_of f v) 0 f"
      note e = relock_effect(1-3) [OF vd, where l = "lock_of f v" and t = 0, folded g_def]
      have m: "modn v (\<lambda>nd. nd\<lparr>ticket := 0\<rparr>) f = Inr g" using relock_effect(6) [OF vd] by (simp add: g_def)
      have "at_root g z \<or> tick_of g z \<noteq> t" using assms(4,6) same_tree_ok(5) [OF e(1)] e(3) by auto
      then show ?thesis using rel [OF e(1)] e(2) Some vd True m by (simp add: release_tickets_def getn_def)
    next
      case False
      then show ?thesis using Some vd by (simp add: release_tickets_def getn_def)
    qed
  qed
qed

section \<open>Taking\<close>

lemma path_failed_ok:
  assumes "tree_ok f" "nodes f a = Some nd" "segment f a xs z" "at_root f z \<or> tick_of f z \<noteq> t" "wnode_ok f w" "t \<noteq> 0"
  shows "\<exists>f'. path_failed err (nodeid nd) w t f = Inr ((err, None, None), f') \<and> same_tree f f' \<and> lock_of f' = lock_of f"
  using release_tickets_ok [OF assms] by (cases "err = - EAGAIN") (auto simp: path_failed_def)

text \<open>The object to be changed is none of the nodes on the way, and not the end of it.\<close>

lemma write_lock_ok:
  assumes "names_ok f {}" "t \<noteq> 0"
  shows "\<exists>busy w f'. write_lock n (Some s) t f = Inr (busy, w, f') \<and> same_tree f f' \<and> (\<forall>x. \<not> place f n (Some s) x \<longrightarrow> tick_of f' x = tick_of f x)
    \<and> (if busy then w = None \<and> lock_of f' = lock_of f
       else (\<forall>v. w = Some v \<longleftrightarrow> place f n (Some s) v) \<and> (\<forall>v. w = Some v \<longrightarrow> lock_of f v = 0) \<and> lock_of f' = (\<lambda>x. if w = Some x then -1 else lock_of f x))"
proof -
  obtain r where r: "node_by_name f n s = Inr r" "\<forall>v. r = Some v \<longleftrightarrow> place f n (Some s) v"
    using node_by_name_ok [OF assms(1)] by (force simp: place_def)
  show ?thesis
  proof (cases r)
    case None
    then have "write_lock n (Some s) t f = Inr (False, None, f)" using r(1) assms(2) by (simp add: write_lock_def)
    then show ?thesis using None r(2) by (intro exI [of _ False] exI [of _ None] exI [of _ f]) simp
  next
    case (Some v)
    then have v: "place f n (Some s) v" using r(2) by blast
    then obtain vd where vd: "nodes f v = Some vd" using place_node [OF assms(1)] by blast
    have lt: "lock_of f v = treelock vd" "tick_of f v = ticket vd" using vd by (simp_all add: lock_of_def tick_of_def)
    show ?thesis
    proof (cases "treelock vd \<noteq> 0 \<or> (ticket vd \<noteq> 0 \<and> ticket vd \<noteq> t)")
      case True
      define g where "g = relock v (lock_of f v) (if tick_of f v = 0 then t else tick_of f v) f"
      note e = relock_effect(1-3) [OF vd, where l = "lock_of f v" and t = "if tick_of f v = 0 then t else tick_of f v", folded g_def]
      have "write_lock n (Some s) t f = Inr (True, None, g)"
        using Some r(1) assms(2) vd True relock_effect(9) [OF vd] by (auto simp: write_lock_def getn_def g_def)
      then show ?thesis using e v by (intro exI [of _ True] exI [of _ None] exI [of _ g]) auto
    next
      case False
      define g where "g = relock v (-1) 0 f"
      note e = relock_effect(1-3) [OF vd, where l = "-1" and t = 0, folded g_def]
      have "write_lock n (Some s) t f = Inr (False, Some v, g)"
        using Some r(1) assms(2) vd False relock_effect(5) [OF vd] by (auto simp: write_lock_def getn_def g_def)
      then show ?thesis using e v r(2) Some False lt by (intro exI [of _ False] exI [of _ "Some v"] exI [of _ g]) (auto simp: fun_eq_iff)
    qed
  qed
qed

definition full_path :: "fuse \<Rightarrow> nat list \<Rightarrow> string option \<Rightarrow> string" where
  "full_path f xs nm = (let s = climb f xs @ (case nm of None \<Rightarrow> [] | Some s \<Rightarrow> CHR ''/'' # s) in if s = [] then ''/'' else s)"

definition got_path :: "fuse \<Rightarrow> nat \<Rightarrow> nat list \<Rightarrow> string option \<Rightarrow> bool \<Rightarrow> nat option \<Rightarrow> fuse \<Rightarrow> bool" where
  "got_path f n xs nm wr w f' \<longleftrightarrow> (\<forall>v. w = Some v \<longleftrightarrow> wr \<and> place f n nm v) \<and> (\<forall>v. w = Some v \<longrightarrow> lock_of f v = 0 \<and> v \<notin> set xs)
     \<and> (\<forall>x \<in> set xs. lock_of f x \<noteq> -1)
     \<and> lock_of f' = (\<lambda>x. if w = Some x then -1 else if x \<in> set xs then lock_of f x + 1 else lock_of f x)"

definition path_outcome :: "fuse \<Rightarrow> nat \<Rightarrow> nat list \<Rightarrow> nat \<Rightarrow> string option \<Rightarrow> bool \<Rightarrow> int \<times> string option \<times> nat option \<Rightarrow> fuse \<Rightarrow> bool" where
  "path_outcome f n xs z nm wr res f' \<longleftrightarrow> same_tree f f' \<and> (case res of (err, p, w) \<Rightarrow>
       err = 0 \<and> at_root f z \<and> p = Some (full_path f xs nm) \<and> got_path f n xs nm wr w f'
     \<or> err \<in> {- ENOMEM, - EAGAIN, - ENOENT} \<and> p = None \<and> w = None \<and> lock_of f' = lock_of f \<and> (err = - ENOENT \<longrightarrow> \<not> at_root f z))"

text \<open>From the object's lock to the end of the way.\<close>

lemma walk_ok:
  assumes "tree_ok f" "nodes f a = Some nd" "segment f a xs z" "at_end f z" "t \<noteq> 0" "\<forall>x. -1 \<le> lock_of f x \<and> lock_of f x < int_max"
    and "at_root f z \<or> tick_of f z \<noteq> t" "buf_ok b" "length (climb f xs) + length (ptext b) + 2 < 2 ^ 32"
    and "\<forall>v. w = Some v \<longrightarrow> v \<in> dom (nodes f) \<and> lock_of f v = -1 \<and> v \<noteq> z"
  shows "\<exists>r f'. path_loop (use (id_table f) + 2) a b t f = Inr (r, f') \<and> (case r of
      Inr b' \<Rightarrow> at_root f z \<and> ptext b' = climb f xs @ ptext b \<and> taken f f' xs \<and> (\<forall>x \<in> set xs. lock_of f x \<noteq> -1)
    | Inl (err, stop) \<Rightarrow> err \<in> {- ENOMEM, - EAGAIN, - ENOENT} \<and> (err = - ENOENT \<longrightarrow> \<not> at_root f z)
        \<and> (\<exists>g. bindc (unlock_path (nodeid nd) w (Some stop) t f') (path_failed err (nodeid nd) w t) = Inr ((err, None, None), g)
            \<and> same_tree f g \<and> lock_of g = (\<lambda>x. if w = Some x then 0 else lock_of f x)))"
proof -
  have dz: "distinct xs" "z \<notin> set xs" using segment_distinct [OF tree_okD(3) [OF assms(1)] assms(3)] by auto
  have len: "length xs < use (id_table f) + 2" using segment_len [OF assms(1,3)] by simp
  have lt: "\<forall>x \<in> set xs. lock_of f x < int_max" using assms(6) by blast
  obtain r f' where r: "path_loop (use (id_table f) + 2) a b t f = Inr (r, f')" "climbed f t a xs z (ptext b) r f'"
    using path_loop_ok [OF assms(3,4) dz(1) len assms(5) lt assms(8,9)] by blast
  obtain ys zs c where y: "xs = ys @ zs" "segment f a ys c" "segment f c zs z" "taken f f' ys" "\<forall>x \<in> set ys. lock_of f x \<noteq> -1"
      "case r of Inr b' \<Rightarrow> zs = [] \<and> at_root f z \<and> ptext b' = climb f xs @ ptext b
        | Inl (err, stop) \<Rightarrow> stop = c \<and> (err = - ENOENT \<and> zs = [] \<and> \<not> at_root f z \<or> err = - ENOMEM
            \<or> err = - EAGAIN \<and> zs \<noteq> [] \<and> (lock_of f c = -1 \<or> tick_of f c \<notin> {0, t}))"
    using r(2) unfolding climbed_def by blast
  have tk: "same_tree f f'" "lock_of f' = (\<lambda>x. if x \<in> set ys then lock_of f x + 1 else lock_of f x)"
      "tick_of f' = (\<lambda>x. if x \<in> set ys then 0 else tick_of f x)" using y(4) unfolding taken_def by blast+
  show ?thesis
  proof (cases r)
    case (Inr b')
    then have "zs = []" "at_root f z" "ptext b' = climb f xs @ ptext b" using y(6) by auto
    then show ?thesis using r(1) Inr y(1,4,5) by (intro exI [of _ r] exI [of _ f']) simp
  next
    case (Inl e)
    obtain err stop where e: "e = (err, stop)" by (cases e)
    have es: "stop = c" "err \<in> {- ENOMEM, - EAGAIN, - ENOENT}" "err = - ENOENT \<longrightarrow> \<not> at_root f z" using y(6) Inl e by auto
    have t': "tree_ok f'" "segment f' a ys c" "segment f' a xs z"
      using same_tree_ok(1) [OF tk(1)] same_tree_segment [OF tk(1)] assms(1,3) y(2) by simp_all
    have n': "nodes f' a = Some (nd\<lparr>treelock := lock_of f' a, ticket := tick_of f' a\<rparr>)" using same_tree_node [OF tk(1) assms(2)] .
    have wy: "w \<noteq> Some x" if "x \<in> set ys" for x using that y(5) assms(10) by auto
    have pos: "\<forall>x \<in> set ys. 0 < lock_of f' x"
    proof
      fix x
      assume x: "x \<in> set ys"
      then show "0 < lock_of f' x" using tk(2) y(5) assms(6) [rule_format, of x] by auto
    qed
    have w': "\<forall>v. w = Some v \<longrightarrow> v \<in> dom (nodes f') \<and> lock_of f' v = -1"
      using assms(10) tk(2) wy same_tree_ok(2) [OF tk(1)] by auto
    obtain h where h: "unlock_path (nodeid nd) w (Some c) t f' = Inr h" "same_tree f' h"
        "lock_of h = (\<lambda>x. if w = Some x then 0 else if x \<in> set ys then lock_of f' x - 1 else lock_of f' x)"
        "tick_of h = (\<lambda>x. if (w = Some x \<or> x \<in> set ys) \<and> tick_of f' x = 0 then t else tick_of f' x)"
      using unlock_path_ok [OF t'(1) n' t'(2) pos _ w', of "Some c" t] by auto
    have st: "same_tree f h" using same_tree_trans [OF tk(1) h(2)] .
    have th: "tree_ok h" "segment h a xs z" using same_tree_ok(1) [OF st] same_tree_segment [OF st] assms(1,3) by simp_all
    have zy: "z \<notin> set ys" "w \<noteq> Some z" using dz(2) y(1) assms(10) by auto
    have clear: "at_root h z \<or> tick_of h z \<noteq> t" using assms(7) same_tree_ok(5) [OF st] h(4) tk(3) zy by auto
    have wh: "wnode_ok h w" using assms(10) same_tree_ok(2) [OF st] by (auto simp: wnode_ok_def)
    have nh: "nodes h a = Some (nd\<lparr>treelock := lock_of h a, ticket := tick_of h a\<rparr>)" using same_tree_node [OF st assms(2)] .
    obtain g where g: "path_failed err (nodeid nd) w t h = Inr ((err, None, None), g)" "same_tree h g" "lock_of g = lock_of h"
      using path_failed_ok [OF th(1) nh th(2) clear wh assms(5)] by auto
    have "lock_of g = (\<lambda>x. if w = Some x then 0 else lock_of f x)" using g(3) h(3) tk(2) by (auto simp: fun_eq_iff)
    then show ?thesis using r(1) Inl e es h(1) g(1) same_tree_trans [OF st g(2)] by (intro exI [of _ r] exI [of _ f']) simp
  qed
qed

definition suffix_of :: "string option \<Rightarrow> string" where
  "suffix_of nm = (case nm of None \<Rightarrow> [] | Some s \<Rightarrow> CHR ''/'' # s)"

lemma end_not_named: "names_ok f {} \<Longrightarrow> place f n (Some s) v \<Longrightarrow> at_end f z \<Longrightarrow> v \<noteq> z"
  using place_node [of f n s v] by (auto simp: at_end_def)

lemma first_name_ok:
  assumes "case nm of None \<Rightarrow> True | Some s \<Rightarrow> length s + 2 < 2 ^ 32"
  shows "\<exists>r cs. (case nm of None \<Rightarrow> Inr (Some \<lparr>bufsize = 256, ptext = []\<rparr>, f) | Some s \<Rightarrow> add_name s \<lparr>bufsize = 256, ptext = []\<rparr> f) = Inr (r, f\<lparr>coins := cs\<rparr>)
    \<and> (case r of None \<Rightarrow> True | Some b \<Rightarrow> buf_ok b \<and> ptext b = suffix_of nm)"
proof (cases nm)
  case None
  have "f = f\<lparr>coins := coins f\<rparr>" by simp
  then show ?thesis using None by (intro exI [of _ "Some \<lparr>bufsize = 256, ptext = []\<rparr>"] exI [of _ "coins f"]) (simp add: buf_ok_def suffix_of_def)
next
  case (Some s)
  have "buf_ok \<lparr>bufsize = 256, ptext = []\<rparr>" by (simp add: buf_ok_def)
  then show ?thesis using Some assms add_name_ok [of "\<lparr>bufsize = 256, ptext = []\<rparr>" s f] by (fastforce simp: suffix_of_def)
qed

text \<open>With the lock on the object, if it is wanted.\<close>

lemma locked_walk_ok:
  assumes "tree_ok f" "nodes f a = Some nd" "segment f a xs z" "at_end f z" "t \<noteq> 0" "\<forall>x. -1 \<le> lock_of f x \<and> lock_of f x < int_max"
    and "at_root f z \<or> tick_of f z \<noteq> t" "buf_ok b" "ptext b = suffix_of nm" "length (climb f xs) + length (ptext b) + 2 < 2 ^ 32" "wr \<longrightarrow> nm \<noteq> None"
  shows "\<exists>res f'. bindc (if wr then write_lock (nodeid nd) nm t f else Inr (False, None, f)) (\<lambda>(busy, wnode, f).
            if busy then path_failed (- EAGAIN) (nodeid nd) wnode t f
            else bindc (the_node f (nodeid nd)) (\<lambda>a.
              bindc (path_loop (use (id_table f) + 2) a b t f) (\<lambda>(res, f).
              case res of
                Inl (err, stop) \<Rightarrow> bindc (if t \<noteq> 0 then unlock_path (nodeid nd) wnode (Some stop) t f else Inr f) (path_failed err (nodeid nd) wnode t)
              | Inr b \<Rightarrow> Inr ((0, Some (if ptext b \<noteq> [] then ptext b else ''/''), wnode), f)))) = Inr (res, f')
    \<and> path_outcome f (nodeid nd) xs z nm wr res f'"
proof -
  obtain busy w g where g: "(if wr then write_lock (nodeid nd) nm t f else Inr (False, None, f)) = Inr (busy, w, g)" "same_tree f g"
      "at_root f z \<or> tick_of g z \<noteq> t" "busy \<longrightarrow> w = None \<and> lock_of g = lock_of f"
      "\<not> busy \<longrightarrow> (\<forall>v. w = Some v \<longleftrightarrow> wr \<and> place f (nodeid nd) nm v) \<and> (\<forall>v. w = Some v \<longrightarrow> lock_of f v = 0) \<and> lock_of g = (\<lambda>x. if w = Some x then -1 else lock_of f x)"
  proof (cases wr)
    case True
    then obtain s where s: "nm = Some s" using assms(11) by auto
    have "\<not> place f (nodeid nd) (Some s) z" using end_not_named [OF tree_okD(2) [OF assms(1)] _ assms(4)] by blast
    then show thesis using that True s assms(7) write_lock_ok [OF tree_okD(2) [OF assms(1)] assms(5), of "nodeid nd" s] by (auto split: if_splits)
  next
    case False
    show thesis by (rule that [of False None f]) (use False assms(7) in auto)
  qed
  have tg: "tree_ok g" "segment g a xs z" using same_tree_ok(1) [OF g(2)] same_tree_segment [OF g(2)] assms(1,3) by simp_all
  obtain md where ng: "nodes g a = Some md" and id: "nodeid md = nodeid nd" using same_tree_node [OF g(2) assms(2)] by auto
  have clear: "at_root g z \<or> tick_of g z \<noteq> t" using g(3) same_tree_ok(5) [OF g(2)] by simp
  show ?thesis
  proof (cases busy)
    case True
    have wn: "wnode_ok g w" using True g(4) by (simp add: wnode_ok_def)
    obtain f' where "path_failed (- EAGAIN) (nodeid nd) w t g = Inr ((- EAGAIN, None, None), f')" "same_tree g f'" "lock_of f' = lock_of g"
      using path_failed_ok [OF tg(1) ng tg(2) clear wn assms(5)] id by auto
    then show ?thesis using True g(1,4) same_tree_trans [OF g(2)]
      by (intro exI [of _ "(- EAGAIN, None, None)"] exI [of _ f']) (simp add: path_outcome_def)
  next
    case False
    note w = g(5) [rule_format, OF False]
    have the: "the_node g (nodeid nd) = Inr a" using node_found [OF tg(1) ng] id by simp
    have eg: "at_end g z"
    proof -
      obtain zd where "nodes f z = Some zd" "nodeid zd = FUSE_ROOT_ID \<or> name zd = None \<or> parent zd = None" using assms(4) by (auto simp: at_end_def)
      then show ?thesis using same_tree_node [OF g(2)] by (fastforce simp: at_end_def)
    qed
    have lg: "\<forall>x. -1 \<le> lock_of g x \<and> lock_of g x < int_max" using assms(6) w by (auto simp: int_max_def)
    have cg: "length (climb g xs) + length (ptext b) + 2 < 2 ^ 32" using assms(10) same_tree_climb [OF g(2)] by simp
    have wz: "\<forall>v. w = Some v \<longrightarrow> v \<in> dom (nodes g) \<and> lock_of g v = -1 \<and> v \<noteq> z"
    proof (intro allI impI)
      fix v
      assume v: "w = Some v"
      then obtain s where s: "nm = Some s" "place f (nodeid nd) (Some s) v" using w assms(11) by auto
      then show "v \<in> dom (nodes g) \<and> lock_of g v = -1 \<and> v \<noteq> z"
        using v w place_node [OF tree_okD(2) [OF assms(1)] s(2)] end_not_named [OF tree_okD(2) [OF assms(1)] s(2) assms(4)] same_tree_ok(2) [OF g(2)] by auto
    qed
    obtain r h where r: "path_loop (use (id_table g) + 2) a b t g = Inr (r, h)" "case r of
        Inr b' \<Rightarrow> at_root g z \<and> ptext b' = climb g xs @ ptext b \<and> taken g h xs \<and> (\<forall>x \<in> set xs. lock_of g x \<noteq> -1)
      | Inl (err, stop) \<Rightarrow> err \<in> {- ENOMEM, - EAGAIN, - ENOENT} \<and> (err = - ENOENT \<longrightarrow> \<not> at_root g z)
          \<and> (\<exists>g'. bindc (unlock_path (nodeid nd) w (Some stop) t h) (path_failed err (nodeid nd) w t) = Inr ((err, None, None), g')
            \<and> same_tree g g' \<and> lock_of g' = (\<lambda>x. if w = Some x then 0 else lock_of g x))"
      using walk_ok [OF tg(1) ng tg(2) eg assms(5) lg clear assms(8) cg wz] unfolding id by (elim exE conjE) (rule that)
    show ?thesis
    proof (cases r)
      case (Inl e)
      obtain err stop where e: "e = (err, stop)" by (cases e)
      obtain g' where g': "err \<in> {- ENOMEM, - EAGAIN, - ENOENT}" "err = - ENOENT \<longrightarrow> \<not> at_root g z"
          "bindc (unlock_path (nodeid nd) w (Some stop) t h) (path_failed err (nodeid nd) w t) = Inr ((err, None, None), g')" "same_tree g g'"
          "lock_of g' = (\<lambda>x. if w = Some x then 0 else lock_of g x)"
        using r(2) Inl e by auto
      have "lock_of g' = lock_of f" using g'(5) w by (auto simp: fun_eq_iff)
      then show ?thesis using g(1) False the r(1) Inl e g' assms(5) same_tree_trans [OF g(2) g'(4)] same_tree_ok(5) [OF g(2)]
        by (intro exI [of _ "(err, None, None)"] exI [of _ g']) (simp add: path_outcome_def)
    next
      case (Inr b')
      then have b': "at_root f z" "ptext b' = climb f xs @ suffix_of nm" "taken g h xs" "\<forall>x \<in> set xs. lock_of g x \<noteq> -1"
        using r(2) same_tree_ok(5) [OF g(2)] same_tree_climb [OF g(2)] assms(9) by auto
      have nx: "v \<notin> set xs" if "w = Some v" for v using that b'(4) w by auto
      have fx: "lock_of f x \<noteq> -1" if x: "x \<in> set xs" for x
      proof -
        have "w \<noteq> Some x" using nx x by blast
        then have "lock_of g x = lock_of f x" using w by simp
        then show ?thesis using b'(4) x by metis
      qed
      have "lock_of h = (\<lambda>x. if w = Some x then -1 else if x \<in> set xs then lock_of f x + 1 else lock_of f x)"
        using b'(3) w nx unfolding taken_def by (intro ext) auto
      then have "got_path f (nodeid nd) xs nm wr w h" using w nx fx unfolding got_path_def by blast
      moreover have "same_tree f h" using same_tree_trans [OF g(2)] b'(3) by (simp add: taken_def)
      moreover have "(if ptext b' \<noteq> [] then ptext b' else ''/'') = full_path f xs nm"
        using b'(2) by (auto simp: full_path_def suffix_of_def Let_def)
      ultimately show ?thesis using g(1) False the r(1) Inr b'(1)
        by (intro exI [of _ "(0, Some (full_path f xs nm), w)"] exI [of _ h]) (simp add: path_outcome_def)
    qed
  qed
qed

lemma try_get_path_ok:
  assumes "tree_ok f" "nodes f a = Some nd" "segment f a xs z" "at_end f z" "t \<noteq> 0" "\<forall>x. -1 \<le> lock_of f x \<and> lock_of f x < int_max"
    and "at_root f z \<or> tick_of f z \<noteq> t" "length (climb f xs) + length (suffix_of nm) + 2 < 2 ^ 32" "wr \<longrightarrow> nm \<noteq> None"
  shows "\<exists>res f'. try_get_path (nodeid nd) nm wr t f = Inr (res, f') \<and> path_outcome f (nodeid nd) xs z nm wr res f'"
proof -
  have same: "path_outcome (f\<lparr>coins := cs\<rparr>) n xs z nm wr res f' = path_outcome f n xs z nm wr res f'" for cs n res f'
  proof -
    have s: "same_tree f (f\<lparr>coins := cs\<rparr>)" by simp
    have st: "same_tree (f\<lparr>coins := cs\<rparr>) f' = same_tree f f'" using same_tree_trans [OF s] same_tree_trans [OF same_tree_sym [OF s]] by blast
    show ?thesis unfolding path_outcome_def got_path_def full_path_def same_tree_ok(4,5) [OF s] same_tree_climb [OF s] coins_effect(2) st ..
  qed
  have cl: "tree_ok (f\<lparr>coins := cs\<rparr>)" "nodes (f\<lparr>coins := cs\<rparr>) a = Some nd" "segment (f\<lparr>coins := cs\<rparr>) a xs z" "at_end (f\<lparr>coins := cs\<rparr>) z"
      "\<forall>x. -1 \<le> lock_of (f\<lparr>coins := cs\<rparr>) x \<and> lock_of (f\<lparr>coins := cs\<rparr>) x < int_max" "at_root (f\<lparr>coins := cs\<rparr>) z \<or> tick_of (f\<lparr>coins := cs\<rparr>) z \<noteq> t"
      "climb (f\<lparr>coins := cs\<rparr>) xs = climb f xs" for cs
    using assms(1-4,6,7) same_tree_ok(1,5) [OF coins_effect(1) [of f cs]] same_tree_segment [OF coins_effect(1) [of f cs]]
      same_tree_climb [OF coins_effect(1) [of f cs]] by (simp_all add: at_end_def)
  have fail: "\<exists>res f'. path_failed (- ENOMEM) (nodeid nd) None t (f\<lparr>coins := cs\<rparr>) = Inr (res, f') \<and> path_outcome f (nodeid nd) xs z nm wr res f'" for cs
  proof -
    have "wnode_ok (f\<lparr>coins := cs\<rparr>) None" by (simp add: wnode_ok_def)
    then obtain f' where "path_failed (- ENOMEM) (nodeid nd) None t (f\<lparr>coins := cs\<rparr>) = Inr ((- ENOMEM, None, None), f')" "same_tree (f\<lparr>coins := cs\<rparr>) f'" "lock_of f' = lock_of f"
      using path_failed_ok [OF cl(1-3,6) _ assms(5)] by fastforce
    then show ?thesis using same_tree_trans [OF coins_effect(1)] by (intro exI [of _ "(- ENOMEM, None, None)"] exI [of _ f']) (auto simp: path_outcome_def)
  qed
  obtain ok cs where c: "coin f = (ok, f\<lparr>coins := cs\<rparr>)" using coin_eq by blast
  show ?thesis
  proof (cases ok)
    case False
    then show ?thesis using c fail by (simp add: try_get_path_def)
  next
    case True
    have "case nm of None \<Rightarrow> True | Some s \<Rightarrow> length s + 2 < 2 ^ 32" using assms(8) by (auto simp: suffix_of_def split: option.splits)
    then obtain r cs' where r: "(case nm of None \<Rightarrow> Inr (Some \<lparr>bufsize = 256, ptext = []\<rparr>, f\<lparr>coins := cs\<rparr>) | Some s \<Rightarrow> add_name s \<lparr>bufsize = 256, ptext = []\<rparr> (f\<lparr>coins := cs\<rparr>))
        = Inr (r, f\<lparr>coins := cs'\<rparr>)" "case r of None \<Rightarrow> True | Some b \<Rightarrow> buf_ok b \<and> ptext b = suffix_of nm"
      using first_name_ok [of nm "f\<lparr>coins := cs\<rparr>"] by auto
    show ?thesis
    proof (cases r)
      case None
      then show ?thesis using c True r(1) fail by (simp add: try_get_path_def)
    next
      case (Some b)
      then have b: "buf_ok b" "ptext b = suffix_of nm" using r(2) by auto
      have lb: "length (climb (f\<lparr>coins := cs'\<rparr>) xs) + length (ptext b) + 2 < 2 ^ 32" using assms(8) b(2) cl(7) by simp
      show ?thesis using locked_walk_ok [OF cl(1-4) assms(5) cl(5,6) b lb assms(9)] c True r(1) Some same
        unfolding try_get_path_def by simp
    qed
  qed
qed

end
