(* ===== verification/Fuse_Holders.thy ===== *)
theory Fuse_Holders
  imports Fuse_Path_Locks Fuse_Lifetime
begin

text \<open>
  Paths from the outside: what a caller gets and gives back, and what any number of callers can hold at the same
  time while the tree does not change.
\<close>

lemma tidy_tree: "tidy f \<Longrightarrow> tree_ok f"
  by (simp add: tidy_def tree_ok_def sane_def)

section \<open>One path\<close>

text \<open>
  (C27) A path is taken whole or not at all. For every node, with the nodes \<open>xs\<close> above it up to \<open>z\<close>,
  \<open>try_get_path\<close> is defined and keeps the tree. It succeeds only below the root, with the text that the names give and the
  object to be changed locked for writing, which nobody had locked before; every other outcome is out of memory, a
  lock or ticket in the way or a removed ancestor, and leaves all locks as they were. Giving a taken path back, as
  \<open>free_path_wrlock\<close> does, is defined and restores all locks.
\<close>

theorem path_taken_and_given_back:
  assumes "tree_ok f" "nodes f a = Some nd" "segment f a xs z" "at_end f z" "t \<noteq> 0" "\<forall>x. -1 \<le> lock_of f x \<and> lock_of f x < int_max"
    and "at_root f z \<or> tick_of f z \<noteq> t" "length (climb f xs) + length (suffix_of nm) + 2 < 2 ^ 32" "wr \<longrightarrow> nm \<noteq> None"
  shows "\<exists>err p w f'. try_get_path (nodeid nd) nm wr t f = Inr ((err, p, w), f') \<and> same_tree f f'
    \<and> (if err = 0
       then at_root f z \<and> p = Some (full_path f xs nm) \<and> (\<forall>v. w = Some v \<longleftrightarrow> wr \<and> place f (nodeid nd) nm v) \<and> (\<forall>v. w = Some v \<longrightarrow> lock_of f v = 0 \<and> lock_of f' v = -1)
         \<and> (\<exists>q g. free_path_wrlock (nodeid nd) w f' = Inr (q, g) \<and> same_tree f g \<and> lock_of g = lock_of f)
       else err \<in> {- ENOMEM, - EAGAIN, - ENOENT} \<and> p = None \<and> lock_of f' = lock_of f \<and> (err = - ENOENT \<longrightarrow> \<not> at_root f z))"
proof -
  obtain err p w f' where r: "try_get_path (nodeid nd) nm wr t f = Inr ((err, p, w), f')" "path_outcome f (nodeid nd) xs z nm wr (err, p, w) f'"
    using try_get_path_ok [OF assms] by (metis prod_cases3)
  have st: "same_tree f f'" using r(2) by (simp add: path_outcome_def)
  show ?thesis
  proof (cases "err = 0")
    case False
    then show ?thesis using r by (auto simp: path_outcome_def)
  next
    case True
    then have g: "at_root f z" "p = Some (full_path f xs nm)" "got_path f (nodeid nd) xs nm wr w f'" using r(2) by (auto simp: path_outcome_def)
    note G = g(3) [unfolded got_path_def]
    have t': "tree_ok f'" "segment f' a xs z" "at_root f' z" using same_tree_ok(1,5) [OF st] same_tree_segment [OF st] assms(1,3) g(1) by simp_all
    obtain md where md: "nodes f' a = Some md" "nodeid md = nodeid nd" using same_tree_node [OF st assms(2)] by auto
    have pos: "\<forall>x \<in> set xs. 0 < lock_of f' x"
    proof
      fix x
      assume x: "x \<in> set xs"
      then have "w \<noteq> Some x" "lock_of f x \<noteq> -1" using G by blast+
      moreover from this have "lock_of f' x = lock_of f x + 1" using G x by simp
      ultimately show "0 < lock_of f' x" using assms(6) [rule_format, of x] by linarith
    qed
    have w': "\<forall>v. w = Some v \<longrightarrow> v \<in> dom (nodes f') \<and> lock_of f' v = -1"
    proof (intro allI impI)
      fix v
      assume v: "w = Some v"
      then obtain s where "nm = Some s" "place f (nodeid nd) (Some s) v" using G assms(9) by auto
      then show "v \<in> dom (nodes f') \<and> lock_of f' v = -1"
        using v G place_node [OF tree_okD(2) [OF assms(1)]] same_tree_ok(2) [OF st] by fastforce
    qed
    obtain h where h: "unlock_path (nodeid nd) w None 0 f' = Inr h" "same_tree f' h"
        "lock_of h = (\<lambda>x. if w = Some x then 0 else if x \<in> set xs then lock_of f' x - 1 else lock_of f' x)"
      using unlock_path_ok [OF t'(1) md(1) t'(2) pos _ w', of None 0] t'(3) md(2) by auto
    have "lock_of h x = lock_of f x" for x using h(3) G by (cases "w = Some x") auto
    then have "lock_of h = lock_of f" by (rule ext)
    then have "free_path_wrlock (nodeid nd) w f' = Inr (wake_up_first h, h) \<and> same_tree f h \<and> lock_of h = lock_of f"
      using h(1) same_tree_trans [OF st h(2)] by (simp add: free_path_wrlock_def)
    moreover have "(\<forall>v. w = Some v \<longleftrightarrow> wr \<and> place f (nodeid nd) nm v) \<and> (\<forall>v. w = Some v \<longrightarrow> lock_of f v = 0 \<and> lock_of f' v = -1)" using G w' by blast
    ultimately show ?thesis using r(1) st True g(1,2) by (intro exI [of _ err] exI [of _ p] exI [of _ w] exI [of _ f']) auto
  qed
qed

section \<open>Many paths\<close>

text \<open>A holder: the node that it asked for, the nodes above it that it locked, and the object that it may change.\<close>

type_synonym holder = "nat \<times> nat list \<times> nat option"

definition readers :: "holder list \<Rightarrow> nat \<Rightarrow> nat" where
  "readers hs x = length (filter (\<lambda>(a, xs, w). x \<in> set xs) hs)"

definition writers :: "holder list \<Rightarrow> nat \<Rightarrow> nat" where
  "writers hs x = length (filter (\<lambda>(a, xs, w). w = Some x) hs)"

inductive lock_reach :: "fuse \<Rightarrow> holder list \<Rightarrow> bool" where
  idle: "tree_ok f \<Longrightarrow> lock_of f = (\<lambda>_. 0) \<Longrightarrow> lock_reach f []"
| take: "lock_reach f hs \<Longrightarrow> int (length hs) < int_max \<Longrightarrow> nodes f a = Some nd \<Longrightarrow> segment f a xs z \<Longrightarrow> at_end f z \<Longrightarrow> t \<noteq> 0 \<Longrightarrow>
     at_root f z \<or> tick_of f z \<noteq> t \<Longrightarrow> length (climb f xs) + length (suffix_of nm) + 2 < 2 ^ 32 \<Longrightarrow> wr \<longrightarrow> nm \<noteq> None \<Longrightarrow>
     try_get_path (nodeid nd) nm wr t f = Inr ((err, p, w), f') \<Longrightarrow> lock_reach f' (if err = 0 then (a, xs, w) # hs else hs)"
| give: "lock_reach f hs \<Longrightarrow> (a, xs, w) \<in> set hs \<Longrightarrow> nodes f a = Some nd \<Longrightarrow> free_path_wrlock (nodeid nd) w f = Inr (q, f') \<Longrightarrow>
     lock_reach f' (remove1 (a, xs, w) hs)"

definition counts_ok :: "holder list \<Rightarrow> (nat \<Rightarrow> int) \<Rightarrow> bool" where
  "counts_ok hs l \<longleftrightarrow> (\<forall>x. writers hs x \<le> 1 \<and> (0 < writers hs x \<longrightarrow> readers hs x = 0) \<and> l x = (if 0 < writers hs x then -1 else int (readers hs x)))"

definition lock_inv :: "fuse \<Rightarrow> holder list \<Rightarrow> bool" where
  "lock_inv f hs \<longleftrightarrow> tree_ok f \<and> counts_ok hs (lock_of f)
     \<and> (\<forall>a xs w. (a, xs, w) \<in> set hs \<longrightarrow> (\<exists>z. segment f a xs z \<and> at_root f z) \<and> (\<forall>v. w = Some v \<longrightarrow> v \<in> dom (nodes f)))"

lemma filter_out: "h \<in> set hs \<Longrightarrow> length (filter P hs) = length (filter P (remove1 h hs)) + (if P h then 1 else 0)"
  by (induction hs) auto

lemma readers_out: "(a, xs, w) \<in> set hs \<Longrightarrow> readers hs x = readers (remove1 (a, xs, w) hs) x + (if x \<in> set xs then 1 else 0)"
  using filter_out [of "(a, xs, w)" hs "\<lambda>(a, xs, w). x \<in> set xs"] by (simp add: readers_def)

lemma writers_out: "(a, xs, w) \<in> set hs \<Longrightarrow> writers hs x = writers (remove1 (a, xs, w) hs) x + (if w = Some x then 1 else 0)"
  using filter_out [of "(a, xs, w)" hs "\<lambda>(a, xs, w). w = Some x"] by (simp add: writers_def)

lemma counts_take:
  assumes "counts_ok hs l" "\<forall>v. w = Some v \<longrightarrow> l v = 0 \<and> v \<notin> set xs" "\<forall>x \<in> set xs. l x \<noteq> -1"
  shows "counts_ok ((a, xs, w) # hs) (\<lambda>x. if w = Some x then -1 else if x \<in> set xs then l x + 1 else l x)"
proof -
  have "writers ((a, xs, w) # hs) x \<le> 1 \<and> (0 < writers ((a, xs, w) # hs) x \<longrightarrow> readers ((a, xs, w) # hs) x = 0)
    \<and> (if w = Some x then -1 else if x \<in> set xs then l x + 1 else l x)
      = (if 0 < writers ((a, xs, w) # hs) x then -1 else int (readers ((a, xs, w) # hs) x))" for x
  proof -
    have c: "writers ((a, xs, w) # hs) x = writers hs x + (if w = Some x then 1 else 0)"
        "readers ((a, xs, w) # hs) x = readers hs x + (if x \<in> set xs then 1 else 0)" by (simp_all add: writers_def readers_def)
    have l: "writers hs x \<le> 1" "0 < writers hs x \<longrightarrow> readers hs x = 0" "l x = (if 0 < writers hs x then -1 else int (readers hs x))"
      using assms(1) by (simp_all add: counts_ok_def)
    show ?thesis
    proof (cases "w = Some x")
      case True
      then have "l x = 0" "x \<notin> set xs" using assms(2) by auto
      then show ?thesis using c l True by (auto split: if_splits)
    next
      case False
      then show ?thesis using c l assms(3) by (auto split: if_splits)
    qed
  qed
  then show ?thesis unfolding counts_ok_def by blast
qed

lemma counts_give:
  assumes "counts_ok hs l" "(a, xs, w) \<in> set hs"
  shows "counts_ok (remove1 (a, xs, w) hs) (\<lambda>x. if w = Some x then 0 else if x \<in> set xs then l x - 1 else l x)"
proof -
  have "writers (remove1 (a, xs, w) hs) x \<le> 1 \<and> (0 < writers (remove1 (a, xs, w) hs) x \<longrightarrow> readers (remove1 (a, xs, w) hs) x = 0)
    \<and> (if w = Some x then 0 else if x \<in> set xs then l x - 1 else l x)
      = (if 0 < writers (remove1 (a, xs, w) hs) x then -1 else int (readers (remove1 (a, xs, w) hs) x))" for x
  proof -
    have l: "writers hs x \<le> 1" "0 < writers hs x \<longrightarrow> readers hs x = 0" "l x = (if 0 < writers hs x then -1 else int (readers hs x))"
      using assms(1) by (simp_all add: counts_ok_def)
    show ?thesis using l readers_out [OF assms(2), of x] writers_out [OF assms(2), of x] by (auto split: if_splits)
  qed
  then show ?thesis unfolding counts_ok_def by blast
qed

lemma counts_bounds: "counts_ok hs l \<Longrightarrow> -1 \<le> l x \<and> l x \<le> int (length hs)"
proof -
  assume "counts_ok hs l"
  then have "l x = (if 0 < writers hs x then -1 else int (readers hs x))" by (simp add: counts_ok_def)
  moreover have "readers hs x \<le> length hs" by (simp add: readers_def)
  ultimately show ?thesis by (auto split: if_splits)
qed

lemma holders_same:
  assumes "same_tree f f'"
  shows "(\<exists>z. segment f' a xs z \<and> at_root f' z) = (\<exists>z. segment f a xs z \<and> at_root f z)" "dom (nodes f') = dom (nodes f)" "tree_ok f' = tree_ok f"
  using same_tree_ok [OF assms] same_tree_segment [OF assms] by simp_all

lemma lock_inv_give:
  assumes "lock_inv f hs" "(a, xs, w) \<in> set hs" "nodes f a = Some nd"
  shows "\<exists>q f'. free_path_wrlock (nodeid nd) w f = Inr (q, f') \<and> lock_inv f' (remove1 (a, xs, w) hs)"
proof -
  note I = assms(1) [unfolded lock_inv_def]
  obtain z where z: "segment f a xs z" "at_root f z" using I assms(2) by blast
  have c: "counts_ok hs (lock_of f)" using I by blast
  have cx: "writers hs x \<le> 1" "0 < writers hs x \<longrightarrow> readers hs x = 0" "lock_of f x = (if 0 < writers hs x then -1 else int (readers hs x))" for x
    using c by (simp_all add: counts_ok_def)
  have pos: "\<forall>x \<in> set xs. 0 < lock_of f x"
  proof
    fix x
    assume "x \<in> set xs"
    then have "0 < readers hs x" using readers_out [OF assms(2), of x] by simp
    then show "0 < lock_of f x" using cx [of x] by auto
  qed
  have w: "\<forall>v. w = Some v \<longrightarrow> v \<in> dom (nodes f) \<and> lock_of f v = -1"
  proof (intro allI impI)
    fix v
    assume v: "w = Some v"
    then have "0 < writers hs v" using writers_out [OF assms(2), of v] by simp
    then show "v \<in> dom (nodes f) \<and> lock_of f v = -1" using cx [of v] I assms(2) v by auto
  qed
  obtain f' where f': "unlock_path (nodeid nd) w None 0 f = Inr f'" "same_tree f f'"
      "lock_of f' = (\<lambda>x. if w = Some x then 0 else if x \<in> set xs then lock_of f x - 1 else lock_of f x)"
    using unlock_path_ok [OF _ assms(3) z(1) pos _ w, of None 0] I z(2) by auto
  have "counts_ok (remove1 (a, xs, w) hs) (lock_of f')" using counts_give [OF c assms(2)] f'(3) by simp
  then have "lock_inv f' (remove1 (a, xs, w) hs)"
    using I set_remove1_subset [of "(a, xs, w)" hs] unfolding lock_inv_def holders_same [OF f'(2)] by blast
  then show ?thesis using f'(1) by (simp add: free_path_wrlock_def)
qed

lemma lock_reach_inv: "lock_reach f hs \<Longrightarrow> lock_inv f hs"
proof (induction rule: lock_reach.induct)
  case (idle f)
  then show ?case by (simp add: lock_inv_def counts_ok_def readers_def writers_def)
next
  case (take f hs a nd xs z t nm wr err p w f')
  note I = take.IH [unfolded lock_inv_def]
  have c: "counts_ok hs (lock_of f)" using I by blast
  have b: "\<forall>x. -1 \<le> lock_of f x \<and> lock_of f x < int_max" using counts_bounds [OF c] take.hyps(2) by (meson le_less_trans)
  have "path_outcome f (nodeid nd) xs z nm wr (err, p, w) f'"
    using try_get_path_ok [OF _ take.hyps(3-6) b take.hyps(7-9)] I take.hyps(10) by auto
  then have o: "same_tree f f'" "err = 0 \<and> at_root f z \<and> got_path f (nodeid nd) xs nm wr w f' \<or> err \<noteq> 0 \<and> lock_of f' = lock_of f"
    by (auto simp: path_outcome_def)
  note H = holders_same [OF o(1)]
  show ?case
  proof (cases "err = 0")
    case True
    then have g: "at_root f z" "got_path f (nodeid nd) xs nm wr w f'" using o(2) by auto
    note G = g(2) [unfolded got_path_def]
    have "counts_ok ((a, xs, w) # hs) (lock_of f')" using counts_take [OF c, of w xs a] G by simp
    moreover have "v \<in> dom (nodes f)" if "w = Some v" for v
    proof -
      have "place f (nodeid nd) nm v" "wr" using G that by auto
      then show ?thesis using place_node [OF tree_okD(2)] I take.hyps(9) by blast
    qed
    moreover have "\<exists>z. segment f a xs z \<and> at_root f z" using take.hyps(4) g(1) by blast
    ultimately show ?thesis using True I H unfolding lock_inv_def by auto
  next
    case False
    then show ?thesis using o(2) I H unfolding lock_inv_def by auto
  qed
next
  case (give f hs a xs w nd q f')
  then show ?case using lock_inv_give [OF give.IH give.hyps(2,3)] by auto
qed

text \<open>
  (C28) Locks on paths exclude each other. However many callers take and give back paths, in any order, as long as the tree
  does not change: an object held for writing is held by one caller and is on no path that another one holds; the
  lock of each node is \<open>-1\<close> for a writer and otherwise the number of callers below it; and every holder can give its
  path back without a failed assertion.
\<close>

theorem path_locks_exclusive:
  assumes "lock_reach f hs"
  shows "(\<forall>x. writers hs x \<le> 1 \<and> (0 < writers hs x \<longrightarrow> readers hs x = 0) \<and> lock_of f x = (if 0 < writers hs x then -1 else int (readers hs x)))
    \<and> (\<forall>a xs w nd. (a, xs, w) \<in> set hs \<longrightarrow> nodes f a = Some nd \<longrightarrow>
         (\<exists>q f'. free_path_wrlock (nodeid nd) w f = Inr (q, f') \<and> lock_reach f' (remove1 (a, xs, w) hs)))"
proof -
  have I: "lock_inv f hs" using lock_reach_inv [OF assms] .
  have "\<exists>q f'. free_path_wrlock (nodeid nd) w f = Inr (q, f') \<and> lock_reach f' (remove1 (a, xs, w) hs)"
    if h: "(a, xs, w) \<in> set hs" "nodes f a = Some nd" for a xs w nd
    using lock_inv_give [OF I h] lock_reach.give [OF assms h] by blast
  moreover have "counts_ok hs (lock_of f)" using I by (simp add: lock_inv_def)
  ultimately show ?thesis unfolding counts_ok_def by blast
qed

section \<open>Examples\<close>

text \<open>The path of a file in a directory, and the file held for writing.\<close>

lemma example_tree:
  "\<exists>f r rn a nd b bd. tree_ok f \<and> coins f = [] \<and> lock_of f = (\<lambda>_. 0) \<and> nodes f r = Some rn \<and> nodes f a = Some nd \<and> nodes f b = Some bd
     \<and> distinct [r, a, b] \<and> nodeid rn = FUSE_ROOT_ID \<and> nodeid nd \<noteq> FUSE_ROOT_ID \<and> name nd = Some ''a'' \<and> parent nd = Some r
     \<and> tick_of f a = 0 \<and> tick_of f b = 0 \<and> place f (nodeid nd) (Some ''b'') b \<and> segment f a [a] r \<and> at_root f r"
proof -
  obtain f r rn a nd b bd where f: "tidy f" "nodes f = [r \<mapsto> rn, a \<mapsto> nd, b \<mapsto> bd]" "distinct [r, a, b]"
      "nodeid rn = FUSE_ROOT_ID" "nodeid nd \<noteq> FUSE_ROOT_ID" "nodeid bd \<noteq> FUSE_ROOT_ID"
      "name nd = Some ''a''" "parent nd = Some r" "name bd = Some ''b''" "parent bd = Some a" "treelock rn = 0" "treelock nd = 0" "treelock bd = 0"
    using two_lookups by blast
  define g where "g = relock b 0 0 (relock a 0 0 (f\<lparr>coins := []\<rparr>))"
  have na: "nodes (f\<lparr>coins := []\<rparr>) a = Some nd" "nodes (relock a 0 0 (f\<lparr>coins := []\<rparr>)) b = Some bd" using f(2,3) by (simp_all add: relock_def)
  have s: "same_tree f g"
    using same_tree_trans [OF coins_effect(1) same_tree_trans [OF relock_effect(1) [OF na(1)] relock_effect(1) [OF na(2)]]] by (simp add: g_def)
  have n: "nodes g = [r \<mapsto> rn, a \<mapsto> nd\<lparr>treelock := 0, ticket := 0\<rparr>, b \<mapsto> bd\<lparr>treelock := 0, ticket := 0\<rparr>]" "coins g = []"
    using f(2,3) by (simp_all add: g_def relock_def fun_upd_twist)
  have nn: "nodes g r = Some rn" "nodes g a = Some (nd\<lparr>treelock := 0, ticket := 0\<rparr>)" "nodes g b = Some (bd\<lparr>treelock := 0, ticket := 0\<rparr>)"
    using n(1) f(3) by simp_all
  have "tree_ok g" using tidy_tree [OF f(1)] same_tree_ok(1) [OF s] by simp
  moreover have "lock_of g = (\<lambda>_. 0)" using n(1) f(11) by (auto simp: lock_of_def fun_eq_iff)
  moreover have "tick_of g a = 0" "tick_of g b = 0" using nn by (simp_all add: tick_of_def)
  moreover have "place g (nodeid (nd\<lparr>treelock := 0, ticket := 0\<rparr>)) (Some ''b'') b"
    using place_iff [OF nn(3)] f(6,9,10) nn(2) by (simp add: idof_def)
  moreover have "segment g a [a] r" "at_root g r" using nn f(4,5,7,8) by (simp_all add: at_root_def)
  ultimately show ?thesis using n(2) nn f(3-5,7,8)
    by (intro exI [of _ g] exI [of _ r] exI [of _ rn] exI [of _ a] exI [of _ "nd\<lparr>treelock := 0, ticket := 0\<rparr>"] exI [of _ b]
        exI [of _ "bd\<lparr>treelock := 0, ticket := 0\<rparr>"]) simp
qed

text \<open>Without memory failures and with all locks free, the path is there at the first try.\<close>

lemma example_taken:
  assumes "tree_ok f" "coins f = []" "lock_of f = (\<lambda>_. 0)" "nodes f a = Some nd" "nodeid nd \<noteq> FUSE_ROOT_ID" "name nd = Some ''a''" "parent nd = Some r"
    and "nodes f r = Some rn" "nodeid rn = FUSE_ROOT_ID" "a \<noteq> r" "place f (nodeid nd) (Some ''b'') b" "nodes f b = Some bd" "b \<noteq> a" "b \<noteq> r" "tick_of f a = 0" "tick_of f b = 0"
  shows "\<exists>f'. try_get_path (nodeid nd) (Some ''b'') True 1 f = Inr ((0, Some ''/a/b'', Some b), f')"
proof -
  have ids: "the_node g (nodeid nd) = Inr a" if "same_tree f g" for g
    using node_found [of g a] assms(1) same_tree_ok(1) [OF that] same_tree_node [OF that assms(4)] by fastforce
  have nb: "node_by_name f (nodeid nd) ''b'' = Inr (Some b)" using node_by_name_place(1) [OF tree_okD(2) [OF assms(1)] assms(11)] .
  have free: "treelock bd = 0" "ticket bd = 0" "treelock nd = 0" "ticket nd = 0"
    using assms(3,4,12,15,16) by (auto simp: lock_of_def tick_of_def fun_eq_iff split: option.splits)
  define g where "g = relock b (-1) 0 f"
  have g: "modn b (\<lambda>nd. nd\<lparr>treelock := -1, ticket := 0\<rparr>) f = Inr g" "same_tree f g" using relock_effect(1,5) [OF assms(12)] by (simp_all add: g_def)
  have ng: "nodes g a = Some nd" "nodes g r = Some rn" "coins g = []" using assms(2,4,8,13,14) by (simp_all add: g_def relock_def)
  have "add_name ''b'' \<lparr>bufsize = 256, ptext = []\<rparr> f = Inr (Some \<lparr>bufsize = 256, ptext = ''/b''\<rparr>, f)" by (simp add: add_name_def put_text_def)
  moreover have "write_lock (nodeid nd) (Some ''b'') 1 f = Inr (False, Some b, g)" using nb assms(12) free g(1) by (simp add: write_lock_def getn_def)
  moreover have "add_name ''a'' \<lparr>bufsize = 256, ptext = ''/b''\<rparr> g = Inr (Some \<lparr>bufsize = 256, ptext = ''/a/b''\<rparr>, g)" by (simp add: add_name_def put_text_def)
  moreover have "\<exists>h. path_loop (use (id_table g) + 2) a \<lparr>bufsize = 256, ptext = ''/b''\<rparr> 1 g = Inr (Inr \<lparr>bufsize = 256, ptext = ''/a/b''\<rparr>, h)"
    using ng free assms(5-7,9,10) calculation(3) by (simp add: getn_def modn_def int_max_def)
  ultimately show ?thesis using ids [OF g(2)] assms(2) by (auto simp: try_get_path_def coin_def)
qed

text \<open>Both properties at this state.\<close>

theorem path_taken_and_given_back_witness:
  "\<exists>f n w f' q g. try_get_path n (Some ''b'') True 1 f = Inr ((0, Some ''/a/b'', Some w), f') \<and> lock_of f' w = -1
     \<and> free_path_wrlock n (Some w) f' = Inr (q, g) \<and> lock_of g = lock_of f"
proof -
  obtain f r rn a nd b bd where f: "tree_ok f" "coins f = []" "lock_of f = (\<lambda>_. 0)" "nodes f r = Some rn" "nodes f a = Some nd" "nodes f b = Some bd"
      "distinct [r, a, b]" "nodeid rn = FUSE_ROOT_ID" "nodeid nd \<noteq> FUSE_ROOT_ID" "name nd = Some ''a''" "parent nd = Some r"
      "tick_of f a = 0" "tick_of f b = 0" "place f (nodeid nd) (Some ''b'') b" "segment f a [a] r" "at_root f r"
    using example_tree by blast
  obtain f' where f': "try_get_path (nodeid nd) (Some ''b'') True 1 f = Inr ((0, Some ''/a/b'', Some b), f')"
    using example_taken [OF f(1-3,5,9-11,4,8) _ f(14,6) _ _ f(12,13)] f(7) by auto
  have e: "at_end f r" "(1 :: int) \<noteq> 0" "\<forall>x. -1 \<le> lock_of f x \<and> lock_of f x < int_max" "at_root f r \<or> tick_of f r \<noteq> 1"
      "length (climb f [a]) + length (suffix_of (Some ''b'')) + 2 < 2 ^ 32" "True \<longrightarrow> Some ''b'' \<noteq> None"
    using f(3,5,10,16) by (auto simp: at_end_def at_root_def int_max_def name_at_def suffix_of_def)
  have "lock_of f' b = -1 \<and> (\<exists>q g. free_path_wrlock (nodeid nd) (Some b) f' = Inr (q, g) \<and> lock_of g = lock_of f)"
    using path_taken_and_given_back [OF f(1,5,15) e] f' by auto
  then show ?thesis using f' by blast
qed

theorem path_locks_exclusive_witness:
  "\<exists>f n w f' h. lock_reach f [h] \<and> lock_of f w = -1 \<and> free_path_wrlock n (Some w) f = Inr f'"
proof -
  obtain f r rn a nd b bd where f: "tree_ok f" "coins f = []" "lock_of f = (\<lambda>_. 0)" "nodes f r = Some rn" "nodes f a = Some nd" "nodes f b = Some bd"
      "distinct [r, a, b]" "nodeid rn = FUSE_ROOT_ID" "nodeid nd \<noteq> FUSE_ROOT_ID" "name nd = Some ''a''" "parent nd = Some r"
      "tick_of f a = 0" "tick_of f b = 0" "place f (nodeid nd) (Some ''b'') b" "segment f a [a] r" "at_root f r"
    using example_tree by blast
  obtain f' where f': "try_get_path (nodeid nd) (Some ''b'') True 1 f = Inr ((0, Some ''/a/b'', Some b), f')"
    using example_taken [OF f(1-3,5,9-11,4,8) _ f(14,6) _ _ f(12,13)] f(7) by auto
  have e: "int (length ([] :: holder list)) < int_max" "at_end f r" "(1 :: int) \<noteq> 0" "at_root f r \<or> tick_of f r \<noteq> 1"
      "length (climb f [a]) + length (suffix_of (Some ''b'')) + 2 < 2 ^ 32" "True \<longrightarrow> Some ''b'' \<noteq> None"
    using f(5,10,16) by (auto simp: at_end_def at_root_def int_max_def name_at_def suffix_of_def)
  have r: "lock_reach f' [(a, [a], Some b)]"
    using lock_reach.take [OF lock_reach.idle [OF f(1,3)] e(1) f(5,15) e(2-6) f'] by simp
  have st: "same_tree f f'" using lock_reach_inv [OF r] try_get_path_ok [OF f(1,5,15) e(2,3) _ e(4-6)] f' f(3) by (auto simp: path_outcome_def int_max_def)
  obtain md where "nodes f' a = Some md" using same_tree_node [OF st f(5)] by blast
  moreover have "writers [(a, [a], Some b)] b = 1" by (simp add: writers_def)
  ultimately show ?thesis using path_locks_exclusive [OF r] r by (metis list.set_intros(1) zero_less_one)
qed

end
