(* ===== verification/Fuse_Session.thy ===== *)
theory Fuse_Session
  imports Fuse_Buf
begin

text \<open>
  Sessions and channels (\<open>src/lib/fuse_session.c\<close>, \<open>src/lib/fuse_kern_chan.c\<close>) and the loop of a
  single thread (\<open>src/lib/fuse_loop.c\<close>). Sessions and channels are objects in memory that point to each
  other; their tables of operations are functions on the whole state, named by numbers, because an
  operation may end the session it was called for. The system calls on the device are parameters.
  Messages on \<open>stderr\<close> are left out.
\<close>

section \<open>Data\<close>

record session =
  se_op :: nat
  se_receive_buf :: "nat option"
  se_process_buf :: "nat option"
  se_data :: nat
  se_exited :: int
  se_ch :: "nat option"

record chan =
  ch_op :: nat
  ch_se :: "nat option"
  ch_fd :: int
  ch_bufsize :: nat
  ch_data :: nat
  ch_compat :: int

record 'w env =
  sessions :: "nat \<rightharpoonup> session"
  chans :: "nat \<rightharpoonup> chan"
  memory :: "nat \<rightharpoonup> byte list"
  outside :: 'w

record 'w fuse_session_ops =
  so_process :: "nat \<Rightarrow> nat \<Rightarrow> nat \<Rightarrow> nat \<Rightarrow> 'w env \<Rightarrow> 'w env c"
  so_exit :: "(nat \<Rightarrow> int \<Rightarrow> 'w env \<Rightarrow> 'w env c) option"
  so_exited :: "(nat \<Rightarrow> 'w env \<Rightarrow> int c) option"
  so_destroy :: "(nat \<Rightarrow> 'w env \<Rightarrow> 'w env c) option"

text \<open>
  The slot \<open>receive\<close> has another type in the tables of interface version 2.4: its function cannot
  change the caller's channel pointer.
\<close>

datatype 'w receive_slot =
    Receive "nat \<Rightarrow> nat \<Rightarrow> nat \<Rightarrow> 'w env \<Rightarrow> ((int \<times> nat) \<times> 'w env) c"
  | Receive24 "nat \<Rightarrow> nat \<Rightarrow> nat \<Rightarrow> 'w env \<Rightarrow> (int \<times> 'w env) c"

record 'w fuse_chan_ops =
  co_receive :: "'w receive_slot"
  co_send :: "nat \<Rightarrow> byte list list option \<Rightarrow> 'w env \<Rightarrow> (int \<times> 'w env) c"
  co_destroy :: "(nat \<Rightarrow> 'w env \<Rightarrow> 'w env c) option"

type_synonym 'w session_tables = "nat \<Rightarrow> 'w fuse_session_ops"
type_synonym 'w chan_tables = "nat \<Rightarrow> 'w fuse_chan_ops"
type_synonym 'w receivers = "nat \<Rightarrow> nat \<Rightarrow> fuse_buf \<Rightarrow> nat \<Rightarrow> 'w env \<Rightarrow> ((int \<times> fuse_buf \<times> nat) \<times> 'w env) c"
type_synonym 'w processors = "nat \<Rightarrow> nat \<Rightarrow> fuse_buf \<Rightarrow> nat \<Rightarrow> 'w env \<Rightarrow> 'w env c"

definition load_session :: "'w env \<Rightarrow> nat \<Rightarrow> session c" where
  "load_session env se = (case sessions env se of None \<Rightarrow> Inl Dangling | Some s \<Rightarrow> Inr s)"

definition load_chan :: "'w env \<Rightarrow> nat \<Rightarrow> chan c" where
  "load_chan env ch = (case chans env ch of None \<Rightarrow> Inl Dangling | Some c \<Rightarrow> Inr c)"

definition put_session :: "nat \<Rightarrow> session \<Rightarrow> 'w env \<Rightarrow> 'w env" where
  "put_session se s env = env\<lparr>sessions := (sessions env)(se \<mapsto> s)\<rparr>"

definition put_chan :: "nat \<Rightarrow> chan \<Rightarrow> 'w env \<Rightarrow> 'w env" where
  "put_chan ch c env = env\<lparr>chans := (chans env)(ch \<mapsto> c)\<rparr>"

section \<open>Sessions\<close>

text \<open>The address that \<open>malloc\<close> gives, if any, is an argument.\<close>

definition fuse_session_new :: "nat option \<Rightarrow> nat \<Rightarrow> nat \<Rightarrow> 'w env \<Rightarrow> nat option \<times> 'w env" where
  "fuse_session_new m opn data env = (case m of None \<Rightarrow> (None, env)
     | Some se \<Rightarrow> (Some se, put_session se \<lparr>se_op = opn, se_receive_buf = None, se_process_buf = None,
         se_data = data, se_exited = 0, se_ch = None\<rparr> env))"

definition fuse_session_add_chan :: "nat \<Rightarrow> nat \<Rightarrow> 'w env \<Rightarrow> 'w env c" where
  "fuse_session_add_chan se ch env =
     bindc (load_session env se) (\<lambda>s. bindc (load_chan env ch) (\<lambda>c.
       if se_ch s \<noteq> None \<or> ch_se c \<noteq> None then Inl Aborted
       else Inr (put_chan ch (c\<lparr>ch_se := Some se\<rparr>) (put_session se (s\<lparr>se_ch := Some ch\<rparr>) env))))"

definition fuse_session_remove_chan :: "nat \<Rightarrow> 'w env \<Rightarrow> 'w env c" where
  "fuse_session_remove_chan ch env = bindc (load_chan env ch) (\<lambda>c. case ch_se c of
       None \<Rightarrow> Inr env
     | Some se \<Rightarrow> bindc (load_session env se) (\<lambda>s.
         if se_ch s \<noteq> Some ch then Inl Aborted
         else Inr (put_chan ch (c\<lparr>ch_se := None\<rparr>) (put_session se (s\<lparr>se_ch := None\<rparr>) env))))"

definition fuse_session_next_chan :: "nat \<Rightarrow> nat option \<Rightarrow> 'w env \<Rightarrow> nat option c" where
  "fuse_session_next_chan se ch env = bindc (load_session env se) (\<lambda>s.
     if \<not> (ch = None \<or> ch = se_ch s) then Inl Aborted else Inr (if ch = None then se_ch s else None))"

definition fuse_session_process :: "'w session_tables \<Rightarrow> nat \<Rightarrow> nat \<Rightarrow> nat \<Rightarrow> nat \<Rightarrow> 'w env \<Rightarrow> 'w env c" where
  "fuse_session_process S se buf len ch env =
     bindc (load_session env se) (\<lambda>s. so_process (S (se_op s)) (se_data s) buf len ch env)"

definition fuse_session_process_buf ::
  "'w session_tables \<Rightarrow> 'w processors \<Rightarrow> nat \<Rightarrow> fuse_buf \<Rightarrow> nat \<Rightarrow> 'w env \<Rightarrow> 'w env c" where
  "fuse_session_process_buf S P se buf ch env = bindc (load_session env se) (\<lambda>s. case se_process_buf s of
       Some p \<Rightarrow> P p (se_data s) buf ch env
     | None \<Rightarrow> if is_fd buf then Inl Aborted
         else fuse_session_process S (se_data s) (mem buf) (buf_size buf) ch env)"

definition fuse_chan_recv :: "'w chan_tables \<Rightarrow> nat \<Rightarrow> nat \<Rightarrow> nat \<Rightarrow> 'w env \<Rightarrow> ((int \<times> nat) \<times> 'w env) c" where
  "fuse_chan_recv C ch buf n env = bindc (load_chan env ch) (\<lambda>c.
     if ch_compat c \<noteq> 0 then
       (case co_receive (C (ch_op c)) of
          Receive24 r \<Rightarrow> bindc (r ch buf n env) (\<lambda>(res, env). Inr ((res, ch), env))
        | _ \<Rightarrow> Inl WrongType)
     else (case co_receive (C (ch_op c)) of Receive r \<Rightarrow> r ch buf n env | _ \<Rightarrow> Inl WrongType))"

definition fuse_session_receive_buf ::
  "'w chan_tables \<Rightarrow> 'w receivers \<Rightarrow> nat \<Rightarrow> fuse_buf \<Rightarrow> nat \<Rightarrow> 'w env \<Rightarrow> ((int \<times> fuse_buf \<times> nat) \<times> 'w env) c" where
  "fuse_session_receive_buf C R se buf ch env = bindc (load_session env se) (\<lambda>s. case se_receive_buf s of
       Some r \<Rightarrow> R r se buf ch env
     | None \<Rightarrow> bindc (fuse_chan_recv C ch (mem buf) (buf_size buf) env) (\<lambda>((res, ch), env).
         Inr ((res, if res > 0 then buf\<lparr>buf_size := nat res\<rparr> else buf, ch), env)))"

text \<open>
  The \<open>receive_buf\<close> operation of the sessions of \<open>src/lib/fuse_lowlevel.c\<close>, in the variant without \<open>splice\<close>; the other variant goes the
  same way (\<open>fallback\<close>) when the kernel or the filesystem did not ask for splicing.
\<close>

definition fuse_ll_receive_buf :: "'w chan_tables \<Rightarrow> nat \<Rightarrow> fuse_buf \<Rightarrow> nat \<Rightarrow> 'w env \<Rightarrow> ((int \<times> fuse_buf \<times> nat) \<times> 'w env) c" where
  "fuse_ll_receive_buf C se buf ch env = bindc (fuse_chan_recv C ch (mem buf) (buf_size buf) env) (\<lambda>((res, ch), env).
     if res \<le> 0 then Inr ((res, buf, ch), env) else Inr ((res, buf\<lparr>buf_size := nat res\<rparr>, ch), env))"

definition fuse_session_exit :: "'w session_tables \<Rightarrow> nat \<Rightarrow> 'w env \<Rightarrow> 'w env c" where
  "fuse_session_exit S se env = bindc (load_session env se) (\<lambda>s.
     bindc (case so_exit (S (se_op s)) of Some e \<Rightarrow> e (se_data s) 1 env | None \<Rightarrow> Inr env) (\<lambda>env.
     bindc (load_session env se) (\<lambda>s. Inr (put_session se (s\<lparr>se_exited := 1\<rparr>) env))))"

definition fuse_session_reset :: "'w session_tables \<Rightarrow> nat \<Rightarrow> 'w env \<Rightarrow> 'w env c" where
  "fuse_session_reset S se env = bindc (load_session env se) (\<lambda>s.
     bindc (case so_exit (S (se_op s)) of Some e \<Rightarrow> e (se_data s) 0 env | None \<Rightarrow> Inr env) (\<lambda>env.
     bindc (load_session env se) (\<lambda>s. Inr (put_session se (s\<lparr>se_exited := 0\<rparr>) env))))"

definition fuse_session_exited :: "'w session_tables \<Rightarrow> nat \<Rightarrow> 'w env \<Rightarrow> int c" where
  "fuse_session_exited S se env = bindc (load_session env se) (\<lambda>s.
     case so_exited (S (se_op s)) of Some e \<Rightarrow> e (se_data s) env | None \<Rightarrow> Inr (se_exited s))"

definition fuse_session_data :: "nat \<Rightarrow> 'w env \<Rightarrow> nat c" where
  "fuse_session_data se env = bindc (load_session env se) (\<lambda>s. Inr (se_data s))"

section \<open>Channels\<close>

definition fuse_chan_new_common :: "nat option \<Rightarrow> nat \<Rightarrow> int \<Rightarrow> nat \<Rightarrow> nat \<Rightarrow> int \<Rightarrow> 'w env \<Rightarrow> nat option \<times> 'w env" where
  "fuse_chan_new_common m opn fdn n data cpt env = (case m of None \<Rightarrow> (None, env)
     | Some ch \<Rightarrow> (Some ch, put_chan ch \<lparr>ch_op = opn, ch_se = None, ch_fd = fdn, ch_bufsize = n, ch_data = data,
         ch_compat = cpt\<rparr> env))"

definition fuse_chan_new :: "nat option \<Rightarrow> nat \<Rightarrow> int \<Rightarrow> nat \<Rightarrow> nat \<Rightarrow> 'w env \<Rightarrow> nat option \<times> 'w env" where
  "fuse_chan_new m opn fdn n data env = fuse_chan_new_common m opn fdn n data 0 env"

definition fuse_chan_new_compat24 :: "nat option \<Rightarrow> nat \<Rightarrow> int \<Rightarrow> nat \<Rightarrow> nat \<Rightarrow> 'w env \<Rightarrow> nat option \<times> 'w env" where
  "fuse_chan_new_compat24 m opn fdn n data env = fuse_chan_new_common m opn fdn n data 24 env"

definition fuse_chan_fd :: "nat \<Rightarrow> 'w env \<Rightarrow> int c" where
  "fuse_chan_fd ch env = bindc (load_chan env ch) (\<lambda>c. Inr (ch_fd c))"

definition fuse_chan_bufsize :: "nat \<Rightarrow> 'w env \<Rightarrow> nat c" where
  "fuse_chan_bufsize ch env = bindc (load_chan env ch) (\<lambda>c. Inr (ch_bufsize c))"

definition fuse_chan_data :: "nat \<Rightarrow> 'w env \<Rightarrow> nat c" where
  "fuse_chan_data ch env = bindc (load_chan env ch) (\<lambda>c. Inr (ch_data c))"

definition fuse_chan_session :: "nat \<Rightarrow> 'w env \<Rightarrow> nat option c" where
  "fuse_chan_session ch env = bindc (load_chan env ch) (\<lambda>c. Inr (ch_se c))"

definition fuse_chan_receive :: "'w chan_tables \<Rightarrow> nat \<Rightarrow> nat \<Rightarrow> nat \<Rightarrow> 'w env \<Rightarrow> (int \<times> 'w env) c" where
  "fuse_chan_receive C ch buf n env = bindc (fuse_chan_recv C ch buf n env) (\<lambda>((res, _), env).
     Inr (if res \<ge> 0 then res else if res \<noteq> - EINTR \<and> res \<noteq> - EAGAIN then - 1 else 0, env))"

definition fuse_chan_send :: "'w chan_tables \<Rightarrow> nat \<Rightarrow> byte list list option \<Rightarrow> 'w env \<Rightarrow> (int \<times> 'w env) c" where
  "fuse_chan_send C ch iov env = bindc (load_chan env ch) (\<lambda>c. co_send (C (ch_op c)) ch iov env)"

definition free_chan :: "nat \<Rightarrow> 'w env \<Rightarrow> 'w env c" where
  "free_chan ch env = bindc (load_chan env ch) (\<lambda>_. Inr (env\<lparr>chans := (chans env)(ch := None)\<rparr>))"

definition fuse_chan_destroy :: "'w chan_tables \<Rightarrow> nat \<Rightarrow> 'w env \<Rightarrow> 'w env c" where
  "fuse_chan_destroy C ch env =
     bindc (fuse_session_remove_chan ch env) (\<lambda>env.
     bindc (load_chan env ch) (\<lambda>c.
     bindc (case co_destroy (C (ch_op c)) of Some d \<Rightarrow> d ch env | None \<Rightarrow> Inr env) (free_chan ch)))"

definition fuse_session_destroy :: "'w session_tables \<Rightarrow> 'w chan_tables \<Rightarrow> nat \<Rightarrow> 'w env \<Rightarrow> 'w env c" where
  "fuse_session_destroy S C se env =
     bindc (load_session env se) (\<lambda>s.
     bindc (case so_destroy (S (se_op s)) of Some d \<Rightarrow> d (se_data s) env | None \<Rightarrow> Inr env) (\<lambda>env.
     bindc (load_session env se) (\<lambda>s.
     bindc (case se_ch s of Some ch \<Rightarrow> fuse_chan_destroy C ch env | None \<Rightarrow> Inr env) (\<lambda>env.
     bindc (load_session env se) (\<lambda>_. Inr (env\<lparr>sessions := (sessions env)(se := None)\<rparr>))))))"

section \<open>The channel to the kernel\<close>

text \<open>
  \<open>read\<close> gives the bytes it read or \<open>errno\<close>, \<open>writev\<close> zero or \<open>errno\<close>; both act on the part of the
  state outside the process, as does \<open>close\<close>. The restarts of an interrupted \<open>read\<close> take fuel.
\<close>

record 'w device =
  d_read :: "int \<Rightarrow> nat \<Rightarrow> 'w \<Rightarrow> (int + byte list) \<times> 'w"
  d_writev :: "int \<Rightarrow> byte list list \<Rightarrow> 'w \<Rightarrow> int \<times> 'w"
  d_close :: "int \<Rightarrow> 'w \<Rightarrow> 'w"

definition sizeof_in_header :: nat where "sizeof_in_header = 40"

definition store_bytes :: "nat \<Rightarrow> byte list \<Rightarrow> 'w env \<Rightarrow> 'w env c" where
  "store_bytes a bs env = (case memory env a of
       None \<Rightarrow> Inl Dangling
     | Some old \<Rightarrow> if length bs > length old then Inl Overflow
         else Inr (env\<lparr>memory := (memory env)(a \<mapsto> bs @ drop (length bs) old)\<rparr>))"

definition sys_read :: "'w device \<Rightarrow> int \<Rightarrow> nat \<Rightarrow> nat \<Rightarrow> 'w env \<Rightarrow> ((int + nat) \<times> 'w env) c" where
  "sys_read D fdn buf n env = (case d_read D fdn n (outside env) of
       (Inl e, w) \<Rightarrow> Inr (Inl e, env\<lparr>outside := w\<rparr>)
     | (Inr bs, w) \<Rightarrow> bindc (store_bytes buf bs (env\<lparr>outside := w\<rparr>)) (\<lambda>env. Inr (Inr (length bs), env)))"

fun kern_chan_receive_loop ::
  "'w session_tables \<Rightarrow> 'w device \<Rightarrow> nat \<Rightarrow> nat \<Rightarrow> nat \<Rightarrow> nat \<Rightarrow> nat \<Rightarrow> 'w env \<Rightarrow> (int \<times> 'w env) c" where
  "kern_chan_receive_loop S D 0 se ch buf n env = Inl OutOfFuel"
| "kern_chan_receive_loop S D (Suc k) se ch buf n env =
     bindc (fuse_chan_fd ch env) (\<lambda>fdn.
     bindc (sys_read D fdn buf n env) (\<lambda>(res, env).
     bindc (fuse_session_exited S se env) (\<lambda>ex.
       if ex \<noteq> 0 then Inr (0, env)
       else case res of
         Inl err \<Rightarrow>
           if err = ENOENT then kern_chan_receive_loop S D k se ch buf n env
           else if err = ENODEV then bindc (fuse_session_exit S se env) (\<lambda>env. Inr (0, env))
           else Inr (- err, env)
       | Inr len \<Rightarrow> if len < sizeof_in_header then Inr (- EIO, env) else Inr (c_int (int len), env))))"

definition fuse_kern_chan_receive ::
  "'w session_tables \<Rightarrow> 'w device \<Rightarrow> nat \<Rightarrow> nat \<Rightarrow> nat \<Rightarrow> nat \<Rightarrow> 'w env \<Rightarrow> ((int \<times> nat) \<times> 'w env) c" where
  "fuse_kern_chan_receive S D k ch buf n env = bindc (fuse_chan_session ch env) (\<lambda>s. case s of
       None \<Rightarrow> Inl Aborted
     | Some se \<Rightarrow> bindc (kern_chan_receive_loop S D k se ch buf n env) (\<lambda>(res, env). Inr ((res, ch), env)))"

definition fuse_kern_chan_send ::
  "'w session_tables \<Rightarrow> 'w device \<Rightarrow> nat \<Rightarrow> byte list list option \<Rightarrow> 'w env \<Rightarrow> (int \<times> 'w env) c" where
  "fuse_kern_chan_send S D ch iov env = (case iov of
       None \<Rightarrow> Inr (0, env)
     | Some v \<Rightarrow> bindc (fuse_chan_fd ch env) (\<lambda>fdn.
         let (err, w) = d_writev D fdn v (outside env); env = env\<lparr>outside := w\<rparr> in
         if err = 0 then Inr (0, env)
         else bindc (fuse_chan_session ch env) (\<lambda>s. case s of
                None \<Rightarrow> Inl Aborted
              | Some se \<Rightarrow> bindc (fuse_session_exited S se env) (\<lambda>_. Inr (- err, env)))))"

definition fuse_kern_chan_destroy :: "'w device \<Rightarrow> nat \<Rightarrow> 'w env \<Rightarrow> 'w env c" where
  "fuse_kern_chan_destroy D ch env =
     bindc (fuse_chan_fd ch env) (\<lambda>fdn. Inr (env\<lparr>outside := d_close D fdn (outside env)\<rparr>))"

definition kern_chan_ops :: "'w session_tables \<Rightarrow> 'w device \<Rightarrow> nat \<Rightarrow> 'w fuse_chan_ops" where
  "kern_chan_ops S D k = \<lparr>co_receive = Receive (fuse_kern_chan_receive S D k), co_send = fuse_kern_chan_send S D,
     co_destroy = Some (fuse_kern_chan_destroy D)\<rparr>"

definition MIN_BUFSIZE :: nat where "MIN_BUFSIZE = 0x21000"

text \<open>The operations of the new channel are the table with the number \<open>opn\<close>.\<close>

definition fuse_kern_chan_new :: "nat \<Rightarrow> nat option \<Rightarrow> nat \<Rightarrow> int \<Rightarrow> 'w env \<Rightarrow> nat option \<times> 'w env" where
  "fuse_kern_chan_new pagesize m opn fdn env =
     (let bufsize = pagesize + 0x1000; bufsize = (if bufsize < MIN_BUFSIZE then MIN_BUFSIZE else bufsize)
      in fuse_chan_new m opn fdn bufsize 0 env)"

section \<open>The loop\<close>

fun session_loop ::
  "'w session_tables \<Rightarrow> 'w chan_tables \<Rightarrow> 'w receivers \<Rightarrow> 'w processors \<Rightarrow> nat \<Rightarrow> nat \<Rightarrow> nat \<Rightarrow> nat \<Rightarrow> nat \<Rightarrow> int
    \<Rightarrow> 'w env \<Rightarrow> (int \<times> 'w env) c" where
  "session_loop S C R P 0 se ch buf bufsize res env = Inl OutOfFuel"
| "session_loop S C R P (Suc k) se ch buf bufsize res env =
     bindc (fuse_session_exited S se env) (\<lambda>ex.
     if ex \<noteq> 0 then Inr (res, env)
     else bindc (fuse_session_receive_buf C R se
              \<lparr>buf_size = bufsize, is_fd = False, fd_seek = False, fd_retry = False, mem = buf, fd = 0, pos = 0\<rparr> ch env)
            (\<lambda>((res, fbuf, tmpch), env).
         if res = - EINTR then session_loop S C R P k se ch buf bufsize res env
         else if res \<le> 0 then Inr (res, env)
         else bindc (fuse_session_process_buf S P se fbuf tmpch env)
                (session_loop S C R P k se ch buf bufsize res)))"

definition free_mem :: "nat \<Rightarrow> 'w env \<Rightarrow> 'w env c" where
  "free_mem a env = (if memory env a = None then Inl Dangling else Inr (env\<lparr>memory := (memory env)(a := None)\<rparr>))"

text \<open>\<open>m\<close>: the read buffer that \<open>malloc\<close> gives, with what happens to be in it.\<close>

definition fuse_session_loop ::
  "'w session_tables \<Rightarrow> 'w chan_tables \<Rightarrow> 'w receivers \<Rightarrow> 'w processors \<Rightarrow> nat \<Rightarrow> (nat \<times> (nat \<Rightarrow> byte list)) option
    \<Rightarrow> nat \<Rightarrow> 'w env \<Rightarrow> (int \<times> 'w env) c" where
  "fuse_session_loop S C R P k m se env =
     bindc (fuse_session_next_chan se None env) (\<lambda>ch. case ch of None \<Rightarrow> Inl NullDeref | Some ch \<Rightarrow>
     bindc (fuse_chan_bufsize ch env) (\<lambda>bufsize. case m of
       None \<Rightarrow> Inr (- 1, env)
     | Some (buf, junk) \<Rightarrow>
         bindc (session_loop S C R P k se ch buf bufsize 0 (env\<lparr>memory := (memory env)(buf \<mapsto> junk bufsize)\<rparr>)) (\<lambda>(res, env).
         bindc (free_mem buf env) (\<lambda>env.
         bindc (fuse_session_reset S se env) (\<lambda>env. Inr (if res < 0 then - 1 else 0, env))))))"


section \<open>A session that serves a device\<close>

text \<open>
  The device gives its outcomes one after the other; the session serves every request with \<open>h\<close>, which also says whether the
  request ends the session, until that or a read ends it. The result is the result of the loop, with the outcomes that are left.
\<close>

fun serve_script :: "(byte list \<Rightarrow> 'v \<Rightarrow> 'v \<times> bool) \<Rightarrow> (int + byte list) list \<Rightarrow> 'v \<Rightarrow> (int \<times> (int + byte list) list \<times> 'v) option" where
  "serve_script h [] v = None"
| "serve_script h (Inl e # os) v =
     (if e = ENOENT \<or> e = EINTR then serve_script h os v else Some (if e = ENODEV then 0 else - 1, os, v))"
| "serve_script h (Inr bs # os) v = (if length bs < sizeof_in_header then Some (- 1, os, v)
     else let (v, ended) = h bs v in if ended then Some (0, os, v) else serve_script h os v)"

abbreviation noent :: "int + byte list \<Rightarrow> bool" where
  "noent x \<equiv> x = Inl ENOENT"

lemma serve_script_noent: "serve_script h os v = serve_script h (dropWhile noent os) v"
  by (induction os) auto

definition script_device :: "((int + byte list) list \<times> 'v) device \<Rightarrow> bool" where
  "script_device D \<longleftrightarrow> (\<forall>fdn n x os v. d_read D fdn n (x # os, v) = (x, (os, v)))"

text \<open>
  A session as \<open>fuse_lowlevel_new_common\<close> makes it, with \<open>receive_buf\<close> and \<open>process_buf\<close> set and no operations for its exit flag, on
  a channel to the kernel.
\<close>

definition serving ::
  "'w session_tables \<Rightarrow> 'w chan_tables \<Rightarrow> 'w receivers \<Rightarrow> 'w device \<Rightarrow> nat \<Rightarrow> nat \<Rightarrow> nat \<Rightarrow> nat \<Rightarrow> 'w env \<Rightarrow> bool" where
  "serving S C R D k p se ch env \<longleftrightarrow> (\<exists>s c q. sessions env se = Some s \<and> chans env ch = Some c
     \<and> so_exit (S (se_op s)) = None \<and> so_exited (S (se_op s)) = None \<and> se_exited s = 0 \<and> se_ch s = Some ch
     \<and> se_receive_buf s = Some q \<and> R q = fuse_ll_receive_buf C \<and> se_process_buf s = Some p
     \<and> ch_se c = Some se \<and> ch_compat c = 0 \<and> C (ch_op c) = kern_chan_ops S D k)"

definition set_exited :: "nat \<Rightarrow> int \<Rightarrow> 'w env \<Rightarrow> 'w env" where
  "set_exited se x env = env\<lparr>sessions := (sessions env)(se := map_option (\<lambda>s. s\<lparr>se_exited := x\<rparr>) (sessions env se))\<rparr>"

text \<open>
  The operation that processes a request changes the part of the state that \<open>h\<close> says, and sets the exit flag of the session when \<open>h\<close>
  says so.
\<close>

definition processes :: "(('x \<times> 'v) processors) \<Rightarrow> nat \<Rightarrow> nat \<Rightarrow> (byte list \<Rightarrow> 'v \<Rightarrow> 'v \<times> bool) \<Rightarrow> bool" where
  "processes P p se h \<longleftrightarrow> (\<forall>data buf ch env bs. memory env (mem buf) = Some bs \<longrightarrow>
     P p data buf ch env = (let (v, ended) = h (take (buf_size buf) bs) (snd (outside env)); env = env\<lparr>outside := (fst (outside env), v)\<rparr>
       in Inr (if ended then set_exited se 1 env else env)))"

lemma set_exited_sel [simp]:
  "chans (set_exited se x env) = chans env" "memory (set_exited se x env) = memory env" "outside (set_exited se x env) = outside env"
  by (simp_all add: set_exited_def)

lemma serving_exit:
  assumes "serving S C R D k p se ch env"
  shows "fuse_session_exited S se env = Inr 0" "fuse_session_exit S se env = Inr (set_exited se 1 env)"
    "fuse_session_reset S se env = Inr env" "fuse_session_reset S se (set_exited se 1 env) = Inr env"
    "fuse_session_exited S se (set_exited se 1 env) = Inr 1"
proof -
  obtain s where s: "sessions env se = Some s" "so_exit (S (se_op s)) = None" "so_exited (S (se_op s)) = None" "se_exited s = 0"
    using assms unfolding serving_def by blast
  have e: "env\<lparr>sessions := (sessions env)(se \<mapsto> s\<lparr>se_exited := 0\<rparr>)\<rparr> = env"
    using s by (cases env; cases s) (auto simp: fun_upd_triv)
  from s show "fuse_session_exited S se env = Inr 0" "fuse_session_exit S se env = Inr (set_exited se 1 env)"
    "fuse_session_reset S se env = Inr env" "fuse_session_reset S se (set_exited se 1 env) = Inr env"
    "fuse_session_exited S se (set_exited se 1 env) = Inr 1"
    by (simp_all add: fuse_session_exited_def fuse_session_exit_def fuse_session_reset_def load_session_def put_session_def
      set_exited_def e)
qed

lemma serving_cong:
  "sessions env' = sessions env \<Longrightarrow> chans env' = chans env \<Longrightarrow> serving S C R D k p se ch env' \<longleftrightarrow> serving S C R D k p se ch env"
  by (simp add: serving_def)

lemma serving_upd [simp]:
  "serving S C R D k p se ch (env\<lparr>outside := w\<rparr>) = serving S C R D k p se ch env"
  "serving S C R D k p se ch (env\<lparr>memory := m\<rparr>) = serving S C R D k p se ch env"
  by (simp_all add: serving_def)

lemma kern_loop_script:
  assumes "script_device D" "serving S C R D k0 p se ch env" "outside env = (os, v)" "dropWhile noent os = x # os'" "length os < k"
  shows "kern_chan_receive_loop S D k se ch buf n env = (case x of
       Inl e \<Rightarrow> if e = ENODEV then Inr (0, set_exited se 1 (env\<lparr>outside := (os', v)\<rparr>)) else Inr (- e, env\<lparr>outside := (os', v)\<rparr>)
     | Inr bs \<Rightarrow> bindc (store_bytes buf bs (env\<lparr>outside := (os', v)\<rparr>)) (\<lambda>env.
         Inr (if length bs < sizeof_in_header then - EIO else c_int (int (length bs)), env)))"
  using assms
proof (induction os arbitrary: k env)
  case (Cons y os)
  obtain k' where k: "k = Suc k'" using Cons.prems(5) by (cases k) auto
  have D: "d_read D fdn n (outside env) = (y, (os, v))" for fdn using Cons.prems(1,3) by (simp add: script_device_def)
  let ?e = "env\<lparr>outside := (os, v)\<rparr>"
  obtain fdn where F: "fuse_chan_fd ch env = Inr fdn" using Cons.prems(2) by (auto simp: serving_def fuse_chan_fd_def load_chan_def)
  have S: "serving S C R D k0 p se ch ?e" using Cons.prems(2) by simp
  show ?case
  proof (cases "y = Inl ENOENT")
    case True
    then have "kern_chan_receive_loop S D k se ch buf n env = kern_chan_receive_loop S D k' se ch buf n ?e"
      using F D serving_exit(1) [OF S] by (simp add: k sys_read_def)
    also have "\<dots> = (case x of
       Inl e \<Rightarrow> if e = ENODEV then Inr (0, set_exited se 1 (?e\<lparr>outside := (os', v)\<rparr>)) else Inr (- e, ?e\<lparr>outside := (os', v)\<rparr>)
     | Inr bs \<Rightarrow> bindc (store_bytes buf bs (?e\<lparr>outside := (os', v)\<rparr>)) (\<lambda>env.
         Inr (if length bs < sizeof_in_header then - EIO else c_int (int (length bs)), env)))"
      by (rule Cons.IH) (use Cons.prems True k S in auto)
    finally show ?thesis by (cases x) simp_all
  next
    case False
    then have x: "x = y" "os' = os" using Cons.prems(4) by auto
    have S': "store_bytes buf bs ?e = Inr env' \<Longrightarrow> fuse_session_exited S se env' = Inr 0" for bs env'
      using serving_exit(1) [of S C R D k0 p se ch env'] S by (auto simp: store_bytes_def split: option.splits if_splits)
    show ?thesis
    proof (cases y)
      case (Inl e)
      then show ?thesis using F D False x serving_exit(1,2) [OF S] by (simp add: k sys_read_def)
    next
      case (Inr bs)
      show ?thesis
      proof (cases "store_bytes buf bs ?e")
        case (Inl a)
        then show ?thesis using F D x Inr by (simp add: k sys_read_def)
      next
        case R: (Inr env')
        then show ?thesis using F D x Inr S' [OF R] by (simp add: k sys_read_def)
      qed
    qed
  qed
qed simp

text \<open>One round of the loop.\<close>

definition read_buf0 :: "nat \<Rightarrow> nat \<Rightarrow> fuse_buf" where
  "read_buf0 buf n = \<lparr>buf_size = n, is_fd = False, fd_seek = False, fd_retry = False, mem = buf, fd = 0, pos = 0\<rparr>"

lemma read_buf0_sel [simp]: "mem (read_buf0 buf n) = buf" "buf_size (read_buf0 buf n) = n"
  by (simp_all add: read_buf0_def)

lemma receive_script:
  assumes "script_device D" "serving S C R D k p se ch env" "outside env = (os, v)" "dropWhile noent os = x # os'" "length os < k"
  shows "fuse_session_receive_buf C R se (read_buf0 buf n) ch env =
     bindc (kern_chan_receive_loop S D k se ch buf n env) (\<lambda>(res, env).
       Inr ((res, if res > 0 then (read_buf0 buf n)\<lparr>buf_size := nat res\<rparr> else read_buf0 buf n, ch), env))"
proof -
  obtain s c q where "sessions env se = Some s" "chans env ch = Some c" "se_receive_buf s = Some q" "R q = fuse_ll_receive_buf C"
    "ch_se c = Some se" "ch_compat c = 0" "C (ch_op c) = kern_chan_ops S D k"
    using assms(2) unfolding serving_def by blast
  then show ?thesis
    by (cases "kern_chan_receive_loop S D k se ch buf n env")
      (auto simp: fuse_session_receive_buf_def fuse_ll_receive_buf_def load_session_def fuse_chan_recv_def load_chan_def kern_chan_ops_def
        fuse_kern_chan_receive_def fuse_chan_session_def)
qed

lemma process_script:
  assumes "serving S C R D k p se ch env" "processes P p se h" "memory env (mem buf) = Some bs"
    "h (take (buf_size buf) bs) (snd (outside env)) = (v, ended)"
  shows "fuse_session_process_buf S P se buf ch' env =
    (let env = env\<lparr>outside := (fst (outside env), v)\<rparr> in Inr (if ended then set_exited se 1 env else env))"
  using assms by (auto simp: serving_def fuse_session_process_buf_def load_session_def processes_def)

lemma store_bytes_buf:
  "memory env a = Some old \<Longrightarrow> length bs \<le> length old \<Longrightarrow>
     store_bytes a bs env = Inr (env\<lparr>memory := (memory env)(a \<mapsto> bs @ drop (length bs) old)\<rparr>)"
  by (simp add: store_bytes_def)

definition fits :: "nat \<Rightarrow> (int + byte list) list \<Rightarrow> bool" where
  "fits n os \<longleftrightarrow> n < 2 ^ 31 \<and> (\<forall>x \<in> set os. case x of Inl e \<Rightarrow> e > 0 | Inr bs \<Rightarrow> length bs \<le> n)"

lemma fits_mono: "fits n os \<Longrightarrow> set os' \<subseteq> set os \<Longrightarrow> fits n os'"
  by (auto simp: fits_def)

definition left_at :: "nat \<Rightarrow> nat \<Rightarrow> nat \<Rightarrow> 'w env \<Rightarrow> 'w \<Rightarrow> 'w env \<Rightarrow> bool" where
  "left_at se buf n env w env' \<longleftrightarrow> (\<exists>old x. length old = n \<and> x \<in> {0, 1}
     \<and> env' = set_exited se x (env\<lparr>memory := (memory env)(buf \<mapsto> old), outside := w\<rparr>))"

lemma left_at_upd: "left_at se buf n (env\<lparr>memory := (memory env)(buf \<mapsto> m), outside := w0\<rparr>) w env' \<longleftrightarrow> left_at se buf n env w env'"
  by (simp add: left_at_def)

lemma session_loop_script:
  assumes "script_device D" "processes P p se h" "serving S C R D k p se ch env" "outside env = (os, v)"
    "memory env buf = Some old" "length old = n" "fits n os" "length os < k" "length os < k'"
    "serve_script h os v = Some (r, os', v')"
  shows "\<exists>res env'. session_loop S C R P k' se ch buf n res0 env = Inr (res, env')
    \<and> (if res < 0 then - 1 else 0) = r \<and> left_at se buf n env (os', v') env'"
  using assms
proof (induction "length os" arbitrary: os v env old k' res0 rule: less_induct)
  case less
  obtain k2 where k: "k' = Suc k2" using less.prems(9) by (cases k') auto
  have ex: "fuse_session_exited S se env = Inr 0" using serving_exit(1) [OF less.prems(3)] .
  obtain x os1 where x: "dropWhile noent os = x # os1"
    using less.prems(10) serve_script_noent [of h os v] by (cases "dropWhile noent os") auto
  then have sub: "set (x # os1) \<subseteq> set os" and len: "length os1 < length os"
    by (metis set_dropWhileD subsetI) (metis x length_dropWhile_le Suc_le_eq length_Cons)
  have ser: "serve_script h (x # os1) v = Some (r, os', v')" using less.prems(10) serve_script_noent [of h os v] x by simp
  have fit: "fits n os1" using fits_mono [OF less.prems(7)] sub by simp
  note K = kern_loop_script [OF less.prems(1,3,4) x less.prems(8), of buf n]
  note Rb = receive_script [OF less.prems(1,3,4) x less.prems(8), of buf n]
  let ?e = "env\<lparr>outside := (os1, v)\<rparr>"
  have old: "env\<lparr>memory := (memory env)(buf \<mapsto> old), outside := w\<rparr> = env\<lparr>outside := w\<rparr>" for w
    using less.prems(5) by (cases env) (auto simp: fun_upd_idem)
  have se0: "set_exited se 0 ?e = ?e" using less.prems(3) by (cases env) (auto simp: set_exited_def serving_def fun_upd_triv)
  show ?case
  proof (cases x)
    case (Inl e)
    have "e > 0" "e \<noteq> ENOENT" using less.prems(7) sub Inl x hd_dropWhile [of noent os] by (auto simp: fits_def)
    show ?thesis
    proof (cases "e = EINTR")
      case True
      have "session_loop S C R P k' se ch buf n res0 env = session_loop S C R P k2 se ch buf n (- EINTR) ?e"
        using ex Rb K Inl True by (simp add: k read_buf0_def)
      moreover have "\<exists>res env'. session_loop S C R P k2 se ch buf n (- EINTR) ?e = Inr (res, env')
          \<and> (if res < 0 then - 1 else 0) = r \<and> left_at se buf n ?e (os', v') env'"
        by (rule less.hyps [of os1 _ v]) (use less.prems len fit ser k Inl True in auto)
      ultimately show ?thesis by (simp add: left_at_def)
    next
      case False
      then have r: "r = (if e = ENODEV then 0 else - 1)" "os' = os1" "v' = v" using ser Inl \<open>e \<noteq> ENOENT\<close> by auto
      have L: "left_at se buf n env (os1, v) ?e" "left_at se buf n env (os1, v) (set_exited se 1 ?e)"
        unfolding left_at_def using old [of "(os1, v)"] se0 less.prems(6) by (metis insertCI)+
      have "session_loop S C R P k' se ch buf n res0 env =
          (if e = ENODEV then Inr (0, set_exited se 1 ?e) else Inr (- e, ?e))"
        using ex Rb K Inl False \<open>e > 0\<close> by (simp add: k read_buf0_def)
      then show ?thesis using r L \<open>e > 0\<close> by auto
    qed
  next
    case (Inr bs)
    have bl: "length bs \<le> n" "n < 2 ^ 31" using less.prems(7) sub Inr by (auto simp: fits_def)
    let ?m = "bs @ drop (length bs) old"
    let ?f = "env\<lparr>memory := (memory env)(buf \<mapsto> ?m), outside := (os1, v)\<rparr>"
    have st: "store_bytes buf bs ?e = Inr ?f" using store_bytes_buf [of ?e buf old bs] less.prems(5,6) bl by simp
    have lm: "length ?m = n" using bl less.prems(6) by simp
    show ?thesis
    proof (cases "length bs < sizeof_in_header")
      case True
      then have r: "r = - 1" "os' = os1" "v' = v" using ser Inr by auto
      have "set_exited se 0 ?f = ?f" using less.prems(3) by (cases env) (auto simp: set_exited_def serving_def fun_upd_triv)
      then have L: "left_at se buf n env (os1, v) ?f" unfolding left_at_def using lm by (metis insertCI)
      have "session_loop S C R P k' se ch buf n res0 env = Inr (- EIO, ?f)"
        using ex Rb K Inr True st by (simp add: k read_buf0_def)
      then show ?thesis using r L by simp
    next
      case False
      let ?b = "(read_buf0 buf n)\<lparr>buf_size := length bs\<rparr>"
      obtain v1 ended where h: "h bs v = (v1, ended)" by fastforce
      let ?g = "env\<lparr>memory := (memory env)(buf \<mapsto> ?m), outside := (os1, v1)\<rparr>"
      let ?g' = "if ended then set_exited se 1 ?g else ?g"
      have c: "c_int (int (length bs)) = int (length bs)" by (rule c_int_id) (use bl in \<open>simp add: in_int_def int_min_def int_max_def\<close>)
      have pos: "length bs > 0" using False by (cases bs) (auto simp: sizeof_in_header_def)
      have pr: "fuse_session_process_buf S P se ?b ch ?f = Inr ?g'"
        using process_script [of S C R D k p se ch ?f P h ?b ?m v1 ended ch] less.prems(2,3) h by simp
      have run: "session_loop S C R P k' se ch buf n res0 env = session_loop S C R P k2 se ch buf n (int (length bs)) ?g'"
        using ex Rb K Inr False st pr pos c by (simp add: k read_buf0_def)
      show ?thesis
      proof (cases ended)
        case True
        then have r: "r = 0" "os' = os1" "v' = v1" using ser Inr False h by auto
        obtain k3 where k3: "k2 = Suc k3" using less.prems(9) k len by (cases k2) auto
        have "fuse_session_exited S se (set_exited se 1 ?g) = Inr 1" by (rule serving_exit(5)) (use less.prems(3) in simp)
        then have "session_loop S C R P k' se ch buf n res0 env = Inr (int (length bs), set_exited se 1 ?g)"
          using run True by (simp add: k3)
        moreover have "left_at se buf n env (os1, v1) (set_exited se 1 ?g)" unfolding left_at_def using lm by blast
        ultimately show ?thesis using r by simp
      next
        case False
        then have ser1: "serve_script h os1 v1 = Some (r, os', v')" using ser Inr \<open>\<not> length bs < sizeof_in_header\<close> h by simp
        have "\<exists>res env'. session_loop S C R P k2 se ch buf n (int (length bs)) ?g = Inr (res, env')
            \<and> (if res < 0 then - 1 else 0) = r \<and> left_at se buf n ?g (os', v') env'"
          by (rule less.hyps [of os1 _ v1 ?m]) (use less.prems len fit ser1 k lm in auto)
        then show ?thesis using run False by (simp add: left_at_upd)
      qed
    qed
  qed
qed

text \<open>
  (C29) The loop of a single thread serves a device, in a session as the low-level library sets it up (without \<open>splice\<close>): every request
  that the device gives before the loop ends is processed once, in order and with exactly its bytes; interrupted reads are repeated.
  The loop ends with the request that ends the session, with the read after an unmount, with an error or with a short read; the result is
  zero in the first two cases and \<open>-1\<close> in the others, the buffer is freed and the session is ready to run again. (Other threads and
  signals do not end the session.)
\<close>

theorem session_loop_serves:
  assumes "script_device D" "processes P p se h" "serving S C R D k p se ch env" "outside env = (os, v)"
    "memory env buf = None" "chans env ch = Some c" "ch_bufsize c = n" "length (junk n) = n" "fits n os" "length os < k" "length os < k'"
    "serve_script h os v = Some (r, os', v')"
  shows "fuse_session_loop S C R P k' (Some (buf, junk)) se env = Inr (r, env\<lparr>outside := (os', v')\<rparr>)"
proof -
  let ?e = "env\<lparr>memory := (memory env)(buf \<mapsto> junk n)\<rparr>"
  have "\<exists>res env'. session_loop S C R P k' se ch buf n 0 ?e = Inr (res, env')
      \<and> (if res < 0 then - 1 else 0) = r \<and> left_at se buf n ?e (os', v') env'"
    by (rule session_loop_script [OF assms(1,2), of S C R k ch _ os v buf "junk n"]) (use assms in auto)
  then obtain res old x where l: "session_loop S C R P k' se ch buf n 0 ?e = Inr (res, set_exited se x (?e\<lparr>memory := (memory ?e)(buf \<mapsto> old), outside := (os', v')\<rparr>))"
    "r = (if res < 0 then - 1 else 0)" "x \<in> {0, 1}" unfolding left_at_def by blast
  let ?z = "env\<lparr>outside := (os', v')\<rparr>"
  have fr: "free_mem buf (set_exited se x (?e\<lparr>memory := (memory ?e)(buf \<mapsto> old), outside := (os', v')\<rparr>)) = Inr (set_exited se x ?z)"
    using assms(5) by (cases env) (auto simp: free_mem_def set_exited_def fun_upd_idem)
  have z: "serving S C R D k p se ch ?z" using assms(3) by simp
  have "set_exited se 0 ?z = ?z" using z by (cases env) (auto simp: set_exited_def serving_def fun_upd_triv)
  then have rs: "fuse_session_reset S se (set_exited se x ?z) = Inr ?z" using l(3) serving_exit(3,4) [OF z] by auto
  have "fuse_session_next_chan se None env = Inr (Some ch)"
    using assms(3) by (auto simp: serving_def fuse_session_next_chan_def load_session_def)
  then show ?thesis using l(1,2) fr rs assms(6,7) by (simp add: fuse_session_loop_def fuse_chan_bufsize_def load_chan_def)
qed

definition no_ops :: "'w fuse_session_ops" where
  "no_ops = \<lparr>so_process = (\<lambda>_ _ _ _ env. Inr env), so_exit = None, so_exited = None, so_destroy = None\<rparr>"

text \<open>Requests are written down; one whose first byte is zero ends the session \<open>se\<close>.\<close>

definition log_request :: "nat \<Rightarrow> ('x \<times> byte list list) processors" where
  "log_request se p data buf ch env = (case memory env (mem buf) of
       None \<Rightarrow> Inl Dangling
     | Some bs \<Rightarrow> let env' = env\<lparr>outside := (fst (outside env), snd (outside env) @ [take (buf_size buf) bs])\<rparr> in
         Inr (if take 1 (take (buf_size buf) bs) = [0] then set_exited se 1 env' else env'))"

definition scripted :: "((int + byte list) list \<times> 'v) device" where
  "scripted = \<lparr>d_read = (\<lambda>_ _ (os, v). (hd os, (tl os, v))), d_writev = (\<lambda>_ _ w. (0, w)), d_close = (\<lambda>_ w. w)\<rparr>"

definition sample_session :: "(int + byte list) list \<Rightarrow> ((int + byte list) list \<times> byte list list) env" where
  "sample_session os = \<lparr>sessions = [1 \<mapsto> \<lparr>se_op = 0, se_receive_buf = Some 0, se_process_buf = Some 0, se_data = 5, se_exited = 0, se_ch = Some 2\<rparr>],
     chans = [2 \<mapsto> \<lparr>ch_op = 0, ch_se = Some 1, ch_fd = 3, ch_bufsize = MIN_BUFSIZE, ch_data = 0, ch_compat = 0\<rparr>],
     memory = Map.empty, outside = (os, [])\<rparr>"

theorem session_loop_serves_witness:
  "let os = [Inl EINTR, Inr (replicate 40 1), Inl ENOENT, Inr (replicate 56 0), Inl ENODEV]; C = (\<lambda>_. kern_chan_ops (\<lambda>_. no_ops) scripted 9) in
   fuse_session_loop (\<lambda>_. no_ops) C (\<lambda>_. fuse_ll_receive_buf C) (log_request 1) 9 (Some (7, \<lambda>n. replicate n 0)) 1 (sample_session os)
     = Inr (0, (sample_session os)\<lparr>outside := ([Inl ENODEV], [replicate 40 1, replicate 56 0])\<rparr>)"
proof -
  let ?os = "[Inl EINTR, Inr (replicate 40 1), Inl ENOENT, Inr (replicate 56 0), Inl ENODEV] :: (int + byte list) list"
  let ?C = "\<lambda>_ :: nat. kern_chan_ops (\<lambda>_. no_ops) scripted 9 :: ((int + byte list) list \<times> byte list list) fuse_chan_ops"
  let ?h = "\<lambda>bs v. (v @ [bs], take 1 bs = [0 :: byte])"
  have "script_device scripted" by (simp add: script_device_def scripted_def)
  moreover have "processes (log_request 1) 0 1 ?h" by (simp add: processes_def log_request_def Let_def)
  moreover have "serving (\<lambda>_. no_ops) ?C (\<lambda>_. fuse_ll_receive_buf ?C) scripted 9 0 1 2 (sample_session ?os)"
    by (simp add: serving_def sample_session_def no_ops_def)
  moreover have "fits MIN_BUFSIZE ?os" by (simp add: fits_def MIN_BUFSIZE_def)
  moreover have "serve_script ?h ?os [] = Some (0, [Inl ENODEV], [replicate 40 1, replicate 56 0])"
    by (simp add: sizeof_in_header_def take_Cons' numeral_eq_Suc)
  ultimately have "fuse_session_loop (\<lambda>_. no_ops) ?C (\<lambda>_. fuse_ll_receive_buf ?C) (log_request 1) 9 (Some (7, \<lambda>n. replicate n 0)) 1 (sample_session ?os)
     = Inr (0, (sample_session ?os)\<lparr>outside := ([Inl ENODEV], [replicate 40 1, replicate 56 0])\<rparr>)"
    by (intro session_loop_serves) (auto simp: sample_session_def)
  then show ?thesis by simp
qed

section \<open>Sessions and their channels\<close>

text \<open>A session and its channel point to each other.\<close>

definition linked :: "'w env \<Rightarrow> bool" where
  "linked env \<longleftrightarrow> (\<forall>se s ch. sessions env se = Some s \<longrightarrow> se_ch s = Some ch \<longrightarrow> (\<exists>c. chans env ch = Some c \<and> ch_se c = Some se))
     \<and> (\<forall>ch c se. chans env ch = Some c \<longrightarrow> ch_se c = Some se \<longrightarrow> (\<exists>s. sessions env se = Some s \<and> se_ch s = Some ch))"

lemma linked_session: "linked env \<Longrightarrow> sessions env se = Some s \<Longrightarrow> se_ch s = Some ch \<Longrightarrow> \<exists>c. chans env ch = Some c \<and> ch_se c = Some se"
  by (simp add: linked_def)

lemma linked_chan: "linked env \<Longrightarrow> chans env ch = Some c \<Longrightarrow> ch_se c = Some se \<Longrightarrow> \<exists>s. sessions env se = Some s \<and> se_ch s = Some ch"
  by (simp add: linked_def)

lemma linked_outside [simp]: "linked (env\<lparr>outside := w\<rparr>) = linked env"
  by (simp add: linked_def)

lemma session_new_linked [wf_intros]:
  assumes "linked env" "\<forall>se. m = Some se \<longrightarrow> sessions env se = None"
  shows "linked (snd (fuse_session_new m opn data env))"
  using assms by (fastforce simp: linked_def fuse_session_new_def put_session_def split: option.splits)

lemma chan_new_linked [wf_intros]:
  assumes "linked env" "\<forall>ch. m = Some ch \<longrightarrow> chans env ch = None"
  shows "linked (snd (fuse_chan_new_common m opn fdn n data cpt env))"
  using assms by (fastforce simp: linked_def fuse_chan_new_common_def put_chan_def split: option.splits)

lemma add_chan_linked:
  assumes "linked env" "sessions env se = Some s" "chans env ch = Some c" "se_ch s = None" "ch_se c = None"
  shows "\<exists>env'. fuse_session_add_chan se ch env = Inr env' \<and> linked env' \<and> fuse_chan_session ch env' = Inr (Some se)
    \<and> fuse_session_next_chan se None env' = Inr (Some ch)"
proof -
  let ?e = "put_chan ch (c\<lparr>ch_se := Some se\<rparr>) (put_session se (s\<lparr>se_ch := Some ch\<rparr>) env)"
  have "linked ?e" unfolding linked_def
  proof (intro conjI allI impI)
    fix a t b assume "sessions ?e a = Some t" "se_ch t = Some b"
    then show "\<exists>c. chans ?e b = Some c \<and> ch_se c = Some a"
      using assms linked_session [OF assms(1), of a t b] by (auto simp: put_chan_def put_session_def split: if_splits)
  next
    fix b d a assume "chans ?e b = Some d" "ch_se d = Some a"
    then show "\<exists>s. sessions ?e a = Some s \<and> se_ch s = Some b"
      using assms linked_chan [OF assms(1), of b d a] by (auto simp: put_chan_def put_session_def split: if_splits)
  qed
  then show ?thesis using assms
    by (simp add: fuse_session_add_chan_def load_session_def load_chan_def fuse_chan_session_def fuse_session_next_chan_def)
      (simp add: put_chan_def put_session_def)
qed

lemma remove_chan_linked:
  assumes "linked env" "chans env ch = Some c"
  shows "\<exists>env'. fuse_session_remove_chan ch env = Inr env' \<and> linked env' \<and> memory env' = memory env \<and> outside env' = outside env
    \<and> chans env' = (chans env)(ch \<mapsto> c\<lparr>ch_se := None\<rparr>)
    \<and> sessions env' = (case ch_se c of None \<Rightarrow> sessions env
        | Some se \<Rightarrow> (sessions env)(se := map_option (\<lambda>s. s\<lparr>se_ch := None\<rparr>) (sessions env se)))"
proof (cases "ch_se c")
  case None
  then show ?thesis using assms by (cases c) (auto simp: fuse_session_remove_chan_def load_chan_def fun_upd_triv)
next
  case (Some se)
  obtain s where s: "sessions env se = Some s" "se_ch s = Some ch" using linked_chan [OF assms Some] by blast
  let ?e = "put_chan ch (c\<lparr>ch_se := None\<rparr>) (put_session se (s\<lparr>se_ch := None\<rparr>) env)"
  have "linked ?e" unfolding linked_def
  proof (intro conjI allI impI)
    fix a t b assume "sessions ?e a = Some t" "se_ch t = Some b"
    then show "\<exists>c. chans ?e b = Some c \<and> ch_se c = Some a"
      using assms s Some linked_session [OF assms(1), of a t b] by (auto simp: put_chan_def put_session_def split: if_splits)
  next
    fix b d a assume "chans ?e b = Some d" "ch_se d = Some a"
    then show "\<exists>s. sessions ?e a = Some s \<and> se_ch s = Some b"
      using assms s Some linked_chan [OF assms(1), of b d a] by (auto simp: put_chan_def put_session_def split: if_splits)
  qed
  then show ?thesis using s Some assms(2)
    by (simp add: fuse_session_remove_chan_def load_session_def load_chan_def) (simp add: put_chan_def put_session_def)
qed

lemma linked_free:
  assumes "linked env" "chans env ch = Some c" "ch_se c = None"
  shows "linked (env\<lparr>chans := (chans env)(ch := None)\<rparr>)"
  using assms unfolding linked_def by (auto split: if_splits) (metis option.discI option.inject)+

text \<open>
  Destroying a session calls its own clean-up, takes the channel out of it, closes the device once and frees both
  objects and nothing else; sessions and channels go on pointing to each other.
\<close>

lemma session_destroy_closes:
  assumes "linked env" "sessions env se = Some s" "se_ch s = Some ch" "chans env ch = Some c"
    "C (ch_op c) = kern_chan_ops S D k" "so_destroy (S (se_op s)) = Some d"
    "d (se_data s) env = Inr (env\<lparr>outside := w\<rparr>)"
  shows "\<exists>env'. fuse_session_destroy S C se env = Inr env' \<and> linked env'
    \<and> sessions env' = (sessions env)(se := None) \<and> chans env' = (chans env)(ch := None)
    \<and> memory env' = memory env \<and> outside env' = d_close D (ch_fd c) w"
proof -
  let ?e = "env\<lparr>outside := w\<rparr>"
  have c: "ch_se c = Some se" using linked_session [OF assms(1-3)] assms(4) by auto
  obtain e1 where e1: "fuse_session_remove_chan ch ?e = Inr e1" "linked e1" "memory e1 = memory env" "outside e1 = w"
    "chans e1 = (chans env)(ch \<mapsto> c\<lparr>ch_se := None\<rparr>)" "sessions e1 = (sessions env)(se \<mapsto> s\<lparr>se_ch := None\<rparr>)"
    using remove_chan_linked [of ?e ch c] assms(1,2,4) c by auto
  let ?x = "e1\<lparr>outside := d_close D (ch_fd c) w, chans := (chans e1)(ch := None)\<rparr>"
  let ?y = "?x\<lparr>sessions := (sessions e1)(se := None)\<rparr>"
  have de: "fuse_session_destroy S C se env = Inr ?y"
    using assms(2-7) e1 by (simp add: fuse_session_destroy_def load_session_def fuse_chan_destroy_def load_chan_def kern_chan_ops_def
      fuse_kern_chan_destroy_def fuse_chan_fd_def free_chan_def)
  have "linked ?y" unfolding linked_def
  proof (intro conjI allI impI)
    fix a t b assume "sessions ?y a = Some t" "se_ch t = Some b"
    then show "\<exists>c. chans ?y b = Some c \<and> ch_se c = Some a"
      using e1(5,6) c assms(4) linked_session [OF assms(1), of a t b] by (auto split: if_splits)
  next
    fix b f a assume "chans ?y b = Some f" "ch_se f = Some a"
    then show "\<exists>s. sessions ?y a = Some s \<and> se_ch s = Some b"
      using e1(5,6) c assms(2,3) linked_chan [OF assms(1), of b f a] by (auto split: if_splits)
  qed
  then show ?thesis using de e1 by (auto intro!: exI [of _ ?y])
qed

definition closing_ops :: "((int + byte list) list \<times> byte list list) fuse_session_ops" where
  "closing_ops = no_ops\<lparr>so_destroy := Some (\<lambda>_ env. Inr (env\<lparr>outside := ([], [[1]])\<rparr>))\<rparr>"

text \<open>
  A session without an operation for buffers of its own: \<open>fuse_session_process_buf\<close> gives the session's private data
  to \<open>fuse_session_process\<close>, which takes it for a session. Unless there happens to be a session, the call is undefined.
\<close>

lemma process_buf_wrong_object:
  assumes "sessions env se = Some s" "se_process_buf s = None" "\<not> is_fd buf" "sessions env (se_data s) = None"
  shows "fuse_session_process_buf S P se buf ch env = Inl Dangling"
  using assms by (simp add: fuse_session_process_buf_def fuse_session_process_def load_session_def)

end
