(* ===== verification/Fuse_Workers.thy ===== *)
theory Fuse_Workers
  imports Fuse_List
begin

text \<open>
  The pool of threads of \<open>src/lib/fuse_loop_mt.c\<close>. Each thread has a program counter; what a thread does under the
  mutex \<open>mt->lock\<close> is one step, and so is each access of the main thread to the list of workers and to
  \<open>mt->exit\<close>, which it makes without the mutex: such an access comes before or after a critical section of a worker, never between
  two stores of one (the walk reads only \<open>next\<close>, of which a section changes one on the list). What the session receives, whether memory and
  threads can be had and when a signal arrives is decided by the steps that are taken. A worker's structure is
  in memory from its creation until \<open>free\<close>; location \<open>0\<close> is \<open>mt->main\<close>.
\<close>

section \<open>The state\<close>

datatype wpc = Checking | Receiving | Got bool | Busy bool | Leaving | Unlinked | Returned
datatype mpc = Start | Waiting | Cancel nat | Next nat | SetExit | Joining | Finished int

record pool =
  links :: "nat heads"
  pcs :: "nat \<rightharpoonup> wpc"
  numworker :: int
  numavail :: int
  mt_exit :: bool
  mt_error :: int
  finish_sem :: nat
  exited :: bool
  cancelled :: "nat set"
  main_pc :: mpc

datatype received = Interrupted | Ended | Failed | Request bool

section \<open>The list of workers\<close>

definition list_add_worker :: "nat \<Rightarrow> nat \<Rightarrow> nat heads \<Rightarrow> nat heads c" where
  "list_add_worker w nxt h = bindc (load_head h nxt) (\<lambda>x.
     bindc (set_next w nxt h) (\<lambda>h. bindc (set_prev w (lprev x) h) (\<lambda>h.
     bindc (set_next (lprev x) w h) (set_prev nxt w))))"

definition list_del_worker :: "nat \<Rightarrow> nat heads \<Rightarrow> nat heads c" where
  "list_del_worker w h = bindc (load_head h w) (\<lambda>x.
     bindc (set_next (lprev x) (lnext x) h) (set_prev (lnext x) (lprev x)))"

definition on_links :: "(nat heads \<Rightarrow> nat heads c) \<Rightarrow> pool \<Rightarrow> pool c" where
  "on_links f p = bindc (f (links p)) (\<lambda>h. Inr (p\<lparr>links := h\<rparr>))"

definition goes :: "nat \<Rightarrow> wpc \<Rightarrow> pool \<Rightarrow> pool" where
  "goes w x p = p\<lparr>pcs := (pcs p)(w \<mapsto> x)\<rparr>"

definition free_worker :: "nat \<Rightarrow> pool \<Rightarrow> pool" where
  "free_worker w p = p\<lparr>links := (links p)(w := None), pcs := (pcs p)(w := None), cancelled := cancelled p - {w}\<rparr>"

section \<open>The operations\<close>

text \<open>
  \<open>m\<close>: the structure that \<open>malloc\<close> gives, if any; \<open>ok\<close>: the read buffer and the thread could be had. The
  error paths free what was allocated.
\<close>

definition fuse_loop_start_thread :: "nat option \<Rightarrow> bool \<Rightarrow> pool \<Rightarrow> (int \<times> pool) c" where
  "fuse_loop_start_thread m ok p = (case m of
       None \<Rightarrow> Inr (- 1, p)
     | Some w \<Rightarrow>
         if \<not> ok then Inr (- 1, p)
         else bindc (on_links (list_add_worker w 0) (goes w Checking (p\<lparr>links := (links p)(w \<mapsto> \<lparr>lnext = 0, lprev = 0\<rparr>)\<rparr>)))
           (\<lambda>p. Inr (0, p\<lparr>numavail := numavail p + 1, numworker := numworker p + 1\<rparr>)))"

text \<open>A worker with the request it has received, up to the end of the first critical section.\<close>

definition take_request :: "nat \<Rightarrow> bool \<Rightarrow> nat option \<Rightarrow> bool \<Rightarrow> pool \<Rightarrow> pool c" where
  "take_request w isforget m ok p =
     (if mt_exit p then Inr (goes w Returned p)
      else
        let p = (if isforget then p else p\<lparr>numavail := numavail p - 1\<rparr>) in
        bindc (if numavail p = 0 then fuse_loop_start_thread m ok p else Inr (0, p)) (\<lambda>(_, p). Inr (goes w (Busy isforget) p)))"

text \<open>The second critical section, after the request has been processed.\<close>

definition request_done :: "nat \<Rightarrow> bool \<Rightarrow> pool \<Rightarrow> pool c" where
  "request_done w isforget p =
     (let p = (if isforget then p else p\<lparr>numavail := numavail p + 1\<rparr>) in
      if numavail p > 10 then
        (if mt_exit p then Inr (goes w Returned p)
         else bindc (on_links (list_del_worker w) p) (\<lambda>p.
           Inr (goes w Unlinked (p\<lparr>numavail := numavail p - 1, numworker := numworker p - 1\<rparr>))))
      else Inr (goes w Checking p))"

definition has_received :: "nat \<Rightarrow> received \<Rightarrow> pool \<Rightarrow> pool" where
  "has_received w r p = (case r of
       Interrupted \<Rightarrow> goes w Checking p
     | Ended \<Rightarrow> goes w Leaving p
     | Failed \<Rightarrow> goes w Leaving (p\<lparr>exited := True, mt_error := - 1\<rparr>)
     | Request isforget \<Rightarrow> goes w (Got isforget) p)"

definition fuse_join_worker :: "nat \<Rightarrow> pool \<Rightarrow> pool c" where
  "fuse_join_worker w p = bindc (on_links (list_del_worker w) p) (\<lambda>p. Inr (free_worker w p))"

section \<open>Steps\<close>

datatype act =
    Check nat | Receive nat received | Cancelled nat | Take nat "nat option" bool | Done nat | Free nat | Post nat
  | Signal | Main "nat option" bool bool

text \<open>\<open>malloc\<close> gives memory that is not in use.\<close>

definition fresh :: "nat option \<Rightarrow> pool \<Rightarrow> bool" where
  "fresh m p = (case m of None \<Rightarrow> True | Some w \<Rightarrow> w \<noteq> 0 \<and> links p w = None \<and> pcs p w = None)"

definition main_goes :: "mpc \<Rightarrow> pool \<Rightarrow> pool" where
  "main_goes x p = p\<lparr>main_pc := x\<rparr>"

text \<open>
  The steps of \<open>fuse_session_loop_mt\<close>; \<open>None\<close> when it waits. \<open>woken\<close>: a signal interrupts \<open>sem_wait\<close>.
\<close>

definition main_step :: "nat option \<Rightarrow> bool \<Rightarrow> bool \<Rightarrow> pool \<Rightarrow> pool c option" where
  "main_step m ok woken p = (case main_pc p of
       Start \<Rightarrow> if fresh m p then Some (bindc (fuse_loop_start_thread m ok p) (\<lambda>(err, p).
                  Inr (if err = 0 then main_goes Waiting p else (main_goes (Finished err) p)\<lparr>exited := False\<rparr>))) else None
     | Waiting \<Rightarrow>
         if exited p then Some (bindc (load_head (links p) 0) (\<lambda>x. Inr (main_goes (Cancel (lnext x)) p)))
         else if finish_sem p > 0 then Some (Inr (p\<lparr>finish_sem := finish_sem p - 1\<rparr>))
         else if woken then Some (Inr p) else None
     | Cancel w \<Rightarrow>
         if w = 0 then Some (Inr (main_goes SetExit p))
         else Some (bindc (load_head (links p) w) (\<lambda>_. Inr (main_goes (Next w) (p\<lparr>cancelled := insert w (cancelled p)\<rparr>))))
     | Next w \<Rightarrow> Some (bindc (load_head (links p) w) (\<lambda>x. Inr (main_goes (Cancel (lnext x)) p)))
     | SetExit \<Rightarrow> Some (Inr (main_goes Joining (p\<lparr>mt_exit := True\<rparr>)))
     | Joining \<Rightarrow> (case load_head (links p) 0 of
           Inl e \<Rightarrow> Some (Inl e)
         | Inr x \<Rightarrow>
             if lnext x = 0 then Some (Inr ((main_goes (Finished (mt_error p)) p)\<lparr>exited := False\<rparr>))
             else if pcs p (lnext x) = Some Returned then Some (fuse_join_worker (lnext x) p) else None)
     | Finished _ \<Rightarrow> None)"

definition pool_step :: "act \<Rightarrow> pool \<Rightarrow> pool c option" where
  "pool_step a p = (case a of
       Check w \<Rightarrow> if pcs p w = Some Checking then Some (Inr (goes w (if exited p then Leaving else Receiving) p)) else None
     | Receive w r \<Rightarrow> if pcs p w = Some Receiving then Some (Inr (has_received w r p)) else None
     | Cancelled w \<Rightarrow> if pcs p w = Some Receiving \<and> w \<in> cancelled p then Some (Inr (goes w Returned p)) else None
     | Take w m ok \<Rightarrow> (case pcs p w of Some (Got f) \<Rightarrow> if fresh m p then Some (take_request w f m ok p) else None | _ \<Rightarrow> None)
     | Done w \<Rightarrow> (case pcs p w of Some (Busy f) \<Rightarrow> Some (request_done w f p) | _ \<Rightarrow> None)
     | Free w \<Rightarrow> if pcs p w = Some Unlinked then Some (Inr (free_worker w p)) else None
     | Post w \<Rightarrow> if pcs p w = Some Leaving then Some (Inr (goes w Returned (p\<lparr>finish_sem := finish_sem p + 1\<rparr>))) else None
     | Signal \<Rightarrow> Some (Inr (p\<lparr>exited := True\<rparr>))
     | Main m ok woken \<Rightarrow> main_step m ok woken p)"

text \<open>The state in which \<open>fuse_session_loop_mt\<close> starts its first thread.\<close>

definition pool0 :: pool where
  "pool0 = \<lparr>links = [0 \<mapsto> \<lparr>lnext = 0, lprev = 0\<rparr>], pcs = Map.empty, numworker = 0, numavail = 0, mt_exit = False, mt_error = 0,
     finish_sem = 0, exited = False, cancelled = {}, main_pc = Start\<rparr>"

fun run_pool :: "act list \<Rightarrow> pool \<Rightarrow> pool c option" where
  "run_pool [] p = Some (Inr p)"
| "run_pool (a # as) p = (case pool_step a p of
       None \<Rightarrow> None
     | Some (Inl e) \<Rightarrow> Some (Inl e)
     | Some (Inr p) \<Rightarrow> run_pool as p)"

section \<open>The list operations\<close>

lemma set_next_prev: "bindc (set_next a v h) (set_prev b u) = bindc (set_prev b u h) (set_next a v)"
  by (cases "h a"; cases "h b") (auto simp: set_next_def set_prev_def load_head_def fun_upd_twist)

lemma list_del_worker_eq: "list_del_worker w h = list_del w h"
  by (simp add: list_del_worker_def list_del_def set_next_prev)

lemma list_add_worker_eq:
  assumes "w \<in> dom h" "0 \<in> dom h" "pv h 0 = Some v" "v \<in> dom h" "w \<noteq> 0" "w \<noteq> v"
  shows "list_add_worker w 0 h = list_add_tail w 0 h"
proof -
  obtain x y z where "h w = Some x" "h 0 = Some y" "h v = Some z" "lprev y = v" using assms by (auto simp: pv_def)
  then show ?thesis using assms(5,6)
    by (cases "v = 0") (auto simp: list_add_worker_def list_add_tail_def list_add_def set_next_def set_prev_def load_head_def fun_upd_twist)
qed

section \<open>What the pool keeps\<close>

text \<open>The workers on the list are those that have not taken themselves off it; their structures are in memory.\<close>

definition ring_ok :: "pool \<Rightarrow> nat list \<Rightarrow> bool" where
  "ring_ok p xs \<longleftrightarrow> dll (links p) 0 xs \<and> dom (links p) = insert 0 (dom (pcs p)) \<and> pcs p 0 = None \<and> finite (dom (pcs p))
     \<and> set xs = {w. \<exists>x. pcs p w = Some x \<and> x \<noteq> Unlinked}"

definition busy :: "pool \<Rightarrow> nat set" where
  "busy p = {w. pcs p w = Some (Busy False)}"

definition running :: "pool \<Rightarrow> bool" where
  "running p = (case main_pc p of Joining \<Rightarrow> False | Finished _ \<Rightarrow> False | _ \<Rightarrow> True)"

definition counts_ok :: "pool \<Rightarrow> nat list \<Rightarrow> bool" where
  "counts_ok p xs \<longleftrightarrow> (if running p
     then \<not> mt_exit p \<and> numworker p = int (length xs) \<and> numavail p = int (length xs) - int (card (busy p)) \<and> numavail p \<le> 10
     else if main_pc p = Joining then mt_exit p else xs = [])"

definition pool_ok :: "pool \<Rightarrow> nat list \<Rightarrow> bool" where
  "pool_ok p xs \<longleftrightarrow> ring_ok p xs \<and> counts_ok p xs"

lemma pool_okD: "pool_ok p xs \<Longrightarrow> ring_ok p xs" "pool_ok p xs \<Longrightarrow> counts_ok p xs"
  by (simp_all add: pool_ok_def)

lemma ring_okD:
  assumes "ring_ok p xs"
  shows "dll (links p) 0 xs" "0 \<notin> set xs" "distinct xs" "pcs p 0 = None" "dom (links p) = insert 0 (dom (pcs p))" "finite (dom (pcs p))"
    "w \<in> set xs \<longleftrightarrow> (\<exists>x. pcs p w = Some x \<and> x \<noteq> Unlinked)"
  using assms dll_distinct [of "links p" 0 xs] by (auto simp: ring_ok_def)

lemma goes_simps [simp]:
  "links (goes w x p) = links p" "pcs (goes w x p) = (pcs p)(w \<mapsto> x)" "numworker (goes w x p) = numworker p" "numavail (goes w x p) = numavail p"
  "mt_exit (goes w x p) = mt_exit p" "exited (goes w x p) = exited p" "cancelled (goes w x p) = cancelled p" "main_pc (goes w x p) = main_pc p"
  "running (goes w x p) = running p"
  by (simp_all add: goes_def running_def)

lemma busy_goes: "busy (goes w x p) = (if x = Busy False then insert w (busy p) else busy p - {w})"
  by (auto simp: busy_def)

lemma busy_ring: "ring_ok p xs \<Longrightarrow> busy p \<subseteq> set xs"
  by (auto simp: ring_ok_def busy_def)

lemma ring_goes: "ring_ok p xs \<Longrightarrow> pcs p w = Some y \<Longrightarrow> y \<noteq> Unlinked \<Longrightarrow> x \<noteq> Unlinked \<Longrightarrow> ring_ok (goes w x p) xs"
  by (cases "w = 0") (auto simp: ring_ok_def split: if_splits)

lemma ring_cong:
  "links p' = links p \<Longrightarrow> pcs p' = pcs p \<Longrightarrow> ring_ok p' xs = ring_ok p xs"
  by (simp add: ring_ok_def)

text \<open>A worker that moves between states in which it has no request of its own.\<close>

lemma pool_goes:
  assumes "pool_ok p xs" "pcs p w = Some y" "y \<noteq> Unlinked" "y \<noteq> Busy False" "x \<noteq> Unlinked" "x \<noteq> Busy False"
  shows "pool_ok (goes w x p) xs"
proof -
  have "busy (goes w x p) = busy p" using assms(2,4,6) by (auto simp: busy_goes) (auto simp: busy_def)
  then show ?thesis using assms ring_goes [of p xs w y x] by (auto simp: pool_ok_def counts_ok_def split: if_splits)
qed

lemma pool_cong:
  assumes "links p' = links p" "pcs p' = pcs p" "numworker p' = numworker p" "numavail p' = numavail p" "mt_exit p' = mt_exit p" "main_pc p' = main_pc p"
  shows "pool_ok p' xs = pool_ok p xs"
  using assms by (simp add: pool_ok_def ring_ok_def counts_ok_def busy_def running_def)

lemma counts_cong:
  assumes "busy p' = busy p" "numworker p' = numworker p" "numavail p' = numavail p" "mt_exit p' = mt_exit p" "main_pc p' = main_pc p"
  shows "counts_ok p' xs = counts_ok p xs"
  using assms by (simp add: counts_ok_def running_def)

lemma start_thread_ok:
  assumes "ring_ok p xs" "fresh (Some w) p"
  shows "\<exists>h. fuse_loop_start_thread (Some w) True p =
      Inr (0, (goes w Checking p)\<lparr>links := h, numavail := numavail p + 1, numworker := numworker p + 1\<rparr>)
    \<and> ring_ok ((goes w Checking p)\<lparr>links := h\<rparr>) (xs @ [w])"
proof -
  note R = ring_okD [OF assms(1)]
  have w: "w \<noteq> 0" "links p w = None" "pcs p w = None" using assms(2) by (auto simp: fresh_def)
  let ?h = "(links p)(w \<mapsto> \<lparr>lnext = 0, lprev = 0\<rparr>)"
  have d: "dll ?h 0 xs" by (rule iffD1 [OF dll_cong R(1)]) (use w R(7) in \<open>auto\<close>)
  have nw: "w \<notin> set (0 # xs)" using w R(7) [of w] by simp
  have v: "pv ?h 0 = Some (last (0 # xs))" "last (0 # xs) \<in> dom ?h"
    using dll_ends [OF d] dll_dom [OF d] last_in_set [of "0 # xs"] by auto
  obtain h where h: "list_add_tail w 0 ?h = Inr h" "dll h 0 (xs @ [w])" "keeps (set (w # 0 # xs)) ?h h"
    using list_add_tail_spec [OF d _ nw] by auto
  have "last (0 # xs) \<noteq> w" using nw last_in_set [of "0 # xs"] by (metis list.distinct(1))
  then have "list_add_worker w 0 ?h = Inr h"
    using list_add_worker_eq [of w ?h "last (0 # xs)"] v w(1) h(1) R(5) by (simp add: insertI1)
  then have "fuse_loop_start_thread (Some w) True p = Inr (0, (goes w Checking p)\<lparr>links := h, numavail := numavail p + 1, numworker := numworker p + 1\<rparr>)"
    by (simp add: fuse_loop_start_thread_def on_links_def goes_def)
  moreover have "ring_ok ((goes w Checking p)\<lparr>links := h\<rparr>) (xs @ [w])"
    using h(2,3) R(4-7) w by (auto simp: ring_ok_def keeps_def)
  ultimately show ?thesis by blast
qed

lemma del_worker_ok:
  assumes "ring_ok p xs" "w \<in> set xs"
  shows "\<exists>h. list_del_worker w (links p) = Inr h \<and> dll h 0 (remove1 w xs) \<and> dom h = dom (links p)"
proof -
  note R = ring_okD [OF assms(1)]
  obtain as bs where x: "xs = as @ w # bs" using assms(2) by (meson split_list)
  then have "remove1 w xs = as @ bs" using R(3) by (simp add: remove1_append)
  then show ?thesis using list_del_spec [of "links p" 0 as w bs] R(1) x by (auto simp: list_del_worker_eq keeps_def)
qed

lemma ring_freed:
  assumes "ring_ok p xs" "w \<notin> set xs" "pcs p w \<noteq> None"
  shows "ring_ok (free_worker w p) xs"
proof -
  note R = ring_okD [OF assms(1)]
  have "dll (links (free_worker w p)) 0 xs"
    by (rule iffD1 [OF dll_cong R(1)]) (use assms R(4) in \<open>auto simp: free_worker_def\<close>)
  then show ?thesis using assms R(4-7) by (auto simp: ring_ok_def free_worker_def)
qed

section \<open>Every step keeps the pool\<close>

lemma take_request_ok:
  assumes "pool_ok p xs" "pcs p w = Some (Got f)" "fresh m p"
  shows "\<exists>p' xs'. take_request w f m ok p = Inr p' \<and> pool_ok p' xs' \<and> main_pc p' = main_pc p \<and> exited p' = exited p \<and> cancelled p' = cancelled p
    \<and> (xs' = xs \<and> (\<exists>x. x \<notin> {Receiving, Unlinked} \<and> pcs p' = (pcs p)(w \<mapsto> x))
       \<or> (\<exists>v. v \<noteq> w \<and> v \<notin> set xs \<and> xs' = xs @ [v] \<and> pcs p' = (pcs p)(v \<mapsto> Checking, w \<mapsto> Busy f)))"
proof (cases "mt_exit p")
  case True
  have "pool_ok (goes w Returned p) xs" by (rule pool_goes [OF assms(1,2)]) auto
  then show ?thesis using True by (auto simp: take_request_def)
next
  case False
  note R = ring_okD [OF pool_okD(1) [OF assms(1)]]
  have wx: "w \<in> set xs" using R(7) [of w] assms(2) by simp
  then have run: "running p" using pool_okD(2) [OF assms(1)] False by (auto simp: counts_ok_def split: if_splits)
  have C: "numworker p = int (length xs)" "numavail p = int (length xs) - int (card (busy p))" "numavail p \<le> 10"
    using pool_okD(2) [OF assms(1)] run by (auto simp: counts_ok_def)
  have fb: "finite (busy p)" "w \<notin> busy p" using busy_ring [OF pool_okD(1) [OF assms(1)]] finite_subset assms(2) by (auto simp: busy_def)
  define q where "q = (if f then p else p\<lparr>numavail := numavail p - 1\<rparr>)"
  have q: "links q = links p" "pcs q = pcs p" "numworker q = numworker p" "mt_exit q = mt_exit p" "main_pc q = main_pc p"
    "exited q = exited p" "cancelled q = cancelled p" "numavail q = numavail p - (if f then 0 else 1)" by (simp_all add: q_def)
  have bq: "card (busy (goes w (Busy f) r)) = card (busy p) + (if f then 0 else 1)" if "busy r = busy p" for r
    using fb that by (simp add: busy_goes)
  have ru: "running q" "ring_ok q xs" "busy q = busy p" using run q pool_okD(1) [OF assms(1)] by (auto simp: running_def ring_ok_def busy_def)
  have T: "take_request w f m ok p = bindc (if numavail q = 0 then fuse_loop_start_thread m ok q else Inr (0, q)) (\<lambda>(_, p). Inr (goes w (Busy f) p))"
    using False by (simp add: take_request_def q_def)
  show ?thesis
  proof (cases "numavail q = 0 \<and> m \<noteq> None \<and> ok")
    case True
    then obtain v where v: "m = Some v" by blast
    obtain h where h: "fuse_loop_start_thread (Some v) True q = Inr (0, (goes v Checking q)\<lparr>links := h, numavail := numavail q + 1, numworker := numworker q + 1\<rparr>)"
      "ring_ok ((goes v Checking q)\<lparr>links := h\<rparr>) (xs @ [v])"
      using start_thread_ok [OF ru(2), of v] assms(3) v q by (auto simp: fresh_def)
    let ?r = "(goes v Checking q)\<lparr>links := h, numavail := numavail q + 1, numworker := numworker q + 1\<rparr>"
    have vw: "v \<noteq> w" "pcs p v = None" using assms(2,3) v by (auto simp: fresh_def)
    have "ring_ok (goes w (Busy f) ?r) (xs @ [v])"
      by (rule ring_goes [of _ _ _ "Got f"]) (use h(2) vw assms(2) q in \<open>auto simp: ring_ok_def\<close>)
    moreover have "busy ?r = busy p" using vw q by (auto simp: busy_def)
    then have "counts_ok (goes w (Busy f) ?r) (xs @ [v])" unfolding counts_ok_def
      using bq [of ?r] C q ru(1) True False by (simp add: running_def split: if_splits)
    moreover have "v \<notin> set xs" using R(7) [of v] vw(2) by simp
    ultimately show ?thesis using T h(1) True v q vw by (auto simp: pool_ok_def)
  next
    case nostart: False
    then have "(if numavail q = 0 then fuse_loop_start_thread m ok q else Inr (0, q)) \<in> {Inr (- 1, q), Inr (0, q)}"
      by (auto simp: fuse_loop_start_thread_def split: option.splits)
    then have "take_request w f m ok p = Inr (goes w (Busy f) q)" using T by auto
    moreover have "ring_ok (goes w (Busy f) q) xs" using ring_goes [OF ru(2), of w "Got f"] assms(2) q by simp
    moreover have "counts_ok (goes w (Busy f) q) xs" unfolding counts_ok_def
      using bq [of q] C q ru(1,3) False by (simp add: running_def)
    ultimately show ?thesis using q by (auto simp: pool_ok_def)
  qed
qed

lemma request_done_ok:
  assumes "pool_ok p xs" "pcs p w = Some (Busy f)"
  shows "\<exists>p' xs' x. request_done w f p = Inr p' \<and> pool_ok p' xs' \<and> main_pc p' = main_pc p \<and> exited p' = exited p \<and> cancelled p' = cancelled p
    \<and> pcs p' = (pcs p)(w \<mapsto> x) \<and> (x \<in> {Checking, Returned} \<and> xs' = xs \<or> x = Unlinked \<and> xs' = remove1 w xs \<and> running p)"
proof -
  note R = ring_okD [OF pool_okD(1) [OF assms(1)]]
  have wx: "w \<in> set xs" using R(7) [of w] assms(2) by simp
  have fb: "finite (busy p)" "w \<in> busy p \<longleftrightarrow> \<not> f" using busy_ring [OF pool_okD(1) [OF assms(1)]] finite_subset assms(2) by (auto simp: busy_def)
  define q where "q = (if f then p else p\<lparr>numavail := numavail p + 1\<rparr>)"
  have q: "links q = links p" "pcs q = pcs p" "numworker q = numworker p" "mt_exit q = mt_exit p" "main_pc q = main_pc p"
    "exited q = exited p" "cancelled q = cancelled p" "numavail q = numavail p + (if f then 0 else 1)" by (simp_all add: q_def)
  have ru: "running q = running p" "ring_ok q xs" "busy q = busy p" using q pool_okD(1) [OF assms(1)] by (auto simp: running_def ring_ok_def busy_def)
  have bq: "int (card (busy (goes w x r))) = int (card (busy p)) - (if f then 0 else 1)" if "busy r = busy p" "x \<noteq> Busy False" for x r
  proof (cases f)
    case True
    then show ?thesis using that fb by (simp add: busy_goes)
  next
    case False
    then have "card (busy p) > 0" using fb by (auto simp: card_gt_0_iff)
    then show ?thesis using that fb False by (simp add: busy_goes)
  qed
  have D: "request_done w f p = (if numavail q > 10 then (if mt_exit p then Inr (goes w Returned q)
         else bindc (on_links (list_del_worker w) q) (\<lambda>p. Inr (goes w Unlinked (p\<lparr>numavail := numavail p - 1, numworker := numworker p - 1\<rparr>))))
      else Inr (goes w Checking q))" by (simp add: request_done_def q_def Let_def)
  show ?thesis
  proof (cases "running p")
    case False
    then have e: "mt_exit p" using pool_okD(2) [OF assms(1)] wx by (auto simp: counts_ok_def split: if_splits)
    have "pool_ok (goes w x q) xs" if "x \<in> {Returned, Checking}" for x
      using ring_goes [OF ru(2), of w "Busy f" x] that assms(2) q ru(1) False pool_okD(2) [OF assms(1)] by (auto simp: pool_ok_def counts_ok_def)
    then show ?thesis using D e q by (cases "numavail q > 10") auto
  next
    case True
    have C: "\<not> mt_exit p" "numworker p = int (length xs)" "numavail p = int (length xs) - int (card (busy p))" "numavail p \<le> 10"
      using pool_okD(2) [OF assms(1)] True by (auto simp: counts_ok_def)
    show ?thesis
    proof (cases "numavail q > 10")
      case False
      have "ring_ok (goes w Checking q) xs" using ring_goes [OF ru(2), of w "Busy f"] assms(2) q by simp
      moreover have "counts_ok (goes w Checking q) xs" unfolding counts_ok_def
        using bq [of q Checking] C q ru True False by (simp add: running_def)
      ultimately show ?thesis using D False q by (auto simp: pool_ok_def)
    next
      case ret: True
      obtain h where h: "list_del_worker w (links q) = Inr h" "dll h 0 (remove1 w xs)" "dom h = dom (links q)"
        using del_worker_ok [OF ru(2) wx] by blast
      let ?r = "q\<lparr>links := h, numavail := numavail q - 1, numworker := numworker q - 1\<rparr>"
      have "ring_ok (goes w Unlinked ?r) (remove1 w xs)"
        using h(2,3) R(3-7) q(1,2) assms(2) by (cases "w = 0") (auto simp: ring_ok_def)
      moreover have "busy ?r = busy p" using ru(3) by (auto simp: busy_def)
      then have "counts_ok (goes w Unlinked ?r) (remove1 w xs)" unfolding counts_ok_def
        using bq [of ?r Unlinked] C q True wx ret by (simp add: running_def length_remove1 of_nat_diff Suc_leI length_pos_if_in_set)
      ultimately have "pool_ok (goes w Unlinked ?r) (remove1 w xs)" by (simp add: pool_ok_def)
      then show ?thesis using D h(1) ret C(1) q True by (auto simp: on_links_def)
    qed
  qed
qed

text \<open>What a step of a worker, or of a signal handler, may change.\<close>

definition evolves :: "pool \<Rightarrow> nat list \<Rightarrow> pool \<Rightarrow> nat list \<Rightarrow> bool" where
  "evolves p xs p' xs' \<longleftrightarrow> main_pc p' = main_pc p \<and> (exited p \<longrightarrow> exited p')
     \<and> (exited p \<longrightarrow> (\<forall>v \<in> set xs'. pcs p' v = Some Receiving \<longrightarrow> pcs p v = Some Receiving \<and> (v \<in> cancelled p \<longrightarrow> v \<in> cancelled p')))
     \<and> (xs = [] \<longrightarrow> xs' = []) \<and> (xs' = xs \<or> (\<exists>v. xs' = xs @ [v] \<and> pcs p' v = Some Checking)
         \<or> (\<exists>w. xs' = remove1 w xs \<and> pcs p' w = Some Unlinked \<and> pcs p w \<noteq> Some Unlinked))"

definition worker_act :: "act \<Rightarrow> bool" where
  "worker_act a = (case a of Main m ok woken \<Rightarrow> False | _ \<Rightarrow> True)"

lemma goes_evolves:
  assumes "pool_ok p xs" "pcs p w = Some y" "y \<notin> {Unlinked, Busy False}" "x \<notin> {Unlinked, Busy False}" "exited p \<longrightarrow> x \<noteq> Receiving"
    "links q = links p" "pcs q = pcs p" "numworker q = numworker p" "numavail q = numavail p" "mt_exit q = mt_exit p" "main_pc q = main_pc p"
    "cancelled q = cancelled p" "exited p \<longrightarrow> exited q"
  shows "pool_ok (goes w x q) xs \<and> evolves p xs (goes w x q) xs"
proof -
  have "pool_ok q xs" using assms(1,6-11) pool_cong [of q p xs] by simp
  then have "pool_ok (goes w x q) xs" using pool_goes [of q xs w y x] assms(2-4,7) by simp
  then show ?thesis using assms(5-13) by (auto simp: evolves_def split: if_splits)
qed

lemma worker_step_ok:
  assumes "pool_ok p xs" "worker_act a" "pool_step a p = Some r"
  shows "\<exists>p' xs'. r = Inr p' \<and> pool_ok p' xs' \<and> evolves p xs p' xs'"
proof (cases a)
  case (Check w)
  then show ?thesis using assms goes_evolves [of p xs w Checking "if exited p then Leaving else Receiving" p]
    by (auto simp: pool_step_def split: if_splits)
next
  case (Receive w m)
  then have w: "pcs p w = Some Receiving" and r: "r = Inr (has_received w m p)" using assms by (auto simp: pool_step_def split: if_splits)
  show ?thesis
  proof (cases m)
    case Failed
    then show ?thesis using r goes_evolves [OF assms(1) w, of Leaving "p\<lparr>exited := True, mt_error := - 1\<rparr>"] by (auto simp: has_received_def)
  qed (use r w goes_evolves [OF assms(1) w, where q = p] in \<open>auto simp: has_received_def\<close>)
next
  case (Cancelled w)
  then show ?thesis using assms goes_evolves [of p xs w Receiving Returned p] by (auto simp: pool_step_def split: if_splits)
next
  case (Take w m ok)
  then obtain f where w: "pcs p w = Some (Got f)" "fresh m p" and r: "r = take_request w f m ok p"
    using assms by (auto simp: pool_step_def split: option.splits wpc.splits if_splits)
  obtain p' xs' where p': "take_request w f m ok p = Inr p'" "pool_ok p' xs'" "main_pc p' = main_pc p" "exited p' = exited p" "cancelled p' = cancelled p"
    "xs' = xs \<and> (\<exists>x. x \<notin> {Receiving, Unlinked} \<and> pcs p' = (pcs p)(w \<mapsto> x))
       \<or> (\<exists>v. v \<noteq> w \<and> v \<notin> set xs \<and> xs' = xs @ [v] \<and> pcs p' = (pcs p)(v \<mapsto> Checking, w \<mapsto> Busy f))"
    using take_request_ok [OF assms(1) w, of ok] by (elim exE conjE) (rule that)
  have "xs \<noteq> []" using ring_okD(7) [OF pool_okD(1) [OF assms(1)], of w] w(1) by auto
  then have "evolves p xs p' xs'" using p'(3-6) unfolding evolves_def by (elim disjE conjE exE) (auto split: if_splits)
  then show ?thesis using r p'(1,2) by blast
next
  case (Done w)
  then obtain f where w: "pcs p w = Some (Busy f)" and r: "r = request_done w f p"
    using assms by (auto simp: pool_step_def split: option.splits wpc.splits if_splits)
  obtain p' xs' x where p': "request_done w f p = Inr p'" "pool_ok p' xs'" "main_pc p' = main_pc p" "exited p' = exited p" "cancelled p' = cancelled p"
    "pcs p' = (pcs p)(w \<mapsto> x)" "x \<in> {Checking, Returned} \<and> xs' = xs \<or> x = Unlinked \<and> xs' = remove1 w xs \<and> running p"
    using request_done_ok [OF assms(1) w] by (elim exE conjE) (rule that)
  have "evolves p xs p' xs'" using p'(3-7) w unfolding evolves_def by (elim disjE conjE) (auto split: if_splits)
  then show ?thesis using r p'(1,2) by blast
next
  case (Free w)
  then have w: "pcs p w = Some Unlinked" and r: "r = Inr (free_worker w p)" using assms by (auto simp: pool_step_def split: if_splits)
  have nx: "w \<notin> set xs" using ring_okD(7) [OF pool_okD(1) [OF assms(1)], of w] w by simp
  have "busy (free_worker w p) = busy p" using w by (auto simp: busy_def free_worker_def)
  moreover have "ring_ok (free_worker w p) xs" using ring_freed [OF pool_okD(1) [OF assms(1)] nx] w by simp
  ultimately have "pool_ok (free_worker w p) xs"
    using pool_okD(2) [OF assms(1)] counts_cong [of "free_worker w p" p xs] by (simp add: pool_ok_def free_worker_def)
  moreover have "evolves p xs (free_worker w p) xs" using nx by (auto simp: evolves_def free_worker_def)
  ultimately show ?thesis using r by blast
next
  case (Post w)
  then show ?thesis using assms goes_evolves [of p xs w Leaving Returned "p\<lparr>finish_sem := finish_sem p + 1\<rparr>"] by (auto simp: pool_step_def split: if_splits)
next
  case Signal
  then show ?thesis using assms pool_cong [of "p\<lparr>exited := True\<rparr>" p xs] by (auto simp: pool_step_def evolves_def)
qed (use assms(2) in \<open>simp add: worker_act_def\<close>)

section \<open>The main thread\<close>

lemma main_goes_simps [simp]:
  "links (main_goes x p) = links p" "pcs (main_goes x p) = pcs p" "mt_exit (main_goes x p) = mt_exit p" "exited (main_goes x p) = exited p"
  "cancelled (main_goes x p) = cancelled p" "main_pc (main_goes x p) = x" "busy (main_goes x p) = busy p"
  "numworker (main_goes x p) = numworker p" "numavail (main_goes x p) = numavail p"
  by (simp_all add: main_goes_def busy_def)

lemma pool_main_goes:
  assumes "pool_ok p xs" "running p" "running (main_goes x p)"
  shows "pool_ok (main_goes x p) xs"
  using assms by (auto simp: pool_ok_def ring_ok_def counts_ok_def)

lemma head_of_ring: "ring_ok p xs \<Longrightarrow> \<exists>x. load_head (links p) 0 = Inr x \<and> lnext x = hd (xs @ [0])"
  using dll_ends [OF ring_okD(1), of p xs] by (auto simp: load_head_def nx_def split: option.splits)

lemma next_in_ring:
  assumes "ring_ok p xs" "xs = as @ w # bs"
  shows "\<exists>x. load_head (links p) w = Inr x \<and> lnext x = hd (bs @ [0])"
proof -
  have "chain (nx (links p)) (pv (links p)) w bs 0" using ring_okD(1) [OF assms(1)] assms(2) by (simp add: dll_def chain_append)
  then show ?thesis using chain_ends by (fastforce simp: load_head_def nx_def split: option.splits)
qed

lemma join_ok:
  assumes "pool_ok p (w # xs)" "main_pc p = Joining"
  shows "\<exists>p'. fuse_join_worker w p = Inr p' \<and> pool_ok p' xs \<and> pcs p' = (pcs p)(w := None) \<and> main_pc p' = Joining \<and> exited p' = exited p
    \<and> cancelled p' = cancelled p - {w}"
proof -
  note R = ring_okD [OF pool_okD(1) [OF assms(1)]]
  obtain h where h: "list_del_worker w (links p) = Inr h" "dll h 0 xs" "dom h = dom (links p)"
    using del_worker_ok [OF pool_okD(1) [OF assms(1)], of w] by auto
  let ?p = "free_worker w (p\<lparr>links := h\<rparr>)"
  have "dll (links ?p) 0 xs" by (rule iffD1 [OF dll_cong h(2)]) (use R(2,3) in \<open>auto simp: free_worker_def\<close>)
  moreover have "dom (links ?p) = insert 0 (dom (pcs ?p))" using h(3) R(2,5) by (auto simp: free_worker_def)
  moreover have "set xs = {v. \<exists>x. pcs ?p v = Some x \<and> x \<noteq> Unlinked}"
  proof (intro set_eqI)
    fix v show "v \<in> set xs \<longleftrightarrow> v \<in> {v. \<exists>x. pcs ?p v = Some x \<and> x \<noteq> Unlinked}" using R(3) R(7) [of v] by (auto simp: free_worker_def)
  qed
  ultimately have "ring_ok ?p xs" using R(4,6) by (auto simp: ring_ok_def free_worker_def)
  moreover have "counts_ok ?p xs" using pool_okD(2) [OF assms(1)] assms(2) by (simp add: counts_ok_def running_def free_worker_def)
  ultimately show ?thesis using h(1) assms(2) by (simp add: fuse_join_worker_def on_links_def pool_ok_def) (simp add: free_worker_def)
qed

text \<open>How far the main thread has come with the cancellation of the workers.\<close>

definition none_missed :: "pool \<Rightarrow> nat list \<Rightarrow> bool" where
  "none_missed p as \<longleftrightarrow> exited p \<and> (\<forall>v \<in> set as. pcs p v = Some Receiving \<longrightarrow> v \<in> cancelled p)"

definition walk_ok :: "pool \<Rightarrow> nat list \<Rightarrow> bool" where
  "walk_ok p xs = (case main_pc p of
       Cancel w \<Rightarrow> (\<exists>as bs. xs = as @ bs \<and> w = hd (bs @ [0]) \<and> none_missed p as)
     | Next w \<Rightarrow> (\<exists>as bs. xs = as @ w # bs \<and> none_missed p (as @ [w]))
     | SetExit \<Rightarrow> none_missed p xs
     | Joining \<Rightarrow> none_missed p xs
     | _ \<Rightarrow> True)"

definition walking :: "pool \<Rightarrow> bool" where
  "walking p = (case main_pc p of Cancel _ \<Rightarrow> True | Next _ \<Rightarrow> True | _ \<Rightarrow> False)"

definition reach_ok :: "pool \<Rightarrow> nat list \<Rightarrow> bool" where
  "reach_ok p xs \<longleftrightarrow> pool_ok p xs \<and> (main_pc p = Start \<longrightarrow> xs = [])"

lemma start_step_ok:
  assumes "reach_ok p xs" "main_pc p = Start" "main_step m ok woken p = Some r"
  shows "\<exists>p' xs'. r = Inr p' \<and> reach_ok p' xs' \<and> walk_ok p' xs'"
proof -
  have xs: "xs = []" and P: "pool_ok p []" and fr: "fresh m p"
    using assms by (auto simp: reach_ok_def main_step_def split: if_splits)
  note R = ring_okD [OF pool_okD(1) [OF P]]
  have b: "busy p = {}" using busy_ring [OF pool_okD(1) [OF P]] by simp
  have C: "numworker p = 0" "numavail p = 0" "\<not> mt_exit p" using pool_okD(2) [OF P] assms(2) b by (auto simp: counts_ok_def running_def)
  have r: "r = bindc (fuse_loop_start_thread m ok p) (\<lambda>(err, p).
      Inr (if err = 0 then main_goes Waiting p else (main_goes (Finished err) p)\<lparr>exited := False\<rparr>))"
    using assms(2,3) fr by (simp add: main_step_def)
  show ?thesis
  proof (cases "m \<noteq> None \<and> ok")
    case False
    then have "fuse_loop_start_thread m ok p = Inr (- 1, p)" by (auto simp: fuse_loop_start_thread_def split: option.splits)
    moreover have "reach_ok ((main_goes (Finished (- 1)) p)\<lparr>exited := False\<rparr>) []"
      using P by (auto simp: reach_ok_def pool_ok_def ring_ok_def counts_ok_def running_def)
    ultimately show ?thesis using r by (auto simp: walk_ok_def)
  next
    case True
    then obtain v where v: "m = Some v" by blast
    obtain h where h: "fuse_loop_start_thread (Some v) True p = Inr (0, (goes v Checking p)\<lparr>links := h, numavail := numavail p + 1, numworker := numworker p + 1\<rparr>)"
      "ring_ok ((goes v Checking p)\<lparr>links := h\<rparr>) [v]"
      using start_thread_ok [OF pool_okD(1) [OF P], of v] fr v by auto
    let ?q = "main_goes Waiting ((goes v Checking p)\<lparr>links := h, numavail := numavail p + 1, numworker := numworker p + 1\<rparr>)"
    have "busy ?q = {}" using b by (auto simp: busy_def)
    then have "reach_ok ?q [v]" using h(2) C by (auto simp: reach_ok_def pool_ok_def ring_ok_def counts_ok_def running_def)
    then show ?thesis using r h(1) v True by (auto simp: walk_ok_def intro!: exI [of _ "[v]"])
  qed
qed

lemma waiting_step_ok:
  assumes "reach_ok p xs" "main_pc p = Waiting" "main_step m ok woken p = Some r"
  shows "\<exists>p'. r = Inr p' \<and> reach_ok p' xs \<and> walk_ok p' xs"
proof -
  have P: "pool_ok p xs" using assms(1) by (simp add: reach_ok_def)
  obtain x where x: "load_head (links p) 0 = Inr x" "lnext x = hd (xs @ [0])" using head_of_ring [OF pool_okD(1) [OF P]] by blast
  have "pool_ok (main_goes (Cancel (lnext x)) p) xs" by (rule pool_main_goes [OF P]) (use assms(2) in \<open>auto simp: running_def\<close>)
  moreover have "pool_ok (p\<lparr>finish_sem := k\<rparr>) xs" for k using P pool_cong [of "p\<lparr>finish_sem := k\<rparr>" p xs] by simp
  moreover have "exited p \<Longrightarrow> \<exists>as bs. xs = as @ bs \<and> hd (xs @ [0]) = hd (bs @ [0]) \<and> none_missed q as" if "exited q" for q
    using that by (intro exI [of _ "[]"] exI [of _ xs]) (simp add: none_missed_def)
  ultimately show ?thesis using assms x P by (auto simp: main_step_def reach_ok_def walk_ok_def split: if_splits)
qed

lemma walk_step_ok:
  assumes "reach_ok p xs" "main_pc p \<in> {Cancel w, Next w, SetExit}" "main_step m ok woken p = Some r"
  shows "walk_ok p xs \<Longrightarrow> \<exists>p'. r = Inr p' \<and> reach_ok p' xs \<and> walk_ok p' xs" "r = Inr p' \<Longrightarrow> reach_ok p' xs"
proof -
  have P: "pool_ok p xs" using assms(1) by (simp add: reach_ok_def)
  have run: "running p" using assms(2) by (auto simp: running_def)
  have M: "reach_ok (main_goes x p) xs" if "x \<noteq> Start" "x \<noteq> Joining" "\<forall>e. x \<noteq> Finished e" for x
    using pool_main_goes [OF P run, of x] that by (auto simp: reach_ok_def running_def split: mpc.splits)
  have N: "reach_ok (main_goes (Next w) (p\<lparr>cancelled := C\<rparr>)) xs" for C
    using M [of "Next w"] pool_cong [of "main_goes (Next w) (p\<lparr>cancelled := C\<rparr>)" "main_goes (Next w) p" xs] by (simp add: reach_ok_def)
  have J: "reach_ok (main_goes Joining (p\<lparr>mt_exit := True\<rparr>)) xs"
    using P by (auto simp: reach_ok_def pool_ok_def ring_ok_def counts_ok_def running_def)
  show "reach_ok p' xs" if "r = Inr p'"
    using assms(2,3) that M N J by (auto simp: main_step_def bindc_eq_Inr split: if_splits)
  assume W: "walk_ok p xs"
  consider "main_pc p = Cancel w" | "main_pc p = Next w" | "main_pc p = SetExit" using assms(2) by blast
  then show "\<exists>p'. r = Inr p' \<and> reach_ok p' xs \<and> walk_ok p' xs"
  proof cases
    case 1
    then obtain as bs where as: "xs = as @ bs" "w = hd (bs @ [0])" "none_missed p as" using W by (auto simp: walk_ok_def)
    show ?thesis
    proof (cases bs)
      case Nil
      then have "r = Inr (main_goes SetExit p)" using assms(3) 1 as by (simp add: main_step_def)
      then show ?thesis using M [of SetExit] as Nil by (auto simp: walk_ok_def none_missed_def)
    next
      case (Cons b cs)
      then have x: "xs = as @ w # cs" using as by simp
      then have w0: "w \<noteq> 0" using ring_okD(2) [OF pool_okD(1) [OF P]] by auto
      obtain y where "load_head (links p) w = Inr y" using next_in_ring [OF pool_okD(1) [OF P] x] by blast
      then have "r = Inr (main_goes (Next w) (p\<lparr>cancelled := insert w (cancelled p)\<rparr>))" using assms(3) 1 w0 by (simp add: main_step_def)
      moreover have "none_missed (main_goes (Next w) (p\<lparr>cancelled := insert w (cancelled p)\<rparr>)) (as @ [w])" using as(3) by (auto simp: none_missed_def)
      ultimately show ?thesis using N x by (auto simp: walk_ok_def)
    qed
  next
    case 2
    then obtain as bs where as: "xs = as @ w # bs" "none_missed p (as @ [w])" using W by (auto simp: walk_ok_def)
    obtain y where y: "load_head (links p) w = Inr y" "lnext y = hd (bs @ [0])" using next_in_ring [OF pool_okD(1) [OF P] as(1)] by blast
    then have "r = Inr (main_goes (Cancel (hd (bs @ [0]))) p)" using assms(3) 2 by (simp add: main_step_def)
    moreover have "\<exists>as' bs'. xs = as' @ bs' \<and> hd (bs @ [0]) = hd (bs' @ [0]) \<and> none_missed (main_goes z p) as'" for z
      using as by (intro exI [of _ "as @ [w]"] exI [of _ bs]) (simp add: none_missed_def)
    ultimately show ?thesis using M [of "Cancel (hd (bs @ [0]))"] by (simp add: walk_ok_def)
  next
    case 3
    then have "r = Inr (main_goes Joining (p\<lparr>mt_exit := True\<rparr>))" using assms(3) by (simp add: main_step_def)
    then show ?thesis using J W 3 by (auto simp: walk_ok_def none_missed_def)
  qed
qed

lemma joining_step_ok:
  assumes "reach_ok p xs" "main_pc p = Joining" "main_step m ok woken p = Some r"
  shows "\<exists>p' xs'. r = Inr p' \<and> reach_ok p' xs' \<and> (walk_ok p xs \<longrightarrow> walk_ok p' xs')
    \<and> (xs = [] \<and> main_pc p' = Finished (mt_error p) \<and> pcs p' = pcs p \<or> main_pc p' = Joining \<and> xs \<noteq> [] \<and> pcs p' = (pcs p)(hd xs := None))"
proof -
  have P: "pool_ok p xs" using assms(1) by (simp add: reach_ok_def)
  note R = ring_okD [OF pool_okD(1) [OF P]]
  obtain x where x: "load_head (links p) 0 = Inr x" "lnext x = hd (xs @ [0])" using head_of_ring [OF pool_okD(1) [OF P]] by blast
  show ?thesis
  proof (cases xs)
    case Nil
    then have "r = Inr ((main_goes (Finished (mt_error p)) p)\<lparr>exited := False\<rparr>)" using assms(2,3) x by (simp add: main_step_def)
    moreover have "reach_ok ((main_goes (Finished (mt_error p)) p)\<lparr>exited := False\<rparr>) []"
      using P Nil by (auto simp: reach_ok_def pool_ok_def ring_ok_def counts_ok_def running_def)
    ultimately show ?thesis using Nil by (auto simp: walk_ok_def)
  next
    case (Cons w ys)
    have w: "w \<noteq> 0" "w \<notin> set ys" using R(2,3) Cons by auto
    then have r: "r = fuse_join_worker w p" using assms(2,3) x Cons by (auto simp: main_step_def split: if_splits)
    obtain p' where p': "fuse_join_worker w p = Inr p'" "pool_ok p' ys" "pcs p' = (pcs p)(w := None)" "main_pc p' = Joining" "exited p' = exited p"
      "cancelled p' = cancelled p - {w}" using join_ok [of p w ys] P Cons assms(2) by auto
    have "walk_ok p xs \<longrightarrow> walk_ok p' ys" using p'(3-6) assms(2) Cons w(2) by (auto simp: walk_ok_def none_missed_def)
    then show ?thesis using r p' Cons by (auto simp: reach_ok_def)
  qed
qed

lemma finished_step: "main_pc p = Finished e \<Longrightarrow> main_step m ok woken p = None"
  by (simp add: main_step_def)

lemma main_ok:
  assumes "reach_ok p xs" "main_step m ok woken p = Some r"
  shows "walk_ok p xs \<Longrightarrow> \<exists>p' xs'. r = Inr p' \<and> reach_ok p' xs' \<and> walk_ok p' xs'" "r = Inr p' \<Longrightarrow> \<exists>xs'. reach_ok p' xs'"
proof -
  have "(walk_ok p xs \<longrightarrow> (\<exists>p' xs'. r = Inr p' \<and> reach_ok p' xs' \<and> walk_ok p' xs')) \<and> (r = Inr p' \<longrightarrow> (\<exists>xs'. reach_ok p' xs'))" for p'
  proof (cases "main_pc p")
    case Start
    then show ?thesis using start_step_ok [OF assms(1) _ assms(2)] by auto
  next
    case Waiting
    then show ?thesis using waiting_step_ok [OF assms(1) _ assms(2)] by auto
  next
    case (Cancel w)
    then show ?thesis using walk_step_ok [OF assms(1) _ assms(2), of w] by blast
  next
    case (Next w)
    then show ?thesis using walk_step_ok [OF assms(1) _ assms(2), of w] by blast
  next
    case SetExit
    then show ?thesis using walk_step_ok [OF assms(1) _ assms(2), of 0] by blast
  next
    case Joining
    then show ?thesis using joining_step_ok [OF assms(1) _ assms(2)] by auto
  next
    case (Finished e)
    then show ?thesis using assms(2) by (simp add: finished_step)
  qed
  then show "walk_ok p xs \<Longrightarrow> \<exists>p' xs'. r = Inr p' \<and> reach_ok p' xs' \<and> walk_ok p' xs'" "r = Inr p' \<Longrightarrow> \<exists>xs'. reach_ok p' xs'" by blast+
qed

section \<open>Runs\<close>

text \<open>A run is calm if no worker takes itself off the list while the main thread walks along it.\<close>

definition undisturbed :: "pool \<Rightarrow> pool \<Rightarrow> bool" where
  "undisturbed p p' \<longleftrightarrow> (walking p \<longrightarrow> (\<forall>w. pcs p' w = Some Unlinked \<longrightarrow> pcs p w = Some Unlinked))"

inductive pool_reach :: "bool \<Rightarrow> pool \<Rightarrow> bool" for calm :: bool where
  start: "pool_reach calm pool0"
| step: "pool_reach calm p \<Longrightarrow> pool_step a p = Some (Inr p') \<Longrightarrow> (calm \<Longrightarrow> undisturbed p p') \<Longrightarrow> pool_reach calm p'"

lemma pool0_ok: "reach_ok pool0 []" "walk_ok pool0 []"
  by (auto simp: pool0_def reach_ok_def pool_ok_def ring_ok_def counts_ok_def running_def busy_def walk_ok_def dll_def nx_def pv_def)

lemma worker_reach_ok:
  assumes "reach_ok p xs" "worker_act a" "pool_step a p = Some r"
  shows "\<exists>p' xs'. r = Inr p' \<and> reach_ok p' xs' \<and> evolves p xs p' xs'"
proof -
  obtain p' xs' where "r = Inr p'" "pool_ok p' xs'" "evolves p xs p' xs'" using worker_step_ok [OF _ assms(2,3), of xs] assms(1) by (auto simp: reach_ok_def)
  then show ?thesis using assms(1) by (auto simp: reach_ok_def evolves_def)
qed

lemma main_act: "\<not> worker_act a \<Longrightarrow> \<exists>m ok woken. a = Main m ok woken \<and> pool_step a p = main_step m ok woken p"
  by (cases a) (auto simp: worker_act_def pool_step_def)

lemma none_missed_evolves:
  assumes "none_missed p as" "evolves p xs p' xs'" "\<forall>v \<in> set as'. v \<in> set xs' \<and> (pcs p' v = Some Receiving \<longrightarrow> v \<in> set as)"
  shows "none_missed p' as'"
  using assms by (auto simp: none_missed_def evolves_def)

lemma walk_evolves:
  assumes "evolves p xs p' xs'" "walk_ok p xs" "undisturbed p p'"
  shows "walk_ok p' xs'"
proof -
  note E = assms(1) [unfolded evolves_def]
  have mp: "main_pc p' = main_pc p" using E by blast
  have grow: "xs' = xs \<or> (\<exists>v. xs' = xs @ [v] \<and> pcs p' v = Some Checking)" if "walking p"
    using E assms(3) that by (auto simp: undisturbed_def)
  have all: "none_missed p' xs'" if "none_missed p xs"
  proof (rule none_missed_evolves [OF that assms(1)], intro ballI conjI impI)
    fix v assume "v \<in> set xs'" "pcs p' v = Some Receiving"
    then show "v \<in> set xs" using E by (auto dest: subsetD [OF set_remove1_subset])
  qed simp
  show ?thesis
  proof (cases "main_pc p")
    case (Cancel w)
    then obtain as bs where as: "xs = as @ bs" "w = hd (bs @ [0])" "none_missed p as" using assms(2) by (auto simp: walk_ok_def)
    have "walking p" using Cancel by (simp add: walking_def)
    from grow [OF this] have "\<exists>as' bs'. xs' = as' @ bs' \<and> w = hd (bs' @ [0]) \<and> none_missed p' as'"
    proof (elim disjE exE conjE)
      assume x: "xs' = xs"
      have "none_missed p' as" by (rule none_missed_evolves [OF as(3) assms(1)]) (use as(1) x in auto)
      then show ?thesis using as x by blast
    next
      fix v assume x: "xs' = xs @ [v]" "pcs p' v = Some Checking"
      show ?thesis
      proof (cases bs)
        case Nil
        have "none_missed p' xs'" by (rule none_missed_evolves [OF as(3) assms(1)]) (use as(1) Nil x in auto)
        then show ?thesis using as Nil by (intro exI [of _ xs'] exI [of _ "[]"]) simp
      next
        case (Cons b cs)
        have "none_missed p' as" by (rule none_missed_evolves [OF as(3) assms(1)]) (use as(1) x in auto)
        then show ?thesis using as Cons x by (intro exI [of _ as] exI [of _ "bs @ [v]"]) simp
      qed
    qed
    then show ?thesis using Cancel mp by (simp add: walk_ok_def)
  next
    case (Next w)
    then obtain as bs where as: "xs = as @ w # bs" "none_missed p (as @ [w])" using assms(2) by (auto simp: walk_ok_def)
    have "walking p" using Next by (simp add: walking_def)
    then obtain cs where x: "xs' = xs @ cs" using grow by auto
    have "none_missed p' (as @ [w])" by (rule none_missed_evolves [OF as(2) assms(1)]) (use as(1) x in auto)
    then show ?thesis using Next mp as x by (auto simp: walk_ok_def)
  qed (use assms(2) mp all in \<open>auto simp: walk_ok_def\<close>)
qed

lemma pool_reach_ok: "pool_reach calm p \<Longrightarrow> \<exists>xs. reach_ok p xs \<and> (calm \<longrightarrow> walk_ok p xs)"
proof (induction rule: pool_reach.induct)
  case start
  then show ?case using pool0_ok by blast
next
  case (step p a p')
  then obtain xs where xs: "reach_ok p xs" "calm \<longrightarrow> walk_ok p xs" by blast
  show ?case
  proof (cases "worker_act a")
    case True
    then obtain xs' where "reach_ok p' xs'" "evolves p xs p' xs'" using worker_reach_ok [OF xs(1) True step.hyps(2)] by auto
    then show ?thesis using walk_evolves [of p xs p' xs'] xs(2) step.hyps(3) by blast
  next
    case False
    then obtain m ok woken where "main_step m ok woken p = Some (Inr p')" using main_act [OF False, of p] step.hyps(2) by auto
    then show ?thesis using main_ok [OF xs(1), of m ok woken] xs(2) by blast
  qed
qed

lemma idle_card:
  assumes "ring_ok p xs"
  shows "int (length xs) - int (card (busy p)) = int (card {w. (\<exists>x. pcs p w = Some x \<and> x \<noteq> Unlinked) \<and> w \<notin> busy p})"
proof -
  have "{w. (\<exists>x. pcs p w = Some x \<and> x \<noteq> Unlinked) \<and> w \<notin> busy p} = set xs - busy p" using ring_okD(7) [OF assms] by auto
  moreover have "card (set xs - busy p) = card (set xs) - card (busy p)" "card (busy p) \<le> card (set xs)"
    using busy_ring [OF assms] by (auto simp: card_Diff_subset finite_subset card_mono)
  ultimately show ?thesis using ring_okD(3) [OF assms] by (simp add: distinct_card of_nat_diff)
qed

text \<open>
  (C30) The pool of threads, over every interleaving of workers, signals and the main thread: the workers that have not
  retired form one well-linked ring; until the main thread starts joining, \<open>numworker\<close> counts them and \<open>numavail\<close>
  counts those that are not serving a request (other than a forget), which are never more than ten; and no step of a worker
  touches freed memory.
\<close>

theorem pool_invariant:
  assumes "pool_reach calm p"
  shows "(\<exists>xs. dll (links p) 0 xs \<and> set xs = {w. \<exists>x. pcs p w = Some x \<and> x \<noteq> Unlinked} \<and> (running p \<longrightarrow> numworker p = int (length xs)))
    \<and> (running p \<longrightarrow> numavail p = int (card {w. (\<exists>x. pcs p w = Some x \<and> x \<noteq> Unlinked) \<and> w \<notin> busy p}) \<and> numavail p \<le> 10)
    \<and> (\<forall>a r. worker_act a \<longrightarrow> pool_step a p = Some r \<longrightarrow> defined r)"
proof -
  obtain xs where xs: "reach_ok p xs" using pool_reach_ok [OF assms] by blast
  then have P: "ring_ok p xs" "counts_ok p xs" by (auto simp: reach_ok_def pool_ok_def)
  have "dll (links p) 0 xs \<and> set xs = {w. \<exists>x. pcs p w = Some x \<and> x \<noteq> Unlinked} \<and> (running p \<longrightarrow> numworker p = int (length xs))"
    using P by (auto simp: ring_ok_def counts_ok_def)
  moreover have "running p \<longrightarrow> numavail p = int (card {w. (\<exists>x. pcs p w = Some x \<and> x \<noteq> Unlinked) \<and> w \<notin> busy p}) \<and> numavail p \<le> 10"
    using P(2) idle_card [OF P(1)] by (auto simp: counts_ok_def)
  moreover have "\<forall>a r. worker_act a \<longrightarrow> pool_step a p = Some r \<longrightarrow> defined r" using worker_reach_ok [OF xs] by fastforce
  ultimately show ?thesis by blast
qed

section \<open>The end of the loop\<close>

fun wrank :: "wpc \<Rightarrow> nat" where
  "wrank Checking = 3" | "wrank Receiving = 4" | "wrank (Got _) = 2" | "wrank (Busy _) = 4" | "wrank Leaving = 2"
| "wrank Unlinked = 1" | "wrank Returned = 1"

definition pcs_rank :: "(nat \<rightharpoonup> wpc) \<Rightarrow> nat" where
  "pcs_rank f = (\<Sum>w \<in> dom f. wrank (the (f w)))"

definition pool_rank :: "pool \<Rightarrow> nat" where
  "pool_rank p = pcs_rank (pcs p) + (if main_pc p = Joining then 1 else 0)"

lemma pcs_rank_upd:
  assumes "finite (dom f)" "f w = Some y"
  shows "pcs_rank (f(w \<mapsto> x)) + wrank y = pcs_rank f + wrank x" "pcs_rank (f(w := None)) + wrank y = pcs_rank f"
proof -
  have w: "w \<in> dom f" using assms(2) by blast
  have a: "(\<Sum>v \<in> dom f - {w}. wrank (the ((f(w := z)) v))) = (\<Sum>v \<in> dom f - {w}. wrank (the (f v)))" for z by (rule sum.cong) auto
  have f: "pcs_rank f = wrank y + (\<Sum>v \<in> dom f - {w}. wrank (the (f v)))" using sum.remove [OF assms(1) w, of "\<lambda>v. wrank (the (f v))"] assms(2) by (simp add: pcs_rank_def)
  have d: "dom (f(w \<mapsto> x)) = dom f" using w by auto
  have "pcs_rank (f(w \<mapsto> x)) = wrank x + (\<Sum>v \<in> dom f - {w}. wrank (the ((f(w \<mapsto> x)) v)))"
    unfolding pcs_rank_def d using sum.remove [OF assms(1) w, of "\<lambda>v. wrank (the ((f(w \<mapsto> x)) v))"] by simp
  then show "pcs_rank (f(w \<mapsto> x)) + wrank y = pcs_rank f + wrank x" unfolding a f by simp
  show "pcs_rank (f(w := None)) + wrank y = pcs_rank f" using a [of None] f by (simp add: pcs_rank_def)
qed

lemma joining_worker_rank:
  assumes "reach_ok p xs" "walk_ok p xs" "main_pc p = Joining" "worker_act a" "a \<noteq> Signal" "pool_step a p = Some (Inr p')"
  shows "pcs_rank (pcs p') < pcs_rank (pcs p)"
proof -
  have P: "pool_ok p xs" using assms(1) by (simp add: reach_ok_def)
  have ex: "exited p" "mt_exit p" using assms(2,3) pool_okD(2) [OF P] by (auto simp: walk_ok_def none_missed_def counts_ok_def running_def)
  have lt: "pcs_rank ((pcs p)(w \<mapsto> x)) < pcs_rank (pcs p)" if "pcs p w = Some y" "wrank x < wrank y" for w x y
    using pcs_rank_upd(1) [OF ring_okD(6) [OF pool_okD(1) [OF P]] that(1), of x] that(2) by simp
  show ?thesis
  proof (cases a)
    case (Check w)
    then show ?thesis using assms(6) lt [of w Checking Leaving] ex by (auto simp: pool_step_def split: if_splits)
  next
    case (Receive w r)
    then show ?thesis using assms(6) lt [of w Receiving] by (cases r) (auto simp: pool_step_def has_received_def split: if_splits)
  next
    case (Cancelled w)
    then show ?thesis using assms(6) lt [of w Receiving Returned] by (auto simp: pool_step_def split: if_splits)
  next
    case (Take w m ok)
    then obtain f where "pcs p w = Some (Got f)" "take_request w f m ok p = Inr p'"
      using assms(6) by (auto simp: pool_step_def split: option.splits wpc.splits if_splits)
    then show ?thesis using lt [of w "Got f" Returned] ex by (auto simp: take_request_def)
  next
    case (Done w)
    then obtain f where w: "pcs p w = Some (Busy f)" "request_done w f p = Inr p'"
      using assms(6) by (auto simp: pool_step_def split: option.splits wpc.splits if_splits)
    then have "pcs p' \<in> {(pcs p)(w \<mapsto> Returned), (pcs p)(w \<mapsto> Checking)}" using ex by (auto simp: request_done_def Let_def split: if_splits)
    then show ?thesis using lt [of w "Busy f"] w(1) by auto
  next
    case (Free w)
    then show ?thesis using assms(6) pcs_rank_upd(2) [OF ring_okD(6) [OF pool_okD(1) [OF P]], of w Unlinked]
      by (auto simp: pool_step_def free_worker_def split: if_splits)
  next
    case (Post w)
    then show ?thesis using assms(6) lt [of w Leaving Returned] by (auto simp: pool_step_def split: if_splits)
  qed (use assms(4,5) in \<open>auto simp: worker_act_def\<close>)
qed

lemma joining_rank:
  assumes "reach_ok p xs" "walk_ok p xs" "main_pc p = Joining" "a \<noteq> Signal" "pool_step a p = Some (Inr p')"
  shows "pool_rank p' < pool_rank p" "main_pc p' = Joining \<or> (\<exists>e. main_pc p' = Finished e)"
proof -
  have P: "pool_ok p xs" using assms(1) by (simp add: reach_ok_def)
  have "pool_rank p' < pool_rank p \<and> (main_pc p' = Joining \<or> (\<exists>e. main_pc p' = Finished e))"
  proof (cases "worker_act a")
    case True
    then show ?thesis using joining_worker_rank [OF assms(1-3) True assms(4,5)] worker_reach_ok [OF assms(1) True assms(5)] assms(3)
      by (auto simp: pool_rank_def evolves_def)
  next
    case False
    then obtain m ok woken where m: "main_step m ok woken p = Some (Inr p')" using main_act [OF False, of p] assms(5) by auto
    have pos: "wrank y > 0" for y by (cases y) auto
    have j: "xs = [] \<and> main_pc p' = Finished (mt_error p) \<and> pcs p' = pcs p \<or> main_pc p' = Joining \<and> xs \<noteq> [] \<and> pcs p' = (pcs p)(hd xs := None)"
      using joining_step_ok [OF assms(1,3) m] by auto
    then show ?thesis
    proof (elim disjE conjE)
      assume l: "main_pc p' = Joining" "xs \<noteq> []" "pcs p' = (pcs p)(hd xs := None)"
      then obtain y where "pcs p (hd xs) = Some y" using ring_okD(7) [OF pool_okD(1) [OF P], of "hd xs"] by auto
      then show ?thesis using pcs_rank_upd(2) [OF ring_okD(6) [OF pool_okD(1) [OF P]], of "hd xs" y] pos [of y] l assms(3) by (simp add: pool_rank_def)
    qed (use assms(3) in \<open>simp add: pool_rank_def\<close>)
  qed
  then show "pool_rank p' < pool_rank p" "main_pc p' = Joining \<or> (\<exists>e. main_pc p' = Finished e)" by blast+
qed

definition own_act :: "act \<Rightarrow> bool" where
  "own_act a = (case a of Signal \<Rightarrow> False | Receive _ _ \<Rightarrow> False | _ \<Rightarrow> True)"

lemma joining_enabled:
  assumes "reach_ok p xs" "walk_ok p xs" "main_pc p = Joining"
  shows "\<exists>a r. own_act a \<and> pool_step a p = Some r"
proof -
  have P: "pool_ok p xs" using assms(1) by (simp add: reach_ok_def)
  obtain x where x: "load_head (links p) 0 = Inr x" "lnext x = hd (xs @ [0])" using head_of_ring [OF pool_okD(1) [OF P]] by blast
  have M: "\<exists>a r. own_act a \<and> pool_step a p = Some r" if "\<exists>r. main_step None True True p = Some r"
    using that by (intro exI [of _ "Main None True True"]) (auto simp: own_act_def pool_step_def)
  show ?thesis
  proof (cases xs)
    case Nil
    then show ?thesis using x assms(3) by (intro M) (simp add: main_step_def)
  next
    case (Cons w ys)
    then obtain y where y: "pcs p w = Some y" "y \<noteq> Unlinked" using ring_okD(7) [OF pool_okD(1) [OF P], of w] by auto
    show ?thesis
    proof (cases y)
      case Checking
      then show ?thesis using y by (intro exI [of _ "Check w"]) (auto simp: own_act_def pool_step_def)
    next
      case Receiving
      then show ?thesis using y assms(2,3) Cons by (intro exI [of _ "Cancelled w"]) (auto simp: own_act_def pool_step_def walk_ok_def none_missed_def)
    next
      case (Got f)
      then show ?thesis using y by (intro exI [of _ "Take w None True"]) (auto simp: own_act_def pool_step_def fresh_def)
    next
      case (Busy f)
      then show ?thesis using y by (intro exI [of _ "Done w"]) (auto simp: own_act_def pool_step_def)
    next
      case Leaving
      then show ?thesis using y by (intro exI [of _ "Post w"]) (auto simp: own_act_def pool_step_def)
    next
      case Returned
      then show ?thesis using y x assms(3) Cons by (intro M) (auto simp: main_step_def)
    qed (use y in simp)
  qed
qed

text \<open>
  (C31) The end of the multithreaded loop, in runs in which no worker retires while the main thread walks along the list: no
  step of any thread touches freed memory, and once the main thread joins the workers it never waits for good. Until it
  has finished some thread can go on without a further request or signal, and every step that is not a signal brings
  the pool closer to its end, so that it has ended after at most \<open>pool_rank\<close> such steps.
\<close>

theorem pool_shuts_down:
  assumes "pool_reach True p"
  shows "(\<forall>a r. pool_step a p = Some r \<longrightarrow> defined r)
    \<and> (main_pc p = Joining \<longrightarrow> (\<exists>a r. own_act a \<and> pool_step a p = Some r)
        \<and> (\<forall>a p'. a \<noteq> Signal \<longrightarrow> pool_step a p = Some (Inr p') \<longrightarrow>
             pool_rank p' < pool_rank p \<and> (main_pc p' = Joining \<or> (\<exists>e. main_pc p' = Finished e))))"
proof -
  obtain xs where xs: "reach_ok p xs" "walk_ok p xs" using pool_reach_ok [OF assms] by blast
  have "defined r" if st: "pool_step a p = Some r" for a r
  proof (cases "worker_act a")
    case True
    then show ?thesis using worker_reach_ok [OF xs(1) True st] by auto
  next
    case False
    then obtain m ok woken where "main_step m ok woken p = Some r" using main_act [OF False, of p] st by auto
    then show ?thesis using main_ok(1) [OF xs(1) _ xs(2)] by fastforce
  qed
  then show ?thesis using joining_enabled [OF xs] joining_rank [OF xs] by blast
qed

text \<open>
  (C32) The main thread can use freed memory: it walks along the list of workers without the mutex. In every state that the pool
  can reach in which this walk is at a worker, about to cancel it or to read its \<open>next\<close>, and the worker still has a request while
  ten others are idle, the worker may finish the request and retire, since eleven are idle then; this frees its structure, and the
  next step of the main thread reads it.
\<close>

theorem main_walk_races:
  assumes "pool_reach calm p" "main_pc p = Cancel w \<or> main_pc p = Next w" "pcs p w = Some (Busy False)" "numavail p = 10"
  shows "\<exists>p1 p2. pool_step (Done w) p = Some (Inr p1) \<and> pool_step (Free w) p1 = Some (Inr p2)
    \<and> pool_step (Main m ok woken) p2 = Some (Inl Dangling)"
proof -
  obtain xs where xs: "pool_ok p xs" using pool_reach_ok [OF assms(1)] by (auto simp: reach_ok_def)
  note R = ring_okD [OF pool_okD(1) [OF xs]]
  have w: "w \<in> set xs" "w \<noteq> 0" using R(4) R(7) [of w] assms(3) by (auto, cases w) auto
  have "\<not> mt_exit p" using pool_okD(2) [OF xs] assms(2) by (auto simp: counts_ok_def running_def)
  moreover obtain h where h: "list_del_worker w (links p) = Inr h" using del_worker_ok [OF pool_okD(1) [OF xs] w(1)] by blast
  ultimately have "request_done w False p = Inr (goes w Unlinked (p\<lparr>links := h, numavail := 10, numworker := numworker p - 1\<rparr>))"
    using assms(4) by (simp add: request_done_def on_links_def Let_def)
  then show ?thesis using assms(2,3) w(2)
    by (auto simp: pool_step_def main_step_def free_worker_def load_head_def goes_def)
qed

section \<open>Concrete runs\<close>

text \<open>Threads 1 to 11 each take a request, which makes each of them start the next; threads 2 to 10 finish theirs.\<close>

definition crowd :: "act list" where
  "crowd = Main (Some 1) True False
     # concat (map (\<lambda>i. [Check i, Receive i (Request False), Take i (Some (i + 1)) True]) [1..<12]) @ map Done [2..<11]"

lemma main_step_unlinked:
  assumes "main_step m ok woken p = Some (Inr p')" "walking p" "pcs p' w = Some Unlinked"
  shows "pcs p w = Some Unlinked"
  using assms by (cases "main_pc p") (auto simp: main_step_def walking_def bindc_eq_Inr split: if_splits)

fun calm_runs :: "act list \<Rightarrow> pool \<Rightarrow> bool" where
  "calm_runs [] p = True"
| "calm_runs (a # as) p = (case pool_step a p of Some (Inr p') \<Rightarrow> (walking p \<longrightarrow> \<not> worker_act a) \<and> calm_runs as p' | _ \<Rightarrow> False)"

lemma run_reach: "pool_reach calm p \<Longrightarrow> calm_runs as p \<Longrightarrow> \<exists>p'. run_pool as p = Some (Inr p') \<and> pool_reach calm p'"
proof (induction as arbitrary: p)
  case (Cons a as)
  then obtain q where q: "pool_step a p = Some (Inr q)" "walking p \<longrightarrow> \<not> worker_act a" "calm_runs as q" by (auto split: option.splits sum.splits)
  have "undisturbed p q" unfolding undisturbed_def using q(1,2) main_act [of a p] main_step_unlinked by metis
  then have "pool_reach calm q" by (rule pool_reach.step [OF Cons.prems(1) q(1)])
  then show ?case using Cons.IH [of q] q(1,3) by simp
qed simp

lemma crowd_runs: "calm_runs crowd pool0"
  by code_simp

definition seen :: "pool c option \<Rightarrow> (int \<times> int \<times> bool) option" where
  "seen r = (case r of Some (Inr p) \<Rightarrow> Some (numworker p, numavail p, running p) | _ \<Rightarrow> None)"

lemma crowd_seen: "seen (run_pool crowd pool0) = Some (12, 10, True)"
  by code_simp

text \<open>The session ends, and the main thread has cancelled thread 1, which still has its request.\<close>

definition walk_begun :: "act list" where
  "walk_begun = crowd @ [Signal, Main None True False, Main None True False]"

lemma walk_begun_calm: "calm_runs walk_begun pool0"
  by code_simp

lemma walk_begun_seen: "(case run_pool walk_begun pool0 of Some (Inr p) \<Rightarrow> main_pc p = Next 1 \<and> pcs p 1 = Some (Busy False) \<and> numavail p = 10 | _ \<Rightarrow> False)"
  by code_simp

theorem main_walk_races_witness:
  "\<exists>p p1 p2. run_pool walk_begun pool0 = Some (Inr p) \<and> pool_step (Done 1) p = Some (Inr p1) \<and> pool_step (Free 1) p1 = Some (Inr p2)
    \<and> pool_step (Main None True False) p2 = Some (Inl Dangling)"
proof -
  obtain p where p: "run_pool walk_begun pool0 = Some (Inr p)" "pool_reach False p"
    using run_reach [OF pool_reach.start walk_begun_calm] by blast
  then have "main_pc p = Next 1" "pcs p 1 = Some (Busy False)" "numavail p = 10" using walk_begun_seen by simp_all
  then show ?thesis using main_walk_races [OF p(2), of 1 None True False] p(1) by blast
qed

theorem pool_invariant_witness:
  "\<exists>p. run_pool crowd pool0 = Some (Inr p) \<and> numworker p = 12 \<and> (\<exists>xs. dll (links p) 0 xs \<and> length xs = 12)
     \<and> card {w. (\<exists>x. pcs p w = Some x \<and> x \<noteq> Unlinked) \<and> w \<notin> busy p} = 10"
proof -
  obtain p where p: "run_pool crowd pool0 = Some (Inr p)" "pool_reach False p"
    using run_reach [OF pool_reach.start crowd_runs] by blast
  have n: "numworker p = 12" "numavail p = 10" "running p" using crowd_seen p(1) by (auto simp: seen_def)
  have "(\<exists>xs. dll (links p) 0 xs \<and> length xs = 12) \<and> card {w. (\<exists>x. pcs p w = Some x \<and> x \<noteq> Unlinked) \<and> w \<notin> busy p} = 10"
    using pool_invariant [OF p(2)] n by force
  then show ?thesis using p(1) n(1) by blast
qed

definition joining_run :: "act list" where
  "joining_run = [Main (Some 1) True False, Check 1, Signal] @ replicate 5 (Main None True False)"

lemma joining_calm: "calm_runs joining_run pool0"
  by code_simp

lemma joining_seen: "(case run_pool joining_run pool0 of Some (Inr p) \<Rightarrow> main_pc p = Joining | _ \<Rightarrow> False)"
  by code_simp

theorem pool_shuts_down_witness:
  "\<exists>p. run_pool joining_run pool0 = Some (Inr p) \<and> main_pc p = Joining \<and> (\<exists>a r. own_act a \<and> pool_step a p = Some r)"
proof -
  obtain p where p: "run_pool joining_run pool0 = Some (Inr p)" "pool_reach True p"
    using run_reach [OF pool_reach.start joining_calm] by blast
  have "main_pc p = Joining" using joining_seen p(1) by simp
  then show ?thesis using pool_shuts_down [OF p(2)] p(1) by blast
qed

end
