(* ===== verification/Fuse_Wire.thy ===== *)
theory Fuse_Wire
  imports Complex_Main Fuse_Fs
begin

text \<open>
  The messages between the kernel and the library: the structures of \<open>src/include/fuse_kernel.h\<close> as bytes on a
  little-endian target, the conversions of \<open>src/lib/fuse_lowlevel.c\<close> that fill them in, and the
  records of a directory listing. A field is read at its offset; reading past the end of a message has no defined result.
\<close>

unbundle bit_operations_syntax

section \<open>Integers as bytes\<close>

primrec nat_bytes :: "nat \<Rightarrow> nat \<Rightarrow> byte list" where
  "nat_bytes 0 k = []"
| "nat_bytes (Suc n) k = word_of_nat (k mod 256) # nat_bytes n (k div 256)"

primrec bytes_nat :: "byte list \<Rightarrow> nat" where
  "bytes_nat [] = 0"
| "bytes_nat (b # bs) = unat b + 256 * bytes_nat bs"

definition le16 :: "16 word \<Rightarrow> byte list" where "le16 w = nat_bytes 2 (unat w)"
definition le32 :: "32 word \<Rightarrow> byte list" where "le32 w = nat_bytes 4 (unat w)"
definition le64 :: "64 word \<Rightarrow> byte list" where "le64 w = nat_bytes 8 (unat w)"

definition rd32 :: "nat \<Rightarrow> byte list \<Rightarrow> 32 word c" where
  "rd32 i bs = (if i + 4 \<le> length bs then Inr (word_of_nat (bytes_nat (take 4 (drop i bs)))) else Inl PastEnd)"

definition rd64 :: "nat \<Rightarrow> byte list \<Rightarrow> 64 word c" where
  "rd64 i bs = (if i + 8 \<le> length bs then Inr (word_of_nat (bytes_nat (take 8 (drop i bs)))) else Inl PastEnd)"

text \<open>A string in a message, with its terminator; \<open>past_str\<close> is the offset behind it.\<close>

definition of_str :: "string \<Rightarrow> byte list" where
  "of_str s = map (\<lambda>c. word_of_nat (of_char c)) s"

definition to_str :: "byte list \<Rightarrow> string" where
  "to_str bs = map (\<lambda>b. char_of (unat b)) bs"

definition rd_str :: "nat \<Rightarrow> byte list \<Rightarrow> string c" where
  "rd_str i bs = (if 0 \<in> set (drop i bs) then Inr (to_str (takeWhile (\<lambda>b. b \<noteq> 0) (drop i bs))) else Inl PastEnd)"

lemma nat_bytes_length [simp]: "length (nat_bytes n k) = n"
  by (induction n arbitrary: k) auto

lemma le_length [simp]: "length (le16 v) = 2" "length (le32 w) = 4" "length (le64 x) = 8"
  by (simp_all add: le16_def le32_def le64_def)

lemma bytes_nat_bytes: "bytes_nat (nat_bytes n k) = k mod 256 ^ n"
proof (induction n arbitrary: k)
  case (Suc n)
  have "unat (word_of_nat (k mod 256) :: byte) = k mod 256" by (simp add: unat_of_nat)
  then have "bytes_nat (nat_bytes (Suc n) k) = k mod 256 + 256 * (k div 256 mod 256 ^ n)" using Suc by simp
  also have "\<dots> = k mod 256 ^ Suc n" by (simp add: mod_mult2_eq add.commute)
  finally show ?case .
qed simp

lemma bytes_le32 [simp]: "(word_of_nat (bytes_nat (le32 w)) :: 32 word) = w"
proof -
  have "unat w < 2 ^ 32" using unsigned_less [of w] by simp
  then show ?thesis by (simp add: le32_def bytes_nat_bytes)
qed

lemma bytes_le64 [simp]: "(word_of_nat (bytes_nat (le64 w)) :: 64 word) = w"
proof -
  have "unat w < 2 ^ 64" using unsigned_less [of w] by simp
  then show ?thesis by (simp add: le64_def bytes_nat_bytes)
qed

named_theorems wire \<open>reading of messages that are written as a sequence of fields\<close>

lemma rd_here [wire]: "rd32 0 (le32 w @ r) = Inr w" "rd64 0 (le64 x @ r) = Inr x"
  by (simp_all add: rd32_def rd64_def)

lemma rd_skip [wire]:
  "4 \<le> i \<Longrightarrow> rd32 i (le32 w @ r) = rd32 (i - 4) r" "4 \<le> i \<Longrightarrow> rd64 i (le32 w @ r) = rd64 (i - 4) r"
  "8 \<le> i \<Longrightarrow> rd32 i (le64 x @ r) = rd32 (i - 8) r" "8 \<le> i \<Longrightarrow> rd64 i (le64 x @ r) = rd64 (i - 8) r"
  "4 \<le> i \<Longrightarrow> drop i (le32 w @ r) = drop (i - 4) r" "8 \<le> i \<Longrightarrow> drop i (le64 x @ r) = drop (i - 8) r"
  "4 \<le> i \<Longrightarrow> rd_str i (le32 w @ r) = rd_str (i - 4) r" "8 \<le> i \<Longrightarrow> rd_str i (le64 x @ r) = rd_str (i - 8) r"
  by (auto simp: rd32_def rd64_def rd_str_def)

lemma of_str_length [simp]: "length (of_str s) = length s"
  by (simp add: of_str_def)

lemma of_str_byte: "unat (word_of_nat (of_char c) :: byte) = (of_char c :: nat)"
  by (simp add: unat_of_nat)

lemma to_of_str [simp]: "to_str (of_str s) = s"
  by (simp add: to_str_def of_str_def of_str_byte comp_def)

lemma of_str_NUL: "c_string s \<Longrightarrow> 0 \<notin> set (of_str s)"
proof
  assume s: "c_string s" and "0 \<in> set (of_str s)"
  then obtain c where c: "c \<in> set s" "(word_of_nat (of_char c) :: byte) = 0" by (auto simp: of_str_def)
  then have "(of_char c :: nat) = 0" using of_str_byte [of c] by simp
  then have "char_of (of_char c :: nat) = NUL" by (simp add: char_of_def)
  then have "c = NUL" by simp
  then show False using s c(1) by (simp add: c_string_def)
qed

lemma rd_str_here [wire]:
  assumes "c_string s"
  shows "rd_str 0 (of_str s @ 0 # r) = Inr s" "rd_str (length s + 1 + i) (of_str s @ 0 # r) = rd_str i r"
    "drop (length s + 1 + i) (of_str s @ 0 # r) = drop i r"
proof -
  show "rd_str 0 (of_str s @ 0 # r) = Inr s" using of_str_NUL [OF assms] by (simp add: rd_str_def takeWhile_neq_append)
  show "drop (length s + 1 + i) (of_str s @ 0 # r) = drop i r" for i by simp
  then show "rd_str (length s + 1 + i) (of_str s @ 0 # r) = rd_str i r" by (simp add: rd_str_def)
qed

section \<open>Attributes\<close>

text \<open>A conversion to a field keeps what fits into it.\<close>

definition u32 :: "int \<Rightarrow> 32 word" where "u32 x = word_of_int x"
definition u64 :: "int \<Rightarrow> 64 word" where "u64 x = word_of_int x"

record fuse_attr =
  a_ino :: "64 word"
  a_size :: "64 word"
  a_blocks :: "64 word"
  a_atime :: "64 word"
  a_mtime :: "64 word"
  a_ctime :: "64 word"
  a_atimensec :: "32 word"
  a_mtimensec :: "32 word"
  a_ctimensec :: "32 word"
  a_mode :: "32 word"
  a_nlink :: "32 word"
  a_uid :: "32 word"
  a_gid :: "32 word"
  a_rdev :: "32 word"
  a_blksize :: "32 word"

definition attr_bytes :: "fuse_attr \<Rightarrow> byte list" where
  "attr_bytes a = le64 (a_ino a) @ le64 (a_size a) @ le64 (a_blocks a) @ le64 (a_atime a) @ le64 (a_mtime a) @ le64 (a_ctime a)
     @ le32 (a_atimensec a) @ le32 (a_mtimensec a) @ le32 (a_ctimensec a) @ le32 (a_mode a) @ le32 (a_nlink a) @ le32 (a_uid a)
     @ le32 (a_gid a) @ le32 (a_rdev a) @ le32 (a_blksize a) @ le32 0"

definition convert_stat :: "stat \<Rightarrow> fuse_attr" where
  "convert_stat st = \<lparr>a_ino = u64 (int (st_ino st)), a_size = u64 (st_size st), a_blocks = u64 (int (st_blocks st)),
     a_atime = u64 (tv_sec (st_atim st)), a_mtime = u64 (tv_sec (st_mtim st)), a_ctime = u64 (tv_sec (st_ctim st)),
     a_atimensec = u32 (tv_nsec (st_atim st)), a_mtimensec = u32 (tv_nsec (st_mtim st)), a_ctimensec = u32 (tv_nsec (st_ctim st)),
     a_mode = u32 (int (st_mode st)), a_nlink = u32 (int (st_nlink st)), a_uid = u32 (int (st_uid st)), a_gid = u32 (int (st_gid st)),
     a_rdev = u32 (int (st_rdev st)), a_blksize = u32 (int (st_blksize st))\<rparr>"

text \<open>
  Timeouts are \<open>double\<close>s in the source and rational numbers here: their whole and fractional parts are exact in both, the
  rounding of the product with \<open>1.0e9\<close> is not modelled.
\<close>

definition ULONG_MAX :: nat where "ULONG_MAX = 2 ^ 64 - 1"

definition calc_timeout_sec :: "rat \<Rightarrow> nat" where
  "calc_timeout_sec t = (if t > of_nat ULONG_MAX then ULONG_MAX else if t < 0 then 0 else nat \<lfloor>t\<rfloor>)"

definition calc_timeout_nsec :: "rat \<Rightarrow> nat" where
  "calc_timeout_nsec t = (let f = t - of_nat (calc_timeout_sec t) in
     if f < 0 then 0 else if f \<ge> 999999999 / 1000000000 then 999999999 else nat \<lfloor>f * 1000000000\<rfloor>)"

record fuse_entry_param =
  e_ino :: "64 word"
  e_generation :: "64 word"
  e_attr :: stat
  e_attr_timeout :: rat
  e_entry_timeout :: rat

definition fill_entry :: "fuse_entry_param \<Rightarrow> byte list" where
  "fill_entry e = le64 (e_ino e) @ le64 (e_generation e)
     @ le64 (word_of_nat (calc_timeout_sec (e_entry_timeout e))) @ le64 (word_of_nat (calc_timeout_sec (e_attr_timeout e)))
     @ le32 (word_of_nat (calc_timeout_nsec (e_entry_timeout e))) @ le32 (word_of_nat (calc_timeout_nsec (e_attr_timeout e)))
     @ attr_bytes (convert_stat (e_attr e))"

definition FOPEN_DIRECT_IO :: "32 word" where "FOPEN_DIRECT_IO = 0x1"
definition FOPEN_KEEP_CACHE :: "32 word" where "FOPEN_KEEP_CACHE = 0x2"
definition FOPEN_NONSEEKABLE :: "32 word" where "FOPEN_NONSEEKABLE = 0x4"

definition fill_open :: "fuse_file_info \<Rightarrow> byte list" where
  "fill_open fi = le64 (fh fi)
     @ le32 ((if direct_io fi then FOPEN_DIRECT_IO else 0) OR (if keep_cache fi then FOPEN_KEEP_CACHE else 0)
         OR (if nonseekable fi then FOPEN_NONSEEKABLE else 0)) @ le32 0"

definition fill_open_compat :: "fuse_file_info_compat \<Rightarrow> byte list" where
  "fill_open_compat fi = le64 (cfi_fh fi)
     @ le32 ((if cfi_direct_io fi then FOPEN_DIRECT_IO else 0) OR (if cfi_keep_cache fi then FOPEN_KEEP_CACHE else 0)) @ le32 0"

definition convert_statfs :: "statvfs \<Rightarrow> byte list" where
  "convert_statfs st = le64 (word_of_nat (f_blocks st)) @ le64 (word_of_nat (f_bfree st)) @ le64 (word_of_nat (f_bavail st))
     @ le64 (word_of_nat (f_files st)) @ le64 (word_of_nat (f_ffree st)) @ le32 (word_of_nat (f_bsize st))
     @ le32 (word_of_nat (f_namemax st)) @ le32 (word_of_nat (f_frsize st)) @ le32 0 @ replicate 24 0"

lemma attr_bytes_length [simp]: "length (attr_bytes a) = 88"
  by (simp add: attr_bytes_def)

lemma fill_length [simp]: "length (fill_entry e) = 128" "length (fill_open fi) = 16" "length (fill_open_compat cfi) = 16" "length (convert_statfs st) = 80"
  by (simp_all add: fill_entry_def fill_open_def fill_open_compat_def convert_statfs_def)

lemma timeout_range: "calc_timeout_sec t \<le> ULONG_MAX" "calc_timeout_nsec t \<le> 999999999"
proof -
  show "calc_timeout_sec t \<le> ULONG_MAX" unfolding calc_timeout_sec_def by (auto simp: not_less) (metis floor_mono floor_of_nat nat_int nat_mono)
  have "nat \<lfloor>f * 1000000000\<rfloor> \<le> 999999999" if "\<not> f \<ge> 999999999 / 1000000000" for f :: rat
  proof -
    have "f * 1000000000 \<le> 999999999" using that by simp
    then have "\<lfloor>f * 1000000000\<rfloor> \<le> 999999999" by linarith
    then show ?thesis by linarith
  qed
  note n = this
  define f where "f = t - of_nat (calc_timeout_sec t)"
  have "calc_timeout_nsec t = (if f < 0 then 0 else if f \<ge> 999999999 / 1000000000 then 999999999 else nat \<lfloor>f * 1000000000\<rfloor>)"
    unfolding calc_timeout_nsec_def Let_def f_def ..
  then show "calc_timeout_nsec t \<le> 999999999" using n [of f] by (simp only: split: if_split) simp
qed

section \<open>Directory listings\<close>

definition FUSE_NAME_OFFSET :: nat where "FUSE_NAME_OFFSET = 24"

definition FUSE_DIRENT_ALIGN :: "nat \<Rightarrow> nat" where
  "FUSE_DIRENT_ALIGN x = unat ((word_of_nat x + 8 - 1) AND NOT (8 - 1) :: 64 word)"

definition fuse_dirent_size :: "nat \<Rightarrow> nat" where
  "fuse_dirent_size nlen = FUSE_DIRENT_ALIGN (FUSE_NAME_OFFSET + nlen)"

text \<open>
  \<open>fuse_add_dirent\<close> writes at the beginning of \<open>buf\<close>; the result is what is written, which the caller's buffer has to
  have room for. The lengths are \<open>unsigned\<close>.
\<close>

definition dirent_bytes :: "string \<Rightarrow> stat \<Rightarrow> 64 word \<Rightarrow> byte list" where
  "dirent_bytes nam st offs =
     (let nlen = length nam mod 2 ^ 32; entlen = (FUSE_NAME_OFFSET + nlen) mod 2 ^ 32;
          entsize = fuse_dirent_size nlen mod 2 ^ 32; padlen = nat ((int entsize - int entlen) mod 2 ^ 32)
      in le64 (u64 (int (st_ino st))) @ le64 offs @ le32 (word_of_nat nlen)
           @ le32 (drop_bit 12 (word_of_nat (st_mode st) AND 0xF000)) @ of_str (take nlen nam) @ replicate padlen 0)"

definition fuse_add_dirent :: "byte list \<Rightarrow> string \<Rightarrow> stat \<Rightarrow> 64 word \<Rightarrow> byte list c" where
  "fuse_add_dirent buf nam st offs = (let d = dirent_bytes nam st offs in
     if length d > length buf then Inl Overflow else Inr (d @ drop (length d) buf))"

definition fuse_add_direntry :: "byte list option \<Rightarrow> nat \<Rightarrow> string \<Rightarrow> stat \<Rightarrow> 64 word \<Rightarrow> (nat \<times> byte list option) c" where
  "fuse_add_direntry buf bufsize nam st offs =
     (let entsize = fuse_dirent_size (length nam) in case buf of
        Some b \<Rightarrow> if entsize \<le> bufsize then bindc (fuse_add_dirent b nam st offs) (\<lambda>b. Inr (entsize, Some b)) else Inr (entsize, buf)
      | None \<Rightarrow> Inr (entsize, buf))"

lemma align8: "x < 2 ^ 63 \<Longrightarrow> FUSE_DIRENT_ALIGN x = (x + 7) div 8 * 8"
proof -
  assume x: "x < 2 ^ 63"
  have m: "NOT (8 - 1 :: 64 word) = NOT (mask 3)" by (simp add: mask_eq_exp_minus_1)
  have "word_of_nat x + 8 - 1 = (word_of_nat (x + 7) :: 64 word)" by simp
  moreover have "(w AND NOT (mask 3)) = push_bit 3 (drop_bit 3 w)" for w :: "64 word" by (auto intro!: bit_word_eqI simp: bit_simps)
  ultimately have "FUSE_DIRENT_ALIGN x = unat (push_bit 3 (drop_bit 3 (word_of_nat (x + 7) :: 64 word)))" unfolding FUSE_DIRENT_ALIGN_def m by (simp add: add.commute)
  moreover have "unat (drop_bit 3 (word_of_nat (x + 7) :: 64 word)) = (x + 7) div 8"
  proof -
    have "unat (word_of_nat (x + 7) :: 64 word) = x + 7" unfolding unat_of_nat using x by (intro mod_less) simp
    moreover have "take_bit 64 (x + 7) = x + 7" using x by (simp add: take_bit_nat_eq_self_iff)
    ultimately show ?thesis unfolding unsigned_drop_bit_eq by (simp add: drop_bit_eq_div)
  qed
  moreover have "take_bit 64 (push_bit 3 ((x + 7) div 8)) = (x + 7) div 8 * 8"
  proof -
    have "(x + 7) div 8 * 8 < 2 ^ 64" using x div_times_less_eq_dividend [of "x + 7" 8] by simp
    then show ?thesis by (simp add: push_bit_eq_mult take_bit_nat_eq_self_iff)
  qed
  moreover have "unat (push_bit 3 w) = take_bit 64 (push_bit 3 (unat w))" for w :: "64 word" by (simp add: unsigned_push_bit_eq)
  ultimately show ?thesis by metis
qed

text \<open>How the kernel reads a listing, with \<open>FUSE_DIRENT_SIZE\<close> of \<open>src/include/fuse_kernel.h\<close> as the step.\<close>

fun read_dirents :: "nat \<Rightarrow> byte list \<Rightarrow> (64 word \<times> 64 word \<times> 32 word \<times> string) list c" where
  "read_dirents n bs = (if bs = [] then Inr [] else case n of 0 \<Rightarrow> Inl OutOfFuel | Suc n \<Rightarrow>
     bindc (rd64 0 bs) (\<lambda>ino. bindc (rd64 8 bs) (\<lambda>offs. bindc (rd32 16 bs) (\<lambda>nlen. bindc (rd32 20 bs) (\<lambda>typ.
       let e = (ino, offs, typ, to_str (take (unat nlen) (drop FUSE_NAME_OFFSET bs))); k = fuse_dirent_size (unat nlen) in
       if k > length bs then Inl PastEnd else bindc (read_dirents n (drop k bs)) (\<lambda>es. Inr (e # es)))))))"

declare read_dirents.simps [simp del]

lemma read_dirents_Nil [simp]: "read_dirents n [] = Inr []"
  by (simp add: read_dirents.simps)

lemma read_dirents_step:
  assumes "bs \<noteq> []" "rd64 0 bs = Inr ino" "rd64 8 bs = Inr offs" "rd32 16 bs = Inr nlen" "rd32 20 bs = Inr typ" "fuse_dirent_size (unat nlen) \<le> length bs"
  shows "read_dirents (Suc n) bs = bindc (read_dirents n (drop (fuse_dirent_size (unat nlen)) bs)) (\<lambda>es.
     Inr ((ino, offs, typ, to_str (take (unat nlen) (drop FUSE_NAME_OFFSET bs))) # es))"
  using assms by (subst read_dirents.simps) (simp add: Let_def)

definition file_type :: "stat \<Rightarrow> 32 word" where
  "file_type st = drop_bit 12 (word_of_nat (st_mode st) AND 0xF000)"

lemma dirent_bytes_small:
  assumes "length nam < 2 ^ 31"
  shows "dirent_bytes nam st offs = le64 (u64 (int (st_ino st))) @ le64 offs @ le32 (word_of_nat (length nam)) @ le32 (file_type st)
      @ of_str nam @ replicate (fuse_dirent_size (length nam) - 24 - length nam) 0"
    "length (dirent_bytes nam st offs) = fuse_dirent_size (length nam)" "24 + length nam \<le> fuse_dirent_size (length nam)"
proof -
  have s: "fuse_dirent_size (length nam) = (length nam + 31) div 8 * 8"
    using assms by (simp add: fuse_dirent_size_def FUSE_NAME_OFFSET_def align8)
  have "(length nam + 31) div 8 * 8 \<le> length nam + 31" by simp
  then have r: "24 + length nam \<le> fuse_dirent_size (length nam)" "fuse_dirent_size (length nam) < 2 ^ 32" unfolding s using assms by simp_all
  have m: "length nam mod 2 ^ 32 = length nam" "(FUSE_NAME_OFFSET + length nam) mod 2 ^ 32 = 24 + length nam"
    "fuse_dirent_size (length nam) mod 2 ^ 32 = fuse_dirent_size (length nam)"
    using r assms by (auto simp: FUSE_NAME_OFFSET_def)
  have p: "nat ((int (fuse_dirent_size (length nam)) - int (24 + length nam)) mod 2 ^ 32) = fuse_dirent_size (length nam) - 24 - length nam"
    using r by (simp add: mod_pos_pos_trivial nat_diff_distrib)
  show d: "dirent_bytes nam st offs = le64 (u64 (int (st_ino st))) @ le64 offs @ le32 (word_of_nat (length nam)) @ le32 (file_type st)
      @ of_str nam @ replicate (fuse_dirent_size (length nam) - 24 - length nam) 0"
    unfolding dirent_bytes_def Let_def m(1) m(2) m(3) p by (simp add: file_type_def)
  show "length (dirent_bytes nam st offs) = fuse_dirent_size (length nam)" unfolding d using r by simp
  show "24 + length nam \<le> fuse_dirent_size (length nam)" using r(1) .
qed

text \<open>
  A directory listing is read back as it was written: from the records that \<open>fuse_add_dirent\<close> writes one after the
  other, each of the size that \<open>fuse_dirent_size\<close> says, the kernel reads the same numbers, offsets, types and names.
\<close>

lemma dirents_roundtrip:
  assumes "\<forall>(nam, st, offs) \<in> set es. length nam < 2 ^ 31"
  shows "read_dirents (length es) (concat (map (\<lambda>(nam, st, offs). dirent_bytes nam st offs) es))
      = Inr (map (\<lambda>(nam, st, offs). (u64 (int (st_ino st)), offs, file_type st, nam)) es)"
  using assms
proof (induction es)
  case (Cons e es)
  obtain nam st offs where e: "e = (nam, st, offs)" by (cases e)
  then have n: "length nam < 2 ^ 31" using Cons.prems by auto
  note D = dirent_bytes_small(1,2) [OF n, of st offs]
  define r where "r = concat (map (\<lambda>(nam, st, offs). dirent_bytes nam st offs) es)"
  let ?p = "replicate (fuse_dirent_size (length nam) - 24 - length nam) (0 :: byte)"
  have b: "dirent_bytes nam st offs @ r = le64 (u64 (int (st_ino st))) @ le64 offs @ le32 (word_of_nat (length nam)) @ le32 (file_type st) @ of_str nam @ ?p @ r"
    unfolding D(1) by simp
  have un: "unat (word_of_nat (length nam) :: 32 word) = length nam" using n by (simp add: unat_of_nat)
  have "read_dirents (Suc (length es)) (dirent_bytes nam st offs @ r) = bindc (read_dirents (length es)
      (drop (fuse_dirent_size (unat (word_of_nat (length nam) :: 32 word))) (dirent_bytes nam st offs @ r)))
      (\<lambda>fs. Inr ((u64 (int (st_ino st)), offs, file_type st,
         to_str (take (unat (word_of_nat (length nam) :: 32 word)) (drop FUSE_NAME_OFFSET (dirent_bytes nam st offs @ r)))) # fs))"
  proof (rule read_dirents_step)
    show "dirent_bytes nam st offs @ r \<noteq> []" unfolding b using le_length(3) by (metis append_is_Nil_conv list.size(3) zero_neq_numeral)
    show "rd64 0 (dirent_bytes nam st offs @ r) = Inr (u64 (int (st_ino st)))" "rd64 8 (dirent_bytes nam st offs @ r) = Inr offs"
      "rd32 16 (dirent_bytes nam st offs @ r) = Inr (word_of_nat (length nam))" "rd32 20 (dirent_bytes nam st offs @ r) = Inr (file_type st)"
      unfolding b by (simp_all add: wire)
    show "fuse_dirent_size (unat (word_of_nat (length nam) :: 32 word)) \<le> length (dirent_bytes nam st offs @ r)" using un D(2) by simp
  qed
  also have "drop (fuse_dirent_size (unat (word_of_nat (length nam) :: 32 word))) (dirent_bytes nam st offs @ r) = r" using un D(2) by simp
  also have "to_str (take (unat (word_of_nat (length nam) :: 32 word)) (drop FUSE_NAME_OFFSET (dirent_bytes nam st offs @ r))) = nam"
    unfolding un b FUSE_NAME_OFFSET_def by (simp add: wire)
  also have "read_dirents (length es) r = Inr (map (\<lambda>(nam, st, offs). (u64 (int (st_ino st)), offs, file_type st, nam)) es)"
    unfolding r_def by (rule Cons.IH) (use Cons.prems in auto)
  finally show ?case unfolding e r_def by simp
qed simp

end
