(* ===== verification/Fuse_Reply.thy ===== *)
theory Fuse_Reply
  imports Fuse_Wire
begin

text \<open>
  Requests and replies of \<open>src/lib/fuse_lowlevel.c\<close>: the requests in progress with their counters, and the functions
  \<open>fuse_reply_*\<close> and \<open>fuse_lowlevel_notify_*\<close>, which build a message, give it to the channel and free the request. The
  lists of requests are sequences: their links are those of \<open>Fuse_List\<close>. The channel, \<open>malloc\<close> and the system calls
  are parameters; debug output is left out. The variant without \<open>splice\<close> is modelled.
\<close>

unbundle bit_operations_syntax

section \<open>Data\<close>

record fuse_ctx =
  c_uid :: "32 word"
  c_gid :: "32 word"
  c_pid :: "32 word"
  c_umask :: "32 word"

text \<open>The union \<open>u\<close> holds \<open>intr_unique\<close> for a request of the kernel to interrupt another, and the rest for all others.\<close>

record fuse_req =
  unique :: "64 word"
  ctr :: int
  rctx :: fuse_ctx
  rch :: "nat option"
  interrupted :: bool
  intr_unique :: "64 word"
  ni_func :: "nat option"
  ni_data :: nat

record ll_opts =
  allow_root :: bool
  atomic_o_trunc :: bool
  no_remote_posix_lock :: bool
  no_remote_flock :: bool
  big_writes :: bool
  splice_write :: bool
  splice_move_opt :: bool
  splice_read :: bool
  no_splice_write :: bool
  no_splice_move :: bool
  no_splice_read :: bool

record notify_req =
  n_unique :: "64 word"
  n_cookie :: nat

record 's ll =
  lopts :: ll_opts
  conn :: fuse_conn_info
  got_init :: bool
  got_destroy :: bool
  cuse_data :: bool
  owner :: "32 word"
  userdata :: nat
  reqs :: "nat \<rightharpoonup> fuse_req"
  req_list :: "nat list"
  intr_list :: "nat list"
  notify_ctr :: "64 word"
  notify_list :: "(nat \<times> notify_req) list"
  lworld :: "'s world"

text \<open>\<open>fuse_chan_send\<close>: \<open>None\<close> is the empty vector of \<open>fuse_reply_none\<close>.\<close>

type_synonym 's sender = "nat \<Rightarrow> byte list list option \<Rightarrow> 's world \<Rightarrow> int \<times> 's world"
type_synonym ('s, 'a) llc = "'s ll \<Rightarrow> ('a \<times> 's ll) c"

definition the_req :: "nat \<Rightarrow> 's ll \<Rightarrow> fuse_req c" where
  "the_req a f = (case reqs f a of None \<Rightarrow> Inl Dangling | Some r \<Rightarrow> Inr r)"

definition mod_req :: "nat \<Rightarrow> (fuse_req \<Rightarrow> fuse_req) \<Rightarrow> 's ll \<Rightarrow> 's ll c" where
  "mod_req a g f = bindc (the_req a f) (\<lambda>r. Inr (f\<lparr>reqs := (reqs f)(a \<mapsto> g r)\<rparr>))"

definition destroy_req :: "nat \<Rightarrow> 's ll \<Rightarrow> 's ll c" where
  "destroy_req a f = bindc (the_req a f) (\<lambda>_. Inr (f\<lparr>reqs := (reqs f)(a := None)\<rparr>))"

text \<open>A request that is on no list is linked to itself, and taking it off changes nothing.\<close>

definition list_del_req :: "nat \<Rightarrow> 's ll \<Rightarrow> 's ll" where
  "list_del_req a f = f\<lparr>req_list := remove1 a (req_list f), intr_list := remove1 a (intr_list f)\<rparr>"

definition fuse_free_req :: "nat \<Rightarrow> 's ll \<Rightarrow> 's ll c" where
  "fuse_free_req a f =
     bindc (mod_req a (\<lambda>r. r\<lparr>ni_func := None, ni_data := 0\<rparr>) f) (\<lambda>f.
     bindc (mod_req a (\<lambda>r. r\<lparr>ctr := ctr r - 1\<rparr>) (list_del_req a f)) (\<lambda>f.
     bindc (the_req a f) (\<lambda>r. if ctr r = 0 then destroy_req a f else Inr f)))"

definition req0 :: fuse_req where
  "req0 = \<lparr>unique = 0, ctr = 1, rctx = \<lparr>c_uid = 0, c_gid = 0, c_pid = 0, c_umask = 0\<rparr>, rch = None, interrupted = False,
     intr_unique = 0, ni_func = None, ni_data = 0\<rparr>"

definition fuse_ll_alloc_req :: "nat option \<Rightarrow> 's ll \<Rightarrow> nat option \<times> 's ll" where
  "fuse_ll_alloc_req m f = (case m of None \<Rightarrow> (None, f) | Some a \<Rightarrow> (Some a, f\<lparr>reqs := (reqs f)(a \<mapsto> req0)\<rparr>))"

section \<open>Sending\<close>

definition sizeof_out_header :: nat where "sizeof_out_header = 16"

definition iov_length :: "byte list list \<Rightarrow> nat" where
  "iov_length iov = sum_list (map length iov)"

definition out_header :: "nat \<Rightarrow> int \<Rightarrow> 64 word \<Rightarrow> byte list" where
  "out_header len error uniq = le32 (word_of_nat len) @ le32 (word_of_int error) @ le64 uniq"

text \<open>The first block is the header, whose \<open>len\<close> is set here.\<close>

definition fuse_send_msg :: "'s sender \<Rightarrow> nat \<Rightarrow> int \<Rightarrow> 64 word \<Rightarrow> byte list list \<Rightarrow> 's ll \<Rightarrow> int \<times> 's ll" where
  "fuse_send_msg send ch error uniq iov f =
     (let len = sizeof_out_header + iov_length iov; (res, w) = send ch (Some (out_header len error uniq # iov)) (lworld f)
      in (res, f\<lparr>lworld := w\<rparr>))"

definition fuse_send_reply_iov_nofree :: "'s sender \<Rightarrow> nat \<Rightarrow> int \<Rightarrow> byte list list \<Rightarrow> ('s, int) llc" where
  "fuse_send_reply_iov_nofree send a error iov f =
     (let error = (if error \<le> - 1000 \<or> error > 0 then - ERANGE else error) in
      bindc (the_req a f) (\<lambda>r. case rch r of None \<Rightarrow> Inl NullDeref | Some ch \<Rightarrow> Inr (fuse_send_msg send ch error (unique r) iov f)))"

definition send_reply_iov :: "'s sender \<Rightarrow> nat \<Rightarrow> int \<Rightarrow> byte list list \<Rightarrow> ('s, int) llc" where
  "send_reply_iov send a error iov f =
     bindc (fuse_send_reply_iov_nofree send a error iov f) (\<lambda>(res, f). bindc (fuse_free_req a f) (\<lambda>f. Inr (res, f)))"

definition send_reply :: "'s sender \<Rightarrow> nat \<Rightarrow> int \<Rightarrow> byte list \<Rightarrow> ('s, int) llc" where
  "send_reply send a error arg f = send_reply_iov send a error (if arg = [] then [] else [arg]) f"

definition send_reply_ok :: "'s sender \<Rightarrow> nat \<Rightarrow> byte list \<Rightarrow> ('s, int) llc" where
  "send_reply_ok send a arg f = send_reply send a 0 arg f"

section \<open>Replies\<close>

definition fuse_reply_err :: "'s sender \<Rightarrow> nat \<Rightarrow> int \<Rightarrow> ('s, int) llc" where
  "fuse_reply_err send a err f = send_reply send a (- err) [] f"

definition fuse_reply_none :: "'s sender \<Rightarrow> nat \<Rightarrow> 's ll \<Rightarrow> 's ll c" where
  "fuse_reply_none send a f = bindc (the_req a f) (\<lambda>r.
     fuse_free_req a (case rch r of None \<Rightarrow> f | Some ch \<Rightarrow> f\<lparr>lworld := snd (send ch None (lworld f))\<rparr>))"

text \<open>\<open>got\<close>: \<open>malloc\<close> gives the copy of the vector.\<close>

definition fuse_reply_iov :: "'s sender \<Rightarrow> bool \<Rightarrow> nat \<Rightarrow> byte list list \<Rightarrow> ('s, int) llc" where
  "fuse_reply_iov send got a iov f = (if \<not> got then fuse_reply_err send a ENOMEM f else send_reply_iov send a 0 iov f)"

definition minor_of :: "'s ll \<Rightarrow> nat" where
  "minor_of f = proto_minor (conn f)"

definition FUSE_COMPAT_ENTRY_OUT_SIZE :: nat where "FUSE_COMPAT_ENTRY_OUT_SIZE = 120"
definition FUSE_COMPAT_ATTR_OUT_SIZE :: nat where "FUSE_COMPAT_ATTR_OUT_SIZE = 96"
definition FUSE_COMPAT_STATFS_SIZE :: nat where "FUSE_COMPAT_STATFS_SIZE = 48"

definition fuse_reply_entry :: "'s sender \<Rightarrow> nat \<Rightarrow> fuse_entry_param \<Rightarrow> ('s, int) llc" where
  "fuse_reply_entry send a e f =
     (let n = (if minor_of f < 9 then FUSE_COMPAT_ENTRY_OUT_SIZE else 128) in
      if e_ino e = 0 \<and> minor_of f < 4 then fuse_reply_err send a ENOENT f
      else send_reply_ok send a (take n (fill_entry e)) f)"

definition fuse_reply_create :: "'s sender \<Rightarrow> nat \<Rightarrow> fuse_entry_param \<Rightarrow> fuse_file_info \<Rightarrow> ('s, int) llc" where
  "fuse_reply_create send a e fi f =
     (let entrysize = (if minor_of f < 9 then FUSE_COMPAT_ENTRY_OUT_SIZE else 128) in
      send_reply_ok send a (take entrysize (fill_entry e) @ fill_open fi) f)"

definition fuse_reply_attr :: "'s sender \<Rightarrow> nat \<Rightarrow> stat \<Rightarrow> rat \<Rightarrow> ('s, int) llc" where
  "fuse_reply_attr send a st timeout f =
     (let n = (if minor_of f < 9 then FUSE_COMPAT_ATTR_OUT_SIZE else 104) in
      send_reply_ok send a (take n (le64 (word_of_nat (calc_timeout_sec timeout)) @ le32 (word_of_nat (calc_timeout_nsec timeout))
        @ le32 0 @ attr_bytes (convert_stat st))) f)"

definition fuse_reply_readlink :: "'s sender \<Rightarrow> nat \<Rightarrow> string \<Rightarrow> ('s, int) llc" where
  "fuse_reply_readlink send a linkname f = send_reply_ok send a (of_str linkname) f"

definition fuse_reply_open :: "'s sender \<Rightarrow> nat \<Rightarrow> fuse_file_info \<Rightarrow> ('s, int) llc" where
  "fuse_reply_open send a fi f = send_reply_ok send a (fill_open fi) f"

definition fuse_reply_open_compat :: "'s sender \<Rightarrow> nat \<Rightarrow> fuse_file_info_compat \<Rightarrow> ('s, int) llc" where
  "fuse_reply_open_compat send a fi f = send_reply_ok send a (fill_open_compat fi) f"

definition fuse_reply_write :: "'s sender \<Rightarrow> nat \<Rightarrow> nat \<Rightarrow> ('s, int) llc" where
  "fuse_reply_write send a count f = send_reply_ok send a (le32 (word_of_nat count) @ le32 0) f"

definition fuse_reply_buf :: "'s sender \<Rightarrow> nat \<Rightarrow> byte list \<Rightarrow> ('s, int) llc" where
  "fuse_reply_buf send a buf f = send_reply_ok send a buf f"

definition fuse_reply_statfs :: "'s sender \<Rightarrow> nat \<Rightarrow> statvfs \<Rightarrow> ('s, int) llc" where
  "fuse_reply_statfs send a st f =
     (let n = (if minor_of f < 4 then FUSE_COMPAT_STATFS_SIZE else 80) in send_reply_ok send a (take n (convert_statfs st)) f)"

definition statvfs0 :: statvfs where
  "statvfs0 = \<lparr>f_bsize = 0, f_blocks = 0, f_bfree = 0, f_bavail = 0, f_files = 0, f_ffree = 0, f_namemax = 0, f_frsize = 0\<rparr>"

definition fuse_reply_statfs_compat :: "'s sender \<Rightarrow> nat \<Rightarrow> statfs \<Rightarrow> ('s, int) llc" where
  "fuse_reply_statfs_compat send a st f = fuse_reply_statfs send a
     (statvfs0\<lparr>f_bsize := old_bsize st, f_blocks := old_blocks st, f_bfree := old_bfree st, f_bavail := old_bavail st,
        f_files := old_files st, f_ffree := old_ffree st, f_namemax := old_namelen st\<rparr>) f"

definition fuse_reply_xattr :: "'s sender \<Rightarrow> nat \<Rightarrow> nat \<Rightarrow> ('s, int) llc" where
  "fuse_reply_xattr send a count f = send_reply_ok send a (le32 (word_of_nat count) @ le32 0) f"

text \<open>
  Locks as the system has them, with the type as a number (\<open>F_UNLCK\<close> is \<open>2\<close>) and signed 64-bit offsets.
\<close>

record wire_flock =
  wl_type :: int
  wl_start :: int
  wl_len :: int
  wl_pid :: int

definition in_int64 :: "int \<Rightarrow> bool" where
  "in_int64 x \<longleftrightarrow> - (2 ^ 63) \<le> x \<and> x < 2 ^ 63"

definition lock_out :: "wire_flock \<Rightarrow> byte list c" where
  "lock_out l =
     (if wl_type l \<noteq> 2 then
        if wl_len l = 0 then Inr (le64 (u64 (wl_start l)) @ le64 (u64 OFFSET_MAX) @ le32 (u32 (wl_type l)) @ le32 (u32 (wl_pid l)))
        else if \<not> in_int64 (wl_start l + wl_len l) \<or> \<not> in_int64 (wl_start l + wl_len l - 1) then Inl SignedOverflow
        else Inr (le64 (u64 (wl_start l)) @ le64 (u64 (wl_start l + wl_len l - 1)) @ le32 (u32 (wl_type l)) @ le32 (u32 (wl_pid l)))
      else Inr (le64 0 @ le64 0 @ le32 (u32 (wl_type l)) @ le32 (u32 (wl_pid l))))"

definition fuse_reply_lock :: "'s sender \<Rightarrow> nat \<Rightarrow> wire_flock \<Rightarrow> ('s, int) llc" where
  "fuse_reply_lock send a l f = bindc (lock_out l) (\<lambda>arg. send_reply_ok send a arg f)"

definition fuse_reply_bmap :: "'s sender \<Rightarrow> nat \<Rightarrow> 64 word \<Rightarrow> ('s, int) llc" where
  "fuse_reply_bmap send a i f = send_reply_ok send a (le64 i) f"

definition FUSE_IOCTL_RETRY :: "32 word" where "FUSE_IOCTL_RETRY = 0x4"

definition ioctl_out :: "int \<Rightarrow> 32 word \<Rightarrow> nat \<Rightarrow> nat \<Rightarrow> byte list" where
  "ioctl_out result flags in_iovs out_iovs =
     le32 (u32 result) @ le32 flags @ le32 (word_of_nat in_iovs) @ le32 (word_of_nat out_iovs)"

text \<open>A vector of blocks as the caller's \<open>struct iovec\<close> and as \<open>struct fuse_ioctl_iovec\<close>, which agree on a 64-bit target.\<close>

type_synonym blocks = "(64 word \<times> 64 word) list"

definition iovec_bytes :: "blocks \<Rightarrow> byte list" where
  "iovec_bytes iov = concat (map (\<lambda>(base, len). le64 base @ le64 len) iov)"

definition fuse_ioctl_iovec_copy :: "bool \<Rightarrow> blocks \<Rightarrow> byte list option" where
  "fuse_ioctl_iovec_copy got iov = (if got then Some (iovec_bytes iov) else None)"

definition fuse_reply_ioctl_retry :: "'s sender \<Rightarrow> bool \<Rightarrow> bool \<Rightarrow> nat \<Rightarrow> blocks \<Rightarrow> blocks \<Rightarrow> ('s, int) llc" where
  "fuse_reply_ioctl_retry send mem1 mem2 a in_iov out_iov f =
     (let arg = ioctl_out 0 FUSE_IOCTL_RETRY (length in_iov) (length out_iov) in
      if minor_of f < 16 then
        send_reply_iov send a 0 (arg # (if in_iov = [] then [] else [iovec_bytes in_iov]) @ (if out_iov = [] then [] else [iovec_bytes out_iov])) f
      else case (if in_iov = [] then Some [] else map_option (\<lambda>b. [b]) (fuse_ioctl_iovec_copy mem1 in_iov)) of
        None \<Rightarrow> fuse_reply_err send a ENOMEM f
      | Some ins \<Rightarrow> (case (if out_iov = [] then Some [] else map_option (\<lambda>b. [b]) (fuse_ioctl_iovec_copy mem2 out_iov)) of
          None \<Rightarrow> fuse_reply_err send a ENOMEM f
        | Some outs \<Rightarrow> send_reply_iov send a 0 (arg # ins @ outs) f))"

definition fuse_reply_ioctl :: "'s sender \<Rightarrow> nat \<Rightarrow> int \<Rightarrow> byte list \<Rightarrow> ('s, int) llc" where
  "fuse_reply_ioctl send a result buf f =
     send_reply_iov send a 0 (ioctl_out result 0 0 0 # (if buf = [] then [] else [buf])) f"

definition fuse_reply_ioctl_iov :: "'s sender \<Rightarrow> bool \<Rightarrow> nat \<Rightarrow> int \<Rightarrow> byte list list \<Rightarrow> ('s, int) llc" where
  "fuse_reply_ioctl_iov send got a result iov f =
     (if \<not> got then fuse_reply_err send a ENOMEM f else send_reply_iov send a 0 (ioctl_out result 0 0 0 # iov) f)"

definition fuse_reply_poll :: "'s sender \<Rightarrow> nat \<Rightarrow> 32 word \<Rightarrow> ('s, int) llc" where
  "fuse_reply_poll send a revents f = send_reply_ok send a (le32 revents @ le32 0) f"

section \<open>Replies with data in buffers\<close>

definition no_flags :: fuse_buf_copy_flags where
  "no_flags = \<lparr>no_splice = False, force_splice = False, splice_move = False, splice_nonblock = False\<rparr>"

text \<open>\<open>m\<close>: the address that \<open>posix_memalign\<close> gives or its error number; \<open>tmp\<close>: the buffer of \<open>fuse_buf_copy\<close> on the stack.\<close>

definition copy_and_send ::
  "'s kernel \<Rightarrow> 's sender \<Rightarrow> nat \<Rightarrow> int + nat \<Rightarrow> nat \<Rightarrow> int \<Rightarrow> 64 word \<Rightarrow> byte list list \<Rightarrow> fuse_bufvec \<Rightarrow> nat \<Rightarrow> ('s, int) llc" where
  "copy_and_send K send tmp m ch error uniq iov buf len f = (case m of
       Inl res \<Rightarrow> Inr (res, f)
     | Inr mbuf \<Rightarrow>
         let dst = \<lparr>bufs = [\<lparr>buf_size = len, is_fd = False, fd_seek = False, fd_retry = False, mem = mbuf, fd = 0, pos = 0\<rparr>], idx = 0, off = 0\<rparr> in
         bindc (fuse_buf_copy K tmp False dst buf no_flags (lworld f)) (\<lambda>(res, w).
           if res < 0 then Inr (- res, f\<lparr>lworld := w\<rparr>)
           else Inr (fuse_send_msg send ch error uniq (iov @ [load (memory w) mbuf (nat res)]) (f\<lparr>lworld := w\<rparr>))))"

definition fuse_send_data_iov_fallback ::
  "'s kernel \<Rightarrow> 's sender \<Rightarrow> nat \<Rightarrow> int + nat \<Rightarrow> nat \<Rightarrow> int \<Rightarrow> 64 word \<Rightarrow> byte list list \<Rightarrow> fuse_bufvec \<Rightarrow> nat \<Rightarrow> ('s, int) llc" where
  "fuse_send_data_iov_fallback K send tmp m ch error uniq iov buf len f =
     (if length (bufs buf) = 1 \<and> idx buf = 0 \<and> off buf = 0 \<and> \<not> is_fd (hd (bufs buf))
      then Inr (fuse_send_msg send ch error uniq (iov @ [load (memory (lworld f)) (mem (hd (bufs buf))) len]) f)
      else copy_and_send K send tmp m ch error uniq iov buf len f)"

definition fuse_send_data_iov ::
  "'s kernel \<Rightarrow> 's sender \<Rightarrow> nat \<Rightarrow> int + nat \<Rightarrow> nat \<Rightarrow> int \<Rightarrow> 64 word \<Rightarrow> byte list list \<Rightarrow> fuse_bufvec \<Rightarrow> ('s, int) llc" where
  "fuse_send_data_iov K send tmp m ch error uniq iov buf f =
     fuse_send_data_iov_fallback K send tmp m ch error uniq iov buf (fuse_buf_size buf) f"

definition fuse_reply_data :: "'s kernel \<Rightarrow> 's sender \<Rightarrow> nat \<Rightarrow> int + nat \<Rightarrow> nat \<Rightarrow> fuse_bufvec \<Rightarrow> ('s, int) llc" where
  "fuse_reply_data K send tmp m a bufv f =
     bindc (the_req a f) (\<lambda>r. case rch r of None \<Rightarrow> Inl NullDeref | Some ch \<Rightarrow>
     bindc (fuse_send_data_iov K send tmp m ch 0 (unique r) [] bufv f) (\<lambda>(res, f).
       if res \<le> 0 then bindc (fuse_free_req a f) (\<lambda>f. Inr (res, f)) else fuse_reply_err send a res f))"

section \<open>Notifications\<close>

definition ENOTCONN :: int where "ENOTCONN = 107"

definition send_notify_iov :: "'s sender \<Rightarrow> nat \<Rightarrow> int \<Rightarrow> byte list list \<Rightarrow> 's ll \<Rightarrow> int \<times> 's ll" where
  "send_notify_iov send ch notify_code iov f =
     (if \<not> got_init f then (- ENOTCONN, f) else fuse_send_msg send ch notify_code 0 iov f)"

definition fuse_lowlevel_notify_poll :: "'s sender \<Rightarrow> (64 word \<times> nat) option \<Rightarrow> 's ll \<Rightarrow> int \<times> 's ll" where
  "fuse_lowlevel_notify_poll send ph f = (case ph of
       None \<Rightarrow> (0, f) | Some (kh, ch) \<Rightarrow> send_notify_iov send ch 1 [le64 kh] f)"

text \<open>The functions below find \<open>f\<close> through the session of the channel; a null channel is an error.\<close>

definition fuse_lowlevel_notify_inval_inode :: "'s sender \<Rightarrow> nat option \<Rightarrow> 64 word \<Rightarrow> int \<Rightarrow> int \<Rightarrow> 's ll \<Rightarrow> int \<times> 's ll" where
  "fuse_lowlevel_notify_inval_inode send ch ino offs len f = (case ch of
       None \<Rightarrow> (- EINVAL, f)
     | Some ch \<Rightarrow> send_notify_iov send ch 2 [le64 ino @ le64 (u64 offs) @ le64 (u64 len)] f)"

text \<open>\<open>nam\<close>: the bytes at the caller's pointer, of which \<open>nlen + 1\<close> are sent.\<close>

definition fuse_lowlevel_notify_inval_entry :: "'s sender \<Rightarrow> nat option \<Rightarrow> 64 word \<Rightarrow> byte list \<Rightarrow> nat \<Rightarrow> ('s, int) llc" where
  "fuse_lowlevel_notify_inval_entry send ch parent nam nlen f = (case ch of
       None \<Rightarrow> Inr (- EINVAL, f)
     | Some ch \<Rightarrow> if length nam < nlen + 1 then Inl PastEnd
         else Inr (send_notify_iov send ch 3 [le64 parent @ le32 (word_of_nat nlen) @ le32 0, take (nlen + 1) nam] f))"

definition fuse_lowlevel_notify_delete :: "'s sender \<Rightarrow> nat option \<Rightarrow> 64 word \<Rightarrow> 64 word \<Rightarrow> byte list \<Rightarrow> nat \<Rightarrow> ('s, int) llc" where
  "fuse_lowlevel_notify_delete send ch parent child nam nlen f = (case ch of
       None \<Rightarrow> Inr (- EINVAL, f)
     | Some ch \<Rightarrow> if minor_of f < 18 then Inr (- ENOSYS, f)
         else if length nam < nlen + 1 then Inl PastEnd
         else Inr (send_notify_iov send ch 6 [le64 parent @ le64 child @ le32 (word_of_nat nlen) @ le32 0, take (nlen + 1) nam] f))"

definition fuse_lowlevel_notify_store ::
  "'s kernel \<Rightarrow> 's sender \<Rightarrow> nat \<Rightarrow> int + nat \<Rightarrow> nat option \<Rightarrow> 64 word \<Rightarrow> int \<Rightarrow> fuse_bufvec \<Rightarrow> ('s, int) llc" where
  "fuse_lowlevel_notify_store K send tmp m ch ino offs bufv f = (case ch of
       None \<Rightarrow> Inr (- EINVAL, f)
     | Some ch \<Rightarrow> if minor_of f < 15 then Inr (- ENOSYS, f)
         else bindc (fuse_send_data_iov K send tmp m ch 4 0 [le64 ino @ le64 (u64 offs) @ le32 (word_of_nat (fuse_buf_size bufv)) @ le32 0] bufv f)
           (\<lambda>(res, f). Inr (if res > 0 then - res else res, f)))"

text \<open>\<open>m\<close>: the request structure that \<open>malloc\<close> gives.\<close>

definition fuse_lowlevel_notify_retrieve :: "'s sender \<Rightarrow> nat option \<Rightarrow> nat option \<Rightarrow> 64 word \<Rightarrow> nat \<Rightarrow> int \<Rightarrow> nat \<Rightarrow> 's ll \<Rightarrow> int \<times> 's ll" where
  "fuse_lowlevel_notify_retrieve send m ch ino len offs cookie f = (case ch of
       None \<Rightarrow> (- EINVAL, f)
     | Some ch \<Rightarrow> if minor_of f < 15 then (- ENOSYS, f) else (case m of
         None \<Rightarrow> (- ENOMEM, f)
       | Some rreq \<Rightarrow>
           let uniq = notify_ctr f;
               f = f\<lparr>notify_ctr := uniq + 1, notify_list := notify_list f @ [(rreq, \<lparr>n_unique = uniq, n_cookie = cookie\<rparr>)]\<rparr>;
               (err, f) = send_notify_iov send ch 5 [le64 uniq @ le64 ino @ le64 (u64 offs) @ le32 (word_of_nat len) @ le32 0] f
           in if err \<noteq> 0 then (err, f\<lparr>notify_list := filter (\<lambda>(a, _). a \<noteq> rreq) (notify_list f)\<rparr>) else (err, f)))"

section \<open>What a reply sends\<close>

definition freed :: "nat \<Rightarrow> 's ll \<Rightarrow> 's ll" where
  "freed a f = (list_del_req a f)\<lparr>reqs := (reqs f)(a := None)\<rparr>"

lemma free_req_last: "reqs f a = Some r \<Longrightarrow> ctr r = 1 \<Longrightarrow> fuse_free_req a f = Inr (freed a f)"
  by (simp add: fuse_free_req_def mod_req_def the_req_def list_del_req_def destroy_req_def freed_def)

lemma free_req_shared:
  "reqs f a = Some r \<Longrightarrow> ctr r \<noteq> 1 \<Longrightarrow>
     fuse_free_req a f = Inr ((list_del_req a f)\<lparr>reqs := (reqs f)(a \<mapsto> r\<lparr>ni_func := None, ni_data := 0, ctr := ctr r - 1\<rparr>)\<rparr>)"
  by (simp add: fuse_free_req_def mod_req_def the_req_def list_del_req_def)

text \<open>\<open>sent_reply\<close>: the one message of a reply has gone to the channel of the request, and the request is gone.\<close>

definition sent_reply :: "'s sender \<Rightarrow> nat \<Rightarrow> fuse_req \<Rightarrow> nat \<Rightarrow> int \<Rightarrow> byte list \<Rightarrow> 's ll \<Rightarrow> (int \<times> 's ll) c \<Rightarrow> bool" where
  "sent_reply send a r ch error body f res \<longleftrightarrow> (\<exists>iov. concat iov = out_header (sizeof_out_header + length body) error (unique r) @ body
     \<and> res = Inr (fst (send ch (Some iov) (lworld f)), freed a (f\<lparr>lworld := snd (send ch (Some iov) (lworld f))\<rparr>)))"

lemma iov_length_concat: "iov_length iov = length (concat iov)"
  by (simp add: iov_length_def length_concat)

lemma send_reply_iov_sends:
  assumes "reqs f a = Some r" "ctr r = 1" "rch r = Some ch" "- 1000 < error" "error \<le> 0"
  shows "sent_reply send a r ch error (concat iov) f (send_reply_iov send a error iov f)"
proof -
  let ?v = "out_header (sizeof_out_header + iov_length iov) error (unique r) # iov"
  obtain res w where s: "send ch (Some ?v) (lworld f) = (res, w)" by fastforce
  have "fuse_free_req a (f\<lparr>lworld := w\<rparr>) = Inr (freed a (f\<lparr>lworld := w\<rparr>))" using free_req_last [of "f\<lparr>lworld := w\<rparr>" a r] assms by simp
  then have "send_reply_iov send a error iov f = Inr (res, freed a (f\<lparr>lworld := w\<rparr>))"
    using assms s by (simp add: send_reply_iov_def fuse_send_reply_iov_nofree_def the_req_def fuse_send_msg_def)
  then show ?thesis unfolding sent_reply_def using s by (intro exI [of _ ?v]) (simp add: iov_length_concat)
qed

lemma send_reply_sends:
  "reqs f a = Some r \<Longrightarrow> ctr r = 1 \<Longrightarrow> rch r = Some ch \<Longrightarrow> - 1000 < error \<Longrightarrow> error \<le> 0 \<Longrightarrow>
     sent_reply send a r ch error arg f (send_reply send a error arg f)"
  using send_reply_iov_sends [of f a r ch error send "if arg = [] then [] else [arg]"] by (auto simp: send_reply_def split: if_splits)

lemma send_reply_ok_sends:
  "reqs f a = Some r \<Longrightarrow> ctr r = 1 \<Longrightarrow> rch r = Some ch \<Longrightarrow> sent_reply send a r ch 0 arg f (send_reply_ok send a arg f)"
  using send_reply_sends [of f a r ch 0] by (simp add: send_reply_ok_def)

text \<open>
  The replies, one for each function \<open>fuse_reply_*\<close> except \<open>fuse_reply_none\<close>, which sends an empty vector, and \<open>fuse_reply_data\<close>,
  whose body is collected from buffers. A \<open>bool\<close> says whether \<open>malloc\<close> gives the copy that the function makes.
\<close>

datatype reply =
    RErr int | REntry fuse_entry_param | RCreate fuse_entry_param fuse_file_info | RAttr stat rat | RReadlink string
  | ROpen fuse_file_info | RWrite nat | RBuf "byte list" | RStatfs statvfs | RXattr nat | RBmap "64 word" | RPoll "32 word"
  | RIoctl int "byte list" | RIov bool "byte list list" | ROpenCompat fuse_file_info_compat | RStatfsCompat statfs | RLock wire_flock
  | RRetry bool bool blocks blocks | RIoctlIov bool int "byte list list"

fun answer :: "'s sender \<Rightarrow> nat \<Rightarrow> reply \<Rightarrow> ('s, int) llc" where
  "answer send a (RErr e) f = fuse_reply_err send a e f"
| "answer send a (REntry e) f = fuse_reply_entry send a e f"
| "answer send a (RCreate e fi) f = fuse_reply_create send a e fi f"
| "answer send a (RAttr st t) f = fuse_reply_attr send a st t f"
| "answer send a (RReadlink s) f = fuse_reply_readlink send a s f"
| "answer send a (ROpen fi) f = fuse_reply_open send a fi f"
| "answer send a (RWrite n) f = fuse_reply_write send a n f"
| "answer send a (RBuf b) f = fuse_reply_buf send a b f"
| "answer send a (RStatfs st) f = fuse_reply_statfs send a st f"
| "answer send a (RXattr n) f = fuse_reply_xattr send a n f"
| "answer send a (RBmap i) f = fuse_reply_bmap send a i f"
| "answer send a (RPoll e) f = fuse_reply_poll send a e f"
| "answer send a (RIoctl x b) f = fuse_reply_ioctl send a x b f"
| "answer send a (RIov got v) f = fuse_reply_iov send got a v f"
| "answer send a (ROpenCompat fi) f = fuse_reply_open_compat send a fi f"
| "answer send a (RStatfsCompat st) f = fuse_reply_statfs_compat send a st f"
| "answer send a (RLock l) f = fuse_reply_lock send a l f"
| "answer send a (RRetry mem1 mem2 ins outs) f = fuse_reply_ioctl_retry send mem1 mem2 a ins outs f"
| "answer send a (RIoctlIov got x v) f = fuse_reply_ioctl_iov send got a x v f"

text \<open>\<open>fuse_ioctl_iovec_copy\<close> is called, for a nonempty vector, and gets no memory.\<close>

definition retry_fails :: "nat \<Rightarrow> bool \<Rightarrow> bool \<Rightarrow> blocks \<Rightarrow> blocks \<Rightarrow> bool" where
  "retry_fails minor mem1 mem2 ins outs \<longleftrightarrow> 16 \<le> minor \<and> (ins \<noteq> [] \<and> \<not> mem1 \<or> outs \<noteq> [] \<and> \<not> mem2)"

text \<open>The error number in the message and the size of its body, by the minor version of the protocol.\<close>

fun reply_error :: "nat \<Rightarrow> reply \<Rightarrow> int" where
  "reply_error minor (RErr e) = (if 0 \<le> e \<and> e < 1000 then - e else - ERANGE)"
| "reply_error minor (REntry e) = (if e_ino e = 0 \<and> minor < 4 then - ENOENT else 0)"
| "reply_error minor (RIov got v) = (if got then 0 else - ENOMEM)"
| "reply_error minor (RIoctlIov got x v) = (if got then 0 else - ENOMEM)"
| "reply_error minor (RRetry mem1 mem2 ins outs) = (if retry_fails minor mem1 mem2 ins outs then - ENOMEM else 0)"
| "reply_error minor _ = 0"

fun reply_size :: "nat \<Rightarrow> reply \<Rightarrow> nat" where
  "reply_size minor (RErr e) = 0"
| "reply_size minor (REntry e) = (if e_ino e = 0 \<and> minor < 4 then 0 else if minor < 9 then 120 else 128)"
| "reply_size minor (RCreate e fi) = (if minor < 9 then 136 else 144)"
| "reply_size minor (RAttr st t) = (if minor < 9 then 96 else 104)"
| "reply_size minor (RReadlink s) = length s"
| "reply_size minor (ROpen fi) = 16"
| "reply_size minor (RWrite n) = 8"
| "reply_size minor (RBuf b) = length b"
| "reply_size minor (RStatfs st) = (if minor < 4 then 48 else 80)"
| "reply_size minor (RXattr n) = 8"
| "reply_size minor (RBmap i) = 8"
| "reply_size minor (RPoll e) = 8"
| "reply_size minor (RIoctl x b) = 16 + length b"
| "reply_size minor (RIov got v) = (if got then length (concat v) else 0)"
| "reply_size minor (ROpenCompat fi) = 16"
| "reply_size minor (RStatfsCompat st) = (if minor < 4 then 48 else 80)"
| "reply_size minor (RLock l) = 24"
| "reply_size minor (RRetry mem1 mem2 ins outs) = (if retry_fails minor mem1 mem2 ins outs then 0 else 16 + 16 * length ins + 16 * length outs)"
| "reply_size minor (RIoctlIov got x v) = (if got then 16 + length (concat v) else 0)"

lemma out_header_length [simp]: "length (out_header n e u) = 16"
  by (simp add: out_header_def)

lemma reply_err_sends:
  assumes "reqs f a = Some r" "ctr r = 1" "rch r = Some ch"
  shows "sent_reply send a r ch (if 0 \<le> e \<and> e < 1000 then - e else - ERANGE) [] f (fuse_reply_err send a e f)"
proof (cases "0 \<le> e \<and> e < 1000")
  case True
  then show ?thesis using send_reply_sends [OF assms, of "- e" send "[]"] by (simp add: fuse_reply_err_def)
next
  case False
  then have "send_reply send a (- e) [] f = send_reply send a (- ERANGE) [] f"
    by (auto simp: send_reply_def send_reply_iov_def fuse_send_reply_iov_nofree_def Let_def)
  then show ?thesis using send_reply_sends [OF assms, of "- ERANGE" send "[]"] False by (auto simp: fuse_reply_err_def)
qed

lemma iovec_bytes_length [simp]: "length (iovec_bytes v) = 16 * length v"
  by (induction v) (auto simp: iovec_bytes_def)

lemma ioctl_out_length [simp]: "length (ioctl_out x fl i j) = 16"
  by (simp add: ioctl_out_def)

lemma lock_out_length: "lock_out l = Inr b \<Longrightarrow> length b = 24"
  by (auto simp: lock_out_def split: if_splits)

lemma retry_sends:
  assumes "reqs f a = Some r" "ctr r = 1" "rch r = Some ch"
  shows "\<exists>body. length body = reply_size (minor_of f) (RRetry mem1 mem2 ins outs)
    \<and> sent_reply send a r ch (reply_error (minor_of f) (RRetry mem1 mem2 ins outs)) body f (fuse_reply_ioctl_retry send mem1 mem2 a ins outs f)"
proof (cases "retry_fails (minor_of f) mem1 mem2 ins outs")
  case True
  then have "fuse_reply_ioctl_retry send mem1 mem2 a ins outs f = fuse_reply_err send a ENOMEM f"
    by (auto simp: fuse_reply_ioctl_retry_def retry_fails_def fuse_ioctl_iovec_copy_def Let_def)
  then show ?thesis using True reply_err_sends [OF assms, of send ENOMEM] by auto
next
  case False
  let ?v = "ioctl_out 0 FUSE_IOCTL_RETRY (length ins) (length outs) # (if ins = [] then [] else [iovec_bytes ins]) @ (if outs = [] then [] else [iovec_bytes outs])"
  have "fuse_reply_ioctl_retry send mem1 mem2 a ins outs f = send_reply_iov send a 0 ?v f"
    using False by (auto simp: fuse_reply_ioctl_retry_def retry_fails_def fuse_ioctl_iovec_copy_def Let_def)
  then show ?thesis using False send_reply_iov_sends [OF assms, of 0 send ?v] by (intro exI [of _ "concat ?v"]) auto
qed

lemma statfs_sends:
  assumes "reqs f a = Some r" "ctr r = 1" "rch r = Some ch"
  shows "\<exists>body. length body = (if minor_of f < 4 then 48 else 80) \<and> sent_reply send a r ch 0 body f (fuse_reply_statfs send a st f)"
  using send_reply_ok_sends [OF assms, of send "take (if minor_of f < 4 then 48 else 80) (convert_statfs st)"]
  by (intro exI [of _ "take (if minor_of f < 4 then 48 else 80) (convert_statfs st)"]) (auto simp: fuse_reply_statfs_def FUSE_COMPAT_STATFS_SIZE_def)

text \<open>The end of the range of a lock must be representable.\<close>

definition reply_defined :: "reply \<Rightarrow> bool" where
  "reply_defined rp = (case rp of RLock l \<Rightarrow> wl_type l \<noteq> 2 \<and> wl_len l \<noteq> 0 \<longrightarrow> in_int64 (wl_start l + wl_len l) \<and> in_int64 (wl_start l + wl_len l - 1) | _ \<Rightarrow> True)"

lemma answer_sends:
  assumes "reqs f a = Some r" "ctr r = 1" "rch r = Some ch" and def: "reply_defined rp"
  shows "\<exists>body. length body = reply_size (minor_of f) rp \<and> sent_reply send a r ch (reply_error (minor_of f) rp) body f (answer send a rp f)"
proof -
  note S = send_reply_ok_sends [OF assms(1-3), of send]
  show ?thesis
  proof (cases rp)
    case (RErr e)
    then show ?thesis using reply_err_sends [OF assms(1-3), of send e] by auto
  next
    case (REntry e)
    show ?thesis
    proof (cases "e_ino e = 0 \<and> minor_of f < 4")
      case True
      then show ?thesis using REntry reply_err_sends [OF assms(1-3), of send ENOENT] by (auto simp: fuse_reply_entry_def)
    next
      case False
      then show ?thesis using REntry S [of "take (if minor_of f < 9 then 120 else 128) (fill_entry e)"]
        by (intro exI [of _ "take (if minor_of f < 9 then 120 else 128) (fill_entry e)"])
          (auto simp: fuse_reply_entry_def FUSE_COMPAT_ENTRY_OUT_SIZE_def)
    qed
  next
    case (RCreate e fi)
    then show ?thesis using S [of "take (if minor_of f < 9 then 120 else 128) (fill_entry e) @ fill_open fi"]
      by (intro exI [of _ "take (if minor_of f < 9 then 120 else 128) (fill_entry e) @ fill_open fi"])
        (auto simp: fuse_reply_create_def FUSE_COMPAT_ENTRY_OUT_SIZE_def)
  next
    case (RAttr st t)
    let ?b = "le64 (word_of_nat (calc_timeout_sec t)) @ le32 (word_of_nat (calc_timeout_nsec t)) @ le32 0 @ attr_bytes (convert_stat st)"
    have "length ?b = 104" by simp
    then show ?thesis using RAttr S [of "take (if minor_of f < 9 then 96 else 104) ?b"]
      by (intro exI [of _ "take (if minor_of f < 9 then 96 else 104) ?b"]) (auto simp: fuse_reply_attr_def FUSE_COMPAT_ATTR_OUT_SIZE_def)
  next
    case (RStatfs st)
    then show ?thesis using statfs_sends [OF assms(1-3), of send st] by simp
  next
    case (RStatfsCompat st)
    then show ?thesis using statfs_sends [OF assms(1-3), of send] by (simp add: fuse_reply_statfs_compat_def)
  next
    case (RIoctl x b)
    then show ?thesis using send_reply_iov_sends [OF assms(1-3), of 0 send "ioctl_out x 0 0 0 # (if b = [] then [] else [b])"]
      by (intro exI [of _ "ioctl_out x 0 0 0 @ b"]) (auto simp: fuse_reply_ioctl_def)
  next
    case (RIov got v)
    then show ?thesis using send_reply_iov_sends [OF assms(1-3), of 0 send v] reply_err_sends [OF assms(1-3), of send ENOMEM]
      by (cases got) (auto simp: fuse_reply_iov_def)
  next
    case (RIoctlIov got x v)
    then show ?thesis using send_reply_iov_sends [OF assms(1-3), of 0 send "ioctl_out x 0 0 0 # v"] reply_err_sends [OF assms(1-3), of send ENOMEM]
      by (cases got) (auto simp: fuse_reply_ioctl_iov_def intro!: exI [of _ "ioctl_out x 0 0 0 @ concat v"])
  next
    case (RRetry mem1 mem2 ins outs)
    then show ?thesis using retry_sends [OF assms(1-3), of mem1 mem2 ins outs send] by simp
  next
    case (RLock l)
    then obtain b where b: "lock_out l = Inr b" using def by (fastforce simp: reply_defined_def lock_out_def)
    then show ?thesis using RLock S [of b] lock_out_length [OF b] by (auto simp: fuse_reply_lock_def)
  next
    case (ROpenCompat fi)
    then show ?thesis using S [of "fill_open_compat fi"]
      by (intro exI [of _ "fill_open_compat fi"]) (simp add: fuse_reply_open_compat_def fill_open_compat_def)
  next
    case (RReadlink s)
    then show ?thesis using S [of "of_str s"] by (intro exI [of _ "of_str s"]) (simp add: fuse_reply_readlink_def)
  next
    case (ROpen fi)
    then show ?thesis using S [of "fill_open fi"] by (intro exI [of _ "fill_open fi"]) (simp add: fuse_reply_open_def)
  next
    case (RWrite n)
    then show ?thesis using S [of "le32 (word_of_nat n) @ le32 0"] by (intro exI [of _ "le32 (word_of_nat n) @ le32 0"]) (simp add: fuse_reply_write_def)
  next
    case (RBuf b)
    then show ?thesis using S [of b] by (intro exI [of _ b]) (simp add: fuse_reply_buf_def)
  next
    case (RXattr n)
    then show ?thesis using S [of "le32 (word_of_nat n) @ le32 0"] by (intro exI [of _ "le32 (word_of_nat n) @ le32 0"]) (simp add: fuse_reply_xattr_def)
  next
    case (RBmap i)
    then show ?thesis using S [of "le64 i"] by (intro exI [of _ "le64 i"]) (simp add: fuse_reply_bmap_def)
  next
    case (RPoll e)
    then show ?thesis using S [of "le32 e @ le32 0"] by (intro exI [of _ "le32 e @ le32 0"]) (simp add: fuse_reply_poll_def)
  qed
qed

text \<open>
  (C33) A reply is one message that the kernel can read, for every function that replies but \<open>fuse_reply_none\<close> (which sends an empty
  vector) and \<open>fuse_reply_data\<close> (whose body comes from buffers): the message goes to the channel that the request came from, its
  header gives its true length, the number of the request and an error number that the protocol allows, its body has
  the size that the negotiated version of the protocol prescribes (none when a copy that the reply needs gets no memory, which is
  then the error), and the request is freed and on no list any more. The request is not shared, the message is shorter than 4 GB,
  and the end of a lock in the reply is representable.
\<close>

theorem reply_is_one_message:
  assumes "reqs f a = Some r" "ctr r = 1" "rch r = Some ch" "reply_defined rp" "reply_size (minor_of f) rp + 16 < 2 ^ 32"
  shows "\<exists>iov w. answer send a rp f = Inr (fst (send ch (Some iov) (lworld f)), freed a (f\<lparr>lworld := w\<rparr>)) \<and> w = snd (send ch (Some iov) (lworld f))
    \<and> length (concat iov) = 16 + reply_size (minor_of f) rp \<and> (\<exists>len. rd32 0 (concat iov) = Inr len \<and> unat len = length (concat iov))
    \<and> rd32 4 (concat iov) = Inr (word_of_int (reply_error (minor_of f) rp)) \<and> - 1000 < reply_error (minor_of f) rp \<and> reply_error (minor_of f) rp \<le> 0
    \<and> rd64 8 (concat iov) = Inr (unique r)"
proof -
  obtain body iov where b: "length body = reply_size (minor_of f) rp"
    "concat iov = out_header (16 + length body) (reply_error (minor_of f) rp) (unique r) @ body"
    "answer send a rp f = Inr (fst (send ch (Some iov) (lworld f)), freed a (f\<lparr>lworld := snd (send ch (Some iov) (lworld f))\<rparr>))"
    using answer_sends [OF assms(1-4), of send] by (auto simp: sent_reply_def sizeof_out_header_def)
  have l: "length (concat iov) = 16 + length body" using b(2) by simp
  have "rd32 0 (concat iov) = Inr (word_of_nat (16 + length body))" "rd32 4 (concat iov) = Inr (word_of_int (reply_error (minor_of f) rp))"
    "rd64 8 (concat iov) = Inr (unique r)" unfolding b(2) out_header_def by (simp_all add: wire)
  moreover have "- 1000 < reply_error (minor_of f) rp" "reply_error (minor_of f) rp \<le> 0" by (cases rp; simp)+
  moreover have "unat (word_of_nat (16 + length body) :: 32 word) = 16 + length body"
    unfolding unat_of_nat using assms(5) b(1) by (intro mod_less) simp
  ultimately show ?thesis using b(1,3) l by (intro exI [of _ iov] exI [of _ "snd (send ch (Some iov) (lworld f))"]) auto
qed

definition plain_opts :: ll_opts where
  "plain_opts = \<lparr>allow_root = False, atomic_o_trunc = False, no_remote_posix_lock = False, no_remote_flock = False, big_writes = False,
     splice_write = False, splice_move_opt = False, splice_read = False, no_splice_write = False, no_splice_move = False, no_splice_read = False\<rparr>"

definition sample_ll :: "(byte list list option list) ll" where
  "sample_ll = \<lparr>lopts = plain_opts, conn = \<lparr>proto_major = 7, proto_minor = 18, async_read = 1, max_write = 131072, max_readahead = 131072, capable = 0,
       want = 0, max_background = 0, congestion_threshold = 0\<rparr>, got_init = True, got_destroy = False, cuse_data = False, owner = 1000, userdata = 0,
     reqs = [5 \<mapsto> req0\<lparr>unique := 42, rch := Some 2\<rparr>], req_list = [5], intr_list = [], notify_ctr = 1, notify_list = [],
     lworld = \<lparr>memory = (\<lambda>_. 0), os_state = []\<rparr>\<rparr>"

definition log_send :: "(byte list list option list) sender" where
  "log_send ch iov w = (0, w\<lparr>os_state := os_state w @ [iov]\<rparr>)"

theorem reply_is_one_message_witness:
  "\<exists>iov. answer log_send 5 (RWrite 4096) sample_ll = Inr (0, freed 5 (sample_ll\<lparr>lworld := \<lparr>memory = (\<lambda>_. 0), os_state = [Some iov]\<rparr>\<rparr>))
     \<and> length (concat iov) = 24 \<and> rd64 8 (concat iov) = Inr 42"
proof -
  have "\<exists>iov w. answer log_send 5 (RWrite 4096) sample_ll
      = Inr (fst (log_send 2 (Some iov) (lworld sample_ll)), freed 5 (sample_ll\<lparr>lworld := w\<rparr>)) \<and> w = snd (log_send 2 (Some iov) (lworld sample_ll))
    \<and> length (concat iov) = 16 + reply_size (minor_of sample_ll) (RWrite 4096) \<and> (\<exists>len. rd32 0 (concat iov) = Inr len \<and> unat len = length (concat iov))
    \<and> rd32 4 (concat iov) = Inr (word_of_int (reply_error (minor_of sample_ll) (RWrite 4096))) \<and> - 1000 < reply_error (minor_of sample_ll) (RWrite 4096)
    \<and> reply_error (minor_of sample_ll) (RWrite 4096) \<le> 0 \<and> rd64 8 (concat iov) = Inr (unique (req0\<lparr>unique := 42, rch := Some 2\<rparr>))"
    by (rule reply_is_one_message) (simp_all add: sample_ll_def req0_def reply_defined_def)
  then show ?thesis by (auto simp: log_send_def sample_ll_def)
qed

end
