(* ===== verification/Fuse_Ops.thy ===== *)
theory Fuse_Ops
  imports Fuse_Reply
begin

text \<open>
  The handlers \<open>do_*\<close> of \<open>src/lib/fuse_lowlevel.c\<close>: each reads the fields of its request at their offsets, fills in a
  \<open>struct fuse_file_info\<close> and calls the operation of the filesystem, or answers for it when there is none. What the
  operations do is not known here; they get the request by its address and act on the whole state. Pointers into the message
  are the bytes from there to its end.
\<close>

unbundle bit_operations_syntax

section \<open>Data\<close>

type_synonym ino = "64 word"

record pollhandle =
  ph_kh :: "64 word"
  ph_ch :: "nat option"

record 's ll_ops =
  lo_init :: "(nat \<Rightarrow> fuse_conn_info \<Rightarrow> 's world \<Rightarrow> (fuse_conn_info \<times> 's world) c) option"
  lo_destroy :: "(nat \<Rightarrow> 's ll \<Rightarrow> 's ll c) option"
  lo_lookup :: "(nat \<Rightarrow> ino \<Rightarrow> string \<Rightarrow> 's ll \<Rightarrow> 's ll c) option"
  lo_forget :: "(nat \<Rightarrow> ino \<Rightarrow> 64 word \<Rightarrow> 's ll \<Rightarrow> 's ll c) option"
  lo_getattr :: "(nat \<Rightarrow> ino \<Rightarrow> fuse_file_info option \<Rightarrow> 's ll \<Rightarrow> 's ll c) option"
  lo_setattr :: "(nat \<Rightarrow> ino \<Rightarrow> stat \<Rightarrow> 32 word \<Rightarrow> fuse_file_info option \<Rightarrow> 's ll \<Rightarrow> 's ll c) option"
  lo_readlink :: "(nat \<Rightarrow> ino \<Rightarrow> 's ll \<Rightarrow> 's ll c) option"
  lo_mknod :: "(nat \<Rightarrow> ino \<Rightarrow> string \<Rightarrow> 32 word \<Rightarrow> 32 word \<Rightarrow> 's ll \<Rightarrow> 's ll c) option"
  lo_mkdir :: "(nat \<Rightarrow> ino \<Rightarrow> string \<Rightarrow> 32 word \<Rightarrow> 's ll \<Rightarrow> 's ll c) option"
  lo_unlink :: "(nat \<Rightarrow> ino \<Rightarrow> string \<Rightarrow> 's ll \<Rightarrow> 's ll c) option"
  lo_rmdir :: "(nat \<Rightarrow> ino \<Rightarrow> string \<Rightarrow> 's ll \<Rightarrow> 's ll c) option"
  lo_symlink :: "(nat \<Rightarrow> string \<Rightarrow> ino \<Rightarrow> string \<Rightarrow> 's ll \<Rightarrow> 's ll c) option"
  lo_rename :: "(nat \<Rightarrow> ino \<Rightarrow> string \<Rightarrow> ino \<Rightarrow> string \<Rightarrow> 's ll \<Rightarrow> 's ll c) option"
  lo_link :: "(nat \<Rightarrow> ino \<Rightarrow> ino \<Rightarrow> string \<Rightarrow> 's ll \<Rightarrow> 's ll c) option"
  lo_open :: "(nat \<Rightarrow> ino \<Rightarrow> fuse_file_info \<Rightarrow> 's ll \<Rightarrow> 's ll c) option"
  lo_read :: "(nat \<Rightarrow> ino \<Rightarrow> 32 word \<Rightarrow> 64 word \<Rightarrow> fuse_file_info \<Rightarrow> 's ll \<Rightarrow> 's ll c) option"
  lo_write :: "(nat \<Rightarrow> ino \<Rightarrow> byte list \<Rightarrow> 32 word \<Rightarrow> 64 word \<Rightarrow> fuse_file_info \<Rightarrow> 's ll \<Rightarrow> 's ll c) option"
  lo_flush :: "(nat \<Rightarrow> ino \<Rightarrow> fuse_file_info \<Rightarrow> 's ll \<Rightarrow> 's ll c) option"
  lo_release :: "(nat \<Rightarrow> ino \<Rightarrow> fuse_file_info \<Rightarrow> 's ll \<Rightarrow> 's ll c) option"
  lo_fsync :: "(nat \<Rightarrow> ino \<Rightarrow> bool \<Rightarrow> fuse_file_info \<Rightarrow> 's ll \<Rightarrow> 's ll c) option"
  lo_opendir :: "(nat \<Rightarrow> ino \<Rightarrow> fuse_file_info \<Rightarrow> 's ll \<Rightarrow> 's ll c) option"
  lo_readdir :: "(nat \<Rightarrow> ino \<Rightarrow> 32 word \<Rightarrow> 64 word \<Rightarrow> fuse_file_info \<Rightarrow> 's ll \<Rightarrow> 's ll c) option"
  lo_releasedir :: "(nat \<Rightarrow> ino \<Rightarrow> fuse_file_info \<Rightarrow> 's ll \<Rightarrow> 's ll c) option"
  lo_fsyncdir :: "(nat \<Rightarrow> ino \<Rightarrow> bool \<Rightarrow> fuse_file_info \<Rightarrow> 's ll \<Rightarrow> 's ll c) option"
  lo_statfs :: "(nat \<Rightarrow> ino \<Rightarrow> 's ll \<Rightarrow> 's ll c) option"
  lo_setxattr :: "(nat \<Rightarrow> ino \<Rightarrow> string \<Rightarrow> byte list \<Rightarrow> 32 word \<Rightarrow> 32 word \<Rightarrow> 's ll \<Rightarrow> 's ll c) option"
  lo_getxattr :: "(nat \<Rightarrow> ino \<Rightarrow> string \<Rightarrow> 32 word \<Rightarrow> 's ll \<Rightarrow> 's ll c) option"
  lo_listxattr :: "(nat \<Rightarrow> ino \<Rightarrow> 32 word \<Rightarrow> 's ll \<Rightarrow> 's ll c) option"
  lo_removexattr :: "(nat \<Rightarrow> ino \<Rightarrow> string \<Rightarrow> 's ll \<Rightarrow> 's ll c) option"
  lo_access :: "(nat \<Rightarrow> ino \<Rightarrow> 32 word \<Rightarrow> 's ll \<Rightarrow> 's ll c) option"
  lo_create :: "(nat \<Rightarrow> ino \<Rightarrow> string \<Rightarrow> 32 word \<Rightarrow> fuse_file_info \<Rightarrow> 's ll \<Rightarrow> 's ll c) option"
  lo_getlk :: "(nat \<Rightarrow> ino \<Rightarrow> fuse_file_info \<Rightarrow> wire_flock \<Rightarrow> 's ll \<Rightarrow> 's ll c) option"
  lo_setlk :: "(nat \<Rightarrow> ino \<Rightarrow> fuse_file_info \<Rightarrow> wire_flock \<Rightarrow> bool \<Rightarrow> 's ll \<Rightarrow> 's ll c) option"
  lo_bmap :: "(nat \<Rightarrow> ino \<Rightarrow> 32 word \<Rightarrow> 64 word \<Rightarrow> 's ll \<Rightarrow> 's ll c) option"
  lo_ioctl :: "(nat \<Rightarrow> ino \<Rightarrow> 32 word \<Rightarrow> 64 word \<Rightarrow> fuse_file_info \<Rightarrow> 32 word \<Rightarrow> byte list option \<Rightarrow> 32 word \<Rightarrow> 32 word \<Rightarrow> 's ll \<Rightarrow> 's ll c) option"
  lo_poll :: "(nat \<Rightarrow> ino \<Rightarrow> fuse_file_info \<Rightarrow> pollhandle option \<Rightarrow> 's ll \<Rightarrow> 's ll c) option"
  lo_write_buf :: "(nat \<Rightarrow> ino \<Rightarrow> fuse_bufvec \<Rightarrow> 64 word \<Rightarrow> fuse_file_info \<Rightarrow> 's ll \<Rightarrow> 's ll c) option"
  lo_retrieve_reply :: "(nat \<Rightarrow> nat \<Rightarrow> ino \<Rightarrow> 64 word \<Rightarrow> fuse_bufvec \<Rightarrow> 's ll \<Rightarrow> 's ll c) option"
  lo_forget_multi :: "(nat \<Rightarrow> 32 word \<Rightarrow> byte list \<Rightarrow> 's ll \<Rightarrow> 's ll c) option"
  lo_flock :: "(nat \<Rightarrow> ino \<Rightarrow> fuse_file_info \<Rightarrow> int \<Rightarrow> 's ll \<Rightarrow> 's ll c) option"

text \<open>
  What the handlers use from outside: the channel, the interrupt functions that filesystems register, \<open>malloc\<close> for
  requests and poll handles, and whether \<open>splice\<close> was there when the library was built.
\<close>

record 's host =
  h_send :: "'s sender"
  h_intr :: "nat \<Rightarrow> nat \<Rightarrow> nat \<Rightarrow> 's ll \<Rightarrow> 's ll c"
  h_allocs :: "nat option list"
  h_poll_mem :: bool
  h_splice :: bool
  h_bufsize :: "nat \<Rightarrow> nat"

definition fi0 :: fuse_file_info where
  "fi0 = \<lparr>fi_flags = 0, fh_old = 0, writepage = 0, direct_io = False, keep_cache = False, fi_flush = False, nonseekable = False,
     flock_release = False, fh = 0, lock_owner = 0\<rparr>"

definition fi_fh :: "64 word \<Rightarrow> fuse_file_info" where
  "fi_fh x = fi0\<lparr>fh := x, fh_old := x\<rparr>"

definition reply_err :: "'s host \<Rightarrow> nat \<Rightarrow> int \<Rightarrow> 's ll \<Rightarrow> 's ll c" where
  "reply_err H a err f = bindc (fuse_reply_err (h_send H) a err f) (\<lambda>(_, f). Inr f)"

definition set_umask :: "nat \<Rightarrow> 32 word \<Rightarrow> 's ll \<Rightarrow> 's ll c" where
  "set_umask a m f = mod_req a (\<lambda>r. r\<lparr>rctx := (rctx r)\<lparr>c_umask := m\<rparr>\<rparr>) f"

section \<open>Names and attributes\<close>

definition do_lookup :: "'s host \<Rightarrow> 's ll_ops \<Rightarrow> nat \<Rightarrow> ino \<Rightarrow> byte list \<Rightarrow> 's ll \<Rightarrow> 's ll c" where
  "do_lookup H O' a nodeid inarg f = (case lo_lookup O' of
       Some h \<Rightarrow> bindc (rd_str 0 inarg) (\<lambda>nam. h a nodeid nam f) | None \<Rightarrow> reply_err H a ENOSYS f)"

definition do_forget :: "'s host \<Rightarrow> 's ll_ops \<Rightarrow> nat \<Rightarrow> ino \<Rightarrow> byte list \<Rightarrow> 's ll \<Rightarrow> 's ll c" where
  "do_forget H O' a nodeid inarg f = (case lo_forget O' of
       Some h \<Rightarrow> bindc (rd64 0 inarg) (\<lambda>n. h a nodeid n f) | None \<Rightarrow> fuse_reply_none (h_send H) a f)"

primrec batch_forget_loop ::
  "(nat \<Rightarrow> ino \<Rightarrow> 64 word \<Rightarrow> 's ll \<Rightarrow> 's ll c) \<Rightarrow> nat \<Rightarrow> byte list \<Rightarrow> nat option list \<Rightarrow> nat \<Rightarrow> nat \<Rightarrow> 's ll \<Rightarrow> 's ll c" where
  "batch_forget_loop h a param ms i 0 f = Inr f"
| "batch_forget_loop h a param ms i (Suc k) f =
     (case fuse_ll_alloc_req (case ms of [] \<Rightarrow> None | m # _ \<Rightarrow> m) f of
        (None, f) \<Rightarrow> Inr f
      | (Some d, f) \<Rightarrow>
          bindc (the_req a f) (\<lambda>r.
          bindc (mod_req d (\<lambda>q. q\<lparr>unique := unique r, rctx := rctx r, rch := None\<rparr>) f) (\<lambda>f.
          bindc (rd64 (16 * i) param) (\<lambda>nodeid. bindc (rd64 (16 * i + 8) param) (\<lambda>nlookup.
          bindc (h d nodeid nlookup f) (batch_forget_loop h a param (tl ms) (i + 1) k))))))"

definition do_batch_forget :: "'s host \<Rightarrow> 's ll_ops \<Rightarrow> nat \<Rightarrow> ino \<Rightarrow> byte list \<Rightarrow> 's ll \<Rightarrow> 's ll c" where
  "do_batch_forget H O' a nodeid inarg f = (case lo_forget_multi O' of
       Some h \<Rightarrow> bindc (rd32 0 inarg) (\<lambda>count. h a count (drop 8 inarg) f)
     | None \<Rightarrow> (case lo_forget O' of
         Some h \<Rightarrow> bindc (rd32 0 inarg) (\<lambda>count.
           bindc (batch_forget_loop h a (drop 8 inarg) (h_allocs H) 0 (unat count) f) (fuse_reply_none (h_send H) a))
       | None \<Rightarrow> fuse_reply_none (h_send H) a f))"

definition FUSE_GETATTR_FH :: "32 word" where "FUSE_GETATTR_FH = 0x1"

definition do_getattr :: "'s host \<Rightarrow> 's ll_ops \<Rightarrow> nat \<Rightarrow> ino \<Rightarrow> byte list \<Rightarrow> 's ll \<Rightarrow> 's ll c" where
  "do_getattr H O' a nodeid inarg f =
     bindc (if minor_of f \<ge> 9 then
         bindc (rd32 0 inarg) (\<lambda>flags. if flags AND FUSE_GETATTR_FH \<noteq> 0 then bindc (rd64 8 inarg) (\<lambda>x. Inr (Some (fi_fh x))) else Inr None)
       else Inr None) (\<lambda>fip.
     case lo_getattr O' of Some h \<Rightarrow> h a nodeid fip f | None \<Rightarrow> reply_err H a ENOSYS f)"

definition convert_attr :: "byte list \<Rightarrow> stat c" where
  "convert_attr inarg =
     bindc (rd32 68 inarg) (\<lambda>mode. bindc (rd32 76 inarg) (\<lambda>uid. bindc (rd32 80 inarg) (\<lambda>gid. bindc (rd64 16 inarg) (\<lambda>len.
     bindc (rd64 32 inarg) (\<lambda>ats. bindc (rd64 40 inarg) (\<lambda>mts. bindc (rd32 56 inarg) (\<lambda>atn. bindc (rd32 60 inarg) (\<lambda>mtn.
       Inr (stat0\<lparr>st_mode := unat mode, st_uid := unat uid, st_gid := unat gid, st_size := sint len,
         st_atim := \<lparr>tv_sec = sint ats, tv_nsec = int (unat atn)\<rparr>, st_mtim := \<lparr>tv_sec = sint mts, tv_nsec = int (unat mtn)\<rparr>\<rparr>)))))))))"

definition FATTR_FH :: "32 word" where "FATTR_FH = 0x40"

text \<open>The bits \<open>FUSE_SET_ATTR_MODE\<close> to \<open>FUSE_SET_ATTR_MTIME_NOW\<close>.\<close>

definition set_attr_mask :: "32 word" where "set_attr_mask = 0x1bf"

definition do_setattr :: "'s host \<Rightarrow> 's ll_ops \<Rightarrow> nat \<Rightarrow> ino \<Rightarrow> byte list \<Rightarrow> 's ll \<Rightarrow> 's ll c" where
  "do_setattr H O' a nodeid inarg f = (case lo_setattr O' of
       Some h \<Rightarrow> bindc (convert_attr inarg) (\<lambda>st. bindc (rd32 0 inarg) (\<lambda>valid.
         if valid AND FATTR_FH \<noteq> 0 then bindc (rd64 8 inarg) (\<lambda>x. h a nodeid st (valid AND NOT FATTR_FH AND set_attr_mask) (Some (fi_fh x)) f)
         else h a nodeid st (valid AND set_attr_mask) None f))
     | None \<Rightarrow> reply_err H a ENOSYS f)"

definition do_access :: "'s host \<Rightarrow> 's ll_ops \<Rightarrow> nat \<Rightarrow> ino \<Rightarrow> byte list \<Rightarrow> 's ll \<Rightarrow> 's ll c" where
  "do_access H O' a nodeid inarg f = (case lo_access O' of
       Some h \<Rightarrow> bindc (rd32 0 inarg) (\<lambda>m. h a nodeid m f) | None \<Rightarrow> reply_err H a ENOSYS f)"

definition do_readlink :: "'s host \<Rightarrow> 's ll_ops \<Rightarrow> nat \<Rightarrow> ino \<Rightarrow> byte list \<Rightarrow> 's ll \<Rightarrow> 's ll c" where
  "do_readlink H O' a nodeid inarg f = (case lo_readlink O' of Some h \<Rightarrow> h a nodeid f | None \<Rightarrow> reply_err H a ENOSYS f)"

definition do_mknod :: "'s host \<Rightarrow> 's ll_ops \<Rightarrow> nat \<Rightarrow> ino \<Rightarrow> byte list \<Rightarrow> 's ll \<Rightarrow> 's ll c" where
  "do_mknod H O' a nodeid inarg f =
     bindc (if minor_of f \<ge> 12 then bindc (rd32 8 inarg) (\<lambda>m. bindc (set_umask a m f) (\<lambda>f. Inr (16, f))) else Inr (8, f)) (\<lambda>(i, f).
     case lo_mknod O' of
       Some h \<Rightarrow> bindc (rd_str i inarg) (\<lambda>nam. bindc (rd32 0 inarg) (\<lambda>mode. bindc (rd32 4 inarg) (\<lambda>rdev. h a nodeid nam mode rdev f)))
     | None \<Rightarrow> reply_err H a ENOSYS f)"

definition do_mkdir :: "'s host \<Rightarrow> 's ll_ops \<Rightarrow> nat \<Rightarrow> ino \<Rightarrow> byte list \<Rightarrow> 's ll \<Rightarrow> 's ll c" where
  "do_mkdir H O' a nodeid inarg f =
     bindc (if minor_of f \<ge> 12 then bindc (rd32 4 inarg) (\<lambda>m. set_umask a m f) else Inr f) (\<lambda>f.
     case lo_mkdir O' of
       Some h \<Rightarrow> bindc (rd_str 8 inarg) (\<lambda>nam. bindc (rd32 0 inarg) (\<lambda>mode. h a nodeid nam mode f))
     | None \<Rightarrow> reply_err H a ENOSYS f)"

definition do_unlink :: "'s host \<Rightarrow> 's ll_ops \<Rightarrow> nat \<Rightarrow> ino \<Rightarrow> byte list \<Rightarrow> 's ll \<Rightarrow> 's ll c" where
  "do_unlink H O' a nodeid inarg f = (case lo_unlink O' of
       Some h \<Rightarrow> bindc (rd_str 0 inarg) (\<lambda>nam. h a nodeid nam f) | None \<Rightarrow> reply_err H a ENOSYS f)"

definition do_rmdir :: "'s host \<Rightarrow> 's ll_ops \<Rightarrow> nat \<Rightarrow> ino \<Rightarrow> byte list \<Rightarrow> 's ll \<Rightarrow> 's ll c" where
  "do_rmdir H O' a nodeid inarg f = (case lo_rmdir O' of
       Some h \<Rightarrow> bindc (rd_str 0 inarg) (\<lambda>nam. h a nodeid nam f) | None \<Rightarrow> reply_err H a ENOSYS f)"

text \<open>The second string of a message begins behind the terminator of the first; finding it needs the first one's length.\<close>

definition do_symlink :: "'s host \<Rightarrow> 's ll_ops \<Rightarrow> nat \<Rightarrow> ino \<Rightarrow> byte list \<Rightarrow> 's ll \<Rightarrow> 's ll c" where
  "do_symlink H O' a nodeid inarg f = bindc (rd_str 0 inarg) (\<lambda>nam. case lo_symlink O' of
       Some h \<Rightarrow> bindc (rd_str (length nam + 1) inarg) (\<lambda>linkname. h a linkname nodeid nam f)
     | None \<Rightarrow> reply_err H a ENOSYS f)"

definition do_rename :: "'s host \<Rightarrow> 's ll_ops \<Rightarrow> nat \<Rightarrow> ino \<Rightarrow> byte list \<Rightarrow> 's ll \<Rightarrow> 's ll c" where
  "do_rename H O' a nodeid inarg f = bindc (rd_str 8 inarg) (\<lambda>oldname. case lo_rename O' of
       Some h \<Rightarrow> bindc (rd64 0 inarg) (\<lambda>newdir. bindc (rd_str (8 + length oldname + 1) inarg) (\<lambda>newname. h a nodeid oldname newdir newname f))
     | None \<Rightarrow> reply_err H a ENOSYS f)"

definition do_link :: "'s host \<Rightarrow> 's ll_ops \<Rightarrow> nat \<Rightarrow> ino \<Rightarrow> byte list \<Rightarrow> 's ll \<Rightarrow> 's ll c" where
  "do_link H O' a nodeid inarg f = (case lo_link O' of
       Some h \<Rightarrow> bindc (rd64 0 inarg) (\<lambda>old. bindc (rd_str 8 inarg) (\<lambda>nam. h a old nodeid nam f))
     | None \<Rightarrow> reply_err H a ENOSYS f)"

section \<open>Files\<close>

definition do_create :: "'s host \<Rightarrow> 's ll_ops \<Rightarrow> nat \<Rightarrow> ino \<Rightarrow> byte list \<Rightarrow> 's ll \<Rightarrow> 's ll c" where
  "do_create H O' a nodeid inarg f = (case lo_create O' of
       Some h \<Rightarrow> bindc (rd32 0 inarg) (\<lambda>flags.
         bindc (if minor_of f \<ge> 12 then bindc (rd32 8 inarg) (\<lambda>m. bindc (set_umask a m f) (\<lambda>f. Inr (16, f))) else Inr (8, f)) (\<lambda>(i, f).
         bindc (rd_str i inarg) (\<lambda>nam. bindc (rd32 4 inarg) (\<lambda>mode. h a nodeid nam mode (fi0\<lparr>fi_flags := sint flags\<rparr>) f))))
     | None \<Rightarrow> reply_err H a ENOSYS f)"

definition do_open :: "'s host \<Rightarrow> 's ll_ops \<Rightarrow> nat \<Rightarrow> ino \<Rightarrow> byte list \<Rightarrow> 's ll \<Rightarrow> 's ll c" where
  "do_open H O' a nodeid inarg f = bindc (rd32 0 inarg) (\<lambda>flags. let fi = fi0\<lparr>fi_flags := sint flags\<rparr> in case lo_open O' of
       Some h \<Rightarrow> h a nodeid fi f
     | None \<Rightarrow> bindc (fuse_reply_open (h_send H) a fi f) (\<lambda>(_, f). Inr f))"

definition do_read :: "'s host \<Rightarrow> 's ll_ops \<Rightarrow> nat \<Rightarrow> ino \<Rightarrow> byte list \<Rightarrow> 's ll \<Rightarrow> 's ll c" where
  "do_read H O' a nodeid inarg f = (case lo_read O' of
       Some h \<Rightarrow> bindc (rd64 0 inarg) (\<lambda>x.
         bindc (if minor_of f \<ge> 9 then bindc (rd64 24 inarg) (\<lambda>own. bindc (rd32 32 inarg) (\<lambda>flags.
             Inr ((fi_fh x)\<lparr>lock_owner := own, fi_flags := sint flags\<rparr>))) else Inr (fi_fh x)) (\<lambda>fi.
         bindc (rd32 16 inarg) (\<lambda>len. bindc (rd64 8 inarg) (\<lambda>offs. h a nodeid len offs fi f))))
     | None \<Rightarrow> reply_err H a ENOSYS f)"

definition FUSE_COMPAT_WRITE_IN_SIZE :: nat where "FUSE_COMPAT_WRITE_IN_SIZE = 24"
definition sizeof_write_in :: nat where "sizeof_write_in = 40"
definition in_header_size :: nat where "in_header_size = 40"

text \<open>The file information of a write, and how long its header is.\<close>

definition write_info :: "nat \<Rightarrow> byte list \<Rightarrow> (fuse_file_info \<times> nat) c" where
  "write_info minor inarg =
     bindc (rd64 0 inarg) (\<lambda>x. bindc (rd32 20 inarg) (\<lambda>wf. let fi = (fi_fh x)\<lparr>writepage := int (unat (wf AND 1))\<rparr> in
       if minor < 9 then Inr (fi, FUSE_COMPAT_WRITE_IN_SIZE)
       else bindc (rd64 24 inarg) (\<lambda>own. bindc (rd32 32 inarg) (\<lambda>flags.
         Inr (fi\<lparr>lock_owner := own, fi_flags := sint flags\<rparr>, sizeof_write_in)))))"

definition do_write :: "'s host \<Rightarrow> 's ll_ops \<Rightarrow> nat \<Rightarrow> ino \<Rightarrow> byte list \<Rightarrow> 's ll \<Rightarrow> 's ll c" where
  "do_write H O' a nodeid inarg f = bindc (write_info (minor_of f) inarg) (\<lambda>(fi, i). case lo_write O' of
       Some h \<Rightarrow> bindc (rd32 16 inarg) (\<lambda>len. bindc (rd64 8 inarg) (\<lambda>offs. h a nodeid (drop i inarg) len offs fi f))
     | None \<Rightarrow> reply_err H a ENOSYS f)"

text \<open>
  A write whose data stays where it was received: \<open>ibuf\<close> is the buffer with the whole message, in memory. The size
  that is left for the data is computed in \<open>size_t\<close>.
\<close>

definition do_write_buf :: "'s host \<Rightarrow> 's ll_ops \<Rightarrow> nat \<Rightarrow> ino \<Rightarrow> byte list \<Rightarrow> fuse_buf \<Rightarrow> 's ll \<Rightarrow> 's ll c" where
  "do_write_buf H O' a nodeid inarg ibuf f = bindc (write_info (minor_of f) inarg) (\<lambda>(fi, i).
     let left = nat ((int (buf_size ibuf) - int (in_header_size + i)) mod 2 ^ 64) in
     bindc (rd32 16 inarg) (\<lambda>len.
       if left < unat len then reply_err H a EIO f
       else bindc (rd64 8 inarg) (\<lambda>offs. case lo_write_buf O' of
         None \<Rightarrow> Inl NullDeref
       | Some h \<Rightarrow> h a nodeid \<lparr>bufs = [ibuf\<lparr>mem := mem ibuf + in_header_size + i, buf_size := unat len\<rparr>], idx = 0, off = 0\<rparr> offs fi f)))"

definition do_flush :: "'s host \<Rightarrow> 's ll_ops \<Rightarrow> nat \<Rightarrow> ino \<Rightarrow> byte list \<Rightarrow> 's ll \<Rightarrow> 's ll c" where
  "do_flush H O' a nodeid inarg f = bindc (rd64 0 inarg) (\<lambda>x. let fi = (fi_fh x)\<lparr>fi_flush := True\<rparr> in
     bindc (if minor_of f \<ge> 7 then bindc (rd64 16 inarg) (\<lambda>own. Inr (fi\<lparr>lock_owner := own\<rparr>)) else Inr fi) (\<lambda>fi.
     case lo_flush O' of Some h \<Rightarrow> h a nodeid fi f | None \<Rightarrow> reply_err H a ENOSYS f))"

definition FUSE_RELEASE_FLUSH :: "32 word" where "FUSE_RELEASE_FLUSH = 0x1"
definition FUSE_RELEASE_FLOCK_UNLOCK :: "32 word" where "FUSE_RELEASE_FLOCK_UNLOCK = 0x2"

definition do_release :: "'s host \<Rightarrow> 's ll_ops \<Rightarrow> nat \<Rightarrow> ino \<Rightarrow> byte list \<Rightarrow> 's ll \<Rightarrow> 's ll c" where
  "do_release H O' a nodeid inarg f =
     bindc (rd64 0 inarg) (\<lambda>x. bindc (rd32 8 inarg) (\<lambda>flags. bindc (rd32 12 inarg) (\<lambda>rel. let fi = (fi_fh x)\<lparr>fi_flags := sint flags\<rparr> in
     bindc (if minor_of f \<ge> 8 then bindc (rd64 16 inarg) (\<lambda>own. Inr (fi\<lparr>fi_flush := (rel AND FUSE_RELEASE_FLUSH \<noteq> 0), lock_owner := own\<rparr>))
       else Inr fi) (\<lambda>fi.
     bindc (if rel AND FUSE_RELEASE_FLOCK_UNLOCK \<noteq> 0 then bindc (rd64 16 inarg) (\<lambda>own. Inr (fi\<lparr>flock_release := True, lock_owner := own\<rparr>))
       else Inr fi) (\<lambda>fi.
     case lo_release O' of Some h \<Rightarrow> h a nodeid fi f | None \<Rightarrow> reply_err H a 0 f)))))"

definition do_fsync :: "'s host \<Rightarrow> 's ll_ops \<Rightarrow> nat \<Rightarrow> ino \<Rightarrow> byte list \<Rightarrow> 's ll \<Rightarrow> 's ll c" where
  "do_fsync H O' a nodeid inarg f = bindc (rd64 0 inarg) (\<lambda>x. case lo_fsync O' of
       Some h \<Rightarrow> bindc (rd32 8 inarg) (\<lambda>flags. h a nodeid (flags AND 1 \<noteq> 0) (fi_fh x) f) | None \<Rightarrow> reply_err H a ENOSYS f)"

definition do_opendir :: "'s host \<Rightarrow> 's ll_ops \<Rightarrow> nat \<Rightarrow> ino \<Rightarrow> byte list \<Rightarrow> 's ll \<Rightarrow> 's ll c" where
  "do_opendir H O' a nodeid inarg f = bindc (rd32 0 inarg) (\<lambda>flags. let fi = fi0\<lparr>fi_flags := sint flags\<rparr> in case lo_opendir O' of
       Some h \<Rightarrow> h a nodeid fi f
     | None \<Rightarrow> bindc (fuse_reply_open (h_send H) a fi f) (\<lambda>(_, f). Inr f))"

definition do_readdir :: "'s host \<Rightarrow> 's ll_ops \<Rightarrow> nat \<Rightarrow> ino \<Rightarrow> byte list \<Rightarrow> 's ll \<Rightarrow> 's ll c" where
  "do_readdir H O' a nodeid inarg f = bindc (rd64 0 inarg) (\<lambda>x. case lo_readdir O' of
       Some h \<Rightarrow> bindc (rd32 16 inarg) (\<lambda>len. bindc (rd64 8 inarg) (\<lambda>offs. h a nodeid len offs (fi_fh x) f))
     | None \<Rightarrow> reply_err H a ENOSYS f)"

definition do_releasedir :: "'s host \<Rightarrow> 's ll_ops \<Rightarrow> nat \<Rightarrow> ino \<Rightarrow> byte list \<Rightarrow> 's ll \<Rightarrow> 's ll c" where
  "do_releasedir H O' a nodeid inarg f = bindc (rd64 0 inarg) (\<lambda>x. bindc (rd32 8 inarg) (\<lambda>flags. case lo_releasedir O' of
       Some h \<Rightarrow> h a nodeid ((fi_fh x)\<lparr>fi_flags := sint flags\<rparr>) f | None \<Rightarrow> reply_err H a 0 f))"

definition do_fsyncdir :: "'s host \<Rightarrow> 's ll_ops \<Rightarrow> nat \<Rightarrow> ino \<Rightarrow> byte list \<Rightarrow> 's ll \<Rightarrow> 's ll c" where
  "do_fsyncdir H O' a nodeid inarg f = bindc (rd64 0 inarg) (\<lambda>x. case lo_fsyncdir O' of
       Some h \<Rightarrow> bindc (rd32 8 inarg) (\<lambda>flags. h a nodeid (flags AND 1 \<noteq> 0) (fi_fh x) f) | None \<Rightarrow> reply_err H a ENOSYS f)"

definition do_statfs :: "'s host \<Rightarrow> 's ll_ops \<Rightarrow> nat \<Rightarrow> ino \<Rightarrow> byte list \<Rightarrow> 's ll \<Rightarrow> 's ll c" where
  "do_statfs H O' a nodeid inarg f = (case lo_statfs O' of
       Some h \<Rightarrow> h a nodeid f
     | None \<Rightarrow> bindc (fuse_reply_statfs (h_send H) a (statvfs0\<lparr>f_namemax := 255, f_bsize := 512\<rparr>) f) (\<lambda>(_, f). Inr f))"

section \<open>Extended attributes\<close>

definition do_setxattr :: "'s host \<Rightarrow> 's ll_ops \<Rightarrow> nat \<Rightarrow> ino \<Rightarrow> byte list \<Rightarrow> 's ll \<Rightarrow> 's ll c" where
  "do_setxattr H O' a nodeid inarg f = bindc (rd_str 8 inarg) (\<lambda>nam. case lo_setxattr O' of
       Some h \<Rightarrow> bindc (rd32 0 inarg) (\<lambda>len. bindc (rd32 4 inarg) (\<lambda>flags. h a nodeid nam (drop (8 + length nam + 1) inarg) len flags f))
     | None \<Rightarrow> reply_err H a ENOSYS f)"

definition do_getxattr :: "'s host \<Rightarrow> 's ll_ops \<Rightarrow> nat \<Rightarrow> ino \<Rightarrow> byte list \<Rightarrow> 's ll \<Rightarrow> 's ll c" where
  "do_getxattr H O' a nodeid inarg f = (case lo_getxattr O' of
       Some h \<Rightarrow> bindc (rd_str 8 inarg) (\<lambda>nam. bindc (rd32 0 inarg) (\<lambda>len. h a nodeid nam len f)) | None \<Rightarrow> reply_err H a ENOSYS f)"

definition do_listxattr :: "'s host \<Rightarrow> 's ll_ops \<Rightarrow> nat \<Rightarrow> ino \<Rightarrow> byte list \<Rightarrow> 's ll \<Rightarrow> 's ll c" where
  "do_listxattr H O' a nodeid inarg f = (case lo_listxattr O' of
       Some h \<Rightarrow> bindc (rd32 0 inarg) (\<lambda>len. h a nodeid len f) | None \<Rightarrow> reply_err H a ENOSYS f)"

definition do_removexattr :: "'s host \<Rightarrow> 's ll_ops \<Rightarrow> nat \<Rightarrow> ino \<Rightarrow> byte list \<Rightarrow> 's ll \<Rightarrow> 's ll c" where
  "do_removexattr H O' a nodeid inarg f = (case lo_removexattr O' of
       Some h \<Rightarrow> bindc (rd_str 0 inarg) (\<lambda>nam. h a nodeid nam f) | None \<Rightarrow> reply_err H a ENOSYS f)"

section \<open>Locks\<close>

text \<open>\<open>struct fuse_file_lock\<close> at offset \<open>i\<close>; the type becomes a \<open>short\<close>.\<close>

definition convert_fuse_file_lock :: "nat \<Rightarrow> byte list \<Rightarrow> wire_flock c" where
  "convert_fuse_file_lock i bs =
     bindc (rd32 (i + 16) bs) (\<lambda>typ. bindc (rd64 i bs) (\<lambda>start. bindc (rd64 (i + 8) bs) (\<lambda>end'. bindc (rd32 (i + 20) bs) (\<lambda>pid.
       Inr \<lparr>wl_type = sint (ucast typ :: 16 word), wl_start = sint start,
         wl_len = (if end' = u64 OFFSET_MAX then 0 else sint (end' - start + 1)), wl_pid = sint pid\<rparr>))))"

definition lock_info :: "byte list \<Rightarrow> fuse_file_info c" where
  "lock_info inarg = bindc (rd64 0 inarg) (\<lambda>x. bindc (rd64 8 inarg) (\<lambda>own. Inr (fi0\<lparr>fh := x, lock_owner := own\<rparr>)))"

definition do_getlk :: "'s host \<Rightarrow> 's ll_ops \<Rightarrow> nat \<Rightarrow> ino \<Rightarrow> byte list \<Rightarrow> 's ll \<Rightarrow> 's ll c" where
  "do_getlk H O' a nodeid inarg f = bindc (lock_info inarg) (\<lambda>fi. bindc (convert_fuse_file_lock 16 inarg) (\<lambda>l. case lo_getlk O' of
       Some h \<Rightarrow> h a nodeid fi l f | None \<Rightarrow> reply_err H a ENOSYS f))"

definition FUSE_LK_FLOCK :: "32 word" where "FUSE_LK_FLOCK = 0x1"

text \<open>\<open>LOCK_SH\<close>, \<open>LOCK_EX\<close>, \<open>LOCK_UN\<close> and \<open>LOCK_NB\<close> of \<open>flock (2)\<close>.\<close>

definition flock_op :: "32 word \<Rightarrow> bool \<Rightarrow> int" where
  "flock_op typ sleep = (if typ = 0 then 1 else if typ = 1 then 2 else if typ = 2 then 8 else 0) + (if sleep then 0 else 4)"

definition do_setlk_common :: "bool \<Rightarrow> 's host \<Rightarrow> 's ll_ops \<Rightarrow> nat \<Rightarrow> ino \<Rightarrow> byte list \<Rightarrow> 's ll \<Rightarrow> 's ll c" where
  "do_setlk_common sleep H O' a nodeid inarg f = bindc (lock_info inarg) (\<lambda>fi. bindc (rd32 40 inarg) (\<lambda>flags.
     if flags AND FUSE_LK_FLOCK \<noteq> 0 then
       bindc (rd32 32 inarg) (\<lambda>typ. case lo_flock O' of Some h \<Rightarrow> h a nodeid fi (flock_op typ sleep) f | None \<Rightarrow> reply_err H a ENOSYS f)
     else bindc (convert_fuse_file_lock 16 inarg) (\<lambda>l. case lo_setlk O' of
       Some h \<Rightarrow> h a nodeid fi l sleep f | None \<Rightarrow> reply_err H a ENOSYS f)))"

definition do_setlk :: "'s host \<Rightarrow> 's ll_ops \<Rightarrow> nat \<Rightarrow> ino \<Rightarrow> byte list \<Rightarrow> 's ll \<Rightarrow> 's ll c" where
  "do_setlk H O' a nodeid inarg f = do_setlk_common False H O' a nodeid inarg f"

definition do_setlkw :: "'s host \<Rightarrow> 's ll_ops \<Rightarrow> nat \<Rightarrow> ino \<Rightarrow> byte list \<Rightarrow> 's ll \<Rightarrow> 's ll c" where
  "do_setlkw H O' a nodeid inarg f = do_setlk_common True H O' a nodeid inarg f"

section \<open>Other requests\<close>

definition do_bmap :: "'s host \<Rightarrow> 's ll_ops \<Rightarrow> nat \<Rightarrow> ino \<Rightarrow> byte list \<Rightarrow> 's ll \<Rightarrow> 's ll c" where
  "do_bmap H O' a nodeid inarg f = (case lo_bmap O' of
       Some h \<Rightarrow> bindc (rd32 8 inarg) (\<lambda>bsz. bindc (rd64 0 inarg) (\<lambda>block. h a nodeid bsz block f)) | None \<Rightarrow> reply_err H a ENOSYS f)"

definition FUSE_IOCTL_DIR :: "32 word" where "FUSE_IOCTL_DIR = 0x10"
definition FUSE_CAP_IOCTL_DIR :: "32 word" where "FUSE_CAP_IOCTL_DIR = 0x800"
definition ENOTTY :: int where "ENOTTY = 25"

definition do_ioctl :: "'s host \<Rightarrow> 's ll_ops \<Rightarrow> nat \<Rightarrow> ino \<Rightarrow> byte list \<Rightarrow> 's ll \<Rightarrow> 's ll c" where
  "do_ioctl H O' a nodeid inarg f = bindc (rd32 8 inarg) (\<lambda>flags. bindc (rd32 24 inarg) (\<lambda>in_size.
     if flags AND FUSE_IOCTL_DIR \<noteq> 0 \<and> want (conn f) AND FUSE_CAP_IOCTL_DIR = 0 then reply_err H a ENOTTY f
     else bindc (rd64 0 inarg) (\<lambda>x. case lo_ioctl O' of
       Some h \<Rightarrow> bindc (rd32 12 inarg) (\<lambda>cmd. bindc (rd64 16 inarg) (\<lambda>arg. bindc (rd32 28 inarg) (\<lambda>out_size.
         h a nodeid cmd arg (fi_fh x) flags (if in_size = 0 then None else Some (drop 32 inarg)) in_size out_size f)))
     | None \<Rightarrow> reply_err H a ENOSYS f)))"

definition FUSE_POLL_SCHEDULE_NOTIFY :: "32 word" where "FUSE_POLL_SCHEDULE_NOTIFY = 0x1"

definition do_poll :: "'s host \<Rightarrow> 's ll_ops \<Rightarrow> nat \<Rightarrow> ino \<Rightarrow> byte list \<Rightarrow> 's ll \<Rightarrow> 's ll c" where
  "do_poll H O' a nodeid inarg f = bindc (rd64 0 inarg) (\<lambda>x. case lo_poll O' of
       None \<Rightarrow> reply_err H a ENOSYS f
     | Some h \<Rightarrow> bindc (rd32 16 inarg) (\<lambda>flags.
         if flags AND FUSE_POLL_SCHEDULE_NOTIFY \<noteq> 0 then
           if \<not> h_poll_mem H then reply_err H a ENOMEM f
           else bindc (rd64 8 inarg) (\<lambda>kh. bindc (the_req a f) (\<lambda>r. h a nodeid (fi_fh x) (Some \<lparr>ph_kh = kh, ph_ch = rch r\<rparr>) f))
         else h a nodeid (fi_fh x) None f))"

definition do_destroy :: "'s host \<Rightarrow> 's ll_ops \<Rightarrow> nat \<Rightarrow> ino \<Rightarrow> byte list \<Rightarrow> 's ll \<Rightarrow> 's ll c" where
  "do_destroy H O' a nodeid inarg f =
     bindc (case lo_destroy O' of Some h \<Rightarrow> h (userdata f) (f\<lparr>got_destroy := True\<rparr>) | None \<Rightarrow> Inr (f\<lparr>got_destroy := True\<rparr>)) (\<lambda>f.
     bindc (send_reply_ok (h_send H) a [] f) (\<lambda>(_, f). Inr f))"

end
