(* ===== verification/Fuse_Dispatch.thy ===== *)
theory Fuse_Dispatch
  imports Fuse_Ops
begin

text \<open>
  From a message to its handler (\<open>src/lib/fuse_lowlevel.c\<close>): the negotiation of \<open>do_init\<close>, requests to interrupt other
  requests, answers to notifications, and \<open>fuse_ll_process_buf\<close>, which checks a message, makes a request of it and calls
  the handler. Messages are in memory; the branch for messages in a pipe is left out.
\<close>

unbundle bit_operations_syntax

section \<open>Negotiation\<close>

definition FUSE_CAP_ASYNC_READ :: "32 word" where "FUSE_CAP_ASYNC_READ = 0x1"
definition FUSE_CAP_ATOMIC_O_TRUNC :: "32 word" where "FUSE_CAP_ATOMIC_O_TRUNC = 0x8"
definition FUSE_CAP_EXPORT_SUPPORT :: "32 word" where "FUSE_CAP_EXPORT_SUPPORT = 0x10"
definition FUSE_CAP_BIG_WRITES :: "32 word" where "FUSE_CAP_BIG_WRITES = 0x20"
definition FUSE_CAP_DONT_MASK :: "32 word" where "FUSE_CAP_DONT_MASK = 0x40"
definition FUSE_CAP_SPLICE_WRITE :: "32 word" where "FUSE_CAP_SPLICE_WRITE = 0x80"
definition FUSE_CAP_SPLICE_MOVE :: "32 word" where "FUSE_CAP_SPLICE_MOVE = 0x100"

definition FUSE_ASYNC_READ :: "32 word" where "FUSE_ASYNC_READ = 0x1"
definition FUSE_POSIX_LOCKS :: "32 word" where "FUSE_POSIX_LOCKS = 0x2"
definition FUSE_ATOMIC_O_TRUNC :: "32 word" where "FUSE_ATOMIC_O_TRUNC = 0x8"
definition FUSE_EXPORT_SUPPORT :: "32 word" where "FUSE_EXPORT_SUPPORT = 0x10"
definition FUSE_BIG_WRITES :: "32 word" where "FUSE_BIG_WRITES = 0x20"
definition FUSE_DONT_MASK :: "32 word" where "FUSE_DONT_MASK = 0x40"
definition FUSE_FLOCK_LOCKS :: "32 word" where "FUSE_FLOCK_LOCKS = 0x400"

definition bit_if :: "bool \<Rightarrow> 32 word \<Rightarrow> 32 word" where
  "bit_if b c = (if b then c else 0)"

definition kernel_caps :: "32 word \<Rightarrow> 32 word" where
  "kernel_caps flags =
     bit_if (flags AND FUSE_ASYNC_READ \<noteq> 0) FUSE_CAP_ASYNC_READ OR bit_if (flags AND FUSE_POSIX_LOCKS \<noteq> 0) FUSE_CAP_POSIX_LOCKS
     OR bit_if (flags AND FUSE_ATOMIC_O_TRUNC \<noteq> 0) FUSE_CAP_ATOMIC_O_TRUNC OR bit_if (flags AND FUSE_EXPORT_SUPPORT \<noteq> 0) FUSE_CAP_EXPORT_SUPPORT
     OR bit_if (flags AND FUSE_BIG_WRITES \<noteq> 0) FUSE_CAP_BIG_WRITES OR bit_if (flags AND FUSE_DONT_MASK \<noteq> 0) FUSE_CAP_DONT_MASK
     OR bit_if (flags AND FUSE_FLOCK_LOCKS \<noteq> 0) FUSE_CAP_FLOCK_LOCKS"

definition init_kernel_side :: "nat \<Rightarrow> 32 word \<Rightarrow> 32 word \<Rightarrow> fuse_conn_info \<Rightarrow> fuse_conn_info" where
  "init_kernel_side minor readahead flags c =
     (if minor \<ge> 6 then
        c\<lparr>async_read := (if async_read c \<noteq> 0 then unat (flags AND FUSE_ASYNC_READ) else async_read c),
          max_readahead := (if unat readahead < max_readahead c then unat readahead else max_readahead c),
          capable := capable c OR kernel_caps flags\<rparr>
      else c\<lparr>async_read := 0, max_readahead := 0\<rparr>)"

definition init_splice :: "bool \<Rightarrow> ll_opts \<Rightarrow> fuse_conn_info \<Rightarrow> fuse_conn_info" where
  "init_splice have_splice o' c =
     (if proto_minor c \<ge> 14 \<and> have_splice then
        c\<lparr>capable := capable c OR FUSE_CAP_SPLICE_WRITE OR FUSE_CAP_SPLICE_MOVE OR FUSE_CAP_SPLICE_READ,
          want := want c OR bit_if (splice_write o') FUSE_CAP_SPLICE_WRITE OR bit_if (splice_move_opt o') FUSE_CAP_SPLICE_MOVE
            OR bit_if (splice_read o') FUSE_CAP_SPLICE_READ\<rparr>
      else c)"

definition FUSE_MIN_READ_BUFFER :: nat where "FUSE_MIN_READ_BUFFER = 8192"

text \<open>What the library wants itself, and how much it can take in one write.\<close>

definition init_library_side :: "'s ll_ops \<Rightarrow> ll_opts \<Rightarrow> nat \<Rightarrow> fuse_conn_info \<Rightarrow> fuse_conn_info" where
  "init_library_side O' o' bufsize c =
     (let c = c\<lparr>capable := capable c OR bit_if (proto_minor c \<ge> 18) FUSE_CAP_IOCTL_DIR,
              want := want c OR bit_if (atomic_o_trunc o') FUSE_CAP_ATOMIC_O_TRUNC
                OR bit_if (lo_getlk O' \<noteq> None \<and> lo_setlk O' \<noteq> None \<and> \<not> no_remote_posix_lock o') FUSE_CAP_POSIX_LOCKS
                OR bit_if (lo_flock O' \<noteq> None \<and> \<not> no_remote_flock o') FUSE_CAP_FLOCK_LOCKS OR bit_if (big_writes o') FUSE_CAP_BIG_WRITES\<rparr>;
          bufsize = (if bufsize < FUSE_MIN_READ_BUFFER then FUSE_MIN_READ_BUFFER else bufsize) - 4096
      in if bufsize < max_write c then c\<lparr>max_write := bufsize\<rparr> else c)"

definition init_no_splice :: "ll_opts \<Rightarrow> fuse_conn_info \<Rightarrow> fuse_conn_info" where
  "init_no_splice o' c = c\<lparr>want := want c AND NOT (bit_if (no_splice_read o') FUSE_CAP_SPLICE_READ) AND NOT (bit_if (no_splice_write o') FUSE_CAP_SPLICE_WRITE)
     AND NOT (bit_if (no_splice_move o') FUSE_CAP_SPLICE_MOVE)\<rparr>"

definition init_background :: "fuse_conn_info \<Rightarrow> fuse_conn_info" where
  "init_background c =
     (if proto_minor c \<ge> 13 then
        let c = (if max_background c \<ge> 2 ^ 16 then c\<lparr>max_background := 2 ^ 16 - 1\<rparr> else c);
            c = (if congestion_threshold c > max_background c then c\<lparr>congestion_threshold := max_background c\<rparr> else c)
        in if congestion_threshold c = 0 then c\<lparr>congestion_threshold := max_background c * 3 div 4\<rparr> else c
      else c)"

definition init_flags :: "fuse_conn_info \<Rightarrow> 32 word" where
  "init_flags c =
     bit_if (async_read c \<noteq> 0 \<or> want c AND FUSE_CAP_ASYNC_READ \<noteq> 0) FUSE_ASYNC_READ OR bit_if (want c AND FUSE_CAP_POSIX_LOCKS \<noteq> 0) FUSE_POSIX_LOCKS
     OR bit_if (want c AND FUSE_CAP_ATOMIC_O_TRUNC \<noteq> 0) FUSE_ATOMIC_O_TRUNC OR bit_if (want c AND FUSE_CAP_EXPORT_SUPPORT \<noteq> 0) FUSE_EXPORT_SUPPORT
     OR bit_if (want c AND FUSE_CAP_BIG_WRITES \<noteq> 0) FUSE_BIG_WRITES OR bit_if (want c AND FUSE_CAP_DONT_MASK \<noteq> 0) FUSE_DONT_MASK
     OR bit_if (want c AND FUSE_CAP_FLOCK_LOCKS \<noteq> 0) FUSE_FLOCK_LOCKS"

definition FUSE_KERNEL_VERSION :: "32 word" where "FUSE_KERNEL_VERSION = 7"
definition FUSE_KERNEL_MINOR_VERSION :: "32 word" where "FUSE_KERNEL_MINOR_VERSION = 18"

definition init_out :: "nat \<Rightarrow> 32 word \<Rightarrow> nat \<Rightarrow> nat \<Rightarrow> nat \<Rightarrow> byte list" where
  "init_out readahead flags background threshold write =
     le32 FUSE_KERNEL_VERSION @ le32 FUSE_KERNEL_MINOR_VERSION @ le32 (word_of_nat readahead) @ le32 flags
     @ le16 (word_of_nat background) @ le16 (word_of_nat threshold) @ le32 (word_of_nat write)"

definition reply_ok :: "'s host \<Rightarrow> nat \<Rightarrow> byte list \<Rightarrow> 's ll \<Rightarrow> 's ll c" where
  "reply_ok H a arg f = bindc (send_reply_ok (h_send H) a arg f) (\<lambda>(_, f). Inr f)"

definition init_connection :: "'s host \<Rightarrow> 's ll_ops \<Rightarrow> nat \<Rightarrow> nat \<Rightarrow> 32 word \<Rightarrow> 32 word \<Rightarrow> 's ll \<Rightarrow> 's ll c" where
  "init_connection H O' ch minor readahead flags f =
     (let c = init_library_side O' (lopts f) (h_bufsize H ch) (init_splice (h_splice H) (lopts f) (init_kernel_side minor readahead flags (conn f)));
          f = f\<lparr>got_init := True\<rparr>
      in bindc (case lo_init O' of Some h \<Rightarrow> h (userdata f) c (lworld f) | None \<Rightarrow> Inr (c, lworld f)) (\<lambda>(c, w).
         Inr (f\<lparr>conn := init_background (init_no_splice (lopts f) c), lworld := w\<rparr>)))"

text \<open>Requests of version 6 and later have the fields after \<open>minor\<close>; the negotiation reads them only then.\<close>

definition do_init :: "'s host \<Rightarrow> 's ll_ops \<Rightarrow> nat \<Rightarrow> ino \<Rightarrow> byte list \<Rightarrow> 's ll \<Rightarrow> 's ll c" where
  "do_init H O' a nodeid inarg f =
     bindc (rd32 0 inarg) (\<lambda>maj. bindc (rd32 4 inarg) (\<lambda>min. bindc (the_req a f) (\<lambda>r. case rch r of None \<Rightarrow> Inl NullDeref | Some ch \<Rightarrow>
     let f = f\<lparr>conn := (conn f)\<lparr>proto_major := unat maj, proto_minor := unat min, capable := 0, want := 0\<rparr>\<rparr> in
     if maj < 7 then reply_err H a EPROTO f
     else if maj > 7 then reply_ok H a (init_out 0 0 0 0 0) f
     else
       bindc (if min \<ge> 6 then bindc (rd32 8 inarg) (\<lambda>ra. bindc (rd32 12 inarg) (\<lambda>fl. Inr (ra, fl))) else Inr (0, 0)) (\<lambda>(ra, fl).
       bindc (init_connection H O' ch (unat min) ra fl f) (\<lambda>f.
       let c = conn f; bg = (proto_minor c \<ge> 13);
           arg = init_out (max_readahead c) (init_flags c) (if bg then max_background c else 0) (if bg then congestion_threshold c else 0) (max_write c)
       in reply_ok H a (if min < 5 then take 8 arg else arg) f)))))"

section \<open>Interruption\<close>

fun find_req :: "(fuse_req \<Rightarrow> 64 word) \<Rightarrow> 64 word \<Rightarrow> nat list \<Rightarrow> 's ll \<Rightarrow> nat option c" where
  "find_req g u [] f = Inr None"
| "find_req g u (a # as) f = bindc (the_req a f) (\<lambda>r. if g r = u then Inr (Some a) else find_req g u as f)"

definition find_interrupted :: "'s host \<Rightarrow> nat \<Rightarrow> 's ll \<Rightarrow> (bool \<times> 's ll) c" where
  "find_interrupted H a f = bindc (the_req a f) (\<lambda>r.
     bindc (find_req unique (intr_unique r) (req_list f) f) (\<lambda>x. case x of
       Some cur \<Rightarrow>
         bindc (mod_req cur (\<lambda>q. q\<lparr>ctr := ctr q + 1\<rparr>) f) (\<lambda>f.
         bindc (mod_req cur (\<lambda>q. q\<lparr>interrupted := True\<rparr>) f) (\<lambda>f.
         bindc (the_req cur f) (\<lambda>q.
         bindc (case ni_func q of Some fn \<Rightarrow> h_intr H fn cur (ni_data q) f | None \<Rightarrow> Inr f) (\<lambda>f.
         bindc (mod_req cur (\<lambda>q. q\<lparr>ctr := ctr q - 1\<rparr>) f) (\<lambda>f.
         bindc (the_req cur f) (\<lambda>q. bindc (if ctr q = 0 then destroy_req cur f else Inr f) (\<lambda>f. Inr (True, f))))))))
     | None \<Rightarrow> bindc (find_req intr_unique (intr_unique r) (intr_list f) f) (\<lambda>y. Inr (y \<noteq> None, f))))"

definition do_interrupt :: "'s host \<Rightarrow> 's ll_ops \<Rightarrow> nat \<Rightarrow> ino \<Rightarrow> byte list \<Rightarrow> 's ll \<Rightarrow> 's ll c" where
  "do_interrupt H O' a nodeid inarg f = bindc (rd64 0 inarg) (\<lambda>u.
     bindc (mod_req a (\<lambda>r. r\<lparr>intr_unique := u\<rparr>) f) (\<lambda>f.
     bindc (find_interrupted H a f) (\<lambda>(found, f).
       if found then destroy_req a f else Inr (f\<lparr>intr_list := intr_list f @ [a]\<rparr>))))"

definition check_interrupt :: "nat \<Rightarrow> 's ll \<Rightarrow> (nat option \<times> 's ll) c" where
  "check_interrupt a f = bindc (the_req a f) (\<lambda>r.
     bindc (find_req intr_unique (unique r) (intr_list f) f) (\<lambda>x. case x of
       Some cur \<Rightarrow> bindc (mod_req a (\<lambda>r. r\<lparr>interrupted := True\<rparr>) f) (\<lambda>f.
         bindc (destroy_req cur (list_del_req cur f)) (\<lambda>f. Inr (None, f)))
     | None \<Rightarrow> Inr (case intr_list f of [] \<Rightarrow> (None, f) | cur # rest \<Rightarrow> (Some cur, f\<lparr>intr_list := rest\<rparr>))))"

definition fuse_req_interrupt_func :: "'s host \<Rightarrow> nat \<Rightarrow> nat option \<Rightarrow> nat \<Rightarrow> 's ll \<Rightarrow> 's ll c" where
  "fuse_req_interrupt_func H a func data f =
     bindc (mod_req a (\<lambda>r. r\<lparr>ni_func := func, ni_data := data\<rparr>) f) (\<lambda>f.
     bindc (the_req a f) (\<lambda>r. case func of Some fn \<Rightarrow> if interrupted r then h_intr H fn a data f else Inr f | None \<Rightarrow> Inr f))"

definition fuse_req_interrupted :: "nat \<Rightarrow> 's ll \<Rightarrow> bool c" where
  "fuse_req_interrupted a f = bindc (the_req a f) (\<lambda>r. Inr (interrupted r))"

section \<open>Answers to notifications\<close>

definition fuse_ll_retrieve_reply :: "'s host \<Rightarrow> 's ll_ops \<Rightarrow> notify_req \<Rightarrow> nat \<Rightarrow> ino \<Rightarrow> byte list \<Rightarrow> fuse_buf \<Rightarrow> 's ll \<Rightarrow> 's ll c" where
  "fuse_ll_retrieve_reply H O' n a nodeid inarg ibuf f =
     (let left = nat ((int (buf_size ibuf) - int (in_header_size + 40)) mod 2 ^ 64) in
      bindc (rd32 16 inarg) (\<lambda>len.
        if left < unat len then fuse_reply_none (h_send H) a f
        else (case lo_retrieve_reply O' of
          Some h \<Rightarrow> bindc (rd64 8 inarg) (\<lambda>offs. h a (n_cookie n) nodeid offs
            \<lparr>bufs = [ibuf\<lparr>mem := mem ibuf + in_header_size + 40, buf_size := unat len\<rparr>], idx = 0, off = 0\<rparr> f)
        | None \<Rightarrow> fuse_reply_none (h_send H) a f)))"

definition do_notify_reply :: "'s host \<Rightarrow> 's ll_ops \<Rightarrow> nat \<Rightarrow> ino \<Rightarrow> byte list \<Rightarrow> fuse_buf \<Rightarrow> 's ll \<Rightarrow> 's ll c" where
  "do_notify_reply H O' a nodeid inarg ibuf f = bindc (the_req a f) (\<lambda>r.
     case find (\<lambda>(_, n). n_unique n = unique r) (notify_list f) of
       None \<Rightarrow> Inr f
     | Some (rreq, n) \<Rightarrow> fuse_ll_retrieve_reply H O' n a nodeid inarg ibuf (f\<lparr>notify_list := remove1 (rreq, n) (notify_list f)\<rparr>))"

section \<open>The table of handlers\<close>

definition FUSE_INIT :: nat where "FUSE_INIT = 26"
definition CUSE_INIT :: nat where "CUSE_INIT = 4096"
definition FUSE_WRITE :: nat where "FUSE_WRITE = 16"
definition FUSE_INTERRUPT :: nat where "FUSE_INTERRUPT = 36"
definition FUSE_NOTIFY_REPLY :: nat where "FUSE_NOTIFY_REPLY = 41"

type_synonym 's handler = "'s host \<Rightarrow> 's ll_ops \<Rightarrow> nat \<Rightarrow> ino \<Rightarrow> byte list \<Rightarrow> 's ll \<Rightarrow> 's ll c"

text \<open>
  \<open>fuse_ll_ops\<close> by opcode. The entry of \<open>FUSE_NOTIFY_REPLY\<close> is not a function and never called; \<open>cuse_lowlevel_init\<close> is a
  parameter.
\<close>

definition ll_table :: "'s handler \<Rightarrow> nat \<Rightarrow> 's handler option" where
  "ll_table cuse opcode = (map_of [
     (1, do_lookup), (2, do_forget), (3, do_getattr), (4, do_setattr), (5, do_readlink), (6, do_symlink), (8, do_mknod), (9, do_mkdir),
     (10, do_unlink), (11, do_rmdir), (12, do_rename), (13, do_link), (14, do_open), (15, do_read), (16, do_write), (17, do_statfs),
     (18, do_release), (20, do_fsync), (21, do_setxattr), (22, do_getxattr), (23, do_listxattr), (24, do_removexattr), (25, do_flush),
     (26, do_init), (27, do_opendir), (28, do_readdir), (29, do_releasedir), (30, do_fsyncdir), (31, do_getlk), (32, do_setlk), (33, do_setlkw),
     (34, do_access), (35, do_create), (36, do_interrupt), (37, do_bmap), (38, do_destroy), (39, do_ioctl), (40, do_poll),
     (41, (\<lambda>H O' a n b f. Inl WrongType)), (42, do_batch_forget), (4096, cuse)]) opcode"

section \<open>Processing of a message\<close>

record in_header =
  ih_opcode :: nat
  ih_unique :: "64 word"
  ih_nodeid :: ino
  ih_uid :: "32 word"
  ih_gid :: "32 word"
  ih_pid :: "32 word"

definition read_header :: "byte list \<Rightarrow> in_header c" where
  "read_header msg = bindc (rd32 4 msg) (\<lambda>op. bindc (rd64 8 msg) (\<lambda>u. bindc (rd64 16 msg) (\<lambda>n.
     bindc (rd32 24 msg) (\<lambda>uid. bindc (rd32 28 msg) (\<lambda>gid. bindc (rd32 32 msg) (\<lambda>pid.
       Inr \<lparr>ih_opcode = unat op, ih_unique = u, ih_nodeid = n, ih_uid = uid, ih_gid = gid, ih_pid = pid\<rparr>))))))"

text \<open>Why a message is refused: out of order before or after the first one, or from another user.\<close>

definition refused :: "in_header \<Rightarrow> 's ll \<Rightarrow> int option" where
  "refused h f =
     (if \<not> got_init f \<and> ih_opcode h \<noteq> (if cuse_data f then CUSE_INIT else FUSE_INIT) then Some EIO
      else if got_init f \<and> (ih_opcode h = FUSE_INIT \<or> ih_opcode h = CUSE_INIT) then Some EIO
      else if allow_root (lopts f) \<and> ih_uid h \<noteq> owner f \<and> ih_uid h \<noteq> 0 \<and> ih_opcode h \<notin> {FUSE_INIT, 15, FUSE_WRITE, 20, 18, 28, 30, 29, FUSE_NOTIFY_REPLY}
        then Some EACCES
      else None)"

text \<open>The new request goes to the list of requests; one that waited for being interrupted may be answered for that.\<close>

definition enter_req :: "'s host \<Rightarrow> in_header \<Rightarrow> nat \<Rightarrow> 's ll \<Rightarrow> 's ll c" where
  "enter_req H h a f =
     (if ih_opcode h = FUSE_INTERRUPT then Inr f
      else bindc (check_interrupt a f) (\<lambda>(intr, f). let f = f\<lparr>req_list := req_list f @ [a]\<rparr> in
        case intr of Some i \<Rightarrow> reply_err H i EAGAIN f | None \<Rightarrow> Inr f))"

definition call_handler :: "'s handler \<Rightarrow> 's host \<Rightarrow> 's ll_ops \<Rightarrow> in_header \<Rightarrow> nat \<Rightarrow> byte list \<Rightarrow> fuse_buf \<Rightarrow> 's ll \<Rightarrow> 's ll c" where
  "call_handler cuse H O' h a inarg buf f =
     (if ih_opcode h = FUSE_WRITE \<and> lo_write_buf O' \<noteq> None then do_write_buf H O' a (ih_nodeid h) inarg buf f
      else if ih_opcode h = FUSE_NOTIFY_REPLY then do_notify_reply H O' a (ih_nodeid h) inarg buf f
      else case ll_table cuse (ih_opcode h) of Some g \<Rightarrow> g H O' a (ih_nodeid h) inarg f | None \<Rightarrow> Inl NullDeref)"

text \<open>\<open>m\<close>: the memory that \<open>calloc\<close> gives for the request.\<close>

definition fuse_ll_process_buf :: "'s handler \<Rightarrow> 's host \<Rightarrow> 's ll_ops \<Rightarrow> nat option \<Rightarrow> fuse_buf \<Rightarrow> nat \<Rightarrow> 's ll \<Rightarrow> 's ll c" where
  "fuse_ll_process_buf cuse H O' m buf ch f =
     (let msg = load (memory (lworld f)) (mem buf) (buf_size buf) in
      bindc (read_header msg) (\<lambda>h. case fuse_ll_alloc_req m f of
        (None, f) \<Rightarrow> Inr (snd (fuse_send_msg (h_send H) ch (- ENOMEM) (ih_unique h) [] f))
      | (Some a, f) \<Rightarrow>
          bindc (mod_req a (\<lambda>r. r\<lparr>unique := ih_unique h, rctx := (rctx r)\<lparr>c_uid := ih_uid h, c_gid := ih_gid h, c_pid := ih_pid h\<rparr>, rch := Some ch\<rparr>) f) (\<lambda>f.
          case refused h f of
            Some err \<Rightarrow> reply_err H a err f
          | None \<Rightarrow>
              if ll_table cuse (ih_opcode h) = None then reply_err H a ENOSYS f
              else bindc (enter_req H h a f) (call_handler cuse H O' h a (drop in_header_size msg) buf))))"

definition fuse_ll_process :: "'s handler \<Rightarrow> 's host \<Rightarrow> 's ll_ops \<Rightarrow> nat option \<Rightarrow> nat \<Rightarrow> nat \<Rightarrow> nat \<Rightarrow> 's ll \<Rightarrow> 's ll c" where
  "fuse_ll_process cuse H O' m buf len ch f = fuse_ll_process_buf cuse H O' m
     \<lparr>buf_size = len, is_fd = False, fd_seek = False, fd_retry = False, mem = buf, fd = 0, pos = 0\<rparr> ch f"

text \<open>What \<open>fuse_ll_destroy\<close> still does for the filesystem; the rest frees memory.\<close>

definition fuse_ll_destroy :: "'s ll_ops \<Rightarrow> 's ll \<Rightarrow> 's ll c" where
  "fuse_ll_destroy O' f = (if got_init f \<and> \<not> got_destroy f
     then (case lo_destroy O' of Some h \<Rightarrow> h (userdata f) f | None \<Rightarrow> Inr f) else Inr f)"

section \<open>Requests of the kernel\<close>

text \<open>
  The requests that an operation of the filesystem serves, with the fields of their structures in
  \<open>src/include/fuse_kernel.h\<close> as the kernel fills them in (protocol 7.12 and later).
\<close>

datatype kreq =
    KLookup string | KForget "64 word" | KGetattr "32 word" "64 word"
  | KSetattr "32 word" "64 word" "64 word" "64 word" "64 word" "64 word" "32 word" "32 word" "32 word" "32 word" "32 word"
  | KReadlink | KSymlink string string | KMknod "32 word" "32 word" "32 word" string | KMkdir "32 word" "32 word" string
  | KUnlink string | KRmdir string | KRename ino string string | KLink ino string | KOpen "32 word"
  | KRead "64 word" "64 word" "32 word" "64 word" "32 word" | KWrite "64 word" "64 word" "32 word" "32 word" "64 word" "32 word" "byte list"
  | KStatfs | KRelease "64 word" "32 word" "32 word" "64 word" | KFsync "64 word" "32 word"
  | KSetxattr "32 word" string "byte list" | KGetxattr "32 word" string | KListxattr "32 word" | KRemovexattr string
  | KFlush "64 word" "64 word" | KOpendir "32 word" | KReaddir "64 word" "64 word" "32 word" | KReleasedir "64 word" "32 word"
  | KFsyncdir "64 word" "32 word" | KAccess "32 word" | KCreate "32 word" "32 word" "32 word" string | KBmap "64 word" "32 word"
  | KIoctl "64 word" "32 word" "32 word" "64 word" "byte list" "32 word" | KPoll "64 word" "64 word" "32 word"

fun kcode :: "kreq \<Rightarrow> nat" where
  "kcode (KLookup _) = 1" | "kcode (KForget _) = 2" | "kcode (KGetattr _ _) = 3" | "kcode (KSetattr _ _ _ _ _ _ _ _ _ _ _) = 4"
| "kcode KReadlink = 5" | "kcode (KSymlink _ _) = 6" | "kcode (KMknod _ _ _ _) = 8" | "kcode (KMkdir _ _ _) = 9" | "kcode (KUnlink _) = 10"
| "kcode (KRmdir _) = 11" | "kcode (KRename _ _ _) = 12" | "kcode (KLink _ _) = 13" | "kcode (KOpen _) = 14" | "kcode (KRead _ _ _ _ _) = 15"
| "kcode (KWrite _ _ _ _ _ _ _) = 16" | "kcode KStatfs = 17" | "kcode (KRelease _ _ _ _) = 18" | "kcode (KFsync _ _) = 20"
| "kcode (KSetxattr _ _ _) = 21" | "kcode (KGetxattr _ _) = 22" | "kcode (KListxattr _) = 23" | "kcode (KRemovexattr _) = 24"
| "kcode (KFlush _ _) = 25" | "kcode (KOpendir _) = 27" | "kcode (KReaddir _ _ _) = 28" | "kcode (KReleasedir _ _) = 29" | "kcode (KFsyncdir _ _) = 30"
| "kcode (KAccess _) = 34" | "kcode (KCreate _ _ _ _) = 35" | "kcode (KBmap _ _) = 37" | "kcode (KIoctl _ _ _ _ _ _) = 39" | "kcode (KPoll _ _ _) = 40"

definition zstr :: "string \<Rightarrow> byte list" where
  "zstr s = of_str s @ [0]"

fun kbytes :: "kreq \<Rightarrow> byte list" where
  "kbytes (KLookup s) = zstr s"
| "kbytes (KForget n) = le64 n"
| "kbytes (KGetattr fl x) = le32 fl @ le32 0 @ le64 x"
| "kbytes (KSetattr valid x len own ats mts atn mtn mode uid gid) = le32 valid @ le32 0 @ le64 x @ le64 len @ le64 own @ le64 ats @ le64 mts @ le64 0
     @ le32 atn @ le32 mtn @ le32 0 @ le32 mode @ le32 0 @ le32 uid @ le32 gid @ le32 0"
| "kbytes KReadlink = []"
| "kbytes (KSymlink nam link) = zstr nam @ zstr link"
| "kbytes (KMknod mode rdev um nam) = le32 mode @ le32 rdev @ le32 um @ le32 0 @ zstr nam"
| "kbytes (KMkdir mode um nam) = le32 mode @ le32 um @ zstr nam"
| "kbytes (KUnlink s) = zstr s"
| "kbytes (KRmdir s) = zstr s"
| "kbytes (KRename d old new) = le64 d @ zstr old @ zstr new"
| "kbytes (KLink n nam) = le64 n @ zstr nam"
| "kbytes (KOpen fl) = le32 fl @ le32 0"
| "kbytes (KRead x offs len own fl) = le64 x @ le64 offs @ le32 len @ le32 0 @ le64 own @ le32 fl @ le32 0"
| "kbytes (KWrite x offs len wfl own fl data) = le64 x @ le64 offs @ le32 len @ le32 wfl @ le64 own @ le32 fl @ le32 0 @ data"
| "kbytes KStatfs = []"
| "kbytes (KRelease x fl rel own) = le64 x @ le32 fl @ le32 rel @ le64 own"
| "kbytes (KFsync x fl) = le64 x @ le32 fl @ le32 0"
| "kbytes (KSetxattr fl nam val) = le32 (word_of_nat (length val)) @ le32 fl @ zstr nam @ val"
| "kbytes (KGetxattr len nam) = le32 len @ le32 0 @ zstr nam"
| "kbytes (KListxattr len) = le32 len @ le32 0"
| "kbytes (KRemovexattr s) = zstr s"
| "kbytes (KFlush x own) = le64 x @ le32 0 @ le32 0 @ le64 own"
| "kbytes (KOpendir fl) = le32 fl @ le32 0"
| "kbytes (KReaddir x offs len) = le64 x @ le64 offs @ le32 len @ le32 0 @ le64 0 @ le32 0 @ le32 0"
| "kbytes (KReleasedir x fl) = le64 x @ le32 fl @ le32 0 @ le64 0"
| "kbytes (KFsyncdir x fl) = le64 x @ le32 fl @ le32 0"
| "kbytes (KAccess m) = le32 m @ le32 0"
| "kbytes (KCreate fl mode um nam) = le32 fl @ le32 mode @ le32 um @ le32 0 @ zstr nam"
| "kbytes (KBmap block bsz) = le64 block @ le32 bsz @ le32 0"
| "kbytes (KIoctl x fl cmd arg data n) = le64 x @ le32 fl @ le32 cmd @ le64 arg @ le32 (word_of_nat (length data)) @ le32 n @ data"
| "kbytes (KPoll x kh fl) = le64 x @ le64 kh @ le32 fl @ le32 0"

fun kstrings :: "kreq \<Rightarrow> string list" where
  "kstrings (KLookup s) = [s]" | "kstrings (KSymlink s t) = [s, t]" | "kstrings (KMknod _ _ _ s) = [s]" | "kstrings (KMkdir _ _ s) = [s]"
| "kstrings (KUnlink s) = [s]" | "kstrings (KRmdir s) = [s]" | "kstrings (KRename _ s t) = [s, t]" | "kstrings (KLink _ s) = [s]"
| "kstrings (KSetxattr _ s _) = [s]" | "kstrings (KGetxattr _ s) = [s]" | "kstrings (KRemovexattr s) = [s]" | "kstrings (KCreate _ _ _ s) = [s]"
| "kstrings _ = []"

text \<open>The call of the filesystem that a request asks for.\<close>

fun kcall :: "'s ll_ops \<Rightarrow> nat \<Rightarrow> ino \<Rightarrow> kreq \<Rightarrow> ('s ll \<Rightarrow> 's ll c) option" where
  "kcall O' a n (KLookup s) = map_option (\<lambda>h. h a n s) (lo_lookup O')"
| "kcall O' a n (KForget k) = map_option (\<lambda>h. h a n k) (lo_forget O')"
| "kcall O' a n (KGetattr fl x) = map_option (\<lambda>h. h a n (if bit fl 0 then Some (fi_fh x) else None)) (lo_getattr O')"
| "kcall O' a n (KSetattr valid x len own ats mts atn mtn mode uid gid) = map_option (\<lambda>h. h a n
     (stat0\<lparr>st_mode := unat mode, st_uid := unat uid, st_gid := unat gid, st_size := sint len,
        st_atim := \<lparr>tv_sec = sint ats, tv_nsec = int (unat atn)\<rparr>, st_mtim := \<lparr>tv_sec = sint mts, tv_nsec = int (unat mtn)\<rparr>\<rparr>)
     (valid AND 0x1bf) (if bit valid 6 then Some (fi_fh x) else None)) (lo_setattr O')"
| "kcall O' a n KReadlink = map_option (\<lambda>h. h a n) (lo_readlink O')"
| "kcall O' a n (KSymlink nam link) = map_option (\<lambda>h. h a link n nam) (lo_symlink O')"
| "kcall O' a n (KMknod mode rdev um nam) = map_option (\<lambda>h f. bindc (set_umask a um f) (h a n nam mode rdev)) (lo_mknod O')"
| "kcall O' a n (KMkdir mode um nam) = map_option (\<lambda>h f. bindc (set_umask a um f) (h a n nam mode)) (lo_mkdir O')"
| "kcall O' a n (KUnlink s) = map_option (\<lambda>h. h a n s) (lo_unlink O')"
| "kcall O' a n (KRmdir s) = map_option (\<lambda>h. h a n s) (lo_rmdir O')"
| "kcall O' a n (KRename d old new) = map_option (\<lambda>h. h a n old d new) (lo_rename O')"
| "kcall O' a n (KLink m nam) = map_option (\<lambda>h. h a m n nam) (lo_link O')"
| "kcall O' a n (KOpen fl) = map_option (\<lambda>h. h a n (fi0\<lparr>fi_flags := sint fl\<rparr>)) (lo_open O')"
| "kcall O' a n (KRead x offs len own fl) = map_option (\<lambda>h. h a n len offs ((fi_fh x)\<lparr>lock_owner := own, fi_flags := sint fl\<rparr>)) (lo_read O')"
| "kcall O' a n (KWrite x offs len wfl own fl data) = map_option (\<lambda>h. h a n data len offs
     ((fi_fh x)\<lparr>writepage := int (unat (wfl AND 1)), lock_owner := own, fi_flags := sint fl\<rparr>)) (lo_write O')"
| "kcall O' a n KStatfs = map_option (\<lambda>h. h a n) (lo_statfs O')"
| "kcall O' a n (KRelease x fl rel own) = map_option (\<lambda>h. h a n ((fi_fh x)\<lparr>fi_flags := sint fl, fi_flush := bit rel 0,
     flock_release := bit rel 1, lock_owner := own\<rparr>)) (lo_release O')"
| "kcall O' a n (KFsync x fl) = map_option (\<lambda>h. h a n (bit fl 0) (fi_fh x)) (lo_fsync O')"
| "kcall O' a n (KSetxattr fl nam val) = map_option (\<lambda>h. h a n nam val (word_of_nat (length val)) fl) (lo_setxattr O')"
| "kcall O' a n (KGetxattr len nam) = map_option (\<lambda>h. h a n nam len) (lo_getxattr O')"
| "kcall O' a n (KListxattr len) = map_option (\<lambda>h. h a n len) (lo_listxattr O')"
| "kcall O' a n (KRemovexattr s) = map_option (\<lambda>h. h a n s) (lo_removexattr O')"
| "kcall O' a n (KFlush x own) = map_option (\<lambda>h. h a n ((fi_fh x)\<lparr>fi_flush := True, lock_owner := own\<rparr>)) (lo_flush O')"
| "kcall O' a n (KOpendir fl) = map_option (\<lambda>h. h a n (fi0\<lparr>fi_flags := sint fl\<rparr>)) (lo_opendir O')"
| "kcall O' a n (KReaddir x offs len) = map_option (\<lambda>h. h a n len offs (fi_fh x)) (lo_readdir O')"
| "kcall O' a n (KReleasedir x fl) = map_option (\<lambda>h. h a n ((fi_fh x)\<lparr>fi_flags := sint fl\<rparr>)) (lo_releasedir O')"
| "kcall O' a n (KFsyncdir x fl) = map_option (\<lambda>h. h a n (bit fl 0) (fi_fh x)) (lo_fsyncdir O')"
| "kcall O' a n (KAccess m) = map_option (\<lambda>h. h a n m) (lo_access O')"
| "kcall O' a n (KCreate fl mode um nam) = map_option (\<lambda>h f. bindc (set_umask a um f) (h a n nam mode (fi0\<lparr>fi_flags := sint fl\<rparr>))) (lo_create O')"
| "kcall O' a n (KBmap block bsz) = map_option (\<lambda>h. h a n bsz block) (lo_bmap O')"
| "kcall O' a n (KIoctl x fl cmd arg data k) = map_option (\<lambda>h. h a n cmd arg (fi_fh x) fl
     (if word_of_nat (length data) = (0 :: 32 word) then None else Some data) (word_of_nat (length data)) k) (lo_ioctl O')"
| "kcall O' a n (KPoll x kh fl) = map_option (\<lambda>h. h a n (fi_fh x) None) (lo_poll O')"

text \<open>Directories want a capability for their \<open>ioctl\<close>, and a poll that asks for a notification needs memory for its handle.\<close>

fun kplain :: "'s ll \<Rightarrow> kreq \<Rightarrow> bool" where
  "kplain f (KIoctl x fl cmd arg data k) = (\<not> bit fl 4 \<or> want (conn f) AND FUSE_CAP_IOCTL_DIR \<noteq> 0)"
| "kplain f (KPoll x kh fl) = (\<not> bit fl 0)"
| "kplain f _ = True"

lemma bit_flag:
  "(w AND FATTR_FH = 0) = (\<not> bit w 6)" "(w AND FUSE_RELEASE_FLOCK_UNLOCK = 0) = (\<not> bit w 1)" "(w AND FUSE_IOCTL_DIR = 0) = (\<not> bit w 4)"
  "(w AND FUSE_GETATTR_FH = 0) = (\<not> bit w 0)" "(w AND FUSE_RELEASE_FLUSH = 0) = (\<not> bit w 0)" "(w AND FUSE_POLL_SCHEDULE_NOTIFY = 0) = (\<not> bit w 0)"
  "(w AND 1 = 0) = (\<not> bit w 0)" for w :: "32 word"
proof -
  have *: "(w AND 2 ^ n \<noteq> 0) = bit w n" if "n < 32" for w :: "32 word" and n
    using that by (auto simp: bit_iff_and_push_bit_not_eq_0 push_bit_eq_mult)
  show "(w AND FATTR_FH = 0) = (\<not> bit w 6)" "(w AND FUSE_RELEASE_FLOCK_UNLOCK = 0) = (\<not> bit w 1)" "(w AND FUSE_IOCTL_DIR = 0) = (\<not> bit w 4)"
    "(w AND FUSE_GETATTR_FH = 0) = (\<not> bit w 0)" "(w AND FUSE_RELEASE_FLUSH = 0) = (\<not> bit w 0)" "(w AND FUSE_POLL_SCHEDULE_NOTIFY = 0) = (\<not> bit w 0)"
    "(w AND 1 = 0) = (\<not> bit w 0)"
    using * [of 6 w] * [of 1 w] * [of 4 w] * [of 0 w]
    by (auto simp: FATTR_FH_def FUSE_RELEASE_FLOCK_UNLOCK_def FUSE_IOCTL_DIR_def FUSE_GETATTR_FH_def FUSE_RELEASE_FLUSH_def FUSE_POLL_SCHEDULE_NOTIFY_def)
qed

lemma set_attr_mask_fh: "w AND NOT FATTR_FH AND 0x1bf = w AND 0x1bf"
  by (simp add: FATTR_FH_def and.assoc)

lemma zstr_rd [wire]:
  assumes "c_string s"
  shows "rd_str 0 (zstr s @ r) = Inr s" "rd_str 0 (zstr s) = Inr s" "rd_str (Suc (length s)) (zstr s @ r) = rd_str 0 r"
    "rd_str (length s + 1) (zstr s @ r) = rd_str 0 r" "drop (Suc (length s)) (zstr s @ r) = r"
  using rd_str_here(1) [OF assms, of r] rd_str_here(1) [OF assms, of "[]"] rd_str_here(2) [OF assms, of 0 r] by (simp_all add: zstr_def)

lemma rd_end [wire]: "rd32 0 (le32 w) = Inr w" "rd64 0 (le64 x) = Inr x"
  using rd_here [where r = "[]"] by simp_all

lemmas handler_defs = do_lookup_def do_forget_def do_getattr_def do_setattr_def convert_attr_def do_access_def do_readlink_def do_mknod_def do_mkdir_def
  do_unlink_def do_rmdir_def do_symlink_def do_rename_def do_link_def do_create_def do_open_def do_read_def do_write_def write_info_def do_flush_def
  do_release_def do_fsync_def do_opendir_def do_readdir_def do_releasedir_def do_fsyncdir_def do_statfs_def do_setxattr_def do_getxattr_def do_listxattr_def
  do_removexattr_def do_bmap_def do_ioctl_def do_poll_def

lemma handler_calls:
  assumes "\<forall>s \<in> set (kstrings q). c_string s" "minor_of f \<ge> 12" "kplain f q" "kcall O' a n q = Some g"
  shows "\<exists>h. ll_table cuse (kcode q) = Some h \<and> h H O' a n (kbytes q) f = g f"
proof (cases q)
  case (KRelease x fl rel own)
  then have "do_release H O' a n (kbytes q) f = g f"
    using assms by (cases "bit rel 1") (auto simp: do_release_def wire bit_flag Let_def fi_fh_def fi0_def)
  then show ?thesis using KRelease by (simp add: ll_table_def)
next
  case (KSetxattr fl nam val)
  have "length (zstr nam) = Suc (length nam)" by (simp add: zstr_def)
  then show ?thesis using assms KSetxattr by (auto simp: ll_table_def do_setxattr_def wire)
qed (use assms in \<open>auto simp: ll_table_def handler_defs wire bit_flag set_attr_mask_fh set_attr_mask_def sizeof_write_in_def bindc_assoc\<close>)

section \<open>A message and its handler\<close>

definition header_bytes :: "nat \<Rightarrow> nat \<Rightarrow> 64 word \<Rightarrow> ino \<Rightarrow> 32 word \<Rightarrow> 32 word \<Rightarrow> 32 word \<Rightarrow> byte list" where
  "header_bytes len opcode u n uid gid pid =
     le32 (word_of_nat len) @ le32 (word_of_nat opcode) @ le64 u @ le64 n @ le32 uid @ le32 gid @ le32 pid @ le32 0"

lemma header_bytes_length [simp]: "length (header_bytes len opcode u n uid gid pid) = 40"
  by (simp add: header_bytes_def)

lemma read_header_bytes:
  "opcode < 2 ^ 32 \<Longrightarrow> read_header (header_bytes len opcode u n uid gid pid @ r) =
     Inr \<lparr>ih_opcode = opcode, ih_unique = u, ih_nodeid = n, ih_uid = uid, ih_gid = gid, ih_pid = pid\<rparr>"
  by (simp add: read_header_def header_bytes_def wire unat_of_nat)

definition new_req :: "in_header \<Rightarrow> nat \<Rightarrow> fuse_req" where
  "new_req h ch = req0\<lparr>unique := ih_unique h, rctx := \<lparr>c_uid = ih_uid h, c_gid = ih_gid h, c_pid = ih_pid h, c_umask = 0\<rparr>, rch := Some ch\<rparr>"

definition with_req :: "nat \<Rightarrow> fuse_req \<Rightarrow> 's ll \<Rightarrow> 's ll" where
  "with_req a r f = f\<lparr>reqs := (reqs f)(a \<mapsto> r)\<rparr>"

lemma refused_with_req [simp]: "refused h (with_req a r f) = refused h f"
  by (simp add: refused_def with_req_def)

lemma process_steps:
  assumes "read_header (load (memory (lworld f)) (mem buf) (buf_size buf)) = Inr h"
  shows "fuse_ll_process_buf cuse H O' (Some a) buf ch f = (let g = with_req a (new_req h ch) f in
     case refused h f of
       Some err \<Rightarrow> reply_err H a err g
     | None \<Rightarrow> if ll_table cuse (ih_opcode h) = None then reply_err H a ENOSYS g
         else bindc (enter_req H h a g) (call_handler cuse H O' h a (drop in_header_size (load (memory (lworld f)) (mem buf) (buf_size buf))) buf))"
proof -
  have "mod_req a (\<lambda>r. r\<lparr>unique := ih_unique h, rctx := (rctx r)\<lparr>c_uid := ih_uid h, c_gid := ih_gid h, c_pid := ih_pid h\<rparr>, rch := Some ch\<rparr>)
      (f\<lparr>reqs := (reqs f)(a \<mapsto> req0)\<rparr>) = Inr (with_req a (new_req h ch) f)"
    by (simp add: mod_req_def the_req_def with_req_def new_req_def req0_def)
  then show ?thesis using assms by (simp add: fuse_ll_process_buf_def fuse_ll_alloc_req_def Let_def)
qed

lemma enter_req_plain:
  assumes "intr_list f = []" "reqs f a = Some r" "ih_opcode h \<noteq> FUSE_INTERRUPT"
  shows "enter_req H h a f = Inr (f\<lparr>req_list := req_list f @ [a]\<rparr>)"
  using assms by (simp add: enter_req_def check_interrupt_def the_req_def)

lemma kcode_range: "kcode q < 2 ^ 32" "kcode q \<noteq> FUSE_INTERRUPT" "kcode q \<noteq> FUSE_NOTIFY_REPLY" "kcode q \<noteq> FUSE_INIT" "kcode q \<noteq> CUSE_INIT"
  by (cases q; simp add: FUSE_INTERRUPT_def FUSE_NOTIFY_REPLY_def FUSE_INIT_def CUSE_INIT_def)+

end
