(* ===== verification/Fuse_Protocol.thy ===== *)
theory Fuse_Protocol
  imports Fuse_Dispatch
begin

text \<open>
  Properties of the low-level protocol that span its parts: what a connection has agreed on after the first message, locks
  on their way through messages, and requests to interrupt other requests in either order of arrival.
\<close>

unbundle bit_operations_syntax

section \<open>Negotiation\<close>

text \<open>A filesystem may ask for less than it is offered in its \<open>init\<close>, but not for more.\<close>

definition modest :: "'s ll_ops \<Rightarrow> bool" where
  "modest O' \<longleftrightarrow> (\<forall>h. lo_init O' = Some h \<longrightarrow> (\<forall>ud c w. \<exists>c' w'. h ud c w = Inr (c', w') \<and> proto_major c' = proto_major c
     \<and> proto_minor c' = proto_minor c \<and> max_write c' \<le> max_write c \<and> max_readahead c' \<le> max_readahead c))"

lemma modest_init:
  assumes "modest O'"
  shows "\<exists>c' w'. (case lo_init O' of Some h \<Rightarrow> h ud c w | None \<Rightarrow> Inr (c, w)) = Inr (c', w') \<and> proto_major c' = proto_major c
     \<and> proto_minor c' = proto_minor c \<and> max_write c' \<le> max_write c \<and> max_readahead c' \<le> max_readahead c"
  using assms by (cases "lo_init O'") (auto simp: modest_def)

lemma init_parts [simp]:
  "proto_minor (init_background c) = proto_minor c" "proto_major (init_background c) = proto_major c" "max_write (init_background c) = max_write c"
  "max_readahead (init_background c) = max_readahead c"
  "proto_minor (init_no_splice o' c) = proto_minor c" "proto_major (init_no_splice o' c) = proto_major c" "max_write (init_no_splice o' c) = max_write c"
  "max_readahead (init_no_splice o' c) = max_readahead c"
  "proto_minor (init_splice b o' c) = proto_minor c" "proto_major (init_splice b o' c) = proto_major c" "max_readahead (init_splice b o' c) = max_readahead c"
  "proto_minor (init_library_side O' o' n c) = proto_minor c" "proto_major (init_library_side O' o' n c) = proto_major c"
  "max_readahead (init_library_side O' o' n c) = max_readahead c"
  "proto_minor (init_kernel_side m ra fl c) = proto_minor c" "proto_major (init_kernel_side m ra fl c) = proto_major c"
  by (simp_all add: init_background_def init_no_splice_def init_splice_def init_library_side_def init_kernel_side_def Let_def)

lemma background_limits:
  "13 \<le> proto_minor c \<Longrightarrow> max_background (init_background c) < 2 ^ 16 \<and> congestion_threshold (init_background c) \<le> max_background (init_background c)"
  by (auto simp: init_background_def Let_def)

lemma library_write: "max_write (init_library_side O' o' n c) \<le> max FUSE_MIN_READ_BUFFER n - 4096"
  by (auto simp: init_library_side_def Let_def)

lemma kernel_readahead: "max_readahead (init_kernel_side m ra fl c) \<le> (if m \<ge> 6 then unat ra else 0)"
  by (auto simp: init_kernel_side_def)

lemma init_connection_ok:
  assumes "modest O'"
  shows "\<exists>f'. init_connection H O' ch m ra fl f = Inr f' \<and> got_init f' \<and> reqs f' = reqs f \<and> req_list f' = req_list f \<and> intr_list f' = intr_list f
    \<and> proto_major (conn f') = proto_major (conn f) \<and> proto_minor (conn f') = proto_minor (conn f)
    \<and> max_write (conn f') \<le> max FUSE_MIN_READ_BUFFER (h_bufsize H ch) - 4096 \<and> max_readahead (conn f') \<le> (if m \<ge> 6 then unat ra else 0)
    \<and> (13 \<le> proto_minor (conn f) \<longrightarrow> max_background (conn f') < 2 ^ 16 \<and> congestion_threshold (conn f') \<le> max_background (conn f'))"
proof -
  let ?k = "init_kernel_side m ra fl (conn f)"
  let ?c = "init_library_side O' (lopts f) (h_bufsize H ch) (init_splice (h_splice H) (lopts f) ?k)"
  obtain c' w' where c: "(case lo_init O' of Some h \<Rightarrow> h (userdata f) ?c (lworld f) | None \<Rightarrow> Inr (?c, lworld f)) = Inr (c', w')"
    "proto_major c' = proto_major (conn f)" "proto_minor c' = proto_minor (conn f)" "max_write c' \<le> max_write ?c" "max_readahead c' \<le> max_readahead ?k"
    using modest_init [OF assms, where ud = "userdata f" and c = ?c and w = "lworld f"] by auto
  let ?f = "f\<lparr>got_init := True, conn := init_background (init_no_splice (lopts f) c'), lworld := w'\<rparr>"
  have "init_connection H O' ch m ra fl f = Inr ?f" using c(1) by (cases "lo_init O'") (simp_all add: init_connection_def Let_def)
  moreover have "max_write (conn ?f) \<le> max FUSE_MIN_READ_BUFFER (h_bufsize H ch) - 4096"
    using c(4) library_write [of O' "lopts f" "h_bufsize H ch"] order_trans by fastforce
  moreover have "max_readahead (conn ?f) \<le> (if m \<ge> 6 then unat ra else 0)" using c(5) kernel_readahead order_trans by fastforce
  moreover have "13 \<le> proto_minor (conn f) \<longrightarrow> max_background (conn ?f) < 2 ^ 16 \<and> congestion_threshold (conn ?f) \<le> max_background (conn ?f)"
    using c(3) background_limits [of "init_no_splice (lopts f) c'"] by simp
  ultimately show ?thesis using c(2,3) by (intro exI [of _ ?f]) simp
qed

text \<open>
  (C36) After the first message of a kernel with major version 7 the connection is set up within everybody's limits, whatever
  the filesystem asks for within what it is offered: the versions are the kernel's, a write fits into the read
  buffer, no more is read ahead than the kernel offers, and the limits of the background queue fit their 16 bits. The message is
  answered, with eight bytes for versions that know no more, and its request is gone.
\<close>

theorem init_negotiates:
  assumes "modest O'" "reqs f a = Some r" "ctr r = 1" "rch r = Some ch" "inarg = le32 7 @ le32 vmin @ le32 ra @ le32 fl @ rest"
  shows "\<exists>f' g iov. do_init H O' a n inarg f = Inr f' \<and> f' = freed a (g\<lparr>lworld := snd (h_send H ch (Some iov) (lworld g))\<rparr>)
    \<and> length (concat iov) = (if vmin < 5 then 24 else 40) \<and> got_init f' \<and> reqs f' = (reqs f)(a := None)
    \<and> proto_major (conn f') = 7 \<and> proto_minor (conn f') = unat vmin
    \<and> max_write (conn f') \<le> max FUSE_MIN_READ_BUFFER (h_bufsize H ch) - 4096 \<and> max_readahead (conn f') \<le> (if 6 \<le> vmin then unat ra else 0)
    \<and> (13 \<le> vmin \<longrightarrow> max_background (conn f') < 2 ^ 16 \<and> congestion_threshold (conn f') \<le> max_background (conn f'))"
proof -
  let ?f = "f\<lparr>conn := (conn f)\<lparr>proto_major := 7, proto_minor := unat vmin, capable := 0, want := 0\<rparr>\<rparr>"
  let ?ra = "if 6 \<le> vmin then ra else 0" and ?fl = "if 6 \<le> vmin then fl else 0"
  obtain g where g: "init_connection H O' ch (unat vmin) ?ra ?fl ?f = Inr g" "got_init g" "reqs g = reqs f" "proto_major (conn g) = 7" "proto_minor (conn g) = unat vmin"
    "max_write (conn g) \<le> max FUSE_MIN_READ_BUFFER (h_bufsize H ch) - 4096" "max_readahead (conn g) \<le> (if 6 \<le> unat vmin then unat ?ra else 0)"
    "13 \<le> unat vmin \<longrightarrow> max_background (conn g) < 2 ^ 16 \<and> congestion_threshold (conn g) \<le> max_background (conn g)"
    using init_connection_ok [OF assms(1), of H ch "unat vmin" ?ra ?fl ?f] by auto
  define arg where "arg = init_out (max_readahead (conn g)) (init_flags (conn g)) (if 13 \<le> unat vmin then max_background (conn g) else 0)
    (if 13 \<le> unat vmin then congestion_threshold (conn g) else 0) (max_write (conn g))"
  define arg' where "arg' = (if vmin < 5 then take 8 arg else arg)"
  have la: "length arg' = (if vmin < 5 then 8 else 24)" by (simp add: arg'_def arg_def init_out_def)
  have "sent_reply (h_send H) a r ch 0 arg' g (send_reply_ok (h_send H) a arg' g)"
    using send_reply_ok_sends [of g a r ch "h_send H" arg'] assms(2-4) g(3) by simp
  then obtain iov where i: "concat iov = out_header (16 + length arg') 0 (unique r) @ arg'"
    "send_reply_ok (h_send H) a arg' g = Inr (fst (h_send H ch (Some iov) (lworld g)), freed a (g\<lparr>lworld := snd (h_send H ch (Some iov) (lworld g))\<rparr>))"
    by (auto simp: sent_reply_def sizeof_out_header_def)
  have rd: "rd32 0 inarg = Inr 7" "rd32 4 inarg = Inr vmin" "rd32 8 inarg = Inr ra" "rd32 12 inarg = Inr fl"
    unfolding assms(5) by (simp_all add: wire)
  have u: "(6 \<le> vmin) = (6 \<le> unat vmin)" "(13 \<le> vmin) = (13 \<le> unat vmin)" by (simp_all add: word_le_nat_alt)
  let ?z = "freed a (g\<lparr>lworld := snd (h_send H ch (Some iov) (lworld g))\<rparr>)"
  have "do_init H O' a n inarg f = reply_ok H a arg' g"
    using rd assms(2,4) g(1,5) by (cases "6 \<le> vmin") (simp_all add: do_init_def the_req_def arg'_def arg_def Let_def)
  then have "do_init H O' a n inarg f = Inr ?z" using i(2) by (simp add: reply_ok_def)
  moreover have "got_init ?z" "reqs ?z = (reqs f)(a := None)" "conn ?z = conn g" using g(2,3) by (simp_all add: freed_def list_del_req_def)
  moreover have "length (concat iov) = (if vmin < 5 then 24 else 40)" using i(1) la by simp
  moreover have "max_readahead (conn g) \<le> (if 6 \<le> vmin then unat ra else 0)" using g(7) u(1) by (auto split: if_splits)
  ultimately show ?thesis using g(4-6,8) u(2) by (intro exI [of _ ?z] exI [of _ g] exI [of _ iov]) simp
qed

definition plain_host :: "(byte list list option list) host" where
  "plain_host = \<lparr>h_send = log_send, h_intr = (\<lambda>_ _ _ f. Inr f), h_allocs = [], h_poll_mem = True, h_splice = True, h_bufsize = (\<lambda>_. 135168)\<rparr>"

definition no_ll_ops :: "'s ll_ops" where
  "no_ll_ops = \<lparr>lo_init = None, lo_destroy = None, lo_lookup = None, lo_forget = None, lo_getattr = None, lo_setattr = None, lo_readlink = None,
     lo_mknod = None, lo_mkdir = None, lo_unlink = None, lo_rmdir = None, lo_symlink = None, lo_rename = None, lo_link = None, lo_open = None,
     lo_read = None, lo_write = None, lo_flush = None, lo_release = None, lo_fsync = None, lo_opendir = None, lo_readdir = None, lo_releasedir = None,
     lo_fsyncdir = None, lo_statfs = None, lo_setxattr = None, lo_getxattr = None, lo_listxattr = None, lo_removexattr = None, lo_access = None,
     lo_create = None, lo_getlk = None, lo_setlk = None, lo_bmap = None, lo_ioctl = None, lo_poll = None, lo_write_buf = None, lo_retrieve_reply = None,
     lo_forget_multi = None, lo_flock = None\<rparr>"

theorem init_negotiates_witness:
  "\<exists>f'. do_init plain_host no_ll_ops 5 0 (le32 7 @ le32 18 @ le32 65536 @ le32 0x7b) sample_ll = Inr f' \<and> got_init f' \<and> reqs f' 5 = None
     \<and> proto_minor (conn f') = 18 \<and> max_write (conn f') \<le> 131072 \<and> max_readahead (conn f') \<le> 65536"
proof -
  have "modest (no_ll_ops :: (byte list list option list) ll_ops)" by (simp add: modest_def no_ll_ops_def)
  moreover have "reqs sample_ll 5 = Some (req0\<lparr>unique := 42, rch := Some 2\<rparr>)" by (simp add: sample_ll_def)
  ultimately have "\<exists>f' g iov. do_init plain_host no_ll_ops 5 0 (le32 7 @ le32 18 @ le32 65536 @ le32 0x7b) sample_ll = Inr f'
    \<and> f' = freed 5 (g\<lparr>lworld := snd (h_send plain_host 2 (Some iov) (lworld g))\<rparr>)
    \<and> length (concat iov) = (if (18 :: 32 word) < 5 then 24 else 40) \<and> got_init f' \<and> reqs f' = (reqs sample_ll)(5 := None)
    \<and> proto_major (conn f') = 7 \<and> proto_minor (conn f') = unat (18 :: 32 word)
    \<and> max_write (conn f') \<le> max FUSE_MIN_READ_BUFFER (h_bufsize plain_host 2) - 4096 \<and> max_readahead (conn f') \<le> (if (6 :: 32 word) \<le> 18 then unat (65536 :: 32 word) else 0)
    \<and> ((13 :: 32 word) \<le> 18 \<longrightarrow> max_background (conn f') < 2 ^ 16 \<and> congestion_threshold (conn f') \<le> max_background (conn f'))"
    by (rule init_negotiates [where rest = "[]" and fl = "0x7b"]) (simp_all add: req0_def)
  then show ?thesis by (auto simp: plain_host_def FUSE_MIN_READ_BUFFER_def)
qed

lemma init_other_major:
  assumes "reqs f a = Some r" "ctr r = 1" "rch r = Some ch" "inarg = le32 vmaj @ le32 vmin @ rest" "vmaj \<noteq> 7"
  shows "\<exists>f'. do_init H O' a n inarg f = Inr f' \<and> got_init f' = got_init f \<and> reqs f' = (reqs f)(a := None)"
proof -
  let ?g = "f\<lparr>conn := (conn f)\<lparr>proto_major := unat vmaj, proto_minor := unat vmin, capable := 0, want := 0\<rparr>\<rparr>"
  have rd: "rd32 0 inarg = Inr vmaj" "rd32 4 inarg = Inr vmin" unfolding assms(4) by (simp_all add: wire)
  have g: "reqs ?g a = Some r" using assms(1) by simp
  have F: "got_init (freed a (?g\<lparr>lworld := w\<rparr>)) = got_init f" "reqs (freed a (?g\<lparr>lworld := w\<rparr>)) = (reqs f)(a := None)" for w
    by (simp_all add: freed_def list_del_req_def)
  show ?thesis
  proof (cases "vmaj < 7")
    case True
    then show ?thesis using rd assms(1,3) reply_err_sends [OF g assms(2,3), of "h_send H" EPROTO] F
      by (auto simp: do_init_def the_req_def Let_def reply_err_def sent_reply_def)
  next
    case False
    then have "\<not> vmaj < 7" "vmaj > 7" using assms(5) by auto
    then show ?thesis using rd assms(1,3) send_reply_ok_sends [OF g assms(2,3), of "h_send H" "init_out 0 0 0 0 0"] F
      by (auto simp: do_init_def the_req_def Let_def reply_ok_def sent_reply_def)
  qed
qed

section \<open>Locks\<close>

lemma u64_sint: "in_int64 x \<Longrightarrow> sint (u64 x) = x"
  by (simp add: u64_def in_int64_def sint_sbintrunc' signed_take_bit_int_eq_self)

text \<open>
  A lock that the library reports to the kernel reads back as the same lock: the structure that \<open>fuse_reply_lock\<close>
  fills in and the conversion that \<open>do_getlk\<close> and \<open>do_setlk\<close> apply are inverse to each other, for locks to the end of the file too.
\<close>

lemma lock_wire_roundtrip:
  assumes "wl_type l \<in> {0, 1}" "0 \<le> wl_start l" "0 \<le> wl_len l" "wl_start l + wl_len l < 2 ^ 63" "in_int (wl_pid l)"
  shows "\<exists>bs. lock_out l = Inr bs \<and> length bs = 24 \<and> convert_fuse_file_lock 0 (bs @ r) = Inr l"
proof -
  have ty: "sint (ucast (u32 (wl_type l)) :: 16 word) = wl_type l" using assms(1) by (auto simp: u32_def)
  have pid: "sint (u32 (wl_pid l)) = wl_pid l"
    using assms(5) by (simp add: u32_def in_int_def int_min_def int_max_def sint_sbintrunc' signed_take_bit_int_eq_self)
  have st: "sint (u64 (wl_start l)) = wl_start l" by (rule u64_sint) (use assms in \<open>auto simp: in_int64_def\<close>)
  show ?thesis
  proof (cases "wl_len l = 0")
    case True
    then show ?thesis using assms(1) ty pid st by (auto simp: lock_out_def convert_fuse_file_lock_def wire)
  next
    case False
    let ?e = "wl_start l + wl_len l - 1"
    have i: "in_int64 (wl_start l + wl_len l)" "in_int64 ?e" using assms False by (auto simp: in_int64_def)
    have "sint (u64 ?e) = ?e" "sint (u64 OFFSET_MAX) = OFFSET_MAX" by (rule u64_sint, use i in \<open>simp add: in_int64_def OFFSET_MAX_def\<close>)+
    then have ne: "u64 ?e \<noteq> u64 OFFSET_MAX" using assms(4) by (auto simp: OFFSET_MAX_def)
    have "u64 ?e - u64 (wl_start l) + 1 = u64 (wl_len l)" by (simp add: u64_def)
    moreover have "sint (u64 (wl_len l)) = wl_len l" by (rule u64_sint) (use assms in \<open>auto simp: in_int64_def\<close>)
    ultimately have ln: "sint (u64 ?e - u64 (wl_start l) + 1) = wl_len l" by simp
    show ?thesis using False i assms(1) ty pid st ne ln by (auto simp: lock_out_def convert_fuse_file_lock_def wire)
  qed
qed

section \<open>Interruption\<close>

lemma find_req_None: "find_req g u as f = Inr None \<longleftrightarrow> (\<forall>a \<in> set as. \<exists>r. reqs f a = Some r \<and> g r \<noteq> u)"
  by (induction as) (auto simp: the_req_def split: option.splits)

lemma find_req_first:
  "\<forall>b \<in> set as. \<exists>r. reqs f b = Some r \<and> g r \<noteq> u \<Longrightarrow> reqs f a = Some r \<Longrightarrow> g r = u \<Longrightarrow> find_req g u (as @ a # bs) f = Inr (Some a)"
  by (induction as) (auto simp: the_req_def)

text \<open>
  An interruption reaches its request in either order of arrival. If the request is in progress, it is marked as
  interrupted. If not, the interruption waits, and the request is marked when it is entered. In both cases the
  request that carried the interruption is gone afterwards and nothing else has changed.
\<close>

lemma interrupt_reaches_request:
  assumes "reqs f i = Some q" "i \<notin> set (req_list f)" "i \<notin> set (intr_list f)"
    "\<forall>b \<in> set (intr_list f). \<exists>r. reqs f b = Some r \<and> intr_unique r \<noteq> u"
  shows "(req_list f = as @ c # bs \<longrightarrow> (\<forall>b \<in> set as. \<exists>r. reqs f b = Some r \<and> unique r \<noteq> u) \<longrightarrow> reqs f c = Some r \<longrightarrow> unique r = u \<longrightarrow> ni_func r = None \<longrightarrow> ctr r \<noteq> 0 \<longrightarrow>
        do_interrupt H O' i n (le64 u) f = Inr (f\<lparr>reqs := (reqs f)(c \<mapsto> r\<lparr>interrupted := True\<rparr>, i := None)\<rparr>))
    \<and> ((\<forall>b \<in> set (req_list f). \<exists>r. reqs f b = Some r \<and> unique r \<noteq> u) \<longrightarrow> c \<noteq> i \<longrightarrow>
        (\<exists>f'. do_interrupt H O' i n (le64 u) f = Inr f' \<and> intr_list f' = intr_list f @ [i]
          \<and> (reqs f' c = Some r \<longrightarrow> unique r = u \<longrightarrow>
               check_interrupt c f' = Inr (None, f\<lparr>reqs := (reqs f)(i := None, c \<mapsto> r\<lparr>interrupted := True\<rparr>)\<rparr>))))"
proof (intro conjI impI)
  let ?q = "q\<lparr>intr_unique := u\<rparr>"
  let ?g = "f\<lparr>reqs := (reqs f)(i \<mapsto> ?q)\<rparr>"
  have rd: "rd64 0 (le64 u) = Inr u" by (simp add: wire)
  have m: "mod_req i (\<lambda>r. r\<lparr>intr_unique := u\<rparr>) f = Inr ?g" using assms(1) by (simp add: mod_req_def the_req_def)
  {
    assume l: "req_list f = as @ c # bs" "\<forall>b \<in> set as. \<exists>r. reqs f b = Some r \<and> unique r \<noteq> u" "reqs f c = Some r" "unique r = u" "ni_func r = None" "ctr r \<noteq> 0"
    have ci: "c \<noteq> i" "i \<notin> set as" using assms(2) l(1) by auto
    then have "find_req unique u (req_list ?g) ?g = Inr (Some c)" unfolding l(1) [symmetric]
      using find_req_first [of as ?g unique u c r bs] l by auto
    then have "find_interrupted H i ?g = Inr (True, ?g\<lparr>reqs := (reqs ?g)(c \<mapsto> r\<lparr>interrupted := True\<rparr>)\<rparr>)"
      using l(3,5,6) ci by (simp add: find_interrupted_def the_req_def mod_req_def)
    then show "do_interrupt H O' i n (le64 u) f = Inr (f\<lparr>reqs := (reqs f)(c \<mapsto> r\<lparr>interrupted := True\<rparr>, i := None)\<rparr>)"
      using rd m ci by (simp add: do_interrupt_def destroy_req_def the_req_def)
  }
  {
    assume l: "\<forall>b \<in> set (req_list f). \<exists>r. reqs f b = Some r \<and> unique r \<noteq> u" and ci: "c \<noteq> i"
    have "find_req unique u (req_list ?g) ?g = Inr None" unfolding find_req_None using l assms(2) by auto
    moreover have "find_req intr_unique u (intr_list ?g) ?g = Inr None" unfolding find_req_None using assms(3,4) by auto
    ultimately have "find_interrupted H i ?g = Inr (False, ?g)" by (simp add: find_interrupted_def the_req_def)
    then have d: "do_interrupt H O' i n (le64 u) f = Inr (?g\<lparr>intr_list := intr_list f @ [i]\<rparr>)" using rd m by (simp add: do_interrupt_def)
    let ?h = "?g\<lparr>intr_list := intr_list f @ [i]\<rparr>"
    have "check_interrupt c ?h = Inr (None, f\<lparr>reqs := (reqs f)(i := None, c \<mapsto> r\<lparr>interrupted := True\<rparr>)\<rparr>)" if c: "reqs ?h c = Some r" "unique r = u"
    proof -
      have "find_req intr_unique u (intr_list f @ i # []) ?h = Inr (Some i)"
        by (rule find_req_first) (use assms(3,4) in auto)
      moreover have "remove1 i (intr_list f @ [i]) = intr_list f" using assms(3) by (simp add: remove1_append)
      moreover have "remove1 i (req_list f) = req_list f" using assms(2) by (simp add: remove1_idem)
      ultimately show ?thesis using c ci
        by (simp add: check_interrupt_def the_req_def mod_req_def destroy_req_def list_del_req_def fun_upd_twist)
    qed
    then show "\<exists>f'. do_interrupt H O' i n (le64 u) f = Inr f' \<and> intr_list f' = intr_list f @ [i]
          \<and> (reqs f' c = Some r \<longrightarrow> unique r = u \<longrightarrow>
               check_interrupt c f' = Inr (None, f\<lparr>reqs := (reqs f)(i := None, c \<mapsto> r\<lparr>interrupted := True\<rparr>)\<rparr>))"
      using d by auto
  }
qed

section \<open>Whole messages\<close>

lemma load_store: "load (store a bs m) a (length bs) = bs"
  by (rule nth_equalityI) (auto simp: load_def store_def)

text \<open>A state with the message \<open>bs\<close> at address \<open>1000\<close>, and a filesystem whose lookup notes its arguments in the list of blocks sent.\<close>

definition with_msg :: "byte list \<Rightarrow> (byte list list option list) ll" where
  "with_msg bs = sample_ll\<lparr>lworld := \<lparr>memory = store 1000 bs (\<lambda>_. 0), os_state = []\<rparr>\<rparr>"

definition msg_buf :: "byte list \<Rightarrow> fuse_buf" where
  "msg_buf bs = \<lparr>buf_size = length bs, is_fd = False, fd_seek = False, fd_retry = False, mem = 1000, fd = 0, pos = 0\<rparr>"

lemma with_msg_load: "load (memory (lworld (with_msg bs))) (mem (msg_buf bs)) (buf_size (msg_buf bs)) = bs"
  by (simp add: with_msg_def msg_buf_def load_store)

definition no_cuse :: "'s handler" where
  "no_cuse H O' a n b f = Inl WrongType"

definition noting_lookup :: "nat \<Rightarrow> ino \<Rightarrow> string \<Rightarrow> (byte list list option list) ll \<Rightarrow> (byte list list option list) ll c" where
  "noting_lookup a n s f = Inr (f\<lparr>lworld := (lworld f)\<lparr>os_state := [Some [le64 n, of_str s]]\<rparr>\<rparr>)"

lemma message_calls:
  assumes "\<forall>s \<in> set (kstrings q). c_string s" "minor_of f \<ge> 12" "kplain f q" "kcall O' a n q = Some g" "lo_write_buf O' = None \<or> kcode q \<noteq> FUSE_WRITE"
    "load (memory (lworld f)) (mem buf) (buf_size buf) = header_bytes len (kcode q) u n uid gid pid @ kbytes q"
    "got_init f" "allow_root (lopts f) \<longrightarrow> uid = owner f \<or> uid = 0" "intr_list f = []"
  shows "fuse_ll_process_buf cuse H O' (Some a) buf ch f =
    g (f\<lparr>reqs := (reqs f)(a \<mapsto> req0\<lparr>unique := u, rctx := \<lparr>c_uid = uid, c_gid = gid, c_pid = pid, c_umask = 0\<rparr>, rch := Some ch\<rparr>),
         req_list := req_list f @ [a]\<rparr>)"
proof -
  let ?h = "\<lparr>ih_opcode = kcode q, ih_unique = u, ih_nodeid = n, ih_uid = uid, ih_gid = gid, ih_pid = pid\<rparr>"
  have R: "read_header (load (memory (lworld f)) (mem buf) (buf_size buf)) = Inr ?h" unfolding assms(6) by (rule read_header_bytes [OF kcode_range(1)])
  have nr: "refused ?h f = None" using assms(7,8) kcode_range by (auto simp: refused_def)
  let ?g = "with_req a (new_req ?h ch) f"
  have en: "enter_req H ?h a ?g = Inr (?g\<lparr>req_list := req_list f @ [a]\<rparr>)"
    using enter_req_plain [of ?g a "new_req ?h ch" ?h H] assms(9) kcode_range(2) by (simp add: with_req_def)
  let ?k = "?g\<lparr>req_list := req_list f @ [a]\<rparr>"
  have "minor_of ?k \<ge> 12" using assms(2) by (simp add: minor_of_def with_req_def)
  moreover have "kplain ?k q" using assms(3) by (cases q) (auto simp: with_req_def)
  ultimately obtain h where h: "ll_table cuse (kcode q) = Some h" "h H O' a n (kbytes q) ?k = g ?k"
    using handler_calls [OF assms(1) _ _ assms(4)] by blast
  have dr: "drop in_header_size (load (memory (lworld f)) (mem buf) (buf_size buf)) = kbytes q" unfolding assms(6) by (simp add: in_header_size_def)
  have "fuse_ll_process_buf cuse H O' (Some a) buf ch f = call_handler cuse H O' ?h a (kbytes q) buf ?k"
    using process_steps [OF R] nr en h(1) by (simp add: Let_def dr)
  also have "\<dots> = g ?k" using h assms(5) kcode_range(3) by (auto simp: call_handler_def)
  finally show ?thesis by (simp add: with_req_def new_req_def)
qed

text \<open>
  (C34) A request arrives as it was sent: from the bytes of a message that the kernel builds by the structures of the protocol,
  the library calls the operation that belongs to the request, with the fields of the message and a new request in the list of requests.
\<close>

theorem message_reaches_operation:
  assumes "\<forall>s \<in> set (kstrings q). c_string s" "minor_of f \<ge> 12" "kplain f q" "kcall O' a n q = Some g" "lo_write_buf O' = None \<or> kcode q \<noteq> FUSE_WRITE"
    "load (memory (lworld f)) (mem buf) (buf_size buf) = header_bytes len (kcode q) u n uid gid pid @ kbytes q"
    "got_init f" "allow_root (lopts f) \<longrightarrow> uid = owner f \<or> uid = 0" "intr_list f = []"
  shows "fuse_ll_process_buf cuse H O' (Some a) buf ch f =
    g (f\<lparr>reqs := (reqs f)(a \<mapsto> req0\<lparr>unique := u, rctx := \<lparr>c_uid = uid, c_gid = gid, c_pid = pid, c_umask = 0\<rparr>, rch := Some ch\<rparr>),
         req_list := req_list f @ [a]\<rparr>)"
  by (rule message_calls [OF assms])

theorem message_reaches_operation_witness:
  "\<exists>f. fuse_ll_process_buf no_cuse plain_host (no_ll_ops\<lparr>lo_lookup := Some noting_lookup\<rparr>) (Some 8)
        (msg_buf (header_bytes 49 1 43 7 0 0 1 @ kbytes (KLookup ''user.txt''))) 2 (with_msg (header_bytes 49 1 43 7 0 0 1 @ kbytes (KLookup ''user.txt''))) = Inr f
     \<and> os_state (lworld f) = [Some [le64 7, of_str ''user.txt'']] \<and> req_list f = [5, 8]"
proof -
  let ?q = "KLookup ''user.txt''"
  let ?b = "header_bytes 49 (kcode ?q) 43 7 0 0 1 @ kbytes ?q"
  let ?f = "with_msg ?b"
  have "fuse_ll_process_buf no_cuse plain_host (no_ll_ops\<lparr>lo_lookup := Some noting_lookup\<rparr>) (Some 8) (msg_buf ?b) 2 ?f
    = noting_lookup 8 7 ''user.txt'' (?f\<lparr>reqs := (reqs ?f)(8 \<mapsto> req0\<lparr>unique := 43, rctx := \<lparr>c_uid = 0, c_gid = 0, c_pid = 1, c_umask = 0\<rparr>, rch := Some 2\<rparr>),
         req_list := req_list ?f @ [8]\<rparr>)"
  proof (rule message_reaches_operation [where q = ?q and n = 7 and g = "noting_lookup 8 7 ''user.txt''"])
    show "load (memory (lworld ?f)) (mem (msg_buf ?b)) (buf_size (msg_buf ?b)) = header_bytes 49 (kcode ?q) 43 7 0 0 1 @ kbytes ?q" by (rule with_msg_load)
  qed (simp_all add: c_string_def minor_of_def with_msg_def sample_ll_def no_ll_ops_def plain_opts_def)
  then show ?thesis by (simp add: noting_lookup_def with_msg_def sample_ll_def)
qed

text \<open>
  (C35) The three kinds of message that must not reach the filesystem: anything but the first message of the protocol before that
  message has come (\<open>EIO\<close>); a first message, of either protocol, after it (\<open>EIO\<close>); and, on a connection for root and the owner only,
  any other request of another user than on a file or directory that is open already (\<open>READ\<close> 15, \<open>WRITE\<close> 16, \<open>RELEASE\<close> 18, \<open>FSYNC\<close>
  20, \<open>READDIR\<close> 28, \<open>RELEASEDIR\<close> 29, \<open>FSYNCDIR\<close> 30) or an answer to a notification (41) (\<open>EACCES\<close>). Whatever the operations of the
  filesystem are, the only effect of such a message is one error reply to it with that code, after which no request is left over.
\<close>

theorem refused_has_no_effect:
  assumes "read_header (load (memory (lworld f)) (mem buf) (buf_size buf)) = Inr h"
    "\<not> got_init f \<and> ih_opcode h \<noteq> (if cuse_data f then 4096 else 26) \<and> err = EIO
     \<or> got_init f \<and> ih_opcode h \<in> {26, 4096} \<and> err = EIO
     \<or> got_init f \<and> allow_root (lopts f) \<and> ih_uid h \<notin> {0, owner f}
         \<and> ih_opcode h \<notin> {26, 4096, 15, 16, 18, 20, 28, 29, 30, 41} \<and> err = EACCES"
    "reqs f a = None" "a \<notin> set (req_list f)" "a \<notin> set (intr_list f)"
  shows "\<exists>iov. fuse_ll_process_buf cuse H O' (Some a) buf ch f = Inr (f\<lparr>lworld := snd (h_send H ch (Some iov) (lworld f))\<rparr>)
    \<and> concat iov = out_header 16 (- err) (ih_unique h)"
proof -
  have ref: "refused h f = Some err"
    using assms(2) by (auto simp: refused_def FUSE_INIT_def CUSE_INIT_def FUSE_WRITE_def FUSE_NOTIFY_REPLY_def)
  have e: "err \<in> {EIO, EACCES}" using assms(2) by auto
  let ?g = "with_req a (new_req h ch) f"
  have r: "reqs ?g a = Some (new_req h ch)" "ctr (new_req h ch) = 1" "rch (new_req h ch) = Some ch" "unique (new_req h ch) = ih_unique h"
    by (simp_all add: with_req_def new_req_def req0_def)
  have b: "(if 0 \<le> err \<and> err < 1000 then - err else - ERANGE) = - err" using e by auto
  obtain iov where i: "concat iov = out_header 16 (- err) (ih_unique h)"
    "fuse_reply_err (h_send H) a err ?g = Inr (fst (h_send H ch (Some iov) (lworld ?g)), freed a (?g\<lparr>lworld := snd (h_send H ch (Some iov) (lworld ?g))\<rparr>))"
    using reply_err_sends [OF r(1-3), of "h_send H" err] unfolding b sent_reply_def r(4) by (auto simp: sizeof_out_header_def)
  have "freed a (?g\<lparr>lworld := w\<rparr>) = f\<lparr>lworld := w\<rparr>" for w
    using assms(3-5) by (cases f) (auto simp: freed_def list_del_req_def with_req_def remove1_idem fun_upd_idem)
  then have "fuse_ll_process_buf cuse H O' (Some a) buf ch f = Inr (f\<lparr>lworld := snd (h_send H ch (Some iov) (lworld f))\<rparr>)"
    using process_steps [OF assms(1)] ref i(2) by (simp add: Let_def reply_err_def) (simp add: with_req_def)
  then show ?thesis using i(1) by blast
qed

theorem refused_has_no_effect_witness:
  "\<exists>iov. fuse_ll_process_buf no_cuse plain_host (no_ll_ops\<lparr>lo_lookup := Some noting_lookup\<rparr>) (Some 8)
        (msg_buf (header_bytes 49 26 43 0 0 0 1)) 2 (with_msg (header_bytes 49 26 43 0 0 0 1))
     = Inr ((with_msg (header_bytes 49 26 43 0 0 0 1))\<lparr>lworld := snd (log_send 2 (Some iov) (lworld (with_msg (header_bytes 49 26 43 0 0 0 1))))\<rparr>)
     \<and> concat iov = out_header 16 (- EIO) 43"
proof -
  let ?b = "header_bytes 49 26 43 0 0 0 1"
  let ?h = "\<lparr>ih_opcode = 26, ih_unique = 43, ih_nodeid = 0, ih_uid = 0, ih_gid = 0, ih_pid = 1\<rparr>"
  have "read_header (load (memory (lworld (with_msg ?b))) (mem (msg_buf ?b)) (buf_size (msg_buf ?b))) = Inr ?h"
    unfolding with_msg_load using read_header_bytes [of 26 49 43 0 0 0 1 "[]"] by simp
  moreover have "got_init (with_msg ?b)" by (simp add: with_msg_def sample_ll_def)
  ultimately show ?thesis
    using refused_has_no_effect [of "with_msg ?b" "msg_buf ?b" ?h EIO 8 no_cuse plain_host "no_ll_ops\<lparr>lo_lookup := Some noting_lookup\<rparr>" 2]
    by (simp add: with_msg_def sample_ll_def plain_host_def)
qed

end
