(* ===== verification/Fuse_Lib.thy ===== *)
theory Fuse_Lib
  imports Fuse_Protocol Fuse_Lifetime Fuse_Holders
begin

text \<open>
  The request handlers of the path library (\<open>fuse_lib_*\<close> in \<open>src/lib/fuse.c\<close>): they find the path of a node, lock it, call the
  filesystem on the path, keep the nodes up to date and reply. The state is that of the low-level library, whose
  outside world holds the rest of \<open>struct fuse\<close>, the directory handles and the context of the thread. The
  handlers run in one thread, as in \<open>fuse_session_loop\<close>: a lock that is taken would never be given back, which is the outcome \<open>Blocked\<close>.
  The pages that \<open>mmap\<close> finds and the times of the clock are lists in the state. Debug output is left out.
\<close>

unbundle bit_operations_syntax

section \<open>State\<close>

record fuse_config =
  cf_uid :: nat
  cf_gid :: nat
  cf_umask :: nat
  cf_entry_timeout :: rat
  cf_negative_timeout :: rat
  cf_attr_timeout :: rat
  cf_ac_attr_timeout :: rat
  cf_nopath :: bool
  cf_hard_remove :: bool
  cf_use_ino :: bool
  cf_readdir_ino :: bool
  cf_set_mode :: bool
  cf_set_uid :: bool
  cf_set_gid :: bool
  cf_direct_io :: bool
  cf_kernel_cache :: bool
  cf_auto_cache :: bool
  cf_intr :: bool

text \<open>\<open>struct fuse_dh\<close>; \<open>size\<close> is the length of \<open>contents\<close>.\<close>

record fuse_dh =
  dh_contents :: "byte list"
  dh_len :: nat
  dh_needlen :: nat
  dh_filled :: bool
  dh_fh :: "64 word"
  dh_error :: int
  dh_nodeid :: nat

text \<open>
  \<open>fs_live\<close>: \<open>f->fs\<close> is not \<open>NULL\<close>. The fields from \<open>t_private\<close> on are those of the state of a call of a filesystem (\<open>'s ctx\<close>),
  \<open>cur_req\<close> and \<open>cur_ctx\<close> those of \<open>struct fuse_context_i\<close> that the library sets. \<open>usr\<close> is everything else.
\<close>

record 't lib =
  nds :: fuse
  cfg :: fuse_config
  nullpath_ok :: bool
  utime_omit_ok :: bool
  fs_live :: bool
  dhs :: "nat \<rightharpoonup> fuse_dh"
  cur_req :: "nat option"
  cur_ctx :: fuse_ctx
  mmaps :: "nat option list"
  clocks :: "timespec list"
  t_private :: nat
  t_user :: "nat \<Rightarrow> nat"
  t_mallocs :: "nat list"
  t_blocks :: "nat list"
  t_registry :: mod_state
  usr :: 't

text \<open>
  What the handlers use besides: the channel and the filesystem, the system calls for data in files, and the addresses of
  buffers on the stack; \<open>v_align\<close> is the result of \<open>posix_memalign\<close>, \<open>v_junk\<close> an uninitialised structure.
\<close>

record 't lenv =
  v_host :: "'t lib host"
  v_fs :: "'t lib fuse_fs"
  v_kernel :: "'t lib kernel"
  v_tmp :: nat
  v_stack :: nat
  v_align :: "int + nat"
  v_junk :: statfs

type_synonym ('t, 'a) lm = "'t lib ll \<Rightarrow> ('a \<times> 't lib ll) c"

definition bindl :: "('t, 'a) lm \<Rightarrow> ('a \<Rightarrow> ('t, 'b) lm) \<Rightarrow> ('t, 'b) lm" where
  "bindl m f = (\<lambda>L. bindc (m L) (\<lambda>(x, L). f x L))"

definition retl :: "'a \<Rightarrow> ('t, 'a) lm" where
  "retl x = (\<lambda>L. Inr (x, L))"

lemma bindl_apply [simp]: "bindl m f L = bindc (m L) (\<lambda>(x, L). f x L)"
  by (simp add: bindl_def)

lemma retl_apply [simp]: "retl x L = Inr (x, L)"
  by (simp add: retl_def)

definition lib_of :: "'t lib ll \<Rightarrow> 't lib" where
  "lib_of L = os_state (lworld L)"

definition set_lib :: "('t lib \<Rightarrow> 't lib) \<Rightarrow> 't lib ll \<Rightarrow> 't lib ll" where
  "set_lib g L = L\<lparr>lworld := (lworld L)\<lparr>os_state := g (os_state (lworld L))\<rparr>\<rparr>"

definition asks :: "('t lib \<Rightarrow> 'a) \<Rightarrow> ('t, 'a) lm" where
  "asks g = (\<lambda>L. Inr (g (lib_of L), L))"

definition on_nodes :: "(fuse \<Rightarrow> ('a \<times> fuse) c) \<Rightarrow> ('t, 'a) lm" where
  "on_nodes g = (\<lambda>L. bindc (g (nds (lib_of L))) (\<lambda>(x, n). Inr (x, set_lib (\<lambda>l. l\<lparr>nds := n\<rparr>) L)))"

definition change_nodes :: "(fuse \<Rightarrow> fuse c) \<Rightarrow> ('t, unit) lm" where
  "change_nodes g = on_nodes (\<lambda>f. bindc (g f) (\<lambda>f. Inr ((), f)))"

section \<open>Calls of the filesystem\<close>

definition ctx_of :: "'t lib world \<Rightarrow> 't lib ctx" where
  "ctx_of w = (let l = os_state w in \<lparr>private_data = t_private l, user_data = t_user l, mallocs = t_mallocs l, blocks = t_blocks l,
     registry = t_registry l, wrld = w\<rparr>)"

definition world_of :: "'t lib ctx \<Rightarrow> 't lib world" where
  "world_of c = (wrld c)\<lparr>os_state := (os_state (wrld c))\<lparr>t_private := private_data c, t_user := user_data c, t_mallocs := mallocs c,
     t_blocks := blocks c, t_registry := registry c\<rparr>\<rparr>"

definition ctx_call :: "('t lib, 'a) call \<Rightarrow> ('t, 'a) lm" where
  "ctx_call m = (\<lambda>L. bindc (m (ctx_of (lworld L))) (\<lambda>(x, c). Inr (x, L\<lparr>lworld := world_of c\<rparr>)))"

definition fs_call :: "('t lib, 'a) call \<Rightarrow> ('t, 'a) lm" where
  "fs_call m = (\<lambda>L. if fs_live (lib_of L) then ctx_call m L else Inl NullDeref)"

text \<open>What the filesystem's table says, read through \<open>f->fs\<close>.\<close>

definition fs_has :: "('t lib fuse_operations \<Rightarrow> bool) \<Rightarrow> 't lenv \<Rightarrow> ('t, bool) lm" where
  "fs_has g E = (\<lambda>L. if fs_live (lib_of L) then Inr (g (op (v_fs E)), L) else Inl NullDeref)"

section \<open>Paths, requests and the clock\<close>

definition next_time :: "('t, timespec) lm" where
  "next_time = (\<lambda>L. case clocks (lib_of L) of
       [] \<Rightarrow> Inr (\<lparr>tv_sec = 0, tv_nsec = 0\<rparr>, L)
     | t # ts \<Rightarrow> Inr (t, set_lib (\<lambda>l. l\<lparr>clocks := ts\<rparr>) L))"

definition next_page :: "('t, nat option) lm" where
  "next_page = (\<lambda>L. case mmaps (lib_of L) of
       [] \<Rightarrow> Inr (None, L)
     | m # ms \<Rightarrow> Inr (m, set_lib (\<lambda>l. l\<lparr>mmaps := ms\<rparr>) L))"

text \<open>A wait for a path is for good.\<close>

definition no_wait :: "((bool \<times> int \<times> 'a) \<times> fuse) c \<Rightarrow> ('a \<times> fuse) c" where
  "no_wait m = bindc m (\<lambda>((waits, t, res), f). if waits then Inl Blocked else Inr (res, f))"

definition get_path_common :: "nat \<Rightarrow> string option \<Rightarrow> bool \<Rightarrow> ('t, int \<times> path \<times> nat option) lm" where
  "get_path_common n nm wr = on_nodes (\<lambda>f. no_wait (get_path_first (try_get_path n nm wr) 0 f))"

definition lib_get_path :: "nat \<Rightarrow> ('t, int \<times> path) lm" where
  "lib_get_path n = bindl (get_path_common n None False) (\<lambda>(err, p, _). retl (err, p))"

definition lib_get_path_name :: "nat \<Rightarrow> string option \<Rightarrow> ('t, int \<times> path) lm" where
  "lib_get_path_name n nm = bindl (get_path_common n nm False) (\<lambda>(err, p, _). retl (err, p))"

definition lib_get_path_nullok :: "nat \<Rightarrow> ('t, int \<times> path) lm" where
  "lib_get_path_nullok n = bindl (asks (\<lambda>l. (cf_nopath (cfg l), nullpath_ok l))) (\<lambda>(nopath, nullok).
     if nopath then retl (0, None)
     else bindl (lib_get_path n) (\<lambda>(err, p). retl (if err = - ENOENT \<and> nullok then 0 else err, p)))"

definition get_path2 :: "nat \<Rightarrow> string option \<Rightarrow> bool \<Rightarrow> nat \<Rightarrow> string option \<Rightarrow> bool \<Rightarrow> ('t, int \<times> (path \<times> nat option) \<times> path \<times> nat option) lm" where
  "get_path2 n1 nm1 wr1 n2 nm2 wr2 = on_nodes (\<lambda>f. no_wait (get_path2_first n1 nm1 wr1 n2 nm2 wr2 0 f))"

definition lib_free_path :: "nat \<Rightarrow> path \<Rightarrow> ('t, unit) lm" where
  "lib_free_path n p = change_nodes (\<lambda>f. bindc (free_path n p f) (\<lambda>(_, f). Inr f))"

definition lib_free_path_wrlock :: "nat \<Rightarrow> nat option \<Rightarrow> ('t, unit) lm" where
  "lib_free_path_wrlock n w = change_nodes (\<lambda>f. bindc (free_path_wrlock n w f) (\<lambda>(_, f). Inr f))"

definition lib_free_path2 :: "nat \<Rightarrow> nat \<Rightarrow> nat option \<Rightarrow> nat option \<Rightarrow> ('t, unit) lm" where
  "lib_free_path2 n1 n2 w1 w2 = change_nodes (\<lambda>f. bindc (free_path2 n1 n2 w1 w2 f) (\<lambda>(_, f). Inr f))"

definition req_fuse_prepare :: "nat \<Rightarrow> ('t, unit) lm" where
  "req_fuse_prepare a = (\<lambda>L. bindc (the_req a L) (\<lambda>r. Inr ((), set_lib (\<lambda>l. l\<lparr>cur_req := Some a, cur_ctx := rctx r\<rparr>) L)))"

text \<open>
  The interrupt function of the library, number \<open>1\<close>, returns at once when it is called in the thread that serves the
  request, as \<open>fuse_req_interrupt_func\<close> does.
\<close>

definition fuse_interrupt :: "nat \<Rightarrow> nat \<Rightarrow> nat \<Rightarrow> 't lib ll \<Rightarrow> 't lib ll c" where
  "fuse_interrupt fn a d L = Inr L"

definition fuse_prepare_interrupt :: "'t lenv \<Rightarrow> nat \<Rightarrow> ('t, unit) lm" where
  "fuse_prepare_interrupt E a = (\<lambda>L. if cf_intr (cfg (lib_of L))
     then bindc (fuse_req_interrupt_func ((v_host E)\<lparr>h_intr := fuse_interrupt\<rparr>) a (Some 1) (v_stack E) L) (\<lambda>L. Inr ((), L)) else Inr ((), L))"

definition fuse_finish_interrupt :: "'t lenv \<Rightarrow> nat \<Rightarrow> ('t, unit) lm" where
  "fuse_finish_interrupt E a = (\<lambda>L. if cf_intr (cfg (lib_of L))
     then bindc (fuse_req_interrupt_func ((v_host E)\<lparr>h_intr := fuse_interrupt\<rparr>) a None 0 L) (\<lambda>L. Inr ((), L)) else Inr ((), L))"

text \<open>The filesystem is called between the two.\<close>

definition interruptible :: "'t lenv \<Rightarrow> nat \<Rightarrow> ('t, 'a) lm \<Rightarrow> ('t, 'a) lm" where
  "interruptible E a m = bindl (fuse_prepare_interrupt E a) (\<lambda>_. bindl m (\<lambda>x. bindl (fuse_finish_interrupt E a) (\<lambda>_. retl x)))"

text \<open>
  The shape of many handlers: the path is found, the filesystem is called on it, and the path is given back; the result
  is the error of the search or what the filesystem returns.
\<close>

definition with_path :: "'t lenv \<Rightarrow> nat \<Rightarrow> nat \<Rightarrow> ('t, int \<times> path) lm \<Rightarrow> (int \<Rightarrow> 'a) \<Rightarrow> (path \<Rightarrow> ('t, 'a) lm) \<Rightarrow> ('t, 'a) lm" where
  "with_path E a n get failed body = bindl get (\<lambda>(err, p).
     if err = 0 then bindl (interruptible E a (body p)) (\<lambda>x. bindl (lib_free_path n p) (\<lambda>_. retl x)) else retl (failed err))"

definition lib_reply_err :: "'t lenv \<Rightarrow> nat \<Rightarrow> int \<Rightarrow> ('t, unit) lm" where
  "lib_reply_err E a err = bindl (fuse_reply_err (h_send (v_host E)) a (- err)) (\<lambda>_. retl ())"

definition finishing :: "('t, int) lm \<Rightarrow> ('t, unit) lm" where
  "finishing m = bindl m (\<lambda>_. retl ())"

definition ESTALE :: int where "ESTALE = 116"

section \<open>Attributes and lookups\<close>

definition S_IFMT :: nat where "S_IFMT = 0xF000"

definition S_ISREG :: "nat \<Rightarrow> bool" where
  "S_ISREG m \<longleftrightarrow> m AND S_IFMT = 0x8000"

definition set_stat :: "fuse_config \<Rightarrow> nat \<Rightarrow> stat \<Rightarrow> stat" where
  "set_stat cf n st =
     (let st = (if cf_use_ino cf then st else st\<lparr>st_ino := n\<rparr>);
          st = (if cf_set_mode cf then st\<lparr>st_mode := (st_mode st AND S_IFMT) OR unat ((0x1FF :: 32 word) AND NOT (word_of_nat (cf_umask cf)))\<rparr> else st);
          st = (if cf_set_uid cf then st\<lparr>st_uid := cf_uid cf\<rparr> else st)
      in if cf_set_gid cf then st\<lparr>st_gid := cf_gid cf\<rparr> else st)"

definition mtime_eq :: "stat \<Rightarrow> timespec \<Rightarrow> bool" where
  "mtime_eq st ts \<longleftrightarrow> tv_sec (st_mtim st) = tv_sec ts \<and> tv_nsec (st_mtim st) = tv_nsec ts"

definition update_stat :: "nat \<Rightarrow> stat \<Rightarrow> ('t, unit) lm" where
  "update_stat nd st = bindl next_time (\<lambda>now. change_nodes (modn nd (\<lambda>n. n\<lparr>
     cache_valid := (cache_valid n \<and> mtime_eq st (mtime n) \<and> st_size st = nsize n),
     mtime := st_mtim st, nsize := st_size st, stat_updated := now\<rparr>)))"

definition e0 :: fuse_entry_param where
  "e0 = \<lparr>e_ino = 0, e_generation = 0, e_attr = stat0, e_attr_timeout = 0, e_entry_timeout = 0\<rparr>"

text \<open>\<open>fuse_fs_fgetattr\<close> if the file is open, \<open>fuse_fs_getattr\<close> if not.\<close>

definition getattr_fi :: "'t lenv \<Rightarrow> path \<Rightarrow> stat \<Rightarrow> fuse_file_info option \<Rightarrow> ('t, int \<times> stat \<times> fuse_file_info option) lm" where
  "getattr_fi E p st fi = (case fi of
       Some fi \<Rightarrow> bindl (fs_call (fuse_fs_fgetattr (v_fs E) p st fi)) (\<lambda>(res, st, fi). retl (res, st, Some fi))
     | None \<Rightarrow> bindl (fs_call (fuse_fs_getattr (v_fs E) p st)) (\<lambda>(res, st). retl (res, st, None)))"

definition err_entry :: "int \<Rightarrow> int \<times> fuse_entry_param" where
  "err_entry err = (err, e0)"

definition lookup_path :: "'t lenv \<Rightarrow> nat \<Rightarrow> string option \<Rightarrow> path \<Rightarrow> fuse_file_info option \<Rightarrow> ('t, int \<times> fuse_entry_param \<times> fuse_file_info option) lm" where
  "lookup_path E n nm p fi =
     bindl (getattr_fi E p stat0 fi) (\<lambda>(res, st, fi).
     if res \<noteq> 0 then retl (res, e0\<lparr>e_attr := st\<rparr>, fi)
     else bindl next_page (\<lambda>mem. bindl (on_nodes (find_node mem n nm)) (\<lambda>r. case r of
         None \<Rightarrow> retl (- ENOMEM, e0\<lparr>e_attr := st\<rparr>, fi)
       | Some nd \<Rightarrow>
           bindl (asks cfg) (\<lambda>cf.
           bindl (on_nodes (\<lambda>f. bindc (getn f nd) (\<lambda>x. Inr (x, f)))) (\<lambda>x.
           bindl (if cf_auto_cache cf then update_stat nd st else retl ()) (\<lambda>_.
           retl (0, \<lparr>e_ino = word_of_nat (nodeid x), e_generation = word_of_nat (ngeneration x), e_attr = set_stat cf (nodeid x) st,
             e_attr_timeout = cf_attr_timeout cf, e_entry_timeout = cf_entry_timeout cf\<rparr>, fi)))))))"

text \<open>A time is taken from the clock even where \<open>forget_node\<close> does not look at it.\<close>

definition lib_forget_node :: "nat \<Rightarrow> nat \<Rightarrow> ('t, unit) lm" where
  "lib_forget_node n k = bindl next_time (\<lambda>now. change_nodes (\<lambda>f. bindc (forget_node now n k f) (\<lambda>r. case r of None \<Rightarrow> Inl Blocked | Some f \<Rightarrow> Inr f)))"

definition reply_entry :: "'t lenv \<Rightarrow> nat \<Rightarrow> fuse_entry_param \<Rightarrow> int \<Rightarrow> ('t, unit) lm" where
  "reply_entry E a e err =
     (if err = 0 then bindl (fuse_reply_entry (h_send (v_host E)) a e) (\<lambda>res.
        if res = - ENOENT \<and> e_ino e \<noteq> 0 then lib_forget_node (unat (e_ino e)) 1 else retl ())
      else lib_reply_err E a err)"

section \<open>Start and end\<close>

definition FUSE_NO_CTX :: fuse_ctx where
  "FUSE_NO_CTX = \<lparr>c_uid = 0, c_gid = 0, c_pid = 0, c_umask = 0\<rparr>"

definition clear_context :: "'t lib \<Rightarrow> 't lib" where
  "clear_context l = l\<lparr>cur_req := None, cur_ctx := FUSE_NO_CTX, t_private := 0\<rparr>"

definition fuse_lib_init :: "'t lenv \<Rightarrow> nat \<Rightarrow> fuse_conn_info \<Rightarrow> 't lib world \<Rightarrow> (fuse_conn_info \<times> 't lib world) c" where
  "fuse_lib_init E ud c w =
     (let w = w\<lparr>os_state := clear_context (os_state w)\<rparr>; c = c\<lparr>want := want c OR FUSE_CAP_EXPORT_SUPPORT\<rparr> in
      if fs_live (os_state w) then bindc (fuse_fs_init (v_fs E) c (ctx_of w)) (\<lambda>(c, x). Inr (c, world_of x)) else Inl NullDeref)"

definition fuse_lib_destroy :: "'t lenv \<Rightarrow> nat \<Rightarrow> 't lib ll \<Rightarrow> 't lib ll c" where
  "fuse_lib_destroy E ud L = bindc (fs_call (fuse_fs_destroy (v_fs E)) (set_lib clear_context L)) (\<lambda>(_, L). Inr (set_lib (\<lambda>l. l\<lparr>fs_live := False\<rparr>) L))"

section \<open>Lookup, forget and attributes\<close>

text \<open>The names \<open>.\<close> and \<open>..\<close> stand for nodes; the node of \<open>.\<close> is kept during the lookup.\<close>

definition lookup_dots :: "nat \<Rightarrow> string \<Rightarrow> ('t, (nat \<times> string option \<times> nat option) option) lm" where
  "lookup_dots n nm =
     (if nm = ''.'' then
        on_nodes (\<lambda>f. bindc (node_by_id f n) (\<lambda>r. case r of
            None \<Rightarrow> Inr (None, f)
          | Some dot \<Rightarrow> bindc (getn f dot) (\<lambda>x. if refctr x = int_max then Inl SignedOverflow
              else bindc (modn dot (\<lambda>x. x\<lparr>refctr := refctr x + 1\<rparr>) f) (\<lambda>f. Inr (Some (n, None, Some dot), f)))))
      else if nm = ''..'' then
        on_nodes (\<lambda>f. bindc (the_node f n) (\<lambda>a. bindc (getn f a) (\<lambda>x. case parent x of
            None \<Rightarrow> Inl NullDeref | Some q \<Rightarrow> bindc (getn f q) (\<lambda>y. Inr (Some (nodeid y, None, None), f)))))
      else retl (Some (n, Some nm, None)))"

definition fuse_lib_lookup :: "'t lenv \<Rightarrow> nat \<Rightarrow> ino \<Rightarrow> string \<Rightarrow> ('t, unit) lm" where
  "fuse_lib_lookup E a dir nm =
     bindl (req_fuse_prepare a) (\<lambda>_. bindl (lookup_dots (unat dir) nm) (\<lambda>r. case r of
       None \<Rightarrow> reply_entry E a e0 (- ESTALE)
     | Some (n, nm, dot) \<Rightarrow>
         bindl (with_path E a n (lib_get_path_name n nm) err_entry (\<lambda>p.
           bindl (lookup_path E n nm p None) (\<lambda>(err, e, _). bindl (asks cfg) (\<lambda>cf.
             if err = - ENOENT \<and> cf_negative_timeout cf \<noteq> 0 then retl (0, e\<lparr>e_ino := 0, e_entry_timeout := cf_negative_timeout cf\<rparr>)
             else retl (err, e))))) (\<lambda>(err, e).
         bindl (case dot of None \<Rightarrow> retl () | Some d \<Rightarrow> change_nodes (unref_node d)) (\<lambda>_.
         reply_entry E a e err))))"

definition fuse_lib_forget :: "'t lenv \<Rightarrow> nat \<Rightarrow> ino \<Rightarrow> 64 word \<Rightarrow> ('t, unit) lm" where
  "fuse_lib_forget E a n k = bindl (lib_forget_node (unat n) (unat k)) (\<lambda>_ L. bindc (fuse_reply_none (h_send (v_host E)) a L) (\<lambda>L. Inr ((), L)))"

primrec forget_loop :: "byte list \<Rightarrow> nat \<Rightarrow> nat \<Rightarrow> ('t, unit) lm" where
  "forget_loop bs i 0 = retl ()"
| "forget_loop bs i (Suc k) = (\<lambda>L. bindc (rd64 (16 * i) bs) (\<lambda>n. bindc (rd64 (16 * i + 8) bs) (\<lambda>m.
     bindl (lib_forget_node (unat n) (unat m)) (\<lambda>_. forget_loop bs (i + 1) k) L)))"

definition fuse_lib_forget_multi :: "'t lenv \<Rightarrow> nat \<Rightarrow> 32 word \<Rightarrow> byte list \<Rightarrow> ('t, unit) lm" where
  "fuse_lib_forget_multi E a cnt bs = bindl (forget_loop bs 0 (unat cnt)) (\<lambda>_ L. bindc (fuse_reply_none (h_send (v_host E)) a L) (\<lambda>L. Inr ((), L)))"

definition hidden_link :: "nat \<Rightarrow> stat \<Rightarrow> ('t, nat \<times> stat) lm" where
  "hidden_link n st = on_nodes (\<lambda>f. bindc (the_node f n) (\<lambda>d. bindc (getn f d) (\<lambda>x.
     Inr ((d, if is_hidden x \<and> st_nlink st > 0 then st\<lparr>st_nlink := st_nlink st - 1\<rparr> else st), f))))"

definition fuse_lib_getattr :: "'t lenv \<Rightarrow> nat \<Rightarrow> ino \<Rightarrow> fuse_file_info option \<Rightarrow> ('t, unit) lm" where
  "fuse_lib_getattr E a ino fi =
     bindl (req_fuse_prepare a) (\<lambda>_.
     bindl (if fi \<noteq> None then fs_has (\<lambda>ops. op_fgetattr ops \<noteq> None) E else retl False) (\<lambda>nullok.
     bindl (with_path E a (unat ino) (if nullok then lib_get_path_nullok (unat ino) else lib_get_path (unat ino))
       (\<lambda>err. (err, stat0)) (\<lambda>p. bindl (getattr_fi E p stat0 fi) (\<lambda>(res, st, _). retl (res, st)))) (\<lambda>(err, st).
     if err = 0 then
       bindl (hidden_link (unat ino) st) (\<lambda>(d, st).
       bindl (asks cfg) (\<lambda>cf.
       bindl (if cf_auto_cache cf then update_stat d st else retl ()) (\<lambda>_.
       finishing (fuse_reply_attr (h_send (v_host E)) a (set_stat cf (unat ino) st) (cf_attr_timeout cf)))))
     else lib_reply_err E a err)))"

definition SET_MODE :: "32 word" where "SET_MODE = 0x1"
definition SET_UID :: "32 word" where "SET_UID = 0x2"
definition SET_GID :: "32 word" where "SET_GID = 0x4"
definition SET_SIZE :: "32 word" where "SET_SIZE = 0x8"
definition SET_ATIME :: "32 word" where "SET_ATIME = 0x10"
definition SET_MTIME :: "32 word" where "SET_MTIME = 0x20"
definition SET_ATIME_NOW :: "32 word" where "SET_ATIME_NOW = 0x80"
definition SET_MTIME_NOW :: "32 word" where "SET_MTIME_NOW = 0x100"

definition UTIME_NOW :: int where "UTIME_NOW = 0x3fffffff"
definition UTIME_OMIT :: int where "UTIME_OMIT = 0x3ffffffe"

definition new_time :: "32 word \<Rightarrow> 32 word \<Rightarrow> 32 word \<Rightarrow> timespec \<Rightarrow> timespec" where
  "new_time valid now_bit time_bit ts =
     (if valid AND now_bit \<noteq> 0 then \<lparr>tv_sec = 0, tv_nsec = UTIME_NOW\<rparr>
      else if valid AND time_bit \<noteq> 0 then ts else \<lparr>tv_sec = 0, tv_nsec = UTIME_OMIT\<rparr>)"

text \<open>The next step of a change of attributes, unless one before it failed.\<close>

definition unless_err :: "int \<Rightarrow> bool \<Rightarrow> ('t, int) lm \<Rightarrow> ('t, int) lm" where
  "unless_err err wanted m = (if err = 0 \<and> wanted then m else retl err)"

definition set_times :: "'t lenv \<Rightarrow> path \<Rightarrow> stat \<Rightarrow> 32 word \<Rightarrow> int \<Rightarrow> ('t, int) lm" where
  "set_times E p st valid err = bindl (asks utime_omit_ok) (\<lambda>omit.
     if err = 0 \<and> omit \<and> valid AND (SET_ATIME OR SET_MTIME) \<noteq> 0 then
       fs_call (fuse_fs_utimens (v_fs E) p (new_time valid SET_ATIME_NOW SET_ATIME (st_atim st)) (new_time valid SET_MTIME_NOW SET_MTIME (st_mtim st)))
     else unless_err err (valid AND (SET_ATIME OR SET_MTIME) = SET_ATIME OR SET_MTIME) (fs_call (fuse_fs_utimens (v_fs E) p (st_atim st) (st_mtim st))))"

definition fst_of :: "('t, int \<times> 'b) lm \<Rightarrow> ('t, int) lm" where
  "fst_of m = bindl m (\<lambda>(res, _). retl res)"

definition set_size :: "'t lenv \<Rightarrow> path \<Rightarrow> int \<Rightarrow> fuse_file_info option \<Rightarrow> ('t, int) lm" where
  "set_size E p sz fi = (case fi of
       Some fi \<Rightarrow> fst_of (fs_call (fuse_fs_ftruncate (v_fs E) p sz fi))
     | None \<Rightarrow> fs_call (fuse_fs_truncate (v_fs E) p sz))"

definition set_attrs :: "'t lenv \<Rightarrow> path \<Rightarrow> stat \<Rightarrow> 32 word \<Rightarrow> fuse_file_info option \<Rightarrow> ('t, int) lm" where
  "set_attrs E p st valid fi =
     bindl (unless_err 0 (valid AND SET_MODE \<noteq> 0) (fs_call (fuse_fs_chmod (v_fs E) p (st_mode st)))) (\<lambda>err.
     bindl (unless_err err (valid AND (SET_UID OR SET_GID) \<noteq> 0) (fs_call (fuse_fs_chown (v_fs E) p
       (if valid AND SET_UID \<noteq> 0 then st_uid st else 2 ^ 32 - 1) (if valid AND SET_GID \<noteq> 0 then st_gid st else 2 ^ 32 - 1)))) (\<lambda>err.
     bindl (unless_err err (valid AND SET_SIZE \<noteq> 0) (set_size E p (st_size st) fi)) (\<lambda>err.
     set_times E p st valid err)))"

text \<open>\<open>buf\<close> is not initialised before the filesystem fills it in; here it is zero.\<close>

definition fuse_lib_setattr :: "'t lenv \<Rightarrow> nat \<Rightarrow> ino \<Rightarrow> stat \<Rightarrow> 32 word \<Rightarrow> fuse_file_info option \<Rightarrow> ('t, unit) lm" where
  "fuse_lib_setattr E a ino st valid fi =
     bindl (req_fuse_prepare a) (\<lambda>_.
     bindl (if valid = SET_SIZE \<and> fi \<noteq> None then fs_has (\<lambda>ops. op_ftruncate ops \<noteq> None \<and> op_fgetattr ops \<noteq> None) E else retl False) (\<lambda>nullok.
     bindl (with_path E a (unat ino) (if nullok then lib_get_path_nullok (unat ino) else lib_get_path (unat ino)) (\<lambda>err. (err, stat0)) (\<lambda>p.
       bindl (set_attrs E p st valid fi) (\<lambda>err.
       if err = 0 then bindl (getattr_fi E p stat0 fi) (\<lambda>(res, buf, _). retl (res, buf)) else retl (err, stat0)))) (\<lambda>(err, buf).
     if err = 0 then
       bindl (asks cfg) (\<lambda>cf.
       bindl (if cf_auto_cache cf then bindl (on_nodes (\<lambda>f. bindc (the_node f (unat ino)) (\<lambda>d. Inr (d, f)))) (\<lambda>d. update_stat d buf) else retl ()) (\<lambda>_.
       finishing (fuse_reply_attr (h_send (v_host E)) a (set_stat cf (unat ino) buf) (cf_attr_timeout cf))))
     else lib_reply_err E a err)))"

section \<open>Links and names\<close>

definition fuse_lib_access :: "'t lenv \<Rightarrow> nat \<Rightarrow> ino \<Rightarrow> 32 word \<Rightarrow> ('t, unit) lm" where
  "fuse_lib_access E a ino wanted = bindl (req_fuse_prepare a) (\<lambda>_.
     bindl (with_path E a (unat ino) (lib_get_path (unat ino)) (\<lambda>e. e) (\<lambda>p. fs_call (fuse_fs_access (v_fs E) p (sint wanted)))) (lib_reply_err E a))"

definition PATH_MAX :: nat where "PATH_MAX = 4096"

text \<open>\<open>linkname\<close> on the stack: what the filesystem wrote, ended in its last byte at the latest.\<close>

definition link_text :: "nat \<Rightarrow> 't lib ll \<Rightarrow> string" where
  "link_text m L = to_str (takeWhile (\<lambda>b. b \<noteq> 0) (load (memory (lworld L)) m PATH_MAX))"

definition fuse_lib_readlink :: "'t lenv \<Rightarrow> nat \<Rightarrow> ino \<Rightarrow> ('t, unit) lm" where
  "fuse_lib_readlink E a ino = bindl (req_fuse_prepare a) (\<lambda>_.
     bindl (with_path E a (unat ino) (lib_get_path (unat ino)) (\<lambda>e. e) (\<lambda>p. fs_call (fuse_fs_readlink (v_fs E) p (v_stack E) (PATH_MAX + 1)))) (\<lambda>err.
     if err = 0 then (\<lambda>L. finishing (fuse_reply_readlink (h_send (v_host E)) a (link_text (v_stack E) L)) L) else lib_reply_err E a err))"

definition O_CREAT_EXCL_WRONLY :: int where "O_CREAT_EXCL_WRONLY = 0xC1"

definition looking_up :: "'t lenv \<Rightarrow> nat \<Rightarrow> string \<Rightarrow> path \<Rightarrow> int \<Rightarrow> ('t, int \<times> fuse_entry_param) lm" where
  "looking_up E n nm p err = (if err = 0 then bindl (lookup_path E n (Some nm) p None) (\<lambda>(err, e, _). retl (err, e)) else retl (err_entry err))"

text \<open>A regular file is created, looked up and closed again if the filesystem can do that.\<close>

definition mknod_create :: "'t lenv \<Rightarrow> nat \<Rightarrow> string \<Rightarrow> nat \<Rightarrow> path \<Rightarrow> ('t, int \<times> fuse_entry_param) lm" where
  "mknod_create E n nm mode p =
     (if S_ISREG mode then
        bindl (fs_call (fuse_fs_create (v_fs E) p mode (fi0\<lparr>fi_flags := O_CREAT_EXCL_WRONLY\<rparr>))) (\<lambda>(err, fi).
        if err = 0 then
          bindl (lookup_path E n (Some nm) p (Some fi)) (\<lambda>(err, e, fi').
          bindl (fs_call (fuse_fs_release (v_fs E) p (case fi' of Some x \<Rightarrow> x | None \<Rightarrow> fi))) (\<lambda>_. retl (err, e)))
        else retl (err_entry err))
      else retl (err_entry (- ENOSYS)))"

definition fuse_lib_mknod :: "'t lenv \<Rightarrow> nat \<Rightarrow> ino \<Rightarrow> string \<Rightarrow> 32 word \<Rightarrow> 32 word \<Rightarrow> ('t, unit) lm" where
  "fuse_lib_mknod E a dir nm mode rdev = bindl (req_fuse_prepare a) (\<lambda>_.
     bindl (with_path E a (unat dir) (lib_get_path_name (unat dir) (Some nm)) err_entry (\<lambda>p.
       bindl (mknod_create E (unat dir) nm (unat mode) p) (\<lambda>(err, e).
       if err = - ENOSYS then bindl (fs_call (fuse_fs_mknod (v_fs E) p (unat mode) (unat rdev))) (looking_up E (unat dir) nm p)
       else retl (err, e)))) (\<lambda>(err, e). reply_entry E a e err))"

definition fuse_lib_mkdir :: "'t lenv \<Rightarrow> nat \<Rightarrow> ino \<Rightarrow> string \<Rightarrow> 32 word \<Rightarrow> ('t, unit) lm" where
  "fuse_lib_mkdir E a dir nm mode = bindl (req_fuse_prepare a) (\<lambda>_.
     bindl (with_path E a (unat dir) (lib_get_path_name (unat dir) (Some nm)) err_entry (\<lambda>p.
       bindl (fs_call (fuse_fs_mkdir (v_fs E) p (unat mode))) (looking_up E (unat dir) nm p))) (\<lambda>(err, e). reply_entry E a e err))"

definition fuse_lib_symlink :: "'t lenv \<Rightarrow> nat \<Rightarrow> string \<Rightarrow> ino \<Rightarrow> string \<Rightarrow> ('t, unit) lm" where
  "fuse_lib_symlink E a linkname dir nm = bindl (req_fuse_prepare a) (\<lambda>_.
     bindl (with_path E a (unat dir) (lib_get_path_name (unat dir) (Some nm)) err_entry (\<lambda>p.
       bindl (fs_call (fuse_fs_symlink (v_fs E) linkname p)) (looking_up E (unat dir) nm p))) (\<lambda>(err, e). reply_entry E a e err))"

section \<open>Removing and renaming\<close>

definition is_open :: "nat \<Rightarrow> string \<Rightarrow> ('t, bool) lm" where
  "is_open dir nm = on_nodes (\<lambda>f. bindc (node_by_name f dir nm) (\<lambda>r. case r of
     None \<Rightarrow> Inr (False, f) | Some d \<Rightarrow> bindc (getn f d) (\<lambda>x. Inr (open_count x > 0, f))))"

definition hex_of :: "nat \<Rightarrow> char" where
  "hex_of n = ''0123456789abcdef'' ! (n mod 16)"

definition hex8 :: "nat \<Rightarrow> string" where
  "hex8 n = map (\<lambda>i. hex_of (n div 16 ^ i)) [7, 6, 5, 4, 3, 2, 1, 0]"

text \<open>The inner loop of \<open>hidden_name\<close>: \<open>hidectr\<close> is counted up to a name that no node has. One more round than there are nodes is enough.\<close>

fun hide_loop :: "nat \<Rightarrow> nat \<Rightarrow> nat \<Rightarrow> fuse \<Rightarrow> (string \<times> fuse) c" where
  "hide_loop 0 dir n f = Inl OutOfFuel"
| "hide_loop (Suc fuel) dir n f =
     (let h = (hidectr f + 1) mod 2 ^ 32; f = f\<lparr>hidectr := h\<rparr>; nm = ''.fuse_hidden'' @ hex8 (n mod 2 ^ 32) @ hex8 h in
      bindc (node_by_name f dir nm) (\<lambda>r. case r of None \<Rightarrow> Inr (nm, f) | Some _ \<Rightarrow> hide_loop fuel dir n f))"

definition hidden_try :: "nat \<Rightarrow> string \<Rightarrow> fuse \<Rightarrow> ((string \<times> int \<times> path) option \<times> fuse) c" where
  "hidden_try dir oldname f = bindc (node_by_name f dir oldname) (\<lambda>r. case r of
       None \<Rightarrow> Inr (None, f)
     | Some d \<Rightarrow> bindc (getn f d) (\<lambda>x. bindc (hide_loop (use (name_table f) + 1) dir (nodeid x) f) (\<lambda>(nm, f).
         bindc (try_get_path dir (Some nm) False 0 f) (\<lambda>((res, p, _), f). Inr (Some (nm, res, p), f)))))"

primrec hidden_loop :: "'t lenv \<Rightarrow> nat \<Rightarrow> string \<Rightarrow> nat \<Rightarrow> ('t, (string \<times> string) option) lm" where
  "hidden_loop E dir oldname 0 = retl None"
| "hidden_loop E dir oldname (Suc k) = bindl (on_nodes (hidden_try dir oldname)) (\<lambda>r. case r of
       None \<Rightarrow> retl None
     | Some (nm, res, p) \<Rightarrow>
         if res \<noteq> 0 then retl None
         else bindl (fs_call (fuse_fs_getattr (v_fs E) p stat0)) (\<lambda>(res, _).
           if res = - ENOENT then retl (map_option (\<lambda>q. (nm, q)) p)
           else if res = 0 then hidden_loop E dir oldname k else retl None))"

definition hidden_name :: "'t lenv \<Rightarrow> nat \<Rightarrow> string \<Rightarrow> ('t, (string \<times> string) option) lm" where
  "hidden_name E dir oldname = hidden_loop E dir oldname 10"

definition hide_node :: "'t lenv \<Rightarrow> path \<Rightarrow> nat \<Rightarrow> string \<Rightarrow> ('t, int) lm" where
  "hide_node E oldpath dir oldname = bindl (hidden_name E dir oldname) (\<lambda>r. case r of
       None \<Rightarrow> retl (- EBUSY)
     | Some (newname, newpath) \<Rightarrow> bindl (fs_call (fuse_fs_rename (v_fs E) oldpath (Some newpath))) (\<lambda>err.
         if err = 0 then on_nodes (rename_node dir oldname dir newname True) else retl err))"

text \<open>The object itself is locked for writing.\<close>

definition on_path_wr :: "'t lenv \<Rightarrow> nat \<Rightarrow> nat \<Rightarrow> string \<Rightarrow> (path \<Rightarrow> ('t, int) lm) \<Rightarrow> ('t, int) lm" where
  "on_path_wr E a dir nm body = bindl (get_path_common dir (Some nm) True) (\<lambda>(err, p, w).
     if err = 0 then bindl (body p) (\<lambda>err. bindl (lib_free_path_wrlock dir w) (\<lambda>_. retl err)) else retl err)"

definition fuse_lib_unlink :: "'t lenv \<Rightarrow> nat \<Rightarrow> ino \<Rightarrow> string \<Rightarrow> ('t, unit) lm" where
  "fuse_lib_unlink E a dir nm = bindl (req_fuse_prepare a) (\<lambda>_.
     bindl (on_path_wr E a (unat dir) nm (\<lambda>p. interruptible E a (
       bindl (asks (\<lambda>l. cf_hard_remove (cfg l))) (\<lambda>hard.
       bindl (if hard then retl False else is_open (unat dir) nm) (\<lambda>hide.
       if hide then hide_node E p (unat dir) nm
       else bindl (fs_call (fuse_fs_unlink (v_fs E) p)) (\<lambda>err.
         if err = 0 then bindl (change_nodes (remove_node (unat dir) nm)) (\<lambda>_. retl 0) else retl err)))))) (lib_reply_err E a))"

definition fuse_lib_rmdir :: "'t lenv \<Rightarrow> nat \<Rightarrow> ino \<Rightarrow> string \<Rightarrow> ('t, unit) lm" where
  "fuse_lib_rmdir E a dir nm = bindl (req_fuse_prepare a) (\<lambda>_.
     bindl (on_path_wr E a (unat dir) nm (\<lambda>p.
       bindl (interruptible E a (fs_call (fuse_fs_rmdir (v_fs E) p))) (\<lambda>err.
       if err = 0 then bindl (change_nodes (remove_node (unat dir) nm)) (\<lambda>_. retl 0) else retl err))) (lib_reply_err E a))"

definition fuse_lib_rename :: "'t lenv \<Rightarrow> nat \<Rightarrow> ino \<Rightarrow> string \<Rightarrow> ino \<Rightarrow> string \<Rightarrow> ('t, unit) lm" where
  "fuse_lib_rename E a olddir oldname newdir newname = bindl (req_fuse_prepare a) (\<lambda>_.
     bindl (get_path2 (unat olddir) (Some oldname) True (unat newdir) (Some newname) True) (\<lambda>(err, (p1, w1), p2, w2).
     bindl (if err = 0 then
         bindl (interruptible E a (
           bindl (asks (\<lambda>l. cf_hard_remove (cfg l))) (\<lambda>hard.
           bindl (if hard then retl False else is_open (unat newdir) newname) (\<lambda>hide.
           bindl (if hide then hide_node E p2 (unat newdir) newname else retl 0) (\<lambda>err.
           if err = 0 then bindl (fs_call (fuse_fs_rename (v_fs E) p1 p2)) (\<lambda>err.
             if err = 0 then on_nodes (rename_node (unat olddir) oldname (unat newdir) newname False) else retl err)
           else retl err))))) (\<lambda>err.
         bindl (lib_free_path2 (unat olddir) (unat newdir) w1 w2) (\<lambda>_. retl err))
       else retl err) (lib_reply_err E a)))"

definition fuse_lib_link :: "'t lenv \<Rightarrow> nat \<Rightarrow> ino \<Rightarrow> ino \<Rightarrow> string \<Rightarrow> ('t, unit) lm" where
  "fuse_lib_link E a ino newparent newname = bindl (req_fuse_prepare a) (\<lambda>_.
     bindl (get_path2 (unat ino) None False (unat newparent) (Some newname) False) (\<lambda>(err, (p1, _), p2, _).
     bindl (if err = 0 then
         bindl (interruptible E a (bindl (fs_call (fuse_fs_link (v_fs E) p1 p2)) (looking_up E (unat newparent) newname p2))) (\<lambda>res.
         bindl (lib_free_path2 (unat ino) (unat newparent) None None) (\<lambda>_. retl res))
       else retl (err_entry err)) (\<lambda>(err, e). reply_entry E a e err)))"

section \<open>Open files\<close>

definition compat_path :: "path \<Rightarrow> ('t, path) lm" where
  "compat_path p = asks (\<lambda>l. if p \<noteq> None \<or> nullpath_ok l \<or> cf_nopath (cfg l) then p else Some ''-'')"

definition close_node :: "nat \<Rightarrow> fuse \<Rightarrow> (bool \<times> fuse) c" where
  "close_node n f = bindc (the_node f n) (\<lambda>d. bindc (getn f d) (\<lambda>x.
     if open_count x \<le> 0 then Inl Aborted
     else let last = (is_hidden x \<and> open_count x = 1) in
       bindc (modn d (\<lambda>x. x\<lparr>open_count := open_count x - 1, is_hidden := (is_hidden x \<and> \<not> last)\<rparr>) f) (\<lambda>f. Inr (last, f))))"

definition fuse_do_release :: "'t lenv \<Rightarrow> nat \<Rightarrow> path \<Rightarrow> fuse_file_info \<Rightarrow> ('t, unit) lm" where
  "fuse_do_release E n p fi =
     bindl (compat_path p) (\<lambda>q. bindl (fs_call (fuse_fs_release (v_fs E) q fi)) (\<lambda>_.
     bindl (on_nodes (close_node n)) (\<lambda>unlink_hidden.
     if \<not> unlink_hidden then retl ()
     else if p \<noteq> None then finishing (fs_call (fuse_fs_unlink (v_fs E) p))
     else bindl (asks (\<lambda>l. cf_nopath (cfg l))) (\<lambda>nopath.
       if nopath then bindl (lib_get_path n) (\<lambda>(err, q).
         bindl (if err = 0 then finishing (fs_call (fuse_fs_unlink (v_fs E) q)) else retl ()) (\<lambda>_. lib_free_path n q))
       else retl ()))))"

definition open_node :: "nat \<Rightarrow> fuse \<Rightarrow> fuse c" where
  "open_node n f = bindc (the_node f n) (\<lambda>d. bindc (getn f d) (\<lambda>x.
     if open_count x = int_max then Inl SignedOverflow else modn d (\<lambda>x. x\<lparr>open_count := open_count x + 1\<rparr>) f))"

definition set_fi :: "fuse_config \<Rightarrow> fuse_file_info \<Rightarrow> fuse_file_info" where
  "set_fi cf fi = fi\<lparr>direct_io := (direct_io fi \<or> cf_direct_io cf), keep_cache := (keep_cache fi \<or> cf_kernel_cache cf)\<rparr>"

definition create_file :: "'t lenv \<Rightarrow> nat \<Rightarrow> string \<Rightarrow> nat \<Rightarrow> path \<Rightarrow> fuse_file_info \<Rightarrow> ('t, int \<times> fuse_entry_param \<times> fuse_file_info) lm" where
  "create_file E dir nm mode p fi =
     bindl (fs_call (fuse_fs_create (v_fs E) p mode fi)) (\<lambda>(err, fi).
     if err \<noteq> 0 then retl (err, e0, fi)
     else bindl (lookup_path E dir (Some nm) p (Some fi)) (\<lambda>(err, e, fi').
       let fi = (case fi' of Some x \<Rightarrow> x | None \<Rightarrow> fi) in
       if err \<noteq> 0 then bindl (fs_call (fuse_fs_release (v_fs E) p fi)) (\<lambda>_. retl (err, e, fi))
       else if \<not> S_ISREG (st_mode (e_attr e)) then
         bindl (fs_call (fuse_fs_release (v_fs E) p fi)) (\<lambda>(_, fi). bindl (lib_forget_node (unat (e_ino e)) 1) (\<lambda>_. retl (- EIO, e, fi)))
       else bindl (asks cfg) (\<lambda>cf. retl (0, e, set_fi cf fi))))"

definition fuse_lib_create :: "'t lenv \<Rightarrow> nat \<Rightarrow> ino \<Rightarrow> string \<Rightarrow> 32 word \<Rightarrow> fuse_file_info \<Rightarrow> ('t, unit) lm" where
  "fuse_lib_create E a dir nm mode fi = bindl (req_fuse_prepare a) (\<lambda>_.
     bindl (lib_get_path_name (unat dir) (Some nm)) (\<lambda>(err, p).
     bindl (if err = 0 then interruptible E a (create_file E (unat dir) nm (unat mode) p fi) else retl (err, e0, fi)) (\<lambda>(err, e, fi).
     bindl (if err = 0 then
         bindl (change_nodes (open_node (unat (e_ino e)))) (\<lambda>_.
         bindl (fuse_reply_create (h_send (v_host E)) a e fi) (\<lambda>res.
         if res = - ENOENT then bindl (fuse_do_release E (unat (e_ino e)) p fi) (\<lambda>_. lib_forget_node (unat (e_ino e)) 1) else retl ()))
       else lib_reply_err E a err) (\<lambda>_.
     lib_free_path (unat dir) p))))"

end
