(* ===== verification/Fuse_Lib_Io.thy ===== *)
theory Fuse_Lib_Io
  imports Fuse_Lib
begin

text \<open>
  The other request handlers of \<open>src/lib/fuse.c\<close>: open files, directories, extended attributes, locks and the rest, and the table of
  handlers that the path library gives to the low-level library.
\<close>

unbundle bit_operations_syntax

section \<open>Files\<close>

definition diff_timespec :: "timespec \<Rightarrow> timespec \<Rightarrow> rat" where
  "diff_timespec t1 t2 = of_int (tv_sec t1 - tv_sec t2) + of_int (tv_nsec t1 - tv_nsec t2) / 1000000000"

definition node_of :: "nat \<Rightarrow> ('t, nat \<times> node) lm" where
  "node_of n = on_nodes (\<lambda>f. bindc (the_node f n) (\<lambda>d. bindc (getn f d) (\<lambda>x. Inr ((d, x), f))))"

definition refresh_cache :: "'t lenv \<Rightarrow> nat \<Rightarrow> path \<Rightarrow> fuse_file_info \<Rightarrow> ('t, fuse_file_info) lm" where
  "refresh_cache E d p fi = bindl (fs_call (fuse_fs_fgetattr (v_fs E) p stat0 fi)) (\<lambda>(err, st, fi).
     bindl (if err = 0 then update_stat d st else change_nodes (modn d (\<lambda>x. x\<lparr>cache_valid := False\<rparr>))) (\<lambda>_. retl fi))"

definition open_auto_cache :: "'t lenv \<Rightarrow> nat \<Rightarrow> path \<Rightarrow> fuse_file_info \<Rightarrow> ('t, fuse_file_info) lm" where
  "open_auto_cache E n p fi =
     bindl (node_of n) (\<lambda>(d, x).
     bindl (if cache_valid x then
         bindl next_time (\<lambda>now. bindl (asks cfg) (\<lambda>cf.
         if diff_timespec now (stat_updated x) > cf_ac_attr_timeout cf then refresh_cache E d p fi else retl fi))
       else retl fi) (\<lambda>fi.
     bindl (on_nodes (\<lambda>f. bindc (getn f d) (\<lambda>x. bindc (modn d (\<lambda>x. x\<lparr>cache_valid := True\<rparr>) f) (\<lambda>f. Inr (cache_valid x, f))))) (\<lambda>valid.
     retl (if valid then fi\<lparr>keep_cache := True\<rparr> else fi))))"

definition open_file :: "'t lenv \<Rightarrow> nat \<Rightarrow> path \<Rightarrow> fuse_file_info \<Rightarrow> ('t, int \<times> fuse_file_info) lm" where
  "open_file E n p fi = bindl (fs_call (fuse_fs_open (v_fs E) p fi)) (\<lambda>(err, fi).
     if err \<noteq> 0 then retl (err, fi)
     else bindl (asks cfg) (\<lambda>cf. let fi = set_fi cf fi in
       bindl (if cf_auto_cache cf then open_auto_cache E n p fi else retl fi) (\<lambda>fi. retl (0, fi))))"

definition fuse_lib_open :: "'t lenv \<Rightarrow> nat \<Rightarrow> ino \<Rightarrow> fuse_file_info \<Rightarrow> ('t, unit) lm" where
  "fuse_lib_open E a ino fi = bindl (req_fuse_prepare a) (\<lambda>_.
     bindl (lib_get_path (unat ino)) (\<lambda>(err, p).
     bindl (if err = 0 then interruptible E a (open_file E (unat ino) p fi) else retl (err, fi)) (\<lambda>(err, fi).
     bindl (if err = 0 then
         bindl (change_nodes (open_node (unat ino))) (\<lambda>_.
         bindl (fuse_reply_open (h_send (v_host E)) a fi) (\<lambda>res.
         if res = - ENOENT then fuse_do_release E (unat ino) p fi else retl ()))
       else lib_reply_err E a err) (\<lambda>_.
     lib_free_path (unat ino) p))))"

definition fuse_lib_read :: "'t lenv \<Rightarrow> nat \<Rightarrow> ino \<Rightarrow> 32 word \<Rightarrow> 64 word \<Rightarrow> fuse_file_info \<Rightarrow> ('t, unit) lm" where
  "fuse_lib_read E a ino sz offs fi = bindl (req_fuse_prepare a) (\<lambda>_.
     bindl (with_path E a (unat ino) (lib_get_path_nullok (unat ino)) (\<lambda>err. (err, None)) (\<lambda>p.
       bindl (fs_call (fuse_fs_read_buf (v_fs E) p None (unat sz) (sint offs) fi)) (\<lambda>(res, buf, _). retl (res, buf)))) (\<lambda>(res, buf).
     bindl (if res = 0 then (case buf of
           None \<Rightarrow> (\<lambda>L. Inl NullDeref)
         | Some (_, v) \<Rightarrow> finishing (fuse_reply_data (v_kernel E) (h_send (v_host E)) (v_tmp E) (v_align E) a v))
       else lib_reply_err E a res) (\<lambda>_. ctx_call (fuse_free_buf buf))))"

definition fuse_lib_write_buf :: "'t lenv \<Rightarrow> nat \<Rightarrow> ino \<Rightarrow> fuse_bufvec \<Rightarrow> 64 word \<Rightarrow> fuse_file_info \<Rightarrow> ('t, unit) lm" where
  "fuse_lib_write_buf E a ino buf offs fi = bindl (req_fuse_prepare a) (\<lambda>_.
     bindl (with_path E a (unat ino) (lib_get_path_nullok (unat ino)) (\<lambda>err. err) (\<lambda>p.
       fst_of (fs_call (fuse_fs_write_buf (v_kernel E) (v_tmp E) (v_fs E) p buf (sint offs) fi)))) (\<lambda>res.
     if res \<ge> 0 then finishing (fuse_reply_write (h_send (v_host E)) a (nat res)) else lib_reply_err E a res))"

definition fuse_lib_fsync :: "'t lenv \<Rightarrow> nat \<Rightarrow> ino \<Rightarrow> bool \<Rightarrow> fuse_file_info \<Rightarrow> ('t, unit) lm" where
  "fuse_lib_fsync E a ino datasync fi = bindl (req_fuse_prepare a) (\<lambda>_.
     bindl (with_path E a (unat ino) (lib_get_path_nullok (unat ino)) (\<lambda>err. err) (\<lambda>p.
       fst_of (fs_call (fuse_fs_fsync (v_fs E) p (if datasync then 1 else 0) fi)))) (lib_reply_err E a))"

section \<open>Directories\<close>

definition get_dirhandle :: "fuse_file_info \<Rightarrow> ('t, nat \<times> fuse_dh \<times> fuse_file_info) lm" where
  "get_dirhandle llfi = (\<lambda>L. let d = unat (fh llfi) in case dhs (lib_of L) d of
       None \<Rightarrow> Inl Dangling
     | Some dh \<Rightarrow> Inr ((d, dh, fi_fh (dh_fh dh)), L))"

definition put_dh :: "nat \<Rightarrow> fuse_dh option \<Rightarrow> ('t, unit) lm" where
  "put_dh d dh = (\<lambda>L. Inr ((), set_lib (\<lambda>l. l\<lparr>dhs := (dhs l)(d := dh)\<rparr>) L))"

definition new_dh :: "nat \<Rightarrow> fuse_dh" where
  "new_dh n = \<lparr>dh_contents = [], dh_len = 0, dh_needlen = 0, dh_filled = False, dh_fh = 0, dh_error = 0, dh_nodeid = n\<rparr>"

definition free_dh :: "nat \<Rightarrow> ('t, unit) lm" where
  "free_dh d = bindl (put_dh d None) (\<lambda>_. ctx_call (free_block d))"

definition fuse_lib_opendir :: "'t lenv \<Rightarrow> nat \<Rightarrow> ino \<Rightarrow> fuse_file_info \<Rightarrow> ('t, unit) lm" where
  "fuse_lib_opendir E a ino llfi = bindl (req_fuse_prepare a) (\<lambda>_. bindl (ctx_call malloc) (\<lambda>d.
     if d = 0 then lib_reply_err E a (- ENOMEM)
     else bindl (put_dh d (Some (new_dh (unat ino)))) (\<lambda>_.
       bindl (lib_get_path (unat ino)) (\<lambda>(err, p).
       bindl (if err = 0 then
           bindl (interruptible E a (fs_call (fuse_fs_opendir (v_fs E) p (fi0\<lparr>fi_flags := fi_flags llfi\<rparr>)))) (\<lambda>(err, fi).
           bindl (put_dh d (Some ((new_dh (unat ino))\<lparr>dh_fh := fh fi\<rparr>))) (\<lambda>_. retl (err, fi)))
         else retl (err, fi0)) (\<lambda>(err, fi).
       bindl (if err = 0 then
           bindl (fuse_reply_open (h_send (v_host E)) a (llfi\<lparr>fh := word_of_nat d\<rparr>)) (\<lambda>res.
           if res = - ENOENT then bindl (fs_call (fuse_fs_releasedir (v_fs E) p fi)) (\<lambda>_. free_dh d) else retl ())
         else bindl (lib_reply_err E a err) (\<lambda>_. free_dh d)) (\<lambda>_.
       lib_free_path (unat ino) p))))))"

text \<open>The bytes that \<open>realloc\<close> adds are not initialised; here they are zero.\<close>

definition extend_contents :: "fuse_dh \<Rightarrow> nat \<Rightarrow> fuse \<Rightarrow> (int \<times> fuse_dh \<times> fuse) c" where
  "extend_contents dh minsize f =
     (let n = length (dh_contents dh); minsize = minsize mod 2 ^ 32 in
      if minsize > n then
        bindc (grow_buf 40 minsize (if n = 0 then 1024 else n)) (\<lambda>m.
        let (ok, f) = coin f in
        if ok then Inr (0, dh\<lparr>dh_contents := dh_contents dh @ replicate (m - n) 0\<rparr>, f) else Inr (- 1, dh\<lparr>dh_error := - ENOMEM\<rparr>, f))
      else Inr (0, dh, f))"

definition dirent_ino :: "fuse_config \<Rightarrow> nat \<Rightarrow> string \<Rightarrow> stat option \<Rightarrow> fuse \<Rightarrow> stat c" where
  "dirent_ino cf n nm st f =
     (let s = (case st of Some s \<Rightarrow> s | None \<Rightarrow> stat0\<lparr>st_ino := FUSE_UNKNOWN_INO\<rparr>) in
      if cf_use_ino cf then Inr s
      else if cf_readdir_ino cf then bindc (node_by_name f n nm) (\<lambda>r. case r of
          None \<Rightarrow> Inr (s\<lparr>st_ino := FUSE_UNKNOWN_INO\<rparr>)
        | Some d \<Rightarrow> bindc (getn f d) (\<lambda>x. Inr (s\<lparr>st_ino := nodeid x\<rparr>)))
      else Inr (s\<lparr>st_ino := FUSE_UNKNOWN_INO\<rparr>))"

definition put_dirent :: "fuse_dh \<Rightarrow> nat \<Rightarrow> string \<Rightarrow> stat \<Rightarrow> 64 word \<Rightarrow> (nat \<times> fuse_dh) c" where
  "put_dirent dh room nm st offs = bindc (fuse_add_direntry (Some (drop (dh_len dh) (dh_contents dh))) room nm st offs) (\<lambda>(n, b).
     Inr (n, dh\<lparr>dh_contents := take (dh_len dh) (dh_contents dh) @ (case b of Some b \<Rightarrow> b | None \<Rightarrow> [])\<rparr>))"

text \<open>With an offset the entries go up to the size asked for; without, all entries are kept and the offsets are counted here.\<close>

definition add_entry :: "fuse_dh \<Rightarrow> string \<Rightarrow> stat \<Rightarrow> int \<Rightarrow> fuse \<Rightarrow> (int \<times> fuse_dh \<times> fuse) c" where
  "add_entry dh nm st offs f =
     (if offs \<noteq> 0 then
        bindc (extend_contents dh (dh_needlen dh) f) (\<lambda>(res, dh, f).
        if res = - 1 then Inr (1, dh, f)
        else bindc (put_dirent (dh\<lparr>dh_filled := False\<rparr>) (nat ((int (dh_needlen dh) - int (dh_len dh)) mod 2 ^ 32)) nm st (u64 offs)) (\<lambda>(n, dh).
          if dh_len dh + n > dh_needlen dh then Inr (1, dh, f) else Inr (0, dh\<lparr>dh_len := (dh_len dh + n) mod 2 ^ 32\<rparr>, f)))
      else
        bindc (fuse_add_direntry None 0 nm stat0 0) (\<lambda>(n, _).
        let newlen = dh_len dh + n in
        bindc (extend_contents dh newlen f) (\<lambda>(res, dh, f).
        if res = - 1 then Inr (1, dh, f)
        else bindc (put_dirent dh (nat ((int (length (dh_contents dh)) - int (dh_len dh)) mod 2 ^ 32)) nm st (word_of_nat newlen)) (\<lambda>(_, dh).
          Inr (0, dh\<lparr>dh_len := newlen mod 2 ^ 32\<rparr>, f)))))"

text \<open>\<open>fill_dir\<close> is called by the filesystem, in whose state the library's is.\<close>

definition fill_dir :: "nat \<Rightarrow> 't lib fuse_fill_dir_t" where
  "fill_dir d nm st offs = (\<lambda>c. let l = os_state (wrld c) in case dhs l d of
       None \<Rightarrow> Inl Dangling
     | Some dh \<Rightarrow> bindc (dirent_ino (cfg l) (dh_nodeid dh) nm st (nds l)) (\<lambda>s. bindc (add_entry dh nm s offs (nds l)) (\<lambda>(res, dh, f).
         Inr (res, c\<lparr>wrld := (wrld c)\<lparr>os_state := l\<lparr>dhs := (dhs l)(d \<mapsto> dh), nds := f\<rparr>\<rparr>\<rparr>))))"

definition after_fill :: "nat \<Rightarrow> int \<Rightarrow> ('t, int) lm" where
  "after_fill d err = (\<lambda>L. case dhs (lib_of L) d of
       None \<Rightarrow> Inl Dangling
     | Some dh \<Rightarrow> let err = (if err = 0 then dh_error dh else err) in
         Inr (err, set_lib (\<lambda>l. l\<lparr>dhs := (dhs l)(d \<mapsto> (if err = 0 then dh else dh\<lparr>dh_filled := False\<rparr>))\<rparr>) L))"

definition readdir_fill :: "'t lenv \<Rightarrow> nat \<Rightarrow> nat \<Rightarrow> nat \<Rightarrow> int \<Rightarrow> nat \<Rightarrow> fuse_dh \<Rightarrow> fuse_file_info \<Rightarrow> ('t, int) lm" where
  "readdir_fill E a n sz offs d dh fi =
     bindl (fs_has (\<lambda>ops. op_readdir ops \<noteq> None) E) (\<lambda>nullok.
     bindl (if nullok then lib_get_path_nullok n else lib_get_path n) (\<lambda>(err, p).
     if err \<noteq> 0 then retl err
     else
       bindl (put_dh d (Some (dh\<lparr>dh_len := 0, dh_error := 0, dh_needlen := sz mod 2 ^ 32, dh_filled := True\<rparr>))) (\<lambda>_.
       bindl (interruptible E a (fst_of (fs_call (fuse_fs_readdir (v_fs E) p (fill_dir d) offs fi)))) (\<lambda>err.
       bindl (after_fill d err) (\<lambda>err. bindl (lib_free_path n p) (\<lambda>_. retl err))))))"

text \<open>The part of the contents to be sent; \<open>off < dh->len\<close> compares as \<open>off_t\<close>, \<open>off + size\<close> as \<open>size_t\<close>.\<close>

definition dir_slice :: "fuse_dh \<Rightarrow> nat \<Rightarrow> int \<Rightarrow> byte list c" where
  "dir_slice dh sz offs =
     (if dh_filled dh then
        if offs < int (dh_len dh) then
          let sz = (if nat ((offs + int sz) mod 2 ^ 64) > dh_len dh then nat ((int (dh_len dh) - offs) mod 2 ^ 64) else sz) in
          if offs < 0 \<or> nat offs + sz > length (dh_contents dh) then Inl PastEnd else Inr (take sz (drop (nat offs) (dh_contents dh)))
        else Inr []
      else if dh_len dh > length (dh_contents dh) then Inl PastEnd else Inr (take (dh_len dh) (dh_contents dh)))"

definition fuse_lib_readdir :: "'t lenv \<Rightarrow> nat \<Rightarrow> ino \<Rightarrow> 32 word \<Rightarrow> 64 word \<Rightarrow> fuse_file_info \<Rightarrow> ('t, unit) lm" where
  "fuse_lib_readdir E a ino sz offs llfi = bindl (req_fuse_prepare a) (\<lambda>_. bindl (get_dirhandle llfi) (\<lambda>(d, dh, fi).
     let dh = (if offs = 0 then dh\<lparr>dh_filled := False\<rparr> else dh) in
     bindl (put_dh d (Some dh)) (\<lambda>_.
     bindl (if dh_filled dh then retl 0 else readdir_fill E a (unat ino) (unat sz) (sint offs) d dh fi) (\<lambda>err.
     if err \<noteq> 0 then lib_reply_err E a err
     else (\<lambda>L. case dhs (lib_of L) d of
         None \<Rightarrow> Inl Dangling
       | Some dh \<Rightarrow> bindc (dir_slice dh (unat sz) (sint offs)) (\<lambda>bs. finishing (fuse_reply_buf (h_send (v_host E)) a bs) L))))))"

definition fuse_lib_releasedir :: "'t lenv \<Rightarrow> nat \<Rightarrow> ino \<Rightarrow> fuse_file_info \<Rightarrow> ('t, unit) lm" where
  "fuse_lib_releasedir E a ino llfi = bindl (req_fuse_prepare a) (\<lambda>_. bindl (get_dirhandle llfi) (\<lambda>(d, dh, fi).
     bindl (lib_get_path_nullok (unat ino)) (\<lambda>(_, p).
     bindl (compat_path p) (\<lambda>q.
     bindl (interruptible E a (fs_call (fuse_fs_releasedir (v_fs E) q fi))) (\<lambda>_.
     bindl (lib_free_path (unat ino) p) (\<lambda>_. bindl (free_dh d) (\<lambda>_. lib_reply_err E a 0)))))))"

definition fuse_lib_fsyncdir :: "'t lenv \<Rightarrow> nat \<Rightarrow> ino \<Rightarrow> bool \<Rightarrow> fuse_file_info \<Rightarrow> ('t, unit) lm" where
  "fuse_lib_fsyncdir E a ino datasync llfi = bindl (req_fuse_prepare a) (\<lambda>_. bindl (get_dirhandle llfi) (\<lambda>(_, _, fi).
     bindl (with_path E a (unat ino) (lib_get_path_nullok (unat ino)) (\<lambda>err. err) (\<lambda>p.
       fst_of (fs_call (fuse_fs_fsyncdir (v_fs E) p (if datasync then 1 else 0) fi)))) (lib_reply_err E a)))"

definition statfs_path :: "path \<Rightarrow> path" where
  "statfs_path p = (if p = None then Some ''/'' else p)"

definition fuse_lib_statfs :: "'t lenv \<Rightarrow> nat \<Rightarrow> ino \<Rightarrow> ('t, unit) lm" where
  "fuse_lib_statfs E a ino = bindl (req_fuse_prepare a) (\<lambda>_.
     bindl (with_path E a (unat ino) (if ino \<noteq> 0 then lib_get_path (unat ino) else retl (0, None)) (\<lambda>err. (err, statvfs0)) (\<lambda>p.
       fs_call (fuse_fs_statfs (v_junk E) (v_fs E) (statfs_path p) statvfs0))) (\<lambda>(err, buf).
     if err = 0 then finishing (fuse_reply_statfs (h_send (v_host E)) a buf) else lib_reply_err E a err))"

section \<open>Extended attributes\<close>

definition store_at :: "nat \<Rightarrow> byte list \<Rightarrow> ('t, unit) lm" where
  "store_at m bs = (\<lambda>L. Inr ((), L\<lparr>lworld := (lworld L)\<lparr>memory := store m bs (memory (lworld L))\<rparr>\<rparr>))"

text \<open>The value is a part of the message in memory, whose bytes are given; it is put at \<open>v_stack\<close> for the filesystem.\<close>

definition fuse_lib_setxattr :: "'t lenv \<Rightarrow> nat \<Rightarrow> ino \<Rightarrow> string \<Rightarrow> byte list \<Rightarrow> 32 word \<Rightarrow> 32 word \<Rightarrow> ('t, unit) lm" where
  "fuse_lib_setxattr E a ino nm bs sz flags = bindl (req_fuse_prepare a) (\<lambda>_.
     bindl (with_path E a (unat ino) (lib_get_path (unat ino)) (\<lambda>err. err) (\<lambda>p.
       bindl (store_at (v_stack E) bs) (\<lambda>_.
       fs_call (fuse_fs_setxattr (v_fs E) p nm (v_stack E) (unat sz) (sint flags))))) (lib_reply_err E a))"

definition common_getxattr :: "'t lenv \<Rightarrow> nat \<Rightarrow> nat \<Rightarrow> string \<Rightarrow> nat \<Rightarrow> nat \<Rightarrow> ('t, int) lm" where
  "common_getxattr E a n nm m sz = with_path E a n (lib_get_path n) (\<lambda>err. err) (\<lambda>p. fs_call (fuse_fs_getxattr (v_fs E) p nm m sz))"

definition common_listxattr :: "'t lenv \<Rightarrow> nat \<Rightarrow> nat \<Rightarrow> nat \<Rightarrow> nat \<Rightarrow> ('t, int) lm" where
  "common_listxattr E a n m sz = with_path E a n (lib_get_path n) (\<lambda>err. err) (\<lambda>p. fs_call (fuse_fs_listxattr (v_fs E) p m sz))"

text \<open>
  Either the size of the value is asked for or the value itself, in a block of the given size. A result beyond the size of the block
  would send bytes after its end.
\<close>

definition reply_value :: "'t lenv \<Rightarrow> nat \<Rightarrow> nat \<Rightarrow> (nat \<Rightarrow> ('t, int) lm) \<Rightarrow> ('t, unit) lm" where
  "reply_value E a sz get =
     (if sz \<noteq> 0 then
        bindl (ctx_call malloc) (\<lambda>m.
        if m = 0 then lib_reply_err E a (- ENOMEM)
        else bindl (get m) (\<lambda>res.
          bindl (if res > 0 then
              (\<lambda>L. if nat res > sz then Inl PastEnd
                else finishing (fuse_reply_buf (h_send (v_host E)) a (load (memory (lworld L)) m (nat res))) L)
            else lib_reply_err E a res) (\<lambda>_. ctx_call (free_block m))))
      else bindl (get 0) (\<lambda>res. if res \<ge> 0 then finishing (fuse_reply_xattr (h_send (v_host E)) a (nat res)) else lib_reply_err E a res))"

definition fuse_lib_getxattr :: "'t lenv \<Rightarrow> nat \<Rightarrow> ino \<Rightarrow> string \<Rightarrow> 32 word \<Rightarrow> ('t, unit) lm" where
  "fuse_lib_getxattr E a ino nm sz = bindl (req_fuse_prepare a) (\<lambda>_. reply_value E a (unat sz) (\<lambda>m. common_getxattr E a (unat ino) nm m (unat sz)))"

definition fuse_lib_listxattr :: "'t lenv \<Rightarrow> nat \<Rightarrow> ino \<Rightarrow> 32 word \<Rightarrow> ('t, unit) lm" where
  "fuse_lib_listxattr E a ino sz = bindl (req_fuse_prepare a) (\<lambda>_. reply_value E a (unat sz) (\<lambda>m. common_listxattr E a (unat ino) m (unat sz)))"

definition fuse_lib_removexattr :: "'t lenv \<Rightarrow> nat \<Rightarrow> ino \<Rightarrow> string \<Rightarrow> ('t, unit) lm" where
  "fuse_lib_removexattr E a ino nm = bindl (req_fuse_prepare a) (\<lambda>_.
     bindl (with_path E a (unat ino) (lib_get_path (unat ino)) (\<lambda>err. err) (\<lambda>p. fs_call (fuse_fs_removexattr (v_fs E) p nm))) (lib_reply_err E a))"

section \<open>Locks\<close>

text \<open>\<open>struct flock\<close> with its type as a number, which is one of three in all messages of the kernel.\<close>

definition flock_of :: "wire_flock \<Rightarrow> flock c" where
  "flock_of l = (if wl_type l \<in> {0, 1, 2} then
     Inr \<lparr>l_type = (if wl_type l = 0 then F_RDLCK else if wl_type l = 1 then F_WRLCK else F_UNLCK),
       l_start = wl_start l, l_len = wl_len l, l_pid = wl_pid l\<rparr> else Inl WrongType)"

definition wire_of :: "flock \<Rightarrow> wire_flock" where
  "wire_of l = \<lparr>wl_type = (case l_type l of F_RDLCK \<Rightarrow> 0 | F_WRLCK \<Rightarrow> 1 | F_UNLCK \<Rightarrow> 2), wl_start = l_start l, wl_len = l_len l, wl_pid = l_pid l\<rparr>"

definition F_GETLK :: int where "F_GETLK = 5"
definition F_SETLK :: int where "F_SETLK = 6"
definition F_SETLKW :: int where "F_SETLKW = 7"

definition liftc :: "'a c \<Rightarrow> ('t, 'a) lm" where
  "liftc m = (\<lambda>L. bindc m (\<lambda>x. Inr (x, L)))"

text \<open>Memory for the locks can be had if the next coin says so.\<close>

definition insert_lock_of :: "nat \<Rightarrow> flock \<Rightarrow> 64 word \<Rightarrow> ('t, unit) lm" where
  "insert_lock_of n l own = bindl (liftc (flock_to_lock l)) (\<lambda>lk. bindl (node_of n) (\<lambda>(d, x).
     change_nodes (\<lambda>f. let (ok, f) = coin f in bindc (locks_insert ok (locks x) (lk\<lparr>lk_owner := unat own\<rparr>)) (\<lambda>(_, ls). modn d (\<lambda>x. x\<lparr>locks := ls\<rparr>) f))))"

definition unlock0 :: flock where
  "unlock0 = \<lparr>l_type = F_UNLCK, l_start = 0, l_len = 0, l_pid = 0\<rparr>"

definition fuse_flush_common :: "'t lenv \<Rightarrow> nat \<Rightarrow> nat \<Rightarrow> path \<Rightarrow> fuse_file_info \<Rightarrow> ('t, int \<times> fuse_file_info) lm" where
  "fuse_flush_common E a n p fi =
     bindl (interruptible E a (
       bindl (fs_call (fuse_fs_flush (v_fs E) p fi)) (\<lambda>(err, fi).
       bindl (fs_call (fuse_fs_lock (v_fs E) p fi F_SETLK unlock0)) (\<lambda>(errlock, fi, l). retl (err, errlock, fi, l))))) (\<lambda>(err, errlock, fi, l).
     if errlock \<noteq> - ENOSYS then bindl (insert_lock_of n l (lock_owner fi)) (\<lambda>_. retl (if err = - ENOSYS then 0 else err, fi)) else retl (err, fi))"

definition fuse_lib_release :: "'t lenv \<Rightarrow> nat \<Rightarrow> ino \<Rightarrow> fuse_file_info \<Rightarrow> ('t, unit) lm" where
  "fuse_lib_release E a ino fi = bindl (req_fuse_prepare a) (\<lambda>_.
     bindl (lib_get_path_nullok (unat ino)) (\<lambda>(_, p).
     bindl (if fi_flush fi then bindl (fuse_flush_common E a (unat ino) p fi) (\<lambda>(err, fi). retl (if err = - ENOSYS then 0 else err, fi)) else retl (0, fi)) (\<lambda>(err, fi).
     bindl (interruptible E a (fuse_do_release E (unat ino) p fi)) (\<lambda>_.
     bindl (lib_free_path (unat ino) p) (\<lambda>_. lib_reply_err E a err)))))"

definition fuse_lib_flush :: "'t lenv \<Rightarrow> nat \<Rightarrow> ino \<Rightarrow> fuse_file_info \<Rightarrow> ('t, unit) lm" where
  "fuse_lib_flush E a ino fi = bindl (req_fuse_prepare a) (\<lambda>_.
     bindl (lib_get_path_nullok (unat ino)) (\<lambda>(_, p).
     bindl (fuse_flush_common E a (unat ino) p fi) (\<lambda>(err, _).
     bindl (lib_free_path (unat ino) p) (\<lambda>_. lib_reply_err E a err))))"

definition fuse_lock_common :: "'t lenv \<Rightarrow> nat \<Rightarrow> nat \<Rightarrow> fuse_file_info \<Rightarrow> flock \<Rightarrow> int \<Rightarrow> ('t, int \<times> fuse_file_info \<times> flock) lm" where
  "fuse_lock_common E a n fi l cmd = bindl (req_fuse_prepare a) (\<lambda>_.
     with_path E a n (lib_get_path_nullok n) (\<lambda>err. (err, fi, l)) (\<lambda>p. fs_call (fuse_fs_lock (v_fs E) p fi cmd l)))"

definition fuse_lib_getlk :: "'t lenv \<Rightarrow> nat \<Rightarrow> ino \<Rightarrow> fuse_file_info \<Rightarrow> wire_flock \<Rightarrow> ('t, unit) lm" where
  "fuse_lib_getlk E a ino fi wl = bindl (liftc (flock_of wl)) (\<lambda>l. bindl (liftc (flock_to_lock l)) (\<lambda>lk. bindl (node_of (unat ino)) (\<lambda>(d, x).
     bindl (case locks_conflict (locks x) (lk\<lparr>lk_owner := unat (lock_owner fi)\<rparr>) of
         Some conflict \<Rightarrow> retl (0, lock_to_flock conflict)
       | None \<Rightarrow> bindl (fuse_lock_common E a (unat ino) fi l F_GETLK) (\<lambda>(err, _, l). retl (err, l))) (\<lambda>(err, l).
     if err = 0 then finishing (fuse_reply_lock (h_send (v_host E)) a (wire_of l)) else lib_reply_err E a err))))"

definition fuse_lib_setlk :: "'t lenv \<Rightarrow> nat \<Rightarrow> ino \<Rightarrow> fuse_file_info \<Rightarrow> wire_flock \<Rightarrow> bool \<Rightarrow> ('t, unit) lm" where
  "fuse_lib_setlk E a ino fi wl sleep = bindl (liftc (flock_of wl)) (\<lambda>l.
     bindl (fuse_lock_common E a (unat ino) fi l (if sleep then F_SETLKW else F_SETLK)) (\<lambda>(err, fi, l).
     bindl (if err = 0 then insert_lock_of (unat ino) l (lock_owner fi) else retl ()) (\<lambda>_. lib_reply_err E a err)))"

definition fuse_lib_flock :: "'t lenv \<Rightarrow> nat \<Rightarrow> ino \<Rightarrow> fuse_file_info \<Rightarrow> int \<Rightarrow> ('t, unit) lm" where
  "fuse_lib_flock E a ino fi lop = bindl (req_fuse_prepare a) (\<lambda>_.
     bindl (with_path E a (unat ino) (lib_get_path_nullok (unat ino)) (\<lambda>err. err) (\<lambda>p. fst_of (fs_call (fuse_fs_flock (v_fs E) p fi lop)))) (lib_reply_err E a))"

section \<open>The rest\<close>

definition fuse_lib_bmap :: "'t lenv \<Rightarrow> nat \<Rightarrow> ino \<Rightarrow> 32 word \<Rightarrow> 64 word \<Rightarrow> ('t, unit) lm" where
  "fuse_lib_bmap E a ino blocksize i = bindl (req_fuse_prepare a) (\<lambda>_.
     bindl (with_path E a (unat ino) (lib_get_path (unat ino)) (\<lambda>err. (err, i)) (\<lambda>p. fs_call (fuse_fs_bmap (v_fs E) p (unat blocksize) i))) (\<lambda>(err, i).
     if err = 0 then finishing (fuse_reply_bmap (h_send (v_host E)) a i) else lib_reply_err E a err))"

definition EPERM :: int where "EPERM = 1"

definition FUSE_IOCTL_UNRESTRICTED :: "32 word" where "FUSE_IOCTL_UNRESTRICTED = 0x2"

text \<open>The data of the message is in memory at \<open>v_stack\<close>, or in the block for the answer if there is one.\<close>

text \<open>The bytes of the request where the filesystem finds them: copied to the output buffer, or in the message itself.\<close>

definition copy_in :: "'t lenv \<Rightarrow> byte list option \<Rightarrow> nat \<Rightarrow> nat \<Rightarrow> nat \<Rightarrow> ('t, unit) lm" where
  "copy_in E ib insz m outsz = (case ib of
       None \<Rightarrow> retl ()
     | Some bs \<Rightarrow> if outsz = 0 then store_at (v_stack E) bs
         else if length bs < insz then (\<lambda>L. Inl PastEnd) else store_at m (take insz bs))"

definition ioctl_body :: "'t lenv \<Rightarrow> nat \<Rightarrow> nat \<Rightarrow> int \<Rightarrow> nat \<Rightarrow> fuse_file_info \<Rightarrow> nat \<Rightarrow> byte list option \<Rightarrow> nat \<Rightarrow> nat \<Rightarrow> nat \<Rightarrow> ('t, unit) lm" where
  "ioctl_body E a n cmd arg fi flags ib insz m outsz =
     (if insz \<noteq> 0 \<and> outsz \<noteq> 0 \<and> insz \<noteq> outsz then (\<lambda>L. Inl Aborted)
      else
        bindl (copy_in E ib insz m outsz) (\<lambda>_.
        bindl (lib_get_path_nullok n) (\<lambda>(err, p).
        if err \<noteq> 0 then lib_reply_err E a err
        else bindl (interruptible E a (fst_of (fs_call (fuse_fs_ioctl (v_fs E) p cmd arg fi flags
               (if outsz \<noteq> 0 then m else if ib = None then 0 else v_stack E))))) (\<lambda>err.
          bindl (lib_free_path n p) (\<lambda>_ L.
          finishing (fuse_reply_ioctl (h_send (v_host E)) a err (if outsz = 0 then [] else load (memory (lworld L)) m outsz)) L)))))"

definition fuse_lib_ioctl :: "'t lenv \<Rightarrow> nat \<Rightarrow> ino \<Rightarrow> 32 word \<Rightarrow> 64 word \<Rightarrow> fuse_file_info \<Rightarrow> 32 word \<Rightarrow> byte list option \<Rightarrow> 32 word \<Rightarrow> 32 word \<Rightarrow> ('t, unit) lm" where
  "fuse_lib_ioctl E a ino cmd arg fi flags ib insz outsz = bindl (req_fuse_prepare a) (\<lambda>_.
     if flags AND FUSE_IOCTL_UNRESTRICTED \<noteq> 0 then lib_reply_err E a (- EPERM)
     else bindl (if outsz \<noteq> 0 then ctx_call malloc else retl 0) (\<lambda>m.
       if outsz \<noteq> 0 \<and> m = 0 then lib_reply_err E a (- ENOMEM)
       else bindl (ioctl_body E a (unat ino) (sint cmd) (unat arg) fi (unat flags) ib (unat insz) m (unat outsz)) (\<lambda>_. ctx_call (free_block m))))"

text \<open>A poll handle is known to the filesystem by its number, \<open>0\<close> if there is none.\<close>

definition fuse_lib_poll :: "'t lenv \<Rightarrow> nat \<Rightarrow> ino \<Rightarrow> fuse_file_info \<Rightarrow> pollhandle option \<Rightarrow> ('t, unit) lm" where
  "fuse_lib_poll E a ino fi ph = bindl (req_fuse_prepare a) (\<lambda>_.
     bindl (with_path E a (unat ino) (lib_get_path_nullok (unat ino)) (\<lambda>err. (err, fi, 0)) (\<lambda>p.
       fs_call (fuse_fs_poll (v_fs E) p fi (case ph of None \<Rightarrow> 0 | Some h \<Rightarrow> unat (ph_kh h)) 0))) (\<lambda>(err, _, revents).
     if err = 0 then finishing (fuse_reply_poll (h_send (v_host E)) a (word_of_nat revents)) else lib_reply_err E a err))"

section \<open>The table\<close>

definition run :: "('t, unit) lm \<Rightarrow> 't lib ll \<Rightarrow> 't lib ll c" where
  "run m L = bindc (m L) (\<lambda>(_, L). Inr L)"

definition fuse_path_ops :: "'t lenv \<Rightarrow> 't lib ll_ops" where
  "fuse_path_ops E = \<lparr>
     lo_init = Some (fuse_lib_init E),
     lo_destroy = Some (fuse_lib_destroy E),
     lo_lookup = Some (\<lambda>a n s. run (fuse_lib_lookup E a n s)),
     lo_forget = Some (\<lambda>a n k. run (fuse_lib_forget E a n k)),
     lo_getattr = Some (\<lambda>a n fi. run (fuse_lib_getattr E a n fi)),
     lo_setattr = Some (\<lambda>a n st v fi. run (fuse_lib_setattr E a n st v fi)),
     lo_readlink = Some (\<lambda>a n. run (fuse_lib_readlink E a n)),
     lo_mknod = Some (\<lambda>a n s m d. run (fuse_lib_mknod E a n s m d)),
     lo_mkdir = Some (\<lambda>a n s m. run (fuse_lib_mkdir E a n s m)),
     lo_unlink = Some (\<lambda>a n s. run (fuse_lib_unlink E a n s)),
     lo_rmdir = Some (\<lambda>a n s. run (fuse_lib_rmdir E a n s)),
     lo_symlink = Some (\<lambda>a l n s. run (fuse_lib_symlink E a l n s)),
     lo_rename = Some (\<lambda>a n s n' s'. run (fuse_lib_rename E a n s n' s')),
     lo_link = Some (\<lambda>a n n' s. run (fuse_lib_link E a n n' s)),
     lo_open = Some (\<lambda>a n fi. run (fuse_lib_open E a n fi)),
     lo_read = Some (\<lambda>a n sz offs fi. run (fuse_lib_read E a n sz offs fi)),
     lo_write = None,
     lo_flush = Some (\<lambda>a n fi. run (fuse_lib_flush E a n fi)),
     lo_release = Some (\<lambda>a n fi. run (fuse_lib_release E a n fi)),
     lo_fsync = Some (\<lambda>a n d fi. run (fuse_lib_fsync E a n d fi)),
     lo_opendir = Some (\<lambda>a n fi. run (fuse_lib_opendir E a n fi)),
     lo_readdir = Some (\<lambda>a n sz offs fi. run (fuse_lib_readdir E a n sz offs fi)),
     lo_releasedir = Some (\<lambda>a n fi. run (fuse_lib_releasedir E a n fi)),
     lo_fsyncdir = Some (\<lambda>a n d fi. run (fuse_lib_fsyncdir E a n d fi)),
     lo_statfs = Some (\<lambda>a n. run (fuse_lib_statfs E a n)),
     lo_setxattr = Some (\<lambda>a n s bs sz fl. run (fuse_lib_setxattr E a n s bs sz fl)),
     lo_getxattr = Some (\<lambda>a n s sz. run (fuse_lib_getxattr E a n s sz)),
     lo_listxattr = Some (\<lambda>a n sz. run (fuse_lib_listxattr E a n sz)),
     lo_removexattr = Some (\<lambda>a n s. run (fuse_lib_removexattr E a n s)),
     lo_access = Some (\<lambda>a n m. run (fuse_lib_access E a n m)),
     lo_create = Some (\<lambda>a n s m fi. run (fuse_lib_create E a n s m fi)),
     lo_getlk = Some (\<lambda>a n fi l. run (fuse_lib_getlk E a n fi l)),
     lo_setlk = Some (\<lambda>a n fi l sl. run (fuse_lib_setlk E a n fi l sl)),
     lo_bmap = Some (\<lambda>a n b i. run (fuse_lib_bmap E a n b i)),
     lo_ioctl = Some (\<lambda>a n c x fi fl ib i j. run (fuse_lib_ioctl E a n c x fi fl ib i j)),
     lo_poll = Some (\<lambda>a n fi ph. run (fuse_lib_poll E a n fi ph)),
     lo_write_buf = Some (\<lambda>a n b offs fi. run (fuse_lib_write_buf E a n b offs fi)),
     lo_retrieve_reply = None,
     lo_forget_multi = Some (\<lambda>a cnt bs. run (fuse_lib_forget_multi E a cnt bs)),
     lo_flock = Some (\<lambda>a n fi lop. run (fuse_lib_flock E a n fi lop))\<rparr>"

end
