(* ===== verification/Fuse_Answers.thy ===== *)
theory Fuse_Answers
  imports Fuse_Lib_Io
begin

text \<open>
  Every request is freed once: on every way through a handler of the path library, with every filesystem, that ends without
  undefined behaviour, the request is freed and the low-level library's state is left alone otherwise. The proof is
  a small logic of two judgements: a part of a handler leaves the request open, or it frees it. What is sent is the subject of \<open>Fuse_Messages\<close>.
\<close>

section \<open>The two judgements\<close>

definition same_caller :: "(fuse_req \<Rightarrow> fuse_req) \<Rightarrow> bool" where
  "same_caller g \<longleftrightarrow> (\<forall>r. fuse_req.ctr (g r) = fuse_req.ctr r \<and> unique (g r) = unique r \<and> rch (g r) = rch r)"

definition still :: "nat \<Rightarrow> 's ll \<Rightarrow> 's ll \<Rightarrow> bool" where
  "still a L L' \<longleftrightarrow> (\<exists>g w. same_caller g \<and> L' = L\<lparr>reqs := (reqs L)(a := map_option g (reqs L a)), lworld := w\<rparr>)"

definition leaves :: "nat \<Rightarrow> ('t, 'a) lm \<Rightarrow> bool" where
  "leaves a m \<longleftrightarrow> (\<forall>L. okc (\<lambda>(_, L'). still a L L') (m L))"

definition answers :: "nat \<Rightarrow> ('t, 'a) lm \<Rightarrow> bool" where
  "answers a m \<longleftrightarrow> (\<forall>L r. reqs L a = Some r \<longrightarrow> fuse_req.ctr r = 1 \<longrightarrow> okc (\<lambda>(_, L'). \<exists>w. L' = freed a (L\<lparr>lworld := w\<rparr>)) (m L))"

lemma still_refl [simp]: "still a L L"
  by (auto simp: still_def same_caller_def option.map_id intro!: exI [of _ id] exI [of _ "lworld L"])

lemma still_world [simp]: "still a L (L\<lparr>lworld := w\<rparr>)"
  by (auto simp: still_def same_caller_def option.map_id intro!: exI [of _ id] exI [of _ w])

lemma still_trans:
  assumes "still a L K" "still a K M"
  shows "still a L M"
proof -
  obtain g w where g: "same_caller g" "K = L\<lparr>reqs := (reqs L)(a := map_option g (reqs L a)), lworld := w\<rparr>" using assms(1) by (auto simp: still_def)
  obtain h v where h: "same_caller h" "M = K\<lparr>reqs := (reqs K)(a := map_option h (reqs K a)), lworld := v\<rparr>" using assms(2) by (auto simp: still_def)
  show ?thesis unfolding still_def by (rule exI [of _ "h \<circ> g"], rule exI [of _ v]) (use g h in \<open>simp add: option.map_comp same_caller_def\<close>)
qed

lemma still_open: "still a L K \<Longrightarrow> reqs L a = Some r \<Longrightarrow> \<exists>q. reqs K a = Some q \<and> fuse_req.ctr q = fuse_req.ctr r \<and> unique q = unique r \<and> rch q = rch r"
  by (auto simp: still_def same_caller_def)

lemma still_freed: "still a L K \<Longrightarrow> freed a (K\<lparr>lworld := w\<rparr>) = freed a (L\<lparr>lworld := w\<rparr>)"
  by (auto simp: still_def freed_def list_del_req_def)

lemma freed_still: "still a (freed a (L\<lparr>lworld := w\<rparr>)) K \<Longrightarrow> \<exists>v. K = freed a (L\<lparr>lworld := v\<rparr>)"
  unfolding still_def by (elim exE conjE) (rule exI, cases L, simp add: freed_def list_del_req_def)

section \<open>Rules\<close>

named_theorems lv
named_theorems ans

lemma leavesI: "(\<And>L x K. m L = Inr (x, K) \<Longrightarrow> still a L K) \<Longrightarrow> leaves a m"
  by (auto simp: leaves_def okc_iff)

lemma leavesD: "leaves a m \<Longrightarrow> m L = Inr (x, K) \<Longrightarrow> still a L K"
  by (auto simp: leaves_def okc_iff)

lemma leaves_bindl [lv]: "leaves a m \<Longrightarrow> (\<And>x. leaves a (f x)) \<Longrightarrow> leaves a (bindl m f)"
  by (rule leavesI) (auto simp: bindc_eq_Inr dest!: leavesD intro: still_trans)

lemma leaves_retl [lv]: "leaves a (retl x)"
  by (rule leavesI) auto

lemma leaves_asks [lv]: "leaves a (asks g)"
  by (rule leavesI) (auto simp: asks_def)

lemma leaves_stuck [lv]: "leaves a (\<lambda>L. Inl e)"
  by (rule leavesI) auto

lemma leaves_if [lv]: "(b \<Longrightarrow> leaves a m) \<Longrightarrow> (\<not> b \<Longrightarrow> leaves a n) \<Longrightarrow> leaves a (if b then m else n)"
  by simp

lemma leaves_prod [lv]: "(\<And>x y. p = (x, y) \<Longrightarrow> leaves a (f x y)) \<Longrightarrow> leaves a (case p of (x, y) \<Rightarrow> f x y)"
  by (cases p) simp

lemma leaves_option [lv]: "(p = None \<Longrightarrow> leaves a m) \<Longrightarrow> (\<And>x. p = Some x \<Longrightarrow> leaves a (f x)) \<Longrightarrow> leaves a (case p of None \<Rightarrow> m | Some x \<Rightarrow> f x)"
  by (cases p) auto

lemma still_set_lib [simp]: "still a L (set_lib g L)"
  by (simp add: set_lib_def)

lemma leaves_on_nodes [lv]: "leaves a (on_nodes g)"
  by (rule leavesI) (auto simp: on_nodes_def bindc_eq_Inr)

lemma leaves_change_nodes [lv]: "leaves a (change_nodes g)"
  unfolding change_nodes_def by (rule leaves_on_nodes)

lemma leaves_ctx_call [lv]: "leaves a (ctx_call m)"
  by (rule leavesI) (auto simp: ctx_call_def bindc_eq_Inr)

lemma leaves_fs_call [lv]: "leaves a (fs_call m)"
  by (rule leavesI) (auto simp: fs_call_def dest: leavesD [OF leaves_ctx_call] split: if_splits)

lemma leaves_liftc [lv]: "leaves a (liftc m)"
  by (rule leavesI) (auto simp: liftc_def bindc_eq_Inr)

lemma leaves_next_time [lv]: "leaves a next_time"
  by (rule leavesI) (auto simp: next_time_def split: list.splits)

lemma leaves_next_page [lv]: "leaves a next_page"
  by (rule leavesI) (auto simp: next_page_def split: list.splits)

lemma leaves_prepare [lv]: "leaves a (req_fuse_prepare b)"
  by (rule leavesI) (auto simp: req_fuse_prepare_def bindc_eq_Inr)

lemma leaves_store_at [lv]: "leaves a (store_at m bs)"
  by (rule leavesI) (auto simp: store_at_def)

lemma leaves_put_dh [lv]: "leaves a (put_dh d dh)"
  by (rule leavesI) (auto simp: put_dh_def)

lemma leaves_get_dirhandle [lv]: "leaves a (get_dirhandle fi)"
  by (rule leavesI) (auto simp: get_dirhandle_def Let_def split: option.splits)

lemma leaves_after_fill [lv]: "leaves a (after_fill d err)"
  by (rule leavesI) (auto simp: after_fill_def Let_def split: option.splits)

lemma still_mod_req: "mod_req a g L = Inr K \<Longrightarrow> same_caller g \<Longrightarrow> still a L K"
  by (auto simp: mod_req_def the_req_def still_def split: option.splits intro!: exI [of _ g] exI [of _ "lworld L"])

lemma interrupt_func_still:
  "fuse_req_interrupt_func (H\<lparr>h_intr := fuse_interrupt\<rparr>) a fn d L = Inr K \<Longrightarrow> still a L K"
  by (auto simp: fuse_req_interrupt_func_def bindc_eq_Inr fuse_interrupt_def same_caller_def split: option.splits if_splits dest!: still_mod_req)

lemma leaves_interruptible [lv]: "leaves a m \<Longrightarrow> leaves a (interruptible E a m)"
proof -
  have "leaves a (fuse_prepare_interrupt E a)" "leaves a (fuse_finish_interrupt E a)"
    by (rule leavesI, auto simp: fuse_prepare_interrupt_def fuse_finish_interrupt_def bindc_eq_Inr interrupt_func_still split: if_splits)+
  then show "leaves a m \<Longrightarrow> ?thesis" unfolding interruptible_def by (intro lv)
qed

lemma answersI: "(\<And>L r x K. reqs L a = Some r \<Longrightarrow> fuse_req.ctr r = 1 \<Longrightarrow> m L = Inr (x, K) \<Longrightarrow> \<exists>w. K = freed a (L\<lparr>lworld := w\<rparr>)) \<Longrightarrow> answers a m"
  by (auto simp: answers_def okc_iff)

lemma answersD: "answers a m \<Longrightarrow> reqs L a = Some r \<Longrightarrow> fuse_req.ctr r = 1 \<Longrightarrow> m L = Inr (x, K) \<Longrightarrow> \<exists>w. K = freed a (L\<lparr>lworld := w\<rparr>)"
  by (auto simp: answers_def okc_iff)

lemma answers_after [ans]: "leaves a m \<Longrightarrow> (\<And>x. answers a (f x)) \<Longrightarrow> answers a (bindl m f)"
proof (rule answersI)
  fix L r x K
  assume *: "leaves a m" "\<And>x. answers a (f x)" "reqs L a = Some r" "fuse_req.ctr r = 1" "bindl m f L = Inr (x, K)"
  then obtain y M where M: "m L = Inr (y, M)" "f y M = Inr (x, K)" by (auto simp: bindc_eq_Inr)
  have s: "still a L M" using leavesD [OF *(1) M(1)] .
  then obtain q where q: "reqs M a = Some q" "fuse_req.ctr q = 1" using still_open [OF s *(3)] *(4) by auto
  then obtain w where "K = freed a (M\<lparr>lworld := w\<rparr>)" using answersD [OF *(2) q M(2)] by blast
  then show "\<exists>w. K = freed a (L\<lparr>lworld := w\<rparr>)" using still_freed [OF s] by metis
qed

lemma answers_before: "answers a m \<Longrightarrow> (\<And>x. leaves a (f x)) \<Longrightarrow> answers a (bindl m f)"
  by (rule answersI) (auto simp: bindc_eq_Inr dest!: answersD leavesD freed_still)

lemma answers_stuck [ans]: "answers a (\<lambda>L. Inl e)"
  by (rule answersI) auto

lemma answers_if [ans]: "(b \<Longrightarrow> answers a m) \<Longrightarrow> (\<not> b \<Longrightarrow> answers a n) \<Longrightarrow> answers a (if b then m else n)"
  by simp

lemma answers_prod [ans]: "(\<And>x y. p = (x, y) \<Longrightarrow> answers a (f x y)) \<Longrightarrow> answers a (case p of (x, y) \<Rightarrow> f x y)"
  by (cases p) simp

lemma answers_prod_fun [ans]: "(\<And>x y. p = (x, y) \<Longrightarrow> answers a (f x y z)) \<Longrightarrow> answers a ((case p of (x, y) \<Rightarrow> f x y) z)"
  by (cases p) simp

lemma answers_option [ans]: "(p = None \<Longrightarrow> answers a m) \<Longrightarrow> (\<And>x. p = Some x \<Longrightarrow> answers a (f x)) \<Longrightarrow> answers a (case p of None \<Rightarrow> m | Some x \<Rightarrow> f x)"
  by (cases p) auto

lemma answers_finishing [ans]: "answers a m \<Longrightarrow> answers a (finishing m)"
  unfolding finishing_def by (rule answers_before) (auto intro: lv)

lemma answers_state: "(\<And>K. answers a (g K)) \<Longrightarrow> answers a (\<lambda>L. g L L)"
  by (auto simp: answers_def)

section \<open>Replies\<close>

lemma send_msg_world: "fuse_send_msg send ch e u iov L = (res, M) \<Longrightarrow> \<exists>w. M = L\<lparr>lworld := w\<rparr>"
  by (auto simp: fuse_send_msg_def Let_def split: prod.splits)

lemma answers_iov [ans]: "answers a (send_reply_iov send a e iov)"
proof (rule answersI)
  fix L r x K
  assume r: "reqs L a = Some r" "fuse_req.ctr r = 1" "send_reply_iov send a e iov L = Inr (x, K)"
  then obtain res M where M: "fuse_send_reply_iov_nofree send a e iov L = Inr (res, M)" "bindc (fuse_free_req a M) (\<lambda>f. Inr (res, f)) = Inr (x, K)"
    by (auto simp only: send_reply_iov_def bindc_eq_Inr prod.case)
  obtain ch u e' where "fuse_send_msg send ch e' u iov L = (res, M)"
    using M(1) r(1) by (cases "rch r") (auto simp: fuse_send_reply_iov_nofree_def the_req_def Let_def)
  then obtain w where w: "M = L\<lparr>lworld := w\<rparr>" using send_msg_world by blast
  have "fuse_free_req a M = Inr (freed a M)" using free_req_last [of M a r] r(1,2) w by simp
  then show "\<exists>w. K = freed a (L\<lparr>lworld := w\<rparr>)" using M(2) w by auto
qed

lemma answers_as: "(\<And>L. \<exists>n. answers a n \<and> m L = n L) \<Longrightarrow> answers a m"
proof (rule answersI)
  fix L r x K
  assume *: "\<And>L. \<exists>n. answers a n \<and> m L = n L" "reqs L a = Some r" "fuse_req.ctr r = 1" "m L = Inr (x, K)"
  from *(1) [of L] obtain n where n: "answers a n" "m L = n L" by blast
  show "\<exists>w. K = freed a (L\<lparr>lworld := w\<rparr>)" by (rule answersD [OF n(1) *(2,3)]) (use *(4) n(2) in simp)
qed

lemma answers_reply [ans]: "answers a (send_reply send a e arg)"
  by (rule answers_as, intro exI conjI, rule answers_iov) (unfold send_reply_def, rule refl)

lemma answers_ok [ans]: "answers a (send_reply_ok send a arg)"
  by (rule answers_as, intro exI conjI, rule answers_reply) (unfold send_reply_ok_def, rule refl)

lemma answers_error [ans]: "answers a (fuse_reply_err send a err)"
  by (rule answers_as, intro exI conjI, rule answers_reply) (unfold fuse_reply_err_def, rule refl)

lemma answers_ok_as: "(\<And>L. \<exists>arg. m L = send_reply_ok send a arg L) \<Longrightarrow> answers a m"
  by (rule answers_as) (meson answers_ok)

lemma answers_replies [ans]:
  "answers a (fuse_reply_create send a e fi)" "answers a (fuse_reply_attr send a st tm)" "answers a (fuse_reply_readlink send a s)"
  "answers a (fuse_reply_open send a fi)" "answers a (fuse_reply_write send a n)" "answers a (fuse_reply_buf send a b)" "answers a (fuse_reply_statfs send a sv)"
  "answers a (fuse_reply_xattr send a n)" "answers a (fuse_reply_bmap send a i)" "answers a (fuse_reply_poll send a ev)"
  unfolding fuse_reply_create_def fuse_reply_attr_def fuse_reply_readlink_def fuse_reply_open_def fuse_reply_write_def fuse_reply_buf_def
    fuse_reply_statfs_def fuse_reply_xattr_def fuse_reply_bmap_def fuse_reply_poll_def Let_def
  by (rule answers_ok_as, rule exI, rule refl)+

lemma answers_ioctl [ans]: "answers a (fuse_reply_ioctl send a res buf)"
  by (rule answers_as, intro exI conjI, rule answers_iov) (unfold fuse_reply_ioctl_def, rule refl)

lemma answers_entry [ans]: "answers a (fuse_reply_entry send a e)"
proof (rule answers_as)
  fix L
  show "\<exists>n. answers a n \<and> fuse_reply_entry send a e L = n L"
  proof (cases "e_ino e = 0 \<and> minor_of L < 4")
    case True
    then show ?thesis by (intro exI [of _ "fuse_reply_err send a ENOENT"]) (simp add: ans fuse_reply_entry_def)
  next
    case False
    then show ?thesis
      by (intro exI [of _ "send_reply_ok send a (take (if minor_of L < 9 then FUSE_COMPAT_ENTRY_OUT_SIZE else 128) (fill_entry e))"] conjI answers_ok)
        (simp only: fuse_reply_entry_def Let_def if_False)
  qed
qed

lemma answers_lock [ans]: "answers a (fuse_reply_lock send a l)"
  by (rule answersI) (auto simp: fuse_reply_lock_def bindc_eq_Inr dest: answersD [OF answers_ok])

lemma own_world [simp]: "\<exists>w. L = L\<lparr>lworld := w\<rparr>" "\<exists>w. freed a L = freed a (L\<lparr>lworld := w\<rparr>)"
  by (rule exI [of _ "lworld L"], simp)+

lemma answers_none: "answers a (\<lambda>L. bindc (fuse_reply_none send a L) (\<lambda>L. Inr ((), L)))"
  by (rule answersI) (auto simp: fuse_reply_none_def the_req_def bindc_eq_Inr free_req_last split: option.splits)

lemma fallback_still: "copy_and_send K send tmp m ch e u iov buf n L = Inr (res, M) \<Longrightarrow> \<exists>w. M = L\<lparr>lworld := w\<rparr>"
proof (cases m)
  case (Inr p)
  assume "copy_and_send K send tmp m ch e u iov buf n L = Inr (res, M)"
  then obtain k w where "(if k < 0 then Inr (- k, L\<lparr>lworld := w\<rparr>)
      else Inr (fuse_send_msg send ch e u (iov @ [load (memory w) p (nat k)]) (L\<lparr>lworld := w\<rparr>))) = (Inr (res, M) :: (int \<times> _) c)"
    unfolding Inr copy_and_send_def sum.case Let_def bindc_eq_Inr by auto
  then show ?thesis by (auto dest!: send_msg_world split: if_splits)
qed (auto simp: copy_and_send_def)

lemma send_data_still: "fuse_send_data_iov K send tmp m ch e u iov buf L = Inr (res, M) \<Longrightarrow> \<exists>w. M = L\<lparr>lworld := w\<rparr>"
  unfolding fuse_send_data_iov_def fuse_send_data_iov_fallback_def
  by (auto dest: send_msg_world fallback_still split: if_splits)

lemma answers_data [ans]: "answers a (fuse_reply_data K send tmp m a v)"
proof (rule answersI)
  fix L r x M
  assume r: "reqs L a = Some r" "fuse_req.ctr r = 1" "fuse_reply_data K send tmp m a v L = Inr (x, M)"
  then obtain ch res w where d: "rch r = Some ch"
    "(if res \<le> 0 then bindc (fuse_free_req a (L\<lparr>lworld := w\<rparr>)) (\<lambda>f. Inr (res, f)) else fuse_reply_err send a res (L\<lparr>lworld := w\<rparr>)) = Inr (x, M)"
    by (auto simp: fuse_reply_data_def the_req_def bindc_eq_Inr split: option.splits dest!: send_data_still)
  have q: "reqs (L\<lparr>lworld := w\<rparr>) a = Some r" using r(1) by simp
  show "\<exists>w. M = freed a (L\<lparr>lworld := w\<rparr>)"
  proof (cases "res \<le> 0")
    case True
    then show ?thesis using d(2) free_req_last [OF q r(2)] by auto
  next
    case False
    then show ?thesis using d(2) answersD [OF answers_error q r(2)] by auto
  qed
qed

section \<open>Parts of handlers\<close>

lemma leaves_paths [lv]:
  "leaves a (lib_get_path n)" "leaves a (lib_get_path_name n nm)" "leaves a (lib_get_path_nullok n)" "leaves a (get_path_common n nm wr)"
  "leaves a (get_path2 n nm wr n' nm' wr')" "leaves a (lib_free_path n p)" "leaves a (lib_free_path_wrlock n w)" "leaves a (lib_free_path2 n n' w w')"
  unfolding lib_get_path_nullok_def lib_get_path_def lib_get_path_name_def get_path_common_def get_path2_def lib_free_path_def lib_free_path_wrlock_def lib_free_path2_def
  by (intro lv)+

lemma leaves_with_path [lv]: "leaves a get \<Longrightarrow> (\<And>p. leaves a (body p)) \<Longrightarrow> leaves a (with_path E a n get failed body)"
  unfolding with_path_def by (intro lv)

lemma leaves_on_path_wr [lv]: "(\<And>p. leaves a (body p)) \<Longrightarrow> leaves a (on_path_wr E a dir nm body)"
  unfolding on_path_wr_def by (intro lv)

lemma leaves_fst_of [lv]: "leaves a m \<Longrightarrow> leaves a (fst_of m)"
  unfolding fst_of_def by (intro lv)

lemma leaves_finishing [lv]: "leaves a m \<Longrightarrow> leaves a (finishing m)"
  unfolding finishing_def by (intro lv)

lemma leaves_unless_err [lv]: "leaves a m \<Longrightarrow> leaves a (unless_err err b m)"
  unfolding unless_err_def by (intro lv)

lemma leaves_lookups [lv]:
  "leaves a (update_stat nd st)" "leaves a (getattr_fi E p st fi)" "leaves a (lookup_path E n nm p fi)" "leaves a (lib_forget_node n k)"
  "leaves a (lookup_dots n s)" "leaves a (hidden_link n st)" "leaves a (looking_up E n s p err)" "leaves a (mknod_create E n s mode p)"
  unfolding lookup_path_def update_stat_def getattr_fi_def lib_forget_node_def lookup_dots_def hidden_link_def looking_up_def mknod_create_def
  by (intro lv)+

lemma leaves_fs_has [lv]: "leaves a (fs_has g E)"
  by (rule leavesI) (auto simp: fs_has_def split: if_splits)

lemma leaves_attrs [lv]: "leaves a (set_times E p st valid err)" "leaves a (set_size E p sz fi)" "leaves a (set_attrs E p st valid fi)"
  unfolding set_attrs_def set_times_def set_size_def by (intro lv)+

lemma leaves_hidden_loop [lv]: "leaves a (hidden_loop E dir s k)"
  by (induction k) (simp_all only: hidden_loop.simps, (intro lv | assumption)+)

lemma leaves_hiding [lv]: "leaves a (is_open dir s)" "leaves a (hide_node E p dir s)"
  unfolding is_open_def hide_node_def hidden_name_def by (intro lv)+

lemma leaves_files [lv]:
  "leaves a (compat_path p)" "leaves a (fuse_do_release E n p fi)" "leaves a (create_file E dir s mode p fi)" "leaves a (node_of n)"
  "leaves a (refresh_cache E d p fi)" "leaves a (open_auto_cache E n p fi)" "leaves a (open_file E n p fi)"
  unfolding open_file_def open_auto_cache_def refresh_cache_def node_of_def create_file_def fuse_do_release_def compat_path_def Let_def by (intro lv)+

lemma leaves_dirs [lv]: "leaves a (free_dh d)" "leaves a (readdir_fill E a n sz offs d dh fi)"
  unfolding free_dh_def readdir_fill_def by (intro lv)+

lemma leaves_locks [lv]: "leaves a (insert_lock_of n l own)" "leaves a (fuse_flush_common E a n p fi)" "leaves a (fuse_lock_common E a n fi l cmd)"
  unfolding insert_lock_of_def fuse_flush_common_def fuse_lock_common_def by (intro lv)+

lemma leaves_forget_loop [lv]: "leaves a (forget_loop bs i k)"
proof (induction k arbitrary: i)
  case (Suc k)
  note step = leavesD [OF leaves_bindl [OF leaves_lookups(4) Suc]]
  show ?case by (rule leavesI) (auto simp: bindc_eq_Inr simp del: bindl_apply dest: step)
qed (simp add: leaves_retl)

section \<open>Handlers\<close>

lemma answers_err [ans]: "answers a (lib_reply_err E a err)"
  unfolding lib_reply_err_def by (rule answers_before) (intro ans lv)+

lemma answers_entry_or_err [ans]: "answers a (reply_entry E a e err)"
  unfolding reply_entry_def by (intro answers_if answers_err, rule answers_before) (intro ans lv)+

lemma answers_access [ans]: "answers a (fuse_lib_access E a ino m)"
  unfolding fuse_lib_access_def by (intro ans lv)+

lemma answers_getattr [ans]: "answers a (fuse_lib_getattr E a ino fi)"
  unfolding fuse_lib_getattr_def by (intro ans lv)+

lemma answers_setattr [ans]: "answers a (fuse_lib_setattr E a ino st valid fi)"
  unfolding fuse_lib_setattr_def by (intro ans lv)+

lemma answers_lookup [ans]: "answers a (fuse_lib_lookup E a dir s)"
  unfolding fuse_lib_lookup_def by (intro ans lv)+

lemma answers_mknod [ans]: "answers a (fuse_lib_mknod E a dir s mode rdev)"
  unfolding fuse_lib_mknod_def by (intro ans lv)+

lemma answers_mkdir [ans]: "answers a (fuse_lib_mkdir E a dir s mode)"
  unfolding fuse_lib_mkdir_def by (intro ans lv)+

lemma answers_symlink [ans]: "answers a (fuse_lib_symlink E a l dir s)"
  unfolding fuse_lib_symlink_def by (intro ans lv)+

lemma answers_unlink [ans]: "answers a (fuse_lib_unlink E a dir s)"
  unfolding fuse_lib_unlink_def by (intro ans lv)+

lemma answers_rmdir [ans]: "answers a (fuse_lib_rmdir E a dir s)"
  unfolding fuse_lib_rmdir_def by (intro ans lv)+

lemma answers_rename [ans]: "answers a (fuse_lib_rename E a dir s dir' s')"
  unfolding fuse_lib_rename_def by (intro ans lv)+

lemma answers_link [ans]: "answers a (fuse_lib_link E a ino dir s)"
  unfolding fuse_lib_link_def by (intro ans lv)+

lemma answers_write_buf [ans]: "answers a (fuse_lib_write_buf E a ino b offs fi)"
  unfolding fuse_lib_write_buf_def by (intro ans lv)+

lemma answers_fsync [ans]: "answers a (fuse_lib_fsync E a ino ds fi)"
  unfolding fuse_lib_fsync_def by (intro ans lv)+

lemma answers_releasedir [ans]: "answers a (fuse_lib_releasedir E a ino fi)"
  unfolding fuse_lib_releasedir_def by (intro ans lv)+

lemma answers_fsyncdir [ans]: "answers a (fuse_lib_fsyncdir E a ino ds fi)"
  unfolding fuse_lib_fsyncdir_def by (intro ans lv)+

lemma answers_statfs [ans]: "answers a (fuse_lib_statfs E a ino)"
  unfolding fuse_lib_statfs_def by (intro ans lv)+

lemma answers_setxattr [ans]: "answers a (fuse_lib_setxattr E a ino s bs sz fl)"
  unfolding fuse_lib_setxattr_def by (intro ans lv)+

lemma answers_removexattr [ans]: "answers a (fuse_lib_removexattr E a ino s)"
  unfolding fuse_lib_removexattr_def by (intro ans lv)+

lemma answers_release [ans]: "answers a (fuse_lib_release E a ino fi)"
  unfolding fuse_lib_release_def by (intro ans lv)+

lemma answers_flush [ans]: "answers a (fuse_lib_flush E a ino fi)"
  unfolding fuse_lib_flush_def by (intro ans lv)+

lemma answers_getlk [ans]: "answers a (fuse_lib_getlk E a ino fi l)"
  unfolding fuse_lib_getlk_def by (intro ans lv)+

lemma answers_setlk [ans]: "answers a (fuse_lib_setlk E a ino fi l sl)"
  unfolding fuse_lib_setlk_def by (intro ans lv)+

lemma answers_flock [ans]: "answers a (fuse_lib_flock E a ino fi lop)"
  unfolding fuse_lib_flock_def by (intro ans lv)+

lemma answers_bmap [ans]: "answers a (fuse_lib_bmap E a ino b i)"
  unfolding fuse_lib_bmap_def by (intro ans lv)+

lemma answers_poll [ans]: "answers a (fuse_lib_poll E a ino fi ph)"
  unfolding fuse_lib_poll_def by (intro ans lv)+

lemma answers_readlink [ans]: "answers a (fuse_lib_readlink E a ino)"
  unfolding fuse_lib_readlink_def by (intro ans lv) (rule answers_state, intro ans)

lemma answers_forget [ans]: "answers a (fuse_lib_forget E a n k)" "answers a (fuse_lib_forget_multi E a cnt bs)"
  unfolding fuse_lib_forget_def fuse_lib_forget_multi_def by (rule answers_after, intro lv, rule answers_none)+

text \<open>Handlers with work to do after the reply.\<close>

lemma answers_open [ans]: "answers a (fuse_lib_open E a ino fi)"
  unfolding fuse_lib_open_def
  by ((rule answers_after, fast intro: lv) | rule answers_before | intro answers_if answers_prod answers_option answers_err answers_finishing answers_replies answers_data answers_stuck | intro lv)+

lemma answers_create [ans]: "answers a (fuse_lib_create E a dir s mode fi)"
  unfolding fuse_lib_create_def
  by ((rule answers_after, fast intro: lv) | rule answers_before | intro answers_if answers_prod answers_option answers_err answers_finishing answers_replies answers_data answers_stuck | intro lv)+

lemma answers_read [ans]: "answers a (fuse_lib_read E a ino sz offs fi)"
  unfolding fuse_lib_read_def
  by ((rule answers_after, fast intro: lv) | rule answers_before | intro answers_if answers_prod answers_option answers_err answers_finishing answers_replies answers_data answers_stuck | intro lv)+

lemma answers_opendir [ans]: "answers a (fuse_lib_opendir E a ino fi)"
  unfolding fuse_lib_opendir_def
  by ((rule answers_after, fast intro: lv) | rule answers_before | intro answers_if answers_prod answers_option answers_err answers_finishing answers_replies answers_data answers_stuck | intro lv)+

lemma answers_readdir [ans]: "answers a (fuse_lib_readdir E a ino sz offs fi)"
proof -
  have "answers a (\<lambda>L. case dhs (lib_of L) d of None \<Rightarrow> Inl Dangling
      | Some dh \<Rightarrow> bindc (dir_slice dh n k) (\<lambda>bs. finishing (fuse_reply_buf (h_send (v_host E)) a bs) L))" for d n k
    by (rule answersI) (auto simp: bindc_eq_Inr split: option.splits dest: answersD [OF answers_finishing [OF answers_replies(6)]])
  then show ?thesis unfolding fuse_lib_readdir_def Let_def by (intro ans lv)
qed

lemma answers_value [ans]: "(\<And>m. leaves a (get m)) \<Longrightarrow> answers a (reply_value E a sz get)"
proof -
  assume get: "\<And>m. leaves a (get m)"
  have part: "answers a (\<lambda>L. if nat res > sz then Inl PastEnd
      else finishing (fuse_reply_buf (h_send (v_host E)) a (load (memory (lworld L)) m (nat res))) L)" for m res
    by (rule answersI) (auto split: if_splits dest: answersD [OF answers_finishing [OF answers_replies(6)]])
  show ?thesis unfolding reply_value_def
    by ((rule answers_after, fast intro: lv get) | rule answers_before | intro part answers_if answers_err answers_finishing answers_replies | intro lv)+
qed

lemma answers_xattrs [ans]: "answers a (fuse_lib_getxattr E a ino s sz)" "answers a (fuse_lib_listxattr E a ino sz)"
  unfolding fuse_lib_getxattr_def fuse_lib_listxattr_def common_getxattr_def common_listxattr_def by (intro ans lv)+

lemma leaves_copy_in [lv]: "leaves a (copy_in E ib insz m outsz)"
  unfolding copy_in_def by (intro lv)+

lemma answers_ioctl_body: "answers a (ioctl_body E a n cmd arg fi fl ib insz m outsz)"
proof -
  have "answers a (\<lambda>L. finishing (fuse_reply_ioctl (h_send (v_host E)) a err (if outsz = 0 then [] else load (memory (lworld L)) m outsz)) L)" for err
    by (rule answers_state) (intro ans)
  then show ?thesis unfolding ioctl_body_def by (intro ans lv)
qed

lemma answers_ioctl_request [ans]: "answers a (fuse_lib_ioctl E a ino cmd arg fi fl ib insz outsz)"
  unfolding fuse_lib_ioctl_def
  by ((rule answers_after, fast intro: lv) | rule answers_before | intro answers_if answers_err answers_ioctl_body | intro lv)+

lemma run_answers: "answers a m \<Longrightarrow> reqs L a = Some r \<Longrightarrow> fuse_req.ctr r = 1 \<Longrightarrow> run m L = Inr K \<Longrightarrow> \<exists>w. K = freed a (L\<lparr>lworld := w\<rparr>)"
  by (auto simp: run_def bindc_eq_Inr dest: answersD)

text \<open>The mask of a new file is stored in the request before the operation is called.\<close>

lemma umask_then:
  assumes "answers a m" "reqs L a = Some r" "fuse_req.ctr r = 1" "bindc (set_umask a um L) (run m) = Inr K"
  shows "\<exists>w. K = freed a (L\<lparr>lworld := w\<rparr>)"
proof -
  obtain M where M: "set_umask a um L = Inr M" "run m M = Inr K" using assms(4) by (auto simp: bindc_eq_Inr)
  have s: "still a L M" by (rule still_mod_req [OF M(1) [unfolded set_umask_def]]) (simp add: same_caller_def)
  then obtain q where q: "reqs M a = Some q" "fuse_req.ctr q = 1" using still_open assms(2,3) by fastforce
  show ?thesis using run_answers [OF assms(1) q M(2)] still_freed [OF s] by metis
qed

lemmas handlers_answer = answers_lookup answers_forget answers_getattr answers_setattr answers_access answers_readlink answers_mknod answers_mkdir
  answers_symlink answers_unlink answers_rmdir answers_rename answers_link answers_open answers_create answers_read answers_write_buf answers_fsync
  answers_opendir answers_readdir answers_releasedir answers_fsyncdir answers_statfs answers_setxattr answers_xattrs answers_removexattr
  answers_release answers_flush answers_getlk answers_setlk answers_flock answers_bmap answers_ioctl_request answers_poll

text \<open>The calls of the handlers: those of the requests above, and the few that come in another form.\<close>

definition lib_call :: "'t lenv \<Rightarrow> nat \<Rightarrow> ino \<Rightarrow> ('t lib ll \<Rightarrow> 't lib ll c) \<Rightarrow> bool" where
  "lib_call E a n g \<longleftrightarrow> (\<exists>q. kcall (fuse_path_ops E) a n q = Some g) \<or> (\<exists>buf offs fi. g = run (fuse_lib_write_buf E a n buf offs fi))
     \<or> (\<exists>fi l. g = run (fuse_lib_getlk E a n fi l)) \<or> (\<exists>fi l sleep. g = run (fuse_lib_setlk E a n fi l sleep))
     \<or> (\<exists>fi lop. g = run (fuse_lib_flock E a n fi lop)) \<or> (\<exists>cnt bs. g = run (fuse_lib_forget_multi E a cnt bs))
     \<or> (\<exists>fi h. g = run (fuse_lib_poll E a n fi h))"

lemma call_answered:
  assumes "lib_call E a n g" "reqs L a = Some r" "fuse_req.ctr r = 1" "g L = Inr L'"
  shows "\<exists>w. L' = freed a (L\<lparr>lworld := w\<rparr>)"
proof -
  note A = handlers_answer [THEN run_answers, OF assms(2,3)] handlers_answer [THEN umask_then, OF assms(2,3)]
  have "\<exists>w. L' = freed a (L\<lparr>lworld := w\<rparr>)" if "kcall (fuse_path_ops E) a n q = Some g" for q
    using that assms(4) by (cases q) (auto simp: fuse_path_ops_def dest: A)
  then show ?thesis using assms(1,4) unfolding lib_call_def by (auto dest: A)
qed

text \<open>A state of the library with its nodes, and a filesystem that knows \<open>access\<close> and \<open>fsync\<close>; messages are logged.\<close>

text \<open>Messages with the channels they are sent to.\<close>

type_synonym sent = "(nat \<times> byte list list option) list"

definition sample_config :: "bool \<Rightarrow> fuse_config" where
  "sample_config np = \<lparr>cf_uid = 0, cf_gid = 0, cf_umask = 0, cf_entry_timeout = 1, cf_negative_timeout = 0, cf_attr_timeout = 1, cf_ac_attr_timeout = 0,
     cf_nopath = np, cf_hard_remove = False, cf_use_ino = False, cf_readdir_ino = False, cf_set_mode = False, cf_set_uid = False, cf_set_gid = False,
     cf_direct_io = False, cf_kernel_cache = False, cf_auto_cache = False, cf_intr = True\<rparr>"

definition sample_lib :: "bool \<Rightarrow> fuse \<Rightarrow> sent lib" where
  "sample_lib np f = \<lparr>nds = f, cfg = sample_config np, nullpath_ok = True, utime_omit_ok = False, fs_live = True, dhs = Map.empty, cur_req = None,
     cur_ctx = FUSE_NO_CTX, mmaps = [], clocks = [], t_private = 0, t_user = (\<lambda>_. 0), t_mallocs = [], t_blocks = [],
     t_registry = \<lparr>fuse_modules = [], fuse_current_so = 0, so_ctr = (\<lambda>_. 0), sos = []\<rparr>, usr = []\<rparr>"

definition lib_send :: "sent lib sender" where
  "lib_send ch iov w = (0, w\<lparr>os_state := (os_state w)\<lparr>usr := usr (os_state w) @ [(ch, iov)]\<rparr>\<rparr>)"

definition sample_env :: "sent lenv" where
  "sample_env = \<lparr>v_host = \<lparr>h_send = lib_send, h_intr = (\<lambda>_ _ _ f. Inr f), h_allocs = [], h_poll_mem = True, h_splice = True, h_bufsize = (\<lambda>_. 135168)\<rparr>,
     v_fs = \<lparr>fs_addr = 1, fs_mod = 0, op = no_ops\<lparr>op_access := Some (\<lambda>p m. retm (if p = Some ''/'' then - 13 else 0)), op_fsync := Some (\<lambda>p d fi. retm (0, fi))\<rparr>, compat = 0\<rparr>,
     v_kernel = \<lparr>k_write = (\<lambda>_ _ bs s. (int (length bs), s)), k_read = (\<lambda>_ _ n s. (Inr (replicate n 0), s)), k_splice = (\<lambda>_ _ _ _ _ _ _ s. (0, s))\<rparr>,
     v_tmp = 0, v_stack = 0, v_align = Inl 12,
     v_junk = \<lparr>old_bsize = 0, old_blocks = 0, old_bfree = 0, old_bavail = 0, old_files = 0, old_ffree = 0, old_namelen = 0\<rparr>\<rparr>"

definition sample_lib_ll :: "bool \<Rightarrow> fuse \<Rightarrow> sent lib ll" where
  "sample_lib_ll np f = \<lparr>lopts = plain_opts, conn = conn sample_ll, got_init = True, got_destroy = False, cuse_data = False, owner = 1000, userdata = 0,
     reqs = [5 \<mapsto> req0\<lparr>unique := 42, rch := Some 2\<rparr>], req_list = [5], intr_list = [], notify_ctr = 1, notify_list = [],
     lworld = \<lparr>memory = (\<lambda>_. 0), os_state = sample_lib np f\<rparr>\<rparr>"

lemmas sample_lib_defs = sample_config_def sample_lib_def lib_send_def sample_env_def sample_lib_ll_def

end
