(* ===== verification/Fuse_Messages.thy ===== *)
theory Fuse_Messages
  imports Fuse_Answers Fuse_Inv
begin

text \<open>
  What the handlers of the path library send: one message for each request. A journal of the messages is read from the outside world;
  the channel adds the message to it, the filesystem and the system calls for its data add nothing. The proof is the logic of \<open>Fuse_Answers\<close> once more:
  a part of a handler sends nothing, or it sends the reply.
\<close>

section \<open>The journal\<close>

definition journal :: "('t \<Rightarrow> sent) \<Rightarrow> 't lib ll \<Rightarrow> sent" where
  "journal lg L = lg (usr (lib_of L))"

text \<open>
  \<open>fuse_chan_send\<close> returns zero or a negative error number, \<open>posix_memalign\<close> zero or a positive one.
\<close>

definition logs :: "('t \<Rightarrow> sent) \<Rightarrow> 't lenv \<Rightarrow> bool" where
  "logs lg E \<longleftrightarrow>
     (\<forall>ch msg w. lg (usr (os_state (snd (h_send (v_host E) ch msg w)))) = lg (usr (os_state w)) @ [(ch, msg)])
     \<and> (\<forall>ch msg w. fst (h_send (v_host E) ch msg w) \<le> 0) \<and> (\<forall>e. v_align E = Inl e \<longrightarrow> 0 < e)
     \<and> (\<forall>l. fs_ops (\<lambda>_. True) (\<lambda>s. lg (usr s) = l) (op (v_fs E))) \<and> (\<forall>l. kernel_pres (v_kernel E) (\<lambda>s. lg (usr s) = l))"

definition quiet :: "('t \<Rightarrow> sent) \<Rightarrow> ('t, 'a) lm \<Rightarrow> bool" where
  "quiet lg m \<longleftrightarrow> (\<forall>L x K. m L = Inr (x, K) \<longrightarrow> journal lg K = journal lg L)"

definition silent :: "('t \<Rightarrow> sent) \<Rightarrow> ('t lib, 'a) call \<Rightarrow> bool" where
  "silent lg m \<longleftrightarrow> (\<forall>l. pres (\<lambda>s. lg (usr s) = l) m)"

text \<open>The message that answers a request: it goes to the channel of the request and has its number.\<close>

definition one_reply :: "('t \<Rightarrow> sent) \<Rightarrow> fuse_req \<Rightarrow> 't lib ll \<Rightarrow> 't lib ll \<Rightarrow> bool" where
  "one_reply lg r L K \<longleftrightarrow> (\<exists>ch iov err body. rch r = Some ch \<and> journal lg K = journal lg L @ [(ch, Some iov)] \<and> - 1000 < err \<and> err \<le> 0
     \<and> concat iov = out_header (16 + length body) err (unique r) @ body)"

definition replies :: "('t \<Rightarrow> sent) \<Rightarrow> nat \<Rightarrow> ('t, 'a) lm \<Rightarrow> bool" where
  "replies lg a m \<longleftrightarrow> (\<forall>L r x K. reqs L a = Some r \<longrightarrow> m L = Inr (x, K) \<longrightarrow> one_reply lg r L K)"

section \<open>Parts that send nothing\<close>

named_theorems qt
named_theorems sl
named_theorems rp

lemma quietI: "(\<And>L x K. m L = Inr (x, K) \<Longrightarrow> journal lg K = journal lg L) \<Longrightarrow> quiet lg m"
  by (auto simp: quiet_def)

lemma quietD: "quiet lg m \<Longrightarrow> m L = Inr (x, K) \<Longrightarrow> journal lg K = journal lg L"
  by (auto simp: quiet_def)

lemma journal_set_lib: "(\<And>l. usr (g l) = usr l) \<Longrightarrow> journal lg (set_lib g L) = journal lg L"
  by (simp add: journal_def lib_of_def set_lib_def)

lemma quiet_bindl [qt]: "quiet lg m \<Longrightarrow> (\<And>x. quiet lg (f x)) \<Longrightarrow> quiet lg (bindl m f)"
proof (rule quietI)
  fix L x K
  assume q: "quiet lg m" "\<And>x. quiet lg (f x)" and "bindl m f L = Inr (x, K)"
  then obtain y M where M: "m L = Inr (y, M)" "f y M = Inr (x, K)" by (auto simp: bindc_eq_Inr)
  show "journal lg K = journal lg L" using quietD [OF q(1) M(1)] quietD [OF q(2) M(2)] by simp
qed

lemma quiet_retl [qt]: "quiet lg (retl x)"
  by (rule quietI) auto

lemma quiet_asks [qt]: "quiet lg (asks g)"
  by (rule quietI) (auto simp: asks_def)

lemma quiet_stuck [qt]: "quiet lg (\<lambda>L. Inl e)"
  by (rule quietI) auto

lemma quiet_if [qt]: "(b \<Longrightarrow> quiet lg m) \<Longrightarrow> (\<not> b \<Longrightarrow> quiet lg n) \<Longrightarrow> quiet lg (if b then m else n)"
  by simp

lemma quiet_prod [qt]: "(\<And>x y. p = (x, y) \<Longrightarrow> quiet lg (f x y)) \<Longrightarrow> quiet lg (case p of (x, y) \<Rightarrow> f x y)"
  by (cases p) simp

lemma quiet_option [qt]: "(p = None \<Longrightarrow> quiet lg m) \<Longrightarrow> (\<And>x. p = Some x \<Longrightarrow> quiet lg (f x)) \<Longrightarrow> quiet lg (case p of None \<Rightarrow> m | Some x \<Rightarrow> f x)"
  by (cases p) auto

lemma quiet_on_nodes [qt]: "quiet lg (on_nodes g)"
  by (rule quietI) (auto simp: on_nodes_def bindc_eq_Inr journal_set_lib)

lemma quiet_change_nodes [qt]: "quiet lg (change_nodes g)"
  unfolding change_nodes_def by (rule quiet_on_nodes)

lemma quiet_state_only [qt]:
  "quiet lg next_time" "quiet lg next_page" "quiet lg (req_fuse_prepare b)" "quiet lg (put_dh d dh)" "quiet lg (get_dirhandle fi)"
  "quiet lg (after_fill d err)" "quiet lg (liftc v)" "quiet lg (fs_has p E)"
  by (rule quietI, auto simp: next_time_def next_page_def req_fuse_prepare_def put_dh_def get_dirhandle_def after_fill_def liftc_def fs_has_def
      bindc_eq_Inr Let_def journal_set_lib split: list.splits option.splits if_splits)+

lemma quiet_store_at [qt]: "quiet lg (store_at m bs)"
  by (rule quietI) (auto simp: store_at_def journal_def lib_of_def)

lemma mod_req_journal: "mod_req a g L = Inr K \<Longrightarrow> journal lg K = journal lg L"
  by (auto simp: mod_req_def bindc_eq_Inr journal_def lib_of_def)

lemma interrupt_func_journal:
  "fuse_req_interrupt_func (H\<lparr>h_intr := fuse_interrupt\<rparr>) a fn d L = Inr K \<Longrightarrow> journal lg K = journal lg L"
  by (auto simp: fuse_req_interrupt_func_def bindc_eq_Inr fuse_interrupt_def split: option.splits if_splits dest!: mod_req_journal [of _ _ _ _ lg])

lemma quiet_interruptible [qt]: "quiet lg m \<Longrightarrow> quiet lg (interruptible E a m)"
proof -
  have "quiet lg (fuse_prepare_interrupt E a)" "quiet lg (fuse_finish_interrupt E a)"
    by (rule quietI, auto simp: fuse_prepare_interrupt_def fuse_finish_interrupt_def bindc_eq_Inr interrupt_func_journal [of _ _ _ _ _ _ lg] split: if_splits)+
  then show "quiet lg m \<Longrightarrow> ?thesis" unfolding interruptible_def by (intro qt)
qed

section \<open>Calls of the filesystem\<close>

lemma quiet_ctx_call [qt]: "silent lg m \<Longrightarrow> quiet lg (ctx_call m)"
proof (rule quietI)
  fix L x K
  assume m: "silent lg m" "ctx_call m L = Inr (x, K)"
  then obtain c where c: "m (ctx_of (lworld L)) = Inr (x, c)" "K = L\<lparr>lworld := world_of c\<rparr>" by (auto simp: ctx_call_def bindc_eq_Inr)
  have "pres (\<lambda>s. lg (usr s) = journal lg L) m" using m(1) by (simp add: silent_def)
  from presD [OF this, of "ctx_of (lworld L)"] have "lg (usr (os_state (wrld c))) = journal lg L"
    using c(1) by (simp add: ctx_of_def journal_def lib_of_def Let_def)
  then show "journal lg K = journal lg L" by (simp add: c(2) journal_def lib_of_def world_of_def)
qed

lemma quiet_fs_call [qt]: "silent lg m \<Longrightarrow> quiet lg (fs_call m)"
  by (rule quietI) (auto simp: fs_call_def dest: quietD [OF quiet_ctx_call] split: if_splits)

lemma silent_blocks [sl]: "silent lg malloc" "silent lg (free_block m)" "silent lg (fuse_free_buf b)"
  by (simp_all add: silent_def)

lemma logs_layer: "logs lg E \<Longrightarrow> fs_layer (\<lambda>_. True) (\<lambda>s. lg (usr s) = l) (v_fs E)"
  by (simp add: logs_def fs_layer_def)

lemmas fs_one_path = fs_layer.fs_getattr fs_layer.fs_fgetattr fs_layer.fs_readlink fs_layer.fs_mknod fs_layer.fs_mkdir fs_layer.fs_unlink
  fs_layer.fs_rmdir fs_layer.fs_chmod fs_layer.fs_chown fs_layer.fs_truncate fs_layer.fs_ftruncate fs_layer.fs_utimens fs_layer.fs_flush
  fs_layer.fs_fsync fs_layer.fs_setxattr fs_layer.fs_getxattr fs_layer.fs_listxattr fs_layer.fs_removexattr fs_layer.fs_opendir
  fs_layer.fs_releasedir fs_layer.fs_fsyncdir fs_layer.fs_access fs_layer.fs_create fs_layer.fs_lock fs_layer.fs_bmap fs_layer.fs_ioctl
  fs_layer.fs_poll fs_layer.fs_flock fs_layer.fs_symlink fs_layer.fs_open fs_layer.fs_release fs_layer.fs_statfs fs_layer.fs_read_buf

lemmas fs_two_paths = fs_layer.fs_rename fs_layer.fs_link

lemma silent_fs [sl]:
  assumes "logs lg E"
  shows "silent lg (fuse_fs_getattr (v_fs E) p st)" "silent lg (fuse_fs_fgetattr (v_fs E) p st fi)" "silent lg (fuse_fs_readlink (v_fs E) p b n)"
    "silent lg (fuse_fs_mknod (v_fs E) p md dv)" "silent lg (fuse_fs_mkdir (v_fs E) p md)" "silent lg (fuse_fs_unlink (v_fs E) p)"
    "silent lg (fuse_fs_rmdir (v_fs E) p)" "silent lg (fuse_fs_chmod (v_fs E) p md)" "silent lg (fuse_fs_chown (v_fs E) p u g)"
    "silent lg (fuse_fs_truncate (v_fs E) p sz)" "silent lg (fuse_fs_ftruncate (v_fs E) p sz fi)" "silent lg (fuse_fs_utimens (v_fs E) p t0 t1)"
    "silent lg (fuse_fs_flush (v_fs E) p fi)" "silent lg (fuse_fs_fsync (v_fs E) p ds fi)" "silent lg (fuse_fs_setxattr (v_fs E) p s v n xfl)"
    "silent lg (fuse_fs_getxattr (v_fs E) p s m n)" "silent lg (fuse_fs_listxattr (v_fs E) p m n)" "silent lg (fuse_fs_removexattr (v_fs E) p s)"
    "silent lg (fuse_fs_opendir (v_fs E) p fi)" "silent lg (fuse_fs_releasedir (v_fs E) p fi)" "silent lg (fuse_fs_fsyncdir (v_fs E) p ds fi)"
    "silent lg (fuse_fs_access (v_fs E) p mk)" "silent lg (fuse_fs_create (v_fs E) p md fi)" "silent lg (fuse_fs_lock (v_fs E) p fi cmd lk)"
    "silent lg (fuse_fs_bmap (v_fs E) p bs ix)" "silent lg (fuse_fs_ioctl (v_fs E) p cmd arg fi fl dat)" "silent lg (fuse_fs_poll (v_fs E) p fi h rv)"
    "silent lg (fuse_fs_flock (v_fs E) p fi lop)" "silent lg (fuse_fs_symlink (v_fs E) s p)" "silent lg (fuse_fs_rename (v_fs E) p q)"
    "silent lg (fuse_fs_link (v_fs E) p q)" "silent lg (fuse_fs_open (v_fs E) p fi)" "silent lg (fuse_fs_release (v_fs E) p fi)"
    "silent lg (fuse_fs_statfs junk (v_fs E) p sv)" "silent lg (fuse_fs_read_buf (v_fs E) p bp n ofs fi)"
  unfolding silent_def
  by (rule allI, rule fs_one_path [OF logs_layer [OF assms] TrueI] fs_two_paths [OF logs_layer [OF assms] TrueI TrueI])+

lemma silent_write_buf [sl]:
  assumes "logs lg E"
  shows "silent lg (fuse_fs_write_buf (v_kernel E) tmp (v_fs E) p v ofs fi)"
  using assms unfolding silent_def by (intro allI fs_layer.fs_write_buf [OF logs_layer]) (simp_all add: logs_def)

lemma fill_dir_silent: "pres (\<lambda>s. lg (usr s) = l) (fill_dir d nm st offs)"
  by (rule presI) (auto simp: fill_dir_def Let_def okc_iff bindc_eq_Inr split: option.splits)

lemma silent_readdir [sl]: "logs lg E \<Longrightarrow> silent lg (fuse_fs_readdir (v_fs E) p (fill_dir d) ofs fi)"
  unfolding silent_def by (intro allI fs_layer.fs_readdir [OF logs_layer] TrueI fill_dir_silent)

section \<open>Replies\<close>

lemma repliesI: "(\<And>L r x K. reqs L a = Some r \<Longrightarrow> m L = Inr (x, K) \<Longrightarrow> one_reply lg r L K) \<Longrightarrow> replies lg a m"
  by (auto simp: replies_def)

lemma repliesD: "replies lg a m \<Longrightarrow> reqs L a = Some r \<Longrightarrow> m L = Inr (x, K) \<Longrightarrow> one_reply lg r L K"
  by (auto simp: replies_def)

lemma one_reply_journal: "one_reply lg r L K \<Longrightarrow> journal lg L' = journal lg L \<Longrightarrow> journal lg K' = journal lg K \<Longrightarrow> one_reply lg r L' K'"
  by (simp add: one_reply_def)

lemma replies_after [rp]:
  assumes "leaves a m" "quiet lg m" "\<And>x. replies lg a (f x)"
  shows "replies lg a (bindl m f)"
proof (rule repliesI)
  fix L r x K
  assume r: "reqs L a = Some r" "bindl m f L = Inr (x, K)"
  then obtain y M where M: "m L = Inr (y, M)" "f y M = Inr (x, K)" by (auto simp: bindc_eq_Inr)
  obtain q where q: "reqs M a = Some q" "unique q = unique r" "rch q = rch r" using still_open [OF leavesD [OF assms(1) M(1)] r(1)] by blast
  have "one_reply lg q M K" using repliesD [OF assms(3) q(1) M(2)] .
  then show "one_reply lg r L K" using q(2,3) quietD [OF assms(2) M(1)] by (simp add: one_reply_def)
qed

lemma replies_before:
  assumes "replies lg a m" "\<And>x. quiet lg (f x)"
  shows "replies lg a (bindl m f)"
proof (rule repliesI)
  fix L r x K
  assume r: "reqs L a = Some r" "bindl m f L = Inr (x, K)"
  then obtain y M where M: "m L = Inr (y, M)" "f y M = Inr (x, K)" by (auto simp: bindc_eq_Inr)
  show "one_reply lg r L K" using one_reply_journal [OF repliesD [OF assms(1) r(1) M(1)] refl quietD [OF assms(2) M(2)]] .
qed

lemma replies_stuck [rp]: "replies lg a (\<lambda>L. Inl e)"
  by (rule repliesI) auto

lemma replies_if [rp]: "(b \<Longrightarrow> replies lg a m) \<Longrightarrow> (\<not> b \<Longrightarrow> replies lg a n) \<Longrightarrow> replies lg a (if b then m else n)"
  by simp

lemma replies_prod [rp]: "(\<And>x y. p = (x, y) \<Longrightarrow> replies lg a (f x y)) \<Longrightarrow> replies lg a (case p of (x, y) \<Rightarrow> f x y)"
  by (cases p) simp

lemma replies_prod_fun [rp]: "(\<And>x y. p = (x, y) \<Longrightarrow> replies lg a (f x y z)) \<Longrightarrow> replies lg a ((case p of (x, y) \<Rightarrow> f x y) z)"
  by (cases p) simp

lemma replies_option [rp]: "(p = None \<Longrightarrow> replies lg a m) \<Longrightarrow> (\<And>x. p = Some x \<Longrightarrow> replies lg a (f x)) \<Longrightarrow> replies lg a (case p of None \<Rightarrow> m | Some x \<Rightarrow> f x)"
  by (cases p) auto

lemma replies_finishing [rp]: "replies lg a m \<Longrightarrow> replies lg a (finishing m)"
  unfolding finishing_def by (rule replies_before) (auto intro: qt)

lemma replies_as: "(\<And>L. \<exists>n. replies lg a n \<and> m L = n L) \<Longrightarrow> replies lg a m"
  unfolding replies_def by metis

lemma replies_state: "(\<And>K. replies lg a (g K)) \<Longrightarrow> replies lg a (\<lambda>L. g L L)"
  by (auto simp: replies_def)

text \<open>The one place where a message is sent.\<close>

lemma send_msg_journal:
  assumes "logs lg E" "fuse_send_msg (h_send (v_host E)) ch e u iov L = (res, M)"
  shows "res \<le> 0" "\<exists>v body. journal lg M = journal lg L @ [(ch, Some v)] \<and> concat v = out_header (16 + length body) e u @ body"
proof -
  let ?v = "out_header (16 + iov_length iov) e u # iov"
  have M: "res = fst (h_send (v_host E) ch (Some ?v) (lworld L))" "M = L\<lparr>lworld := snd (h_send (v_host E) ch (Some ?v) (lworld L))\<rparr>"
    using assms(2) by (auto simp: fuse_send_msg_def sizeof_out_header_def Let_def split: prod.splits)
  show "res \<le> 0" using assms(1) unfolding M(1) logs_def by blast
  have "journal lg M = journal lg L @ [(ch, Some ?v)]" using assms(1) unfolding M(2) logs_def by (simp add: journal_def lib_of_def)
  then show "\<exists>v body. journal lg M = journal lg L @ [(ch, Some v)] \<and> concat v = out_header (16 + length body) e u @ body"
    by (intro exI [of _ ?v] exI [of _ "concat iov"]) (simp add: iov_length_concat)
qed

lemma free_req_journal: "fuse_free_req a L = Inr K \<Longrightarrow> journal lg K = journal lg L"
  by (auto simp: fuse_free_req_def bindc_eq_Inr the_req_def mod_req_def list_del_req_def destroy_req_def journal_def lib_of_def Let_def
      split: option.splits if_splits)

lemma replies_iov [rp]:
  assumes "logs lg E"
  shows "replies lg a (send_reply_iov (h_send (v_host E)) a e iov)"
proof (rule repliesI)
  fix L r x K
  assume r: "reqs L a = Some r" "send_reply_iov (h_send (v_host E)) a e iov L = Inr (x, K)"
  let ?e = "if e \<le> - 1000 \<or> e > 0 then - ERANGE else e"
  obtain res M where M: "fuse_send_reply_iov_nofree (h_send (v_host E)) a e iov L = Inr (res, M)" "fuse_free_req a M = Inr K"
    using r(2) by (auto simp: send_reply_iov_def bindc_eq_Inr)
  obtain ch where s: "rch r = Some ch" "fuse_send_msg (h_send (v_host E)) ch ?e (unique r) iov L = (res, M)"
    using M(1) r(1) by (cases "rch r") (auto simp: fuse_send_reply_iov_nofree_def the_req_def Let_def)
  have "- 1000 < ?e" "?e \<le> 0" by simp_all
  then show "one_reply lg r L K"
    using s(1) send_msg_journal(2) [OF assms s(2)] free_req_journal [OF M(2)] unfolding one_reply_def by metis
qed

lemma replies_reply [rp]: "logs lg E \<Longrightarrow> replies lg a (send_reply (h_send (v_host E)) a e arg)"
  by (rule replies_as, intro exI conjI, erule replies_iov) (unfold send_reply_def, rule refl)

lemma replies_ok [rp]: "logs lg E \<Longrightarrow> replies lg a (send_reply_ok (h_send (v_host E)) a arg)"
  by (rule replies_as, intro exI conjI, erule replies_reply) (unfold send_reply_ok_def, rule refl)

lemma replies_error [rp]: "logs lg E \<Longrightarrow> replies lg a (fuse_reply_err (h_send (v_host E)) a err)"
  by (rule replies_as, intro exI conjI, erule replies_reply) (unfold fuse_reply_err_def, rule refl)

lemma replies_ok_as: "logs lg E \<Longrightarrow> (\<And>L. \<exists>arg. m L = send_reply_ok (h_send (v_host E)) a arg L) \<Longrightarrow> replies lg a m"
  by (rule replies_as) (meson replies_ok)

lemma replies_replies [rp]:
  assumes "logs lg E"
  shows "replies lg a (fuse_reply_create (h_send (v_host E)) a e fi)" "replies lg a (fuse_reply_attr (h_send (v_host E)) a st tm)"
    "replies lg a (fuse_reply_readlink (h_send (v_host E)) a s)" "replies lg a (fuse_reply_open (h_send (v_host E)) a fi)"
    "replies lg a (fuse_reply_write (h_send (v_host E)) a n)" "replies lg a (fuse_reply_buf (h_send (v_host E)) a b)"
    "replies lg a (fuse_reply_statfs (h_send (v_host E)) a sv)" "replies lg a (fuse_reply_xattr (h_send (v_host E)) a n)"
    "replies lg a (fuse_reply_bmap (h_send (v_host E)) a i)" "replies lg a (fuse_reply_poll (h_send (v_host E)) a ev)"
  unfolding fuse_reply_create_def fuse_reply_attr_def fuse_reply_readlink_def fuse_reply_open_def fuse_reply_write_def fuse_reply_buf_def
    fuse_reply_statfs_def fuse_reply_xattr_def fuse_reply_bmap_def fuse_reply_poll_def Let_def
  by (rule replies_ok_as [OF assms], rule exI, rule refl)+

lemma replies_ioctl [rp]: "logs lg E \<Longrightarrow> replies lg a (fuse_reply_ioctl (h_send (v_host E)) a res buf)"
  by (rule replies_as, intro exI conjI, erule replies_iov) (unfold fuse_reply_ioctl_def, rule refl)

lemma replies_entry [rp]:
  assumes "logs lg E"
  shows "replies lg a (fuse_reply_entry (h_send (v_host E)) a e)"
proof (rule replies_as)
  fix L
  let ?s = "h_send (v_host E)"
  show "\<exists>n. replies lg a n \<and> fuse_reply_entry ?s a e L = n L"
  proof (cases "e_ino e = 0 \<and> minor_of L < 4")
    case True
    then show ?thesis using replies_error [OF assms] by (intro exI [of _ "fuse_reply_err ?s a ENOENT"]) (simp add: fuse_reply_entry_def)
  next
    case False
    then show ?thesis
      by (intro exI [of _ "send_reply_ok ?s a (take (if minor_of L < 9 then FUSE_COMPAT_ENTRY_OUT_SIZE else 128) (fill_entry e))"] conjI replies_ok [OF assms])
        (simp only: fuse_reply_entry_def Let_def if_False)
  qed
qed

lemma replies_lock [rp]: "logs lg E \<Longrightarrow> replies lg a (fuse_reply_lock (h_send (v_host E)) a l)"
  by (rule repliesI) (auto simp: fuse_reply_lock_def bindc_eq_Inr dest: repliesD [OF replies_ok])

text \<open>Data from buffers: either they are sent, or nothing is and the result is an error to be sent.\<close>

definition sent_or_failed :: "('t \<Rightarrow> sent) \<Rightarrow> nat \<Rightarrow> 64 word \<Rightarrow> 't lib ll \<Rightarrow> int \<Rightarrow> 't lib ll \<Rightarrow> bool" where
  "sent_or_failed lg ch u L res M \<longleftrightarrow>
     (if res \<le> 0 then \<exists>v body. journal lg M = journal lg L @ [(ch, Some v)] \<and> concat v = out_header (16 + length body) 0 u @ body
      else journal lg M = journal lg L)"

lemma send_msg_sent: "logs lg E \<Longrightarrow> fuse_send_msg (h_send (v_host E)) ch 0 u iov L = (res, M) \<Longrightarrow> sent_or_failed lg ch u L res M"
  using send_msg_journal by (fastforce simp: sent_or_failed_def)

lemma copy_and_send_sent:
  assumes "logs lg E" "copy_and_send (v_kernel E) (h_send (v_host E)) tmp (v_align E) ch 0 u iov buf n L = Inr (res, M)"
  shows "sent_or_failed lg ch u L res M"
proof (cases "v_align E")
  case (Inl e)
  then have "0 < e" using assms(1) by (simp add: logs_def)
  then show ?thesis using assms(2) Inl by (auto simp: copy_and_send_def sent_or_failed_def)
next
  case (Inr p)
  let ?dst = "\<lparr>bufs = [\<lparr>buf_size = n, is_fd = False, fd_seek = False, fd_retry = False, mem = p, fd = 0, pos = 0\<rparr>], idx = 0, off = 0\<rparr>"
  obtain k w where k: "fuse_buf_copy (v_kernel E) tmp False ?dst buf no_flags (lworld L) = Inr (k, w)"
      "(if k < 0 then Inr (- k, L\<lparr>lworld := w\<rparr>)
        else Inr (fuse_send_msg (h_send (v_host E)) ch 0 u (iov @ [load (memory w) p (nat k)]) (L\<lparr>lworld := w\<rparr>))) = (Inr (res, M) :: (int \<times> _) c)"
    using assms(2) unfolding Inr copy_and_send_def sum.case Let_def bindc_eq_Inr by auto
  have "kernel_pres (v_kernel E) (\<lambda>s. lg (usr s) = journal lg L)" using assms(1) by (simp add: logs_def)
  then have "pres_world (\<lambda>s. lg (usr s) = journal lg L) (fuse_buf_copy (v_kernel E) tmp False ?dst buf no_flags (lworld L))"
    by (auto simp: fuse_buf_copy_def journal_def lib_of_def intro!: pw_rules pres_copy_loop)
  then have w: "journal lg (L\<lparr>lworld := w\<rparr>) = journal lg L" using k(1) by (simp add: pres_world_def journal_def lib_of_def)
  show ?thesis
  proof (cases "k < 0")
    case True
    then show ?thesis using k(2) w by (auto simp: sent_or_failed_def)
  next
    case False
    then have "sent_or_failed lg ch u (L\<lparr>lworld := w\<rparr>) res M" using k(2) send_msg_sent [OF assms(1)] by auto
    then show ?thesis unfolding sent_or_failed_def w .
  qed
qed

lemma send_data_sent:
  "logs lg E \<Longrightarrow> fuse_send_data_iov (v_kernel E) (h_send (v_host E)) tmp (v_align E) ch 0 u iov buf L = Inr (res, M) \<Longrightarrow> sent_or_failed lg ch u L res M"
  unfolding fuse_send_data_iov_def fuse_send_data_iov_fallback_def
  by (auto dest: send_msg_sent copy_and_send_sent split: if_splits)

lemma replies_data [rp]:
  assumes E: "logs lg E"
  shows "replies lg a (fuse_reply_data (v_kernel E) (h_send (v_host E)) tmp (v_align E) a v)"
proof (rule repliesI)
  fix L r x K
  assume r: "reqs L a = Some r" "fuse_reply_data (v_kernel E) (h_send (v_host E)) tmp (v_align E) a v L = Inr (x, K)"
  then obtain ch res M where d: "rch r = Some ch"
    "fuse_send_data_iov (v_kernel E) (h_send (v_host E)) tmp (v_align E) ch 0 (unique r) [] v L = Inr (res, M)"
    "(if res \<le> 0 then bindc (fuse_free_req a M) (\<lambda>f. Inr (res, f)) else fuse_reply_err (h_send (v_host E)) a res M) = Inr (x, K)"
    by (auto simp: fuse_reply_data_def the_req_def bindc_eq_Inr split: option.splits)
  note s = send_data_sent [OF E d(2), unfolded sent_or_failed_def]
  show "one_reply lg r L K"
  proof (cases "res \<le> 0")
    case True
    then have "journal lg K = journal lg M" using d(3) by (auto simp: bindc_eq_Inr dest: free_req_journal)
    then show ?thesis using s True d(1) unfolding one_reply_def by (auto intro!: exI [of _ "0 :: int"])
  next
    case False
    obtain w where "M = L\<lparr>lworld := w\<rparr>" using send_data_still [OF d(2)] by blast
    then have "one_reply lg r M K" using repliesD [OF replies_error [OF E], of M a r res x K] r(1) d(3) False by simp
    then show ?thesis using s False by (simp add: one_reply_def)
  qed
qed

section \<open>Parts of handlers that send nothing\<close>

lemma quiet_paths [qt]:
  "quiet lg (lib_get_path n)" "quiet lg (lib_get_path_name n nm)" "quiet lg (lib_get_path_nullok n)" "quiet lg (get_path_common n nm wr)"
  "quiet lg (get_path2 n nm wr n' nm' wr')" "quiet lg (lib_free_path n p)" "quiet lg (lib_free_path_wrlock n w)" "quiet lg (lib_free_path2 n n' w w')"
  unfolding lib_get_path_nullok_def lib_get_path_def lib_get_path_name_def get_path_common_def get_path2_def lib_free_path_def lib_free_path_wrlock_def lib_free_path2_def
  by (intro qt)+

lemma quiet_with_path [qt]: "quiet lg get \<Longrightarrow> (\<And>p. quiet lg (body p)) \<Longrightarrow> quiet lg (with_path E a n get failed body)"
  unfolding with_path_def by (intro qt)

lemma quiet_wrappers [qt]:
  "(\<And>p. quiet lg (body p)) \<Longrightarrow> quiet lg (on_path_wr E a dir nm body)" "quiet lg m1 \<Longrightarrow> quiet lg (fst_of m1)"
  "quiet lg m2 \<Longrightarrow> quiet lg (finishing m2)" "quiet lg m3 \<Longrightarrow> quiet lg (unless_err err b m3)"
  unfolding on_path_wr_def fst_of_def finishing_def unless_err_def by (intro qt | assumption)+

lemma quiet_nodes [qt]: "quiet lg (update_stat nd st)" "quiet lg (lib_forget_node n k)" "quiet lg (lookup_dots n s)" "quiet lg (hidden_link n st)"
  "quiet lg (is_open n s)" "quiet lg (compat_path p)" "quiet lg (node_of n)" "quiet lg (insert_lock_of n l own)" "quiet lg (free_dh d)"
  "quiet lg (copy_in E ib insz m outsz)"
  unfolding update_stat_def lib_forget_node_def lookup_dots_def hidden_link_def is_open_def compat_path_def node_of_def insert_lock_of_def free_dh_def copy_in_def
  by (intro qt sl)+

lemma quiet_lookups [qt]:
  assumes E: "logs lg E"
  shows "quiet lg (getattr_fi E p st fi)" "quiet lg (lookup_path E n nm p fi)" "quiet lg (looking_up E n s p err)" "quiet lg (mknod_create E n s mode p)"
  unfolding lookup_path_def getattr_fi_def looking_up_def mknod_create_def by (intro qt sl E)+

lemma quiet_attrs [qt]:
  assumes E: "logs lg E"
  shows "quiet lg (set_times E p st valid err)" "quiet lg (set_size E p sz fi)" "quiet lg (set_attrs E p st valid fi)"
  unfolding set_attrs_def set_times_def set_size_def by (intro qt sl E)+

lemma quiet_hidden_loop [qt]:
  assumes E: "logs lg E"
  shows "quiet lg (hidden_loop E dir s k)"
  by (induction k) (simp_all only: hidden_loop.simps, (intro qt sl E | assumption)+)

lemma quiet_files [qt]:
  assumes E: "logs lg E"
  shows "quiet lg (hide_node E p dir s)" "quiet lg (fuse_do_release E n p fi)" "quiet lg (create_file E dir s mode p fi)" "quiet lg (refresh_cache E d p fi)"
    "quiet lg (open_auto_cache E n p fi)" "quiet lg (open_file E n p fi)" "quiet lg (readdir_fill E a n sz offs d dh fi)"
    "quiet lg (fuse_flush_common E a n p fi)" "quiet lg (fuse_lock_common E a n fi l cmd)"
  unfolding hide_node_def hidden_name_def open_file_def open_auto_cache_def refresh_cache_def create_file_def fuse_do_release_def readdir_fill_def
    fuse_flush_common_def fuse_lock_common_def Let_def
  by (intro qt sl E)+

section \<open>Handlers\<close>

lemma replies_err [rp]: "logs lg E \<Longrightarrow> replies lg a (lib_reply_err E a err)"
  unfolding lib_reply_err_def by (rule replies_before) (intro rp qt | assumption)+

lemma replies_entry_or_err [rp]:
  assumes E: "logs lg E"
  shows "replies lg a (reply_entry E a e err)"
  unfolding reply_entry_def by (intro replies_if replies_err E, rule replies_before) (intro rp qt E)+

lemma replies_names:
  assumes E: "logs lg E"
  shows "replies lg a (fuse_lib_access E a ino wanted)" "replies lg a (fuse_lib_getattr E a ino fi)" "replies lg a (fuse_lib_setattr E a ino st valid fi')"
    "replies lg a (fuse_lib_lookup E a dir s)" "replies lg a (fuse_lib_mknod E a dir s mode rdev)" "replies lg a (fuse_lib_mkdir E a dir s mode)"
    "replies lg a (fuse_lib_symlink E a l dir s)" "replies lg a (fuse_lib_unlink E a dir s)" "replies lg a (fuse_lib_rmdir E a dir s)"
    "replies lg a (fuse_lib_rename E a dir s dir' s')" "replies lg a (fuse_lib_link E a ino dir s)"
  unfolding fuse_lib_access_def fuse_lib_getattr_def fuse_lib_setattr_def fuse_lib_lookup_def fuse_lib_mknod_def fuse_lib_mkdir_def fuse_lib_symlink_def
    fuse_lib_unlink_def fuse_lib_rmdir_def fuse_lib_rename_def fuse_lib_link_def
  by (intro rp lv qt sl E)+

lemma replies_files:
  assumes E: "logs lg E"
  shows "replies lg a (fuse_lib_write_buf E a ino b offs fi)" "replies lg a (fuse_lib_fsync E a ino ds fi)" "replies lg a (fuse_lib_releasedir E a ino fi)"
    "replies lg a (fuse_lib_fsyncdir E a ino ds fi)" "replies lg a (fuse_lib_statfs E a ino)" "replies lg a (fuse_lib_setxattr E a ino s bs sz fl)"
    "replies lg a (fuse_lib_removexattr E a ino s)" "replies lg a (fuse_lib_release E a ino fi)" "replies lg a (fuse_lib_flush E a ino fi)"
    "replies lg a (fuse_lib_getlk E a ino fi l)" "replies lg a (fuse_lib_setlk E a ino fi l sleep)" "replies lg a (fuse_lib_flock E a ino fi lop)"
    "replies lg a (fuse_lib_bmap E a ino bsz i)" "replies lg a (fuse_lib_poll E a ino fi ph)"
  unfolding fuse_lib_write_buf_def fuse_lib_fsync_def fuse_lib_releasedir_def fuse_lib_fsyncdir_def fuse_lib_statfs_def fuse_lib_setxattr_def
    fuse_lib_removexattr_def fuse_lib_release_def fuse_lib_flush_def fuse_lib_getlk_def fuse_lib_setlk_def fuse_lib_flock_def fuse_lib_bmap_def fuse_lib_poll_def
  by (intro rp lv qt sl E)+

lemma replies_readlink:
  assumes E: "logs lg E"
  shows "replies lg a (fuse_lib_readlink E a ino)"
  unfolding fuse_lib_readlink_def by (intro rp lv qt sl E) (rule replies_state, intro rp E)

text \<open>Handlers with work to do after the reply.\<close>

lemma replies_open:
  assumes E: "logs lg E"
  shows "replies lg a (fuse_lib_open E a ino fi)" "replies lg a (fuse_lib_create E a dir s mode fi)" "replies lg a (fuse_lib_read E a ino sz offs fi)"
    "replies lg a (fuse_lib_opendir E a ino fi)"
  unfolding fuse_lib_open_def fuse_lib_create_def fuse_lib_read_def fuse_lib_opendir_def
  by ((rule replies_after, fast intro: lv, fast intro: qt sl E) | rule replies_before
    | intro replies_if replies_prod replies_option replies_err replies_finishing replies_replies replies_data replies_stuck E | intro qt sl E)+

lemma replies_readdir:
  assumes E: "logs lg E"
  shows "replies lg a (fuse_lib_readdir E a ino sz offs fi)"
proof -
  have "replies lg a (\<lambda>L. case dhs (lib_of L) d of None \<Rightarrow> Inl Dangling
      | Some dh \<Rightarrow> bindc (dir_slice dh n k) (\<lambda>bs. finishing (fuse_reply_buf (h_send (v_host E)) a bs) L))" for d n k
    by (rule repliesI) (auto simp: bindc_eq_Inr split: option.splits dest: repliesD [OF replies_finishing [OF replies_replies(6) [OF E]]])
  then show ?thesis unfolding fuse_lib_readdir_def Let_def by (intro rp lv qt sl E)
qed

lemma replies_value [rp]:
  assumes E: "logs lg E" and get: "\<And>m. leaves a (get m)" "\<And>m. quiet lg (get m)"
  shows "replies lg a (reply_value E a sz get)"
proof -
  have part: "replies lg a (\<lambda>L. if nat res > sz then Inl PastEnd
      else finishing (fuse_reply_buf (h_send (v_host E)) a (load (memory (lworld L)) m (nat res))) L)" for m res
    by (rule repliesI) (auto split: if_splits dest: repliesD [OF replies_finishing [OF replies_replies(6) [OF E]]])
  show ?thesis unfolding reply_value_def
    by ((rule replies_after, fast intro: lv get, fast intro: qt sl get) | rule replies_before
      | intro part replies_if replies_err replies_finishing replies_replies E | intro qt sl)+
qed

lemma replies_xattrs:
  assumes E: "logs lg E"
  shows "replies lg a (fuse_lib_getxattr E a ino s sz)" "replies lg a (fuse_lib_listxattr E a ino sz)"
  unfolding fuse_lib_getxattr_def fuse_lib_listxattr_def common_getxattr_def common_listxattr_def by (intro rp lv qt sl E)+

lemma replies_ioctl_request:
  assumes E: "logs lg E"
  shows "replies lg a (fuse_lib_ioctl E a ino cmd arg fi fl ib insz outsz)"
proof -
  have "replies lg a (\<lambda>L. finishing (fuse_reply_ioctl (h_send (v_host E)) a err (if osz = 0 then [] else load (memory (lworld L)) m osz)) L)" for err m osz
    by (rule replies_state) (intro rp E)
  then have body: "replies lg a (ioctl_body E a n c x fi k ib isz m osz)" for n c x k isz m osz unfolding ioctl_body_def by (intro rp lv qt sl E)
  show ?thesis unfolding fuse_lib_ioctl_def
    by ((rule replies_after, fast intro: lv, fast intro: qt sl) | rule replies_before | intro replies_if replies_err body E | intro qt sl)+
qed

lemmas handlers_reply = replies_names replies_files replies_readlink replies_open replies_readdir replies_xattrs replies_ioctl_request

lemma run_replies: "replies lg a m \<Longrightarrow> reqs L a = Some r \<Longrightarrow> run m L = Inr K \<Longrightarrow> one_reply lg r L K"
  by (auto simp: run_def bindc_eq_Inr dest: repliesD)

lemma umask_replies:
  assumes "replies lg a m" "reqs L a = Some r" "bindc (set_umask a um L) (run m) = Inr K"
  shows "one_reply lg r L K"
proof -
  obtain M where M: "set_umask a um L = Inr M" "run m M = Inr K" using assms(3) by (auto simp: bindc_eq_Inr)
  have "still a L M" by (rule still_mod_req [OF M(1) [unfolded set_umask_def]]) (simp add: same_caller_def)
  then obtain q where q: "reqs M a = Some q" "unique q = unique r" "rch q = rch r" using still_open [OF _ assms(2)] by blast
  have "one_reply lg q M K" using run_replies [OF assms(1) q(1) M(2)] .
  then show ?thesis using q(2,3) mod_req_journal [OF M(1) [unfolded set_umask_def], of lg] by (simp add: one_reply_def)
qed

text \<open>The calls for requests that the kernel waits for: all but the two forgets (opcodes 2 and 42).\<close>

definition waited_call :: "'t lenv \<Rightarrow> nat \<Rightarrow> ino \<Rightarrow> ('t lib ll \<Rightarrow> 't lib ll c) \<Rightarrow> bool" where
  "waited_call E a n g \<longleftrightarrow> (\<exists>q. kcode q \<noteq> 2 \<and> kcall (fuse_path_ops E) a n q = Some g) \<or> (\<exists>buf offs fi. g = run (fuse_lib_write_buf E a n buf offs fi))
     \<or> (\<exists>fi l. g = run (fuse_lib_getlk E a n fi l)) \<or> (\<exists>fi l sleep. g = run (fuse_lib_setlk E a n fi l sleep))
     \<or> (\<exists>fi lop. g = run (fuse_lib_flock E a n fi lop)) \<or> (\<exists>fi h. g = run (fuse_lib_poll E a n fi h))"

lemma waited_lib_call: "waited_call E a n g \<Longrightarrow> lib_call E a n g"
  unfolding waited_call_def lib_call_def by blast

lemma waited_call_replies:
  assumes "logs lg E" "waited_call E a n g" "reqs L a = Some r" "g L = Inr L'"
  shows "one_reply lg r L L'"
proof -
  note R = handlers_reply [OF assms(1), THEN run_replies, OF assms(3)] handlers_reply [OF assms(1), THEN umask_replies, OF assms(3)]
  have "one_reply lg r L L'" if "kcall (fuse_path_ops E) a n q = Some g" "kcode q \<noteq> 2" for q
    using that assms(4) by (cases q) (auto simp: fuse_path_ops_def dest: R)
  then show ?thesis using assms(2,4) unfolding waited_call_def by (auto dest: R)
qed

text \<open>
  (C37) Every request that the kernel waits for, which is every one but the forgets, is answered exactly once. Whatever the filesystem does, when a handler of
  the path library returns, one message has been sent since it was called: it went to the channel of the request, its header gives its
  length, the number of the request and an error number that the protocol allows. The request is freed and on no
  list, and no other request and nothing else of the connection has changed. Messages are counted in a journal that every
  \<open>fuse_chan_send\<close> writes to; the filesystem sends nothing itself. Read replies are those of the build without \<open>splice\<close>.
\<close>

theorem request_answered_once:
  assumes "logs lg E" "waited_call E a n g" "reqs L a = Some r" "fuse_req.ctr r = 1" "g L = Inr L'"
  shows "\<exists>w ch iov err body. L' = freed a (L\<lparr>lworld := w\<rparr>) \<and> rch r = Some ch \<and> lg (usr (lib_of L')) = lg (usr (lib_of L)) @ [(ch, Some iov)]
    \<and> - 1000 < err \<and> err \<le> 0 \<and> concat iov = out_header (16 + length body) err (unique r) @ body"
proof -
  obtain w where w: "L' = freed a (L\<lparr>lworld := w\<rparr>)" using call_answered [OF waited_lib_call [OF assms(2)] assms(3-5)] by blast
  show ?thesis using waited_call_replies [OF assms(1-3,5)] w unfolding one_reply_def journal_def by blast
qed

lemma sample_logs: "logs (\<lambda>l. l) sample_env"
proof -
  have "fs_ops (\<lambda>_. True) (\<lambda>s. usr s = l) (op (v_fs sample_env))" for l :: sent
    by unfold_locales (auto simp: sample_env_def no_ops_def pres_def retm_def)
  then show ?thesis by (auto simp: logs_def kernel_pres_def) (auto simp: sample_env_def lib_send_def)
qed

theorem request_answered_once_witness:
  "\<forall>f. \<exists>L' iov err body. run (fuse_lib_fsync sample_env 5 7 False (fi_fh 3)) (sample_lib_ll True f) = Inr L' \<and> reqs L' = Map.empty \<and> req_list L' = []
     \<and> usr (lib_of L') = [(2, Some iov)] \<and> concat iov = out_header (16 + length body) err 42 @ body"
proof
  fix f
  let ?L = "sample_lib_ll True f" and ?g = "run (fuse_lib_fsync sample_env 5 7 False (fi_fh 3))"
  have "\<exists>L'. ?g ?L = Inr L'"
    by (simp add: run_def fuse_lib_fsync_def req_fuse_prepare_def the_req_def with_path_def lib_get_path_nullok_def asks_def lib_of_def set_lib_def interruptible_def
        fuse_prepare_interrupt_def fuse_finish_interrupt_def fuse_req_interrupt_func_def mod_req_def fst_of_def fs_call_def ctx_call_def ctx_of_def world_of_def
        fuse_fs_fsync_def dispatch_def set_context_def lib_free_path_def free_path_def change_nodes_def on_nodes_def lib_reply_err_def fuse_reply_err_def
        send_reply_def send_reply_iov_def fuse_send_reply_iov_nofree_def fuse_send_msg_def fuse_free_req_def list_del_req_def destroy_req_def
        sample_lib_defs no_ops_def retm_def req0_def Let_def)
  then obtain L' where L': "?g ?L = Inr L'" by blast
  have "kcall (fuse_path_ops sample_env) 5 7 (KFsync 3 0) = Some ?g" "kcode (KFsync 3 0) \<noteq> 2" by (simp_all add: fuse_path_ops_def)
  then have c: "waited_call sample_env 5 7 ?g" unfolding waited_call_def by blast
  have r: "reqs ?L 5 = Some (req0\<lparr>unique := 42, rch := Some 2\<rparr>)" "fuse_req.ctr (req0\<lparr>unique := 42, rch := Some 2\<rparr>) = 1" by (simp_all add: sample_lib_ll_def req0_def)
  obtain w ch iov err body where a: "L' = freed 5 (?L\<lparr>lworld := w\<rparr>)" "rch (req0\<lparr>unique := 42, rch := Some 2\<rparr>) = Some ch"
      "usr (lib_of L') = usr (lib_of ?L) @ [(ch, Some iov)]" "concat iov = out_header (16 + length body) err (unique (req0\<lparr>unique := 42, rch := Some 2\<rparr>)) @ body"
    using request_answered_once [OF sample_logs c r L'] by (elim exE conjE) (rule that)
  have "reqs L' = Map.empty \<and> req_list L' = [] \<and> usr (lib_of L') = [(2, Some iov)] \<and> concat iov = out_header (16 + length body) err 42 @ body"
    using a(2-4) unfolding a(1) by (auto simp: freed_def list_del_req_def sample_lib_ll_def sample_lib_def lib_of_def)
  then show "\<exists>L' iov err body. ?g ?L = Inr L' \<and> reqs L' = Map.empty \<and> req_list L' = [] \<and> usr (lib_of L') = [(2, Some iov)]
      \<and> concat iov = out_header (16 + length body) err 42 @ body" using L' by blast
qed

end
