(* ===== verification/Fuse_Calm.thy ===== *)
theory Fuse_Calm
  imports Fuse_Answers
begin

text \<open>
  One request at a time: when no other request holds a path, a handler takes the path of its node without a wait, calls the filesystem
  on the text of the path, gives back every lock and replies with what the filesystem returned.
\<close>

section \<open>Paths without contention\<close>

definition calm :: "fuse \<Rightarrow> bool" where
  "calm f \<longleftrightarrow> lock_of f = (\<lambda>_. 0) \<and> tick_of f = (\<lambda>_. 0)"

definition kept :: "fuse \<Rightarrow> fuse \<Rightarrow> bool" where
  "kept f f' \<longleftrightarrow> same_tree f f' \<and> lock_of f' = lock_of f \<and> tick_of f' = tick_of f"

lemma kept_refl [simp]: "kept f f" "kept f (f\<lparr>coins := cs\<rparr>)"
  by (simp_all add: kept_def)

lemma kept_trans: "kept f g \<Longrightarrow> kept g h \<Longrightarrow> kept f h"
  by (auto simp: kept_def intro: same_tree_trans)

lemma kept_nodes: "kept f g \<Longrightarrow> nodes g = nodes f"
proof
  fix a
  assume k: "kept f g"
  show "nodes g a = nodes f a"
  proof (cases "nodes f a")
    case None
    then show ?thesis using k same_tree_ok(2) [of f g] by (auto simp: kept_def domIff fun_eq_iff)
  next
    case (Some nd)
    then have "nodes g a = Some (nd\<lparr>treelock := lock_of f a, ticket := tick_of f a\<rparr>)" using same_tree_node [of f g a nd] k by (simp add: kept_def)
    then show ?thesis using Some by (simp add: lock_of_def tick_of_def)
  qed
qed

lemma release_loop_clears:
  assumes "segment f a ys c" "distinct ys" "c \<notin> set ys" "length ys < fuel" "\<forall>x \<in> set ys. tick_of f x = t" "at_root f c \<or> tick_of f c \<noteq> t"
  shows "\<exists>f'. release_loop fuel (Some a) t f = Inr f' \<and> same_tree f f' \<and> lock_of f' = lock_of f \<and> tick_of f' = (\<lambda>x. if x \<in> set ys then 0 else tick_of f x)"
  using assms
proof (induction ys arbitrary: f a fuel)
  case Nil
  then have "release_loop fuel (Some a) t f = Inr f" by (cases fuel) (auto simp: at_root_def tick_of_def getn_def)
  then show ?case by simp
next
  case (Cons x ys)
  obtain k where k: "fuel = Suc k" "length ys < k" using Cons.prems(4) by (cases fuel) auto
  obtain nd s p where nd: "nodes f a = Some nd" "nodeid nd \<noteq> FUSE_ROOT_ID" "name nd = Some s" "parent nd = Some p" "segment f p ys c" "x = a"
    using Cons.prems(1) by auto
  define g where "g = relock a (lock_of f a) 0 f"
  note e = relock_effect(1-3) [OF nd(1), where l = "lock_of f a" and t = 0, folded g_def]
  have t: "ticket nd = t" using Cons.prems(5) nd(1,6) by (simp add: tick_of_def)
  have "modn a (\<lambda>nd. nd\<lparr>ticket := 0\<rparr>) f = Inr g" using relock_effect(6) [OF nd(1)] by (simp add: g_def)
  then have run: "release_loop fuel (Some a) t f = release_loop k (Some p) t g" using k(1) nd t by (simp add: getn_def)
  have a: "a \<notin> set ys" "distinct ys" "c \<notin> set ys" "c \<noteq> a" using Cons.prems(2,3) nd(6) by auto
  have "segment g p ys c" using nd(5) same_tree_segment [OF e(1)] by simp
  moreover have "\<forall>y \<in> set ys. tick_of g y = t" using Cons.prems(5) e(3) a(1) by auto
  moreover have "at_root g c \<or> tick_of g c \<noteq> t" using Cons.prems(6) same_tree_ok(5) [OF e(1)] e(3) a(4) by auto
  ultimately obtain f' where f': "release_loop k (Some p) t g = Inr f'" "same_tree g f'" "lock_of f' = lock_of g" "tick_of f' = (\<lambda>x. if x \<in> set ys then 0 else tick_of g x)"
    using Cons.IH [of g p k] a(2,3) k(2) by blast
  have "lock_of f' = lock_of f" using f'(3) e(2) by (simp add: fun_eq_iff)
  moreover have "tick_of f' = (\<lambda>y. if y \<in> set (x # ys) then 0 else tick_of f y)" using f'(4) e(3) nd(6) by (auto simp: fun_eq_iff)
  ultimately show ?case using run f'(1) same_tree_trans [OF e(1) f'(2)] by simp
qed

text \<open>The first nodes of the way were taken when the search failed.\<close>

lemma failed_calm:
  assumes "tree_ok f" "calm f" "nodes f a = Some nd" "segment f a ys c" "taken f g ys" "t \<noteq> 0" "err \<noteq> - EAGAIN"
  shows "\<exists>h. bindc (unlock_path (nodeid nd) None (Some c) t g) (path_failed err (nodeid nd) None t) = Inr ((err, None, None), h) \<and> kept f h"
proof -
  have z: "lock_of f = (\<lambda>_. 0)" "tick_of f = (\<lambda>_. 0)" using assms(2) by (simp_all add: calm_def)
  have tk: "same_tree f g" "lock_of g = (\<lambda>x. if x \<in> set ys then 1 else 0)" "tick_of g = (\<lambda>_. 0)" using assms(5) z by (auto simp: taken_def)
  have g: "tree_ok g" "nodes g a = Some (nd\<lparr>treelock := lock_of g a, ticket := tick_of g a\<rparr>)" "segment g a ys c"
    using same_tree_ok(1) [OF tk(1)] same_tree_node [OF tk(1) assms(3)] same_tree_segment [OF tk(1)] assms(1,4) by simp_all
  obtain u where u: "unlock_path (nodeid nd) None (Some c) t g = Inr u" "same_tree g u" "lock_of u = (\<lambda>_. 0)" "tick_of u = (\<lambda>x. if x \<in> set ys then t else 0)"
    using unlock_path_ok [OF g, of "Some c" None t] tk(2,3) by (auto simp: fun_eq_iff)
  have st: "same_tree f u" using same_tree_trans [OF tk(1) u(2)] .
  have v: "tree_ok u" "segment u a ys c" "the_node u (nodeid nd) = Inr a"
    using same_tree_ok(1) [OF st] same_tree_segment [OF st] assms(1,4) node_found [of u a] same_tree_node [OF st assms(3)] by fastforce+
  have d: "distinct ys" "c \<notin> set ys" using segment_distinct [OF tree_okD(3) [OF assms(1)] assms(4)] by auto
  have len: "length ys < use (id_table u) + 2" using segment_len [OF v(1,2)] by simp
  obtain h where h: "release_loop (use (id_table u) + 2) (Some a) t u = Inr h" "same_tree u h" "lock_of h = lock_of u" "tick_of h = (\<lambda>x. if x \<in> set ys then 0 else tick_of u x)"
    using release_loop_clears [OF v(2) d len, of t] u(4) d(2) assms(6) by auto
  have "path_failed err (nodeid nd) None t u = Inr ((err, None, None), h)" using h(1) v(3) assms(6,7) by (simp add: path_failed_def release_tickets_def)
  moreover have "kept f h" using same_tree_trans [OF st h(2)] h(3,4) u(3,4) z by (auto simp: kept_def fun_eq_iff)
  ultimately show ?thesis using u(1) by auto
qed

lemma taken_none [simp]: "taken f (f\<lparr>coins := cs\<rparr>) []"
  by (simp add: taken_def)

lemma nothing_taken:
  assumes "tree_ok f" "calm f" "nodes f a = Some nd" "t \<noteq> 0" "err \<noteq> - EAGAIN"
  shows "\<exists>h. path_failed err (nodeid nd) None t (f\<lparr>coins := cs\<rparr>) = Inr ((err, None, None), h) \<and> kept f h"
proof -
  have "nodes (f\<lparr>coins := cs\<rparr>) a = Some nd" using assms(3) by simp
  moreover have "the_node (f\<lparr>coins := cs\<rparr>) (nodeid nd) = Inr a" using node_found [of "f\<lparr>coins := cs\<rparr>" a nd] assms(1,3) same_tree_ok(1) [OF coins_effect(1)] by simp
  moreover have "ticket nd = 0" using assms(2,3) by (auto simp: calm_def tick_of_def fun_eq_iff split: option.splits)
  ultimately show ?thesis using assms(4,5) by (auto simp: path_failed_def release_tickets_def getn_def intro!: exI [of _ "f\<lparr>coins := cs\<rparr>"])
qed

definition calm_outcome :: "fuse \<Rightarrow> nat list \<Rightarrow> nat \<Rightarrow> string option \<Rightarrow> int \<times> string option \<times> nat option \<Rightarrow> fuse \<Rightarrow> bool" where
  "calm_outcome f xs z nm res g \<longleftrightarrow> (res = (0, Some (full_path f xs nm), None) \<and> at_root f z \<and> taken f g xs)
     \<or> (kept f g \<and> (res = (- ENOMEM, None, None) \<or> res = (- ENOENT, None, None) \<and> \<not> at_root f z))"

lemma walk_calm:
  assumes "tree_ok f" "calm f" "nodes f a = Some nd" "segment f a xs z" "at_end f z" "t \<noteq> 0"
    and "buf_ok b" "ptext b = suffix_of nm" "length (climb f xs) + length (suffix_of nm) + 2 < 2 ^ 32"
  shows "\<exists>res g. bindc (path_loop (use (id_table f) + 2) a b t f) (\<lambda>(res, f). case res of
        Inl (err, stop) \<Rightarrow> bindc (if t \<noteq> 0 then unlock_path (nodeid nd) None (Some stop) t f else Inr f) (path_failed err (nodeid nd) None t)
      | Inr b \<Rightarrow> Inr ((0, Some (if ptext b \<noteq> [] then ptext b else ''/''), None), f)) = Inr (res, g) \<and> calm_outcome f xs z nm res g"
proof -
  have z: "lock_of f = (\<lambda>_. 0)" "tick_of f = (\<lambda>_. 0)" using assms(2) by (simp_all add: calm_def)
  have d: "distinct xs" using segment_distinct [OF tree_okD(3) [OF assms(1)] assms(4)] by simp
  have len: "length xs < use (id_table f) + 2" using segment_len [OF assms(1,4)] by simp
  have lt: "\<forall>x \<in> set xs. lock_of f x < int_max" using z by (simp add: int_max_def)
  have lb: "length (climb f xs) + length (ptext b) + 2 < 2 ^ 32" using assms(8,9) by simp
  obtain r g where r: "path_loop (use (id_table f) + 2) a b t f = Inr (r, g)" "climbed f t a xs z (ptext b) r g"
    using path_loop_ok [OF assms(4,5) d len assms(6) lt assms(7) lb] by blast
  obtain ys zs c where y: "xs = ys @ zs" "segment f a ys c" "segment f c zs z" "taken f g ys"
      "case r of Inr b' \<Rightarrow> zs = [] \<and> at_root f z \<and> ptext b' = climb f xs @ ptext b
        | Inl (err, stop) \<Rightarrow> stop = c \<and> (err = - ENOENT \<and> zs = [] \<and> \<not> at_root f z \<or> err = - ENOMEM
            \<or> err = - EAGAIN \<and> zs \<noteq> [] \<and> (lock_of f c = -1 \<or> tick_of f c \<notin> {0, t}))"
    using r(2) unfolding climbed_def by blast
  show ?thesis
  proof (cases r)
    case (Inr b')
    then have "xs = ys" "at_root f z" "ptext b' = climb f xs @ suffix_of nm" using y(1,5) assms(8) by auto
    then show ?thesis using r(1) Inr y(4) by (auto simp: calm_outcome_def full_path_def suffix_of_def Let_def)
  next
    case (Inl e)
    obtain err stop where e: "e = (err, stop)" by (cases e)
    have es: "stop = c" "err = - ENOENT \<and> \<not> at_root f z \<or> err = - ENOMEM" using y(5) Inl e z by auto
    then have "err \<noteq> - EAGAIN" by auto
    then obtain h where "bindc (unlock_path (nodeid nd) None (Some c) t g) (path_failed err (nodeid nd) None t) = Inr ((err, None, None), h)" "kept f h"
      using failed_calm [OF assms(1,2,3) y(2,4) assms(6)] by blast
    then show ?thesis using r(1) Inl e es assms(6) by (auto simp: calm_outcome_def)
  qed
qed

lemma calm_outcome_kept: "calm_outcome h xs z nm res g \<Longrightarrow> kept f h \<Longrightarrow> calm_outcome f xs z nm res g"
proof -
  assume *: "calm_outcome h xs z nm res g" "kept f h"
  have s: "same_tree f h" "lock_of h = lock_of f" "tick_of h = tick_of f" using *(2) by (simp_all add: kept_def)
  have t: "taken h g xs \<Longrightarrow> taken f g xs" unfolding taken_def s(2) s(3) using same_tree_trans [OF s(1)] by simp
  have k: "kept h g \<Longrightarrow> kept f g" using kept_trans *(2) by blast
  show ?thesis using *(1) t k unfolding calm_outcome_def full_path_def same_tree_ok(5) [OF s(1)] same_tree_climb [OF s(1)] by auto
qed

lemma try_calm:
  assumes "tree_ok f" "calm f" "nodes f a = Some nd" "segment f a xs z" "at_end f z" "t \<noteq> 0"
    and "length (climb f xs) + length (suffix_of nm) + 2 < 2 ^ 32"
  shows "\<exists>res g. try_get_path (nodeid nd) nm False t f = Inr (res, g) \<and> calm_outcome f xs z nm res g"
proof -
  obtain ok cs where c: "coin f = (ok, f\<lparr>coins := cs\<rparr>)" using coin_eq by blast
  have fail: "\<exists>res g. path_failed (- ENOMEM) (nodeid nd) None t (f\<lparr>coins := cs\<rparr>) = Inr (res, g) \<and> calm_outcome f xs z nm res g" for cs
    using nothing_taken [OF assms(1-3,6), of "- ENOMEM" cs] by (fastforce simp: calm_outcome_def)
  show ?thesis
  proof (cases ok)
    case False
    then show ?thesis using c fail by (simp add: try_get_path_def)
  next
    case True
    have "case nm of None \<Rightarrow> True | Some s \<Rightarrow> length s + 2 < 2 ^ 32" using assms(7) by (auto simp: suffix_of_def split: option.splits)
    then obtain r cs' where r: "(case nm of None \<Rightarrow> Inr (Some \<lparr>bufsize = 256, ptext = []\<rparr>, f\<lparr>coins := cs\<rparr>) | Some s \<Rightarrow> add_name s \<lparr>bufsize = 256, ptext = []\<rparr> (f\<lparr>coins := cs\<rparr>))
        = Inr (r, f\<lparr>coins := cs'\<rparr>)" "case r of None \<Rightarrow> True | Some b \<Rightarrow> buf_ok b \<and> ptext b = suffix_of nm"
      using first_name_ok [of nm "f\<lparr>coins := cs\<rparr>"] by auto
    show ?thesis
    proof (cases r)
      case None
      then show ?thesis using c True r(1) fail by (simp add: try_get_path_def)
    next
      case (Some b)
      let ?f = "f\<lparr>coins := cs'\<rparr>"
      have s: "same_tree f ?f" by simp
      have "tree_ok ?f" "calm ?f" "nodes ?f a = Some nd" "segment ?f a xs z" "at_end ?f z" "climb ?f xs = climb f xs"
        using assms(1-5) same_tree_ok(1) [OF s] same_tree_segment [OF s] same_tree_climb [OF s] by (simp_all add: calm_def at_end_def)
      moreover from this have the: "the_node ?f (nodeid nd) = Inr a" using node_found by blast
      moreover have "buf_ok b" "ptext b = suffix_of nm" using r(2) Some by auto
      ultimately obtain res g where w: "bindc (path_loop (use (id_table ?f) + 2) a b t ?f) (\<lambda>(res, f). case res of
          Inl (err, stop) \<Rightarrow> bindc (if t \<noteq> 0 then unlock_path (nodeid nd) None (Some stop) t f else Inr f) (path_failed err (nodeid nd) None t)
        | Inr b \<Rightarrow> Inr ((0, Some (if ptext b \<noteq> [] then ptext b else ''/''), None), f)) = Inr (res, g)" "calm_outcome ?f xs z nm res g"
        using walk_calm [of ?f a nd xs z t b nm] assms(6,7) by auto
      have "try_get_path (nodeid nd) nm False t f = Inr (res, g)"
        unfolding try_get_path_def c Let_def using True r(1) Some the w(1) by (simp del: path_loop.simps)
      then show ?thesis using calm_outcome_kept [OF w(2) kept_refl(2)] by blast
    qed
  qed
qed

lemma give_back_calm:
  assumes "tree_ok f" "calm f" "nodes f a = Some nd" "segment f a xs z" "at_root f z" "taken f g xs" "kept g g'"
  shows "\<exists>q h. free_path (nodeid nd) (Some p) g' = Inr (q, h) \<and> kept f h"
proof -
  have z: "lock_of f = (\<lambda>_. 0)" "tick_of f = (\<lambda>_. 0)" using assms(2) by (simp_all add: calm_def)
  have st: "same_tree f g'" using assms(6,7) same_tree_trans unfolding taken_def kept_def by blast
  have l: "lock_of g' = (\<lambda>x. if x \<in> set xs then 1 else 0)" "tick_of g' = (\<lambda>_. 0)" using assms(6,7) z by (auto simp: taken_def kept_def)
  have g: "tree_ok g'" "nodes g' a = Some (nd\<lparr>treelock := lock_of g' a, ticket := tick_of g' a\<rparr>)" "segment g' a xs z" "at_root g' z"
    using same_tree_ok(1,5) [OF st] same_tree_node [OF st assms(3)] same_tree_segment [OF st] assms(1,4,5) by simp_all
  obtain h where h: "unlock_path (nodeid nd) None None 0 g' = Inr h" "same_tree g' h" "lock_of h = (\<lambda>_. 0)" "tick_of h = (\<lambda>_. 0)"
    using unlock_path_ok [OF g(1-3), of None None 0] g(4) l by (auto simp: fun_eq_iff)
  then show ?thesis using same_tree_trans [OF st h(2)] z by (simp add: free_path_def free_path_wrlock_def kept_def)
qed

section \<open>Handlers\<close>

abbreviation tree_of :: "'t lib ll \<Rightarrow> fuse" where
  "tree_of L \<equiv> nds (lib_of L)"

lemma set_nodes [simp]: "tree_of (set_lib (\<lambda>l. l\<lparr>nds := g\<rparr>) L) = g" "fs_live (lib_of (set_lib (\<lambda>l. l\<lparr>nds := g\<rparr>) L)) = fs_live (lib_of L)"
  by (simp_all add: set_lib_def lib_of_def)

text \<open>The nodes on the way from a node, which is still below the root.\<close>

definition on_way :: "fuse \<Rightarrow> nat \<Rightarrow> nat list \<Rightarrow> bool" where
  "on_way f n xs \<longleftrightarrow> (\<exists>a nd z. nodes f a = Some nd \<and> nodeid nd = n \<and> segment f a xs z \<and> at_root f z)"

text \<open>No request is being served, and the number of the next ticket and the length of the path fit their types.\<close>

definition ready :: "fuse \<Rightarrow> nat list \<Rightarrow> string option \<Rightarrow> bool" where
  "ready f xs nm \<longleftrightarrow> tree_ok f \<and> calm f \<and> curr_ticket f < int_max \<and> length (climb f xs) + length (suffix_of nm) + 2 < 2 ^ 32"

lemma get_path_calm:
  assumes "ready (tree_of L) xs nm" "on_way (tree_of L) n xs"
  shows "\<exists>err p g. get_path_common n nm False L = Inr ((err, p, None), set_lib (\<lambda>l. l\<lparr>nds := g\<rparr>) L)
    \<and> (err = 0 \<and> p = Some (full_path (tree_of L) xs nm) \<and> taken (tree_of L) g xs \<or> err = - ENOMEM \<and> p = None \<and> kept (tree_of L) g)"
proof -
  let ?f = "tree_of L"
  obtain a nd z where o: "nodes ?f a = Some nd" "nodeid nd = n" "segment ?f a xs z" "at_root ?f z" using assms(2) by (auto simp: on_way_def)
  note R = assms(1) [unfolded ready_def]
  define t where "t = (if curr_ticket ?f = -1 then 1 else curr_ticket ?f + 1)"
  let ?g = "?f\<lparr>curr_ticket := t\<rparr>"
  have t: "get_ticket ?f = Inr (t, ?g)" "t \<noteq> 0" using R by (auto simp: get_ticket_def t_def Let_def)
  have k: "kept ?f ?g" by (simp add: kept_def same_tree_def lock_of_def tick_of_def fun_eq_iff)
  then have s: "same_tree ?f ?g" by (simp add: kept_def)
  have e: "at_end ?g z" using o(4) by (auto simp: at_root_def at_end_def)
  have "tree_ok ?g" "calm ?g" "nodes ?g a = Some nd" "segment ?g a xs z" "length (climb ?g xs) + length (suffix_of nm) + 2 < 2 ^ 32"
    using R o same_tree_ok(1) [OF s] same_tree_segment [OF s] same_tree_climb [OF s] k by (simp_all add: calm_def kept_def)
  then obtain res g where g: "try_get_path n nm False t ?g = Inr (res, g)" "calm_outcome ?f xs z nm res g"
    using try_calm [of ?g a nd xs z t nm] e t(2) o(2) calm_outcome_kept [OF _ k] by blast
  obtain err p where r: "res = (err, p, None)" "err \<noteq> - EAGAIN"
      "err = 0 \<and> p = Some (full_path ?f xs nm) \<and> taken ?f g xs \<or> err = - ENOMEM \<and> p = None \<and> kept ?f g"
    using g(2) o(4) by (auto simp: calm_outcome_def)
  have "get_path_common n nm False L = Inr ((err, p, None), set_lib (\<lambda>l. l\<lparr>nds := g\<rparr>) L)"
    using t(1) g(1) r(1,2) by (simp add: get_path_common_def on_nodes_def get_path_first_def no_wait_def)
  then show ?thesis using r(3) by blast
qed

lemma interrupt_set: "reqs L q = Some r \<Longrightarrow> \<exists>K. fuse_req_interrupt_func (H\<lparr>h_intr := fuse_interrupt\<rparr>) q fn d L = Inr K \<and> lworld K = lworld L"
  by (cases fn) (auto simp: fuse_req_interrupt_func_def mod_req_def the_req_def fuse_interrupt_def)

lemma prepare_finish:
  assumes "reqs L q = Some r"
  shows "\<exists>K. fuse_prepare_interrupt E q L = Inr ((), K) \<and> lworld K = lworld L" "\<exists>K. fuse_finish_interrupt E q L = Inr ((), K) \<and> lworld K = lworld L"
  using interrupt_set [OF assms, of "v_host E" "Some 1" "v_stack E"] interrupt_set [OF assms, of "v_host E" None 0]
  by (auto simp: fuse_prepare_interrupt_def fuse_finish_interrupt_def)

text \<open>A part of a handler that returns and does not touch the nodes, as a call of a filesystem does.\<close>

definition tame :: "('t, 'a) lm \<Rightarrow> bool" where
  "tame m \<longleftrightarrow> (\<forall>L. fs_live (lib_of L) \<longrightarrow> (\<exists>x K. m L = Inr (x, K) \<and> tree_of K = tree_of L))"

lemma interruptible_tame:
  assumes "tame m" "leaves q m" "reqs L q = Some r" "fs_live (lib_of L)"
  shows "\<exists>x K M M'. interruptible E q m L = Inr (x, K) \<and> tree_of K = tree_of L \<and> m M = Inr (x, M') \<and> tree_of M = tree_of L"
proof -
  obtain M where M: "fuse_prepare_interrupt E q L = Inr ((), M)" "lworld M = lworld L" using prepare_finish(1) [OF assms(3)] by blast
  have rM: "\<exists>p. reqs M q = Some p" using M(1) assms(3) by (auto simp: fuse_prepare_interrupt_def bindc_eq_Inr split: if_splits dest!: interrupt_func_still still_open)
  have "fs_live (lib_of M)" using assms(4) M(2) by (simp add: lib_of_def)
  then obtain x M' where M': "m M = Inr (x, M')" "tree_of M' = tree_of M" using assms(1) unfolding tame_def by blast
  obtain p' where "reqs M' q = Some p'" using still_open [OF leavesD [OF assms(2) M'(1)]] rM by blast
  then obtain K where K: "fuse_finish_interrupt E q M' = Inr ((), K)" "lworld K = lworld M'" using prepare_finish(2) by blast
  have "interruptible E q m L = Inr (x, K)" using M(1) M'(1) K(1) by (simp add: interruptible_def)
  then show ?thesis using M(2) M' K(2) by (intro exI [of _ x] exI [of _ K] exI [of _ M] exI [of _ M']) (simp add: lib_of_def)
qed

lemma on_path_calm:
  assumes "ready (tree_of L) xs None" "on_way (tree_of L) n xs" "reqs L q = Some r" "fs_live (lib_of L)"
    and "tame (body (Some (full_path (tree_of L) xs None)))" "leaves q (body (Some (full_path (tree_of L) xs None)))"
  shows "\<exists>x K. with_path E q n (lib_get_path n) failed body L = Inr (x, K) \<and> kept (tree_of L) (tree_of K)
    \<and> (x = failed (- ENOMEM) \<or> (\<exists>M M'. body (Some (full_path (tree_of L) xs None)) M = Inr (x, M') \<and> taken (tree_of L) (tree_of M) xs))"
proof -
  let ?f = "tree_of L"
  let ?p = "Some (full_path ?f xs None)"
  obtain err p g where g: "get_path_common n None False L = Inr ((err, p, None), set_lib (\<lambda>l. l\<lparr>nds := g\<rparr>) L)"
      "err = 0 \<and> p = ?p \<and> taken ?f g xs \<or> err = - ENOMEM \<and> p = None \<and> kept ?f g"
    using get_path_calm [OF assms(1,2)] by blast
  let ?L = "set_lib (\<lambda>l. l\<lparr>nds := g\<rparr>) L"
  from g(2) show ?thesis
  proof
    assume "err = - ENOMEM \<and> p = None \<and> kept ?f g"
    then show ?thesis using g(1) by (simp add: with_path_def lib_get_path_def)
  next
    assume ok: "err = 0 \<and> p = ?p \<and> taken ?f g xs"
    have q: "reqs ?L q = Some r" "fs_live (lib_of ?L)" using assms(3,4) by (simp_all add: set_lib_def lib_of_def)
    obtain x K M M' where k: "interruptible E q (body ?p) ?L = Inr (x, K)" "tree_of K = g" "body ?p M = Inr (x, M')" "tree_of M = g"
      using interruptible_tame [OF assms(5,6) q, of E] unfolding set_nodes by blast
    obtain a nd z where o: "nodes ?f a = Some nd" "nodeid nd = n" "segment ?f a xs z" "at_root ?f z" using assms(2) by (auto simp: on_way_def)
    note R = assms(1) [unfolded ready_def]
    obtain u h where h: "free_path n ?p g = Inr (u, h)" "kept ?f h"
      using give_back_calm [of ?f a nd xs z g g "full_path ?f xs None"] R o ok by auto
    have "with_path E q n (lib_get_path n) failed body L = Inr (x, set_lib (\<lambda>l. l\<lparr>nds := h\<rparr>) K)"
      using g(1) ok k(1,2) h(1) by (simp add: with_path_def lib_get_path_def lib_free_path_def change_nodes_def on_nodes_def)
    then show ?thesis using h(2) k(3,4) ok by auto
  qed
qed

text \<open>An operation of a filesystem that returns and leaves the library's nodes alone.\<close>

definition tame_call :: "('t lib, 'a) call \<Rightarrow> bool" where
  "tame_call m \<longleftrightarrow> (\<forall>c. \<exists>res c'. m c = Inr (res, c') \<and> nds (os_state (wrld c')) = nds (os_state (wrld c)))"

lemma fs_call_runs:
  assumes "fs_call m L = Inr (x, K)"
  shows "\<exists>c c'. m c = Inr (x, c') \<and> nds (os_state (wrld c)) = tree_of L"
  using assms by (auto simp: fs_call_def ctx_call_def bindc_eq_Inr ctx_of_def lib_of_def Let_def split: if_splits)

lemma tame_fs_call: "tame_call m \<Longrightarrow> tame (fs_call m)"
proof -
  assume t: "tame_call m"
  show ?thesis unfolding tame_def
  proof (intro allI impI)
    fix L :: "'a lib ll"
    assume "fs_live (lib_of L)"
    moreover obtain x c where "m (ctx_of (lworld L)) = Inr (x, c)" "nds (os_state (wrld c)) = nds (os_state (wrld (ctx_of (lworld L))))"
      using t unfolding tame_call_def by blast
    moreover have "wrld (ctx_of (lworld L)) = lworld L" by (simp add: ctx_of_def Let_def)
    ultimately show "\<exists>x K. fs_call m L = Inr (x, K) \<and> tree_of K = tree_of L"
      by (simp add: fs_call_def ctx_call_def lib_of_def world_of_def)
  qed
qed

lemma reply_from:
  assumes "still q L K" "reqs L q = Some r" "fuse_req.ctr r = 1" "rch r = Some ch"
  shows "\<exists>iov. lib_reply_err E q err K = Inr ((), freed q (L\<lparr>lworld := snd (h_send (v_host E) ch (Some iov) (lworld K))\<rparr>))
    \<and> concat iov = out_header 16 (if - 1000 < err \<and> err \<le> 0 then err else - ERANGE) (unique r)"
proof -
  obtain k where k: "reqs K q = Some k" "fuse_req.ctr k = 1" "rch k = Some ch" "unique k = unique r" using still_open [OF assms(1,2)] assms(3,4) by auto
  have e: "(if 0 \<le> - err \<and> - err < 1000 then - (- err) else - ERANGE) = (if - 1000 < err \<and> err \<le> 0 then err else - ERANGE)" by auto
  obtain iov where i: "concat iov = out_header 16 (if - 1000 < err \<and> err \<le> 0 then err else - ERANGE) (unique r)"
      "fuse_reply_err (h_send (v_host E)) q (- err) K
        = Inr (fst (h_send (v_host E) ch (Some iov) (lworld K)), freed q (K\<lparr>lworld := snd (h_send (v_host E) ch (Some iov) (lworld K))\<rparr>))"
    using reply_err_sends [OF k(1-3), of "h_send (v_host E)" "- err"] unfolding e sent_reply_def sizeof_out_header_def k(4) by auto
  show ?thesis using i still_freed [OF assms(1)] by (intro exI [of _ iov]) (simp add: lib_reply_err_def)
qed

text \<open>The handlers that do no more than call the filesystem with the path of a node and reply with its result.\<close>

definition path_op :: "'t lenv \<Rightarrow> nat \<Rightarrow> nat \<Rightarrow> (path \<Rightarrow> ('t lib, int) call) \<Rightarrow> ('t, unit) lm" where
  "path_op E q n call = bindl (req_fuse_prepare q) (\<lambda>_. bindl (with_path E q n (lib_get_path n) (\<lambda>e. e) (\<lambda>p. fs_call (call p))) (lib_reply_err E q))"

lemma path_op_handlers:
  "fuse_lib_access E q ino m = path_op E q (unat ino) (\<lambda>p. fuse_fs_access (v_fs E) p (sint m))"
  "fuse_lib_removexattr E q ino s = path_op E q (unat ino) (\<lambda>p. fuse_fs_removexattr (v_fs E) p s)"
  by (simp_all add: fuse_lib_access_def fuse_lib_removexattr_def path_op_def)

text \<open>
  A request on a node of the tree is served on the right path and leaves no lock behind: when no other request is being served, the handler takes
  the path at once, the filesystem is called on the names from the root down to the node, with all nodes on the way locked against changes, then every lock is given back, and the one message
  that is sent tells the kernel the filesystem's result, or that there was no memory for the path.
\<close>

lemma path_request_served:
  assumes "ready (tree_of L) xs None" "on_way (tree_of L) n xs" "reqs L q = Some r" "fuse_req.ctr r = 1" "rch r = Some ch" "fs_live (lib_of L)"
    and "tame_call (call (Some (full_path (tree_of L) xs None)))"
  shows "\<exists>err w iov. path_op E q n call L = Inr ((), freed q (L\<lparr>lworld := snd (h_send (v_host E) ch (Some iov) w)\<rparr>)) \<and> nodes (nds (os_state w)) = nodes (tree_of L)
    \<and> concat iov = out_header 16 (if - 1000 < err \<and> err \<le> 0 then err else - ERANGE) (unique r)
    \<and> (err = - ENOMEM \<or> (\<exists>c c'. call (Some (full_path (tree_of L) xs None)) c = Inr (err, c') \<and> taken (tree_of L) (nds (os_state (wrld c))) xs))"
proof -
  let ?f = "tree_of L"
  let ?p = "Some (full_path ?f xs None)"
  let ?body = "\<lambda>p. fs_call (call p)"
  define L1 where "L1 = set_lib (\<lambda>l. l\<lparr>cur_req := Some q, cur_ctx := rctx r\<rparr>) L"
  have p: "req_fuse_prepare q L = Inr ((), L1)" using assms(3) by (simp add: req_fuse_prepare_def the_req_def L1_def)
  have l: "tree_of L1 = ?f" "reqs L1 q = Some r" "fs_live (lib_of L1)" using assms(3,6) by (simp_all add: L1_def set_lib_def lib_of_def)
  have b: "leaves q (?body ?p)" by (intro lv)
  obtain err K where k: "with_path E q n (lib_get_path n) (\<lambda>e. e) ?body L1 = Inr (err, K)" "kept ?f (tree_of K)"
      "err = - ENOMEM \<or> (\<exists>M M'. ?body ?p M = Inr (err, M') \<and> taken ?f (tree_of M) xs)"
    using on_path_calm [of L1 xs n q r ?body E "\<lambda>e. e", unfolded l(1), OF assms(1,2) l(2,3) tame_fs_call [OF assms(7)] b] by blast
  have lo: "leaves q (with_path E q n (lib_get_path n) (\<lambda>e. e) ?body)" by (intro lv)
  have "still q L1 K" by (rule leavesD [OF lo k(1)])
  moreover have "still q L L1" by (simp add: L1_def)
  ultimately have st: "still q L K" using still_trans by blast
  obtain iov where i: "lib_reply_err E q err K = Inr ((), freed q (L\<lparr>lworld := snd (h_send (v_host E) ch (Some iov) (lworld K))\<rparr>))"
      "concat iov = out_header 16 (if - 1000 < err \<and> err \<le> 0 then err else - ERANGE) (unique r)"
    using reply_from [OF st assms(3-5), of E err] by blast
  have "err = - ENOMEM \<or> (\<exists>c c'. call ?p c = Inr (err, c') \<and> taken ?f (nds (os_state (wrld c))) xs)"
    using k(3)
  proof
    assume "\<exists>M M'. ?body ?p M = Inr (err, M') \<and> taken ?f (tree_of M) xs"
    then obtain M M' where M: "?body ?p M = Inr (err, M')" "taken ?f (tree_of M) xs" by blast
    then show ?thesis using fs_call_runs [OF M(1)] by auto
  qed simp
  moreover have "path_op E q n call L = Inr ((), freed q (L\<lparr>lworld := snd (h_send (v_host E) ch (Some iov) (lworld K))\<rparr>))" using p k(1) i(1) by (simp add: path_op_def)
  moreover have "nodes (nds (os_state (lworld K))) = nodes ?f" using kept_nodes [OF k(2)] by (simp add: lib_of_def)
  ultimately show ?thesis using i(2) by blast
qed

text \<open>A tree with all locks free.\<close>

definition cleared :: "fuse \<Rightarrow> fuse" where
  "cleared f = f\<lparr>nodes := (\<lambda>a. map_option unlocked (nodes f a)), curr_ticket := 0\<rparr>"

lemma cleared_ready:
  assumes "tree_ok f" "nodes f r = Some rn" "nodeid rn = FUSE_ROOT_ID"
  shows "ready (cleared f) [] None" "on_way (cleared f) FUSE_ROOT_ID []"
proof -
  have u: "unlocked \<circ> unlocked = unlocked" by (auto simp: unlocked_def)
  have s: "same_tree f (cleared f)" by (simp add: same_tree_def cleared_def option.map_comp u)
  have "calm (cleared f)" by (auto simp: calm_def cleared_def lock_of_def tick_of_def unlocked_def fun_eq_iff split: option.splits)
  then show "ready (cleared f) [] None" using same_tree_ok(1) [OF s] assms(1) by (simp add: ready_def cleared_def int_max_def suffix_of_def)
  show "on_way (cleared f) FUSE_ROOT_ID []" using assms(2,3)
    unfolding on_way_def by (intro exI [of _ r] exI [of _ "unlocked rn"]) (simp add: cleared_def at_root_def unlocked_def)
qed

end
