(* ===== verification/Fuse_Hide.thy ===== *)
theory Fuse_Hide
  imports Fuse_Lib
begin

text \<open>
  Files that are removed while they are open (\<open>hidden_name\<close> and \<open>hide_node\<close> in \<open>src/lib/fuse.c\<close>): the search for a new name
  ends, with a name that no node of the directory has and that fits into the buffer for it.
\<close>

section \<open>Hexadecimal numbers\<close>

lemma hex_of_inj: "hex_of a = hex_of b \<Longrightarrow> a mod 16 = b mod 16"
proof -
  have *: "distinct ''0123456789abcdef''" by simp
  assume "hex_of a = hex_of b"
  moreover have "a mod 16 < length ''0123456789abcdef''" "b mod 16 < length ''0123456789abcdef''" by simp_all
  ultimately show ?thesis unfolding hex_of_def using nth_eq_iff_index_eq [OF *] by blast
qed

lemma hex8_length [simp]: "length (hex8 n) = 8"
  by (simp add: hex8_def)

lemma digits_eq: "(\<And>i. i < k \<Longrightarrow> a div 16 ^ i mod 16 = b div 16 ^ i mod 16) \<Longrightarrow> a mod 16 ^ k = b mod (16 ^ k :: nat)"
proof (induction k)
  case (Suc k)
  have "a mod 16 ^ Suc k = 16 ^ k * (a div 16 ^ k mod 16) + a mod 16 ^ k" for a :: nat
    using mod_mult2_eq [of a "16 ^ k" 16] by (simp add: mult.commute)
  then show ?case using Suc.IH Suc.prems by simp
qed simp

lemma hex8_inj: "hex8 a = hex8 b \<Longrightarrow> a < 2 ^ 32 \<Longrightarrow> b < 2 ^ 32 \<Longrightarrow> a = b"
proof -
  assume h: "hex8 a = hex8 b" and l: "a < 2 ^ 32" "b < 2 ^ 32"
  have d: "hex_of (a div 16 ^ i) = hex_of (b div 16 ^ i)" if "i \<in> {7, 6, 5, 4, 3, 2, 1, 0}" for i
    using h that unfolding hex8_def by auto
  have "a mod 16 ^ 8 = b mod 16 ^ 8"
  proof (rule digits_eq)
    fix i :: nat
    assume "i < 8"
    then have "i \<in> {7, 6, 5, 4, 3, 2, 1, 0}" by auto
    then show "a div 16 ^ i mod 16 = b div 16 ^ i mod 16" using d hex_of_inj by blast
  qed
  then show ?thesis using l by simp
qed

section \<open>The search\<close>

definition hidden_as :: "nat \<Rightarrow> nat \<Rightarrow> string" where
  "hidden_as n h = ''.fuse_hidden'' @ hex8 (n mod 2 ^ 32) @ hex8 (h mod 2 ^ 32)"

lemma hidden_as_length: "length (hidden_as n h) = 28"
  by (simp add: hidden_as_def)

lemma hidden_as_inj: "hidden_as n g = hidden_as n h \<Longrightarrow> g mod 2 ^ 32 = h mod 2 ^ 32"
  unfolding hidden_as_def by (rule hex8_inj) simp_all

definition name_taken :: "fuse \<Rightarrow> nat \<Rightarrow> string \<Rightarrow> bool" where
  "name_taken f dir s \<longleftrightarrow> (\<exists>a. place f dir (Some s) a)"

lemma taken_found: "names_ok f {} \<Longrightarrow> \<exists>r. node_by_name f dir s = Inr r \<and> (r = None \<longleftrightarrow> \<not> name_taken f dir s)"
  using node_by_name_place [of f dir s] unfolding name_taken_def by blast

lemma hidectr_names [simp]: "names_ok (f\<lparr>hidectr := h\<rparr>) D = names_ok f D" "name_taken (f\<lparr>hidectr := h\<rparr>) = name_taken f"
proof -
  have s: "shapes (f\<lparr>hidectr := h\<rparr>) = shapes f" by (rule same_nodes) simp
  show "names_ok (f\<lparr>hidectr := h\<rparr>) D = names_ok f D" unfolding names_ok_def same_shapes [OF s] s by simp
  show "name_taken (f\<lparr>hidectr := h\<rparr>) = name_taken f" unfolding name_taken_def place_def same_shapes [OF s] ..
qed

lemma hide_loop_finds:
  assumes "names_ok f {}" "k < fuel" "\<not> name_taken f dir (hidden_as n (hidectr f + 1 + k))"
  shows "\<exists>nm h. hide_loop fuel dir n f = Inr (nm, f\<lparr>hidectr := h\<rparr>) \<and> \<not> name_taken f dir nm \<and> nm = hidden_as n h"
  using assms
proof (induction fuel arbitrary: k f)
  case (Suc fuel)
  define h where "h = (hidectr f + 1) mod 2 ^ 32"
  let ?g = "f\<lparr>hidectr := h\<rparr>"
  have nm: "''.fuse_hidden'' @ hex8 (n mod 2 ^ 32) @ hex8 h = hidden_as n h" by (simp add: hidden_as_def h_def)
  obtain r where r: "node_by_name ?g dir (hidden_as n h) = Inr r" "r = None \<longleftrightarrow> \<not> name_taken f dir (hidden_as n h)"
    using taken_found [of ?g dir "hidden_as n h"] Suc.prems(1) by auto
  have step: "hide_loop (Suc fuel) dir n f = (case r of None \<Rightarrow> Inr (hidden_as n h, ?g) | Some _ \<Rightarrow> hide_loop fuel dir n ?g)"
    unfolding hide_loop.simps Let_def h_def [symmetric] nm r(1) by simp
  show ?case
  proof (cases r)
    case None
    then show ?thesis using step r(2) by auto
  next
    case (Some a)
    have "hidden_as n h = hidden_as n (hidectr f + 1 + 0)" by (simp add: hidden_as_def h_def)
    then obtain j where k: "k = Suc j" using Suc.prems(3) r(2) Some by (cases k) auto
    have "(h + (1 + j)) mod 2 ^ 32 = (hidectr f + 1 + (1 + j)) mod 2 ^ 32" unfolding h_def by (rule mod_add_left_eq)
    then have "(h + 1 + j) mod 2 ^ 32 = (hidectr f + 1 + k) mod 2 ^ 32" by (simp only: k add.assoc plus_1_eq_Suc)
    then have "hidden_as n (h + 1 + j) = hidden_as n (hidectr f + 1 + k)" by (simp only: hidden_as_def)
    then have "\<not> name_taken ?g dir (hidden_as n (hidectr ?g + 1 + j))" using Suc.prems(3) by simp
    then obtain nm h' where "hide_loop fuel dir n ?g = Inr (nm, ?g\<lparr>hidectr := h'\<rparr>)" "\<not> name_taken ?g dir nm" "nm = hidden_as n h'"
      using Suc.IH [of ?g j] Suc.prems(1,2) k by auto
    then show ?thesis using step Some by auto
  qed
qed simp

lemma named_count: "names_ok f {} \<Longrightarrow> finite (named f) \<and> card (named f) = use (name_table f)"
proof -
  assume n: "names_ok f {}"
  then have e: "elems (name_table f) = named f" "use (name_table f) = length (concat (array (name_table f)))" by (simp_all add: names_ok_def)
  have "distinct (concat (array (name_table f)))" using n settle_names [OF n] by (simp add: names_ok_def wf_table_def)
  then show ?thesis using e distinct_card unfolding elems_def by (metis List.finite_set)
qed

lemma mod_cancel: "(c + i) mod m = (c + j) mod m \<Longrightarrow> i mod m = j mod (m :: nat)"
proof -
  assume "(c + i) mod m = (c + j) mod m"
  then have "(int c + int i) mod int m = (int c + int j) mod int m" by (metis of_nat_add of_nat_mod)
  then have "int i mod int m = int j mod int m" by (simp add: mod_eq_dvd_iff)
  then show ?thesis by (metis of_nat_eq_iff of_nat_mod)
qed

text \<open>Not all of more names than there are nodes are taken.\<close>

lemma free_hidden_name:
  assumes "names_ok f {}" "use (name_table f) < 2 ^ 32"
  shows "\<exists>k \<le> use (name_table f). \<not> name_taken f dir (hidden_as n (c + k))"
proof (rule ccontr)
  assume "\<not> ?thesis"
  then have all: "\<forall>k \<le> use (name_table f). \<exists>a. place f dir (Some (hidden_as n (c + k))) a" by (simp add: name_taken_def)
  then obtain g where g: "\<And>k. k \<le> use (name_table f) \<Longrightarrow> place f dir (Some (hidden_as n (c + k))) (g k)" by metis
  let ?K = "{0 .. use (name_table f)}"
  have "inj_on g ?K"
  proof (rule inj_onI)
    fix i j
    assume ij: "i \<in> ?K" "j \<in> ?K" "g i = g j"
    then have "hidden_as n (c + i) = hidden_as n (c + j)" using g [of i] g [of j] by (auto simp: place_def)
    then have "(c + i) mod 2 ^ 32 = (c + j) mod 2 ^ 32" by (rule hidden_as_inj)
    then have "i mod 2 ^ 32 = j mod 2 ^ 32" by (rule mod_cancel)
    then show "i = j" using ij(1,2) assms(2) by simp
  qed
  moreover have "g ` ?K \<subseteq> named f" using g by (auto simp: place_def)
  ultimately have "card ?K \<le> card (named f)" using card_inj_on_le named_count [OF assms(1)] by blast
  then show False using named_count [OF assms(1)] by simp
qed

text \<open>
  (C39) The search for a name under which a removed file that is still open is kept always ends: one round more than there are
  named nodes finds a name that no node in the directory has. It fits into the buffer of 64 bytes, and nothing but the counter changes.
\<close>

theorem hidden_name_found:
  assumes "tree_ok f" "card (dom (nodes f)) < 2 ^ 32"
  shows "\<exists>nm h. hide_loop (use (name_table f) + 1) dir n f = Inr (nm, f\<lparr>hidectr := h\<rparr>) \<and> (\<forall>a. \<not> place f dir (Some nm) a) \<and> length nm < 64"
proof -
  note N = tree_okD(2) [OF assms(1)]
  have "named f \<subseteq> dom (nodes f)" by (auto simp: named_def shapes_def)
  then have "card (named f) \<le> card (dom (nodes f))" using card_mono finite_nodes [OF tree_okD(1) [OF assms(1)]] by blast
  then have u: "use (name_table f) < 2 ^ 32" using assms(2) named_count [OF N] by simp
  obtain k where k: "k < use (name_table f) + 1" "\<not> name_taken f dir (hidden_as n (hidectr f + 1 + k))"
    using free_hidden_name [OF N u] by (metis Suc_eq_plus1 less_Suc_eq_le)
  from hide_loop_finds [OF N k] hidden_as_length show ?thesis unfolding name_taken_def by fastforce
qed

theorem hidden_name_found_witness:
  "\<exists>f nm f'. tree_ok f \<and> nodes f \<noteq> Map.empty \<and> hide_loop (use (name_table f) + 1) FUSE_ROOT_ID 2 f = Inr (nm, f') \<and> (\<forall>a. \<not> place f FUSE_ROOT_ID (Some nm) a)"
proof -
  obtain f r rn a nd b bd where f: "tidy f" "nodes f = [r \<mapsto> rn, a \<mapsto> nd, b \<mapsto> bd]" "distinct [r, a, b]" using two_lookups by blast
  have "card (dom (nodes f)) < 2 ^ 32" using f(2,3) by simp
  then obtain nm h where "hide_loop (use (name_table f) + 1) FUSE_ROOT_ID 2 f = Inr (nm, f\<lparr>hidectr := h\<rparr>)" "\<forall>a. \<not> place f FUSE_ROOT_ID (Some nm) a"
    using hidden_name_found [OF tidy_tree [OF f(1)], of FUSE_ROOT_ID 2] by blast
  moreover have "nodes f \<noteq> Map.empty" using f(2) by simp
  ultimately show ?thesis using tidy_tree [OF f(1)] by blast
qed

end
