(* ===== verification/Fuse_Listing.thy ===== *)
theory Fuse_Listing
  imports Fuse_Lib_Io
begin

text \<open>
  The buffer of a directory handle (\<open>fill_dir\<close> and \<open>fuse_lib_readdir\<close> in \<open>src/lib/fuse.c\<close>): a filesystem that gives no offsets
  has its entries collected in it, and the kernel reads the listing in pieces.
\<close>

text \<open>A filesystem gives its entries without offsets, and stops when it is told to.\<close>

fun fill_all :: "(string \<times> stat) list \<Rightarrow> fuse_dh \<Rightarrow> fuse \<Rightarrow> (int \<times> fuse_dh \<times> fuse) c" where
  "fill_all [] dh f = Inr (0, dh, f)"
| "fill_all ((nm, st) # es) dh f = bindc (add_entry dh nm st 0 f) (\<lambda>(res, dh, f). if res \<noteq> 0 then Inr (res, dh, f) else fill_all es dh f)"

text \<open>The records of the entries from position \<open>n\<close> on: the offset in each is the position of the next.\<close>

fun listing :: "nat \<Rightarrow> (string \<times> stat) list \<Rightarrow> (string \<times> stat \<times> 64 word) list" where
  "listing n [] = []"
| "listing n ((nm, st) # es) = (let m = n + fuse_dirent_size (length nm) in (nm, st, word_of_nat m) # listing m es)"

definition extent :: "(string \<times> stat) list \<Rightarrow> nat" where
  "extent es = sum_list (map (\<lambda>(nm, _). fuse_dirent_size (length nm)) es)"

definition records :: "(string \<times> stat \<times> 64 word) list \<Rightarrow> byte list" where
  "records xs = concat (map (\<lambda>(nm, st, offs). dirent_bytes nm st offs) xs)"

definition short_names :: "(string \<times> stat) list \<Rightarrow> bool" where
  "short_names es \<longleftrightarrow> (\<forall>(nm, _) \<in> set es. length nm < 2 ^ 31)"

lemma extent_simps [simp]: "extent [] = 0" "extent ((nm, st) # es) = fuse_dirent_size (length nm) + extent es" "extent (es @ fs) = extent es + extent fs"
  by (simp_all add: extent_def)

lemma short_simps [simp]: "short_names []" "short_names ((nm, st) # es) \<longleftrightarrow> length nm < 2 ^ 31 \<and> short_names es"
  "short_names (es @ fs) \<longleftrightarrow> short_names es \<and> short_names fs"
  by (auto simp: short_names_def)

lemma listing_append: "listing n (es @ fs) = listing n es @ listing (n + extent es) fs"
  by (induction n es rule: listing.induct) (simp_all add: Let_def add.assoc)

lemma listing_names: "map (\<lambda>(nm, st, _). (nm, st)) (listing n es) = es"
  by (induction n es rule: listing.induct) (simp_all add: Let_def)

lemma records_append [simp]: "records (xs @ ys) = records xs @ records ys"
  by (simp add: records_def)

lemma records_length: "short_names es \<Longrightarrow> length (records (listing n es)) = extent es"
  by (induction n es rule: listing.induct) (simp_all add: Let_def records_def dirent_bytes_small(2))

section \<open>Filling\<close>

definition holds_listing :: "fuse_dh \<Rightarrow> (string \<times> stat) list \<Rightarrow> bool" where
  "holds_listing dh es \<longleftrightarrow> dh_len dh = extent es \<and> take (extent es) (dh_contents dh) = records (listing 0 es) \<and> extent es \<le> length (dh_contents dh)
     \<and> length (dh_contents dh) < 2 ^ 32 \<and> (length (dh_contents dh) = 0 \<or> 1024 \<le> length (dh_contents dh))"

lemma extend_contents_ok:
  assumes "holds_listing dh es" "need < 2 ^ 32"
  shows "(\<exists>f'. extend_contents dh need f = Inr (- 1, dh\<lparr>dh_error := - ENOMEM\<rparr>, f'))
    \<or> (\<exists>dh' f'. extend_contents dh need f = Inr (0, dh', f') \<and> holds_listing dh' es \<and> need \<le> length (dh_contents dh') \<and> dh_filled dh' = dh_filled dh)"
proof (cases "need > length (dh_contents dh)")
  case True
  let ?n = "length (dh_contents dh)"
  let ?k = "if ?n = 0 then 1024 else ?n"
  note H = assms(1) [unfolded holds_listing_def]
  have k: "?k < 2 ^ 32" "2 ^ 32 \<le> ?k * 2 ^ 39" using H by auto
  then obtain m where m: "grow_buf 40 need ?k = Inr m" "need \<le> m" "?k \<le> m" "m < 2 ^ 32"
    using grow_buf_ok [OF assms(2) k] by auto
  obtain ok cs where c: "coin f = (ok, f\<lparr>coins := cs\<rparr>)" using coin_eq by blast
  have "holds_listing (dh\<lparr>dh_contents := dh_contents dh @ replicate (m - ?n) 0\<rparr>) es" using H m by (auto simp: holds_listing_def split: if_splits)
  moreover have "need \<le> ?n + (m - ?n)" using m by (auto split: if_splits)
  ultimately show ?thesis using True assms(2) m(1) c by (cases ok) (auto simp: extend_contents_def Let_def)
next
  case False
  then show ?thesis using assms by (auto simp: extend_contents_def Let_def)
qed

lemma add_entry_ok:
  assumes "holds_listing dh es" "length nm < 2 ^ 31" "extent (es @ [(nm, st)]) < 2 ^ 32"
  shows "(\<exists>dh' f'. add_entry dh nm st 0 f = Inr (1, dh', f') \<and> dh_error dh' = - ENOMEM)
    \<or> (\<exists>dh' f'. add_entry dh nm st 0 f = Inr (0, dh', f') \<and> holds_listing dh' (es @ [(nm, st)]) \<and> dh_filled dh' = dh_filled dh)"
proof -
  let ?e = "fuse_dirent_size (length nm)"
  have s: "fuse_add_direntry None 0 nm stat0 0 = Inr (?e, None)" by (simp add: fuse_add_direntry_def Let_def)
  have len: "dh_len dh = extent es" using assms(1) by (simp add: holds_listing_def)
  have need: "extent es + ?e < 2 ^ 32" using assms(3) by simp
  from extend_contents_ok [OF assms(1) need, of f] show ?thesis
  proof
    assume "\<exists>f'. extend_contents dh (extent es + ?e) f = Inr (- 1, dh\<lparr>dh_error := - ENOMEM\<rparr>, f')"
    then show ?thesis using s len by (auto simp: add_entry_def)
  next
    assume "\<exists>dh' f'. extend_contents dh (extent es + ?e) f = Inr (0, dh', f') \<and> holds_listing dh' es \<and> extent es + ?e \<le> length (dh_contents dh') \<and> dh_filled dh' = dh_filled dh"
    then obtain dh' f' where d: "extend_contents dh (extent es + ?e) f = Inr (0, dh', f')" "holds_listing dh' es" "extent es + ?e \<le> length (dh_contents dh')" "dh_filled dh' = dh_filled dh"
      by blast
    note H = d(2) [unfolded holds_listing_def]
    define w :: "64 word" where "w = word_of_nat (extent es + ?e)"
    let ?b = "dirent_bytes nm st w"
    have bl: "length ?b = ?e" using dirent_bytes_small(2) [OF assms(2)] .
    have room: "nat ((int (length (dh_contents dh')) - int (extent es)) mod 2 ^ 32) = length (dh_contents dh') - extent es"
      using H by (simp add: mod_pos_pos_trivial nat_diff_distrib)
    have k: "?e \<le> length (dh_contents dh') - extent es" using d(3) by simp
    have "fuse_add_direntry (Some (drop (extent es) (dh_contents dh'))) (length (dh_contents dh') - extent es) nm st w
        = Inr (?e, Some (?b @ drop ?e (drop (extent es) (dh_contents dh'))))"
      using k bl by (simp add: fuse_add_direntry_def fuse_add_dirent_def Let_def)
    then have p: "put_dirent dh' (length (dh_contents dh') - extent es) nm st w
        = Inr (?e, dh'\<lparr>dh_contents := records (listing 0 es) @ ?b @ drop ?e (drop (extent es) (dh_contents dh'))\<rparr>)"
      using H by (simp add: put_dirent_def)
    define dk where "dk = dh'\<lparr>dh_contents := records (listing 0 es) @ ?b @ drop ?e (drop (extent es) (dh_contents dh')), dh_len := extent es + ?e\<rparr>"
    have "add_entry dh nm st 0 f = Inr (0, dk, f')"
      using s d(1) len room p H need by (simp add: add_entry_def Let_def dk_def w_def)
    moreover have "holds_listing dk (es @ [(nm, st)])"
    proof -
      have rl: "length (records (listing 0 es)) = extent es" using H by (metis length_take min.absorb2)
      have "records (listing 0 (es @ [(nm, st)])) = records (listing 0 es) @ ?b" by (simp add: listing_append Let_def records_def w_def)
      then show ?thesis using H d(3) rl bl by (simp add: holds_listing_def dk_def)
    qed
    ultimately show ?thesis using d(4) by (auto simp: dk_def)
  qed
qed

definition filled_with :: "(string \<times> stat) list \<Rightarrow> bool \<Rightarrow> int \<Rightarrow> fuse_dh \<Rightarrow> bool" where
  "filled_with es b res dh \<longleftrightarrow> (if res = 0 then holds_listing dh es \<and> dh_filled dh = b else res = 1 \<and> dh_error dh = - ENOMEM)"

lemma fill_all_ok:
  assumes "holds_listing dh es" "short_names fs" "extent (es @ fs) < 2 ^ 32"
  shows "\<exists>res dh' f'. fill_all fs dh f = Inr (res, dh', f') \<and> filled_with (es @ fs) (dh_filled dh) res dh'"
  using assms
proof (induction fs arbitrary: dh es f)
  case (Cons e fs)
  obtain nm st where e: "e = (nm, st)" by (cases e)
  have p: "length nm < 2 ^ 31" "short_names fs" "extent (es @ [(nm, st)]) < 2 ^ 32" "extent ((es @ [(nm, st)]) @ fs) < 2 ^ 32" using Cons.prems(2,3) e by auto
  from add_entry_ok [OF Cons.prems(1) p(1,3), of f] show ?case
  proof
    assume "\<exists>dh' f'. add_entry dh nm st 0 f = Inr (1, dh', f') \<and> dh_error dh' = - ENOMEM"
    then obtain dh' f' where "add_entry dh nm st 0 f = Inr (1, dh', f')" "dh_error dh' = - ENOMEM" by blast
    then show ?thesis by (intro exI [of _ 1] exI [of _ dh'] exI [of _ f']) (simp add: e filled_with_def)
  next
    assume "\<exists>dh' f'. add_entry dh nm st 0 f = Inr (0, dh', f') \<and> holds_listing dh' (es @ [(nm, st)]) \<and> dh_filled dh' = dh_filled dh"
    then obtain dk fk where k: "add_entry dh nm st 0 f = Inr (0, dk, fk)" "holds_listing dk (es @ [(nm, st)])" "dh_filled dk = dh_filled dh" by blast
    have run: "fill_all (e # fs) dh f = fill_all fs dk fk" using k(1) by (simp add: e)
    show ?thesis unfolding run using Cons.IH [OF k(2) p(2,4), of fk] k(3) by (simp add: e)
  qed
qed (simp add: filled_with_def)

section \<open>Reading\<close>

text \<open>
  What the reader of a reply takes from it: one record after the other, up to the first that is not there as a whole.
  (No record is shorter than a byte, so the length of the reply is fuel enough.)
\<close>

type_synonym entry = "64 word \<times> 64 word \<times> 32 word \<times> string"

fun scan_dirents :: "nat \<Rightarrow> byte list \<Rightarrow> entry list" where
  "scan_dirents 0 bs = []"
| "scan_dirents (Suc n) bs = (if length bs < FUSE_NAME_OFFSET then [] else
     case (rd64 0 bs, rd64 8 bs, rd32 16 bs, rd32 20 bs) of
       (Inr ino, Inr offs, Inr nlen, Inr typ) \<Rightarrow> (let k = fuse_dirent_size (unat nlen) in
         if length bs < k then [] else (ino, offs, typ, to_str (take (unat nlen) (drop FUSE_NAME_OFFSET bs))) # scan_dirents n (drop k bs))
     | _ \<Rightarrow> [])"

text \<open>
  A reader of a directory: it asks for \<open>sz\<close> bytes from an offset, goes on at the offset in the last record it got, and is done
  when it gets none.
\<close>

fun read_all :: "nat \<Rightarrow> fuse_dh \<Rightarrow> nat \<Rightarrow> 64 word \<Rightarrow> entry list c" where
  "read_all 0 dh sz offs = Inl OutOfFuel"
| "read_all (Suc n) dh sz offs = bindc (dir_slice dh sz (sint offs)) (\<lambda>bs. let es = scan_dirents (length bs) bs in
     if es = [] then Inr [] else bindc (read_all n dh sz (fst (snd (last es)))) (\<lambda>fs. Inr (es @ fs)))"

definition wire_entry :: "string \<times> stat \<times> 64 word \<Rightarrow> entry" where
  "wire_entry = (\<lambda>(nm, st, offs). (u64 (int (st_ino st)), offs, file_type st, nm))"

text \<open>The entries whose records have room in \<open>sz\<close> bytes.\<close>

fun fitting :: "nat \<Rightarrow> (string \<times> stat) list \<Rightarrow> (string \<times> stat) list" where
  "fitting sz [] = []"
| "fitting sz ((nm, st) # es) = (let k = fuse_dirent_size (length nm) in if k \<le> sz then (nm, st) # fitting (sz - k) es else [])"

lemma fitting_prefix: "\<exists>gs. es = fitting sz es @ gs"
  by (induction sz es rule: fitting.induct) (auto simp: Let_def)

lemma dirent_head:
  assumes "length nm < 2 ^ 31" "24 \<le> sz"
  shows "\<exists>x. take sz (dirent_bytes nm st offs @ r)
    = le64 (u64 (int (st_ino st))) @ le64 offs @ le32 (word_of_nat (length nm)) @ le32 (file_type st) @ x"
  unfolding dirent_bytes_small(1) [OF assms(1)] using assms(2) by (simp add: le_length)

lemma dirent_name:
  assumes "length nm < 2 ^ 31"
  shows "to_str (take (length nm) (drop FUSE_NAME_OFFSET (dirent_bytes nm st offs @ r))) = nm"
  unfolding dirent_bytes_small(1) [OF assms] by (simp add: le_length FUSE_NAME_OFFSET_def)

lemma scan_dirent:
  assumes "length nm < 2 ^ 31"
  shows "scan_dirents (Suc n) (take sz (dirent_bytes nm st offs @ r)) = (let k = fuse_dirent_size (length nm) in
    if k \<le> sz then wire_entry (nm, st, offs) # scan_dirents n (take (sz - k) r) else [])"
proof -
  note D = dirent_bytes_small(2) [OF assms, of st offs] dirent_bytes_small(3) [OF assms]
  have un: "unat (word_of_nat (length nm) :: 32 word) = length nm" using assms by (simp add: unat_of_nat)
  show ?thesis
  proof (cases "24 \<le> sz")
    case True
    then obtain x where x: "take sz (dirent_bytes nm st offs @ r)
        = le64 (u64 (int (st_ino st))) @ le64 offs @ le32 (word_of_nat (length nm)) @ le32 (file_type st) @ x"
      using dirent_head [OF assms] by blast
    have rd: "rd64 0 (take sz (dirent_bytes nm st offs @ r)) = Inr (u64 (int (st_ino st)))" "rd64 8 (take sz (dirent_bytes nm st offs @ r)) = Inr offs"
      "rd32 16 (take sz (dirent_bytes nm st offs @ r)) = Inr (word_of_nat (length nm))" "rd32 20 (take sz (dirent_bytes nm st offs @ r)) = Inr (file_type st)"
      unfolding x by (simp_all add: wire)
    show ?thesis
    proof (cases "fuse_dirent_size (length nm) \<le> sz")
      case fits: True
      then have t: "take sz (dirent_bytes nm st offs @ r) = dirent_bytes nm st offs @ take (sz - fuse_dirent_size (length nm)) r" using D by simp
      show ?thesis using rd fits D un dirent_name [OF assms, of st offs "[]"] unfolding t by (simp add: Let_def wire_entry_def FUSE_NAME_OFFSET_def)
    next
      case False
      then show ?thesis using rd D un by (simp add: Let_def)
    qed
  next
    case False
    then show ?thesis using D by (simp add: Let_def FUSE_NAME_OFFSET_def)
  qed
qed

lemma scan_listing:
  "short_names es \<Longrightarrow> length (fitting sz es) \<le> n \<Longrightarrow> scan_dirents n (take sz (records (listing m es))) = map wire_entry (listing m (fitting sz es))"
proof (induction es arbitrary: n sz m)
  case Nil
  then show ?case by (cases n) (simp_all add: records_def FUSE_NAME_OFFSET_def)
next
  case (Cons e es)
  obtain nm st where e: "e = (nm, st)" by (cases e)
  have r: "records (listing m (e # es)) = dirent_bytes nm st (word_of_nat (m + fuse_dirent_size (length nm))) @ records (listing (m + fuse_dirent_size (length nm)) es)"
    by (simp add: e records_def Let_def)
  have l: "length nm < 2 ^ 31" using Cons.prems(1) e by simp
  show ?case
  proof (cases n)
    case 0
    then show ?thesis using Cons.prems(2) by simp
  next
    case (Suc n')
    show ?thesis unfolding r Suc scan_dirent [OF l] using Suc Cons by (simp add: e Let_def split: if_splits)
  qed
qed

lemma fitting_extent: "extent (fitting sz es) \<le> sz"
  by (induction sz es rule: fitting.induct) (auto simp: Let_def)

lemma slice_of_listing:
  assumes "holds_listing dh (es @ fs)" "dh_filled dh" "short_names (es @ fs)" "sz < 2 ^ 32"
  shows "dir_slice dh sz (int (extent es)) = Inr (take sz (records (listing (extent es) fs)))"
proof -
  note H = assms(1) [unfolded holds_listing_def]
  have l: "length (records (listing 0 es)) = extent es" "length (records (listing (extent es) fs)) = extent fs" using records_length assms(3) by simp_all
  have c: "take (extent es + extent fs) (dh_contents dh) = records (listing 0 es) @ records (listing (extent es) fs)"
    using H by (simp add: listing_append)
  have t: "take k (drop (extent es) (dh_contents dh)) = take k (records (listing (extent es) fs))" if "k \<le> extent fs" for k
  proof -
    have "take k (drop (extent es) (dh_contents dh)) = take k (drop (extent es) (take (extent es + extent fs) (dh_contents dh)))"
      using that by (simp add: drop_take min_def)
    then show ?thesis unfolding c using l by simp
  qed
  show ?thesis
  proof (cases "extent fs = 0")
    case True
    then show ?thesis using H assms(2) l by (auto simp: dir_slice_def)
  next
    case False
    have m: "nat ((int (extent es) + int sz) mod 2 ^ 64) = extent es + sz" "nat (int (extent es + extent fs) - int (extent es)) = extent fs"
      "nat ((int (extent es + extent fs) - int (extent es)) mod 2 ^ 64) = extent fs"
      using H assms(4) by (simp_all add: nat_add_distrib mod_pos_pos_trivial)
    show ?thesis
    proof (cases "extent fs < sz")
      case True
      then show ?thesis using H assms(2) t [of "extent fs"] m False l(2) by (auto simp: dir_slice_def Let_def)
    next
      case less: False
      then show ?thesis using H assms(2) t [of sz] m False by (auto simp: dir_slice_def Let_def)
    qed
  qed
qed

lemma listing_length: "length (listing m es) = length es"
  by (induction m es rule: listing.induct) (simp_all add: Let_def)

lemma extent_length: "short_names es \<Longrightarrow> length es \<le> extent es"
proof (induction es)
  case (Cons e es)
  then show ?case using dirent_bytes_small(3) [of "fst e"] by (cases e) simp
qed simp

lemma listing_last: "es \<noteq> [] \<Longrightarrow> snd (snd (last (listing m es))) = word_of_nat (m + extent es)"
proof (induction m es rule: listing.induct)
  case (2 m nm st es)
  then show ?case by (cases es) (auto simp: Let_def add.assoc)
qed simp

definition records_fit :: "nat \<Rightarrow> (string \<times> stat) list \<Rightarrow> bool" where
  "records_fit sz es \<longleftrightarrow> list_all (\<lambda>(nm, _). fuse_dirent_size (length nm) \<le> sz) es"

lemma read_all_rest:
  assumes "holds_listing dh (es @ fs)" "dh_filled dh" "short_names (es @ fs)" "sz < 2 ^ 32" "records_fit sz fs" "length fs < n"
  shows "read_all n dh sz (word_of_nat (extent es)) = Inr (map wire_entry (listing (extent es) fs))"
  using assms
proof (induction n arbitrary: es fs)
  case (Suc n)
  have x: "extent es < 2 ^ 32" using Suc.prems(1) by (simp add: holds_listing_def)
  then have o: "sint (word_of_nat (extent es) :: 64 word) = int (extent es)" using sint_sbintrunc' [where 'a = 64, of "int (extent es)"]
    by (simp add: signed_take_bit_int_eq_self)
  obtain gs where g: "fs = fitting sz fs @ gs" using fitting_prefix by blast
  have sh: "short_names fs" using Suc.prems(3) by simp
  define bs where "bs = take sz (records (listing (extent es) fs))"
  have "extent (fitting sz fs) \<le> extent fs" using g by (metis extent_simps(3) le_add1)
  moreover have "short_names (fitting sz fs)" using sh g by (metis short_simps(3))
  ultimately have "length (fitting sz fs) \<le> length bs"
    using extent_length [of "fitting sz fs"] fitting_extent [of sz fs] records_length [OF sh] by (simp add: bs_def)
  then have scan: "scan_dirents (length bs) bs = map wire_entry (listing (extent es) (fitting sz fs))"
    unfolding bs_def by (rule scan_listing [OF sh])
  have slice: "dir_slice dh sz (int (extent es)) = Inr bs" unfolding bs_def using Suc.prems by (intro slice_of_listing)
  show ?case
  proof (cases "fitting sz fs = []")
    case True
    then have "fs = []" using Suc.prems(5) by (cases fs) (auto simp: records_fit_def Let_def)
    then show ?thesis using o slice scan True by (simp add: Let_def)
  next
    case False
    then have ne: "listing (extent es) (fitting sz fs) \<noteq> []" using listing_length by (metis length_0_conv)
    have next_off: "fst (snd (last (map wire_entry (listing (extent es) (fitting sz fs))))) = word_of_nat (extent (es @ fitting sz fs))"
      using listing_last [OF False, of "extent es"] ne by (simp add: last_map wire_entry_def split_beta)
    have whole: "(es @ fitting sz fs) @ gs = es @ fs" using g by simp
    have "records_fit sz gs" using Suc.prems(5) g by (metis list_all_append records_fit_def)
    moreover have "length gs < n" using Suc.prems(6) arg_cong [OF g, of length] False by (cases "fitting sz fs") auto
    ultimately have rest: "read_all n dh sz (word_of_nat (extent (es @ fitting sz fs))) = Inr (map wire_entry (listing (extent (es @ fitting sz fs)) gs))"
      using Suc.prems(1-4) whole by (intro Suc.IH) simp_all
    have "listing (extent es) fs = listing (extent es) (fitting sz fs) @ listing (extent (es @ fitting sz fs)) gs"
      by (subst g) (simp add: listing_append)
    then show ?thesis using o slice scan ne next_off rest by (simp add: Let_def)
  qed
qed simp

text \<open>
  (C40) A listing is read in pieces of any size without a gap or a repetition: from the entries that a filesystem gives without
  offsets, the library builds one buffer; a reader that asks for \<open>sz\<close> bytes at a time, takes the whole records it gets and goes on
  at the offset in the last of them, until it gets none, sees every entry once and in order, each with its inode, type, name and
  offset, after at most one read more than there are entries. (A piece has room for each single record; the listing is shorter
  than 4 GB.) When there is no memory for the buffer, the filesystem is told to stop and the error is kept.
\<close>

theorem listing_in_pieces:
  assumes "short_names es" "extent es < 2 ^ 32" "records_fit sz es" "sz < 2 ^ 32"
  shows "\<exists>res dh f'. fill_all es ((new_dh n)\<lparr>dh_filled := True\<rparr>) f = Inr (res, dh, f')
    \<and> (if res = 0 then read_all (Suc (length es)) dh sz 0 = Inr (map wire_entry (listing 0 es)) else res = 1 \<and> dh_error dh = - ENOMEM)"
proof -
  let ?d = "(new_dh n)\<lparr>dh_filled := True\<rparr>"
  have "holds_listing ?d []" by (simp add: holds_listing_def new_dh_def records_def)
  then obtain res dh f' where r: "fill_all es ?d f = Inr (res, dh, f')" "filled_with es True res dh"
    using fill_all_ok [of ?d "[]" es f] assms by auto
  then show ?thesis using read_all_rest [of dh "[]" es sz "Suc (length es)"] assms
    by (intro exI [of _ res] exI [of _ dh] exI [of _ f']) (auto simp: filled_with_def)
qed

theorem listing_in_pieces_witness:
  "\<forall>f. \<exists>res dh f'. fill_all [(''.'', stat0\<lparr>st_mode := 0x4000\<rparr>), (''passwords'', stat0\<lparr>st_ino := 7, st_mode := 0x8180\<rparr>), (''x'', stat0)]
        ((new_dh 1)\<lparr>dh_filled := True\<rparr>) f = Inr (res, dh, f')
    \<and> (if res = 0 then read_all 4 dh 4096 0 = Inr [(0, 32, 4, ''.''), (7, 72, 8, ''passwords''), (0, 104, 0, ''x'')] else res = 1 \<and> dh_error dh = - ENOMEM)"
proof
  fix f
  let ?es = "[(''.'', stat0\<lparr>st_mode := 0x4000\<rparr>), (''passwords'', stat0\<lparr>st_ino := 7, st_mode := 0x8180\<rparr>), (''x'', stat0)]"
  have s: "fuse_dirent_size (length ''.'') = 32" "fuse_dirent_size (length ''passwords'') = 40" "fuse_dirent_size (length ''x'') = 32"
    by (simp_all add: fuse_dirent_size_def FUSE_NAME_OFFSET_def align8)
  have x: "extent ?es < 2 ^ 32" unfolding extent_simps s by simp
  have n: "short_names ?es" by simp
  have b: "records_fit 4096 ?es" unfolding records_fit_def by (simp add: s [simplified])
  have l: "map wire_entry (listing 0 ?es) = [(0, 32, 4, ''.''), (7, 72, 8, ''passwords''), (0, 104, 0, ''x'')]"
    unfolding listing.simps Let_def s by (simp add: u64_def file_type_def wire_entry_def stat0_def Let_def)
  have len: "Suc (length ?es) = 4" by simp
  show "\<exists>res dh f'. fill_all ?es ((new_dh 1)\<lparr>dh_filled := True\<rparr>) f = Inr (res, dh, f')
    \<and> (if res = 0 then read_all 4 dh 4096 0 = Inr [(0, 32, 4, ''.''), (7, 72, 8, ''passwords''), (0, 104, 0, ''x'')] else res = 1 \<and> dh_error dh = - ENOMEM)"
    by (rule listing_in_pieces [OF n x b, of 1 f, unfolded l len]) simp
qed

end
