(* ===== verification/Fuse_Served.thy ===== *)
theory Fuse_Served
  imports Fuse_Calm
begin

text \<open>
  The composition of the protocol, the request handlers and the nodes: from the bytes of a message in memory over the call of the filesystem on
  a path to the bytes of the reply.
\<close>

section \<open>From the message to the reply\<close>

text \<open>The state in which a handler finds a new request.\<close>

definition arrived :: "nat \<Rightarrow> 64 word \<Rightarrow> fuse_ctx \<Rightarrow> nat \<Rightarrow> 's ll \<Rightarrow> 's ll" where
  "arrived a u c ch f = f\<lparr>reqs := (reqs f)(a \<mapsto> req0\<lparr>unique := u, rctx := c, rch := Some ch\<rparr>), req_list := req_list f @ [a]\<rparr>"

lemma arrived_freed:
  assumes "reqs f a = None" "a \<notin> set (req_list f)" "intr_list f = []"
  shows "freed a ((arrived a u c ch f)\<lparr>lworld := w\<rparr>) = f\<lparr>lworld := w\<rparr>"
proof -
  have "(reqs f)(a := None) = reqs f" using assms(1) by auto
  then show ?thesis using assms(2,3) by (cases f) (simp add: arrived_def freed_def list_del_req_def remove1_append remove1_idem)
qed

text \<open>The operations that are called with nothing but the path of the node.\<close>

fun path_call :: "'t lenv \<Rightarrow> kreq \<Rightarrow> (path \<Rightarrow> ('t lib, int) call) option" where
  "path_call E (KAccess m) = Some (\<lambda>p. fuse_fs_access (v_fs E) p (sint m))"
| "path_call E (KRemovexattr s) = Some (\<lambda>p. fuse_fs_removexattr (v_fs E) p s)"
| "path_call E _ = None"

lemma path_call_handler: "path_call E q = Some call \<Longrightarrow> kcall (fuse_path_ops E) a n q = Some (run (path_op E a (unat n) call))"
  by (cases q) (auto simp: fuse_path_ops_def path_op_handlers)

lemma no_plain_write: "kcall (fuse_path_ops E) a n q = Some g \<Longrightarrow> kcode q \<noteq> FUSE_WRITE"
  by (cases q) (auto simp: FUSE_WRITE_def fuse_path_ops_def)

lemma message_answered_once:
  assumes "\<forall>s \<in> set (kstrings q). c_string s" "minor_of f \<ge> 12" "kplain f q" "kcall (fuse_path_ops E) a n q = Some g"
    "load (memory (lworld f)) (mem buf) (buf_size buf) = header_bytes len (kcode q) u n uid gid pid @ kbytes q"
    "got_init f" "allow_root (lopts f) \<longrightarrow> uid = owner f \<or> uid = 0" "intr_list f = []" "reqs f a = None" "a \<notin> set (req_list f)"
    "fuse_ll_process_buf cuse H (fuse_path_ops E) (Some a) buf ch f = Inr f'"
  shows "\<exists>w. f' = f\<lparr>lworld := w\<rparr>"
proof -
  let ?L = "arrived a u \<lparr>c_uid = uid, c_gid = gid, c_pid = pid, c_umask = 0\<rparr> ch f"
  have "g ?L = Inr f'"
    using message_calls [OF assms(1-4) disjI2 [OF no_plain_write [OF assms(4)]] assms(5-8), of cuse H ch] assms(11) by (simp add: arrived_def)
  moreover have "lib_call E a n g" using assms(4) unfolding lib_call_def by blast
  moreover have "reqs ?L a = Some (req0\<lparr>unique := u, rctx := \<lparr>c_uid = uid, c_gid = gid, c_pid = pid, c_umask = 0\<rparr>, rch := Some ch\<rparr>)" by (simp add: arrived_def)
  ultimately have "\<exists>w. f' = freed a (?L\<lparr>lworld := w\<rparr>)" using call_answered by (fastforce simp: req0_def)
  then show ?thesis using arrived_freed [OF assms(9,10,8)] by auto
qed

text \<open>
  (C38) From the bytes of a message to the bytes of the reply: the message of a request that asks the filesystem about one node is read, the path
  of the node is taken, the filesystem is called on the names from the root down to the node with all nodes on the way locked, the locks are
  given back, and the kernel is sent one message with the number of the request and the filesystem's result, or that
  there was no memory. After it the connection is as before: the request is gone, and all nodes have their locks as they were.
\<close>

theorem message_served:
  assumes "path_call E q = Some call" "\<forall>s \<in> set (kstrings q). c_string s" "minor_of f \<ge> 12"
    and "load (memory (lworld f)) (mem buf) (buf_size buf) = header_bytes len (kcode q) u n uid gid pid @ kbytes q"
    and "got_init f" "allow_root (lopts f) \<longrightarrow> uid = owner f \<or> uid = 0" "intr_list f = []" "reqs f a = None" "a \<notin> set (req_list f)"
    and "ready (tree_of f) xs None" "on_way (tree_of f) (unat n) xs" "fs_live (lib_of f)" "tame_call (call (Some (full_path (tree_of f) xs None)))"
  shows "\<exists>err w iov. fuse_ll_process_buf cuse H (fuse_path_ops E) (Some a) buf ch f = Inr (f\<lparr>lworld := snd (h_send (v_host E) ch (Some iov) w)\<rparr>)
    \<and> nodes (nds (os_state w)) = nodes (tree_of f)
    \<and> concat iov = out_header 16 (if - 1000 < err \<and> err \<le> 0 then err else - ERANGE) u
    \<and> (err = - ENOMEM \<or> (\<exists>c c'. call (Some (full_path (tree_of f) xs None)) c = Inr (err, c') \<and> taken (tree_of f) (nds (os_state (wrld c))) xs))"
proof -
  let ?c = "\<lparr>c_uid = uid, c_gid = gid, c_pid = pid, c_umask = 0\<rparr>"
  let ?L = "arrived a u ?c ch f" and ?r = "req0\<lparr>unique := u, rctx := ?c, rch := Some ch\<rparr>"
  let ?h = "path_op E a (unat n) call"
  note h = path_call_handler [OF assms(1), of a n]
  have p: "kplain f q" using assms(1) by (cases q) auto
  have m: "fuse_ll_process_buf cuse H (fuse_path_ops E) (Some a) buf ch f = run ?h ?L"
    using message_calls [OF assms(2,3) p h disjI2 [OF no_plain_write [OF h]] assms(4-7), of cuse H ch] by (simp add: arrived_def)
  have L: "tree_of ?L = tree_of f" "lib_of ?L = lib_of f" "reqs ?L a = Some ?r" "fuse_req.ctr ?r = 1" "rch ?r = Some ch" "unique ?r = u"
    by (simp_all add: arrived_def lib_of_def req0_def)
  obtain err w iov where s: "?h ?L = Inr ((), freed a (?L\<lparr>lworld := snd (h_send (v_host E) ch (Some iov) w)\<rparr>))" "nodes (nds (os_state w)) = nodes (tree_of f)"
      "concat iov = out_header 16 (if - 1000 < err \<and> err \<le> 0 then err else - ERANGE) u"
      "err = - ENOMEM \<or> (\<exists>c c'. call (Some (full_path (tree_of f) xs None)) c = Inr (err, c') \<and> taken (tree_of f) (nds (os_state (wrld c))) xs)"
    using path_request_served [of ?L xs "unat n" a ?r ch call E, unfolded L(1,2,6), OF assms(10,11) L(3-5) assms(12,13)]
    by (elim exE conjE) (rule that)
  have "run ?h ?L = Inr (f\<lparr>lworld := snd (h_send (v_host E) ch (Some iov) w)\<rparr>)"
    using s(1) arrived_freed [OF assms(8,9,7)] by (simp add: run_def)
  then show ?thesis using s(2-4) unfolding m by blast
qed

definition sample_message :: "byte list" where
  "sample_message = header_bytes 48 (kcode (KAccess 4)) 43 1 0 0 1 @ kbytes (KAccess 4)"

definition sample_start :: "fuse \<Rightarrow> sent lib ll" where
  "sample_start f = (sample_lib_ll False f)\<lparr>lworld := \<lparr>memory = store 1000 sample_message (\<lambda>_. 0), os_state = sample_lib False f\<rparr>\<rparr>"

theorem message_served_witness:
  "\<exists>f K iov e. fuse_ll_process_buf no_cuse (v_host sample_env) (fuse_path_ops sample_env) (Some 8) (msg_buf sample_message) 2 (sample_start f) = Inr K
     \<and> reqs K = reqs (sample_start f) \<and> last (usr (lib_of K)) = (2, Some iov) \<and> concat iov = out_header 16 e 43 \<and> e \<in> {- 12, - 13}"
proof -
  obtain f0 r rn where f0: "tree_ok f0" "nodes f0 r = Some rn" "nodeid rn = FUSE_ROOT_ID" using example_tree by blast
  define L where "L = sample_start (cleared f0)"
  let ?call = "\<lambda>p. fuse_fs_access (v_fs sample_env) p (sint (4 :: 32 word))"
  have t: "tree_of L = cleared f0" "fs_live (lib_of L)" by (simp_all add: L_def sample_start_def sample_lib_def lib_of_def)
  have p: "full_path (tree_of L) [] None = ''/''" by (simp add: full_path_def)
  have c: "?call (Some ''/'') c = Inr (- 13, set_context (v_fs sample_env) c)" for c
    by (simp add: fuse_fs_access_def dispatch_def sample_env_def no_ops_def retm_def Let_def)
  have w: "ready (tree_of L) [] None" "on_way (tree_of L) (unat (1 :: 64 word)) []" using cleared_ready [OF f0] unfolding t(1) by (simp_all add: FUSE_ROOT_ID_def)
  have m: "tame_call (?call (Some (full_path (tree_of L) [] None)))" unfolding p tame_call_def c by (simp add: set_context_def)
  have b: "load (memory (lworld L)) (mem (msg_buf sample_message)) (buf_size (msg_buf sample_message))
      = header_bytes 48 (kcode (KAccess 4)) 43 1 0 0 1 @ kbytes (KAccess 4)"
    by (simp add: L_def sample_start_def msg_buf_def load_store) (simp add: sample_message_def)
  have k: "path_call sample_env (KAccess 4) = Some ?call" "\<forall>s \<in> set (kstrings (KAccess 4)). c_string s" "minor_of L \<ge> 12"
    by (simp_all add: L_def sample_start_def sample_lib_ll_def minor_of_def sample_ll_def)
  have l: "got_init L" "allow_root (lopts L) \<longrightarrow> 0 = owner L \<or> (0 :: 32 word) = 0" "intr_list L = []" "reqs L 8 = None" "8 \<notin> set (req_list L)"
    by (simp_all add: L_def sample_start_def sample_lib_ll_def)
  obtain err v iov where a: "fuse_ll_process_buf no_cuse (v_host sample_env) (fuse_path_ops sample_env) (Some 8) (msg_buf sample_message) 2 L
        = Inr (L\<lparr>lworld := snd (h_send (v_host sample_env) 2 (Some iov) v)\<rparr>)"
      "concat iov = out_header 16 (if - 1000 < err \<and> err \<le> 0 then err else - ERANGE) 43"
      "err = - ENOMEM \<or> (\<exists>c c'. ?call (Some ''/'') c = Inr (err, c') \<and> taken (tree_of L) (nds (os_state (wrld c))) [])"
    using message_served [OF k b l w t(2) m, unfolded p, of no_cuse "v_host sample_env" 2] by (elim exE conjE) (rule that)
  have "err \<in> {- 12, - 13}" using a(3) unfolding c by auto
  then show ?thesis using a(1,2) unfolding L_def
    by (intro exI [of _ "cleared f0"] exI [of _ "(sample_start (cleared f0))\<lparr>lworld := snd (h_send (v_host sample_env) 2 (Some iov) v)\<rparr>"] exI [of _ iov] exI [of _ err])
      (auto simp: lib_of_def sample_env_def lib_send_def)
qed

end
