(* ===== verification/Spec2Isabelle.thy ===== *)
theory Spec2Isabelle
  imports Prelude Libc Md5 Shadow_Tree Shadow_Parse Shfs Fuse_Locks Fuse_Buf Fuse_Opt Fuse_Module Fuse_Fs Fuse_Io
    Fuse_Inv Subdir_Links Subdir Subdir_Inv Shfs_Fuse Fuse_Table Fuse_List Fuse_Slab Fuse_Lru
    Fuse_Nodes Fuse_Refs Fuse_Node_Ops Fuse_Lookup Fuse_Requests Fuse_Lifetime
    Fuse_Path Fuse_Path_Locks Fuse_Holders Fuse_Session Fuse_Workers Fuse_Wire Fuse_Reply Fuse_Ops Fuse_Dispatch Fuse_Protocol
    Fuse_Lib Fuse_Lib_Io Fuse_Answers Fuse_Messages Fuse_Calm Fuse_Hide Fuse_Listing Fuse_Served
begin

text \<open>
  A verification development for \<open>OSFileSystem\<close>: a FUSE file system that shows a shadow password
  file as a directory per user, and the FUSE library (2.9) it is built on.

  \<^bold>\<open>The program.\<close> \<open>src/src/\<close> is the file system. \<open>main\<close> in \<open>shfs.c\<close> parses the shadow
  file into a list of entries, and FUSE calls the handlers of \<open>sh_oper\<close> (getattr, readdir, open, read,
  write, truncate, mkdir, rmdir, rename, mknod, unlink) to show and change them; passwords are hashed
  with MD5, and reading \<open>/sh_file\<close> writes the list back. \<open>src/lib/\<close> is the library: \<open>fuse_opt.c\<close> parses the
  command line, \<open>fuse.c\<close> keeps the nodes the kernel knows and turns requests on nodes into calls on
  paths, which go through the layer \<open>fuse_fs_*\<close> and any stackable modules (\<open>modules/\<close>) to the file
  system; \<open>buffer.c\<close> moves data. \<open>fuse_lowlevel.c\<close> reads the kernel's messages and writes the replies, and sessions, channels and
  loops (\<open>fuse_session.c\<close>, \<open>fuse_kern_chan.c\<close>, \<open>fuse_loop.c\<close>, \<open>fuse_loop_mt.c\<close>) carry them to and from the device.

  \<^bold>\<open>Outcomes.\<close> A C function is a HOL function into \<open>'a c\<close>: \<open>Inr\<close> a result or \<open>Inl\<close> the reason why the
  behaviour is undefined or the program aborts (array overflow, dangling or null pointer, failed
  assertion, signed overflow). So "is defined" in a theorem means the absence of all of these.
  What the operating system, the C library's allocator and a file system's own code do are
  arguments of the definitions.

  \<^bold>\<open>Theories.\<close>
  \<^item> \<open>Prelude\<close>, \<open>Libc\<close>: outcomes, 32-bit integers, strings, \<open>strtok\<close>, \<open>atoi\<close>, \<open>struct stat\<close>.
  \<^item> \<open>Md5\<close> (\<open>md5.h\<close>): padding and format; the words are rotated and stored as the standard says.
  \<^item> \<open>Shadow_Tree\<close>, \<open>Shadow_Parse\<close> (\<open>shadowTree.h\<close>, \<open>shadow_time.h\<close>, \<open>parse.h\<close>): every sequence of operations keeps
    entries within their arrays; the list of entries implements a book of entries by name (the locale \<open>simulation\<close>, \<open>book_op\<close>) call by
    call, errors included; reading back what was written gives the same entries, and where it does not.
  \<^item> \<open>Shfs\<close> (\<open>shfs.c\<close>): the handlers and \<open>main\<close>, invariants over all request sequences, round trips through files.
  \<^item> \<open>Fuse_Opt\<close> (\<open>fuse_opt.c\<close>), \<open>Fuse_Buf\<close> (\<open>buffer.c\<close>), \<open>Fuse_Locks\<close> (record locks in \<open>fuse.c\<close>): the option parser is
    defined on every input; copying between buffer vectors; record locks refine POSIX byte ranges.
  \<^item> \<open>Fuse_Module\<close>: the registry of stackable modules, and how a library in use is unloaded.
  \<^item> \<open>Fuse_Fs\<close>, \<open>Fuse_Io\<close>, \<open>Fuse_Inv\<close>: the layer \<open>fuse_fs_*\<close> with its fall-backs and older interfaces. The locale
    \<open>fs_ops\<close> states that a file system's operations keep an invariant, \<open>fs_layer\<close> that the layer does.
  \<^item> \<open>Subdir_Links\<close>, \<open>Subdir\<close>, \<open>Subdir_Inv\<close> (\<open>modules/subdir.c\<close>): the module stays below its base directory and
    a call of it is the call of the file system below on the path under the base; \<open>Shfs_Fuse\<close> puts the shadow file system under any stack of
    modules, and shows that behind a module whose base is a user's directory the entries of all others are out of reach.
  \<^item> \<open>Fuse_Table\<close>: the node tables of \<open>fuse.c\<close>, linear hashing with incremental resizing; they refine sets of
    nodes. \<open>next_id\<close> is a loop with fuel; the number of nodes plus three rounds are enough.
  \<^item> \<open>Fuse_List\<close>, \<open>Fuse_Slab\<close>, \<open>Fuse_Lru\<close>: the intrusive lists, the page allocator of nodes on top of them, and
    the list of forgotten nodes in the same memory.
  \<^item> \<open>Fuse_Nodes\<close>: the nodes themselves, from \<open>find_node\<close> to \<open>rename_node\<close>, as operations on the part of
    \<open>struct fuse\<close> that holds them. \<open>unref_node\<close>, \<open>delete_node\<close> and \<open>unhash_name\<close> call each other; the fuel is
    the number of nodes plus one, since each call drops the last reference of another node.
  \<^item> \<open>Fuse_Refs\<close>, \<open>Fuse_Node_Ops\<close>, \<open>Fuse_Lookup\<close>, \<open>Fuse_Requests\<close>, \<open>Fuse_Lifetime\<close>: the invariant of the nodes and
    its proof, from dropping a reference over searches, forgetting, naming and creation to whole sequences of
    kernel requests; the lookups that break it are stated as such.
  \<^item> \<open>Fuse_Path\<close>: the text of paths, from \<open>add_name\<close> on, and the locks and tickets that are left on the nodes of a path.
    Loops to the root have as fuel the number of nodes plus two; the buffer grows at most 24 times to reach 4 GB, and 40
    rounds are given. A wait for a lock ends a step, and waking up begins another.
  \<^item> \<open>Fuse_Path_Locks\<close>, \<open>Fuse_Holders\<close>: taking a path is all or nothing, giving it back undoes it, and the locks of any
    number of holders exclude each other.
  \<^item> \<open>Fuse_Session\<close> (\<open>fuse_session.c\<close>, \<open>fuse_kern_chan.c\<close>, \<open>fuse_loop.c\<close>): sessions and channels as objects on a heap,
    the channel to the kernel and the loop of one thread, which in a session as the low-level library sets it up (without
    \<open>splice\<close>) refines a server of the device. The loops have as
    fuel one more than the number of outcomes that the device has left.
  \<^item> \<open>Fuse_Workers\<close> (\<open>fuse_loop_mt.c\<close>): the pool of threads as interleaved steps, a critical section being one step; its
    invariant, the end of the loop, and the race of the main thread's walk along the workers.
  \<^item> \<open>Fuse_Wire\<close>, \<open>Fuse_Reply\<close>, \<open>Fuse_Ops\<close>, \<open>Fuse_Dispatch\<close>, \<open>Fuse_Protocol\<close> (\<open>fuse_lowlevel.c\<close>, \<open>fuse_kernel.h\<close>): the bytes of
    messages, replies and notifications, the handlers, and the way of a message to its handler. A request arrives at
    its operation as the kernel sent it, a reply is one well-formed message, messages out of order or without access have no effect,
    the negotiation stays within everybody's limits, and interruptions reach their requests.
  \<^item> \<open>Fuse_Lib\<close>, \<open>Fuse_Lib_Io\<close> (\<open>fuse_lib_*\<close> in \<open>fuse.c\<close>): every request handler of the path library and their table
    \<open>fuse_path_ops\<close>, on the state of the low-level library with \<open>struct fuse\<close>, the directory handles and the caller's context in its
    outside world. The handlers run in one thread, as in \<open>fuse_session_loop\<close>: a wait for a locked path is the outcome
    \<open>Blocked\<close>. Times and new pages come from lists in the state, \<open>utimensat\<close> is there, and bytes that the code leaves
    uninitialised are zero. The search for a hidden name has one round more than there are named nodes.
  \<^item> \<open>Fuse_Answers\<close>: whatever the filesystem does, a handler that returns has freed its request once and touched no other. \<open>Fuse_Messages\<close>:
    it has then sent exactly one message, the reply, in a journal of what the channel sends. \<open>Fuse_Calm\<close>:
    a request on a path is served there, with its locks given back. \<open>Fuse_Hide\<close>: the search for a hidden name ends. \<open>Fuse_Listing\<close>:
    a reader of a directory that takes pieces of any size sees every entry once and in order.
  \<^item> \<open>Fuse_Served\<close>: the composition of the protocol, the handlers and the nodes, from the bytes of a message over the call of the filesystem on a
    path to the bytes of the reply.

  \<^bold>\<open>Loops.\<close> Structural recursion or a measure where possible; fuel only where named above, with a
  theorem that it is enough.

  \<^bold>\<open>Not modelled.\<close> Debug output and messages on \<open>stderr\<close>; threads, except where stated; in
  the low-level protocol the transfer of messages and data through pipes, the options and the groups of a caller; the signals by which one thread
  interrupts a call in another; the construction of \<open>struct fuse\<close>; character devices, the lock manager and mounting, which are mostly calls of
  the operating system; the module \<open>iconv\<close>; the unfinished sketches \<open>shadowfile.c\<close> and \<open>shadowFilesystem.c\<close>, which do
  not compile.
\<close>

end
